(* ===== verification/Prelude.thy ===== *)
theory Prelude
  imports Main "HOL-Library.Word"
begin

text \<open>
  Shared vocabulary of the development: machine types, outcomes of a C++ call, the
  state-and-exception computations the stateful components are written in, byte buffers
  with bounds-checked block operations, and the generic lemmas about them.

  An outcome is a value or an \<open>err\<close>. \<open>OutOfRange\<close> is \<open>std::out_of_range\<close> (a failed
  \<open>.at()\<close>), \<open>RuntimeError\<close> carries a tag naming the throw site, \<open>ContextLengthExceeded\<close>
  is the exception of \<open>llm_model.h\<close>, \<open>UndefinedBehaviour\<close> is an access outside a buffer
  (or an overlapping \<open>memcpy\<close>), and \<open>Blocked\<close> is a call that never returns.
\<close>

named_theorems sx_simps \<open>unfolding rules of the state-and-exception computations\<close>
named_theorems steps \<open>what a computation does to the state, by its shape\<close>
named_theorems blit_simps \<open>lengths and slices of block writes\<close>

section \<open>Machine types\<close>

type_synonym u8 = "8 word"
type_synonym u16 = "16 word"
type_synonym u32 = "32 word"
type_synonym f32 = "32 word" \<comment> \<open>a float, as its bit pattern\<close>
type_synonym f64 = "64 word" \<comment> \<open>a double, as its bit pattern\<close>
type_synonym token = int     \<comment> \<open>an \<open>int32_t\<close> token id\<close>

text \<open>\<open>size_t\<close> values are \<open>nat\<close>; a subtraction that can go below zero wraps.\<close>

definition szsub :: "nat \<Rightarrow> nat \<Rightarrow> nat" where
  "szsub a b = (if b \<le> a then a - b else 2 ^ 64 - (b - a))"

lemma szsub_le [simp]: "b \<le> a \<Longrightarrow> szsub a b = a - b"
  by (simp add: szsub_def)

text \<open>\<open>static_cast<int32_t>\<close> of a wider integer.\<close>

definition to_i32 :: "int \<Rightarrow> int" where
  "to_i32 x = signed_take_bit 31 x"

lemma to_i32_id: "- (2 ^ 31) \<le> x \<Longrightarrow> x < 2 ^ 31 \<Longrightarrow> to_i32 x = x"
  by (simp add: to_i32_def signed_take_bit_int_eq_self)

section \<open>Outcomes\<close>

datatype err =
    OutOfRange
  | RuntimeError string
  | ContextLengthExceeded
  | UndefinedBehaviour
  | Blocked

type_synonym 'a res = "err + 'a"

definition rbind :: "'a res \<Rightarrow> ('a \<Rightarrow> 'b res) \<Rightarrow> 'b res" where
  "rbind m f = (case m of Inl e \<Rightarrow> Inl e | Inr a \<Rightarrow> f a)"

lemma rbind_simps [simp]: "rbind (Inl e) f = Inl e" "rbind (Inr a) f = f a"
  by (simp_all add: rbind_def)

lemma rbind_Inr_iff: "rbind m f = Inr b \<longleftrightarrow> (\<exists>a. m = Inr a \<and> f a = Inr b)"
  by (cases m) simp_all

lemma rbind_InrE [elim!]:
  assumes "rbind m f = Inr b"
  obtains a where "m = Inr a" "f a = Inr b"
  using assms by (auto simp: rbind_Inr_iff)

lemma rbind_assoc: "rbind (rbind m f) g = rbind m (\<lambda>a. rbind (f a) g)"
  by (cases m) simp_all

definition rguard :: "bool \<Rightarrow> err \<Rightarrow> unit res" where
  "rguard P e = (if P then Inr () else Inl e)"

lemma rguard_Inr_iff [simp]: "rguard P e = Inr u \<longleftrightarrow> P"
  by (simp add: rguard_def)

lemma rguard_True [simp]: "rguard True e = Inr ()"
  by (simp add: rguard_def)

lemma rguard_False [simp]: "rguard False e = Inl e"
  by (simp add: rguard_def)

text \<open>A counted or ranged \<open>for\<close> loop whose body may fail.\<close>

primrec rfor :: "('a \<Rightarrow> 's \<Rightarrow> 's res) \<Rightarrow> 'a list \<Rightarrow> 's \<Rightarrow> 's res" where
  "rfor f [] s = Inr s"
| "rfor f (x # xs) s = rbind (f x s) (rfor f xs)"

lemma rfor_append: "rfor f (xs @ ys) s = rbind (rfor f xs s) (rfor f ys)"
proof (induction xs arbitrary: s)
  case Nil
  then show ?case by simp
next
  case (Cons x xs)
  then show ?case by (cases "f x s") simp_all
qed

text \<open>Total correctness of such a loop from an indexed invariant.\<close>

lemma rfor_total:
  assumes "I 0 s"
    and "\<And>k s. k < length xs \<Longrightarrow> I k s \<Longrightarrow> \<exists>s'. f (xs ! k) s = Inr s' \<and> I (Suc k) s'"
  shows "\<exists>s'. rfor f xs s = Inr s' \<and> I (length xs) s'"
  using assms
proof (induction xs arbitrary: s I)
  case Nil
  then show ?case by simp
next
  case (Cons x xs)
  from Cons.prems(2) [of 0] Cons.prems(1) obtain s1 where
    s1: "f x s = Inr s1" "I (Suc 0) s1" by auto
  have step: "\<exists>s'. f (xs ! k) s = Inr s' \<and> I (Suc (Suc k)) s'"
    if "k < length xs" "I (Suc k) s" for k s
    using Cons.prems(2) [of "Suc k" s] that by simp
  from Cons.IH [of "\<lambda>k. I (Suc k)", OF s1(2) step]
  obtain s' where "rfor f xs s1 = Inr s'" "I (Suc (length xs)) s'" by blast
  with s1(1) show ?case by simp
qed

text \<open>Partial correctness: what every successful run preserves.\<close>

lemma rfor_inv:
  assumes "rfor f xs s = Inr s'" and "P s"
    and "\<And>x s s'. x \<in> set xs \<Longrightarrow> P s \<Longrightarrow> f x s = Inr s' \<Longrightarrow> P s'"
  shows "P s'"
  using assms
proof (induction xs arbitrary: s)
  case Nil
  then show ?case by simp
next
  case (Cons x xs)
  from Cons.prems(1) obtain s1 where "f x s = Inr s1" "rfor f xs s1 = Inr s'" by auto
  with Cons show ?case by (metis list.set_intros)
qed

section \<open>Computations with a state and exceptions\<close>

text \<open>
  A member function that may throw is a computation \<open>('s, 'a) sx\<close>: it returns an outcome
  and the object's state. The state is returned with an error too, because an exception
  leaves the object as it was when it was thrown.
\<close>

type_synonym ('s, 'a) sx = "'s \<Rightarrow> 'a res \<times> 's"

definition sret :: "'a \<Rightarrow> ('s, 'a) sx" where
  "sret a s = (Inr a, s)"

definition sthrow :: "err \<Rightarrow> ('s, 'a) sx" where
  "sthrow e s = (Inl e, s)"

definition sbind :: "('s, 'a) sx \<Rightarrow> ('a \<Rightarrow> ('s, 'b) sx) \<Rightarrow> ('s, 'b) sx" where
  "sbind m f s = (case m s of (Inl e, s') \<Rightarrow> (Inl e, s') | (Inr a, s') \<Rightarrow> f a s')"

definition sthen :: "('s, 'a) sx \<Rightarrow> ('s, 'b) sx \<Rightarrow> ('s, 'b) sx" where
  "sthen m k = sbind m (\<lambda>_. k)"

definition sget :: "('s \<Rightarrow> 'a) \<Rightarrow> ('s, 'a) sx" where
  "sget f s = (Inr (f s), s)"

definition smod :: "('s \<Rightarrow> 's) \<Rightarrow> ('s, unit) sx" where
  "smod f s = (Inr (), f s)"

definition swhen :: "bool \<Rightarrow> ('s, unit) sx \<Rightarrow> ('s, unit) sx" where
  "swhen b m = (if b then m else sret ())"

text \<open>A state-dependent computation, and a pure outcome used as one.\<close>

definition swith :: "('s \<Rightarrow> ('s, 'a) sx) \<Rightarrow> ('s, 'a) sx" where
  "swith f s = f s s"

definition slift :: "'a res \<Rightarrow> ('s, 'a) sx" where
  "slift r s = (r, s)"

text \<open>An update of the state that may fail; a failed one leaves the state as it was.\<close>

definition supd :: "('s \<Rightarrow> 's res) \<Rightarrow> ('s, unit) sx" where
  "supd f s = (case f s of Inl e \<Rightarrow> (Inl e, s) | Inr s' \<Rightarrow> (Inr (), s'))"

primrec sfor :: "('a \<Rightarrow> ('s, unit) sx) \<Rightarrow> 'a list \<Rightarrow> ('s, unit) sx" where
  "sfor f [] = sret ()"
| "sfor f (x # xs) = sthen (f x) (sfor f xs)"

lemmas sx_defs = sret_def sthrow_def sbind_def sthen_def sget_def smod_def swhen_def
  swith_def slift_def supd_def

lemma sx_run [sx_simps]:
  "sret a s = (Inr a, s)"
  "sthrow e s = (Inl e, s)"
  "sget g s = (Inr (g s), s)"
  "smod h s = (Inr (), h s)"
  "swith f s = f s s"
  "slift r s = (r, s)"
  by (simp_all add: sx_defs)

lemma sbind_run: "sbind m f s = (case m s of (Inl e, s') \<Rightarrow> (Inl e, s') | (Inr a, s') \<Rightarrow> f a s')"
  by (simp add: sbind_def)

lemma sthen_run: "sthen m k s = (case m s of (Inl e, s') \<Rightarrow> (Inl e, s') | (Inr a, s') \<Rightarrow> k s')"
  by (simp add: sthen_def sbind_def)

lemma supd_run: "supd f s = (case f s of Inl e \<Rightarrow> (Inl e, s) | Inr s' \<Rightarrow> (Inr (), s'))"
  by (simp add: supd_def)

lemma swhen_run: "swhen b m s = (if b then m s else (Inr (), s))"
  by (simp add: swhen_def sret_def)

lemma sbind_InrE:
  assumes "sbind m f s = (Inr b, s')"
  obtains a t where "m s = (Inr a, t)" "f a t = (Inr b, s')"
  using assms by (auto simp: sbind_def split: prod.splits sum.splits)

lemma sthen_InrE:
  assumes "sthen m k s = (Inr b, s')"
  obtains a t where "m s = (Inr a, t)" "k t = (Inr b, s')"
  using assms by (auto simp: sthen_def elim: sbind_InrE)

text \<open>What every step of a loop preserves, the loop preserves, whether or not it throws.\<close>

lemma sfor_inv:
  assumes "sfor f xs s = (r, s')" and "P s"
    and "\<And>x s r s'. x \<in> set xs \<Longrightarrow> P s \<Longrightarrow> f x s = (r, s') \<Longrightarrow> P s'"
  shows "P s'"
  using assms
proof (induction xs arbitrary: s)
  case Nil
  then show ?case by (simp add: sret_def)
next
  case (Cons x xs)
  obtain r1 s1 where s1: "f x s = (r1, s1)" by fastforce
  with Cons.prems have P1: "P s1" by (metis list.set_intros(1))
  have step: "\<And>y s r s'. y \<in> set xs \<Longrightarrow> P s \<Longrightarrow> f y s = (r, s') \<Longrightarrow> P s'"
    using Cons.prems(3) by (metis list.set_intros(2))
  show ?case
  proof (cases r1)
    case (Inl e)
    with Cons.prems(1) s1 P1 show ?thesis by (simp add: sthen_run)
  next
    case (Inr u)
    with Cons.prems(1) s1 have "sfor f xs s1 = (r, s')" by (simp add: sthen_run)
    then show ?thesis using P1 step by (rule Cons.IH)
  qed
qed

section \<open>What a computation does to the state\<close>

text \<open>
  \<open>steps_in R m\<close>: every run of \<open>m\<close>, also one that throws, relates the states by \<open>R\<close>. The
  rules follow the shape of the computation, for a reflexive and transitive \<open>R\<close>.
\<close>

definition steps_in :: "('s \<Rightarrow> 's \<Rightarrow> bool) \<Rightarrow> ('s, 'a) sx \<Rightarrow> bool" where
  "steps_in R m \<longleftrightarrow> (\<forall>s r s'. m s = (r, s') \<longrightarrow> R s s')"

definition preorder :: "('s \<Rightarrow> 's \<Rightarrow> bool) \<Rightarrow> bool" where
  "preorder R \<longleftrightarrow> (\<forall>s. R s s) \<and> (\<forall>s t u. R s t \<longrightarrow> R t u \<longrightarrow> R s u)"

lemma preorder_keeps [steps]: "preorder (\<lambda>s s'. P s \<longrightarrow> P s')"
  by (simp add: preorder_def)

lemma preorder_same [steps]: "preorder (\<lambda>s s'. f s' = f s)"
  by (simp add: preorder_def)

lemma steps_inD: "steps_in R m \<Longrightarrow> m s = (r, s') \<Longrightarrow> R s s'"
  by (simp add: steps_in_def)

lemma steps_in_mono: "steps_in R m \<Longrightarrow> (\<And>s s'. R s s' \<Longrightarrow> Q s s') \<Longrightarrow> steps_in Q m"
  by (simp add: steps_in_def)

lemma steps_in_basic [steps]:
  assumes "preorder R"
  shows "steps_in R (sret a)" "steps_in R (sthrow e)" "steps_in R (sget g)" "steps_in R (slift x)"
  using assms by (simp_all add: steps_in_def sx_defs preorder_def)

lemma steps_in_sbind [steps]:
  assumes "preorder R" "steps_in R m" "\<And>a. steps_in R (f a)"
  shows "steps_in R (sbind m f)"
  unfolding steps_in_def
proof (intro allI impI)
  fix s r s' assume run: "sbind m f s = (r, s')"
  obtain r1 s1 where s1: "m s = (r1, s1)" by fastforce
  then have "R s s1" using assms(2) by (simp add: steps_in_def)
  moreover have "r1 = Inr a \<Longrightarrow> R s1 s'" for a
    using run s1 assms(3) [of a] by (simp add: sbind_run steps_in_def)
  ultimately show "R s s'"
    using run s1 assms(1) by (cases r1) (auto simp: sbind_run preorder_def)
qed

lemma steps_in_sthen [steps]: "preorder R \<Longrightarrow> steps_in R m \<Longrightarrow> steps_in R k \<Longrightarrow> steps_in R (sthen m k)"
  unfolding sthen_def by (rule steps_in_sbind)

lemma steps_in_swith [steps]: "(\<And>s. steps_in R (f s)) \<Longrightarrow> steps_in R (swith f)"
  by (simp add: steps_in_def sx_simps)

lemma steps_in_swhen [steps]: "preorder R \<Longrightarrow> (b \<Longrightarrow> steps_in R m) \<Longrightarrow> steps_in R (swhen b m)"
  by (simp add: steps_in_def swhen_run preorder_def)

lemma steps_in_smod [steps]: "(\<And>s. R s (h s)) \<Longrightarrow> steps_in R (smod h)"
  by (simp add: steps_in_def sx_simps)

lemma steps_in_supd [steps]: "preorder R \<Longrightarrow> (\<And>s s'. f s = Inr s' \<Longrightarrow> R s s') \<Longrightarrow> steps_in R (supd f)"
  by (auto simp: steps_in_def supd_def preorder_def split: sum.splits)

lemma steps_in_sfor [steps]:
  assumes "preorder R" "\<And>x. x \<in> set xs \<Longrightarrow> steps_in R (f x)"
  shows "steps_in R (sfor f xs)"
  using assms(2)
proof (induction xs)
  case Nil
  then show ?case using assms(1) by (simp add: steps_in_basic)
next
  case (Cons x xs)
  then show ?case using assms(1) by (simp add: steps_in_sthen)
qed

lemma steps_in_if [steps]:
  "(b \<Longrightarrow> steps_in R m) \<Longrightarrow> (\<not> b \<Longrightarrow> steps_in R k) \<Longrightarrow> steps_in R (if b then m else k)"
  by simp

lemma steps_in_option [steps]:
  "steps_in R m \<Longrightarrow> (\<And>y. steps_in R (k y)) \<Longrightarrow> steps_in R (case x of None \<Rightarrow> m | Some y \<Rightarrow> k y)"
  by (cases x) simp_all

text \<open>What the value of a run tells, and a run that cannot fail.\<close>

lemma sfor_append: "sfor f (xs @ ys) s = sthen (sfor f xs) (sfor f ys) s"
proof (induction xs arbitrary: s)
  case Nil
  then show ?case by (simp add: sthen_run sx_simps)
next
  case (Cons x xs)
  then show ?case by (simp add: sthen_run split: prod.splits sum.splits)
qed

lemma sfor_total:
  assumes "I 0 s"
    and "\<And>k s. k < length xs \<Longrightarrow> I k s \<Longrightarrow> \<exists>s'. f (xs ! k) s = (Inr (), s') \<and> I (Suc k) s'"
  shows "\<exists>s'. sfor f xs s = (Inr (), s') \<and> I (length xs) s'"
  using assms
proof (induction xs arbitrary: s I)
  case Nil
  then show ?case by (simp add: sx_simps)
next
  case (Cons x xs)
  from Cons.prems(2) [of 0] Cons.prems(1) obtain s1 where
    s1: "f x s = (Inr (), s1)" "I (Suc 0) s1" by auto
  have step: "\<exists>s'. f (xs ! k) s = (Inr (), s') \<and> I (Suc (Suc k)) s'"
    if "k < length xs" "I (Suc k) s" for k s
    using Cons.prems(2) [of "Suc k" s] that by simp
  from Cons.IH [of "\<lambda>k. I (Suc k)", OF s1(2) step]
  obtain s' where "sfor f xs s1 = (Inr (), s')" "I (Suc (length xs)) s'" by blast
  with s1(1) show ?case by (auto simp: sthen_run)
qed

end
