(* ===== verification/Buffers.thy ===== *)
theory Buffers
  imports Prelude
begin

text \<open>
  Byte buffers and the block operations the code applies to them. A buffer is a list of
  bytes; \<open>memcpy\<close>, \<open>memmove\<close> and \<open>fill\<close> are bounds-checked and an access outside the
  buffer is the outcome \<open>UndefinedBehaviour\<close>. The memory of a model is a map from buffer
  ids to buffers, so that two tensors given the same id share their bytes, as the graph
  variants of a shard do.
\<close>

section \<open>Slices and block writes of a list\<close>

definition slice :: "nat \<Rightarrow> nat \<Rightarrow> 'a list \<Rightarrow> 'a list" where
  "slice off n xs = take n (drop off xs)"

definition blit :: "nat \<Rightarrow> 'a list \<Rightarrow> 'a list \<Rightarrow> 'a list" where
  "blit off bs xs = take off xs @ bs @ drop (off + length bs) xs"

lemma length_slice [blit_simps]: "off + n \<le> length xs \<Longrightarrow> length (slice off n xs) = n"
  by (simp add: slice_def)

lemma length_blit [blit_simps]: "off + length bs \<le> length xs \<Longrightarrow> length (blit off bs xs) = length xs"
  by (simp add: blit_def)

lemma slice_0 [simp]: "slice off 0 xs = []"
  by (simp add: slice_def)

lemma blit_Nil [simp]: "blit off [] xs = xs"
  by (simp add: blit_def)

lemma slice_all [simp]: "slice 0 (length xs) xs = xs"
  by (simp add: slice_def)

lemma nth_slice: "i < n \<Longrightarrow> off + n \<le> length xs \<Longrightarrow> slice off n xs ! i = xs ! (off + i)"
  by (simp add: slice_def)

lemma nth_blit:
  "off + length bs \<le> length xs \<Longrightarrow> i < length xs \<Longrightarrow>
   blit off bs xs ! i = (if off \<le> i \<and> i < off + length bs then bs ! (i - off) else xs ! i)"
  by (auto simp: blit_def nth_append min_def)

lemma slice_eq_iff_nth:
  "off + n \<le> length xs \<Longrightarrow> off' + n \<le> length ys \<Longrightarrow>
   slice off n xs = slice off' n ys \<longleftrightarrow> (\<forall>i<n. xs ! (off + i) = ys ! (off' + i))"
  by (auto simp: list_eq_iff_nth_eq length_slice nth_slice)

lemma slice_slice [blit_simps]:
  "a + m \<le> n \<Longrightarrow> slice a m (slice off n xs) = slice (off + a) m xs"
  by (simp add: slice_def drop_take min_absorb1 add.commute [of off a])

lemma slice_blit_same [blit_simps]:
  "off \<le> length xs \<Longrightarrow> slice off (length bs) (blit off bs xs) = bs"
  by (simp add: slice_def blit_def)

lemma slice_blit_within:
  "off \<le> a \<Longrightarrow> a + n \<le> off + length bs \<Longrightarrow> off + length bs \<le> length xs \<Longrightarrow>
   slice a n (blit off bs xs) = slice (a - off) n bs"
  by (intro nth_equalityI) (auto simp: length_slice length_blit nth_slice nth_blit)

lemma slice_blit_other [blit_simps]:
  assumes "a + n \<le> off \<or> off + length bs \<le> a"
    and "off + length bs \<le> length xs" "a + n \<le> length xs"
  shows "slice a n (blit off bs xs) = slice a n xs"
  using assms by (intro nth_equalityI) (auto simp: length_slice length_blit nth_slice nth_blit)

lemma take_blit: "n \<le> off \<Longrightarrow> off \<le> length xs \<Longrightarrow> take n (blit off bs xs) = take n xs"
  by (simp add: blit_def min_def)

lemma drop_blit:
  "off + length bs \<le> n \<Longrightarrow> off \<le> length xs \<Longrightarrow> drop n (blit off bs xs) = drop n xs"
  by (simp add: blit_def min_def)

lemma slice_append_slice:
  "slice off m xs @ slice (off + m) n xs = slice off (m + n) xs"
  by (simp add: slice_def take_add add.commute [of m off])

section \<open>Block operations inside one buffer\<close>

definition buf_memmove :: "nat \<Rightarrow> nat \<Rightarrow> nat \<Rightarrow> 'a list \<Rightarrow> 'a list res" where
  "buf_memmove dst src n xs =
     (if src + n \<le> length xs \<and> dst + n \<le> length xs
      then Inr (blit dst (slice src n xs) xs) else Inl UndefinedBehaviour)"

definition buf_store :: "nat \<Rightarrow> 'a list \<Rightarrow> 'a list \<Rightarrow> 'a list res" where
  "buf_store dst bs xs =
     (if dst + length bs \<le> length xs then Inr (blit dst bs xs) else Inl UndefinedBehaviour)"

definition buf_load :: "nat \<Rightarrow> nat \<Rightarrow> 'a list \<Rightarrow> 'a list res" where
  "buf_load src n xs =
     (if src + n \<le> length xs then Inr (slice src n xs) else Inl UndefinedBehaviour)"

lemma buf_memmove_ok:
  "src + n \<le> length xs \<Longrightarrow> dst + n \<le> length xs \<Longrightarrow>
   buf_memmove dst src n xs = Inr (blit dst (slice src n xs) xs)"
  by (simp add: buf_memmove_def)

lemma buf_memmove_length: "buf_memmove dst src n xs = Inr ys \<Longrightarrow> length ys = length xs"
  by (auto simp: buf_memmove_def length_blit length_slice split: if_splits)

lemma buf_store_length: "buf_store dst bs xs = Inr ys \<Longrightarrow> length ys = length xs"
  by (auto simp: buf_store_def length_blit split: if_splits)

section \<open>Memory\<close>

type_synonym mem = "nat \<Rightarrow> u8 list"

definition mem_load :: "nat \<Rightarrow> nat \<Rightarrow> nat \<Rightarrow> mem \<Rightarrow> u8 list res" where
  "mem_load b off n m = buf_load off n (m b)"

definition mem_store :: "nat \<Rightarrow> nat \<Rightarrow> u8 list \<Rightarrow> mem \<Rightarrow> mem res" where
  "mem_store b off bs m = rbind (buf_store off bs (m b)) (\<lambda>xs. Inr (m(b := xs)))"

text \<open>An update of one buffer.\<close>

definition mem_on :: "nat \<Rightarrow> (u8 list \<Rightarrow> u8 list res) \<Rightarrow> mem \<Rightarrow> mem res" where
  "mem_on b f m = rbind (f (m b)) (\<lambda>xs. Inr (m(b := xs)))"

text \<open>\<open>memcpy\<close>: the regions may not overlap.\<close>

definition mem_copy :: "nat \<Rightarrow> nat \<Rightarrow> nat \<Rightarrow> nat \<Rightarrow> nat \<Rightarrow> mem \<Rightarrow> mem res" where
  "mem_copy db doff sb soff n m =
     (if db = sb \<and> soff < doff + n \<and> doff < soff + n then Inl UndefinedBehaviour
      else rbind (mem_load sb soff n m) (\<lambda>bs. mem_store db doff bs m))"

lemma mem_store_ok:
  "off + length bs \<le> length (m b) \<Longrightarrow> mem_store b off bs m = Inr (m(b := blit off bs (m b)))"
  by (simp add: mem_store_def buf_store_def)

lemma mem_store_InrD:
  "mem_store b off bs m = Inr m' \<Longrightarrow>
   off + length bs \<le> length (m b) \<and> m' = m(b := blit off bs (m b))"
  by (auto simp: mem_store_def buf_store_def split: if_splits)

lemma mem_copy_ok:
  "db \<noteq> sb \<Longrightarrow> soff + n \<le> length (m sb) \<Longrightarrow> doff + n \<le> length (m db) \<Longrightarrow>
   mem_copy db doff sb soff n m = Inr (m(db := blit doff (slice soff n (m sb)) (m db)))"
  by (simp add: mem_copy_def mem_load_def buf_load_def mem_store_ok length_slice)

lemma mem_copy_frame:
  "mem_copy db doff sb soff n m = Inr m' \<Longrightarrow> b \<noteq> db \<Longrightarrow> m' b = m b"
  by (auto simp: mem_copy_def dest!: mem_store_InrD split: if_splits)

lemma mem_copy_length:
  "mem_copy db doff sb soff n m = Inr m' \<Longrightarrow> length (m' b) = length (m b)"
  by (auto simp: mem_copy_def length_blit dest!: mem_store_InrD split: if_splits)

lemma mem_on_frame: "mem_on b f m = Inr m' \<Longrightarrow> b' \<noteq> b \<Longrightarrow> m' b' = m b'"
  by (auto simp: mem_on_def)

lemma mem_on_at: "mem_on b f m = Inr m' \<Longrightarrow> f (m b) = Inr (m' b)"
  by (auto simp: mem_on_def)

end
