(* ===== verification/Tensors.thy ===== *)
theory Tensors
  imports Buffers
begin

text \<open>
  Tensor metadata: \<open>Qnn_DataType_t\<close>, the QNN tensor descriptor the graph loader hands over,
  and \<open>TensorSpec\<close> with its size functions (\<open>core/include/types.h\<close>), the size function of
  \<open>core/include/utils.h\<close>, the encoded-zero table and fill of \<open>core/src/llm/llm_model.cpp\<close>,
  and little-endian byte encodings of the fixed-width scalars stored in the buffers.
\<close>

section \<open>Data types\<close>

datatype qnn_dtype =
    INT_8 | INT_16 | INT_32 | INT_64
  | UINT_8 | UINT_16 | UINT_32 | UINT_64
  | FLOAT_16 | FLOAT_32 | FLOAT_64
  | SFIXED_POINT_4 | SFIXED_POINT_8 | SFIXED_POINT_16 | SFIXED_POINT_32
  | UFIXED_POINT_4 | UFIXED_POINT_8 | UFIXED_POINT_16 | UFIXED_POINT_32
  | BOOL_8 | STRING_T | UNDEFINED_T

text \<open>\<open>quantizationEncoding\<close> with the payload the code reads; the other encodings are one case.\<close>

datatype quant_params =
    ScaleOffset f32 int
  | AxisScaleOffset "(f32 \<times> int) list"
  | OtherEncoding

record qnn_tensor =
  qt_name :: string
  qt_dtype :: qnn_dtype
  qt_type :: nat
  qt_dims :: "nat list"
  qt_quant :: quant_params
  qt_dynamic :: "bool list option"

record tensor_spec =
  ts_name :: string
  ts_dtype :: qnn_dtype
  ts_type :: nat
  ts_shape :: "nat list"
  ts_quant_scale :: f32
  ts_quant_offset :: int
  ts_axis_quant :: "(f32 \<times> int) list"
  ts_has_dynamic_dims :: bool

definition elementSize :: "qnn_dtype \<Rightarrow> nat" where
  "elementSize dt = (case dt of
      FLOAT_32 \<Rightarrow> 4 | INT_32 \<Rightarrow> 4 | UINT_32 \<Rightarrow> 4 | SFIXED_POINT_32 \<Rightarrow> 4 | UFIXED_POINT_32 \<Rightarrow> 4
    | FLOAT_16 \<Rightarrow> 2 | INT_16 \<Rightarrow> 2 | UINT_16 \<Rightarrow> 2 | SFIXED_POINT_16 \<Rightarrow> 2 | UFIXED_POINT_16 \<Rightarrow> 2
    | INT_8 \<Rightarrow> 1 | UINT_8 \<Rightarrow> 1 | SFIXED_POINT_8 \<Rightarrow> 1 | UFIXED_POINT_8 \<Rightarrow> 1 | BOOL_8 \<Rightarrow> 1
    | INT_64 \<Rightarrow> 8 | UINT_64 \<Rightarrow> 8 | FLOAT_64 \<Rightarrow> 8
    | _ \<Rightarrow> 0)"

definition elementCount :: "tensor_spec \<Rightarrow> nat" where
  "elementCount ts = foldl (\<lambda>n d. n * d) 1 (ts_shape ts)"

definition byteCount :: "tensor_spec \<Rightarrow> nat" where
  "byteCount ts = elementSize (ts_dtype ts) * elementCount ts"

text \<open>\<open>tensorByteSize\<close> of \<open>utils.h\<close> has its own table, and throws on the rest.\<close>

definition dtypeBytes :: "qnn_dtype \<Rightarrow> nat res" where
  "dtypeBytes d = (case d of
      INT_8 \<Rightarrow> Inr 1 | UINT_8 \<Rightarrow> Inr 1 | SFIXED_POINT_8 \<Rightarrow> Inr 1 | UFIXED_POINT_8 \<Rightarrow> Inr 1
    | BOOL_8 \<Rightarrow> Inr 1
    | INT_16 \<Rightarrow> Inr 2 | UINT_16 \<Rightarrow> Inr 2 | FLOAT_16 \<Rightarrow> Inr 2 | SFIXED_POINT_16 \<Rightarrow> Inr 2
    | UFIXED_POINT_16 \<Rightarrow> Inr 2
    | INT_32 \<Rightarrow> Inr 4 | UINT_32 \<Rightarrow> Inr 4 | FLOAT_32 \<Rightarrow> Inr 4 | SFIXED_POINT_32 \<Rightarrow> Inr 4
    | UFIXED_POINT_32 \<Rightarrow> Inr 4
    | INT_64 \<Rightarrow> Inr 8 | UINT_64 \<Rightarrow> Inr 8 | FLOAT_64 \<Rightarrow> Inr 8
    | _ \<Rightarrow> Inl (RuntimeError ''tensorByteSize: unsupported dtype''))"

definition tensorByteSize :: "qnn_tensor \<Rightarrow> nat res" where
  "tensorByteSize t =
     (let n = foldl (\<lambda>n d. n * d) 1 (qt_dims t)
      in rbind (dtypeBytes (qt_dtype t)) (\<lambda>b. Inr (n * b)))"

text \<open>\<open>makeSpec\<close> of \<open>Graph::buildSpecs\<close>; an absent quantization keeps the defaults 1.0 and 0.\<close>

definition f32_one :: f32 where
  "f32_one = 0x3F800000"

definition makeSpec :: "qnn_tensor \<Rightarrow> tensor_spec" where
  "makeSpec t = \<lparr>
     ts_name = qt_name t, ts_dtype = qt_dtype t, ts_type = qt_type t, ts_shape = qt_dims t,
     ts_quant_scale = (case qt_quant t of ScaleOffset s _ \<Rightarrow> s | _ \<Rightarrow> f32_one),
     ts_quant_offset = (case qt_quant t of ScaleOffset _ z \<Rightarrow> z | _ \<Rightarrow> 0),
     ts_axis_quant = (case qt_quant t of AxisScaleOffset qs \<Rightarrow> qs | _ \<Rightarrow> []),
     ts_has_dynamic_dims = (case qt_dynamic t of None \<Rightarrow> False
        | Some dyn \<Rightarrow> list_ex (\<lambda>b. b) (take (length (qt_dims t)) dyn)) \<rparr>"

lemma tensorByteSize_makeSpec:
  "tensorByteSize t =
     (if elementSize (qt_dtype t) = 0
      then Inl (RuntimeError ''tensorByteSize: unsupported dtype'')
      else Inr (byteCount (makeSpec t)))"
  by (cases "qt_dtype t")
    (simp_all add: tensorByteSize_def dtypeBytes_def byteCount_def elementCount_def makeSpec_def
      elementSize_def)

section \<open>Integer types and encoded zeros\<close>

definition isIntegerDtype :: "qnn_dtype \<Rightarrow> bool" where
  "isIntegerDtype dt =
     (case dt of INT_8 \<Rightarrow> True | INT_16 \<Rightarrow> True | INT_32 \<Rightarrow> True | INT_64 \<Rightarrow> True
      | UINT_8 \<Rightarrow> True | UINT_16 \<Rightarrow> True | UINT_32 \<Rightarrow> True | UINT_64 \<Rightarrow> True | BOOL_8 \<Rightarrow> True
      | _ \<Rightarrow> False)"

record EncodedZero =
  ez_supported :: bool
  ez_wide :: bool
  ez_byte :: u8
  ez_u16 :: u16

definition encodedZeroForDtype :: "qnn_dtype \<Rightarrow> EncodedZero" where
  "encodedZeroForDtype dt =
     (case dt of
        UFIXED_POINT_8 \<Rightarrow> \<lparr>ez_supported = True, ez_wide = False, ez_byte = 0x80, ez_u16 = 0\<rparr>
      | UINT_8 \<Rightarrow> \<lparr>ez_supported = True, ez_wide = False, ez_byte = 0x80, ez_u16 = 0\<rparr>
      | SFIXED_POINT_8 \<Rightarrow> \<lparr>ez_supported = True, ez_wide = False, ez_byte = 0, ez_u16 = 0\<rparr>
      | INT_8 \<Rightarrow> \<lparr>ez_supported = True, ez_wide = False, ez_byte = 0, ez_u16 = 0\<rparr>
      | BOOL_8 \<Rightarrow> \<lparr>ez_supported = True, ez_wide = False, ez_byte = 0, ez_u16 = 0\<rparr>
      | UFIXED_POINT_16 \<Rightarrow> \<lparr>ez_supported = True, ez_wide = True, ez_byte = 0, ez_u16 = 0x8000\<rparr>
      | UINT_16 \<Rightarrow> \<lparr>ez_supported = True, ez_wide = True, ez_byte = 0, ez_u16 = 0x8000\<rparr>
      | SFIXED_POINT_16 \<Rightarrow> \<lparr>ez_supported = True, ez_wide = True, ez_byte = 0, ez_u16 = 0\<rparr>
      | INT_16 \<Rightarrow> \<lparr>ez_supported = True, ez_wide = True, ez_byte = 0, ez_u16 = 0\<rparr>
      | FLOAT_16 \<Rightarrow> \<lparr>ez_supported = True, ez_wide = True, ez_byte = 0, ez_u16 = 0\<rparr>
      | FLOAT_32 \<Rightarrow> \<lparr>ez_supported = True, ez_wide = False, ez_byte = 0, ez_u16 = 0\<rparr>
      | INT_32 \<Rightarrow> \<lparr>ez_supported = True, ez_wide = False, ez_byte = 0, ez_u16 = 0\<rparr>
      | UINT_32 \<Rightarrow> \<lparr>ez_supported = True, ez_wide = False, ez_byte = 0, ez_u16 = 0\<rparr>
      | SFIXED_POINT_32 \<Rightarrow> \<lparr>ez_supported = True, ez_wide = False, ez_byte = 0, ez_u16 = 0\<rparr>
      | UFIXED_POINT_32 \<Rightarrow> \<lparr>ez_supported = True, ez_wide = False, ez_byte = 0, ez_u16 = 0\<rparr>
      | _ \<Rightarrow> \<lparr>ez_supported = False, ez_wide = False, ez_byte = 0, ez_u16 = 0\<rparr>)"

section \<open>Little-endian encodings\<close>

primrec le_bytes :: "nat \<Rightarrow> 'a::len word \<Rightarrow> u8 list" where
  "le_bytes 0 w = []"
| "le_bytes (Suc n) w = ucast w # le_bytes n (drop_bit 8 w)"

primrec of_le :: "u8 list \<Rightarrow> 'a::len word" where
  "of_le [] = 0"
| "of_le (b # bs) = ucast b + push_bit 8 (of_le bs)"

lemma length_le_bytes [simp]: "length (le_bytes n w) = n"
  by (induction n arbitrary: w) simp_all

text \<open>An array of scalars of width \<open>n\<close> bytes, as it lies in memory.\<close>

definition le_array :: "nat \<Rightarrow> 'a::len word list \<Rightarrow> u8 list" where
  "le_array n ws = concat (map (le_bytes n) ws)"

definition of_le_array :: "nat \<Rightarrow> nat \<Rightarrow> u8 list \<Rightarrow> 'a::len word list" where
  "of_le_array n k bs = map (\<lambda>i. of_le (slice (i * n) n bs)) [0..<k]"

lemma length_concat_map_le: "length (concat (map (le_bytes n) ws)) = length ws * n"
  by (induction ws) simp_all

lemma length_le_array [simp]: "length (le_array n ws) = length ws * n"
  by (simp add: le_array_def length_concat_map_le)

section \<open>Filling with the encoded zero\<close>

definition encoded_zero_bytes :: "qnn_dtype \<Rightarrow> nat \<Rightarrow> u8 list" where
  "encoded_zero_bytes dt n =
     (let z = encodedZeroForDtype dt
      in if ez_wide z then le_array 2 (replicate (n div 2) (ez_u16 z)) else replicate n (ez_byte z))"

definition fillEncodedZero :: "nat \<Rightarrow> nat \<Rightarrow> qnn_dtype \<Rightarrow> u8 list \<Rightarrow> u8 list res" where
  "fillEncodedZero dst n_bytes dt buf =
     (let z = encodedZeroForDtype dt
      in if \<not> ez_supported z then Inr buf
         else buf_store dst (encoded_zero_bytes dt n_bytes) buf)"

lemma length_encoded_zero_bytes:
  "ez_wide (encodedZeroForDtype dt) \<longrightarrow> even n \<Longrightarrow> length (encoded_zero_bytes dt n) = n"
  by (auto simp: encoded_zero_bytes_def Let_def)

lemma ez_wide_elementSize:
  "ez_wide (encodedZeroForDtype dt) \<Longrightarrow> elementSize dt = 2"
  by (cases dt) (simp_all add: encodedZeroForDtype_def elementSize_def)

lemma length_encoded_zero_elems [simp]:
  "length (encoded_zero_bytes dt (n * elementSize dt)) = n * elementSize dt"
  by (rule length_encoded_zero_bytes) (auto dest: ez_wide_elementSize)

lemma fillEncodedZero_length: "fillEncodedZero dst n dt xs = Inr ys \<Longrightarrow> length ys = length xs"
  by (auto simp: fillEncodedZero_def Let_def dest: buf_store_length split: if_splits)

lemma fillEncodedZero_ok:
  assumes "ez_supported (encodedZeroForDtype dt)" "dst + n * elementSize dt \<le> length xs"
  shows "fillEncodedZero dst (n * elementSize dt) dt xs
         = Inr (blit dst (encoded_zero_bytes dt (n * elementSize dt)) xs)"
  using assms by (simp add: fillEncodedZero_def Let_def buf_store_def)

lemma ucast_u8_take_bit: "(ucast (ucast (w :: 'a::len word) :: u8) :: 'a word) = take_bit 8 w"
  by (rule bit_word_eqI) (auto simp: bit_simps)

lemma of_le_le_bytes: "of_le (le_bytes n w) = take_bit (8 * n) (w :: 'a::len word)"
proof (induction n arbitrary: w)
  case 0
  then show ?case by simp
next
  case (Suc n)
  have "push_bit 8 (drop_bit 8 (take_bit (8 + 8 * n) w)) + take_bit 8 (take_bit (8 + 8 * n) w)
        = take_bit (8 + 8 * n) w"
    by (rule bits_ident)
  moreover have "drop_bit 8 (take_bit (8 + 8 * n) w) = take_bit (8 * n) (drop_bit 8 w)"
    by (simp add: drop_bit_take_bit)
  moreover have "take_bit 8 (take_bit (8 + 8 * n) w) = take_bit 8 w" by simp
  ultimately show ?case
    by (simp add: Suc.IH ucast_u8_take_bit add.commute)
qed

lemma of_le_le_bytes_full:
  "8 * n = LENGTH('a) \<Longrightarrow> of_le (le_bytes n w) = (w :: 'a::len word)"
  by (simp add: of_le_le_bytes)

lemma slice_le_array:
  "i < length ws \<Longrightarrow> slice (i * n) n (le_array n ws) = le_bytes n (ws ! i)"
proof (induction ws arbitrary: i)
  case Nil
  then show ?case by simp
next
  case (Cons w ws)
  show ?case
  proof (cases i)
    case 0
    then show ?thesis by (simp add: slice_def le_array_def)
  next
    case (Suc j)
    with Cons show ?thesis by (simp add: slice_def le_array_def)
  qed
qed

lemma of_le_array_le_array:
  "8 * n = LENGTH('a) \<Longrightarrow> of_le_array n (length ws) (le_array n ws) = (ws :: 'a::len word list)"
  by (intro nth_equalityI) (simp_all add: of_le_array_def slice_le_array of_le_le_bytes_full)

end
