(* ===== verification/Half.thy ===== *)
theory Half
  imports Tensors
begin

text \<open>
  The bit-level float16 conversions of \<open>core/src/utils.cpp\<close>: \<open>floatToHalf\<close> (round to
  nearest, ties to even) and \<open>halfToFloat\<close>, on the 32- and 16-bit patterns. The
  normalisation loop of \<open>halfToFloat\<close> runs on fuel; \<open>half_norm_enough\<close> shows that the
  fuel given is enough for every subnormal mantissa, and \<open>floatToHalf_halfToFloat\<close> shows that
  narrowing a widened half gives it back, for every pattern that is not a NaN.
\<close>

unbundle bit_operations_syntax

section \<open>The code\<close>

definition floatToHalf :: "f32 \<Rightarrow> u16" where
  "floatToHalf x =
     (let sign = drop_bit 16 x AND 0x8000;
          exp = uint (drop_bit 23 x AND 0xFF) - 127 + 15;
          mant = x AND 0x7FFFFF
      in if 31 \<le> exp then ucast (sign OR 0x7C00)
         else if exp \<le> 0 then
           (if exp < - 10 then ucast sign
            else let m = mant OR 0x800000;
                     shift = nat (14 - exp);
                     half = push_bit (shift - 1) (1 :: u32);
                     round_bit = (m AND half) \<noteq> 0;
                     sticky = (m AND (half - 1)) \<noteq> 0;
                     q = drop_bit shift m;
                     q = (if round_bit \<and> (sticky \<or> (q AND 1) \<noteq> 0) then q + 1 else q)
                 in ucast (sign OR q))
         else let round_bit = (mant AND 0x1000) \<noteq> 0;
                  sticky = (mant AND 0x0FFF) \<noteq> 0;
                  q = push_bit 10 (word_of_int exp) OR drop_bit 13 mant;
                  q = q OR sign;
                  q = (if round_bit \<and> (sticky \<or> (q AND 1) \<noteq> 0) then q + 1 else q)
              in ucast q)"

text \<open>The \<open>do \<dots> while ((mant & 0x400) == 0)\<close> loop, with fuel.\<close>

fun half_norm :: "nat \<Rightarrow> u32 \<Rightarrow> int \<Rightarrow> (u32 \<times> int) option" where
  "half_norm 0 mant e = None"
| "half_norm (Suc fuel) mant e =
     (let mant = push_bit 1 mant; e = e + 1
      in if mant AND 0x400 = 0 then half_norm fuel mant e else Some (mant, e))"

definition halfToFloat :: "u16 \<Rightarrow> f32" where
  "halfToFloat h =
     (let sign = push_bit 16 (ucast h AND 0x8000 :: u32);
          exp = drop_bit 10 (ucast h) AND 0x1F :: u32;
          mant = ucast h AND 0x3FF :: u32
      in if exp = 0 then
           (if mant = 0 then sign
            else (case half_norm 10 mant (- 1) of
                    None \<Rightarrow> 0
                  | Some (mant, e) \<Rightarrow>
                      sign OR push_bit 23 (word_of_int (127 - 15 - e)) OR push_bit 13 (mant AND 0x3FF)))
         else if exp = 31 then sign OR 0x7F800000 OR push_bit 13 mant
         else sign OR push_bit 23 (exp - 15 + 127) OR push_bit 13 mant)"

definition floatToFloat16 :: "f32 list \<Rightarrow> u16 list" where
  "floatToFloat16 xs = map floatToHalf xs"

definition float16ToFloat :: "u16 list \<Rightarrow> f32 list" where
  "float16ToFloat hs = map halfToFloat hs"

section \<open>Fields of a float pattern\<close>

definition pack32 :: "u32 \<Rightarrow> u32 \<Rightarrow> u32 \<Rightarrow> u32" where
  "pack32 s e m = s OR push_bit 23 e OR push_bit 13 m"

definition bits_below :: "nat \<Rightarrow> u32 \<Rightarrow> bool" where
  "bits_below n w \<longleftrightarrow> (\<forall>i. bit w i \<longrightarrow> i < n)"

lemma bits_below_iff: "n < 32 \<Longrightarrow> bits_below n w \<longleftrightarrow> unat w < 2 ^ n"
proof
  assume n: "n < 32" and "bits_below n w"
  then have "take_bit n w = w"
    by (intro bit_word_eqI) (auto simp: bits_below_def bit_simps)
  then have "unat (take_bit n w) = unat w" by simp
  then show "unat w < 2 ^ n" by (metis take_bit_nat_less_exp unsigned_take_bit_eq)
next
  assume n: "n < 32" and "unat w < 2 ^ n"
  then have "take_bit n w = w" by (metis take_bit_nat_eq_self unsigned_take_bit_eq word_unat_eq_iff)
  then show "bits_below n w" by (metis bit_take_bit_iff bits_below_def)
qed

lemma and_pow2_eq_0: "(w :: u32) AND 2 ^ n = 0 \<longleftrightarrow> \<not> bit w n"
  by (rule and_exp_eq_0_iff_not_bit)

lemma mask_numerals:
  "(0x3FF :: u32) = mask 10" "(0x1F :: u32) = mask 5" "(0x7FFFFF :: u32) = mask 23"
  "(0xFF :: u32) = mask 8" "(0xFFF :: u32) = mask 12"
  by (simp_all add: mask_eq_exp_minus_1)

lemma pow_numerals:
  "(0x400 :: u32) = 2 ^ 10" "(0x8000 :: u32) = 2 ^ 15" "(0x800000 :: u32) = 2 ^ 23"
  "(0x1000 :: u32) = 2 ^ 12"
  by simp_all

lemma bit_0x8000: "bit (0x8000 :: u32) i \<longleftrightarrow> i = 15"
  by (subst pow_numerals(2)) (simp only: bit_exp_iff possible_bit_word, auto)

lemma bit_0x800000: "bit (0x800000 :: u32) i \<longleftrightarrow> i = 23"
  by (subst pow_numerals(3)) (simp only: bit_exp_iff possible_bit_word, auto)

lemma bit_times_2: "bit ((m :: u32) * 2) i \<longleftrightarrow> i < 32 \<and> 0 < i \<and> bit m (i - 1)"
  using bit_push_bit_iff [of 1 m i] by (auto simp: possible_bit_word)

definition only_sign :: "u32 \<Rightarrow> bool" where
  "only_sign s \<longleftrightarrow> (\<forall>i. bit s i \<longrightarrow> i = 31)"

lemma pack32_fields:
  assumes s: "only_sign s" and e: "bits_below 8 e" and m: "bits_below 10 m"
  shows "drop_bit 16 (pack32 s e m) AND 0x8000 = drop_bit 16 s"
    and "drop_bit 23 (pack32 s e m) AND 0xFF = e"
    and "pack32 s e m AND 0x7FFFFF = push_bit 13 m"
proof -
  show "drop_bit 16 (pack32 s e m) AND 0x8000 = drop_bit 16 s"
  proof (rule bit_word_eqI)
    fix i assume i: "i < LENGTH(32)"
    show "bit (drop_bit 16 (pack32 s e m) AND 0x8000) i = bit (drop_bit 16 s) i"
      unfolding pack32_def
      using s e m i bit_0x8000 [of i]
      by (cases "i = 15") (auto simp: bit_simps bits_below_def only_sign_def)
  qed
  show "drop_bit 23 (pack32 s e m) AND 0xFF = e"
  proof (rule bit_word_eqI)
    fix i assume i: "i < LENGTH(32)"
    show "bit (drop_bit 23 (pack32 s e m) AND 0xFF) i = bit e i"
      unfolding mask_numerals pack32_def
      using s e m i
      by (auto simp: bit_simps bits_below_def only_sign_def)
  qed
  show "pack32 s e m AND 0x7FFFFF = push_bit 13 m"
  proof (rule bit_word_eqI)
    fix i assume i: "i < LENGTH(32)"
    show "bit (pack32 s e m AND 0x7FFFFF) i = bit (push_bit 13 m) i"
      unfolding mask_numerals pack32_def
      using s e m i
      by (auto simp: bit_simps bits_below_def only_sign_def)
  qed
qed

section \<open>The normalisation loop\<close>

definition top_bit :: "u32 \<Rightarrow> nat \<Rightarrow> bool" where
  "top_bit m j \<longleftrightarrow> bit m j \<and> (\<forall>i>j. \<not> bit m i)"

lemma top_bit_push: "top_bit m j \<Longrightarrow> j < 31 \<Longrightarrow> top_bit (push_bit 1 m) (Suc j)"
  by (auto simp: top_bit_def bit_times_2)

lemma top_bit_ex:
  assumes "m \<noteq> 0" "bits_below 10 m"
  obtains j where "top_bit m j" "j < 10"
proof -
  from assms(1) obtain i where "bit m i" by (metis bit_eqI bit_0_eq bot_apply bot_bool_def)
  with assms(2) have "\<exists>i. bit m i" "\<And>i. bit m i \<Longrightarrow> i < 10" by (auto simp: bits_below_def)
  then have g: "bit m (GREATEST i. bit m i)" "\<And>i. bit m i \<Longrightarrow> i \<le> (GREATEST i. bit m i)"
    by (metis GreatestI_nat less_imp_le, metis Greatest_le_nat less_imp_le)
  have "top_bit m (GREATEST i. bit m i)"
    using g by (metis top_bit_def leD)
  with g(1) assms(2) show thesis by (intro that) (auto simp: bits_below_def)
qed

lemma half_norm_top:
  "top_bit m j \<Longrightarrow> j < 10 \<Longrightarrow> 10 - j \<le> fuel \<Longrightarrow>
   half_norm fuel m e = Some (push_bit (10 - j) m, e + int (10 - j))"
proof (induction fuel arbitrary: m j e)
  case 0
  then show ?case by simp
next
  case (Suc fuel)
  have tb: "top_bit (push_bit 1 m) (Suc j)"
    using Suc.prems by (intro top_bit_push) auto
  have guard: "push_bit 1 m AND 0x400 = 0 \<longleftrightarrow> j \<noteq> 9"
  proof -
    have "bit (push_bit 1 m) 10 \<longleftrightarrow> bit m 9"
      using bit_times_2 [of m 10] by simp
    moreover have "bit m 9 \<longleftrightarrow> j = 9"
      using Suc.prems(1,2) unfolding top_bit_def
      by (cases j "9 :: nat" rule: linorder_cases) auto
    ultimately show ?thesis
      unfolding pow_numerals(1) and_pow2_eq_0 by simp
  qed
  show ?case
  proof (cases "j = 9")
    case True
    with guard show ?thesis by (simp add: Let_def)
  next
    case False
    with Suc.prems have "Suc j < 10" "10 - Suc j \<le> fuel" by auto
    from Suc.IH [OF tb this, of "e + 1"] False guard Suc.prems(2)
    moreover have "push_bit (9 - j) (push_bit 1 m) = push_bit (10 - j) m"
      using Suc.prems(2) by (simp only: push_bit_push_bit) (simp add: Suc_diff_le flip: Suc_diff_le)
    ultimately show ?thesis by (simp add: Let_def)
  qed
qed

text \<open>Ten rounds normalise every subnormal mantissa.\<close>

lemma half_norm_enough:
  assumes "m \<noteq> 0" "bits_below 10 m"
  shows "half_norm 10 m e \<noteq> None"
  using top_bit_ex [OF assms] half_norm_top [of m _ 10 e] by (metis diff_le_self option.distinct(1))

section \<open>Widening and narrowing back\<close>

definition half_sign :: "u16 \<Rightarrow> u32" where "half_sign h = ucast h AND 0x8000"
definition half_exp :: "u16 \<Rightarrow> u32" where "half_exp h = drop_bit 10 (ucast h) AND 0x1F"
definition half_mant :: "u16 \<Rightarrow> u32" where "half_mant h = ucast h AND 0x3FF"

lemmas half_fields = half_sign_def half_exp_def half_mant_def

lemma half_fields_bits:
  "bit (half_sign h) i \<longleftrightarrow> i = 15 \<and> bit h 15"
  "bit (half_exp h) i \<longleftrightarrow> i < 5 \<and> bit h (10 + i)"
  "bit (half_mant h) i \<longleftrightarrow> i < 10 \<and> bit h i"
proof -
  show "bit (half_sign h) i \<longleftrightarrow> i = 15 \<and> bit h 15"
    unfolding half_fields bit_and_iff bit_0x8000 by (auto simp: bit_simps)
  show "bit (half_exp h) i \<longleftrightarrow> i < 5 \<and> bit h (10 + i)"
    unfolding half_fields mask_numerals by (auto simp: bit_simps)
  show "bit (half_mant h) i \<longleftrightarrow> i < 10 \<and> bit h i"
    unfolding half_fields mask_numerals by (auto simp: bit_simps)
qed

lemma half_join: "ucast (push_bit 10 (half_exp h) OR half_mant h OR half_sign h) = h"
proof (rule bit_word_eqI)
  fix i assume i: "i < LENGTH(16)"
  then consider "i < 10" | "10 \<le> i" "i < 15" | "i = 15" by fastforce
  then show "bit (ucast (push_bit 10 (half_exp h) OR half_mant h OR half_sign h) :: u16) i = bit h i"
    by cases (auto simp: bit_simps half_fields_bits)
qed

lemma half_exp_below: "bits_below 5 (half_exp h)"
  by (simp add: bits_below_def half_fields_bits)

lemma halfToFloat_fields:
  "halfToFloat h =
     (let sign = push_bit 16 (half_sign h); exp = half_exp h; mant = half_mant h
      in if exp = 0 then
           (if mant = 0 then sign
            else (case half_norm 10 mant (- 1) of
                    None \<Rightarrow> 0
                  | Some (mant, e) \<Rightarrow> pack32 sign (word_of_int (127 - 15 - e)) (mant AND 0x3FF)))
         else if exp = 31 then sign OR 0x7F800000 OR push_bit 13 mant
         else pack32 sign (exp - 15 + 127) mant)"
  by (simp only: halfToFloat_def half_fields pack32_def Let_def)

definition isNaN16 :: "u16 \<Rightarrow> bool" where
  "isNaN16 h \<longleftrightarrow> half_exp h = 31 \<and> half_mant h \<noteq> 0"

lemma half_sign_push: "only_sign (push_bit 16 (half_sign h))"
  by (auto simp: only_sign_def bit_simps half_fields_bits)

lemma drop_push_sign: "drop_bit 16 (push_bit 16 (half_sign h)) = half_sign h"
  by (rule bit_word_eqI) (auto simp: bit_simps half_fields_bits)

lemma half_mant_below: "bits_below 10 (half_mant h)"
  by (simp add: bits_below_def half_fields_bits)

lemma floatToHalf_pack:
  assumes "only_sign s" "bits_below 8 e" "bits_below 10 m"
  shows "floatToHalf (pack32 s e m) =
     (let sign = drop_bit 16 s; exp = uint e - 112; mant = push_bit 13 m
      in if 31 \<le> exp then ucast (sign OR 0x7C00)
         else if exp \<le> 0 then
           (if exp < - 10 then ucast sign
            else let m = mant OR 0x800000;
                     shift = nat (14 - exp);
                     half = push_bit (shift - 1) (1 :: u32);
                     round_bit = (m AND half) \<noteq> 0;
                     sticky = (m AND (half - 1)) \<noteq> 0;
                     q = drop_bit shift m;
                     q = (if round_bit \<and> (sticky \<or> (q AND 1) \<noteq> 0) then q + 1 else q)
                 in ucast (sign OR q))
         else ucast ((push_bit 10 (word_of_int exp) OR m) OR sign))"
proof -
  have nr: "push_bit 13 m AND 0x1000 = 0"
    unfolding pow_numerals and_pow2_eq_0 by (simp add: bit_simps del: push_bit_numeral)
  have dp: "drop_bit 13 (push_bit 13 m) = m"
    by (rule bit_word_eqI) (use assms(3) in \<open>auto simp: bit_simps bits_below_def\<close>)
  show ?thesis
    unfolding floatToHalf_def pack32_fields [OF assms] Let_def nr dp
    by simp
qed

lemma uint_below:
  assumes "bits_below n w" "n < 32" shows "uint w < 2 ^ n"
  using bits_below_iff [OF assms(2), of w] assms(1) by (metis of_nat_less_iff of_nat_numeral of_nat_power uint_nat)

lemma floatToHalf_subnormal:
  assumes m: "top_bit m j" "j < 10" and s: "only_sign s"
  shows "floatToHalf (pack32 s (word_of_int (127 - 15 - (int (10 - j) - 1))) (push_bit (10 - j) m AND 0x3FF))
         = ucast (drop_bit 16 s OR m)"
proof -
  let ?e = "word_of_int (127 - 15 - (int (10 - j) - 1)) :: u32"
  let ?m = "push_bit (10 - j) m AND 0x3FF"
  have "127 - 15 - (int (10 - j) - 1) = 103 + int j" using m(2) by simp
  then have e: "uint ?e = 103 + int j" using m(2) by (simp only: uint_word_of_int) simp
  have eb: "bits_below 8 ?e"
    using m(2) e bits_below_iff [of 8 ?e] by (simp add: unat_eq_nat_uint)
  have mb: "bits_below 10 ?m"
    unfolding mask_numerals by (auto simp: bits_below_def bit_simps)
  have mj: "bit m i \<Longrightarrow> i \<le> j" "bit m j" for i
    using m(1) by (auto simp: top_bit_def not_less [symmetric])
  have pm: "push_bit 13 ?m OR 0x800000 = push_bit (23 - j) m"
  proof (rule bit_word_eqI)
    fix i assume i: "i < LENGTH(32)"
    show "bit (push_bit 13 ?m OR 0x800000) i = bit (push_bit (23 - j) m) i"
      unfolding mask_numerals
      using mj(1) [of "i - (23 - j)"] mj(2) m(2) i bit_0x800000 [of i]
      by (cases "i = 23") (auto simp: bit_simps)
  qed
  have half: "push_bit (23 - j) m AND push_bit (23 - j - 1) 1 = 0"
    by (rule bit_word_eqI) (use m(2) in \<open>auto simp: bit_simps\<close>)
  have q: "drop_bit (23 - j) (push_bit (23 - j) m) = m"
    by (rule bit_word_eqI) (use m(2) mj(1) in \<open>fastforce simp: bit_simps\<close>)
  have sh: "nat (14 - (uint ?e - 112)) = 23 - j"
    using m(2) e by simp
  have c: "\<not> 31 \<le> uint ?e - 112" "uint ?e - 112 \<le> 0" "\<not> uint ?e - 112 < - 10"
    using e m(2) by simp_all
  show ?thesis
    unfolding floatToHalf_pack [OF s eb mb] Let_def sh pm half q if_not_P [OF c(1)]
      if_P [OF c(2)] if_not_P [OF c(3)]
    by simp
qed

text \<open>C38: widening a 16-bit half to a float and narrowing it again gives the same bit pattern,
  for zeros, subnormals, normals and infinities\<close>

lemma floatToHalf_halfToFloat:
  assumes "\<not> isNaN16 h"
  shows "floatToHalf (halfToFloat h) = h"
proof -
  let ?s = "push_bit 16 (half_sign h)"
  note sg = half_sign_push [of h] and ds = drop_push_sign [of h]
  consider (zero) "half_exp h = 0" "half_mant h = 0" | (sub) "half_exp h = 0" "half_mant h \<noteq> 0"
    | (inf) "half_exp h = 31" "half_mant h = 0" | (norm) "half_exp h \<noteq> 0" "half_exp h \<noteq> 31"
    using assms by (auto simp: isNaN16_def)
  then show ?thesis
  proof cases
    case zero
    have "halfToFloat h = pack32 ?s 0 0" by (simp add: halfToFloat_fields zero pack32_def Let_def)
    moreover have "floatToHalf (pack32 ?s 0 0) = ucast (half_sign h)"
      by (subst floatToHalf_pack [OF sg]) (simp_all add: bits_below_def ds del: push_bit_numeral)
    ultimately show ?thesis using half_join [of h] zero by simp
  next
    case inf
    have "halfToFloat h = pack32 ?s 0xFF 0"
      by (simp add: halfToFloat_fields inf pack32_def Let_def)
    moreover have "floatToHalf (pack32 ?s 0xFF 0) = ucast (half_sign h OR 0x7C00)"
      by (subst floatToHalf_pack [OF sg]) (simp_all add: bits_below_iff ds)
    ultimately show ?thesis using half_join [of h] inf by (simp add: or.commute)
  next
    case norm
    have u: "uint (half_exp h) < 31" "0 < uint (half_exp h)"
    proof -
      have "uint (half_exp h) < 32" using uint_below [OF half_exp_below, of h] by simp
      moreover have "uint (half_exp h) \<noteq> 31"
        using norm(2) by (metis word_of_int_numeral word_of_int_uint)
      ultimately show "uint (half_exp h) < 31" by simp
      show "0 < uint (half_exp h)"
        using norm(1) by (simp add: uint_0_iff less_le)
    qed
    have e: "half_exp h - 15 + 127 = word_of_int (uint (half_exp h) + 112)" by simp
    have ue: "uint (half_exp h - 15 + 127) = uint (half_exp h) + 112"
      unfolding e using u by (simp only: uint_word_of_int) simp
    have eb: "bits_below 8 (half_exp h - 15 + 127)"
      using ue u bits_below_iff [of 8 "half_exp h - 15 + 127"] by (simp add: unat_eq_nat_uint)
    have hf: "halfToFloat h = pack32 ?s (half_exp h - 15 + 127) (half_mant h)"
      using norm by (simp only: halfToFloat_fields Let_def if_False)
    have "floatToHalf (pack32 ?s (half_exp h - 15 + 127) (half_mant h))
          = ucast ((push_bit 10 (half_exp h) OR half_mant h) OR half_sign h)"
      unfolding floatToHalf_pack [OF sg eb half_mant_below] Let_def ds ue using u by simp
    with hf half_join [of h] show ?thesis by (simp add: or.assoc)
  next
    case sub
    obtain j where j: "top_bit (half_mant h) j" "j < 10"
      using top_bit_ex [OF sub(2) half_mant_below] by blast
    have "halfToFloat h
          = pack32 ?s (word_of_int (127 - 15 - (int (10 - j) - 1))) (push_bit (10 - j) (half_mant h) AND 0x3FF)"
      unfolding halfToFloat_fields Let_def using sub half_norm_top [OF j, of 10 "-1"] by simp
    then have "floatToHalf (halfToFloat h) = ucast (half_sign h OR half_mant h)"
      using floatToHalf_subnormal [OF j sg] ds by simp
    then show ?thesis using half_join [of h] sub(1) by (simp add: or.commute)
  qed
qed

section \<open>Concrete instances\<close>

lemma half_witness: "floatToHalf (halfToFloat 0x3C01) = 0x3C01"
  by (rule floatToHalf_halfToFloat) (simp add: isNaN16_def half_exp_def half_mant_def)

end
