(* ===== verification/Floats.thy ===== *)
theory Floats
  imports Half
begin

text \<open>
  IEEE 754 arithmetic on the bit patterns of \<open>float\<close> and \<open>double\<close>, as the code's
  expressions use it: conversions, comparison, and addition, subtraction, multiplication
  and division rounded to nearest, ties to even. A finite value is a sign, a natural number
  and a power of two, so every operation is computed exactly and rounded once. A NaN
  result is the canonical quiet NaN. The functions of the C math library, whose rounding
  is not fixed by the standard, are the fields of a parameter record \<open>libm\<close>.
\<close>

section \<open>Formats and values\<close>

record fmt =
  f_prec :: nat
  f_width :: nat

definition F16 :: fmt where "F16 = \<lparr>f_prec = 11, f_width = 16\<rparr>"
definition F32 :: fmt where "F32 = \<lparr>f_prec = 24, f_width = 32\<rparr>"
definition F64 :: fmt where "F64 = \<lparr>f_prec = 53, f_width = 64\<rparr>"

definition f_ebits :: "fmt \<Rightarrow> nat" where
  "f_ebits F = f_width F - f_prec F"

text \<open>The exponent of the unit in the last place of the subnormal numbers.\<close>

definition f_min :: "fmt \<Rightarrow> int" where
  "f_min F = 3 - 2 ^ (f_ebits F - 1) - int (f_prec F)"

definition f_inf_mag :: "fmt \<Rightarrow> nat" where
  "f_inf_mag F = (2 ^ f_ebits F - 1) * 2 ^ (f_prec F - 1)"

datatype fval = FNaN | FInf bool | FFin bool nat int

definition fdecode :: "fmt \<Rightarrow> nat \<Rightarrow> fval" where
  "fdecode F n =
     (let p = 2 ^ (f_prec F - 1);
          s = odd (n div 2 ^ (f_width F - 1));
          mag = n mod 2 ^ (f_width F - 1);
          e = mag div p;
          m = mag mod p
      in if e = 2 ^ f_ebits F - 1 then (if m = 0 then FInf s else FNaN)
         else if e = 0 then FFin s m (f_min F)
         else FFin s (m + p) (f_min F + int e - 1))"

fun bitlen :: "nat \<Rightarrow> nat" where
  "bitlen n = (if n = 0 then 0 else Suc (bitlen (n div 2)))"

declare bitlen.simps [simp del]

definition round_half_even :: "nat \<Rightarrow> nat \<Rightarrow> nat" where
  "round_half_even m r =
     (let q = m div 2 ^ r; rest = 2 * (m mod 2 ^ r)
      in if 2 ^ r < rest \<or> rest = 2 ^ r \<and> odd q then q + 1 else q)"

text \<open>
  The magnitude of the pattern nearest to \<open>m * 2 ^ e\<close>: the exponent \<open>q\<close> of the last place
  is chosen first, and a mantissa that rounds up to the next power of two carries into
  the exponent field by itself.
\<close>

definition fround_mag :: "fmt \<Rightarrow> nat \<Rightarrow> int \<Rightarrow> nat" where
  "fround_mag F m e = (if m = 0 then 0 else
      let q = max (e + int (bitlen m) - int (f_prec F)) (f_min F);
          k = (if q \<le> e then m * 2 ^ nat (e - q) else round_half_even m (nat (q - e)));
          mag = nat (q - f_min F) * 2 ^ (f_prec F - 1) + k
      in min mag (f_inf_mag F))"

definition fencode :: "fmt \<Rightarrow> fval \<Rightarrow> nat" where
  "fencode F v =
     (case v of
        FNaN \<Rightarrow> f_inf_mag F + 2 ^ (f_prec F - 2)
      | FInf s \<Rightarrow> f_inf_mag F + (if s then 2 ^ (f_width F - 1) else 0)
      | FFin s m e \<Rightarrow> fround_mag F m e + (if s then 2 ^ (f_width F - 1) else 0))"

section \<open>Exact arithmetic on values\<close>

definition fneg :: "fval \<Rightarrow> fval" where
  "fneg v = (case v of FNaN \<Rightarrow> FNaN | FInf s \<Rightarrow> FInf (\<not> s) | FFin s m e \<Rightarrow> FFin (\<not> s) m e)"

definition fsigned :: "bool \<Rightarrow> nat \<Rightarrow> int" where
  "fsigned s m = (if s then - int m else int m)"

fun fadd :: "fval \<Rightarrow> fval \<Rightarrow> fval" where
  "fadd (FFin s1 m1 e1) (FFin s2 m2 e2) =
     (let e = min e1 e2;
          v = fsigned s1 m1 * 2 ^ nat (e1 - e) + fsigned s2 m2 * 2 ^ nat (e2 - e)
      in if v = 0 then FFin (s1 \<and> s2) 0 e else FFin (v < 0) (nat \<bar>v\<bar>) e)"
| "fadd FNaN w = FNaN"
| "fadd v FNaN = FNaN"
| "fadd (FInf s) (FInf t) = (if s = t then FInf s else FNaN)"
| "fadd (FInf s) (FFin t m e) = FInf s"
| "fadd (FFin t m e) (FInf s) = FInf s"

definition fsub :: "fval \<Rightarrow> fval \<Rightarrow> fval" where
  "fsub v w = fadd v (fneg w)"

fun fmul :: "fval \<Rightarrow> fval \<Rightarrow> fval" where
  "fmul (FFin s1 m1 e1) (FFin s2 m2 e2) = FFin (s1 \<noteq> s2) (m1 * m2) (e1 + e2)"
| "fmul FNaN w = FNaN"
| "fmul v FNaN = FNaN"
| "fmul (FInf s) (FInf t) = FInf (s \<noteq> t)"
| "fmul (FInf s) (FFin t m e) = (if m = 0 then FNaN else FInf (s \<noteq> t))"
| "fmul (FFin t m e) (FInf s) = (if m = 0 then FNaN else FInf (s \<noteq> t))"

text \<open>A quotient keeps \<open>k\<close> fraction bits and one sticky bit, more than any format rounds to.\<close>

fun fdiv :: "fval \<Rightarrow> fval \<Rightarrow> fval" where
  "fdiv (FFin s1 m1 e1) (FFin s2 m2 e2) =
     (if m2 = 0 then (if m1 = 0 then FNaN else FInf (s1 \<noteq> s2))
      else let k = bitlen m2 + 64; n = m1 * 2 ^ k
           in FFin (s1 \<noteq> s2) (2 * (n div m2) + (if n mod m2 = 0 then 0 else 1)) (e1 - e2 - int k - 1))"
| "fdiv FNaN w = FNaN"
| "fdiv v FNaN = FNaN"
| "fdiv (FInf s) (FInf t) = FNaN"
| "fdiv (FInf s) (FFin t m e) = FInf (s \<noteq> t)"
| "fdiv (FFin t m e) (FInf s) = FFin (s \<noteq> t) 0 0"

definition fof_int :: "int \<Rightarrow> fval" where
  "fof_int i = FFin (i < 0) (nat \<bar>i\<bar>) 0"

text \<open>Truncation toward zero; a NaN or an infinity has none.\<close>

fun ftrunc :: "fval \<Rightarrow> int option" where
  "ftrunc (FFin s m e) = Some (fsigned s (if 0 \<le> e then m * 2 ^ nat e else m div 2 ^ nat (- e)))"
| "ftrunc v = None"

fun fval_less :: "fval \<Rightarrow> fval \<Rightarrow> bool" where
  "fval_less (FFin s1 m1 e1) (FFin s2 m2 e2) =
     (let e = min e1 e2
      in fsigned s1 m1 * 2 ^ nat (e1 - e) < fsigned s2 m2 * 2 ^ nat (e2 - e))"
| "fval_less FNaN w = False"
| "fval_less v FNaN = False"
| "fval_less (FInf s) (FInf t) = (s \<and> \<not> t)"
| "fval_less (FInf s) (FFin t m e) = s"
| "fval_less (FFin t m e) (FInf s) = (\<not> s)"

section \<open>Patterns\<close>

definition f32_val :: "f32 \<Rightarrow> fval" where "f32_val w = fdecode F32 (unat w)"
definition f64_val :: "f64 \<Rightarrow> fval" where "f64_val w = fdecode F64 (unat w)"
definition f16_val :: "u16 \<Rightarrow> fval" where "f16_val w = fdecode F16 (unat w)"
definition f32_of :: "fval \<Rightarrow> f32" where "f32_of v = word_of_nat (fencode F32 v)"
definition f64_of :: "fval \<Rightarrow> f64" where "f64_of v = word_of_nat (fencode F64 v)"
definition f16_of :: "fval \<Rightarrow> u16" where "f16_of v = word_of_nat (fencode F16 v)"

definition f32_of_int :: "int \<Rightarrow> f32" where "f32_of_int i = f32_of (fof_int i)"
definition f64_of_int :: "int \<Rightarrow> f64" where "f64_of_int i = f64_of (fof_int i)"

definition f64_of_f32 :: "f32 \<Rightarrow> f64" where "f64_of_f32 w = f64_of (f32_val w)"
definition f32_of_f64 :: "f64 \<Rightarrow> f32" where "f32_of_f64 w = f32_of (f64_val w)"

definition f32_add :: "f32 \<Rightarrow> f32 \<Rightarrow> f32" where "f32_add a b = f32_of (fadd (f32_val a) (f32_val b))"
definition f32_sub :: "f32 \<Rightarrow> f32 \<Rightarrow> f32" where "f32_sub a b = f32_of (fsub (f32_val a) (f32_val b))"
definition f32_mul :: "f32 \<Rightarrow> f32 \<Rightarrow> f32" where "f32_mul a b = f32_of (fmul (f32_val a) (f32_val b))"
definition f32_div :: "f32 \<Rightarrow> f32 \<Rightarrow> f32" where "f32_div a b = f32_of (fdiv (f32_val a) (f32_val b))"
definition f32_lt :: "f32 \<Rightarrow> f32 \<Rightarrow> bool" where "f32_lt a b = fval_less (f32_val a) (f32_val b)"

definition f64_add :: "f64 \<Rightarrow> f64 \<Rightarrow> f64" where "f64_add a b = f64_of (fadd (f64_val a) (f64_val b))"
definition f64_sub :: "f64 \<Rightarrow> f64 \<Rightarrow> f64" where "f64_sub a b = f64_of (fsub (f64_val a) (f64_val b))"
definition f64_mul :: "f64 \<Rightarrow> f64 \<Rightarrow> f64" where "f64_mul a b = f64_of (fmul (f64_val a) (f64_val b))"
definition f64_div :: "f64 \<Rightarrow> f64 \<Rightarrow> f64" where "f64_div a b = f64_of (fdiv (f64_val a) (f64_val b))"
definition f64_lt :: "f64 \<Rightarrow> f64 \<Rightarrow> bool" where "f64_lt a b = fval_less (f64_val a) (f64_val b)"

record libm =
  m_cos :: "f64 \<Rightarrow> f64"
  m_sin :: "f64 \<Rightarrow> f64"
  m_pow :: "f64 \<Rightarrow> f64 \<Rightarrow> f64"
  m_sqrt :: "f64 \<Rightarrow> f64"
  m_log :: "f64 \<Rightarrow> f64"
  m_cosf :: "f32 \<Rightarrow> f32"
  m_sinf :: "f32 \<Rightarrow> f32"
  m_powf :: "f32 \<Rightarrow> f32 \<Rightarrow> f32"
  m_expf :: "f32 \<Rightarrow> f32"

section \<open>Evaluation\<close>

lemma bitlen_double: "0 < n \<Longrightarrow> bitlen (2 * n) = Suc (bitlen n)" "bitlen (Suc (2 * n)) = Suc (bitlen n)"
  by (subst bitlen.simps, simp)+

lemma bitlen_num [simp]:
  "bitlen 0 = 0" "bitlen (Suc 0) = 1" "bitlen (numeral Num.One) = 1"
  "bitlen (numeral (Num.Bit0 k)) = Suc (bitlen (numeral k))"
  "bitlen (numeral (Num.Bit1 k)) = Suc (bitlen (numeral k))"
proof -
  show z: "bitlen 0 = 0" by (subst bitlen.simps) simp
  show o: "bitlen (Suc 0) = 1" using bitlen_double(2) [of 0] z by simp
  then show "bitlen (numeral Num.One) = 1" by simp
  show "bitlen (numeral (Num.Bit0 k)) = Suc (bitlen (numeral k))"
    using bitlen_double(1) [of "numeral k"] by (simp only: numeral_Bit0 mult_2) simp
  show "bitlen (numeral (Num.Bit1 k)) = Suc (bitlen (numeral k))"
    using bitlen_double(2) [of "numeral k"] by (simp only: numeral_Bit1 mult_2) simp
qed

lemma fmt_simps [simp]:
  "f_prec F16 = 11" "f_width F16 = 16" "f_prec F32 = 24" "f_width F32 = 32"
  "f_prec F64 = 53" "f_width F64 = 64"
  "f_ebits F16 = 5" "f_ebits F32 = 8" "f_ebits F64 = 11"
  "f_min F16 = - 24" "f_min F32 = - 149" "f_min F64 = - 1074"
  by (simp_all add: f_min_def f_ebits_def F16_def F32_def F64_def)

lemmas f_eval = fencode_def fround_mag_def round_half_even_def fdecode_def f_inf_mag_def
  fof_int_def Let_def

lemma f64_val_of: "f64_val (f64_of v) = fdecode F64 (fencode F64 v mod 2 ^ 64)"
  by (simp add: f64_val_def f64_of_def unsigned_of_nat take_bit_eq_mod)

lemma f32_val_of: "f32_val (f32_of v) = fdecode F32 (fencode F32 v mod 2 ^ 32)"
  by (simp add: f32_val_def f32_of_def unsigned_of_nat take_bit_eq_mod)

section \<open>Facts about the comparison\<close>

lemma fval_less_irrefl: "\<not> fval_less v v"
  by (cases v) (auto simp: Let_def)

end
