(* ===== verification/Graphs.thy ===== *)
theory Graphs
  imports Floats
begin

text \<open>
  The class \<open>Graph\<close> of \<open>core/include/graph.h\<close> and \<open>core/src/graph.cpp\<close> with the numeric
  kernels of \<open>core/include/utils.h\<close>: setup and tensor specs, the typed writes into input
  buffers with their overflow guard, the typed reads of output buffers, and execution.

  A buffer pointer is an \<open>nat option\<close>, the id of a buffer in the memory or the null
  pointer. What \<open>IOTensor::getBuffer\<close> gives is a parameter here, which \<open>LoadedModels\<close>
  instantiates; \<open>QnnApi::graphExecute\<close> is one too and is modelled in \<open>GraphExecute\<close>. The element source \<open>fsrc\<close> is the template argument \<open>Src\<close> of the
  float and double overloads of \<open>write\<close>.
\<close>

section \<open>Numeric kernels\<close>

datatype fsrc = SrcFloat "f32 list" | SrcDouble "f64 list"

definition src_len :: "fsrc \<Rightarrow> nat" where
  "src_len src = (case src of SrcFloat xs \<Rightarrow> length xs | SrcDouble xs \<Rightarrow> length xs)"

definition src_doubles :: "fsrc \<Rightarrow> f64 list" where
  "src_doubles src = (case src of SrcFloat xs \<Rightarrow> map f64_of_f32 xs | SrcDouble xs \<Rightarrow> xs)"

definition src_floats :: "fsrc \<Rightarrow> f32 list" where
  "src_floats src = (case src of SrcFloat xs \<Rightarrow> xs | SrcDouble xs \<Rightarrow> map f32_of_f64 xs)"

definition src_vals :: "fsrc \<Rightarrow> fval list" where
  "src_vals src = (case src of SrcFloat xs \<Rightarrow> map f32_val xs | SrcDouble xs \<Rightarrow> map f64_val xs)"

fun rmap :: "('a \<Rightarrow> 'b res) \<Rightarrow> 'a list \<Rightarrow> 'b list res" where
  "rmap f [] = Inr []"
| "rmap f (x # xs) = rbind (f x) (\<lambda>y. rbind (rmap f xs) (\<lambda>ys. Inr (y # ys)))"

lemma rmap_length: "rmap f xs = Inr ys \<Longrightarrow> length ys = length xs"
  by (induction xs arbitrary: ys) auto

lemma rmap_nth: "rmap f xs = Inr ys \<Longrightarrow> i < length xs \<Longrightarrow> f (xs ! i) = Inr (ys ! i)"
proof (induction xs arbitrary: ys i)
  case Nil
  then show ?case by simp
next
  case (Cons x xs)
  then show ?case by (cases i) auto
qed

lemma rmap_total: "(\<And>x. x \<in> set xs \<Longrightarrow> \<exists>y. f x = Inr y) \<Longrightarrow> \<exists>ys. rmap f xs = Inr ys"
proof (induction xs)
  case Nil
  then show ?case by simp
next
  case (Cons x xs)
  then obtain y ys where "f x = Inr y" "rmap f xs = Inr ys" by fastforce
  then show ?case by simp
qed

text \<open>A \<open>static_cast\<close> of a floating value to an integer type: undefined out of its range.\<close>

definition cast_int :: "int \<Rightarrow> int \<Rightarrow> fval \<Rightarrow> int res" where
  "cast_int lo hi v =
     (case ftrunc v of None \<Rightarrow> Inl UndefinedBehaviour
      | Some i \<Rightarrow> if lo \<le> i \<and> i \<le> hi then Inr i else Inl UndefinedBehaviour)"

definition floatToTfN :: "nat \<Rightarrow> int \<Rightarrow> f32 \<Rightarrow> f64 list \<Rightarrow> int list res" where
  "floatToTfN bits offset scale xs =
     (let max_int = 2 ^ bits - 1 :: int;
          max_val = f64_of_int max_int;
          encoding_min = f64_mul (f64_of_int offset) (f64_of_f32 scale);
          encoding_max = f64_mul (f64_add max_val (f64_of_int offset)) (f64_of_f32 scale);
          range = f64_sub encoding_max encoding_min
      in rmap (\<lambda>x.
           let q = f64_div (f64_mul max_val (f64_sub x encoding_min)) range;
               q = (if f64_lt q (f64_of_int 0) then f64_of_int 0
                    else if f64_lt max_val q then max_val else q)
           in cast_int 0 max_int (f64_val q)) xs)"

definition tfNToFloat :: "int \<Rightarrow> f32 \<Rightarrow> int list \<Rightarrow> f32 list" where
  "tfNToFloat offset scale xs =
     map (\<lambda>x. f32_of_f64 (f64_mul (f64_add (f64_of_int x) (f64_of_int offset)) (f64_of_f32 scale))) xs"

definition castToFloat :: "int list \<Rightarrow> f32 list" where
  "castToFloat xs = map f32_of_int xs"

definition castFromFloat :: "int \<Rightarrow> int \<Rightarrow> fval list \<Rightarrow> int list res" where
  "castFromFloat lo hi xs = rmap (cast_int lo hi) xs"

section \<open>State\<close>

record graph_info =
  gi_name :: string
  gi_inputs :: "qnn_tensor list"
  gi_outputs :: "qnn_tensor list"

record graph =
  g_info :: "graph_info option"
  g_name :: string
  g_inputs :: "qnn_tensor list"   \<comment> \<open>\<open>inputs_\<close>, set by \<open>setup\<close>\<close>
  g_outputs :: "qnn_tensor list"
  g_in_specs :: "tensor_spec list"
  g_out_specs :: "tensor_spec list"
  g_in_index :: "string \<Rightarrow> nat option"
  g_out_index :: "string \<Rightarrow> nat option"
  g_in_ptr :: "string \<Rightarrow> nat option option"
  g_out_ptr :: "string \<Rightarrow> nat option option"
  g_in_sizes :: "string \<Rightarrow> nat option"
  g_out_sizes :: "string \<Rightarrow> nat option"
  g_setup_done :: bool

definition mkGraph :: "graph_info option \<Rightarrow> graph" where
  "mkGraph gi = \<lparr>
     g_info = gi, g_name = (case gi of None \<Rightarrow> [] | Some i \<Rightarrow> gi_name i),
     g_inputs = [], g_outputs = [], g_in_specs = [], g_out_specs = [],
     g_in_index = Map.empty, g_out_index = Map.empty, g_in_ptr = Map.empty, g_out_ptr = Map.empty,
     g_in_sizes = Map.empty, g_out_sizes = Map.empty, g_setup_done = False \<rparr>"

section \<open>Setup\<close>

definition buildSpecs :: "graph_info \<Rightarrow> graph \<Rightarrow> graph" where
  "buildSpecs gi g =
     (let ins = map makeSpec (gi_inputs gi); outs = map makeSpec (gi_outputs gi)
      in g \<lparr> g_in_specs := ins,
            g_in_index := foldl (\<lambda>m i. m(ts_name (ins ! i) \<mapsto> i)) (g_in_index g) [0..<length ins],
            g_out_specs := outs,
            g_out_index := foldl (\<lambda>m i. m(ts_name (outs ! i) \<mapsto> i)) (g_out_index g) [0..<length outs] \<rparr>)"

text \<open>\<open>get_in i\<close> and \<open>get_out i\<close> are \<open>io_tensor_->getBuffer\<close> of the i-th tensor.\<close>

definition setup_input :: "(nat \<Rightarrow> nat option) \<Rightarrow> qnn_tensor list \<Rightarrow> nat \<Rightarrow> graph \<Rightarrow> graph res" where
  "setup_input get_in ts i g =
     (let n = qt_name (ts ! i)
      in rbind (tensorByteSize (ts ! i)) (\<lambda>sz.
           Inr (g \<lparr> g_in_sizes := (g_in_sizes g)(n \<mapsto> sz),
                    g_in_ptr := (g_in_ptr g)(n \<mapsto> get_in i) \<rparr>)))"

definition setup_output :: "(nat \<Rightarrow> nat option) \<Rightarrow> qnn_tensor list \<Rightarrow> nat \<Rightarrow> graph \<Rightarrow> graph res" where
  "setup_output get_out ts i g =
     (let n = qt_name (ts ! i)
      in rbind (tensorByteSize (ts ! i)) (\<lambda>sz.
           Inr (g \<lparr> g_out_sizes := (g_out_sizes g)(n \<mapsto> sz),
                    g_out_ptr := (g_out_ptr g)(n \<mapsto> get_out i) \<rparr>)))"

definition graph_setup :: "(nat \<Rightarrow> nat option) \<Rightarrow> (nat \<Rightarrow> nat option) \<Rightarrow> (graph, bool) sx" where
  "graph_setup get_in get_out = swith (\<lambda>g.
     if g_setup_done g then sret True
     else (case g_info g of None \<Rightarrow> sthrow UndefinedBehaviour
       | Some gi \<Rightarrow>
           sthen (smod (\<lambda>g. g \<lparr> g_inputs := gi_inputs gi, g_outputs := gi_outputs gi \<rparr>))
          (sthen (sfor (\<lambda>i. supd (setup_input get_in (gi_inputs gi) i)) [0..<length (gi_inputs gi)])
          (sthen (sfor (\<lambda>i. supd (setup_output get_out (gi_outputs gi) i)) [0..<length (gi_outputs gi)])
          (sthen (smod (buildSpecs gi))
          (sthen (smod (\<lambda>g. g \<lparr> g_setup_done := True \<rparr>))
          (sret True)))))))"

section \<open>Lookup\<close>

definition hasInput :: "graph \<Rightarrow> string \<Rightarrow> bool" where
  "hasInput g n \<longleftrightarrow> g_in_index g n \<noteq> None"

definition hasOutput :: "graph \<Rightarrow> string \<Rightarrow> bool" where
  "hasOutput g n \<longleftrightarrow> g_out_index g n \<noteq> None"

definition at_map :: "('k \<Rightarrow> 'v option) \<Rightarrow> 'k \<Rightarrow> 'v res" where
  "at_map m k = (case m k of None \<Rightarrow> Inl OutOfRange | Some v \<Rightarrow> Inr v)"

definition at_vec :: "'a list \<Rightarrow> nat \<Rightarrow> 'a res" where
  "at_vec xs i = (if i < length xs then Inr (xs ! i) else Inl OutOfRange)"

text \<open>Indexing with \<open>[]\<close>: undefined outside the vector.\<close>

definition idx_vec :: "'a list \<Rightarrow> nat \<Rightarrow> 'a res" where
  "idx_vec xs i = (if i < length xs then Inr (xs ! i) else Inl UndefinedBehaviour)"

definition inputSpec :: "graph \<Rightarrow> string \<Rightarrow> tensor_spec res" where
  "inputSpec g n = rbind (at_map (g_in_index g) n) (at_vec (g_in_specs g))"

definition outputSpec :: "graph \<Rightarrow> string \<Rightarrow> tensor_spec res" where
  "outputSpec g n = rbind (at_map (g_out_index g) n) (at_vec (g_out_specs g))"

definition inputPtr :: "graph \<Rightarrow> string \<Rightarrow> nat option res" where
  "inputPtr g n = at_map (g_in_ptr g) n"

definition outputPtr :: "graph \<Rightarrow> string \<Rightarrow> nat option res" where
  "outputPtr g n = at_map (g_out_ptr g) n"

definition deref :: "nat option \<Rightarrow> nat res" where
  "deref p = (case p of None \<Rightarrow> Inl UndefinedBehaviour | Some b \<Rightarrow> Inr b)"

section \<open>Writing inputs\<close>

definition elem_bytes :: "qnn_dtype \<Rightarrow> nat" where
  "elem_bytes dt =
     (if dt = FLOAT_32 \<or> dt = INT_32 then 4
      else if dt = FLOAT_16 \<or> dt = UFIXED_POINT_16 then 2 else 1)"

text \<open>The bytes \<open>writeFloatLike\<close> puts at the start of the buffer, or its error.\<close>

definition encode_float_like :: "qnn_tensor \<Rightarrow> fsrc \<Rightarrow> u8 list res" where
  "encode_float_like t src =
     (case qt_dtype t of
        FLOAT_32 \<Rightarrow> Inr (le_array 4 (src_floats src))
      | FLOAT_16 \<Rightarrow> Inr (le_array 2 (floatToFloat16 (src_floats src)))
      | UFIXED_POINT_16 \<Rightarrow>
          (case qt_quant t of
             ScaleOffset scale offset \<Rightarrow>
               rbind (floatToTfN 16 offset scale (src_doubles src))
                 (\<lambda>qs. Inr (le_array 2 (map (word_of_int :: int \<Rightarrow> u16) qs)))
           | _ \<Rightarrow> rbind (castFromFloat 0 65535 (src_vals src))
                 (\<lambda>qs. Inr (le_array 2 (map (word_of_int :: int \<Rightarrow> u16) qs))))
      | UFIXED_POINT_8 \<Rightarrow>
          (case qt_quant t of
             ScaleOffset scale offset \<Rightarrow>
               rbind (floatToTfN 8 offset scale (src_doubles src))
                 (\<lambda>qs. Inr (le_array 1 (map (word_of_int :: int \<Rightarrow> u8) qs)))
           | _ \<Rightarrow> rbind (castFromFloat 0 255 (src_vals src))
                 (\<lambda>qs. Inr (le_array 1 (map (word_of_int :: int \<Rightarrow> u8) qs))))
      | INT_32 \<Rightarrow> rbind (castFromFloat (- (2 ^ 31)) (2 ^ 31 - 1) (src_vals src))
                 (\<lambda>qs. Inr (le_array 4 (map (word_of_int :: int \<Rightarrow> u32) qs)))
      | _ \<Rightarrow> Inl (RuntimeError ''Graph::write: unsupported dtype''))"

definition writeFloatLike :: "qnn_tensor \<Rightarrow> nat option \<Rightarrow> fsrc \<Rightarrow> mem \<Rightarrow> mem res" where
  "writeFloatLike t buf src m =
     rbind (tensorByteSize t) (\<lambda>buf_bytes.
       let needed = src_len src * elem_bytes (qt_dtype t)
       in if buf_bytes < needed then Inl (RuntimeError ''Graph::write overflow'')
          else rbind (encode_float_like t src) (\<lambda>bs.
                 rbind (deref buf) (\<lambda>b. mem_store b 0 bs m)))"

definition write_float :: "graph \<Rightarrow> string \<Rightarrow> fsrc \<Rightarrow> mem \<Rightarrow> mem res" where
  "write_float g n src m =
     rbind (at_map (g_in_ptr g) n) (\<lambda>buf.
     rbind (at_map (g_in_index g) n) (\<lambda>i.
     rbind (idx_vec (g_inputs g) i) (\<lambda>t. writeFloatLike t buf src m)))"

definition write_bytes :: "graph \<Rightarrow> string \<Rightarrow> u8 list \<Rightarrow> mem \<Rightarrow> mem res" where
  "write_bytes g n bs m =
     rbind (at_map (g_in_ptr g) n) (\<lambda>buf. rbind (deref buf) (\<lambda>b. mem_store b 0 bs m))"

definition write_int32 :: "graph \<Rightarrow> string \<Rightarrow> int list \<Rightarrow> mem \<Rightarrow> mem res" where
  "write_int32 g n xs m = write_bytes g n (le_array 4 (map (word_of_int :: int \<Rightarrow> u32) xs)) m"

section \<open>Reading outputs\<close>

definition read_bytes :: "graph \<Rightarrow> string \<Rightarrow> nat \<Rightarrow> mem \<Rightarrow> u8 list res" where
  "read_bytes g n byte_count m =
     rbind (at_map (g_out_ptr g) n) (\<lambda>buf. rbind (deref buf) (\<lambda>b. mem_load b 0 byte_count m))"

definition load_array :: "nat \<Rightarrow> nat option \<Rightarrow> nat \<Rightarrow> nat \<Rightarrow> mem \<Rightarrow> 'a::len word list res" where
  "load_array w buf off n m =
     rbind (deref buf) (\<lambda>b. rbind (mem_load b (off * w) (n * w) m) (\<lambda>bs. Inr (of_le_array w n bs)))"

definition read_float :: "graph \<Rightarrow> string \<Rightarrow> nat \<Rightarrow> nat \<Rightarrow> mem \<Rightarrow> f32 list res" where
  "read_float g name n elem_offset m =
     rbind (at_map (g_out_ptr g) name) (\<lambda>buf.
     rbind (at_map (g_out_index g) name) (\<lambda>i.
     rbind (idx_vec (g_outputs g) i) (\<lambda>t.
       case qt_dtype t of
         FLOAT_32 \<Rightarrow> load_array 4 buf elem_offset n m
       | FLOAT_16 \<Rightarrow> rbind (load_array 2 buf elem_offset n m) (\<lambda>hs. Inr (float16ToFloat hs))
       | UFIXED_POINT_16 \<Rightarrow>
           rbind (load_array 2 buf elem_offset n m) (\<lambda>ws :: u16 list.
             Inr (case qt_quant t of
                    ScaleOffset scale offset \<Rightarrow> tfNToFloat offset scale (map uint ws)
                  | _ \<Rightarrow> castToFloat (map uint ws)))
       | UFIXED_POINT_8 \<Rightarrow>
           rbind (load_array 1 buf elem_offset n m) (\<lambda>ws :: u8 list.
             Inr (case qt_quant t of
                    ScaleOffset scale offset \<Rightarrow> tfNToFloat offset scale (map uint ws)
                  | _ \<Rightarrow> castToFloat (map uint ws)))
       | INT_32 \<Rightarrow> rbind (load_array 4 buf elem_offset n m) (\<lambda>ws :: u32 list. Inr (castToFloat (map sint ws)))
       | _ \<Rightarrow> Inl (RuntimeError ''Graph::read(float*): unsupported dtype''))))"

section \<open>Quantization\<close>

definition tfn_quotient :: "nat \<Rightarrow> int \<Rightarrow> f32 \<Rightarrow> f64 \<Rightarrow> f64" where
  "tfn_quotient bits offset scale x =
     (let max_val = f64_of_int (2 ^ bits - 1);
          encoding_min = f64_mul (f64_of_int offset) (f64_of_f32 scale);
          encoding_max = f64_mul (f64_add max_val (f64_of_int offset)) (f64_of_f32 scale)
      in f64_div (f64_mul max_val (f64_sub x encoding_min)) (f64_sub encoding_max encoding_min))"

definition f64_isnan :: "f64 \<Rightarrow> bool" where
  "f64_isnan x \<longleftrightarrow> f64_val x = FNaN"

lemma floatToTfN_alt:
  "floatToTfN bits offset scale xs =
     rmap (\<lambda>x. let q = tfn_quotient bits offset scale x; max_val = f64_of_int (2 ^ bits - 1)
               in cast_int 0 (2 ^ bits - 1)
                    (f64_val (if f64_lt q (f64_of_int 0) then f64_of_int 0
                              else if f64_lt max_val q then max_val else q))) xs"
  by (simp add: floatToTfN_def tfn_quotient_def Let_def)

lemma f64_small_ints:
  "f64_val (f64_of_int 0) = FFin False 0 (- 1074)"
  "f64_val (f64_of_int 255) = FFin False 8972014882652160 (- 45)"
  "f64_val (f64_of_int 65535) = FFin False 9007061815787520 (- 37)"
  by (simp_all add: f64_of_int_def f64_val_of f_eval)
lemma fsigned_simps: "fsigned True m = - int m" "fsigned False m = int m"
  by (simp_all add: fsigned_def)

text \<open>A value that is not above an integer bound and not negative truncates below the bound.\<close>

lemma ftrunc_bounds:
  assumes "\<not> fval_less v (FFin False 0 e0)" "\<not> fval_less (FFin False M E) v" "v \<noteq> FNaN"
    and E: "E \<le> 0" and b: "M = nat b * 2 ^ nat (- E)" "0 \<le> b"
  shows "\<exists>i. ftrunc v = Some i \<and> 0 \<le> i \<and> i \<le> b"
proof (cases v)
  case FNaN
  with assms show ?thesis by simp
next
  case (FInf s)
  with assms show ?thesis by (cases s) simp_all
next
  case (FFin s m e)
  have sg: "s \<longrightarrow> m = 0"
    using assms(1) FFin by (auto simp: Let_def fsigned_def zero_less_mult_iff)
  let ?k = "min E e"
  have le: "int m * 2 ^ nat (e - ?k) \<le> int M * 2 ^ nat (E - ?k)"
    using assms(2) FFin sg by (auto simp: Let_def fsigned_def split: if_splits)
  have mb: "(if 0 \<le> e then m * 2 ^ nat e else m div 2 ^ nat (- e)) \<le> nat b"
  proof (cases "0 \<le> e")
    case True
    with E have k: "?k = E" "nat (e - E) = nat e + nat (- E)" by auto
    have "int (m * 2 ^ nat e * 2 ^ nat (- E)) \<le> int (nat b * 2 ^ nat (- E))"
      using le by (simp add: k b power_add mult.assoc)
    then have "m * 2 ^ nat e * 2 ^ nat (- E) \<le> nat b * 2 ^ nat (- E)"
      by (simp only: of_nat_le_iff)
    with True show ?thesis by simp
  next
    case False
    have "int (m * 2 ^ nat (e - ?k)) \<le> int (M * 2 ^ nat (E - ?k))"
      using le by simp
    then have "m * 2 ^ nat (e - ?k) \<le> nat b * (2 ^ nat (- E) * 2 ^ nat (E - ?k))"
      unfolding of_nat_le_iff b by (simp only: mult.assoc)
    also have "2 ^ nat (- E) * 2 ^ nat (E - ?k) = (2 :: nat) ^ (nat (- e) + nat (e - ?k))"
      using E False by (simp only: power_add [symmetric]) (rule arg_cong [of _ _ "power 2"], linarith)
    finally have "m * 2 ^ nat (e - ?k) \<le> (nat b * 2 ^ nat (- e)) * 2 ^ nat (e - ?k)"
      by (simp only: power_add mult.assoc)
    then have "m \<le> nat b * 2 ^ nat (- e)" by simp
    then have "m div 2 ^ nat (- e) \<le> nat b * 2 ^ nat (- e) div 2 ^ nat (- e)" by (rule div_le_mono)
    with False show ?thesis by simp
  qed
  show ?thesis using sg mb b(2) FFin by (auto simp: fsigned_def le_nat_iff)
qed

lemma floatToTfN_range:
  "floatToTfN bits offset scale xs = Inr qs \<Longrightarrow> i < length xs \<Longrightarrow> 0 \<le> qs ! i \<and> qs ! i \<le> 2 ^ bits - 1"
  unfolding floatToTfN_alt
  by (drule (1) rmap_nth) (auto simp: Let_def cast_int_def split: option.splits if_splits)

lemma f64_of_int_pow:
  assumes "bits = 8 \<or> bits = 16"
  shows "\<exists>M E. f64_val (f64_of_int (2 ^ bits - 1)) = FFin False M E \<and> E \<le> 0
           \<and> M = nat (2 ^ bits - 1) * 2 ^ nat (- E)"
  using assms by (auto simp: f64_small_ints)

text \<open>Unless the quotient is a NaN, quantization is defined.\<close>

lemma floatToTfN_total:
  assumes bits: "bits = 8 \<or> bits = 16"
    and nn: "\<And>x. x \<in> set xs \<Longrightarrow> \<not> f64_isnan (tfn_quotient bits offset scale x)"
  shows "\<exists>qs. floatToTfN bits offset scale xs = Inr qs"
  unfolding floatToTfN_alt
proof (rule rmap_total)
  fix x assume "x \<in> set xs"
  from nn [OF this] have nan: "f64_val (tfn_quotient bits offset scale x) \<noteq> FNaN"
    by (simp add: f64_isnan_def)
  obtain M E where me: "f64_val (f64_of_int (2 ^ bits - 1)) = FFin False M E" "E \<le> 0"
    "M = nat (2 ^ bits - 1) * 2 ^ nat (- E)"
    using f64_of_int_pow [OF bits] by blast
  let ?q = "tfn_quotient bits offset scale x" and ?max = "f64_of_int (2 ^ bits - 1)"
  let ?v = "f64_val (if f64_lt ?q (f64_of_int 0) then f64_of_int 0 else if f64_lt ?max ?q then ?max else ?q)"
  have pos: "(0 :: int) \<le> 2 ^ bits - 1" by simp
  have zero: "\<not> fval_less (FFin False M E) (FFin False 0 (- 1074))"
    by (simp add: Let_def fsigned_def not_less)
  have pm: "\<not> fval_less (f64_val ?max) (f64_val (f64_of_int 0))"
    unfolding me(1) f64_small_ints by (rule zero)
  have "\<exists>i. ftrunc ?v = Some i \<and> 0 \<le> i \<and> i \<le> 2 ^ bits - 1"
  proof (rule ftrunc_bounds [OF _ _ _ me(2) me(3) pos])
    show "?v \<noteq> FNaN" using nan me(1) f64_small_ints(1) by simp
    show "\<not> fval_less ?v (FFin False 0 (- 1074))"
      unfolding f64_small_ints(1) [symmetric]
      using fval_less_irrefl pm by (auto simp: f64_lt_def)
    show "\<not> fval_less (FFin False M E) ?v"
      unfolding me(1) [symmetric]
      using fval_less_irrefl pm by (auto simp: f64_lt_def)
  qed
  then show "\<exists>y. (let q = ?q; max_val = ?max
        in cast_int 0 (2 ^ bits - 1)
             (f64_val (if f64_lt q (f64_of_int 0) then f64_of_int 0 else if f64_lt max_val q then max_val else q)))
      = Inr y"
    by (auto simp: cast_int_def Let_def)
qed

section \<open>What a write changes\<close>

lemma encode_float_like_length:
  "encode_float_like t src = Inr bs \<Longrightarrow> length bs = src_len src * elem_bytes (qt_dtype t)"
  by (auto simp: encode_float_like_def src_len_def src_floats_def src_doubles_def src_vals_def
      elem_bytes_def floatToFloat16_def castFromFloat_def floatToTfN_alt
      split: qnn_dtype.splits fsrc.splits quant_params.splits dest!: rmap_length)

lemma write_float_InrD:
  assumes "write_float g n src m = Inr m'"
  obtains b t sz bs where "g_in_ptr g n = Some (Some b)" "tensorByteSize t = Inr sz"
    "t \<in> set (g_inputs g)" "encode_float_like t src = Inr bs"
    "length bs \<le> sz" "length bs \<le> length (m b)" "m' = m(b := blit 0 bs (m b))"
proof -
  from assms obtain buf i where bi: "g_in_ptr g n = Some buf" "g_in_index g n = Some i" "i < length (g_inputs g)"
    and w: "writeFloatLike (g_inputs g ! i) buf src m = Inr m'"
    by (auto simp: write_float_def at_map_def idx_vec_def split: option.splits if_splits)
  from w obtain sz bs b where x: "tensorByteSize (g_inputs g ! i) = Inr sz"
    "encode_float_like (g_inputs g ! i) src = Inr bs" "buf = Some b"
    "src_len src * elem_bytes (qt_dtype (g_inputs g ! i)) \<le> sz" "mem_store b 0 bs m = Inr m'"
    by (auto simp: writeFloatLike_def Let_def deref_def not_less split: if_splits option.splits)
  from x encode_float_like_length [OF x(2)] mem_store_InrD [OF x(5)] bi show thesis
    by (intro that [of b "g_inputs g ! i" sz bs]) auto
qed

section \<open>What setup establishes\<close>

definition upd_all :: "('i \<Rightarrow> 'k) \<Rightarrow> ('i \<Rightarrow> 'v) \<Rightarrow> 'i list \<Rightarrow> ('k \<Rightarrow> 'v option) \<Rightarrow> 'k \<Rightarrow> 'v option" where
  "upd_all key val is m = foldl (\<lambda>m i. m(key i \<mapsto> val i)) m is"

lemma upd_all_simps [simp]:
  "upd_all key val [] m = m"
  "upd_all key val (i # is) m = upd_all key val is (m(key i \<mapsto> val i))"
  by (simp_all add: upd_all_def)

lemma dom_upd_all [simp]: "dom (upd_all key val is m) = dom m \<union> key ` set is"
  by (induction "is" arbitrary: m) auto

lemma upd_all_SomeD:
  "upd_all key val is m k = Some v \<Longrightarrow> (\<exists>i\<in>set is. key i = k \<and> v = val i) \<or> k \<notin> key ` set is \<and> m k = Some v"
proof (induction "is" arbitrary: m)
  case Nil
  then show ?case by simp
next
  case (Cons i "is")
  from Cons.IH Cons.prems show ?case by (fastforce split: if_splits)
qed

lemma upd_all_unique:
  "inj_on key (set is) \<Longrightarrow> i \<in> set is \<Longrightarrow> upd_all key val is m (key i) = Some (val i)"
proof -
  assume i: "inj_on key (set is)" "i \<in> set is"
  then have "key i \<in> dom (upd_all key val is m)" by simp
  then obtain v where v: "upd_all key val is m (key i) = Some v" by blast
  from upd_all_SomeD [OF v] i obtain j where "j \<in> set is" "key j = key i" "v = val j" by auto
  with i v show ?thesis by (auto dest: inj_onD)
qed

definition io_wf :: "qnn_tensor list \<Rightarrow> tensor_spec list \<Rightarrow> (string \<Rightarrow> nat option)
    \<Rightarrow> (string \<Rightarrow> nat option option) \<Rightarrow> (string \<Rightarrow> nat option) \<Rightarrow> (nat \<Rightarrow> nat option) \<Rightarrow> bool" where
  "io_wf ts specs index ptr sizes get \<longleftrightarrow>
     specs = map makeSpec ts
     \<and> dom index = qt_name ` set ts \<and> dom ptr = qt_name ` set ts \<and> dom sizes = qt_name ` set ts
     \<and> (\<forall>n i. index n = Some i \<longrightarrow> i < length ts \<and> qt_name (ts ! i) = n)
     \<and> (\<forall>n p. ptr n = Some p \<longrightarrow> (\<exists>i<length ts. qt_name (ts ! i) = n \<and> p = get i))
     \<and> (\<forall>n sz. sizes n = Some sz \<longrightarrow> (\<exists>i<length ts. qt_name (ts ! i) = n \<and> tensorByteSize (ts ! i) = Inr sz))"

definition graph_wf :: "(nat \<Rightarrow> nat option) \<Rightarrow> (nat \<Rightarrow> nat option) \<Rightarrow> graph \<Rightarrow> bool" where
  "graph_wf get_in get_out g \<longleftrightarrow> g_setup_done g
     \<and> io_wf (g_inputs g) (g_in_specs g) (g_in_index g) (g_in_ptr g) (g_in_sizes g) get_in
     \<and> io_wf (g_outputs g) (g_out_specs g) (g_out_index g) (g_out_ptr g) (g_out_sizes g) get_out"

lemma setup_inputs_run:
  "sfor (\<lambda>i. supd (setup_input get ts i)) is g = (Inr u, g') \<Longrightarrow>
   (\<forall>i\<in>set is. tensorByteSize (ts ! i) = Inr (projr (tensorByteSize (ts ! i))))
   \<and> g' = g\<lparr> g_in_ptr := upd_all (\<lambda>i. qt_name (ts ! i)) get is (g_in_ptr g),
            g_in_sizes := upd_all (\<lambda>i. qt_name (ts ! i)) (\<lambda>i. projr (tensorByteSize (ts ! i))) is (g_in_sizes g) \<rparr>"
proof (induction "is" arbitrary: g)
  case Nil
  then show ?case by (simp add: sx_simps)
next
  case (Cons i "is")
  from Cons.prems obtain g1 where g1: "setup_input get ts i g = Inr g1"
    "sfor (\<lambda>i. supd (setup_input get ts i)) is g1 = (Inr u, g')"
    by (auto simp: sthen_run supd_run [of _ g] split: sum.splits)
  from g1(1) obtain sz where sz: "tensorByteSize (ts ! i) = Inr sz"
    "g1 = g\<lparr> g_in_sizes := (g_in_sizes g)(qt_name (ts ! i) \<mapsto> sz),
             g_in_ptr := (g_in_ptr g)(qt_name (ts ! i) \<mapsto> get i) \<rparr>"
    by (auto simp: setup_input_def Let_def)
  from Cons.IH [OF g1(2)] show ?case by (simp add: sz fun_upd_def)
qed

lemma setup_outputs_run:
  "sfor (\<lambda>i. supd (setup_output get ts i)) is g = (Inr u, g') \<Longrightarrow>
   (\<forall>i\<in>set is. tensorByteSize (ts ! i) = Inr (projr (tensorByteSize (ts ! i))))
   \<and> g' = g\<lparr> g_out_ptr := upd_all (\<lambda>i. qt_name (ts ! i)) get is (g_out_ptr g),
            g_out_sizes := upd_all (\<lambda>i. qt_name (ts ! i)) (\<lambda>i. projr (tensorByteSize (ts ! i))) is (g_out_sizes g) \<rparr>"
proof (induction "is" arbitrary: g)
  case Nil
  then show ?case by (simp add: sx_simps)
next
  case (Cons i "is")
  from Cons.prems obtain g1 where g1: "setup_output get ts i g = Inr g1"
    "sfor (\<lambda>i. supd (setup_output get ts i)) is g1 = (Inr u, g')"
    by (auto simp: sthen_run supd_run [of _ g] split: sum.splits)
  from g1(1) obtain sz where sz: "tensorByteSize (ts ! i) = Inr sz"
    "g1 = g\<lparr> g_out_sizes := (g_out_sizes g)(qt_name (ts ! i) \<mapsto> sz),
             g_out_ptr := (g_out_ptr g)(qt_name (ts ! i) \<mapsto> get i) \<rparr>"
    by (auto simp: setup_output_def Let_def)
  from Cons.IH [OF g1(2)] show ?case by (simp add: sz fun_upd_def)
qed

lemma io_wf_upd_all:
  assumes "\<forall>i\<in>set [0..<length ts]. tensorByteSize (ts ! i) = Inr (projr (tensorByteSize (ts ! i)))"
  shows "io_wf ts (map makeSpec ts)
     (upd_all (\<lambda>i. ts_name (map makeSpec ts ! i)) (\<lambda>i. i) [0..<length (map makeSpec ts)] Map.empty)
     (upd_all (\<lambda>i. qt_name (ts ! i)) get [0..<length ts] Map.empty)
     (upd_all (\<lambda>i. qt_name (ts ! i)) (\<lambda>i. projr (tensorByteSize (ts ! i))) [0..<length ts] Map.empty) get"
proof -
  have nm: "ts_name (makeSpec t) = qt_name t" for t by (simp add: makeSpec_def)
  have set_eq: "(\<lambda>i. qt_name (ts ! i)) ` {0..<length ts} = qt_name ` set ts"
    by (force simp: set_conv_nth)
  have "(\<lambda>i. ts_name (map makeSpec ts ! i)) ` {0..<length ts} = qt_name ` set ts"
    using set_eq by (force simp: nm)
  with set_eq show ?thesis using assms
    by (auto simp: io_wf_def nm simp del: upd_all_simps dest!: upd_all_SomeD)
qed

lemma graph_setup_done: "g_setup_done g \<Longrightarrow> graph_setup get_in get_out g = (Inr True, g)"
  by (simp add: graph_setup_def sx_simps)

lemma graph_setup_wf:
  assumes "graph_setup get_in get_out (mkGraph (Some gi)) = (Inr b, g)"
  shows "b" and "graph_wf get_in get_out g" and "g_inputs g = gi_inputs gi"
    and "g_outputs g = gi_outputs gi" and "g_name g = gi_name gi"
proof -
  let ?g0 = "mkGraph (Some gi)\<lparr> g_inputs := gi_inputs gi, g_outputs := gi_outputs gi \<rparr>"
  from assms obtain u1 g1 u2 g2 where
    a: "sfor (\<lambda>i. supd (setup_input get_in (gi_inputs gi) i)) [0..<length (gi_inputs gi)] ?g0 = (Inr u1, g1)"
    and b: "sfor (\<lambda>i. supd (setup_output get_out (gi_outputs gi) i)) [0..<length (gi_outputs gi)] g1 = (Inr u2, g2)"
    and c: "b" "g = buildSpecs gi g2\<lparr> g_setup_done := True \<rparr>"
    by (auto simp: graph_setup_def mkGraph_def sx_simps sthen_run split: sum.splits prod.splits)
  note r1 = setup_inputs_run [OF a] and r2 = setup_outputs_run [OF b]
  show "b" by (rule c)
  show "g_inputs g = gi_inputs gi" "g_outputs g = gi_outputs gi" "g_name g = gi_name gi"
    using r1 r2 c by (simp_all add: buildSpecs_def Let_def mkGraph_def)
  have "io_wf (g_inputs g) (g_in_specs g) (g_in_index g) (g_in_ptr g) (g_in_sizes g) get_in"
    using io_wf_upd_all [of "gi_inputs gi" get_in] r1 r2 c
    by (simp add: buildSpecs_def Let_def mkGraph_def upd_all_def)
  moreover have "io_wf (g_outputs g) (g_out_specs g) (g_out_index g) (g_out_ptr g) (g_out_sizes g) get_out"
    using io_wf_upd_all [of "gi_outputs gi" get_out] r1 r2 c
    by (simp add: buildSpecs_def Let_def mkGraph_def upd_all_def)
  moreover have "g_setup_done g" using c by simp
  ultimately show "graph_wf get_in get_out g" by (simp add: graph_wf_def)
qed

text \<open>On a graph that has been set up, a lookup of a present name succeeds.\<close>

lemma graph_wf_inputSpec:
  assumes "graph_wf get_in get_out g" "hasInput g n"
  obtains i where "i < length (g_inputs g)" "inputSpec g n = Inr (makeSpec (g_inputs g ! i))"
    "qt_name (g_inputs g ! i) = n"
proof -
  from assms(2) obtain i where i: "g_in_index g n = Some i" by (auto simp: hasInput_def)
  with assms(1) have "i < length (g_inputs g)" "qt_name (g_inputs g ! i) = n"
    "g_in_specs g = map makeSpec (g_inputs g)"
    by (auto simp: graph_wf_def io_wf_def)
  with i show thesis by (intro that [of i]) (simp_all add: inputSpec_def at_map_def at_vec_def)
qed

section \<open>Concrete instances\<close>

lemma demo_floats:
  "f64_val (f64_of_int 1) = FFin False 4503599627370496 (- 52)" "f64_val (f64_of_int (- 1)) = FFin True 4503599627370496 (- 52)"
  "f64_val (f64_of_f32 (f32_of_int 1)) = FFin False 4503599627370496 (- 52)"
  by (simp_all add: f64_of_int_def f64_of_f32_def f32_of_int_def f32_val_of f64_val_of f_eval)

lemma demo_encoding:
  "f64_val (f64_mul (f64_of_int (- 1)) (f64_of_f32 (f32_of_int 1))) = FFin True 4503599627370496 (- 52)"
  "f64_val (f64_add (f64_of_int 255) (f64_of_int (- 1))) = FFin False 8936830510563328 (- 45)"
  by (simp_all add: f64_mul_def f64_add_def demo_floats f64_small_ints fsigned_def f64_val_of f_eval)

lemma demo_encoding_max:
  "f64_val (f64_mul (f64_add (f64_of_int 255) (f64_of_int (- 1))) (f64_of_f32 (f32_of_int 1)))
     = FFin False 8936830510563328 (- 45)"
  by (simp add: f64_mul_def [of "f64_add a b" for a b] demo_encoding demo_floats f64_val_of f_eval)

lemma demo_scaled:
  "f64_val (f64_mul (f64_of_int 255) (f64_sub (f64_of_int 1) (f64_mul (f64_of_int (- 1)) (f64_of_f32 (f32_of_int 1)))))
     = FFin False 8972014882652160 (- 44)"
  by (simp add: f64_mul_def [of "f64_of_int 255"] f64_sub_def fsub_def fneg_def demo_encoding demo_floats f64_small_ints
      fsigned_def f64_val_of f_eval)

lemma demo_span:
  "f64_val (f64_sub (f64_mul (f64_add (f64_of_int 255) (f64_of_int (- 1))) (f64_of_f32 (f32_of_int 1)))
     (f64_mul (f64_of_int (- 1)) (f64_of_f32 (f32_of_int 1)))) = FFin False 8972014882652160 (- 45)"
  by (simp add: f64_sub_def fsub_def fneg_def demo_encoding demo_encoding_max fsigned_def f64_val_of f_eval)

theorem floatToTfN_quantizes:
  assumes "bits = 8 \<or> bits = 16" "\<And>x. x \<in> set xs \<Longrightarrow> \<not> f64_isnan (tfn_quotient bits offset scale x)"
  shows "\<exists>qs. floatToTfN bits offset scale xs = Inr qs \<and> (\<forall>i < length xs. 0 \<le> qs ! i \<and> qs ! i \<le> 2 ^ bits - 1)"
  using floatToTfN_total [OF assms] floatToTfN_range by blast

lemma floatToTfN_quantizes_witness:
  "\<exists>qs. floatToTfN 8 (- 1) (f32_of_int 1) [f64_of_int 1] = Inr qs \<and> 0 \<le> qs ! 0 \<and> qs ! 0 \<le> 255"
proof -
  have "\<not> f64_isnan (tfn_quotient 8 (- 1) (f32_of_int 1) x)" if "x \<in> set [f64_of_int 1]" for x
    using that by (simp add: f64_isnan_def tfn_quotient_def Let_def f64_div_def demo_scaled demo_span f64_val_of f_eval)
  from floatToTfN_quantizes [of 8 "[f64_of_int 1]", OF _ this] show ?thesis by simp
qed

end
