(* ===== verification/Models.thy ===== *)
theory Models
  imports Graphs
begin

text \<open>
  The base class \<open>Model\<close> (\<open>core/src/model.cpp\<close>, \<open>core/src/model_init.cpp\<close>): the vector of
  graphs, bring-up, and the copies along inter-graph connections. The memory the graphs'
  buffers live in is part of the model's state. What the vendor API delivers at bring-up
  (whether it came up, the graph descriptors, the buffer of each tensor) is a parameter.
\<close>

record model =
  m_graphs :: "graph list"
  m_mem :: mem
  m_initialized :: bool

record connection =
  c_src_graph :: nat
  c_src_name :: string
  c_dst_graph :: nat
  c_dst_name :: string

text \<open>\<open>Model::graph\<close>: the vector's \<open>at\<close>.\<close>

definition graph_at :: "'a model_scheme \<Rightarrow> nat \<Rightarrow> graph res" where
  "graph_at md i = at_vec (m_graphs md) i"

section \<open>Connections\<close>

definition apply_connection :: "graph list \<Rightarrow> connection \<Rightarrow> mem \<Rightarrow> mem res" where
  "apply_connection gs c m =
     rbind (idx_vec gs (c_src_graph c)) (\<lambda>sg.
     rbind (outputPtr sg (c_src_name c)) (\<lambda>src.
     rbind (idx_vec gs (c_dst_graph c)) (\<lambda>dg.
     rbind (inputPtr dg (c_dst_name c)) (\<lambda>dst.
       if src = dst then Inr m
       else rbind (outputSpec sg (c_src_name c)) (\<lambda>spec.
            rbind (deref dst) (\<lambda>d.
            rbind (deref src) (\<lambda>s. mem_copy d 0 s 0 (byteCount spec) m)))))))"

text \<open>The handler turns every exception into one; undefined behaviour is not caught.\<close>

definition rethrow :: "string \<Rightarrow> 'a res \<Rightarrow> 'a res" where
  "rethrow msg r =
     (case r of Inl UndefinedBehaviour \<Rightarrow> Inl UndefinedBehaviour
      | Inl Blocked \<Rightarrow> Inl Blocked
      | Inl _ \<Rightarrow> Inl (RuntimeError msg)
      | Inr a \<Rightarrow> Inr a)"

definition applyConnections :: "graph list \<Rightarrow> connection list \<Rightarrow> mem \<Rightarrow> mem res" where
  "applyConnections gs cs m =
     rfor (\<lambda>c m. rethrow ''applyConnections failed'' (apply_connection gs c m)) cs m"

lemma rethrow_Inr_iff [simp]: "rethrow msg r = Inr a \<longleftrightarrow> r = Inr a"
  by (cases r) (auto simp: rethrow_def split: err.splits)

lemma apply_connection_InrD:
  assumes "apply_connection gs c m = Inr m'"
  shows "m' = m \<or> (\<exists>sg dg spec d s. c_src_graph c < length gs \<and> sg = gs ! c_src_graph c
     \<and> c_dst_graph c < length gs \<and> dg = gs ! c_dst_graph c
     \<and> outputSpec sg (c_src_name c) = Inr spec \<and> outputPtr sg (c_src_name c) = Inr (Some s)
     \<and> inputPtr dg (c_dst_name c) = Inr (Some d) \<and> d \<noteq> s
     \<and> byteCount spec \<le> length (m s) \<and> byteCount spec \<le> length (m d)
     \<and> m' = m(d := blit 0 (slice 0 (byteCount spec) (m s)) (m d)))"
proof (rule disjCI)
  let ?sg = "gs ! c_src_graph c" and ?dg = "gs ! c_dst_graph c"
  assume "\<not> (\<exists>sg dg spec d s. c_src_graph c < length gs \<and> sg = gs ! c_src_graph c
     \<and> c_dst_graph c < length gs \<and> dg = gs ! c_dst_graph c
     \<and> outputSpec sg (c_src_name c) = Inr spec \<and> outputPtr sg (c_src_name c) = Inr (Some s)
     \<and> inputPtr dg (c_dst_name c) = Inr (Some d) \<and> d \<noteq> s
     \<and> byteCount spec \<le> length (m s) \<and> byteCount spec \<le> length (m d)
     \<and> m' = m(d := blit 0 (slice 0 (byteCount spec) (m s)) (m d)))"
  with assms show "m' = m"
    by (auto simp: apply_connection_def idx_vec_def deref_def mem_copy_def mem_load_def buf_load_def
        length_slice split: if_splits option.splits dest!: mem_store_InrD)
qed

text \<open>Connections never change the length of a buffer, nor a buffer no connection feeds.\<close>

lemma apply_connection_length:
  assumes "apply_connection gs c m = Inr m'" shows "length (m' b) = length (m b)"
  using apply_connection_InrD [OF assms] by (auto simp: length_blit length_slice)

lemma apply_connection_frame:
  assumes "apply_connection gs c m = Inr m'"
    and "\<And>dg. c_dst_graph c < length gs \<Longrightarrow> dg = gs ! c_dst_graph c \<Longrightarrow> inputPtr dg (c_dst_name c) \<noteq> Inr (Some b)"
  shows "m' b = m b"
  using apply_connection_InrD [OF assms(1)] assms(2) by auto

section \<open>Bring-up\<close>

text \<open>
  \<open>api_ok\<close> is the result of \<open>initializeHtp\<close>, \<open>infos\<close> the graph descriptors it loaded with
  the buffers of their tensors, \<open>on_init\<close> the virtual \<open>onInitialized\<close>. A failing step
  leaves the graphs set up so far in the vector, as the code does.
\<close>

type_synonym loaded_graph = "graph_info \<times> (nat \<Rightarrow> nat option) \<times> (nat \<Rightarrow> nat option)"

definition add_graph :: "loaded_graph \<Rightarrow> ('a model_scheme, bool) sx" where
  "add_graph lg = (\<lambda>md. case lg of (gi, get_in, get_out) \<Rightarrow>
     (case graph_setup get_in get_out (mkGraph (Some gi)) of
        (r, g) \<Rightarrow> (r, md\<lparr> m_graphs := m_graphs md @ [g] \<rparr>)))"

primrec add_graphs :: "loaded_graph list \<Rightarrow> ('a model_scheme, bool) sx" where
  "add_graphs [] = sret True"
| "add_graphs (lg # lgs) = sbind (add_graph lg) (\<lambda>ok. if ok then add_graphs lgs else sret False)"

definition model_initialize :: "bool \<Rightarrow> loaded_graph list \<Rightarrow> ('a model_scheme, bool) sx
    \<Rightarrow> ('a model_scheme, bool) sx" where
  "model_initialize api_ok infos on_init = swith (\<lambda>md.
     if m_initialized md then sret True
     else if \<not> api_ok then sret False
     else sbind (add_graphs infos) (\<lambda>ok.
          if \<not> ok then sret False
          else sbind on_init (\<lambda>ok2.
               if \<not> ok2 then sret False
               else sthen (smod (\<lambda>md. md\<lparr> m_initialized := True \<rparr>)) (sret True))))"

lemma add_graphs_wf:
  assumes "add_graphs lgs md = (Inr True, md')"
  shows "\<exists>gs. m_graphs md' = m_graphs md @ gs \<and> m_mem md' = m_mem md \<and> list_all2 (\<lambda>g (gi, get_in, get_out).
     graph_wf get_in get_out g \<and> g_name g = gi_name gi \<and> g_inputs g = gi_inputs gi
     \<and> g_outputs g = gi_outputs gi) gs lgs"
  using assms
proof (induction lgs arbitrary: md)
  case Nil
  then show ?case by (simp add: sx_simps)
next
  case (Cons lg lgs)
  obtain gi get_in get_out where lg: "lg = (gi, get_in, get_out)" by (cases lg)
  from Cons.prems obtain g where g: "graph_setup get_in get_out (mkGraph (Some gi)) = (Inr True, g)"
    and r: "add_graphs lgs (md\<lparr> m_graphs := m_graphs md @ [g] \<rparr>) = (Inr True, md')"
    by (auto simp: sbind_run lg add_graph_def sx_simps split: prod.splits sum.splits if_splits)
  from Cons.IH [OF r] obtain gs where "m_graphs md' = m_graphs md @ g # gs" "m_mem md' = m_mem md"
    "list_all2 (\<lambda>g (gi, get_in, get_out). graph_wf get_in get_out g \<and> g_name g = gi_name gi
       \<and> g_inputs g = gi_inputs gi \<and> g_outputs g = gi_outputs gi) gs lgs"
    by auto
  with graph_setup_wf [OF g] show ?case by (intro exI [of _ "g # gs"]) (auto simp: lg)
qed

text \<open>Once a model has initialized, doing it again changes nothing.\<close>

lemma model_initialize_idem:
  "m_initialized md \<Longrightarrow> model_initialize api_ok infos on_init md = (Inr True, md)"
  by (simp add: model_initialize_def sx_simps)

lemma model_initialize_sets:
  assumes "model_initialize api_ok infos on_init md = (Inr b, md')" "\<not> m_initialized md"
    and "\<And>md0 b md1. \<not> m_initialized md0 \<Longrightarrow> on_init md0 = (Inr b, md1) \<Longrightarrow> \<not> m_initialized md1"
  shows "m_initialized md' = b"
proof -
  have ag: "add_graphs lgs md0 = (Inr c, md1) \<Longrightarrow> m_initialized md1 = m_initialized md0" for lgs md0 c md1
    by (induction lgs arbitrary: md0)
      (auto simp: sx_simps sbind_run add_graph_def split: prod.splits sum.splits if_splits)
  show ?thesis using assms(1,2)
    by (auto simp: model_initialize_def sx_simps sbind_run sthen_run dest!: ag dest: assms(3)
        split: prod.splits sum.splits if_splits)
qed

end
