(* ===== verification/LLMUtils.thy ===== *)
theory LLMUtils
  imports Models
begin

text \<open>
  \<open>core/src/llm/llm_utils.cpp\<close>: the classification of tensors by name, the rotary position
  embeddings, position ids, the causal attention mask and the embedding lookup. The
  rotary tables are computed with IEEE arithmetic around the \<open>libm\<close> parameter.
\<close>

section \<open>Tensor names\<close>

definition has_suffix :: "string \<Rightarrow> string \<Rightarrow> bool" where
  "has_suffix suf s \<longleftrightarrow> length suf \<le> length s \<and> drop (length s - length suf) s = suf"

fun is_infix :: "string \<Rightarrow> string \<Rightarrow> bool" where
  "is_infix pat [] = (pat = [])"
| "is_infix pat (c # cs) = (take (length pat) (c # cs) = pat \<or> is_infix pat cs)"

definition isKVTensor :: "string \<Rightarrow> bool" where
  "isKVTensor s \<longleftrightarrow>
     (has_suffix ''_in'' s \<or> has_suffix ''_out'' s) \<and> (is_infix ''key'' s \<or> is_infix ''value'' s)"

definition isSpecialTensor :: "string \<Rightarrow> bool" where
  "isSpecialTensor name \<longleftrightarrow>
     name \<in> set [''attention_mask'', ''position_ids'', ''position_ids_cos'', ''position_ids_sin'']
     \<or> isKVTensor name"

section \<open>Rotary embeddings\<close>

definition d_one :: f64 where "d_one = 0x3FF0000000000000"
definition d_two :: f64 where "d_two = 0x4000000000000000"
definition d_pi :: f64 where "d_pi = 0x400921FB54442D18"

text \<open>The table of one function \<open>f\<close> of the angle, flat, a row of \<open>inv_freq\<close> per position.\<close>

definition rope_table :: "(f64 \<Rightarrow> f64) \<Rightarrow> f64 list \<Rightarrow> int list \<Rightarrow> f64 list" where
  "rope_table f inv_freq position_ids =
     concat (map (\<lambda>p. map (\<lambda>w. f (f64_mul (f64_of_int p) w)) inv_freq) position_ids)"

definition rotary_inv_freq :: "libm \<Rightarrow> nat \<Rightarrow> f32 \<Rightarrow> f64 list" where
  "rotary_inv_freq lm head_dim theta =
     (let theta_d = f64_of_f32 theta; exponent = f64_div d_one (f64_of_int (int head_dim))
      in map (\<lambda>i. f64_div d_one (m_pow lm theta_d (f64_mul (f64_of_int (int (i * 2))) exponent)))
           [0..<head_dim div 2])"

definition rotary_forward :: "libm \<Rightarrow> f64 list \<Rightarrow> int list \<Rightarrow> f64 list \<times> f64 list" where
  "rotary_forward lm inv_freq ids =
     (rope_table (m_cos lm) inv_freq ids, rope_table (m_sin lm) inv_freq ids)"

record longrope =
  lr_ext_factors :: "f64 list"
  lr_base :: f64
  lr_dim :: int
  lr_max_position :: int
  lr_original_max :: int
  lr_half_dim :: nat

text \<open>\<open>resize\<close> cuts a vector or pads it with a value.\<close>

definition vec_resize :: "nat \<Rightarrow> 'a \<Rightarrow> 'a list \<Rightarrow> 'a list" where
  "vec_resize n a xs = take n xs @ replicate (n - length xs) a"

definition mkLongRoPE :: "nat \<Rightarrow> f32 \<Rightarrow> f32 list \<Rightarrow> int \<Rightarrow> int \<Rightarrow> longrope" where
  "mkLongRoPE head_dim theta ext max_pos orig_max = \<lparr>
     lr_ext_factors = vec_resize (head_dim div 2) d_one (map f64_of_f32 ext),
     lr_base = f64_of_f32 theta, lr_dim = to_i32 (int head_dim), lr_max_position = max_pos,
     lr_original_max = orig_max, lr_half_dim = head_dim div 2 \<rparr>"

definition longrope_inv_freq :: "libm \<Rightarrow> longrope \<Rightarrow> f64 list" where
  "longrope_inv_freq lm r =
     (let dim_d = f64_of_int (lr_dim r)
      in map (\<lambda>i. let exponent = f64_div (f64_of_int (int (i * 2))) dim_d;
                      base_power = m_pow lm (lr_base r) exponent
                  in f64_div d_one (f64_mul (lr_ext_factors r ! i) base_power))
           [0..<lr_half_dim r])"

definition longrope_scaling :: "libm \<Rightarrow> longrope \<Rightarrow> f64" where
  "longrope_scaling lm r =
     (let ratio = f64_div (f64_of_int (lr_max_position r)) (f64_of_int (lr_original_max r))
      in if \<not> f64_lt d_one ratio \<and> \<not> f64_isnan ratio then d_one
         else m_sqrt lm (f64_add d_one (f64_div (m_log lm ratio)
                (m_log lm (f64_of_int (lr_original_max r))))))"

definition longrope_forward :: "libm \<Rightarrow> longrope \<Rightarrow> int list \<Rightarrow> f64 list \<times> f64 list" where
  "longrope_forward lm r ids =
     (let inv_freq = longrope_inv_freq lm r; sc = longrope_scaling lm r
      in (rope_table (\<lambda>x. f64_mul (m_cos lm x) sc) inv_freq ids,
          rope_table (\<lambda>x. f64_mul (m_sin lm x) sc) inv_freq ids))"

definition llama3_inv_freq :: "libm \<Rightarrow> nat \<Rightarrow> f32 \<Rightarrow> f32 \<Rightarrow> f32 \<Rightarrow> f32 \<Rightarrow> int \<Rightarrow> f64 list" where
  "llama3_inv_freq lm head_dim theta factor low_ff high_ff orig_max =
     (let half_dim = head_dim div 2;
          theta_d = f64_of_f32 theta;
          exponent = f64_div d_one (f64_of_int (int half_dim));
          factor_d = f64_of_f32 factor;
          low_d = f64_of_f32 low_ff;
          high_d = f64_of_f32 high_ff;
          old_ctx = f64_of_int orig_max;
          low_wavelen = f64_div old_ctx low_d;
          high_wavelen = f64_div old_ctx high_d
      in map (\<lambda>j.
           let power = m_pow lm theta_d (f64_mul (f64_of_int (int j)) exponent);
               w = f64_div d_one power;
               wavelen = f64_div (f64_mul d_two d_pi) w
           in if f64_lt wavelen high_wavelen then w
              else if f64_lt low_wavelen wavelen then f64_div d_one (f64_mul factor_d power)
              else let smooth = f64_div (f64_sub (f64_div old_ctx wavelen) low_d) (f64_sub high_d low_d)
                   in f64_add (f64_div (f64_mul (f64_sub d_one smooth) w) factor_d) (f64_mul smooth w))
           [0..<half_dim])"

text \<open>\<open>static_cast<size_t>(head_dim * rope_fraction)\<close> is computed in \<open>float\<close>.\<close>

definition partial_rope_dim :: "nat \<Rightarrow> f32 \<Rightarrow> nat res" where
  "partial_rope_dim head_dim fraction =
     rbind (cast_int 0 (2 ^ 64 - 1) (f32_val (f32_mul (f32_of_int (int head_dim)) fraction)))
       (\<lambda>d. Inr (nat d))"

definition partial_inv_freq :: "libm \<Rightarrow> nat \<Rightarrow> f32 \<Rightarrow> f64 list" where
  "partial_inv_freq lm rope_dim theta =
     (let theta_d = f64_of_f32 theta; exponent = f64_div d_one (f64_of_int (int rope_dim))
      in map (\<lambda>i. f64_div d_one (m_pow lm theta_d (f64_mul (f64_of_int (int (i * 2))) exponent)))
           [0..<rope_dim div 2])"

definition partial_forward :: "libm \<Rightarrow> f64 list \<Rightarrow> f64 \<Rightarrow> int list \<Rightarrow> f64 list \<times> f64 list" where
  "partial_forward lm inv_freq sc ids =
     (rope_table (\<lambda>x. f64_mul (m_cos lm x) sc) inv_freq ids,
      rope_table (\<lambda>x. f64_mul (m_sin lm x) sc) inv_freq ids)"

section \<open>Positions, mask and embeddings\<close>

definition get_position_ids :: "nat \<Rightarrow> nat \<Rightarrow> int list" where
  "get_position_ids n_past count = map (\<lambda>i. to_i32 (int (n_past + i))) [0..<count]"

definition get_cos_sin :: "libm \<Rightarrow> int list \<Rightarrow> nat \<Rightarrow> f32 \<Rightarrow> f64 list \<times> f64 list" where
  "get_cos_sin lm ids head_dim theta = rotary_forward lm (rotary_inv_freq lm head_dim theta) ids"

definition f32_masked :: f32 where "f32_masked = 0xCE6E6B28" \<comment> \<open>-1e9f\<close>

definition mask_row :: "nat \<Rightarrow> nat \<Rightarrow> nat \<Rightarrow> nat \<Rightarrow> f32 list \<Rightarrow> f32 list res" where
  "mask_row n_past kv_len total_len row msk =
     rbind (buf_store (row * total_len) (replicate (min n_past kv_len) 0) msk)
       (\<lambda>msk. buf_store (row * total_len + kv_len) (replicate (row + 1) 0) msk)"

definition get_attention_mask :: "nat \<Rightarrow> nat \<Rightarrow> nat \<Rightarrow> nat \<Rightarrow> f32 list res" where
  "get_attention_mask n_past curr_len seq_len kv_len =
     (let total_len = kv_len + seq_len
      in rfor (mask_row n_past kv_len total_len) [0..<curr_len] (replicate (seq_len * total_len) f32_masked))"

definition to_size :: "int \<Rightarrow> nat" where
  "to_size i = nat (i mod 2 ^ 64)"

definition tokensToEmbedding :: "int list \<Rightarrow> f32 list \<Rightarrow> nat \<Rightarrow> f32 list res" where
  "tokensToEmbedding token_ids table hidden_size =
     rbind (rmap (\<lambda>t. buf_load (to_size t * hidden_size) hidden_size table) token_ids) (\<lambda>rows. Inr (concat rows))"

definition get_kv_cache :: "nat \<Rightarrow> nat \<Rightarrow> nat \<Rightarrow> f32 list" where
  "get_kv_cache num_kv_heads head_dim kv_len = replicate (num_kv_heads * head_dim * kv_len) 0"

section \<open>The mask is causal\<close>

definition mask_at :: "nat \<Rightarrow> f32 list \<Rightarrow> nat \<Rightarrow> nat \<Rightarrow> f32" where
  "mask_at w msk row col = msk ! (row * w + col)"

definition visible :: "nat \<Rightarrow> nat \<Rightarrow> nat \<Rightarrow> nat \<Rightarrow> nat \<Rightarrow> bool" where
  "visible n_past curr_len kv_len row col \<longleftrightarrow>
     row < curr_len \<and> (col < min n_past kv_len \<or> kv_len \<le> col \<and> col \<le> kv_len + row)"

lemma row_col_less: "row < n \<Longrightarrow> col < w \<Longrightarrow> row * w + col < n * (w :: nat)"
proof -
  assume "row < n" "col < w"
  then have "row * w + col < Suc row * w" by simp
  also have "\<dots> \<le> n * w" using \<open>row < n\<close> by (intro mult_le_mono1) simp
  finally show ?thesis .
qed

lemma row_col_inj:
  "col < w \<Longrightarrow> col' < w \<Longrightarrow> row * w + col = row' * w + col' \<Longrightarrow> row = row' \<and> col = (col' :: nat)"
proof -
  assume c: "col < w" "col' < w" and e: "row * w + col = row' * w + col'"
  have "(row * w + col) div w = row" "(row' * w + col') div w = row'" using c by simp_all
  with e have "row = row'" by metis
  with e show ?thesis by simp
qed

lemma mask_row_ok:
  assumes "length msk = seq * (kv + seq)" "row < seq"
  shows "\<exists>msk'. mask_row n_past kv (kv + seq) row msk = Inr msk' \<and> length msk' = seq * (kv + seq)
     \<and> (\<forall>r < seq. \<forall>c < kv + seq. mask_at (kv + seq) msk' r c
          = (if r = row \<and> (c < min n_past kv \<or> kv \<le> c \<and> c \<le> kv + row) then 0
             else mask_at (kv + seq) msk r c))"
proof -
  let ?w = "kv + seq"
  let ?m1 = "blit (row * ?w) (replicate (min n_past kv) 0) msk"
  let ?m2 = "blit (row * ?w + kv) (replicate (row + 1) 0) ?m1"
  have full: "row * ?w + ?w \<le> length msk"
    using assms mult_le_mono1 [of "Suc row" seq ?w] by simp
  have l1: "length ?m1 = length msk" using full by (intro length_blit) auto
  have run: "mask_row n_past kv ?w row msk = Inr ?m2"
    using full l1 assms(2) by (simp add: mask_row_def buf_store_def)
  have l2: "length ?m2 = length msk" using full l1 assms(2) by (subst length_blit) auto
  have "mask_at ?w ?m2 r c
     = (if r = row \<and> (c < min n_past kv \<or> kv \<le> c \<and> c \<le> kv + row) then 0 else mask_at ?w msk r c)"
    if rc: "r < seq" "c < ?w" for r c
  proof -
    have idx: "r * ?w + c < length msk" using row_col_less [OF rc] assms(1) by simp
    consider "r = row" | "r < row" | "row < r" by linarith
    then show ?thesis
    proof cases
      case 1
      then show ?thesis
        using idx l1 full assms(2) rc by (auto simp: mask_at_def nth_blit simp del: replicate_Suc)
    next
      case 2
      then have "r * ?w + c < row * ?w" using row_col_less [OF 2, of c ?w] rc by simp
      with 2 show ?thesis using idx l1 full assms(2) by (auto simp: mask_at_def nth_blit)
    next
      case 3
      then have "row * ?w + ?w \<le> r * ?w" using mult_le_mono1 [of "Suc row" r ?w] by simp
      with 3 show ?thesis using idx l1 full assms(2) by (auto simp: mask_at_def nth_blit)
    qed
  qed
  with run l2 assms(1) show ?thesis by auto
qed

text \<open>C20: the causal mask is written without leaving its buffer, and a cell is unmasked exactly
  if its row is a real token and its column is a cached token or a token of the chunk not
  behind the row\<close>

lemma get_attention_mask_spec:
  assumes "curr_len \<le> seq_len"
  shows "\<exists>msk. get_attention_mask n_past curr_len seq_len kv_len = Inr msk
     \<and> length msk = seq_len * (kv_len + seq_len)
     \<and> (\<forall>row < seq_len. \<forall>col < kv_len + seq_len.
          mask_at (kv_len + seq_len) msk row col = (if visible n_past curr_len kv_len row col then 0 else f32_masked))"
proof -
  let ?w = "kv_len + seq_len"
  define I where "I k msk \<longleftrightarrow> length msk = seq_len * ?w \<and> (\<forall>r < seq_len. \<forall>c < ?w.
     mask_at ?w msk r c = (if visible n_past k kv_len r c then 0 else f32_masked))" for k msk
  have "\<exists>msk. rfor (mask_row n_past kv_len ?w) [0..<curr_len] (replicate (seq_len * ?w) f32_masked) = Inr msk
      \<and> I (length [0..<curr_len]) msk"
  proof (rule rfor_total)
    show "I 0 (replicate (seq_len * ?w) f32_masked)"
      using row_col_less by (auto simp: I_def mask_at_def visible_def)
  next
    fix k s assume "k < length [0..<curr_len]" and i: "I k s"
    then have k: "k < curr_len" "k < seq_len" using assms by simp_all
    from mask_row_ok [OF _ k(2), of s kv_len n_past] i
    obtain s' where s': "mask_row n_past kv_len ?w k s = Inr s'" "length s' = seq_len * ?w"
      "\<forall>r < seq_len. \<forall>c < ?w. mask_at ?w s' r c
          = (if r = k \<and> (c < min n_past kv_len \<or> kv_len \<le> c \<and> c \<le> kv_len + k) then 0 else mask_at ?w s r c)"
      by (auto simp: I_def)
    moreover have "I (Suc k) s'"
      using i s' by (auto simp: I_def visible_def less_Suc_eq)
    ultimately show "\<exists>s'. mask_row n_past kv_len ?w ([0..<curr_len] ! k) s = Inr s' \<and> I (Suc k) s'"
      using k by simp
  qed
  then show ?thesis by (simp add: get_attention_mask_def I_def Let_def)
qed

text \<open>One run of equal entries, written inside one row.\<close>

lemma mask_store:
  assumes "length msk = H * w" "row < H" "lo + n \<le> w"
  shows "\<exists>msk'. buf_store (row * w + lo) (replicate n v) msk = Inr msk' \<and> length msk' = H * w
     \<and> (\<forall>r<H. \<forall>c<w. mask_at w msk' r c = (if r = row \<and> lo \<le> c \<and> c < lo + n then v else mask_at w msk r c))"
proof -
  let ?m = "blit (row * w + lo) (replicate n v) msk"
  have full: "row * w + w \<le> length msk"
    using assms(1,2) mult_le_mono1 [of "Suc row" H w] by simp
  then have run: "buf_store (row * w + lo) (replicate n v) msk = Inr ?m"
    using assms(3) by (simp add: buf_store_def)
  have "mask_at w ?m r c = (if r = row \<and> lo \<le> c \<and> c < lo + n then v else mask_at w msk r c)"
    if rc: "r < H" "c < w" for r c
  proof -
    have idx: "r * w + c < length msk" using row_col_less [OF rc] assms(1) by simp
    have "row * w + lo \<le> r * w + c \<and> r * w + c < row * w + lo + n \<longleftrightarrow> r = row \<and> lo \<le> c \<and> c < lo + n"
    proof
      assume a: "row * w + lo \<le> r * w + c \<and> r * w + c < row * w + lo + n"
      then have "r * w + c = row * w + (lo + (r * w + c - (row * w + lo)))"
        "lo + (r * w + c - (row * w + lo)) < w" using assms(3) by auto
      with row_col_inj [of c w "lo + (r * w + c - (row * w + lo))" r row] rc(2) a
      show "r = row \<and> lo \<le> c \<and> c < lo + n" by auto
    qed auto
    then show ?thesis using idx full assms(3) by (auto simp: mask_at_def nth_blit)
  qed
  with run full assms show ?thesis by (simp add: length_blit)
qed

section \<open>Other facts\<close>

lemma rope_table_length: "length (rope_table f inv_freq ids) = length ids * length inv_freq"
  by (induction ids) (simp_all add: rope_table_def)

lemma get_position_ids_nth:
  "i < count \<Longrightarrow> n_past + count \<le> 2 ^ 31 \<Longrightarrow> get_position_ids n_past count ! i = int (n_past + i)"
  by (simp add: get_position_ids_def to_i32_id)

lemma tokensToEmbedding_ok:
  assumes "\<forall>t \<in> set ids. 0 \<le> t \<and> nat t < vocab" "length table = vocab * hidden" "vocab \<le> 2 ^ 63"
  shows "tokensToEmbedding ids table hidden
         = Inr (concat (map (\<lambda>t. slice (nat t * hidden) hidden table) ids))"
proof -
  have "buf_load (to_size t * hidden) hidden table = Inr (slice (nat t * hidden) hidden table)"
    if "t \<in> set ids" for t
  proof -
    have t: "0 \<le> t" "nat t < vocab" using assms(1) that by auto
    have "t < 2 ^ 64" using t assms(3) by (simp add: nat_less_iff)
    then have "to_size t = nat t" using t by (simp add: to_size_def)
    moreover have "nat t * hidden + hidden \<le> length table"
      using t assms(2) mult_le_mono1 [of "Suc (nat t)" vocab hidden] by simp
    ultimately show ?thesis by (simp add: buf_load_def)
  qed
  then have "rmap (\<lambda>t. buf_load (to_size t * hidden) hidden table) ids
      = Inr (map (\<lambda>t. slice (nat t * hidden) hidden table) ids)"
    by (induction ids) auto
  then show ?thesis by (simp add: tokensToEmbedding_def)
qed

section \<open>Concrete instances\<close>

lemma get_attention_mask_spec_witness:
  "\<exists>msk. get_attention_mask 1 1 2 3 = Inr msk \<and> mask_at 5 msk 0 0 = 0 \<and> mask_at 5 msk 0 1 = f32_masked"
  using get_attention_mask_spec [of 1 2 1 3] by (auto simp: visible_def)

lemma tokensToEmbedding_ok_witness: "tokensToEmbedding [1, 0] [5, 6, 7, 8] 2 = Inr [7, 8, 5, 6]"
  using tokensToEmbedding_ok [of "[1, 0]" 2 "[5, 6, 7, 8]" 2] by (simp add: slice_def)

end
