(* ===== verification/Names.thy ===== *)
theory Names
  imports LLMUtils
begin

text \<open>
  Names as data: decimal numbers, the \<open>{}\<close> patterns of \<open>fmtPattern\<close> and \<open>patternToRegex\<close>,
  and the graph-name grammar \<open>(phase_)?arN_clM_S_of_T\<close> (\<open>core/src/llm/llm_model.cpp\<close>). Both
  regular expressions are unambiguous, so each is a deterministic parser. A number that
  does not fit 64 bits is the \<open>out_of_range\<close> of \<open>stoul\<close>.
\<close>

section \<open>Decimal numbers\<close>

definition is_digit :: "char \<Rightarrow> bool" where
  "is_digit c \<longleftrightarrow> 48 \<le> (of_char c :: nat) \<and> (of_char c :: nat) \<le> 57"

definition digit_char :: "nat \<Rightarrow> char" where
  "digit_char d = char_of (48 + d)"

definition char_digit :: "char \<Rightarrow> nat" where
  "char_digit c = of_char c - 48"

fun to_string :: "nat \<Rightarrow> string" where
  "to_string n = (if n < 10 then [digit_char n] else to_string (n div 10) @ [digit_char (n mod 10)])"

declare to_string.simps [simp del]

definition digits_val :: "string \<Rightarrow> nat" where
  "digits_val ds = foldl (\<lambda>n c. n * 10 + char_digit c) 0 ds"

definition stoul :: "string \<Rightarrow> nat res" where
  "stoul ds =
     (if ds = [] then Inl (RuntimeError ''stoul'')
      else if digits_val ds < 2 ^ 64 then Inr (digits_val ds) else Inl OutOfRange)"

lemma digit_char_facts:
  assumes "d < 10"
  shows "is_digit (digit_char d)" "char_digit (digit_char d) = d"
proof -
  have "of_char (char_of (48 + d) :: char) = 48 + d"
    using assms by (simp add: of_char_of)
  with assms show "is_digit (digit_char d)" "char_digit (digit_char d) = d"
    by (simp_all add: is_digit_def digit_char_def char_digit_def)
qed

lemma to_string_digits: "to_string n \<noteq> [] \<and> list_all is_digit (to_string n)"
proof (induction n rule: to_string.induct)
  case (1 n)
  then show ?case
    by (subst to_string.simps, subst (2) to_string.simps) (auto simp: digit_char_facts)
qed

lemma digits_val_append: "digits_val (xs @ [c]) = digits_val xs * 10 + char_digit c"
  by (simp add: digits_val_def)

lemma digits_val_to_string: "digits_val (to_string n) = n"
proof (induction n rule: to_string.induct)
  case (1 n)
  then show ?case
    by (subst to_string.simps) (auto simp: digits_val_append digit_char_facts digits_val_def)
qed

lemma stoul_to_string: "n < 2 ^ 64 \<Longrightarrow> stoul (to_string n) = Inr n"
  using to_string_digits [of n] by (simp add: stoul_def digits_val_to_string)

section \<open>Patterns\<close>

text \<open>What stands before and after the first \<open>{}\<close>.\<close>

fun split_placeholder :: "string \<Rightarrow> (string \<times> string) option" where
  "split_placeholder [] = None"
| "split_placeholder (c # cs) =
     (if take 2 (c # cs) = ''{}'' then Some ([], drop 2 (c # cs))
      else map_option (\<lambda>(pre, post). (c # pre, post)) (split_placeholder cs))"

definition fmtPattern :: "string \<Rightarrow> nat \<Rightarrow> string" where
  "fmtPattern pat n =
     (case split_placeholder pat of None \<Rightarrow> pat | Some (pre, post) \<Rightarrow> pre @ to_string n @ post)"

text \<open>
  \<open>regex_match\<close> of a name against \<open>patternToRegex\<close>: the text of the capture group, empty
  when the pattern has no placeholder.
\<close>

definition match_pattern :: "string \<Rightarrow> string \<Rightarrow> string option" where
  "match_pattern pat name =
     (case split_placeholder pat of
        None \<Rightarrow> if name = pat then Some [] else None
      | Some (pre, post) \<Rightarrow>
          let k = length name - length pre - length post; ds = take k (drop (length pre) name)
          in if length pre + length post < length name \<and> name = pre @ ds @ post \<and> list_all is_digit ds
             then Some ds else None)"

lemma match_fmtPattern:
  assumes "split_placeholder pat = Some (pre, post)"
  shows "match_pattern pat (fmtPattern pat n) = Some (to_string n)"
  using to_string_digits [of n] by (simp add: match_pattern_def fmtPattern_def assms Let_def)

text \<open>A layer index printed into a pattern is read back from the name.\<close>

lemma pattern_roundtrip:
  assumes "split_placeholder pat \<noteq> None" "n < 2 ^ 64"
  shows "map_option stoul (match_pattern pat (fmtPattern pat n)) = Some (Inr n)"
  using assms by (auto simp: match_fmtPattern stoul_to_string)

lemma fmtPattern_inj:
  assumes "split_placeholder pat \<noteq> None" "fmtPattern pat m = fmtPattern pat n"
  shows "m = n"
proof -
  from assms have "to_string m = to_string n" by (auto simp: fmtPattern_def)
  then show ?thesis by (metis digits_val_to_string)
qed

section \<open>Graph names\<close>

definition is_alpha :: "char \<Rightarrow> bool" where
  "is_alpha c \<longleftrightarrow> (let n = of_char c :: nat in (65 \<le> n \<and> n \<le> 90) \<or> (97 \<le> n \<and> n \<le> 122))"

definition strip_phase :: "string \<Rightarrow> string" where
  "strip_phase s =
     (let letters = takeWhile is_alpha s; rest = dropWhile is_alpha s
      in if letters \<noteq> [] \<and> rest \<noteq> [] \<and> hd rest = CHR ''_'' then tl rest else s)"

definition strip_lit :: "string \<Rightarrow> string \<Rightarrow> string option" where
  "strip_lit lit s = (if take (length lit) s = lit then Some (drop (length lit) s) else None)"

definition take_digits :: "string \<Rightarrow> (string \<times> string) option" where
  "take_digits s =
     (let ds = takeWhile is_digit s in if ds = [] then None else Some (ds, dropWhile is_digit s))"

definition lit_digits :: "string \<Rightarrow> string \<Rightarrow> (string \<times> string) option" where
  "lit_digits lit s = Option.bind (strip_lit lit s) take_digits"

record parsed_graph =
  pg_ar :: nat
  pg_cl :: nat
  pg_shard :: nat
  pg_total :: nat

text \<open>\<open>None\<close> is the unsuccessful \<open>ParsedGraph\<close>; a \<open>stoul\<close> that throws gives it too.\<close>

definition parseGraphName :: "string \<Rightarrow> parsed_graph option" where
  "parseGraphName name =
     (case lit_digits ''ar'' (strip_phase name) of None \<Rightarrow> None
      | Some (ar, s1) \<Rightarrow>
     (case lit_digits ''_cl'' s1 of None \<Rightarrow> None
      | Some (cl, s2) \<Rightarrow>
     (case lit_digits ''_'' s2 of None \<Rightarrow> None
      | Some (sh, s3) \<Rightarrow>
     (case lit_digits ''_of_'' s3 of None \<Rightarrow> None
      | Some (tot, s4) \<Rightarrow>
          if s4 \<noteq> [] then None
          else (case (stoul ar, stoul cl, stoul sh, stoul tot) of
                  (Inr a, Inr c, Inr s, Inr t) \<Rightarrow>
                    Some \<lparr> pg_ar = a, pg_cl = c, pg_shard = s, pg_total = t \<rparr>
                | _ \<Rightarrow> None)))))"

definition graph_name :: "string \<Rightarrow> parsed_graph \<Rightarrow> string" where
  "graph_name phase p = phase @ ''ar'' @ to_string (pg_ar p) @ ''_cl'' @ to_string (pg_cl p) @ ''_''
     @ to_string (pg_shard p) @ ''_of_'' @ to_string (pg_total p)"

lemma take_digits_append:
  assumes "list_all is_digit ds" "ds \<noteq> []" "s = [] \<or> \<not> is_digit (hd s)"
  shows "take_digits (ds @ s) = Some (ds, s)"
proof -
  have "takeWhile is_digit (ds @ s) = ds" "dropWhile is_digit (ds @ s) = s"
    using assms by (auto simp: list_all_iff takeWhile_append2 takeWhile_eq_Nil_iff dropWhile_append2
        dropWhile_eq_self_iff)
  with assms(2) show ?thesis by (simp add: take_digits_def)
qed

lemma lit_digits_append:
  "s = [] \<or> \<not> is_digit (hd s) \<Longrightarrow> lit_digits lit (lit @ to_string n @ s) = Some (to_string n, s)"
  using to_string_digits [of n] by (simp add: lit_digits_def strip_lit_def take_digits_append)

lemma strip_phase_none: "dropWhile is_alpha s = d # r \<Longrightarrow> d \<noteq> CHR ''_'' \<Longrightarrow> strip_phase s = s"
  by (simp add: strip_phase_def Let_def)

lemma strip_phase_some:
  "takeWhile is_alpha s = w \<Longrightarrow> w \<noteq> [] \<Longrightarrow> dropWhile is_alpha s = CHR ''_'' # r \<Longrightarrow> strip_phase s = r"
  by (simp add: strip_phase_def Let_def)

text \<open>Every name the exporter's scheme prints is parsed back to its numbers.\<close>

lemma graph_name_parsed:
  assumes phase: "phase = [] \<or> (\<exists>w. w \<noteq> [] \<and> list_all is_alpha w \<and> phase = w @ ''_'')"
    and "pg_ar p < 2 ^ 64" "pg_cl p < 2 ^ 64" "pg_shard p < 2 ^ 64" "pg_total p < 2 ^ 64"
  shows "parseGraphName (graph_name phase p) = Some \<lparr> pg_ar = pg_ar p, pg_cl = pg_cl p,
     pg_shard = pg_shard p, pg_total = pg_total p \<rparr>"
proof -
  let ?r4 = "''_of_'' @ to_string (pg_total p) @ []"
  let ?r3 = "''_'' @ to_string (pg_shard p) @ ?r4"
  let ?r2 = "''_cl'' @ to_string (pg_cl p) @ ?r3"
  let ?r1 = "''ar'' @ to_string (pg_ar p) @ ?r2"
  have nd: "\<not> is_digit CHR ''_''" by code_simp
  have na: "\<not> is_alpha CHR ''_''" by code_simp
  have gn: "graph_name phase p = phase @ ?r1" by (simp add: graph_name_def)
  have strip: "strip_phase (graph_name phase p) = ?r1"
  proof (cases "phase = []")
    case True
    obtain d ds where d: "to_string (pg_ar p) = d # ds" "is_digit d"
      using to_string_digits [of "pg_ar p"] by (cases "to_string (pg_ar p)") auto
    have "\<not> is_alpha d" "d \<noteq> CHR ''_''"
      using d(2) nd by (auto simp: is_digit_def is_alpha_def Let_def)
    then have "takeWhile is_alpha (d # ds @ ?r2) = []" "dropWhile is_alpha (d # ds @ ?r2) = d # ds @ ?r2"
      by simp_all
    moreover have "list_all is_alpha ''ar''" by code_simp
    ultimately have "takeWhile is_alpha ?r1 = ''ar''" "dropWhile is_alpha ?r1 = d # ds @ ?r2"
      unfolding d(1) by (simp_all del: append_assoc)
    from strip_phase_none [OF this(2) \<open>d \<noteq> CHR ''_''\<close>] show ?thesis
      using gn True by simp
  next
    case False
    with phase obtain w where w: "w \<noteq> []" "list_all is_alpha w" "phase = w @ ''_''" by blast
    have e: "graph_name phase p = w @ CHR ''_'' # ?r1" using gn w(3) by simp
    have "takeWhile is_alpha (graph_name phase p) = w" "dropWhile is_alpha (graph_name phase p) = CHR ''_'' # ?r1"
      unfolding e using w(2) na by (simp_all only: list_all_iff takeWhile_append2 dropWhile_append2) simp_all
    from strip_phase_some [OF this(1) w(1) this(2)] show ?thesis .
  qed
  have "lit_digits ''ar'' ?r1 = Some (to_string (pg_ar p), ?r2)"
    "lit_digits ''_cl'' ?r2 = Some (to_string (pg_cl p), ?r3)"
    "lit_digits ''_'' ?r3 = Some (to_string (pg_shard p), ?r4)"
    "lit_digits ''_of_'' ?r4 = Some (to_string (pg_total p), [])"
    using nd by (intro lit_digits_append; simp)+
  with strip assms show ?thesis
    by (simp add: parseGraphName_def stoul_to_string del: append_Cons append_Nil2)
qed

lemma parseGraphName_graph_name:
  assumes phase: "phase = [] \<or> (\<exists>w. w \<noteq> [] \<and> list_all is_alpha w \<and> phase = w @ ''_'')"
    and "pg_ar p < 2 ^ 64" "pg_cl p < 2 ^ 64" "pg_shard p < 2 ^ 64" "pg_total p < 2 ^ 64"
  shows "parseGraphName (graph_name phase p) = Some \<lparr> pg_ar = pg_ar p, pg_cl = pg_cl p,
     pg_shard = pg_shard p, pg_total = pg_total p \<rparr>"
  using graph_name_parsed [OF assms] .

section \<open>Concrete instances\<close>

lemma pattern_roundtrip_witness:
  "map_option stoul (match_pattern ''past_key_{}_in'' (fmtPattern ''past_key_{}_in'' 17)) = Some (Inr 17)"
  by (rule pattern_roundtrip) simp_all

lemma parseGraphName_witness:
  "parseGraphName (graph_name ''prompt_'' \<lparr> pg_ar = 128, pg_cl = 4096, pg_shard = 2, pg_total = 5 \<rparr>)
     = Some \<lparr> pg_ar = 128, pg_cl = 4096, pg_shard = 2, pg_total = 5 \<rparr>"
  using parseGraphName_graph_name [of "''prompt_''" "\<lparr> pg_ar = 128, pg_cl = 4096, pg_shard = 2, pg_total = 5 \<rparr>"]
  by (simp add: is_alpha_def exI [of _ "''prompt''"])

end
