(* ===== verification/Providers.thy ===== *)
theory Providers
  imports LLMUtils
begin

text \<open>
  The CPU-side tensor writers of \<open>core/src/llm/input_provider.cpp\<close> and
  \<open>core/src/llm/position_encoder.cpp\<close>. Every provider looks up its tensor on the graph,
  does nothing when it is absent, pads a short chunk to the tensor's capacity, and writes.
  Files and the \<open>.npy\<close> reader of xtensor are parameters.
\<close>

section \<open>Specs and contexts\<close>

record run_ctx =
  rc_token_ids :: "int list"
  rc_n_past :: nat
  rc_curr_len :: nat
  rc_phase :: nat

record shard_spec =
  sh_in_state :: string
  sh_out_state :: string
  sh_lm_head_only :: bool

record kv_pair =
  kp_key_in :: string
  kp_key_out :: string
  kp_value_in :: string
  kp_value_out :: string

text \<open>\<open>StateBlockKind\<close> has the one value \<open>KV\<close>.\<close>

datatype state_block_kind = KV

record state_block =
  sb_name :: string
  sb_kind :: state_block_kind
  sb_key_in_pattern :: string
  sb_value_in_pattern :: string
  sb_key_out_pattern :: string
  sb_value_out_pattern :: string
  sb_shard_pairs :: "kv_pair list list"

definition makeKVStateBlock :: state_block where
  "makeKVStateBlock = \<lparr>
     sb_name = ''kv_default'', sb_kind = KV,
     sb_key_in_pattern = ''past_key_{}_in'', sb_value_in_pattern = ''past_value_{}_in'',
     sb_key_out_pattern = ''past_key_{}_out'', sb_value_out_pattern = ''past_value_{}_out'',
     sb_shard_pairs = [] \<rparr>"

record llm_spec =
  sp_shards :: "shard_spec list"
  sp_state_blocks :: "state_block list"
  sp_hidden_size :: nat
  sp_num_kv_heads :: nat
  sp_head_dim :: nat
  sp_vocab_size :: nat
  sp_seq_len_prefill :: nat
  sp_seq_len_decode :: nat
  sp_context_lengths :: "nat list"
  sp_attention_mask_name :: string
  sp_eos_token_ids :: "int list"
  sp_bos_token_id :: int

section \<open>Embedding tables\<close>

definition ascii_lower :: "char \<Rightarrow> char" where
  "ascii_lower c = (let n = of_char c :: nat in if 65 \<le> n \<and> n \<le> 90 then char_of (n + 32) else c)"

definition endsWithICase :: "string \<Rightarrow> string \<Rightarrow> bool" where
  "endsWithICase path suffix \<longleftrightarrow>
     length suffix \<le> length path
     \<and> list_all2 (\<lambda>a b. ascii_lower a = ascii_lower b) (rev suffix) (take (length suffix) (rev path))"

record files =
  fs_raw :: "string \<Rightarrow> u8 list option"                 \<comment> \<open>bytes of a file that opens\<close>
  fs_npy :: "string \<Rightarrow> (nat list \<times> f32 list) res"    \<comment> \<open>\<open>xt::load_npy\<close>: shape and elements\<close>

record emb_table =
  et_tensor :: string
  et_table :: "f32 list"
  et_pad :: "f32 list"
  et_hidden :: nat

definition mkEmbedding :: "string \<Rightarrow> emb_table" where
  "mkEmbedding n = \<lparr> et_tensor = n, et_table = [], et_pad = [], et_hidden = 0 \<rparr>"

definition loadTable :: "files \<Rightarrow> string \<Rightarrow> nat \<Rightarrow> nat \<Rightarrow> emb_table \<Rightarrow> emb_table res" where
  "loadTable fs path vocab hidden e =
     (if et_table e \<noteq> [] then Inr e
      else if endsWithICase path ''.npy'' then
        rbind (fs_npy fs path) (\<lambda>(shape, elems).
          if length shape \<noteq> 2 then Inl (RuntimeError ''expected 2-D npy'')
          else if (vocab \<noteq> 0 \<and> vocab \<noteq> shape ! 0) \<or> (hidden \<noteq> 0 \<and> hidden \<noteq> shape ! 1)
          then Inl (RuntimeError ''shape mismatch'')
          else Inr (e\<lparr> et_hidden := shape ! 1, et_table := elems \<rparr>))
      else if vocab = 0 \<or> hidden = 0 then Inl (RuntimeError ''raw embedding file requires sizes'')
      else (case fs_raw fs path of
              None \<Rightarrow> Inl (RuntimeError ''cannot open'')
            | Some bs \<Rightarrow>
                if length bs \<noteq> vocab * hidden * 4 then Inl (RuntimeError ''size mismatch'')
                else Inr (e\<lparr> et_table := of_le_array 4 (vocab * hidden) bs, et_hidden := hidden \<rparr>)))"

text \<open>The row that pads short chunks: the embedding of the first EOS token, or of token 0.\<close>

definition cache_pad :: "int list \<Rightarrow> emb_table \<Rightarrow> emb_table" where
  "cache_pad eos e =
     (if et_pad e = [] \<and> et_table e \<noteq> [] \<and> 0 < et_hidden e then
        let pad_id = (case eos of [] \<Rightarrow> 0 | t # _ \<Rightarrow> t); vocab = length (et_table e) div et_hidden e
        in if 0 \<le> pad_id \<and> nat pad_id < vocab
           then e\<lparr> et_pad := slice (nat pad_id * et_hidden e) (et_hidden e) (et_table e) \<rparr> else e
      else e)"

definition emb_onInitialized :: "files \<Rightarrow> string option \<Rightarrow> llm_spec \<Rightarrow> emb_table \<Rightarrow> emb_table res" where
  "emb_onInitialized fs embedding_path spec e =
     rbind (case embedding_path of
              Some p \<Rightarrow> if et_table e = [] then loadTable fs p (sp_vocab_size spec) (sp_hidden_size spec) e
                        else Inr e
            | None \<Rightarrow> Inr e)
       (\<lambda>e. Inr (cache_pad (sp_eos_token_ids spec) e))"

text \<open>
  Rows of padding from row \<open>start\<close> while they begin below the capacity. A last row that
  sticks out of the buffer is a write past its end.
\<close>

definition pad_rows :: "nat \<Rightarrow> nat \<Rightarrow> f32 list \<Rightarrow> f32 list \<Rightarrow> f32 list res" where
  "pad_rows hidden start pad buf =
     rfor (\<lambda>row. buf_store (row * hidden) pad)
       (filter (\<lambda>row. row * hidden < length buf) [start..<length buf]) buf"

definition padded_embeds :: "nat \<Rightarrow> nat \<Rightarrow> nat \<Rightarrow> f32 list \<Rightarrow> f32 list \<Rightarrow> f32 list res" where
  "padded_embeds hidden rows capacity pad embeds =
     (if length embeds < capacity \<and> pad \<noteq> [] then
        rbind (buf_store 0 embeds (replicate capacity 0)) (pad_rows hidden rows pad)
      else Inr embeds)"

definition emb_write :: "emb_table \<Rightarrow> graph \<Rightarrow> run_ctx \<Rightarrow> mem \<Rightarrow> mem res" where
  "emb_write e g ctx m =
     (if \<not> hasInput g (et_tensor e) \<or> et_table e = [] then Inr m
      else rbind (inputSpec g (et_tensor e)) (\<lambda>spec.
           rbind (tokensToEmbedding (rc_token_ids ctx) (et_table e) (et_hidden e)) (\<lambda>embeds.
           rbind (padded_embeds (et_hidden e) (length (rc_token_ids ctx)) (elementCount spec) (et_pad e) embeds)
             (\<lambda>buf. write_float g (et_tensor e) (SrcFloat buf) m))))"

section \<open>Token ids\<close>

definition token_id_write :: "string \<Rightarrow> int \<Rightarrow> graph \<Rightarrow> run_ctx \<Rightarrow> mem \<Rightarrow> mem res" where
  "token_id_write name pad_id g ctx m =
     (if \<not> hasInput g name then Inr m
      else rbind (inputSpec g name) (\<lambda>spec.
           let capacity = elementCount spec;
               n = min (length (rc_token_ids ctx)) capacity
           in write_int32 g name (take n (rc_token_ids ctx) @ replicate (capacity - n) pad_id) m))"

section \<open>Rotary providers\<close>

definition paddedPositionIds :: "nat \<Rightarrow> nat \<Rightarrow> nat \<Rightarrow> int list" where
  "paddedPositionIds n_past curr_len capacity_rows =
     map (\<lambda>i. if i < curr_len then to_i32 (int (n_past + i)) else 0) [0..<max curr_len capacity_rows]"

definition ropeCapacityRows :: "graph \<Rightarrow> string \<Rightarrow> nat \<Rightarrow> nat \<Rightarrow> nat res" where
  "ropeCapacityRows g name half_dim curr_len =
     (if \<not> hasInput g name \<or> half_dim = 0 then Inr curr_len
      else rbind (inputSpec g name) (\<lambda>spec. Inr (elementCount spec div half_dim)))"

text \<open>The four rotary providers differ in their tables only.\<close>

definition rope_write :: "string \<Rightarrow> string \<Rightarrow> nat \<Rightarrow> (int list \<Rightarrow> f64 list \<times> f64 list)
    \<Rightarrow> graph \<Rightarrow> run_ctx \<Rightarrow> mem \<Rightarrow> mem res" where
  "rope_write cos_name sin_name half_dim forward g ctx m =
     (let has_cos = hasInput g cos_name; has_sin = hasInput g sin_name
      in if \<not> has_cos \<and> \<not> has_sin then Inr m
         else rbind (ropeCapacityRows g (if has_cos then cos_name else sin_name) half_dim (rc_curr_len ctx))
           (\<lambda>rows. let (cos_vec, sin_vec) = forward (paddedPositionIds (rc_n_past ctx) (rc_curr_len ctx) rows)
             in rbind (if has_cos then write_float g cos_name (SrcDouble cos_vec) m else Inr m)
                (\<lambda>m. if has_sin then write_float g sin_name (SrcDouble sin_vec) m else Inr m)))"

datatype provider =
    EmbeddingProvider emb_table
  | TokenIdProvider string int
  | RoPEProvider nat f32 string string
  | LongRoPEProvider longrope string string
  | Llama3RoPEProvider nat f32 f32 f32 f32 int string string
  | PartialRoPEProvider nat f32 f32 string string \<comment> \<open>rope dimension, theta, scale\<close>

fun provider_write :: "libm \<Rightarrow> provider \<Rightarrow> graph \<Rightarrow> run_ctx \<Rightarrow> mem \<Rightarrow> mem res" where
  "provider_write lm (EmbeddingProvider e) g ctx m = emb_write e g ctx m"
| "provider_write lm (TokenIdProvider name pad_id) g ctx m = token_id_write name pad_id g ctx m"
| "provider_write lm (RoPEProvider head_dim theta c s) g ctx m =
     rope_write c s (head_dim div 2) (rotary_forward lm (rotary_inv_freq lm head_dim theta)) g ctx m"
| "provider_write lm (LongRoPEProvider r c s) g ctx m =
     rope_write c s (lr_half_dim r) (longrope_forward lm r) g ctx m"
| "provider_write lm (Llama3RoPEProvider head_dim theta factor lo hi orig c s) g ctx m =
     rope_write c s (head_dim div 2)
       (rotary_forward lm (llama3_inv_freq lm head_dim theta factor lo hi orig)) g ctx m"
| "provider_write lm (PartialRoPEProvider rope_dim theta sc c s) g ctx m =
     rope_write c s (rope_dim div 2)
       (partial_forward lm (partial_inv_freq lm rope_dim theta) (f64_of_f32 sc)) g ctx m"

text \<open>Only the embedding provider has set-up of its own.\<close>

definition provider_onInitialized :: "files \<Rightarrow> string option \<Rightarrow> llm_spec \<Rightarrow> provider \<Rightarrow> provider res" where
  "provider_onInitialized fs embedding_path spec p =
     (case p of EmbeddingProvider e \<Rightarrow>
        rbind (emb_onInitialized fs embedding_path spec e) (\<lambda>e. Inr (EmbeddingProvider e))
      | _ \<Rightarrow> Inr p)"

section \<open>Position encoders\<close>

datatype position_encoding = ROPE | NONE

datatype position_encoder = RoPEEncoder nat f32 | NullEncoder

definition makePositionEncoder :: "position_encoding \<Rightarrow> nat \<Rightarrow> f32 \<Rightarrow> position_encoder" where
  "makePositionEncoder t head_dim theta =
     (case t of ROPE \<Rightarrow> RoPEEncoder head_dim theta | NONE \<Rightarrow> NullEncoder)"

definition paddedPositionIdsFor :: "graph \<Rightarrow> string \<Rightarrow> nat \<Rightarrow> nat \<Rightarrow> nat \<Rightarrow> (int list \<times> nat) res" where
  "paddedPositionIdsFor g name half_dim n_past curr_len =
     rbind (if hasInput g name \<and> 0 < half_dim
            then rbind (inputSpec g name) (\<lambda>spec. Inr (elementCount spec div half_dim)) else Inr curr_len)
       (\<lambda>cap_rows. Inr (map (\<lambda>i. if i < curr_len then to_i32 (int (n_past + i)) else 0)
                           [0..<max curr_len cap_rows], cap_rows))"

definition encoder_write :: "libm \<Rightarrow> position_encoder \<Rightarrow> graph \<Rightarrow> nat \<Rightarrow> nat \<Rightarrow> mem \<Rightarrow> mem res" where
  "encoder_write lm enc g n_past curr_len m =
     (case enc of NullEncoder \<Rightarrow> Inr m
      | RoPEEncoder head_dim theta \<Rightarrow>
          let c = ''position_ids_cos''; s = ''position_ids_sin'';
              has_cos = hasInput g c; has_sin = hasInput g s
          in if \<not> has_cos \<and> \<not> has_sin then Inr m
             else rbind (paddedPositionIdsFor g (if has_cos then c else s) (head_dim div 2) n_past curr_len)
               (\<lambda>(ids, _). let (cos_vec, sin_vec) = rotary_forward lm (rotary_inv_freq lm head_dim theta) ids
                 in rbind (if has_cos then write_float g c (SrcDouble cos_vec) m else Inr m)
                    (\<lambda>m. if has_sin then write_float g s (SrcDouble sin_vec) m else Inr m)))"

section \<open>Facts\<close>

text \<open>The encoder and the provider of plain RoPE do the same.\<close>

lemma paddedPositionIdsFor_eq:
  "paddedPositionIdsFor g name half_dim n_past curr_len =
     rbind (ropeCapacityRows g name half_dim curr_len)
       (\<lambda>rows. Inr (paddedPositionIds n_past curr_len rows, rows))"
  by (auto simp: paddedPositionIdsFor_def ropeCapacityRows_def paddedPositionIds_def rbind_assoc)

lemma encoder_write_provider:
  "encoder_write lm (RoPEEncoder head_dim theta) g n_past curr_len m =
   provider_write lm (RoPEProvider head_dim theta ''position_ids_cos'' ''position_ids_sin'') g
     \<lparr> rc_token_ids = ids, rc_n_past = n_past, rc_curr_len = curr_len, rc_phase = ph \<rparr> m"
  by (simp add: encoder_write_def rope_write_def paddedPositionIdsFor_eq rbind_assoc Let_def)

definition has_mem_lengths :: "mem \<Rightarrow> mem \<Rightarrow> bool" where
  "has_mem_lengths m m' \<longleftrightarrow> (\<forall>b. length (m' b) = length (m b))"

lemma has_mem_lengths_refl [simp, intro]: "has_mem_lengths m m"
  by (simp add: has_mem_lengths_def)

lemma has_mem_lengths_trans [trans]: "has_mem_lengths m m1 \<Longrightarrow> has_mem_lengths m1 m2 \<Longrightarrow> has_mem_lengths m m2"
  by (simp add: has_mem_lengths_def)

lemma mem_store_lengths: "mem_store b off bs m = Inr m' \<Longrightarrow> has_mem_lengths m m'"
  by (auto simp: has_mem_lengths_def length_blit dest!: mem_store_InrD)

lemma mem_on_lengths:
  "mem_on b f m = Inr m' \<Longrightarrow> (\<And>xs ys. f xs = Inr ys \<Longrightarrow> length ys = length xs) \<Longrightarrow> has_mem_lengths m m'"
  by (auto simp: has_mem_lengths_def mem_on_def)

lemma write_float_lengths: "write_float g n src m = Inr m' \<Longrightarrow> has_mem_lengths m m'"
  by (erule write_float_InrD) (auto simp: has_mem_lengths_def length_blit)

lemma write_bytes_lengths: "write_bytes g n bs m = Inr m' \<Longrightarrow> has_mem_lengths m m'"
  by (auto simp: write_bytes_def intro: mem_store_lengths)

lemma rope_write_lengths: "rope_write c s h f g ctx m = Inr m' \<Longrightarrow> has_mem_lengths m m'"
  by (auto simp: rope_write_def Let_def split: if_splits prod.splits
      dest!: write_float_lengths) (simp add: has_mem_lengths_def)

text \<open>No provider changes the length of a buffer.\<close>

lemma provider_write_lengths: "provider_write lm p g ctx m = Inr m' \<Longrightarrow> has_mem_lengths m m'"
  by (cases p)
    (auto simp: emb_write_def token_id_write_def write_int32_def Let_def split: if_splits
      dest!: write_float_lengths write_bytes_lengths rope_write_lengths)

section \<open>Short chunks are padded to the capacity\<close>

lemma buf_store_replicate:
  "n \<le> k \<Longrightarrow> length bs = n \<Longrightarrow>
   buf_store (length xs) bs (xs @ replicate k a) = Inr (xs @ bs @ replicate (k - n) a)"
  by (simp add: buf_store_def blit_def)

lemma pad_row_filter:
  assumes "0 < hidden" "cap = R * hidden"
  shows "filter (\<lambda>row. row * hidden < cap) [start..<cap] = [start..<R]"
proof -
  have "R \<le> cap" using assms by simp
  have "filter (\<lambda>row. row * hidden < cap) [start..<cap] = filter (\<lambda>row. row < R) [start..<cap]"
    using assms by (intro filter_cong) simp_all
  also have "\<dots> = [start..<R]"
  proof (cases "start \<le> R")
    case True
    then have "[start..<cap] = [start..<R] @ [R..<cap]"
      using \<open>R \<le> cap\<close> by (metis le_add_diff_inverse upt_add_eq_append)
    then show ?thesis by (simp add: filter_id_conv filter_False)
  next
    case False
    then show ?thesis by (simp add: filter_False)
  qed
  finally show ?thesis .
qed

lemma pad_rows_run:
  assumes "length pad = hidden" "length embeds = rows * hidden" "rows + n \<le> R"
  shows "rfor (\<lambda>row. buf_store (row * hidden) pad) [rows..<rows + n]
           (embeds @ replicate ((R - rows) * hidden) 0)
         = Inr (embeds @ concat (replicate n pad) @ replicate ((R - rows - n) * hidden) 0)"
  using assms(3)
proof (induction n)
  case 0
  then show ?case by simp
next
  case (Suc n)
  let ?pre = "embeds @ concat (replicate n pad)"
  have len: "length ?pre = (rows + n) * hidden"
    using assms by (simp add: length_concat sum_list_replicate add_mult_distrib)
  have k: "(R - rows - n) * hidden = hidden + (R - rows - Suc n) * hidden"
    using Suc.prems by (simp add: Suc_diff_Suc flip: mult_Suc)
  have "buf_store ((rows + n) * hidden) pad (?pre @ replicate ((R - rows - n) * hidden) 0)
        = Inr (?pre @ pad @ replicate ((R - rows - Suc n) * hidden) 0)"
  proof -
    have "hidden \<le> (R - rows - n) * hidden" using k by linarith
    from buf_store_replicate [OF this assms(1), of ?pre 0] show ?thesis
      unfolding len k by simp
  qed
  moreover have "concat (replicate n pad) @ pad = concat (replicate (Suc n) pad)"
    by (induction n) simp_all
  ultimately show ?case using Suc by (simp add: rfor_append)
qed

text \<open>
  When the capacity is a whole number of rows, the rows after the chunk all hold the
  padding row, so nothing of an earlier chunk stays in the graph's input.
\<close>

lemma padded_embeds_ok:
  assumes "0 < hidden" "length pad = hidden" "length embeds = rows * hidden" "rows \<le> R"
  shows "padded_embeds hidden rows (R * hidden) pad embeds = Inr (embeds @ concat (replicate (R - rows) pad))"
proof (cases "rows = R")
  case True
  with assms show ?thesis by (simp add: padded_embeds_def)
next
  case False
  have pad: "pad \<noteq> []" and lt: "length embeds < R * hidden" using assms False by auto
  have "buf_store 0 embeds (replicate (R * hidden) 0) = Inr (embeds @ replicate ((R - rows) * hidden) 0)"
    using buf_store_replicate [of "length embeds" "R * hidden" embeds "[]" 0] lt assms(3)
    by (simp add: diff_mult_distrib)
  moreover have "pad_rows hidden rows pad (embeds @ replicate ((R - rows) * hidden) 0)
      = Inr (embeds @ concat (replicate (R - rows) pad))"
  proof -
    have "length (embeds @ replicate ((R - rows) * hidden) (0 :: f32)) = R * hidden"
      using assms by (simp add: diff_mult_distrib)
    then show ?thesis
      using pad_rows_run [OF assms(2,3), of "R - rows" R] assms(4) pad_row_filter [OF assms(1) refl, of R rows]
      by (simp add: pad_rows_def)
  qed
  ultimately show ?thesis using pad lt by (simp add: padded_embeds_def)
qed

section \<open>Concrete instances\<close>

lemma padded_embeds_ok_witness: "padded_embeds 2 1 6 [9, 9] [1, 2] = Inr [1, 2, 9, 9, 9, 9]"
  using padded_embeds_ok [of 2 "[9, 9]" "[1, 2]" 1 3] by (simp add: eval_nat_numeral)

end
