(* ===== verification/KVStride.thy ===== *)
theory KVStride
  imports Providers
begin

text \<open>
  The strided moves behind \<open>LLMModel::copyKV\<close> and \<open>LLMModel::reshapeKV\<close>
  (\<open>core/src/llm/llm_model.cpp\<close>). A cache buffer is \<open>n_rows\<close> rows of \<open>kv_len\<close> tokens of
  \<open>tok\<close> bytes: the key layout has \<open>H * head_dim\<close> rows of one element per token, the value
  layout \<open>H\<close> rows of \<open>head_dim\<close> elements per token. The theorems show that a change of
  stride in place keeps every cached token, whichever direction the rows move in.
\<close>

section \<open>The loops\<close>

text \<open>One row of the expanding loop, and one of the contracting loop.\<close>

definition expand_row :: "nat \<Rightarrow> nat \<Rightarrow> nat \<Rightarrow> nat \<Rightarrow> qnn_dtype \<Rightarrow> nat \<Rightarrow> u8 list \<Rightarrow> u8 list res" where
  "expand_row old_kv new_kv copy_len tok dt row buf =
     rbind (buf_memmove (row * new_kv * tok) (row * old_kv * tok) (copy_len * tok) buf) (\<lambda>buf.
       if copy_len < new_kv
       then fillEncodedZero ((row * new_kv + copy_len) * tok) ((new_kv - copy_len) * tok) dt buf
       else Inr buf)"

definition contract_row :: "nat \<Rightarrow> nat \<Rightarrow> nat \<Rightarrow> nat \<Rightarrow> nat \<Rightarrow> u8 list \<Rightarrow> u8 list res" where
  "contract_row old_kv new_kv copy_len tok row buf =
     buf_memmove (row * new_kv * tok) (row * old_kv * tok) (copy_len * tok) buf"

definition restride :: "nat \<Rightarrow> nat \<Rightarrow> qnn_dtype \<Rightarrow> nat \<Rightarrow> nat \<Rightarrow> nat \<Rightarrow> u8 list \<Rightarrow> u8 list res" where
  "restride n_rows tok dt old_kv new_kv copy_len buf =
     (if old_kv < new_kv
      then rfor (expand_row old_kv new_kv copy_len tok dt) (rev [0..<n_rows]) buf
      else rfor (contract_row old_kv new_kv copy_len tok) [0..<n_rows] buf)"

text \<open>The row loop of \<open>copyKV\<close> between two buffers.\<close>

definition copy_rows :: "nat \<Rightarrow> nat \<Rightarrow> nat \<Rightarrow> nat \<Rightarrow> nat \<Rightarrow> nat \<Rightarrow> nat
    \<Rightarrow> nat option \<Rightarrow> nat option \<Rightarrow> mem \<Rightarrow> mem res" where
  "copy_rows n_rows tok src_kv dst_kv src_off dst_off n_tok src dst m =
     rfor (\<lambda>row m. rbind (deref dst) (\<lambda>d. rbind (deref src) (\<lambda>s.
             mem_copy d ((row * dst_kv + dst_off) * tok) s ((row * src_kv + src_off) * tok) (n_tok * tok) m)))
       [0..<n_rows] m"

section \<open>Cells\<close>

text \<open>The bytes of token \<open>t\<close> in row \<open>r\<close> of a buffer of stride \<open>kv\<close>.\<close>

definition kv_cell :: "nat \<Rightarrow> nat \<Rightarrow> u8 list \<Rightarrow> nat \<Rightarrow> nat \<Rightarrow> u8 list" where
  "kv_cell tok kv buf r t = slice ((r * kv + t) * tok) tok buf"

definition kv_fits :: "nat \<Rightarrow> nat \<Rightarrow> nat \<Rightarrow> u8 list \<Rightarrow> bool" where
  "kv_fits n_rows tok kv buf \<longleftrightarrow> n_rows * kv * tok \<le> length buf"

lemma row_end: "r < n \<Longrightarrow> r * kv * tok + kv * tok \<le> n * kv * (tok :: nat)"
proof -
  assume "r < n"
  then have "Suc r * (kv * tok) \<le> n * (kv * tok)" by (intro mult_le_mono1) simp
  then show ?thesis by (simp add: mult.assoc)
qed

lemma row_order: "r < r' \<Longrightarrow> r * kv * tok + kv * tok \<le> r' * kv * (tok :: nat)"
  by (rule row_end)

text \<open>What one row step promises: its row holds the copied tokens, the rest is untouched.\<close>

definition row_step :: "nat \<Rightarrow> nat \<Rightarrow> nat \<Rightarrow> nat \<Rightarrow> nat \<Rightarrow> u8 list \<Rightarrow> u8 list \<Rightarrow> bool" where
  "row_step old_kv new_kv copy_len tok r s s' \<longleftrightarrow> length s' = length s
     \<and> slice (r * new_kv * tok) (copy_len * tok) s' = slice (r * old_kv * tok) (copy_len * tok) s
     \<and> (\<forall>a n. (a + n \<le> r * new_kv * tok \<or> r * new_kv * tok + new_kv * tok \<le> a) \<and> a + n \<le> length s
          \<longrightarrow> slice a n s' = slice a n s)"

lemma row_step_other:
  "row_step old_kv new_kv copy_len tok r s s' \<Longrightarrow>
   a + n \<le> r * new_kv * tok \<or> r * new_kv * tok + new_kv * tok \<le> a \<Longrightarrow> a + n \<le> length s \<Longrightarrow>
   slice a n s' = slice a n s"
  by (simp add: row_step_def)

lemma contract_row_step:
  assumes "copy_len \<le> old_kv" "copy_len \<le> new_kv"
    "r * old_kv * tok + old_kv * tok \<le> length s" "r * new_kv * tok + new_kv * tok \<le> length s"
  shows "\<exists>s'. contract_row old_kv new_kv copy_len tok r s = Inr s' \<and> row_step old_kv new_kv copy_len tok r s s'"
proof -
  have c: "copy_len * tok \<le> old_kv * tok" "copy_len * tok \<le> new_kv * tok"
    using assms(1,2) by (auto intro: mult_le_mono1)
  let ?bs = "slice (r * old_kv * tok) (copy_len * tok) s"
  have b: "r * old_kv * tok + copy_len * tok \<le> length s" "r * new_kv * tok + copy_len * tok \<le> length s"
    using c assms(3,4) by linarith+
  then have l: "length ?bs = copy_len * tok" by (simp add: length_slice)
  have "row_step old_kv new_kv copy_len tok r s (blit (r * new_kv * tok) ?bs s)"
    unfolding row_step_def
  proof (intro conjI allI impI)
    show "length (blit (r * new_kv * tok) ?bs s) = length s" using b l by (simp add: length_blit)
    show "slice (r * new_kv * tok) (copy_len * tok) (blit (r * new_kv * tok) ?bs s) = ?bs"
      using slice_blit_same [of "r * new_kv * tok" s ?bs] b l by simp
  next
    fix a n assume "(a + n \<le> r * new_kv * tok \<or> r * new_kv * tok + new_kv * tok \<le> a) \<and> a + n \<le> length s"
    then have "a + n \<le> r * new_kv * tok \<or> r * new_kv * tok + length ?bs \<le> a" "a + n \<le> length s"
      using c(2) l by linarith+
    then show "slice a n (blit (r * new_kv * tok) ?bs s) = slice a n s"
      using b l by (intro slice_blit_other) simp_all
  qed
  moreover have "contract_row old_kv new_kv copy_len tok r s = Inr (blit (r * new_kv * tok) ?bs s)"
    using b by (simp add: contract_row_def buf_memmove_ok)
  ultimately show ?thesis by blast
qed

definition pad_bytes :: "nat \<Rightarrow> nat \<Rightarrow> nat \<Rightarrow> nat \<Rightarrow> nat \<Rightarrow> u8 list \<Rightarrow> u8 list" where
  "pad_bytes new_kv copy_len tok r k buf = slice ((r * new_kv + copy_len) * tok) k buf"

text \<open>\<open>tok\<close> is a whole number of elements in both layouts.\<close>

lemma fill_total:
  assumes "tok = w * elementSize dt" "dst + n * tok \<le> length s"
  shows "\<exists>s'. fillEncodedZero dst (n * tok) dt s = Inr s' \<and> length s' = length s
     \<and> (\<forall>a k. (a + k \<le> dst \<or> dst + n * tok \<le> a) \<and> a + k \<le> length s \<longrightarrow> slice a k s' = slice a k s)
     \<and> (ez_supported (encodedZeroForDtype dt) \<longrightarrow> slice dst (n * tok) s' = encoded_zero_bytes dt (n * tok))"
proof (cases "ez_supported (encodedZeroForDtype dt)")
  case False
  then show ?thesis by (simp add: fillEncodedZero_def Let_def)
next
  case True
  have e: "n * tok = (n * w) * elementSize dt" using assms(1) by simp
  let ?z = "encoded_zero_bytes dt (n * tok)"
  have z: "length ?z = n * tok" unfolding e by (rule length_encoded_zero_elems)
  have "fillEncodedZero dst (n * tok) dt s = Inr (blit dst ?z s)"
    using fillEncodedZero_ok [OF True, of dst "n * w" s] assms(2) unfolding e by simp
  moreover have "slice dst (n * tok) (blit dst ?z s) = ?z"
    using slice_blit_same [of dst s ?z] assms(2) z by simp
  ultimately show ?thesis using z assms(2)
    by (auto simp: length_blit intro!: slice_blit_other)
qed

lemma expand_row_step:
  assumes tok: "tok = w * elementSize dt"
    and "copy_len \<le> old_kv" "old_kv < new_kv"
    "r * old_kv * tok + old_kv * tok \<le> length s" "r * new_kv * tok + new_kv * tok \<le> length s"
  shows "\<exists>s'. expand_row old_kv new_kv copy_len tok dt r s = Inr s'
     \<and> row_step old_kv new_kv copy_len tok r s s'
     \<and> (ez_supported (encodedZeroForDtype dt) \<longrightarrow>
          pad_bytes new_kv copy_len tok r ((new_kv - copy_len) * tok) s' = encoded_zero_bytes dt ((new_kv - copy_len) * tok))"
proof -
  have cn: "copy_len < new_kv" using assms by simp
  obtain s1 where s1: "contract_row old_kv new_kv copy_len tok r s = Inr s1"
    and st: "row_step old_kv new_kv copy_len tok r s s1"
    using contract_row_step [of copy_len old_kv new_kv r tok s] assms by auto
  have l1: "length s1 = length s" using st by (simp add: row_step_def)
  have split: "copy_len * tok + (new_kv - copy_len) * tok = new_kv * tok"
    using cn by (simp flip: add_mult_distrib)
  have off: "(r * new_kv + copy_len) * tok = r * new_kv * tok + copy_len * tok" by (simp add: add_mult_distrib)
  have fits: "(r * new_kv + copy_len) * tok + (new_kv - copy_len) * tok \<le> length s1"
    using assms(5) split l1 off by simp
  from fill_total [OF tok fits] obtain s2 where
    s2: "fillEncodedZero ((r * new_kv + copy_len) * tok) ((new_kv - copy_len) * tok) dt s1 = Inr s2"
      "length s2 = length s1"
    and other: "\<And>a k. a + k \<le> (r * new_kv + copy_len) * tok
        \<or> (r * new_kv + copy_len) * tok + (new_kv - copy_len) * tok \<le> a \<Longrightarrow> a + k \<le> length s1
        \<Longrightarrow> slice a k s2 = slice a k s1"
    and pad: "ez_supported (encodedZeroForDtype dt) \<longrightarrow>
        slice ((r * new_kv + copy_len) * tok) ((new_kv - copy_len) * tok) s2
        = encoded_zero_bytes dt ((new_kv - copy_len) * tok)"
    by blast
  have "expand_row old_kv new_kv copy_len tok dt r s = Inr s2"
    using s1 s2(1) cn by (simp add: expand_row_def contract_row_def)
  moreover have "row_step old_kv new_kv copy_len tok r s s2"
    unfolding row_step_def
  proof (intro conjI allI impI)
    show "length s2 = length s" using s2(2) l1 by simp
    show "slice (r * new_kv * tok) (copy_len * tok) s2 = slice (r * old_kv * tok) (copy_len * tok) s"
      using st fits off l1 by (subst other) (auto simp: row_step_def)
  next
    fix a n assume "(a + n \<le> r * new_kv * tok \<or> r * new_kv * tok + new_kv * tok \<le> a) \<and> a + n \<le> length s"
    then show "slice a n s2 = slice a n s"
      using st off l1 split by (subst other) (auto simp: row_step_def)
  qed
  ultimately show ?thesis using pad by (auto simp: pad_bytes_def)
qed

section \<open>Changing the stride keeps every token\<close>

definition kept :: "nat \<Rightarrow> nat \<Rightarrow> nat \<Rightarrow> nat \<Rightarrow> u8 list \<Rightarrow> u8 list \<Rightarrow> nat \<Rightarrow> bool" where
  "kept old_kv new_kv copy_len tok buf s r \<longleftrightarrow>
     slice (r * new_kv * tok) (copy_len * tok) s = slice (r * old_kv * tok) (copy_len * tok) buf"

lemma restride_contract:
  assumes "new_kv \<le> old_kv" "copy_len \<le> new_kv" "kv_fits n_rows tok old_kv buf"
  shows "\<exists>buf'. restride n_rows tok dt old_kv new_kv copy_len buf = Inr buf'
     \<and> length buf' = length buf \<and> (\<forall>r<n_rows. kept old_kv new_kv copy_len tok buf buf' r)"
proof -
  define I where "I k s \<longleftrightarrow> length s = length buf
     \<and> (\<forall>r<k. kept old_kv new_kv copy_len tok buf s r)
     \<and> (\<forall>r. k \<le> r \<and> r < n_rows \<longrightarrow> slice (r * old_kv * tok) (copy_len * tok) s
          = slice (r * old_kv * tok) (copy_len * tok) buf)" for k s
  have mono: "r * new_kv * tok \<le> r * old_kv * tok" for r
    using assms(1) by (simp add: mult_le_mono)
  have cn: "copy_len * tok \<le> new_kv * tok" "new_kv * tok \<le> old_kv * tok"
    using assms(1,2) by (auto intro: mult_le_mono1)
  have fits: "r < n_rows \<Longrightarrow> r * old_kv * tok + old_kv * tok \<le> length buf" for r
    using row_end [of r n_rows old_kv tok] assms(3) by (simp add: kv_fits_def)
  have "\<exists>s'. rfor (contract_row old_kv new_kv copy_len tok) [0..<n_rows] buf = Inr s' \<and> I (length [0..<n_rows]) s'"
  proof (rule rfor_total)
    show "I 0 buf" by (simp add: I_def)
  next
    fix k s assume "k < length [0..<n_rows]" and i: "I k s"
    then have k: "k < n_rows" by simp
    have len: "length s = length buf" using i by (simp add: I_def)
    obtain s' where s': "contract_row old_kv new_kv copy_len tok k s = Inr s'"
      and st: "row_step old_kv new_kv copy_len tok k s s'"
      using contract_row_step [of copy_len old_kv new_kv k tok s] fits [OF k] mono [of k] cn assms len by auto
    have "I (Suc k) s'"
      unfolding I_def
    proof (intro conjI allI impI)
      show "length s' = length buf" using st len by (simp add: row_step_def)
    next
      fix r assume "r < Suc k"
      then consider "r = k" | "r < k" by linarith
      then show "kept old_kv new_kv copy_len tok buf s' r"
      proof cases
        case 1
        then show ?thesis using st i k by (simp add: row_step_def kept_def I_def)
      next
        case 2
        have "r * new_kv * tok + copy_len * tok \<le> k * new_kv * tok"
          using row_order [OF 2, of new_kv tok] cn by linarith
        moreover have "k * new_kv * tok \<le> length s" using fits [OF k] mono [of k] len by linarith
        ultimately have "slice (r * new_kv * tok) (copy_len * tok) s' = slice (r * new_kv * tok) (copy_len * tok) s"
          using st by (simp add: row_step_def)
        with 2 i show ?thesis by (simp add: kept_def I_def)
      qed
    next
      fix r assume r: "Suc k \<le> r \<and> r < n_rows"
      have "k * new_kv * tok + new_kv * tok \<le> r * old_kv * tok"
        using row_order [of k r new_kv tok] mono [of r] r by linarith
      moreover have "r * old_kv * tok + copy_len * tok \<le> length s"
        using fits [of r] r cn len by linarith
      ultimately have "slice (r * old_kv * tok) (copy_len * tok) s' = slice (r * old_kv * tok) (copy_len * tok) s"
        using st by (simp add: row_step_def)
      with r i show "slice (r * old_kv * tok) (copy_len * tok) s' = slice (r * old_kv * tok) (copy_len * tok) buf"
        by (simp add: I_def)
    qed
    with s' k show "\<exists>s'. contract_row old_kv new_kv copy_len tok ([0..<n_rows] ! k) s = Inr s' \<and> I (Suc k) s'"
      by simp
  qed
  with assms(1) show ?thesis by (auto simp: restride_def I_def)
qed

lemma restride_expand:
  assumes tok: "tok = w * elementSize dt"
    and "old_kv < new_kv" "copy_len \<le> old_kv" "kv_fits n_rows tok new_kv buf"
  shows "\<exists>buf'. restride n_rows tok dt old_kv new_kv copy_len buf = Inr buf'
     \<and> length buf' = length buf \<and> (\<forall>r<n_rows. kept old_kv new_kv copy_len tok buf buf' r
     \<and> (ez_supported (encodedZeroForDtype dt) \<longrightarrow>
          pad_bytes new_kv copy_len tok r ((new_kv - copy_len) * tok) buf'
          = encoded_zero_bytes dt ((new_kv - copy_len) * tok)))"
proof -
  let ?z = "encoded_zero_bytes dt ((new_kv - copy_len) * tok)"
  let ?sup = "ez_supported (encodedZeroForDtype dt)"
  define rowfin where "rowfin s r \<longleftrightarrow> kept old_kv new_kv copy_len tok buf s r
     \<and> (?sup \<longrightarrow> pad_bytes new_kv copy_len tok r ((new_kv - copy_len) * tok) s = ?z)" for s r
  define I where "I k s \<longleftrightarrow> length s = length buf
     \<and> (\<forall>r. n_rows - k \<le> r \<and> r < n_rows \<longrightarrow> rowfin s r)
     \<and> (\<forall>r < n_rows - k. slice (r * old_kv * tok) (copy_len * tok) s
          = slice (r * old_kv * tok) (copy_len * tok) buf)" for k s
  have mono: "r * old_kv * tok \<le> r * new_kv * tok" for r
    using assms(2) by (simp add: mult_le_mono)
  have cn: "copy_len * tok \<le> old_kv * tok" "old_kv * tok \<le> new_kv * tok" "copy_len * tok \<le> new_kv * tok"
    using assms(2,3) by (auto intro: mult_le_mono1)
  have split: "copy_len * tok + (new_kv - copy_len) * tok = new_kv * tok"
    using assms(2,3) by (simp flip: add_mult_distrib)
  have fits: "r < n_rows \<Longrightarrow> r * new_kv * tok + new_kv * tok \<le> length buf" for r
    using row_end [of r n_rows new_kv tok] assms(4) by (simp add: kv_fits_def)
  have "\<exists>s'. rfor (expand_row old_kv new_kv copy_len tok dt) (rev [0..<n_rows]) buf = Inr s'
      \<and> I (length (rev [0..<n_rows])) s'"
  proof (rule rfor_total)
    show "I 0 buf" by (auto simp: I_def)
  next
    fix k s assume "k < length (rev [0..<n_rows])" and i: "I k s"
    then have k: "k < n_rows" by simp
    define q where "q = n_rows - Suc k"
    have q: "q < n_rows" "n_rows - k = Suc q" "rev [0..<n_rows] ! k = q" "n_rows - Suc k = q"
      using k by (auto simp: q_def rev_nth)
    have len: "length s = length buf" using i by (simp add: I_def)
    have "q * old_kv * tok + old_kv * tok \<le> length s" using fits [OF q(1)] mono [of q] cn len by linarith
    from expand_row_step [OF tok assms(3,2) this] fits [OF q(1)] len obtain s' where
      s': "expand_row old_kv new_kv copy_len tok dt q s = Inr s'"
      and st: "row_step old_kv new_kv copy_len tok q s s'"
      and pad: "?sup \<longrightarrow> pad_bytes new_kv copy_len tok q ((new_kv - copy_len) * tok) s' = ?z"
      by auto
    have "I (Suc k) s'"
      unfolding I_def q(4)
    proof (intro conjI allI impI)
      show "length s' = length buf" using st len by (simp add: row_step_def)
    next
      fix r assume r: "q \<le> r \<and> r < n_rows"
      show "rowfin s' r"
      proof (cases "r = q")
        case True
        have "slice (q * old_kv * tok) (copy_len * tok) s = slice (q * old_kv * tok) (copy_len * tok) buf"
          using i q by (simp add: I_def)
        with st pad True show ?thesis by (simp add: rowfin_def kept_def row_step_def)
      next
        case False
        then have lt: "q < r" using r by simp
        have lo: "q * new_kv * tok + new_kv * tok \<le> r * new_kv * tok" by (rule row_order [OF lt])
        have off: "(r * new_kv + copy_len) * tok = r * new_kv * tok + copy_len * tok"
          by (simp add: add_mult_distrib)
        have hi: "r * new_kv * tok + new_kv * tok \<le> length s" using fits [of r] r len by simp
        have "slice (r * new_kv * tok) (copy_len * tok) s' = slice (r * new_kv * tok) (copy_len * tok) s"
          by (rule row_step_other [OF st]) (use lo hi cn in linarith)+
        moreover have "slice ((r * new_kv + copy_len) * tok) ((new_kv - copy_len) * tok) s'
            = slice ((r * new_kv + copy_len) * tok) ((new_kv - copy_len) * tok) s"
          by (rule row_step_other [OF st]) (use lo hi split off in linarith)+
        moreover have "rowfin s r" using i r lt q by (simp add: I_def)
        ultimately show ?thesis by (simp add: rowfin_def kept_def pad_bytes_def)
      qed
    next
      fix r assume r: "r < q"
      have "r * old_kv * tok + copy_len * tok \<le> q * new_kv * tok"
        using row_order [OF r, of old_kv tok] mono [of q] cn by linarith
      moreover have "q * new_kv * tok \<le> length s" using fits [OF q(1)] len by linarith
      ultimately have "slice (r * old_kv * tok) (copy_len * tok) s' = slice (r * old_kv * tok) (copy_len * tok) s"
        using st by (simp add: row_step_def)
      with r i q show "slice (r * old_kv * tok) (copy_len * tok) s' = slice (r * old_kv * tok) (copy_len * tok) buf"
        by (simp add: I_def)
    qed
    with s' q show "\<exists>s'. expand_row old_kv new_kv copy_len tok dt (rev [0..<n_rows] ! k) s = Inr s' \<and> I (Suc k) s'"
      by simp
  qed
  with assms(2) show ?thesis by (auto simp: restride_def I_def rowfin_def)
qed

text \<open>A kept row keeps its tokens one by one.\<close>

lemma kept_cell:
  assumes "kept old_kv new_kv copy_len tok buf buf' r" "t < copy_len"
  shows "kv_cell tok new_kv buf' r t = kv_cell tok old_kv buf r t"
proof -
  have t: "t * tok + tok \<le> copy_len * tok"
    using assms(2) mult_le_mono1 [of "Suc t" copy_len tok] by simp
  have "slice (t * tok) tok (slice (r * new_kv * tok) (copy_len * tok) buf')
      = slice (t * tok) tok (slice (r * old_kv * tok) (copy_len * tok) buf)"
    using assms(1) by (simp add: kept_def)
  with t show ?thesis by (simp add: slice_slice kv_cell_def add_mult_distrib)
qed

lemma restride_cells:
  assumes "tok = w * elementSize dt" "copy_len \<le> old_kv" "copy_len \<le> new_kv"
    "kv_fits n_rows tok old_kv buf" "kv_fits n_rows tok new_kv buf"
  shows "\<exists>buf'. restride n_rows tok dt old_kv new_kv copy_len buf = Inr buf' \<and> length buf' = length buf
     \<and> (\<forall>r<n_rows. \<forall>t<copy_len. kv_cell tok new_kv buf' r t = kv_cell tok old_kv buf r t)"
proof (cases "old_kv < new_kv")
  case True
  with restride_expand [OF assms(1) True assms(2,5)] show ?thesis by (blast intro: kept_cell)
next
  case False
  with restride_contract [of new_kv old_kv copy_len n_rows tok buf dt] assms show ?thesis
    by (auto intro: kept_cell)
qed

lemma restride_length:
  assumes "restride n_rows tok dt old_kv new_kv copy_len buf = Inr buf'"
  shows "length buf' = length buf"
proof (cases "old_kv < new_kv")
  case True
  with assms have "rfor (expand_row old_kv new_kv copy_len tok dt) (rev [0..<n_rows]) buf = Inr buf'"
    by (simp add: restride_def)
  then show ?thesis
    by (rule rfor_inv [where P = "\<lambda>s. length s = length buf"])
      (auto simp: expand_row_def split: if_splits dest!: buf_memmove_length fillEncodedZero_length)
next
  case False
  with assms have "rfor (contract_row old_kv new_kv copy_len tok) [0..<n_rows] buf = Inr buf'"
    by (simp add: restride_def)
  then show ?thesis
    by (rule rfor_inv [where P = "\<lambda>s. length s = length buf"])
      (auto simp: contract_row_def dest!: buf_memmove_length)
qed

section \<open>Copying fresh tokens between buffers\<close>

lemma kv_cell_blit_in:
  assumes "doff \<le> t" "t < doff + n" "(r * kv + doff) * tok + n * tok \<le> length buf" "length bs = n * tok"
  shows "kv_cell tok kv (blit ((r * kv + doff) * tok) bs buf) r t = slice ((t - doff) * tok) tok bs"
proof -
  have a: "(r * kv + doff) * tok \<le> (r * kv + t) * tok"
    using assms(1) by (intro mult_le_mono1) simp
  have b: "(r * kv + t) * tok + tok \<le> (r * kv + doff) * tok + n * tok"
    using assms(1,2) mult_le_mono1 [of "Suc (r * kv + t)" "r * kv + doff + n" tok] by (simp add: add_mult_distrib)
  have "(r * kv + t) * tok - (r * kv + doff) * tok = (t - doff) * tok"
    using assms(1) by (simp add: add_mult_distrib diff_mult_distrib)
  with a b assms show ?thesis
    using slice_blit_within [of "(r * kv + doff) * tok" "(r * kv + t) * tok" tok bs buf]
    by (simp add: kv_cell_def)
qed

lemma kv_cell_blit_out:
  assumes "r' \<noteq> r \<or> t < doff \<or> doff + n \<le> t" "t < kv" "doff + n \<le> kv"
    "(r * kv + doff) * tok + n * tok \<le> length buf" "(r' * kv + t) * tok + tok \<le> length buf"
    "length bs = n * tok"
  shows "kv_cell tok kv (blit ((r * kv + doff) * tok) bs buf) r' t = kv_cell tok kv buf r' t"
proof -
  have "r' * kv + t + 1 \<le> r * kv + doff \<or> r * kv + doff + n \<le> r' * kv + t"
  proof -
    consider "r' < r" | "r < r'" | "r' = r" by linarith
    then show ?thesis
    proof cases
      case 1
      have "r' * kv + kv \<le> r * kv" using 1 mult_le_mono1 [of "Suc r'" r kv] by simp
      with assms(2) show ?thesis by linarith
    next
      case 2
      have "r * kv + kv \<le> r' * kv" using 2 mult_le_mono1 [of "Suc r" r' kv] by simp
      with assms(3) show ?thesis by linarith
    next
      case 3
      with assms(1) show ?thesis by auto
    qed
  qed
  then have "(r' * kv + t) * tok + tok \<le> (r * kv + doff) * tok
      \<or> (r * kv + doff) * tok + n * tok \<le> (r' * kv + t) * tok"
    using mult_le_mono1 [of "r' * kv + t + 1" "r * kv + doff" tok]
      mult_le_mono1 [of "r * kv + doff + n" "r' * kv + t" tok]
    by (auto simp: add_mult_distrib)
  then show ?thesis unfolding kv_cell_def using assms by (intro slice_blit_other) auto
qed

text \<open>The source cells land at \<open>dst_off\<close>, row by row; every other cell and buffer stays.\<close>

lemma copy_rows_cells:
  assumes "s \<noteq> d" "kv_fits n_rows tok src_kv (m s)" "kv_fits n_rows tok dst_kv (m d)"
    and src: "src_off + n \<le> src_kv" and dst: "dst_off + n \<le> dst_kv"
  shows "\<exists>buf'. copy_rows n_rows tok src_kv dst_kv src_off dst_off n (Some s) (Some d) m = Inr (m(d := buf'))
     \<and> length buf' = length (m d)
     \<and> (\<forall>r<n_rows. \<forall>t<dst_kv. kv_cell tok dst_kv buf' r t
          = (if dst_off \<le> t \<and> t < dst_off + n then kv_cell tok src_kv (m s) r (src_off + (t - dst_off))
             else kv_cell tok dst_kv (m d) r t))"
proof -
  let ?f = "\<lambda>row m. rbind (deref (Some d)) (\<lambda>d. rbind (deref (Some s)) (\<lambda>s.
             mem_copy d ((row * dst_kv + dst_off) * tok) s ((row * src_kv + src_off) * tok) (n * tok) m))"
  let ?new = "\<lambda>r t. if dst_off \<le> t \<and> t < dst_off + n then kv_cell tok src_kv (m s) r (src_off + (t - dst_off))
             else kv_cell tok dst_kv (m d) r t"
  define I where "I k m' \<longleftrightarrow> (\<exists>buf'. m' = m(d := buf') \<and> length buf' = length (m d)
     \<and> (\<forall>r<n_rows. \<forall>t<dst_kv. kv_cell tok dst_kv buf' r t
          = (if r < k then ?new r t else kv_cell tok dst_kv (m d) r t)))" for k m'
  have end_of: "(r * kv + off) * tok + n * tok \<le> length buf"
    if "r < n_rows" "off + n \<le> kv" "kv_fits n_rows tok kv buf" for r kv off n and buf :: "u8 list"
  proof -
    have "(r * kv + off + n) * tok \<le> (r * kv + kv) * tok" using that(2) by (intro mult_le_mono1) simp
    also have "\<dots> \<le> length buf"
      using row_end [OF that(1), of kv tok] that(3) by (simp add: kv_fits_def add_mult_distrib)
    finally show ?thesis by (simp add: add_mult_distrib)
  qed
  have "\<exists>m'. rfor ?f [0..<n_rows] m = Inr m' \<and> I (length [0..<n_rows]) m'"
  proof (rule rfor_total)
    show "I 0 m" by (auto simp: I_def intro!: exI [of _ "m d"])
  next
    fix k m1 assume "k < length [0..<n_rows]" and "I k m1"
    then obtain b1 where k: "k < n_rows" and m1: "m1 = m(d := b1)" and l1: "length b1 = length (m d)"
      and c1: "\<forall>r<n_rows. \<forall>t<dst_kv. kv_cell tok dst_kv b1 r t
          = (if r < k then ?new r t else kv_cell tok dst_kv (m d) r t)"
      by (auto simp: I_def)
    let ?bs = "slice ((k * src_kv + src_off) * tok) (n * tok) (m s)"
    let ?b2 = "blit ((k * dst_kv + dst_off) * tok) ?bs b1"
    have es: "(k * src_kv + src_off) * tok + n * tok \<le> length (m s)" by (rule end_of [OF k src assms(2)])
    have ed: "(k * dst_kv + dst_off) * tok + n * tok \<le> length b1" using end_of [OF k dst assms(3)] l1 by simp
    have lb: "length ?bs = n * tok" using es by (simp add: length_slice)
    have run: "?f k m1 = Inr (m(d := ?b2))"
      using assms(1) es ed by (simp add: deref_def m1 mem_copy_ok)
    have "kv_cell tok dst_kv ?b2 r t = (if r < Suc k then ?new r t else kv_cell tok dst_kv (m d) r t)"
      if rt: "r < n_rows" "t < dst_kv" for r t
    proof (cases "r = k \<and> dst_off \<le> t \<and> t < dst_off + n")
      case True
      have "(t - dst_off) * tok + tok \<le> n * tok"
      proof -
        have "Suc (t - dst_off) \<le> n" using True by linarith
        from mult_le_mono1 [OF this, of tok] show ?thesis by simp
      qed
      then have "slice ((t - dst_off) * tok) tok ?bs
          = slice ((k * src_kv + src_off) * tok + (t - dst_off) * tok) tok (m s)"
        by (rule slice_slice)
      also have "\<dots> = kv_cell tok src_kv (m s) k (src_off + (t - dst_off))"
        unfolding kv_cell_def by (simp only: add_mult_distrib add.assoc)
      finally have "slice ((t - dst_off) * tok) tok ?bs = kv_cell tok src_kv (m s) k (src_off + (t - dst_off))" .
      with True kv_cell_blit_in [OF _ _ ed lb, of t] show ?thesis by simp
    next
      case False
      have "(r * dst_kv + t) * tok + 1 * tok \<le> length b1"
        using end_of [OF rt(1), of t 1 dst_kv "m d"] rt(2) assms(3) l1 by simp
      then have "kv_cell tok dst_kv ?b2 r t = kv_cell tok dst_kv b1 r t"
        using False rt dst ed lb by (intro kv_cell_blit_out [where n = n]) auto
      with c1 rt False show ?thesis by (auto simp: less_Suc_eq)
    qed
    with run lb ed l1 k show "\<exists>s'. ?f ([0..<n_rows] ! k) m1 = Inr s' \<and> I (Suc k) s'"
      by (auto simp: I_def length_blit intro!: exI [of _ ?b2])
  qed
  then show ?thesis by (auto simp: copy_rows_def I_def)
qed

lemma copy_rows_lengths:
  assumes "copy_rows n_rows tok skv dkv so do n src dst m = Inr m'"
  shows "has_mem_lengths m m'"
  using assms unfolding copy_rows_def
  by (rule rfor_inv [where P = "has_mem_lengths m"])
    (auto simp: has_mem_lengths_def dest: mem_copy_length)

section \<open>The interface of a strided cache\<close>

text \<open>
  What the decode and prefill phases rely on: a buffer that fits two strides can be moved
  from one to the other, and the tokens that are valid keep their contents. A client then
  restrides as often as it wants.
\<close>

locale strided_cache =
  fixes fits :: "nat \<Rightarrow> 'b \<Rightarrow> bool"
    and cells :: "nat \<Rightarrow> 'b \<Rightarrow> nat \<Rightarrow> nat \<Rightarrow> 'c"
    and move :: "nat \<Rightarrow> nat \<Rightarrow> nat \<Rightarrow> 'b \<Rightarrow> 'b res"
    and rows :: nat
  assumes move_cells:
    "n \<le> old \<Longrightarrow> n \<le> new \<Longrightarrow> fits old b \<Longrightarrow> fits new b \<Longrightarrow>
     \<exists>b'. move old new n b = Inr b' \<and> (\<forall>s. fits s b' = fits s b)
       \<and> (\<forall>r<rows. \<forall>t<n. cells new b' r t = cells old b r t)"
begin

text \<open>A chain of moves, each from the stride the one before it left.\<close>

primrec move_all :: "nat \<Rightarrow> nat list \<Rightarrow> nat \<Rightarrow> 'b \<Rightarrow> 'b res" where
  "move_all s [] n b = Inr b"
| "move_all s (s' # ss) n b = rbind (move s s' n b) (move_all s' ss n)"

lemma move_all_cells:
  "n \<le> s \<Longrightarrow> \<forall>s'\<in>set ss. n \<le> s' \<Longrightarrow> fits s b \<Longrightarrow> \<forall>s'\<in>set ss. fits s' b \<Longrightarrow>
   \<exists>b'. move_all s ss n b = Inr b' \<and> (\<forall>s. fits s b' = fits s b)
     \<and> (\<forall>r<rows. \<forall>t<n. cells (last (s # ss)) b' r t = cells s b r t)"
proof (induction ss arbitrary: s b)
  case Nil
  then show ?case by simp
next
  case (Cons s1 ss)
  from Cons.prems move_cells [of n s s1 b] obtain b1 where
    b1: "move s s1 n b = Inr b1" "\<forall>s. fits s b1 = fits s b" "\<forall>r<rows. \<forall>t<n. cells s1 b1 r t = cells s b r t"
    by auto
  from Cons.IH [of s1 b1] Cons.prems b1(2) obtain b' where
    "move_all s1 ss n b1 = Inr b'" "\<forall>s. fits s b' = fits s b1"
    "\<forall>r<rows. \<forall>t<n. cells (last (s1 # ss)) b' r t = cells s1 b1 r t"
    by auto
  with b1 show ?case by auto
qed

lemma move_there_and_back:
  assumes "n \<le> s" "n \<le> s'" "fits s b" "fits s' b"
  shows "\<exists>b1 b2. move s s' n b = Inr b1 \<and> move s' s n b1 = Inr b2
     \<and> (\<forall>r<rows. \<forall>t<n. cells s b2 r t = cells s b r t)"
  using move_cells [of n s s' b] move_cells [of n s' s] assms by metis

end

text \<open>Both layouts are such a cache: a token is a whole number of elements of the dtype.\<close>

interpretation layout: strided_cache
  "kv_fits n_rows (w * elementSize dt)" "kv_cell (w * elementSize dt)"
  "restride n_rows (w * elementSize dt) dt" n_rows
  for n_rows w dt
proof
  fix n old new :: nat and b :: "u8 list"
  assume "n \<le> old" "n \<le> new" "kv_fits n_rows (w * elementSize dt) old b" "kv_fits n_rows (w * elementSize dt) new b"
  then show "\<exists>b'. restride n_rows (w * elementSize dt) dt old new n b = Inr b'
      \<and> (\<forall>s. kv_fits n_rows (w * elementSize dt) s b' = kv_fits n_rows (w * elementSize dt) s b)
      \<and> (\<forall>r<n_rows. \<forall>t<n. kv_cell (w * elementSize dt) new b' r t = kv_cell (w * elementSize dt) old b r t)"
    using restride_cells [OF refl, of n old new n_rows w dt b] by (auto simp: kv_fits_def)
qed

section \<open>Properties of the layout\<close>

theorem restride_there_and_back:
  assumes "n \<le> s" "n \<le> s'" "kv_fits n_rows (w * elementSize dt) s b" "kv_fits n_rows (w * elementSize dt) s' b"
  shows "\<exists>b1 b2. restride n_rows (w * elementSize dt) dt s s' n b = Inr b1
     \<and> restride n_rows (w * elementSize dt) dt s' s n b1 = Inr b2
     \<and> (\<forall>r<n_rows. \<forall>t<n. kv_cell (w * elementSize dt) s b2 r t = kv_cell (w * elementSize dt) s b r t)"
  using assms by (rule layout.move_there_and_back)

lemma restride_there_and_back_witness:
  "\<exists>b1 b2. restride 2 1 UFIXED_POINT_8 3 4 2 [1, 2, 3, 4, 5, 6, 7, 8] = Inr b1
     \<and> restride 2 1 UFIXED_POINT_8 4 3 2 b1 = Inr b2 \<and> kv_cell 1 3 b2 1 1 = [5]"
proof -
  have e: "elementSize UFIXED_POINT_8 = 1" by (simp add: elementSize_def)
  have "kv_cell 1 3 [1, 2, 3, 4, 5, 6, 7, 8 :: u8] 1 1 = [5]" by (simp add: kv_cell_def slice_def eval_nat_numeral)
  with restride_there_and_back [of 2 3 4 2 1 UFIXED_POINT_8 "[1, 2, 3, 4, 5, 6, 7, 8]"] show ?thesis
    by (auto simp: e kv_fits_def)
qed

theorem copy_rows_exact:
  assumes "s \<noteq> d" "kv_fits n_rows tok src_kv (m s)" "kv_fits n_rows tok dst_kv (m d)"
    and "src_off + n \<le> src_kv" "dst_off + n \<le> dst_kv"
  shows "\<exists>buf. copy_rows n_rows tok src_kv dst_kv src_off dst_off n (Some s) (Some d) m = Inr (m(d := buf))
     \<and> length buf = length (m d)
     \<and> (\<forall>r<n_rows. \<forall>t<dst_kv. kv_cell tok dst_kv buf r t
          = (if dst_off \<le> t \<and> t < dst_off + n then kv_cell tok src_kv (m s) r (src_off + (t - dst_off))
             else kv_cell tok dst_kv (m d) r t))"
  using copy_rows_cells [OF assms] .

lemma copy_rows_exact_witness:
  "\<exists>buf. copy_rows 1 1 2 3 0 1 2 (Some 0) (Some 1) (\<lambda>b. if b = 0 then [7, 8] else [1, 2, 3])
     = Inr ((\<lambda>b. if b = 0 then [7, 8] else [1, 2, 3])(1 := buf)) \<and> kv_cell 1 3 buf 0 2 = [8]"
proof -
  have "kv_cell 1 2 [7, 8 :: u8] 0 1 = [8]" by (simp add: kv_cell_def slice_def)
  with copy_rows_exact [of 0 1 1 1 2 "\<lambda>b. if b = 0 then [7, 8] else [1, 2, 3]" 3 0 2 1] show ?thesis
    by (force simp: kv_fits_def)
qed

end
