(* ===== verification/ThreadPools.thy ===== *)
theory ThreadPools
  imports Prelude "HOL-Library.Multiset"
begin

text \<open>
  The worker pool of \<open>core/src/threadpool.cpp\<close> as a step relation. A step is one
  critical section of the mutex or the run of one job between two of them, so every
  interleaving of the client with the workers is a sequence of steps. A job is a function
  of the shared state that may throw. The fields \<open>p_enqueued\<close> and \<open>p_executed\<close> are the
  history of the queue, which the code does not keep.
\<close>

section \<open>State\<close>

type_synonym 's job = "'s \<Rightarrow> 's \<times> err option"

text \<open>Where a worker stands in \<open>loop\<close>: at the queue, with a job, after it, or returned.\<close>

datatype 's worker = AtQueue | Holding "'s job" | Finished | Returned

record 's pool =
  p_threads :: "'s worker list"
  p_jobs :: "'s job list"
  p_outstanding :: nat
  p_terminate :: bool
  p_first_error :: "err option"
  p_spinners :: nat
  p_shared :: 's
  p_enqueued :: "'s job list"
  p_executed :: "'s job list"

definition new_pool :: "'s \<Rightarrow> 's pool" where
  "new_pool s = \<lparr> p_threads = [], p_jobs = [], p_outstanding = 0, p_terminate = False,
     p_first_error = None, p_spinners = 0, p_shared = s, p_enqueued = [], p_executed = [] \<rparr>"

section \<open>Critical sections of the client\<close>

definition pool_start :: "nat \<Rightarrow> 's pool \<Rightarrow> 's pool" where
  "pool_start n p =
     (if p_threads p \<noteq> [] \<or> n = 0 then p
      else p\<lparr> p_terminate := False, p_threads := replicate n AtQueue \<rparr>)"

definition pool_enqueue :: "'s job \<Rightarrow> 's pool \<Rightarrow> 's pool" where
  "pool_enqueue j p = p\<lparr> p_jobs := p_jobs p @ [j], p_outstanding := p_outstanding p + 1,
     p_enqueued := p_enqueued p @ [j] \<rparr>"

text \<open>\<open>wait\<close> returns when \<open>outstanding_\<close> is zero, and surfaces the first error.\<close>

definition pool_can_return :: "'s pool \<Rightarrow> bool" where
  "pool_can_return p \<longleftrightarrow> p_outstanding p = 0"

definition pool_wait :: "'s pool \<Rightarrow> unit res \<times> 's pool" where
  "pool_wait p =
     (if \<not> pool_can_return p then (Inl Blocked, p)
      else (case p_first_error p of
              Some e \<Rightarrow> (Inl e, p\<lparr> p_first_error := None \<rparr>)
            | None \<Rightarrow> (Inr (), p)))"

definition startClockKeeper :: "nat \<Rightarrow> 's pool \<Rightarrow> 's pool" where
  "startClockKeeper n p = (if p_spinners p \<noteq> 0 \<or> n = 0 then p else p\<lparr> p_spinners := n \<rparr>)"

definition stopClockKeeper :: "'s pool \<Rightarrow> 's pool" where
  "stopClockKeeper p = p\<lparr> p_spinners := 0 \<rparr>"

text \<open>\<open>stop\<close> is two sections around the joins.\<close>

definition pool_stop_begin :: "'s pool \<Rightarrow> 's pool" where
  "pool_stop_begin p =
     (let p = stopClockKeeper p in if p_threads p = [] then p else p\<lparr> p_terminate := True \<rparr>)"

definition pool_stop_end :: "'s pool \<Rightarrow> 's pool" where
  "pool_stop_end p = p\<lparr> p_threads := [], p_jobs := [], p_outstanding := 0, p_terminate := False \<rparr>"

section \<open>Critical sections of a worker\<close>

definition worker_take :: "nat \<Rightarrow> 's pool \<Rightarrow> 's pool" where
  "worker_take i p = p\<lparr> p_threads := (p_threads p)[i := Holding (hd (p_jobs p))], p_jobs := tl (p_jobs p) \<rparr>"

definition worker_return :: "nat \<Rightarrow> 's pool \<Rightarrow> 's pool" where
  "worker_return i p = p\<lparr> p_threads := (p_threads p)[i := Returned] \<rparr>"

definition worker_run :: "nat \<Rightarrow> 's job \<Rightarrow> 's pool \<Rightarrow> 's pool" where
  "worker_run i j p =
     (case j (p_shared p) of (s, e) \<Rightarrow>
        p\<lparr> p_threads := (p_threads p)[i := Finished], p_shared := s,
           p_first_error := (case p_first_error p of None \<Rightarrow> e | Some e0 \<Rightarrow> Some e0),
           p_executed := p_executed p @ [j] \<rparr>)"

definition worker_finish :: "nat \<Rightarrow> 's pool \<Rightarrow> 's pool" where
  "worker_finish i p = p\<lparr> p_threads := (p_threads p)[i := AtQueue], p_outstanding := p_outstanding p - 1 \<rparr>"

text \<open>The steps of \<open>loop\<close>.\<close>

inductive worker_step :: "'s pool \<Rightarrow> 's pool \<Rightarrow> bool" where
  take: "i < length (p_threads p) \<Longrightarrow> p_threads p ! i = AtQueue \<Longrightarrow> p_jobs p \<noteq> [] \<Longrightarrow>
    worker_step p (worker_take i p)"
| return: "i < length (p_threads p) \<Longrightarrow> p_threads p ! i = AtQueue \<Longrightarrow> p_terminate p \<Longrightarrow> p_jobs p = [] \<Longrightarrow>
    worker_step p (worker_return i p)"
| run: "i < length (p_threads p) \<Longrightarrow> p_threads p ! i = Holding j \<Longrightarrow> worker_step p (worker_run i j p)"
| finish: "i < length (p_threads p) \<Longrightarrow> p_threads p ! i = Finished \<Longrightarrow> worker_step p (worker_finish i p)"

text \<open>The steps of everyone. \<open>stop\<close> ends when every worker has been joined.\<close>

inductive pool_step :: "'s pool \<Rightarrow> 's pool \<Rightarrow> bool" where
  worker: "worker_step p p' \<Longrightarrow> pool_step p p'"
| start: "pool_step p (pool_start n p)"
| enqueue: "\<not> p_terminate p \<Longrightarrow> pool_step p (pool_enqueue j p)"
| wait: "pool_can_return p \<Longrightarrow> pool_step p (snd (pool_wait p))"
| stop_begin: "pool_step p (pool_stop_begin p)"
| stop_end: "p_terminate p \<Longrightarrow> \<forall>w \<in> set (p_threads p). w = Returned \<Longrightarrow> pool_step p (pool_stop_end p)"
| keeper_start: "pool_step p (startClockKeeper n p)"
| keeper_stop: "pool_step p (stopClockKeeper p)"

text \<open>The client does not enqueue while it is inside \<open>stop\<close>, which the guard of \<open>enqueue\<close> says.\<close>

definition reachable :: "'s \<Rightarrow> 's pool \<Rightarrow> bool" where
  "reachable s p \<longleftrightarrow> pool_step\<^sup>*\<^sup>* (new_pool s) p"

section \<open>The invariant\<close>

definition held :: "'s worker list \<Rightarrow> 's job list" where
  "held ws = concat (map (\<lambda>w. case w of Holding j \<Rightarrow> [j] | _ \<Rightarrow> []) ws)"

definition in_flight :: "'s worker list \<Rightarrow> nat" where
  "in_flight ws = length (filter (\<lambda>w. case w of Holding j \<Rightarrow> True | Finished \<Rightarrow> True | _ \<Rightarrow> False) ws)"

definition pool_inv :: "'s pool \<Rightarrow> bool" where
  "pool_inv p \<longleftrightarrow>
     p_outstanding p = length (p_jobs p) + in_flight (p_threads p)
     \<and> mset (p_enqueued p) = mset (p_executed p) + mset (held (p_threads p)) + mset (p_jobs p)
     \<and> (Returned \<in> set (p_threads p) \<longrightarrow> p_terminate p \<and> p_jobs p = [])
     \<and> (p_terminate p \<longrightarrow> p_threads p \<noteq> [])"

lemma set_update_in_flight:
  assumes "i < length ws"
  shows "in_flight (ws[i := w]) + (if (case ws ! i of Holding j \<Rightarrow> True | Finished \<Rightarrow> True | _ \<Rightarrow> False) then 1 else 0)
       = in_flight ws + (if (case w of Holding j \<Rightarrow> True | Finished \<Rightarrow> True | _ \<Rightarrow> False) then 1 else 0)"
  using assms
proof (induction ws arbitrary: i)
  case Nil
  then show ?case by simp
next
  case (Cons v ws)
  show ?case
  proof (cases i)
    case 0
    then show ?thesis by (simp add: in_flight_def)
  next
    case (Suc k)
    with Cons.IH [of k] Cons.prems show ?thesis by (auto simp: in_flight_def)
  qed
qed

lemma set_update_held:
  assumes "i < length ws"
  shows "mset (held (ws[i := w])) + mset (held [ws ! i]) = mset (held ws) + mset (held [w])"
  using assms
proof (induction ws arbitrary: i)
  case Nil
  then show ?case by simp
next
  case (Cons v ws)
  show ?case
  proof (cases i)
    case 0
    then show ?thesis by (simp add: held_def)
  next
    case (Suc k)
    with Cons.IH [of k] Cons.prems show ?thesis by (simp add: held_def add.assoc)
  qed
qed

lemma set_list_update_D: "x \<in> set (xs[i := y]) \<Longrightarrow> x = y \<or> x \<in> set xs"
  using set_update_subset_insert by fastforce

lemma held_simps [simp]:
  "held [Holding j] = [j]" "held [AtQueue] = []" "held [Finished] = []" "held [Returned] = []"
  "held (replicate n AtQueue) = []" "held [] = []"
  by (simp_all add: held_def)

lemma in_flight_simps [simp]: "in_flight (replicate n AtQueue) = 0" "in_flight [] = 0"
  by (simp_all add: in_flight_def)

lemma worker_step_inv: "worker_step p p' \<Longrightarrow> pool_inv p \<Longrightarrow> pool_inv p'"
proof (induction rule: worker_step.induct)
  case (take i p)
  then obtain j js where js: "p_jobs p = j # js" by (cases "p_jobs p") auto
  show ?case
    using take js set_update_in_flight [of i "p_threads p" "Holding j"] set_update_held [of i "p_threads p" "Holding j"]
    by (auto simp: pool_inv_def worker_take_def dest!: set_list_update_D)
next
  case (return i p)
  then show ?case
    using set_update_in_flight [of i "p_threads p" Returned] set_update_held [of i "p_threads p" Returned]
    by (auto simp: pool_inv_def worker_return_def)
next
  case (run i p j)
  then show ?case
    using set_update_in_flight [of i "p_threads p" Finished] set_update_held [of i "p_threads p" Finished]
    by (auto simp: pool_inv_def worker_run_def split: prod.splits dest!: set_list_update_D)
next
  case (finish i p)
  then show ?case
    using set_update_in_flight [of i "p_threads p" AtQueue] set_update_held [of i "p_threads p" AtQueue]
    by (auto simp: pool_inv_def worker_finish_def dest!: set_list_update_D)
qed

lemma all_returned_none: "\<forall>w \<in> set ws. w = Returned \<Longrightarrow> held ws = [] \<and> in_flight ws = 0"
  by (induction ws) (auto simp: held_def in_flight_def)

lemma pool_step_inv: "pool_step p p' \<Longrightarrow> pool_inv p \<Longrightarrow> pool_inv p'"
proof (induction rule: pool_step.induct)
  case (worker p p')
  then show ?case by (blast intro: worker_step_inv)
next
  case (start p n)
  then show ?case by (auto simp: pool_inv_def pool_start_def)
next
  case (enqueue p j)
  then show ?case by (auto simp: pool_inv_def pool_enqueue_def)
next
  case (wait p)
  then show ?case by (auto simp: pool_inv_def pool_wait_def split: option.splits)
next
  case (stop_begin p)
  then show ?case by (auto simp: pool_inv_def pool_stop_begin_def stopClockKeeper_def Let_def)
next
  case (stop_end p)
  then show ?case
    using all_returned_none [of "p_threads p"] by (auto simp: pool_inv_def pool_stop_end_def neq_Nil_conv)
next
  case (keeper_start p n)
  then show ?case by (auto simp: pool_inv_def startClockKeeper_def)
next
  case (keeper_stop p)
  then show ?case by (auto simp: pool_inv_def stopClockKeeper_def)
qed

lemma reachable_inv: "reachable s p \<Longrightarrow> pool_inv p"
  unfolding reachable_def
proof (induction rule: rtranclp_induct)
  case base
  then show ?case by (simp add: pool_inv_def new_pool_def)
next
  case (step p p')
  then show ?case by (blast intro: pool_step_inv)
qed

section \<open>What the barrier and the shutdown guarantee\<close>

lemma in_flight_0_held: "in_flight ws = 0 \<Longrightarrow> held ws = []"
  by (induction ws) (auto simp: in_flight_def held_def split: worker.splits if_splits)

text \<open>When \<open>wait\<close> can return, every job ever queued has run, each exactly once.\<close>

text \<open>C5: in every reachable state in which wait may return the queue is empty and every enqueued
  job has been executed exactly once, whatever the number of workers and the interleaving\<close>

lemma wait_all_executed:
  assumes "reachable s p" "pool_can_return p"
  shows "p_jobs p = [] \<and> mset (p_executed p) = mset (p_enqueued p)"
  using reachable_inv [OF assms(1)] assms(2) in_flight_0_held [of "p_threads p"]
  by (auto simp: pool_inv_def pool_can_return_def)

text \<open>The joins of \<open>stop\<close> end only after the workers have emptied the queue.\<close>

lemma stop_drains_queue:
  assumes "reachable s p" "p_terminate p" "\<forall>w \<in> set (p_threads p). w = Returned"
  shows "p_jobs p = [] \<and> mset (p_executed p) = mset (p_enqueued p)"
  using reachable_inv [OF assms(1)] assms(2,3) all_returned_none [OF assms(3)]
  by (auto simp: pool_inv_def neq_Nil_conv)

text \<open>With a worker, an outstanding job means that some worker can move.\<close>

lemma worker_progress:
  assumes "reachable s p" "p_threads p \<noteq> []" "\<not> pool_can_return p"
  shows "\<exists>p'. worker_step p p'"
proof -
  note inv = reachable_inv [OF assms(1)]
  have "\<exists>i < length (p_threads p). p_threads p ! i \<noteq> Returned \<and> (p_threads p ! i = AtQueue \<longrightarrow> p_jobs p \<noteq> [])"
  proof (cases "p_jobs p = []")
    case True
    with inv assms(3) have "in_flight (p_threads p) \<noteq> 0" by (simp add: pool_inv_def pool_can_return_def)
    then obtain w where "w \<in> set (p_threads p)" "w \<noteq> AtQueue" "w \<noteq> Returned"
      by (auto simp: in_flight_def filter_empty_conv split: worker.splits)
    then show ?thesis by (metis in_set_conv_nth)
  next
    case False
    with inv have "p_threads p ! 0 \<noteq> Returned"
      using assms(2) by (metis length_greater_0_conv nth_mem pool_inv_def)
    with False assms(2) show ?thesis by blast
  qed
  then obtain i where i: "i < length (p_threads p)" "p_threads p ! i \<noteq> Returned"
    "p_threads p ! i = AtQueue \<longrightarrow> p_jobs p \<noteq> []" by blast
  then show ?thesis
    by (cases "p_threads p ! i") (blast intro: worker_step.intros)+
qed

text \<open>Workers left to themselves stop after boundedly many steps.\<close>

definition worker_weight :: "'s worker \<Rightarrow> nat" where
  "worker_weight w = (case w of AtQueue \<Rightarrow> 1 | Holding j \<Rightarrow> 3 | Finished \<Rightarrow> 2 | Returned \<Rightarrow> 0)"

definition pool_work :: "'s pool \<Rightarrow> nat" where
  "pool_work p = 3 * length (p_jobs p) + sum_list (map worker_weight (p_threads p))"

lemma sum_list_weight_update:
  "i < length ws \<Longrightarrow> sum_list (map worker_weight (ws[i := w])) + worker_weight (ws ! i)
     = sum_list (map worker_weight ws) + worker_weight w"
proof (induction ws arbitrary: i)
  case Nil
  then show ?case by simp
next
  case (Cons v ws)
  show ?case
  proof (cases i)
    case 0
    then show ?thesis by simp
  next
    case (Suc k)
    with Cons.IH [of k] Cons.prems show ?thesis by simp
  qed
qed

lemma worker_step_work: "worker_step p p' \<Longrightarrow> pool_work p' < pool_work p"
proof (induction rule: worker_step.induct)
  case (take i p)
  then obtain j js where js: "p_jobs p = j # js" by (cases "p_jobs p") auto
  with take sum_list_weight_update [of i "p_threads p" "Holding j"] show ?case
    by (simp add: pool_work_def worker_take_def worker_weight_def)
next
  case (return i p)
  with sum_list_weight_update [of i "p_threads p" Returned] show ?case
    by (simp add: pool_work_def worker_return_def worker_weight_def)
next
  case (run i p j)
  with sum_list_weight_update [of i "p_threads p" Finished] show ?case
    by (simp add: pool_work_def worker_run_def worker_weight_def split: prod.splits)
next
  case (finish i p)
  with sum_list_weight_update [of i "p_threads p" AtQueue] show ?case
    by (simp add: pool_work_def worker_finish_def worker_weight_def)
qed

lemma workers_bounded: "(worker_step ^^ n) p p' \<Longrightarrow> n \<le> pool_work p"
proof (induction n arbitrary: p')
  case 0
  then show ?case by simp
next
  case (Suc n)
  have "(worker_step ^^ n) p p' \<Longrightarrow> n + pool_work p' \<le> pool_work p" for n p p'
  proof (induction n arbitrary: p')
    case 0
    then show ?case by simp
  next
    case (Suc n)
    then show ?case by (fastforce dest: worker_step_work)
  qed
  from this [OF Suc.prems] show ?case by simp
qed

text \<open>Without a worker nothing moves: a queued job stays, and \<open>wait\<close> never returns.\<close>

lemma no_worker_stuck: "p_threads p = [] \<Longrightarrow> \<not> worker_step p p'"
  by (auto elim: worker_step.cases)

lemma no_worker_wait_blocks:
  assumes "reachable s p" "p_threads p = []" "p_jobs p \<noteq> []"
  shows "fst (pool_wait p) = Inl Blocked \<and> (\<forall>p'. \<not> worker_step p p')"
  using reachable_inv [OF assms(1)] assms(2,3) no_worker_stuck [OF assms(2)]
  by (auto simp: pool_inv_def pool_wait_def pool_can_return_def)

section \<open>One worker is serial execution\<close>

definition run_jobs :: "'s job list \<Rightarrow> 's \<Rightarrow> 's" where
  "run_jobs js s = fold (\<lambda>j s. fst (j s)) js s"

definition serial_step :: "'s pool \<Rightarrow> 's pool \<Rightarrow> bool" where
  "serial_step p p' \<longleftrightarrow> pool_step p p' \<and> length (p_threads p') \<le> 1"

definition serial_inv :: "'s \<Rightarrow> 's pool \<Rightarrow> bool" where
  "serial_inv s p \<longleftrightarrow> length (p_threads p) \<le> 1
     \<and> p_enqueued p = p_executed p @ held (p_threads p) @ p_jobs p
     \<and> p_shared p = run_jobs (p_executed p) s"

lemma length_le_1_cases: "length xs \<le> 1 \<Longrightarrow> i < length xs \<Longrightarrow> xs ! i = w \<Longrightarrow> i = 0 \<and> xs = [w]"
  by (cases xs) auto

lemma serial_worker_step:
  assumes "worker_step p p'" "serial_inv s p"
  shows "serial_inv s p'"
  using assms
proof (induction rule: worker_step.induct)
  case (take i p)
  then have "i = 0" "p_threads p = [AtQueue]"
    using length_le_1_cases [of "p_threads p" i] by (simp_all add: serial_inv_def)
  with take show ?case by (auto simp: serial_inv_def worker_take_def)
next
  case (return i p)
  then have "i = 0" "p_threads p = [AtQueue]"
    using length_le_1_cases [of "p_threads p" i] by (simp_all add: serial_inv_def)
  with return show ?case by (auto simp: serial_inv_def worker_return_def)
next
  case (run i p j)
  then have "i = 0" "p_threads p = [Holding j]"
    using length_le_1_cases [of "p_threads p" i] by (simp_all add: serial_inv_def)
  with run show ?case by (auto simp: serial_inv_def worker_run_def run_jobs_def split: prod.splits)
next
  case (finish i p)
  then have "i = 0" "p_threads p = [Finished]"
    using length_le_1_cases [of "p_threads p" i] by (simp_all add: serial_inv_def)
  with finish show ?case by (auto simp: serial_inv_def worker_finish_def)
qed

lemma serial_pool_step:
  assumes "pool_step p p'" "serial_inv s p" "length (p_threads p') \<le> 1" "pool_inv p"
  shows "serial_inv s p'"
  using assms
proof (induction rule: pool_step.induct)
  case (worker p p')
  then show ?case by (blast intro: serial_worker_step)
next
  case (start p n)
  then show ?case by (auto simp: serial_inv_def pool_start_def split: if_splits)
next
  case (stop_end p)
  then show ?case
    using all_returned_none [of "p_threads p"]
    by (auto simp: serial_inv_def pool_stop_end_def pool_inv_def neq_Nil_conv)
qed (auto simp: serial_inv_def pool_enqueue_def pool_wait_def pool_stop_begin_def startClockKeeper_def
    stopClockKeeper_def Let_def split: option.splits)

lemma serial_reachable:
  "serial_step\<^sup>*\<^sup>* (new_pool s) p \<Longrightarrow> serial_inv s p \<and> pool_inv p"
proof (induction rule: rtranclp_induct)
  case base
  then show ?case by (simp add: serial_inv_def pool_inv_def new_pool_def run_jobs_def)
next
  case (step p p')
  then show ?case by (auto simp: serial_step_def intro: serial_pool_step pool_step_inv)
qed

text \<open>After the barrier the shared state is what running the jobs in queue order gives.\<close>

text \<open>C28: with at most one worker, the shared state after the barrier is what running the jobs
  one after the other in queue order gives, under every interleaving with the client\<close>

lemma serial_wait:
  assumes "serial_step\<^sup>*\<^sup>* (new_pool s) p" "pool_can_return p"
  shows "p_shared p = run_jobs (p_enqueued p) s"
  using serial_reachable [OF assms(1)] assms(2) in_flight_0_held [of "p_threads p"]
  by (auto simp: serial_inv_def pool_inv_def pool_can_return_def)

section \<open>Concrete instances\<close>

text \<open>A pool with one worker and one counting job.\<close>

definition tick :: "nat job" where
  "tick n = (n + 1, None)"

lemma demo_steps:
  "pool_step (new_pool 0) (pool_start 1 (new_pool 0 :: nat pool))"
  "pool_step (pool_start 1 (new_pool 0)) (pool_enqueue tick (pool_start 1 (new_pool 0)))"
  by (rule pool_step.start, rule pool_step.enqueue) (simp add: pool_start_def new_pool_def)

lemma demo_enqueued: "pool_step\<^sup>*\<^sup>* (new_pool 0) (pool_enqueue tick (pool_start 1 (new_pool 0)))"
  using demo_steps by (meson r_into_rtranclp rtranclp.rtrancl_into_rtrancl)

text \<open>One worker takes the only job, runs it and reports.\<close>

lemma one_job_steps:
  fixes p :: "'s pool"
  assumes "p_threads p = [AtQueue]" "p_jobs p = [j]"
  shows "worker_step p (worker_take 0 p)"
    "worker_step (worker_take 0 p) (worker_run 0 j (worker_take 0 p))"
    "worker_step (worker_run 0 j (worker_take 0 p)) (worker_finish 0 (worker_run 0 j (worker_take 0 p)))"
proof -
  show "worker_step p (worker_take 0 p)" using assms by (intro worker_step.take) simp_all
  show "worker_step (worker_take 0 p) (worker_run 0 j (worker_take 0 p))"
    using assms by (intro worker_step.run) (simp_all add: worker_take_def)
  show "worker_step (worker_run 0 j (worker_take 0 p)) (worker_finish 0 (worker_run 0 j (worker_take 0 p)))"
    using assms by (intro worker_step.finish) (simp_all add: worker_take_def worker_run_def split: prod.splits)
qed

definition one_job :: "'s job \<Rightarrow> 's pool \<Rightarrow> 's pool" where
  "one_job j p = worker_finish 0 (worker_run 0 j (worker_take 0 p))"

lemma one_job_reach:
  assumes "p_threads p = [AtQueue]" "p_jobs p = [j]"
  shows "pool_step\<^sup>*\<^sup>* p (one_job j p)"
  unfolding one_job_def
  by (intro rtranclp.rtrancl_into_rtrancl [OF rtranclp.rtrancl_into_rtrancl [OF r_into_rtranclp]])
    (rule pool_step.worker one_job_steps [OF assms])+

lemma wait_all_executed_witness:
  "let p = one_job tick (pool_enqueue tick (pool_start 1 (new_pool 0)))
   in p_jobs p = [] \<and> mset (p_executed p) = mset (p_enqueued p) \<and> p_executed p = [tick]"
proof -
  let ?q = "pool_enqueue tick (pool_start 1 (new_pool 0))"
  have "p_threads ?q = [AtQueue]" "p_jobs ?q = [tick]"
    by (simp_all add: pool_enqueue_def pool_start_def new_pool_def)
  then have "reachable 0 (one_job tick ?q)"
    using demo_enqueued one_job_reach unfolding reachable_def by (metis rtranclp_trans)
  moreover have "pool_can_return (one_job tick ?q)"
    by (simp add: one_job_def pool_can_return_def worker_finish_def worker_run_def worker_take_def pool_enqueue_def
        pool_start_def new_pool_def tick_def)
  ultimately show ?thesis using wait_all_executed [of 0 "one_job tick ?q"]
    by (simp add: one_job_def Let_def worker_finish_def worker_run_def worker_take_def pool_enqueue_def
        pool_start_def new_pool_def tick_def)
qed

lemma stop_drains_queue_witness:
  "let p = worker_return 0 (one_job tick (pool_stop_begin (pool_enqueue tick (pool_start 1 (new_pool 0)))))
   in p_jobs p = [] \<and> mset (p_executed p) = mset (p_enqueued p) \<and> p_executed p = [tick]"
proof -
  let ?q = "pool_stop_begin (pool_enqueue tick (pool_start 1 (new_pool 0)))"
  have q: "p_threads ?q = [AtQueue]" "p_jobs ?q = [tick]"
    by (simp_all add: pool_stop_begin_def stopClockKeeper_def Let_def pool_enqueue_def pool_start_def new_pool_def)
  have o: "p_threads (one_job tick ?q) = [AtQueue]" "p_jobs (one_job tick ?q) = []" "p_terminate (one_job tick ?q)"
    by (simp_all add: one_job_def worker_finish_def worker_run_def worker_take_def pool_stop_begin_def
        stopClockKeeper_def Let_def pool_enqueue_def pool_start_def new_pool_def tick_def)
  have "pool_step (one_job tick ?q) (worker_return 0 (one_job tick ?q))"
    using o by (intro pool_step.worker worker_step.return) simp_all
  moreover have "pool_step\<^sup>*\<^sup>* (new_pool 0) ?q"
    using demo_enqueued pool_step.stop_begin by (metis rtranclp.rtrancl_into_rtrancl)
  ultimately have "reachable 0 (worker_return 0 (one_job tick ?q))"
    using one_job_reach [OF q] unfolding reachable_def by (meson rtranclp.rtrancl_into_rtrancl rtranclp_trans)
  then show ?thesis using stop_drains_queue [of 0 "worker_return 0 (one_job tick ?q)"] o
    by (simp add: one_job_def Let_def worker_return_def worker_finish_def worker_run_def worker_take_def
        pool_stop_begin_def stopClockKeeper_def pool_enqueue_def pool_start_def new_pool_def tick_def)
qed

lemma worker_progress_witness: "\<exists>p'. worker_step (pool_enqueue tick (pool_start 1 (new_pool 0))) p'"
  by (rule worker_progress [of 0])
    (use demo_enqueued in \<open>simp_all add: reachable_def pool_enqueue_def pool_start_def new_pool_def pool_can_return_def\<close>)

lemma no_worker_wait_blocks_witness: "fst (pool_wait (pool_enqueue tick (new_pool 0))) = Inl Blocked"
proof -
  have "reachable 0 (pool_enqueue tick (new_pool 0))"
    unfolding reachable_def by (rule r_into_rtranclp, rule pool_step.enqueue) (simp add: new_pool_def)
  then show ?thesis
    using no_worker_wait_blocks [of 0 "pool_enqueue tick (new_pool 0)"] by (simp add: pool_enqueue_def new_pool_def)
qed

lemma serial_wait_witness:
  "p_shared (one_job tick (pool_enqueue tick (pool_start 1 (new_pool 0)))) = run_jobs [tick] 0 \<and> run_jobs [tick] 0 = 1"
proof -
  let ?s = "pool_start 1 (new_pool 0 :: nat pool)" and ?q = "pool_enqueue tick (pool_start 1 (new_pool 0))"
  note d = pool_enqueue_def pool_start_def new_pool_def worker_finish_def worker_run_def worker_take_def tick_def
  have q: "p_threads ?q = [AtQueue]" "p_jobs ?q = [tick]" by (simp_all add: d)
  have l: "length (p_threads ?s) = 1" "length (p_threads (worker_take i p)) = length (p_threads p)"
    "length (p_threads (worker_run i tick p)) = length (p_threads p)"
    "length (p_threads (worker_finish i p)) = length (p_threads p)" for i p
    by (simp_all add: d)
  have "serial_step (new_pool 0) ?s" "serial_step ?s ?q" "serial_step ?q (worker_take 0 ?q)"
    "serial_step (worker_take 0 ?q) (worker_run 0 tick (worker_take 0 ?q))"
    "serial_step (worker_run 0 tick (worker_take 0 ?q)) (one_job tick ?q)"
    unfolding serial_step_def one_job_def
    using demo_steps pool_step.worker [OF one_job_steps(1) [OF q]] pool_step.worker [OF one_job_steps(2) [OF q]]
      pool_step.worker [OF one_job_steps(3) [OF q]]
    by (simp_all only: l q list.size) simp_all
  then have "serial_step\<^sup>*\<^sup>* (new_pool 0) (one_job tick ?q)"
    by (meson r_into_rtranclp rtranclp.rtrancl_into_rtrancl)
  from serial_wait [OF this] show ?thesis by (simp add: one_job_def pool_can_return_def d run_jobs_def)
qed

end
