(* ===== verification/LLMState.thy ===== *)
theory LLMState
  imports Names KVStride ThreadPools "HOL-Library.Product_Lexorder"
begin

text \<open>
  The state of \<open>LLMModel\<close> and what its constructor, \<open>onInitialized\<close>,
  \<open>inferSpecFromGraphs\<close>, \<open>buildConnections\<close> and \<open>initKVBuffers\<close> do with it
  (\<open>core/include/llm/llm_model.h\<close>, \<open>core/src/llm/llm_model.cpp\<close>).

  The type \<open>'p\<close> of input providers is open, as the class \<open>InputProvider\<close> is; what a
  provider does is a field of the environment. So are the accelerator's execution of a
  graph and the sampler of geniex-proc, which is represented by the parameters it was
  built with and the calls made on it.
\<close>

section \<open>Configuration\<close>

record gen_config =
  gc_max_tokens :: int
  gc_sliding_window :: bool
  gc_sliding_n_keep :: int
  gc_enable_sampling :: bool
  gc_temperature :: f32
  gc_top_p :: f32
  gc_min_p :: f32
  gc_top_k :: int
  gc_repetition_penalty :: f32
  gc_presence_penalty :: f32
  gc_frequency_penalty :: f32
  gc_penalty_last_n :: int
  gc_seed :: u32
  gc_grammar_str :: string
  gc_grammar_root :: string
  gc_has_tokenizer :: bool

text \<open>The decode settings of \<open>ModelConfig\<close>, and the environment variables overriding them.\<close>

record decode_config =
  dc_workers :: nat
  dc_cpu_mask :: nat
  dc_poll :: bool
  dc_env_workers :: "nat option"
  dc_env_cpu_mask :: "nat option"
  dc_env_poll :: "bool option"
  dc_env_clock :: "nat option"

record sampler_params =
  sa_seed :: u32
  sa_temp :: f32
  sa_top_k :: int
  sa_top_p :: f32
  sa_min_p :: f32
  sa_penalty_repeat :: f32
  sa_penalty_freq :: f32
  sa_penalty_present :: f32
  sa_penalty_last_n :: int
  sa_eog_tokens :: "int list"

datatype sampler_call = SInit "int list" | SAccept int

record sampler =
  s_params :: sampler_params
  s_grammar :: "(string \<times> string) option"
  s_calls :: "sampler_call list"

section \<open>State\<close>

text \<open>
  The decode pool as the model uses it: the number of workers, the jobs queued while it
  has none, and the first error of a job that has run.
\<close>

record decode_pool =
  dp_workers :: nat
  dp_pending :: nat
  dp_error :: "err option"
  dp_keeper :: nat

record 'p llm = model +
  l_spec :: llm_spec
  l_providers :: "'p list"
  l_shard_count :: nat
  l_num_cl :: nat
  l_active_cl :: nat
  l_prefill_conns :: "connection list list"
  l_decode_conns :: "connection list list"
  l_kv_block :: nat
  l_n_past :: nat
  l_history :: "int list"
  l_sampler :: "sampler option"
  l_sampler_cfg :: gen_config
  l_sampler_cfg_valid :: bool
  l_pool :: "decode_pool option"
  l_clock_threads :: nat
  l_cpu_mask :: nat

record 'p env =
  e_exec :: "graph \<Rightarrow> mem \<Rightarrow> bool \<times> mem"
  e_write :: "'p \<Rightarrow> graph \<Rightarrow> run_ctx \<Rightarrow> mem \<Rightarrow> mem res"
  e_init_provider :: "llm_spec \<Rightarrow> 'p \<Rightarrow> 'p res"
  e_embedding_provider :: "string \<Rightarrow> 'p res"   \<comment> \<open>\<open>makeEmbeddingProvider\<close>\<close>
  e_rope_provider :: "nat \<Rightarrow> 'p res"           \<comment> \<open>\<open>makeRoPEProvider\<close>\<close>
  e_sample :: "sampler \<Rightarrow> f32 list \<Rightarrow> int"
  e_grammar_ok :: "string \<Rightarrow> string \<Rightarrow> bool"

definition graphIndex :: "('p, 'a) llm_scheme \<Rightarrow> nat \<Rightarrow> nat \<Rightarrow> nat \<Rightarrow> nat" where
  "graphIndex st phase shard cl = phase * (l_shard_count st * l_num_cl st) + shard * l_num_cl st + cl"

definition requireKVStateBlock :: "('p, 'a) llm_scheme \<Rightarrow> state_block res" where
  "requireKVStateBlock st =
     (if l_kv_block st < length (sp_state_blocks (l_spec st))
      then Inr (sp_state_blocks (l_spec st) ! l_kv_block st)
      else Inl (RuntimeError ''KV state block has not been resolved''))"

text \<open>No two graphs share a slot, and every slot below the total is one.\<close>

lemma graphIndex_less:
  assumes "phase < 2" "shard < l_shard_count st" "cl < l_num_cl st"
  shows "graphIndex st phase shard cl < 2 * l_shard_count st * l_num_cl st"
proof -
  have a: "shard * l_num_cl st + cl < l_shard_count st * l_num_cl st"
    using row_col_less [OF assms(2,3)] .
  from row_col_less [OF assms(1) a] show ?thesis by (simp add: graphIndex_def mult.assoc)
qed

lemma graphIndex_inj:
  assumes "shard < l_shard_count st" "cl < l_num_cl st" "shard' < l_shard_count st" "cl' < l_num_cl st"
    and "graphIndex st phase shard cl = graphIndex st phase' shard' cl'"
  shows "phase = phase' \<and> shard = shard' \<and> cl = cl'"
proof -
  have "shard * l_num_cl st + cl < l_shard_count st * l_num_cl st"
    "shard' * l_num_cl st + cl' < l_shard_count st * l_num_cl st"
    using assms row_col_less by blast+
  from row_col_inj [OF this, of phase phase'] assms(5)
  have "phase = phase' \<and> shard * l_num_cl st + cl = shard' * l_num_cl st + cl'"
    by (simp add: graphIndex_def add.assoc)
  with row_col_inj [OF assms(2,4)] show ?thesis by blast
qed

section \<open>Inferring the spec\<close>

text \<open>The layer index of a matched key output; \<open>m[1]\<close> of a pattern without \<open>{}\<close> is empty.\<close>

definition kv_pair_of :: "graph \<Rightarrow> state_block \<Rightarrow> string \<Rightarrow> kv_pair res" where
  "kv_pair_of g block ds =
     rbind (stoul ds) (\<lambda>layer.
       let p = \<lparr> kp_key_in = fmtPattern (sb_key_in_pattern block) layer,
                 kp_key_out = fmtPattern (sb_key_out_pattern block) layer,
                 kp_value_in = fmtPattern (sb_value_in_pattern block) layer,
                 kp_value_out = fmtPattern (sb_value_out_pattern block) layer \<rparr>
       in if \<not> hasInput g (kp_key_in p) \<or> \<not> hasInput g (kp_value_in p) \<or> \<not> hasOutput g (kp_value_out p)
          then Inl (RuntimeError ''missing a matching in/value KV tensor'') else Inr p)"

definition discoverKVPairs :: "graph \<Rightarrow> state_block \<Rightarrow> kv_pair list res" where
  "discoverKVPairs g block =
     rfor (\<lambda>t pairs. case match_pattern (sb_key_out_pattern block) (ts_name t) of
             None \<Rightarrow> Inr pairs
           | Some ds \<Rightarrow> rbind (kv_pair_of g block ds) (\<lambda>p. Inr (pairs @ [p])))
       (g_out_specs g) []"

definition hiddenDimOf :: "tensor_spec \<Rightarrow> nat" where
  "hiddenDimOf t =
     (if ts_name t = ''logits'' \<or> length (ts_shape t) < 2 then 0
      else if isIntegerDtype (ts_dtype t) then 0 else last (ts_shape t))"

definition infer_hidden :: "tensor_spec \<Rightarrow> llm_spec \<Rightarrow> llm_spec" where
  "infer_hidden t sp =
     (if sp_hidden_size sp = 0 \<and> \<not> isSpecialTensor (ts_name t) \<and> hiddenDimOf t \<noteq> 0
      then sp\<lparr> sp_hidden_size := hiddenDimOf t \<rparr> else sp)"

definition infer_input :: "tensor_spec \<Rightarrow> string \<times> llm_spec \<Rightarrow> string \<times> llm_spec" where
  "infer_input t = (\<lambda>(in_name, sp).
     let in_name = (if in_name = [] \<and> \<not> isSpecialTensor (ts_name t) then ts_name t else in_name);
         sp = infer_hidden t sp;
         sp = (if take 9 (ts_name t) = ''past_key_'' \<and> 3 \<le> length (ts_shape t)
               then (let sp = (if sp_num_kv_heads sp = 0 then sp\<lparr> sp_num_kv_heads := ts_shape t ! 0 \<rparr> else sp)
                     in if sp_head_dim sp = 0 then sp\<lparr> sp_head_dim := ts_shape t ! 2 \<rparr> else sp)
               else sp)
     in (in_name, sp))"

text \<open>\<open>shape.back()\<close> of a \<open>logits\<close> tensor without dimensions is undefined.\<close>

definition infer_output :: "tensor_spec \<Rightarrow> string \<times> bool \<times> llm_spec \<Rightarrow> (string \<times> bool \<times> llm_spec) res" where
  "infer_output t = (\<lambda>(out_name, has_kv_out, sp).
     let out_name = (if out_name = [] \<and> \<not> isSpecialTensor (ts_name t) then ts_name t else out_name);
         sp = infer_hidden t sp;
         has_kv_out = (has_kv_out \<or> isKVTensor (ts_name t))
     in if ts_name t = ''logits'' \<and> sp_vocab_size sp = 0
        then (if ts_shape t = [] then Inl UndefinedBehaviour
              else Inr (out_name, has_kv_out, sp\<lparr> sp_vocab_size := last (ts_shape t) \<rparr>))
        else Inr (out_name, has_kv_out, sp))"

definition infer_blocks :: "graph \<Rightarrow> nat \<Rightarrow> state_block list \<Rightarrow> state_block list res" where
  "infer_blocks g s blocks =
     rmap (\<lambda>b. rbind (discoverKVPairs g b) (\<lambda>ps. Inr (b\<lparr> sb_shard_pairs := (sb_shard_pairs b)[s := ps] \<rparr>))) blocks"

definition infer_shard :: "('p, 'a) llm_scheme \<Rightarrow> nat \<Rightarrow> llm_spec \<Rightarrow> llm_spec res" where
  "infer_shard st s sp =
     rbind (graph_at st (graphIndex st 0 s 0)) (\<lambda>g.
     let (in_name, sp) = fold infer_input (g_in_specs g) ([], sp) in
     rbind (rfor infer_output (g_out_specs g) ([], False, sp)) (\<lambda>(out_name, has_kv_out, sp).
       if in_name = [] \<or> out_name = []
       then Inl (RuntimeError ''has no non-special input/output tensor'')
       else rbind (infer_blocks g s (sp_state_blocks sp)) (\<lambda>blocks.
         Inr (sp\<lparr> sp_shards := (sp_shards sp)[s := \<lparr> sh_in_state = in_name, sh_out_state = out_name,
                     sh_lm_head_only = (\<not> has_kv_out \<and> out_name = ''logits'' \<and> 0 < s) \<rparr>],
                  sp_state_blocks := blocks \<rparr>))))"

definition inferSpecFromGraphs :: "('p, 'a) llm_scheme \<Rightarrow> llm_spec res" where
  "inferSpecFromGraphs st =
     (let n = l_shard_count st; sp = l_spec st in
      if n = 0 \<or> l_num_cl st = 0 then Inl (RuntimeError ''shard_count and num_cl must be non-zero'')
      else let blocks = (if sp_state_blocks sp = [] then [makeKVStateBlock] else sp_state_blocks sp);
               sp = sp\<lparr> sp_shards := replicate n \<lparr> sh_in_state = [], sh_out_state = [], sh_lm_head_only = False \<rparr>,
                        sp_state_blocks := map (\<lambda>b. b\<lparr> sb_shard_pairs := replicate n [] \<rparr>) blocks \<rparr>
           in rbind (rfor (infer_shard st) [0..<n] sp) (\<lambda>sp.
                if sp_hidden_size sp = 0 \<or> sp_vocab_size sp = 0
                then Inl (RuntimeError ''could not determine hidden_size / vocab_size'') else Inr sp))"

section \<open>Wiring\<close>

definition shard_conns :: "('p, 'a) llm_scheme \<Rightarrow> nat \<Rightarrow> nat \<Rightarrow> connection list" where
  "shard_conns st phase cl =
     map (\<lambda>s. \<lparr> c_src_graph = graphIndex st phase s cl,
                c_src_name = sh_out_state (sp_shards (l_spec st) ! s),
                c_dst_graph = graphIndex st phase (s + 1) cl,
                c_dst_name = sh_in_state (sp_shards (l_spec st) ! (s + 1)) \<rparr>)
       [0..<l_shard_count st - 1]"

definition buildConnections :: "('p, 'a) llm_scheme \<Rightarrow> ('p, 'a) llm_scheme" where
  "buildConnections st = st\<lparr>
     l_prefill_conns := map (shard_conns st 0) [0..<l_num_cl st],
     l_decode_conns := map (shard_conns st 1) [0..<l_num_cl st] \<rparr>"

text \<open>The first prefill graph with a \<open>position_ids_cos\<close> input decides the rotary dimension.\<close>

definition find_rope :: "('p, 'a) llm_scheme \<Rightarrow> nat list \<Rightarrow> tensor_spec option res" where
  "find_rope st shards =
     rfor (\<lambda>s found. case found of Some t \<Rightarrow> Inr (Some t)
         | None \<Rightarrow> rbind (graph_at st (graphIndex st 0 s 0)) (\<lambda>g.
             if hasInput g ''position_ids_cos''
             then rbind (inputSpec g ''position_ids_cos'') (\<lambda>t. Inr (Some t)) else Inr None))
       shards None"

definition push_provider :: "'p \<Rightarrow> ('p, 'a) llm_scheme \<Rightarrow> ('p, 'a) llm_scheme" where
  "push_provider p st = st\<lparr> l_providers := l_providers st @ [p] \<rparr>"

definition add_provider :: "'p res \<Rightarrow> (('p, 'a) llm_scheme, unit) sx" where
  "add_provider r = sbind (slift r) (\<lambda>p. smod (push_provider p))"

definition createInputProviders :: "'p env \<Rightarrow> (('p, 'a) llm_scheme, unit) sx" where
  "createInputProviders env = swith (\<lambda>st. swhen (l_providers st = [])
     (sbind (slift (idx_vec (sp_shards (l_spec st)) 0)) (\<lambda>sh.
      sthen (add_provider (e_embedding_provider env (sh_in_state sh)))
     (sbind (slift (find_rope st [0..<l_shard_count st])) (\<lambda>found.
        case found of None \<Rightarrow> sret ()
        | Some t \<Rightarrow> if ts_shape t = [] then sthrow UndefinedBehaviour
                    else add_provider (e_rope_provider env (last (ts_shape t) * 2)))))))"

section \<open>Cache buffers\<close>

definition buildKVInputNames :: "('p, 'a) llm_scheme \<Rightarrow> string set res" where
  "buildKVInputNames st =
     rbind (requireKVStateBlock st) (\<lambda>b.
       rfor (\<lambda>s names. rbind (idx_vec (sb_shard_pairs b) s) (\<lambda>ps.
               Inr (names \<union> set (map kp_key_in ps) \<union> set (map kp_value_in ps))))
         [0..<l_shard_count st] {})"

definition init_kv_tensor :: "graph \<Rightarrow> string set \<Rightarrow> tensor_spec \<Rightarrow> mem \<Rightarrow> mem res" where
  "init_kv_tensor g names t m =
     (if ts_name t \<notin> names then Inr m
      else rbind (inputPtr g (ts_name t)) (\<lambda>buf.
           case buf of None \<Rightarrow> Inr m
           | Some b \<Rightarrow> mem_on b (fillEncodedZero 0 (byteCount t) (ts_dtype t)) m))"

definition initKVBuffers :: "(('p, 'a) llm_scheme, unit) sx" where
  "initKVBuffers = swith (\<lambda>st.
     sbind (slift (buildKVInputNames st)) (\<lambda>names.
       sfor (\<lambda>gi. swith (\<lambda>st. sbind (slift (graph_at st gi)) (\<lambda>g.
               sfor (\<lambda>t. supd (\<lambda>st. rbind (init_kv_tensor g names t (m_mem st)) (\<lambda>m. Inr (st\<lparr> m_mem := m \<rparr>))))
                 (g_in_specs g))))
         [0..<2 * l_shard_count st * l_num_cl st]))"

section \<open>Bring-up\<close>

fun first_index :: "('b \<Rightarrow> bool) \<Rightarrow> 'b list \<Rightarrow> nat option" where
  "first_index P [] = None"
| "first_index P (x # xs) = (if P x then Some 0 else map_option Suc (first_index P xs))"

text \<open>\<open>sortKey\<close>: phase, shard and context-length index of a graph name.\<close>

definition sortKey :: "nat \<Rightarrow> nat list \<Rightarrow> string \<Rightarrow> nat \<times> int \<times> nat" where
  "sortKey prefill_ar cls name =
     (case parseGraphName name of
        None \<Rightarrow> (if prefill_ar = 0 then 0 else 1, 0, 0)
      | Some p \<Rightarrow>
          (if pg_ar p = prefill_ar then 0 else 1,
           if 0 < pg_shard p then to_i32 (int (pg_shard p)) - 1 else 0,
           (case first_index (\<lambda>c. c = pg_cl p) cls of None \<Rightarrow> 0 | Some i \<Rightarrow> i)))"

text \<open>Names parsed before the first bad one decide nothing: a bad name fails the whole scan.\<close>

definition scan_names :: "string list \<Rightarrow> parsed_graph list option" where
  "scan_names ns =
     (let ps = map parseGraphName ns in if None \<in> set ps then None else Some (map the ps))"

definition discover_variants :: "parsed_graph list \<Rightarrow> ('p, 'a) llm_scheme \<Rightarrow> ('p, 'a) llm_scheme" where
  "discover_variants ps st =
     (let cls = sort (remdups (map pg_cl ps)); ars = sort (remdups (map pg_ar ps))
      in st\<lparr> l_spec := (l_spec st)\<lparr> sp_context_lengths := cls, sp_seq_len_prefill := last ars,
                                   sp_seq_len_decode := hd ars \<rparr>,
            l_num_cl := length cls,
            l_shard_count := foldl max 0 (map pg_total ps) \<rparr>)"

definition sort_graphs :: "('p, 'a) llm_scheme \<Rightarrow> ('p, 'a) llm_scheme" where
  "sort_graphs st = st\<lparr> m_graphs :=
     sort_key (\<lambda>g. sortKey (sp_seq_len_prefill (l_spec st)) (sp_context_lengths (l_spec st)) (g_name g)) (m_graphs st) \<rparr>"

definition resolve_kv_block :: "('p, 'a) llm_scheme \<Rightarrow> ('p, 'a) llm_scheme" where
  "resolve_kv_block st = st\<lparr> l_kv_block :=
     (case first_index (\<lambda>b. sb_kind b = KV) (sp_state_blocks (l_spec st)) of None \<Rightarrow> 2 ^ 64 - 1 | Some i \<Rightarrow> i) \<rparr>"

definition init_providers :: "'p env \<Rightarrow> (('p, 'a) llm_scheme, unit) sx" where
  "init_providers env = swith (\<lambda>st.
     sfor (\<lambda>i. supd (\<lambda>st. rbind (e_init_provider env (l_spec st) (l_providers st ! i)) (\<lambda>p.
               Inr (st\<lparr> l_providers := (l_providers st)[i := p] \<rparr>))))
       [0..<length (l_providers st)])"

definition opt_or :: "'b option \<Rightarrow> 'b \<Rightarrow> 'b" where
  "opt_or x d = (case x of None \<Rightarrow> d | Some y \<Rightarrow> y)"

definition start_decode_pool :: "decode_config \<Rightarrow> ('p, 'a) llm_scheme \<Rightarrow> ('p, 'a) llm_scheme" where
  "start_decode_pool dc st =
     (let n = opt_or (dc_env_workers dc) (dc_workers dc);
          clock = opt_or (dc_env_clock dc) (l_clock_threads st)
      in st\<lparr> l_clock_threads := clock,
            l_cpu_mask := opt_or (dc_env_cpu_mask dc) (dc_cpu_mask dc),
            l_pool := (if 0 < n \<or> 0 < clock
                       then Some \<lparr> dp_workers = n, dp_pending = 0, dp_error = None, dp_keeper = 0 \<rparr>
                       else l_pool st) \<rparr>)"

text \<open>\<open>createInputProviders\<close> is virtual, so it is an argument.\<close>

definition llm_bring_up :: "(('p, 'a) llm_scheme, unit) sx \<Rightarrow> 'p env \<Rightarrow> decode_config \<Rightarrow> (('p, 'a) llm_scheme, bool) sx" where
  "llm_bring_up create env dc = swith (\<lambda>st.
     case scan_names (map g_name (m_graphs st)) of
       None \<Rightarrow> sret False
     | Some [] \<Rightarrow> sret False
     | Some ps \<Rightarrow>
         sthen (smod (discover_variants ps))
        (sthen (smod sort_graphs)
        (sthen (supd (\<lambda>st. rbind (inferSpecFromGraphs st) (\<lambda>sp. Inr (st\<lparr> l_spec := sp \<rparr>))))
        (sthen (smod resolve_kv_block)
        (sthen create
        (sthen (smod buildConnections)
        (sthen (init_providers env)
        (sthen initKVBuffers
        (sthen (smod (start_decode_pool dc))
        (sret True))))))))))"

definition llm_onInitialized :: "'p env \<Rightarrow> decode_config \<Rightarrow> (('p, 'a) llm_scheme, bool) sx" where
  "llm_onInitialized env dc = llm_bring_up (createInputProviders env) env dc"

text \<open>The default member initializers, before \<open>initialize\<close>.\<close>

definition mkLLM :: "llm_spec \<Rightarrow> gen_config \<Rightarrow> 'p llm" where
  "mkLLM spec cfg = \<lparr> m_graphs = [], m_mem = (\<lambda>_. []), m_initialized = False,
     l_spec = spec, l_providers = [], l_shard_count = 0, l_num_cl = 0, l_active_cl = 0,
     l_prefill_conns = [], l_decode_conns = [], l_kv_block = 2 ^ 64 - 1, l_n_past = 0, l_history = [],
     l_sampler = None, l_sampler_cfg = cfg, l_sampler_cfg_valid = False, l_pool = None,
     l_clock_threads = 1, l_cpu_mask = 0 \<rparr>"

section \<open>Facts about bring-up\<close>

text \<open>What a discovered pair promises: its other three tensors are on the graph.\<close>

lemma kv_pair_ofD:
  assumes "kv_pair_of g block ds = Inr p"
  shows "hasInput g (kp_key_in p) \<and> hasInput g (kp_value_in p) \<and> hasOutput g (kp_value_out p)"
  using assms by (auto simp: kv_pair_of_def Let_def split: if_splits)

lemma discoverKVPairs_resolved:
  assumes "discoverKVPairs g block = Inr ps" "p \<in> set ps"
  shows "hasInput g (kp_key_in p) \<and> hasInput g (kp_value_in p) \<and> hasOutput g (kp_value_out p)"
proof -
  have "\<forall>p \<in> set ps. hasInput g (kp_key_in p) \<and> hasInput g (kp_value_in p) \<and> hasOutput g (kp_value_out p)"
    using assms(1) unfolding discoverKVPairs_def
    by (rule rfor_inv) (auto split: option.splits dest: kv_pair_ofD)
  with assms(2) show ?thesis by blast
qed

lemma discover_variants_sorted:
  assumes "ps \<noteq> []" "st' = discover_variants ps st"
  shows "sorted (sp_context_lengths (l_spec st'))" "distinct (sp_context_lengths (l_spec st'))"
    "set (sp_context_lengths (l_spec st')) = pg_cl ` set ps"
    "length (sp_context_lengths (l_spec st')) = l_num_cl st'"
    "\<forall>p \<in> set ps. sp_seq_len_decode (l_spec st') \<le> pg_ar p \<and> pg_ar p \<le> sp_seq_len_prefill (l_spec st')"
proof -
  let ?ars = "sort (remdups (map pg_ar ps))"
  have ne: "?ars \<noteq> []" using assms(1) by (metis set_empty set_remdups set_sort map_is_Nil_conv)
  show "sorted (sp_context_lengths (l_spec st'))" "distinct (sp_context_lengths (l_spec st'))"
    "set (sp_context_lengths (l_spec st')) = pg_cl ` set ps"
    "length (sp_context_lengths (l_spec st')) = l_num_cl st'"
    using assms(2) by (simp_all add: discover_variants_def Let_def)
  have "x \<in> set ?ars \<Longrightarrow> hd ?ars \<le> x \<and> x \<le> last ?ars" for x
    using ne sorted_sort [of "remdups (map pg_ar ps)"]
    by (metis hd_conv_nth in_set_conv_nth last_conv_nth length_greater_0_conv less_Suc_eq_le
        Suc_pred' sorted_nth_mono diff_less zero_less_one le0)
  then show "\<forall>p \<in> set ps. sp_seq_len_decode (l_spec st') \<le> pg_ar p \<and> pg_ar p \<le> sp_seq_len_prefill (l_spec st')"
    using assms(2) by (auto simp: discover_variants_def Let_def)
qed

lemma buildConnections_shape:
  "cl < l_num_cl st \<Longrightarrow> s + 1 < l_shard_count st \<Longrightarrow>
   l_prefill_conns (buildConnections st) ! cl ! s = \<lparr> c_src_graph = graphIndex st 0 s cl,
     c_src_name = sh_out_state (sp_shards (l_spec st) ! s), c_dst_graph = graphIndex st 0 (s + 1) cl,
     c_dst_name = sh_in_state (sp_shards (l_spec st) ! (s + 1)) \<rparr>"
  by (simp add: buildConnections_def shard_conns_def less_diff_conv)

section \<open>Concrete instances\<close>

lemma graphIndex_inj_witness:
  "graphIndex ((undefined :: nat llm)\<lparr> l_shard_count := 3, l_num_cl := 2 \<rparr>) 1 2 1
     \<noteq> graphIndex ((undefined :: nat llm)\<lparr> l_shard_count := 3, l_num_cl := 2 \<rparr>) 1 1 1"
  using graphIndex_inj [of 2 "(undefined :: nat llm)\<lparr> l_shard_count := 3, l_num_cl := 2 \<rparr>" 1 1 1 1 1] by auto

theorem discover_variants_range:
  assumes "ps \<noteq> []"
  shows "let st' = discover_variants ps st; sp = l_spec st' in
     sorted (sp_context_lengths sp) \<and> distinct (sp_context_lengths sp) \<and> set (sp_context_lengths sp) = pg_cl ` set ps
     \<and> length (sp_context_lengths sp) = l_num_cl st'
     \<and> (\<forall>p \<in> set ps. sp_seq_len_decode sp \<le> pg_ar p \<and> pg_ar p \<le> sp_seq_len_prefill sp)"
  using discover_variants_sorted [OF assms refl, of st] by (simp add: Let_def)

lemma discover_variants_range_witness:
  "sorted (sp_context_lengths (l_spec (discover_variants [\<lparr> pg_ar = 128, pg_cl = 4096, pg_shard = 1, pg_total = 2 \<rparr>,
     \<lparr> pg_ar = 1, pg_cl = 512, pg_shard = 1, pg_total = 2 \<rparr>] (undefined :: nat llm))))"
  using discover_variants_range [of "[\<lparr> pg_ar = 128, pg_cl = 4096, pg_shard = 1, pg_total = 2 \<rparr>,
     \<lparr> pg_ar = 1, pg_cl = 512, pg_shard = 1, pg_total = 2 \<rparr>]" "undefined :: nat llm"] by (simp add: Let_def)

definition demo_out_spec :: tensor_spec where
  "demo_out_spec = \<lparr> ts_name = ''past_key_7_out'', ts_dtype = UFIXED_POINT_8, ts_type = 1, ts_shape = [1, 1, 1, 1],
     ts_quant_scale = 0, ts_quant_offset = 0, ts_axis_quant = [], ts_has_dynamic_dims = False \<rparr>"

definition demo_kv_outputs :: graph where
  "demo_kv_outputs = (mkGraph None)\<lparr> g_out_specs := [demo_out_spec], g_in_index := [''past_key_7_in'' \<mapsto> 0, ''past_value_7_in'' \<mapsto> 1],
    g_out_index := [''past_value_7_out'' \<mapsto> 0] \<rparr>"

lemma discoverKVPairs_resolved_witness:
  "\<exists>p. discoverKVPairs demo_kv_outputs makeKVStateBlock = Inr [p] \<and> hasInput demo_kv_outputs (kp_key_in p)
     \<and> kp_key_in p = ''past_key_7_in''"
proof -
  let ?p = "\<lparr> kp_key_in = ''past_key_7_in'', kp_key_out = ''past_key_7_out'', kp_value_in = ''past_value_7_in'',
    kp_value_out = ''past_value_7_out'' \<rparr>"
  have f: "fmtPattern ''past_key_{}_in'' 7 = ''past_key_7_in''" "fmtPattern ''past_key_{}_out'' 7 = ''past_key_7_out''"
    "fmtPattern ''past_value_{}_in'' 7 = ''past_value_7_in''" "fmtPattern ''past_value_{}_out'' 7 = ''past_value_7_out''"
    by (simp_all add: fmtPattern_def to_string.simps [of 7] digit_char_def char_of_def bit_0)
  have "match_pattern ''past_key_{}_out'' ''past_key_7_out'' = Some (to_string 7)"
    using match_fmtPattern [of "''past_key_{}_out''" "''past_key_''" "''_out''" 7] by (simp add: f)
  then have "discoverKVPairs demo_kv_outputs makeKVStateBlock = Inr [?p]"
    using stoul_to_string [of 7]
    by (simp add: discoverKVPairs_def demo_kv_outputs_def demo_out_spec_def makeKVStateBlock_def kv_pair_of_def f hasInput_def hasOutput_def Let_def
        del: to_string.simps)
  with discoverKVPairs_resolved [OF this, of ?p] show ?thesis by auto
qed

end
