(* ===== verification/LLMRun.thy ===== *)
theory LLMRun
  imports LLMState
begin

text \<open>
  The running model of \<open>core/src/llm/llm_model.cpp\<close>: one graph execution, the movement of
  the cache between buffers and between strides, context-length promotion, chunked
  prefill, the sliding window, the decode loop, sampling, reset, save and load.

  Decode jobs run on the pool's worker between the call that queues them and the next
  \<open>wait\<close>; here they run where they are queued, which is one of the schedules
  \<open>ThreadPools.serial_wait\<close> shows to be equivalent for the pool's own state. A pool without
  workers keeps them pending, and its \<open>wait\<close> does not return.
\<close>

section \<open>One graph execution\<close>

definition smem :: "(mem \<Rightarrow> mem res) \<Rightarrow> (('p, 'a) llm_scheme, unit) sx" where
  "smem f = supd (\<lambda>st. rbind (f (m_mem st)) (\<lambda>m. Inr (st\<lparr> m_mem := m \<rparr>)))"

definition seq_len_of :: "llm_spec \<Rightarrow> nat \<Rightarrow> nat" where
  "seq_len_of sp phase = (if phase = 0 then sp_seq_len_prefill sp else sp_seq_len_decode sp)"

definition write_mask :: "llm_spec \<Rightarrow> graph \<Rightarrow> nat \<Rightarrow> run_ctx \<Rightarrow> mem \<Rightarrow> mem res" where
  "write_mask sp g kv_len ctx m =
     (if hasInput g (sp_attention_mask_name sp)
      then rbind (get_attention_mask (rc_n_past ctx) (rc_curr_len ctx) (seq_len_of sp (rc_phase ctx)) kv_len)
             (\<lambda>msk. write_float g (sp_attention_mask_name sp) (SrcFloat msk) m)
      else Inr m)"

definition execute :: "'p env \<Rightarrow> graph \<Rightarrow> (('p, 'a) llm_scheme, unit) sx" where
  "execute env g = (\<lambda>st. case e_exec env g (m_mem st) of (ok, m) \<Rightarrow>
     (if ok then Inr () else Inl (RuntimeError ''Graph execute failed''), st\<lparr> m_mem := m \<rparr>))"

definition runShard :: "'p env \<Rightarrow> nat \<Rightarrow> nat \<Rightarrow> nat \<Rightarrow> run_ctx \<Rightarrow> (('p, 'a) llm_scheme, unit) sx" where
  "runShard env shard phase cl ctx = swith (\<lambda>st.
     sbind (slift (idx_vec (sp_context_lengths (l_spec st)) cl)) (\<lambda>cl_len.
     sbind (slift (graph_at st (graphIndex st phase shard cl))) (\<lambda>g.
       let kv_len = szsub cl_len (seq_len_of (l_spec st) phase)
       in sthen (smem (write_mask (l_spec st) g kv_len (ctx\<lparr> rc_phase := phase \<rparr>)))
         (sthen (sfor (\<lambda>p. smem (e_write env p g ctx)) (l_providers st))
           (execute env g)))))"

section \<open>Moving the cache\<close>

definition copyKV :: "llm_spec \<Rightarrow> graph \<Rightarrow> string \<Rightarrow> bool \<Rightarrow> graph \<Rightarrow> string \<Rightarrow> nat \<Rightarrow> nat \<Rightarrow> nat \<Rightarrow> bool
    \<Rightarrow> mem \<Rightarrow> mem res" where
  "copyKV sp src_g src_name src_is_output dst_g dst_name src_off dst_off n_tok is_key m =
     rbind (if src_is_output then outputSpec src_g src_name else inputSpec src_g src_name) (\<lambda>ss.
     rbind (inputSpec dst_g dst_name) (\<lambda>ds.
     rbind (if src_is_output then outputPtr src_g src_name else inputPtr src_g src_name) (\<lambda>src.
     rbind (inputPtr dst_g dst_name) (\<lambda>dst.
       let es = elementSize (ts_dtype ss); H = sp_num_kv_heads sp; hd = sp_head_dim sp; d = (if is_key then 3 else 2)
       in rbind (idx_vec (ts_shape ss) d) (\<lambda>src_kv.
          rbind (idx_vec (ts_shape ds) d) (\<lambda>dst_kv.
            copy_rows (if is_key then H * hd else H) (if is_key then es else hd * es)
              src_kv dst_kv src_off dst_off n_tok src dst m))))))"

definition updateKV :: "nat \<Rightarrow> nat \<Rightarrow> nat \<Rightarrow> nat \<Rightarrow> (('p, 'a) llm_scheme, unit) sx" where
  "updateKV s phase dst_off n_tok = swith (\<lambda>st.
     sbind (slift (requireKVStateBlock st)) (\<lambda>b.
     sbind (slift (idx_vec (sb_shard_pairs b) s)) (\<lambda>pairs.
       if pairs = [] then sret ()
       else sbind (slift (graph_at st (graphIndex st phase s (l_active_cl st)))) (\<lambda>g.
         sfor (\<lambda>p. sthen
             (smem (copyKV (l_spec st) g (kp_key_out p) True g (kp_key_in p) 0 dst_off n_tok True))
             (smem (copyKV (l_spec st) g (kp_value_out p) True g (kp_value_in p) 0 dst_off n_tok False)))
           pairs))))"

text \<open>One tensor of \<open>reshapeKV\<close>; the key and the value block differ in rows and token size.\<close>

definition reshape_tensor :: "graph \<Rightarrow> string \<Rightarrow> nat \<Rightarrow> (nat \<Rightarrow> nat) \<Rightarrow> nat \<Rightarrow> nat \<Rightarrow> nat \<Rightarrow> mem \<Rightarrow> mem res" where
  "reshape_tensor g name n_rows tok_of old_kv new_kv copy_len m =
     rbind (inputSpec g name) (\<lambda>spec.
     rbind (inputPtr g name) (\<lambda>buf.
       if n_rows = 0 then Inr m
       else rbind (deref buf) (\<lambda>b.
         mem_on b (restride n_rows (tok_of (elementSize (ts_dtype spec))) (ts_dtype spec) old_kv new_kv copy_len) m)))"

definition reshapeKV :: "nat \<Rightarrow> nat \<Rightarrow> nat \<Rightarrow> nat \<Rightarrow> (('p, 'a) llm_scheme, unit) sx" where
  "reshapeKV shard old_kv new_kv n_valid = swith (\<lambda>st.
     if old_kv = new_kv then sret ()
     else sbind (slift (requireKVStateBlock st)) (\<lambda>b.
     sbind (slift (idx_vec (sb_shard_pairs b) shard)) (\<lambda>pairs.
       if pairs = [] then sret ()
       else let copy_len = min n_valid (min old_kv new_kv);
                H = sp_num_kv_heads (l_spec st); hd = sp_head_dim (l_spec st)
            in sbind (slift (graph_at st (graphIndex st 0 shard (l_active_cl st)))) (\<lambda>g.
                 sfor (\<lambda>p. sthen
                     (smem (reshape_tensor g (kp_key_in p) (H * hd) (\<lambda>es. es) old_kv new_kv copy_len))
                     (smem (reshape_tensor g (kp_value_in p) H (\<lambda>es. hd * es) old_kv new_kv copy_len)))
                   pairs))))"

definition reshape_all :: "nat \<Rightarrow> nat \<Rightarrow> nat \<Rightarrow> (('p, 'a) llm_scheme, unit) sx" where
  "reshape_all old_kv new_kv n_valid = swith (\<lambda>st.
     sfor (\<lambda>s. reshapeKV s old_kv new_kv n_valid) [0..<l_shard_count st])"

section \<open>Context lengths\<close>

function promote_target :: "nat list \<Rightarrow> nat \<Rightarrow> nat \<Rightarrow> nat \<Rightarrow> nat \<Rightarrow> nat" where
  "promote_target cls num_cl required reserved cl =
     (if cl + 1 < num_cl \<and> szsub (cls ! cl) reserved < required
      then promote_target cls num_cl required reserved (cl + 1) else cl)"
  by pat_completeness auto
termination
  by (relation "measure (\<lambda>(cls, num_cl, required, reserved, cl). num_cl - cl)") auto

declare promote_target.simps [simp del]

definition promoteCL :: "nat \<Rightarrow> nat \<Rightarrow> nat \<Rightarrow> (('p, 'a) llm_scheme, bool) sx" where
  "promoteCL required capacity_reserved stride_reserved = swith (\<lambda>st.
     let cls = sp_context_lengths (l_spec st);
         new_cl = promote_target cls (l_num_cl st) required capacity_reserved (l_active_cl st)
     in if l_num_cl st \<le> 1 \<or> new_cl = l_active_cl st then sret False
        else sthen (reshape_all (szsub (cls ! l_active_cl st) stride_reserved)
                                (szsub (cls ! new_cl) stride_reserved) (l_n_past st))
            (sthen (smod (\<lambda>st. st\<lparr> l_active_cl := new_cl \<rparr>)) (sret True)))"

text \<open>\<open>ptrdiff_t\<close> arithmetic: division truncates, and all four counts are non-negative.\<close>

definition computeSlideDiscard :: "nat \<Rightarrow> nat \<Rightarrow> nat \<Rightarrow> nat \<Rightarrow> nat" where
  "computeSlideDiscard n_past n_fit max_cl n_keep =
     (if n_past \<le> n_keep then 0
      else let needed = int n_past + int n_fit - int max_cl + 1;
               discard = max (int n_past div 2 - int n_keep) needed;
               discard = min discard (int n_past - int n_keep)
           in if 0 < discard then nat discard else 0)"

section \<open>Prefill\<close>

definition connect :: "bool \<Rightarrow> nat \<Rightarrow> nat \<Rightarrow> (('p, 'a) llm_scheme, unit) sx" where
  "connect decode cl s = swith (\<lambda>st.
     sbind (slift (rbind (idx_vec (if decode then l_decode_conns st else l_prefill_conns st) cl)
                     (\<lambda>cs. idx_vec cs s))) (\<lambda>c.
       smem (applyConnections (m_graphs st) [c])))"

definition lm_head_only_at :: "('p, 'a) llm_scheme \<Rightarrow> nat \<Rightarrow> bool" where
  "lm_head_only_at st s = sh_lm_head_only (sp_shards (l_spec st) ! s)"

definition prefill_shard :: "'p env \<Rightarrow> bool \<Rightarrow> run_ctx \<Rightarrow> nat \<Rightarrow> (('p, 'a) llm_scheme, unit) sx" where
  "prefill_shard env final ctx s = swith (\<lambda>st.
     if \<not> final \<and> lm_head_only_at st s then sret ()
     else sthen (runShard env s 0 (l_active_cl st) ctx)
         (sthen (updateKV s 0 (l_n_past st) (rc_curr_len ctx))
         (swhen (s + 1 < l_shard_count st \<and> \<not> (\<not> final \<and> lm_head_only_at st (s + 1)))
           (connect False (l_active_cl st) s))))"

definition prefill_chunk :: "'p env \<Rightarrow> bool \<Rightarrow> int list \<Rightarrow> (('p, 'a) llm_scheme, unit) sx" where
  "prefill_chunk env final chunk = swith (\<lambda>st.
     let pre = sp_seq_len_prefill (l_spec st)
     in sthen (promoteCL (l_n_past st + length chunk) pre pre)
       (sthen (swith (\<lambda>st. sfor (prefill_shard env final \<lparr> rc_token_ids = chunk, rc_n_past = l_n_past st,
                 rc_curr_len = length chunk, rc_phase = 0 \<rparr>) [0..<l_shard_count st]))
         (smod (\<lambda>st. st\<lparr> l_history := l_history st @ chunk, l_n_past := l_n_past st + length chunk \<rparr>))))"

text \<open>
  The chunk loop. The result is the size of the last chunk. Each round removes a chunk, so
  as many rounds as there are tokens are enough unless the prefill length is zero, where
  the loop of the code does not end.
\<close>

fun prefill_loop :: "'p env \<Rightarrow> nat \<Rightarrow> int list \<Rightarrow> nat \<Rightarrow> (('p, 'a) llm_scheme, nat) sx" where
  "prefill_loop env fuel [] last_size = sret last_size"
| "prefill_loop env 0 (t # ts) last_size = sthrow Blocked"
| "prefill_loop env (Suc fuel) (t # ts) last_size = swith (\<lambda>st.
     let n = min (length (t # ts)) (sp_seq_len_prefill (l_spec st))
     in sthen (prefill_chunk env (length (t # ts) \<le> n) (take n (t # ts)))
         (prefill_loop env fuel (drop n (t # ts)) n))"

definition prefillChunks :: "'p env \<Rightarrow> int list \<Rightarrow> (('p, 'a) llm_scheme, nat) sx" where
  "prefillChunks env tokens = prefill_loop env (length tokens) tokens 0"

section \<open>The sliding window\<close>

definition phase_kv :: "('p, 'a) llm_scheme \<Rightarrow> nat \<Rightarrow> nat" where
  "phase_kv st phase = szsub (sp_context_lengths (l_spec st) ! l_active_cl st) (seq_len_of (l_spec st) phase)"

text \<open>Restriding every shard at the active context length, from one phase to the other.\<close>

definition restride_phase :: "nat \<Rightarrow> nat \<Rightarrow> nat \<Rightarrow> (('p, 'a) llm_scheme, unit) sx" where
  "restride_phase from_ph to_ph n_valid = swith (\<lambda>st. reshape_all (phase_kv st from_ph) (phase_kv st to_ph) n_valid)"

definition slideWindowEvict :: "'p env \<Rightarrow> nat \<Rightarrow> nat \<Rightarrow> bool \<Rightarrow> (('p, 'a) llm_scheme, unit) sx" where
  "slideWindowEvict env n_discard n_keep at_decode_stride = swith (\<lambda>st.
     if n_discard = 0 then sret ()
     else let tail_begin = n_keep + n_discard; tail_len = l_n_past st - tail_begin
          in if length (l_history st) < tail_begin + tail_len then sthrow UndefinedBehaviour
             else let tail = slice tail_begin tail_len (l_history st)
             in sthen (swhen at_decode_stride (restride_phase 1 0 n_keep))
               (sthen (smod (\<lambda>st. st\<lparr> l_n_past := n_keep, l_history := vec_resize n_keep 0 (l_history st) \<rparr>))
               (sbind (prefillChunks env tail) (\<lambda>_.
                 swhen at_decode_stride (swith (\<lambda>st. restride_phase 0 1 (l_n_past st)))))))"

definition try_slide :: "'p env \<Rightarrow> gen_config \<Rightarrow> nat \<Rightarrow> nat \<Rightarrow> nat \<Rightarrow> bool \<Rightarrow> (('p, 'a) llm_scheme, bool) sx" where
  "try_slide env cfg max_cl n_keep n_fit at_decode_stride = swith (\<lambda>st.
     let n_discard = computeSlideDiscard (l_n_past st) n_fit max_cl n_keep
     in if \<not> gc_sliding_window cfg \<or> n_discard = 0 \<or> max_cl < (l_n_past st - n_discard) + n_fit
        then sret False
        else sthen (slideWindowEvict env n_discard n_keep at_decode_stride) (sret True))"

section \<open>Sampling\<close>

definition f32_eq :: "f32 \<Rightarrow> f32 \<Rightarrow> bool" where
  "f32_eq a b \<longleftrightarrow> f32_val a \<noteq> FNaN \<and> f32_val b \<noteq> FNaN \<and> \<not> f32_lt a b \<and> \<not> f32_lt b a"

definition samplerCfgEqual :: "gen_config \<Rightarrow> gen_config \<Rightarrow> bool" where
  "samplerCfgEqual a b \<longleftrightarrow>
     gc_enable_sampling a = gc_enable_sampling b \<and> f32_eq (gc_temperature a) (gc_temperature b)
     \<and> f32_eq (gc_top_p a) (gc_top_p b) \<and> f32_eq (gc_min_p a) (gc_min_p b) \<and> gc_top_k a = gc_top_k b
     \<and> f32_eq (gc_repetition_penalty a) (gc_repetition_penalty b)
     \<and> f32_eq (gc_presence_penalty a) (gc_presence_penalty b)
     \<and> f32_eq (gc_frequency_penalty a) (gc_frequency_penalty b)
     \<and> gc_penalty_last_n a = gc_penalty_last_n b \<and> gc_seed a = gc_seed b
     \<and> gc_grammar_str a = gc_grammar_str b \<and> gc_grammar_root a = gc_grammar_root b"

definition sampler_params_of :: "gen_config \<Rightarrow> int list \<Rightarrow> sampler_params" where
  "sampler_params_of c eos = \<lparr> sa_seed = gc_seed c, sa_temp = gc_temperature c, sa_top_k = gc_top_k c,
     sa_top_p = gc_top_p c, sa_min_p = gc_min_p c, sa_penalty_repeat = gc_repetition_penalty c,
     sa_penalty_freq = gc_frequency_penalty c, sa_penalty_present = gc_presence_penalty c,
     sa_penalty_last_n = gc_penalty_last_n c, sa_eog_tokens = eos \<rparr>"

definition new_sampler :: "'p env \<Rightarrow> gen_config \<Rightarrow> int list \<Rightarrow> sampler" where
  "new_sampler env c eos = \<lparr> s_params = sampler_params_of c eos,
     s_grammar = (if gc_grammar_str c \<noteq> [] \<and> gc_has_tokenizer c \<and> e_grammar_ok env (gc_grammar_str c) (gc_grammar_root c)
                  then Some (gc_grammar_str c, gc_grammar_root c) else None),
     s_calls = [] \<rparr>"

definition sampler_call :: "sampler_call \<Rightarrow> sampler \<Rightarrow> sampler" where
  "sampler_call c s = s\<lparr> s_calls := s_calls s @ [c] \<rparr>"

definition prepareSampler :: "'p env \<Rightarrow> gen_config \<Rightarrow> int list \<Rightarrow> ('p, 'a) llm_scheme \<Rightarrow> ('p, 'a) llm_scheme" where
  "prepareSampler env cfg prompt st =
     (if \<not> gc_enable_sampling cfg then st\<lparr> l_sampler := None, l_sampler_cfg_valid := False \<rparr>
      else let reuse = (l_sampler st \<noteq> None \<and> l_sampler_cfg_valid st \<and> samplerCfgEqual (l_sampler_cfg st) cfg);
               st = (if reuse then st
                     else st\<lparr> l_sampler := Some (new_sampler env cfg (sp_eos_token_ids (l_spec st))),
                              l_sampler_cfg := cfg, l_sampler_cfg_valid := True \<rparr>)
           in if prompt = [] then st else st\<lparr> l_sampler := map_option (sampler_call (SInit prompt)) (l_sampler st) \<rparr>)"

text \<open>\<open>std::max_element\<close>: the first element no later one is greater than.\<close>

fun max_element :: "f32 list \<Rightarrow> nat \<Rightarrow> f32 \<Rightarrow> nat \<Rightarrow> nat" where
  "max_element [] i best best_i = best_i"
| "max_element (x # xs) i best best_i =
     (if f32_lt best x then max_element xs (i + 1) x i else max_element xs (i + 1) best best_i)"

definition argmax :: "f32 list \<Rightarrow> nat" where
  "argmax xs = (case xs of [] \<Rightarrow> 0 | x # rest \<Rightarrow> max_element rest 1 x 0)"

definition readLastLogits :: "nat \<Rightarrow> nat \<Rightarrow> ('p, 'a) llm_scheme \<Rightarrow> f32 list res" where
  "readLastLogits phase token_offset st =
     rbind (graph_at st (graphIndex st phase (l_shard_count st - 1) (l_active_cl st))) (\<lambda>g.
     if sp_shards (l_spec st) = [] then Inl UndefinedBehaviour
     else read_float g (sh_out_state (last (sp_shards (l_spec st)))) (sp_vocab_size (l_spec st))
            (token_offset * sp_vocab_size (l_spec st)) (m_mem st))"

definition sampleNextToken :: "'p env \<Rightarrow> nat \<Rightarrow> nat \<Rightarrow> (('p, 'a) llm_scheme, int) sx" where
  "sampleNextToken env phase token_offset = swith (\<lambda>st.
     sbind (slift (readLastLogits phase token_offset st)) (\<lambda>logits.
       case l_sampler st of
         Some s \<Rightarrow> let tok = e_sample env s logits
                   in sthen (smod (\<lambda>st. st\<lparr> l_sampler := Some (sampler_call (SAccept tok) s) \<rparr>)) (sret tok)
       | None \<Rightarrow> sret (to_i32 (int (argmax logits)))))"

section \<open>Decode\<close>

text \<open>
  A job on the pool: a worker runs it and keeps its first exception for \<open>wait\<close>; undefined
  behaviour is not an exception.
\<close>

definition is_exception :: "err \<Rightarrow> bool" where
  "is_exception e \<longleftrightarrow> e \<noteq> UndefinedBehaviour \<and> e \<noteq> Blocked"

definition llm_enqueue :: "(('p, 'a) llm_scheme, unit) sx \<Rightarrow> (('p, 'a) llm_scheme, unit) sx" where
  "llm_enqueue job = (\<lambda>st. case l_pool st of
     None \<Rightarrow> job st
   | Some dp \<Rightarrow>
       if dp_workers dp = 0 then (Inr (), st\<lparr> l_pool := Some (dp\<lparr> dp_pending := dp_pending dp + 1 \<rparr>) \<rparr>)
       else (case job st of
               (Inr u, st') \<Rightarrow> (Inr u, st')
             | (Inl e, st') \<Rightarrow>
                 if is_exception e
                 then (Inr (), st'\<lparr> l_pool := map_option (\<lambda>dp. dp\<lparr> dp_error :=
                         (case dp_error dp of None \<Rightarrow> Some e | Some e0 \<Rightarrow> Some e0) \<rparr>) (l_pool st') \<rparr>)
                 else (Inl e, st')))"

definition llm_wait :: "(('p, 'a) llm_scheme, unit) sx" where
  "llm_wait = (\<lambda>st. case l_pool st of
     None \<Rightarrow> (Inr (), st)
   | Some dp \<Rightarrow>
       if 0 < dp_pending dp then (Inl Blocked, st)
       else (case dp_error dp of None \<Rightarrow> (Inr (), st)
             | Some e \<Rightarrow> (Inl e, st\<lparr> l_pool := Some (dp\<lparr> dp_error := None \<rparr>) \<rparr>)))"

definition set_keeper :: "nat \<Rightarrow> ('p, 'a) llm_scheme \<Rightarrow> ('p, 'a) llm_scheme" where
  "set_keeper n st = st\<lparr> l_pool := map_option (\<lambda>dp. dp\<lparr> dp_keeper := n \<rparr>) (l_pool st) \<rparr>"

definition decode_shard :: "'p env \<Rightarrow> run_ctx \<Rightarrow> nat \<Rightarrow> (('p, 'a) llm_scheme, unit) sx" where
  "decode_shard env ctx s = swith (\<lambda>st.
     sthen (runShard env s 1 (l_active_cl st) ctx)
    (sthen (llm_enqueue (updateKV s 1 (rc_n_past ctx) 1))
           (swhen (s + 1 < l_shard_count st) (connect True (l_active_cl st) s))))"

text \<open>The room a decode step needs, made by promotion or by sliding, or the error.\<close>

definition decode_make_room :: "'p env \<Rightarrow> gen_config \<Rightarrow> nat \<Rightarrow> nat \<Rightarrow> (('p, 'a) llm_scheme, unit) sx" where
  "decode_make_room env cfg max_cl n_keep = swith (\<lambda>st.
     swhen (max_cl < l_n_past st + 1)
       (sbind (try_slide env cfg max_cl n_keep 1 True) (\<lambda>_.
          swith (\<lambda>st. swhen (max_cl < l_n_past st + 1) (sthrow ContextLengthExceeded)))))"

definition decode_step :: "'p env \<Rightarrow> gen_config \<Rightarrow> nat \<Rightarrow> nat \<Rightarrow> int \<Rightarrow> (('p, 'a) llm_scheme, int) sx" where
  "decode_step env cfg max_cl n_keep next_token =
     sthen llm_wait
    (sthen (decode_make_room env cfg max_cl n_keep)
    (sthen (swith (\<lambda>st. let d = sp_seq_len_decode (l_spec st) in promoteCL (l_n_past st + 1) d d))
    (sthen (swith (\<lambda>st. sfor (decode_shard env \<lparr> rc_token_ids = [next_token], rc_n_past = l_n_past st,
               rc_curr_len = 1, rc_phase = 1 \<rparr>) [0..<l_shard_count st]))
    (sthen (smod (\<lambda>st. st\<lparr> l_n_past := l_n_past st + 1, l_history := l_history st @ [next_token] \<rparr>))
           (sampleNextToken env 1 0)))))"

text \<open>
  The decode loop on the steps that are left. \<open>cb out\<close> is what the callback answers after
  the tokens \<open>out\<close>, the last of which it is called with; no callback is one that says yes.
\<close>

fun decode_loop :: "'p env \<Rightarrow> gen_config \<Rightarrow> (int list \<Rightarrow> bool) \<Rightarrow> nat \<Rightarrow> nat \<Rightarrow> nat \<Rightarrow> int \<Rightarrow> int list
    \<Rightarrow> (('p, 'a) llm_scheme, int list) sx" where
  "decode_loop env cfg cb max_cl n_keep 0 next_token out = sret out"
| "decode_loop env cfg cb max_cl n_keep (Suc steps) next_token out = swith (\<lambda>st.
     if next_token \<in> set (sp_eos_token_ids (l_spec st)) then sret out
     else let out = out @ [next_token]
          in if \<not> cb out then sret out
             else sbind (decode_step env cfg max_cl n_keep next_token) (\<lambda>tok.
                    decode_loop env cfg cb max_cl n_keep steps tok out))"

definition decode_finish :: "(('p, 'a) llm_scheme, unit) sx" where
  "decode_finish =
     sthen llm_wait
    (sthen (smod (set_keeper 0))
    (sthen (swith (\<lambda>st. promoteCL (l_n_past st) (sp_seq_len_prefill (l_spec st)) (sp_seq_len_decode (l_spec st))))
           (swith (\<lambda>st. restride_phase 1 0 (l_n_past st)))))"

text \<open>What \<open>generate\<close> fixes on entry.\<close>

definition gen_max_cl :: "('p, 'a) llm_scheme \<Rightarrow> nat" where
  "gen_max_cl st = last (sp_context_lengths (l_spec st))"

definition gen_n_keep :: "gen_config \<Rightarrow> ('p, 'a) llm_scheme \<Rightarrow> nat" where
  "gen_n_keep cfg st =
     (if gc_sliding_window cfg then min (nat (max (gc_sliding_n_keep cfg) 0)) (gen_max_cl st) else 0)"

definition gen_admit :: "'p env \<Rightarrow> gen_config \<Rightarrow> nat \<Rightarrow> nat \<Rightarrow> nat \<Rightarrow> (('p, 'a) llm_scheme, unit) sx" where
  "gen_admit env cfg max_cl n_keep n_tok = swith (\<lambda>st.
     swhen (max_cl < l_n_past st + n_tok)
       (sbind (try_slide env cfg max_cl n_keep n_tok False) (\<lambda>_.
          swith (\<lambda>st. swhen (max_cl < l_n_past st + n_tok) (sthrow ContextLengthExceeded)))))"

definition gen_start_keeper :: "('p, 'a) llm_scheme \<Rightarrow> ('p, 'a) llm_scheme" where
  "gen_start_keeper st = (if 0 < l_clock_threads st then set_keeper (l_clock_threads st) st else st)"

definition generate :: "'p env \<Rightarrow> gen_config \<Rightarrow> (int list \<Rightarrow> bool) \<Rightarrow> int list \<Rightarrow> (('p, 'a) llm_scheme, int list) sx" where
  "generate env cfg cb prompt =
     sthen (smod (prepareSampler env cfg prompt))
    (swith (\<lambda>st. let max_cl = gen_max_cl st; n_keep = gen_n_keep cfg st in
     if sp_context_lengths (l_spec st) = [] then sthrow UndefinedBehaviour
     else sthen (gen_admit env cfg max_cl n_keep (length prompt))
    (sbind (prefillChunks env prompt) (\<lambda>last_size.
     sthen (swith (\<lambda>st. restride_phase 0 1 (l_n_past st)))
    (sbind (sampleNextToken env 0 (szsub last_size 1)) (\<lambda>tok.
     sthen (smod gen_start_keeper)
    (sbind (decode_loop env cfg cb max_cl n_keep (nat (gc_max_tokens cfg)) tok []) (\<lambda>out.
     sthen decode_finish (sret out)))))))))"

section \<open>Reset, save and load\<close>

definition resetKVCache :: "(('p, 'a) llm_scheme, unit) sx" where
  "resetKVCache =
     sthen (smod (\<lambda>st. st\<lparr> l_n_past := 0, l_active_cl := 0, l_history := [],
       l_sampler := None, l_sampler_cfg_valid := False \<rparr>)) initKVBuffers"

definition size_bytes :: "nat \<Rightarrow> u8 list" where
  "size_bytes n = le_bytes 8 (word_of_nat n :: 64 word)"

text \<open>The cache tensors of the prefill graphs, in file order, with their graphs.\<close>

definition kv_file_tensors :: "string set \<Rightarrow> ('p, 'a) llm_scheme \<Rightarrow> (graph \<times> tensor_spec) list res" where
  "kv_file_tensors names st =
     rbind (rmap (graph_at st) [0..<l_shard_count st * l_num_cl st]) (\<lambda>gs.
       Inr (concat (map (\<lambda>g. map (\<lambda>t. (g, t)) (filter (\<lambda>t. ts_name t \<in> names) (g_in_specs g))) gs)))"

definition save_tensor :: "mem \<Rightarrow> graph \<times> tensor_spec \<Rightarrow> u8 list \<Rightarrow> u8 list res" where
  "save_tensor m = (\<lambda>(g, t) file.
     rbind (inputPtr g (ts_name t)) (\<lambda>buf.
       case buf of None \<Rightarrow> Inr file
       | Some b \<Rightarrow> rbind (mem_load b 0 (byteCount t) m) (\<lambda>bs. Inr (file @ bs))))"

text \<open>The bytes of the file, when it can be opened and written.\<close>

definition saveKVCache :: "('p, 'a) llm_scheme \<Rightarrow> u8 list res" where
  "saveKVCache st =
     rbind (buildKVInputNames st) (\<lambda>names.
     rbind (kv_file_tensors names st) (\<lambda>ts.
       rfor (save_tensor (m_mem st)) ts
         (size_bytes (l_n_past st) @ size_bytes (l_active_cl st) @ size_bytes (length (l_history st))
          @ le_array 4 (map (word_of_int :: int \<Rightarrow> u32) (l_history st)))))"

text \<open>
  Reading from the stream: after a short read the destination keeps its old bytes past
  what was there, and the stream has failed and delivers nothing more.
\<close>

definition stream_read :: "u8 list \<Rightarrow> u8 list option \<Rightarrow> u8 list \<times> u8 list option" where
  "stream_read old s =
     (case s of None \<Rightarrow> (old, None)
      | Some bs \<Rightarrow> if length old \<le> length bs then (take (length old) bs, Some (drop (length old) bs))
                   else (bs @ drop (length bs) old, None))"

definition read_size :: "nat \<Rightarrow> u8 list option \<Rightarrow> nat \<times> u8 list option" where
  "read_size old s = (case stream_read (size_bytes old) s of (bs, s) \<Rightarrow> (unat (of_le bs :: 64 word), s))"

definition load_tensor :: "graph \<times> tensor_spec \<Rightarrow> u8 list option \<times> mem \<Rightarrow> (u8 list option \<times> mem) res" where
  "load_tensor = (\<lambda>(g, t) (s, m).
     case stream_read (replicate (byteCount t) 0) s of
       (bs, s) \<Rightarrow> rbind (write_bytes g (ts_name t) bs m) (\<lambda>m. Inr (s, m)))"

definition loadKVCache :: "u8 list \<Rightarrow> (('p, 'a) llm_scheme, unit) sx" where
  "loadKVCache file = swith (\<lambda>st.
     let (n_past, s) = read_size (l_n_past st) (Some file);
         (cl, s) = read_size (l_active_cl st) s;
         (hist_len, s) = read_size 0 s;
         (hs, s) = stream_read (replicate (hist_len * 4) 0) s;
         hist = map (sint :: u32 \<Rightarrow> int) (of_le_array 4 hist_len hs)
     in sthen (smod (\<lambda>st. st\<lparr> l_n_past := n_past, l_active_cl := cl, l_history := hist \<rparr>))
       (sbind (slift (buildKVInputNames st)) (\<lambda>names.
        sbind (slift (kv_file_tensors names st)) (\<lambda>ts.
        sbind (slift (rfor load_tensor ts (s, m_mem st))) (\<lambda>(s, m).
          sthen (smod (\<lambda>st. st\<lparr> m_mem := m \<rparr>))
            (swhen (s = None) (sthrow (RuntimeError ''loadKVCacheFromFile: read error''))))))))"

section \<open>What each operation may change\<close>

text \<open>Executing and moving the cache touch the memory only; promotion also the active index.\<close>

definition forget_mem :: "('p, 'a) llm_scheme \<Rightarrow> ('p, 'a) llm_scheme" where
  "forget_mem st = st\<lparr> m_mem := \<lambda>_. [] \<rparr>"

definition forget_cl :: "('p, 'a) llm_scheme \<Rightarrow> ('p, 'a) llm_scheme" where
  "forget_cl st = st\<lparr> m_mem := \<lambda>_. [], l_active_cl := 0 \<rparr>"

definition mem_only :: "('p, 'a) llm_scheme \<Rightarrow> ('p, 'a) llm_scheme \<Rightarrow> bool" where
  "mem_only st st' \<longleftrightarrow> forget_mem st' = forget_mem st"

definition mem_and_cl :: "('p, 'a) llm_scheme \<Rightarrow> ('p, 'a) llm_scheme \<Rightarrow> bool" where
  "mem_and_cl st st' \<longleftrightarrow> forget_cl st' = forget_cl st"

lemma mem_only_preorder [steps]: "preorder mem_only"
  by (simp add: preorder_def mem_only_def)

lemma mem_and_cl_preorder [steps]: "preorder mem_and_cl"
  by (simp add: preorder_def mem_and_cl_def)

lemma forget_cl_mem: "forget_cl st = (forget_mem st)\<lparr> l_active_cl := 0 \<rparr>"
  by (simp add: forget_cl_def forget_mem_def)

lemma mem_only_and_cl: "mem_only st st' \<Longrightarrow> mem_and_cl st st'"
  by (simp add: mem_only_def mem_and_cl_def forget_cl_mem)

lemma mem_and_cl_fields:
  assumes "mem_and_cl st st'"
  shows "m_graphs st' = m_graphs st" "l_spec st' = l_spec st" "l_providers st' = l_providers st"
    "l_shard_count st' = l_shard_count st" "l_num_cl st' = l_num_cl st" "l_kv_block st' = l_kv_block st"
    "l_prefill_conns st' = l_prefill_conns st" "l_decode_conns st' = l_decode_conns st"
    "l_n_past st' = l_n_past st" "l_history st' = l_history st" "l_sampler st' = l_sampler st"
    "l_sampler_cfg st' = l_sampler_cfg st" "l_sampler_cfg_valid st' = l_sampler_cfg_valid st"
    "l_pool st' = l_pool st" "l_clock_threads st' = l_clock_threads st"
  using assms by (cases st, cases st', simp add: mem_and_cl_def forget_cl_def)+

lemma mem_only_fields: "mem_only st st' \<Longrightarrow> l_active_cl st' = l_active_cl st"
  by (cases st, cases st', simp add: mem_only_def forget_mem_def)

lemma smem_mem_only: "steps_in mem_only (smem f)"
  unfolding smem_def by (intro steps) (auto simp: mem_only_def forget_mem_def)

lemma execute_mem_only: "steps_in mem_only (execute env g)"
  by (auto simp: steps_in_def execute_def mem_only_def forget_mem_def split: prod.splits)

lemmas mem_steps = smem_mem_only execute_mem_only

lemma runShard_mem_only: "steps_in mem_only (runShard env shard phase cl ctx)"
  unfolding runShard_def Let_def by (intro steps mem_steps)

lemma updateKV_mem_only: "steps_in mem_only (updateKV s phase dst_off n)"
  unfolding updateKV_def Let_def by (intro steps mem_steps)

lemma reshapeKV_mem_only: "steps_in mem_only (reshapeKV s old_kv new_kv n)"
  unfolding reshapeKV_def Let_def by (intro steps mem_steps)

lemma reshape_all_mem_only: "steps_in mem_only (reshape_all old_kv new_kv n)"
  unfolding reshape_all_def by (intro steps reshapeKV_mem_only)

lemma connect_mem_only: "steps_in mem_only (connect d cl s)"
  unfolding connect_def by (intro steps mem_steps)

lemma prefill_shard_mem_only: "steps_in mem_only (prefill_shard env final ctx s)"
  unfolding prefill_shard_def by (intro steps runShard_mem_only updateKV_mem_only connect_mem_only)

lemma restride_phase_mem_only: "steps_in mem_only (restride_phase a b n)"
  unfolding restride_phase_def by (intro steps reshape_all_mem_only)

lemma mem_and_cl_steps: "steps_in mem_only m \<Longrightarrow> steps_in mem_and_cl m"
  by (erule steps_in_mono) (rule mem_only_and_cl)

lemma promoteCL_mem_and_cl: "steps_in mem_and_cl (promoteCL r c s)"
  unfolding promoteCL_def Let_def
  by (intro steps mem_and_cl_steps [OF reshape_all_mem_only]) (auto simp: mem_and_cl_def forget_cl_def)

section \<open>The token history follows the cache\<close>

definition static :: "('p, 'a) llm_scheme \<Rightarrow> _" where
  "static st = (m_graphs st, l_spec st, l_providers st, l_shard_count st, l_num_cl st, l_kv_block st,
     l_prefill_conns st, l_decode_conns st, l_clock_threads st)"

definition hist_inv :: "('p, 'a) llm_scheme \<Rightarrow> bool" where
  "hist_inv st \<longleftrightarrow> length (l_history st) = l_n_past st"

text \<open>What every operation of the running model keeps, also when it throws.\<close>

definition runs_ok :: "('p, 'a) llm_scheme \<Rightarrow> ('p, 'a) llm_scheme \<Rightarrow> bool" where
  "runs_ok st st' \<longleftrightarrow> static st' = static st \<and> (hist_inv st \<longrightarrow> hist_inv st')"

lemma runs_ok_preorder [steps]: "preorder runs_ok"
  by (simp add: preorder_def runs_ok_def)

lemma mem_and_cl_static: "mem_and_cl st st' \<Longrightarrow> static st' = static st"
  by (simp add: static_def mem_and_cl_fields)

lemma mem_and_cl_runs_ok: "mem_and_cl st st' \<Longrightarrow> runs_ok st st'"
  by (simp add: runs_ok_def mem_and_cl_static hist_inv_def mem_and_cl_fields)

lemma runs_ok_cl: "steps_in mem_and_cl m \<Longrightarrow> steps_in runs_ok m"
  by (erule steps_in_mono) (rule mem_and_cl_runs_ok)

lemmas runs_ok_mem = runs_ok_cl [OF mem_and_cl_steps]

lemma prefill_chunk_runs_ok: "steps_in runs_ok (prefill_chunk env final chunk)"
  unfolding prefill_chunk_def Let_def
  by (intro steps runs_ok_cl [OF promoteCL_mem_and_cl] runs_ok_mem [OF prefill_shard_mem_only])
    (simp add: runs_ok_def static_def hist_inv_def)

lemma prefill_loop_runs_ok: "steps_in runs_ok (prefill_loop env fuel ts k)"
proof (induction fuel arbitrary: ts k)
  case 0
  show ?case by (cases ts) (simp_all add: steps)
next
  case (Suc fuel)
  show ?case
  proof (cases ts)
    case Nil
    then show ?thesis by (simp add: steps)
  next
    case (Cons t us)
    show ?thesis unfolding Cons prefill_loop.simps Let_def by (intro steps prefill_chunk_runs_ok Suc)
  qed
qed

lemma prefillChunks_runs_ok: "steps_in runs_ok (prefillChunks env ts)"
  unfolding prefillChunks_def by (rule prefill_loop_runs_ok)

lemma slideWindowEvict_runs_ok: "steps_in runs_ok (slideWindowEvict env d k b)"
  unfolding slideWindowEvict_def Let_def
  by (intro steps runs_ok_mem [OF restride_phase_mem_only] prefillChunks_runs_ok)
    (auto simp: runs_ok_def static_def hist_inv_def vec_resize_def)

lemma try_slide_runs_ok: "steps_in runs_ok (try_slide env cfg max_cl n_keep n b)"
  unfolding try_slide_def Let_def by (intro steps slideWindowEvict_runs_ok)

lemma sampleNextToken_runs_ok: "steps_in runs_ok (sampleNextToken env phase off)"
  unfolding sampleNextToken_def Let_def
  by (intro steps) (simp add: runs_ok_def static_def hist_inv_def)

lemma llm_wait_runs_ok: "steps_in runs_ok llm_wait"
  by (auto simp: steps_in_def llm_wait_def runs_ok_def static_def hist_inv_def split: option.splits if_splits)

lemma llm_enqueue_runs_ok:
  assumes "steps_in runs_ok job" shows "steps_in runs_ok (llm_enqueue job)"
  unfolding steps_in_def
proof (intro allI impI)
  fix st r st' assume e: "llm_enqueue job st = (r, st')"
  obtain r1 st1 where j: "job st = (r1, st1)" by fastforce
  with assms have ok: "runs_ok st st1" by (simp add: steps_in_def)
  have upd: "runs_ok st (st1\<lparr> l_pool := p \<rparr>)" "runs_ok st (st\<lparr> l_pool := p \<rparr>)" for p
    using ok by (simp_all add: runs_ok_def static_def hist_inv_def)
  show "runs_ok st st'"
    using e j ok upd by (auto simp: llm_enqueue_def split: option.splits sum.splits if_splits)
qed

lemma decode_shard_runs_ok: "steps_in runs_ok (decode_shard env ctx s)"
  unfolding decode_shard_def
  by (intro steps llm_enqueue_runs_ok runs_ok_mem [OF runShard_mem_only] runs_ok_mem [OF updateKV_mem_only]
      runs_ok_mem [OF connect_mem_only])

lemma decode_make_room_runs_ok: "steps_in runs_ok (decode_make_room env cfg max_cl n_keep)"
  unfolding decode_make_room_def by (intro steps try_slide_runs_ok)

lemma decode_step_runs_ok: "steps_in runs_ok (decode_step env cfg max_cl n_keep tok)"
  unfolding decode_step_def Let_def
  by (intro steps llm_wait_runs_ok decode_make_room_runs_ok runs_ok_cl [OF promoteCL_mem_and_cl]
      decode_shard_runs_ok sampleNextToken_runs_ok)
    (simp add: runs_ok_def static_def hist_inv_def)

lemma decode_loop_runs_ok: "steps_in runs_ok (decode_loop env cfg cb max_cl n_keep steps tok out)"
proof (induction steps arbitrary: tok out)
  case 0
  show ?case by (simp add: steps)
next
  case (Suc n)
  show ?case unfolding decode_loop.simps Let_def by (intro steps decode_step_runs_ok Suc)
qed

lemma set_keeper_runs_ok: "runs_ok st (set_keeper n st)"
  by (simp add: set_keeper_def runs_ok_def static_def hist_inv_def)

lemma decode_finish_runs_ok: "steps_in runs_ok decode_finish"
  unfolding decode_finish_def
  by (intro steps llm_wait_runs_ok runs_ok_cl [OF promoteCL_mem_and_cl] runs_ok_mem [OF restride_phase_mem_only]
      set_keeper_runs_ok)

lemma prepareSampler_runs_ok: "runs_ok st (prepareSampler env cfg prompt st)"
  by (simp add: prepareSampler_def Let_def runs_ok_def static_def hist_inv_def)

lemma gen_admit_runs_ok: "steps_in runs_ok (gen_admit env cfg max_cl n_keep n)"
  unfolding gen_admit_def by (intro steps try_slide_runs_ok)

lemma generate_runs_ok: "steps_in runs_ok (generate env cfg cb prompt)"
  unfolding generate_def Let_def
  by (intro steps prepareSampler_runs_ok gen_admit_runs_ok prefillChunks_runs_ok
      runs_ok_mem [OF restride_phase_mem_only] sampleNextToken_runs_ok decode_loop_runs_ok decode_finish_runs_ok)
    (auto simp: gen_start_keeper_def runs_ok_preorder [unfolded preorder_def] intro: set_keeper_runs_ok)

section \<open>Context lengths and discards\<close>

text \<open>Promotion stops at the first length that suffices, or at the last one.\<close>

lemma promote_target_spec:
  assumes "cl < num_cl"
  shows "cl \<le> promote_target cls num_cl required reserved cl"
    and "promote_target cls num_cl required reserved cl < num_cl"
    and "\<forall>i. cl \<le> i \<and> i < promote_target cls num_cl required reserved cl \<longrightarrow> szsub (cls ! i) reserved < required"
    and "promote_target cls num_cl required reserved cl + 1 = num_cl
         \<or> required \<le> szsub (cls ! promote_target cls num_cl required reserved cl) reserved"
proof -
  let ?t = "promote_target cls num_cl required reserved"
  have "cl < num_cl \<longrightarrow> cl \<le> ?t cl \<and> ?t cl < num_cl
      \<and> (\<forall>i. cl \<le> i \<and> i < ?t cl \<longrightarrow> szsub (cls ! i) reserved < required)
      \<and> (?t cl + 1 = num_cl \<or> required \<le> szsub (cls ! ?t cl) reserved)"
  proof (induction cls num_cl required reserved cl rule: promote_target.induct)
    case (1 cls num_cl required reserved cl)
    show ?case
    proof (cases "cl + 1 < num_cl \<and> szsub (cls ! cl) reserved < required")
      case True
      then have e: "promote_target cls num_cl required reserved cl
          = promote_target cls num_cl required reserved (cl + 1)"
        by (subst promote_target.simps) simp
      from 1 [OF True] True show ?thesis unfolding e
        by (metis Suc_eq_plus1 Suc_leD Suc_le_eq le_neq_implies_less)
    next
      case False
      then have e: "promote_target cls num_cl required reserved cl = cl"
        using False by (subst promote_target.simps) auto
      from False show ?thesis unfolding e by auto
    qed
  qed
  with assms show "cl \<le> ?t cl" "?t cl < num_cl"
    "\<forall>i. cl \<le> i \<and> i < ?t cl \<longrightarrow> szsub (cls ! i) reserved < required"
    "?t cl + 1 = num_cl \<or> required \<le> szsub (cls ! ?t cl) reserved"
    by blast+
qed

lemma computeSlideDiscard_le:
  "computeSlideDiscard n_past n_fit max_cl n_keep \<le> n_past - n_keep"
  by (auto simp: computeSlideDiscard_def Let_def)

text \<open>If the prefix and the new tokens fit at all, the discard makes the room.\<close>

lemma computeSlideDiscard_fits:
  assumes "n_keep + n_fit < max_cl"
  shows "(n_past - computeSlideDiscard n_past n_fit max_cl n_keep) + n_fit < max_cl"
proof (cases "n_past \<le> n_keep")
  case True
  with assms show ?thesis by (simp add: computeSlideDiscard_def)
next
  case False
  then show ?thesis using assms
    by (auto simp: computeSlideDiscard_def Let_def max_def min_def)
qed

lemma computeSlideDiscard_half:
  assumes "n_keep < n_past"
  shows "n_past div 2 - n_keep \<le> computeSlideDiscard n_past n_fit max_cl n_keep"
  using assms by (auto simp: computeSlideDiscard_def Let_def max_def min_def)

section \<open>Prefill\<close>

lemma mem_and_cl_n_hist:
  "steps_in mem_and_cl m \<Longrightarrow> m st = (r, st') \<Longrightarrow> l_n_past st' = l_n_past st \<and> l_history st' = l_history st
     \<and> l_spec st' = l_spec st \<and> l_shard_count st' = l_shard_count st"
  by (auto dest!: steps_inD simp: mem_and_cl_fields)

lemma prefill_chunk_Inr:
  assumes "prefill_chunk env final chunk st = (Inr u, st')"
  shows "l_n_past st' = l_n_past st + length chunk \<and> l_history st' = l_history st @ chunk"
proof -
  let ?pre = "sp_seq_len_prefill (l_spec st)"
  from assms obtain b st1 v st2 where 1: "promoteCL (l_n_past st + length chunk) ?pre ?pre st = (Inr b, st1)"
    and 2: "sfor (prefill_shard env final \<lparr> rc_token_ids = chunk, rc_n_past = l_n_past st1,
                 rc_curr_len = length chunk, rc_phase = 0 \<rparr>) [0..<l_shard_count st1] st1 = (Inr v, st2)"
    and 3: "st' = st2\<lparr> l_history := l_history st2 @ chunk, l_n_past := l_n_past st2 + length chunk \<rparr>"
    unfolding prefill_chunk_def Let_def by (auto simp: sx_simps elim!: sthen_InrE)
  have "steps_in mem_and_cl (sfor (prefill_shard env final \<lparr> rc_token_ids = chunk, rc_n_past = l_n_past st1,
                 rc_curr_len = length chunk, rc_phase = 0 \<rparr>) [0..<l_shard_count st1])"
    by (intro steps mem_and_cl_steps [OF prefill_shard_mem_only])
  from mem_and_cl_n_hist [OF promoteCL_mem_and_cl 1] mem_and_cl_n_hist [OF this 2] 3 show ?thesis by simp
qed

lemma prefill_loop_Inr:
  "prefill_loop env fuel ts k st = (Inr n, st') \<Longrightarrow>
   l_n_past st' = l_n_past st + length ts \<and> l_history st' = l_history st @ ts"
proof (induction fuel arbitrary: ts k st)
  case 0
  then show ?case by (cases ts) (auto simp: sx_simps)
next
  case (Suc fuel)
  show ?case
  proof (cases ts)
    case Nil
    with Suc.prems show ?thesis by (simp add: sx_simps)
  next
    case (Cons t us)
    let ?n = "min (length ts) (sp_seq_len_prefill (l_spec st))"
    from Suc.prems obtain u st1 where
      1: "prefill_chunk env (length ts \<le> ?n) (take ?n ts) st = (Inr u, st1)"
      and 2: "prefill_loop env fuel (drop ?n ts) ?n st1 = (Inr n, st')"
      by (auto simp: Cons Let_def sx_simps elim!: sthen_InrE)
    from prefill_chunk_Inr [OF 1] Suc.IH [OF 2] show ?thesis by simp
  qed
qed

text \<open>The result is the size of the last chunk, which is never empty.\<close>

lemma prefill_loop_size:
  assumes "prefill_loop env fuel ts k st = (Inr n, st')" "0 < sp_seq_len_prefill (l_spec st)" "ts \<noteq> []"
  shows "n = (length ts - 1) mod sp_seq_len_prefill (l_spec st) + 1"
  using assms
proof (induction fuel arbitrary: ts k st)
  case 0
  then show ?case by (cases ts) (auto simp: sx_simps)
next
  case (Suc fuel)
  then obtain t us where ts: "ts = t # us" by (cases ts) auto
  let ?pre = "sp_seq_len_prefill (l_spec st)"
  let ?n = "min (length ts) ?pre"
  from Suc.prems(1) obtain u st1 where
    1: "prefill_chunk env (length ts \<le> ?n) (take ?n ts) st = (Inr u, st1)"
    and 2: "prefill_loop env fuel (drop ?n ts) ?n st1 = (Inr n, st')"
    by (auto simp: ts Let_def sx_simps elim!: sthen_InrE)
  have sp: "l_spec st1 = l_spec st"
    using steps_inD [OF prefill_chunk_runs_ok 1] by (simp add: runs_ok_def static_def)
  show ?case
  proof (cases "length ts \<le> ?pre")
    case True
    with 2 have "n = length ts" by (cases fuel) (auto simp: sx_simps)
    with True Suc.prems(2,3) show ?thesis by (cases ts) auto
  next
    case False
    then have "drop ?n ts \<noteq> []" by simp
    from Suc.IH [OF 2 _ this] sp Suc.prems(2) have "n = (length ts - ?pre - 1) mod ?pre + 1"
      using False by (simp add: min_absorb2)
    moreover have "(length ts - 1) mod ?pre = (length ts - ?pre - 1) mod ?pre"
      using False Suc.prems(2) le_mod_geq [of ?pre "length ts - 1"] by simp
    ultimately show ?thesis by simp
  qed
qed

text \<open>The loop ends: any fuel from the number of tokens on gives the same run.\<close>

lemma prefill_loop_fuel:
  assumes "length ts \<le> fuel" "0 < sp_seq_len_prefill (l_spec st)"
  shows "prefill_loop env fuel ts k st = prefill_loop env (length ts) ts k (st :: ('a, 'b) llm_scheme)"
  using assms
proof (induction "length ts" arbitrary: ts k st fuel rule: less_induct)
  case less
  show ?case
  proof (cases ts)
    case Nil
    then show ?thesis by (cases fuel) simp_all
  next
    case (Cons t us)
    let ?pre = "sp_seq_len_prefill (l_spec st)"
    let ?n = "min (length ts) ?pre"
    obtain fuel' where fuel: "fuel = Suc fuel'" using less.prems(1) Cons by (cases fuel) auto
    have "prefill_loop env fuel' (drop ?n ts) ?n st1 = prefill_loop env (length us) (drop ?n ts) ?n st1"
      if "l_spec st1 = l_spec st" for st1 :: "('a, 'b) llm_scheme"
    proof -
      have d: "length (drop ?n ts) < length ts" "length (drop ?n ts) \<le> fuel'" "length (drop ?n ts) \<le> length us"
        using less.prems Cons fuel by auto
      show ?thesis
        using less.hyps [OF d(1) d(2), of st1 ?n] less.hyps [OF d(1) d(3), of st1 ?n] that less.prems(2) by simp
    qed
    moreover have "prefill_chunk env b c st = (Inr u, st1) \<Longrightarrow> l_spec st1 = l_spec st" for b c u st1
      by (drule steps_inD [OF prefill_chunk_runs_ok]) (simp add: runs_ok_def static_def)
    ultimately show ?thesis
      by (auto simp: fuel Cons Let_def sx_simps sthen_run split: prod.splits sum.splits)
  qed
qed

lemma prefillChunks_Inr:
  "prefillChunks env ts st = (Inr n, st') \<Longrightarrow>
   l_n_past st' = l_n_past st + length ts \<and> l_history st' = l_history st @ ts"
  unfolding prefillChunks_def by (rule prefill_loop_Inr)

section \<open>Properties of promotion, sliding and chunking\<close>

theorem promote_target_smallest:
  assumes "cl < num_cl"
  shows "let p = promote_target cls num_cl required reserved cl in
     cl \<le> p \<and> p < num_cl \<and> (\<forall>i. cl \<le> i \<and> i < p \<longrightarrow> szsub (cls ! i) reserved < required)
     \<and> (p + 1 = num_cl \<or> required \<le> szsub (cls ! p) reserved)"
  using promote_target_spec [OF assms] by (simp add: Let_def)

lemma promote_target_smallest_witness:
  "let p = promote_target [512, 1024, 4096] 3 900 128 0 in p < 3 \<and> (p + 1 = 3 \<or> 900 \<le> szsub ([512, 1024, 4096] ! p) 128)"
  using promote_target_smallest [of 0 3 "[512, 1024, 4096]" 900 128] by (simp add: Let_def)

theorem slide_makes_room:
  assumes "n_keep + n_fit < max_cl"
  shows "let d = computeSlideDiscard n_past n_fit max_cl n_keep in
     d \<le> n_past - n_keep \<and> (n_past - d) + n_fit < max_cl \<and> (n_keep < n_past \<longrightarrow> n_past div 2 - n_keep \<le> d)"
  using computeSlideDiscard_le computeSlideDiscard_fits [OF assms] computeSlideDiscard_half by (simp add: Let_def)

lemma slide_makes_room_witness: "100 - computeSlideDiscard 100 30 120 4 < 90"
  using slide_makes_room [of 4 30 120 100] by (simp add: Let_def)

end
