(* ===== verification/LLMGenerate.thy ===== *)
theory LLMGenerate
  imports LLMRun
begin

text \<open>
  What a call of \<open>LLMModel::generate\<close> does: the tokens it returns, the history and the
  cache position it leaves, the prompts it refuses, and the pool configuration it never
  returns from; and what the cache operations of \<open>LLMRun\<close> do to the cells of the cache.
\<close>

section \<open>Decode\<close>

text \<open>Everything but the counters: what pool jobs, sampling and cache moves leave alone.\<close>

definition counters_same :: "('p, 'a) llm_scheme \<Rightarrow> ('p, 'a) llm_scheme \<Rightarrow> bool" where
  "counters_same st st' \<longleftrightarrow> l_n_past st' = l_n_past st \<and> l_history st' = l_history st \<and> static st' = static st"

lemma counters_preorder [steps]: "preorder counters_same"
  by (simp add: preorder_def counters_same_def)

lemma counters_cl: "steps_in mem_and_cl m \<Longrightarrow> steps_in counters_same m"
  by (erule steps_in_mono) (simp add: counters_same_def mem_and_cl_fields mem_and_cl_static)

lemmas counters_mem = counters_cl [OF mem_and_cl_steps]

lemma counters_enqueue:
  assumes "steps_in counters_same job" shows "steps_in counters_same (llm_enqueue job)"
  unfolding steps_in_def
proof (intro allI impI)
  fix st r st' assume e: "llm_enqueue job st = (r, st')"
  obtain r1 st1 where j: "job st = (r1, st1)" by fastforce
  with assms have ok: "counters_same st st1" by (simp add: steps_in_def)
  have upd: "counters_same st (st1\<lparr> l_pool := p \<rparr>)" "counters_same st (st\<lparr> l_pool := p \<rparr>)" for p
    using ok by (simp_all add: counters_same_def static_def)
  show "counters_same st st'"
    using e j ok upd by (auto simp: llm_enqueue_def split: option.splits sum.splits if_splits)
qed

lemma decode_shard_counters: "steps_in counters_same (decode_shard env ctx s)"
  unfolding decode_shard_def
  by (intro steps counters_enqueue counters_mem [OF runShard_mem_only] counters_mem [OF updateKV_mem_only]
      counters_mem [OF connect_mem_only])

lemma sampleNextToken_counters: "steps_in counters_same (sampleNextToken env phase off)"
  unfolding sampleNextToken_def Let_def by (intro steps) (simp add: counters_same_def static_def)

lemma llm_wait_counters: "steps_in counters_same llm_wait"
  by (auto simp: steps_in_def llm_wait_def counters_same_def static_def split: option.splits if_splits)

lemma decode_finish_counters: "steps_in counters_same decode_finish"
  unfolding decode_finish_def
  by (intro steps llm_wait_counters counters_cl [OF promoteCL_mem_and_cl] counters_mem [OF restride_phase_mem_only])
    (simp add: counters_same_def static_def set_keeper_def)

lemma no_slide: "\<not> gc_sliding_window cfg \<Longrightarrow> try_slide env cfg max_cl n_keep n b st = (Inr False, st)"
  by (simp add: try_slide_def Let_def sx_simps)

lemma decode_make_room_no_slide:
  "\<not> gc_sliding_window cfg \<Longrightarrow> decode_make_room env cfg max_cl n_keep st =
     (if max_cl < l_n_past st + 1 then (Inl ContextLengthExceeded, st) else (Inr (), st))"
  by (simp add: decode_make_room_def sx_simps swhen_run sbind_run no_slide)

text \<open>A token fed to the model: once the queued cache writes are done and there is room, every shard
  in order sees it at the position of the history's end, and the next token is sampled from what
  they compute.\<close>

definition fed_token :: "'p env \<Rightarrow> int \<Rightarrow> ('p, 'a) llm_scheme \<Rightarrow> int \<Rightarrow> ('p, 'a) llm_scheme \<Rightarrow> bool" where
  "fed_token env t st nxt st' \<longleftrightarrow>
     (\<exists>st1 b st2 st3. llm_wait st = (Inr (), st1)
        \<and> promoteCL (l_n_past st + 1) (sp_seq_len_decode (l_spec st)) (sp_seq_len_decode (l_spec st)) st1 = (Inr b, st2)
        \<and> sfor (decode_shard env \<lparr> rc_token_ids = [t], rc_n_past = l_n_past st, rc_curr_len = 1, rc_phase = 1 \<rparr>)
             [0..<l_shard_count st] st2 = (Inr (), st3)
        \<and> sampleNextToken env 1 0 (st3\<lparr> l_n_past := l_n_past st + 1, l_history := l_history st @ [t] \<rparr>) = (Inr nxt, st'))"

text \<open>Tokens fed one after the other: each is the one sampled after the one before.\<close>

inductive fed_tokens :: "'p env \<Rightarrow> ('p, 'a) llm_scheme \<Rightarrow> int \<Rightarrow> int list \<Rightarrow> ('p, 'a) llm_scheme \<Rightarrow> int \<Rightarrow> bool"
  for env where
  none: "fed_tokens env st t [] st t"
| one: "fed_token env t st t1 st1 \<Longrightarrow> fed_tokens env st1 t1 ts st' t' \<Longrightarrow> fed_tokens env st t (t # ts) st' t'"

lemma decode_step_fed:
  assumes "decode_step env cfg max_cl n_keep tok st = (Inr t, st')" "\<not> gc_sliding_window cfg"
  shows "fed_token env tok st t st' \<and> l_n_past st + 1 \<le> max_cl"
proof -
  from assms obtain st1 u3 st3 st4 where
    1: "llm_wait st = (Inr (), st1)" and room: "\<not> max_cl < l_n_past st1 + 1"
    and 3: "promoteCL (l_n_past st1 + 1) (sp_seq_len_decode (l_spec st1)) (sp_seq_len_decode (l_spec st1)) st1
            = (Inr u3, st3)"
    and 4: "sfor (decode_shard env \<lparr> rc_token_ids = [tok], rc_n_past = l_n_past st3, rc_curr_len = 1,
              rc_phase = 1 \<rparr>) [0..<l_shard_count st3] st3 = (Inr (), st4)"
    and 5: "sampleNextToken env 1 0 (st4\<lparr> l_n_past := l_n_past st4 + 1, l_history := l_history st4 @ [tok] \<rparr>)
            = (Inr t, st')"
    unfolding decode_step_def Let_def
    by (auto simp: sx_simps decode_make_room_no_slide split: if_splits elim!: sthen_InrE)
  have sf: "steps_in counters_same (sfor (decode_shard env \<lparr> rc_token_ids = [tok], rc_n_past = l_n_past st3,
      rc_curr_len = 1, rc_phase = 1 \<rparr>) [0..<l_shard_count st3])"
    by (intro steps decode_shard_counters)
  note c = steps_inD [OF llm_wait_counters 1] steps_inD [OF counters_cl [OF promoteCL_mem_and_cl] 3]
    steps_inD [OF sf 4]
  have e: "l_n_past st1 = l_n_past st" "l_spec st1 = l_spec st" "l_n_past st3 = l_n_past st" "l_shard_count st3 = l_shard_count st"
    "l_n_past st4 = l_n_past st" "l_history st4 = l_history st"
    using c by (simp_all add: counters_same_def static_def)
  show ?thesis
    unfolding fed_token_def using 1 3 4 5 room unfolding e by auto
qed

lemma fed_token_same:
  assumes "fed_token env t st nxt st'"
  shows "l_n_past st' = l_n_past st + 1" "l_history st' = l_history st @ [t]" "static st' = static st"
proof -
  from assms obtain st1 b st2 st3 where
    1: "llm_wait st = (Inr (), st1)"
    and 2: "promoteCL (l_n_past st + 1) (sp_seq_len_decode (l_spec st)) (sp_seq_len_decode (l_spec st)) st1 = (Inr b, st2)"
    and 3: "sfor (decode_shard env \<lparr> rc_token_ids = [t], rc_n_past = l_n_past st, rc_curr_len = 1, rc_phase = 1 \<rparr>)
             [0..<l_shard_count st] st2 = (Inr (), st3)"
    and 4: "sampleNextToken env 1 0 (st3\<lparr> l_n_past := l_n_past st + 1, l_history := l_history st @ [t] \<rparr>) = (Inr nxt, st')"
    unfolding fed_token_def by blast
  have sf: "steps_in counters_same (sfor (decode_shard env \<lparr> rc_token_ids = [t], rc_n_past = l_n_past st,
      rc_curr_len = 1, rc_phase = 1 \<rparr>) [0..<l_shard_count st])"
    by (intro steps decode_shard_counters)
  note c = steps_inD [OF llm_wait_counters 1] steps_inD [OF counters_cl [OF promoteCL_mem_and_cl] 2]
    steps_inD [OF sf 3] steps_inD [OF sampleNextToken_counters 4]
  show "l_n_past st' = l_n_past st + 1" "l_history st' = l_history st @ [t]" "static st' = static st"
    using c by (simp_all add: counters_same_def static_def)
qed

lemma decode_step_Inr:
  assumes "decode_step env cfg max_cl n_keep tok st = (Inr t, st')" "\<not> gc_sliding_window cfg"
  shows "l_n_past st' = l_n_past st + 1" "l_history st' = l_history st @ [tok]" "static st' = static st"
    "l_n_past st + 1 \<le> max_cl"
  using decode_step_fed [OF assms] fed_token_same by blast+

lemma static_spec: "static st' = static st \<Longrightarrow> l_spec st' = l_spec st \<and> l_shard_count st' = l_shard_count st"
  by (simp add: static_def)

lemma fed_tokens_same:
  "fed_tokens env st t fed st' nxt \<Longrightarrow>
   l_n_past st' = l_n_past st + length fed \<and> l_history st' = l_history st @ fed \<and> static st' = static st"
proof (induction rule: fed_tokens.induct)
  case (one t st t1 st1 ts st' t')
  with fed_token_same [OF one.hyps(1)] show ?case by simp
qed simp

text \<open>Why a loop over \<open>steps\<close> tokens stopped after feeding some, with \<open>nxt\<close> at hand, and what it
  returns: the steps are used up, or \<open>nxt\<close> is an end token, or the callback has refused it.\<close>

definition stopped :: "(int list \<Rightarrow> bool) \<Rightarrow> int set \<Rightarrow> nat \<Rightarrow> int list \<Rightarrow> int list \<Rightarrow> int \<Rightarrow> int list \<Rightarrow> bool" where
  "stopped cb eos steps out fed nxt out' \<longleftrightarrow>
     set fed \<inter> eos = {} \<and> (\<forall>k. 0 < k \<and> k \<le> length fed \<longrightarrow> cb (out @ take k fed))
     \<and> (if length fed = steps then out' = out @ fed
        else length fed < steps \<and>
          (if nxt \<in> eos then out' = out @ fed else out' = out @ fed @ [nxt] \<and> \<not> cb out'))"

lemma stopped_cons:
  assumes "stopped cb eos n (out @ [t]) fed nxt out'" "t \<notin> eos" "cb (out @ [t])"
  shows "stopped cb eos (Suc n) out (t # fed) nxt out'"
proof -
  have "cb (out @ take k (t # fed))" if "0 < k \<and> k \<le> length (t # fed)" for k
    using that assms by (cases k; cases "k - 1") (auto simp: stopped_def)
  moreover have "out' = out @ t # fed" if "length fed = n \<or> nxt \<in> eos" using assms(1) that by (auto simp: stopped_def split: if_splits)
  moreover have "length fed < n" "nxt \<notin> eos \<Longrightarrow> out' = out @ t # fed @ [nxt] \<and> \<not> cb out'" if "length fed \<noteq> n"
    using assms(1) that by (auto simp: stopped_def split: if_splits)
  moreover have "set (t # fed) \<inter> eos = {}" using assms(1,2) by (simp add: stopped_def)
  ultimately show ?thesis unfolding stopped_def by auto
qed

lemma decode_loop_Inr:
  assumes "decode_loop env cfg cb max_cl n_keep steps tok out st = (Inr out', st')" "\<not> gc_sliding_window cfg"
  shows "\<exists>fed nxt. fed_tokens env st tok fed st' nxt
     \<and> stopped cb (set (sp_eos_token_ids (l_spec st))) steps out fed nxt out'
     \<and> (l_n_past st \<le> max_cl \<longrightarrow> l_n_past st' \<le> max_cl)"
  using assms(1)
proof (induction steps arbitrary: tok out st)
  case 0
  then have "fed_tokens env st tok [] st' tok" "stopped cb (set (sp_eos_token_ids (l_spec st))) 0 out [] tok out'"
    by (auto simp: sx_simps stopped_def intro: fed_tokens.none)
  with 0 show ?case by (fastforce simp: sx_simps)
next
  case (Suc n)
  let ?eos = "set (sp_eos_token_ids (l_spec st))"
  show ?case
  proof (cases "tok \<notin> ?eos \<and> cb (out @ [tok])")
    case False
    with Suc.prems have "st' = st" "stopped cb ?eos (Suc n) out [] tok out'"
      by (auto simp: sx_simps Let_def stopped_def split: if_splits)
    then show ?thesis using fed_tokens.none [of env st tok] by blast
  next
    case go: True
    with Suc.prems obtain t st1 where
      1: "decode_step env cfg max_cl n_keep tok st = (Inr t, st1)"
      and 2: "decode_loop env cfg cb max_cl n_keep n t (out @ [tok]) st1 = (Inr out', st')"
      by (auto simp: sx_simps Let_def elim!: sbind_InrE)
    note f = decode_step_fed [OF 1 assms(2)]
    from Suc.IH [OF 2] obtain fed nxt where
      "fed_tokens env st1 t fed st' nxt" and s: "stopped cb (set (sp_eos_token_ids (l_spec st1))) n (out @ [tok]) fed nxt out'"
      and le: "l_n_past st1 \<le> max_cl \<longrightarrow> l_n_past st' \<le> max_cl"
      by blast
    then have "fed_tokens env st tok (tok # fed) st' nxt" using f by (blast intro: fed_tokens.one)
    moreover have "l_spec st1 = l_spec st" "l_n_past st1 = l_n_past st + 1"
      using fed_token_same [of env tok st t st1] f by (simp_all add: static_def)
    ultimately show ?thesis using stopped_cons [of cb ?eos n out tok fed nxt out'] go s le f by auto
  qed
qed

text \<open>A prompt fed in chunks, the last of which also runs the shards that only the head needs.\<close>

inductive fed_chunks :: "'p env \<Rightarrow> ('p, 'a) llm_scheme \<Rightarrow> int list list \<Rightarrow> ('p, 'a) llm_scheme \<Rightarrow> bool"
  for env where
  none: "fed_chunks env st [] st"
| one: "prefill_chunk env (cs = []) c st = (Inr (), st1) \<Longrightarrow> fed_chunks env st1 cs st' \<Longrightarrow> fed_chunks env st (c # cs) st'"

lemma prefill_loop_zero:
  "prefill_loop env fuel ts k st = (Inr n, st') \<Longrightarrow> ts \<noteq> [] \<Longrightarrow> 0 < sp_seq_len_prefill (l_spec st)"
proof (induction fuel arbitrary: ts k st)
  case 0
  then show ?case by (cases ts) (auto simp: sx_simps)
next
  case (Suc fuel)
  show ?case
  proof (rule ccontr)
    assume z: "\<not> 0 < sp_seq_len_prefill (l_spec st)"
    with Suc.prems obtain st1 where
      1: "prefill_chunk env False [] st = (Inr (), st1)" and 2: "prefill_loop env fuel ts 0 st1 = (Inr n, st')"
      by (cases ts) (auto simp: Let_def sx_simps elim!: sthen_InrE)
    have "l_spec st1 = l_spec st" using steps_inD [OF prefill_chunk_runs_ok 1] by (simp add: runs_ok_def static_def)
    with Suc.IH [OF 2 Suc.prems(2)] z show False by simp
  qed
qed

lemma prefill_loop_chunks:
  "prefill_loop env fuel ts k st = (Inr n, st') \<Longrightarrow>
   \<exists>cs. concat cs = ts \<and> (\<forall>c \<in> set cs. c \<noteq> [] \<and> length c \<le> sp_seq_len_prefill (l_spec st))
     \<and> fed_chunks env st cs st' \<and> n = (if cs = [] then k else length (last cs))"
proof (induction fuel arbitrary: ts k st)
  case 0
  then show ?case using fed_chunks.none by (cases ts) (fastforce simp: sx_simps)+
next
  case (Suc fuel)
  show ?case
  proof (cases ts)
    case Nil
    with Suc.prems show ?thesis using fed_chunks.none by (fastforce simp: sx_simps)
  next
    case (Cons t us)
    let ?n = "min (length ts) (sp_seq_len_prefill (l_spec st))"
    from Suc.prems obtain st1 where
      1: "prefill_chunk env (length ts \<le> ?n) (take ?n ts) st = (Inr (), st1)"
      and 2: "prefill_loop env fuel (drop ?n ts) ?n st1 = (Inr n, st')"
      by (auto simp: Cons Let_def sx_simps elim!: sthen_InrE)
    from Suc.IH [OF 2] obtain cs where cs: "concat cs = drop ?n ts" "fed_chunks env st1 cs st'"
      "\<forall>c \<in> set cs. c \<noteq> [] \<and> length c \<le> sp_seq_len_prefill (l_spec st1)" "n = (if cs = [] then ?n else length (last cs))" by blast
    have sp: "l_spec st1 = l_spec st" using steps_inD [OF prefill_chunk_runs_ok 1] by (simp add: runs_ok_def static_def)
    have "cs = [] \<longleftrightarrow> concat cs = []" using cs(3) by (cases cs) auto
    then have e: "(cs = []) = (length ts \<le> ?n)" using cs(1) by simp
    have "fed_chunks env st (take ?n ts # cs) st'" using fed_chunks.one [OF 1 [folded e] cs(2)] .
    moreover have "take ?n ts \<noteq> []" using prefill_loop_zero [OF Suc.prems] Cons by simp
    ultimately show ?thesis using cs sp by (intro exI [of _ "take ?n ts # cs"]) auto
  qed
qed

section \<open>Generation\<close>

lemma prepareSampler_same:
  "l_n_past (prepareSampler env cfg p st) = l_n_past st"
  "l_history (prepareSampler env cfg p st) = l_history st"
  "static (prepareSampler env cfg p st) = static st"
  "m_mem (prepareSampler env cfg p st) = m_mem st"
  "l_pool (prepareSampler env cfg p st) = l_pool st"
  by (simp_all add: prepareSampler_def Let_def static_def)

lemma gen_admit_no_slide:
  "\<not> gc_sliding_window cfg \<Longrightarrow> gen_admit env cfg max_cl n_keep n st =
     (if max_cl < l_n_past st + n then (Inl ContextLengthExceeded, st) else (Inr (), st))"
  by (simp add: gen_admit_def sx_simps swhen_run sbind_run no_slide)

text \<open>A prompt that does not fit is refused before anything but the sampler has changed.\<close>

lemma generate_refuses:
  assumes "\<not> gc_sliding_window cfg" "sp_context_lengths (l_spec st) \<noteq> []"
    and "gen_max_cl st < l_n_past st + length prompt"
  shows "generate env cfg cb prompt st = (Inl ContextLengthExceeded, prepareSampler env cfg prompt st)"
proof -
  let ?st = "prepareSampler env cfg prompt st"
  have sp: "l_spec ?st = l_spec st" using prepareSampler_same(3) static_spec by blast
  have "sp_context_lengths (l_spec ?st) \<noteq> []" "gen_max_cl ?st < l_n_past ?st + length prompt"
    using assms(2,3) by (simp_all add: sp gen_max_cl_def prepareSampler_same)
  then show ?thesis
    by (simp add: generate_def Let_def sx_simps sthen_run gen_admit_no_slide [OF assms(1)])
qed

theorem generate_rejects:
  assumes "\<not> gc_sliding_window cfg" "sp_context_lengths (l_spec st) \<noteq> []"
    and "gen_max_cl st < l_n_past st + length prompt"
  shows "generate env cfg cb prompt st = (Inl ContextLengthExceeded, prepareSampler env cfg prompt st)"
  by (rule generate_refuses [OF assms])

lemma generate_Inr:
  assumes "generate env cfg cb prompt st = (Inr out, st')"
  obtains st1 n st2 st3 tok st4 st6 where
    "gen_admit env cfg (gen_max_cl st) (gen_n_keep cfg st) (length prompt) (prepareSampler env cfg prompt st) = (Inr (), st1)"
    "prefillChunks env prompt st1 = (Inr n, st2)"
    "restride_phase 0 1 (l_n_past st2) st2 = (Inr (), st3)"
    "sampleNextToken env 0 (szsub n 1) st3 = (Inr tok, st4)"
    "decode_loop env cfg cb (gen_max_cl st) (gen_n_keep cfg st) (nat (gc_max_tokens cfg)) tok [] (gen_start_keeper st4)
     = (Inr out, st6)"
    "decode_finish st6 = (Inr (), st')"
proof -
  have "l_spec (prepareSampler env cfg prompt st) = l_spec st"
    using prepareSampler_same(3) static_spec by blast
  then have k: "gen_max_cl (prepareSampler env cfg prompt st) = gen_max_cl st"
    "gen_n_keep cfg (prepareSampler env cfg prompt st) = gen_n_keep cfg st"
    by (simp_all add: gen_max_cl_def gen_n_keep_def)
  from assms show thesis
    unfolding generate_def Let_def
    by (auto simp: sx_simps k split: if_splits elim!: sthen_InrE sbind_InrE) (rule that; simp)
qed

text \<open>A call that returns: how many tokens, which, and what the cache then holds.\<close>

lemma generate_outcome:
  assumes "generate env cfg cb prompt st = (Inr out, st')" "\<not> gc_sliding_window cfg"
  shows "\<exists>chunks st1 st2 first st3 fed nxt st4.
     concat chunks = prompt \<and> (\<forall>c \<in> set chunks. c \<noteq> [] \<and> length c \<le> sp_seq_len_prefill (l_spec st))
     \<and> fed_chunks env (prepareSampler env cfg prompt st) chunks st1
     \<and> restride_phase 0 1 (l_n_past st1) st1 = (Inr (), st2)
     \<and> sampleNextToken env 0 (szsub (length (last ([] # chunks))) 1) st2 = (Inr first, st3)
     \<and> fed_tokens env (gen_start_keeper st3) first fed st4 nxt
     \<and> stopped cb (set (sp_eos_token_ids (l_spec st))) (nat (gc_max_tokens cfg)) [] fed nxt out
     \<and> decode_finish st4 = (Inr (), st')
     \<and> l_history st' = l_history st @ prompt @ fed
     \<and> l_n_past st' = l_n_past st + length prompt + length fed \<and> l_n_past st' \<le> gen_max_cl st"
proof -
  from generate_Inr [OF assms(1)] obtain st1 n st2 st3 tok st4 st6 where
    1: "gen_admit env cfg (gen_max_cl st) (gen_n_keep cfg st) (length prompt) (prepareSampler env cfg prompt st) = (Inr (), st1)"
    and 2: "prefillChunks env prompt st1 = (Inr n, st2)"
    and 3: "restride_phase 0 1 (l_n_past st2) st2 = (Inr (), st3)"
    and 4: "sampleNextToken env 0 (szsub n 1) st3 = (Inr tok, st4)"
    and 6: "decode_loop env cfg cb (gen_max_cl st) (gen_n_keep cfg st) (nat (gc_max_tokens cfg)) tok []
      (gen_start_keeper st4) = (Inr out, st6)"
    and 7: "decode_finish st6 = (Inr (), st')"
    by metis
  define st5 where "st5 = gen_start_keeper st4"
  note 6 = 6 [folded st5_def]
  have st1: "st1 = prepareSampler env cfg prompt st" "\<not> gen_max_cl st < l_n_past st1 + length prompt"
    using 1 assms(2) by (auto simp: gen_admit_no_slide split: if_splits)
  have s2: "static st2 = static st1"
    using steps_inD [OF prefillChunks_runs_ok 2] by (simp add: runs_ok_def)
  have c5: "counters_same st4 st5"
    by (simp add: st5_def gen_start_keeper_def counters_same_def static_def set_keeper_def)
  note c = steps_inD [OF counters_mem [OF restride_phase_mem_only] 3] steps_inD [OF sampleNextToken_counters 4] c5
    steps_inD [OF decode_finish_counters 7]
  have h5: "l_history st5 = l_history st @ prompt" "l_n_past st5 = l_n_past st + length prompt"
    using c prefillChunks_Inr [OF 2] st1(1) by (simp_all add: counters_same_def prepareSampler_same)
  have s5: "static st5 = static st" using c s2 st1(1) by (simp add: counters_same_def prepareSampler_same)
  from decode_loop_Inr [OF 6 assms(2)] obtain fed nxt where
    f: "fed_tokens env st5 tok fed st6 nxt"
    and r: "stopped cb (set (sp_eos_token_ids (l_spec st5))) (nat (gc_max_tokens cfg)) [] fed nxt out"
    and le: "l_n_past st5 \<le> gen_max_cl st \<longrightarrow> l_n_past st6 \<le> gen_max_cl st"
    by blast
  have "l_spec st1 = l_spec st" unfolding st1 using prepareSampler_same(3) static_spec by blast
  then obtain chunks where ch: "concat chunks = prompt"
    "\<forall>c \<in> set chunks. c \<noteq> [] \<and> length c \<le> sp_seq_len_prefill (l_spec st)"
    "fed_chunks env st1 chunks st2" "n = length (last ([] # chunks))"
    using prefill_loop_chunks [OF 2 [unfolded prefillChunks_def]] by (auto split: if_splits)
  have "l_history st' = l_history st @ prompt @ fed" "l_n_past st' = l_n_past st + length prompt + length fed"
    "l_n_past st' \<le> gen_max_cl st"
    using fed_tokens_same [OF f] h5 c(4) le st1(2) by (simp_all add: counters_same_def st1(1) prepareSampler_same)
  with ch 3 4 f r 7 show ?thesis
    by (intro exI [of _ chunks] exI [of _ st2] exI [of _ st3] exI [of _ tok] exI [of _ st4] exI [of _ fed] exI [of _ nxt]
        exI [of _ st6]) (simp add: st5_def [symmetric] static_spec [OF s5] st1(1) [symmetric])
qed

lemma generate_history:
  assumes "generate env cfg cb prompt st = (Inr out, st')" "\<not> gc_sliding_window cfg"
  shows "\<exists>fed. l_history st' = l_history st @ prompt @ fed \<and> l_n_past st' = l_n_past st + length prompt + length fed"
  using generate_outcome [OF assms] by blast

text \<open>C2: without a sliding window, a run that returns has fed the prompt to the model in
  non-empty chunks of at most the prefill length, sampled the first token from the last row of
  the last chunk, and then fed each accepted token through the decode graphs, the next token
  being the one sampled after it; the run stopped because the next token is an end token,
  because the callback refused the output, or because max_tokens tokens were fed; the history
  and n_past have grown by exactly the prompt and the fed tokens, within the largest context
  length\<close>

lemma generate_result:
  assumes "generate env cfg cb prompt st = (Inr out, st')" "\<not> gc_sliding_window cfg"
  shows "\<exists>chunks st1 st2 first st3 fed nxt st4.
     concat chunks = prompt \<and> (\<forall>c \<in> set chunks. c \<noteq> [] \<and> length c \<le> sp_seq_len_prefill (l_spec st))
     \<and> fed_chunks env (prepareSampler env cfg prompt st) chunks st1
     \<and> restride_phase 0 1 (l_n_past st1) st1 = (Inr (), st2)
     \<and> sampleNextToken env 0 (szsub (length (last ([] # chunks))) 1) st2 = (Inr first, st3)
     \<and> fed_tokens env (gen_start_keeper st3) first fed st4 nxt
     \<and> stopped cb (set (sp_eos_token_ids (l_spec st))) (nat (gc_max_tokens cfg)) [] fed nxt out
     \<and> decode_finish st4 = (Inr (), st')
     \<and> l_history st' = l_history st @ prompt @ fed
     \<and> l_n_past st' = l_n_past st + length prompt + length fed \<and> l_n_past st' \<le> gen_max_cl st"
  by (rule generate_outcome [OF assms])

section \<open>A pool without workers\<close>

definition zero_pool :: "nat \<Rightarrow> ('p, 'a) llm_scheme \<Rightarrow> bool" where
  "zero_pool k st \<longleftrightarrow> (\<exists>dp. l_pool st = Some dp \<and> dp_workers dp = 0 \<and> k \<le> dp_pending dp)"

definition zero_kept :: "nat \<Rightarrow> ('p, 'a) llm_scheme \<Rightarrow> ('p, 'a) llm_scheme \<Rightarrow> bool" where
  "zero_kept k st st' \<longleftrightarrow> (zero_pool k st \<longrightarrow> zero_pool k st')"

lemma zero_kept_preorder [steps]: "preorder (zero_kept k)"
  by (simp add: preorder_def zero_kept_def)

lemma zero_cl: "steps_in mem_and_cl m \<Longrightarrow> steps_in (zero_kept k) m"
  by (erule steps_in_mono) (simp add: zero_kept_def zero_pool_def mem_and_cl_fields)

lemmas zero_mem = zero_cl [OF mem_and_cl_steps]

lemma prefillChunks_zero: "steps_in (zero_kept k) (prefillChunks env ts)"
proof -
  have chunk: "steps_in (zero_kept k) (prefill_chunk env b c)" for b c
    unfolding prefill_chunk_def Let_def
    by (intro steps zero_cl [OF promoteCL_mem_and_cl] zero_mem [OF prefill_shard_mem_only])
      (simp add: zero_kept_def zero_pool_def)
  have "steps_in (zero_kept k) (prefill_loop env fuel ts n)" for fuel ts n
  proof (induction fuel arbitrary: ts n)
    case 0
    show ?case by (cases ts) (simp_all add: steps)
  next
    case (Suc fuel)
    show ?case
    proof (cases ts)
      case Nil
      then show ?thesis by (simp add: steps)
    next
      case (Cons t us)
      show ?thesis unfolding Cons prefill_loop.simps Let_def by (intro steps chunk Suc)
    qed
  qed
  then show ?thesis by (simp add: prefillChunks_def)
qed

lemma try_slide_zero: "steps_in (zero_kept k) (try_slide env cfg max_cl n_keep n b)"
  unfolding try_slide_def slideWindowEvict_def Let_def
  by (intro steps zero_mem [OF restride_phase_mem_only] prefillChunks_zero)
    (simp add: zero_kept_def zero_pool_def)

lemma sampleNextToken_zero: "steps_in (zero_kept k) (sampleNextToken env ph off)"
  unfolding sampleNextToken_def Let_def by (intro steps) (simp add: zero_kept_def zero_pool_def)

lemma llm_wait_zero: "steps_in (zero_kept k) llm_wait"
  by (auto simp: steps_in_def llm_wait_def zero_kept_def zero_pool_def split: option.splits if_splits)

lemma llm_wait_pending: "zero_pool 1 st \<Longrightarrow> llm_wait st = (Inl Blocked, st)"
  by (auto simp: llm_wait_def zero_pool_def)

lemma decode_shard_pends:
  assumes "decode_shard env ctx s st = (Inr u, st')" "zero_pool 0 st"
  shows "zero_pool 1 st'"
proof -
  from assms obtain u1 st1 u2 st2 where
    1: "runShard env s 1 (l_active_cl st) ctx st = (Inr u1, st1)"
    and 2: "llm_enqueue (updateKV s 1 (rc_n_past ctx) 1) st1 = (Inr u2, st2)"
    and 3: "swhen (s + 1 < l_shard_count st) (connect True (l_active_cl st) s) st2 = (Inr u, st')"
    unfolding decode_shard_def by (auto simp: sx_simps elim!: sthen_InrE)
  have "zero_pool 0 st1"
    using steps_inD [OF zero_mem [OF runShard_mem_only] 1] assms(2) by (simp add: zero_kept_def)
  with 2 have "zero_pool 1 st2" by (auto simp: llm_enqueue_def zero_pool_def)
  moreover have "steps_in (zero_kept 1) (swhen (s + 1 < l_shard_count st) (connect True (l_active_cl st) s))"
    by (intro steps zero_mem [OF connect_mem_only])
  ultimately show ?thesis using 3 by (auto simp: zero_kept_def dest: steps_inD)
qed

lemma llm_enqueue_zero: "steps_in (zero_kept 1) (llm_enqueue job)"
  by (auto simp: steps_in_def zero_kept_def zero_pool_def llm_enqueue_def)

lemma decode_shard_zero1: "steps_in (zero_kept 1) (decode_shard env ctx s)"
  unfolding decode_shard_def
  by (intro steps llm_enqueue_zero zero_mem [OF runShard_mem_only] zero_mem [OF connect_mem_only])

lemma decode_loop_zero1: "steps_in (zero_kept 1) (decode_loop env cfg cb max_cl n_keep steps tok out)"
proof (induction steps arbitrary: tok out)
  case 0
  show ?case by (simp add: steps)
next
  case (Suc n)
  have "steps_in (zero_kept 1) (decode_step env cfg max_cl n_keep tok)"
    unfolding decode_step_def decode_make_room_def Let_def
    by (intro steps llm_wait_zero try_slide_zero zero_cl [OF promoteCL_mem_and_cl] decode_shard_zero1
        sampleNextToken_zero) (simp add: zero_kept_def zero_pool_def)
  then show ?case unfolding decode_loop.simps Let_def by (intro steps Suc)
qed

lemma decode_step_pends:
  assumes "decode_step env cfg max_cl n_keep tok st = (Inr t, st')" "zero_pool 0 st" "0 < l_shard_count st"
  shows "zero_pool 1 st'"
proof -
  from assms(1) obtain u1 st1 u2 st2 u3 st3 u4 st4 where
    1: "llm_wait st = (Inr u1, st1)" and 2: "decode_make_room env cfg max_cl n_keep st1 = (Inr u2, st2)"
    and 3: "promoteCL (l_n_past st2 + 1) (sp_seq_len_decode (l_spec st2)) (sp_seq_len_decode (l_spec st2)) st2
            = (Inr u3, st3)"
    and 4: "sfor (decode_shard env \<lparr> rc_token_ids = [tok], rc_n_past = l_n_past st3, rc_curr_len = 1,
              rc_phase = 1 \<rparr>) [0..<l_shard_count st3] st3 = (Inr u4, st4)"
    and 5: "sampleNextToken env 1 0 (st4\<lparr> l_n_past := l_n_past st4 + 1, l_history := l_history st4 @ [tok] \<rparr>)
            = (Inr t, st')"
    unfolding decode_step_def Let_def by (auto simp: sx_simps elim!: sthen_InrE)
  have room: "steps_in (zero_kept 0) (decode_make_room env cfg max_cl n_keep)"
    unfolding decode_make_room_def by (intro steps try_slide_zero)
  have "zero_pool 0 st3"
    using steps_inD [OF llm_wait_zero 1] steps_inD [OF room 2] steps_inD [OF zero_cl [OF promoteCL_mem_and_cl] 3]
      assms(2) by (simp add: zero_kept_def)
  moreover have "l_shard_count st3 = l_shard_count st"
    using steps_inD [OF llm_wait_runs_ok 1] steps_inD [OF decode_make_room_runs_ok 2]
      steps_inD [OF runs_ok_cl [OF promoteCL_mem_and_cl] 3] by (simp add: runs_ok_def static_def)
  then have "[0..<l_shard_count st3] = 0 # [1..<l_shard_count st3]"
    using assms(3) by (simp add: upt_rec)
  ultimately obtain v stx where x: "decode_shard env \<lparr> rc_token_ids = [tok], rc_n_past = l_n_past st3,
      rc_curr_len = 1, rc_phase = 1 \<rparr> 0 st3 = (Inr v, stx)" "zero_pool 1 stx"
    and y: "sfor (decode_shard env \<lparr> rc_token_ids = [tok], rc_n_past = l_n_past st3, rc_curr_len = 1,
      rc_phase = 1 \<rparr>) [1..<l_shard_count st3] stx = (Inr u4, st4)"
    using 4 decode_shard_pends by (auto elim!: sthen_InrE) blast
  have "steps_in (zero_kept 1) (sfor (decode_shard env \<lparr> rc_token_ids = [tok], rc_n_past = l_n_past st3,
      rc_curr_len = 1, rc_phase = 1 \<rparr>) [1..<l_shard_count st3])"
    by (intro steps decode_shard_zero1)
  from steps_inD [OF this y] x(2) have "zero_pool 1 st4" by (simp add: zero_kept_def)
  with steps_inD [OF sampleNextToken_zero 5] show ?thesis by (simp add: zero_kept_def zero_pool_def)
qed

text \<open>A loop that has made a step leaves a job behind that nobody runs.\<close>

lemma decode_loop_zero:
  assumes "decode_loop env cfg cb max_cl n_keep steps tok out st = (Inr out', st')"
    "zero_pool 0 st" "0 < l_shard_count st"
  shows "zero_pool 1 st' \<or> out' = out \<or> out' = out @ [tok]"
proof (cases steps)
  case 0
  with assms show ?thesis by (simp add: sx_simps)
next
  case (Suc n)
  show ?thesis
  proof (cases "tok \<in> set (sp_eos_token_ids (l_spec st)) \<or> \<not> cb (out @ [tok])")
    case True
    with assms Suc show ?thesis by (auto simp: sx_simps Let_def split: if_splits)
  next
    case False
    with assms Suc obtain t st1 where
      1: "decode_step env cfg max_cl n_keep tok st = (Inr t, st1)"
      and 2: "decode_loop env cfg cb max_cl n_keep n t (out @ [tok]) st1 = (Inr out', st')"
      by (auto simp: sx_simps Let_def elim!: sbind_InrE)
    from decode_step_pends [OF 1 assms(2,3)] steps_inD [OF decode_loop_zero1 2] show ?thesis
      by (simp add: zero_kept_def)
  qed
qed

text \<open>The final barrier waits for that job, so only a call without a decode step returns.\<close>

lemma generate_zero_workers:
  assumes "generate env cfg cb prompt st = (Inr out, st')" "zero_pool 0 st" "0 < l_shard_count st"
  shows "length out \<le> 1"
proof -
  from generate_Inr [OF assms(1)] obtain st1 n st2 st3 tok st4 st6 where
    1: "gen_admit env cfg (gen_max_cl st) (gen_n_keep cfg st) (length prompt) (prepareSampler env cfg prompt st) = (Inr (), st1)"
    and 2: "prefillChunks env prompt st1 = (Inr n, st2)"
    and 3: "restride_phase 0 1 (l_n_past st2) st2 = (Inr (), st3)"
    and 4: "sampleNextToken env 0 (szsub n 1) st3 = (Inr tok, st4)"
    and 6: "decode_loop env cfg cb (gen_max_cl st) (gen_n_keep cfg st) (nat (gc_max_tokens cfg)) tok []
      (gen_start_keeper st4) = (Inr out, st6)"
    and 7: "decode_finish st6 = (Inr (), st')"
    by metis
  have admit: "steps_in (zero_kept 0) (gen_admit env cfg (gen_max_cl st) (gen_n_keep cfg st) (length prompt))"
    unfolding gen_admit_def by (intro steps try_slide_zero)
  have z0: "zero_pool 0 (prepareSampler env cfg prompt st)"
    using assms(2) by (simp add: zero_pool_def prepareSampler_same)
  have "zero_pool 0 st4"
    using z0 steps_inD [OF admit 1] steps_inD [OF prefillChunks_zero 2] steps_inD [OF sampleNextToken_zero 4]
      steps_inD [OF zero_mem [OF restride_phase_mem_only] 3] by (simp add: zero_kept_def)
  then have z: "zero_pool 0 (gen_start_keeper st4)"
    by (auto simp: gen_start_keeper_def set_keeper_def zero_pool_def)
  have ok: "static st4 = static (prepareSampler env cfg prompt st)"
    using steps_inD [OF gen_admit_runs_ok 1] steps_inD [OF prefillChunks_runs_ok 2]
      steps_inD [OF sampleNextToken_runs_ok 4] steps_inD [OF runs_ok_mem [OF restride_phase_mem_only] 3]
    by (simp add: runs_ok_def)
  have "l_shard_count (gen_start_keeper st4) = l_shard_count st"
    using ok prepareSampler_same(3) [of env cfg prompt st]
    by (simp add: static_def gen_start_keeper_def set_keeper_def)
  with decode_loop_zero [OF 6 z] assms(3) have "zero_pool 1 st6 \<or> out = [] \<or> out = [tok]" by simp
  moreover have "\<not> zero_pool 1 st6"
    using 7 by (auto simp: decode_finish_def sthen_run llm_wait_pending)
  ultimately show ?thesis by auto
qed

section \<open>Cache cells\<close>

text \<open>A cache tensor of a graph: its name, its rows, and the bytes of a token per element size.\<close>

type_synonym kv_task = "string \<times> nat \<times> (nat \<Rightarrow> nat)"

definition kv_tasks :: "llm_spec \<Rightarrow> kv_pair list \<Rightarrow> kv_task list" where
  "kv_tasks sp ps = concat (map (\<lambda>p. [(kp_key_in p, sp_num_kv_heads sp * sp_head_dim sp, \<lambda>es. es),
     (kp_value_in p, sp_num_kv_heads sp, \<lambda>es. sp_head_dim sp * es)]) ps)"

definition kv_buf :: "graph \<Rightarrow> string \<Rightarrow> nat" where
  "kv_buf g name = (case inputPtr g name of Inr (Some b) \<Rightarrow> b | _ \<Rightarrow> 0)"

definition kv_es :: "graph \<Rightarrow> string \<Rightarrow> nat" where
  "kv_es g name = (case inputSpec g name of Inr sp \<Rightarrow> elementSize (ts_dtype sp) | _ \<Rightarrow> 0)"

text \<open>The tensor is there, it has a buffer, and the buffer fits rows of \<open>kv\<close> tokens.\<close>

definition kv_mapped :: "graph \<Rightarrow> mem \<Rightarrow> nat \<Rightarrow> kv_task \<Rightarrow> bool" where
  "kv_mapped g m kv = (\<lambda>(name, n_rows, tok_of).
     (\<exists>sp. inputSpec g name = Inr sp) \<and> inputPtr g name = Inr (Some (kv_buf g name))
     \<and> kv_fits n_rows (tok_of (kv_es g name)) kv (m (kv_buf g name)))"

definition kv_view :: "graph \<Rightarrow> mem \<Rightarrow> nat \<Rightarrow> kv_task \<Rightarrow> nat \<Rightarrow> nat \<Rightarrow> u8 list" where
  "kv_view g m kv = (\<lambda>(name, n_rows, tok_of) r t. kv_cell (tok_of (kv_es g name)) kv (m (kv_buf g name)) r t)"

definition kv_rows :: "kv_task \<Rightarrow> nat" where
  "kv_rows t = fst (snd t)"

definition linear_tok :: "kv_task \<Rightarrow> bool" where
  "linear_tok = (\<lambda>(name, n_rows, tok_of). \<exists>w. \<forall>es. tok_of es = w * es)"

lemma kv_tasks_linear: "t \<in> set (kv_tasks sp ps) \<Longrightarrow> linear_tok t"
proof -
  have "\<exists>w. \<forall>es :: nat. es = w * es" by (rule exI [of _ 1]) simp
  then show "t \<in> set (kv_tasks sp ps) \<Longrightarrow> linear_tok t"
    by (auto simp: kv_tasks_def linear_tok_def)
qed

definition reshape_task :: "graph \<Rightarrow> nat \<Rightarrow> nat \<Rightarrow> nat \<Rightarrow> kv_task \<Rightarrow> mem \<Rightarrow> mem res" where
  "reshape_task g old_kv new_kv n = (\<lambda>(name, n_rows, tok_of). reshape_tensor g name n_rows tok_of old_kv new_kv n)"

lemma reshape_task_ok:
  assumes "kv_mapped g m old_kv t" "kv_mapped g m new_kv t" "linear_tok t" "n \<le> old_kv" "n \<le> new_kv"
  shows "\<exists>buf. reshape_task g old_kv new_kv n t m = Inr (m(kv_buf g (fst t) := buf))
     \<and> length buf = length (m (kv_buf g (fst t)))
     \<and> (\<forall>r<kv_rows t. \<forall>j<n. kv_view g (m(kv_buf g (fst t) := buf)) new_kv t r j = kv_view g m old_kv t r j)"
proof -
  obtain name n_rows tok_of where t: "t = (name, n_rows, tok_of)" by (cases t)
  let ?b = "kv_buf g name"
  from assms t obtain sp where sp: "inputSpec g name = Inr sp" "inputPtr g name = Inr (Some ?b)"
    and f: "kv_fits n_rows (tok_of (kv_es g name)) old_kv (m ?b)" "kv_fits n_rows (tok_of (kv_es g name)) new_kv (m ?b)"
    by (auto simp: kv_mapped_def)
  have es: "kv_es g name = elementSize (ts_dtype sp)" using sp by (simp add: kv_es_def)
  from assms(3) t obtain w where w: "\<And>es. tok_of es = w * es" by (auto simp: linear_tok_def)
  show ?thesis
  proof (cases "n_rows = 0")
    case True
    then have "reshape_task g old_kv new_kv n t m = Inr (m(?b := m ?b))"
      by (simp add: t reshape_task_def reshape_tensor_def sp)
    then show ?thesis using True by (intro exI [of _ "m ?b"]) (simp add: t kv_rows_def)
  next
    case False
    from layout.move_cells [of n old_kv new_kv n_rows w "ts_dtype sp" "m ?b"] assms(4,5) f
    obtain buf where buf: "restride n_rows (w * elementSize (ts_dtype sp)) (ts_dtype sp) old_kv new_kv n (m ?b) = Inr buf"
      and c: "\<forall>r<n_rows. \<forall>j<n. kv_cell (w * elementSize (ts_dtype sp)) new_kv buf r j
          = kv_cell (w * elementSize (ts_dtype sp)) old_kv (m ?b) r j"
      by (auto simp: w es)
    have "reshape_task g old_kv new_kv n t m = Inr (m(?b := buf))"
      using False buf by (simp add: t reshape_task_def reshape_tensor_def sp deref_def mem_on_def w)
    then show ?thesis
      using c restride_length [OF buf] by (intro exI [of _ buf]) (simp add: t kv_view_def kv_rows_def es w)
  qed
qed

text \<open>All tensors of a shard, one after the other: each keeps its tokens, none disturbs another.\<close>

lemma reshape_tasks_ok:
  assumes ok: "\<And>t. t \<in> set ts \<Longrightarrow> kv_mapped g m old_kv t \<and> kv_mapped g m new_kv t \<and> linear_tok t"
    and "n \<le> old_kv" "n \<le> new_kv" and dist: "distinct (map (\<lambda>t. kv_buf g (fst t)) ts)"
  shows "\<exists>m'. rfor (reshape_task g old_kv new_kv n) ts m = Inr m' \<and> has_mem_lengths m m'
     \<and> (\<forall>b. b \<notin> (\<lambda>t. kv_buf g (fst t)) ` set ts \<longrightarrow> m' b = m b)
     \<and> (\<forall>t \<in> set ts. \<forall>r<kv_rows t. \<forall>j<n. kv_view g m' new_kv t r j = kv_view g m old_kv t r j)"
  using ok dist
proof (induction ts arbitrary: m)
  case Nil
  then show ?case by simp
next
  case (Cons t ts)
  let ?b = "kv_buf g (fst t)"
  from reshape_task_ok [of g m old_kv t new_kv n] Cons.prems assms(2,3) obtain buf where
    1: "reshape_task g old_kv new_kv n t m = Inr (m(?b := buf))" "length buf = length (m ?b)"
    and c: "\<forall>r<kv_rows t. \<forall>j<n. kv_view g (m(?b := buf)) new_kv t r j = kv_view g m old_kv t r j"
    by auto
  let ?m = "m(?b := buf)"
  have other: "kv_mapped g ?m kv u = kv_mapped g m kv u" "kv_view g ?m kv u = kv_view g m kv u"
    if "u \<in> set ts" for u kv
  proof -
    have "kv_buf g (fst u) \<noteq> ?b" using Cons.prems(2) that by (metis (no_types, lifting) distinct.simps(2) image_eqI list.map(2) list.set_map)
    then show "kv_mapped g ?m kv u = kv_mapped g m kv u" "kv_view g ?m kv u = kv_view g m kv u"
      by (cases u; simp add: kv_mapped_def kv_view_def)+
  qed
  have "\<exists>m'. rfor (reshape_task g old_kv new_kv n) ts ?m = Inr m' \<and> has_mem_lengths ?m m'
     \<and> (\<forall>b. b \<notin> (\<lambda>t. kv_buf g (fst t)) ` set ts \<longrightarrow> m' b = ?m b)
     \<and> (\<forall>t \<in> set ts. \<forall>r<kv_rows t. \<forall>j<n. kv_view g m' new_kv t r j = kv_view g ?m old_kv t r j)"
  proof (rule Cons.IH)
    fix u assume "u \<in> set ts"
    then show "kv_mapped g ?m old_kv u \<and> kv_mapped g ?m new_kv u \<and> linear_tok u"
      using other(1) [of u] Cons.prems(1) [of u] by (simp del: fun_upd_apply)
  qed (use Cons.prems(2) in simp)
  then obtain m' where
    2: "rfor (reshape_task g old_kv new_kv n) ts ?m = Inr m'" "has_mem_lengths ?m m'"
      "\<forall>b. b \<notin> (\<lambda>t. kv_buf g (fst t)) ` set ts \<longrightarrow> m' b = ?m b"
    and c2': "\<forall>u \<in> set ts. \<forall>r<kv_rows u. \<forall>j<n. kv_view g m' new_kv u r j = kv_view g ?m old_kv u r j"
    by blast
  from c2' other(2) have c2: "\<forall>u \<in> set ts. \<forall>r<kv_rows u. \<forall>j<n. kv_view g m' new_kv u r j = kv_view g m old_kv u r j"
    by metis
  have "m' ?b = ?m ?b" using 2(3) Cons.prems(2) by auto
  then have "kv_view g m' new_kv t = kv_view g ?m new_kv t" by (cases t) (simp add: kv_view_def)
  with 1 2 c c2 show ?case by (auto simp: has_mem_lengths_def split: if_splits)
qed

lemma sfor_smem:
  assumes "rfor (\<lambda>f. f) (concat (map (\<lambda>p. [f1 p, f2 p]) ps)) (m_mem st) = Inr m"
  shows "sfor (\<lambda>p. sthen (smem (f1 p)) (smem (f2 p))) ps st = (Inr (), st\<lparr> m_mem := m \<rparr>)"
  using assms
proof (induction ps arbitrary: st)
  case Nil
  then show ?case by (simp add: sx_simps)
next
  case (Cons p ps)
  then obtain m1 m2 where 1: "f1 p (m_mem st) = Inr m1" "f2 p m1 = Inr m2"
    "rfor (\<lambda>f. f) (concat (map (\<lambda>p. [f1 p, f2 p]) ps)) m2 = Inr m"
    by auto
  from Cons.IH [of "st\<lparr> m_mem := m2 \<rparr>"] 1(3)
  have IH: "sfor (\<lambda>p. sthen (smem (f1 p)) (smem (f2 p))) ps (st\<lparr> m_mem := m2 \<rparr>) = (Inr (), st\<lparr> m_mem := m \<rparr>)"
    by simp
  have "smem (f1 p) st = (Inr (), st\<lparr> m_mem := m1 \<rparr>)"
    "smem (f2 p) (st\<lparr> m_mem := m1 \<rparr>) = (Inr (), st\<lparr> m_mem := m2 \<rparr>)"
    using 1 by (simp_all add: smem_def supd_run)
  then have step: "sthen (smem (f1 p)) (smem (f2 p)) st = (Inr (), st\<lparr> m_mem := m2 \<rparr>)"
    by (simp add: sthen_run)
  have "sfor g (p # ps) st = (case g p st of (Inl e, s) \<Rightarrow> (Inl e, s) | (Inr _, s) \<Rightarrow> sfor g ps s)" for g
    by (simp add: sthen_run)
  with step IH show ?case by (simp only: prod.case sum.case)
qed

text \<open>\<open>reshapeKV\<close> on a shard: every valid token of every layer is where the new stride wants it.\<close>

text \<open>C4: changing the row stride of a shard's cache succeeds on every mapped layer, keeps every
  valid token of every key and value row, and touches no other buffer\<close>

lemma reshapeKV_cells:
  assumes b: "requireKVStateBlock st = Inr b" "shard < length (sb_shard_pairs b)"
    and g: "graph_at st (graphIndex st 0 shard (l_active_cl st)) = Inr g"
    and ts: "ts = kv_tasks (l_spec st) (sb_shard_pairs b ! shard)"
    and ok: "\<And>t. t \<in> set ts \<Longrightarrow> kv_mapped g (m_mem st) old_kv t \<and> kv_mapped g (m_mem st) new_kv t"
    and dist: "distinct (map (\<lambda>t. kv_buf g (fst t)) ts)"
  shows "\<exists>m. reshapeKV shard old_kv new_kv n st = (Inr (), st\<lparr> m_mem := m \<rparr>)
     \<and> has_mem_lengths (m_mem st) m
     \<and> (\<forall>b. b \<notin> (\<lambda>t. kv_buf g (fst t)) ` set ts \<longrightarrow> m b = m_mem st b)
     \<and> (\<forall>t \<in> set ts. \<forall>r<kv_rows t. \<forall>j<min n (min old_kv new_kv).
          kv_view g m new_kv t r j = kv_view g (m_mem st) old_kv t r j)"
proof (cases "old_kv = new_kv \<or> sb_shard_pairs b ! shard = []")
  case True
  have "st\<lparr> m_mem := m_mem st \<rparr> = st" by simp
  moreover have "reshapeKV shard old_kv new_kv n st = (Inr (), st)"
    using True b by (auto simp: reshapeKV_def sx_simps sbind_run idx_vec_def)
  moreover have "old_kv = new_kv \<or> ts = []" using True ts by (auto simp: kv_tasks_def)
  ultimately show ?thesis by (intro exI [of _ "m_mem st"]) auto
next
  case False
  let ?n = "min n (min old_kv new_kv)"
  let ?ps = "sb_shard_pairs b ! shard"
  let ?H = "sp_num_kv_heads (l_spec st)" and ?hd = "sp_head_dim (l_spec st)"
  from reshape_tasks_ok [of ts g "m_mem st" old_kv new_kv ?n] ok ts dist kv_tasks_linear obtain m where
    m: "rfor (reshape_task g old_kv new_kv ?n) ts (m_mem st) = Inr m" "has_mem_lengths (m_mem st) m"
      "\<forall>b. b \<notin> (\<lambda>t. kv_buf g (fst t)) ` set ts \<longrightarrow> m b = m_mem st b"
      "\<forall>t \<in> set ts. \<forall>r<kv_rows t. \<forall>j<?n. kv_view g m new_kv t r j = kv_view g (m_mem st) old_kv t r j"
    by fastforce
  have "rfor f (concat (map (\<lambda>p. [a p, c p]) ps)) x = rfor (\<lambda>f. f) (concat (map (\<lambda>p. [f (a p), f (c p)]) ps)) x"
    for f :: "kv_task \<Rightarrow> mem \<Rightarrow> mem res" and a c and ps :: "kv_pair list" and x
    by (induction ps arbitrary: x) (simp_all add: rbind_def split: sum.splits)
  from m(1) [unfolded ts kv_tasks_def this] have
    "rfor (\<lambda>f. f) (concat (map (\<lambda>p. [reshape_tensor g (kp_key_in p) (?H * ?hd) (\<lambda>es. es) old_kv new_kv ?n,
        reshape_tensor g (kp_value_in p) ?H (\<lambda>es. ?hd * es) old_kv new_kv ?n]) ?ps)) (m_mem st) = Inr m"
    by (simp add: reshape_task_def)
  from sfor_smem [OF this] False b g
  have "reshapeKV shard old_kv new_kv n st = (Inr (), st\<lparr> m_mem := m \<rparr>)"
    by (auto simp: reshapeKV_def sx_simps sbind_run idx_vec_def Let_def)
  with m(2-4) show ?thesis by blast
qed

section \<open>Concrete instances\<close>

text \<open>
  One shard without cache tensors whose graphs always put the same logits of a two-token
  vocabulary into buffer 0, for two positions.
\<close>

definition demo_logits :: qnn_tensor where
  "demo_logits = \<lparr> qt_name = ''logits'', qt_dtype = FLOAT_32, qt_type = 0, qt_dims = [1, 2, 2],
     qt_quant = OtherEncoding, qt_dynamic = None \<rparr>"

definition demo_graph :: graph where
  "demo_graph = (mkGraph None)\<lparr> g_outputs := [demo_logits], g_out_index := [''logits'' \<mapsto> 0],
     g_out_ptr := [''logits'' \<mapsto> Some 0] \<rparr>"

definition demo_spec :: llm_spec where
  "demo_spec = \<lparr> sp_shards = [\<lparr> sh_in_state = [], sh_out_state = ''logits'', sh_lm_head_only = False \<rparr>],
     sp_state_blocks = [makeKVStateBlock\<lparr> sb_shard_pairs := [[]] \<rparr>], sp_hidden_size = 1, sp_num_kv_heads = 1,
     sp_head_dim = 1, sp_vocab_size = 2, sp_seq_len_prefill = 2, sp_seq_len_decode = 1,
     sp_context_lengths = [8], sp_attention_mask_name = ''attention_mask'', sp_eos_token_ids = [],
     sp_bos_token_id = 0 \<rparr>"

definition demo_cfg :: "int \<Rightarrow> gen_config" where
  "demo_cfg n = \<lparr> gc_max_tokens = n, gc_sliding_window = False, gc_sliding_n_keep = 0, gc_enable_sampling = False,
     gc_temperature = 0, gc_top_p = 0, gc_min_p = 0, gc_top_k = 0, gc_repetition_penalty = 0,
     gc_presence_penalty = 0, gc_frequency_penalty = 0, gc_penalty_last_n = 0, gc_seed = 0,
     gc_grammar_str = [], gc_grammar_root = [], gc_has_tokenizer = False \<rparr>"

definition demo_llm :: "unit llm" where
  "demo_llm = (mkLLM demo_spec (demo_cfg 2))\<lparr> m_graphs := [demo_graph, demo_graph],
     m_mem := (\<lambda>_. replicate 16 0), l_shard_count := 1, l_num_cl := 1, l_kv_block := 0 \<rparr>"

definition demo_env :: "unit env" where
  "demo_env = \<lparr> e_exec = (\<lambda>_ m. (True, m)), e_write = (\<lambda>_ _ _ m. Inr m), e_init_provider = (\<lambda>_ p. Inr p),
     e_embedding_provider = (\<lambda>_. Inr ()), e_rope_provider = (\<lambda>_. Inr ()), e_sample = (\<lambda>_ _. 0), e_grammar_ok = (\<lambda>_ _. True) \<rparr>"

lemma demo_spec_fields [simp]:
  "sp_shards demo_spec = [\<lparr> sh_in_state = [], sh_out_state = ''logits'', sh_lm_head_only = False \<rparr>]"
  "sp_state_blocks demo_spec = [makeKVStateBlock\<lparr> sb_shard_pairs := [[]] \<rparr>]"
  "sp_vocab_size demo_spec = 2" "sp_seq_len_prefill demo_spec = 2" "sp_seq_len_decode demo_spec = 1"
  "sp_context_lengths demo_spec = [8]" "sp_attention_mask_name demo_spec = ''attention_mask''"
  "sp_eos_token_ids demo_spec = []"
  by (simp_all add: demo_spec_def)

text \<open>States of the demo model: only the counters differ.\<close>

definition demo_at :: "decode_pool option \<Rightarrow> nat \<Rightarrow> int list \<Rightarrow> unit llm" where
  "demo_at p n h = demo_llm\<lparr> l_pool := p, l_n_past := n, l_history := h \<rparr>"

lemma demo_at_fields [simp]:
  "l_spec (demo_at p n h) = demo_spec" "l_n_past (demo_at p n h) = n" "l_history (demo_at p n h) = h"
  "l_shard_count (demo_at p n h) = 1" "l_num_cl (demo_at p n h) = 1" "l_active_cl (demo_at p n h) = 0"
  "l_providers (demo_at p n h) = []" "l_pool (demo_at p n h) = p" "l_sampler (demo_at p n h) = None"
  "l_kv_block (demo_at p n h) = 0" "m_graphs (demo_at p n h) = [demo_graph, demo_graph]"
  "m_mem (demo_at p n h) = (\<lambda>_. replicate 16 0)" "l_clock_threads (demo_at p n h) = 1"
  "l_sampler_cfg_valid (demo_at p n h) = False"
  "demo_at p n h\<lparr> l_n_past := n', l_history := h' \<rparr> = demo_at p n' h'"
  "demo_at p n h\<lparr> l_history := h', l_n_past := n' \<rparr> = demo_at p n' h'"
  "demo_at p n h\<lparr> m_mem := (\<lambda>_. replicate 16 0) \<rparr> = demo_at p n h"
  "demo_at p n h\<lparr> l_pool := p' \<rparr> = demo_at p' n h"
  "demo_at p n h\<lparr> l_sampler := None, l_sampler_cfg_valid := False \<rparr> = demo_at p n h"
  by (simp_all add: demo_at_def demo_llm_def mkLLM_def)

lemma demo_graph_at [simp]: "phase < 2 \<Longrightarrow> graph_at (demo_at p n h) (graphIndex (demo_at p n h) phase 0 0) = Inr demo_graph"
  by (auto simp: graph_at_def at_vec_def graphIndex_def less_2_cases_iff)

lemma demo_runShard: "phase < 2 \<Longrightarrow> runShard demo_env 0 phase 0 ctx (demo_at p n h) = (Inr (), demo_at p n h)"
  by (simp add: runShard_def sx_simps sbind_run sthen_run smem_def supd_run idx_vec_def write_mask_def hasInput_def
      demo_graph_def mkGraph_def execute_def demo_env_def)


lemma demo_block: "requireKVStateBlock (demo_at p n h) = Inr (makeKVStateBlock\<lparr> sb_shard_pairs := [[]] \<rparr>)"
  by (simp add: requireKVStateBlock_def)

lemma demo_updateKV: "updateKV 0 phase off k (demo_at p n h) = (Inr (), demo_at p n h)"
  by (simp add: updateKV_def sx_simps sbind_run demo_block idx_vec_def)

lemma demo_reshape: "reshape_all old new k (demo_at p n h) = (Inr (), demo_at p n h)"
  by (simp add: reshape_all_def reshapeKV_def sx_simps sbind_run sthen_run demo_block idx_vec_def)

lemma demo_promote: "promoteCL r a b (demo_at p n h) = (Inr False, demo_at p n h)"
  by (simp add: promoteCL_def sx_simps Let_def)

lemma demo_prefill_chunk:
  "prefill_chunk demo_env final ts (demo_at p n h) = (Inr (), demo_at p (n + length ts) (h @ ts))"
  by (simp add: prefill_chunk_def prefill_shard_def Let_def sx_simps sthen_run sbind_run demo_promote lm_head_only_at_def
      demo_runShard demo_updateKV swhen_run)

lemma demo_prefill:
  "prefillChunks demo_env [1, 0, 1] (demo_at p n h) = (Inr 1, demo_at p (n + 3) (h @ [1, 0, 1]))"
  by (simp add: prefillChunks_def sx_simps sthen_run sbind_run demo_prefill_chunk eval_nat_numeral)

lemma demo_zero_lt: "\<not> f32_lt 0 0"
  by (simp add: f32_lt_def fval_less_irrefl)

lemma of_le_zeros: "of_le (replicate k 0) = 0"
  by (induction k) simp_all

lemma demo_logits_read: "off < 2 \<Longrightarrow> read_float demo_graph ''logits'' 2 (off * 2) (\<lambda>_. replicate 16 0) = Inr [0, 0]"
  by (simp add: read_float_def demo_graph_def mkGraph_def at_map_def idx_vec_def demo_logits_def load_array_def deref_def
      mem_load_def buf_load_def of_le_array_def slice_def min_def of_le_zeros upt_rec)

lemma demo_sample:
  "phase < 2 \<Longrightarrow> off < 2 \<Longrightarrow> sampleNextToken demo_env phase off (demo_at p n h) = (Inr 0, demo_at p n h)"
  using demo_logits_read [of off] demo_graph_at [of phase p n h]
  by (simp add: sampleNextToken_def readLastLogits_def sx_simps sbind_run argmax_def demo_zero_lt to_i32_def)


lemma demo_decode_step:
  "decode_step demo_env (demo_cfg k) 8 0 0 (demo_at None n h)
     = (if 8 < n + 1 then (Inl ContextLengthExceeded, demo_at None n h) else (Inr 0, demo_at None (n + 1) (h @ [0])))"
  by (simp add: decode_step_def sx_simps sthen_run sbind_run llm_wait_def decode_make_room_no_slide demo_cfg_def
      demo_promote decode_shard_def demo_runShard demo_updateKV llm_enqueue_def swhen_run demo_sample Let_def)

lemma demo_restride: "restride_phase a b k (demo_at p n h) = (Inr (), demo_at p n h)"
  by (simp add: restride_phase_def sx_simps demo_reshape)

lemma demo_prepare: "prepareSampler env (demo_cfg k) ts (demo_at p n h) = demo_at p n h"
  by (simp add: prepareSampler_def demo_cfg_def)

lemma demo_admit:
  "n + k \<le> 8 \<Longrightarrow> gen_admit demo_env (demo_cfg j) 8 0 k (demo_at p n h) = (Inr (), demo_at p n h)"
  by (simp add: gen_admit_def sx_simps swhen_run)

lemma demo_cfg_fields:
  "nat (gc_max_tokens (demo_cfg 2)) = Suc (Suc 0)" "\<not> gc_sliding_window (demo_cfg k)"
  by (simp_all add: demo_cfg_def eval_nat_numeral)

lemmas demo_run = generate_def Let_def sx_simps sthen_run sbind_run demo_prepare gen_max_cl_def gen_n_keep_def demo_admit
  demo_prefill demo_restride demo_sample gen_start_keeper_def set_keeper_def demo_decode_step decode_finish_def
  llm_wait_def demo_promote szsub_def demo_cfg_fields

lemma demo_generate:
  "generate demo_env (demo_cfg 2) (\<lambda>_. True) [1, 0, 1] (demo_at None 0 []) = (Inr [0, 0], demo_at None 5 [1, 0, 1, 0, 0])"
  by (simp add: demo_run)

lemma demo_generate_stopped:
  "generate demo_env (demo_cfg 2) (\<lambda>_. False) [1, 0, 1]
     (demo_at (Some \<lparr> dp_workers = 0, dp_pending = 0, dp_error = None, dp_keeper = 0 \<rparr>) 0 [])
   = (Inr [0], demo_at (Some \<lparr> dp_workers = 0, dp_pending = 0, dp_error = None, dp_keeper = 0 \<rparr>) 3 [1, 0, 1])"
  by (simp add: demo_run)

lemma generate_result_witness:
  "\<exists>fed nxt. stopped (\<lambda>_. True) {} 2 [] fed nxt [0, 0] \<and> [1, 0, 1, 0, 0] = [1, 0, 1] @ fed"
proof -
  have e: "sp_eos_token_ids (l_spec (demo_at None 0 [])) = []" "nat (gc_max_tokens (demo_cfg 2)) = 2"
    by (simp_all add: demo_cfg_def)
  show ?thesis using generate_result [OF demo_generate demo_cfg_fields(2)] unfolding e by auto
qed

lemma generate_rejects_witness:
  "fst (generate demo_env (demo_cfg 2) (\<lambda>_. True) [1, 0, 1] (demo_at None 6 [])) = Inl ContextLengthExceeded"
  using generate_rejects [of "demo_cfg 2" "demo_at None 6 []" "[1, 0, 1]" demo_env "\<lambda>_. True"]
  by (simp add: demo_cfg_fields gen_max_cl_def)

lemma generate_zero_workers_witness:
  "\<exists>out. fst (generate demo_env (demo_cfg 2) (\<lambda>_. False) [1, 0, 1]
     (demo_at (Some \<lparr> dp_workers = 0, dp_pending = 0, dp_error = None, dp_keeper = 0 \<rparr>) 0 [])) = Inr out
     \<and> length out \<le> 1"
  using generate_zero_workers [OF demo_generate_stopped] by (simp add: zero_pool_def demo_generate_stopped)


text \<open>One pair of cache tensors of three one-byte tokens, in buffers 1 and 2.\<close>

definition demo_kv_spec :: "string \<Rightarrow> tensor_spec" where
  "demo_kv_spec name = \<lparr> ts_name = name, ts_dtype = UFIXED_POINT_8, ts_type = 0, ts_shape = [1, 1, 1, 3],
     ts_quant_scale = 0, ts_quant_offset = 0, ts_axis_quant = [], ts_has_dynamic_dims = False \<rparr>"

definition demo_kv_graph :: graph where
  "demo_kv_graph = (mkGraph None)\<lparr> g_in_specs := [demo_kv_spec ''k'', demo_kv_spec ''v''],
     g_in_index := [''k'' \<mapsto> 0, ''v'' \<mapsto> 1], g_in_ptr := [''k'' \<mapsto> Some 1, ''v'' \<mapsto> Some 2] \<rparr>"

definition demo_pair :: kv_pair where
  "demo_pair = \<lparr> kp_key_in = ''k'', kp_key_out = ''ko'', kp_value_in = ''v'', kp_value_out = ''vo'' \<rparr>"

definition demo_kv :: "unit llm" where
  "demo_kv = demo_llm\<lparr> l_spec := demo_spec\<lparr> sp_state_blocks := [makeKVStateBlock\<lparr> sb_shard_pairs := [[demo_pair]] \<rparr>] \<rparr>,
     m_graphs := [demo_kv_graph], m_mem := (\<lambda>_. [1, 2, 3]) \<rparr>"

lemma reshapeKV_cells_witness:
  "\<exists>m. reshapeKV 0 3 2 2 demo_kv = (Inr (), demo_kv\<lparr> m_mem := m \<rparr>) \<and> m 7 = [1, 2, 3]"
proof -
  let ?ts = "[(''k'', 1, \<lambda>es. es), (''v'', 1, \<lambda>es. 1 * es)] :: kv_task list"
  have spec: "kv_tasks (l_spec demo_kv) ([[demo_pair]] ! 0) = ?ts"
    by (simp add: kv_tasks_def demo_pair_def demo_kv_def demo_spec_def)
  have g: "inputSpec demo_kv_graph n = Inr (demo_kv_spec n)" "inputPtr demo_kv_graph n = Inr (Some (kv_buf demo_kv_graph n))"
    "kv_es demo_kv_graph n = 1" "kv_buf demo_kv_graph n = (if n = ''k'' then 1 else 2)" if "n = ''k'' \<or> n = ''v''" for n
    using that by (auto simp: inputSpec_def inputPtr_def kv_buf_def kv_es_def at_map_def at_vec_def demo_kv_graph_def
        mkGraph_def demo_kv_spec_def elementSize_def)
  have "\<exists>m. reshapeKV 0 3 2 2 demo_kv = (Inr (), demo_kv\<lparr> m_mem := m \<rparr>)
     \<and> has_mem_lengths (m_mem demo_kv) m
     \<and> (\<forall>b. b \<notin> (\<lambda>t. kv_buf demo_kv_graph (fst t)) ` set ?ts \<longrightarrow> m b = m_mem demo_kv b)
     \<and> (\<forall>t \<in> set ?ts. \<forall>r<kv_rows t. \<forall>j<min 2 (min 3 2).
          kv_view demo_kv_graph m 2 t r j = kv_view demo_kv_graph (m_mem demo_kv) 3 t r j)"
  proof (rule reshapeKV_cells)
    show "requireKVStateBlock demo_kv = Inr (makeKVStateBlock\<lparr> sb_shard_pairs := [[demo_pair]] \<rparr>)"
      by (simp add: requireKVStateBlock_def demo_kv_def demo_llm_def mkLLM_def)
    show "graph_at demo_kv (graphIndex demo_kv 0 0 (l_active_cl demo_kv)) = Inr demo_kv_graph"
      by (simp add: graph_at_def at_vec_def graphIndex_def demo_kv_def demo_llm_def mkLLM_def)
    show "?ts = kv_tasks (l_spec demo_kv) (sb_shard_pairs (makeKVStateBlock\<lparr> sb_shard_pairs := [[demo_pair]] \<rparr>) ! 0)"
      using spec by simp
    show "kv_mapped demo_kv_graph (m_mem demo_kv) 3 t \<and> kv_mapped demo_kv_graph (m_mem demo_kv) 2 t" if "t \<in> set ?ts" for t
      using that by (auto simp: kv_mapped_def g kv_fits_def demo_kv_def)
  qed (simp_all add: g)
  then obtain m where "reshapeKV 0 3 2 2 demo_kv = (Inr (), demo_kv\<lparr> m_mem := m \<rparr>)" "m 7 = m_mem demo_kv 7"
    by (auto simp: g)
  then show ?thesis by (intro exI [of _ m]) (simp add: demo_kv_def)
qed

section \<open>Consistency of the counters\<close>

text \<open>C21: however a run ends, n_past equals the length of the token history and nothing fixed at
  bring-up has changed\<close>

theorem generate_keeps_history:
  assumes "generate env cfg cb prompt st = (r, st')" "l_n_past st = length (l_history st)"
  shows "l_n_past st' = length (l_history st') \<and> static st' = static st"
  using steps_inD [OF generate_runs_ok assms(1)] assms(2) by (simp add: runs_ok_def hist_inv_def)

lemma generate_keeps_history_witness:
  "let st' = snd (generate demo_env (demo_cfg 2) (\<lambda>_. True) [1, 0, 1] (demo_at None 0 []))
   in l_n_past st' = length (l_history st') \<and> l_n_past st' = 5"
  using generate_keeps_history [OF demo_generate] by (simp add: demo_generate)

end
