(* ===== verification/CBManager.thy ===== *)
theory CBManager
  imports KVStride
begin

text \<open>
  Sessions sharing one cache (\<open>examples/continuous_batching/common/cb/kv_cache_manager.h\<close>,
  \<open>scheduler.h\<close>, \<open>session.h\<close>): the segments of a cache row, the moves that compact it or
  make room in it, the positions and the block-diagonal mask of a concatenated batch, and
  the choice of the sessions of a step.

  The code counts tokens in \<open>int\<close>; positions and lengths are far below its range, so they
  are HOL integers here. An offset below zero is undefined behaviour.
\<close>

section \<open>Segments\<close>

record kv_segment =
  seg_id :: string
  seg_start :: int
  seg_len :: int

type_synonym move_op = "int \<times> int \<times> int" \<comment> \<open>source, destination, length\<close>

definition seg_end :: "kv_segment \<Rightarrow> int" where
  "seg_end s = seg_start s + seg_len s"

primrec update_first :: "('a \<Rightarrow> bool) \<Rightarrow> ('a \<Rightarrow> 'a) \<Rightarrow> 'a list \<Rightarrow> 'a list" where
  "update_first P f [] = []"
| "update_first P f (x # xs) = (if P x then f x # xs else x # update_first P f xs)"

primrec remove_first :: "('a \<Rightarrow> bool) \<Rightarrow> 'a list \<Rightarrow> 'a list" where
  "remove_first P [] = []"
| "remove_first P (x # xs) = (if P x then xs else x # remove_first P xs)"

definition getSegment :: "string \<Rightarrow> kv_segment list \<Rightarrow> kv_segment option" where
  "getSegment sid segs = List.find (\<lambda>s. seg_id s = sid) segs"

definition kv_allocate :: "string \<Rightarrow> int \<Rightarrow> kv_segment list \<Rightarrow> kv_segment list" where
  "kv_allocate sid len segs =
     segs @ [\<lparr> seg_id = sid, seg_start = (if segs = [] then 0 else seg_end (last segs)), seg_len = len \<rparr>]"

definition kv_extend :: "string \<Rightarrow> int \<Rightarrow> kv_segment list \<Rightarrow> kv_segment list" where
  "kv_extend sid extra segs = update_first (\<lambda>s. seg_id s = sid) (\<lambda>s. s\<lparr> seg_len := seg_len s + extra \<rparr>) segs"

definition kv_release :: "string \<Rightarrow> kv_segment list \<Rightarrow> kv_segment list" where
  "kv_release sid segs = remove_first (\<lambda>s. seg_id s = sid) segs"

definition totalUsed :: "kv_segment list \<Rightarrow> int" where
  "totalUsed segs = foldl (\<lambda>e s. max e (seg_end s)) 0 segs"

text \<open>The loop of \<open>compact\<close> behind \<open>next_pos\<close>: the segments and the moves.\<close>

fun compact_from :: "int \<Rightarrow> kv_segment list \<Rightarrow> kv_segment list \<times> move_op list" where
  "compact_from pos [] = ([], [])"
| "compact_from pos (s # segs) =
     (let moved = (seg_start s \<noteq> pos \<and> 0 < seg_len s);
          s' = (if moved then s\<lparr> seg_start := pos \<rparr> else s);
          (segs', ms) = compact_from (seg_end s') segs
      in (s' # segs', (if moved then [(seg_start s, pos, seg_len s)] else []) @ ms))"

definition kv_compact :: "kv_segment list \<Rightarrow> kv_segment list \<times> move_op list" where
  "kv_compact segs = compact_from 0 segs"

text \<open>A later entry of the growth list overwrites an earlier one of the same session.\<close>

definition growth_of :: "(string \<times> int) list \<Rightarrow> string \<Rightarrow> int" where
  "growth_of gs sid = (case map_of (rev gs) sid of None \<Rightarrow> 0 | Some g \<Rightarrow> g)"

primrec shift_amounts :: "(string \<Rightarrow> int) \<Rightarrow> int \<Rightarrow> kv_segment list \<Rightarrow> int list" where
  "shift_amounts growth cumul [] = []"
| "shift_amounts growth cumul (s # segs) = cumul # shift_amounts growth (cumul + growth (seg_id s)) segs"

definition shift_move :: "kv_segment \<times> int \<Rightarrow> move_op list" where
  "shift_move = (\<lambda>(s, k). if 0 < k \<and> 0 < seg_len s then [(seg_start s, seg_start s + k, seg_len s)] else [])"

definition shift_segment :: "kv_segment \<times> int \<Rightarrow> kv_segment" where
  "shift_segment = (\<lambda>(s, k). if 0 < k then s\<lparr> seg_start := seg_start s + k \<rparr> else s)"

text \<open>Empty segments sit behind their predecessor's end after growth.\<close>

fun seat_empty :: "(string \<Rightarrow> int) \<Rightarrow> int \<Rightarrow> kv_segment list \<Rightarrow> kv_segment list" where
  "seat_empty growth pos [] = []"
| "seat_empty growth pos (s # segs) =
     (let s' = (if seg_len s = 0 then s\<lparr> seg_start := pos \<rparr> else s)
      in s' # seat_empty growth (seg_end s' + growth (seg_id s')) segs)"

definition shiftForGrowth :: "(string \<times> int) list \<Rightarrow> kv_segment list \<Rightarrow> kv_segment list \<times> move_op list" where
  "shiftForGrowth gs segs =
     (let growth = growth_of gs; ks = zip segs (shift_amounts growth 0 segs)
      in (seat_empty growth 0 (map shift_segment ks), concat (map shift_move (rev ks))))"

section \<open>Positions and mask\<close>

definition int_store :: "int \<Rightarrow> 'a list \<Rightarrow> 'a list \<Rightarrow> 'a list res" where
  "int_store off bs xs = (if bs = [] then Inr xs else if off < 0 then Inl UndefinedBehaviour else buf_store (nat off) bs xs)"

definition getPositionIds :: "kv_segment list \<Rightarrow> (int \<times> int) list \<Rightarrow> nat \<Rightarrow> int list res" where
  "getPositionIds segs in_segs padded_len =
     rfor (\<lambda>(s, (in_start, in_len)) ids. int_store in_start (map (\<lambda>j. seg_len s + int j) [0..<nat in_len]) ids)
       (zip segs in_segs) (replicate padded_len 0)"

definition cb_mask_row :: "int \<Rightarrow> int \<Rightarrow> kv_segment \<Rightarrow> int \<Rightarrow> int \<Rightarrow> f32 list \<Rightarrow> f32 list res" where
  "cb_mask_row kv_len w s in_start r msk =
     rbind (int_store ((in_start + r) * w + seg_start s) (replicate (nat (seg_len s)) 0) msk)
       (int_store ((in_start + r) * w + kv_len + in_start) (replicate (nat r + 1) 0))"

definition cb_attention_mask :: "kv_segment list \<Rightarrow> (int \<times> int) list \<Rightarrow> nat \<Rightarrow> nat \<Rightarrow> f32 list res" where
  "cb_attention_mask kv_segs in_segs seq_len kv_len =
     rfor (\<lambda>(s, (in_s, in_l)) msk.
         rfor (cb_mask_row (int kv_len) (int (kv_len + seq_len)) s in_s) (map int [0..<nat in_l]) msk)
       (zip kv_segs in_segs) (replicate (seq_len * (kv_len + seq_len)) f32_masked)"

section \<open>Sessions\<close>

datatype session_status = WAITING | RUNNING | COMPLETED

record session =
  ses_id :: string
  ses_query :: "int list"
  ses_query_len :: int
  ses_processed :: int
  ses_status :: session_status
  ses_generated :: "int list"
  ses_generated_len :: int
  ses_max_tokens :: int
  ses_pending :: int

definition addSession :: "string \<Rightarrow> int list \<Rightarrow> int \<Rightarrow> session list \<Rightarrow> session list" where
  "addSession sid query max_tokens ss = ss @ [\<lparr> ses_id = sid, ses_query = query, ses_query_len = int (length query),
     ses_processed = 0, ses_status = WAITING, ses_generated = [], ses_generated_len = 0,
     ses_max_tokens = max_tokens, ses_pending = 0 \<rparr>]"

definition getSession :: "string \<Rightarrow> session list \<Rightarrow> session option" where
  "getSession sid ss = List.find (\<lambda>s. ses_id s = sid) ss"

definition updateSession :: "string \<Rightarrow> int \<Rightarrow> session list \<Rightarrow> session list" where
  "updateSession sid n = update_first (\<lambda>s. ses_id s = sid) (\<lambda>s. s\<lparr> ses_processed := ses_processed s + n \<rparr>)"

definition completeSession :: "string \<Rightarrow> session list \<Rightarrow> session list" where
  "completeSession sid = update_first (\<lambda>s. ses_id s = sid) (\<lambda>s. s\<lparr> ses_status := COMPLETED \<rparr>)"

definition removeSession :: "string \<Rightarrow> session list \<Rightarrow> session list" where
  "removeSession sid ss = filter (\<lambda>s. ses_id s \<noteq> sid) ss"

definition hasActiveSessions :: "session list \<Rightarrow> bool" where
  "hasActiveSessions ss = list_ex (\<lambda>s. ses_status s \<noteq> COMPLETED) ss"

definition start_session :: "session \<Rightarrow> session" where
  "start_session s = (if ses_status s = WAITING then s\<lparr> ses_status := RUNNING \<rparr> else s)"

text \<open>
  The scan of \<open>getNextBatch\<close> from session \<open>i\<close> on: the sessions with their new status and the
  indices of the chosen ones; leaving the loop keeps the rest as it is.
\<close>

fun next_batch_from :: "int \<Rightarrow> int \<Rightarrow> nat \<Rightarrow> session list \<Rightarrow> session list \<times> nat list" where
  "next_batch_from budget used i [] = ([], [])"
| "next_batch_from budget used i (s # ss) =
     (if ses_status s = COMPLETED
      then (case next_batch_from budget used (i + 1) ss of (ss', out) \<Rightarrow> (s # ss', out))
      else let prefill = (ses_processed s < ses_query_len s);
               need = (if prefill then min (ses_query_len s - ses_processed s) (budget - used) else 1)
           in if (if prefill then need \<le> 0 else budget < used + 1) then (s # ss, [])
              else (case next_batch_from budget (used + need) (i + 1) ss of (ss', out) \<Rightarrow> (start_session s # ss', i # out)))"

definition getNextBatch :: "int \<Rightarrow> session list \<Rightarrow> session list \<times> nat list" where
  "getNextBatch budget ss = next_batch_from budget 0 0 ss"

section \<open>Segments stay in order\<close>

text \<open>From position \<open>pos\<close> on, one behind the other, none overlapping the next.\<close>

primrec segs_from :: "int \<Rightarrow> kv_segment list \<Rightarrow> bool" where
  "segs_from pos [] \<longleftrightarrow> True"
| "segs_from pos (s # segs) \<longleftrightarrow> pos \<le> seg_start s \<and> 0 \<le> seg_len s \<and> segs_from (seg_end s) segs"

definition segs_ok :: "kv_segment list \<Rightarrow> bool" where
  "segs_ok segs \<longleftrightarrow> segs_from 0 segs"

lemma segs_from_mono: "segs_from p segs \<Longrightarrow> q \<le> p \<Longrightarrow> segs_from q segs"
  by (cases segs) auto

lemma segs_from_member: "segs_from p segs \<Longrightarrow> s \<in> set segs \<Longrightarrow> p \<le> seg_start s \<and> 0 \<le> seg_len s"
  by (induction segs arbitrary: p) (force simp: seg_end_def)+

lemma segs_from_snoc:
  "segs_from p (segs @ [s]) \<longleftrightarrow> segs_from p segs \<and> 0 \<le> seg_len s
     \<and> (if segs = [] then p else seg_end (last segs)) \<le> seg_start s"
  by (induction segs arbitrary: p) auto

lemma kv_allocate_ok: "segs_ok segs \<Longrightarrow> 0 \<le> len \<Longrightarrow> segs_ok (kv_allocate sid len segs)"
  by (simp add: segs_ok_def kv_allocate_def segs_from_snoc)

lemma kv_release_ok: "segs_ok segs \<Longrightarrow> segs_ok (kv_release sid segs)"
proof -
  have "segs_from p segs \<Longrightarrow> segs_from p (remove_first P segs)" for p P
  proof (induction segs arbitrary: p)
    case (Cons s segs)
    then show ?case using segs_from_mono [of "seg_end s" segs p] by (auto simp: seg_end_def)
  qed simp
  then show "segs_ok segs \<Longrightarrow> segs_ok (kv_release sid segs)" by (simp add: segs_ok_def kv_release_def)
qed

section \<open>Moves on a row\<close>

text \<open>A move on the tokens of one cache row, and the tokens of a segment.\<close>

definition move_tokens :: "move_op \<Rightarrow> 'a list \<Rightarrow> 'a list res" where
  "move_tokens = (\<lambda>(src, dst, n) row.
     if src < 0 \<or> dst < 0 \<or> n < 0 then Inl UndefinedBehaviour else buf_memmove (nat dst) (nat src) (nat n) row)"

definition seg_tokens :: "'a list \<Rightarrow> kv_segment \<Rightarrow> 'a list" where
  "seg_tokens row s = slice (nat (seg_start s)) (nat (seg_len s)) row"

lemma move_tokens_ok:
  assumes "0 \<le> src" "0 \<le> dst" "0 \<le> n" "src + n \<le> int (length row)" "dst + n \<le> int (length row)"
  shows "\<exists>row'. move_tokens (src, dst, n) row = Inr row' \<and> length row' = length row
     \<and> slice (nat dst) (nat n) row' = slice (nat src) (nat n) row
     \<and> (\<forall>a k. (int a + int k \<le> dst \<or> dst + n \<le> int a) \<and> a + k \<le> length row \<longrightarrow> slice a k row' = slice a k row)"
proof -
  let ?bs = "slice (nat src) (nat n) row"
  have l: "length ?bs = nat n" using assms by (intro length_slice) linarith
  have "move_tokens (src, dst, n) row = Inr (blit (nat dst) ?bs row)"
    using assms by (simp add: move_tokens_def buf_memmove_def nat_le_iff nat_add_distrib [symmetric])
  moreover have "length (blit (nat dst) ?bs row) = length row" using assms l by (intro length_blit) linarith
  moreover have "slice (nat dst) (nat n) (blit (nat dst) ?bs row) = ?bs"
    using slice_blit_same [of "nat dst" row ?bs] l assms by simp
  moreover have "slice a k (blit (nat dst) ?bs row) = slice a k row"
    if "int a + int k \<le> dst \<or> dst + n \<le> int a" "a + k \<le> length row" for a k
    using that l assms by (intro slice_blit_other) linarith+
  ultimately show ?thesis by blast
qed

definition row_fits :: "kv_segment list \<Rightarrow> 'a list \<Rightarrow> bool" where
  "row_fits segs row \<longleftrightarrow> (\<forall>s \<in> set segs. seg_end s \<le> int (length row))"

text \<open>Nothing in front of \<open>pos\<close> changes, and each segment keeps its tokens.\<close>

definition keeps_tokens :: "int \<Rightarrow> kv_segment list \<Rightarrow> 'a list \<Rightarrow> kv_segment list \<Rightarrow> 'a list \<Rightarrow> bool" where
  "keeps_tokens pos segs row segs' row' \<longleftrightarrow> length row' = length row
     \<and> (\<forall>a k. int a + int k \<le> pos \<and> a + k \<le> length row \<longrightarrow> slice a k row' = slice a k row)
     \<and> map (seg_tokens row') segs' = map (seg_tokens row) segs
     \<and> map seg_id segs' = map seg_id segs \<and> map seg_len segs' = map seg_len segs"

lemma compact_from_ok:
  assumes "0 \<le> pos" "segs_from pos segs" "row_fits segs row" "compact_from pos segs = (segs', ms)"
  shows "segs_from pos segs' \<and> (\<exists>row'. rfor move_tokens ms row = Inr row' \<and> keeps_tokens pos segs row segs' row')"
  using assms
proof (induction segs arbitrary: pos row segs' ms)
  case Nil
  then show ?case by (simp add: keeps_tokens_def)
next
  case (Cons s segs)
  define moved where "moved = (seg_start s \<noteq> pos \<and> 0 < seg_len s)"
  define s' where "s' = (if moved then s\<lparr> seg_start := pos \<rparr> else s)"
  obtain segs2 ms2 where rest: "compact_from (seg_end s') segs = (segs2, ms2)" by fastforce
  have out: "segs' = s' # segs2" "ms = (if moved then [(seg_start s, pos, seg_len s)] else []) @ ms2"
    using Cons.prems(4) rest by (simp_all add: Let_def moved_def s'_def)
  have s: "pos \<le> seg_start s" "0 \<le> seg_len s" "segs_from (seg_end s) segs" "seg_end s \<le> int (length row)"
    using Cons.prems(2,3) by (auto simp: row_fits_def)
  have e: "0 \<le> seg_end s'" "seg_end s' \<le> seg_end s" "pos \<le> seg_start s'" "seg_len s' = seg_len s" "seg_id s' = seg_id s"
    using s Cons.prems(1) by (auto simp: s'_def seg_end_def)
  have "\<exists>row1. rfor move_tokens (if moved then [(seg_start s, pos, seg_len s)] else []) row = Inr row1
      \<and> length row1 = length row \<and> seg_tokens row1 s' = seg_tokens row s
      \<and> (\<forall>a k. (int a + int k \<le> pos \<or> seg_end s \<le> int a) \<and> a + k \<le> length row \<longrightarrow> slice a k row1 = slice a k row)"
  proof (cases moved)
    case False
    then show ?thesis by (simp add: s'_def)
  next
    case True
    from move_tokens_ok [of "seg_start s" pos "seg_len s" row] s Cons.prems(1) obtain row1 where
      r: "move_tokens (seg_start s, pos, seg_len s) row = Inr row1" "length row1 = length row"
        "slice (nat pos) (nat (seg_len s)) row1 = slice (nat (seg_start s)) (nat (seg_len s)) row"
      and o: "\<And>a k. (int a + int k \<le> pos \<or> pos + seg_len s \<le> int a) \<and> a + k \<le> length row \<Longrightarrow> slice a k row1 = slice a k row"
      by (auto simp: seg_end_def)
    have "slice a k row1 = slice a k row" if "(int a + int k \<le> pos \<or> seg_end s \<le> int a) \<and> a + k \<le> length row" for a k
      using that s(1) by (intro o) (auto simp: seg_end_def)
    with True r show ?thesis by (simp add: s'_def seg_tokens_def)
  qed
  then obtain row1 where r1: "rfor move_tokens (if moved then [(seg_start s, pos, seg_len s)] else []) row = Inr row1"
      "length row1 = length row" "seg_tokens row1 s' = seg_tokens row s"
    and o1: "\<And>a k. (int a + int k \<le> pos \<or> seg_end s \<le> int a) \<and> a + k \<le> length row \<Longrightarrow> slice a k row1 = slice a k row"
    by blast
  have fits: "row_fits segs row1" using Cons.prems(3) r1(2) by (simp add: row_fits_def)
  from Cons.IH [OF e(1) segs_from_mono [OF s(3) e(2)] fits rest] obtain row2 where
    r2: "segs_from (seg_end s') segs2" "rfor move_tokens ms2 row1 = Inr row2" and k: "keeps_tokens (seg_end s') segs row1 segs2 row2"
    by blast
  have same: "map (seg_tokens row1) segs = map (seg_tokens row) segs"
  proof (rule map_cong [OF refl])
    fix t assume t: "t \<in> set segs"
    have "seg_end s \<le> seg_start t" "0 \<le> seg_len t" "seg_end t \<le> int (length row)"
      using segs_from_member [OF s(3) t] Cons.prems(3) t by (auto simp: row_fits_def)
    moreover have "0 \<le> seg_end s" using e(1,2) by linarith
    ultimately show "seg_tokens row1 t = seg_tokens row t"
      unfolding seg_tokens_def by (intro o1) (auto simp: seg_end_def)
  qed
  have "seg_tokens row2 s' = seg_tokens row1 s'"
    using k e s Cons.prems(1) r1(2) unfolding seg_tokens_def keeps_tokens_def
    by (elim conjE allE [of _ "nat (seg_start s')"] allE [of _ "nat (seg_len s')"]) (auto simp: seg_end_def)
  moreover have "slice a n row2 = slice a n row" if "int a + int n \<le> pos" "a + n \<le> length row" for a n
  proof -
    have "int a + int n \<le> seg_end s'" using that(1) e(3,4) s(2) by (simp add: seg_end_def)
    then have "slice a n row2 = slice a n row1" using k that(2) r1(2) by (simp add: keeps_tokens_def)
    then show ?thesis using o1 [of a n] that by simp
  qed
  ultimately have "keeps_tokens pos (s # segs) row (s' # segs2) row2"
    using k same r1(2,3) e(4,5) by (simp add: keeps_tokens_def)
  moreover have "rfor move_tokens ms row = Inr row2" using out(2) r1(1) r2(2) by (simp add: rfor_append)
  moreover have "segs_from pos segs'" using out(1) r2(1) e(3,4) s(2) by simp
  ultimately show ?case using out(1) by blast
qed

text \<open>Compaction leaves no gap, as long as no segment is empty.\<close>

primrec packed_from :: "int \<Rightarrow> kv_segment list \<Rightarrow> bool" where
  "packed_from pos [] \<longleftrightarrow> True"
| "packed_from pos (s # segs) \<longleftrightarrow> seg_start s = pos \<and> packed_from (seg_end s) segs"

lemma compact_from_packed:
  "(\<And>s. s \<in> set segs \<Longrightarrow> 0 < seg_len s) \<Longrightarrow> compact_from pos segs = (segs', ms) \<Longrightarrow> packed_from pos segs'"
proof (induction segs arbitrary: pos segs' ms)
  case (Cons s segs)
  let ?s = "if seg_start s \<noteq> pos then s\<lparr> seg_start := pos \<rparr> else s"
  obtain segs2 ms2 where rest: "compact_from (seg_end ?s) segs = (segs2, ms2)" by fastforce
  have "segs' = ?s # segs2" using Cons.prems rest by (auto simp: Let_def split: if_splits)
  moreover have "packed_from (seg_end ?s) segs2" using Cons.IH [OF _ rest] Cons.prems(1) by simp
  ultimately show ?case by simp
qed simp

section \<open>Making room\<close>

text \<open>The segments grown by what the batch will write behind them.\<close>

definition grown :: "(string \<Rightarrow> int) \<Rightarrow> kv_segment \<Rightarrow> kv_segment" where
  "grown growth s = s\<lparr> seg_len := seg_len s + growth (seg_id s) \<rparr>"

definition shift_all :: "(string \<Rightarrow> int) \<Rightarrow> int \<Rightarrow> kv_segment list \<Rightarrow> kv_segment list" where
  "shift_all growth k segs = map shift_segment (zip segs (shift_amounts growth k segs))"

definition shift_ops :: "(string \<Rightarrow> int) \<Rightarrow> int \<Rightarrow> kv_segment list \<Rightarrow> move_op list" where
  "shift_ops growth k segs = concat (map shift_move (rev (zip segs (shift_amounts growth k segs))))"

lemma shift_all_simps:
  "shift_all growth k [] = []"
  "shift_all growth k (s # segs) = shift_segment (s, k) # shift_all growth (k + growth (seg_id s)) segs"
  by (simp_all add: shift_all_def)

lemma shift_ops_simps:
  "shift_ops growth k [] = []"
  "shift_ops growth k (s # segs) = shift_ops growth (k + growth (seg_id s)) segs @ shift_move (s, k)"
  by (simp_all add: shift_ops_def)

text \<open>The room the shifted segments need at the right end.\<close>

definition room :: "(string \<Rightarrow> int) \<Rightarrow> int \<Rightarrow> kv_segment list \<Rightarrow> int \<Rightarrow> bool" where
  "room growth k segs cap \<longleftrightarrow> (\<forall>s \<in> set (shift_all growth k segs). seg_end s \<le> cap)"

text \<open>
  The moves run from the right: what is behind a segment has already left, and nothing in
  front of the first segment is touched.
\<close>

lemma shift_ops_ok:
  assumes "0 \<le> k" "\<And>i. 0 \<le> growth i" "0 \<le> pos" "segs_from pos segs" "room growth k segs (int (length row))"
  shows "\<exists>row'. rfor move_tokens (shift_ops growth k segs) row = Inr row'
     \<and> keeps_tokens pos segs row (shift_all growth k segs) row'"
  using assms
proof (induction segs arbitrary: k pos row)
  case Nil
  then show ?case by (simp add: shift_ops_simps shift_all_simps keeps_tokens_def)
next
  case (Cons s segs)
  let ?g = "growth (seg_id s)" and ?s = "shift_segment (s, k)"
  have s: "pos \<le> seg_start s" "0 \<le> seg_len s" "segs_from (seg_end s) segs" using Cons.prems(4) by simp_all
  have pos: "0 \<le> seg_end s" using s Cons.prems(3) by (simp add: seg_end_def)
  have rm: "room growth (k + ?g) segs (int (length row))" "seg_end ?s \<le> int (length row)"
    using Cons.prems(5) by (simp_all add: room_def shift_all_simps)
  from Cons.IH [OF _ Cons.prems(2) pos s(3) rm(1)] Cons.prems(1,2) obtain row1 where
    r1: "rfor move_tokens (shift_ops growth (k + ?g) segs) row = Inr row1"
    and k1: "keeps_tokens (seg_end s) segs row (shift_all growth (k + ?g) segs) row1" by force
  have l1: "length row1 = length row" using k1 by (simp add: keeps_tokens_def)
  have ss: "seg_len ?s = seg_len s" "seg_id ?s = seg_id s" "seg_start ?s = seg_start s + k"
    using Cons.prems(1) by (auto simp: shift_segment_def)
  have cap: "seg_end s \<le> int (length row)" "seg_start s + k + seg_len s \<le> int (length row)"
    using rm(2) ss Cons.prems(1) by (simp_all add: seg_end_def)
  have own: "seg_tokens row1 s = seg_tokens row s"
    using k1 s(1,2) Cons.prems(3) cap(1) unfolding seg_tokens_def keeps_tokens_def
    by (elim conjE allE [of _ "nat (seg_start s)"] allE [of _ "nat (seg_len s)"]) (auto simp: seg_end_def)
  have "\<exists>row2. rfor move_tokens (shift_move (s, k)) row1 = Inr row2 \<and> length row2 = length row
      \<and> seg_tokens row2 ?s = seg_tokens row1 s
      \<and> (\<forall>a n. (int a + int n \<le> pos \<or> seg_end s + k \<le> int a) \<and> a + n \<le> length row \<longrightarrow> slice a n row2 = slice a n row1)"
  proof (cases "0 < k \<and> 0 < seg_len s")
    case False
    then have "k = 0 \<or> seg_len s = 0" using Cons.prems(1) s(2) by linarith
    then show ?thesis using False l1 ss by (auto simp: shift_move_def seg_tokens_def)
  next
    case True
    from move_tokens_ok [of "seg_start s" "seg_start s + k" "seg_len s" row1] s Cons.prems(1,3) cap l1 obtain row2 where
      r: "move_tokens (seg_start s, seg_start s + k, seg_len s) row1 = Inr row2" "length row2 = length row1"
        "slice (nat (seg_start s + k)) (nat (seg_len s)) row2 = slice (nat (seg_start s)) (nat (seg_len s)) row1"
      and o: "\<And>a n. (int a + int n \<le> seg_start s + k \<or> seg_start s + k + seg_len s \<le> int a) \<and> a + n \<le> length row1
        \<Longrightarrow> slice a n row2 = slice a n row1"
      by (auto simp: seg_end_def)
    have "slice a n row2 = slice a n row1"
      if "(int a + int n \<le> pos \<or> seg_end s + k \<le> int a) \<and> a + n \<le> length row" for a n
      using that s(1) Cons.prems(1) l1 by (intro o) (auto simp: seg_end_def)
    with True r l1 ss show ?thesis by (simp add: shift_move_def seg_tokens_def)
  qed
  then obtain row2 where r2: "rfor move_tokens (shift_move (s, k)) row1 = Inr row2" "length row2 = length row"
      "seg_tokens row2 ?s = seg_tokens row1 s"
    and o2: "\<And>a n. (int a + int n \<le> pos \<or> seg_end s + k \<le> int a) \<and> a + n \<le> length row \<Longrightarrow> slice a n row2 = slice a n row1"
    by blast
  have tail: "map (seg_tokens row2) (shift_all growth (k + ?g) segs) = map (seg_tokens row1) (shift_all growth (k + ?g) segs)"
  proof (rule map_cong [OF refl])
    fix t assume t: "t \<in> set (shift_all growth (k + ?g) segs)"
    have "seg_end s + k \<le> seg_start t \<and> 0 \<le> seg_len t"
    proof -
      have "t \<in> set (shift_all growth k' ss) \<Longrightarrow> segs_from p ss \<Longrightarrow> 0 \<le> k' \<Longrightarrow> p + k' \<le> seg_start t \<and> 0 \<le> seg_len t" for k' ss p
      proof (induction ss arbitrary: k' p)
        case (Cons u us)
        from Cons.prems(1) consider "t = shift_segment (u, k')" | "t \<in> set (shift_all growth (k' + growth (seg_id u)) us)"
          by (auto simp: shift_all_simps)
        then show ?case
        proof cases
          case 1
          then show ?thesis using Cons.prems(2,3) by (auto simp: shift_segment_def)
        next
          case 2
          have g: "0 \<le> growth (seg_id u)" using assms(2) .
          have "seg_end u + (k' + growth (seg_id u)) \<le> seg_start t \<and> 0 \<le> seg_len t"
            using Cons.IH [OF 2, of "seg_end u"] Cons.prems(2,3) g by simp
          then show ?thesis using Cons.prems(2) g by (auto simp: seg_end_def)
        qed
      qed (simp add: shift_all_simps)
      from this [OF t s(3)] Cons.prems(1,2) show ?thesis by (smt (verit))
    qed
    moreover have "seg_end t \<le> int (length row)" using rm(1) t by (simp add: room_def)
    ultimately show "seg_tokens row2 t = seg_tokens row1 t"
      unfolding seg_tokens_def using pos Cons.prems(1) by (intro o2) (auto simp: seg_end_def)
  qed
  have "slice a n row2 = slice a n row" if "int a + int n \<le> pos" "a + n \<le> length row" for a n
  proof -
    have "int a + int n \<le> seg_end s" using that(1) s(1,2) by (simp add: seg_end_def)
    then have "slice a n row1 = slice a n row" using k1 that(2) by (simp add: keeps_tokens_def)
    then show ?thesis using o2 [of a n] that by simp
  qed
  then have "keeps_tokens pos (s # segs) row (shift_all growth k (s # segs)) row2"
    using k1 tail r2(2,3) own ss by (simp add: keeps_tokens_def shift_all_simps)
  then show ?case using r1 r2(1) by (intro exI [of _ row2]) (simp add: shift_ops_simps rfor_append)
qed

text \<open>Seating the empty segments leaves the tokens alone and gives every segment its room.\<close>

lemma seat_empty_tokens:
  "map (seg_tokens row) (seat_empty growth p segs) = map (seg_tokens row) segs"
  "map seg_id (seat_empty growth p segs) = map seg_id segs" "map seg_len (seat_empty growth p segs) = map seg_len segs"
  by (induction segs arbitrary: p) (simp_all add: Let_def seg_tokens_def)

lemma shift_room:
  assumes "segs_from p segs" "0 \<le> k" "\<And>i. 0 \<le> growth i" "q \<le> p + k"
  shows "segs_from q (map (grown growth) (seat_empty growth q (shift_all growth k segs)))"
  using assms
proof (induction segs arbitrary: p k q)
  case Nil
  then show ?case by (simp add: shift_all_simps)
next
  case (Cons s segs)
  let ?g = "growth (seg_id s)" and ?s = "shift_segment (s, k)"
  have g: "0 \<le> ?g" using Cons.prems(3) .
  have ss: "seg_len ?s = seg_len s" "seg_id ?s = seg_id s" "seg_start ?s = seg_start s + k"
    using Cons.prems(2) by (auto simp: shift_segment_def)
  define s' where "s' = (if seg_len ?s = 0 then ?s\<lparr> seg_start := q \<rparr> else ?s)"
  have s': "q \<le> seg_start s'" "seg_len s' = seg_len s" "seg_id s' = seg_id s" "seg_end s' \<le> seg_end s + k"
    using Cons.prems(1,4) ss by (auto simp: s'_def seg_end_def)
  have "segs_from (seg_end s' + ?g) (map (grown growth) (seat_empty growth (seg_end s' + ?g) (shift_all growth (k + ?g) segs)))"
    using Cons.prems(1,2,3) g s'(4) by (intro Cons.IH [of "seg_end s"]) auto
  moreover have "seat_empty growth q (shift_all growth k (s # segs))
      = s' # seat_empty growth (seg_end s' + growth (seg_id s')) (shift_all growth (k + ?g) segs)"
    by (simp add: shift_all_simps Let_def s'_def)
  moreover have "seg_end (grown growth s') = seg_end s' + ?g" "seg_start (grown growth s') = seg_start s'"
    "seg_len (grown growth s') = seg_len s' + ?g" using s'(3) by (simp_all add: grown_def seg_end_def)
  ultimately show ?case using s' g Cons.prems(1) by simp
qed

lemma shiftForGrowth_ok:
  assumes "segs_ok segs" "\<And>i. 0 \<le> growth_of gs i" "shiftForGrowth gs segs = (segs', ms)"
    and "\<And>s. s \<in> set (shift_all (growth_of gs) 0 segs) \<Longrightarrow> seg_end s \<le> int (length row)"
  shows "segs_ok (map (grown (growth_of gs)) segs')"
    "\<exists>row'. rfor move_tokens ms row = Inr row' \<and> length row' = length row
       \<and> map (seg_tokens row') segs' = map (seg_tokens row) segs \<and> map seg_id segs' = map seg_id segs"
proof -
  have out: "segs' = seat_empty (growth_of gs) 0 (shift_all (growth_of gs) 0 segs)" "ms = shift_ops (growth_of gs) 0 segs"
    using assms(3) by (simp_all add: shiftForGrowth_def Let_def shift_all_def shift_ops_def)
  show "segs_ok (map (grown (growth_of gs)) segs')"
    using shift_room [of 0 segs 0 "growth_of gs" 0] assms(1,2) by (simp add: out segs_ok_def)
  from shift_ops_ok [of 0 "growth_of gs" 0 segs row] assms obtain row' where
    "rfor move_tokens ms row = Inr row'" "keeps_tokens 0 segs row (shift_all (growth_of gs) 0 segs) row'"
    by (auto simp: out segs_ok_def room_def)
  then show "\<exists>row'. rfor move_tokens ms row = Inr row' \<and> length row' = length row
       \<and> map (seg_tokens row') segs' = map (seg_tokens row) segs \<and> map seg_id segs' = map seg_id segs"
    by (intro exI [of _ row']) (simp add: out seat_empty_tokens keeps_tokens_def)
qed

section \<open>The block-diagonal mask\<close>

text \<open>A session's slice of the cache and of the batch, inside the graph's limits.\<close>

definition slot_ok :: "nat \<Rightarrow> nat \<Rightarrow> kv_segment \<times> int \<times> int \<Rightarrow> bool" where
  "slot_ok seq_len kv_len = (\<lambda>(s, in_s, in_l). 0 \<le> seg_start s \<and> 0 \<le> seg_len s \<and> seg_end s \<le> int kv_len
     \<and> 0 \<le> in_s \<and> 0 \<le> in_l \<and> in_s + in_l \<le> int seq_len)"

definition slot_visible :: "nat \<Rightarrow> kv_segment \<times> int \<times> int \<Rightarrow> nat \<Rightarrow> nat \<Rightarrow> bool" where
  "slot_visible kv_len = (\<lambda>(s, in_s, in_l) row col. in_s \<le> int row \<and> int row < in_s + in_l
     \<and> (seg_start s \<le> int col \<and> int col < seg_end s
        \<or> int kv_len + in_s \<le> int col \<and> int col \<le> int (kv_len + row)))"

lemma int_store_nat: "buf_store n vs b = Inr b' \<Longrightarrow> int_store (int n) vs b = Inr b'"
  by (auto simp: int_store_def buf_store_def split: if_splits)

lemma cb_mask_row_ok:
  assumes ok: "slot_ok seq_len kv_len (s, in_s, in_l)" and k: "int k < in_l"
    and l: "length msk = seq_len * (kv_len + seq_len)" and row: "row = nat in_s + k"
  shows "\<exists>msk'. cb_mask_row (int kv_len) (int (kv_len + seq_len)) s in_s (int k) msk = Inr msk'
     \<and> length msk' = seq_len * (kv_len + seq_len)
     \<and> (\<forall>r < seq_len. \<forall>c < kv_len + seq_len. mask_at (kv_len + seq_len) msk' r c
          = (if r = row \<and> slot_visible kv_len (s, in_s, in_l) row c then 0 else mask_at (kv_len + seq_len) msk r c))"
proof -
  let ?w = "kv_len + seq_len"
  have b: "0 \<le> seg_start s" "0 \<le> seg_len s" "seg_end s \<le> int kv_len" "0 \<le> in_s" "in_s + in_l \<le> int seq_len"
    using ok by (simp_all add: slot_ok_def)
  have r: "row < seq_len" "int row = in_s + int k" using b k row by linarith+
  have i1: "(in_s + int k) * int ?w + seg_start s = int (row * ?w + nat (seg_start s))" using b r by simp
  have i2: "(in_s + int k) * int ?w + int kv_len + in_s = int (row * ?w + (kv_len + nat in_s))" using b r by simp
  have f: "nat (seg_start s) + nat (seg_len s) \<le> ?w" using b by (simp add: seg_end_def)
  from mask_store [OF l r(1) f, of 0] obtain m1 where
    m1: "buf_store (row * ?w + nat (seg_start s)) (replicate (nat (seg_len s)) 0) msk = Inr m1" "length m1 = seq_len * ?w"
      "\<forall>r < seq_len. \<forall>c < ?w. mask_at ?w m1 r c
        = (if r = row \<and> nat (seg_start s) \<le> c \<and> c < nat (seg_start s) + nat (seg_len s) then 0 else mask_at ?w msk r c)" by blast
  have g: "kv_len + nat in_s + (k + 1) \<le> ?w" using b k by linarith
  from mask_store [OF m1(2) r(1) g, of 0] obtain m2 where
    m2: "buf_store (row * ?w + (kv_len + nat in_s)) (replicate (k + 1) 0) m1 = Inr m2" "length m2 = seq_len * ?w"
      "\<forall>r < seq_len. \<forall>c < ?w. mask_at ?w m2 r c
        = (if r = row \<and> kv_len + nat in_s \<le> c \<and> c < kv_len + nat in_s + (k + 1) then 0 else mask_at ?w m1 r c)" by blast
  have 2: "int_store ((in_s + int k) * int ?w + seg_start s) (replicate (nat (seg_len s)) 0) msk = Inr m1"
    unfolding i1 by (rule int_store_nat [OF m1(1)])
  have 3: "int_store ((in_s + int k) * int ?w + int kv_len + in_s) (replicate (k + 1) 0) m1 = Inr m2"
    unfolding i2 by (rule int_store_nat [OF m2(1)])
  have "cb_mask_row (int kv_len) (int ?w) s in_s (int k) msk = Inr m2"
    unfolding cb_mask_row_def 2 rbind_simps using 3 by (simp add: nat_add_distrib)
  moreover have "mask_at ?w m2 r c = (if r = row \<and> slot_visible kv_len (s, in_s, in_l) row c then 0 else mask_at ?w msk r c)"
    if "r < seq_len" "c < ?w" for r c
  proof -
    have "nat (seg_start s) \<le> c \<and> c < nat (seg_start s) + nat (seg_len s) \<longleftrightarrow> seg_start s \<le> int c \<and> int c < seg_end s"
      using b by (auto simp: seg_end_def)
    moreover have "kv_len + nat in_s \<le> c \<and> c < kv_len + nat in_s + (k + 1) \<longleftrightarrow> int kv_len + in_s \<le> int c \<and> int c \<le> int (kv_len + row)"
      using b row by auto
    moreover have "in_s \<le> int row" "int row < in_s + in_l" using r(2) k by simp_all
    ultimately show ?thesis using m1(3) m2(3) that by (auto simp: slot_visible_def)
  qed
  ultimately show ?thesis using m2(2) by blast
qed

lemma cb_attention_mask_ok:
  assumes ok: "\<And>p. p \<in> set (zip kv_segs in_segs) \<Longrightarrow> slot_ok seq_len kv_len p"
  shows "\<exists>msk. cb_attention_mask kv_segs in_segs seq_len kv_len = Inr msk \<and> length msk = seq_len * (kv_len + seq_len)
     \<and> (\<forall>r < seq_len. \<forall>c < kv_len + seq_len. mask_at (kv_len + seq_len) msk r c
          = (if \<exists>p \<in> set (zip kv_segs in_segs). slot_visible kv_len p r c then 0 else f32_masked))"
proof -
  let ?w = "kv_len + seq_len" and ?ps = "zip kv_segs in_segs"
  let ?f = "\<lambda>(s, in_s, in_l) msk. rfor (cb_mask_row (int kv_len) (int ?w) s in_s) (map int [0..<nat in_l]) msk"
  define I where "I k msk \<longleftrightarrow> length msk = seq_len * ?w \<and> (\<forall>r < seq_len. \<forall>c < ?w. mask_at ?w msk r c
      = (if \<exists>p \<in> set (take k ?ps). slot_visible kv_len p r c then 0 else f32_masked))" for k msk
  have "\<exists>msk. rfor ?f ?ps (replicate (seq_len * ?w) f32_masked) = Inr msk \<and> I (length ?ps) msk"
  proof (rule rfor_total)
    show "I 0 (replicate (seq_len * ?w) f32_masked)"
      using row_col_less by (auto simp: I_def mask_at_def)
  next
    fix k m0 assume k: "k < length ?ps" and i: "I k m0"
    obtain s in_s in_l where p: "?ps ! k = (s, in_s, in_l)" by (cases "?ps ! k") auto
    then have okp: "slot_ok seq_len kv_len (s, in_s, in_l)" using ok k nth_mem by metis
    define J where "J j m \<longleftrightarrow> length m = seq_len * ?w \<and> (\<forall>r < seq_len. \<forall>c < ?w. mask_at ?w m r c
        = (if int r < in_s + int j \<and> slot_visible kv_len (s, in_s, in_l) r c then 0 else mask_at ?w m0 r c))" for j m
    have "\<exists>m. rfor (cb_mask_row (int kv_len) (int ?w) s in_s) (map int [0..<nat in_l]) m0 = Inr m \<and> J (length (map int [0..<nat in_l])) m"
    proof (rule rfor_total)
      show "J 0 m0" using i by (auto simp: J_def I_def slot_visible_def)
    next
      fix j m assume j: "j < length (map int [0..<nat in_l])" and Jm: "J j m"
      then have jl: "int j < in_l" by auto
      have ins: "0 \<le> in_s" using okp by (simp add: slot_ok_def)
      from cb_mask_row_ok [OF okp jl _ refl, of m] Jm obtain m' where
        m': "cb_mask_row (int kv_len) (int ?w) s in_s (int j) m = Inr m'" "length m' = seq_len * ?w"
          "\<forall>r < seq_len. \<forall>c < ?w. mask_at ?w m' r c
          = (if r = nat in_s + j \<and> slot_visible kv_len (s, in_s, in_l) (nat in_s + j) c then 0 else mask_at ?w m r c)"
        by (auto simp: J_def)
      have "J (Suc j) m'"
        unfolding J_def
      proof (intro conjI allI impI)
        fix r c assume "r < seq_len" "c < ?w"
        moreover have "int r < in_s + int (Suc j) \<longleftrightarrow> int r < in_s + int j \<or> r = nat in_s + j" using ins by linarith
        ultimately show "mask_at ?w m' r c
            = (if int r < in_s + int (Suc j) \<and> slot_visible kv_len (s, in_s, in_l) r c then 0 else mask_at ?w m0 r c)"
          using m'(3) Jm by (auto simp: J_def)
      qed (rule m'(2))
      then show "\<exists>m'. cb_mask_row (int kv_len) (int ?w) s in_s (map int [0..<nat in_l] ! j) m = Inr m' \<and> J (Suc j) m'"
        using m'(1) j by auto
    qed
    then obtain m where m: "?f (?ps ! k) m0 = Inr m" and Jm: "J (nat in_l) m" using p by auto
    have "I (Suc k) m"
      unfolding I_def
    proof (intro conjI allI impI)
      show "length m = seq_len * ?w" using Jm by (simp add: J_def)
      fix r c assume rc: "r < seq_len" "c < ?w"
      have "slot_visible kv_len (s, in_s, in_l) r c \<Longrightarrow> int r < in_s + int (nat in_l)"
        by (auto simp: slot_visible_def)
      moreover have "take (Suc k) ?ps = take k ?ps @ [(s, in_s, in_l)]" using k p by (simp add: take_Suc_conv_app_nth)
      ultimately show "mask_at ?w m r c = (if \<exists>p \<in> set (take (Suc k) ?ps). slot_visible kv_len p r c then 0 else f32_masked)"
        using Jm i rc by (auto simp: J_def I_def)
    qed
    with m show "\<exists>m. ?f (?ps ! k) m0 = Inr m \<and> I (Suc k) m" by blast
  qed
  then show ?thesis by (auto simp: cb_attention_mask_def I_def)
qed

section \<open>The choice of a batch\<close>

text \<open>What the chosen sessions need, in the order of the batch.\<close>

definition session_need :: "int \<Rightarrow> int \<Rightarrow> session \<Rightarrow> int" where
  "session_need budget used s =
     (if ses_processed s < ses_query_len s then min (ses_query_len s - ses_processed s) (budget - used) else 1)"

fun needs_from :: "int \<Rightarrow> int \<Rightarrow> session list \<Rightarrow> int list" where
  "needs_from budget used [] = []"
| "needs_from budget used (s # ss) = session_need budget used s # needs_from budget (used + session_need budget used s) ss"

lemma start_session_fields [simp]:
  "ses_id (start_session s) = ses_id s" "ses_processed (start_session s) = ses_processed s"
  "ses_query_len (start_session s) = ses_query_len s" "ses_query (start_session s) = ses_query s"
  "ses_pending (start_session s) = ses_pending s" "ses_max_tokens (start_session s) = ses_max_tokens s"
  "ses_generated_len (start_session s) = ses_generated_len s" "ses_generated (start_session s) = ses_generated s"
  "ses_status (start_session s) = COMPLETED \<longleftrightarrow> ses_status s = COMPLETED"
  by (simp_all add: start_session_def)

lemma session_need_start [simp]: "session_need b u (start_session s) = session_need b u s"
  by (simp add: session_need_def)

lemma next_batch_from_spec:
  assumes "next_batch_from budget used i ss = (ss', out)" "used \<le> budget"
  shows "length ss' = length ss \<and> sorted_wrt (<) out
     \<and> (\<forall>j \<in> set out. i \<le> j \<and> j < i + length ss \<and> ses_status (ss ! (j - i)) \<noteq> COMPLETED)
     \<and> (let ns = needs_from budget used (map (\<lambda>j. ss ! (j - i)) out)
        in (\<forall>n \<in> set ns. 0 < n) \<and> used + sum_list ns \<le> budget)
     \<and> (\<forall>j < length ss. ss' ! j = ss ! j \<or> ss' ! j = start_session (ss ! j))"
  using assms
proof (induction ss arbitrary: used i ss' out)
  case Nil
  then show ?case by simp
next
  case (Cons s ss)
  let ?prefill = "ses_processed s < ses_query_len s"
  let ?need = "session_need budget used s"
  let ?leave = "if ?prefill then ?need \<le> 0 else budget < used + 1"
  have shift: "map (\<lambda>j. (s # ss) ! (j - i)) js = map (\<lambda>j. ss ! (j - (i + 1))) js" if "\<forall>j \<in> set js. i + 1 \<le> j" for js
    using that by (intro map_cong) (auto simp: nth_Cons')
  show ?case
  proof (cases "ses_status s = COMPLETED")
    case True
    obtain ss1 out1 where r: "next_batch_from budget used (i + 1) ss = (ss1, out1)" by fastforce
    then have o: "ss' = s # ss1" "out = out1" using Cons.prems(1) True by auto
    note IH = Cons.IH [OF r Cons.prems(2)]
    have "\<forall>j \<in> set out1. i + 1 \<le> j" using IH by auto
    from shift [OF this] have m: "map (\<lambda>j. (s # ss) ! (j - i)) out = map (\<lambda>j. ss ! (j - (i + 1))) out1"
      using o(2) by simp
    show ?thesis using IH o unfolding m by (auto simp: nth_Cons' Let_def Suc_le_eq)
  next
    case active: False
    show ?thesis
    proof (cases ?leave)
      case True
      then have "ss' = s # ss" "out = []" using Cons.prems(1) active
        by (simp_all add: session_need_def Let_def split: if_splits prod.splits)
      then show ?thesis using Cons.prems(2) by simp
    next
      case False
      obtain ss1 out1 where r: "next_batch_from budget (used + ?need) (i + 1) ss = (ss1, out1)" by fastforce
      then have o: "ss' = start_session s # ss1" "out = i # out1"
        using Cons.prems(1) active False by (auto simp: session_need_def Let_def split: if_splits)
      have n: "0 < ?need" "used + ?need \<le> budget" using False by (auto simp: session_need_def split: if_splits)
      note IH = Cons.IH [OF r n(2)]
      have ge: "\<forall>j \<in> set out1. i + 1 \<le> j" using IH by auto
      have m: "map (\<lambda>j. (s # ss) ! (j - i)) out = s # map (\<lambda>j. ss ! (j - (i + 1))) out1"
        using shift [OF ge] o(2) by simp
      show ?thesis
        using IH o ge n active unfolding m by (auto simp: nth_Cons' Let_def Suc_le_eq)
    qed
  qed
qed

text \<open>A step with an unfinished session and a non-empty graph runs at least one of them.\<close>

lemma next_batch_progress:
  assumes "hasActiveSessions ss" "used < budget" "next_batch_from budget used i ss = (ss', out)"
  shows "out \<noteq> []"
  using assms
proof (induction ss arbitrary: i ss' out)
  case (Cons s ss)
  show ?case
  proof (cases "ses_status s = COMPLETED")
    case True
    obtain ss1 out1 where r: "next_batch_from budget used (i + 1) ss = (ss1, out1)" by fastforce
    with Cons True show ?thesis by (auto simp: hasActiveSessions_def)
  next
    case False
    then show ?thesis using Cons.prems(2,3) by (auto simp: Let_def split: if_splits prod.splits)
  qed
qed (simp add: hasActiveSessions_def)

section \<open>Concrete instances\<close>

theorem kv_compact_keeps:
  assumes "segs_ok segs" "row_fits segs row" "kv_compact segs = (segs', ms)"
  shows "segs_ok segs' \<and> (\<exists>row'. rfor move_tokens ms row = Inr row' \<and> length row' = length row
     \<and> map (seg_tokens row') segs' = map (seg_tokens row) segs
     \<and> map seg_id segs' = map seg_id segs \<and> map seg_len segs' = map seg_len segs)
     \<and> ((\<forall>s \<in> set segs. 0 < seg_len s) \<longrightarrow> packed_from 0 segs')"
  using compact_from_ok [of 0 segs row segs' ms] compact_from_packed [of segs 0 segs' ms] assms
  by (auto simp: segs_ok_def kv_compact_def keeps_tokens_def)

lemma kv_compact_keeps_witness:
  "\<exists>row'. rfor move_tokens [(1, 0, 1), (3, 1, 2)] [9, 5, 9, 6, 7 :: nat] = Inr row' \<and> seg_tokens row' \<lparr> seg_id = ''b'', seg_start = 1, seg_len = 2 \<rparr> = [6, 7]"
proof -
  let ?segs = "[\<lparr> seg_id = ''a'', seg_start = 1, seg_len = 1 \<rparr>, \<lparr> seg_id = ''b'', seg_start = 3, seg_len = 2 \<rparr>]"
  let ?segs' = "[\<lparr> seg_id = ''a'', seg_start = 0, seg_len = 1 \<rparr>, \<lparr> seg_id = ''b'', seg_start = 1, seg_len = 2 \<rparr>]"
  have "kv_compact ?segs = (?segs', [(1, 0, 1), (3, 1, 2)])" by (simp add: kv_compact_def seg_end_def)
  from kv_compact_keeps [OF _ _ this, of "[9, 5, 9, 6, 7 :: nat]"] show ?thesis
    by (auto simp: segs_ok_def row_fits_def seg_end_def seg_tokens_def [of "[9, 5, 9, 6, 7]"] slice_def
        simp del: rfor.simps)
qed

theorem shiftForGrowth_keeps:
  assumes "segs_ok segs" "\<And>i. 0 \<le> growth_of gs i" "shiftForGrowth gs segs = (segs', ms)"
    and "\<And>s. s \<in> set (shift_all (growth_of gs) 0 segs) \<Longrightarrow> seg_end s \<le> int (length row)"
  shows "segs_ok (map (grown (growth_of gs)) segs')
     \<and> (\<exists>row'. rfor move_tokens ms row = Inr row' \<and> length row' = length row
       \<and> map (seg_tokens row') segs' = map (seg_tokens row) segs \<and> map seg_id segs' = map seg_id segs)"
  using shiftForGrowth_ok [OF assms] by blast

lemma shiftForGrowth_keeps_witness:
  "\<exists>row'. rfor move_tokens [(1, 3, 2)] [5, 6, 7, 0, 0 :: nat] = Inr row' \<and> seg_tokens row' \<lparr> seg_id = ''b'', seg_start = 3, seg_len = 2 \<rparr> = [6, 7]"
proof -
  let ?segs = "[\<lparr> seg_id = ''a'', seg_start = 0, seg_len = 1 \<rparr>, \<lparr> seg_id = ''b'', seg_start = 1, seg_len = 2 \<rparr>]"
  let ?segs' = "[\<lparr> seg_id = ''a'', seg_start = 0, seg_len = 1 \<rparr>, \<lparr> seg_id = ''b'', seg_start = 3, seg_len = 2 \<rparr>]"
  have g: "growth_of [(''a'', 2)] i = (if i = ''a'' then 2 else 0)" for i by (auto simp: growth_of_def)
  have "shiftForGrowth [(''a'', 2)] ?segs = (?segs', [(1, 3, 2)])"
    by (simp add: shiftForGrowth_def Let_def g shift_move_def shift_segment_def)
  from shiftForGrowth_keeps [OF _ _ this, of "[5, 6, 7, 0, 0 :: nat]"]
  have "\<exists>row'. rfor move_tokens [(1, 3, 2)] [5, 6, 7, 0, 0 :: nat] = Inr row' \<and> length row' = length [5, 6, 7, 0, 0 :: nat]
       \<and> map (seg_tokens row') ?segs' = map (seg_tokens [5, 6, 7, 0, 0 :: nat]) ?segs \<and> map seg_id ?segs' = map seg_id ?segs"
    by (rule conjunct2) (auto simp: segs_ok_def seg_end_def g shift_all_simps shift_segment_def)
  then show ?thesis by (auto simp: seg_tokens_def [of "[5, 6, 7, 0, 0]"] slice_def simp del: rfor.simps)
qed

lemma demo_slots:
  "slot_ok 3 4 (\<lparr> seg_id = ''a'', seg_start = 0, seg_len = 2 \<rparr>, 0, 1)"
  "slot_ok 3 4 (\<lparr> seg_id = ''b'', seg_start = 2, seg_len = 1 \<rparr>, 1, 2)"
  by (simp_all add: slot_ok_def seg_end_def)

text \<open>The mask isolates the sessions: what a row of a session may see is the session's own.\<close>

text \<open>C9: in the block-diagonal mask of a batch a row of one session sees exactly that session's
  segment of the cache and its own earlier tokens: no session sees another's\<close>

theorem cb_mask_isolates:
  assumes "\<And>p. p \<in> set (zip kv_segs in_segs) \<Longrightarrow> slot_ok seq_len kv_len p"
    and "\<And>p q. p \<in> set (zip kv_segs in_segs) \<Longrightarrow> q \<in> set (zip kv_segs in_segs) \<Longrightarrow> p \<noteq> q
      \<Longrightarrow> fst (snd p) + snd (snd p) \<le> fst (snd q) \<or> fst (snd q) + snd (snd q) \<le> fst (snd p)"
    and "(s, a, n) \<in> set (zip kv_segs in_segs)" "a \<le> int row" "int row < a + n" "row < seq_len"
  shows "\<exists>msk. cb_attention_mask kv_segs in_segs seq_len kv_len = Inr msk \<and> length msk = seq_len * (kv_len + seq_len)
     \<and> (\<forall>c < kv_len + seq_len. mask_at (kv_len + seq_len) msk row c
          = (if seg_start s \<le> int c \<and> int c < seg_end s \<or> int kv_len + a \<le> int c \<and> int c \<le> int (kv_len + row)
             then 0 else f32_masked))"
proof -
  from cb_attention_mask_ok [of kv_segs in_segs seq_len kv_len, OF assms(1)] obtain msk where
    m: "cb_attention_mask kv_segs in_segs seq_len kv_len = Inr msk" "length msk = seq_len * (kv_len + seq_len)"
    "\<forall>r < seq_len. \<forall>c < kv_len + seq_len. mask_at (kv_len + seq_len) msk r c
          = (if \<exists>p \<in> set (zip kv_segs in_segs). slot_visible kv_len p r c then 0 else f32_masked)" by blast
  have own: "p = (s, a, n)" if "p \<in> set (zip kv_segs in_segs)" "slot_visible kv_len p row c" for p c
  proof (rule ccontr)
    obtain s' a' n' where p: "p = (s', a', n')" by (cases p)
    assume "p \<noteq> (s, a, n)"
    from assms(2) [OF that(1) assms(3) this] p have "a' + n' \<le> a \<or> a + n \<le> a'" by simp
    moreover from that(2) p have "a' \<le> int row" "int row < a' + n'" by (simp_all add: slot_visible_def)
    ultimately show False using assms(4,5) by linarith
  qed
  then have "(\<exists>p \<in> set (zip kv_segs in_segs). slot_visible kv_len p row c) \<longleftrightarrow> slot_visible kv_len (s, a, n) row c" for c
    using assms(3) by blast
  with m assms(4-6) show ?thesis by (auto simp: slot_visible_def)
qed

lemma cb_mask_isolates_witness:
  "\<exists>msk. cb_attention_mask [\<lparr> seg_id = ''a'', seg_start = 0, seg_len = 2 \<rparr>, \<lparr> seg_id = ''b'', seg_start = 2, seg_len = 1 \<rparr>]
     [(0, 1), (1, 2)] 3 4 = Inr msk \<and> mask_at 7 msk 0 1 = 0 \<and> mask_at 7 msk 0 2 = f32_masked"
proof -
  let ?a = "\<lparr> seg_id = ''a'', seg_start = 0, seg_len = 2 \<rparr>" and ?b = "\<lparr> seg_id = ''b'', seg_start = 2, seg_len = 1 \<rparr>"
  have "\<exists>msk. cb_attention_mask [?a, ?b] [(0, 1), (1, 2)] 3 4 = Inr msk \<and> length msk = 3 * (4 + 3)
     \<and> (\<forall>c < 4 + 3. mask_at (4 + 3) msk 0 c
          = (if seg_start ?a \<le> int c \<and> int c < seg_end ?a \<or> int 4 + 0 \<le> int c \<and> int c \<le> int (4 + 0) then 0 else f32_masked))"
    by (rule cb_mask_isolates) (auto simp: slot_ok_def seg_end_def)
  then show ?thesis by (auto simp: seg_end_def)
qed

theorem getNextBatch_spec:
  assumes "getNextBatch budget ss = (ss', out)" "0 \<le> budget"
  shows "let ns = needs_from budget 0 (map ((!) ss) out) in
     sorted_wrt (<) out \<and> (\<forall>j \<in> set out. j < length ss \<and> ses_status (ss ! j) \<noteq> COMPLETED)
     \<and> (\<forall>n \<in> set ns. 0 < n) \<and> sum_list ns \<le> budget \<and> length ss' = length ss
     \<and> (\<forall>j < length ss. ss' ! j = ss ! j \<or> ss' ! j = start_session (ss ! j))
     \<and> (hasActiveSessions ss \<and> 0 < budget \<longrightarrow> out \<noteq> [])"
  using next_batch_from_spec [of budget 0 0 ss ss' out] next_batch_progress [of ss 0 budget 0 ss' out] assms
  by (auto simp: getNextBatch_def Let_def)

lemma getNextBatch_spec_witness:
  "\<exists>ss' out. getNextBatch 4 (addSession ''b'' [4, 5, 6] 8 (addSession ''a'' [1, 2] 8 [])) = (ss', out)
     \<and> out = [0, 1] \<and> sum_list (needs_from 4 0 (map ((!) (addSession ''b'' [4, 5, 6] 8 (addSession ''a'' [1, 2] 8 []))) out)) \<le> 4"
proof -
  let ?ss = "addSession ''b'' [4, 5, 6] 8 (addSession ''a'' [1, 2] 8 [])"
  have r: "getNextBatch 4 ?ss = (map start_session ?ss, [0, 1])"
    by (simp add: getNextBatch_def addSession_def start_session_def)
  from getNextBatch_spec [OF r] have "sum_list (needs_from 4 0 (map ((!) ?ss) [0, 1])) \<le> 4" by (simp only: Let_def)
  with r show ?thesis by (intro exI conjI) (assumption | rule refl)+
qed

end
