(* ===== verification/CBModel.thy ===== *)
theory CBModel
  imports LLMGenerate CBManager
begin

text \<open>
  \<open>CBLLMModel\<close>, the loop that runs many sessions through one prefill graph
  (\<open>examples/continuous_batching/common/cb/cb_llm_model.h\<close>, \<open>input_provider.h\<close>,
  \<open>token_sampler.h\<close>, \<open>qwen3/qwen3_cb.h\<close>, \<open>llama3_2/llama3_2_cb.h\<close>).

  The scheduler's sessions and the manager's segments are part of the state. A
  \<open>Session*\<close> of a batch is an index into the sessions, which no step moves; the calls that
  go by the session's id are lookups by the id, as in the code.
\<close>

section \<open>State\<close>

text \<open>What the providers of a step see.\<close>

record cb_ctx =
  cx_sessions :: "session list"
  cx_in_segs :: "(int \<times> int) list"
  cx_kv_segs :: "kv_segment list"
  cx_tokens :: "int list"
  cx_seq_len :: nat
  cx_kv_len :: nat

text \<open>\<open>cb_sent\<close> are the calls of the token callback.\<close>

record ('p, 'q) cb = "'p llm" +
  cb_providers :: "'q list"
  cb_sessions :: "session list"
  cb_segs :: "kv_segment list"
  cb_sent :: "(string \<times> int) list"

text \<open>The class \<open>CBInputProvider\<close>: how a provider writes, and its hook after bring-up.\<close>

record 'q cb_env =
  ce_write :: "'q \<Rightarrow> graph \<Rightarrow> cb_ctx \<Rightarrow> mem \<Rightarrow> mem res"
  ce_init :: "'q \<Rightarrow> 'q"

section \<open>The providers of Qwen3 and Llama 3.2\<close>

text \<open>Both adapters have the same two writers; they differ in the padding token and in theta.\<close>

definition cb_token_id_write :: "string \<Rightarrow> int \<Rightarrow> graph \<Rightarrow> cb_ctx \<Rightarrow> mem \<Rightarrow> mem res" where
  "cb_token_id_write name pad_id g ctx m =
     (if \<not> hasInput g name then Inr m
      else rbind (inputSpec g name) (\<lambda>spec.
           let capacity = elementCount spec; n = min (length (cx_tokens ctx)) capacity
           in write_int32 g name (take n (cx_tokens ctx) @ replicate (capacity - n) pad_id) m))"

definition cb_rope_write :: "(int list \<Rightarrow> f64 list \<times> f64 list) \<Rightarrow> string \<Rightarrow> string \<Rightarrow> graph \<Rightarrow> cb_ctx \<Rightarrow> mem \<Rightarrow> mem res" where
  "cb_rope_write forward cos_name sin_name g ctx m =
     (let has_cos = hasInput g cos_name; has_sin = hasInput g sin_name
      in if \<not> has_cos \<and> \<not> has_sin then Inr m
         else rbind (getPositionIds (cx_kv_segs ctx) (cx_in_segs ctx) (cx_seq_len ctx)) (\<lambda>pos.
              let (cos_vec, sin_vec) = forward pos
              in rbind (if has_cos then write_float g cos_name (SrcDouble cos_vec) m else Inr m)
                   (\<lambda>m. if has_sin then write_float g sin_name (SrcDouble sin_vec) m else Inr m)))"

datatype cb_provider =
    CBTokenIdProvider string int
  | CBRoPEProvider nat f32 string string \<comment> \<open>head dimension, theta, tensor names\<close>

fun cb_provider_write :: "libm \<Rightarrow> cb_provider \<Rightarrow> graph \<Rightarrow> cb_ctx \<Rightarrow> mem \<Rightarrow> mem res" where
  "cb_provider_write lm (CBTokenIdProvider name pad_id) g ctx m = cb_token_id_write name pad_id g ctx m"
| "cb_provider_write lm (CBRoPEProvider head_dim theta c s) g ctx m =
     cb_rope_write (rotary_forward lm (rotary_inv_freq lm head_dim theta)) c s g ctx m"

text \<open>The providers \<open>makeModel\<close> registers.\<close>

definition qwen3_cb_providers :: "int list \<Rightarrow> nat \<Rightarrow> f32 \<Rightarrow> cb_provider list" where
  "qwen3_cb_providers eos head_dim theta =
     [CBTokenIdProvider ''input_ids'' (case eos of [] \<Rightarrow> 0 | e # _ \<Rightarrow> e),
      CBRoPEProvider head_dim theta ''position_ids_cos'' ''position_ids_sin'']"

definition llama3_2_cb_providers :: "nat \<Rightarrow> f32 \<Rightarrow> cb_provider list" where
  "llama3_2_cb_providers head_dim theta =
     [CBTokenIdProvider ''input_ids'' 128001, CBRoPEProvider head_dim theta ''position_ids_cos'' ''position_ids_sin'']"

section \<open>Bring-up\<close>

text \<open>\<open>createInputProviders\<close> is overridden by a function that does nothing.\<close>

definition cb_onInitialized :: "'p env \<Rightarrow> 'q cb_env \<Rightarrow> decode_config \<Rightarrow> (('p, 'q) cb, bool) sx" where
  "cb_onInitialized env cenv dc =
     sbind (llm_bring_up (sret ()) env dc) (\<lambda>ok.
       if \<not> ok then sret False
       else sthen (smod (\<lambda>st. st\<lparr> cb_providers := map (ce_init cenv) (cb_providers st) \<rparr>)) (sret True))"

section \<open>The cache\<close>

function cb_target :: "nat list \<Rightarrow> nat \<Rightarrow> int \<Rightarrow> int \<Rightarrow> nat \<Rightarrow> nat" where
  "cb_target cls num_cl seq_len required cl =
     (if cl + 1 < num_cl \<and> int (cls ! cl) - seq_len < required
      then cb_target cls num_cl seq_len required (cl + 1) else cl)"
  by pat_completeness auto
termination
  by (relation "measure (\<lambda>(cls, num_cl, seq_len, required, cl). num_cl - cl)") auto

declare cb_target.simps [simp del]

definition selectCL :: "int \<Rightarrow> int \<Rightarrow> nat \<Rightarrow> (('p, 'a) llm_scheme, unit) sx" where
  "selectCL required seq_len n_valid = swith (\<lambda>st.
     let cls = sp_context_lengths (l_spec st); pre = sp_seq_len_prefill (l_spec st);
         new_cl = cb_target cls (l_num_cl st) seq_len required (l_active_cl st)
     in if l_num_cl st \<le> 1 \<or> new_cl \<le> l_active_cl st then sret ()
        else sthen (reshape_all (szsub (cls ! l_active_cl st) pre) (szsub (cls ! new_cl) pre) n_valid)
                   (smod (\<lambda>st. st\<lparr> l_active_cl := new_cl \<rparr>)))"

text \<open>One row of a tensor, and the rows of a tensor; a negative offset points outside the buffer.\<close>

definition move_row :: "nat \<Rightarrow> nat \<Rightarrow> move_op \<Rightarrow> nat \<Rightarrow> u8 list \<Rightarrow> u8 list res" where
  "move_row tok stride = (\<lambda>(src, dst, n) r buf.
     if src < 0 \<or> dst < 0 \<or> n < 0 then Inl UndefinedBehaviour
     else buf_memmove ((r * stride + nat dst) * tok) ((r * stride + nat src) * tok) (nat n * tok) buf)"

definition move_rows :: "nat \<Rightarrow> nat \<Rightarrow> nat \<Rightarrow> move_op \<Rightarrow> u8 list \<Rightarrow> u8 list res" where
  "move_rows n_rows tok stride mv buf = rfor (move_row tok stride mv) [0..<n_rows] buf"

text \<open>The key block and the value block: rows, token size and the dimension holding the stride.\<close>

definition move_tensor :: "graph \<Rightarrow> string \<Rightarrow> nat \<Rightarrow> (nat \<Rightarrow> nat) \<Rightarrow> nat \<Rightarrow> move_op \<Rightarrow> mem \<Rightarrow> mem res" where
  "move_tensor g name n_rows tok_of d mv m =
     rbind (inputPtr g name) (\<lambda>buf.
     rbind (inputSpec g name) (\<lambda>spec.
     rbind (idx_vec (ts_shape spec) d) (\<lambda>stride.
       if n_rows = 0 then Inr m
       else rbind (deref buf) (\<lambda>b.
            mem_on b (move_rows n_rows (tok_of (elementSize (ts_dtype spec))) stride mv) m))))"

definition moveKVBuffer :: "move_op \<Rightarrow> (('p, 'a) llm_scheme, unit) sx" where
  "moveKVBuffer mv = (case mv of (src, dst, n) \<Rightarrow>
     if src = dst \<or> n = 0 then sret ()
     else swith (\<lambda>st. sbind (slift (requireKVStateBlock st)) (\<lambda>b.
       sfor (\<lambda>s. sbind (slift (idx_vec (sb_shard_pairs b) s)) (\<lambda>pairs.
           if pairs = [] then sret ()
           else sbind (slift (graph_at st (graphIndex st 0 s (l_active_cl st)))) (\<lambda>g.
             let H = sp_num_kv_heads (l_spec st); hd = sp_head_dim (l_spec st)
             in sfor (\<lambda>p. sthen
                  (smem (move_tensor g (kp_key_in p) (H * hd) (\<lambda>es. es) 3 mv))
                  (smem (move_tensor g (kp_value_in p) H (\<lambda>es. hd * es) 2 mv)))
                pairs)))
         [0..<l_shard_count st])))"

text \<open>The new tokens of the session in place \<open>i\<close> of the batch, behind its segment.\<close>

definition copy_session_kv :: "llm_spec \<Rightarrow> graph \<Rightarrow> kv_pair list \<Rightarrow> kv_segment \<times> int \<times> int \<Rightarrow> mem \<Rightarrow> mem res" where
  "copy_session_kv sp g pairs = (\<lambda>(seg, in_s, in_l).
     rfor (\<lambda>p m.
       rbind (copyKV sp g (kp_key_out p) True g (kp_key_in p) (nat in_s) (nat (seg_end seg)) (nat in_l) True m)
         (copyKV sp g (kp_value_out p) True g (kp_value_in p) (nat in_s) (nat (seg_end seg)) (nat in_l) False)) pairs)"

definition copyNewKV :: "nat \<Rightarrow> kv_segment list \<Rightarrow> (int \<times> int) list \<Rightarrow> (('p, 'a) llm_scheme, unit) sx" where
  "copyNewKV shard kv_segs in_segs = swith (\<lambda>st.
     sbind (slift (requireKVStateBlock st)) (\<lambda>b.
     sbind (slift (idx_vec (sb_shard_pairs b) shard)) (\<lambda>pairs.
       if pairs = [] then sret ()
       else sbind (slift (graph_at st (graphIndex st 0 shard (l_active_cl st)))) (\<lambda>g.
         sfor (\<lambda>x. smem (copy_session_kv (l_spec st) g pairs x)) (zip kv_segs in_segs)))))"

section \<open>One step of the loop\<close>

text \<open>Step 1: the tokens of each session, \<open>used\<close> being what the sessions before it take.\<close>

definition session_chunk :: "int \<Rightarrow> int \<Rightarrow> session \<Rightarrow> int list res" where
  "session_chunk seq_len used s =
     (if ses_processed s < ses_query_len s
      then let n = min (ses_query_len s - ses_processed s) (seq_len - used)
           in if ses_processed s < 0 \<or> n < 0 \<or> int (length (ses_query s)) < ses_processed s + n then Inl UndefinedBehaviour
              else Inr (slice (nat (ses_processed s)) (nat n) (ses_query s))
      else Inr [ses_pending s])"

fun plan_batch :: "int \<Rightarrow> int \<Rightarrow> session list \<Rightarrow> int list list res" where
  "plan_batch seq_len used [] = Inr []"
| "plan_batch seq_len used (s # ss) =
     rbind (session_chunk seq_len used s) (\<lambda>ts.
     rbind (plan_batch seq_len (used + int (length ts)) ss) (\<lambda>rest. Inr (ts # rest)))"

text \<open>Step 2: segments for the new sessions, the context length, and the room.\<close>

definition ensure_segments :: "string list \<Rightarrow> kv_segment list \<Rightarrow> kv_segment list" where
  "ensure_segments ids segs = fold (\<lambda>sid segs. if getSegment sid segs = None then kv_allocate sid 0 segs else segs) ids segs"

definition cb_make_room :: "string list \<Rightarrow> int list \<Rightarrow> (('p, 'q) cb, unit) sx" where
  "cb_make_room ids lens =
     sthen (smod (\<lambda>st. st\<lparr> cb_segs := ensure_segments ids (cb_segs st) \<rparr>))
    (swith (\<lambda>st. let used = totalUsed (cb_segs st) in
     sthen (selectCL (used + sum_list lens) (int (sp_seq_len_prefill (l_spec st))) (nat used))
    (case shiftForGrowth (zip ids lens) (cb_segs st) of (segs, moves) \<Rightarrow>
     sthen (smod (\<lambda>st. st\<lparr> cb_segs := segs \<rparr>)) (sfor moveKVBuffer moves))))"

text \<open>Step 3: the offsets in the batch, and the context.\<close>

fun in_segs_from :: "int \<Rightarrow> int list \<Rightarrow> (int \<times> int) list" where
  "in_segs_from off [] = []"
| "in_segs_from off (n # ns) = (off, n) # in_segs_from (off + n) ns"

definition cb_context :: "session list \<Rightarrow> int list list \<Rightarrow> ('p, 'q) cb \<Rightarrow> cb_ctx res" where
  "cb_context batch toks st =
     (let seq_len = sp_seq_len_prefill (l_spec st)
      in rbind (idx_vec (sp_context_lengths (l_spec st)) (l_active_cl st)) (\<lambda>cl.
         rbind (rmap (\<lambda>s. case getSegment (ses_id s) (cb_segs st) of None \<Rightarrow> Inl UndefinedBehaviour | Some seg \<Rightarrow> Inr seg) batch) (\<lambda>kv_segs.
           if cl < seq_len then Inl UndefinedBehaviour
           else Inr \<lparr> cx_sessions = batch, cx_in_segs = in_segs_from 0 (map (int \<circ> length) toks), cx_kv_segs = kv_segs,
                      cx_tokens = vec_resize seq_len 0 (concat toks), cx_seq_len = seq_len, cx_kv_len = cl - seq_len \<rparr>)))"

text \<open>Step 5: one shard.\<close>

definition cb_shard :: "'p env \<Rightarrow> 'q cb_env \<Rightarrow> cb_ctx \<Rightarrow> f32 list \<Rightarrow> nat \<Rightarrow> (('p, 'q) cb, unit) sx" where
  "cb_shard env cenv ctx msk s = swith (\<lambda>st.
     sbind (slift (graph_at st (graphIndex st 0 s (l_active_cl st)))) (\<lambda>g.
     sthen (smem (\<lambda>m. if hasInput g (sp_attention_mask_name (l_spec st))
                      then write_float g (sp_attention_mask_name (l_spec st)) (SrcFloat msk) m else Inr m))
    (sthen (sfor (\<lambda>p. smem (ce_write cenv p g ctx)) (cb_providers st))
    (sthen (execute env g)
    (sthen (copyNewKV s (cx_kv_segs ctx) (cx_in_segs ctx))
           (swhen (s + 1 < l_shard_count st) (connect False (l_active_cl st) s)))))))"

text \<open>Step 6.\<close>

definition cb_advance :: "string list \<Rightarrow> int list \<Rightarrow> ('p, 'q) cb \<Rightarrow> ('p, 'q) cb" where
  "cb_advance ids lens st = st\<lparr>
     cb_sessions := fold (\<lambda>(sid, n). updateSession sid n) (zip ids lens) (cb_sessions st),
     cb_segs := fold (\<lambda>(sid, n). kv_extend sid n) (zip ids lens) (cb_segs st) \<rparr>"

text \<open>Step 7: the sampled token of session \<open>j\<close>, and the sessions of the batch in order.\<close>

definition push_token :: "int \<Rightarrow> session \<Rightarrow> session" where
  "push_token tok s = s\<lparr> ses_generated := ses_generated s @ [tok], ses_generated_len := ses_generated_len s + 1,
     ses_pending := tok \<rparr>"

definition cb_accept :: "nat \<Rightarrow> int \<Rightarrow> ('p, 'q) cb \<Rightarrow> ('p, 'q) cb" where
  "cb_accept j tok st =
     (let s = cb_sessions st ! j
      in if tok \<in> set (sp_eos_token_ids (l_spec st)) \<or> ses_max_tokens s \<le> ses_generated_len s
         then st\<lparr> cb_sessions := completeSession (ses_id s) (cb_sessions st) \<rparr>
         else st\<lparr> cb_sessions := (cb_sessions st)[j := push_token tok s], cb_sent := cb_sent st @ [(ses_id s, tok)] \<rparr>)"

fun cb_sample :: "'p env \<Rightarrow> (nat \<times> int) list \<Rightarrow> int \<Rightarrow> (('p, 'q) cb, unit) sx" where
  "cb_sample env [] off = sret ()"
| "cb_sample env ((j, n) # rest) off = swith (\<lambda>st.
     let s = cb_sessions st ! j
     in sthen (if ses_query_len s \<le> ses_processed s
               then sbind (sampleNextToken env 0 (nat (off + n - 1))) (\<lambda>tok. smod (cb_accept j tok))
               else sret ())
         (cb_sample env rest (off + n)))"

text \<open>Step 8.\<close>

definition release_completed :: "session list \<Rightarrow> kv_segment list \<Rightarrow> kv_segment list" where
  "release_completed ss segs = fold (\<lambda>s segs.
     if ses_status s = COMPLETED \<and> getSegment (ses_id s) segs \<noteq> None then kv_release (ses_id s) segs else segs) ss segs"

definition cb_cleanup :: "(('p, 'q) cb, unit) sx" where
  "cb_cleanup = swith (\<lambda>st.
     case kv_compact (release_completed (cb_sessions st) (cb_segs st)) of (segs, moves) \<Rightarrow>
       sthen (smod (\<lambda>st. st\<lparr> cb_segs := segs \<rparr>)) (sfor moveKVBuffer moves))"

text \<open>A whole step; the result is \<open>False\<close> when the batch is empty, which leaves the loop.\<close>

definition cb_run_batch :: "'p env \<Rightarrow> 'q cb_env \<Rightarrow> nat list \<Rightarrow> (('p, 'q) cb, unit) sx" where
  "cb_run_batch env cenv batch = swith (\<lambda>st.
     let ss = map ((!) (cb_sessions st)) batch; ids = map ses_id ss; seq_len = sp_seq_len_prefill (l_spec st)
     in sbind (slift (plan_batch (int seq_len) 0 ss)) (\<lambda>toks.
        let lens = map (int \<circ> length) toks
        in sthen (cb_make_room ids lens)
          (sbind (swith (\<lambda>st. slift (cb_context ss toks st))) (\<lambda>ctx.
           sbind (slift (cb_attention_mask (cx_kv_segs ctx) (cx_in_segs ctx) seq_len (cx_kv_len ctx))) (\<lambda>msk.
           sthen (sfor (cb_shard env cenv ctx msk) [0..<l_shard_count st])
          (sthen (smod (cb_advance ids lens))
          (sthen (cb_sample env (zip batch lens) 0)
                 cb_cleanup)))))))"

definition cb_step :: "'p env \<Rightarrow> 'q cb_env \<Rightarrow> (('p, 'q) cb, bool) sx" where
  "cb_step env cenv = swith (\<lambda>st.
     case getNextBatch (int (sp_seq_len_prefill (l_spec st))) (cb_sessions st) of (ss, batch) \<Rightarrow>
       sthen (smod (\<lambda>st. st\<lparr> cb_sessions := ss \<rparr>))
         (if batch = [] then sret False else sthen (cb_run_batch env cenv batch) (sret True)))"

text \<open>\<open>Blocked\<close> when the fuel ends; \<open>cb_work\<close> below is enough.\<close>

fun generateBatch :: "'p env \<Rightarrow> 'q cb_env \<Rightarrow> nat \<Rightarrow> (('p, 'q) cb, unit) sx" where
  "generateBatch env cenv fuel = swith (\<lambda>st.
     if \<not> hasActiveSessions (cb_sessions st) then sret ()
     else (case fuel of 0 \<Rightarrow> sthrow Blocked
           | Suc fuel \<Rightarrow> sbind (cb_step env cenv) (\<lambda>go. if go then generateBatch env cenv fuel else sret ())))"

declare generateBatch.simps [simp del]

text \<open>The work left in the sessions: tokens of the prompt, tokens to generate, and the end.\<close>

definition session_work :: "session \<Rightarrow> nat" where
  "session_work s = (if ses_status s = COMPLETED then 0
     else nat (ses_query_len s - ses_processed s) + nat (ses_max_tokens s - ses_generated_len s) + 1)"

definition cb_work :: "session list \<Rightarrow> nat" where
  "cb_work ss = sum_list (map session_work ss)"

text \<open>The override of \<open>generate\<close>: one session of its own scheduler.\<close>

definition cb_generate :: "'p env \<Rightarrow> 'q cb_env \<Rightarrow> gen_config \<Rightarrow> int list \<Rightarrow> (('p, 'q) cb, int list) sx" where
  "cb_generate env cenv cfg prompt =
     sthen (smod (\<lambda>st. st\<lparr> cb_sessions := addSession ''s0'' prompt (gc_max_tokens cfg) [], cb_segs := [], cb_sent := [] \<rparr>))
    (sthen (swith (\<lambda>st. generateBatch env cenv (cb_work (cb_sessions st))))
    (sget (\<lambda>st. case getSession ''s0'' (cb_sessions st) of None \<Rightarrow> [] | Some s \<Rightarrow> ses_generated s)))"

section \<open>A float logits buffer\<close>

text \<open>\<open>extractNextTokens\<close>, for callers that hold the logits as floats.\<close>

fun scan_max :: "f32 list \<Rightarrow> nat \<Rightarrow> f32 \<times> nat \<Rightarrow> f32 \<times> nat" where
  "scan_max [] i acc = acc"
| "scan_max (x # xs) i acc = scan_max xs (i + 1) (if f32_lt (fst acc) x then (x, i) else acc)"

definition best_token :: "f32 list \<Rightarrow> nat \<Rightarrow> int \<Rightarrow> int res" where
  "best_token logits vocab row =
     (if row < 0 \<or> length logits < nat row * vocab + max 1 vocab then Inl UndefinedBehaviour
      else let r = slice (nat row * vocab) (max 1 vocab) logits
           in Inr (to_i32 (int (snd (scan_max (tl r) 1 (hd r, 0))))))"

fun extractNextTokens :: "f32 list \<Rightarrow> nat \<Rightarrow> int \<Rightarrow> (session \<times> int) list \<Rightarrow> (string \<times> int) list res" where
  "extractNextTokens logits vocab off [] = Inr []"
| "extractNextTokens logits vocab off ((s, n) # rest) =
     rbind (best_token logits vocab (off + n - 1)) (\<lambda>tok.
     rbind (extractNextTokens logits vocab (off + n) rest) (\<lambda>rs. Inr ((ses_id s, tok) # rs)))"

section \<open>What the steps leave alone\<close>

definition cb_kept :: "('p, 'q) cb \<Rightarrow> ('p, 'q) cb \<Rightarrow> bool" where
  "cb_kept st st' \<longleftrightarrow> l_spec st' = l_spec st \<and> l_shard_count st' = l_shard_count st
     \<and> cb_sessions st' = cb_sessions st \<and> cb_segs st' = cb_segs st \<and> cb_sent st' = cb_sent st"

lemma cb_kept_preorder [steps]: "preorder cb_kept"
  by (auto simp: preorder_def cb_kept_def)

lemma mem_only_cb_kept:
  fixes m :: "(('p, 'q) cb, 'a) sx"
  assumes "steps_in mem_only m"
  shows "steps_in cb_kept m"
  using assms
proof (rule steps_in_mono)
  fix s s' :: "('p, 'q) cb" assume "mem_only s s'"
  then show "cb_kept s s'" by (cases s, cases s') (simp add: mem_only_def forget_mem_def cb_kept_def)
qed

lemma moveKVBuffer_mem_only: "steps_in mem_only (moveKVBuffer mv)"
  unfolding moveKVBuffer_def Let_def by (cases mv) (auto intro!: steps mem_steps)

lemma copyNewKV_mem_only: "steps_in mem_only (copyNewKV shard kv_segs in_segs)"
  unfolding copyNewKV_def by (intro steps mem_steps)

lemmas cb_mem_steps = mem_only_cb_kept [OF smem_mem_only] mem_only_cb_kept [OF execute_mem_only]
  mem_only_cb_kept [OF moveKVBuffer_mem_only] mem_only_cb_kept [OF copyNewKV_mem_only] mem_only_cb_kept [OF connect_mem_only]
  mem_only_cb_kept [OF reshape_all_mem_only]

lemma selectCL_kept: "steps_in cb_kept (selectCL required seq_len n)"
  unfolding selectCL_def Let_def by (intro steps cb_mem_steps) (simp add: cb_kept_def)

lemma cb_shard_kept: "steps_in cb_kept (cb_shard env cenv ctx msk s)"
  unfolding cb_shard_def by (intro steps cb_mem_steps)

lemma sampleNextToken_cb_kept: "steps_in cb_kept (sampleNextToken env ph off)"
  unfolding sampleNextToken_def Let_def by (intro steps) (simp add: cb_kept_def)

section \<open>Sessions only move forward\<close>

text \<open>A session's own consistency: what it has generated, within its limit and without an end token.\<close>

definition session_ok :: "int set \<Rightarrow> session \<Rightarrow> bool" where
  "session_ok eos s \<longleftrightarrow> ses_generated_len s = int (length (ses_generated s))
     \<and> ses_generated_len s \<le> max 0 (ses_max_tokens s) \<and> set (ses_generated s) \<inter> eos = {}"

definition session_le :: "int set \<Rightarrow> session \<Rightarrow> session \<Rightarrow> bool" where
  "session_le eos s s' \<longleftrightarrow> ses_id s' = ses_id s \<and> ses_query s' = ses_query s \<and> ses_query_len s' = ses_query_len s
     \<and> ses_max_tokens s' = ses_max_tokens s \<and> ses_processed s \<le> ses_processed s'
     \<and> ses_generated_len s \<le> ses_generated_len s' \<and> take (length (ses_generated s)) (ses_generated s') = ses_generated s
     \<and> (ses_status s = COMPLETED \<longrightarrow> ses_status s' = COMPLETED) \<and> (session_ok eos s \<longrightarrow> session_ok eos s')"

lemma session_le_refl [simp, intro]: "session_le eos s s"
  by (simp add: session_le_def)

lemma session_le_trans: "session_le eos s t \<Longrightarrow> session_le eos t u \<Longrightarrow> session_le eos s u"
  unfolding session_le_def
  by (smt (verit) length_take min.absorb_iff2 min.cobounded1 take_take)

lemma sessions_le_trans:
  "list_all2 (session_le eos) xs ys \<Longrightarrow> list_all2 (session_le eos) ys zs \<Longrightarrow> list_all2 (session_le eos) xs zs"
  by (erule (1) list_all2_trans [rotated]) (rule session_le_trans)

lemma session_le_work: "session_le eos s s' \<Longrightarrow> session_work s' \<le> session_work s"
  by (auto simp: session_le_def session_work_def)

definition cb_rel :: "('p, 'q) cb \<Rightarrow> ('p, 'q) cb \<Rightarrow> bool" where
  "cb_rel st st' \<longleftrightarrow> l_spec st' = l_spec st
     \<and> list_all2 (session_le (set (sp_eos_token_ids (l_spec st)))) (cb_sessions st) (cb_sessions st')"

lemma cb_rel_preorder [steps]: "preorder cb_rel"
  by (auto simp: preorder_def cb_rel_def list_all2_refl intro: list_all2_trans [OF session_le_trans])

lemma cb_kept_rel: "steps_in cb_kept m \<Longrightarrow> steps_in cb_rel m"
  by (erule steps_in_mono) (auto simp: cb_kept_def cb_rel_def list_all2_refl)

lemma update_first_le:
  assumes "\<And>s. s \<in> set ss \<Longrightarrow> session_le eos s (f s)"
  shows "list_all2 (session_le eos) ss (update_first P f ss)"
  using assms by (induction ss) (auto simp: list_all2_refl)

lemma updateSession_le: "0 \<le> n \<Longrightarrow> list_all2 (session_le eos) ss (updateSession sid n ss)"
  unfolding updateSession_def by (rule update_first_le) (simp add: session_le_def session_ok_def)

lemma completeSession_le: "list_all2 (session_le eos) ss (completeSession sid ss)"
  unfolding completeSession_def by (rule update_first_le) (simp add: session_le_def session_ok_def)

lemma fold_updateSession_le:
  "\<forall>(sid, n) \<in> set xs. 0 \<le> n \<Longrightarrow> list_all2 (session_le eos) ss (fold (\<lambda>(sid, n). updateSession sid n) xs ss)"
proof (induction xs arbitrary: ss)
  case Nil
  then show ?case by (simp add: list_all2_refl)
next
  case (Cons x xs)
  obtain sid n where x: "x = (sid, n)" by (cases x)
  with Cons.prems have "list_all2 (session_le eos) ss (updateSession sid n ss)" by (intro updateSession_le) simp
  moreover have "list_all2 (session_le eos) (updateSession sid n ss) (fold (\<lambda>(sid, n). updateSession sid n) xs (updateSession sid n ss))"
    using Cons by simp
  ultimately have "list_all2 (session_le eos) ss (fold (\<lambda>(sid, n). updateSession sid n) xs (updateSession sid n ss))"
    by (rule sessions_le_trans)
  then show ?case by (simp add: x)
qed

lemma push_token_le:
  "tok \<notin> eos \<Longrightarrow> ses_generated_len s < ses_max_tokens s \<Longrightarrow> session_le eos s (push_token tok s)"
  by (auto simp: session_le_def push_token_def session_ok_def)

lemma cb_accept_rel: "cb_rel st (cb_accept j tok st)"
proof -
  let ?s = "cb_sessions st ! j"
  have "list_all2 (session_le eos) ss (ss[j := x])" if "session_le eos (ss ! j) x" for eos ss x
    using that by (cases "j < length ss") (auto simp: list_all2_conv_all_nth nth_list_update)
  then show ?thesis
    using completeSession_le push_token_le [of tok "set (sp_eos_token_ids (l_spec st))" ?s]
    by (auto simp: cb_rel_def cb_accept_def Let_def)
qed

lemma cb_sample_rel: "steps_in cb_rel (cb_sample env xs off)"
proof (induction xs arbitrary: off)
  case Nil
  then show ?case by (simp add: steps)
next
  case (Cons x xs)
  then show ?case
    by (cases x) (auto simp: Let_def intro!: steps cb_kept_rel [OF sampleNextToken_cb_kept] cb_accept_rel)
qed

lemma cb_advance_rel: "\<forall>n \<in> set lens. 0 \<le> n \<Longrightarrow> cb_rel st (cb_advance ids lens st)"
  by (auto simp: cb_rel_def cb_advance_def intro!: fold_updateSession_le dest: set_zip_rightD)

text \<open>The steps that change segments only.\<close>

definition ses_kept :: "('p, 'q) cb \<Rightarrow> ('p, 'q) cb \<Rightarrow> bool" where
  "ses_kept st st' \<longleftrightarrow> l_spec st' = l_spec st \<and> cb_sessions st' = cb_sessions st"

lemma ses_kept_preorder [steps]: "preorder ses_kept"
  by (auto simp: preorder_def ses_kept_def)

lemma cb_kept_ses: "steps_in cb_kept m \<Longrightarrow> steps_in ses_kept m"
  by (erule steps_in_mono) (simp add: cb_kept_def ses_kept_def)

lemma ses_kept_rel: "steps_in ses_kept m \<Longrightarrow> steps_in cb_rel m"
  by (erule steps_in_mono) (auto simp: ses_kept_def cb_rel_def list_all2_refl)

lemma cb_make_room_ses: "steps_in ses_kept (cb_make_room ids lens)"
  unfolding cb_make_room_def Let_def
  by (intro steps) (auto simp: ses_kept_def split: prod.splits intro!: steps cb_kept_ses [OF selectCL_kept] cb_kept_ses [OF cb_mem_steps(3)])

lemma cb_cleanup_ses: "steps_in ses_kept cb_cleanup"
  unfolding cb_cleanup_def
  by (intro steps) (auto simp: ses_kept_def split: prod.splits intro!: steps cb_kept_ses [OF cb_mem_steps(3)])

lemma cb_run_batch_rel: "steps_in cb_rel (cb_run_batch env cenv batch)"
  unfolding cb_run_batch_def Let_def
  by (intro steps ses_kept_rel [OF cb_make_room_ses] ses_kept_rel [OF cb_cleanup_ses] cb_kept_rel [OF cb_shard_kept]
      cb_sample_rel cb_advance_rel) auto

lemma start_session_le: "session_le eos s (start_session s)"
  by (simp add: session_le_def start_session_def session_ok_def)

lemma getNextBatch_le:
  assumes "getNextBatch budget ss = (ss', out)" "0 \<le> budget"
  shows "list_all2 (session_le eos) ss ss'"
  using next_batch_from_spec [OF assms [unfolded getNextBatch_def]] start_session_le
  by (auto simp: list_all2_conv_all_nth)

lemma cb_step_rel: "steps_in cb_rel (cb_step env cenv)"
  unfolding steps_in_def
proof (intro allI impI)
  fix st r st' assume run: "cb_step env cenv st = (r, st')"
  obtain ss batch where g: "getNextBatch (int (sp_seq_len_prefill (l_spec st))) (cb_sessions st) = (ss, batch)" by fastforce
  let ?st = "st\<lparr> cb_sessions := ss \<rparr>"
  have start: "cb_rel st ?st" using getNextBatch_le [OF g] by (simp add: cb_rel_def)
  have "steps_in cb_rel (if batch = [] then sret False else sthen (cb_run_batch env cenv batch) (sret True))"
    by (intro steps cb_run_batch_rel)
  moreover have "(if batch = [] then sret False else sthen (cb_run_batch env cenv batch) (sret True)) ?st = (r, st')"
    using run g by (simp add: cb_step_def sx_simps sthen_run)
  ultimately have "cb_rel ?st st'" by (rule steps_inD)
  with start show "cb_rel st st'" using cb_rel_preorder unfolding preorder_def by blast
qed

section \<open>Every step makes progress\<close>

lemma update_first_nth:
  assumes "distinct (map ses_id ss)" "j < length ss"
  shows "update_first (\<lambda>s. ses_id s = ses_id (ss ! j)) f ss = ss[j := f (ss ! j)]"
  using assms
proof (induction ss arbitrary: j)
  case (Cons s ss)
  show ?case
  proof (cases j)
    case (Suc k)
    then have "ses_id s \<noteq> ses_id (ss ! k)" using Cons.prems by (auto simp: nth_mem image_iff)
    with Suc Cons show ?thesis by simp
  qed simp
qed simp

lemma work_sum:
  assumes "list_all2 (session_le eos) ss ss'"
  shows "cb_work ss' \<le> cb_work ss"
  using assms unfolding cb_work_def by (induction rule: list_all2_induct) (auto intro: add_mono session_le_work)

lemma work_sum_strict:
  assumes "list_all2 (session_le eos) ss ss'" "j < length ss" "session_work (ss' ! j) < session_work (ss ! j)"
  shows "cb_work ss' < cb_work ss"
  using assms
proof (induction arbitrary: j rule: list_all2_induct)
  case (Cons x xs y ys)
  show ?case
  proof (cases j)
    case 0
    with Cons work_sum [OF Cons.hyps(2)] show ?thesis by (simp add: cb_work_def)
  next
    case (Suc k)
    with Cons session_le_work [OF Cons.hyps(1)] show ?thesis by (auto simp: cb_work_def intro: add_le_less_mono)
  qed
qed simp

text \<open>The plan of the batch gives each session what the scheduler counted.\<close>

lemma session_chunk_length: "session_chunk budget used s = Inr ts \<Longrightarrow> int (length ts) = session_need budget used s"
  by (auto simp: session_chunk_def session_need_def Let_def length_slice split: if_splits)

lemma plan_batch_lengths:
  "plan_batch budget used ss = Inr toks \<Longrightarrow> map (int \<circ> length) toks = needs_from budget used ss"
proof (induction ss arbitrary: used toks)
  case (Cons s ss)
  then obtain ts rest where "session_chunk budget used s = Inr ts"
    "plan_batch budget (used + int (length ts)) ss = Inr rest" "toks = ts # rest" by auto
  with Cons.IH session_chunk_length [of budget used s ts] show ?case by auto
qed simp

text \<open>The session at the head of the batch loses work in every step.\<close>

lemma run_batch_Inr:
  assumes "cb_run_batch env cenv batch st = (Inr u, st')"
  obtains toks st1 ctx msk st2 where
    "plan_batch (int (sp_seq_len_prefill (l_spec st))) 0 (map ((!) (cb_sessions st)) batch) = Inr toks"
    "cb_make_room (map ses_id (map ((!) (cb_sessions st)) batch)) (map (int \<circ> length) toks) st = (Inr (), st1)"
    "cb_context (map ((!) (cb_sessions st)) batch) toks st1 = Inr ctx"
    "cb_attention_mask (cx_kv_segs ctx) (cx_in_segs ctx) (sp_seq_len_prefill (l_spec st)) (cx_kv_len ctx) = Inr msk"
    "cb_kept st1 st2"
    "\<exists>st3. cb_sample env (zip batch (map (int \<circ> length) toks)) 0
        (cb_advance (map ses_id (map ((!) (cb_sessions st)) batch)) (map (int \<circ> length) toks) st2) = (Inr (), st3)
      \<and> cb_cleanup st3 = (Inr (), st')"
proof -
  have sh: "steps_in cb_kept (sfor (cb_shard env cenv ctx msk) [0..<n])" for ctx msk n
    by (intro steps cb_shard_kept)
  from assms show thesis
    unfolding cb_run_batch_def Let_def
    by (auto simp: sx_simps elim!: sthen_InrE sbind_InrE intro!: that dest: steps_inD [OF sh])
qed

lemma cb_accept_work:
  assumes "distinct (map ses_id (cb_sessions st))" "j < length (cb_sessions st)"
    "ses_status (cb_sessions st ! j) \<noteq> COMPLETED"
  shows "session_work (cb_sessions (cb_accept j tok st) ! j) < session_work (cb_sessions st ! j)"
  using assms update_first_nth [OF assms(1,2), of "\<lambda>s. s\<lparr> ses_status := COMPLETED \<rparr>"]
  by (auto simp: cb_accept_def Let_def completeSession_def session_work_def push_token_def)

lemma rel_distinct: "list_all2 (session_le eos) ss ss' \<Longrightarrow> map ses_id ss' = map ses_id ss"
  by (induction rule: list_all2_induct) (auto simp: session_le_def)

lemma fold_update_head:
  assumes "distinct (map ses_id ss)" "j < length ss" "\<forall>(sid, n) \<in> set xs. 0 \<le> n"
  shows "ses_processed (ss ! j) + n \<le> ses_processed (fold (\<lambda>(sid, n). updateSession sid n) ((ses_id (ss ! j), n) # xs) ss ! j)"
    "ses_status (fold (\<lambda>(sid, n). updateSession sid n) ((ses_id (ss ! j), n) # xs) ss ! j) = ses_status (ss ! j)"
proof -
  let ?ss = "updateSession (ses_id (ss ! j)) n ss"
  have u: "?ss = ss[j := (ss ! j)\<lparr> ses_processed := ses_processed (ss ! j) + n \<rparr>]"
    using update_first_nth [OF assms(1,2)] by (simp add: updateSession_def)
  have "list_all2 (session_le {}) ?ss (fold (\<lambda>(sid, n). updateSession sid n) xs ?ss)"
    using assms(3) by (rule fold_updateSession_le)
  then have "session_le {} (?ss ! j) (fold (\<lambda>(sid, n). updateSession sid n) xs ?ss ! j)"
    using assms(2) u by (auto simp: list_all2_conv_all_nth)
  then show "ses_processed (ss ! j) + n \<le> ses_processed (fold (\<lambda>(sid, n). updateSession sid n) ((ses_id (ss ! j), n) # xs) ss ! j)"
    using u assms(2) by (simp add: session_le_def)
  have st: "map ses_status (updateSession sid n ss) = map ses_status ss" for sid n ss
    unfolding updateSession_def by (induction ss) auto
  have "map ses_status (fold (\<lambda>(sid, n). updateSession sid n) ys zs) = map ses_status zs" for ys zs
    by (induction ys arbitrary: zs) (auto simp: st)
  from this [of "(ses_id (ss ! j), n) # xs" ss] assms(2)
  show "ses_status (fold (\<lambda>(sid, n). updateSession sid n) ((ses_id (ss ! j), n) # xs) ss ! j) = ses_status (ss ! j)"
    by (metis (no_types, lifting) length_map nth_map)
qed


lemma cb_run_batch_work:
  assumes run: "cb_run_batch env cenv (j # js) st = (Inr u, st')" and d: "distinct (map ses_id (cb_sessions st))"
    and j: "j < length (cb_sessions st)" "ses_status (cb_sessions st ! j) \<noteq> COMPLETED"
    and need: "0 < session_need (int (sp_seq_len_prefill (l_spec st))) 0 (cb_sessions st ! j)"
  shows "cb_work (cb_sessions st') < cb_work (cb_sessions st)"
proof -
  let ?ss = "cb_sessions st" and ?eos = "set (sp_eos_token_ids (l_spec st))"
  let ?ids = "map ses_id (map ((!) ?ss) (j # js))"
  from run_batch_Inr [OF run] obtain toks st1 ctx msk st2 st3 where
    p: "plan_batch (int (sp_seq_len_prefill (l_spec st))) 0 (map ((!) ?ss) (j # js)) = Inr toks"
    and 1: "cb_make_room ?ids (map (int \<circ> length) toks) st = (Inr (), st1)" and 2: "cb_kept st1 st2"
    and 3: "cb_sample env (zip (j # js) (map (int \<circ> length) toks)) 0 (cb_advance ?ids (map (int \<circ> length) toks) st2) = (Inr (), st3)"
    and 4: "cb_cleanup st3 = (Inr (), st')" by metis
  define st2' where "st2' = cb_advance ?ids (map (int \<circ> length) toks) st2"
  have k2: "cb_sessions st2 = ?ss" "l_spec st2 = l_spec st"
    using steps_inD [OF cb_make_room_ses 1] 2 by (simp_all add: ses_kept_def cb_kept_def)
  from p obtain ts rest where t: "toks = ts # rest" "session_chunk (int (sp_seq_len_prefill (l_spec st))) 0 (?ss ! j) = Inr ts"
    by auto
  define n where "n = int (length ts)"
  have n: "0 < n" using session_chunk_length [OF t(2)] need by (simp add: n_def)
  have "\<forall>(sid, n) \<in> set (zip (map ses_id (map ((!) ?ss) js)) (map (int \<circ> length) rest)). 0 \<le> n"
  proof (intro ballI, clarify)
    fix sid n assume "(sid, n) \<in> set (zip (map ses_id (map ((!) ?ss) js)) (map (int \<circ> length) rest))"
    from set_zip_rightD [OF this] show "0 \<le> n" by auto
  qed
  note F = fold_update_head [OF d j(1) this, of n]
  have s2: "ses_processed (?ss ! j) + n \<le> ses_processed (cb_sessions st2' ! j)" "ses_status (cb_sessions st2' ! j) \<noteq> COMPLETED"
    using F j(2) by (simp_all add: st2'_def cb_advance_def k2 t(1) n_def)
  have r2: "list_all2 (session_le ?eos) ?ss (cb_sessions st2')" "l_spec st2' = l_spec st"
    using cb_advance_rel [of "map (int \<circ> length) toks" st2 ?ids] k2 by (auto simp: cb_rel_def st2'_def)
  have r4: "list_all2 (session_le ?eos) (cb_sessions st3) (cb_sessions st')" "l_spec st3 = l_spec st"
    using steps_inD [OF ses_kept_rel [OF cb_cleanup_ses] 4] steps_inD [OF cb_sample_rel 3 [folded st2'_def]] r2(2)
    by (auto simp: cb_rel_def)
  have at: "session_le ?eos (xs ! j) (ys ! j)" if "list_all2 (session_le ?eos) xs ys" "length xs = length ?ss" for xs ys
    using that j(1) by (auto simp: list_all2_conv_all_nth)
  have r3: "list_all2 (session_le ?eos) (cb_sessions st2') (cb_sessions st3)"
    using steps_inD [OF cb_sample_rel 3 [folded st2'_def]] r2(2) by (simp add: cb_rel_def)
  note all = sessions_le_trans [OF sessions_le_trans [OF r2(1) r3] r4(1)]
  have l: "length (cb_sessions st2') = length ?ss" "length (cb_sessions st3) = length ?ss"
    using list_all2_lengthD [OF r2(1)] list_all2_lengthD [OF r3] by simp_all
  have le2: "session_le ?eos (?ss ! j) (cb_sessions st2' ! j)" using at [OF r2(1)] by simp
  have "session_work (cb_sessions st3 ! j) < session_work (?ss ! j)"
  proof (cases "ses_processed (?ss ! j) < ses_query_len (?ss ! j)")
    case True
    have "session_work (cb_sessions st2' ! j) < session_work (?ss ! j)"
      using True le2 s2 n j(2) by (auto simp: session_work_def session_le_def)
    then show ?thesis using session_le_work [OF at [OF r3 l(1)]] by linarith
  next
    case False
    with le2 s2(1) n have q: "ses_query_len (cb_sessions st2' ! j) \<le> ses_processed (cb_sessions st2' ! j)"
      by (auto simp: session_le_def)
    from 3 [folded st2'_def] q obtain tok sta where
      a: "sampleNextToken env 0 (nat (0 + n - 1)) st2' = (Inr tok, sta)"
      and b: "cb_sample env (zip js (map (int \<circ> length) rest)) (0 + n) (cb_accept j tok sta) = (Inr (), st3)"
      by (auto simp: t(1) n_def Let_def sx_simps elim!: sthen_InrE sbind_InrE)
    have ka: "cb_sessions sta = cb_sessions st2'" "l_spec sta = l_spec st"
      using steps_inD [OF sampleNextToken_cb_kept a] r2(2) by (simp_all add: cb_kept_def)
    have "map ses_id (cb_sessions sta) = map ses_id ?ss" using rel_distinct [OF r2(1)] ka by simp
    then have "session_work (cb_sessions (cb_accept j tok sta) ! j) < session_work (cb_sessions st2' ! j)"
      using cb_accept_work [of sta j tok] d j(1) l s2(2) ka by simp
    moreover have "list_all2 (session_le ?eos) (cb_sessions (cb_accept j tok sta)) (cb_sessions st3)"
      "length (cb_sessions (cb_accept j tok sta)) = length ?ss"
      using steps_inD [OF cb_sample_rel b] cb_accept_rel [of sta j tok] ka l by (auto simp: cb_rel_def dest: list_all2_lengthD)
    ultimately show ?thesis using session_le_work [OF at] session_le_work [OF le2] by fastforce
  qed
  moreover have "session_work (cb_sessions st' ! j) \<le> session_work (cb_sessions st3 ! j)"
    using session_le_work [OF at [OF r4(1) l(2)]] .
  ultimately have "session_work (cb_sessions st' ! j) < session_work (?ss ! j)" by linarith
  then show ?thesis by (rule work_sum_strict [OF all j(1)])
qed

lemma cb_step_work:
  assumes "cb_step env cenv st = (Inr True, st')" "distinct (map ses_id (cb_sessions st))"
  shows "cb_work (cb_sessions st') < cb_work (cb_sessions st)"
proof -
  let ?b = "int (sp_seq_len_prefill (l_spec st))"
  obtain ss batch where g: "getNextBatch ?b (cb_sessions st) = (ss, batch)" by fastforce
  let ?st = "st\<lparr> cb_sessions := ss \<rparr>"
  from assms(1) g obtain j js where b: "batch = j # js" and r: "cb_run_batch env cenv (j # js) ?st = (Inr (), st')"
    by (cases batch) (auto simp: cb_step_def sx_simps sthen_run split: prod.splits sum.splits if_splits)
  note N = next_batch_from_spec [OF g [unfolded getNextBatch_def]]
  have le: "list_all2 (session_le {}) (cb_sessions st) ss" using getNextBatch_le [OF g] by simp
  have j: "j < length ss" "ses_status (cb_sessions st ! j) \<noteq> COMPLETED" "0 < session_need ?b 0 (cb_sessions st ! j)"
    "ss ! j = cb_sessions st ! j \<or> ss ! j = start_session (cb_sessions st ! j)"
    using N b by (auto simp: Let_def)
  have "cb_work (cb_sessions st') < cb_work (cb_sessions ?st)"
    by (rule cb_run_batch_work [OF r]) (use j rel_distinct [OF le] assms(2) in \<open>auto\<close>)
  with work_sum [OF le] show ?thesis by simp
qed


section \<open>The loop ends\<close>

lemma cb_rel_distinct: "cb_rel st st' \<Longrightarrow> distinct (map ses_id (cb_sessions st')) = distinct (map ses_id (cb_sessions st))"
  using rel_distinct unfolding cb_rel_def by metis

lemma hasActive_work: "hasActiveSessions ss \<longleftrightarrow> 0 < cb_work ss"
proof -
  have "0 < session_work s \<longleftrightarrow> ses_status s \<noteq> COMPLETED" for s by (simp add: session_work_def)
  then show ?thesis unfolding hasActiveSessions_def cb_work_def by (induction ss) auto
qed

text \<open>\<open>cb_work\<close> is enough fuel: more of it changes nothing, so the fuel never ends the loop.\<close>

lemma generateBatch_fuel:
  assumes "distinct (map ses_id (cb_sessions st))" "cb_work (cb_sessions st) \<le> fuel"
  shows "generateBatch env cenv fuel st = generateBatch env cenv (cb_work (cb_sessions st)) st"
  using assms
proof (induction fuel arbitrary: st rule: less_induct)
  case (less fuel)
  have "generateBatch env cenv f st = generateBatch env cenv fuel st" if f: "cb_work (cb_sessions st) \<le> f" "f \<le> fuel" for f
  proof (cases "hasActiveSessions (cb_sessions st)")
    case False
    then show ?thesis by (subst (1 2) generateBatch.simps) (simp add: sx_simps)
  next
    case True
    then have w: "0 < cb_work (cb_sessions st)" by (simp add: hasActive_work)
    then obtain g f1 where g: "fuel = Suc g" "f = Suc f1" using f less.prems(2) by (cases fuel; cases f) auto
    obtain r st1 where s: "cb_step env cenv st = (r, st1)" by fastforce
    have "generateBatch env cenv f1 st1 = generateBatch env cenv g st1" if "r = Inr True"
    proof -
      have d: "distinct (map ses_id (cb_sessions st1))"
        using cb_rel_distinct [OF steps_inD [OF cb_step_rel s]] less.prems(1) by simp
      have lt: "cb_work (cb_sessions st1) < cb_work (cb_sessions st)"
        using cb_step_work [OF s [unfolded that] less.prems(1)] .
      have "generateBatch env cenv g st1 = generateBatch env cenv (cb_work (cb_sessions st1)) st1"
        using g f lt by (intro less.IH d) auto
      moreover have "generateBatch env cenv f1 st1 = generateBatch env cenv (cb_work (cb_sessions st1)) st1"
        using g f lt by (intro less.IH d) auto
      ultimately show ?thesis by simp
    qed
    with s g show ?thesis
      by (subst (1 2) generateBatch.simps) (simp add: sx_simps sbind_run split: sum.splits)
  qed
  from this [of "cb_work (cb_sessions st)"] less.prems(2) show ?case by simp
qed

lemma generateBatch_rel: "steps_in cb_rel (generateBatch env cenv fuel)"
proof (induction fuel)
  case 0
  show ?case by (subst generateBatch.simps) (simp add: steps)
next
  case (Suc n)
  show ?case
    by (subst generateBatch.simps) (auto intro!: steps cb_step_rel Suc)
qed

text \<open>A finished loop has finished every session.\<close>

lemma generateBatch_all_done:
  assumes "generateBatch env cenv fuel st = (Inr u, st')" "0 < sp_seq_len_prefill (l_spec st)"
  shows "\<forall>s \<in> set (cb_sessions st'). ses_status s = COMPLETED"
  using assms
proof (induction fuel arbitrary: st)
  case 0
  then show ?case
    by (subst (asm) generateBatch.simps) (auto simp: sx_simps hasActiveSessions_def list_ex_iff split: if_splits)
next
  case (Suc n)
  show ?case
  proof (cases "hasActiveSessions (cb_sessions st)")
    case False
    with Suc.prems show ?thesis
      by (subst (asm) generateBatch.simps) (auto simp: sx_simps hasActiveSessions_def list_ex_iff)
  next
    case True
    from Suc.prems(1) True obtain go st1 where s: "cb_step env cenv st = (Inr go, st1)"
      and r: "(if go then generateBatch env cenv n else sret ()) st1 = (Inr u, st')"
      by (subst (asm) generateBatch.simps) (auto simp: sx_simps elim!: sbind_InrE)
    obtain ss batch where g: "getNextBatch (int (sp_seq_len_prefill (l_spec st))) (cb_sessions st) = (ss, batch)" by fastforce
    have "batch \<noteq> []"
      using next_batch_progress [OF True _ g [unfolded getNextBatch_def]] Suc.prems(2) by simp
    with s g have "go" by (auto simp: cb_step_def sx_simps sthen_run split: sum.splits prod.splits)
    moreover have "l_spec st1 = l_spec st" using steps_inD [OF cb_step_rel s] by (simp add: cb_rel_def)
    ultimately show ?thesis using Suc.IH [of st1] r Suc.prems(2) by simp
  qed
qed

end
