(* ===== verification/CBInvariant.thy ===== *)
theory CBInvariant
  imports CBModel
begin

text \<open>
  What holds between two steps of the loop of \<open>CBLLMModel\<close>: the segments of the cache
  manager lie in order and hold exactly what the scheduler says each running session has
  processed, a fresh or a completed session holds none. The position ids of a batch follow.
\<close>

section \<open>The segments hold what the sessions have processed\<close>

definition kv_lens :: "kv_segment list \<Rightarrow> string \<Rightarrow> int option" where
  "kv_lens segs = map_of (map (\<lambda>s. (seg_id s, seg_len s)) segs)"

lemma kv_lens_getSegment: "kv_lens segs sid = map_option seg_len (getSegment sid segs)"
  unfolding kv_lens_def getSegment_def by (induction segs) auto

lemma kv_lens_cong: "map seg_id segs' = map seg_id segs \<Longrightarrow> map seg_len segs' = map seg_len segs \<Longrightarrow> kv_lens segs' = kv_lens segs"
proof -
  have z: "kv_lens segs = map_of (zip (map seg_id segs) (map seg_len segs))" for segs
    unfolding kv_lens_def by (simp add: zip_map_map zip_same_conv_map comp_def)
  show "map seg_id segs' = map seg_id segs \<Longrightarrow> map seg_len segs' = map seg_len segs \<Longrightarrow> kv_lens segs' = kv_lens segs"
    by (simp only: z)
qed

lemma kv_lens_None: "kv_lens segs sid = None \<longleftrightarrow> sid \<notin> seg_id ` set segs"
  unfolding kv_lens_def by (simp add: map_of_eq_None_iff image_image)

lemma kv_lens_allocate:
  assumes "kv_lens segs sid = None"
  shows "kv_lens (kv_allocate sid n segs) = (kv_lens segs)(sid \<mapsto> n)"
proof
  fix i
  have "kv_lens (segs @ [s]) i = (case kv_lens segs i of None \<Rightarrow> if i = seg_id s then Some (seg_len s) else None | Some l \<Rightarrow> Some l)" for s
    unfolding kv_lens_def by (auto simp: map_of_append map_add_def split: option.splits)
  with assms show "kv_lens (kv_allocate sid n segs) i = ((kv_lens segs)(sid \<mapsto> n)) i"
    by (auto simp: kv_allocate_def split: option.splits)
qed

lemma kv_lens_release:
  "distinct (map seg_id segs) \<Longrightarrow> kv_lens (kv_release sid segs) = (kv_lens segs)(sid := None)"
proof (induction segs)
  case (Cons s segs)
  then have "sid = seg_id s \<Longrightarrow> kv_lens segs sid = None" by (auto simp: kv_lens_None)
  with Cons show ?case by (auto simp: kv_lens_def kv_release_def)
qed (simp add: kv_lens_def kv_release_def)

lemma kv_release_ids: "set (map seg_id (kv_release sid segs)) \<subseteq> set (map seg_id segs)"
  "distinct (map seg_id segs) \<Longrightarrow> distinct (map seg_id (kv_release sid segs))"
  unfolding kv_release_def by (induction segs) auto

lemma ensure_segments_spec:
  assumes "segs_ok segs" "distinct (map seg_id segs)"
  shows "segs_ok (ensure_segments ids segs) \<and> distinct (map seg_id (ensure_segments ids segs))
     \<and> set (map seg_id (ensure_segments ids segs)) = set (map seg_id segs) \<union> set ids
     \<and> (\<forall>i. kv_lens (ensure_segments ids segs) i = (if i \<in> set ids \<and> kv_lens segs i = None then Some 0 else kv_lens segs i))"
  using assms
proof (induction ids arbitrary: segs)
  case (Cons sid ids)
  define segs1 where "segs1 = (if getSegment sid segs = None then kv_allocate sid 0 segs else segs)"
  have e: "ensure_segments (sid # ids) segs = ensure_segments ids segs1" by (simp add: ensure_segments_def segs1_def)
  show ?case
  proof (cases "getSegment sid segs = None")
    case True
    then have n: "kv_lens segs sid = None" by (simp add: kv_lens_getSegment)
    have a: "segs1 = kv_allocate sid 0 segs" using True by (simp add: segs1_def)
    have "segs_ok segs1" unfolding a using Cons.prems(1) by (intro kv_allocate_ok) simp_all
    moreover have "distinct (map seg_id segs1)" using Cons.prems(2) n kv_lens_None [of segs sid] by (simp add: a kv_allocate_def)
    ultimately show ?thesis
      using Cons.IH [of segs1] n unfolding e a kv_lens_allocate [OF n] by (simp add: kv_allocate_def)
  next
    case False
    then have n: "kv_lens segs sid \<noteq> None" "segs1 = segs" by (auto simp: kv_lens_getSegment segs1_def)
    then have "sid \<in> set (map seg_id segs)" using kv_lens_None [of segs sid] by simp
    then show ?thesis using Cons.IH [of segs1] Cons.prems n(1) unfolding e n(2) by (simp add: insert_absorb)
  qed
qed (simp add: ensure_segments_def)

lemma shiftForGrowth_lists:
  assumes "shiftForGrowth gs segs = (segs', ms)"
  shows "map seg_id segs' = map seg_id segs" "map seg_len segs' = map seg_len segs"
proof -
  have "map seg_id (shift_all g k segs) = map seg_id segs" "map seg_len (shift_all g k segs) = map seg_len segs" for g k segs
    by (induction segs arbitrary: k) (simp_all add: shift_all_simps shift_segment_def)
  with assms show "map seg_id segs' = map seg_id segs" "map seg_len segs' = map seg_len segs"
    by (auto simp: shiftForGrowth_def Let_def seat_empty_tokens simp flip: shift_all_def)
qed

lemma shiftForGrowth_segs_ok:
  assumes "segs_ok segs" "\<And>i. 0 \<le> growth_of gs i" "shiftForGrowth gs segs = (segs', ms)"
  shows "segs_ok (map (grown (growth_of gs)) segs')"
  using shift_room [of 0 segs 0 "growth_of gs" 0] assms
  by (auto simp: segs_ok_def shiftForGrowth_def Let_def simp flip: shift_all_def)

lemma growth_of_zip:
  "distinct ids \<Longrightarrow> growth_of (zip ids lens) i = (case map_of (zip ids lens) i of None \<Rightarrow> 0 | Some g \<Rightarrow> g)"
proof -
  assume d: "distinct ids"
  have f: "map fst (zip ids lens) = take (length lens) ids" by (simp add: map_fst_zip_take min_def)
  then have "distinct (map fst (zip ids lens))" "distinct (map fst (rev (zip ids lens)))"
    using d by (simp_all add: rev_map [symmetric] distinct_take)
  then have "map_of (rev (zip ids lens)) i = map_of (zip ids lens) i"
    by (metis map_of_eq_Some_iff not_None_eq set_rev)
  then show ?thesis by (simp add: growth_of_def)
qed

lemma kv_compact_lists:
  "kv_compact segs = (segs', ms) \<Longrightarrow> map seg_id segs' = map seg_id segs \<and> map seg_len segs' = map seg_len segs"
proof -
  have "compact_from p segs = (segs', ms) \<Longrightarrow> map seg_id segs' = map seg_id segs \<and> map seg_len segs' = map seg_len segs" for p
    by (induction segs arbitrary: p segs' ms) (auto simp: Let_def split: prod.splits if_splits)
  then show "kv_compact segs = (segs', ms) \<Longrightarrow> map seg_id segs' = map seg_id segs \<and> map seg_len segs' = map seg_len segs"
    by (simp add: kv_compact_def)
qed


lemma update_first_map:
  "distinct (map f xs) \<Longrightarrow> update_first (\<lambda>x. f x = i) h xs = map (\<lambda>x. if f x = i then h x else x) xs"
proof (induction xs)
  case (Cons x xs)
  have "map (\<lambda>y. if f y = i then h y else y) xs = xs" if "f x = i"
  proof (rule map_idI)
    fix y assume "y \<in> set xs"
    then have "f y \<in> f ` set xs" by simp
    moreover have "f x \<notin> f ` set xs" using Cons.prems by simp
    ultimately have "f y \<noteq> i" using that by metis
    then show "(if f y = i then h y else y) = y" by simp
  qed
  with Cons show ?case by simp
qed simp

lemma kv_extend_map:
  "distinct (map seg_id segs) \<Longrightarrow>
   kv_extend sid n segs = map (\<lambda>s. if seg_id s = sid then s\<lparr> seg_len := seg_len s + n \<rparr> else s) segs"
  by (simp add: kv_extend_def update_first_map)

lemma fold_extend_map:
  assumes "distinct (map fst xs)" "distinct (map seg_id segs)"
  shows "fold (\<lambda>(sid, n). kv_extend sid n) xs segs = map (grown (\<lambda>i. case map_of xs i of None \<Rightarrow> 0 | Some g \<Rightarrow> g)) segs"
  using assms
proof (induction xs arbitrary: segs)
  case Nil
  have "grown (\<lambda>i. 0) = (\<lambda>s. s)" by (simp add: grown_def fun_eq_iff)
  then show ?case by simp
next
  case (Cons x xs)
  obtain sid n where x: "x = (sid, n)" by (cases x)
  have ids: "map seg_id (kv_extend sid n segs) = map seg_id segs" by (simp add: kv_extend_map [OF Cons.prems(2)] comp_def if_distrib cong: if_cong)
  have "map_of xs sid = None" using Cons.prems(1) x by (simp add: map_of_eq_None_iff)
  then have "map (grown (\<lambda>i. case map_of xs i of None \<Rightarrow> 0 | Some g \<Rightarrow> g)) (kv_extend sid n segs)
      = map (grown (\<lambda>i. case map_of (x # xs) i of None \<Rightarrow> 0 | Some g \<Rightarrow> g)) segs"
    by (simp add: kv_extend_map [OF Cons.prems(2)] x grown_def)
  then show ?case using Cons ids x by simp
qed

lemma kv_lens_grown: "kv_lens (map (grown g) segs) i = map_option (\<lambda>l. l + g i) (kv_lens segs i)"
  unfolding kv_lens_def by (induction segs) (auto simp: grown_def)

lemma grown_ids: "map seg_id (map (grown g) segs) = map seg_id segs"
  by (simp add: grown_def)

lemma release_completed_spec:
  assumes "segs_ok segs" "distinct (map seg_id segs)"
  shows "segs_ok (release_completed ss segs) \<and> distinct (map seg_id (release_completed ss segs))
     \<and> (\<forall>i. kv_lens (release_completed ss segs) i
          = (if \<exists>s \<in> set ss. ses_id s = i \<and> ses_status s = COMPLETED then None else kv_lens segs i))"
  using assms
proof (induction ss arbitrary: segs)
  case (Cons s ss)
  define segs1 where "segs1 = (if ses_status s = COMPLETED \<and> getSegment (ses_id s) segs \<noteq> None then kv_release (ses_id s) segs else segs)"
  have e: "release_completed (s # ss) segs = release_completed ss segs1" by (simp add: release_completed_def segs1_def)
  have "segs_ok segs1" "distinct (map seg_id segs1)"
    using Cons.prems kv_release_ok kv_release_ids(2) by (simp_all add: segs1_def)
  note IH = Cons.IH [OF this]
  have l: "kv_lens segs1 i = (if ses_id s = i \<and> ses_status s = COMPLETED then None else kv_lens segs i)" for i
  proof (cases "getSegment (ses_id s) segs = None")
    case True
    then have "kv_lens segs (ses_id s) = None" by (simp add: kv_lens_getSegment)
    then show ?thesis using True by (auto simp: segs1_def)
  next
    case False
    then show ?thesis using kv_lens_release [OF Cons.prems(2), of "ses_id s"] by (auto simp: segs1_def)
  qed
  show ?case unfolding e using IH by (auto simp: l)
qed (simp add: release_completed_def)

section \<open>The invariant of the loop\<close>

definition cb_inv :: "session list \<Rightarrow> kv_segment list \<Rightarrow> bool" where
  "cb_inv ss segs \<longleftrightarrow> distinct (map ses_id ss) \<and> segs_ok segs \<and> distinct (map seg_id segs)
     \<and> seg_id ` set segs \<subseteq> ses_id ` set ss
     \<and> (\<forall>s \<in> set ss. 0 \<le> ses_processed s \<and> kv_lens segs (ses_id s)
          = (if ses_status s = COMPLETED \<or> ses_processed s = 0 then None else Some (ses_processed s)))"

text \<open>Sampling leaves the segments and the processed lengths alone.\<close>

definition sampled_rel :: "('p, 'q) cb \<Rightarrow> ('p, 'q) cb \<Rightarrow> bool" where
  "sampled_rel st st' \<longleftrightarrow> cb_segs st' = cb_segs st \<and> map ses_processed (cb_sessions st') = map ses_processed (cb_sessions st)
     \<and> map ses_id (cb_sessions st') = map ses_id (cb_sessions st)"

lemma sampled_preorder [steps]: "preorder sampled_rel"
  by (auto simp: preorder_def sampled_rel_def)

lemma kept_sampled: "steps_in cb_kept m \<Longrightarrow> steps_in sampled_rel m"
  by (erule steps_in_mono) (simp add: cb_kept_def sampled_rel_def)

lemma map_update_first: "(\<And>s. f (g s) = f s) \<Longrightarrow> map f (update_first P g ss) = map f ss"
  by (induction ss) auto

lemma map_list_update_same: "f x = f (ss ! j) \<Longrightarrow> map f (ss[j := x]) = map f ss"
  by (cases "j < length ss") (simp_all add: map_update list_update_same_conv list_update_beyond)

lemma cb_accept_sampled: "sampled_rel st (cb_accept j tok st)"
  by (simp add: sampled_rel_def cb_accept_def Let_def completeSession_def map_update_first map_list_update_same push_token_def)

lemma cb_sample_sampled: "steps_in sampled_rel (cb_sample env xs off)"
proof (induction xs arbitrary: off)
  case Nil
  then show ?case by (simp add: steps)
next
  case (Cons x xs)
  then show ?case
    by (cases x) (auto simp: Let_def intro!: steps kept_sampled [OF sampleNextToken_cb_kept] cb_accept_sampled)
qed

lemma cb_make_room_segs:
  assumes "cb_make_room ids lens st = (Inr u, st')"
  shows "cb_segs st' = fst (shiftForGrowth (zip ids lens) (ensure_segments ids (cb_segs st)))"
proof -
  have k: "steps_in cb_kept (sfor moveKVBuffer ms)" for ms by (intro steps cb_mem_steps)
  from assms show ?thesis
    unfolding cb_make_room_def Let_def
    by (auto simp: sx_simps split: prod.splits elim!: sthen_InrE
        dest!: steps_inD [OF selectCL_kept] steps_inD [OF k] simp: cb_kept_def)
qed

lemma cb_cleanup_segs:
  assumes "cb_cleanup st = (Inr u, st')"
  shows "cb_segs st' = fst (kv_compact (release_completed (cb_sessions st) (cb_segs st)))"
proof -
  have k: "steps_in cb_kept (sfor moveKVBuffer ms)" for ms by (intro steps cb_mem_steps)
  from assms show ?thesis
    unfolding cb_cleanup_def
    by (auto simp: sx_simps split: prod.splits elim!: sthen_InrE dest!: steps_inD [OF k] simp: cb_kept_def)
qed

definition advanced :: "(string \<Rightarrow> int) \<Rightarrow> session \<Rightarrow> session" where
  "advanced g s = s\<lparr> ses_processed := ses_processed s + g (ses_id s) \<rparr>"

lemma updateSession_map:
  "distinct (map ses_id ss) \<Longrightarrow> updateSession sid n ss = map (\<lambda>s. if ses_id s = sid then s\<lparr> ses_processed := ses_processed s + n \<rparr> else s) ss"
  by (simp add: updateSession_def update_first_map)

lemma fold_update_map:
  assumes "distinct (map fst xs)" "distinct (map ses_id ss)"
  shows "fold (\<lambda>(sid, n). updateSession sid n) xs ss = map (advanced (\<lambda>i. case map_of xs i of None \<Rightarrow> 0 | Some g \<Rightarrow> g)) ss"
  using assms
proof (induction xs arbitrary: ss)
  case Nil
  have "advanced (\<lambda>i. 0) = (\<lambda>s. s)" by (simp add: advanced_def fun_eq_iff)
  then show ?case by simp
next
  case (Cons x xs)
  obtain sid n where x: "x = (sid, n)" by (cases x)
  have ids: "map ses_id (updateSession sid n ss) = map ses_id ss" by (simp add: updateSession_map [OF Cons.prems(2)] comp_def if_distrib cong: if_cong)
  have "map_of xs sid = None" using Cons.prems(1) x by (simp add: map_of_eq_None_iff)
  then have "map (advanced (\<lambda>i. case map_of xs i of None \<Rightarrow> 0 | Some g \<Rightarrow> g)) (updateSession sid n ss)
      = map (advanced (\<lambda>i. case map_of (x # xs) i of None \<Rightarrow> 0 | Some g \<Rightarrow> g)) ss"
    by (simp add: updateSession_map [OF Cons.prems(2)] x advanced_def)
  then show ?case using Cons ids x by simp
qed

text \<open>What a step makes of the segments and of the sessions.\<close>

definition batch_growth :: "session list \<Rightarrow> int list \<Rightarrow> string \<Rightarrow> int" where
  "batch_growth ss lens = growth_of (zip (map ses_id ss) lens)"

lemma cb_run_batch_segs:
  assumes run: "cb_run_batch env cenv batch st = (Inr u, st')"
    and d: "distinct (map ses_id (map ((!) (cb_sessions st)) batch))" "distinct (map ses_id (cb_sessions st))"
    and inv: "segs_ok (cb_segs st)" "distinct (map seg_id (cb_segs st))"
  shows "\<exists>lens segs1. lens = needs_from (int (sp_seq_len_prefill (l_spec st))) 0 (map ((!) (cb_sessions st)) batch)
     \<and> segs1 = fst (shiftForGrowth (zip (map ses_id (map ((!) (cb_sessions st)) batch)) lens)
         (ensure_segments (map ses_id (map ((!) (cb_sessions st)) batch)) (cb_segs st)))
     \<and> cb_segs st' = fst (kv_compact (release_completed (cb_sessions st')
         (map (grown (batch_growth (map ((!) (cb_sessions st)) batch) lens)) segs1)))
     \<and> map ses_processed (cb_sessions st')
         = map (\<lambda>s. ses_processed s + batch_growth (map ((!) (cb_sessions st)) batch) lens (ses_id s)) (cb_sessions st)"
proof -
  let ?ss = "map ((!) (cb_sessions st)) batch" and ?b = "int (sp_seq_len_prefill (l_spec st))"
  from run_batch_Inr [OF run] obtain toks st1 ctx msk st2 st3 where
    p: "plan_batch ?b 0 ?ss = Inr toks"
    and 1: "cb_make_room (map ses_id ?ss) (map (int \<circ> length) toks) st = (Inr (), st1)" and 2: "cb_kept st1 st2"
    and 3: "cb_sample env (zip batch (map (int \<circ> length) toks)) 0 (cb_advance (map ses_id ?ss) (map (int \<circ> length) toks) st2) = (Inr (), st3)"
    and 4: "cb_cleanup st3 = (Inr (), st')" by metis
  define lens where "lens = map (int \<circ> length) toks"
  let ?xs = "zip (map ses_id ?ss) lens"
  have lens: "lens = needs_from ?b 0 ?ss" using plan_batch_lengths [OF p] by (simp add: lens_def)
  define segs1 where "segs1 = fst (shiftForGrowth ?xs (ensure_segments (map ses_id ?ss) (cb_segs st)))"
  have s1: "cb_segs st2 = segs1" "cb_sessions st2 = cb_sessions st"
    using cb_make_room_segs [OF 1] steps_inD [OF cb_make_room_ses 1] 2 by (simp_all add: cb_kept_def ses_kept_def segs1_def lens_def)
  have dz: "distinct (map fst ?xs)" using d(1) by (metis distinct_take map_fst_zip_take)
  have ds: "distinct (map seg_id segs1)"
    using ensure_segments_spec [OF inv, of "map ses_id ?ss"] shiftForGrowth_lists(1) [of ?xs _ segs1]
    unfolding segs1_def by (metis prod.collapse)
  have g: "(\<lambda>i. case map_of ?xs i of None \<Rightarrow> 0 | Some g \<Rightarrow> g) = batch_growth ?ss lens"
    unfolding batch_growth_def by (rule ext) (use growth_of_zip [OF d(1)] in simp)
  have "sampled_rel (cb_advance (map ses_id ?ss) lens st2) st3" using steps_inD [OF cb_sample_sampled 3] by (simp add: lens_def)
  moreover have "cb_advance (map ses_id ?ss) lens st2 = st2\<lparr> cb_sessions := map (advanced (batch_growth ?ss lens)) (cb_sessions st),
      cb_segs := map (grown (batch_growth ?ss lens)) segs1 \<rparr>"
    unfolding cb_advance_def s1 fold_extend_map [OF dz ds] fold_update_map [OF dz d(2)] g ..
  ultimately have s3: "cb_segs st3 = map (grown (batch_growth ?ss lens)) segs1"
    "map ses_processed (cb_sessions st3) = map (\<lambda>s. ses_processed s + batch_growth ?ss lens (ses_id s)) (cb_sessions st)"
    by (simp_all add: sampled_rel_def advanced_def comp_def)
  have "cb_sessions st' = cb_sessions st3" using steps_inD [OF cb_cleanup_ses 4] by (simp add: ses_kept_def)
  with s3 cb_cleanup_segs [OF 4] lens segs1_def show ?thesis by (intro exI [of _ lens] exI [of _ segs1]) simp
qed

section \<open>The invariant is kept\<close>

lemma batch_growth_pos:
  assumes "distinct (map ses_id ss)" "length lens = length ss" "\<forall>n \<in> set lens. 0 < n"
  shows "i \<in> ses_id ` set ss \<Longrightarrow> 0 < batch_growth ss lens i" "i \<notin> ses_id ` set ss \<Longrightarrow> batch_growth ss lens i = 0"
    "0 \<le> batch_growth ss lens i"
proof -
  have g: "batch_growth ss lens i = (case map_of (zip (map ses_id ss) lens) i of None \<Rightarrow> 0 | Some n \<Rightarrow> n)"
    unfolding batch_growth_def by (rule growth_of_zip [OF assms(1)])
  have n: "map_of (zip (map ses_id ss) lens) i = None \<longleftrightarrow> i \<notin> ses_id ` set ss"
    using map_of_zip_is_None [of "map ses_id ss" lens i] assms(2) by simp
  have p: "map_of (zip (map ses_id ss) lens) i = Some n \<Longrightarrow> 0 < n" for n
    using assms(3) by (auto dest!: map_of_SomeD set_zip_rightD)
  show "i \<in> ses_id ` set ss \<Longrightarrow> 0 < batch_growth ss lens i" "i \<notin> ses_id ` set ss \<Longrightarrow> batch_growth ss lens i = 0"
    "0 \<le> batch_growth ss lens i"
    using n p by (auto simp: g less_imp_le split: option.splits)
qed

lemma kv_compact_segs_ok: "segs_ok segs \<Longrightarrow> segs_ok (fst (kv_compact segs))"
proof -
  have "segs_from p (fst (compact_from p segs))" if "segs_from q segs" "p \<le> q" for p q
    using that
  proof (induction segs arbitrary: p q)
    case (Cons s segs)
    show ?case
    proof (cases "seg_start s \<noteq> p \<and> 0 < seg_len s")
      case True
      then show ?thesis using Cons.prems Cons.IH [of "seg_end s" "p + seg_len s"]
        by (simp add: Let_def split_beta seg_end_def)
    next
      case False
      then show ?thesis using Cons.prems Cons.IH [of "seg_end s" "seg_end s"]
        by (auto simp: Let_def split_beta seg_end_def)
    qed
  qed simp
  then show "segs_ok segs \<Longrightarrow> segs_ok (fst (kv_compact segs))" by (auto simp: segs_ok_def kv_compact_def)
qed

lemma length_needs_from [simp]: "length (needs_from b u ss) = length ss"
  by (induction ss arbitrary: u) simp_all

text \<open>The pure part: ensuring, shifting, extending, releasing and compacting.\<close>

lemma cb_segs_step:
  assumes inv: "segs_ok segs" "distinct (map seg_id segs)" and g0: "\<And>i. 0 \<le> growth_of gs i"
    and s1: "segs1 = fst (shiftForGrowth gs (ensure_segments ids segs))"
    and s2: "segs2 = fst (kv_compact (release_completed ss (map (grown (growth_of gs)) segs1)))"
  shows "segs_ok segs2" "distinct (map seg_id segs2)"
    "kv_lens segs2 i = (if \<exists>s \<in> set ss. ses_id s = i \<and> ses_status s = COMPLETED then None
       else map_option (\<lambda>l. l + growth_of gs i) (if i \<in> set ids \<and> kv_lens segs i = None then Some 0 else kv_lens segs i))"
proof -
  let ?E = "ensure_segments ids segs" and ?G = "map (grown (growth_of gs)) segs1"
  let ?R = "release_completed ss ?G"
  have E: "segs_ok ?E" "distinct (map seg_id ?E)"
    "kv_lens ?E i = (if i \<in> set ids \<and> kv_lens segs i = None then Some 0 else kv_lens segs i)" for i
    using ensure_segments_spec [OF inv, of ids] by auto
  obtain ms where s: "shiftForGrowth gs ?E = (segs1, ms)" using s1 by (metis prod.collapse)
  note L = shiftForGrowth_lists [OF s]
  have l1: "kv_lens segs1 = kv_lens ?E" using L by (intro kv_lens_cong)
  have G: "segs_ok ?G" "distinct (map seg_id ?G)"
    using shiftForGrowth_segs_ok [OF E(1) g0 s] L(1) E(2) by (simp_all only: grown_ids)
  have R: "segs_ok ?R" "distinct (map seg_id ?R)"
    "kv_lens ?R i = (if \<exists>s \<in> set ss. ses_id s = i \<and> ses_status s = COMPLETED then None else kv_lens ?G i)" for i
    using release_completed_spec [OF G, of ss] by auto
  have C: "map seg_id segs2 = map seg_id ?R" "map seg_len segs2 = map seg_len ?R"
    using kv_compact_lists [of ?R] s2 by (metis prod.collapse)+
  show "segs_ok segs2" using kv_compact_segs_ok [OF R(1)] s2 by simp
  show "distinct (map seg_id segs2)" using C(1) R(2) by simp
  show "kv_lens segs2 i = (if \<exists>s \<in> set ss. ses_id s = i \<and> ses_status s = COMPLETED then None
       else map_option (\<lambda>l. l + growth_of gs i) (if i \<in> set ids \<and> kv_lens segs i = None then Some 0 else kv_lens segs i))"
    unfolding kv_lens_cong [OF C] R(3) kv_lens_grown l1 E(3) ..
qed

lemma cb_inv_run:
  assumes run: "cb_run_batch env cenv batch st = (Inr u, st')" and inv: "cb_inv (cb_sessions st) (cb_segs st)"
    and b: "distinct batch" "\<forall>j \<in> set batch. j < length (cb_sessions st) \<and> ses_status (cb_sessions st ! j) \<noteq> COMPLETED"
    and need: "\<forall>n \<in> set (needs_from (int (sp_seq_len_prefill (l_spec st))) 0 (map ((!) (cb_sessions st)) batch)). 0 < n"
  shows "cb_inv (cb_sessions st') (cb_segs st')"
proof -
  let ?ss = "cb_sessions st" and ?ss' = "cb_sessions st'" and ?bs = "map ((!) (cb_sessions st)) batch"
  note I = inv [unfolded cb_inv_def]
  have d: "distinct (map ses_id ?bs)"
    using b I by (auto simp: distinct_map inj_on_def comp_def distinct_conv_nth nth_eq_iff_index_eq)
  obtain lens segs1 where n: "lens = needs_from (int (sp_seq_len_prefill (l_spec st))) 0 ?bs"
    and s1: "segs1 = fst (shiftForGrowth (zip (map ses_id ?bs) lens) (ensure_segments (map ses_id ?bs) (cb_segs st)))"
    and s2: "cb_segs st' = fst (kv_compact (release_completed ?ss' (map (grown (growth_of (zip (map ses_id ?bs) lens))) segs1)))"
    and p: "map ses_processed ?ss' = map (\<lambda>s. ses_processed s + batch_growth ?bs lens (ses_id s)) ?ss"
    using cb_run_batch_segs [OF run d] I unfolding batch_growth_def by blast
  note g = batch_growth_pos [OF d, of lens, unfolded n length_needs_from, OF refl need, folded n]
  note S = cb_segs_step [OF _ _ _ s1 s2]
  have S: "segs_ok (cb_segs st')" "distinct (map seg_id (cb_segs st'))"
    "kv_lens (cb_segs st') i = (if \<exists>s \<in> set ?ss'. ses_id s = i \<and> ses_status s = COMPLETED then None
       else map_option (\<lambda>l. l + batch_growth ?bs lens i)
         (if i \<in> ses_id ` set ?bs \<and> kv_lens (cb_segs st) i = None then Some 0 else kv_lens (cb_segs st) i))" for i
    using S I g(3) by (auto simp: batch_growth_def)
  have le: "list_all2 (session_le (set (sp_eos_token_ids (l_spec st)))) ?ss ?ss'"
    using steps_inD [OF cb_run_batch_rel run] by (simp add: cb_rel_def)
  have ids: "map ses_id ?ss' = map ses_id ?ss" using rel_distinct [OF le] .
  have one: "(\<exists>t \<in> set ?ss'. ses_id t = ses_id s \<and> ses_status t = COMPLETED) \<longleftrightarrow> ses_status s = COMPLETED" if "s \<in> set ?ss'" for s
    using that I ids by (metis distinct_map inj_onD)
  have sub: "seg_id ` set (cb_segs st') \<subseteq> ses_id ` set ?ss'"
  proof
    fix i assume "i \<in> seg_id ` set (cb_segs st')"
    then have "kv_lens (cb_segs st') i \<noteq> None" by (simp add: kv_lens_None)
    then have "i \<in> ses_id ` set ?bs \<or> kv_lens (cb_segs st) i \<noteq> None" by (auto simp: S(3) split: if_splits)
    then have "i \<in> ses_id ` set ?ss" using b(2) I by (auto simp: kv_lens_None)
    then show "i \<in> ses_id ` set ?ss'" using ids by (metis list.set_map)
  qed
  have each: "0 \<le> ses_processed s' \<and> kv_lens (cb_segs st') (ses_id s')
      = (if ses_status s' = COMPLETED \<or> ses_processed s' = 0 then None else Some (ses_processed s'))" if s': "s' \<in> set ?ss'" for s'
  proof -
    from s' obtain k where k: "k < length ?ss'" "s' = ?ss' ! k" by (auto simp: in_set_conv_nth)
    define s where "s = ?ss ! k"
    have l: "k < length ?ss" using k ids by (metis length_map)
    have s: "s \<in> set ?ss" "session_le (set (sp_eos_token_ids (l_spec st))) s s'"
      using le k l by (auto simp: s_def list_all2_conv_all_nth)
    have sp: "ses_processed s' = ses_processed s + batch_growth ?bs lens (ses_id s)"
      using arg_cong [OF p, of "\<lambda>xs. xs ! k"] k l by (simp add: s_def)
    have i: "ses_id s' = ses_id s" "ses_status s = COMPLETED \<Longrightarrow> ses_status s' = COMPLETED" using s(2) by (simp_all add: session_le_def)
    have I1: "0 \<le> ses_processed s" "kv_lens (cb_segs st) (ses_id s)
        = (if ses_status s = COMPLETED \<or> ses_processed s = 0 then None else Some (ses_processed s))"
      using I s(1) by auto
    show ?thesis
    proof (cases "ses_status s' = COMPLETED")
      case True
      then have "kv_lens (cb_segs st') (ses_id s') = None" using one [OF s'] by (simp add: S(3))
      then show ?thesis using True I1(1) sp g(3) by (simp add: add_nonneg_nonneg)
    next
      case False
      then have "kv_lens (cb_segs st') (ses_id s') = map_option (\<lambda>l. l + batch_growth ?bs lens (ses_id s))
         (if ses_id s \<in> ses_id ` set ?bs \<and> kv_lens (cb_segs st) (ses_id s) = None then Some 0 else kv_lens (cb_segs st) (ses_id s))"
        using one [OF s'] unfolding S(3) i(1) by (simp only: False simp_thms if_False)
      then show ?thesis using False i(2) I1 sp g(1,2) [of "ses_id s"] g(3) [of "ses_id s"]
        by (cases "ses_id s \<in> ses_id ` set ?bs") auto
    qed
  qed
  show ?thesis unfolding cb_inv_def using S(1,2) sub each ids I by simp
qed


lemma cb_inv_start:
  assumes "cb_inv ss segs" "getNextBatch b ss = (ss', out)" "0 \<le> b"
  shows "cb_inv ss' segs"
proof -
  note N = next_batch_from_spec [OF assms(2,3) [unfolded getNextBatch_def]]
  have s: "\<forall>j < length ss. ses_id (ss' ! j) = ses_id (ss ! j) \<and> ses_processed (ss' ! j) = ses_processed (ss ! j)
      \<and> (ses_status (ss' ! j) = COMPLETED \<longleftrightarrow> ses_status (ss ! j) = COMPLETED)"
    using N by (metis start_session_fields(1,2,9))
  have ids: "map ses_id ss' = map ses_id ss" using N s by (intro nth_equalityI) auto
  then have "ses_id ` set ss' = ses_id ` set ss" by (metis list.set_map)
  moreover have "\<forall>s' \<in> set ss'. \<exists>s \<in> set ss. ses_id s' = ses_id s \<and> ses_processed s' = ses_processed s
      \<and> (ses_status s' = COMPLETED \<longleftrightarrow> ses_status s = COMPLETED)"
    using s N by (metis in_set_conv_nth)
  ultimately show ?thesis using assms(1) ids unfolding cb_inv_def by (metis (no_types, lifting))
qed

lemma cb_inv_step:
  assumes run: "cb_step env cenv st = (Inr go, st')" and inv: "cb_inv (cb_sessions st) (cb_segs st)"
  shows "cb_inv (cb_sessions st') (cb_segs st')"
proof -
  let ?b = "int (sp_seq_len_prefill (l_spec st))"
  obtain ss batch where g: "getNextBatch ?b (cb_sessions st) = (ss, batch)" by fastforce
  let ?st = "st\<lparr> cb_sessions := ss \<rparr>"
  have i: "cb_inv ss (cb_segs st)" using cb_inv_start [OF inv g] by simp
  show ?thesis
  proof (cases "batch = []")
    case True
    then show ?thesis using run g i by (auto simp: cb_step_def sx_simps sthen_run)
  next
    case False
    then have r: "cb_run_batch env cenv batch ?st = (Inr (), st')"
      using run g by (auto simp: cb_step_def sx_simps sthen_run split: sum.splits prod.splits)
    note N = next_batch_from_spec [OF g [unfolded getNextBatch_def] of_nat_0_le_iff]
    have st_eq: "ss ! j = cb_sessions st ! j \<or> ss ! j = start_session (cb_sessions st ! j)" if "j < length (cb_sessions st)" for j
      using N that by blast
    have same: "ses_status (ss ! j) = COMPLETED \<longleftrightarrow> ses_status (cb_sessions st ! j) = COMPLETED"
      "session_need ?b u (ss ! j) = session_need ?b u (cb_sessions st ! j)" if "j < length (cb_sessions st)" for j u
      using st_eq [OF that] by auto
    have b: "distinct batch" "\<forall>j \<in> set batch. j < length ss \<and> ses_status (ss ! j) \<noteq> COMPLETED"
      using N same(1) by (auto simp: strict_sorted_iff)
    have "needs_from ?b u (map ((!) ss) js) = needs_from ?b u (map ((!) (cb_sessions st)) js)" if "\<forall>j \<in> set js. j < length ss" for u js
      using that N by (induction js arbitrary: u) (simp_all add: same(2))
    then have n: "\<forall>n \<in> set (needs_from ?b 0 (map ((!) ss) batch)). 0 < n" using N b(2) by (auto simp: Let_def)
    show ?thesis by (rule cb_inv_run [OF r]) (use i b n in \<open>simp_all\<close>)
  qed
qed

lemma cb_inv_loop:
  assumes "generateBatch env cenv fuel st = (Inr u, st')" "cb_inv (cb_sessions st) (cb_segs st)"
  shows "cb_inv (cb_sessions st') (cb_segs st')"
  using assms
proof (induction fuel arbitrary: st)
  case 0
  then show ?case by (subst (asm) generateBatch.simps) (auto simp: sx_simps split: if_splits)
next
  case (Suc n)
  show ?case
  proof (cases "hasActiveSessions (cb_sessions st)")
    case False
    with Suc.prems show ?thesis by (subst (asm) generateBatch.simps) (auto simp: sx_simps)
  next
    case True
    from Suc.prems(1) True obtain go st1 where s: "cb_step env cenv st = (Inr go, st1)"
      and r: "(if go then generateBatch env cenv n else sret ()) st1 = (Inr u, st')"
      by (subst (asm) generateBatch.simps) (auto simp: sx_simps elim!: sbind_InrE)
    note i = cb_inv_step [OF s Suc.prems(2)]
    show ?thesis using Suc.IH [OF _ i] r i by (cases go) (auto simp: sx_simps)
  qed
qed

section \<open>Positions\<close>

text \<open>The positions the batch stands for, session by session.\<close>

definition batch_positions :: "int list \<Rightarrow> int list \<Rightarrow> int list" where
  "batch_positions ps lens = concat (map2 (\<lambda>p n. map (\<lambda>j. p + int j) [0..<nat n]) ps lens)"

lemma int_store_replace:
  assumes "nat off + length bs \<le> length xs" "0 \<le> off"
  shows "int_store off bs xs = Inr (take (nat off) xs @ bs @ drop (nat off + length bs) xs)"
  using assms by (simp add: int_store_def buf_store_def blit_def)

lemma length_batch_positions:
  "length ps = length lens \<Longrightarrow> \<forall>n \<in> set lens. 0 \<le> n \<Longrightarrow> length (batch_positions ps lens) = nat (sum_list lens)"
  by (induction ps lens rule: list_induct2) (simp_all add: batch_positions_def nat_add_distrib sum_list_nonneg)

lemma positions_from:
  assumes "length segs = length lens" "\<forall>n \<in> set lens. 0 \<le> n" "0 \<le> off" "nat off + nat (sum_list lens) \<le> length ids"
  shows "rfor (\<lambda>(s, (in_start, in_len)) ids. int_store in_start (map (\<lambda>j. seg_len s + int j) [0..<nat in_len]) ids)
      (zip segs (in_segs_from off lens)) ids
    = Inr (take (nat off) ids @ batch_positions (map seg_len segs) lens @ drop (nat off + nat (sum_list lens)) ids)"
  using assms
proof (induction segs lens arbitrary: off ids rule: list_induct2)
  case Nil
  then show ?case by (simp add: batch_positions_def)
next
  case (Cons s segs n lens)
  let ?new = "map (\<lambda>j. seg_len s + int j) [0..<nat n]"
  have n: "0 \<le> n" "0 \<le> sum_list lens" using Cons.prems(1) by (simp_all add: sum_list_nonneg)
  then have l: "nat (sum_list (n # lens)) = nat n + nat (sum_list lens)" "nat (off + n) = nat off + nat n"
    using Cons.prems(2) by (simp_all add: nat_add_distrib)
  let ?ids = "take (nat off) ids @ ?new @ drop (nat off + nat n) ids"
  have st: "int_store off ?new ids = Inr ?ids"
    using int_store_replace [of off ?new ids] Cons.prems(2,3) l by simp
  have le: "nat off + nat n + nat (sum_list lens) \<le> length ids" using Cons.prems(3) l by simp
  then have lo: "length (take (nat off) ids) = nat off" "length ?new = nat n" by simp_all
  have t: "take (nat off + nat n) ?ids = take (nat off) ids @ ?new"
    "drop (nat off + nat n + nat (sum_list lens)) ?ids = drop (nat off + nat n + nat (sum_list lens)) ids"
    using lo le by (simp_all only: take_append drop_append length_append drop_drop) (simp_all add: add.commute)
  have "rfor (\<lambda>(s, (in_start, in_len)) ids. int_store in_start (map (\<lambda>j. seg_len s + int j) [0..<nat in_len]) ids)
      (zip segs (in_segs_from (off + n) lens)) ?ids
    = Inr (take (nat off) ids @ ?new @ batch_positions (map seg_len segs) lens @ drop (nat off + nat n + nat (sum_list lens)) ids)"
    using Cons.IH [of "off + n" ?ids] Cons.prems n l t by simp
  then show ?case using st l by (simp add: batch_positions_def add.assoc)
qed

lemma getPositionIds_eq:
  assumes "length segs = length lens" "\<forall>n \<in> set lens. 0 \<le> n" "sum_list lens \<le> int seq_len"
  shows "getPositionIds segs (in_segs_from 0 lens) seq_len
    = Inr (batch_positions (map seg_len segs) lens @ replicate (seq_len - nat (sum_list lens)) 0)"
  using positions_from [of segs lens 0 "replicate seq_len 0"] assms by (simp add: getPositionIds_def nat_le_iff)

text \<open>The segments of the context are as long as the sessions have got.\<close>

lemma cb_context_fields:
  assumes "cb_context bs toks st = Inr ctx"
  shows "cx_in_segs ctx = in_segs_from 0 (map (int \<circ> length) toks)" "cx_seq_len ctx = sp_seq_len_prefill (l_spec st)"
    "list_all2 (\<lambda>s seg. getSegment (ses_id s) (cb_segs st) = Some seg) bs (cx_kv_segs ctx)"
proof -
  from assms obtain ks where
    r: "rmap (\<lambda>s. case getSegment (ses_id s) (cb_segs st) of None \<Rightarrow> Inl UndefinedBehaviour | Some seg \<Rightarrow> Inr seg) bs = Inr ks"
    and c: "cx_in_segs ctx = in_segs_from 0 (map (int \<circ> length) toks)" "cx_seq_len ctx = sp_seq_len_prefill (l_spec st)" "cx_kv_segs ctx = ks"
    by (auto simp: cb_context_def Let_def split: if_splits)
  show "cx_in_segs ctx = in_segs_from 0 (map (int \<circ> length) toks)" "cx_seq_len ctx = sp_seq_len_prefill (l_spec st)"
    by (fact c)+
  have "getSegment (ses_id (bs ! i)) (cb_segs st) = Some (ks ! i)" if "i < length bs" for i
    using rmap_nth [OF r that] by (simp split: option.splits)
  then show "list_all2 (\<lambda>s seg. getSegment (ses_id s) (cb_segs st) = Some seg) bs (cx_kv_segs ctx)"
    using rmap_length [OF r] by (simp add: c(3) list_all2_conv_all_nth)
qed

lemma cb_context_lens:
  assumes inv: "cb_inv (cb_sessions st) (cb_segs st)" and bs: "set bs \<subseteq> set (cb_sessions st)" "\<forall>s \<in> set bs. ses_status s \<noteq> COMPLETED"
    and mr: "cb_make_room (map ses_id bs) lens st = (Inr u, st1)" and ctx: "cb_context bs toks st1 = Inr ctx"
  shows "map seg_len (cx_kv_segs ctx) = map ses_processed bs"
proof -
  note I = inv [unfolded cb_inv_def]
  let ?E = "ensure_segments (map ses_id bs) (cb_segs st)"
  obtain ms where s: "shiftForGrowth (zip (map ses_id bs) lens) ?E = (cb_segs st1, ms)"
    using cb_make_room_segs [OF mr] by (metis prod.collapse)
  have E: "kv_lens ?E i = (if i \<in> ses_id ` set bs \<and> kv_lens (cb_segs st) i = None then Some 0 else kv_lens (cb_segs st) i)" for i
    using ensure_segments_spec [of "cb_segs st" "map ses_id bs"] I by auto
  have "kv_lens (cb_segs st1) = kv_lens ?E" using shiftForGrowth_lists [OF s] by (intro kv_lens_cong)
  then have l: "kv_lens (cb_segs st1) (ses_id b) = Some (ses_processed b)" if "b \<in> set bs" for b
  proof -
    have "b \<in> set (cb_sessions st)" "ses_status b \<noteq> COMPLETED" using that bs by auto
    then have "kv_lens (cb_segs st) (ses_id b) = (if ses_processed b = 0 then None else Some (ses_processed b))" using I by simp
    moreover have "kv_lens (cb_segs st1) (ses_id b) = kv_lens ?E (ses_id b)" using \<open>kv_lens (cb_segs st1) = kv_lens ?E\<close> by simp
    ultimately show ?thesis using that unfolding E by simp
  qed
  have "seg_len seg = ses_processed b" if "b \<in> set bs" "getSegment (ses_id b) (cb_segs st1) = Some seg" for b seg
    using l [OF that(1)] that(2) by (simp add: kv_lens_getSegment)
  with cb_context_fields(3) [OF ctx] show ?thesis
    by (intro nth_equalityI) (auto simp: list_all2_conv_all_nth)
qed

end
