(* ===== verification/CBCache.thy ===== *)
theory CBCache
  imports CBInvariant
begin

text \<open>
  The moves of the segments on the bytes of the cache tensors: \<open>moveKVBuffer\<close> acts on every
  row of every key and value tensor of every shard as the move acts on a list of tokens, so
  compaction and growth keep the tokens of each session.
\<close>

section \<open>A move acts on every row of a tensor\<close>

text \<open>Row \<open>r\<close> of a cache buffer as the list of its tokens.\<close>

definition row_tokens :: "nat \<Rightarrow> nat \<Rightarrow> u8 list \<Rightarrow> nat \<Rightarrow> u8 list list" where
  "row_tokens tok stride buf r = map (kv_cell tok stride buf r) [0..<stride]"

lemma length_row_tokens [simp]: "length (row_tokens tok stride buf r) = stride"
  by (simp add: row_tokens_def)

lemma move_tokens_InrE:
  assumes "move_tokens mv row = Inr row'"
  obtains src dst n where "mv = (int src, int dst, int n)" "src + n \<le> length row" "dst + n \<le> length row"
    "row' = blit dst (slice src n row) row"
proof -
  obtain src dst n where mv: "mv = (src, dst, n)" by (cases mv)
  with assms have "0 \<le> src" "0 \<le> dst" "0 \<le> n" by (auto simp: move_tokens_def split: if_splits)
  with assms mv that [of "nat src" "nat dst" "nat n"] show thesis
    by (auto simp: move_tokens_def buf_memmove_def split: if_splits)
qed

lemma nth_row_blit:
  assumes "src + n \<le> stride" "dst + n \<le> stride" "t < stride"
  shows "blit dst (slice src n (row_tokens tok stride buf r)) (row_tokens tok stride buf r) ! t
    = kv_cell tok stride buf r (if dst \<le> t \<and> t < dst + n then src + (t - dst) else t)"
  using assms by (auto simp: nth_blit length_slice nth_slice row_tokens_def)

lemma move_row_tokens:
  assumes fits: "kv_fits n_rows tok stride buf" and r: "r < n_rows"
    and mv: "move_tokens mv (row_tokens tok stride buf r) = Inr row'"
  shows "\<exists>buf'. move_row tok stride mv r buf = Inr buf' \<and> length buf' = length buf
     \<and> row_tokens tok stride buf' r = row'
     \<and> (\<forall>q < n_rows. q \<noteq> r \<longrightarrow> row_tokens tok stride buf' q = row_tokens tok stride buf q)"
proof -
  from mv obtain src dst n where m: "mv = (int src, int dst, int n)" and b: "src + n \<le> stride" "dst + n \<le> stride"
    and row': "row' = blit dst (slice src n (row_tokens tok stride buf r)) (row_tokens tok stride buf r)"
    by (auto elim: move_tokens_InrE)
  have bound: "(q * stride + a) * tok + k * tok \<le> length buf" if "q < n_rows" "a + k \<le> stride" for q a k
  proof -
    have "(q * stride + a + k) * tok \<le> (q * stride + stride) * tok" using that by (intro mult_le_mono1) simp
    also have "\<dots> \<le> n_rows * stride * tok" using row_end [OF that(1), of stride tok] by (simp add: add_mult_distrib)
    finally show ?thesis using fits by (simp add: kv_fits_def add_mult_distrib)
  qed
  let ?bs = "slice ((r * stride + src) * tok) (n * tok) buf"
  let ?buf' = "blit ((r * stride + dst) * tok) ?bs buf"
  have l: "length ?bs = n * tok" using bound [OF r b(1)] by (simp add: length_slice)
  have step: "move_row tok stride mv r buf = Inr ?buf'"
    using bound [OF r b(1)] bound [OF r b(2)] by (simp add: move_row_def m buf_memmove_def)
  have len: "length ?buf' = length buf" using bound [OF r b(2)] l by (simp add: length_blit)
  have "row_tokens tok stride ?buf' r ! t = row' ! t" if t: "t < stride" for t
  proof (cases "dst \<le> t \<and> t < dst + n")
    case True
    then have "kv_cell tok stride ?buf' r t = slice ((t - dst) * tok) tok ?bs"
      using bound [OF r b(2)] l by (intro kv_cell_blit_in) auto
    also have "\<dots> = slice ((r * stride + src) * tok + (t - dst) * tok) tok buf"
    proof (rule slice_slice)
      have "t - dst + 1 \<le> n" using True by linarith
      then have "(t - dst + 1) * tok \<le> n * tok" by (rule mult_le_mono1)
      then show "(t - dst) * tok + tok \<le> n * tok" by simp
    qed
    also have "\<dots> = kv_cell tok stride buf r (src + (t - dst))"
      by (simp add: kv_cell_def add_mult_distrib add.assoc)
    finally show ?thesis using True t nth_row_blit [OF b t] by (simp add: row' row_tokens_def)
  next
    case False
    then have "kv_cell tok stride ?buf' r t = kv_cell tok stride buf r t"
      using bound [OF r b(2)] bound [OF r, of t 1] t b l by (intro kv_cell_blit_out [where n = n]) auto
    moreover have "row' ! t = kv_cell tok stride buf r t"
      unfolding row' nth_row_blit [OF b t] by (simp only: False if_False)
    ultimately show ?thesis using t by (simp add: row_tokens_def)
  qed
  then have own: "row_tokens tok stride ?buf' r = row'"
    using b by (intro nth_equalityI) (auto simp: row' length_blit length_slice)
  have "kv_cell tok stride ?buf' q t = kv_cell tok stride buf q t" if "q < n_rows" "q \<noteq> r" "t < stride" for q t
    using bound [OF r b(2)] bound [OF that(1), of t 1] that b l by (intro kv_cell_blit_out [where n = n]) auto
  then have "\<forall>q < n_rows. q \<noteq> r \<longrightarrow> row_tokens tok stride ?buf' q = row_tokens tok stride buf q"
    by (simp add: row_tokens_def)
  with step len own show ?thesis by blast
qed

lemma move_rows_tokens:
  assumes fits: "kv_fits n_rows tok stride buf"
    and mv: "\<And>r. r < n_rows \<Longrightarrow> move_tokens mv (row_tokens tok stride buf r) = Inr (rows' r)"
  shows "\<exists>buf'. move_rows n_rows tok stride mv buf = Inr buf' \<and> length buf' = length buf
     \<and> (\<forall>r < n_rows. row_tokens tok stride buf' r = rows' r)"
proof -
  have "\<exists>buf'. move_rows n_rows tok stride mv buf = Inr buf' \<and> length buf' = length buf
     \<and> (\<forall>r < n_rows. row_tokens tok stride buf' r
          = (if r < length [0..<n_rows] then rows' r else row_tokens tok stride buf r))"
    unfolding move_rows_def
  proof (rule rfor_total [where I = "\<lambda>k b. length b = length buf
      \<and> (\<forall>r < n_rows. row_tokens tok stride b r = (if r < k then rows' r else row_tokens tok stride buf r))"])
    fix k b
    assume k: "k < length [0..<n_rows]" and I: "length b = length buf
      \<and> (\<forall>r < n_rows. row_tokens tok stride b r = (if r < k then rows' r else row_tokens tok stride buf r))"
    then have f: "kv_fits n_rows tok stride b" "[0..<n_rows] ! k = k" "k < n_rows" using fits by (simp_all add: kv_fits_def)
    then have "move_tokens mv (row_tokens tok stride b k) = Inr (rows' k)" using mv [of k] I by simp
    from move_row_tokens [OF f(1,3) this] obtain b' where
      "move_row tok stride mv k b = Inr b'" "length b' = length b" "row_tokens tok stride b' k = rows' k"
      "\<forall>q < n_rows. q \<noteq> k \<longrightarrow> row_tokens tok stride b' q = row_tokens tok stride b q" by blast
    with I f show "\<exists>s'. move_row tok stride mv ([0..<n_rows] ! k) b = Inr s' \<and> (length s' = length buf
      \<and> (\<forall>r < n_rows. row_tokens tok stride s' r = (if r < Suc k then rows' r else row_tokens tok stride buf r)))"
      by (intro exI [of _ b']) (auto simp: less_Suc_eq)
  qed simp
  then show ?thesis by auto
qed

text \<open>A list of moves carries over from one row of tokens to the whole tensor.\<close>

lemma moves_tokens:
  assumes "kv_fits n_rows tok stride buf"
    and "\<And>r. r < n_rows \<Longrightarrow> rfor move_tokens ms (row_tokens tok stride buf r) = Inr (rows' r)"
  shows "\<exists>buf'. rfor (move_rows n_rows tok stride) ms buf = Inr buf' \<and> length buf' = length buf
     \<and> (\<forall>r < n_rows. row_tokens tok stride buf' r = rows' r)"
  using assms
proof (induction ms arbitrary: buf)
  case (Cons mv ms)
  have "\<exists>row1. \<forall>r < n_rows. move_tokens mv (row_tokens tok stride buf r) = Inr (row1 r) \<and> rfor move_tokens ms (row1 r) = Inr (rows' r)"
    using Cons.prems(2) by (intro choice allI) (auto simp: rbind_Inr_iff)
  then obtain row1 where row1: "\<And>r. r < n_rows \<Longrightarrow> move_tokens mv (row_tokens tok stride buf r) = Inr (row1 r)"
    "\<And>r. r < n_rows \<Longrightarrow> rfor move_tokens ms (row1 r) = Inr (rows' r)" by blast
  from move_rows_tokens [OF Cons.prems(1) row1(1)] obtain buf1 where
    b1: "move_rows n_rows tok stride mv buf = Inr buf1" "length buf1 = length buf"
    "\<forall>r < n_rows. row_tokens tok stride buf1 r = row1 r" by blast
  have "kv_fits n_rows tok stride buf1" using Cons.prems(1) b1(2) by (simp add: kv_fits_def)
  from Cons.IH [OF this] row1(2) b1 show ?case by auto
qed auto

section \<open>Moves on the whole cache\<close>

text \<open>A cache tensor of a graph: its buffer, its rows, the bytes of a token and the stride.\<close>

type_synonym cache_tensor = "nat \<times> nat \<times> nat \<times> nat"

definition cache_tensor :: "graph \<Rightarrow> string \<Rightarrow> nat \<Rightarrow> (nat \<Rightarrow> nat) \<Rightarrow> nat \<Rightarrow> cache_tensor res" where
  "cache_tensor g name n_rows tok_of d =
     rbind (inputPtr g name) (\<lambda>buf. rbind (inputSpec g name) (\<lambda>spec. rbind (idx_vec (ts_shape spec) d) (\<lambda>stride.
     rbind (deref buf) (\<lambda>b. Inr (b, n_rows, tok_of (elementSize (ts_dtype spec)), stride)))))"

definition pair_tensors :: "llm_spec \<Rightarrow> graph \<Rightarrow> kv_pair \<Rightarrow> cache_tensor list res" where
  "pair_tensors sp g p = (let H = sp_num_kv_heads sp; hd = sp_head_dim sp in
     rbind (cache_tensor g (kp_key_in p) (H * hd) (\<lambda>es. es) 3) (\<lambda>k.
     rbind (cache_tensor g (kp_value_in p) H (\<lambda>es. hd * es) 2) (\<lambda>v. Inr [k, v])))"

definition shard_tensors :: "('p, 'a) llm_scheme \<Rightarrow> state_block \<Rightarrow> nat \<Rightarrow> cache_tensor list res" where
  "shard_tensors st b s = rbind (idx_vec (sb_shard_pairs b) s) (\<lambda>pairs.
     if pairs = [] then Inr []
     else rbind (graph_at st (graphIndex st 0 s (l_active_cl st))) (\<lambda>g.
          rbind (rmap (pair_tensors (l_spec st) g) pairs) (\<lambda>tss. Inr (concat tss))))"

definition cache_tensors :: "('p, 'a) llm_scheme \<Rightarrow> cache_tensor list res" where
  "cache_tensors st = rbind (requireKVStateBlock st) (\<lambda>b.
     rbind (rmap (shard_tensors st b) [0..<l_shard_count st]) (\<lambda>tss. Inr (concat tss)))"

definition apply_move :: "move_op \<Rightarrow> cache_tensor \<Rightarrow> mem \<Rightarrow> mem res" where
  "apply_move mv = (\<lambda>(b, n_rows, tok, stride). mem_on b (move_rows n_rows tok stride mv))"

lemma move_tensor_apply:
  "cache_tensor g name n_rows tok_of d = Inr t \<Longrightarrow> move_tensor g name n_rows tok_of d mv = apply_move mv t"
  by (rule ext) (auto simp: cache_tensor_def move_tensor_def apply_move_def mem_on_def move_rows_def)

lemma rfor_concat: "rfor f (concat xss) m = rfor (\<lambda>xs. rfor f xs) xss m"
  by (induction xss arbitrary: m) (simp_all add: rfor_append rbind_def split: sum.splits)

lemma pairs_moves:
  assumes "rmap (pair_tensors sp g) ps = Inr tss"
  shows "rfor (\<lambda>f. f) (concat (map (\<lambda>p. [move_tensor g (kp_key_in p) (sp_num_kv_heads sp * sp_head_dim sp) (\<lambda>es. es) 3 mv,
      move_tensor g (kp_value_in p) (sp_num_kv_heads sp) (\<lambda>es. sp_head_dim sp * es) 2 mv]) ps)) m
    = rfor (apply_move mv) (concat tss) m"
  using assms
proof (induction ps arbitrary: tss m)
  case (Cons p ps)
  from Cons.prems obtain ts tss' where t: "pair_tensors sp g p = Inr ts" "rmap (pair_tensors sp g) ps = Inr tss'" "tss = ts # tss'"
    by auto
  from t(1) obtain k v where "cache_tensor g (kp_key_in p) (sp_num_kv_heads sp * sp_head_dim sp) (\<lambda>es. es) 3 = Inr k"
    "cache_tensor g (kp_value_in p) (sp_num_kv_heads sp) (\<lambda>es. sp_head_dim sp * es) 2 = Inr v"
    "ts = [k, v]"
    by (auto simp: pair_tensors_def Let_def)
  with t Cons.IH [OF t(2)] show ?case
    by (simp add: move_tensor_apply rbind_def split: sum.splits)
qed simp

lemma shards_moves:
  assumes "rmap (shard_tensors st b) ss = Inr tss" "rfor (apply_move mv) (concat tss) (m_mem st') = Inr m"
  shows "sfor (\<lambda>s. sbind (slift (idx_vec (sb_shard_pairs b) s)) (\<lambda>pairs.
           if pairs = [] then sret ()
           else sbind (slift (graph_at st (graphIndex st 0 s (l_active_cl st)))) (\<lambda>g.
             let H = sp_num_kv_heads (l_spec st); hd = sp_head_dim (l_spec st)
             in sfor (\<lambda>p. sthen
                  (smem (move_tensor g (kp_key_in p) (H * hd) (\<lambda>es. es) 3 mv))
                  (smem (move_tensor g (kp_value_in p) H (\<lambda>es. hd * es) 2 mv)))
                pairs))) ss st' = (Inr (), st'\<lparr> m_mem := m \<rparr>)"
  using assms
proof (induction ss arbitrary: tss st')
  case Nil
  then show ?case by (simp add: sx_simps)
next
  case (Cons s ss)
  from Cons.prems(1) obtain ts tss' where ts: "shard_tensors st b s = Inr ts" "rmap (shard_tensors st b) ss = Inr tss'" "tss = ts # tss'"
    by auto
  from Cons.prems(2) ts(3) obtain m1 where m1: "rfor (apply_move mv) ts (m_mem st') = Inr m1" "rfor (apply_move mv) (concat tss') m1 = Inr m"
    by (auto simp: rfor_append)
  from ts(1) obtain pairs where p: "idx_vec (sb_shard_pairs b) s = Inr pairs" by (auto simp: shard_tensors_def)
  note IH = Cons.IH [OF ts(2), of "st'\<lparr> m_mem := m1 \<rparr>"]
  have same: "st'\<lparr> m_mem := m_mem st' \<rparr> = st'" by simp
  show ?case
  proof (cases "pairs = []")
    case True
    then have "m1 = m_mem st'" using ts(1) p m1(1) by (simp add: shard_tensors_def)
    then show ?thesis using True p IH m1(2) same by (simp add: sx_simps sthen_run sbind_run)
  next
    case False
    then obtain g tss1 where g: "graph_at st (graphIndex st 0 s (l_active_cl st)) = Inr g"
      "rmap (pair_tensors (l_spec st) g) pairs = Inr tss1" "ts = concat tss1"
      using ts(1) p by (auto simp: shard_tensors_def)
    from sfor_smem [OF trans [OF pairs_moves [OF g(2), of mv "m_mem st'"] m1(1) [unfolded g(3)]]]
    show ?thesis using False p g(1) IH m1(2) by (simp add: sx_simps sthen_run sbind_run Let_def)
  qed
qed

lemma moveKVBuffer_apply:
  assumes "cache_tensors st = Inr ts" "rfor (apply_move (src, dst, n)) ts (m_mem st) = Inr m" "src \<noteq> dst" "n \<noteq> 0"
  shows "moveKVBuffer (src, dst, n) st = (Inr (), st\<lparr> m_mem := m \<rparr>)"
proof -
  from assms(1) obtain b tss where b: "requireKVStateBlock st = Inr b" "rmap (shard_tensors st b) [0..<l_shard_count st] = Inr tss" "ts = concat tss"
    by (auto simp: cache_tensors_def)
  from shards_moves [OF b(2), of "(src, dst, n)" st m] assms(2) b
  show ?thesis using assms(3,4) b(1) by (simp add: moveKVBuffer_def sx_simps sbind_run)
qed

lemma cache_tensors_mem [simp]: "cache_tensors (st\<lparr> m_mem := m \<rparr>) = cache_tensors st"
proof -
  have "shard_tensors (st\<lparr> m_mem := m \<rparr>) b = shard_tensors st b" for b
    by (rule ext) (simp add: shard_tensors_def graph_at_def graphIndex_def cong: if_cong)
  then show ?thesis by (simp add: cache_tensors_def requireKVStateBlock_def)
qed


text \<open>What a list of moves does to every row of every cache tensor.\<close>

definition tensor_row :: "mem \<Rightarrow> cache_tensor \<Rightarrow> nat \<Rightarrow> u8 list list" where
  "tensor_row m = (\<lambda>(b, n_rows, tok, stride). row_tokens tok stride (m b))"

definition tensor_rows :: "cache_tensor \<Rightarrow> nat" where
  "tensor_rows t = fst (snd t)"

definition cache_rows :: "cache_tensor list \<Rightarrow> mem \<Rightarrow> (cache_tensor \<Rightarrow> nat \<Rightarrow> u8 list list) \<Rightarrow> bool" where
  "cache_rows ts m R \<longleftrightarrow> (\<forall>t \<in> set ts. \<forall>r < tensor_rows t. tensor_row m t r = R t r)"

definition cache_fits :: "cache_tensor list \<Rightarrow> mem \<Rightarrow> bool" where
  "cache_fits ts m \<longleftrightarrow> distinct (map fst ts) \<and> (\<forall>(b, n_rows, tok, stride) \<in> set ts. kv_fits n_rows tok stride (m b))"

definition row_moves :: "move_op list \<Rightarrow> cache_tensor list \<Rightarrow> mem \<Rightarrow> (cache_tensor \<Rightarrow> nat \<Rightarrow> u8 list list) \<Rightarrow> bool" where
  "row_moves ms ts m R \<longleftrightarrow> (\<forall>t \<in> set ts. \<forall>r < tensor_rows t. rfor move_tokens ms (tensor_row m t r) = Inr (R t r))"

lemma cache_fits_lengths: "cache_fits ts m \<Longrightarrow> has_mem_lengths m m' \<Longrightarrow> cache_fits ts m'"
  by (auto simp: cache_fits_def has_mem_lengths_def kv_fits_def)

lemma apply_moves_ok:
  assumes "cache_fits ts m" "row_moves [mv] ts m R"
  shows "\<exists>m'. rfor (apply_move mv) ts m = Inr m' \<and> cache_rows ts m' R \<and> has_mem_lengths m m'
     \<and> (\<forall>b. b \<notin> fst ` set ts \<longrightarrow> m' b = m b)"
  using assms
proof (induction ts arbitrary: m)
  case Nil
  then show ?case by (simp add: cache_rows_def)
next
  case (Cons t ts)
  obtain b n_rows tok stride where t: "t = (b, n_rows, tok, stride)" by (cases t)
  have f: "kv_fits n_rows tok stride (m b)" "b \<notin> fst ` set ts" "cache_fits ts m"
    using Cons.prems(1) by (auto simp: t cache_fits_def)
  have "move_tokens mv (row_tokens tok stride (m b) r) = Inr (R t r)" if "r < n_rows" for r
    using Cons.prems(2) that by (auto simp: row_moves_def t tensor_row_def tensor_rows_def rbind_Inr_iff)
  from move_rows_tokens [OF f(1) this] obtain buf where
    buf: "move_rows n_rows tok stride mv (m b) = Inr buf" "length buf = length (m b)"
      "\<forall>r < n_rows. row_tokens tok stride buf r = R t r" by blast
  let ?m = "m(b := buf)"
  have l: "has_mem_lengths m ?m" using buf(2) by (simp add: has_mem_lengths_def)
  have "tensor_row ?m u = tensor_row m u" if "u \<in> set ts" for u
    using f(2) that by (cases u) (force simp: tensor_row_def)
  then have "row_moves [mv] ts ?m R" using Cons.prems(2) by (simp add: row_moves_def)
  from Cons.IH [OF cache_fits_lengths [OF f(3) l] this] obtain m' where
    m': "rfor (apply_move mv) ts ?m = Inr m'" "cache_rows ts m' R" "has_mem_lengths ?m m'"
      "\<forall>b. b \<notin> fst ` set ts \<longrightarrow> m' b = ?m b" by blast
  have "apply_move mv t m = Inr ?m" using buf(1) by (simp add: t apply_move_def mem_on_def)
  moreover have "cache_rows (t # ts) m' R" using m'(2,4) f(2) buf(3) by (simp add: t cache_rows_def tensor_row_def tensor_rows_def)
  moreover have "has_mem_lengths m m'" using m'(3) l by (simp add: has_mem_lengths_def)
  ultimately show ?case using m'(1,4) t by (intro exI [of _ m']) simp
qed

lemma move_tokens_skip:
  assumes "move_tokens (src, dst, n) row = Inr row'" "src = dst \<or> n = 0"
  shows "row' = row"
proof -
  from assms(1) obtain s d k where m: "(src, dst, n) = (int s, int d, int k)" "s + k \<le> length row" "row' = blit d (slice s k row) row"
    by (rule move_tokens_InrE)
  from assms(2) m(1) consider "k = 0" | "s = d" by auto
  then show ?thesis
  proof cases
    case 2
    with m show ?thesis by (intro nth_equalityI) (auto simp: nth_blit length_blit length_slice nth_slice)
  qed (simp add: m(3))
qed

lemma moveKVBuffer_rows:
  assumes "cache_tensors st = Inr ts" "cache_fits ts (m_mem st)" "row_moves [mv] ts (m_mem st) R"
  shows "\<exists>m'. moveKVBuffer mv st = (Inr (), st\<lparr> m_mem := m' \<rparr>) \<and> cache_rows ts m' R \<and> has_mem_lengths (m_mem st) m'
     \<and> (\<forall>b. b \<notin> fst ` set ts \<longrightarrow> m' b = m_mem st b)"
proof -
  obtain src dst n where mv: "mv = (src, dst, n)" by (cases mv)
  show ?thesis
  proof (cases "src = dst \<or> n = 0")
    case True
    have "cache_rows ts (m_mem st) R"
      using assms(3) move_tokens_skip [OF _ True] by (fastforce simp: cache_rows_def row_moves_def mv rbind_Inr_iff)
    then show ?thesis using True by (intro exI [of _ "m_mem st"]) (auto simp: moveKVBuffer_def mv sx_simps has_mem_lengths_def)
  next
    case False
    from apply_moves_ok [OF assms(2,3)] obtain m' where
      m': "rfor (apply_move mv) ts (m_mem st) = Inr m'" "cache_rows ts m' R" "has_mem_lengths (m_mem st) m'"
        "\<forall>b. b \<notin> fst ` set ts \<longrightarrow> m' b = m_mem st b" by blast
    with moveKVBuffer_apply [of st ts src dst n m'] assms(1) False mv show ?thesis by auto
  qed
qed

lemma moveKVBuffers_rows:
  assumes "cache_tensors st = Inr ts" "cache_fits ts (m_mem st)" "row_moves ms ts (m_mem st) R"
  shows "\<exists>m'. sfor moveKVBuffer ms st = (Inr (), st\<lparr> m_mem := m' \<rparr>) \<and> cache_rows ts m' R \<and> has_mem_lengths (m_mem st) m'
     \<and> (\<forall>b. b \<notin> fst ` set ts \<longrightarrow> m' b = m_mem st b)"
  using assms
proof (induction ms arbitrary: st)
  case Nil
  then show ?case by (intro exI [of _ "m_mem st"]) (auto simp: sx_simps cache_rows_def row_moves_def has_mem_lengths_def)
next
  case (Cons mv ms)
  define R1 where "R1 = (\<lambda>t r. projr (move_tokens mv (tensor_row (m_mem st) t r)))"
  have R1: "row_moves [mv] ts (m_mem st) R1" "\<forall>t \<in> set ts. \<forall>r < tensor_rows t. rfor move_tokens ms (R1 t r) = Inr (R t r)"
  proof -
    have "move_tokens mv (tensor_row (m_mem st) t r) = Inr (R1 t r) \<and> rfor move_tokens ms (R1 t r) = Inr (R t r)"
      if "t \<in> set ts" "r < tensor_rows t" for t r
    proof -
      have "rfor move_tokens (mv # ms) (tensor_row (m_mem st) t r) = Inr (R t r)"
        using Cons.prems(3) that unfolding row_moves_def by blast
      then show ?thesis by (auto simp: R1_def rbind_Inr_iff)
    qed
    then show "row_moves [mv] ts (m_mem st) R1" "\<forall>t \<in> set ts. \<forall>r < tensor_rows t. rfor move_tokens ms (R1 t r) = Inr (R t r)"
      by (simp_all add: row_moves_def)
  qed
  from moveKVBuffer_rows [OF Cons.prems(1,2) R1(1)] obtain m1 where
    m1: "moveKVBuffer mv st = (Inr (), st\<lparr> m_mem := m1 \<rparr>)" "cache_rows ts m1 R1" "has_mem_lengths (m_mem st) m1"
      "\<forall>b. b \<notin> fst ` set ts \<longrightarrow> m1 b = m_mem st b" by blast
  let ?st = "st\<lparr> m_mem := m1 \<rparr>"
  have "row_moves ms ts (m_mem ?st) R" using R1(2) m1(2) by (simp add: row_moves_def cache_rows_def)
  moreover have "cache_fits ts (m_mem ?st)" using cache_fits_lengths [OF Cons.prems(2) m1(3)] by simp
  ultimately obtain m' where "sfor moveKVBuffer ms ?st = (Inr (), ?st\<lparr> m_mem := m' \<rparr>)" "cache_rows ts m' R"
    "has_mem_lengths m1 m'" "\<forall>b. b \<notin> fst ` set ts \<longrightarrow> m' b = m1 b"
    using Cons.IH [of ?st] Cons.prems(1) by auto
  with m1 show ?case by (intro exI [of _ m']) (auto simp: sthen_run has_mem_lengths_def)
qed


text \<open>Any list of moves that keeps the tokens of the segments in a row keeps them in the cache.\<close>

lemma moves_keep_segments:
  assumes ts: "cache_tensors st = Inr ts" "cache_fits ts (m_mem st)"
    and row: "\<And>row :: u8 list list. (\<exists>t \<in> set ts. length row = snd (snd (snd t))) \<Longrightarrow>
      \<exists>row'. rfor move_tokens ms row = Inr row' \<and> map (seg_tokens row') segs' = map (seg_tokens row) segs"
  shows "\<exists>m'. sfor moveKVBuffer ms st = (Inr (), st\<lparr> m_mem := m' \<rparr>)
     \<and> (\<forall>t \<in> set ts. \<forall>r < tensor_rows t. map (seg_tokens (tensor_row m' t r)) segs' = map (seg_tokens (tensor_row (m_mem st) t r)) segs)
     \<and> (\<forall>b. b \<notin> fst ` set ts \<longrightarrow> m' b = m_mem st b)"
proof -
  define R where "R = (\<lambda>t r. projr (rfor move_tokens ms (tensor_row (m_mem st) t r)))"
  have R: "rfor move_tokens ms (tensor_row (m_mem st) t r) = Inr (R t r)
      \<and> map (seg_tokens (R t r)) segs' = map (seg_tokens (tensor_row (m_mem st) t r)) segs" if t: "t \<in> set ts" for t r
  proof -
    have "length (tensor_row (m_mem st) t r) = snd (snd (snd t))" by (cases t) (simp add: tensor_row_def)
    then obtain row' where "rfor move_tokens ms (tensor_row (m_mem st) t r) = Inr row'"
      "map (seg_tokens row') segs' = map (seg_tokens (tensor_row (m_mem st) t r)) segs"
      using row [of "tensor_row (m_mem st) t r"] t by blast
    then show ?thesis by (simp add: R_def)
  qed
  then have "row_moves ms ts (m_mem st) R" by (simp add: row_moves_def)
  from moveKVBuffers_rows [OF ts this] obtain m' where
    "sfor moveKVBuffer ms st = (Inr (), st\<lparr> m_mem := m' \<rparr>)" "cache_rows ts m' R"
    "\<forall>b. b \<notin> fst ` set ts \<longrightarrow> m' b = m_mem st b" by blast
  with R show ?thesis by (intro exI [of _ m']) (simp add: cache_rows_def)
qed

text \<open>The segments fit the stride of every cache tensor.\<close>

definition segs_fit :: "kv_segment list \<Rightarrow> cache_tensor list \<Rightarrow> bool" where
  "segs_fit segs ts \<longleftrightarrow> (\<forall>s \<in> set segs. \<forall>(b, n_rows, tok, stride) \<in> set ts. seg_end s \<le> int stride)"

lemma cleanup_keeps:
  assumes ts: "cache_tensors st = Inr ts" "cache_fits ts (m_mem st)"
    and segs: "segs = release_completed (cb_sessions st) (cb_segs st)" "segs_ok segs" "segs_fit segs ts"
  shows "\<exists>st'. cb_cleanup st = (Inr (), st') \<and> segs_ok (cb_segs st') \<and> map seg_id (cb_segs st') = map seg_id segs
     \<and> map seg_len (cb_segs st') = map seg_len segs
     \<and> (\<forall>t \<in> set ts. \<forall>r < tensor_rows t.
          map (seg_tokens (tensor_row (m_mem st') t r)) (cb_segs st') = map (seg_tokens (tensor_row (m_mem st) t r)) segs)"
proof -
  obtain segs' ms where c: "kv_compact segs = (segs', ms)" by fastforce
  let ?st = "st\<lparr> cb_segs := segs' \<rparr>"
  have row: "\<exists>row'. rfor move_tokens ms row = Inr row' \<and> map (seg_tokens row') segs' = map (seg_tokens row) segs"
    if "\<exists>t \<in> set ts. length row = snd (snd (snd t))" for row :: "u8 list list"
  proof -
    have "row_fits segs row" using that segs(3) by (fastforce simp: row_fits_def segs_fit_def)
    with compact_from_ok [of 0 segs row segs' ms] segs(2) c show ?thesis
      by (auto simp: segs_ok_def kv_compact_def keeps_tokens_def)
  qed
  have t: "cache_tensors ?st = Inr ts" "cache_fits ts (m_mem ?st)"
    using ts by (simp_all add: cache_tensors_def requireKVStateBlock_def shard_tensors_def [abs_def] graph_at_def graphIndex_def cong: if_cong)
  from moves_keep_segments [OF t row] obtain m' where m':
    "sfor moveKVBuffer ms ?st = (Inr (), ?st\<lparr> m_mem := m' \<rparr>)"
    "\<forall>t \<in> set ts. \<forall>r < tensor_rows t. map (seg_tokens (tensor_row m' t r)) segs' = map (seg_tokens (tensor_row (m_mem ?st) t r)) segs"
    by blast
  have "cb_cleanup st = (Inr (), ?st\<lparr> m_mem := m' \<rparr>)"
    using m'(1) c by (simp add: cb_cleanup_def segs(1) [symmetric] sx_simps sthen_run)
  moreover have "segs_ok segs'" using kv_compact_segs_ok [OF segs(2)] c by simp
  ultimately show ?thesis using m'(2) kv_compact_lists [OF c] by (intro exI [of _ "?st\<lparr> m_mem := m' \<rparr>"]) simp
qed

lemma growth_keeps:
  assumes ts: "cache_tensors st = Inr ts" "cache_fits ts (m_mem st)"
    and segs: "segs_ok segs" "\<And>i. 0 \<le> growth_of gs i" "shiftForGrowth gs segs = (segs', ms)"
      "segs_fit (shift_all (growth_of gs) 0 segs) ts"
  shows "segs_ok (map (grown (growth_of gs)) segs') \<and> (\<exists>m'. sfor moveKVBuffer ms st = (Inr (), st\<lparr> m_mem := m' \<rparr>)
     \<and> (\<forall>t \<in> set ts. \<forall>r < tensor_rows t. map (seg_tokens (tensor_row m' t r)) segs' = map (seg_tokens (tensor_row (m_mem st) t r)) segs)
     \<and> (\<forall>b. b \<notin> fst ` set ts \<longrightarrow> m' b = m_mem st b))"
proof (intro conjI moves_keep_segments [OF ts])
  show "segs_ok (map (grown (growth_of gs)) segs')" by (rule shiftForGrowth_segs_ok [OF segs(1-3)])
  fix row :: "u8 list list" assume "\<exists>t \<in> set ts. length row = snd (snd (snd t))"
  then have "seg_end s \<le> int (length row)" if "s \<in> set (shift_all (growth_of gs) 0 segs)" for s
    using that segs(4) by (fastforce simp: segs_fit_def)
  from shiftForGrowth_ok(2) [OF segs(1-3) this]
  show "\<exists>row'. rfor move_tokens ms row = Inr row' \<and> map (seg_tokens row') segs' = map (seg_tokens row) segs" by blast
qed

section \<open>Concrete instances\<close>

text \<open>The model of the LLM demo with two sessions.\<close>

definition demo_cb :: "session list \<Rightarrow> kv_segment list \<Rightarrow> (string \<times> int) list \<Rightarrow> (unit, unit) cb" where
  "demo_cb ss segs sent = llm.extend (demo_at None 0 []) (cb.fields [] ss segs sent)"

definition demo_cenv :: "unit cb_env" where
  "demo_cenv = \<lparr> ce_write = (\<lambda>_ _ _ m. Inr m), ce_init = (\<lambda>p. p) \<rparr>"

lemma demo_cb_fields [simp]:
  "l_spec (demo_cb ss segs sent) = demo_spec" "l_shard_count (demo_cb ss segs sent) = 1" "l_num_cl (demo_cb ss segs sent) = 1"
  "l_active_cl (demo_cb ss segs sent) = 0" "l_sampler (demo_cb ss segs sent) = None" "l_kv_block (demo_cb ss segs sent) = 0"
  "m_graphs (demo_cb ss segs sent) = [demo_graph, demo_graph]" "m_mem (demo_cb ss segs sent) = (\<lambda>_. replicate 16 0)"
  "cb_sessions (demo_cb ss segs sent) = ss" "cb_segs (demo_cb ss segs sent) = segs" "cb_sent (demo_cb ss segs sent) = sent"
  "cb_providers (demo_cb ss segs sent) = []"
  "cb_sessions_update (\<lambda>_. ss') (demo_cb ss segs sent) = demo_cb ss' segs sent"
  "cb_segs_update (\<lambda>_. segs') (demo_cb ss segs sent) = demo_cb ss segs' sent"
  "cb_sent_update (\<lambda>_. sent') (demo_cb ss segs sent) = demo_cb ss segs sent'"
  "m_mem_update (\<lambda>_ _. replicate 16 0) (demo_cb ss segs sent) = demo_cb ss segs sent"
  by (simp_all add: demo_cb_def llm.extend_def cb.fields_def demo_at_def demo_llm_def mkLLM_def)

lemma demo_cb_graph [simp]: "graph_at (demo_cb ss segs sent) (graphIndex (demo_cb ss segs sent) 0 0 0) = Inr demo_graph"
  by (simp add: graph_at_def at_vec_def graphIndex_def)

lemma demo_cb_shard: "cb_shard demo_env demo_cenv ctx msk 0 (demo_cb ss segs sent) = (Inr (), demo_cb ss segs sent)"
  by (simp add: cb_shard_def sx_simps sbind_run sthen_run smem_def supd_run hasInput_def requireKVStateBlock_def
      demo_graph_def mkGraph_def execute_def demo_env_def copyNewKV_def idx_vec_def swhen_run)

lemma demo_cb_sample:
  "off < 2 \<Longrightarrow> sampleNextToken demo_env 0 off (demo_cb ss segs sent) = (Inr 0, demo_cb ss segs sent)"
  using demo_logits_read [of off]
  by (simp add: sampleNextToken_def readLastLogits_def sx_simps sbind_run argmax_def demo_zero_lt to_i32_def)

lemma demo_cb_move: "moveKVBuffer mv (demo_cb ss segs sent) = (Inr (), demo_cb ss segs sent)"
  by (cases mv) (simp add: moveKVBuffer_def sx_simps sbind_run sthen_run requireKVStateBlock_def idx_vec_def)

definition demo_session :: "string \<Rightarrow> int list \<Rightarrow> int \<Rightarrow> session_status \<Rightarrow> int list \<Rightarrow> int \<Rightarrow> session" where
  "demo_session sid q n status gen k = \<lparr> ses_id = sid, ses_query = q, ses_query_len = int (length q), ses_processed = k,
     ses_status = status, ses_generated = gen, ses_generated_len = int (length gen), ses_max_tokens = n, ses_pending = 0 \<rparr>"

lemma demo_addSession: "addSession sid q n ss = ss @ [demo_session sid q n WAITING [] 0]"
  by (simp add: addSession_def demo_session_def)

lemma demo_cb_moves: "sfor moveKVBuffer ms (demo_cb ss segs sent) = (Inr (), demo_cb ss segs sent)"
  by (induction ms) (simp_all add: sx_simps sthen_run demo_cb_move)

lemma demo_make_room:
  "cb_make_room ids lens (demo_cb ss segs sent)
   = (Inr (), demo_cb ss (fst (shiftForGrowth (zip ids lens) (ensure_segments ids segs))) sent)"
  by (simp add: cb_make_room_def Let_def sx_simps sthen_run selectCL_def split_beta demo_cb_moves)

lemma demo_cleanup:
  "cb_cleanup (demo_cb ss segs sent) = (Inr (), demo_cb ss (fst (kv_compact (release_completed ss segs))) sent)"
  by (simp add: cb_cleanup_def sx_simps sthen_run split_beta demo_cb_moves)

lemmas demo_segs = shiftForGrowth_def growth_of_def shift_move_def shift_segment_def ensure_segments_def kv_allocate_def
  getSegment_def seg_end_def Let_def

lemma cb_run_batchI:
  assumes "map ((!) (cb_sessions st)) batch = ss" "map ses_id ss = ids"
    "plan_batch (int (sp_seq_len_prefill (l_spec st))) 0 ss = Inr toks" "map (int \<circ> length) toks = lens"
    "cb_make_room ids lens st = (Inr (), st1)" "cb_context ss toks st1 = Inr ctx"
    "cb_attention_mask (cx_kv_segs ctx) (cx_in_segs ctx) (sp_seq_len_prefill (l_spec st)) (cx_kv_len ctx) = Inr msk"
    "sfor (cb_shard env cenv ctx msk) [0..<l_shard_count st] st1 = (Inr (), st2)"
    "cb_sample env (zip batch lens) 0 (cb_advance ids lens st2) = (Inr (), st3)" "cb_cleanup st3 = (Inr (), st')"
  shows "cb_run_batch env cenv batch st = (Inr (), st')"
  using assms(3,5-) unfolding cb_run_batch_def Let_def
  by (simp only: swith_def assms(1,2)) (simp add: assms(4) sx_simps sthen_run sbind_run)

lemma demo_mask:
  assumes "\<And>x. x \<in> set (zip segs in_segs) \<Longrightarrow> slot_ok 2 6 x"
  obtains msk where "cb_attention_mask segs in_segs 2 6 = Inr msk"
  using cb_attention_mask_ok [OF assms] by blast

lemma demo_shards: "sfor (cb_shard demo_env demo_cenv ctx msk) [0..<1] (demo_cb ss segs sent) = (Inr (), demo_cb ss segs sent)"
  by (simp add: sx_simps sthen_run demo_cb_shard)

lemma demo_step1:
  "cb_step demo_env demo_cenv (demo_cb (addSession ''b'' [8] 1 (addSession ''a'' [7] 0 [])) [] [])
   = (Inr True, demo_cb [demo_session ''a'' [7] 0 COMPLETED [] 1, demo_session ''b'' [8] 1 RUNNING [0] 1]
       [\<lparr> seg_id = ''b'', seg_start = 0, seg_len = 1 \<rparr>] [(''b'', 0)])"
proof -
  let ?ss = "[demo_session ''a'' [7] 0 RUNNING [] 0, demo_session ''b'' [8] 1 RUNNING [] 0]"
  let ?ss1 = "[demo_session ''a'' [7] 0 RUNNING [] 1, demo_session ''b'' [8] 1 RUNNING [] 1]"
  let ?ss2 = "[demo_session ''a'' [7] 0 COMPLETED [] 1, demo_session ''b'' [8] 1 RUNNING [0] 1]"
  let ?segs = "[\<lparr> seg_id = ''a'', seg_start = 0, seg_len = 0 \<rparr>, \<lparr> seg_id = ''b'', seg_start = 1, seg_len = 0 \<rparr>]"
  let ?segs1 = "[\<lparr> seg_id = ''a'', seg_start = 0, seg_len = 1 \<rparr>, \<lparr> seg_id = ''b'', seg_start = 1, seg_len = 1 \<rparr>]"
  have g: "getNextBatch 2 (addSession ''b'' [8] 1 (addSession ''a'' [7] 0 [])) = (?ss, [0, 1])"
    by (simp add: getNextBatch_def demo_addSession demo_session_def start_session_def)
  have "slot_ok 2 6 x" if "x \<in> set (zip ?segs [(0, 1), (1, 1)])" for x
    using that by (auto simp: slot_ok_def seg_end_def)
  then obtain msk where m: "cb_attention_mask ?segs [(0, 1), (1, 1)] 2 6 = Inr msk" by (rule demo_mask)
  let ?ctx = "\<lparr> cx_sessions = ?ss, cx_in_segs = [(0, 1), (1, 1)], cx_kv_segs = ?segs,
      cx_tokens = [7, 8], cx_seq_len = 2, cx_kv_len = 6 \<rparr>"
  have "cb_run_batch demo_env demo_cenv [0, 1] (demo_cb ?ss [] [])
      = (Inr (), demo_cb ?ss2 [\<lparr> seg_id = ''b'', seg_start = 0, seg_len = 1 \<rparr>] [(''b'', 0)])"
  proof (rule cb_run_batchI)
    show "map ((!) (cb_sessions (demo_cb ?ss [] []))) [0, 1] = ?ss" "map ses_id ?ss = [''a'', ''b'']"
      "plan_batch (int (sp_seq_len_prefill (l_spec (demo_cb ?ss [] [])))) 0 ?ss = Inr [[7], [8]]" "map (int \<circ> length) [[7], [8]] = [1, 1]"
      by (simp_all add: demo_session_def session_chunk_def slice_def)
    have "fst (shiftForGrowth [(''a'', 1), (''b'', 1)] (ensure_segments [''a'', ''b''] [])) = ?segs" by (simp add: demo_segs)
    then show "cb_make_room [''a'', ''b''] [1, 1] (demo_cb ?ss [] []) = (Inr (), demo_cb ?ss ?segs [])" by (simp add: demo_make_room)
    show "cb_context ?ss [[7], [8]] (demo_cb ?ss ?segs []) = Inr ?ctx"
      by (simp add: cb_context_def Let_def idx_vec_def getSegment_def demo_session_def vec_resize_def)
    show "cb_attention_mask (cx_kv_segs ?ctx) (cx_in_segs ?ctx) (sp_seq_len_prefill (l_spec (demo_cb ?ss [] []))) (cx_kv_len ?ctx) = Inr msk"
      using m by simp
    show "sfor (cb_shard demo_env demo_cenv ?ctx msk) [0..<l_shard_count (demo_cb ?ss [] [])] (demo_cb ?ss ?segs []) = (Inr (), demo_cb ?ss ?segs [])"
      using demo_shards by simp
    have "cb_advance [''a'', ''b''] [1, 1] (demo_cb ?ss ?segs []) = demo_cb ?ss1 ?segs1 []"
      by (simp add: cb_advance_def updateSession_def kv_extend_def demo_session_def)
    moreover have "cb_sample demo_env (zip [0, 1] [1, 1]) 0 (demo_cb ?ss1 ?segs1 []) = (Inr (), demo_cb ?ss2 ?segs1 [(''b'', 0)])"
      by (simp add: sx_simps sthen_run sbind_run demo_cb_sample cb_accept_def Let_def demo_session_def completeSession_def push_token_def)
    ultimately show "cb_sample demo_env (zip [0, 1] [1, 1]) 0 (cb_advance [''a'', ''b''] [1, 1] (demo_cb ?ss ?segs []))
        = (Inr (), demo_cb ?ss2 ?segs1 [(''b'', 0)])" by simp
    show "cb_cleanup (demo_cb ?ss2 ?segs1 [(''b'', 0)]) = (Inr (), demo_cb ?ss2 [\<lparr> seg_id = ''b'', seg_start = 0, seg_len = 1 \<rparr>] [(''b'', 0)])"
      by (simp add: demo_cleanup release_completed_def demo_session_def getSegment_def kv_release_def kv_compact_def seg_end_def)
  qed
  then show ?thesis by (simp add: cb_step_def sx_simps sthen_run g)
qed

lemma demo_step2:
  "cb_step demo_env demo_cenv (demo_cb [demo_session ''a'' [7] 0 COMPLETED [] 1, demo_session ''b'' [8] 1 RUNNING [0] 1]
       [\<lparr> seg_id = ''b'', seg_start = 0, seg_len = 1 \<rparr>] [(''b'', 0)])
   = (Inr True, demo_cb [demo_session ''a'' [7] 0 COMPLETED [] 1, demo_session ''b'' [8] 1 COMPLETED [0] 2] [] [(''b'', 0)])"
proof -
  let ?a = "demo_session ''a'' [7] 0 COMPLETED [] 1"
  let ?b = "demo_session ''b'' [8] 1 RUNNING [0] 1" and ?b1 = "demo_session ''b'' [8] 1 RUNNING [0] 2"
  let ?b2 = "demo_session ''b'' [8] 1 COMPLETED [0] 2"
  let ?seg = "[\<lparr> seg_id = ''b'', seg_start = 0, seg_len = 1 \<rparr>]" and ?seg1 = "[\<lparr> seg_id = ''b'', seg_start = 0, seg_len = 2 \<rparr>]"
  let ?sent = "[(''b'', 0)]"
  have g: "getNextBatch 2 [?a, ?b] = ([?a, ?b], [1])"
    by (simp add: getNextBatch_def demo_session_def start_session_def)
  have "slot_ok 2 6 x" if "x \<in> set (zip ?seg [(0, 1)])" for x
    using that by (auto simp: slot_ok_def seg_end_def)
  then obtain msk where m: "cb_attention_mask ?seg [(0, 1)] 2 6 = Inr msk" by (rule demo_mask)
  let ?ctx = "\<lparr> cx_sessions = [?b], cx_in_segs = [(0, 1)], cx_kv_segs = ?seg, cx_tokens = [0, 0], cx_seq_len = 2, cx_kv_len = 6 \<rparr>"
  have "cb_run_batch demo_env demo_cenv [1] (demo_cb [?a, ?b] ?seg ?sent) = (Inr (), demo_cb [?a, ?b2] [] ?sent)"
  proof (rule cb_run_batchI)
    show "map ((!) (cb_sessions (demo_cb [?a, ?b] ?seg ?sent))) [1] = [?b]" "map ses_id [?b] = [''b'']"
      "plan_batch (int (sp_seq_len_prefill (l_spec (demo_cb [?a, ?b] ?seg ?sent)))) 0 [?b] = Inr [[0]]" "map (int \<circ> length) [[0 :: int]] = [1]"
      by (simp_all add: demo_session_def session_chunk_def slice_def)
    have "fst (shiftForGrowth [(''b'', 1)] (ensure_segments [''b''] ?seg)) = ?seg" by (simp add: demo_segs)
    then show "cb_make_room [''b''] [1] (demo_cb [?a, ?b] ?seg ?sent) = (Inr (), demo_cb [?a, ?b] ?seg ?sent)" by (simp add: demo_make_room)
    show "cb_context [?b] [[0]] (demo_cb [?a, ?b] ?seg ?sent) = Inr ?ctx"
      by (simp add: cb_context_def Let_def idx_vec_def getSegment_def demo_session_def vec_resize_def)
    show "cb_attention_mask (cx_kv_segs ?ctx) (cx_in_segs ?ctx) (sp_seq_len_prefill (l_spec (demo_cb [?a, ?b] ?seg ?sent))) (cx_kv_len ?ctx) = Inr msk"
      using m by simp
    show "sfor (cb_shard demo_env demo_cenv ?ctx msk) [0..<l_shard_count (demo_cb [?a, ?b] ?seg ?sent)] (demo_cb [?a, ?b] ?seg ?sent)
        = (Inr (), demo_cb [?a, ?b] ?seg ?sent)"
      using demo_shards by simp
    have "cb_advance [''b''] [1] (demo_cb [?a, ?b] ?seg ?sent) = demo_cb [?a, ?b1] ?seg1 ?sent"
      by (simp add: cb_advance_def updateSession_def kv_extend_def demo_session_def)
    moreover have "cb_sample demo_env (zip [1] [1]) 0 (demo_cb [?a, ?b1] ?seg1 ?sent) = (Inr (), demo_cb [?a, ?b2] ?seg1 ?sent)"
      by (simp add: sx_simps sthen_run sbind_run demo_cb_sample cb_accept_def Let_def demo_session_def completeSession_def)
    ultimately show "cb_sample demo_env (zip [1] [1]) 0 (cb_advance [''b''] [1] (demo_cb [?a, ?b] ?seg ?sent))
        = (Inr (), demo_cb [?a, ?b2] ?seg1 ?sent)" by simp
    show "cb_cleanup (demo_cb [?a, ?b2] ?seg1 ?sent) = (Inr (), demo_cb [?a, ?b2] [] ?sent)"
      by (simp add: demo_cleanup release_completed_def demo_session_def getSegment_def kv_release_def kv_compact_def)
  qed
  then show ?thesis by (simp add: cb_step_def sx_simps sthen_run g)
qed

abbreviation demo_start :: "(unit, unit) cb" where
  "demo_start \<equiv> demo_cb (addSession ''b'' [8] 1 (addSession ''a'' [7] 0 [])) [] []"

lemma demo_start_work: "cb_work (cb_sessions demo_start) = 5"
  by (simp add: demo_addSession demo_session_def cb_work_def session_work_def)

lemma demo_loop:
  "generateBatch demo_env demo_cenv 5 demo_start
   = (Inr (), demo_cb [demo_session ''a'' [7] 0 COMPLETED [] 1, demo_session ''b'' [8] 1 COMPLETED [0] 2] [] [(''b'', 0)])"
proof -
  have a: "hasActiveSessions (addSession ''b'' [8] 1 (addSession ''a'' [7] 0 []))"
    "hasActiveSessions [demo_session ''a'' [7] 0 COMPLETED [] 1, demo_session ''b'' [8] 1 RUNNING [0] 1]"
    "\<not> hasActiveSessions [demo_session ''a'' [7] 0 COMPLETED [] 1, demo_session ''b'' [8] 1 COMPLETED [0] 2]"
    by (simp_all add: hasActiveSessions_def demo_addSession demo_session_def)
  have f: "(5 :: nat) = Suc 4" "(4 :: nat) = Suc 3" by simp_all
  have "generateBatch demo_env demo_cenv 3 (demo_cb [demo_session ''a'' [7] 0 COMPLETED [] 1, demo_session ''b'' [8] 1 COMPLETED [0] 2] [] [(''b'', 0)])
      = (Inr (), demo_cb [demo_session ''a'' [7] 0 COMPLETED [] 1, demo_session ''b'' [8] 1 COMPLETED [0] 2] [] [(''b'', 0)])"
    by (subst generateBatch.simps) (simp add: sx_simps a)
  then have "generateBatch demo_env demo_cenv 4 (demo_cb [demo_session ''a'' [7] 0 COMPLETED [] 1, demo_session ''b'' [8] 1 RUNNING [0] 1]
       [\<lparr> seg_id = ''b'', seg_start = 0, seg_len = 1 \<rparr>] [(''b'', 0)])
      = (Inr (), demo_cb [demo_session ''a'' [7] 0 COMPLETED [] 1, demo_session ''b'' [8] 1 COMPLETED [0] 2] [] [(''b'', 0)])"
    unfolding f(2) by (subst generateBatch.simps) (simp add: sx_simps sbind_run a demo_step2)
  then show ?thesis
    unfolding f(1) by (subst generateBatch.simps) (simp add: sx_simps sbind_run a demo_step1)
qed

text \<open>One pair of cache tensors of three one-byte tokens, in buffers 1 and 2; session a is done.\<close>

definition demo_cache_graph :: graph where
  "demo_cache_graph = (mkGraph None)\<lparr> g_in_specs := [demo_kv_spec ''k'', (demo_kv_spec ''v'')\<lparr> ts_shape := [1, 1, 3, 1] \<rparr>],
     g_in_index := [''k'' \<mapsto> 0, ''v'' \<mapsto> 1], g_in_ptr := [''k'' \<mapsto> Some 1, ''v'' \<mapsto> Some 2] \<rparr>"

definition demo_cache :: "(unit, unit) cb" where
  "demo_cache = llm.extend (demo_kv\<lparr> m_graphs := [demo_cache_graph], l_kv_block := 0 \<rparr>)
     (cb.fields [] [demo_session ''a'' [7] 0 COMPLETED [] 1, demo_session ''b'' [8, 9, 9] 1 RUNNING [] 2]
       [\<lparr> seg_id = ''a'', seg_start = 0, seg_len = 1 \<rparr>, \<lparr> seg_id = ''b'', seg_start = 1, seg_len = 2 \<rparr>] [])"

lemma demo_cache_fields [simp]:
  "l_spec demo_cache = demo_spec\<lparr> sp_state_blocks := [makeKVStateBlock\<lparr> sb_shard_pairs := [[demo_pair]] \<rparr>] \<rparr>"
  "l_shard_count demo_cache = 1" "l_active_cl demo_cache = 0" "l_num_cl demo_cache = 1" "l_kv_block demo_cache = 0"
  "m_graphs demo_cache = [demo_cache_graph]" "m_mem demo_cache = (\<lambda>_. [1, 2, 3])"
  "cb_sessions demo_cache = [demo_session ''a'' [7] 0 COMPLETED [] 1, demo_session ''b'' [8, 9, 9] 1 RUNNING [] 2]"
  "cb_segs demo_cache = [\<lparr> seg_id = ''a'', seg_start = 0, seg_len = 1 \<rparr>, \<lparr> seg_id = ''b'', seg_start = 1, seg_len = 2 \<rparr>]"
  by (simp_all add: demo_cache_def llm.extend_def cb.fields_def demo_kv_def demo_llm_def mkLLM_def)

lemma demo_cache_tensors: "cache_tensors demo_cache = Inr [(1, 1, 1, 3), (2, 1, 1, 3)]"
  by (simp add: cache_tensors_def requireKVStateBlock_def shard_tensors_def idx_vec_def graph_at_def at_vec_def graphIndex_def
      pair_tensors_def Let_def cache_tensor_def demo_pair_def inputPtr_def inputSpec_def at_map_def demo_cache_graph_def
      mkGraph_def demo_kv_spec_def elementSize_def deref_def demo_spec_def)

lemma demo_cache_fits: "cache_fits [(1, 1, 1, 3), (2, 1, 1, 3)] (\<lambda>_. [1, 2, 3])"
  by (simp add: cache_fits_def kv_fits_def)

section \<open>The properties of the loop\<close>

text \<open>The loop of \<open>generateBatch\<close> without fuel, with the number of its steps: it has a result only
  when it ends, which it does when no session is active, at an empty batch, or by a throw.\<close>

inductive batch_loop :: "'p env \<Rightarrow> 'q cb_env \<Rightarrow> nat \<Rightarrow> ('p, 'q) cb \<Rightarrow> unit res \<times> ('p, 'q) cb \<Rightarrow> bool"
  for env cenv where
  finished: "\<not> hasActiveSessions (cb_sessions st) \<Longrightarrow> batch_loop env cenv 0 st (Inr (), st)"
| empty_batch: "hasActiveSessions (cb_sessions st) \<Longrightarrow> cb_step env cenv st = (Inr False, st') \<Longrightarrow>
    batch_loop env cenv 1 st (Inr (), st')"
| thrown: "hasActiveSessions (cb_sessions st) \<Longrightarrow> cb_step env cenv st = (Inl e, st') \<Longrightarrow>
    batch_loop env cenv 1 st (Inl e, st')"
| again: "hasActiveSessions (cb_sessions st) \<Longrightarrow> cb_step env cenv st = (Inr True, st') \<Longrightarrow>
    batch_loop env cenv n st' r \<Longrightarrow> batch_loop env cenv (n + 1) st r"

lemma generateBatch_loop:
  assumes "distinct (map ses_id (cb_sessions st))" "cb_work (cb_sessions st) \<le> fuel"
  shows "\<exists>n \<le> cb_work (cb_sessions st). batch_loop env cenv n st (generateBatch env cenv fuel st)"
  using assms
proof (induction fuel arbitrary: st)
  case 0
  then have "\<not> hasActiveSessions (cb_sessions st)" by (simp add: hasActive_work)
  then show ?case
    by (subst generateBatch.simps) (auto simp: sx_simps intro: batch_loop.finished)
next
  case (Suc fuel)
  show ?case
  proof (cases "hasActiveSessions (cb_sessions st)")
    case False
    then show ?thesis by (subst generateBatch.simps) (auto simp: sx_simps intro: batch_loop.finished)
  next
    case True
    obtain r st1 where s: "cb_step env cenv st = (r, st1)" by fastforce
    have g: "generateBatch env cenv (Suc fuel) st
        = (case r of Inl e \<Rightarrow> (Inl e, st1) | Inr go \<Rightarrow> if go then generateBatch env cenv fuel st1 else (Inr (), st1))"
      using True s by (subst generateBatch.simps) (simp add: sx_simps sbind_run split: sum.splits)
    have w: "1 \<le> cb_work (cb_sessions st)" using True hasActive_work [of "cb_sessions st"] by simp
    show ?thesis
    proof (cases r)
      case (Inl e)
      with g w s True show ?thesis by (intro exI [of _ 1]) (simp add: batch_loop.thrown [unfolded One_nat_def])
    next
      case (Inr go)
      show ?thesis
      proof (cases go)
        case False
        with Inr g w s True show ?thesis by (intro exI [of _ 1]) (simp add: batch_loop.empty_batch [unfolded One_nat_def])
      next
        case go: True
        with Inr s have s': "cb_step env cenv st = (Inr True, st1)" by simp
        have lt: "cb_work (cb_sessions st1) < cb_work (cb_sessions st)" using cb_step_work [OF s' Suc.prems(1)] .
        have "distinct (map ses_id (cb_sessions st1))"
          using cb_rel_distinct [OF steps_inD [OF cb_step_rel s']] Suc.prems(1) by simp
        from Suc.IH [OF this] lt Suc.prems(2) obtain n where
          n: "n \<le> cb_work (cb_sessions st1)" "batch_loop env cenv n st1 (generateBatch env cenv fuel st1)" by auto
        from batch_loop.again [OF True s' n(2)] n(1) lt g Inr go show ?thesis by (intro exI [of _ "n + 1"]) auto
      qed
    qed
  qed
qed

text \<open>C7: with distinct session ids the loop over the sessions ends: after at most as many steps
  as there is work left in the sessions it returns or throws, at an empty batch or when no
  session is active, and with at least that much fuel generateBatch gives that outcome\<close>

theorem generateBatch_terminates:
  assumes "distinct (map ses_id (cb_sessions st))" "cb_work (cb_sessions st) \<le> fuel"
  shows "\<exists>n \<le> cb_work (cb_sessions st). batch_loop env cenv n st (generateBatch env cenv fuel st)"
  by (rule generateBatch_loop [OF assms])

lemma generateBatch_terminates_witness:
  "\<exists>n \<le> 5. batch_loop demo_env demo_cenv n demo_start
     (Inr (), demo_cb [demo_session ''a'' [7] 0 COMPLETED [] 1, demo_session ''b'' [8] 1 COMPLETED [0] 2] [] [(''b'', 0)])"
proof -
  have "distinct (map ses_id (cb_sessions demo_start))" by (simp add: demo_addSession demo_session_def)
  from generateBatch_terminates [OF this, of 5 demo_env demo_cenv] show ?thesis by (simp add: demo_start_work demo_loop del: demo_cb_fields)
qed

text \<open>C6: a step keeps the segments ordered and disjoint and exactly as long as what the scheduler
  says each running session has processed, and does some of the work left\<close>

theorem cb_step_invariant:
  assumes "cb_step env cenv st = (Inr go, st')" "cb_inv (cb_sessions st) (cb_segs st)"
  shows "cb_inv (cb_sessions st') (cb_segs st') \<and> (go \<longrightarrow> cb_work (cb_sessions st') < cb_work (cb_sessions st))"
  using cb_inv_step [OF assms] cb_step_work [of env cenv st st'] assms by (auto simp: cb_inv_def)

lemma demo_start_inv: "cb_inv (cb_sessions demo_start) (cb_segs demo_start)"
  by (simp add: cb_inv_def demo_addSession demo_session_def segs_ok_def kv_lens_def)

lemma cb_step_invariant_witness:
  "cb_inv [demo_session ''a'' [7] 0 COMPLETED [] 1, demo_session ''b'' [8] 1 RUNNING [0] 1] [\<lparr> seg_id = ''b'', seg_start = 0, seg_len = 1 \<rparr>]"
  using cb_step_invariant [OF demo_step1 demo_start_inv] by simp

text \<open>C8: when the loop returns every session is completed, no segment of the cache is left, and
  each session has only extended its tokens, within max_tokens and without an end token\<close>

theorem generateBatch_completes:
  assumes "generateBatch env cenv fuel st = (Inr u, st')" "cb_inv (cb_sessions st) (cb_segs st)" "0 < sp_seq_len_prefill (l_spec st)"
  shows "(\<forall>s \<in> set (cb_sessions st'). ses_status s = COMPLETED) \<and> cb_segs st' = []
     \<and> list_all2 (\<lambda>s s'. ses_id s' = ses_id s \<and> ses_query s' = ses_query s
          \<and> take (length (ses_generated s)) (ses_generated s') = ses_generated s
          \<and> (session_ok (set (sp_eos_token_ids (l_spec st))) s \<longrightarrow> session_ok (set (sp_eos_token_ids (l_spec st))) s'))
        (cb_sessions st) (cb_sessions st')"
proof -
  have completed: "\<forall>s \<in> set (cb_sessions st'). ses_status s = COMPLETED" by (rule generateBatch_all_done [OF assms(1,3)])
  have inv: "cb_inv (cb_sessions st') (cb_segs st')" by (rule cb_inv_loop [OF assms(1,2)])
  have "i \<notin> seg_id ` set (cb_segs st')" for i
  proof
    assume i: "i \<in> seg_id ` set (cb_segs st')"
    then obtain s where "s \<in> set (cb_sessions st')" "ses_id s = i" using inv by (auto simp: cb_inv_def)
    with inv completed have "kv_lens (cb_segs st') i = None" by (auto simp: cb_inv_def)
    with i show False by (simp add: kv_lens_None)
  qed
  then have "cb_segs st' = []" by (metis all_not_in_conv image_is_empty set_empty)
  moreover have "list_all2 (session_le (set (sp_eos_token_ids (l_spec st)))) (cb_sessions st) (cb_sessions st')"
    using steps_inD [OF generateBatch_rel assms(1)] by (simp add: cb_rel_def)
  ultimately show ?thesis using completed by (auto simp: session_le_def elim: list_all2_mono)
qed

lemma generateBatch_completes_witness:
  "session_ok {} (demo_session ''b'' [8] 1 COMPLETED [0] 2)
     \<and> snd (generateBatch demo_env demo_cenv 5 demo_start)
        = demo_cb [demo_session ''a'' [7] 0 COMPLETED [] 1, demo_session ''b'' [8] 1 COMPLETED [0] 2] [] [(''b'', 0)]"
proof -
  have "session_ok {} (demo_session ''b'' [8] 1 WAITING [] 0)" by (simp add: session_ok_def demo_session_def)
  then show ?thesis using generateBatch_completes [OF demo_loop demo_start_inv] demo_loop by (simp add: demo_addSession)
qed

theorem cb_batch_positions:
  assumes "cb_inv (cb_sessions st) (cb_segs st)" "set bs \<subseteq> set (cb_sessions st)" "\<forall>s \<in> set bs. ses_status s \<noteq> COMPLETED"
    and "length toks = length bs" "sum_list (map length toks) \<le> sp_seq_len_prefill (l_spec st)"
    and "cb_make_room (map ses_id bs) (map (int \<circ> length) toks) st = (Inr u, st1)" "cb_context bs toks st1 = Inr ctx"
  shows "getPositionIds (cx_kv_segs ctx) (cx_in_segs ctx) (cx_seq_len ctx)
     = Inr (batch_positions (map ses_processed bs) (map (int \<circ> length) toks)
         @ replicate (sp_seq_len_prefill (l_spec st) - sum_list (map length toks)) 0)"
proof -
  have l: "map seg_len (cx_kv_segs ctx) = map ses_processed bs" by (rule cb_context_lens [OF assms(1-3,6,7)])
  have s: "l_spec st1 = l_spec st" using steps_inD [OF cb_make_room_ses assms(6)] by (simp add: ses_kept_def)
  have i: "sum_list (map (int \<circ> length) toks) = int (sum_list (map length toks))" by (induction toks) simp_all
  have "length (cx_kv_segs ctx) = length (map (int \<circ> length) toks)" using l assms(4) by (metis length_map)
  from getPositionIds_eq [OF this, of "sp_seq_len_prefill (l_spec st)"] show ?thesis
    using assms(5) i l s by (simp add: cb_context_fields [OF assms(7)])
qed

lemma cb_batch_positions_witness:
  "getPositionIds [\<lparr> seg_id = ''b'', seg_start = 0, seg_len = 1 \<rparr>] [(0, 1)] 2 = Inr [1, 0]"
proof -
  let ?b = "demo_session ''b'' [8] 1 RUNNING [0] 1" and ?seg = "[\<lparr> seg_id = ''b'', seg_start = 0, seg_len = 1 \<rparr>]"
  let ?st = "demo_cb [?b] ?seg []"
  have "fst (shiftForGrowth [(''b'', 1)] (ensure_segments [''b''] ?seg)) = ?seg" by (simp add: demo_segs)
  then have mr: "cb_make_room (map ses_id [?b]) (map (int \<circ> length) [[0 :: int]]) ?st = (Inr (), ?st)"
    by (simp add: demo_make_room demo_session_def)
  have ctx: "cb_context [?b] [[0]] ?st = Inr \<lparr> cx_sessions = [?b], cx_in_segs = [(0, 1)], cx_kv_segs = ?seg, cx_tokens = [0, 0], cx_seq_len = 2, cx_kv_len = 6 \<rparr>"
    by (simp add: cb_context_def Let_def idx_vec_def getSegment_def demo_session_def vec_resize_def)
  have inv: "cb_inv (cb_sessions ?st) (cb_segs ?st)" by (simp add: cb_inv_def demo_session_def segs_ok_def kv_lens_def)
  from cb_batch_positions [OF inv _ _ _ _ mr ctx] show ?thesis
    by (simp add: demo_session_def batch_positions_def)
qed

section \<open>The properties of the cache\<close>

text \<open>C3: releasing the completed sessions and compacting the cache succeeds and keeps, in every
  row of every key and value tensor, the tokens of every remaining session\<close>

theorem cb_cleanup_keeps:
  assumes "cache_tensors st = Inr ts" "cache_fits ts (m_mem st)"
    and "segs = release_completed (cb_sessions st) (cb_segs st)" "segs_ok segs" "segs_fit segs ts"
  shows "\<exists>st'. cb_cleanup st = (Inr (), st') \<and> segs_ok (cb_segs st') \<and> map seg_id (cb_segs st') = map seg_id segs
     \<and> map seg_len (cb_segs st') = map seg_len segs
     \<and> (\<forall>t \<in> set ts. \<forall>r < tensor_rows t.
          map (seg_tokens (tensor_row (m_mem st') t r)) (cb_segs st') = map (seg_tokens (tensor_row (m_mem st) t r)) segs)"
  by (rule cleanup_keeps [OF assms])

lemma demo_tokens: "tensor_row m (b, 1, 1, 3) 0 = map (\<lambda>t. slice t 1 (m b)) [0, 1, 2]"
  by (simp add: tensor_row_def row_tokens_def kv_cell_def upt_rec numeral_2_eq_2)

lemma cb_cleanup_keeps_witness:
  "\<exists>st'. cb_cleanup demo_cache = (Inr (), st')
     \<and> (\<exists>p. cb_segs st' = [\<lparr> seg_id = ''b'', seg_start = p, seg_len = 2 \<rparr>]
        \<and> seg_tokens (tensor_row (m_mem st') (1, 1, 1, 3) 0) \<lparr> seg_id = ''b'', seg_start = p, seg_len = 2 \<rparr> = [[2], [3]])"
proof -
  let ?segs = "[\<lparr> seg_id = ''b'', seg_start = 1, seg_len = 2 \<rparr>]"
  have r: "?segs = release_completed (cb_sessions demo_cache) (cb_segs demo_cache)"
    by (simp add: release_completed_def demo_session_def getSegment_def kv_release_def)
  obtain st' where st': "cb_cleanup demo_cache = (Inr (), st')" "map seg_id (cb_segs st') = [''b'']" "map seg_len (cb_segs st') = [2]"
    "map (seg_tokens (tensor_row (m_mem st') (1, 1, 1, 3) 0)) (cb_segs st') = map (seg_tokens (tensor_row (m_mem demo_cache) (1, 1, 1, 3) 0)) ?segs"
    using cb_cleanup_keeps [OF demo_cache_tensors _ r] demo_cache_fits
    by (auto simp: segs_ok_def segs_fit_def seg_end_def tensor_rows_def)
  have "map (seg_tokens (tensor_row (m_mem demo_cache) (1, 1, 1, 3) 0)) ?segs = [[[2], [3]]]"
    unfolding demo_tokens by (simp add: seg_tokens_def slice_def)
  moreover obtain a where a: "cb_segs st' = [a]" using st'(2) by (cases "cb_segs st'") auto
  ultimately show ?thesis using st' by (cases a) (auto simp del: One_nat_def)
qed

theorem cb_growth_keeps:
  assumes "cache_tensors st = Inr ts" "cache_fits ts (m_mem st)"
    and "segs_ok segs" "\<And>i. 0 \<le> growth_of gs i" "shiftForGrowth gs segs = (segs', ms)"
      "segs_fit (shift_all (growth_of gs) 0 segs) ts"
  shows "segs_ok (map (grown (growth_of gs)) segs') \<and> (\<exists>m'. sfor moveKVBuffer ms st = (Inr (), st\<lparr> m_mem := m' \<rparr>)
     \<and> (\<forall>t \<in> set ts. \<forall>r < tensor_rows t. map (seg_tokens (tensor_row m' t r)) segs' = map (seg_tokens (tensor_row (m_mem st) t r)) segs)
     \<and> (\<forall>b. b \<notin> fst ` set ts \<longrightarrow> m' b = m_mem st b))"
  by (rule growth_keeps [OF assms])

lemma cb_growth_keeps_witness:
  "\<exists>m'. moveKVBuffer (1, 2, 1) demo_cache = (Inr (), demo_cache\<lparr> m_mem := m' \<rparr>)
     \<and> seg_tokens (tensor_row m' (1, 1, 1, 3) 0) \<lparr> seg_id = ''b'', seg_start = 2, seg_len = 1 \<rparr> = [[2]]"
proof -
  let ?segs = "[\<lparr> seg_id = ''a'', seg_start = 0, seg_len = 1 \<rparr>, \<lparr> seg_id = ''b'', seg_start = 1, seg_len = 1 \<rparr>]"
  let ?segs' = "[\<lparr> seg_id = ''a'', seg_start = 0, seg_len = 1 \<rparr>, \<lparr> seg_id = ''b'', seg_start = 2, seg_len = 1 \<rparr>]"
  have g: "growth_of [(''a'', 1)] i = (if i = ''a'' then 1 else 0)" for i by (auto simp: growth_of_def)
  have s: "shiftForGrowth [(''a'', 1)] ?segs = (?segs', [(1, 2, 1)])"
    by (simp add: shiftForGrowth_def Let_def g shift_move_def shift_segment_def seg_end_def)
  have fit: "segs_fit (shift_all (growth_of [(''a'', 1)]) 0 ?segs) [(1, 1, 1, 3), (2, 1, 1, 3)]"
    by (simp add: segs_fit_def shift_all_simps shift_segment_def g seg_end_def)
  have f: "cache_fits [(1, 1, 1, 3), (2, 1, 1, 3)] (m_mem demo_cache)" using demo_cache_fits by simp
  obtain m' where m': "sfor moveKVBuffer [(1, 2, 1)] demo_cache = (Inr (), demo_cache\<lparr> m_mem := m' \<rparr>)"
    "map (seg_tokens (tensor_row m' (1, 1, 1, 3) 0)) ?segs' = map (seg_tokens (tensor_row (m_mem demo_cache) (1, 1, 1, 3) 0)) ?segs"
  proof -
    have o: "segs_ok ?segs" "0 \<le> growth_of [(''a'', 1)] i" for i by (simp_all add: segs_ok_def seg_end_def g)
    obtain m' where m': "sfor moveKVBuffer [(1, 2, 1)] demo_cache = (Inr (), demo_cache\<lparr> m_mem := m' \<rparr>)"
      "\<forall>t \<in> set [(1, 1, 1, 3), (2, 1, 1, 3)]. \<forall>r < tensor_rows t. map (seg_tokens (tensor_row m' t r)) ?segs' = map (seg_tokens (tensor_row (m_mem demo_cache) t r)) ?segs"
      using conjunct2 [OF cb_growth_keeps [OF demo_cache_tensors f o s fit]] by (elim exE conjE)
    have "(1, 1, 1, 3) \<in> set [(1, 1, 1, 3), (2, 1, 1, 3) :: cache_tensor]" "0 < tensor_rows (1, 1, 1, 3)" by (simp_all add: tensor_rows_def)
    with m'(2) have "map (seg_tokens (tensor_row m' (1, 1, 1, 3) 0)) ?segs' = map (seg_tokens (tensor_row (m_mem demo_cache) (1, 1, 1, 3) 0)) ?segs" by blast
    with m'(1) show thesis by (rule that)
  qed
  have "map (seg_tokens (tensor_row (m_mem demo_cache) (1, 1, 1, 3) 0)) ?segs = [[[1]], [[2]]]"
    unfolding demo_tokens by (simp add: seg_tokens_def slice_def)
  with m' show ?thesis by (intro exI [of _ m']) (auto simp: sx_simps sthen_run split: prod.splits sum.splits)
qed

end
