(* ===== verification/KVFile.thy ===== *)
theory KVFile
  imports LLMGenerate
begin

text \<open>
  \<open>saveKVCacheToFile\<close> and \<open>loadKVCacheFromFile\<close> as an encoder and a decoder: a file that one
  model has written puts another model of the same bundle into the same conversation.
\<close>

section \<open>Numbers and tokens in the file\<close>

lemma read_size_bytes:
  assumes "n < 2 ^ 64"
  shows "read_size old (Some (size_bytes n @ rest)) = (n, Some rest)"
proof -
  have "of_le (size_bytes n) = (word_of_nat n :: 64 word)" by (simp add: size_bytes_def of_le_le_bytes_full)
  then show ?thesis using assms
    by (simp add: read_size_def stream_read_def size_bytes_def unat_word_ariths unat_of_nat take_bit_nat_eq_self)
qed

lemma tokens_read_back:
  assumes "\<forall>t \<in> set ts. - (2 ^ 31) \<le> t \<and> t < 2 ^ 31"
  shows "map (sint :: u32 \<Rightarrow> int) (of_le_array 4 (length ts) (le_array 4 (map word_of_int ts :: u32 list))) = ts"
proof -
  have "of_le_array 4 (length ts) (le_array 4 (map word_of_int ts :: u32 list)) = (map word_of_int ts :: u32 list)"
    using of_le_array_le_array [where n = 4 and ws = "map word_of_int ts :: u32 list"] by simp
  moreover have "sint (word_of_int t :: u32) = t" if "t \<in> set ts" for t
    using assms that by (simp add: sint_sbintrunc' signed_take_bit_int_eq_self)
  ultimately show ?thesis by (simp add: map_idI)
qed

section \<open>Tensors in the file\<close>

text \<open>The bytes a tensor takes in the file, and memories that agree on the start of a buffer.\<close>

definition content :: "mem \<Rightarrow> graph \<times> tensor_spec \<Rightarrow> u8 list" where
  "content m = (\<lambda>(g, t). case inputPtr g (ts_name t) of Inr (Some b) \<Rightarrow> take (byteCount t) (m b) | _ \<Rightarrow> [])"

definition mapped :: "mem \<Rightarrow> graph \<times> tensor_spec \<Rightarrow> nat \<Rightarrow> bool" where
  "mapped m x b \<longleftrightarrow> inputPtr (fst x) (ts_name (snd x)) = Inr (Some b) \<and> byteCount (snd x) \<le> length (m b)"

lemma saved_bytes:
  assumes "rfor (save_tensor m) ts bs = Inr bs'" "\<forall>x \<in> set ts. \<exists>b. inputPtr (fst x) (ts_name (snd x)) = Inr (Some b)"
  shows "bs' = bs @ concat (map (content m) ts) \<and> (\<forall>x \<in> set ts. \<exists>b. mapped m x b)"
  using assms
proof (induction ts arbitrary: bs)
  case Nil
  then show ?case by simp
next
  case (Cons x ts)
  obtain g t where x: "x = (g, t)" by fastforce
  with Cons.prems obtain b where b: "inputPtr g (ts_name t) = Inr (Some b)" by auto
  have "save_tensor m x bs = (if byteCount t \<le> length (m b) then Inr (bs @ content m x) else Inl UndefinedBehaviour)"
    by (simp add: x b save_tensor_def mem_load_def buf_load_def content_def slice_def)
  with Cons.prems(1) have "byteCount t \<le> length (m b)" "rfor (save_tensor m) ts (bs @ content m x) = Inr bs'"
    by (simp_all split: if_splits)
  with Cons.IH [of "bs @ content m x"] Cons.prems(2) show ?case by (auto simp: mapped_def x b)
qed

lemma take_equalityI:
  assumes "length ys = length xs" "\<And>i. \<lbrakk>i < k; i < length xs\<rbrakk> \<Longrightarrow> ys ! i = xs ! i"
  shows "take k ys = take k xs"
  by (rule nth_equalityI) (use assms in simp_all)

lemma agree_take:
  assumes "take k ys = take k xs" "length ys = length xs"
  shows "take k (take n xs @ drop n ys) = take k xs"
proof (rule take_equalityI)
  show "length (take n xs @ drop n ys) = length xs" using assms(2) by simp
  show "(take n xs @ drop n ys) ! i = xs ! i" if "i < k" "i < length xs" for i
    using assms that by (simp add: nth_append) (metis nth_take)
qed

lemma loaded_bytes:
  assumes "\<forall>x \<in> set ts. \<exists>b. mapped m x b" "\<And>b. length (m2 b) = length (m b)"
  shows "\<exists>m3. rfor load_tensor ts (Some (concat (map (content m) ts)), m2) = Inr (Some [], m3)
    \<and> (\<forall>b. length (m3 b) = length (m b)) \<and> (\<forall>b k. take k (m2 b) = take k (m b) \<longrightarrow> take k (m3 b) = take k (m b))
    \<and> (\<forall>x \<in> set ts. \<forall>b. mapped m x b \<longrightarrow> take (byteCount (snd x)) (m3 b) = take (byteCount (snd x)) (m b))
    \<and> (\<forall>b. (\<forall>x \<in> set ts. \<not> mapped m x b) \<longrightarrow> m3 b = m2 b)"
  using assms
proof (induction ts arbitrary: m2)
  case Nil
  then show ?case by simp
next
  case (Cons x ts)
  obtain g t where x: "x = (g, t)" by fastforce
  with Cons.prems(1) obtain b where b: "inputPtr g (ts_name t) = Inr (Some b)" "byteCount t \<le> length (m b)" by (auto simp: mapped_def)
  let ?m1 = "m2(b := take (byteCount t) (m b) @ drop (byteCount t) (m2 b))"
  have len: "length (?m1 b') = length (m b')" for b' using Cons.prems(2) b(2) by simp
  have "load_tensor x (Some (concat (map (content m) (x # ts))), m2) = Inr (Some (concat (map (content m) ts)), ?m1)"
    using b Cons.prems(2) [of b]
    by (simp add: x load_tensor_def content_def stream_read_def write_bytes_def deref_def mem_store_def buf_store_def blit_def inputPtr_def min_def)
  moreover have all: "\<forall>y \<in> set ts. \<exists>b. mapped m y b" using Cons.prems(1) by simp
  moreover obtain m3 where
    m3: "rfor load_tensor ts (Some (concat (map (content m) ts)), ?m1) = Inr (Some [], m3)" "\<forall>b. length (m3 b) = length (m b)"
      "\<forall>b k. take k (?m1 b) = take k (m b) \<longrightarrow> take k (m3 b) = take k (m b)"
      "\<forall>x \<in> set ts. \<forall>b. mapped m x b \<longrightarrow> take (byteCount (snd x)) (m3 b) = take (byteCount (snd x)) (m b)"
      "\<forall>b. (\<forall>x \<in> set ts. \<not> mapped m x b) \<longrightarrow> m3 b = ?m1 b"
    using Cons.IH [OF all len] by blast
  have keep: "take k (m2 b') = take k (m b') \<longrightarrow> take k (?m1 b') = take k (m b')" for b' k
    using agree_take [of k "m2 b" "m b"] Cons.prems(2) by simp
  have new: "take (byteCount t) (?m1 b) = take (byteCount t) (m b)" using b(2) by (simp add: min_def)
  have xb: "mapped m x b' \<longleftrightarrow> b' = b" for b' using b by (auto simp: x mapped_def)
  show ?case
  proof (intro exI [of _ m3] conjI)
    show "rfor load_tensor (x # ts) (Some (concat (map (content m) (x # ts))), m2) = Inr (Some [], m3)"
      using calculation m3(1) by simp
    show "\<forall>b k. take k (m2 b) = take k (m b) \<longrightarrow> take k (m3 b) = take k (m b)" using keep m3(3) by blast
    show "\<forall>y \<in> set (x # ts). \<forall>b. mapped m y b \<longrightarrow> take (byteCount (snd y)) (m3 b) = take (byteCount (snd y)) (m b)"
      using m3(3,4) new xb by (simp add: x)
    show "\<forall>b. (\<forall>y \<in> set (x # ts). \<not> mapped m y b) \<longrightarrow> m3 b = m2 b" using m3(5) xb by auto
  qed (rule m3(2))
qed

section \<open>The round trip\<close>

definition same_bundle :: "('p, 'a) llm_scheme \<Rightarrow> ('p, 'b) llm_scheme \<Rightarrow> bool" where
  "same_bundle st st2 \<longleftrightarrow> l_spec st2 = l_spec st \<and> l_kv_block st2 = l_kv_block st \<and> l_shard_count st2 = l_shard_count st
     \<and> l_num_cl st2 = l_num_cl st \<and> m_graphs st2 = m_graphs st \<and> (\<forall>b. length (m_mem st2 b) = length (m_mem st b))"

definition countable_state :: "('p, 'a) llm_scheme \<Rightarrow> bool" where
  "countable_state st \<longleftrightarrow> l_n_past st < 2 ^ 64 \<and> l_active_cl st < 2 ^ 64 \<and> length (l_history st) < 2 ^ 64
     \<and> (\<forall>t \<in> set (l_history st). - (2 ^ 31) \<le> t \<and> t < 2 ^ 31)"

lemma load_saved:
  assumes "saveKVCache st = Inr bytes" "same_bundle st st2" "countable_state st"
    and "buildKVInputNames st = Inr names" "kv_file_tensors names st = Inr ts"
    and "\<forall>x \<in> set ts. \<exists>b. inputPtr (fst x) (ts_name (snd x)) = Inr (Some b)"
  shows "\<exists>m3. loadKVCache bytes st2 = (Inr (), st2\<lparr> l_n_past := l_n_past st, l_active_cl := l_active_cl st, l_history := l_history st, m_mem := m3 \<rparr>)
    \<and> (\<forall>x \<in> set ts. content m3 x = content (m_mem st) x)
    \<and> (\<forall>b. (\<forall>x \<in> set ts. inputPtr (fst x) (ts_name (snd x)) \<noteq> Inr (Some b)) \<longrightarrow> m3 b = m_mem st2 b)
    \<and> (\<forall>b. length (m3 b) = length (m_mem st2 b))"
proof -
  let ?body = "concat (map (content (m_mem st)) ts)" and ?hist = "le_array 4 (map (word_of_int :: int \<Rightarrow> u32) (l_history st))"
  have bytes: "bytes = size_bytes (l_n_past st) @ size_bytes (l_active_cl st) @ size_bytes (length (l_history st)) @ ?hist @ ?body"
    and map: "\<forall>x \<in> set ts. \<exists>b. mapped (m_mem st) x b"
    using assms(1,4,5) saved_bytes [OF _ assms(6), where m = "m_mem st" and bs' = bytes] by (fastforce simp: saveKVCache_def)+
  from loaded_bytes [OF map] assms(2) obtain m3 where
    m3: "rfor load_tensor ts (Some ?body, m_mem st2) = Inr (Some [], m3)"
      "\<forall>x \<in> set ts. \<forall>b. mapped (m_mem st) x b \<longrightarrow> take (byteCount (snd x)) (m3 b) = take (byteCount (snd x)) (m_mem st b)"
      "\<forall>b. (\<forall>x \<in> set ts. \<not> mapped (m_mem st) x b) \<longrightarrow> m3 b = m_mem st2 b" "\<forall>b. length (m3 b) = length (m_mem st b)"
    unfolding same_bundle_def by blast
  let ?st = "st2\<lparr> l_n_past := l_n_past st, l_active_cl := l_active_cl st, l_history := l_history st \<rparr>"
  have "buildKVInputNames st2 = buildKVInputNames st" "kv_file_tensors names st2 = kv_file_tensors names st"
    using assms(2) by (simp_all add: same_bundle_def buildKVInputNames_def requireKVStateBlock_def kv_file_tensors_def graph_at_def [abs_def])
  then have names: "buildKVInputNames st2 = Inr names" "kv_file_tensors names st2 = Inr ts" using assms(4,5) by simp_all
  have hist: "stream_read (replicate (length (l_history st) * 4) 0) (Some (?hist @ ?body)) = (?hist, Some ?body)"
    by (simp add: stream_read_def)
  have tok: "map (sint :: u32 \<Rightarrow> int) (of_le_array 4 (length (l_history st)) ?hist) = l_history st"
    using assms(3) by (intro tokens_read_back) (simp add: countable_state_def)
  have n: "l_n_past st < 2 ^ 64" "l_active_cl st < 2 ^ 64" "length (l_history st) < 2 ^ 64"
    using assms(3) by (simp_all add: countable_state_def)
  have "loadKVCache bytes st2 = (Inr (), ?st\<lparr> m_mem := m3 \<rparr>)"
    by (simp add: loadKVCache_def bytes n [THEN read_size_bytes] hist tok sx_simps sthen_run sbind_run names m3(1) swhen_run del: of_le_array_le_array)
  moreover have "content m3 x = content (m_mem st) x" if "x \<in> set ts" for x
  proof -
    from map that obtain b where "mapped (m_mem st) x b" by blast
    moreover have "take (byteCount (snd x)) (m3 b) = take (byteCount (snd x)) (m_mem st b)" using m3(2) that calculation by blast
    ultimately show ?thesis by (cases x) (simp add: content_def mapped_def)
  qed
  moreover have "m3 b = m_mem st2 b" if "\<forall>x \<in> set ts. inputPtr (fst x) (ts_name (snd x)) \<noteq> Inr (Some b)" for b
    using m3(3) that by (auto simp: mapped_def)
  moreover have "length (m3 b) = length (m_mem st2 b)" for b using m3(4) assms(2) by (simp add: same_bundle_def)
  ultimately show ?thesis by auto
qed


definition demo_told :: "unit llm" where
  "demo_told = demo_kv\<lparr> l_n_past := 2, l_history := [7, - 1] \<rparr>"

definition demo_blank :: "unit llm" where
  "demo_blank = demo_kv\<lparr> m_mem := (\<lambda>_. [0, 0, 0]) \<rparr>"

lemma demo_told_names: "buildKVInputNames demo_told = Inr {''k'', ''v''}"
  by (auto simp: demo_told_def demo_kv_def demo_llm_def mkLLM_def demo_spec_def demo_pair_def buildKVInputNames_def
      requireKVStateBlock_def idx_vec_def)

lemma demo_told_tensors:
  "kv_file_tensors {''k'', ''v''} demo_told = Inr [(demo_kv_graph, demo_kv_spec ''k''), (demo_kv_graph, demo_kv_spec ''v'')]"
  by (simp add: kv_file_tensors_def demo_told_def demo_kv_def demo_llm_def mkLLM_def at_vec_def graph_at_def demo_kv_graph_def mkGraph_def demo_kv_spec_def)

lemma demo_told_ptr:
  "inputPtr demo_kv_graph ''k'' = Inr (Some 1)" "inputPtr demo_kv_graph ''v'' = Inr (Some 2)" "byteCount (demo_kv_spec n) = 3" "ts_name (demo_kv_spec n) = n"
  by (simp_all add: elementCount_def elementSize_def eval_nat_numeral inputPtr_def at_map_def at_vec_def demo_kv_graph_def demo_kv_spec_def mkGraph_def byteCount_def)

lemma demo_told_saved: "\<exists>bytes. saveKVCache demo_told = Inr bytes"
  by (simp add: saveKVCache_def demo_told_names demo_told_tensors save_tensor_def demo_told_ptr mem_load_def buf_load_def)
     (simp add: demo_told_def demo_kv_def)


end
