(* ===== verification/TensorPlan.thy ===== *)
theory TensorPlan
  imports Graphs "HOL-Library.List_Lexorder" "HOL-Library.Char_ord"
begin

text \<open>
  Where the tensors of a model's graphs are put (\<open>qnn-api/src/QnnApi.cpp\<close>): the size each tensor
  is given, the grouping of all tensors by the contexts they occur in, and the places of a
  graph's tensors within the buffers of the groups. A \<open>std::map\<close> is a list of pairs ordered by
  key. A cache input shares the place of its cache output. The member \<open>m_kvUpdateMethod\<close>
  keeps its initial value \<open>SMART_MASK\<close>, as nothing sets it, so there is no room for a pointer
  shift; the two flags about LoRA and language-model heads that the code also sets are left out.
\<close>

section \<open>Ordered maps\<close>

fun put :: "'k :: linorder \<Rightarrow> 'v \<Rightarrow> ('k \<times> 'v) list \<Rightarrow> ('k \<times> 'v) list" where
  "put k v [] = [(k, v)]"
| "put k v ((k1, v1) # m) =
     (if k < k1 then (k, v) # (k1, v1) # m else if k = k1 then (k, v) # m else (k1, v1) # put k v m)"

definition drop_key :: "'k \<Rightarrow> ('k \<times> 'v) list \<Rightarrow> ('k \<times> 'v) list" where
  "drop_key k m = filter (\<lambda>(k1, _). k1 \<noteq> k) m"

definition ordered :: "('k :: linorder \<times> 'v) list \<Rightarrow> bool" where
  "ordered m \<longleftrightarrow> sorted_wrt (<) (map fst m)"

lemma ordered_simps [simp]: "ordered []" "ordered ((k, v) # m) \<longleftrightarrow> (\<forall>k1 \<in> fst ` set m. k < k1) \<and> ordered m"
  by (auto simp: ordered_def)

lemma put_keys [simp]: "fst ` set (put k v m) = insert k (fst ` set m)"
  by (induction k v m rule: put.induct) auto

lemma ordered_put [intro]: "ordered m \<Longrightarrow> ordered (put k v m)"
  by (induction k v m rule: put.induct) (auto dest: order.strict_trans)

lemma map_of_above: "\<forall>k1 \<in> fst ` set m. k < k1 \<Longrightarrow> map_of m k = (None :: 'v option)" for k :: "'k :: linorder"
  by (metis map_of_eq_None_iff order.irrefl)

lemma map_of_put [simp]: "ordered m \<Longrightarrow> map_of (put k v m) = (map_of m)(k \<mapsto> v)"
  by (induction k v m rule: put.induct) (auto simp: fun_eq_iff)

lemma ordered_filter: "ordered m \<Longrightarrow> ordered (filter P m)"
  by (induction m) auto

lemma map_of_filter_key: "map_of (drop_key k m) = (map_of m)(k := None)"
  by (induction m) (auto simp: drop_key_def fun_eq_iff)

lemma ordered_distinct: "ordered m \<Longrightarrow> distinct (map fst m)"
  by (induction m) fastforce+

section \<open>The size of a tensor\<close>

text \<open>
  Shorter shapes are filled up with ones; no shape is an error. The count \<open>4 - rank\<close> is unsigned:
  for a higher rank the loop appends about four thousand million ones, of eight bytes each, which
  is taken to exhaust the memory of the device.
\<close>

definition fillDims :: "nat list \<Rightarrow> nat list option res" where
  "fillDims ds =
     (if ds = [] then Inr None
      else let ones = unat (4 - word_of_nat (length ds) :: u32) in
        if 4 < ones then Inl (RuntimeError ''bad_alloc'') else Inr (Some (replicate ones 1 @ ds)))"

text \<open>\<open>g_qnnDataTypeToSize\<close>, whose \<open>operator[]\<close> gives 0 for the types it does not list.\<close>

definition getDataTypeSize :: "qnn_dtype \<Rightarrow> nat" where
  "getDataTypeSize d = (case d of
      INT_8 \<Rightarrow> 1 | INT_16 \<Rightarrow> 2 | INT_32 \<Rightarrow> 4 | INT_64 \<Rightarrow> 8
    | UINT_8 \<Rightarrow> 1 | UINT_16 \<Rightarrow> 2 | UINT_32 \<Rightarrow> 4 | UINT_64 \<Rightarrow> 8
    | FLOAT_16 \<Rightarrow> 2 | FLOAT_32 \<Rightarrow> 4
    | SFIXED_POINT_8 \<Rightarrow> 1 | SFIXED_POINT_16 \<Rightarrow> 2 | SFIXED_POINT_32 \<Rightarrow> 4
    | UFIXED_POINT_8 \<Rightarrow> 1 | UFIXED_POINT_16 \<Rightarrow> 2 | UFIXED_POINT_32 \<Rightarrow> 4
    | BOOL_8 \<Rightarrow> 1 | _ \<Rightarrow> 0)"

definition getTensorShape :: "qnn_tensor \<Rightarrow> nat list option res" where
  "getTensorShape t = rbind (fillDims (qt_dims t)) (\<lambda>s. Inr (map_option (\<lambda>ds. ds @ [getDataTypeSize (qt_dtype t)]) s))"

record dims =
  dm_batch :: u32
  dm_height :: u32
  dm_width :: u32
  dm_channel :: u32
  dm_bitwidth :: u32

definition mkDims :: "nat list \<Rightarrow> dims" where
  "mkDims ds =
     \<lparr> dm_batch = (if 1 < ds ! 0 \<and> ds ! 1 \<noteq> 1 then word_of_nat (ds ! 0) else 1),
       dm_height = word_of_nat (if ds ! 0 \<noteq> 1 \<and> ds ! 1 = 1 then ds ! 0 else ds ! 1),
       dm_width = word_of_nat (ds ! 2), dm_channel = word_of_nat (ds ! 3), dm_bitwidth = word_of_nat (ds ! 4) \<rparr>"

text \<open>The product is computed in 32 bits.\<close>

definition getSize :: "dims \<Rightarrow> nat" where
  "getSize d = unat (dm_batch d * dm_height d * dm_width d * dm_channel d * dm_bitwidth d)"

definition getAlignedSize :: "dims \<Rightarrow> nat" where
  "getAlignedSize d = (let size = getSize d in if size mod 8 \<noteq> 0 then size + (8 - size mod 8) else size)"

section \<open>The tensors of a graph\<close>

type_synonym io_map = "(string \<times> dims) list"

text \<open>The state is \<open>None\<close> once the function has returned false.\<close>

definition note_tensor :: "qnn_tensor \<Rightarrow> io_map option \<Rightarrow> io_map option res" where
  "note_tensor t io = (case io of None \<Rightarrow> Inr None
     | Some m \<Rightarrow> rbind (getTensorShape t) (\<lambda>s. Inr (map_option (\<lambda>ds. put (qt_name t) (mkDims ds) m) s)))"

definition graph_io :: "graph_info \<Rightarrow> io_map option res" where
  "graph_io gi = rfor note_tensor (gi_inputs gi @ gi_outputs gi) (Some [])"

definition is_cache :: "string \<Rightarrow> bool" where
  "is_cache n \<longleftrightarrow> take 5 n = ''past_''"

definition is_cache_in :: "string \<Rightarrow> bool" where
  "is_cache_in n \<longleftrightarrow> is_cache n \<and> 3 \<le> length n \<and> drop (length n - 3) n = ''_in''"

text \<open>\<open>tname.substr(0, tname.rfind('_')).append("_in")\<close>.\<close>

definition kv_in_name :: "string \<Rightarrow> string" where
  "kv_in_name n = rev (drop 1 (dropWhile (\<lambda>c. c \<noteq> CHR ''_'') (rev n))) @ ''_in''"

definition kv_in_of :: "io_map \<Rightarrow> string \<Rightarrow> dims option" where
  "kv_in_of io n = (if is_cache n then map_of io (kv_in_name n) else None)"

text \<open>The bytes of the cache input in front of a tensor, and the bytes of both.\<close>

definition kv_room :: "io_map \<Rightarrow> string \<Rightarrow> nat" where
  "kv_room io n = (case kv_in_of io n of None \<Rightarrow> 0 | Some d \<Rightarrow> getAlignedSize d)"

definition planned_size :: "io_map \<Rightarrow> string \<Rightarrow> dims \<Rightarrow> nat" where
  "planned_size io n d = getAlignedSize d + kv_room io n"

section \<open>Grouping by contexts\<close>

text \<open>
  A set of contexts is an \<open>int\<close> used as a bit vector. \<open>pn_bits\<close> is \<open>ctx_to_hash\<close>, \<open>pn_ctx\<close> is
  \<open>tensor_ctx_map\<close> and \<open>pn_groups\<close> is \<open>m_contextAllocMap\<close>.
\<close>

record plan =
  pn_bits :: "(nat \<times> int) list"
  pn_ctx :: "string \<Rightarrow> int option"
  pn_groups :: "(int \<times> (string \<times> nat) list) list"

definition emptyPlan :: plan where
  "emptyPlan = \<lparr> pn_bits = [], pn_ctx = Map.empty, pn_groups = [] \<rparr>"

definition context_bit :: "nat \<Rightarrow> plan \<Rightarrow> (int \<times> plan) res" where
  "context_bit c p =
     (case map_of (pn_bits p) c of Some b \<Rightarrow> Inr (b, p)
      | None \<Rightarrow> let k = length (pn_bits p) in
          if 32 \<le> k then Inl UndefinedBehaviour
          else Inr (to_i32 (2 ^ k), p\<lparr> pn_bits := pn_bits p @ [(c, to_i32 (2 ^ k))] \<rparr>))"

definition group_at :: "plan \<Rightarrow> int \<Rightarrow> (string \<times> nat) list" where
  "group_at p bv = (case map_of (pn_groups p) bv of None \<Rightarrow> [] | Some m \<Rightarrow> m)"

definition in_group :: "plan \<Rightarrow> int \<Rightarrow> string \<Rightarrow> nat option" where
  "in_group p bv n = map_of (group_at p bv) n"

definition set_group :: "int \<Rightarrow> (string \<times> nat) list \<Rightarrow> plan \<Rightarrow> plan" where
  "set_group bv m p = p\<lparr> pn_groups := put bv m (pn_groups p) \<rparr>"

definition place_tensor :: "int \<Rightarrow> io_map \<Rightarrow> string \<times> dims \<Rightarrow> plan \<Rightarrow> plan" where
  "place_tensor b io = (\<lambda>(n, d) p.
     if is_cache_in n then p
     else let size = planned_size io n d in
       case pn_ctx p n of
         None \<Rightarrow> set_group b (put n size (group_at p b)) (p\<lparr> pn_ctx := (pn_ctx p)(n \<mapsto> b) \<rparr>)
       | Some bv \<Rightarrow>
           let size = max (case in_group p bv n of None \<Rightarrow> 0 | Some s \<Rightarrow> s) size;
               p1 = (if and bv b = 0 then set_group bv (drop_key n (group_at p bv)) p else p);
               t = or b bv
           in set_group t (put n size (group_at p1 t)) (p1\<lparr> pn_ctx := (pn_ctx p1)(n \<mapsto> t) \<rparr>))"

definition drop_empty :: "plan \<Rightarrow> plan" where
  "drop_empty p = p\<lparr> pn_groups := filter (\<lambda>(_, m). m \<noteq> []) (pn_groups p) \<rparr>"

definition plan_graph :: "nat \<times> io_map \<Rightarrow> plan \<Rightarrow> plan res" where
  "plan_graph = (\<lambda>(c, io) p. rbind (context_bit c p) (\<lambda>(b, p). Inr (drop_empty (fold (place_tensor b io) io p))))"

text \<open>The tensors of all graphs are noted before any graph is planned; \<open>None\<close> when the function returns false.\<close>

definition note_graph :: "nat \<times> graph_info \<Rightarrow> io_map list option \<Rightarrow> io_map list option res" where
  "note_graph = (\<lambda>(_, gi) ios. case ios of None \<Rightarrow> Inr None
     | Some ms \<Rightarrow> rbind (graph_io gi) (\<lambda>io. Inr (map_option (\<lambda>m. ms @ [m]) io)))"

definition parseIOTensorsAndAccumulate :: "(nat \<times> graph_info) list \<Rightarrow> (io_map list \<times> plan) option res" where
  "parseIOTensorsAndAccumulate gs =
     rbind (rfor note_graph gs (Some [])) (\<lambda>ios. case ios of None \<Rightarrow> Inr None
       | Some ms \<Rightarrow> rbind (rfor plan_graph (zip (map fst gs) ms) emptyPlan) (\<lambda>p. Inr (Some (ms, p))))"

section \<open>Places within the buffers\<close>

type_synonym places = "string \<Rightarrow> (nat \<times> nat) option"

fun lay_group :: "nat \<Rightarrow> (string \<times> nat) list \<Rightarrow> nat \<Rightarrow> places \<Rightarrow> places \<times> nat" where
  "lay_group idx [] used offs = (offs, used)"
| "lay_group idx ((n, s) # es) used offs = lay_group idx es (used + s) (offs(n \<mapsto> (idx, used)))"

text \<open>\<open>registerTensorsWithBackend\<close>: buffer, offset and size of the tensors of one graph.\<close>

type_synonym allocs = "string \<Rightarrow> (nat \<times> nat \<times> nat) option"

definition alloc_tensor :: "io_map \<Rightarrow> places \<Rightarrow> string \<times> dims \<Rightarrow> allocs \<Rightarrow> allocs res" where
  "alloc_tensor io offs = (\<lambda>(n, d) al.
     if is_cache_in n then Inr al
     else case offs n of None \<Rightarrow> Inl OutOfRange
       | Some (idx, off) \<Rightarrow>
           let al = (if kv_in_of io n = None then al else al(kv_in_name n \<mapsto> (idx, off, kv_room io n)))
           in Inr (al(n \<mapsto> (idx, off + kv_room io n, getAlignedSize d))))"

definition graph_allocs :: "io_map \<Rightarrow> places \<Rightarrow> allocs res" where
  "graph_allocs io offs = rfor (alloc_tensor io offs) io Map.empty"

section \<open>Sizes\<close>

lemma prod_foldl: "foldl (\<lambda>n d. n * d) a ds = a * prod_list ds" for a :: nat
  by (induction ds arbitrary: a) (simp_all add: mult_ac)

lemma fillDims_short:
  assumes "ds \<noteq> []" "length ds \<le> 4"
  shows "fillDims ds = Inr (Some (replicate (4 - length ds) 1 @ ds))"
proof -
  have "unat (4 - word_of_nat (length ds) :: u32) = 4 - length ds"
    using assms(2) by (simp add: unat_sub word_le_nat_alt unat_of_nat take_bit_nat_eq_self)
  then show ?thesis using assms(1) by (simp add: fillDims_def Let_def)
qed

text \<open>The loop of a tensor of rank five or more has more than four thousand million rounds.\<close>

lemma fillDims_long:
  assumes "4 < length ds" "length ds < 2 ^ 31"
  shows "fillDims ds = Inl (RuntimeError ''bad_alloc'')"
proof -
  let ?w = "word_of_nat (length ds) :: u32"
  have w: "unat ?w = length ds" using assms(2) by (simp add: unat_of_nat)
  then have "unat (4 - ?w) = 2 ^ 32 + 4 - length ds"
    using assms by (simp add: unat_sub_if' word_le_nat_alt)
  then have "4 < unat (4 - ?w)" using assms(2) by simp
  then show ?thesis using assms(1) by (auto simp: fillDims_def Let_def)
qed

lemma fillDims_total: "length ds \<le> 4 \<Longrightarrow> \<exists>s. fillDims ds = Inr s"
  by (cases "ds = []") (simp_all add: fillDims_short fillDims_def [of "[]"])

lemma unat_of_nat_eq_below: "n < 2 ^ 32 \<Longrightarrow> unat (word_of_nat n :: u32) = n"
  by (simp add: unat_of_nat)

lemma getSize_mkDims:
  assumes "0 < a" "a * b * c * e * w < 2 ^ 32"
  shows "getSize (mkDims [a, b, c, e, w]) = a * b * c * e * w"
proof -
  let ?d = "mkDims [a, b, c, e, w]"
  have "dm_batch ?d * dm_height ?d * dm_width ?d * dm_channel ?d * dm_bitwidth ?d = word_of_nat (a * b * c * e * w)"
    using assms(1) by (cases "a = 1") (simp_all add: mkDims_def)
  then have "getSize ?d = unat (word_of_nat (a * b * c * e * w) :: u32)" by (simp only: getSize_def)
  also have "\<dots> = a * b * c * e * w"
    by (rule unat_of_nat_eq_below) (use assms(2) in simp)
  finally show ?thesis .
qed

lemma aligned_ge: "getSize d \<le> getAlignedSize d"
  by (auto simp: getAlignedSize_def Let_def intro: order_trans [OF _ le_add1])

lemma four_elements: "length xs = 4 \<Longrightarrow> \<exists>a b c e. xs = [a, b, c, e]"
  by (auto simp: length_Suc_conv numeral_eq_Suc)

text \<open>What is reserved covers what a graph takes the tensor to have.\<close>

lemma reserved_covers:
  assumes "tensorByteSize t = Inr n" "qt_dims t \<noteq> []" "length (qt_dims t) \<le> 4" "n < 2 ^ 32" "qt_dtype t \<noteq> FLOAT_64"
  shows "\<exists>ds. getTensorShape t = Inr (Some ds) \<and> n \<le> getAlignedSize (mkDims ds)"
proof -
  have n: "n = prod_list (qt_dims t) * getDataTypeSize (qt_dtype t)"
    using assms(1,5) by (cases "qt_dtype t") (simp_all add: tensorByteSize_def dtypeBytes_def getDataTypeSize_def prod_foldl)
  let ?w = "getDataTypeSize (qt_dtype t)"
  have "length (replicate (4 - length (qt_dims t)) (1 :: nat) @ qt_dims t) = 4" using assms(3) by simp
  note four = four_elements [OF this]
  obtain a b c e where f: "replicate (4 - length (qt_dims t)) 1 @ qt_dims t = [a, b, c, e]"
    using four by (elim exE)
  have p: "prod_list (qt_dims t) = a * b * c * e"
    using arg_cong [OF f, of prod_list] by (simp add: mult_ac)
  have s: "getTensorShape t = Inr (Some [a, b, c, e, ?w])"
    unfolding getTensorShape_def fillDims_short [OF assms(2,3)] f by simp
  show ?thesis
  proof (cases "a = 0")
    case True
    with n p s show ?thesis by simp
  next
    case False
    then have "getSize (mkDims [a, b, c, e, ?w]) = n"
      using getSize_mkDims [of a b c e ?w] n p assms(4) by simp
    with s show ?thesis using aligned_ge [of "mkDims [a, b, c, e, ?w]"] by simp
  qed
qed

section \<open>The groups\<close>

definition hot :: "int \<Rightarrow> bool" where
  "hot b \<longleftrightarrow> (\<exists>k < 32. b = to_i32 (2 ^ k))"

lemma bit_hot: "bit (to_i32 (2 ^ k)) j \<longleftrightarrow> min 31 j = k"
  by (auto simp: to_i32_def bit_signed_take_bit_iff bit_exp_iff min_def)

text \<open>The occurrences of tensors placed so far, each with the bit of its context.\<close>

type_synonym occurrences = "(int \<times> io_map \<times> string \<times> dims) set"

definition placed :: "occurrences \<Rightarrow> plan \<Rightarrow> bool" where
  "placed T p \<longleftrightarrow> ordered (pn_groups p) \<and> (\<forall>bv m. map_of (pn_groups p) bv = Some m \<longrightarrow> ordered m)
     \<and> (\<forall>bv n. in_group p bv n \<noteq> None \<longleftrightarrow> pn_ctx p n = Some bv)
     \<and> (\<forall>(b, io, n, d) \<in> T. hot b \<and> (\<exists>bv s. in_group p bv n = Some s \<and> planned_size io n d \<le> s))
     \<and> (\<forall>bv n s. in_group p bv n = Some s \<longrightarrow> (\<exists>(b, io, n1, d) \<in> T. n1 = n \<and> s = planned_size io n d)
          \<and> (\<forall>k. bit bv k \<longleftrightarrow> (\<exists>(b, io, n1, d) \<in> T. n1 = n \<and> bit b k)))"

lemma placedD:
  assumes "placed T p"
  shows "ordered (pn_groups p)" "in_group p bv n \<noteq> None \<longleftrightarrow> pn_ctx p n = Some bv"
    and "(b, io, n, d) \<in> T \<Longrightarrow> hot b"
    and "(b, io, n, d) \<in> T \<Longrightarrow> \<exists>bv s. in_group p bv n = Some s \<and> planned_size io n d \<le> s"
    and "in_group p bv n = Some s \<Longrightarrow> bit bv k \<longleftrightarrow> (\<exists>(b, io, n1, d) \<in> T. n1 = n \<and> bit b k)"
    and "in_group p bv n = Some s \<Longrightarrow> \<exists>(b, io, n1, d) \<in> T. n1 = n \<and> s = planned_size io n d"
  using assms unfolding placed_def by (blast, blast, fastforce, fastforce, blast, blast)

lemma group_at_set [simp]: "ordered (pn_groups p) \<Longrightarrow> group_at (set_group bv m p) bv2 = (if bv2 = bv then m else group_at p bv2)"
  by (simp add: group_at_def set_group_def)

lemma group_ordered: "placed T p \<Longrightarrow> ordered (group_at p bv)"
  by (auto simp: placed_def group_at_def split: option.splits)

lemma hot_absorb:
  assumes "hot b" "and bv b \<noteq> 0" "\<And>k. bit bv k \<longleftrightarrow> (\<exists>b \<in> B. bit b k)" "\<And>b. b \<in> B \<Longrightarrow> hot b"
  shows "or b bv = bv"
proof -
  obtain k where k: "b = to_i32 (2 ^ k)" using assms(1) by (auto simp: hot_def)
  obtain j where "bit bv j" "bit b j" using assms(2) by (auto simp: bit_eq_iff bit_and_iff)
  then obtain b2 where b2: "b2 \<in> B" "bit b2 j" using assms(3) by auto
  then obtain k2 where "b2 = to_i32 (2 ^ k2)" using assms(4) by (auto simp: hot_def)
  with b2 \<open>bit b j\<close> k have "b2 = b" by (simp add: bit_hot)
  with b2 assms(3) show ?thesis by (auto simp: bit_eq_iff bit_or_iff)
qed

text \<open>Placing a tensor moves its entry to the group of all its contexts and touches no other.\<close>

lemma place_effect:
  fixes io :: io_map and d :: dims
  assumes "placed T p" "hot b" "\<not> is_cache_in n"
  defines "t \<equiv> (case pn_ctx p n of None \<Rightarrow> b | Some bv \<Rightarrow> or b bv)"
    and "sz \<equiv> (case pn_ctx p n of None \<Rightarrow> planned_size io n d
        | Some bv \<Rightarrow> max (case in_group p bv n of None \<Rightarrow> 0 | Some s \<Rightarrow> s) (planned_size io n d))"
    and "p2 \<equiv> place_tensor b io (n, d) p"
  shows "pn_bits p2 = pn_bits p" "pn_ctx p2 = (pn_ctx p)(n \<mapsto> t)" "ordered (pn_groups p2)"
    and "\<And>bv m. map_of (pn_groups p2) bv = Some m \<Longrightarrow> ordered m"
    and "\<And>bv n2. in_group p2 bv n2 = (if n2 = n then if bv = t then Some sz else None else in_group p bv n2)"
proof -
  note o = assms(1) [unfolded placed_def]
  have og: "ordered (pn_groups p)" "\<And>bv. ordered (group_at p bv)" using assms(1) group_ordered by (auto simp: placed_def)
  have out: "in_group p bv n = None" if "pn_ctx p n \<noteq> Some bv" for bv using o that by blast
  have "pn_bits p2 = pn_bits p \<and> pn_ctx p2 = (pn_ctx p)(n \<mapsto> t) \<and> ordered (pn_groups p2)
      \<and> (\<forall>bv m. map_of (pn_groups p2) bv = Some m \<longrightarrow> ordered m)
      \<and> (\<forall>bv n2. in_group p2 bv n2 = (if n2 = n then if bv = t then Some sz else None else in_group p bv n2))"
  proof (cases "pn_ctx p n")
    case None
    then have e: "p2 = set_group t (put n sz (group_at p t)) (p\<lparr> pn_ctx := (pn_ctx p)(n \<mapsto> t) \<rparr>)"
      using assms(3) by (simp add: p2_def t_def sz_def place_tensor_def)
    have g2: "group_at p2 v = (if v = t then put n sz (group_at p t) else group_at p v)" for v
      using og(1) by (simp add: e group_at_def set_group_def)
    have "in_group p2 v n2 = (if n2 = n then if v = t then Some sz else None else in_group p v n2)" for v n2
    proof (cases "v = t")
      case True
      then show ?thesis using map_of_put [OF og(2), of n sz t] by (simp add: in_group_def g2)
    next
      case False
      then show ?thesis using out [of v] None by (simp add: in_group_def g2)
    qed
    moreover have "ordered m" if "map_of (pn_groups p2) v = Some m" for v m
    proof -
      have "group_at p2 v = m" using that by (simp add: group_at_def)
      then show ?thesis using og(2) by (auto simp: g2 split: if_splits)
    qed
    ultimately show ?thesis using og(1) by (auto simp: e set_group_def)
  next
    case (Some bv)
    define p1 where "p1 = (if and bv b = 0 then set_group bv (drop_key n (group_at p bv)) p else p)"
    have e: "p2 = set_group t (put n sz (group_at p1 t)) (p1\<lparr> pn_ctx := (pn_ctx p1)(n \<mapsto> t) \<rparr>)"
      using assms(3) Some by (simp add: p2_def t_def sz_def place_tensor_def p1_def Let_def)
    have t: "t = or b bv" by (simp add: t_def Some)
    obtain s where s: "in_group p bv n = Some s" using o Some by blast
    have "bv \<noteq> t \<longleftrightarrow> and bv b = 0"
    proof
      assume "and bv b = 0"
      obtain k where k: "b = to_i32 (2 ^ k)" "k < 32" using assms(2) by (auto simp: hot_def)
      then have "bit b k" by (simp add: bit_hot)
      with \<open>and bv b = 0\<close> have "\<not> bit bv k" by (metis bit_0_eq bit_and_iff bot_apply bot_bool_def)
      with \<open>bit b k\<close> show "bv \<noteq> t" unfolding t by (metis bit_or_iff)
    next
      assume "bv \<noteq> t"
      let ?B = "{b. \<exists>io d. (b, io, n, d) \<in> T}"
      have 1: "bit bv k \<longleftrightarrow> (\<exists>b \<in> ?B. bit b k)" for k using placedD(5) [OF assms(1) s, of k] by auto
      have 2: "hot b" if "b \<in> ?B" for b using placedD(3) [OF assms(1)] that by auto
      show "and bv b = 0"
      proof (rule ccontr)
        assume "and bv b \<noteq> 0"
        then have "or b bv = bv" using 1 2 by (rule hot_absorb [OF assms(2)])
        with \<open>bv \<noteq> t\<close> t show False by simp
      qed
    qed
    then have p1: "p1 = (if bv \<noteq> t then set_group bv (drop_key n (group_at p bv)) p else p)" by (simp add: p1_def)
    have o1: "ordered (pn_groups p1)" "pn_ctx p1 = pn_ctx p" "pn_bits p1 = pn_bits p"
      using og by (auto simp: p1 set_group_def)
    have g1: "group_at p1 v = (if v = bv \<and> bv \<noteq> t then drop_key n (group_at p bv) else group_at p v)" for v
      using og by (simp add: p1)
    have go1: "ordered (group_at p1 v)" for v using og(2) by (simp add: g1 drop_key_def ordered_filter)
    have g2: "group_at p2 v = (if v = t then put n sz (group_at p1 t) else group_at p1 v)" for v
      using o1(1) by (simp add: e group_at_def set_group_def)
    have "in_group p2 v n2 = (if n2 = n then if v = t then Some sz else None else in_group p v n2)" for v n2
      using go1 og(2) out [of v] Some by (auto simp: in_group_def g2 g1 map_of_filter_key)
    moreover have "ordered m" if "map_of (pn_groups p2) v = Some m" for v m
    proof -
      have "group_at p2 v = m" using that by (simp add: group_at_def)
      then show ?thesis using go1 by (auto simp: g2 split: if_splits)
    qed
    ultimately show ?thesis using o1 by (auto simp: e set_group_def)
  qed
  then show "pn_bits p2 = pn_bits p" "pn_ctx p2 = (pn_ctx p)(n \<mapsto> t)" "ordered (pn_groups p2)"
    and "\<And>bv m. map_of (pn_groups p2) bv = Some m \<Longrightarrow> ordered m"
    and "\<And>bv n2. in_group p2 bv n2 = (if n2 = n then if bv = t then Some sz else None else in_group p bv n2)"
    by blast+
qed

lemma insert_placed:
  assumes P: "placed T p" "hot b" "\<not> is_cache_in n"
  shows "placed (insert (b, io, n, d) T) (place_tensor b io (n, d) p)"
proof -
  note old = placedD [OF P(1)]
  define bv where "bv = (case pn_ctx p n of None \<Rightarrow> b | Some bv \<Rightarrow> or b bv)"
  define sz where "sz = (case pn_ctx p n of None \<Rightarrow> planned_size io n d
        | Some bv \<Rightarrow> max (case in_group p bv n of None \<Rightarrow> 0 | Some s \<Rightarrow> s) (planned_size io n d))"
  let ?p = "place_tensor b io (n, d) p" and ?T = "insert (b, io, n, d) T"
  note new = place_effect [OF P, of io d, folded bv_def sz_def]
  have none: "\<not> (\<exists>(b, io, n1, d) \<in> T. n1 = n)" if "pn_ctx p n = None"
  proof -
    have "in_group p v n = None" for v using old(2) [of v n] that by simp
    then have "(b1, io1, n, d1) \<notin> T" for b1 io1 d1 using old(4) [of b1 io1 n d1] by auto
    then show ?thesis by blast
  qed
  have in1: "in_group ?p v m = (if m = n then if v = bv then Some sz else None else in_group p v m)" for v m
    by (rule new(5))
  have cov: "planned_size io n d \<le> sz" by (simp add: sz_def split: option.splits)
  have was: "\<exists>s \<le> sz. in_group p v n = Some s" if "pn_ctx p n = Some v" for v
    using that old(2) [of v n] by (auto simp: sz_def)
  have cover: "\<exists>v s. in_group ?p v n1 = Some s \<and> planned_size io1 n1 d1 \<le> s" if occ: "(b1, io1, n1, d1) \<in> ?T" for b1 io1 n1 d1
  proof (cases "(b1, io1, n1, d1) \<in> T \<and> n1 = n")
    case True
    then obtain v s where s: "in_group p v n = Some s" "planned_size io1 n1 d1 \<le> s" using old(4) by blast
    then have "s \<le> sz" using was [of v] old(2) [of v n] by auto
    with s True show ?thesis by (auto simp: in1 intro!: exI [of _ bv])
  next
    case False
    with occ show ?thesis using old(4) cov by (cases "n1 = n") (auto simp: in1)
  qed
  have hot: "hot b1" if "(b1, io1, n1, d1) \<in> ?T" for b1 io1 n1 d1 using that P(2) old(3) by auto
  have exact: "\<exists>(b, io, n1, d) \<in> ?T. n1 = m \<and> s = planned_size io n1 d" if i: "in_group ?p v m = Some s" for v m s
  proof (cases "m = n \<and> sz \<noteq> planned_size io n d")
    case True
    then obtain u where "in_group p u n = Some sz" using old(2) by (auto simp: sz_def max_def split: option.splits if_splits)
    with True i old(6) [of u n sz] show ?thesis by (auto simp: in1 split: if_splits)
  next
    case False
    with i old(6) [of v m s] show ?thesis by (auto simp: in1 split: if_splits)
  qed
  have bits: "bit v k \<longleftrightarrow> (\<exists>(b, io, n1, d) \<in> ?T. n1 = m \<and> bit b k)" if i: "in_group ?p v m = Some s" for v m s k
  proof (cases "m = n")
    case True
    with i have v: "v = bv" by (simp add: in1 split: if_splits)
    show ?thesis
    proof (cases "pn_ctx p n")
      case None
      then show ?thesis using none v True by (auto simp: bv_def)
    next
      case (Some u)
      with was obtain s2 where "in_group p u n = Some s2" by blast
      from old(5) [OF this, of k] show ?thesis using v True Some by (auto simp: bv_def bit_or_iff)
    qed
  next
    case False
    with i old(5) [of v m s k] show ?thesis by (simp add: in1)
  qed
  have ctx: "in_group ?p v m \<noteq> None \<longleftrightarrow> pn_ctx ?p m = Some v" for v m
    using old(2) [of v m] by (auto simp: in1 new(2))
  show ?thesis
    unfolding placed_def
  proof (intro conjI)
    show "\<forall>(b, io, n, d) \<in> ?T. hot b \<and> (\<exists>bv s. in_group ?p bv n = Some s \<and> planned_size io n d \<le> s)"
      using cover hot by (simp only: split_paired_Ball_Sigma Ball_def split_paired_All case_prod_conv) blast
    show "\<forall>bv n s. in_group ?p bv n = Some s \<longrightarrow> (\<exists>(b, io, n1, d) \<in> ?T. n1 = n \<and> s = planned_size io n d)
          \<and> (\<forall>k. bit bv k \<longleftrightarrow> (\<exists>(b, io, n1, d) \<in> ?T. n1 = n \<and> bit b k))"
    proof (intro allI impI conjI)
      fix v m s k assume i: "in_group ?p v m = Some s"
      show "\<exists>(b, io, n1, d) \<in> ?T. n1 = m \<and> s = planned_size io m d" using exact [OF i] by auto
      show "bit v k \<longleftrightarrow> (\<exists>(b, io, n1, d) \<in> ?T. n1 = m \<and> bit b k)" by (rule bits [OF i])
    qed
  qed (use new(3,4) ctx in simp_all)
qed

text \<open>The occurrences a graph brings, and those of the graphs up to now under the contexts' bits.\<close>

definition occ :: "int \<Rightarrow> io_map \<Rightarrow> occurrences" where
  "occ b io = {(b, io, n, d) | n d. (n, d) \<in> set io \<and> \<not> is_cache_in n}"

definition occs :: "(nat \<times> int) list \<Rightarrow> (nat \<times> io_map) list \<Rightarrow> occurrences" where
  "occs bits gs = (\<Union>(c, io) \<in> set gs. occ (the (map_of bits c)) io)"

lemma place_fold:
  assumes "placed T p" "hot b" "set es \<subseteq> set io"
  shows "placed (T \<union> {(b, io, n, d) | n d. (n, d) \<in> set es \<and> \<not> is_cache_in n}) (fold (place_tensor b io) es p)
    \<and> pn_bits (fold (place_tensor b io) es p) = pn_bits p"
  using assms
proof (induction es arbitrary: T p)
  case (Cons e es)
  obtain n d where e: "e = (n, d)" by force
  show ?case
  proof (cases "is_cache_in n")
    case True
    then have "place_tensor b io e p = p" by (simp add: e place_tensor_def)
    moreover have "{(b, io, n, d) | n d. (n, d) \<in> set (e # es) \<and> \<not> is_cache_in n}
        = {(b, io, n, d) | n d. (n, d) \<in> set es \<and> \<not> is_cache_in n}" using True e by auto
    ultimately show ?thesis using Cons by simp
  next
    case False
    have "{(b, io, n, d) | n d. (n, d) \<in> set (e # es) \<and> \<not> is_cache_in n}
        = insert (b, io, n, d) {(b, io, n, d) | n d. (n, d) \<in> set es \<and> \<not> is_cache_in n}" using False e by auto
    moreover have "placed (insert (b, io, n, d) T) (place_tensor b io e p)"
      unfolding e using Cons.prems(1,2) False by (rule insert_placed)
    moreover have "pn_bits (place_tensor b io e p) = pn_bits p"
      unfolding e using Cons.prems(1,2) False by (rule place_effect(1))
    ultimately show ?thesis using Cons.IH [of "insert (b, io, n, d) T" "place_tensor b io e p"] Cons.prems(2,3) by simp
  qed
qed simp

lemma in_group_drop_empty:
  assumes "ordered (pn_groups p)"
  shows "in_group (drop_empty p) bv n = in_group p bv n"
proof -
  have "map_of (filter (\<lambda>(_, m). m \<noteq> []) g) bv = (case map_of g bv of None \<Rightarrow> None | Some m \<Rightarrow> if m = [] then None else Some m)"
    if "ordered g" for g :: "(int \<times> (string \<times> nat) list) list"
    using that by (induction g) (auto simp: map_of_above split: option.splits)
  from this [OF assms] show ?thesis
    by (auto simp: in_group_def group_at_def drop_empty_def split: option.splits)
qed

lemma drop_empty_placed:
  assumes "placed T p"
  shows "placed T (drop_empty p)"
proof -
  have o: "ordered (pn_groups p)" using placedD(1) [OF assms] .
  have "map_of (pn_groups p) bv = Some m" if "map_of (pn_groups (drop_empty p)) bv = Some m" for bv m
  proof -
    have "(bv, m) \<in> set (pn_groups p)" using map_of_SomeD [OF that] by (simp add: drop_empty_def)
    then show ?thesis using ordered_distinct [OF o] by simp
  qed
  then show ?thesis using assms
    by (simp add: placed_def in_group_drop_empty [OF o]) (auto simp: drop_empty_def ordered_filter)
qed

section \<open>Every tensor in one group\<close>

definition bits_ok :: "(nat \<times> int) list \<Rightarrow> bool" where
  "bits_ok bs \<longleftrightarrow> length bs \<le> 32 \<and> distinct (map fst bs) \<and> (\<forall>i < length bs. snd (bs ! i) = to_i32 (2 ^ i))"

lemma bits_hot:
  assumes "bits_ok bs" "map_of bs c = Some b"
  shows "hot b"
proof -
  obtain i where "i < length bs" "bs ! i = (c, b)" using map_of_SomeD [OF assms(2)] by (auto simp: in_set_conv_nth)
  then show ?thesis using assms(1) by (force simp: bits_ok_def hot_def)
qed

lemma context_bit_ok:
  assumes "context_bit c p = Inr (b, p2)" "bits_ok (pn_bits p)"
  shows "bits_ok (pn_bits p2)" "map_of (pn_bits p2) c = Some b" "\<exists>ext. pn_bits p2 = pn_bits p @ ext \<and> fst ` set ext \<subseteq> {c}"
    and "pn_ctx p2 = pn_ctx p" "pn_groups p2 = pn_groups p" "hot b"
proof -
  have "bits_ok (pn_bits p2) \<and> map_of (pn_bits p2) c = Some b \<and> (\<exists>ext. pn_bits p2 = pn_bits p @ ext \<and> fst ` set ext \<subseteq> {c})
    \<and> pn_ctx p2 = pn_ctx p \<and> pn_groups p2 = pn_groups p"
  proof (cases "map_of (pn_bits p) c")
    case None
    then have new: "c \<notin> fst ` set (pn_bits p)" by (simp add: map_of_eq_None_iff)
    show ?thesis using assms None new
      by (auto simp: context_bit_def Let_def bits_ok_def nth_append less_Suc_eq map_add_def split: if_splits)
  next
    case (Some b1)
    then show ?thesis using assms by (auto simp: context_bit_def)
  qed
  then show "bits_ok (pn_bits p2)" "map_of (pn_bits p2) c = Some b" "\<exists>ext. pn_bits p2 = pn_bits p @ ext \<and> fst ` set ext \<subseteq> {c}"
    and "pn_ctx p2 = pn_ctx p" "pn_groups p2 = pn_groups p" "hot b" using bits_hot by blast+
qed

definition planned :: "(nat \<times> io_map) list \<Rightarrow> plan \<Rightarrow> bool" where
  "planned gs p \<longleftrightarrow> bits_ok (pn_bits p) \<and> fst ` set (pn_bits p) = fst ` set gs \<and> placed (occs (pn_bits p) gs) p"

lemma plan_graph_step:
  assumes "planned gs p" "plan_graph (c, io) p = Inr p2"
  shows "planned (gs @ [(c, io)]) p2"
proof -
  obtain b p1 where c: "context_bit c p = Inr (b, p1)" and p2: "p2 = drop_empty (fold (place_tensor b io) io p1)"
    using assms(2) by (auto simp: plan_graph_def rbind_def split: sum.splits)
  note ok = context_bit_ok [OF c] and pl = assms(1) [unfolded planned_def]
  obtain ext where ext: "pn_bits p1 = pn_bits p @ ext" "fst ` set ext \<subseteq> {c}" using ok(3) pl by blast
  have same: "map_of (pn_bits p1) k = map_of (pn_bits p) k" if "k \<in> fst ` set gs" for k
    using that pl ext by (auto simp: map_add_def map_of_eq_None_iff split: option.splits)
  have os: "occs (pn_bits p1) gs = occs (pn_bits p) gs" using same by (force simp: occs_def)
  have "in_group p1 = in_group p" using ok(4,5) pl by (simp add: in_group_def group_at_def fun_eq_iff)
  then have "placed (occs (pn_bits p1) gs) p1" using pl ok(4,5) by (simp add: placed_def os)
  from place_fold [OF this ok(6) subset_refl, of io]
  have f: "placed (occs (pn_bits p1) gs \<union> occ b io) (fold (place_tensor b io) io p1)"
    "pn_bits (fold (place_tensor b io) io p1) = pn_bits p1" using pl by (simp_all add: occ_def)
  have b2: "pn_bits p2 = pn_bits p1" by (simp add: p2 drop_empty_def f(2))
  have "occs (pn_bits p2) (gs @ [(c, io)]) = occs (pn_bits p1) gs \<union> occ b io"
    using ok(2) pl by (auto simp: occs_def b2)
  with drop_empty_placed [OF f(1)] have "placed (occs (pn_bits p2) (gs @ [(c, io)])) p2" by (simp add: p2)
  moreover have "fst ` set (pn_bits p2) = fst ` set (gs @ [(c, io)])"
  proof -
    have "c \<in> fst ` set (pn_bits p1)" using ok(2) pl by (metis map_of_eq_None_iff option.distinct(1))
    then show ?thesis using pl ext by (auto simp: b2)
  qed
  ultimately show ?thesis using ok(1) pl by (simp add: planned_def b2)
qed

lemma plan_graphs:
  assumes "planned gs p" "rfor plan_graph gs2 p = Inr p2"
  shows "planned (gs @ gs2) p2"
  using assms
proof (induction gs2 arbitrary: gs p)
  case (Cons g gs2)
  obtain c io where g: "g = (c, io)" by force
  obtain p1 where "plan_graph (c, io) p = Inr p1" "rfor plan_graph gs2 p1 = Inr p2"
    using Cons.prems(2) by (auto simp: g rbind_def split: sum.splits)
  then show ?case using plan_graph_step [OF Cons.prems(1)] Cons.IH by (fastforce simp: g)
qed simp

lemma planned_empty: "planned [] emptyPlan"
  by (simp add: planned_def bits_ok_def emptyPlan_def placed_def occs_def in_group_def group_at_def)

lemma note_graph_false: "rfor note_graph gs None = Inr None"
  by (induction gs) (auto simp: note_graph_def)

lemma note_graphs:
  assumes "rfor note_graph gs (Some ms0) = Inr (Some ms)"
  shows "\<exists>ios. ms = ms0 @ ios \<and> length ios = length gs \<and> (\<forall>i < length gs. graph_io (snd (gs ! i)) = Inr (Some (ios ! i)))"
  using assms
proof (induction gs arbitrary: ms0)
  case (Cons g gs)
  obtain m where m: "graph_io (snd g) = Inr (Some m)" "rfor note_graph gs (Some (ms0 @ [m])) = Inr (Some ms)"
  proof -
    obtain c gi where g: "g = (c, gi)" by (cases g)
    from Cons.prems obtain s where s: "note_graph g (Some ms0) = Inr s" "rfor note_graph gs s = Inr (Some ms)" by auto
    then obtain io where io: "graph_io gi = Inr io" "s = map_option (\<lambda>m. ms0 @ [m]) io" by (auto simp: note_graph_def g)
    show ?thesis using that s(2) io note_graph_false [of gs] by (cases io) (simp_all add: g)
  qed
  obtain ios where i: "ms = (ms0 @ [m]) @ ios" "length ios = length gs" "\<forall>i < length gs. graph_io (snd (gs ! i)) = Inr (Some (ios ! i))"
    using Cons.IH [OF m(2)] by blast
  have "graph_io (snd ((g # gs) ! i)) = Inr (Some ((m # ios) ! i))" if "i < length (g # gs)" for i
    using i(3) m(1) that by (cases i) simp_all
  then show ?case using i(1,2) by (intro exI [of _ "m # ios"]) auto
qed simp

lemma parse_planned:
  assumes "parseIOTensorsAndAccumulate gs = Inr (Some (ios, p))"
  shows "planned (zip (map fst gs) ios) p" "length ios = length gs"
    and "\<And>i. i < length gs \<Longrightarrow> graph_io (snd (gs ! i)) = Inr (Some (ios ! i))"
proof -
  have n: "rfor note_graph gs (Some []) = Inr (Some ios)" and r: "rfor plan_graph (zip (map fst gs) ios) emptyPlan = Inr p"
    using assms by (auto simp: parseIOTensorsAndAccumulate_def split: option.splits)
  show "planned (zip (map fst gs) ios) p" using plan_graphs [OF planned_empty r] by simp
  show "length ios = length gs" "\<And>i. i < length gs \<Longrightarrow> graph_io (snd (gs ! i)) = Inr (Some (ios ! i))"
    using note_graphs [OF n] by simp_all
qed

lemma planned_group:
  assumes "planned G p" "(c, io) \<in> set G" "(n, d) \<in> set io" "\<not> is_cache_in n"
  shows "\<exists>!bv. in_group p bv n \<noteq> None" "\<exists>bv s. in_group p bv n = Some s \<and> planned_size io n d \<le> s"
proof -
  have P: "placed (occs (pn_bits p) G) p" using assms(1) by (simp add: planned_def)
  have "(the (map_of (pn_bits p) c), io, n, d) \<in> occs (pn_bits p) G" using assms by (force simp: occs_def occ_def)
  from placedD(4) [OF P this] show "\<exists>bv s. in_group p bv n = Some s \<and> planned_size io n d \<le> s" .
  then obtain bv where "in_group p bv n \<noteq> None" by blast
  then show "\<exists>!bv. in_group p bv n \<noteq> None" using placedD(2) [OF P, of _ n] by (metis option.inject)
qed

lemma planned_exact:
  assumes "planned G p" "in_group p bv n = Some s"
  shows "\<exists>(c, io) \<in> set G. \<exists>d. (n, d) \<in> set io \<and> s = planned_size io n d" "\<not> is_cache_in n"
    and "k < length (pn_bits p) \<Longrightarrow> bit bv k \<longleftrightarrow> (\<exists>io. (fst (pn_bits p ! k), io) \<in> set G \<and> n \<in> fst ` set io)"
proof -
  have P: "placed (occs (pn_bits p) G) p" and ok: "bits_ok (pn_bits p)"
    and ks: "fst ` set (pn_bits p) = fst ` set G" using assms(1) by (auto simp: planned_def)
  obtain b io d where o: "(b, io, n, d) \<in> occs (pn_bits p) G" "s = planned_size io n d"
    using placedD(6) [OF P assms(2)] by auto
  then show "\<exists>(c, io) \<in> set G. \<exists>d. (n, d) \<in> set io \<and> s = planned_size io n d" and nc: "\<not> is_cache_in n"
    by (fastforce simp: occs_def occ_def)+
  assume k: "k < length (pn_bits p)"
  have bit_of: "bit (the (map_of (pn_bits p) c)) k \<longleftrightarrow> c = fst (pn_bits p ! k)" if "(c, io) \<in> set G" for c io
  proof -
    have "c \<in> fst ` set (pn_bits p)" using that ks by force
    then obtain i where i: "i < length (pn_bits p)" "c = fst (pn_bits p ! i)" by (auto simp: in_set_conv_nth)
    then have "map_of (pn_bits p) c = Some (to_i32 (2 ^ i))"
      using ok by (metis (no_types, lifting) bits_ok_def map_of_is_SomeI nth_mem prod.collapse)
    moreover have "min 31 k = k" using k ok by (simp add: bits_ok_def)
    moreover have "k = i \<longleftrightarrow> fst (pn_bits p ! k) = fst (pn_bits p ! i)"
      using k i ok by (metis bits_ok_def length_map nth_eq_iff_index_eq nth_map)
    ultimately show ?thesis using i by (auto simp: bit_hot)
  qed
  have "bit bv k \<longleftrightarrow> (\<exists>c io d. (c, io) \<in> set G \<and> (n, d) \<in> set io \<and> bit (the (map_of (pn_bits p) c)) k)"
    unfolding placedD(5) [OF P assms(2), of k] using nc by (fastforce simp: occs_def occ_def)
  also have "\<dots> \<longleftrightarrow> (\<exists>c io. (c, io) \<in> set G \<and> n \<in> fst ` set io \<and> c = fst (pn_bits p ! k))"
    using bit_of by force
  finally show "bit bv k \<longleftrightarrow> (\<exists>io. (fst (pn_bits p ! k), io) \<in> set G \<and> n \<in> fst ` set io)" by auto
qed

end
