(* ===== verification/TensorPlaces.thy ===== *)
theory TensorPlaces
  imports TensorPlan
begin

text \<open>
  Where the planned tensors end up within the buffers: the layout of the groups one after the
  other gives every tensor an interval of its own, and the tensors of a graph, the cache inputs
  in front of their outputs included, do not overlap.
\<close>

section \<open>The layout of the groups\<close>

text \<open>The offset of a name in a group is what the names before it take.\<close>

definition offset_in :: "(string \<times> nat) list \<Rightarrow> string \<Rightarrow> nat" where
  "offset_in m n = sum_list (map snd (takeWhile (\<lambda>(k, _). k \<noteq> n) m))"

definition group_bytes :: "(string \<times> nat) list \<Rightarrow> nat" where
  "group_bytes m = sum_list (map snd m)"

lemma offset_in_simps [simp]: "offset_in ((k, s) # m) n = (if k = n then 0 else s + offset_in m n)"
  by (simp add: offset_in_def)

lemma group_bytes_simps [simp]: "group_bytes [] = 0" "group_bytes ((k, s) # m) = s + group_bytes m"
  by (simp_all add: group_bytes_def)

lemma lay_group_spec:
  assumes "distinct (map fst m)"
  shows "lay_group idx m used offs
    = ((\<lambda>n. if n \<in> fst ` set m then Some (idx, used + offset_in m n) else offs n), used + group_bytes m)"
  using assms
proof (induction idx m used offs rule: lay_group.induct)
  case (2 idx n s es used offs)
  have d: "distinct (map fst es)" using 2(2) by simp
  have "lay_group idx ((n, s) # es) used offs
    = ((\<lambda>k. if k \<in> fst ` set es then Some (idx, used + s + offset_in es k) else (offs(n \<mapsto> (idx, used))) k),
       used + s + group_bytes es)" unfolding lay_group.simps by (rule 2(1) [OF d])
  also have "(\<lambda>k. if k \<in> fst ` set es then Some (idx, used + s + offset_in es k) else (offs(n \<mapsto> (idx, used))) k)
    = (\<lambda>k. if k \<in> fst ` set ((n, s) # es) then Some (idx, used + offset_in ((n, s) # es) k) else offs k)"
    using 2(2) by (intro ext) auto
  finally show ?case by (simp add: add.assoc)
qed simp

lemma offset_fits: "(n, s) \<in> set m \<Longrightarrow> distinct (map fst m) \<Longrightarrow> offset_in m n + s \<le> group_bytes m"
  by (induction m) force+

lemma offset_apart:
  assumes "(n1, s1) \<in> set m" "(n2, s2) \<in> set m" "n1 \<noteq> n2" "distinct (map fst m)"
  shows "offset_in m n1 + s1 \<le> offset_in m n2 \<or> offset_in m n2 + s2 \<le> offset_in m n1"
  using assms by (induction m) force+

primrec lay_all :: "nat \<Rightarrow> (int \<times> (string \<times> nat) list) list \<Rightarrow> places \<Rightarrow> places" where
  "lay_all idx [] offs = offs"
| "lay_all idx (g # gs) offs = lay_all (Suc idx) gs (fst (lay_group idx (snd g) 0 offs))"

lemma lay_all_other:
  "\<forall>g \<in> set gs. distinct (map fst (snd g)) \<and> n \<notin> fst ` set (snd g) \<Longrightarrow> lay_all idx gs offs n = offs n"
  by (induction gs arbitrary: idx offs) (simp_all add: lay_group_spec)

lemma lay_all_at:
  assumes "j < length gs" "n \<in> fst ` set (snd (gs ! j))" "\<forall>g \<in> set gs. distinct (map fst (snd g))"
    and "\<And>i. i < length gs \<Longrightarrow> n \<in> fst ` set (snd (gs ! i)) \<Longrightarrow> i = j"
  shows "lay_all idx gs offs n = Some (idx + j, offset_in (snd (gs ! j)) n)"
  using assms
proof (induction gs arbitrary: idx offs j)
  case (Cons g gs)
  show ?case
  proof (cases j)
    case 0
    have "n \<notin> fst ` set (snd h)" if h: "h \<in> set gs" for h
    proof
      assume "n \<in> fst ` set (snd h)"
      moreover obtain i where "i < length gs" "gs ! i = h" using h unfolding in_set_conv_nth by blast
      ultimately show False using Cons.prems(4) [of "Suc i"] 0 by simp
    qed
    then show ?thesis using Cons.prems 0 by (simp add: lay_all_other lay_group_spec)
  next
    case (Suc k)
    have "i = k" if "i < length gs" "n \<in> fst ` set (snd (gs ! i))" for i
      using Cons.prems(4) [of "Suc i"] that Suc by simp
    moreover have "k < length gs" "n \<in> fst ` set (snd (gs ! k))" "\<forall>g \<in> set gs. distinct (map fst (snd g))"
      using Cons.prems(1-3) Suc by simp_all
    ultimately have "lay_all (Suc idx) gs os n = Some (Suc idx + k, offset_in (snd (gs ! k)) n)" for os
      using Cons.IH by blast
    then show ?thesis by (simp add: Suc)
  qed
qed simp

text \<open>The place of a planned tensor, and the bytes of its group.\<close>

definition plan_places :: "plan \<Rightarrow> places" where
  "plan_places p = lay_all 0 (pn_groups p) Map.empty"

definition plan_bytes :: "plan \<Rightarrow> nat \<Rightarrow> nat" where
  "plan_bytes p j = group_bytes (snd (pn_groups p ! j))"

lemma planned_groups:
  assumes "planned G p"
  shows "distinct (map fst (pn_groups p))" "\<And>g. g \<in> set (pn_groups p) \<Longrightarrow> distinct (map fst (snd g))"
    and "\<And>bv n. in_group p bv n = map_of (group_at p bv) n"
    and "\<And>j. j < length (pn_groups p) \<Longrightarrow> group_at p (fst (pn_groups p ! j)) = snd (pn_groups p ! j)"
proof -
  have o: "ordered (pn_groups p)" "\<And>bv m. map_of (pn_groups p) bv = Some m \<Longrightarrow> ordered m"
    using assms by (auto simp: planned_def placed_def)
  show d: "distinct (map fst (pn_groups p))" using o(1) by (rule ordered_distinct)
  show at: "group_at p (fst (pn_groups p ! j)) = snd (pn_groups p ! j)" if "j < length (pn_groups p)" for j
    using d that by (metis group_at_def map_of_is_SomeI nth_mem option.simps(5) prod.collapse)
  show "distinct (map fst (snd g))" if "g \<in> set (pn_groups p)" for g
    using d that o(2) by (metis map_of_is_SomeI ordered_distinct prod.collapse)
qed (simp add: in_group_def)

lemma place_at:
  assumes "planned G p" "in_group p bv n = Some s"
  shows "\<exists>j < length (pn_groups p). (n, s) \<in> set (snd (pn_groups p ! j))
    \<and> plan_places p n = Some (j, offset_in (snd (pn_groups p ! j)) n)"
proof -
  note g = planned_groups [OF assms(1)]
  have P: "placed (occs (pn_bits p) G) p" using assms(1) by (simp add: planned_def)
  have "bv \<in> fst ` set (pn_groups p)"
    using assms(2) by (auto simp: in_group_def group_at_def map_of_eq_None_iff split: option.splits dest: map_of_SomeD)
       (force dest: map_of_SomeD)?
  then obtain j where j: "j < length (pn_groups p)" "bv = fst (pn_groups p ! j)" by (auto simp: in_set_conv_nth)
  then have m: "map_of (snd (pn_groups p ! j)) n = Some s" using assms(2) g(4) by (simp add: in_group_def)
  have "i = j" if "i < length (pn_groups p)" "n \<in> fst ` set (snd (pn_groups p ! i))" for i
  proof -
    have "in_group p (fst (pn_groups p ! i)) n \<noteq> None"
      using that g(4) by (simp add: in_group_def map_of_eq_None_iff)
    then have "fst (pn_groups p ! i) = bv" using placedD(2) [OF P, of _ n] assms(2) by (metis option.discI option.inject)
    then show ?thesis using g(1) that(1) j by (metis length_map nth_eq_iff_index_eq nth_map)
  qed
  from lay_all_at [OF j(1) _ _ this, where idx = 0 and offs = Map.empty]
  have "plan_places p n = Some (j, offset_in (snd (pn_groups p ! j)) n)"
    using m g(2) by (auto simp: plan_places_def dest: map_of_SomeD) (metis fst_conv image_eqI map_of_SomeD)?
  then show ?thesis using j(1) m by (auto dest: map_of_SomeD)
qed

section \<open>The tensors of a graph\<close>

lemma in_set_drop_nth: "k \<le> i \<Longrightarrow> i < length xs \<Longrightarrow> xs ! i \<in> set (drop k xs)"
  by (auto simp: set_conv_nth intro: exI [of _ "i - k"])

lemma kv_in_is_cache_in:
  assumes "is_cache n"
  shows "is_cache_in (kv_in_name n)"
proof -
  define pre where "pre = rev (drop 1 (dropWhile (\<lambda>c. c \<noteq> CHR ''_'') (rev n)))"
  have kv: "kv_in_name n = pre @ ''_in''" by (simp only: kv_in_name_def pre_def)
  have five: "take 5 n = ''past_''" using assms by (simp add: is_cache_def)
  then have "CHR ''_'' \<in> set n" by (metis in_set_takeD list.set_intros)
  then obtain suf where n: "n = pre @ CHR ''_'' # suf" "CHR ''_'' \<notin> set suf"
  proof -
    define r where "r = dropWhile (\<lambda>c. c \<noteq> CHR ''_'') (rev n)"
    have "r \<noteq> []" using \<open>CHR ''_'' \<in> set n\<close> by (auto simp: r_def dropWhile_eq_Nil_conv)
    then have "r = CHR ''_'' # rev pre" using hd_dropWhile [of "\<lambda>c. c \<noteq> CHR ''_''" "rev n"]
      by (cases r) (simp_all add: pre_def r_def [symmetric])
    moreover have "rev n = takeWhile (\<lambda>c. c \<noteq> CHR ''_'') (rev n) @ r" by (simp add: r_def)
    ultimately have "n = pre @ CHR ''_'' # rev (takeWhile (\<lambda>c. c \<noteq> CHR ''_'') (rev n))"
      by (metis append.assoc append_Cons append_Nil rev.simps(2) rev_append rev_rev_ident)
    moreover have "CHR ''_'' \<notin> set (rev (takeWhile (\<lambda>c. c \<noteq> CHR ''_'') (rev n)))"
      by (auto dest: set_takeWhileD)
    ultimately show ?thesis using that by blast
  qed
  have "\<not> length pre < 4"
  proof
    assume l: "length pre < 4"
    obtain rest where n5: "n = ''past_'' @ rest" using five by (metis append_take_drop_id)
    have "n ! 4 = CHR ''_''" "4 < length n" by (simp_all add: n5)
    then have "CHR ''_'' \<in> set (drop (Suc (length pre)) n)"
      using in_set_drop_nth [of "Suc (length pre)" 4 n] l by simp
    with n show False by simp
  qed
  then have "take 5 (kv_in_name n) = ''past_''"
  proof (cases "length pre = 4")
    case True
    then have "take 4 n = pre" by (simp add: n(1))
    moreover have "take 4 n = take 4 (take 5 n)" by (simp add: min_def)
    ultimately have "pre = ''past''" unfolding five by simp
    then show ?thesis by (simp add: kv)
  next
    case False
    with \<open>\<not> length pre < 4\<close> have "5 \<le> length pre" by simp
    moreover have "take 5 pre = ''past_''" using five \<open>5 \<le> length pre\<close> by (simp add: n(1))
    ultimately show ?thesis by (simp add: kv)
  qed
  moreover have "drop (length (kv_in_name n) - 3) (kv_in_name n) = ''_in''" "3 \<le> length (kv_in_name n)"
    by (simp_all add: kv)
  ultimately show ?thesis by (simp add: is_cache_in_def is_cache_def)
qed

lemma graph_io_ordered:
  assumes "graph_io gi = Inr (Some io)"
  shows "ordered io"
proof -
  have "\<forall>m. Some io = Some m \<longrightarrow> ordered m"
    by (rule rfor_inv [OF assms [unfolded graph_io_def], where P = "\<lambda>o1. \<forall>m. o1 = Some m \<longrightarrow> ordered m"])
      (auto simp: note_tensor_def split: option.splits)
  then show ?thesis by simp
qed

text \<open>What \<open>registerTensorsWithBackend\<close> asks for is the place of a planned tensor or of its cache input.\<close>

definition owned :: "io_map \<Rightarrow> places \<Rightarrow> string \<Rightarrow> string \<Rightarrow> dims \<Rightarrow> nat \<times> nat \<times> nat \<Rightarrow> bool" where
  "owned io offs m n d a \<longleftrightarrow> (n, d) \<in> set io \<and> \<not> is_cache_in n \<and> (\<exists>i off. offs n = Some (i, off)
     \<and> (m = n \<and> a = (i, off + kv_room io n, getAlignedSize d)
        \<or> kv_in_of io n \<noteq> None \<and> m = kv_in_name n \<and> a = (i, off, kv_room io n)))"

lemma graph_allocs_owned:
  assumes "graph_allocs io offs = Inr al" "al m = Some a"
  shows "\<exists>n d. owned io offs m n d a"
proof -
  have step: "\<forall>m a. al2 m = Some a \<longrightarrow> (\<exists>n d. owned io offs m n d a)"
    if e: "e \<in> set io" and al: "\<forall>m a. al1 m = Some a \<longrightarrow> (\<exists>n d. owned io offs m n d a)"
      and s: "alloc_tensor io offs e al1 = Inr al2" for e al1 al2
  proof -
    obtain n d where nd: "e = (n, d)" by force
    show ?thesis
    proof (cases "is_cache_in n")
      case True
      with s al show ?thesis by (simp add: alloc_tensor_def nd)
    next
      case False
      then obtain i off where o: "offs n = Some (i, off)"
        using s by (auto simp: alloc_tensor_def nd split: option.splits)
      have own: "owned io offs n n d (i, off + kv_room io n, getAlignedSize d)"
        using e False o by (simp add: owned_def nd)
      have inp: "owned io offs (kv_in_name n) n d (i, off, kv_room io n)" if "kv_in_of io n \<noteq> None"
        using e False o that by (simp add: owned_def nd)
      show ?thesis using s False o al own inp
        by (cases "kv_in_of io n") (auto simp: alloc_tensor_def nd Let_def split: if_splits; blast)+
    qed
  qed
  have "\<forall>m a. al m = Some a \<longrightarrow> (\<exists>n d. owned io offs m n d a)"
  proof (rule rfor_inv [OF assms(1) [unfolded graph_allocs_def], where P = "\<lambda>al. \<forall>m a. al m = Some a \<longrightarrow> (\<exists>n d. owned io offs m n d a)"])
    show "\<forall>m a. Map.empty m = Some a \<longrightarrow> (\<exists>n d. owned io offs m n d a)" by simp
  qed (rule step)
  with assms(2) show ?thesis by blast
qed

lemma graph_allocs_all:
  assumes "graph_allocs io offs = Inr al" "(n, d) \<in> set io" "\<not> is_cache_in n"
  shows "al n \<noteq> None" "kv_in_of io n \<noteq> None \<Longrightarrow> al (kv_in_name n) \<noteq> None"
proof -
  have keep: "al2 m \<noteq> None" if "rfor (alloc_tensor io offs) es al1 = Inr al2" "al1 m \<noteq> None" for es al1 al2 m
    using that(1)
    by (rule rfor_inv [where P = "\<lambda>al. al m \<noteq> None"])
      (use that(2) in \<open>auto simp: alloc_tensor_def Let_def split: if_splits option.splits prod.splits\<close>)
  obtain es1 es2 where io: "io = es1 @ (n, d) # es2" using assms(2) by (meson split_list)
  obtain al1 al2 where "alloc_tensor io offs (n, d) al1 = Inr al2" and r: "rfor (alloc_tensor io offs) es2 al2 = Inr al"
    using assms(1) unfolding graph_allocs_def
    by (subst (asm) (2) io) (auto simp: rfor_append)
  then have "al2 n \<noteq> None" "kv_in_of io n \<noteq> None \<Longrightarrow> al2 (kv_in_name n) \<noteq> None"
    using assms(3) by (auto simp: alloc_tensor_def Let_def split: option.splits if_splits)
  then show "al n \<noteq> None" "kv_in_of io n \<noteq> None \<Longrightarrow> al (kv_in_name n) \<noteq> None" using keep [OF r] by blast+
qed

text \<open>The tensors a graph is given do not overlap, and each lies within its buffer.\<close>

lemma owned_interval:
  assumes "planned G p" "(c, io) \<in> set G" "owned io (plan_places p) m n d (i, off, s)"
  shows "\<exists>z. i < length (pn_groups p) \<and> (n, z) \<in> set (snd (pn_groups p ! i)) \<and> planned_size io n d \<le> z
    \<and> offset_in (snd (pn_groups p ! i)) n \<le> off \<and> off + s \<le> offset_in (snd (pn_groups p ! i)) n + z
    \<and> plan_places p n = Some (i, offset_in (snd (pn_groups p ! i)) n)"
proof -
  have n: "(n, d) \<in> set io" "\<not> is_cache_in n" using assms(3) by (auto simp: owned_def)
  obtain bv z where z: "in_group p bv n = Some z" "planned_size io n d \<le> z"
    using planned_group(2) [OF assms(1,2) n] by blast
  obtain j where j: "j < length (pn_groups p)" "(n, z) \<in> set (snd (pn_groups p ! j))"
    "plan_places p n = Some (j, offset_in (snd (pn_groups p ! j)) n)" using place_at [OF assms(1) z(1)] by blast
  then have "i = j" using assms(3) by (auto simp: owned_def)
  then show ?thesis using assms(3) j z(2) by (auto simp: owned_def planned_size_def)
qed

lemma owned_apart:
  assumes "planned G p" "(c, io) \<in> set G" "ordered io" "m1 \<noteq> m2"
    and "owned io (plan_places p) m1 n1 d1 (i, off1, s1)" "owned io (plan_places p) m2 n2 d2 (i, off2, s2)"
  shows "off1 + s1 \<le> off2 \<or> off2 + s2 \<le> off1"
proof (cases "n1 = n2")
  case True
  then have "d1 = d2" using assms(3,5,6) by (metis eq_key_imp_eq_value ordered_distinct owned_def)
  with True show ?thesis using assms(4-6) by (auto simp: owned_def)
next
  case False
  let ?g = "snd (pn_groups p ! i)"
  obtain z1 z2 where z: "(n1, z1) \<in> set ?g" "(n2, z2) \<in> set ?g" "i < length (pn_groups p)"
    "offset_in ?g n1 \<le> off1" "off1 + s1 \<le> offset_in ?g n1 + z1"
    "offset_in ?g n2 \<le> off2" "off2 + s2 \<le> offset_in ?g n2 + z2"
    using owned_interval [OF assms(1,2,5)] owned_interval [OF assms(1,2,6)] by blast
  have "distinct (map fst ?g)" using planned_groups(2) [OF assms(1)] z(3) by simp
  from offset_apart [OF z(1,2) False this] z show ?thesis by linarith
qed

lemma owned_within:
  assumes "planned G p" "(c, io) \<in> set G" "owned io (plan_places p) m n d (i, off, s)"
  shows "i < length (pn_groups p)" "off + s \<le> plan_bytes p i"
proof -
  obtain z where z: "i < length (pn_groups p)" "(n, z) \<in> set (snd (pn_groups p ! i))"
    "off + s \<le> offset_in (snd (pn_groups p ! i)) n + z" using owned_interval [OF assms] by blast
  then show "i < length (pn_groups p)" by simp
  have "distinct (map fst (snd (pn_groups p ! i)))" using planned_groups(2) [OF assms(1)] z(1) by simp
  from offset_fits [OF z(2) this] z(3) show "off + s \<le> plan_bytes p i" by (simp add: plan_bytes_def)
qed

end
