(* ===== verification/BinaryInfo.thy ===== *)
theory BinaryInfo
  imports Graphs
begin

text \<open>
  What the code takes out of a context binary (\<open>qnn-api/src/QnnApiUtils.cpp\<close>). The system library
  describes a binary by a \<open>QnnSystemContext_BinaryInfo_t\<close>, whose graphs come in versions; their
  names and tensors are copied into \<open>GraphInfo_t\<close> structs that the loader reads afterwards. A
  description the copy does not know is reported; a graph of a version it does not know is not,
  and leaves the struct just allocated as it is, so that reading it later is undefined.
  Memory for the copies is taken to suffice, and a tensor is taken to have a name.
\<close>

section \<open>The description\<close>

text \<open>The fields the three versions of \<open>QnnSystemContext_GraphInfo_t\<close> share; a null pointer is \<open>None\<close>.\<close>

record graph_meta =
  gm_version :: nat
  gm_name :: "string option"
  gm_inputs :: "qnn_tensor list option"
  gm_outputs :: "qnn_tensor list option"

record binary_meta =
  bm_version :: nat
  bm_graphs :: "graph_meta list option"

section \<open>The copy\<close>

record graph_copy =
  gc_name :: "string option"
  gc_inputs :: "qnn_tensor list"
  gc_outputs :: "qnn_tensor list"

text \<open>A copy starts from \<open>QNN_TENSOR_INIT\<close>, and the flags of dynamic dimensions are not copied.\<close>

definition copyTensorsInfo :: "qnn_tensor list \<Rightarrow> qnn_tensor list" where
  "copyTensorsInfo ts = map (\<lambda>t. t\<lparr> qt_dynamic := None \<rparr>) ts"

definition copyGraphsInfoV1 :: "graph_meta \<Rightarrow> graph_copy" where
  "copyGraphsInfoV1 m =
     \<lparr> gc_name = gm_name m,
       gc_inputs = (case gm_inputs m of None \<Rightarrow> [] | Some ts \<Rightarrow> copyTensorsInfo ts),
       gc_outputs = (case gm_outputs m of None \<Rightarrow> [] | Some ts \<Rightarrow> copyTensorsInfo ts) \<rparr>"

definition copyGraphsInfoV3 :: "graph_meta \<Rightarrow> graph_copy" where
  "copyGraphsInfoV3 m =
     \<lparr> gc_name = gm_name m,
       gc_inputs = (case gm_inputs m of None \<Rightarrow> [] | Some ts \<Rightarrow> copyTensorsInfo ts),
       gc_outputs = (case gm_outputs m of None \<Rightarrow> [] | Some ts \<Rightarrow> copyTensorsInfo ts) \<rparr>"

text \<open>\<open>None\<close> is a struct as \<open>malloc\<close> gave it.\<close>

definition copyGraphsInfo :: "graph_meta list \<Rightarrow> graph_copy option list" where
  "copyGraphsInfo ms = map (\<lambda>m.
     if gm_version m = 1 then Some (copyGraphsInfoV1 m)
     else if gm_version m = 3 then Some (copyGraphsInfoV3 m) else None) ms"

text \<open>
  \<open>graphsCount\<close> as the call leaves it, \<open>None\<close> if it never wrote to it, and the structs, \<open>None\<close> when
  the function returns false.
\<close>

definition copyMetadataToGraphsInfo :: "binary_meta option \<Rightarrow> nat option \<times> graph_copy option list option" where
  "copyMetadataToGraphsInfo info = (case info of None \<Rightarrow> (None, None)
     | Some b \<Rightarrow>
         if bm_version b = 1 \<or> bm_version b = 2 \<or> bm_version b = 3
         then (case bm_graphs b of None \<Rightarrow> (Some 0, None) | Some ms \<Rightarrow> (Some (length ms), Some (copyGraphsInfo ms)))
         else (Some 0, None))"

text \<open>
  The loader builds a \<open>std::string\<close> from the name of each struct; a null name and the name of a
  struct that was not written to are undefined, and so is freeing the latter.
\<close>

definition read_struct :: "graph_copy option \<Rightarrow> graph_info res" where
  "read_struct oc = (case oc of None \<Rightarrow> Inl UndefinedBehaviour
     | Some g \<Rightarrow> (case gc_name g of None \<Rightarrow> Inl UndefinedBehaviour
         | Some n \<Rightarrow> Inr \<lparr> gi_name = n, gi_inputs = gc_inputs g, gi_outputs = gc_outputs g \<rparr>))"

definition freeGraphsInfo :: "graph_copy option list \<Rightarrow> unit res" where
  "freeGraphsInfo cs = (if None \<in> set cs then Inl UndefinedBehaviour else Inr ())"

section \<open>Descriptions the copy knows\<close>

definition known_graph :: "graph_meta \<Rightarrow> bool" where
  "known_graph m \<longleftrightarrow> (gm_version m = 1 \<or> gm_version m = 3) \<and> gm_name m \<noteq> None"

text \<open>The tensors of a graph, as the description has them.\<close>

definition meta_tensors :: "graph_meta \<Rightarrow> qnn_tensor list" where
  "meta_tensors m = (case gm_inputs m of None \<Rightarrow> [] | Some ts \<Rightarrow> ts) @ (case gm_outputs m of None \<Rightarrow> [] | Some ts \<Rightarrow> ts)"

lemma copyTensorsInfo_simps [simp]: "copyTensorsInfo [] = []" "copyTensorsInfo (ts @ us) = copyTensorsInfo ts @ copyTensorsInfo us"
  "map qt_dims (copyTensorsInfo ts) = map qt_dims ts" "map qt_name (copyTensorsInfo ts) = map qt_name ts"
  by (simp_all add: copyTensorsInfo_def)

lemma known_struct:
  assumes "known_graph m"
  shows "\<exists>g gi. copyGraphsInfo [m] = [Some g] \<and> read_struct (Some g) = Inr gi \<and> gm_name m = Some (gi_name gi)
    \<and> gi_inputs gi @ gi_outputs gi = copyTensorsInfo (meta_tensors m)"
  using assms
  by (auto simp: known_graph_def copyGraphsInfo_def copyGraphsInfoV1_def copyGraphsInfoV3_def read_struct_def meta_tensors_def
      split: option.splits)

text \<open>The graphs of a known description are all copied, with their names and their tensors.\<close>

lemma known_structs:
  assumes "\<forall>m \<in> set ms. known_graph m"
  shows "None \<notin> set (copyGraphsInfo ms) \<and> (\<exists>gis. rmap read_struct (copyGraphsInfo ms) = Inr gis
    \<and> list_all2 (\<lambda>m gi. gm_name m = Some (gi_name gi) \<and> gi_inputs gi @ gi_outputs gi = copyTensorsInfo (meta_tensors m)) ms gis)"
  using assms
proof (induction ms)
  case (Cons m ms)
  obtain g gi where g: "copyGraphsInfo [m] = [Some g]" "read_struct (Some g) = Inr gi" "gm_name m = Some (gi_name gi)"
    "gi_inputs gi @ gi_outputs gi = copyTensorsInfo (meta_tensors m)"
    using known_struct [of m] Cons.prems by auto
  then have c: "copyGraphsInfo (m # ms) = Some g # copyGraphsInfo ms" by (simp add: copyGraphsInfo_def)
  obtain gis where gis: "None \<notin> set (copyGraphsInfo ms)" "rmap read_struct (copyGraphsInfo ms) = Inr gis"
    "list_all2 (\<lambda>m gi. gm_name m = Some (gi_name gi) \<and> gi_inputs gi @ gi_outputs gi = copyTensorsInfo (meta_tensors m)) ms gis"
    using Cons.IH Cons.prems by auto
  have "rmap read_struct (copyGraphsInfo (m # ms)) = Inr (gi # gis)" using g(2) gis(2) by (simp add: c)
  then show ?case using gis(1,3) g(3,4) by (auto simp: c)
qed (simp add: copyGraphsInfo_def)

end
