(* ===== verification/FusedBuffers.thy ===== *)
theory FusedBuffers
  imports TensorPlaces BinaryInfo
begin

text \<open>
  The shared memory behind the tensors (\<open>qnn-api/src/RpcMem.cpp\<close>), its use by
  \<open>IOTensor::mapFusedBufferOffset\<close>, and the load of the context binaries that drives it
  (\<open>QnnApi::createFromBinaryHtp\<close>). Addresses are \<open>nat\<close>; the allocator, its file descriptors and
  the registration of memory handles are functions of the device, given the number of the call.
  Backend extensions, the configuration lists handed to the backend, spill-fill buffers and
  profiling are left out.
\<close>

section \<open>State\<close>

text \<open>A tensor is a graph, whether it is an input, and its position; contexts and handles are \<open>nat\<close>.\<close>

type_synonym tref = "nat \<times> bool \<times> nat"

record rpc_device =
  dev_present :: bool
  dev_alloc :: "nat \<Rightarrow> int \<Rightarrow> nat option"
  dev_to_fd :: "nat \<Rightarrow> int"
  dev_register :: "nat \<Rightarrow> nat \<times> int \<times> nat \<times> nat \<Rightarrow> nat option"
  dev_deregister :: "nat \<Rightarrow> nat \<Rightarrow> bool"

record RpcMemTensorData =
  rd_fd :: int
  rd_ptr :: nat
  rd_size :: nat
  rd_total :: nat
  rd_offset :: nat

text \<open>\<open>rp_handle\<close> are the memory handles held by the tensors; \<open>rp_calls\<close> counts the device calls.\<close>

record rpc =
  rp_align :: u32
  rp_fused :: "(nat \<times> nat) list"
  rp_fds :: "int list"
  rp_data :: "nat \<Rightarrow> RpcMemTensorData option"
  rp_config :: "int \<times> nat \<times> nat \<Rightarrow> tref option"
  rp_handle :: "tref \<Rightarrow> nat option"
  rp_calls :: nat

definition mkRpcMem :: "u32 \<Rightarrow> rpc" where
  "mkRpcMem a = \<lparr> rp_align = a, rp_fused = [], rp_fds = [], rp_data = Map.empty, rp_config = Map.empty,
     rp_handle = Map.empty, rp_calls = 0 \<rparr>"

section \<open>Buffers\<close>

definition align :: "nat \<Rightarrow> u32 \<Rightarrow> nat" where
  "align sz a = (if a = 0 then sz
     else unat (and (word_of_nat sz + ucast a - 1) (not (ucast a - 1)) :: 64 word))"

text \<open>The allocator takes the size as an \<open>int\<close>. The result is the pointer and the descriptor.\<close>

definition allocateTensorFusedBuffer :: "rpc_device \<Rightarrow> nat \<Rightarrow> rpc \<Rightarrow> nat option \<times> int \<times> rpc" where
  "allocateTensorFusedBuffer dev sz r =
     (let r1 = r\<lparr> rp_calls := rp_calls r + 1 \<rparr> in
      case dev_alloc dev (rp_calls r) (to_i32 (int (align sz (rp_align r)))) of
        None \<Rightarrow> (None, -1, r1)
      | Some ptr \<Rightarrow>
          let r2 = r1\<lparr> rp_fused := rp_fused r1 @ [(ptr, sz)] \<rparr>; fd = dev_to_fd dev ptr
          in (if fd = -1 then None else Some ptr, fd, r2))"

fun allocateBuffers :: "rpc_device \<Rightarrow> nat \<Rightarrow> (int \<times> (string \<times> nat) list) list \<Rightarrow> places \<Rightarrow> rpc
    \<Rightarrow> bool \<times> places \<times> rpc" where
  "allocateBuffers dev idx [] offs r = (True, offs, r)"
| "allocateBuffers dev idx (g # gs) offs r =
     (let (offs, chunk) = lay_group idx (snd g) 0 offs in
      if chunk = 0 then (False, offs, r)
      else let (ptr, fd, r) = allocateTensorFusedBuffer dev chunk r;
               r = r\<lparr> rp_fds := rp_fds r @ [fd] \<rparr>
           in if ptr = None then (False, offs, r) else allocateBuffers dev (Suc idx) gs offs r)"

section \<open>Memory handles\<close>

text \<open>The tail of \<open>RpcMem::mapFusedBufferOffset\<close>; \<open>first\<close> says that the tensor had no handle.\<close>

definition register_handle :: "rpc_device \<Rightarrow> tref \<Rightarrow> nat \<Rightarrow> int \<Rightarrow> nat \<Rightarrow> nat \<Rightarrow> nat \<Rightarrow> nat \<Rightarrow> bool \<Rightarrow> rpc \<Rightarrow> bool \<times> rpc" where
  "register_handle dev t sz fd off tot ptr ctx first r =
     (let r1 = r\<lparr> rp_calls := rp_calls r + 1 \<rparr> in
      case dev_register dev (rp_calls r) (ctx, fd, off, tot) of
        None \<Rightarrow> (False, r1)
      | Some h \<Rightarrow> (True, r1\<lparr>
          rp_data := (rp_data r1)(h \<mapsto> \<lparr> rd_fd = fd, rd_ptr = ptr + off, rd_size = sz, rd_total = tot, rd_offset = off \<rparr>),
          rp_handle := (rp_handle r1)(t \<mapsto> h),
          rp_config := (if first then (rp_config r1)((fd, off, ctx) \<mapsto> t) else rp_config r1) \<rparr>))"

definition map_handle :: "rpc_device \<Rightarrow> tref \<Rightarrow> nat \<Rightarrow> int \<Rightarrow> nat \<Rightarrow> nat \<Rightarrow> nat \<Rightarrow> nat \<Rightarrow> rpc \<Rightarrow> (bool \<times> rpc) res" where
  "map_handle dev t sz fd off tot ptr ctx r =
     (case rp_handle r t of
       Some h \<Rightarrow>
        (case rp_data r h of None \<Rightarrow> Inl OutOfRange
         | Some cur \<Rightarrow>
            if rd_fd cur = fd \<and> rd_offset cur = off then Inr (True, r)
            else
              let sz = (if sz = 0 then rd_size cur else sz);
                  r1 = r\<lparr> rp_data := (rp_data r)(h := None), rp_calls := rp_calls r + 1 \<rparr>
              in if dev_deregister dev (rp_calls r) h
                 then Inr (register_handle dev t sz fd off tot ptr ctx False r1)
                 else Inr (False, r1))
     | None \<Rightarrow>
        (case rp_config r (fd, off, ctx) of
          Some parent \<Rightarrow> Inr (True, r\<lparr> rp_handle := (rp_handle r)(t := rp_handle r parent) \<rparr>)
        | None \<Rightarrow> Inr (register_handle dev t sz fd off tot ptr ctx True r)))"

text \<open>The overload by buffer number; the offset is narrowed to 32 bits.\<close>

definition map_in_buffer :: "rpc_device \<Rightarrow> tref \<Rightarrow> nat \<times> nat \<times> nat \<Rightarrow> nat \<Rightarrow> rpc \<Rightarrow> (bool \<times> rpc) res" where
  "map_in_buffer dev t = (\<lambda>(idx, off, sz) ctx r.
     if idx < length (rp_fds r) \<and> idx < length (rp_fused r)
     then map_handle dev t sz (rp_fds r ! idx) (unat (word_of_nat off :: u32)) (snd (rp_fused r ! idx))
            (fst (rp_fused r ! idx)) ctx r
     else Inl UndefinedBehaviour)"

definition getBuffer :: "rpc \<Rightarrow> tref \<Rightarrow> nat option res" where
  "getBuffer r t = (case rp_handle r t of None \<Rightarrow> Inr None
     | Some h \<Rightarrow> (case rp_data r h of None \<Rightarrow> Inl OutOfRange | Some d \<Rightarrow> Inr (Some (rd_ptr d))))"

section \<open>The tensors of a graph\<close>

definition graph_tensors :: "nat \<Rightarrow> graph_info \<Rightarrow> (tref \<times> qnn_tensor) list" where
  "graph_tensors g gi = map (\<lambda>i. ((g, True, i), gi_inputs gi ! i)) [0..<length (gi_inputs gi)]
     @ map (\<lambda>i. ((g, False, i), gi_outputs gi ! i)) [0..<length (gi_outputs gi)]"

definition map_tensor :: "rpc_device \<Rightarrow> allocs \<Rightarrow> nat \<Rightarrow> tref \<times> qnn_tensor \<Rightarrow> bool \<times> rpc \<Rightarrow> (bool \<times> rpc) res" where
  "map_tensor dev al ctx = (\<lambda>(t, qt) (ret, r).
     case al (qt_name qt) of None \<Rightarrow> Inr (ret, r)
     | Some a \<Rightarrow> rbind (map_in_buffer dev t a ctx r) (\<lambda>(ok, r). Inr (ret \<and> ok, r)))"

definition mapFusedBufferOffset :: "rpc_device \<Rightarrow> nat \<Rightarrow> graph_info \<Rightarrow> nat \<Rightarrow> allocs \<Rightarrow> rpc \<Rightarrow> (bool \<times> rpc) res" where
  "mapFusedBufferOffset dev g gi ctx al r = rfor (map_tensor dev al ctx) (graph_tensors g gi) (True, r)"

section \<open>Loading the context binaries\<close>

text \<open>
  \<open>qb_info\<close> is the system library's description of a binary: \<open>None\<close> when the file could not be
  read or the library refused it, \<open>Some None\<close> when the library returned without setting the
  pointer. \<open>qb_create\<close> and \<open>qb_retrieve\<close> are the backend's calls for a context.
\<close>

record backend =
  qb_info :: "nat \<Rightarrow> binary_meta option option"
  qb_create :: "nat \<Rightarrow> nat option"
  qb_retrieve :: "nat \<Rightarrow> string \<Rightarrow> bool"

record qnn_api =
  qa_graphs :: "(nat \<times> graph_info) list"
  qa_ios :: "io_map list"
  qa_plan :: plan
  qa_places :: places
  qa_contexts :: "nat list"
  qa_rpc :: rpc

text \<open>
  The first loop: all binaries must have as many graphs as the first. \<open>None\<close> is failure. When the
  description is missing the count handed to \<open>freeGraphsInfo\<close> was never written.
\<close>

fun read_binaries :: "backend \<Rightarrow> nat list \<Rightarrow> nat option \<Rightarrow> (nat \<times> graph_info) list
    \<Rightarrow> (nat option \<times> (nat \<times> graph_info) list) option res" where
  "read_binaries qb [] count gs = Inr (Some (count, gs))"
| "read_binaries qb (c # cs) count gs =
     (case qb_info qb c of None \<Rightarrow> Inr None
      | Some info \<Rightarrow>
         (case copyMetadataToGraphsInfo info of
           (None, _) \<Rightarrow> Inl UndefinedBehaviour
         | (Some n, None) \<Rightarrow> Inr None
         | (Some n, Some copies) \<Rightarrow>
             if count \<noteq> None \<and> count \<noteq> Some n then rbind (freeGraphsInfo copies) (\<lambda>_. Inr None)
             else rbind (rmap read_struct copies) (\<lambda>infos. read_binaries qb cs (Some n) (gs @ map (Pair c) infos))))"

definition registerTensorsWithBackend :: "rpc_device \<Rightarrow> nat \<Rightarrow> qnn_api \<Rightarrow> (bool \<times> qnn_api) res" where
  "registerTensorsWithBackend dev g q =
     rbind (graph_allocs (qa_ios q ! g) (qa_places q)) (\<lambda>al.
       if fst (qa_graphs q ! g) < length (qa_contexts q)
       then rbind (mapFusedBufferOffset dev g (snd (qa_graphs q ! g)) (qa_contexts q ! fst (qa_graphs q ! g)) al (qa_rpc q))
              (\<lambda>(ok, r). Inr (ok, q\<lparr> qa_rpc := r \<rparr>))
       else Inl UndefinedBehaviour)"

text \<open>The second loop, for one context; \<open>None\<close> is failure.\<close>

definition register_graph :: "rpc_device \<Rightarrow> backend \<Rightarrow> nat \<Rightarrow> nat \<Rightarrow> qnn_api option \<Rightarrow> qnn_api option res" where
  "register_graph dev qb c g oq = (case oq of None \<Rightarrow> Inr None
     | Some q \<Rightarrow>
         if \<not> qb_retrieve qb c (gi_name (snd (qa_graphs q ! g))) then Inr None
         else rbind (registerTensorsWithBackend dev g q) (\<lambda>(ok, q). Inr (if ok then Some q else None)))"

definition create_context :: "rpc_device \<Rightarrow> backend \<Rightarrow> u32 \<Rightarrow> nat \<Rightarrow> nat \<Rightarrow> qnn_api option \<Rightarrow> qnn_api option res" where
  "create_context dev qb al count c oq = (case oq of None \<Rightarrow> Inr None
     | Some q \<Rightarrow>
        let (ok, q) = (if c \<noteq> 0 then (True, q)
           else if \<not> dev_present dev then (False, q)
           else let (ok, offs, r) = allocateBuffers dev 0 (pn_groups (qa_plan q)) (qa_places q) (mkRpcMem al)
                in (ok, q\<lparr> qa_places := offs, qa_rpc := r \<rparr>))
        in if \<not> ok then Inr None
           else case qb_create qb c of None \<Rightarrow> Inr None
             | Some ctx \<Rightarrow> rfor (register_graph dev qb c) [c * count..<c * count + count]
                 (Some (q\<lparr> qa_contexts := qa_contexts q @ [ctx] \<rparr>)))"

definition createFromBinaryHtp :: "rpc_device \<Rightarrow> backend \<Rightarrow> u32 \<Rightarrow> nat \<Rightarrow> qnn_api option res" where
  "createFromBinaryHtp dev qb al n =
     rbind (read_binaries qb [0..<n] None []) (\<lambda>bs. case bs of None \<Rightarrow> Inr None
      | Some (count, gs) \<Rightarrow>
         rbind (parseIOTensorsAndAccumulate gs) (\<lambda>res. case res of None \<Rightarrow> Inr None
           | Some (ios, p) \<Rightarrow> rfor (create_context dev qb al (case count of None \<Rightarrow> 0 | Some k \<Rightarrow> k)) [0..<n]
               (Some \<lparr> qa_graphs = gs, qa_ios = ios, qa_plan = p, qa_places = Map.empty, qa_contexts = [],
                  qa_rpc = mkRpcMem al \<rparr>)))"

end
