(* ===== verification/FusedFacts.thy ===== *)
theory FusedFacts
  imports FusedBuffers
begin

text \<open>
  What loading the context binaries establishes: every tensor that has a place is mapped to its
  address, no two tensors of a graph overlap, tensors of the same name share their memory, and
  what a graph takes a tensor to have fits into what is reserved.
\<close>

section \<open>Alignment\<close>

lemma align_power_of_two:
  assumes "a = 2 ^ k" "k < 32" "sz + 2 ^ k \<le> 2 ^ 64"
  shows "align sz a = (sz + (2 ^ k - 1)) div 2 ^ k * 2 ^ k"
proof -
  let ?w = "word_of_nat sz + ucast a - 1 :: 64 word"
  have a: "ucast a = (2 ^ k :: 64 word)" unfolding assms(1) by (rule bit_eqI) (use assms(2) in \<open>auto simp: bit_simps\<close>)
  have e: "word_of_nat (2 ^ k - 1) = (2 ^ k - 1 :: 64 word)" by (simp add: of_nat_diff)
  have "?w = word_of_nat (sz + (2 ^ k - 1))" by (simp only: of_nat_add a e add_diff_eq)
  moreover have "sz + (2 ^ k - 1) < 2 ^ 64" using assms(3) by (simp add: less_le_trans)
  ultimately have w: "unat ?w = sz + (2 ^ k - 1)" by (simp add: unat_of_nat)
  have "a \<noteq> 0" using assms(1,2) by simp
  have "and ?w (not (ucast a - 1)) = push_bit k (drop_bit k ?w)"
    unfolding a mask_eq_exp_minus_1 [symmetric] by (rule bit_eqI) (auto simp: bit_simps)
  then have al: "align sz a = unat (push_bit k (drop_bit k ?w))" using \<open>a \<noteq> 0\<close> by (simp only: align_def if_False)
  have "take_bit 64 (sz + (2 ^ k - 1)) = sz + (2 ^ k - 1)"
    using \<open>sz + (2 ^ k - 1) < 2 ^ 64\<close> by (rule take_bit_nat_eq_self)
  then have "unat (push_bit k (drop_bit k ?w)) = take_bit 64 (push_bit k (drop_bit k (sz + (2 ^ k - 1))))"
    by (simp add: unsigned_push_bit_eq unsigned_drop_bit_eq w)
  also have "\<dots> = push_bit k (drop_bit k (sz + (2 ^ k - 1)))"
    using \<open>sz + (2 ^ k - 1) < 2 ^ 64\<close> by (intro take_bit_nat_eq_self) (simp add: push_bit_eq_mult drop_bit_eq_div le_less_trans [OF div_times_less_eq_dividend])
  finally show ?thesis by (simp add: al push_bit_eq_mult drop_bit_eq_div)
qed

section \<open>What the buffer manager keeps\<close>

text \<open>The device gives every registration a handle of its own.\<close>

definition fresh_handles :: "rpc_device \<Rightarrow> bool" where
  "fresh_handles dev \<longleftrightarrow> (\<forall>k1 k2 a1 a2 h. dev_register dev k1 a1 = Some h \<longrightarrow> dev_register dev k2 a2 = Some h \<longrightarrow> k1 = k2)"

definition good :: "rpc_device \<Rightarrow> rpc \<Rightarrow> bool" where
  "good dev r \<longleftrightarrow> length (rp_fds r) = length (rp_fused r)
     \<and> (\<forall>t h. rp_handle r t = Some h \<longrightarrow> rp_data r h \<noteq> None)
     \<and> (\<forall>fd off ctx t. rp_config r (fd, off, ctx) = Some t \<longrightarrow>
          (\<exists>h d. rp_handle r t = Some h \<and> rp_data r h = Some d \<and> rd_fd d = fd \<and> rd_offset d = off))
     \<and> (\<forall>h d. rp_data r h = Some d \<longrightarrow>
          (\<exists>i < length (rp_fused r). rp_fds r ! i = rd_fd d \<and> rd_ptr d = fst (rp_fused r ! i) + rd_offset d)
          \<and> (\<exists>k < rp_calls r. \<exists>a. dev_register dev k a = Some h))"

lemma goodD:
  assumes "good dev r"
  shows "length (rp_fds r) = length (rp_fused r)" "rp_handle r t = Some h \<Longrightarrow> rp_data r h \<noteq> None"
    and "rp_config r (fd, off, ctx) = Some t \<Longrightarrow>
          \<exists>h d. rp_handle r t = Some h \<and> rp_data r h = Some d \<and> rd_fd d = fd \<and> rd_offset d = off"
    and "rp_data r h = Some d \<Longrightarrow>
          \<exists>i < length (rp_fused r). rp_fds r ! i = rd_fd d \<and> rd_ptr d = fst (rp_fused r ! i) + rd_offset d"
    and "rp_data r h = Some d \<Longrightarrow> \<exists>k < rp_calls r. \<exists>a. dev_register dev k a = Some h"
  using assms unfolding good_def by blast+

lemma map_handle_new:
  assumes g: "good dev r" and f: "fresh_handles dev" and d: "distinct (rp_fds r)"
    and i: "i < length (rp_fused r)" and none: "rp_handle r t = None"
    and m: "map_handle dev t sz (rp_fds r ! i) off (snd (rp_fused r ! i)) (fst (rp_fused r ! i)) ctx r = Inr (True, r2)"
  shows "good dev r2" "getBuffer r2 t = Inr (Some (fst (rp_fused r ! i) + off))"
    and "rp_fused r2 = rp_fused r" "rp_fds r2 = rp_fds r"
    and "\<And>u. u \<noteq> t \<Longrightarrow> rp_handle r2 u = rp_handle r u" "\<And>u. u \<noteq> t \<Longrightarrow> getBuffer r2 u = getBuffer r u"
proof -
  let ?fd = "rp_fds r ! i" and ?p = "fst (rp_fused r ! i)" and ?z = "snd (rp_fused r ! i)"
  have len: "length (rp_fds r) = length (rp_fused r)" using g by (simp add: good_def)
  have uniq: "j = i" if "j < length (rp_fused r)" "rp_fds r ! j = ?fd" for j
    using that d i len by (simp add: nth_eq_iff_index_eq)
  have "good dev r2 \<and> getBuffer r2 t = Inr (Some (?p + off)) \<and> rp_fused r2 = rp_fused r \<and> rp_fds r2 = rp_fds r
    \<and> (\<forall>u. u \<noteq> t \<longrightarrow> rp_handle r2 u = rp_handle r u \<and> getBuffer r2 u = getBuffer r u)"
  proof (cases "rp_config r (?fd, off, ctx)")
    case (Some parent)
    obtain h dt where h: "rp_handle r parent = Some h" "rp_data r h = Some dt" "rd_fd dt = ?fd" "rd_offset dt = off"
      using g Some unfolding good_def by blast
    obtain j where "j < length (rp_fused r)" "rp_fds r ! j = rd_fd dt" "rd_ptr dt = fst (rp_fused r ! j) + rd_offset dt"
      using g h(2) unfolding good_def by blast
    with uniq h have ptr: "rd_ptr dt = ?p + off" by auto
    have r2: "r2 = r\<lparr> rp_handle := (rp_handle r)(t := Some h) \<rparr>" using m none Some h by (simp add: map_handle_def)
    have "good dev r2" using g h none unfolding good_def r2 by (auto; metis option.distinct(1))
    moreover have "getBuffer r2 u = getBuffer r u" if "u \<noteq> t" for u
      using that by (auto simp: getBuffer_def r2 split: option.splits)
    ultimately show ?thesis using h ptr by (simp add: getBuffer_def r2)
  next
    case None
    let ?d = "\<lparr> rd_fd = ?fd, rd_ptr = ?p + off, rd_size = sz, rd_total = ?z, rd_offset = off \<rparr>"
    obtain h where h: "dev_register dev (rp_calls r) (ctx, ?fd, off, ?z) = Some h"
      and r2: "r2 = r\<lparr> rp_calls := rp_calls r + 1, rp_data := (rp_data r)(h \<mapsto> ?d), rp_handle := (rp_handle r)(t \<mapsto> h),
          rp_config := (rp_config r)((?fd, off, ctx) \<mapsto> t) \<rparr>"
      using m none None by (auto simp: map_handle_def register_handle_def Let_def split: option.splits)
    have new: "rp_data r h = None"
      using g f h unfolding good_def fresh_handles_def by (metis less_irrefl not_None_eq)
    have oldh: "rp_handle r u \<noteq> Some h" for u using g new unfolding good_def by blast
    have "good dev r2"
      unfolding good_def
    proof (intro conjI allI impI)
      fix u k assume "rp_handle r2 u = Some k"
      then show "rp_data r2 k \<noteq> None" using goodD(2) [OF g, of u k] by (auto simp: r2 split: if_splits)
    next
      fix fd o2 c u assume c: "rp_config r2 (fd, o2, c) = Some u"
      show "\<exists>h d. rp_handle r2 u = Some h \<and> rp_data r2 h = Some d \<and> rd_fd d = fd \<and> rd_offset d = o2"
      proof (cases "u = t")
        case True
        have "rp_config r (fd, o2, c) \<noteq> Some t" using g none unfolding good_def by (metis option.distinct(1))
        then show ?thesis using c True by (auto simp: r2 split: if_splits)
      next
        case False
        then have "rp_config r (fd, o2, c) = Some u" using c by (auto simp: r2 split: if_splits)
        then obtain k dk where "rp_handle r u = Some k" "rp_data r k = Some dk" "rd_fd dk = fd" "rd_offset dk = o2"
          using g unfolding good_def by blast
        then show ?thesis using False oldh [of u] by (auto simp: r2)
      qed
    next
      fix k dk assume k: "rp_data r2 k = Some dk"
      show "\<exists>i < length (rp_fused r2). rp_fds r2 ! i = rd_fd dk \<and> rd_ptr dk = fst (rp_fused r2 ! i) + rd_offset dk"
        using k i goodD(4) [OF g, of k dk] by (auto simp: r2 split: if_splits)
      show "\<exists>j < rp_calls r2. \<exists>a. dev_register dev j a = Some k"
      proof (cases "k = h")
        case True
        then show ?thesis using h by (intro exI [of _ "rp_calls r"]) (auto simp: r2)
      next
        case False
        then obtain j a where "j < rp_calls r" "dev_register dev j a = Some k" using k goodD(5) [OF g, of k dk] by (auto simp: r2)
        moreover from this have "j < rp_calls r2" by (simp add: r2)
        ultimately show ?thesis by blast
      qed
    qed (simp add: r2 len)
    moreover have "getBuffer r2 u = getBuffer r u" if "u \<noteq> t" for u
      using that oldh [of u] by (auto simp: getBuffer_def r2 split: option.splits)
    ultimately show ?thesis by (simp add: getBuffer_def r2)
  qed
  then show "good dev r2" "getBuffer r2 t = Inr (Some (fst (rp_fused r ! i) + off))"
    and "rp_fused r2 = rp_fused r" "rp_fds r2 = rp_fds r"
    and "\<And>u. u \<noteq> t \<Longrightarrow> rp_handle r2 u = rp_handle r u" "\<And>u. u \<noteq> t \<Longrightarrow> getBuffer r2 u = getBuffer r u"
    by blast+
qed

section \<open>The tensors of a graph\<close>

text \<open>The address a tensor should have: that of its buffer, and its offset.\<close>

definition address :: "rpc \<Rightarrow> (nat \<times> nat \<times> nat) option \<Rightarrow> nat option" where
  "address r a = map_option (\<lambda>(i, off, s). fst (rp_fused r ! i) + off) a"

definition in_bounds :: "rpc \<Rightarrow> allocs \<Rightarrow> bool" where
  "in_bounds r al \<longleftrightarrow> (\<forall>m i off s. al m = Some (i, off, s) \<longrightarrow> i < length (rp_fused r) \<and> off < 2 ^ 32)"

lemma in_bounds_cong: "rp_fused r2 = rp_fused r \<Longrightarrow> in_bounds r2 al = in_bounds r al"
  by (simp add: in_bounds_def)

lemma address_cong: "rp_fused r2 = rp_fused r \<Longrightarrow> address r2 a = address r a"
  by (simp add: address_def)

lemma map_tensor_step:
  assumes g: "good dev r" and f: "fresh_handles dev" "distinct (rp_fds r)" and b: "in_bounds r al"
    and none: "rp_handle r t = None" and m: "map_tensor dev al ctx (t, qt) (ret, r) = Inr (True, r2)"
  shows "ret" "good dev r2" "getBuffer r2 t = Inr (address r (al (qt_name qt)))"
    and "rp_fused r2 = rp_fused r" "rp_fds r2 = rp_fds r"
    and "\<And>u. u \<noteq> t \<Longrightarrow> rp_handle r2 u = rp_handle r u" "\<And>u. u \<noteq> t \<Longrightarrow> getBuffer r2 u = getBuffer r u"
proof -
  have "ret \<and> good dev r2 \<and> getBuffer r2 t = Inr (address r (al (qt_name qt)))
    \<and> rp_fused r2 = rp_fused r \<and> rp_fds r2 = rp_fds r
    \<and> (\<forall>u. u \<noteq> t \<longrightarrow> rp_handle r2 u = rp_handle r u \<and> getBuffer r2 u = getBuffer r u)"
  proof (cases "al (qt_name qt)")
    case None
    with m g none show ?thesis by (auto simp: map_tensor_def getBuffer_def address_def)
  next
    case (Some a)
    obtain i off s where a: "a = (i, off, s)" by (cases a)
    have i: "i < length (rp_fused r)" "off < 2 ^ 32" using b Some unfolding in_bounds_def a by blast+
    have off: "unat (word_of_nat off :: u32) = off" using i(2) by (rule unat_of_nat_eq_below)
    have "ret" and h: "map_handle dev t s (rp_fds r ! i) off (snd (rp_fused r ! i)) (fst (rp_fused r ! i)) ctx r = Inr (True, r2)"
      using m i(1) goodD(1) [OF g] off by (auto simp: map_tensor_def Some a map_in_buffer_def)
    note n = map_handle_new [OF g f i(1) none h]
    show ?thesis using n \<open>ret\<close> by (simp add: Some a address_def)
  qed
  then show "ret" "good dev r2" "getBuffer r2 t = Inr (address r (al (qt_name qt)))"
    and "rp_fused r2 = rp_fused r" "rp_fds r2 = rp_fds r"
    and "\<And>u. u \<noteq> t \<Longrightarrow> rp_handle r2 u = rp_handle r u" "\<And>u. u \<noteq> t \<Longrightarrow> getBuffer r2 u = getBuffer r u" by blast+
qed

lemma map_tensor_sticky:
  assumes "rfor (map_tensor dev al ctx) ts (ret, r) = Inr (True, r2)"
  shows "ret"
proof (rule ccontr)
  assume "\<not> ret"
  have "\<not> fst (True, r2)"
  proof (rule rfor_inv [OF assms, where P = "\<lambda>s. \<not> fst s"])
    show "\<not> fst s2" if "\<not> fst s" "map_tensor dev al ctx x s = Inr s2" for x s s2
      using that by (auto simp: map_tensor_def split: prod.splits option.splits)
  qed (simp add: \<open>\<not> ret\<close>)
  then show False by simp
qed

lemma map_tensors:
  assumes "good dev r" "fresh_handles dev" "distinct (rp_fds r)" "in_bounds r al"
    and "distinct (map fst ts)" "\<forall>t \<in> fst ` set ts. rp_handle r t = None"
    and "rfor (map_tensor dev al ctx) ts (ret, r) = Inr (True, r2)"
  shows "good dev r2 \<and> rp_fused r2 = rp_fused r \<and> rp_fds r2 = rp_fds r
    \<and> (\<forall>(t, qt) \<in> set ts. getBuffer r2 t = Inr (address r (al (qt_name qt))))
    \<and> (\<forall>u. u \<notin> fst ` set ts \<longrightarrow> rp_handle r2 u = rp_handle r u \<and> getBuffer r2 u = getBuffer r u)"
  using assms
proof (induction ts arbitrary: ret r)
  case (Cons tq ts)
  obtain t qt where tq: "tq = (t, qt)" by (cases tq)
  obtain ret1 r1 where s: "map_tensor dev al ctx (t, qt) (ret, r) = Inr (ret1, r1)"
    and r: "rfor (map_tensor dev al ctx) ts (ret1, r1) = Inr (True, r2)"
    using Cons.prems(7) by (auto simp: tq)
  have none: "rp_handle r t = None" using Cons.prems(6) by (simp add: tq)
  have "ret1" using map_tensor_sticky [OF r] .
  then have n: "good dev r1" "getBuffer r1 t = Inr (address r (al (qt_name qt)))" "rp_fused r1 = rp_fused r" "rp_fds r1 = rp_fds r"
    "\<And>u. u \<noteq> t \<Longrightarrow> rp_handle r1 u = rp_handle r u" "\<And>u. u \<noteq> t \<Longrightarrow> getBuffer r1 u = getBuffer r u"
    using map_tensor_step [OF Cons.prems(1-4) none, of ctx qt ret r1] s by simp_all
  have d: "t \<notin> fst ` set ts" "distinct (map fst ts)" using Cons.prems(5) by (simp_all add: tq)
  have rest: "\<forall>t \<in> fst ` set ts. rp_handle r1 t = None" 
  proof
    fix u assume u: "u \<in> fst ` set ts"
    then have "u \<noteq> t" using d(1) by (cases "u = t") simp_all
    then show "rp_handle r1 u = None" using n(5) [of u] Cons.prems(6) u by simp
  qed
  have ih: "good dev r2 \<and> rp_fused r2 = rp_fused r1 \<and> rp_fds r2 = rp_fds r1
    \<and> (\<forall>(t, qt) \<in> set ts. getBuffer r2 t = Inr (address r1 (al (qt_name qt))))
    \<and> (\<forall>u. u \<notin> fst ` set ts \<longrightarrow> rp_handle r2 u = rp_handle r1 u \<and> getBuffer r2 u = getBuffer r1 u)"
    by (rule Cons.IH [OF n(1) Cons.prems(2) _ _ d(2) rest r]) (use Cons.prems(3,4) n in \<open>simp_all add: in_bounds_cong [OF n(3)]\<close>)
  then have "getBuffer r2 t = getBuffer r1 t" using d(1) by blast
  then show ?case using ih n(2-6) by (auto simp: tq address_cong [OF n(3)] simp del: split_paired_All)
qed simp

lemma graph_tensors_distinct [simp]: "distinct (map fst (graph_tensors g gi))"
  by (auto simp: graph_tensors_def distinct_map inj_on_def o_def)

lemma graph_tensors_graph: "(t, qt) \<in> set (graph_tensors g gi) \<Longrightarrow> fst t = g \<and> qt \<in> set (gi_inputs gi @ gi_outputs gi)"
  by (auto simp: graph_tensors_def)

section \<open>The buffers of the groups\<close>

text \<open>The allocator gives out separate memory, and a descriptor belongs to one allocation.\<close>

definition sound_allocator :: "rpc_device \<Rightarrow> bool" where
  "sound_allocator dev \<longleftrightarrow>
     (\<forall>k1 k2 s1 s2 p1 p2. k1 \<noteq> k2 \<longrightarrow> dev_alloc dev k1 s1 = Some p1 \<longrightarrow> dev_alloc dev k2 s2 = Some p2 \<longrightarrow>
        p1 + nat s1 \<le> p2 \<or> p2 + nat s2 \<le> p1)
     \<and> (\<forall>p1 p2. dev_to_fd dev p1 = dev_to_fd dev p2 \<longrightarrow> dev_to_fd dev p1 \<noteq> -1 \<longrightarrow> p1 = p2)"

lemma allocateBuffers_spec:
  assumes "allocateBuffers dev idx gs offs r = (True, offs2, r2)" "\<forall>g \<in> set gs. distinct (map fst (snd g))"
  shows "offs2 = lay_all idx gs offs \<and> rp_handle r2 = rp_handle r \<and> rp_data r2 = rp_data r \<and> rp_config r2 = rp_config r
    \<and> (\<exists>bufs. rp_fused r2 = rp_fused r @ bufs \<and> rp_fds r2 = rp_fds r @ map (\<lambda>b. dev_to_fd dev (fst b)) bufs
        \<and> map snd bufs = map (\<lambda>g. group_bytes (snd g)) gs
        \<and> (\<forall>j < length gs. dev_alloc dev (rp_calls r + j) (to_i32 (int (align (snd (bufs ! j)) (rp_align r)))) = Some (fst (bufs ! j))
             \<and> 0 < snd (bufs ! j) \<and> dev_to_fd dev (fst (bufs ! j)) \<noteq> -1))"
  using assms
proof (induction gs arbitrary: idx offs r)
  case (Cons g gs)
  let ?z = "group_bytes (snd g)"
  obtain o1 where lg: "lay_group idx (snd g) 0 offs = (o1, ?z)"
    using Cons.prems(2) by (simp add: lay_group_spec)
  have z: "?z \<noteq> 0" using Cons.prems(1) by (simp add: lg split: if_splits)
  obtain ptr where ptr: "dev_alloc dev (rp_calls r) (to_i32 (int (align ?z (rp_align r)))) = Some ptr" "dev_to_fd dev ptr \<noteq> -1"
    using Cons.prems(1) z by (auto simp: lg allocateTensorFusedBuffer_def Let_def split: option.splits if_splits)
  define r1 where "r1 = r\<lparr> rp_calls := rp_calls r + 1, rp_fused := rp_fused r @ [(ptr, ?z)], rp_fds := rp_fds r @ [dev_to_fd dev ptr] \<rparr>"
  have "allocateBuffers dev (Suc idx) gs o1 r1 = (True, offs2, r2)"
    using Cons.prems(1) z ptr by (simp add: lg allocateTensorFusedBuffer_def r1_def)
  from Cons.IH [OF this] Cons.prems(2) obtain bufs where
    ih: "offs2 = lay_all (Suc idx) gs o1"
      "rp_handle r2 = rp_handle r" "rp_data r2 = rp_data r" "rp_config r2 = rp_config r"
    and b: "rp_fused r2 = rp_fused r1 @ bufs" "rp_fds r2 = rp_fds r1 @ map (\<lambda>b. dev_to_fd dev (fst b)) bufs"
      "map snd bufs = map (\<lambda>g. group_bytes (snd g)) gs"
    and al: "\<And>j. j < length gs \<Longrightarrow> dev_alloc dev (Suc (rp_calls r) + j) (to_i32 (int (align (snd (bufs ! j)) (rp_align r)))) = Some (fst (bufs ! j))
             \<and> 0 < snd (bufs ! j) \<and> dev_to_fd dev (fst (bufs ! j)) \<noteq> -1"
    by (auto simp: r1_def)
  have "\<forall>j < length (g # gs). dev_alloc dev (rp_calls r + j) (to_i32 (int (align (snd (((ptr, ?z) # bufs) ! j)) (rp_align r)))) = Some (fst (((ptr, ?z) # bufs) ! j))
             \<and> 0 < snd (((ptr, ?z) # bufs) ! j) \<and> dev_to_fd dev (fst (((ptr, ?z) # bufs) ! j)) \<noteq> -1"
    using al ptr z by (auto simp: less_Suc_eq_0_disj)
  then show ?case using ih b by (auto simp: lg r1_def intro!: exI [of _ "(ptr, ?z) # bufs"])
qed simp

text \<open>After the allocation nothing is mapped, and the buffers are disjoint and as large as planned.\<close>

definition buffers_of :: "rpc_device \<Rightarrow> plan \<Rightarrow> rpc \<Rightarrow> bool" where
  "buffers_of dev p r \<longleftrightarrow> length (rp_fused r) = length (pn_groups p) \<and> distinct (rp_fds r)
     \<and> (\<forall>i < length (pn_groups p). snd (rp_fused r ! i) = plan_bytes p i)
     \<and> (\<forall>i < length (pn_groups p). \<forall>j < length (pn_groups p). i \<noteq> j \<longrightarrow>
          fst (rp_fused r ! i) + plan_bytes p i \<le> fst (rp_fused r ! j)
          \<or> fst (rp_fused r ! j) + plan_bytes p j \<le> fst (rp_fused r ! i))"

lemma allocated_buffers:
  assumes "planned G p" "allocateBuffers dev 0 (pn_groups p) Map.empty (mkRpcMem 0) = (True, offs, r)"
    and "sound_allocator dev" "\<forall>i < length (pn_groups p). plan_bytes p i < 2 ^ 31"
  shows "offs = plan_places p" "buffers_of dev p r" "good dev r" "\<And>t. rp_handle r t = None"
proof -
  have "\<forall>g \<in> set (pn_groups p). distinct (map fst (snd g))" using planned_groups(2) [OF assms(1)] by blast
  from allocateBuffers_spec [OF assms(2) this] obtain bufs where
    e: "offs = plan_places p" "rp_handle r = Map.empty" "rp_data r = Map.empty" "rp_config r = Map.empty"
    and b: "rp_fused r = bufs" "rp_fds r = map (\<lambda>b. dev_to_fd dev (fst b)) bufs" "map snd bufs = map (\<lambda>g. group_bytes (snd g)) (pn_groups p)"
    and al: "\<And>j. j < length (pn_groups p) \<Longrightarrow> dev_alloc dev j (to_i32 (int (snd (bufs ! j)))) = Some (fst (bufs ! j))
             \<and> 0 < snd (bufs ! j) \<and> dev_to_fd dev (fst (bufs ! j)) \<noteq> -1"
    by (auto simp: mkRpcMem_def plan_places_def align_def)
  show "offs = plan_places p" "\<And>t. rp_handle r t = None" using e by simp_all
  show "good dev r" using e b by (simp add: good_def)
  have len: "length bufs = length (pn_groups p)" using arg_cong [OF b(3), of length] by simp
  have z: "snd (bufs ! i) = plan_bytes p i" if "i < length (pn_groups p)" for i
    using arg_cong [OF b(3), of "\<lambda>xs. xs ! i"] that len by (simp add: plan_bytes_def)
  have req: "to_i32 (int (snd (bufs ! i))) = int (snd (bufs ! i))" if "i < length (pn_groups p)" for i
  proof (rule to_i32_id)
    have "int (plan_bytes p i) < int (2 ^ 31)" using assms(4) that by (simp only: of_nat_less_iff)
    then show "int (snd (bufs ! i)) < 2 ^ 31" using z [OF that] by simp
  qed simp
  have apart: "fst (bufs ! i) + plan_bytes p i \<le> fst (bufs ! j) \<or> fst (bufs ! j) + plan_bytes p j \<le> fst (bufs ! i)"
    if ij: "i < length (pn_groups p)" "j < length (pn_groups p)" "i \<noteq> j" for i j
    using assms(3) [unfolded sound_allocator_def] al [OF ij(1)] al [OF ij(2)] ij(3) req [OF ij(1)] req [OF ij(2)] z [OF ij(1)] z [OF ij(2)]
    by (metis nat_int)
  have "distinct (rp_fds r)"
    unfolding b(2) distinct_conv_nth
  proof (intro allI impI, simp only: length_map nth_map len)
    fix i j assume ij: "i < length (pn_groups p)" "j < length (pn_groups p)" "i \<noteq> j"
    have "fst (bufs ! i) \<noteq> fst (bufs ! j)" using apart [OF ij] al [OF ij(1)] al [OF ij(2)] z [OF ij(1)] z [OF ij(2)] by auto
    then show "dev_to_fd dev (fst (bufs ! i)) \<noteq> dev_to_fd dev (fst (bufs ! j))"
      using assms(3) al [OF ij(1)] unfolding sound_allocator_def by blast
  qed
  then show "buffers_of dev p r" using len z apart b(1) by (simp add: buffers_of_def)
qed

end
