(* ===== verification/FusedLoad.thy ===== *)
theory FusedLoad
  imports FusedFacts
begin

text \<open>
  The load of all context binaries: after it succeeded every tensor of every graph is at the
  address its place stands for, from which the properties of the shared tensor buffers follow.
\<close>

section \<open>The graphs of the binaries\<close>

text \<open>The graphs that are read out of the description of a binary.\<close>

definition binary_graphs :: "backend \<Rightarrow> nat \<Rightarrow> graph_info list option" where
  "binary_graphs qb c = Option.bind (qb_info qb c) (\<lambda>info. Option.bind (snd (copyMetadataToGraphsInfo info)) (\<lambda>copies.
     case rmap read_struct copies of Inl _ \<Rightarrow> None | Inr infos \<Rightarrow> Some infos))"

lemma copied_count: "copyMetadataToGraphsInfo info = (Some n, Some copies) \<Longrightarrow> n = length copies"
  by (auto simp: copyMetadataToGraphsInfo_def copyGraphsInfo_def split: option.splits if_splits)

lemma read_binaries_spec:
  assumes "read_binaries qb cs count gs0 = Inr (Some (count2, gs))"
  shows "\<exists>k. count2 = (if cs = [] then count else Some k) \<and> (\<forall>j. count = Some j \<and> cs \<noteq> [] \<longrightarrow> j = k)
    \<and> (\<forall>c \<in> set cs. \<exists>infos. binary_graphs qb c = Some infos \<and> length infos = k)
    \<and> gs = gs0 @ concat (map (\<lambda>c. map (Pair c) (the (binary_graphs qb c))) cs)"
  using assms
proof (induction cs arbitrary: count gs0)
  case (Cons c cs)
  from Cons.prems obtain info where q: "qb_info qb c = Some info" by (cases "qb_info qb c") auto
  obtain n copies where m: "copyMetadataToGraphsInfo info = (Some n, Some copies)"
    using Cons.prems q by (auto split: prod.splits option.splits)
  have n: "n = length copies" using copied_count [OF m] .
  have ok: "count = None \<or> count = Some n" using Cons.prems q m by (auto split: if_splits)
  then obtain infos where j: "rmap read_struct copies = Inr infos"
    and r: "read_binaries qb cs (Some n) (gs0 @ map (Pair c) infos) = Inr (Some (count2, gs))"
    using Cons.prems q m by auto
  have i: "binary_graphs qb c = Some infos" "n = length infos" using q m j n rmap_length [OF j] by (simp_all add: binary_graphs_def)
  from Cons.IH [OF r] i ok show ?case by (cases cs) auto
qed simp

lemma concat_length: "(\<And>x. x \<in> set xs \<Longrightarrow> length (f x) = k) \<Longrightarrow> length (concat (map f xs)) = length xs * k"
  by (induction xs) auto

lemma read_binaries_count:
  assumes "read_binaries qb [0..<n] None [] = Inr (Some (count, gs))" "0 < n"
  shows "\<exists>k. count = Some k \<and> length gs = n * k"
proof -
  obtain k where k: "count = Some k" "\<forall>c \<in> set [0..<n]. \<exists>infos. binary_graphs qb c = Some infos \<and> length infos = k"
    "gs = concat (map (\<lambda>c. map (Pair c) (the (binary_graphs qb c))) [0..<n])"
    using read_binaries_spec [OF assms(1)] assms(2) by auto
  have "length gs = length [0..<n] * k" unfolding k(3) by (rule concat_length) (use k(2) in fastforce)
  with k(1) show ?thesis by simp
qed

section \<open>One graph after the other\<close>

text \<open>The graphs below \<open>N\<close> are graphs_mapped, the others not yet.\<close>

definition graphs_mapped :: "rpc_device \<Rightarrow> (nat \<times> graph_info) list \<Rightarrow> io_map list \<Rightarrow> plan \<Rightarrow> nat \<Rightarrow> qnn_api \<Rightarrow> bool" where
  "graphs_mapped dev gs ios p N q \<longleftrightarrow> qa_graphs q = gs \<and> qa_ios q = ios \<and> qa_plan q = p \<and> qa_places q = plan_places p
     \<and> buffers_of dev p (qa_rpc q) \<and> good dev (qa_rpc q)
     \<and> (\<forall>g < N. \<exists>al. graph_allocs (ios ! g) (plan_places p) = Inr al
          \<and> (\<forall>(t, qt) \<in> set (graph_tensors g (snd (gs ! g))). getBuffer (qa_rpc q) t = Inr (address (qa_rpc q) (al (qt_name qt)))))
     \<and> (\<forall>t. N \<le> fst t \<longrightarrow> rp_handle (qa_rpc q) t = None)"

lemma planned_in_bounds:
  assumes "planned G p" "(c, io) \<in> set G" "graph_allocs io (plan_places p) = Inr al" "buffers_of dev p r"
    and "\<forall>i < length (pn_groups p). plan_bytes p i < 2 ^ 31"
  shows "in_bounds r al"
  unfolding in_bounds_def
proof (intro allI impI conjI)
  fix m i off s assume "al m = Some (i, off, s)"
  then obtain n d where "owned io (plan_places p) m n d (i, off, s)" using graph_allocs_owned [OF assms(3)] by blast
  from owned_within [OF assms(1,2) this] show "i < length (rp_fused r)" "off < 2 ^ 32"
    using assms(4,5) by (auto simp: buffers_of_def)
qed

lemma register_graph_maps:
  assumes m: "graphs_mapped dev gs ios p N q" and N: "N < length gs" and P: "planned (zip (map fst gs) ios) p" "length ios = length gs"
    and d: "fresh_handles dev" "\<forall>i < length (pn_groups p). plan_bytes p i < 2 ^ 31"
    and r: "register_graph dev qb c N (Some q) = Inr (Some q2)"
  shows "graphs_mapped dev gs ios p (Suc N) q2" "qa_contexts q2 = qa_contexts q"
proof -
  note q = m [unfolded graphs_mapped_def]
  obtain al rpc where al: "graph_allocs (ios ! N) (plan_places p) = Inr al"
    and mf: "mapFusedBufferOffset dev N (snd (gs ! N)) (qa_contexts q ! fst (gs ! N)) al (qa_rpc q) = Inr (True, rpc)"
    and q2: "q2 = q\<lparr> qa_rpc := rpc \<rparr>"
    using r q by (auto simp: register_graph_def registerTensorsWithBackend_def split: if_splits)
  have io: "(fst (gs ! N), ios ! N) \<in> set (zip (map fst gs) ios)" using N P(2) by (force simp: set_zip)
  have b: "in_bounds (qa_rpc q) al" using planned_in_bounds [OF P(1) io al _ d(2)] q by blast
  have ds: "distinct (rp_fds (qa_rpc q))" using q by (simp add: buffers_of_def)
  have none: "\<forall>t \<in> fst ` set (graph_tensors N (snd (gs ! N))). rp_handle (qa_rpc q) t = None"
    using q graph_tensors_graph by fastforce
  have g: "good dev (qa_rpc q)" using q by blast
  have s: "good dev rpc \<and> rp_fused rpc = rp_fused (qa_rpc q) \<and> rp_fds rpc = rp_fds (qa_rpc q)
    \<and> (\<forall>(t, qt) \<in> set (graph_tensors N (snd (gs ! N))). getBuffer rpc t = Inr (address (qa_rpc q) (al (qt_name qt))))
    \<and> (\<forall>u. u \<notin> fst ` set (graph_tensors N (snd (gs ! N))) \<longrightarrow> rp_handle rpc u = rp_handle (qa_rpc q) u \<and> getBuffer rpc u = getBuffer (qa_rpc q) u)"
    by (rule map_tensors [OF g d(1) ds b graph_tensors_distinct none mf [unfolded mapFusedBufferOffset_def]])
  then have f: "rp_fused rpc = rp_fused (qa_rpc q)" by blast
  have other: "u \<notin> fst ` set (graph_tensors N (snd (gs ! N)))" if "fst u \<noteq> N" for u
    using that graph_tensors_graph by fastforce
  have "\<exists>al. graph_allocs (ios ! g) (plan_places p) = Inr al
          \<and> (\<forall>(t, qt) \<in> set (graph_tensors g (snd (gs ! g))). getBuffer rpc t = Inr (address rpc (al (qt_name qt))))"
    if "g < Suc N" for g
  proof (cases "g = N")
    case True
    then show ?thesis using al s by (auto simp: address_cong [OF f])
  next
    case False
    then have "g < N" using that by simp
    then obtain al2 where a: "graph_allocs (ios ! g) (plan_places p) = Inr al2"
      "\<forall>(t, qt) \<in> set (graph_tensors g (snd (gs ! g))). getBuffer (qa_rpc q) t = Inr (address (qa_rpc q) (al2 (qt_name qt)))"
      using q by blast
    have "getBuffer rpc t = getBuffer (qa_rpc q) t" if "(t, qt) \<in> set (graph_tensors g (snd (gs ! g)))" for t qt
      using s other [of t] graph_tensors_graph [OF that] False by blast
    then show ?thesis using a by (fastforce simp: address_cong [OF f])
  qed
  moreover have "rp_handle rpc t = None" if "Suc N \<le> fst t" for t
  proof -
    have "fst t \<noteq> N" "N \<le> fst t" using that by simp_all
    then have "rp_handle rpc t = rp_handle (qa_rpc q) t" using s other [of t] by blast
    also have "\<dots> = None" using q \<open>N \<le> fst t\<close> by blast
    finally show ?thesis .
  qed
  moreover have "buffers_of dev p rpc" using q s by (simp add: buffers_of_def)
  ultimately show "graphs_mapped dev gs ios p (Suc N) q2" using q s by (simp add: graphs_mapped_def q2)
  show "qa_contexts q2 = qa_contexts q" by (simp add: q2)
qed

lemma rfor_none:
  assumes "\<And>x. f x None = Inr None" "rfor f xs s = Inr (Some y)"
  shows "\<exists>z. s = Some z"
proof (cases s)
  case None
  have "rfor f xs None = Inr None" using assms(1) by (induction xs) simp_all
  then show ?thesis using assms(2) None by simp
qed simp

lemma register_graphs_map:
  assumes "graphs_mapped dev gs ios p N q" "N + k \<le> length gs" "planned (zip (map fst gs) ios) p" "length ios = length gs"
    and "fresh_handles dev" "\<forall>i < length (pn_groups p). plan_bytes p i < 2 ^ 31"
    and "rfor (register_graph dev qb c) [N..<N + k] (Some q) = Inr (Some q2)"
  shows "graphs_mapped dev gs ios p (N + k) q2 \<and> qa_contexts q2 = qa_contexts q"
  using assms(1,2,7)
proof (induction k arbitrary: N q)
  case (Suc k)
  have l: "[N..<N + Suc k] = N # [Suc N..<Suc N + k]" by (simp add: upt_conv_Cons)
  obtain oq where o: "register_graph dev qb c N (Some q) = Inr oq" and r: "rfor (register_graph dev qb c) [Suc N..<Suc N + k] oq = Inr (Some q2)"
    using Suc.prems(3) unfolding l by auto
  obtain q1 where q1: "oq = Some q1" using rfor_none [OF _ r] by (auto simp: register_graph_def)
  have N: "N < length gs" using Suc.prems(2) by simp
  note s = register_graph_maps [OF Suc.prems(1) N assms(3-6) o [unfolded q1]]
  have "Suc N + k \<le> length gs" using Suc.prems(2) by simp
  from Suc.IH [OF s(1) this r [unfolded q1]] s(2) show ?case by simp
qed simp

section \<open>One context after the other\<close>

lemma create_contexts_map:
  assumes "rfor (create_context dev qb 0 k) [c..<c + j] (Some q) = Inr (Some q2)" "0 < c"
    and "graphs_mapped dev gs ios p (c * k) q" "(c + j) * k \<le> length gs" "planned (zip (map fst gs) ios) p" "length ios = length gs"
    and "fresh_handles dev" "\<forall>i < length (pn_groups p). plan_bytes p i < 2 ^ 31"
  shows "graphs_mapped dev gs ios p ((c + j) * k) q2"
  using assms(1-4)
proof (induction j arbitrary: c q)
  case (Suc j)
  have l: "[c..<c + Suc j] = c # [Suc c..<Suc c + j]" by (simp add: upt_conv_Cons)
  obtain oq where o: "create_context dev qb 0 k c (Some q) = Inr oq"
    and r: "rfor (create_context dev qb 0 k) [Suc c..<Suc c + j] oq = Inr (Some q2)"
    using Suc.prems(1) unfolding l by auto
  obtain q1 where q1: "oq = Some q1" using rfor_none [OF _ r] by (auto simp: create_context_def)
  obtain ctx where "rfor (register_graph dev qb c) [c * k..<c * k + k] (Some (q\<lparr> qa_contexts := qa_contexts q @ [ctx] \<rparr>)) = Inr (Some q1)"
    using o q1 Suc.prems(2) by (auto simp: create_context_def split: option.splits)
  moreover have "graphs_mapped dev gs ios p (c * k) (q\<lparr> qa_contexts := qa_contexts q @ [ctx] \<rparr>)"
    using Suc.prems(3) by (simp add: graphs_mapped_def)
  moreover have "c * k + k \<le> length gs" using Suc.prems(4) by (simp add: add_mult_distrib) 
  ultimately have "graphs_mapped dev gs ios p (c * k + k) q1" using register_graphs_map [OF _ _ assms(5-8)] by blast
  then have "graphs_mapped dev gs ios p (Suc c * k) q1" by (simp add: add.commute)
  moreover have "(Suc c + j) * k \<le> length gs" using Suc.prems(4) by simp
  ultimately have "graphs_mapped dev gs ios p ((Suc c + j) * k) q2" using Suc.IH [OF r [unfolded q1]] by simp
  then show ?case by simp
qed simp

text \<open>What the load keeps of the graphs and their plan, from its outcome alone.\<close>

definition loaded_from :: "(nat \<times> graph_info) list \<Rightarrow> io_map list \<Rightarrow> plan \<Rightarrow> qnn_api option \<Rightarrow> bool" where
  "loaded_from gs ios p oq \<longleftrightarrow> (\<forall>q. oq = Some q \<longrightarrow> qa_plan q = p \<and> qa_graphs q = gs \<and> qa_ios q = ios)"

lemma register_graph_keeps:
  assumes "register_graph dev qb c g oq = Inr oq2" "loaded_from gs ios p oq"
  shows "loaded_from gs ios p oq2"
  using assms
  by (auto simp: register_graph_def registerTensorsWithBackend_def loaded_from_def split: option.splits if_splits)

lemma create_context_keeps:
  assumes "create_context dev qb al k c oq = Inr oq2" "loaded_from gs ios p oq"
  shows "loaded_from gs ios p oq2"
proof (cases oq)
  case None
  then show ?thesis using assms by (simp add: create_context_def loaded_from_def)
next
  case (Some q)
  let ?run = "\<lambda>q. rfor (register_graph dev qb c) [c * k..<c * k + k] (Some q)"
  have "oq2 = None \<or> (\<exists>q1. ?run q1 = Inr oq2 \<and> qa_plan q1 = qa_plan q \<and> qa_graphs q1 = qa_graphs q \<and> qa_ios q1 = qa_ios q)"
  proof (cases "c = 0")
    case True
    obtain ok offs r where a: "allocateBuffers dev 0 (pn_groups (qa_plan q)) (qa_places q) (mkRpcMem al) = (ok, offs, r)"
      by (metis prod_cases3)
    show ?thesis
    proof (cases "dev_present dev \<and> ok \<and> qb_create qb c \<noteq> None")
      case True
      then obtain ctx where "qb_create qb c = Some ctx" by blast
      then have "?run (q\<lparr> qa_places := offs, qa_rpc := r, qa_contexts := qa_contexts q @ [ctx] \<rparr>) = Inr oq2"
        using assms(1) a True \<open>c = 0\<close> by (simp add: create_context_def Some)
      then show ?thesis
        by (intro disjI2 exI [of _ "q\<lparr> qa_places := offs, qa_rpc := r, qa_contexts := qa_contexts q @ [ctx] \<rparr>"]) simp
    next
      case False
      then show ?thesis using assms(1) a \<open>c = 0\<close> by (auto simp: create_context_def Some split: if_splits)
    qed
  next
    case False
    show ?thesis
    proof (cases "qb_create qb c")
      case None
      then show ?thesis using assms(1) False by (simp add: create_context_def Some)
    next
      case (Some ctx)
      then have "?run (q\<lparr> qa_contexts := qa_contexts q @ [ctx] \<rparr>) = Inr oq2"
        using assms(1) False by (simp add: create_context_def \<open>oq = Some q\<close>)
      then show ?thesis by (intro disjI2 exI [of _ "q\<lparr> qa_contexts := qa_contexts q @ [ctx] \<rparr>"]) simp
    qed
  qed
  then show ?thesis
  proof
    assume "\<exists>q1. ?run q1 = Inr oq2 \<and> qa_plan q1 = qa_plan q \<and> qa_graphs q1 = qa_graphs q \<and> qa_ios q1 = qa_ios q"
    then obtain q1 where r: "?run q1 = Inr oq2" "loaded_from gs ios p (Some q1)"
      using assms(2) Some by (auto simp: loaded_from_def)
    show ?thesis using rfor_inv [OF r(1), of "loaded_from gs ios p"] r(2) register_graph_keeps by blast
  qed (simp add: loaded_from_def)
qed

lemma create_contexts_keep:
  assumes "rfor (create_context dev qb al k) cs
    (Some \<lparr> qa_graphs = gs, qa_ios = ios, qa_plan = p, qa_places = a, qa_contexts = b, qa_rpc = r \<rparr>) = Inr (Some q)"
  shows "loaded_from gs ios p (Some q)"
proof (rule rfor_inv [OF assms, where P = "loaded_from gs ios p"])
  show "loaded_from gs ios p (Some \<lparr> qa_graphs = gs, qa_ios = ios, qa_plan = p, qa_places = a, qa_contexts = b, qa_rpc = r \<rparr>)"
    by (simp add: loaded_from_def)
qed (rule create_context_keeps)

lemma load_maps:
  assumes "createFromBinaryHtp dev qb 0 n = Inr (Some q)" "0 < n" "sound_allocator dev" "fresh_handles dev"
    and "\<forall>i < length (pn_groups (qa_plan q)). plan_bytes (qa_plan q) i < 2 ^ 31"
  shows "graphs_mapped dev (qa_graphs q) (qa_ios q) (qa_plan q) (length (qa_graphs q)) q"
    and "planned (zip (map fst (qa_graphs q)) (qa_ios q)) (qa_plan q)" "length (qa_ios q) = length (qa_graphs q)"
    and "\<And>i. i < length (qa_graphs q) \<Longrightarrow> graph_io (snd (qa_graphs q ! i)) = Inr (Some (qa_ios q ! i))"
proof -
  obtain count gs ios p where rb: "read_binaries qb [0..<n] None [] = Inr (Some (count, gs))"
    and ps: "parseIOTensorsAndAccumulate gs = Inr (Some (ios, p))"
    and run: "rfor (create_context dev qb 0 (case count of None \<Rightarrow> 0 | Some k \<Rightarrow> k)) [0..<n]
      (Some \<lparr> qa_graphs = gs, qa_ios = ios, qa_plan = p, qa_places = Map.empty, qa_contexts = [], qa_rpc = mkRpcMem 0 \<rparr>) = Inr (Some q)"
    using assms(1) by (auto simp: createFromBinaryHtp_def split: option.splits)
  let ?q0 = "\<lparr> qa_graphs = gs, qa_ios = ios, qa_plan = p, qa_places = Map.empty, qa_contexts = [], qa_rpc = mkRpcMem 0 \<rparr>"
  note P = parse_planned [OF ps]
  obtain k where k: "count = Some k" "length gs = n * k" using read_binaries_count [OF rb assms(2)] by blast
  obtain m where n: "n = Suc m" using assms(2) by (cases n) auto
  have l: "[0..<n] = 0 # [1..<1 + m]" by (simp add: n upt_conv_Cons del: upt_Suc)
  obtain oq where o: "create_context dev qb 0 k 0 (Some ?q0) = Inr oq"
    and r: "rfor (create_context dev qb 0 k) [1..<1 + m] oq = Inr (Some q)"
    using run unfolding l k(1) by auto
  obtain q1 where q1: "oq = Some q1" using rfor_none [OF _ r] by (auto simp: create_context_def)
  obtain offs rp ctx where ab: "allocateBuffers dev 0 (pn_groups p) Map.empty (mkRpcMem 0) = (True, offs, rp)"
    and rg: "rfor (register_graph dev qb 0) [0..<0 + k] (Some (?q0\<lparr> qa_places := offs, qa_rpc := rp, qa_contexts := [ctx] \<rparr>)) = Inr (Some q1)"
    using o q1 by (auto simp: create_context_def split: option.splits if_splits prod.splits)
  have same: "qa_plan q = p \<and> qa_graphs q = gs \<and> qa_ios q = ios"
    using create_contexts_keep [OF run] by (simp add: loaded_from_def)
  have small: "\<forall>i < length (pn_groups p). plan_bytes p i < 2 ^ 31" using assms(5) same by simp
  note al = allocated_buffers [OF P(1) ab assms(3) small]
  have "graphs_mapped dev gs ios p 0 (?q0\<lparr> qa_places := offs, qa_rpc := rp, qa_contexts := [ctx] \<rparr>)"
    using al by (simp add: graphs_mapped_def)
  then have "graphs_mapped dev gs ios p (0 + k) q1"
    using register_graphs_map [OF _ _ P(1,2) assms(4) small rg] k(2) n by simp
  then have "graphs_mapped dev gs ios p (1 * k) q1" by simp
  from create_contexts_map [OF r [unfolded q1] _ this _ P(1,2) assms(4) small] k(2) n
  have "graphs_mapped dev gs ios p (n * k) q" by simp
  then show "graphs_mapped dev (qa_graphs q) (qa_ios q) (qa_plan q) (length (qa_graphs q)) q"
    and "planned (zip (map fst (qa_graphs q)) (qa_ios q)) (qa_plan q)" "length (qa_ios q) = length (qa_graphs q)"
    and "\<And>i. i < length (qa_graphs q) \<Longrightarrow> graph_io (snd (qa_graphs q ! i)) = Inr (Some (qa_ios q ! i))"
    using same k(2) P by simp_all
qed

end
