(* ===== verification/TensorMemory.thy ===== *)
theory TensorMemory
  imports FusedLoad
begin

text \<open>
  The properties of the shared tensor buffers, on the outcome of a successful load.
\<close>

section \<open>The entry of a tensor\<close>

lemma note_tensors_entry:
  assumes "rfor note_tensor ts (Some m0) = Inr (Some m)" "ordered m0" "distinct (map qt_name ts)"
  shows "ordered m \<and> (\<forall>t \<in> set ts. \<exists>ds. getTensorShape t = Inr (Some ds) \<and> map_of m (qt_name t) = Some (mkDims ds))
    \<and> (\<forall>n. n \<notin> qt_name ` set ts \<longrightarrow> map_of m n = map_of m0 n)"
  using assms
proof (induction ts arbitrary: m0)
  case (Cons t ts)
  have none: "rfor note_tensor us None = Inr None" for us by (induction us) (simp_all add: note_tensor_def)
  obtain shape where shape: "getTensorShape t = Inr shape" using Cons.prems(1) by (auto simp: note_tensor_def)
  then obtain ds where ds: "getTensorShape t = Inr (Some ds)"
    using Cons.prems(1) none [of ts]
  proof (cases shape)
    case None
    then have "note_tensor t (Some m0) = Inr None" using shape by (simp add: note_tensor_def)
    then show ?thesis using Cons.prems(1) none [of ts] by simp
  qed simp
  have f: "rfor note_tensor ts (Some (put (qt_name t) (mkDims ds) m0)) = Inr (Some m)"
  proof -
    have "note_tensor t (Some m0) = Inr (Some (put (qt_name t) (mkDims ds) m0))" by (simp add: note_tensor_def ds)
    then show ?thesis using Cons.prems(1) by simp
  qed
  have ih: "ordered m \<and> (\<forall>t \<in> set ts. \<exists>ds. getTensorShape t = Inr (Some ds) \<and> map_of m (qt_name t) = Some (mkDims ds))
    \<and> (\<forall>n. n \<notin> qt_name ` set ts \<longrightarrow> map_of m n = map_of (put (qt_name t) (mkDims ds) m0) n)"
    using Cons.IH [OF f ordered_put [OF Cons.prems(2)]] Cons.prems(3) by simp
  then have "map_of m (qt_name t) = Some (mkDims ds)" using Cons.prems(2,3) by simp
  then show ?case using ih ds Cons.prems(2) by simp
qed simp

lemma graph_io_entry:
  assumes "graph_io gi = Inr (Some io)" "distinct (map qt_name (gi_inputs gi @ gi_outputs gi))" "qt \<in> set (gi_inputs gi @ gi_outputs gi)"
  shows "\<exists>ds. getTensorShape qt = Inr (Some ds) \<and> map_of io (qt_name qt) = Some (mkDims ds)"
  using note_tensors_entry [of "gi_inputs gi @ gi_outputs gi" "[]" io] assms by (auto simp: graph_io_def)

text \<open>A tensor whose bytes the 32-bit size of the planner can tell, with a type it knows.\<close>

definition regular :: "qnn_tensor \<Rightarrow> nat \<Rightarrow> bool" where
  "regular qt n \<longleftrightarrow> tensorByteSize qt = Inr n \<and> qt_dims qt \<noteq> [] \<and> length (qt_dims qt) \<le> 4 \<and> n < 2 ^ 32 \<and> qt_dtype qt \<noteq> FLOAT_64"

lemma place_covers:
  assumes "graph_io gi = Inr (Some io)" "distinct (map qt_name (gi_inputs gi @ gi_outputs gi))"
    and "qt \<in> set (gi_inputs gi @ gi_outputs gi)" "regular qt b" "owned io offs (qt_name qt) n d (i, off, s)"
  shows "b \<le> s"
proof -
  obtain ds where ds: "getTensorShape qt = Inr (Some ds)" "map_of io (qt_name qt) = Some (mkDims ds)"
    using graph_io_entry [OF assms(1-3)] by blast
  have "b \<le> getAlignedSize (mkDims ds)"
    using reserved_covers [of qt b] assms(4) ds(1) by (auto simp: regular_def)
  moreover have "s = getAlignedSize (mkDims ds)"
    using assms(5) ds(2) ordered_distinct [OF graph_io_ordered [OF assms(1)]]
    by (auto simp: owned_def kv_room_def kv_in_of_def split: if_splits dest: eq_key_imp_eq_value)
  ultimately show ?thesis by simp
qed

section \<open>Where the tensors are\<close>

text \<open>The conditions of a load the properties speak of; the bytes of each buffer fit in an \<open>int\<close>.\<close>

definition loads :: "rpc_device \<Rightarrow> backend \<Rightarrow> nat \<Rightarrow> qnn_api \<Rightarrow> bool" where
  "loads dev qb n q \<longleftrightarrow> createFromBinaryHtp dev qb 0 n = Inr (Some q) \<and> 0 < n \<and> sound_allocator dev \<and> fresh_handles dev
     \<and> (\<forall>i < length (pn_groups (qa_plan q)). plan_bytes (qa_plan q) i < 2 ^ 31)"

definition tensor_of :: "qnn_api \<Rightarrow> nat \<Rightarrow> tref \<Rightarrow> qnn_tensor \<Rightarrow> bool" where
  "tensor_of q g t qt \<longleftrightarrow> g < length (qa_graphs q) \<and> (t, qt) \<in> set (graph_tensors g (snd (qa_graphs q ! g)))"

lemma loaded_tensor:
  assumes "loads dev qb n q" "tensor_of q g t qt"
  shows "planned (zip (map fst (qa_graphs q)) (qa_ios q)) (qa_plan q)"
    and "(fst (qa_graphs q ! g), qa_ios q ! g) \<in> set (zip (map fst (qa_graphs q)) (qa_ios q))"
    and "graph_io (snd (qa_graphs q ! g)) = Inr (Some (qa_ios q ! g))" "buffers_of dev (qa_plan q) (qa_rpc q)"
    and "\<exists>al. graph_allocs (qa_ios q ! g) (plan_places (qa_plan q)) = Inr al
      \<and> getBuffer (qa_rpc q) t = Inr (address (qa_rpc q) (al (qt_name qt)))"
proof -
  note L = load_maps [of dev qb n q] assms(1) [unfolded loads_def]
  have g: "g < length (qa_graphs q)" using assms(2) by (simp add: tensor_of_def)
  show "planned (zip (map fst (qa_graphs q)) (qa_ios q)) (qa_plan q)"
    "(fst (qa_graphs q ! g), qa_ios q ! g) \<in> set (zip (map fst (qa_graphs q)) (qa_ios q))"
    "graph_io (snd (qa_graphs q ! g)) = Inr (Some (qa_ios q ! g))"
    using L g by (auto simp: set_zip intro!: exI [of _ g])
  show "buffers_of dev (qa_plan q) (qa_rpc q)" using L by (auto simp: graphs_mapped_def)
  have "graphs_mapped dev (qa_graphs q) (qa_ios q) (qa_plan q) (length (qa_graphs q)) q" using L by blast
  then obtain al where "graph_allocs (qa_ios q ! g) (plan_places (qa_plan q)) = Inr al"
    "\<forall>(t, qt) \<in> set (graph_tensors g (snd (qa_graphs q ! g))). getBuffer (qa_rpc q) t = Inr (address (qa_rpc q) (al (qt_name qt)))"
    using g unfolding graphs_mapped_def by blast
  then show "\<exists>al. graph_allocs (qa_ios q ! g) (plan_places (qa_plan q)) = Inr al
      \<and> getBuffer (qa_rpc q) t = Inr (address (qa_rpc q) (al (qt_name qt)))"
    using assms(2) by (auto simp: tensor_of_def)
qed

text \<open>An address is that of a place of the plan.\<close>

lemma address_owned:
  assumes "loads dev qb n q" "tensor_of q g t qt" "getBuffer (qa_rpc q) t = Inr (Some a)"
  shows "\<exists>m d i off s. owned (qa_ios q ! g) (plan_places (qa_plan q)) (qt_name qt) m d (i, off, s)
    \<and> a = fst (rp_fused (qa_rpc q) ! i) + off"
proof -
  obtain al where al: "graph_allocs (qa_ios q ! g) (plan_places (qa_plan q)) = Inr al"
    "getBuffer (qa_rpc q) t = Inr (address (qa_rpc q) (al (qt_name qt)))" using loaded_tensor(5) [OF assms(1,2)] by blast
  then obtain i off s where x: "al (qt_name qt) = Some (i, off, s)" "a = fst (rp_fused (qa_rpc q) ! i) + off"
    using assms(3) by (cases "al (qt_name qt)") (auto simp: address_def)
  from graph_allocs_owned [OF al(1) x(1)] x(2) show ?thesis by blast
qed

lemma disjoint_addresses:
  assumes "loads dev qb n q" "tensor_of q g t1 qt1" "tensor_of q g t2 qt2" "qt_name qt1 \<noteq> qt_name qt2"
    and "distinct (map qt_name (gi_inputs (snd (qa_graphs q ! g)) @ gi_outputs (snd (qa_graphs q ! g))))"
    and "regular qt1 b1" "regular qt2 b2"
    and "getBuffer (qa_rpc q) t1 = Inr (Some a1)" "getBuffer (qa_rpc q) t2 = Inr (Some a2)"
  shows "a1 + b1 \<le> a2 \<or> a2 + b2 \<le> a1"
proof -
  let ?p = "qa_plan q" and ?io = "qa_ios q ! g" and ?f = "rp_fused (qa_rpc q)"
  note L = loaded_tensor [OF assms(1,2)]
  obtain m1 d1 i1 o1 s1 where w1: "owned ?io (plan_places ?p) (qt_name qt1) m1 d1 (i1, o1, s1)" "a1 = fst (?f ! i1) + o1"
    using address_owned [OF assms(1,2,8)] by blast
  obtain m2 d2 i2 o2 s2 where w2: "owned ?io (plan_places ?p) (qt_name qt2) m2 d2 (i2, o2, s2)" "a2 = fst (?f ! i2) + o2"
    using address_owned [OF assms(1,3,9)] by blast
  have "qt1 \<in> set (gi_inputs (snd (qa_graphs q ! g)) @ gi_outputs (snd (qa_graphs q ! g)))"
    "qt2 \<in> set (gi_inputs (snd (qa_graphs q ! g)) @ gi_outputs (snd (qa_graphs q ! g)))"
    using assms(2,3) graph_tensors_graph unfolding tensor_of_def by blast+
  then have c: "b1 \<le> s1" "b2 \<le> s2" using place_covers [OF L(3) assms(5)] assms(6,7) w1(1) w2(1) by blast+
  have o: "ordered ?io" using L(3) by (rule graph_io_ordered)
  have k1: "i1 < length (pn_groups ?p)" "o1 + s1 \<le> plan_bytes ?p i1" using owned_within [OF L(1,2) w1(1)] by blast+
  have k2: "i2 < length (pn_groups ?p)" "o2 + s2 \<le> plan_bytes ?p i2" using owned_within [OF L(1,2) w2(1)] by blast+
  show ?thesis
  proof (cases "i1 = i2")
    case True
    have "o1 + s1 \<le> o2 \<or> o2 + s2 \<le> o1" by (rule owned_apart [OF L(1,2) o assms(4) w1(1) w2(1) [folded True]])
    then show ?thesis using c w1(2) w2(2) True by auto
  next
    case False
    then have "fst (?f ! i1) + plan_bytes ?p i1 \<le> fst (?f ! i2) \<or> fst (?f ! i2) + plan_bytes ?p i2 \<le> fst (?f ! i1)"
      using L(4) k1(1) k2(1) unfolding buffers_of_def by blast
    then show ?thesis using c w1(2) w2(2) k1(2) k2(2) by linarith
  qed
qed

text \<open>
  A cache input lies in front of the cache output it goes with; \<open>one_output\<close> says that all the
  graphs agree on the name of that output.
\<close>

definition one_output :: "qnn_api \<Rightarrow> string \<Rightarrow> bool" where
  "one_output q n \<longleftrightarrow> (\<exists>m. \<forall>io \<in> set (qa_ios q). \<forall>m1 \<in> fst ` set io.
     kv_in_of io m1 \<noteq> None \<and> \<not> is_cache_in m1 \<and> kv_in_name m1 = n \<longrightarrow> m1 = m)"

text \<open>It holds when the cache outputs of a load all end in \<open>_out\<close>.\<close>

lemma kv_in_name_out: "kv_in_name (s @ ''_out'') = s @ ''_in''"
  by (simp add: kv_in_name_def)

lemma outputs_named_out:
  assumes "\<forall>io \<in> set (qa_ios q). \<forall>m \<in> fst ` set io. is_cache m \<and> \<not> is_cache_in m \<longrightarrow> (\<exists>s. m = s @ ''_out'')"
  shows "one_output q (s @ ''_in'')"
  unfolding one_output_def
proof (intro exI [of _ "s @ ''_out''"] ballI impI)
  fix io m assume m: "io \<in> set (qa_ios q)" "m \<in> fst ` set io" "kv_in_of io m \<noteq> None \<and> \<not> is_cache_in m \<and> kv_in_name m = s @ ''_in''"
  then have "is_cache m" by (simp add: kv_in_of_def split: if_splits)
  then obtain s2 where s2: "m = s2 @ ''_out''" using assms m by blast
  then have "s2 @ ''_in'' = s @ ''_in''" using m(3) kv_in_name_out by metis
  then show "m = s @ ''_out''" using s2 by simp
qed

text \<open>
  The address of a tensor other than a cache input is a number fixed for its name plus the bytes of
  the cache input in front of it.
\<close>

lemma same_address:
  assumes "loads dev qb n q" "tensor_of q g1 t1 qt1" "tensor_of q g2 t2 qt2" "qt_name qt1 = nm" "qt_name qt2 = nm"
    and "getBuffer (qa_rpc q) t1 = Inr (Some a1)" "getBuffer (qa_rpc q) t2 = Inr (Some a2)"
  shows "\<not> is_cache_in nm \<Longrightarrow> a1 + kv_room (qa_ios q ! g2) nm = a2 + kv_room (qa_ios q ! g1) nm"
    and "is_cache_in nm \<Longrightarrow> one_output q nm \<Longrightarrow> a1 = a2"
proof -
  let ?p = "qa_plan q" and ?f = "rp_fused (qa_rpc q)"
  obtain m1 d1 i1 o1 s1 where w1: "owned (qa_ios q ! g1) (plan_places ?p) nm m1 d1 (i1, o1, s1)" "a1 = fst (?f ! i1) + o1"
    using address_owned [OF assms(1,2,6)] assms(4) by metis
  obtain m2 d2 i2 o2 s2 where w2: "owned (qa_ios q ! g2) (plan_places ?p) nm m2 d2 (i2, o2, s2)" "a2 = fst (?f ! i2) + o2"
    using address_owned [OF assms(1,3,7)] assms(5) by metis
  have io: "qa_ios q ! g1 \<in> set (qa_ios q)" "qa_ios q ! g2 \<in> set (qa_ios q)"
    using loaded_tensor(2) [OF assms(1,2)] loaded_tensor(2) [OF assms(1,3)] by (auto dest: set_zip_rightD)
  show "a1 = a2" if c: "is_cache_in nm" "one_output q nm"
  proof -
    obtain m where m: "\<forall>io \<in> set (qa_ios q). \<forall>m1 \<in> fst ` set io. kv_in_of io m1 \<noteq> None \<and> \<not> is_cache_in m1 \<and> kv_in_name m1 = nm \<longrightarrow> m1 = m"
      using c(2) by (auto simp: one_output_def)
    have "m1 = m" "m2 = m" using m io w1(1) w2(1) c(1) unfolding owned_def by (metis fst_conv image_eqI)+
    then show ?thesis using w1 w2 c(1) unfolding owned_def by auto
  qed
  show "a1 + kv_room (qa_ios q ! g2) nm = a2 + kv_room (qa_ios q ! g1) nm" if c: "\<not> is_cache_in nm"
  proof -
    have "m1 = nm" "m2 = nm" using w1(1) w2(1) c kv_in_is_cache_in unfolding owned_def by (auto simp: kv_in_of_def split: if_splits)
    moreover have "kv_in_of io nm \<noteq> None \<Longrightarrow> nm \<noteq> kv_in_name nm" for io
      using c kv_in_is_cache_in [of nm] by (auto simp: kv_in_of_def split: if_splits)
    ultimately have "i1 = i2 \<and> o1 + kv_room (qa_ios q ! g2) nm = o2 + kv_room (qa_ios q ! g1) nm"
      using w1(1) w2(1) unfolding owned_def by auto
    then show ?thesis using w1(2) w2(2) by simp
  qed
qed

lemma lone_cache_input_unmapped:
  assumes "loads dev qb n q" "tensor_of q g t qt" "is_cache_in (qt_name qt)"
    and "\<forall>m \<in> fst ` set (qa_ios q ! g). kv_in_of (qa_ios q ! g) m \<noteq> None \<longrightarrow> is_cache_in m \<or> kv_in_name m \<noteq> qt_name qt"
  shows "getBuffer (qa_rpc q) t = Inr None"
proof -
  obtain al where al: "graph_allocs (qa_ios q ! g) (plan_places (qa_plan q)) = Inr al"
    "getBuffer (qa_rpc q) t = Inr (address (qa_rpc q) (al (qt_name qt)))" using loaded_tensor(5) [OF assms(1,2)] by blast
  have "al (qt_name qt) = None"
  proof (rule ccontr)
    assume "al (qt_name qt) \<noteq> None"
    then obtain a where a: "al (qt_name qt) = Some a" by blast
    obtain m d where "owned (qa_ios q ! g) (plan_places (qa_plan q)) (qt_name qt) m d a"
      using graph_allocs_owned [OF al(1) a] by blast
    then show False using assms(3,4) unfolding owned_def by (metis fst_conv image_eqI)
  qed
  then show ?thesis using al(2) by (simp add: address_def)
qed

section \<open>A load to evaluate\<close>

definition demo_tensor :: "string \<Rightarrow> qnn_dtype \<Rightarrow> nat list \<Rightarrow> qnn_tensor" where
  "demo_tensor n d ds = \<lparr> qt_name = n, qt_dtype = d, qt_type = 0, qt_dims = ds, qt_quant = OtherEncoding, qt_dynamic = None \<rparr>"

definition demo_infos :: "nat \<Rightarrow> graph_info" where
  "demo_infos c = (if c = 0
     then \<lparr> gi_name = ''g'', gi_inputs = [demo_tensor ''x'' FLOAT_32 [1], demo_tensor ''past_in'' UFIXED_POINT_8 [1, 6]],
            gi_outputs = [demo_tensor ''past_o'' UFIXED_POINT_8 [1, 2]] \<rparr>
     else if c = 1
     then \<lparr> gi_name = ''h'', gi_inputs = [demo_tensor ''x'' FLOAT_32 [2], demo_tensor ''past_in'' UFIXED_POINT_8 [6]],
            gi_outputs = [] \<rparr>
     else \<lparr> gi_name = ''k'', gi_inputs = [demo_tensor ''x'' FLOAT_32 [1], demo_tensor ''past_in'' UFIXED_POINT_8 [8]],
            gi_outputs = [demo_tensor ''past_o'' UFIXED_POINT_8 [3]] \<rparr>)"

text \<open>The description a library gives of a binary with one graph.\<close>

definition one_graph :: "graph_info \<Rightarrow> binary_meta" where
  "one_graph gi = \<lparr> bm_version = 3, bm_graphs = Some [\<lparr> gm_version = 1, gm_name = Some (gi_name gi),
     gm_inputs = Some (gi_inputs gi), gm_outputs = Some (gi_outputs gi) \<rparr>] \<rparr>"

definition demo_device :: rpc_device where
  "demo_device = \<lparr> dev_present = True,
     dev_alloc = (\<lambda>k s. if 0 < s \<and> s \<le> 64 then Some (64 * (k + 1)) else None),
     dev_to_fd = int, dev_register = (\<lambda>k a. Some k), dev_deregister = (\<lambda>k h. True) \<rparr>"

definition demo_backend :: backend where
  "demo_backend = \<lparr> qb_info = (\<lambda>c. Some (Some (one_graph (demo_infos c)))), qb_create = Some, qb_retrieve = (\<lambda>c g. True) \<rparr>"

text \<open>The addresses of the tensors of all graphs, in the order of \<open>graph_tensors\<close>.\<close>

definition demo_addresses :: "qnn_api \<Rightarrow> nat option res list" where
  "demo_addresses q = map (\<lambda>(g, io, i). getBuffer (qa_rpc q) (g, io, i))
     [(0, True, 0), (0, True, 1), (0, False, 0), (1, True, 0), (1, True, 1), (2, True, 0), (2, True, 1), (2, False, 0)]"

definition demo_check :: "qnn_api \<Rightarrow> bool" where
  "demo_check q \<longleftrightarrow> qa_graphs q = [(0, demo_infos 0), (1, demo_infos 1), (2, demo_infos 2)]
     \<and> list_all (\<lambda>g. group_bytes (snd g) < 64) (pn_groups (qa_plan q))
     \<and> map (map fst) (qa_ios q) = [[''past_in'', ''past_o'', ''x''], [''past_in'', ''x''], [''past_in'', ''past_o'', ''x'']]
     \<and> map (\<lambda>io. kv_room io ''past_o'') (qa_ios q) = [8, 8, 8]
     \<and> demo_addresses q = map Inr [Some 128, Some 64, Some 72, Some 128, None, Some 128, Some 64, Some 72]"

lemma demo_evaluates: "case createFromBinaryHtp demo_device demo_backend 0 3 of Inr (Some q) \<Rightarrow> demo_check q | _ \<Rightarrow> False"
  by code_simp

definition demo_api :: qnn_api where
  "demo_api = (case createFromBinaryHtp demo_device demo_backend 0 3 of Inr (Some q) \<Rightarrow> q
     | _ \<Rightarrow> \<lparr> qa_graphs = [], qa_ios = [], qa_plan = emptyPlan, qa_places = Map.empty, qa_contexts = [], qa_rpc = mkRpcMem 0 \<rparr>)"

lemma demo_loaded: "createFromBinaryHtp demo_device demo_backend 0 3 = Inr (Some demo_api)" "demo_check demo_api"
  using demo_evaluates by (auto simp: demo_api_def split: sum.splits option.splits)

lemma demo_loads: "loads demo_device demo_backend 3 demo_api"
proof -
  have "sound_allocator demo_device" by (auto simp: sound_allocator_def demo_device_def split: if_splits)
  moreover have "fresh_handles demo_device" by (simp add: fresh_handles_def demo_device_def)
  moreover have "plan_bytes (qa_plan demo_api) i < 2 ^ 31" if "i < length (pn_groups (qa_plan demo_api))" for i
  proof -
    have "plan_bytes (qa_plan demo_api) i < 64"
      using demo_loaded(2) that by (auto simp: demo_check_def plan_bytes_def list_all_length)
    then show ?thesis by simp
  qed
  ultimately show ?thesis using demo_loaded(1) by (simp add: loads_def)
qed

lemma demo_addresses_at:
  "getBuffer (qa_rpc demo_api) (0, True, 0) = Inr (Some 128)" "getBuffer (qa_rpc demo_api) (0, True, 1) = Inr (Some 64)"
  "getBuffer (qa_rpc demo_api) (0, False, 0) = Inr (Some 72)" "getBuffer (qa_rpc demo_api) (1, True, 0) = Inr (Some 128)"
  "getBuffer (qa_rpc demo_api) (2, True, 0) = Inr (Some 128)" "getBuffer (qa_rpc demo_api) (2, True, 1) = Inr (Some 64)"
  "getBuffer (qa_rpc demo_api) (2, False, 0) = Inr (Some 72)"
  using demo_loaded(2) by (simp_all add: demo_check_def demo_addresses_def)

lemma demo_tensors:
  "tensor_of demo_api 0 (0, True, 0) (demo_tensor ''x'' FLOAT_32 [1])"
  "tensor_of demo_api 0 (0, True, 1) (demo_tensor ''past_in'' UFIXED_POINT_8 [1, 6])"
  "tensor_of demo_api 0 (0, False, 0) (demo_tensor ''past_o'' UFIXED_POINT_8 [1, 2])"
  "tensor_of demo_api 1 (1, True, 0) (demo_tensor ''x'' FLOAT_32 [2])"
  "tensor_of demo_api 1 (1, True, 1) (demo_tensor ''past_in'' UFIXED_POINT_8 [6])"
  "tensor_of demo_api 2 (2, True, 0) (demo_tensor ''x'' FLOAT_32 [1])"
  "tensor_of demo_api 2 (2, True, 1) (demo_tensor ''past_in'' UFIXED_POINT_8 [8])"
  "tensor_of demo_api 2 (2, False, 0) (demo_tensor ''past_o'' UFIXED_POINT_8 [3])"
  using demo_loaded(2) by (simp_all add: demo_check_def tensor_of_def graph_tensors_def demo_infos_def)

section \<open>The groups\<close>

lemma groups_spec:
  assumes "parseIOTensorsAndAccumulate gs = Inr (Some (ios, p))"
  defines "G \<equiv> zip (map fst gs) ios"
  shows "set (map fst (pn_bits p)) = set (map fst gs)"
    and "\<forall>(c, io) \<in> set G. \<forall>(n, d) \<in> set io. \<not> is_cache_in n \<longrightarrow>
          (\<exists>!bv. in_group p bv n \<noteq> None) \<and> (\<exists>bv s. in_group p bv n = Some s \<and> planned_size io n d \<le> s)"
    and "\<forall>bv n s. in_group p bv n = Some s \<longrightarrow>
          (\<exists>(c, io) \<in> set G. \<exists>d. (n, d) \<in> set io \<and> s = planned_size io n d)
          \<and> (\<forall>k < length (pn_bits p). bit bv k \<longleftrightarrow> (\<exists>io. (fst (pn_bits p ! k), io) \<in> set G \<and> n \<in> fst ` set io))"
proof -
  note P = parse_planned [OF assms(1), folded G_def]
  have "fst ` set (pn_bits p) = fst ` set G" using P(1) by (simp add: planned_def)
  also have "\<dots> = set (map fst G)" by simp
  also have "map fst G = map fst gs" using P(2) by (simp add: G_def)
  finally show "set (map fst (pn_bits p)) = set (map fst gs)" by simp
  show "\<forall>(c, io) \<in> set G. \<forall>(n, d) \<in> set io. \<not> is_cache_in n \<longrightarrow>
          (\<exists>!bv. in_group p bv n \<noteq> None) \<and> (\<exists>bv s. in_group p bv n = Some s \<and> planned_size io n d \<le> s)"
    using planned_group [OF P(1)] by blast
  show "\<forall>bv n s. in_group p bv n = Some s \<longrightarrow>
          (\<exists>(c, io) \<in> set G. \<exists>d. (n, d) \<in> set io \<and> s = planned_size io n d)
          \<and> (\<forall>k < length (pn_bits p). bit bv k \<longleftrightarrow> (\<exists>io. (fst (pn_bits p ! k), io) \<in> set G \<and> n \<in> fst ` set io))"
    using planned_exact [OF P(1)] by blast
qed

lemma concat_nth_block:
  assumes "c < n" "j < k" "\<And>x. x < n \<Longrightarrow> length (f x) = k"
  shows "concat (map f [0..<n]) ! (c * k + j) = f c ! j"
  using assms
proof (induction n)
  case (Suc n)
  have l: "length (concat (map f [0..<n])) = n * k" using concat_length [of "[0..<n]" f k] Suc.prems(3) by simp
  show ?case
  proof (cases "c = n")
    case True
    then show ?thesis using l by (simp add: nth_append)
  next
    case False
    then have "c < n" using Suc.prems(1) by simp
    then have "c * k + j < n * k"
      using Suc.prems(2) mult_le_mono1 [of "Suc c" n k] by simp
    then show ?thesis using Suc \<open>c < n\<close> l by (simp add: nth_append)
  qed
qed simp

lemma loaded_graphs:
  assumes "createFromBinaryHtp dev qb al n = Inr (Some q)" "c < n"
  shows "\<exists>infos. binary_graphs qb c = Some infos \<and> length (qa_graphs q) = n * length infos
    \<and> (\<forall>j < length infos. qa_graphs q ! (c * length infos + j) = (c, infos ! j))"
proof -
  obtain count gs ios p where rb: "read_binaries qb [0..<n] None [] = Inr (Some (count, gs))"
    and run: "rfor (create_context dev qb al (case count of None \<Rightarrow> 0 | Some k \<Rightarrow> k)) [0..<n]
      (Some \<lparr> qa_graphs = gs, qa_ios = ios, qa_plan = p, qa_places = Map.empty, qa_contexts = [], qa_rpc = mkRpcMem al \<rparr>) = Inr (Some q)"
    using assms(1) by (auto simp: createFromBinaryHtp_def split: option.splits)
  have gs: "qa_graphs q = gs" using create_contexts_keep [OF run] by (simp add: loaded_from_def)
  obtain k where k: "\<forall>c \<in> set [0..<n]. \<exists>infos. binary_graphs qb c = Some infos \<and> length infos = k"
    "gs = concat (map (\<lambda>c. map (Pair c) (the (binary_graphs qb c))) [0..<n])"
    using read_binaries_spec [OF rb] by auto
  have len: "length (map (Pair x) (the (binary_graphs qb x))) = k" if "x < n" for x using k(1) that by force
  obtain infos where i: "binary_graphs qb c = Some infos" "length infos = k" using k(1) assms(2) by force
  have "length gs = n * k" using concat_length [of "[0..<n]" "\<lambda>c. map (Pair c) (the (binary_graphs qb c))" k] len k(2) by simp
  moreover have "gs ! (c * k + j) = (c, infos ! j)" if "j < k" for j
    using concat_nth_block [OF assms(2) that len] i that by (simp add: k(2))
  ultimately show ?thesis using i gs by blast
qed

section \<open>Properties\<close>



text \<open>C16: after a successful load the addresses of tensors of one name, in any two graphs of one
  context or of two, are the same, except that a cache output is further back by as many bytes
  as the cache input in front of it is larger; cache inputs are at the same address when all
  graphs agree on the name of the cache output they go with\<close>

theorem same_name_same_address:
  assumes "loads dev qb n q" "tensor_of q g1 t1 qt1" "tensor_of q g2 t2 qt2" "qt_name qt1 = nm" "qt_name qt2 = nm"
    and "getBuffer (qa_rpc q) t1 = Inr (Some a1)" "getBuffer (qa_rpc q) t2 = Inr (Some a2)"
  shows "(\<not> is_cache nm \<longrightarrow> a1 = a2)
    \<and> (is_cache nm \<and> \<not> is_cache_in nm \<longrightarrow> a1 + kv_room (qa_ios q ! g2) nm = a2 + kv_room (qa_ios q ! g1) nm)
    \<and> (is_cache_in nm \<and> one_output q nm \<longrightarrow> a1 = a2)"
  using same_address [OF assms] by (auto simp: kv_room_def kv_in_of_def is_cache_in_def)

lemma demo_one_output: "one_output demo_api ''past_in''"
proof -
  have n: "map (map fst) (qa_ios demo_api) = [[''past_in'', ''past_o'', ''x''], [''past_in'', ''x''], [''past_in'', ''past_o'', ''x'']]"
    using demo_loaded(2) by (simp add: demo_check_def)
  have "fst ` set io \<subseteq> {''past_in'', ''past_o'', ''x''}" if "io \<in> set (qa_ios demo_api)" for io
  proof -
    have "map fst io \<in> set (map (map fst) (qa_ios demo_api))" using that by simp
    then have "set (map fst io) \<subseteq> {''past_in'', ''past_o'', ''x''}" unfolding n by auto
    then show ?thesis by simp
  qed
  then show ?thesis
    unfolding one_output_def
    by (intro exI [of _ "''past_o''"]) (fastforce simp: kv_in_of_def is_cache_def is_cache_in_def)
qed

lemma demo_rooms: "kv_room (qa_ios demo_api ! 0) ''past_o'' = 8" "kv_room (qa_ios demo_api ! 2) ''past_o'' = 8"
proof -
  have r: "map (\<lambda>io. kv_room io ''past_o'') (qa_ios demo_api) = [8, 8, 8]" using demo_loaded(2) by (simp add: demo_check_def)
  from arg_cong [OF r, of length] have "length (qa_ios demo_api) = 3" by simp
  then show "kv_room (qa_ios demo_api ! 0) ''past_o'' = 8" "kv_room (qa_ios demo_api ! 2) ''past_o'' = 8"
    using arg_cong [OF r, of "\<lambda>xs. xs ! 0"] arg_cong [OF r, of "\<lambda>xs. xs ! 2"] by simp_all
qed

text \<open>The cache input and the cache output of the first and of the third graph.\<close>

theorem same_name_same_address_witness:
  "\<exists>a b. getBuffer (qa_rpc demo_api) (0, True, 1) = Inr (Some a) \<and> getBuffer (qa_rpc demo_api) (2, True, 1) = Inr (Some a)
     \<and> getBuffer (qa_rpc demo_api) (0, False, 0) = Inr (Some b) \<and> getBuffer (qa_rpc demo_api) (2, False, 0) = Inr (Some b)"
proof -
  obtain a1 a2 b1 b2 where b: "getBuffer (qa_rpc demo_api) (0, True, 1) = Inr (Some a1)" "getBuffer (qa_rpc demo_api) (2, True, 1) = Inr (Some a2)"
    "getBuffer (qa_rpc demo_api) (0, False, 0) = Inr (Some b1)" "getBuffer (qa_rpc demo_api) (2, False, 0) = Inr (Some b2)"
    using demo_addresses_at by blast
  have n: "is_cache ''past_in''" "is_cache_in ''past_in''" "is_cache ''past_o''" "\<not> is_cache_in ''past_o''"
    by (simp_all add: is_cache_def is_cache_in_def)
  have "a1 = a2"
    using same_name_same_address [OF demo_loads demo_tensors(2,7) _ _ b(1,2), of "''past_in''"] demo_one_output n
    by (simp add: demo_tensor_def)
  moreover have "b1 = b2"
    using same_name_same_address [OF demo_loads demo_tensors(3,8) _ _ b(3,4), of "''past_o''"] demo_rooms n
    by (simp add: demo_tensor_def)
  ultimately show ?thesis using b by blast
qed

theorem lone_cache_input:
  assumes "loads dev qb n q" "tensor_of q g t qt" "is_cache_in (qt_name qt)"
    and "\<forall>m \<in> fst ` set (qa_ios q ! g). kv_in_of (qa_ios q ! g) m \<noteq> None \<longrightarrow> is_cache_in m \<or> kv_in_name m \<noteq> qt_name qt"
  shows "getBuffer (qa_rpc q) t = Inr None"
  by (rule lone_cache_input_unmapped [OF assms])

theorem lone_cache_input_witness: "getBuffer (qa_rpc demo_api) (1, True, 1) = Inr None"
proof (rule lone_cache_input [OF demo_loads demo_tensors(5)])
  show "is_cache_in (qt_name (demo_tensor ''past_in'' UFIXED_POINT_8 [6]))"
    by (simp add: demo_tensor_def is_cache_in_def is_cache_def)
  have "map fst (qa_ios demo_api ! 1) = [''past_in'', ''x'']"
    using demo_loaded(2) nth_map [of 1 "qa_ios demo_api" "map fst"] arg_cong [of "map (map fst) (qa_ios demo_api)" _ length]
    by (auto simp: demo_check_def)
  then have "fst ` set (qa_ios demo_api ! 1) = {''past_in'', ''x''}" by (metis list.set_map list.simps(15) empty_set)
  then show "\<forall>m \<in> fst ` set (qa_ios demo_api ! 1). kv_in_of (qa_ios demo_api ! 1) m \<noteq> None \<longrightarrow>
      is_cache_in m \<or> kv_in_name m \<noteq> qt_name (demo_tensor ''past_in'' UFIXED_POINT_8 [6])"
    by (simp add: kv_in_of_def is_cache_in_def is_cache_def)
qed

text \<open>C27: the planner puts every tensor but the cache inputs into exactly one group, whose bits
  are exactly the contexts that have a tensor of that name and whose size is the largest any
  graph needs\<close>

theorem groups_by_contexts:
  assumes "parseIOTensorsAndAccumulate gs = Inr (Some (ios, p))" "G = zip (map fst gs) ios"
  shows "set (map fst (pn_bits p)) = set (map fst gs)
    \<and> (\<forall>(c, io) \<in> set G. \<forall>(n, d) \<in> set io. \<not> is_cache_in n \<longrightarrow>
          (\<exists>!bv. in_group p bv n \<noteq> None) \<and> (\<exists>bv s. in_group p bv n = Some s \<and> planned_size io n d \<le> s))
    \<and> (\<forall>bv n s. in_group p bv n = Some s \<longrightarrow>
          (\<exists>(c, io) \<in> set G. \<exists>d. (n, d) \<in> set io \<and> s = planned_size io n d)
          \<and> (\<forall>k < length (pn_bits p). bit bv k \<longleftrightarrow> (\<exists>io. (fst (pn_bits p ! k), io) \<in> set G \<and> n \<in> fst ` set io)))"
  using groups_spec [OF assms(1)] assms(2) by (intro conjI) simp_all

lemma demo_parse: "case parseIOTensorsAndAccumulate [(0, demo_infos 0), (1, demo_infos 1)] of
     Inr (Some (ios, p)) \<Rightarrow> pn_groups p = [(1, [(''past_o'', 16)]), (3, [(''x'', 8)])] \<and> map fst (pn_bits p) = [0, 1] | _ \<Rightarrow> False"
  by code_simp

theorem groups_by_contexts_witness:
  "\<exists>ios p. parseIOTensorsAndAccumulate [(0, demo_infos 0), (1, demo_infos 1)] = Inr (Some (ios, p))
     \<and> (\<exists>io. (1 :: nat, io) \<in> set (zip [0, 1] ios) \<and> ''x'' \<in> fst ` set io)"
proof -
  obtain ios p where p: "parseIOTensorsAndAccumulate [(0, demo_infos 0), (1, demo_infos 1)] = Inr (Some (ios, p))"
    "pn_groups p = [(1, [(''past_o'', 16)]), (3, [(''x'', 8)])]" "map fst (pn_bits p) = [0, 1]"
    using demo_parse by (auto split: sum.splits option.splits)
  have g: "in_group p 3 ''x'' = Some 8" by (simp add: in_group_def group_at_def p(2))
  have k: "1 < length (pn_bits p)" "fst (pn_bits p ! 1) = 1" using p(3) by auto
  let ?G = "zip (map fst [(0, demo_infos 0), (1, demo_infos 1)]) ios"
  have i: "bit (3 :: int) 1 \<longleftrightarrow> (\<exists>io. (fst (pn_bits p ! 1), io) \<in> set ?G \<and> ''x'' \<in> fst ` set io)"
    by (rule conjunct2 [OF conjunct2 [OF conjunct2 [OF groups_by_contexts [OF p(1) refl]], rule_format, OF g], rule_format, OF k(1)])
  have "bit (3 :: int) 1" by simp
  from i [THEN iffD1, OF this] have "\<exists>io. (1 :: nat, io) \<in> set ?G \<and> ''x'' \<in> fst ` set io" unfolding k(2) .
  with p(1) show ?thesis by auto
qed

theorem binaries_in_order:
  assumes "createFromBinaryHtp dev qb al n = Inr (Some q)" "c < n"
  shows "\<exists>infos. binary_graphs qb c = Some infos \<and> length (qa_graphs q) = n * length infos
    \<and> (\<forall>j < length infos. qa_graphs q ! (c * length infos + j) = (c, infos ! j))"
  by (rule loaded_graphs [OF assms])

theorem binaries_in_order_witness:
  "\<exists>infos. binary_graphs demo_backend 1 = Some infos \<and> length (qa_graphs demo_api) = 3 * length infos
    \<and> (\<forall>j < length infos. qa_graphs demo_api ! (length infos + j) = (1, infos ! j))"
  using binaries_in_order [OF demo_loaded(1), of 1] by simp

end
