(* ===== verification/LoadTotal.thy ===== *)
theory LoadTotal
  imports TensorMemory
begin

text \<open>
  Loading the context binaries never throws and never leaves what C++ defines, as long as there
  are at most 32 contexts and the library describes each binary by graphs of a version the
  code copies, with names and with tensors of rank four or less: the load succeeds or reports
  failure. With more contexts the bit of the next one is a shift by the width of an \<open>int\<close>; a graph
  of another version is read although nothing was written to it; a tensor of a higher rank
  exhausts the memory.
\<close>

section \<open>The planner\<close>

lemma context_bit_total:
  assumes "planned gs p" "card (insert c (fst ` set gs)) \<le> 32"
  shows "\<exists>b p2. context_bit c p = Inr (b, p2)"
proof (cases "map_of (pn_bits p) c")
  case None
  then have "c \<notin> fst ` set gs" using assms(1) by (simp add: planned_def map_of_eq_None_iff)
  moreover have "card (fst ` set gs) = length (pn_bits p)"
    using assms(1) distinct_card [of "map fst (pn_bits p)"] by (simp add: planned_def bits_ok_def)
  ultimately have "length (pn_bits p) < 32" using assms(2) by simp
  then show ?thesis by (simp add: context_bit_def None Let_def)
qed (simp add: context_bit_def)

lemma plan_graphs_total:
  assumes "planned gs p" "card (fst ` set (gs @ gs2)) \<le> 32"
  shows "\<exists>p2. rfor plan_graph gs2 p = Inr p2"
  using assms
proof (induction gs2 arbitrary: gs p)
  case (Cons g gs2)
  obtain c io where g: "g = (c, io)" by (cases g)
  have "insert c (fst ` set gs) \<subseteq> fst ` set (gs @ g # gs2)" by (auto simp: g)
  then have "card (insert c (fst ` set gs)) \<le> card (fst ` set (gs @ g # gs2))" by (intro card_mono) simp_all
  then have "card (insert c (fst ` set gs)) \<le> 32" using Cons.prems(2) by simp
  then obtain b p1 where "context_bit c p = Inr (b, p1)" using context_bit_total [OF Cons.prems(1)] by blast
  then obtain p2 where p2: "plan_graph (c, io) p = Inr p2" by (simp add: plan_graph_def)
  have "\<exists>p3. rfor plan_graph gs2 p2 = Inr p3"
    by (rule Cons.IH [OF plan_graph_step [OF Cons.prems(1) p2]]) (use Cons.prems(2) in \<open>simp add: g\<close>)
  then show ?case by (simp add: g p2)
qed simp

text \<open>A graph all of whose tensors have at most four dimensions.\<close>

definition low_rank :: "graph_info \<Rightarrow> bool" where
  "low_rank gi \<longleftrightarrow> (\<forall>t \<in> set (gi_inputs gi @ gi_outputs gi). length (qt_dims t) \<le> 4)"

lemma note_tensors_total:
  assumes "\<forall>t \<in> set ts. length (qt_dims t) \<le> 4"
  shows "\<exists>io. rfor note_tensor ts io0 = Inr io"
  using assms
proof (induction ts arbitrary: io0)
  case (Cons t ts)
  obtain s where "fillDims (qt_dims t) = Inr s" using fillDims_total [of "qt_dims t"] Cons.prems by auto
  then have "\<exists>io. note_tensor t io0 = Inr io" by (cases io0) (simp_all add: note_tensor_def getTensorShape_def)
  then show ?case using Cons by auto
qed simp

lemma note_graphs_total:
  assumes "\<forall>(c, gi) \<in> set gs. low_rank gi"
  shows "\<exists>ios. rfor note_graph gs ios0 = Inr ios"
  using assms
proof (induction gs arbitrary: ios0)
  case (Cons g gs)
  obtain c gi where g: "g = (c, gi)" by (cases g)
  have "\<forall>t \<in> set (gi_inputs gi @ gi_outputs gi). length (qt_dims t) \<le> 4" using Cons.prems by (simp add: g low_rank_def)
  then obtain io where "graph_io gi = Inr io" using note_tensors_total unfolding graph_io_def by blast
  then have "\<exists>ios. note_graph g ios0 = Inr ios" by (cases ios0) (simp_all add: note_graph_def g)
  then show ?case using Cons by auto
qed simp

lemma parse_total:
  assumes "card (fst ` set gs) \<le> 32" "\<forall>(c, gi) \<in> set gs. low_rank gi"
  shows "\<exists>r. parseIOTensorsAndAccumulate gs = Inr r"
proof -
  obtain ios where n: "rfor note_graph gs (Some []) = Inr ios" using note_graphs_total [OF assms(2)] by blast
  show ?thesis
  proof (cases ios)
    case (Some ms)
    have "length ms = length gs" using note_graphs [OF n [unfolded Some]] by simp
    then have "map fst (zip (map fst gs) ms) = map fst gs" by simp
    then have "fst ` set (zip (map fst gs) ms) = fst ` set gs" by (metis set_map)
    then have "card (fst ` set ([] @ zip (map fst gs) ms)) \<le> 32" using assms(1) by (simp only: append_Nil)
    from plan_graphs_total [OF planned_empty this] show ?thesis
      by (auto simp: parseIOTensorsAndAccumulate_def n Some)
  qed (simp add: parseIOTensorsAndAccumulate_def n)
qed

section \<open>The descriptions\<close>

text \<open>
  What the library has to say of a binary it accepted: something at all, and graphs that are
  copied, with tensors of rank four or less.
\<close>

definition known_info :: "binary_meta option \<Rightarrow> bool" where
  "known_info info \<longleftrightarrow> (case info of None \<Rightarrow> False
     | Some b \<Rightarrow> (case bm_graphs b of None \<Rightarrow> True
         | Some ms \<Rightarrow> (\<forall>m \<in> set ms. known_graph m \<and> (\<forall>t \<in> set (meta_tensors m). length (qt_dims t) \<le> 4))))"

lemma known_copies:
  assumes "known_info info"
  shows "\<exists>n. copyMetadataToGraphsInfo info = (Some n, None) \<or> (\<exists>copies gis. copyMetadataToGraphsInfo info = (Some n, Some copies)
    \<and> freeGraphsInfo copies = Inr () \<and> rmap read_struct copies = Inr gis \<and> (\<forall>gi \<in> set gis. low_rank gi))"
proof -
  obtain b where b: "info = Some b" using assms by (cases info) (auto simp: known_info_def)
  show ?thesis
  proof (cases "bm_graphs b")
    case (Some ms)
    have m: "\<forall>m \<in> set ms. known_graph m" "\<forall>m \<in> set ms. \<forall>t \<in> set (meta_tensors m). length (qt_dims t) \<le> 4"
      using assms by (auto simp: known_info_def b Some)
    obtain gis where gis: "None \<notin> set (copyGraphsInfo ms)" "rmap read_struct (copyGraphsInfo ms) = Inr gis"
      "list_all2 (\<lambda>m gi. gm_name m = Some (gi_name gi) \<and> gi_inputs gi @ gi_outputs gi = copyTensorsInfo (meta_tensors m)) ms gis"
      using known_structs [OF m(1)] by blast
    have "low_rank gi" if "gi \<in> set gis" for gi
    proof -
      obtain m0 where m0: "m0 \<in> set ms" and d: "gi_inputs gi @ gi_outputs gi = copyTensorsInfo (meta_tensors m0)"
      proof -
        obtain i where i: "i < length gis" "gis ! i = gi" using \<open>gi \<in> set gis\<close> by (auto simp: in_set_conv_nth)
        have "ms ! i \<in> set ms" using i(1) list_all2_lengthD [OF gis(3)] by simp
        moreover have "gi_inputs gi @ gi_outputs gi = copyTensorsInfo (meta_tensors (ms ! i))"
          using list_all2_nthD2 [OF gis(3) i(1)] by (simp only: i(2))
        ultimately show thesis using that by blast
      qed
      then have "\<forall>t \<in> set (copyTensorsInfo (meta_tensors m0)). length (qt_dims t) \<le> 4" using m(2) m0 by (auto simp: copyTensorsInfo_def)
      then show ?thesis by (simp only: low_rank_def d)
    qed
    then have r: "freeGraphsInfo (copyGraphsInfo ms) = Inr () \<and> rmap read_struct (copyGraphsInfo ms) = Inr gis \<and> (\<forall>gi \<in> set gis. low_rank gi)"
      using gis(1,2) by (simp add: freeGraphsInfo_def)
    have "copyMetadataToGraphsInfo info = (Some (length ms), Some (copyGraphsInfo ms)) \<or> copyMetadataToGraphsInfo info = (Some 0, None)"
      by (simp add: copyMetadataToGraphsInfo_def b Some)
    then show ?thesis using r by blast
  qed (auto simp: copyMetadataToGraphsInfo_def b)
qed

lemma read_binaries_total:
  assumes "\<forall>c \<in> set cs. \<forall>info. qb_info qb c = Some info \<longrightarrow> known_info info" "\<forall>(c, gi) \<in> set gs. low_rank gi"
  shows "\<exists>r. read_binaries qb cs count gs = Inr r \<and> (\<forall>k gs2. r = Some (k, gs2) \<longrightarrow> (\<forall>(c, gi) \<in> set gs2. low_rank gi))"
  using assms
proof (induction cs arbitrary: count gs)
  case (Cons c cs)
  show ?case
  proof (cases "qb_info qb c")
    case (Some info)
    have ki: "known_info info" using Cons.prems(1) Some by simp
    obtain n where "copyMetadataToGraphsInfo info = (Some n, None) \<or> (\<exists>copies gis. copyMetadataToGraphsInfo info = (Some n, Some copies)
      \<and> freeGraphsInfo copies = Inr () \<and> rmap read_struct copies = Inr gis \<and> (\<forall>gi \<in> set gis. low_rank gi))"
      using known_copies [OF ki] by blast
    then consider "copyMetadataToGraphsInfo info = (Some n, None)"
      | copies gis where "copyMetadataToGraphsInfo info = (Some n, Some copies)" "freeGraphsInfo copies = Inr ()"
          "rmap read_struct copies = Inr gis" "\<forall>gi \<in> set gis. low_rank gi" by blast
    then show ?thesis
    proof cases
      case 1
      then show ?thesis by (simp add: Some)
    next
      case 2
      have "\<forall>(c, gi) \<in> set (gs @ map (Pair c) gis). low_rank gi" using Cons.prems(2) 2(4) by auto
      then show ?thesis using Cons.IH [of "gs @ map (Pair c) gis" "Some n"] Cons.prems(1) 2(1-3) by (simp add: Some)
    qed
  qed simp
qed (use assms in simp)

lemma graph_allocs_total:
  assumes "planned G p" "(c, io) \<in> set G"
  shows "\<exists>al. graph_allocs io (plan_places p) = Inr al"
proof -
  have step: "\<exists>al2. alloc_tensor io (plan_places p) e al1 = Inr al2" if m: "e \<in> set io" for e al1
  proof -
    obtain n d where e: "e = (n, d)" by (cases e)
    show ?thesis
    proof (cases "is_cache_in n")
      case False
      obtain bv s where "in_group p bv n = Some s" using planned_group(2) [OF assms] m e False by blast
      then obtain i off where "plan_places p n = Some (i, off)" using place_at [OF assms(1)] by blast
      then show ?thesis by (auto simp: alloc_tensor_def e)
    qed (simp add: alloc_tensor_def e)
  qed
  have "\<exists>al. rfor (alloc_tensor io (plan_places p)) es al1 = Inr al" if "set es \<subseteq> set io" for es al1
    using that
  proof (induction es arbitrary: al1)
    case (Cons e es)
    then obtain al2 where "alloc_tensor io (plan_places p) e al1 = Inr al2" using step [of e al1] by auto
    then show ?case using Cons by simp
  qed simp
  then show ?thesis by (simp add: graph_allocs_def)
qed

section \<open>The memory handles\<close>

definition within :: "plan \<Rightarrow> allocs \<Rightarrow> bool" where
  "within p al \<longleftrightarrow> (\<forall>m i off s. al m = Some (i, off, s) \<longrightarrow> i < length (pn_groups p))"

definition buffers_at :: "plan \<Rightarrow> rpc \<Rightarrow> bool" where
  "buffers_at p r \<longleftrightarrow> length (rp_fused r) = length (pn_groups p) \<and> length (rp_fds r) = length (pn_groups p)"

lemma map_handle_total:
  assumes "rp_handle r t = None"
  shows "\<exists>ok r2. map_handle dev t sz fd off tot ptr ctx r = Inr (ok, r2) \<and> rp_fused r2 = rp_fused r \<and> rp_fds r2 = rp_fds r
    \<and> (\<forall>u. u \<noteq> t \<longrightarrow> rp_handle r2 u = rp_handle r u)"
  using assms by (cases "rp_config r (fd, off, ctx)")
    (auto simp: map_handle_def register_handle_def Let_def split: option.splits)

lemma map_tensor_total:
  assumes "rp_handle r t = None" "buffers_at p r" "within p al"
  shows "\<exists>ok r2. map_tensor dev al ctx (t, qt) (ret, r) = Inr (ok, r2) \<and> buffers_at p r2
    \<and> (\<forall>u. u \<noteq> t \<longrightarrow> rp_handle r2 u = rp_handle r u)"
proof (cases "al (qt_name qt)")
  case (Some a)
  obtain i off s where a: "a = (i, off, s)" by (cases a)
  have i: "i < length (pn_groups p)" using assms(3) Some unfolding a within_def by blast
  obtain ok r2 where m: "map_handle dev t s (rp_fds r ! i) (unat (word_of_nat off :: u32)) (snd (rp_fused r ! i)) (fst (rp_fused r ! i)) ctx r = Inr (ok, r2)"
    "rp_fused r2 = rp_fused r" "rp_fds r2 = rp_fds r" "\<And>u. u \<noteq> t \<Longrightarrow> rp_handle r2 u = rp_handle r u"
    using map_handle_total [OF assms(1)] by blast
  then have "map_tensor dev al ctx (t, qt) (ret, r) = Inr (ret \<and> ok, r2)"
    using i assms(2) by (simp add: map_tensor_def Some a map_in_buffer_def buffers_at_def)
  then show ?thesis using m assms(2) by (auto simp: buffers_at_def)
qed (simp add: map_tensor_def assms(2))

lemma map_tensors_total:
  assumes "distinct (map fst ts)" "\<forall>t \<in> fst ` set ts. rp_handle r t = None" "buffers_at p r"
    and "within p al"
  shows "\<exists>ok r2. rfor (map_tensor dev al ctx) ts (ret, r) = Inr (ok, r2) \<and> buffers_at p r2
    \<and> (\<forall>u. u \<notin> fst ` set ts \<longrightarrow> rp_handle r2 u = rp_handle r u)"
  using assms
proof (induction ts arbitrary: ret r)
  case (Cons tq ts)
  obtain t qt where tq: "tq = (t, qt)" by (cases tq)
  have none: "rp_handle r t = None" using Cons.prems(2) by (simp add: tq)
  obtain ok r1 where s: "map_tensor dev al ctx (t, qt) (ret, r) = Inr (ok, r1)" "buffers_at p r1"
    "\<And>u. u \<noteq> t \<Longrightarrow> rp_handle r1 u = rp_handle r u"
    using map_tensor_total [OF none Cons.prems(3,4)] by blast
  have d: "t \<notin> fst ` set ts" "distinct (map fst ts)" using Cons.prems(1) by (simp_all add: tq)
  have "\<forall>u \<in> fst ` set ts. rp_handle r1 u = None"
  proof
    fix u assume u: "u \<in> fst ` set ts"
    then have "u \<noteq> t" using d(1) by (cases "u = t") simp_all
    then show "rp_handle r1 u = None" using s(3) [of u] Cons.prems(2) u by simp
  qed
  from Cons.IH [OF d(2) this s(2) Cons.prems(4)] obtain ok2 r2 where
    r: "rfor (map_tensor dev al ctx) ts (ok, r1) = Inr (ok2, r2)" "buffers_at p r2"
    "\<And>u. u \<notin> fst ` set ts \<Longrightarrow> rp_handle r2 u = rp_handle r1 u" by blast
  then show ?case using s d(1) by (auto simp: tq simp del: split_paired_All)
qed simp

section \<open>The load\<close>

text \<open>The graphs from \<open>N\<close> on are not mapped yet, and \<open>C\<close> contexts have been created.\<close>

definition ready_for :: "(nat \<times> graph_info) list \<Rightarrow> io_map list \<Rightarrow> plan \<Rightarrow> nat \<Rightarrow> nat \<Rightarrow> qnn_api option \<Rightarrow> bool" where
  "ready_for gs ios p N C oq \<longleftrightarrow> (\<forall>q. oq = Some q \<longrightarrow> qa_graphs q = gs \<and> qa_ios q = ios \<and> qa_plan q = p
     \<and> qa_places q = plan_places p \<and> buffers_at p (qa_rpc q) \<and> length (qa_contexts q) = C
     \<and> (\<forall>t. N \<le> fst t \<longrightarrow> rp_handle (qa_rpc q) t = None))"

lemma register_graph_total:
  assumes "ready_for gs ios p N C oq" "N < length gs" "fst (gs ! N) < C"
    and P: "planned (zip (map fst gs) ios) p" "length ios = length gs"
  shows "\<exists>oq2. register_graph dev qb c N oq = Inr oq2 \<and> ready_for gs ios p (Suc N) C oq2"
proof (cases oq)
  case None
  then show ?thesis by (simp add: register_graph_def ready_for_def)
next
  case (Some q)
  note q = assms(1) [unfolded ready_for_def, rule_format, OF Some]
  show ?thesis
  proof (cases "qb_retrieve qb c (gi_name (snd (gs ! N)))")
    case False
    then show ?thesis using q by (simp add: register_graph_def Some ready_for_def)
  next
    case True
    have io: "(fst (gs ! N), ios ! N) \<in> set (zip (map fst gs) ios)" using assms(2) P(2) by (force simp: set_zip)
    obtain al where al: "graph_allocs (ios ! N) (plan_places p) = Inr al" using graph_allocs_total [OF P(1) io] by blast
    have idx: "within p al"
      using graph_allocs_owned [OF al] owned_within(1) [OF P(1) io] unfolding within_def by blast
    have none: "\<forall>t \<in> fst ` set (graph_tensors N (snd (gs ! N))). rp_handle (qa_rpc q) t = None"
      using q graph_tensors_graph by fastforce
    have b: "buffers_at p (qa_rpc q)" using q by blast
    obtain ok r where m: "mapFusedBufferOffset dev N (snd (gs ! N)) (qa_contexts q ! fst (gs ! N)) al (qa_rpc q) = Inr (ok, r)"
      "buffers_at p r" "\<And>u. u \<notin> fst ` set (graph_tensors N (snd (gs ! N))) \<Longrightarrow> rp_handle r u = rp_handle (qa_rpc q) u"
      using map_tensors_total [OF graph_tensors_distinct none b idx] unfolding mapFusedBufferOffset_def by blast
    have reg: "register_graph dev qb c N oq = Inr (if ok then Some (q\<lparr> qa_rpc := r \<rparr>) else None)"
      using q True al m(1) assms(3) by (simp add: register_graph_def Some registerTensorsWithBackend_def)
    have "rp_handle r t = None" if "Suc N \<le> fst t" for t
    proof -
      have "t \<notin> fst ` set (graph_tensors N (snd (gs ! N)))" using that graph_tensors_graph by fastforce
      then have "rp_handle r t = rp_handle (qa_rpc q) t" by (rule m(3))
      moreover have "N \<le> fst t" using that by simp
      ultimately show ?thesis using q by (simp del: split_paired_All)
    qed
    then have "ready_for gs ios p (Suc N) C (if ok then Some (q\<lparr> qa_rpc := r \<rparr>) else None)"
      using q m(2) by (simp add: ready_for_def del: split_paired_All)
    with reg show ?thesis by blast
  qed
qed

lemma register_graphs_total:
  assumes "ready_for gs ios p N C oq" "N + k \<le> length gs" "\<And>i. i < k \<Longrightarrow> fst (gs ! (N + i)) < C"
    and P: "planned (zip (map fst gs) ios) p" "length ios = length gs"
  shows "\<exists>oq2. rfor (register_graph dev qb c) [N..<N + k] oq = Inr oq2 \<and> ready_for gs ios p (N + k) C oq2"
  using assms(1-3)
proof (induction k arbitrary: N oq)
  case (Suc k)
  have l: "[N..<N + Suc k] = N # [Suc N..<Suc N + k]" by (simp add: upt_conv_Cons)
  have "N < length gs" "fst (gs ! N) < C" using Suc.prems(2) Suc.prems(3) [of 0] by simp_all
  from register_graph_total [OF Suc.prems(1) this P] obtain oq1 where
    s: "register_graph dev qb c N oq = Inr oq1" "ready_for gs ios p (Suc N) C oq1" by blast
  have "fst (gs ! (Suc N + i)) < C" if "i < k" for i using Suc.prems(3) [of "Suc i"] that by simp
  from Suc.IH [OF s(2) _ this] obtain oq2 where "rfor (register_graph dev qb c) [Suc N..<Suc N + k] oq1 = Inr oq2"
    "ready_for gs ios p (Suc N + k) C oq2" using Suc.prems(2) by auto
  then show ?case using s(1) unfolding l by simp
qed simp

lemma create_tail_total:
  assumes "ready_for gs ios p (c * k) c (Some q)" "c * k + k \<le> length gs" "\<And>i. i < k \<Longrightarrow> fst (gs ! (c * k + i)) = c"
    and P: "planned (zip (map fst gs) ios) p" "length ios = length gs"
  shows "\<exists>oq2. (case qb_create qb c of None \<Rightarrow> Inr None
      | Some ctx \<Rightarrow> rfor (register_graph dev qb c) [c * k..<c * k + k] (Some (q\<lparr> qa_contexts := qa_contexts q @ [ctx] \<rparr>))) = Inr oq2
    \<and> ready_for gs ios p (Suc c * k) (Suc c) oq2"
proof (cases "qb_create qb c")
  case None
  then show ?thesis by (simp add: ready_for_def)
next
  case (Some ctx)
  have "ready_for gs ios p (c * k) (Suc c) (Some (q\<lparr> qa_contexts := qa_contexts q @ [ctx] \<rparr>))"
    using assms(1) by (simp add: ready_for_def)
  moreover have "fst (gs ! (c * k + i)) < Suc c" if "i < k" for i using assms(3) [OF that] by simp
  ultimately obtain oq2 where "rfor (register_graph dev qb c) [c * k..<c * k + k] (Some (q\<lparr> qa_contexts := qa_contexts q @ [ctx] \<rparr>)) = Inr oq2"
    "ready_for gs ios p (c * k + k) (Suc c) oq2" using register_graphs_total [OF _ assms(2) _ P] by blast
  then show ?thesis by (simp add: Some add.commute)
qed

lemma create_context_total:
  assumes "ready_for gs ios p (c * k) c oq" "c \<noteq> 0"
    and "c * k + k \<le> length gs" "\<And>i. i < k \<Longrightarrow> fst (gs ! (c * k + i)) = c"
    and P: "planned (zip (map fst gs) ios) p" "length ios = length gs"
  shows "\<exists>oq2. create_context dev qb al k c oq = Inr oq2 \<and> ready_for gs ios p (Suc c * k) (Suc c) oq2"
proof (cases oq)
  case (Some q)
  from create_tail_total [OF assms(1) [unfolded Some] assms(3,4) P]
  show ?thesis using assms(2) by (simp add: create_context_def Some)
qed (simp add: create_context_def ready_for_def)

lemma create_contexts_total:
  assumes "ready_for gs ios p (c * k) c oq" "0 < c" "(c + j) * k \<le> length gs"
    and "\<And>b i. b < c + j \<Longrightarrow> i < k \<Longrightarrow> fst (gs ! (b * k + i)) = b"
    and P: "planned (zip (map fst gs) ios) p" "length ios = length gs"
  shows "\<exists>oq2. rfor (create_context dev qb al k) [c..<c + j] oq = Inr oq2"
  using assms(1-4)
proof (induction j arbitrary: c oq)
  case (Suc j)
  have l: "[c..<c + Suc j] = c # [Suc c..<Suc c + j]" by (simp add: upt_conv_Cons)
  have "c * k + k \<le> length gs" using Suc.prems(3) by (simp add: add_mult_distrib)
  moreover have "fst (gs ! (c * k + i)) = c" if "i < k" for i using Suc.prems(4) that by simp
  ultimately obtain oq1 where s: "create_context dev qb al k c oq = Inr oq1" "ready_for gs ios p (Suc c * k) (Suc c) oq1"
    using create_context_total [OF Suc.prems(1) _ _ _ P] Suc.prems(2) by blast
  have "\<exists>oq2. rfor (create_context dev qb al k) [Suc c..<Suc c + j] oq1 = Inr oq2"
    by (rule Suc.IH [OF s(2)]) (use Suc.prems(3,4) in simp_all)
  then show ?case using s(1) unfolding l by simp
qed simp

lemma first_context_total:
  assumes "k \<le> length gs" "\<And>i. i < k \<Longrightarrow> fst (gs ! i) = 0"
    and P: "planned (zip (map fst gs) ios) p" "length ios = length gs"
  shows "\<exists>oq2. create_context dev qb al k 0 (Some \<lparr> qa_graphs = gs, qa_ios = ios, qa_plan = p, qa_places = Map.empty,
      qa_contexts = [], qa_rpc = mkRpcMem al \<rparr>) = Inr oq2 \<and> ready_for gs ios p k 1 oq2"
proof -
  obtain ok offs r where a: "allocateBuffers dev 0 (pn_groups p) Map.empty (mkRpcMem al) = (ok, offs, r)" by (metis prod_cases3)
  let ?q = "\<lparr> qa_graphs = gs, qa_ios = ios, qa_plan = p, qa_places = offs, qa_contexts = [], qa_rpc = r \<rparr>"
  show ?thesis
  proof (cases "dev_present dev \<and> ok")
    case True
    have "\<forall>g \<in> set (pn_groups p). distinct (map fst (snd g))" using planned_groups(2) [OF P(1)] by blast
    from allocateBuffers_spec [OF _ this] a True obtain bufs where
      b: "offs = plan_places p" "rp_handle r = Map.empty" "rp_fused r = bufs" "length (rp_fds r) = length bufs"
      "map snd bufs = map (\<lambda>g. group_bytes (snd g)) (pn_groups p)"
      by (force simp: mkRpcMem_def plan_places_def)
    have "length bufs = length (pn_groups p)" using arg_cong [OF b(5), of length] by simp
    then have "ready_for gs ios p (0 * k) 0 (Some ?q)" using b by (simp add: ready_for_def buffers_at_def)
    moreover have "0 * k + k \<le> length gs" "\<And>i. i < k \<Longrightarrow> fst (gs ! (0 * k + i)) = 0" using assms(1,2) by simp_all
    ultimately obtain oq2 where
      t: "(case qb_create qb 0 of None \<Rightarrow> Inr None
      | Some ctx \<Rightarrow> rfor (register_graph dev qb 0) [0 * k..<0 * k + k] (Some (?q\<lparr> qa_contexts := qa_contexts ?q @ [ctx] \<rparr>))) = Inr oq2"
      "ready_for gs ios p (Suc 0 * k) (Suc 0) oq2" using create_tail_total [OF _ _ _ P] by blast
    then show ?thesis using a True by (auto simp: create_context_def split: option.splits)
  next
    case False
    then show ?thesis using a by (auto simp: create_context_def ready_for_def)
  qed
qed

lemma load_after_reading:
  assumes "n \<le> 32" "read_binaries qb [0..<n] None [] = Inr (Some (count, gs))" "\<forall>(c, gi) \<in> set gs. low_rank gi"
  shows "\<exists>r. createFromBinaryHtp dev qb al n = Inr r"
proof -
  note rb = assms(2)
  obtain k where k: "\<forall>c \<in> set [0..<n]. \<exists>infos. binary_graphs qb c = Some infos \<and> length infos = k"
    "gs = concat (map (\<lambda>c. map (Pair c) (the (binary_graphs qb c))) [0..<n])" "count = (if n = 0 then None else Some k)"
    using read_binaries_spec [OF rb] by (auto split: if_splits)
  have len: "length (map (Pair x) (the (binary_graphs qb x))) = k" if "x < n" for x using k(1) that by force
  have gl: "length gs = n * k" using concat_length [of "[0..<n]" "\<lambda>c. map (Pair c) (the (binary_graphs qb c))" k] len k(2) by simp
  have at: "fst (gs ! (b * k + i)) = b" if "b < n" "i < k" for b i
    using concat_nth_block [OF that len] len [OF that(1)] that(2) by (simp add: k(2))
  have "fst ` set gs \<subseteq> {0..<n}" by (auto simp: k(2))
  then have "card (fst ` set gs) \<le> n" using card_mono [of "{0..<n}" "fst ` set gs"] by simp
  then obtain res where ps: "parseIOTensorsAndAccumulate gs = Inr res" using parse_total [of gs] assms(1,3) by auto
  show ?thesis
  proof (cases res)
    case None
    then show ?thesis by (simp add: createFromBinaryHtp_def rb ps)
  next
    case (Some ip)
    obtain ios p where ip: "res = Some (ios, p)" using Some by (cases ip) simp
    note P = parse_planned [OF ps [unfolded ip]]
    show ?thesis
    proof (cases n)
      case 0
      then have "[0..<n] = []" by simp
      then show ?thesis using rb by (simp add: createFromBinaryHtp_def ps ip del: read_binaries.simps upt_0)
    next
      case (Suc m)
      have l: "[0..<n] = 0 # [1..<1 + m]" by (simp add: Suc upt_conv_Cons del: upt_Suc)
      have c0: "fst (gs ! i) = 0" if "i < k" for i using at [of 0 i] that Suc by simp
      obtain oq where s: "create_context dev qb al k 0 (Some \<lparr> qa_graphs = gs, qa_ios = ios, qa_plan = p, qa_places = Map.empty,
          qa_contexts = [], qa_rpc = mkRpcMem al \<rparr>) = Inr oq" "ready_for gs ios p (1 * k) 1 oq"
      proof -
        have "k \<le> length gs" using gl Suc by simp
        from first_context_total [OF this c0 P(1,2), of dev qb al] that show ?thesis by auto
      qed
      have "\<exists>oq2. rfor (create_context dev qb al k) [1..<1 + m] oq = Inr oq2"
        by (rule create_contexts_total [OF s(2) _ _ _ P(1,2)]) (use gl at Suc in simp_all)
      moreover have "count = Some k" using k(3) Suc by simp
      moreover have "createFromBinaryHtp dev qb al n = rfor (create_context dev qb al k) [0..<n]
        (Some \<lparr> qa_graphs = gs, qa_ios = ios, qa_plan = p, qa_places = Map.empty, qa_contexts = [], qa_rpc = mkRpcMem al \<rparr>)"
        unfolding createFromBinaryHtp_def rb using \<open>count = Some k\<close> by (simp add: ps ip)
      ultimately show ?thesis using s(1) unfolding l by (simp del: upt_Suc)
    qed
  qed
qed

lemma load_total:
  assumes "n \<le> 32" "\<forall>c < n. \<forall>info. qb_info qb c = Some info \<longrightarrow> known_info info"
  shows "\<exists>r. createFromBinaryHtp dev qb al n = Inr r"
proof -
  obtain bs where bs: "read_binaries qb [0..<n] None [] = Inr bs"
    and lr: "\<forall>k gs. bs = Some (k, gs) \<longrightarrow> (\<forall>(c, gi) \<in> set gs. low_rank gi)"
    using read_binaries_total [of "[0..<n]" qb "[]" None] assms(2) by auto
  show ?thesis
  proof (cases bs)
    case (Some cg)
    obtain count gs where cg: "bs = Some (count, gs)" using Some by (cases cg) simp
    have "\<forall>(c, gi) \<in> set gs. low_rank gi" using lr cg by blast
    from load_after_reading [OF assms(1) bs [unfolded cg] this] show ?thesis .
  qed (simp add: createFromBinaryHtp_def bs)
qed

section \<open>Properties\<close>



text \<open>The conditions are needed: what a graph of version 2, and a tensor of rank five, lead to.\<close>

lemma unknown_graph:
  assumes "qb_info qb 0 = Some (Some b)" "bm_version b \<in> {1, 2, 3}" "bm_graphs b = Some (m # ms)" "gm_version m = 2" "0 < n"
  shows "createFromBinaryHtp dev qb al n = Inl UndefinedBehaviour"
proof -
  have "[0..<n] = 0 # [1..<n]" using assms(5) by (simp add: upt_conv_Cons)
  moreover have "copyMetadataToGraphsInfo (Some b) = (Some (length (m # ms)), Some (None # copyGraphsInfo ms))"
    using assms(2-4) by (auto simp: copyMetadataToGraphsInfo_def copyGraphsInfo_def)
  ultimately show ?thesis using assms(1) by (simp add: createFromBinaryHtp_def read_struct_def)
qed

lemma high_rank:
  assumes "4 < length (qt_dims t)" "length (qt_dims t) < 2 ^ 31" "gi_inputs gi = t # ts"
  shows "parseIOTensorsAndAccumulate ((c, gi) # gs) = Inl (RuntimeError ''bad_alloc'')"
  using fillDims_long [OF assms(1,2)] assms(3)
  by (simp add: parseIOTensorsAndAccumulate_def note_graph_def graph_io_def note_tensor_def getTensorShape_def)

text \<open>The thirty-third context has no bit left.\<close>

lemma too_many_contexts:
  assumes "length (pn_bits p) = 32" "c \<notin> fst ` set (pn_bits p)"
  shows "plan_graph (c, io) p = Inl UndefinedBehaviour"
  using assms by (simp add: plan_graph_def context_bit_def map_of_eq_None_iff [THEN iffD2] Let_def)

end
