(* ===== verification/LoadedModels.thy ===== *)
theory LoadedModels
  imports LoadTotal Models
begin

text \<open>
  The shared tensor buffers under a \<open>Model\<close>: \<open>Model::initialize\<close> sets a \<open>Graph\<close> up for each graph
  of the load and takes the pointers of its tensors from \<open>IOTensor::getBuffer\<close>. The buffers of
  \<open>Graphs\<close> and \<open>Models\<close> are then the addresses of the load, and the sharing that the
  key/value cache relies on is a consequence of the names.
\<close>

definition ptr_of :: "rpc \<Rightarrow> tref \<Rightarrow> nat option" where
  "ptr_of r t = (case getBuffer r t of Inl _ \<Rightarrow> None | Inr p \<Rightarrow> p)"

definition api_graphs :: "qnn_api \<Rightarrow> loaded_graph list" where
  "api_graphs q = map (\<lambda>g. (snd (qa_graphs q ! g), \<lambda>i. ptr_of (qa_rpc q) (g, True, i), \<lambda>i. ptr_of (qa_rpc q) (g, False, i)))
     [0..<length (qa_graphs q)]"

definition tensor_ptr :: "graph \<Rightarrow> bool \<Rightarrow> string \<Rightarrow> nat option res" where
  "tensor_ptr g io n = (if io then inputPtr g n else outputPtr g n)"

lemma io_wf_ptr:
  assumes "io_wf ts specs index ptr sizes get" "ptr n = Some (Some a)"
  shows "\<exists>k < length ts. qt_name (ts ! k) = n \<and> get k = Some a"
  using assms unfolding io_wf_def by metis

lemma wired_tensor:
  assumes "add_graphs (api_graphs q) md = (Inr True, md2)" "m_graphs md = []"
    and "i < length (m_graphs md2)" "tensor_ptr (m_graphs md2 ! i) io n = Inr (Some a)"
  shows "\<exists>t qt. tensor_of q i t qt \<and> qt_name qt = n \<and> getBuffer (qa_rpc q) t = Inr (Some a)"
proof -
  obtain gs where gs: "m_graphs md2 = gs" "list_all2 (\<lambda>g (gi, get_in, get_out). graph_wf get_in get_out g \<and> g_name g = gi_name gi
     \<and> g_inputs g = gi_inputs gi \<and> g_outputs g = gi_outputs gi) gs (api_graphs q)"
    using add_graphs_wf [OF assms(1)] assms(2) by auto
  have len: "length gs = length (qa_graphs q)" using list_all2_lengthD [OF gs(2)] by (simp add: api_graphs_def)
  have i: "i < length gs" using assms(3) gs(1) by simp
  let ?gi = "snd (qa_graphs q ! i)"
  have w: "graph_wf (\<lambda>k. ptr_of (qa_rpc q) (i, True, k)) (\<lambda>k. ptr_of (qa_rpc q) (i, False, k)) (gs ! i)"
    "g_inputs (gs ! i) = gi_inputs ?gi" "g_outputs (gs ! i) = gi_outputs ?gi"
    using list_all2_nthD [OF gs(2) i] i len by (simp_all add: api_graphs_def)
  have "io_wf (gi_inputs ?gi) (g_in_specs (gs ! i)) (g_in_index (gs ! i)) (g_in_ptr (gs ! i)) (g_in_sizes (gs ! i)) (\<lambda>k. ptr_of (qa_rpc q) (i, True, k))"
    "io_wf (gi_outputs ?gi) (g_out_specs (gs ! i)) (g_out_index (gs ! i)) (g_out_ptr (gs ! i)) (g_out_sizes (gs ! i)) (\<lambda>k. ptr_of (qa_rpc q) (i, False, k))"
    using w by (simp_all add: graph_wf_def)
  moreover have "(if io then g_in_ptr (gs ! i) else g_out_ptr (gs ! i)) n = Some (Some a)"
    using assms(4) gs(1) by (simp add: tensor_ptr_def inputPtr_def outputPtr_def at_map_def split: if_splits option.splits)
  ultimately have "\<exists>k < length (if io then gi_inputs ?gi else gi_outputs ?gi).
      qt_name ((if io then gi_inputs ?gi else gi_outputs ?gi) ! k) = n \<and> ptr_of (qa_rpc q) (i, io, k) = Some a"
    by (cases io) (simp_all add: io_wf_ptr)
  then obtain k where k: "k < length (if io then gi_inputs ?gi else gi_outputs ?gi)"
    "qt_name ((if io then gi_inputs ?gi else gi_outputs ?gi) ! k) = n" "ptr_of (qa_rpc q) (i, io, k) = Some a" by blast
  have "getBuffer (qa_rpc q) (i, io, k) = Inr (Some a)" using k(3) by (simp add: ptr_of_def split: sum.splits)
  moreover have "tensor_of q i (i, io, k) ((if io then gi_inputs ?gi else gi_outputs ?gi) ! k)"
    using k(1) i len by (cases io) (auto simp: tensor_of_def graph_tensors_def)
  ultimately show ?thesis using k(2) by blast
qed

text \<open>A graph with distinct names, whose tensors all have bytes the planner can count.\<close>

definition regular_graph :: "graph_info \<Rightarrow> bool" where
  "regular_graph gi \<longleftrightarrow> distinct (map qt_name (gi_inputs gi @ gi_outputs gi))
     \<and> (\<forall>qt \<in> set (gi_inputs gi @ gi_outputs gi). \<exists>b > 0. regular qt b)"

text \<open>
  When a tensor name stands for one buffer in two graphs: a cache output must have as many bytes of
  cache input in front of it in both, a cache input the same cache output behind it everywhere.
\<close>

definition same_place :: "qnn_api \<Rightarrow> nat \<Rightarrow> nat \<Rightarrow> string \<Rightarrow> bool" where
  "same_place q i j n \<longleftrightarrow> (if is_cache_in n then one_output q n
     else is_cache n \<longrightarrow> kv_room (qa_ios q ! i) n = kv_room (qa_ios q ! j) n)"

text \<open>C18: when a model sets its graphs up on a successful load, the pointers that two graphs have
  for a tensor name are the same, for a cache output if the cache input in front of it has the
  same bytes in both graphs, which is also necessary, and for a cache input if all graphs
  agree on the name of its cache output; different names of one graph stand for different
  pointers, in a graph whose names are distinct and whose tensors have sizes the planner can
  tell\<close>

theorem wired_graphs:
  assumes "loads dev qb k q" "add_graphs (api_graphs q) md = (Inr True, md2)" "m_graphs md = []"
    and "i < length (m_graphs md2)" "tensor_ptr (m_graphs md2 ! i) io1 n1 = Inr (Some a)"
    and "j < length (m_graphs md2)" "tensor_ptr (m_graphs md2 ! j) io2 n2 = Inr (Some b)"
  shows "(n1 = n2 \<and> same_place q i j n1 \<longrightarrow> a = b)
    \<and> (n1 = n2 \<and> \<not> is_cache_in n1 \<and> a = b \<longrightarrow> same_place q i j n1)
    \<and> (i = j \<and> n1 \<noteq> n2 \<and> regular_graph (snd (qa_graphs q ! i)) \<longrightarrow> a \<noteq> b)"
proof -
  obtain t1 q1 where t1: "tensor_of q i t1 q1" "qt_name q1 = n1" "getBuffer (qa_rpc q) t1 = Inr (Some a)"
    using wired_tensor [OF assms(2-5)] by blast
  obtain t2 q2 where t2: "tensor_of q j t2 q2" "qt_name q2 = n2" "getBuffer (qa_rpc q) t2 = Inr (Some b)"
    using wired_tensor [OF assms(2,3,6,7)] by blast
  note S = same_address [OF assms(1) t1(1) t2(1) t1(2) _ t1(3) t2(3)]
  have "a = b" if "n1 = n2" "same_place q i j n1"
  proof (cases "is_cache_in n1")
    case True
    then show ?thesis using S(2) that t2(2) by (simp add: same_place_def)
  next
    case False
    moreover have "kv_room (qa_ios q ! i) n1 = kv_room (qa_ios q ! j) n1"
      using that(2) False by (cases "is_cache n1") (simp_all add: same_place_def kv_room_def kv_in_of_def)
    ultimately show ?thesis using S(1) that(1) t2(2) by simp
  qed
  moreover have "same_place q i j n1" if "n1 = n2" "\<not> is_cache_in n1" "a = b"
    using S(1) that t2(2) by (simp add: same_place_def)
  moreover have "a \<noteq> b" if c: "i = j" "n1 \<noteq> n2" "regular_graph (snd (qa_graphs q ! i))"
  proof -
    have mem: "q1 \<in> set (gi_inputs (snd (qa_graphs q ! i)) @ gi_outputs (snd (qa_graphs q ! i)))"
      "q2 \<in> set (gi_inputs (snd (qa_graphs q ! i)) @ gi_outputs (snd (qa_graphs q ! i)))"
      using t1(1) t2(1) c(1) graph_tensors_graph unfolding tensor_of_def by blast+
    then obtain b1 b2 where b: "regular q1 b1" "0 < b1" "regular q2 b2" "0 < b2"
      using c(3) unfolding regular_graph_def by blast
    have "a + b1 \<le> b \<or> b + b2 \<le> a"
      by (rule disjoint_addresses [OF assms(1) t1(1) t2(1) [folded c(1)] _ _ b(1,3) t1(3) t2(3)])
        (use c(2,3) t1(2) t2(2) in \<open>simp_all add: regular_graph_def\<close>)
    then show ?thesis using b(2,4) by auto
  qed
  ultimately show ?thesis by blast
qed

section \<open>A concrete instance\<close>

definition demo_model :: model where
  "demo_model = \<lparr> m_graphs = [], m_mem = (\<lambda>b. []), m_initialized = False \<rparr>"

lemma demo_api_graphs: "api_graphs demo_api =
   [(demo_infos 0, \<lambda>i. ptr_of (qa_rpc demo_api) (0, True, i), \<lambda>i. ptr_of (qa_rpc demo_api) (0, False, i)),
    (demo_infos 1, \<lambda>i. ptr_of (qa_rpc demo_api) (1, True, i), \<lambda>i. ptr_of (qa_rpc demo_api) (1, False, i)),
    (demo_infos 2, \<lambda>i. ptr_of (qa_rpc demo_api) (2, True, i), \<lambda>i. ptr_of (qa_rpc demo_api) (2, False, i))]"
  using demo_loaded(2) by (simp add: api_graphs_def demo_check_def upt_conv_Cons numeral_2_eq_2)

lemma demo_wired: "\<exists>md2. add_graphs (api_graphs demo_api) demo_model = (Inr True, md2) \<and> length (m_graphs md2) = 3
   \<and> tensor_ptr (m_graphs md2 ! 0) True ''past_in'' = Inr (Some 64) \<and> tensor_ptr (m_graphs md2 ! 2) True ''past_in'' = Inr (Some 64)
   \<and> tensor_ptr (m_graphs md2 ! 0) False ''past_o'' = Inr (Some 72) \<and> tensor_ptr (m_graphs md2 ! 2) False ''past_o'' = Inr (Some 72)"
  by (simp add: demo_api_graphs demo_infos_def demo_model_def sbind_run sthen_run sx_simps add_graph_def graph_setup_def mkGraph_def
      supd_def setup_input_def setup_output_def Let_def tensorByteSize_def dtypeBytes_def demo_tensor_def buildSpecs_def upt_conv_Cons
      tensor_ptr_def inputPtr_def outputPtr_def at_map_def ptr_of_def demo_addresses_at demo_addresses_at [unfolded One_nat_def])

text \<open>The cache input and the cache output of the first and of the third graph.\<close>

theorem wired_graphs_witness:
  "\<exists>md2 a b. add_graphs (api_graphs demo_api) demo_model = (Inr True, md2)
     \<and> tensor_ptr (m_graphs md2 ! 0) True ''past_in'' = Inr (Some a) \<and> tensor_ptr (m_graphs md2 ! 2) True ''past_in'' = Inr (Some a)
     \<and> tensor_ptr (m_graphs md2 ! 0) False ''past_o'' = Inr (Some b) \<and> tensor_ptr (m_graphs md2 ! 2) False ''past_o'' = Inr (Some b)"
proof -
  obtain md2 where m: "add_graphs (api_graphs demo_api) demo_model = (Inr True, md2)" "length (m_graphs md2) = 3"
    and p: "tensor_ptr (m_graphs md2 ! 0) True ''past_in'' = Inr (Some 64)" "tensor_ptr (m_graphs md2 ! 2) True ''past_in'' = Inr (Some 64)"
      "tensor_ptr (m_graphs md2 ! 0) False ''past_o'' = Inr (Some 72)" "tensor_ptr (m_graphs md2 ! 2) False ''past_o'' = Inr (Some 72)"
    using demo_wired by blast
  have i: "(0 :: nat) < length (m_graphs md2)" "2 < length (m_graphs md2)" using m(2) by simp_all
  have "m_graphs demo_model = []" by (simp add: demo_model_def)
  note W = wired_graphs [OF demo_loads m(1) this]
  have "same_place demo_api 0 2 ''past_in''" "same_place demo_api 0 2 ''past_o''"
    using demo_one_output demo_rooms by (simp_all add: same_place_def is_cache_in_def is_cache_def)
  then have "(64 :: nat) = 64 \<and> (72 :: nat) = 72"
    using W [OF i(1) p(1) i(2) p(2)] W [OF i(1) p(3) i(2) p(4)] by blast
  then show ?thesis using m p by blast
qed

end
