(* ===== verification/GraphExecute.thy ===== *)
theory GraphExecute
  imports LLMRun
begin

text \<open>
  \<open>QnnApi::graphExecute\<close> of \<open>qnn-api/src/QnnApi.cpp\<close>, which \<open>Graph::execute\<close> calls: the hooks
  of the backend extensions around the call of the backend, and what becomes of its result. The
  backend and the extensions are a record of functions; an exception they throw is the value
  \<open>None\<close>. Profiling only writes the time logs and is left out.
\<close>

record exec_backend =
  xb_ext :: bool
  xb_before :: "string \<Rightarrow> bool \<times> nat list option"
  xb_setConfig :: "string \<Rightarrow> nat list \<Rightarrow> bool"
  xb_run :: "graph \<Rightarrow> mem \<Rightarrow> nat option \<times> mem"
  xb_after :: bool

definition setGraphConfigsBeforeExecute :: "exec_backend \<Rightarrow> string \<Rightarrow> nat list \<Rightarrow> bool" where
  "setGraphConfigsBeforeExecute xb n cfgs = (if cfgs = [] then False else xb_setConfig xb n cfgs)"

definition before_execute :: "exec_backend \<Rightarrow> string \<Rightarrow> bool" where
  "before_execute xb n = (if xb_ext xb
     then (case xb_before xb n of (ok, cfgs) \<Rightarrow>
       if \<not> ok then False else (case cfgs of None \<Rightarrow> True | Some cs \<Rightarrow> setGraphConfigsBeforeExecute xb n cs))
     else True)"

text \<open>The result of the call starts as \<open>QNN_GRAPH_NO_ERROR\<close>, which is 0, and keeps that value when
  the call throws.\<close>

definition graphExecute :: "exec_backend \<Rightarrow> graph \<Rightarrow> mem \<Rightarrow> bool \<times> mem" where
  "graphExecute xb g m = (if \<not> before_execute xb (g_name g) then (False, m)
     else (case xb_run xb g m of (r, m2) \<Rightarrow>
       let ret = (case r of None \<Rightarrow> 0 | Some e \<Rightarrow> e) in
       if ret \<noteq> 0 then (False, m2)
       else if xb_ext xb \<and> \<not> xb_after xb then (False, m2)
       else (True, m2)))"

lemma graphExecute_error:
  assumes "before_execute xb (g_name g)" "xb_run xb g m = (Some e, m2)" "e \<noteq> 0"
  shows "graphExecute xb g m = (False, m2)"
  using assms by (simp add: graphExecute_def)

lemma graphExecute_refused:
  assumes "\<not> before_execute xb (g_name g)"
  shows "graphExecute xb g m = (False, m)"
  using assms by (simp add: graphExecute_def)

text \<open>An exception of the backend is logged and then reported as success: the model goes on with
  whatever the output buffers hold.\<close>

lemma execute_swallows_exception:
  fixes st :: "('p, 'a) llm_scheme"
  assumes "before_execute xb (g_name g)" "xb_run xb g (m_mem st) = (None, m2)" "xb_ext xb \<longrightarrow> xb_after xb"
  shows "execute (env\<lparr> e_exec := graphExecute xb \<rparr>) g st = (Inr (), st\<lparr> m_mem := m2 \<rparr>)"
  using assms by (simp add: execute_def graphExecute_def)

lemma execute_reports_error:
  fixes st :: "('p, 'a) llm_scheme"
  assumes "before_execute xb (g_name g)" "xb_run xb g (m_mem st) = (Some e, m2)" "e \<noteq> 0"
  shows "execute (env\<lparr> e_exec := graphExecute xb \<rparr>) g st
    = (Inl (RuntimeError ''Graph execute failed''), st\<lparr> m_mem := m2 \<rparr>)"
  using graphExecute_error [OF assms] by (simp add: execute_def)

text \<open>A configuration list that is there but empty stops the execution, although the extension
  reported success.\<close>

lemma empty_configs_refused:
  assumes "xb_ext xb" "xb_before xb (g_name g) = (True, Some [])"
  shows "graphExecute xb g m = (False, m)"
  using assms by (simp add: graphExecute_def before_execute_def setGraphConfigsBeforeExecute_def)

end
