(* ===== verification/LLMStream.thy ===== *)
theory LLMStream
  imports LLMGenerate
begin

text \<open>
  \<open>LLMModel::generate\<close> with a token callback that has a state of its own, as the pipelines pass
  one. The state is kept beside the model's, so it survives a generation that throws. A run with
  such a callback is the run with its answers (\<open>generate_cb_replays\<close>), so what is known of
  \<open>generate\<close> holds of it.
\<close>

section \<open>A model and a callback\<close>

type_synonym 'c callback = "int \<Rightarrow> 'c \<Rightarrow> bool \<times> 'c"

definition on_model :: "('s, 'a) sx \<Rightarrow> ('s \<times> 'c, 'a) sx" where
  "on_model m = (\<lambda>(s, c). case m s of (r, s') \<Rightarrow> (r, (s', c)))"

definition call_cb :: "'c callback \<Rightarrow> int \<Rightarrow> ('s \<times> 'c, bool) sx" where
  "call_cb cb tok = (\<lambda>(s, c). case cb tok c of (b, c') \<Rightarrow> (Inr b, (s, c')))"

lemma on_model_run: "on_model m (s, c) = (case m s of (r, s') \<Rightarrow> (r, (s', c)))"
  by (simp add: on_model_def)

lemma call_cb_run: "call_cb cb tok (s, c) = (Inr (fst (cb tok c)), (s, snd (cb tok c)))"
  by (simp add: call_cb_def case_prod_beta)

section \<open>Generation\<close>

fun decode_loop_cb :: "'p env \<Rightarrow> gen_config \<Rightarrow> 'c callback \<Rightarrow> nat \<Rightarrow> nat \<Rightarrow> nat \<Rightarrow> int \<Rightarrow> int list
    \<Rightarrow> (('p, 'a) llm_scheme \<times> 'c, int list) sx" where
  "decode_loop_cb env cfg cb max_cl n_keep 0 next_token out = sret out"
| "decode_loop_cb env cfg cb max_cl n_keep (Suc steps) next_token out = swith (\<lambda>(st, _).
     if next_token \<in> set (sp_eos_token_ids (l_spec st)) then sret out
     else sbind (call_cb cb next_token) (\<lambda>go.
            if \<not> go then sret (out @ [next_token])
            else sbind (on_model (decode_step env cfg max_cl n_keep next_token)) (\<lambda>tok.
                   decode_loop_cb env cfg cb max_cl n_keep steps tok (out @ [next_token]))))"

text \<open>Everything before the loop: the first token, and what bounds the loop.\<close>

definition gen_prologue :: "'p env \<Rightarrow> gen_config \<Rightarrow> int list \<Rightarrow> (('p, 'a) llm_scheme, int \<times> nat \<times> nat) sx" where
  "gen_prologue env cfg prompt =
     sthen (smod (prepareSampler env cfg prompt))
    (swith (\<lambda>st. let max_cl = gen_max_cl st; n_keep = gen_n_keep cfg st in
     if sp_context_lengths (l_spec st) = [] then sthrow UndefinedBehaviour
     else sthen (gen_admit env cfg max_cl n_keep (length prompt))
    (sbind (prefillChunks env prompt) (\<lambda>last_size.
     sthen (swith (\<lambda>st. restride_phase 0 1 (l_n_past st)))
    (sbind (sampleNextToken env 0 (szsub last_size 1)) (\<lambda>tok.
     sthen (smod gen_start_keeper) (sret (tok, max_cl, n_keep))))))))"

definition generate_cb :: "'p env \<Rightarrow> gen_config \<Rightarrow> 'c callback \<Rightarrow> int list \<Rightarrow> (('p, 'a) llm_scheme \<times> 'c, int list) sx" where
  "generate_cb env cfg cb prompt =
     sbind (on_model (gen_prologue env cfg prompt)) (\<lambda>(tok, max_cl, n_keep).
     sbind (decode_loop_cb env cfg cb max_cl n_keep (nat (gc_max_tokens cfg)) tok []) (\<lambda>out.
     sthen (on_model decode_finish) (sret out)))"

section \<open>Replaying a run\<close>

text \<open>The state of the callback after some tokens, and what it answered the last of them.\<close>

fun after :: "'c callback \<Rightarrow> 'c \<Rightarrow> int list \<Rightarrow> 'c" where
  "after cb c [] = c"
| "after cb c (t # ts) = after cb (snd (cb t c)) ts"

definition answer :: "'c callback \<Rightarrow> 'c \<Rightarrow> int list \<Rightarrow> bool" where
  "answer cb c out \<longleftrightarrow> out = [] \<or> fst (cb (last out) (after cb c (butlast out)))"

lemma after_append: "after cb c (xs @ ys) = after cb (after cb c xs) ys"
  by (induction xs arbitrary: c) simp_all

lemma answer_snoc: "answer cb c (out @ [t]) = fst (cb t (after cb c out))"
  by (simp add: answer_def)

definition replays :: "'c callback \<Rightarrow> 'c \<Rightarrow> nat \<Rightarrow> int list \<Rightarrow> int list res \<Rightarrow> int list \<Rightarrow> bool" where
  "replays cb c steps out r log \<longleftrightarrow> length log \<le> steps \<and> (\<forall>os. r = Inr os \<longrightarrow> os = out @ log)
     \<and> (\<forall>k. 0 < k \<and> k < length log \<longrightarrow> answer cb c (out @ take k log))"

lemma decode_loop_replays:
  assumes "decode_loop_cb env cfg cb max_cl n_keep steps tok out (st, after cb c out) = (r, (st', c'))"
  shows "\<exists>log. decode_loop env cfg (answer cb c) max_cl n_keep steps tok out st = (r, st')
    \<and> c' = after cb c (out @ log) \<and> replays cb c steps out r log"
  using assms
proof (induction steps arbitrary: tok out st)
  case 0
  then show ?case by (intro exI [of _ "[]"]) (auto simp: sx_simps replays_def)
next
  case (Suc n)
  let ?c1 = "after cb c (out @ [tok])"
  have c1: "snd (cb tok (after cb c out)) = ?c1" by (simp add: after_append)
  consider (eos) "tok \<in> set (sp_eos_token_ids (l_spec st))"
    | (stop) "tok \<notin> set (sp_eos_token_ids (l_spec st))" "\<not> answer cb c (out @ [tok])"
    | (go) "tok \<notin> set (sp_eos_token_ids (l_spec st))" "answer cb c (out @ [tok])" by blast
  then show ?case
  proof cases
    case eos
    with Suc.prems show ?thesis by (intro exI [of _ "[]"]) (auto simp: sx_simps replays_def)
  next
    case stop
    with Suc.prems show ?thesis
      by (intro exI [of _ "[tok]"]) (auto simp: sx_simps Let_def sbind_run call_cb_run c1 answer_snoc replays_def)
  next
    case go
    obtain r1 st1 where d: "decode_step env cfg max_cl n_keep tok st = (r1, st1)" by fastforce
    show ?thesis
    proof (cases r1)
      case (Inl e)
      with Suc.prems go d show ?thesis
        by (intro exI [of _ "[tok]"]) (auto simp: sx_simps Let_def sbind_run call_cb_run on_model_run c1 answer_snoc replays_def)
    next
      case (Inr t)
      with Suc.prems go d have "decode_loop_cb env cfg cb max_cl n_keep n t (out @ [tok]) (st1, ?c1) = (r, (st', c'))"
        by (simp add: sx_simps sbind_run call_cb_run on_model_run c1 answer_snoc)
      from Suc.IH [OF this] obtain log where
        l: "decode_loop env cfg (answer cb c) max_cl n_keep n t (out @ [tok]) st1 = (r, st')"
        "c' = after cb c ((out @ [tok]) @ log)" "replays cb c n (out @ [tok]) r log" by blast
      have "replays cb c (Suc n) out r (tok # log)" unfolding replays_def
      proof (intro conjI allI impI)
        fix k assume k: "0 < k \<and> k < length (tok # log)"
        then obtain j where "k = Suc j" by (cases k) auto
        with k l(3) go(2) show "answer cb c (out @ take k (tok # log))" by (cases j) (auto simp: replays_def)
      qed (use l(3) go(2) in \<open>auto simp: replays_def\<close>)
      then show ?thesis using l go d Inr by (intro exI [of _ "tok # log"]) (simp add: sx_simps Let_def sbind_run)
    qed
  qed
qed

lemma sbind_assoc: "sbind (sbind m f) g = sbind m (\<lambda>a. sbind (f a) g)"
  by (rule ext) (simp add: sbind_def split: prod.splits sum.splits)

lemma sbind_laws:
  "sbind (sret a) f = f a" "sbind (sthrow e) f = sthrow e" "sbind (swith h) f = swith (\<lambda>s. sbind (h s) f)"
  by (simp_all add: sx_defs fun_eq_iff)

lemma sbind_if: "sbind (if b then m else k) f = (if b then sbind m f else sbind k f)"
  by simp

lemma generate_split:
  "generate env cfg cb prompt = sbind (gen_prologue env cfg prompt) (\<lambda>(tok, max_cl, n_keep).
     sbind (decode_loop env cfg cb max_cl n_keep (nat (gc_max_tokens cfg)) tok []) (\<lambda>out. sthen decode_finish (sret out)))"
  unfolding generate_def gen_prologue_def Let_def sthen_def by (simp only: sbind_assoc sbind_laws sbind_if prod.case)

lemma generate_cb_replays:
  assumes "generate_cb env cfg cb prompt (st, c) = (r, (st', c'))"
  shows "\<exists>log. generate env cfg (answer cb c) prompt st = (r, st') \<and> c' = after cb c log
    \<and> replays cb c (nat (gc_max_tokens cfg)) [] r log"
proof -
  obtain r1 st1 where p: "gen_prologue env cfg prompt st = (r1, st1)" by fastforce
  show ?thesis
  proof (cases r1)
    case (Inl e)
    then show ?thesis using assms p
      by (intro exI [of _ "[]"]) (auto simp: generate_split generate_cb_def sbind_run on_model_run replays_def)
  next
    case (Inr x)
    obtain tok max_cl n_keep where x: "x = (tok, max_cl, n_keep)" by (cases x)
    let ?n = "nat (gc_max_tokens cfg)"
    obtain r2 st2 c2 where d: "decode_loop_cb env cfg cb max_cl n_keep ?n tok [] (st1, c) = (r2, (st2, c2))" by (metis prod.exhaust)
    then obtain log where l: "decode_loop env cfg (answer cb c) max_cl n_keep ?n tok [] st1 = (r2, st2)"
      "c2 = after cb c log" "replays cb c ?n [] r2 log"
      using decode_loop_replays [of env cfg cb max_cl n_keep ?n tok "[]" st1 c r2 st2 c2] by auto
    have run: "(case (r2, (st2, c2)) of (Inl e, s) \<Rightarrow> (Inl e, s) | (Inr out, s) \<Rightarrow> sthen (on_model decode_finish) (sret out) s) = (r, (st', c'))"
      using assms p Inr x d by (simp add: generate_cb_def sbind_run on_model_run split: sum.splits)
    have gen: "generate env cfg (answer cb c) prompt st = (case (r2, st2) of (Inl e, s) \<Rightarrow> (Inl e, s) | (Inr out, s) \<Rightarrow> sthen decode_finish (sret out) s)"
      using p Inr x l(1) by (simp add: generate_split sbind_run split: sum.splits)
    show ?thesis
    proof (cases r2)
      case (Inl e)
      then show ?thesis using run gen l by (intro exI [of _ log]) auto
    next
      case (Inr out)
      obtain r3 st3 where f: "decode_finish st2 = (r3, st3)" by fastforce
      have "out = log" using l(3) Inr by (simp add: replays_def)
      then show ?thesis using run gen l Inr f
        by (cases r3) (auto simp: sthen_run on_model_run sx_simps replays_def intro!: exI [of _ log])
    qed
  qed
qed

end
