(* ===== verification/FloatRound.thy ===== *)
theory FloatRound
  imports Floats
begin

text \<open>
  A number kept exactly: widening a float to a double and narrowing it again, as the code does
  with every scale, frequency and setting it stores as a float, gives the same float.
\<close>

lemma bitlen_le: "n < 2 ^ k \<Longrightarrow> bitlen n \<le> k"
proof (induction k arbitrary: n)
  case 0
  then show ?case by simp
next
  case (Suc k)
  have "n div 2 < 2 ^ k" using Suc.prems by (simp add: less_mult_imp_div_less mult.commute)
  then show ?case using Suc.IH [of "n div 2"] by (subst bitlen.simps) simp
qed

lemma bitlen_ge: "2 ^ k \<le> n \<Longrightarrow> Suc k \<le> bitlen n"
proof (induction k arbitrary: n)
  case 0
  then show ?case by (subst bitlen.simps) simp
next
  case (Suc k)
  have "2 ^ k \<le> n div 2" using Suc.prems by (simp add: less_eq_div_iff_mult_less_eq mult.commute)
  moreover have "n \<noteq> 0" using Suc.prems by (metis less_eq_nat.simps(1) not_one_le_zero one_le_numeral one_le_power order_trans)
  ultimately show ?case using Suc.IH [of "n div 2"] by (subst bitlen.simps) simp
qed

lemma bitlen_eq: "2 ^ k \<le> n \<Longrightarrow> n < 2 ^ Suc k \<Longrightarrow> bitlen n = Suc k"
  using bitlen_le [of n "Suc k"] bitlen_ge [of k n] by simp

lemma bitlen_shift: "0 < m \<Longrightarrow> bitlen (m * 2 ^ j) = bitlen m + j"
proof (induction j)
  case 0
  then show ?case by simp
next
  case (Suc j)
  then show ?case using bitlen_double(1) [of "m * 2 ^ j"] by (simp add: ac_simps)
qed

lemma bitlen_bounds: "0 < n \<Longrightarrow> 2 ^ (bitlen n - 1) \<le> n \<and> n < 2 ^ bitlen n"
proof (induction n rule: bitlen.induct)
  case (1 n)
  show ?case
  proof (cases "n div 2 = 0")
    case True
    then have "n = 1" using "1.prems" by presburger
    then show ?thesis by simp
  next
    case False
    then have b: "bitlen n = Suc (bitlen (n div 2))" "bitlen (n div 2) \<noteq> 0"
      by (subst bitlen.simps, simp)+
    then obtain k where k: "bitlen (n div 2) = Suc k" by (cases "bitlen (n div 2)") auto
    have "2 ^ k \<le> n div 2 \<and> n div 2 < 2 ^ Suc k" using "1.IH" "1.prems" False k by simp
    then have "2 * 2 ^ k \<le> n \<and> n < 2 * 2 ^ Suc k" by linarith
    then show ?thesis by (simp add: b(1) k)
  qed
qed

lemma round_exact: "round_half_even (m * 2 ^ r) r = m"
  by (simp add: round_half_even_def Let_def)

lemma round_shift: "round_half_even (m * 2 ^ j) (r + j) = round_half_even m r"
proof -
  have "m * 2 ^ j div 2 ^ (r + j) = m div 2 ^ r" by (simp add: power_add)
  moreover have "m * 2 ^ j mod 2 ^ (r + j) = (m mod 2 ^ r) * 2 ^ j" by (simp add: power_add mult_mod_left)
  ultimately show ?thesis by (simp add: round_half_even_def Let_def power_add)
qed

text \<open>The pattern depends on the number only, not on how mantissa and exponent share it.\<close>

lemma fround_mag_shift:
  assumes "0 < m"
  shows "fround_mag F (m * 2 ^ j) (e - int j) = fround_mag F m e"
proof -
  define q where "q = max (e + int (bitlen m) - int (f_prec F)) (f_min F)"
  have q: "max (e - int j + int (bitlen (m * 2 ^ j)) - int (f_prec F)) (f_min F) = q"
    using bitlen_shift [OF assms, of j] by (simp add: q_def)
  have k: "(if q \<le> e - int j then m * 2 ^ j * 2 ^ nat (e - int j - q) else round_half_even (m * 2 ^ j) (nat (q - (e - int j))))
    = (if q \<le> e then m * 2 ^ nat (e - q) else round_half_even m (nat (q - e)))"
  proof (cases "q \<le> e")
    case True
    show ?thesis
    proof (cases "q \<le> e - int j")
      case True
      then have "nat (e - q) = j + nat (e - int j - q)" by simp
      then show ?thesis using True \<open>q \<le> e\<close> by (simp add: power_add mult.assoc)
    next
      case False
      define r where "r = nat (q - (e - int j))"
      have j: "j = nat (e - q) + r" using False True by (simp add: r_def)
      have "m * 2 ^ j = (m * 2 ^ nat (e - q)) * 2 ^ r" by (subst j) (simp add: power_add mult.assoc)
      then have "round_half_even (m * 2 ^ j) r = m * 2 ^ nat (e - q)" by (simp only: round_exact)
      then show ?thesis using False True by (simp add: r_def)
    qed
  next
    case False
    then have "nat (q - (e - int j)) = nat (q - e) + j" by simp
    then show ?thesis using False by (simp add: round_shift)
  qed
  show ?thesis using assms by (simp add: fround_mag_def Let_def q k flip: q_def)
qed

text \<open>The value of a float: its mantissa has at most 24 bits, and encoding it gives the pattern back.\<close>

lemma f32_cases:
  assumes "n < 2 ^ 32"
  obtains s where "fdecode F32 n = FInf s" "n = 255 * 2 ^ 23 + (if s then 2 ^ 31 else 0)"
  | "fdecode F32 n = FNaN"
  | s m e where "fdecode F32 n = FFin s m e" "m < 2 ^ 24" "- 149 \<le> e" "e \<le> 104" "m < 2 ^ 23 \<longrightarrow> e = - 149"
      "n = nat (e + 149) * 2 ^ 23 + m + (if s then 2 ^ 31 else 0)"
proof -
  define s where "s = odd (n div 2 ^ 31)"
  define mag where "mag = n mod 2 ^ 31"
  define x where "x = mag div 2 ^ 23"
  define y where "y = mag mod 2 ^ 23"
  have "n div 2 ^ 31 < 2" using assms by (simp add: less_mult_imp_div_less)
  then have "n div 2 ^ 31 = (if s then 1 else 0)" unfolding s_def by (cases "n div 2 ^ 31") auto
  then have n: "n = mag + (if s then 2 ^ 31 else 0)" unfolding mag_def
    using div_mult_mod_eq [of n "2 ^ 31"] by (auto split: if_splits)
  have "mag < 2 ^ 31" by (simp add: mag_def)
  then have x: "x \<le> 255" and y: "y < 2 ^ 23" and xy: "mag = x * 2 ^ 23 + y" unfolding x_def y_def by auto
  have d: "fdecode F32 n = (if x = 255 then (if y = 0 then FInf s else FNaN)
      else if x = 0 then FFin s y (- 149) else FFin s (y + 2 ^ 23) (int x - 150))"
    by (simp add: fdecode_def Let_def s_def mag_def x_def y_def)
  consider (inf) "x = 255" "y = 0" | (nan) "x = 255" "y \<noteq> 0" | (sub) "x = 0" | (normal) "0 < x" "x < 255" using x by linarith
  then show ?thesis
  proof cases
    case inf
    then show ?thesis using that(1) [of s] d n xy by simp
  next
    case nan
    then show ?thesis using that(2) d by simp
  next
    case sub
    then show ?thesis using that(3) [of s y "- 149"] d n xy y by simp
  next
    case normal
    have "nat (int x - 150 + 149) = x - 1" by simp
    moreover have "(x - 1) * 2 ^ 23 + (y + 2 ^ 23) = x * 2 ^ 23 + y" using normal(1) by (cases x) auto
    ultimately show ?thesis using that(3) [of s "y + 2 ^ 23" "int x - 150"] normal d n xy y by simp
  qed
qed

text \<open>A mantissa of 53 bits is stored as it is.\<close>

lemma f64_decode_normal:
  assumes "2 ^ 52 \<le> k" "k < 2 ^ 53" "- 1074 \<le> q" "q \<le> 900"
  shows "fdecode F64 (nat (q + 1074) * 2 ^ 52 + k + (if s then 2 ^ 63 else 0)) = FFin s k q"
proof -
  define x where "x = nat (q + 1074) + 1"
  define y where "y = k - 2 ^ 52"
  have x: "0 < x" "x < 2047" "int x - 1075 = q" and y: "y < 2 ^ 52" "k = y + 2 ^ 52" using assms by (auto simp: x_def y_def)
  have mag: "nat (q + 1074) * 2 ^ 52 + k = x * 2 ^ 52 + y" by (simp add: x_def y(2))
  have "x * 2 ^ 52 + y < 2047 * 2 ^ 52" using mult_le_mono1 [of "Suc x" 2047 "2 ^ 52"] x(2) y(1) by simp
  then have small: "x * 2 ^ 52 + y < 2 ^ 63" by simp
  have "(x * 2 ^ 52 + y + (if s then 2 ^ 63 else 0)) mod 2 ^ 63 = x * 2 ^ 52 + y"
    "odd ((x * 2 ^ 52 + y + (if s then 2 ^ 63 else 0)) div 2 ^ 63) = s" using small by (simp_all add: div_add_self2)
  moreover have "(x * 2 ^ 52 + y) div 2 ^ 52 = x" "(x * 2 ^ 52 + y) mod 2 ^ 52 = y" using y(1) by simp_all
  ultimately show ?thesis unfolding mag using x y by (simp add: fdecode_def Let_def)
qed

lemma widen_value:
  assumes "m < 2 ^ 24" "0 < m" "- 149 \<le> e" "e \<le> 104"
  shows "\<exists>j. f64_val (f64_of (FFin s m e)) = FFin s (m * 2 ^ j) (e - int j)"
proof -
  define j where "j = 53 - bitlen m"
  have b: "bitlen m \<le> 24" using bitlen_le [OF assms(1)] .
  have q: "max (e + int (bitlen m) - 53) (- 1074) = e - int j" using b assms(3) by (simp add: j_def)
  obtain l where l: "bitlen m = Suc l" using assms(2) by (cases "bitlen m") (auto simp: bitlen.simps [of m])
  have "2 ^ l \<le> m" "m < 2 ^ Suc l" using bitlen_bounds [OF assms(2)] by (simp_all add: l)
  then have k: "2 ^ l * 2 ^ j \<le> m * 2 ^ j" "m * 2 ^ j < 2 * (2 ^ l * 2 ^ j)" by simp_all
  have "l + j = 52" using b by (simp add: l j_def)
  then have "2 ^ l * 2 ^ j = (2 ^ 52 :: nat)" by (simp only: flip: power_add)
  with k have k: "2 ^ 52 \<le> m * 2 ^ j" "m * 2 ^ j < 2 ^ 53" by simp_all
  have e: "- 1074 \<le> e - int j" "e - int j \<le> 900" using assms(3,4) by (simp_all add: j_def)
  have "nat (e - int j + 1074) * 2 ^ 52 + m * 2 ^ j \<le> 2000 * 2 ^ 52 + 2 ^ 53"
    using e(2) k(2) by (intro add_mono mult_le_mono1) simp_all
  then have enc: "fencode F64 (FFin s m e) = nat (e - int j + 1074) * 2 ^ 52 + m * 2 ^ j + (if s then 2 ^ 63 else 0)"
    using assms(2) by (simp add: fencode_def fround_mag_def Let_def q f_inf_mag_def del: max.bounded_iff)
  have "f64_val (f64_of (FFin s m e)) = FFin s (m * 2 ^ j) (e - int j)"
  proof -
    have "fencode F64 (FFin s m e) < 2 ^ 64"
      using \<open>nat (e - int j + 1074) * 2 ^ 52 + m * 2 ^ j \<le> 2000 * 2 ^ 52 + 2 ^ 53\<close> unfolding enc by simp
    then show ?thesis unfolding f64_val_of using f64_decode_normal [OF k e, of s] by (simp add: enc)
  qed
  then show ?thesis ..
qed

lemma f32_encode_decoded:
  assumes "m < 2 ^ 24" "0 < m" "- 149 \<le> e" "e \<le> 104" "m < 2 ^ 23 \<longrightarrow> e = - 149"
  shows "fencode F32 (FFin s m e) = nat (e + 149) * 2 ^ 23 + m + (if s then 2 ^ 31 else 0)"
proof -
  have "max (e + int (bitlen m) - 24) (- 149) = e"
  proof (cases "m < 2 ^ 23")
    case True
    then show ?thesis using assms(5) bitlen_le [OF True] by simp
  next
    case False
    then show ?thesis using assms(3) bitlen_eq [of 23 m] assms(1) by simp
  qed
  moreover have "nat (e + 149) * 2 ^ 23 + m \<le> 253 * 2 ^ 23 + 2 ^ 24" using assms(1,4) by (intro add_mono mult_le_mono1) simp_all
  moreover have "round_half_even m 0 = m" using round_exact [of m 0] by simp
  ultimately show ?thesis using assms(2) by (simp add: fencode_def fround_mag_def Let_def f_inf_mag_def)
qed

definition f32_isnan :: "f32 \<Rightarrow> bool" where
  "f32_isnan x \<longleftrightarrow> f32_val x = FNaN"

lemma f32_there_and_back:
  assumes "\<not> f32_isnan x"
  shows "f32_of_f64 (f64_of_f32 x) = x"
proof -
  have n: "unat x < 2 ^ 32" using unsigned_less [of x] by simp
  have "fencode F32 (f64_val (f64_of (f32_val x))) = unat x"
    using n
  proof (cases rule: f32_cases)
    case (1 s)
    have "f64_val (f64_of (FInf s)) = FInf s" by (cases s) (simp_all add: f64_val_of f_eval)
    then show ?thesis using 1 by (cases s) (simp_all add: f32_val_def f_eval)
  next
    case 2
    then show ?thesis using assms by (simp add: f32_isnan_def f32_val_def)
  next
    case (3 s m e)
    show ?thesis
    proof (cases "m = 0")
      case True
      then have "f64_val (f64_of (FFin s m e)) = FFin s 0 (- 1074)" by (cases s) (simp_all add: f64_val_of f_eval)
      then show ?thesis using 3 True by (cases s) (simp_all add: f32_val_def f_eval)
    next
      case False
      obtain j where j: "f64_val (f64_of (FFin s m e)) = FFin s (m * 2 ^ j) (e - int j)"
        using widen_value [of m e s] 3 False by auto
      have "fencode F32 (FFin s (m * 2 ^ j) (e - int j)) = fencode F32 (FFin s m e)"
        using fround_mag_shift [of m F32 j e] False by (simp add: fencode_def)
      then show ?thesis using f32_encode_decoded [of m e s] 3 j False by (simp add: f32_val_def)
    qed
  qed
  then show ?thesis by (simp add: f32_of_f64_def f64_of_f32_def f32_of_def)
qed

end
