(* ===== verification/Json.thy ===== *)
theory Json
  imports Graphs FloatRound "HOL-Library.List_Lexorder" "HOL-Library.Char_ord"
begin

text \<open>
  The value type of \<open>nlohmann::json\<close> (namespace \<open>qualla\<close>), the accessors the loaders use, and
  the paths of \<open>std::filesystem\<close>. A document is data: its text is read by a parameter. Objects
  are \<open>std::map\<close>s, so their members come in the order of their keys and no key twice. A number
  in the text without a fraction is unsigned when it is not negative. What the accessors throw
  carries the number of the library's error.
\<close>

section \<open>Values\<close>

datatype json =
    JNull
  | JBool bool
  | JInt int
  | JUnsigned nat
  | JFloat f64
  | JString string
  | JArray "json list"
  | JObject "(string \<times> json) list"

definition is_object :: "json \<Rightarrow> bool" where
  "is_object j = (case j of JObject _ \<Rightarrow> True | _ \<Rightarrow> False)"

definition is_array :: "json \<Rightarrow> bool" where
  "is_array j = (case j of JArray _ \<Rightarrow> True | _ \<Rightarrow> False)"

definition is_string :: "json \<Rightarrow> bool" where
  "is_string j = (case j of JString _ \<Rightarrow> True | _ \<Rightarrow> False)"

definition is_number_integer :: "json \<Rightarrow> bool" where
  "is_number_integer j = (case j of JInt _ \<Rightarrow> True | JUnsigned _ \<Rightarrow> True | _ \<Rightarrow> False)"

definition members :: "json \<Rightarrow> (string \<times> json) list" where
  "members j = (case j of JObject kvs \<Rightarrow> kvs | _ \<Rightarrow> [])"

text \<open>\<open>contains\<close> is false on what is not an object; \<open>at\<close> throws there and on a missing key.\<close>

definition contains :: "json \<Rightarrow> string \<Rightarrow> bool" where
  "contains j k \<longleftrightarrow> map_of (members j) k \<noteq> None"

definition at_key :: "json \<Rightarrow> string \<Rightarrow> json res" where
  "at_key j k =
     (if \<not> is_object j then Inl (RuntimeError ''type_error.304'')
      else case map_of (members j) k of None \<Rightarrow> Inl (RuntimeError ''out_of_range.403'') | Some v \<Rightarrow> Inr v)"

text \<open>What a range-based \<open>for\<close> visits: a scalar is its own only element.\<close>

definition elements :: "json \<Rightarrow> json list" where
  "elements j = (case j of JArray js \<Rightarrow> js | JObject kvs \<Rightarrow> map snd kvs | JNull \<Rightarrow> [] | _ \<Rightarrow> [j])"

section \<open>Conversions\<close>

text \<open>
  \<open>get<T>\<close> casts any number to \<open>T\<close>; a boolean converts except to the library's own number
  types, of which \<open>size_t\<close> is one. A float outside the integer type is undefined.
\<close>

definition not_a_number :: err where
  "not_a_number = RuntimeError ''type_error.302''"

definition get_int :: "json \<Rightarrow> int res" where
  "get_int j =
     (case j of JInt i \<Rightarrow> Inr (to_i32 i) | JUnsigned n \<Rightarrow> Inr (to_i32 (int n))
      | JFloat d \<Rightarrow> cast_int (- (2 ^ 31)) (2 ^ 31 - 1) (f64_val d)
      | JBool b \<Rightarrow> Inr (if b then 1 else 0) | _ \<Rightarrow> Inl not_a_number)"

definition get_uint32 :: "json \<Rightarrow> nat res" where
  "get_uint32 j =
     (case j of JInt i \<Rightarrow> Inr (nat (i mod 2 ^ 32)) | JUnsigned n \<Rightarrow> Inr (n mod 2 ^ 32)
      | JFloat d \<Rightarrow> rbind (cast_int 0 (2 ^ 32 - 1) (f64_val d)) (\<lambda>i. Inr (nat i))
      | JBool b \<Rightarrow> Inr (if b then 1 else 0) | _ \<Rightarrow> Inl not_a_number)"

definition get_size :: "json \<Rightarrow> nat res" where
  "get_size j =
     (case j of JInt i \<Rightarrow> Inr (nat (i mod 2 ^ 64)) | JUnsigned n \<Rightarrow> Inr n
      | JFloat d \<Rightarrow> rbind (cast_int 0 (2 ^ 64 - 1) (f64_val d)) (\<lambda>i. Inr (nat i))
      | _ \<Rightarrow> Inl not_a_number)"

definition get_float :: "json \<Rightarrow> f32 res" where
  "get_float j =
     (case j of JInt i \<Rightarrow> Inr (f32_of_int i) | JUnsigned n \<Rightarrow> Inr (f32_of_int (int n))
      | JFloat d \<Rightarrow> Inr (f32_of_f64 d)
      | JBool b \<Rightarrow> Inr (f32_of_int (if b then 1 else 0)) | _ \<Rightarrow> Inl not_a_number)"

definition get_string :: "json \<Rightarrow> string res" where
  "get_string j = (case j of JString s \<Rightarrow> Inr s | _ \<Rightarrow> Inl (RuntimeError ''type_error.302''))"

text \<open>\<open>value\<close> with a default, which only serves for a missing key.\<close>

definition value_or :: "(json \<Rightarrow> 'a res) \<Rightarrow> json \<Rightarrow> string \<Rightarrow> 'a \<Rightarrow> 'a res" where
  "value_or get j k d =
     (if \<not> is_object j then Inl (RuntimeError ''type_error.306'')
      else case map_of (members j) k of None \<Rightarrow> Inr d | Some v \<Rightarrow> get v)"

section \<open>Paths\<close>

text \<open>POSIX: a path is its string.\<close>

definition path_join :: "string \<Rightarrow> string \<Rightarrow> string" where
  "path_join a b =
     (if take 1 b = ''/'' then b
      else if a = [] \<or> last a = CHR ''/'' then a @ b else a @ ''/'' @ b)"

definition parent_path :: "string \<Rightarrow> string" where
  "parent_path p =
     (let dir = rev (dropWhile (\<lambda>c. c \<noteq> CHR ''/'') (rev p));
          bare = rev (dropWhile (\<lambda>c. c = CHR ''/'') (rev dir))
      in if bare = [] then (if dir = p then p else take 1 dir) else bare)"

definition path_filename :: "string \<Rightarrow> string" where
  "path_filename p = rev (takeWhile (\<lambda>c. c \<noteq> CHR ''/'') (rev p))"

definition path_extension :: "string \<Rightarrow> string" where
  "path_extension p =
     (let f = path_filename p; suffix = rev (takeWhile (\<lambda>c. c \<noteq> CHR ''.'') (rev f))
      in if f = ''..'' \<or> length f \<le> length suffix + 1 then [] else CHR ''.'' # suffix)"

lemma parent_of_join:
  assumes "dir \<noteq> []" "last dir \<noteq> CHR ''/''" "CHR ''/'' \<notin> set name"
  shows "parent_path (path_join dir name) = dir"
proof -
  have all: "\<And>c. c \<in> set (rev name) \<Longrightarrow> c \<noteq> CHR ''/''" using assms(3) by auto
  have n: "dropWhile (\<lambda>c. c \<noteq> CHR ''/'') (rev name @ CHR ''/'' # rev dir) = CHR ''/'' # rev dir"
    by (subst dropWhile_append2) (use all in auto)
  have "take 1 name \<noteq> ''/''" using assms(3) by (cases name) auto
  then have j: "path_join dir name = dir @ ''/'' @ name" using assms(1,2) by (simp add: path_join_def)
  have "dropWhile (\<lambda>c. c = CHR ''/'') (CHR ''/'' # rev dir) = rev dir"
    using assms(1,2) by (cases dir rule: rev_cases) auto
  with n show ?thesis unfolding parent_path_def j Let_def using assms(1) by simp
qed

end
