(* ===== verification/SpecLoader.thy ===== *)
theory SpecLoader
  imports Json Providers Names
begin

text \<open>
  \<open>core/src/llm/llm_spec_loader.cpp\<close>: the sidecar files of a model bundle. \<open>metadata.json\<close> gives
  the shapes, \<open>genie_config.json\<close> the tokens, the rotary scaling and the sampler, and the
  directory gives the shards. The text of a document is read by the library's parser, which is
  a parameter: \<open>None\<close> when the file does not open, \<open>Some None\<close> when it does not parse.
\<close>

record bundle_files =
  bf_exists :: "string \<Rightarrow> bool"
  bf_json :: "string \<Rightarrow> json option option"
  bf_names :: "string \<Rightarrow> string list"       \<comment> \<open>the entries of a directory, in no particular order\<close>

definition loadJson :: "bundle_files \<Rightarrow> string \<Rightarrow> json res" where
  "loadJson fs path =
     (case bf_json fs path of None \<Rightarrow> Inl (RuntimeError ''cannot open'')
      | Some None \<Rightarrow> Inl (RuntimeError ''failed to parse'')
      | Some (Some j) \<Rightarrow> Inr j)"

section \<open>Names in metadata.json\<close>

definition phase_of :: "string \<Rightarrow> string" where
  "phase_of s =
     (let letters = takeWhile is_alpha s; rest = dropWhile is_alpha s
      in if letters \<noteq> [] \<and> rest \<noteq> [] \<and> hd rest = CHR ''_'' then letters else [])"

text \<open>The loader's own copy of the grammar of graph names: it keeps the phase, and a number beyond 64 bits throws.\<close>

definition graphNameParts :: "string \<Rightarrow> (string \<times> parsed_graph) option res" where
  "graphNameParts name =
     (case lit_digits ''ar'' (strip_phase name) of None \<Rightarrow> Inr None
      | Some (ar, s1) \<Rightarrow>
     (case lit_digits ''_cl'' s1 of None \<Rightarrow> Inr None
      | Some (cl, s2) \<Rightarrow>
     (case lit_digits ''_'' s2 of None \<Rightarrow> Inr None
      | Some (sh, s3) \<Rightarrow>
     (case lit_digits ''_of_'' s3 of None \<Rightarrow> Inr None
      | Some (tot, s4) \<Rightarrow>
          if s4 \<noteq> [] then Inr None
          else rbind (stoul ar) (\<lambda>a. rbind (stoul cl) (\<lambda>c. rbind (stoul sh) (\<lambda>s. rbind (stoul tot) (\<lambda>t.
               Inr (Some (phase_of name, \<lparr> pg_ar = a, pg_cl = c, pg_shard = s, pg_total = t \<rparr>)))))))))) "

text \<open>
  \<open>(?:.*_)?part(\d+)_of_(\d+)\.bin\<close> read from its end: each group of digits is preceded by a
  character that is none, so the match is unique. A dot matches no line break.
\<close>

definition parsePartShardName :: "string \<Rightarrow> (nat \<times> nat) option res" where
  "parsePartShardName name =
     (case lit_digits (rev ''.bin'') (rev name) of None \<Rightarrow> Inr None
      | Some (tot, s1) \<Rightarrow>
     (case lit_digits (rev ''_of_'') s1 of None \<Rightarrow> Inr None
      | Some (sh, s2) \<Rightarrow>
     (case strip_lit (rev ''part'') s2 of None \<Rightarrow> Inr None
      | Some s3 \<Rightarrow>
          if s3 = [] \<or> (hd s3 = CHR ''_'' \<and> list_all (\<lambda>c. c \<noteq> CHR 0x0A \<and> c \<noteq> CHR 0x0D) s3)
          then rbind (stoul (rev sh)) (\<lambda>s. rbind (stoul (rev tot)) (\<lambda>t. Inr (Some (s, t))))
          else Inr None)))"

text \<open>\<open>past_(?:key|value)_(\d+)_(?:in|out)\<close>.\<close>

definition parsePastIndex :: "string \<Rightarrow> nat option res" where
  "parsePastIndex name =
     (case (case lit_digits ''past_key_'' name of None \<Rightarrow> lit_digits ''past_value_'' name | Some p \<Rightarrow> Some p) of
        None \<Rightarrow> Inr None
      | Some (ds, rest) \<Rightarrow>
          if rest = ''_in'' \<or> rest = ''_out'' then rbind (stoul ds) (\<lambda>n. Inr (Some n)) else Inr None)"

section \<open>The wiring of a shard\<close>

definition size_of_number :: "json \<Rightarrow> nat" where
  "size_of_number j = (case j of JInt i \<Rightarrow> nat (i mod 2 ^ 64) | JUnsigned n \<Rightarrow> n | _ \<Rightarrow> 0)"

definition readShape :: "json \<Rightarrow> nat list" where
  "readShape entry =
     (case map_of (members entry) ''shape'' of
        Some (JArray ds) \<Rightarrow> map size_of_number (filter is_number_integer ds)
      | _ \<Rightarrow> [])"

record shard_wiring =
  sw_layers :: "nat list"             \<comment> \<open>a set: kept without duplicates\<close>
  sw_in_shape :: "nat list"
  sw_out_shape :: "nat list"
  sw_past_key_shape :: "nat list"
  sw_logits_shape :: "nat list"
  sw_first_input :: string

definition noWiring :: shard_wiring where
  "noWiring = \<lparr> sw_layers = [], sw_in_shape = [], sw_out_shape = [], sw_past_key_shape = [], sw_logits_shape = [], sw_first_input = [] \<rparr>"

definition note_past_key :: "string \<Rightarrow> json \<Rightarrow> shard_wiring \<Rightarrow> shard_wiring" where
  "note_past_key key v w =
     (if take 9 key = ''past_key_'' \<and> sw_past_key_shape w = [] then w\<lparr> sw_past_key_shape := readShape v \<rparr> else w)"

definition read_input :: "string \<times> json \<Rightarrow> bool \<times> shard_wiring \<Rightarrow> (bool \<times> shard_wiring) res" where
  "read_input = (\<lambda>(key, v) (seen, w).
     if isSpecialTensor key then
       rbind (parsePastIndex key) (\<lambda>idx.
         let w = (case idx of None \<Rightarrow> w | Some n \<Rightarrow> w\<lparr> sw_layers := List.insert n (sw_layers w) \<rparr>)
         in Inr (seen, note_past_key key v w))
     else Inr (True, if seen then w else w\<lparr> sw_in_shape := readShape v, sw_first_input := key \<rparr>))"

definition read_output :: "string \<times> json \<Rightarrow> bool \<times> shard_wiring \<Rightarrow> bool \<times> shard_wiring" where
  "read_output = (\<lambda>(key, v) (seen, w).
     let w = (if key = ''logits'' then w\<lparr> sw_logits_shape := readShape v \<rparr> else w)
     in if isSpecialTensor key then (seen, note_past_key key v w)
        else (True, if seen then w else w\<lparr> sw_out_shape := readShape v \<rparr>))"

text \<open>The members of an entry's object, when there is one.\<close>

definition object_at :: "json \<Rightarrow> string \<Rightarrow> json option" where
  "object_at j k = (case map_of (members j) k of Some v \<Rightarrow> if is_object v then Some v else None | None \<Rightarrow> None)"

definition members_at :: "json \<Rightarrow> string \<Rightarrow> (string \<times> json) list" where
  "members_at j k = (case object_at j k of Some v \<Rightarrow> members v | None \<Rightarrow> [])"

definition readShardWiring :: "json \<Rightarrow> shard_wiring res" where
  "readShardWiring entry =
     rbind (rfor read_input (members_at entry ''inputs'') (False, noWiring)) (\<lambda>(_, w).
       Inr (snd (fold read_output (members_at entry ''outputs'') (False, w))))"

section \<open>metadata.json\<close>

record vision_preprocessing =
  vp_width :: int
  vp_height :: int
  vp_patch :: int
  vp_temporal :: int
  vp_merge :: int
  vp_mean :: "f32 list"
  vp_std :: "f32 list"

definition floats_at :: "json \<Rightarrow> string \<Rightarrow> f32 list res" where
  "floats_at j k = (case map_of (members j) k of Some (JArray vs) \<Rightarrow> rmap get_float vs | _ \<Rightarrow> Inr [])"

definition parseVisionPreprocessing :: "json \<Rightarrow> vision_preprocessing res" where
  "parseVisionPreprocessing j =
     rbind (value_or get_int j ''image_width'' 0) (\<lambda>w.
     rbind (value_or get_int j ''image_height'' 0) (\<lambda>h.
     rbind (value_or get_int j ''patch_size'' 0) (\<lambda>p.
     rbind (value_or get_int j ''temporal_patch_size'' 0) (\<lambda>t.
     rbind (value_or get_int j ''spatial_merge_size'' 0) (\<lambda>m.
     rbind (floats_at j ''normalize_mean'') (\<lambda>mean.
     rbind (floats_at j ''normalize_std'') (\<lambda>std.
       Inr \<lparr> vp_width = w, vp_height = h, vp_patch = p, vp_temporal = t, vp_merge = m, vp_mean = mean, vp_std = std \<rparr>)))))))"

record qairt_metadata =
  md_model_id :: string
  md_shards :: "shard_spec list"
  md_hidden_size :: nat
  md_num_kv_heads :: nat
  md_head_dim :: nat
  md_vocab_size :: nat
  md_num_hidden_layers :: nat
  md_vision :: "vision_preprocessing option"
  md_vision_graph :: string
  md_first_input :: string

definition vision_object :: "json \<Rightarrow> json option" where
  "vision_object j =
     (case object_at j ''vision_preprocessing'' of Some v \<Rightarrow> Some v
      | None \<Rightarrow> Option.bind (object_at j ''genie'') (\<lambda>g. object_at g ''vision_preprocessing''))"

text \<open>The shard entries: of several graphs of a shard the first counts, of several parts the last.\<close>

record shard_scan =
  sc_total :: nat
  sc_vision :: string
  sc_entry :: "nat \<Rightarrow> json option"

definition scan_entry :: "string \<times> json \<Rightarrow> shard_scan \<Rightarrow> shard_scan res" where
  "scan_entry = (\<lambda>(key, v) sc.
     rbind (graphNameParts key) (\<lambda>g. case g of
       Some (_, p) \<Rightarrow> Inr (sc\<lparr> sc_total := max (sc_total sc) (pg_total p),
         sc_entry := (if sc_entry sc (pg_shard p) = None then (sc_entry sc)(pg_shard p \<mapsto> v) else sc_entry sc) \<rparr>)
     | None \<Rightarrow> rbind (parsePartShardName key) (\<lambda>q. case q of
         Some (s, t) \<Rightarrow> Inr (sc\<lparr> sc_total := max (sc_total sc) t, sc_entry := (sc_entry sc)(s \<mapsto> v) \<rparr>)
       | None \<Rightarrow> Inr (if key = ''vision_encoder.bin'' then sc\<lparr> sc_vision := key \<rparr> else sc))))"

definition absorb_hyperparams :: "shard_wiring \<Rightarrow> qairt_metadata \<Rightarrow> qairt_metadata" where
  "absorb_hyperparams w md =
     (let md = (if md_hidden_size md = 0 \<and> 3 \<le> length (sw_in_shape w) then md\<lparr> md_hidden_size := last (sw_in_shape w) \<rparr> else md);
          md = (if md_hidden_size md = 0 \<and> 3 \<le> length (sw_out_shape w) then md\<lparr> md_hidden_size := last (sw_out_shape w) \<rparr> else md);
          md = (if sw_past_key_shape w \<noteq> [] \<and> md_num_kv_heads md = 0 then md\<lparr> md_num_kv_heads := sw_past_key_shape w ! 0 \<rparr> else md);
          md = (if md_head_dim md = 0 \<and> 3 \<le> length (sw_past_key_shape w) then md\<lparr> md_head_dim := sw_past_key_shape w ! 2 \<rparr> else md)
      in if md_vocab_size md = 0 \<and> sw_logits_shape w \<noteq> [] then md\<lparr> md_vocab_size := last (sw_logits_shape w) \<rparr> else md)"

definition noShard :: shard_spec where
  "noShard = \<lparr> sh_in_state = [], sh_out_state = [], sh_lm_head_only = False \<rparr>"

definition absorb_shard :: "(nat \<Rightarrow> json option) \<Rightarrow> nat \<Rightarrow> nat \<times> qairt_metadata \<Rightarrow> (nat \<times> qairt_metadata) res" where
  "absorb_shard entries s = (\<lambda>(hi, md).
     case entries s of None \<Rightarrow> Inl (RuntimeError ''could not locate graph entry for shard'')
     | Some e \<Rightarrow> rbind (readShardWiring e) (\<lambda>w.
         let md = (if s = 1 then md\<lparr> md_first_input := sw_first_input w \<rparr> else md)
         in Inr (foldl max hi (sw_layers w), absorb_hyperparams w md)))"

text \<open>\<open>shards.resize\<close> throws beyond the largest vector of 72-byte elements. Running out of memory below
  that is not modelled: such a count is refused at the first shard without an entry.\<close>

definition resize_shards :: "nat \<Rightarrow> shard_spec list res" where
  "resize_shards n = (if n \<le> (2 ^ 63 - 1) div 72 then Inr (replicate n noShard) else Inl (RuntimeError ''vector::_M_default_append''))"

text \<open>The layer count is a \<open>size_t\<close>, so it wraps.\<close>

definition parseQAIRTMetadata :: "bundle_files \<Rightarrow> string \<Rightarrow> qairt_metadata res" where
  "parseQAIRTMetadata fs dir =
     rbind (loadJson fs (path_join dir ''metadata.json'')) (\<lambda>j.
     case object_at j ''model_files'' of None \<Rightarrow> Inl (RuntimeError ''metadata.json missing model_files object'')
     | Some model_files \<Rightarrow>
     rbind (value_or get_string j ''model_id'' []) (\<lambda>model_id.
     rbind (case vision_object j of None \<Rightarrow> Inr None | Some v \<Rightarrow> rbind (parseVisionPreprocessing v) (\<lambda>vp. Inr (Some vp))) (\<lambda>vision.
     rbind (rfor scan_entry (members model_files) \<lparr> sc_total = 0, sc_vision = [], sc_entry = (\<lambda>_. None) \<rparr>) (\<lambda>sc.
     if sc_total sc = 0 then Inl (RuntimeError ''metadata.json contains no recognisable shard entries'')
     else rbind (resize_shards (sc_total sc)) (\<lambda>shards.
          rbind (rfor (absorb_shard (sc_entry sc)) [1..<Suc (sc_total sc)]
            (0, \<lparr> md_model_id = model_id, md_shards = shards, md_hidden_size = 0, md_num_kv_heads = 0,
                  md_head_dim = 0, md_vocab_size = 0, md_num_hidden_layers = 0, md_vision = vision,
                  md_vision_graph = sc_vision sc, md_first_input = [] \<rparr>)) (\<lambda>(hi, md).
          Inr (if 0 < hi \<or> 0 < md_num_kv_heads md then md\<lparr> md_num_hidden_layers := (hi + 1) mod 2 ^ 64 \<rparr> else md)))))))"

section \<open>What the parsers accept\<close>

lemma stoul_errors: "ds \<noteq> [] \<Longrightarrow> stoul ds = Inl e \<Longrightarrow> e = OutOfRange"
  by (auto simp: stoul_def split: if_splits)

lemma lit_digits_nonempty: "lit_digits lit s = Some (ds, r) \<Longrightarrow> ds \<noteq> []"
  by (auto simp: lit_digits_def take_digits_def Let_def split: if_splits Option.bind_splits)

lemma graph_names_agree_aux:
  "graphNameParts name = (case parseGraphName name of Some p \<Rightarrow> Inr (Some (phase_of name, p))
     | None \<Rightarrow> if \<exists>e. graphNameParts name = Inl e then Inl OutOfRange else Inr None)"
  unfolding graphNameParts_def parseGraphName_def
  by (auto split: option.splits sum.splits dest: lit_digits_nonempty stoul_errors simp: rbind_def)

lemma graph_names_iff: "parseGraphName name = Some p \<longleftrightarrow> graphNameParts name = Inr (Some (phase_of name, p))"
  by (cases "parseGraphName name") (use graph_names_agree_aux [of name] in \<open>auto split: if_splits\<close>)

text \<open>What is read of a name from its end.\<close>

lemma rev_digits: "list_all is_digit ds \<Longrightarrow> list_all is_digit (rev ds)"
  by (simp add: list_all_iff)

lemma lit_digits_rev:
  assumes "s = [] \<or> \<not> is_digit (hd s)"
  shows "lit_digits lit (lit @ rev (to_string n) @ s) = Some (rev (to_string n), s)"
  using to_string_digits [of n] assms by (simp add: lit_digits_def strip_lit_def take_digits_append rev_digits)

lemma part_name_parsed:
  assumes "pre = [] \<or> (last pre = CHR ''_'' \<and> list_all (\<lambda>c. c \<noteq> CHR 0x0A \<and> c \<noteq> CHR 0x0D) pre)" "s < 2 ^ 64" "t < 2 ^ 64"
  shows "parsePartShardName (pre @ ''part'' @ to_string s @ ''_of_'' @ to_string t @ ''.bin'') = Inr (Some (s, t))"
proof -
  have nd: "\<not> is_digit CHR ''_''" "\<not> is_digit CHR ''t''" by code_simp+
  let ?r = "rev ''part'' @ rev pre"
  have "rev (pre @ ''part'' @ to_string s @ ''_of_'' @ to_string t @ ''.bin'')
      = rev ''.bin'' @ rev (to_string t) @ rev ''_of_'' @ rev (to_string s) @ ?r" by simp
  moreover have "lit_digits (rev ''.bin'') (rev ''.bin'' @ rev (to_string t) @ rev ''_of_'' @ rev (to_string s) @ ?r)
      = Some (rev (to_string t), rev ''_of_'' @ rev (to_string s) @ ?r)"
    by (rule lit_digits_rev) (simp add: nd)
  moreover have "lit_digits (rev ''_of_'') (rev ''_of_'' @ rev (to_string s) @ ?r) = Some (rev (to_string s), ?r)"
    by (rule lit_digits_rev) (simp add: nd)
  moreover have "strip_lit (rev ''part'') ?r = Some (rev pre)" by (simp add: strip_lit_def)
  moreover have "rev pre = [] \<or> hd (rev pre) = CHR ''_'' \<and> list_all (\<lambda>c. c \<noteq> CHR 0x0A \<and> c \<noteq> CHR 0x0D) (rev pre)"
    using assms(1) by (auto simp: hd_rev list_all_iff)
  ultimately show ?thesis
    unfolding parsePartShardName_def using assms(2,3) by (simp add: stoul_to_string del: append.simps)
qed

section \<open>What the metadata promises\<close>

lemma foldl_max_le: "(a :: nat) \<le> foldl max a xs \<and> (\<forall>x \<in> set xs. x \<le> foldl max a xs)"
proof (induction xs arbitrary: a)
  case Nil
  then show ?case by simp
next
  case (Cons x xs)
  from Cons.IH [of "max a x"] show ?case by simp
qed

lemma absorb_hyperparams_keeps [simp]:
  "md_shards (absorb_hyperparams w md) = md_shards md" "md_vision (absorb_hyperparams w md) = md_vision md"
  "md_first_input (absorb_hyperparams w md) = md_first_input md" "md_num_hidden_layers (absorb_hyperparams w md) = md_num_hidden_layers md"
  "md_model_id (absorb_hyperparams w md) = md_model_id md"
  by (simp_all add: absorb_hyperparams_def Let_def)

lemma foldl_max_attained: "foldl max a xs = (a :: nat) \<or> foldl max a xs \<in> set xs"
proof (induction xs arbitrary: a)
  case (Cons x xs)
  from Cons.IH [of "max a x"] show ?case by (auto simp: max_def)
qed simp

lemma absorb_shards:
  assumes "rfor (absorb_shard entries) ss (hi, md) = Inr (hi', md')"
  shows "md_shards md' = md_shards md \<and> md_model_id md' = md_model_id md
    \<and> md_num_hidden_layers md' = md_num_hidden_layers md \<and> hi \<le> hi'
    \<and> (\<forall>s \<in> set ss. \<exists>e w. entries s = Some e \<and> readShardWiring e = Inr w \<and> (\<forall>n \<in> set (sw_layers w). n \<le> hi'))
    \<and> (hi' = hi \<or> (\<exists>s \<in> set ss. \<exists>e w. entries s = Some e \<and> readShardWiring e = Inr w \<and> hi' \<in> set (sw_layers w)))"
  using assms
proof (induction ss arbitrary: hi md)
  case Nil
  then show ?case by simp
next
  case (Cons s ss)
  from Cons.prems obtain t1 m1 where a: "absorb_shard entries s (hi, md) = Inr (t1, m1)" "rfor (absorb_shard entries) ss (t1, m1) = Inr (hi', md')"
    by (auto elim!: rbind_InrE)
  from a(1) obtain e w where e: "entries s = Some e" "readShardWiring e = Inr w" "t1 = foldl max hi (sw_layers w)"
    "md_shards m1 = md_shards md" "md_model_id m1 = md_model_id md" "md_num_hidden_layers m1 = md_num_hidden_layers md"
    by (auto simp: absorb_shard_def Let_def split: option.splits)
  have "hi \<le> t1" "\<forall>n \<in> set (sw_layers w). n \<le> t1" unfolding e(3) using foldl_max_le [of hi "sw_layers w"] by simp_all
  moreover have "t1 = hi \<or> t1 \<in> set (sw_layers w)" unfolding e(3) by (rule foldl_max_attained)
  ultimately show ?case using Cons.IH [OF a(2)] e by (auto intro: order_trans)
qed

text \<open>The indices are what \<open>stoul\<close> gives, so they fit 64 bits.\<close>

lemma parsePastIndex_bound: "parsePastIndex name = Inr (Some n) \<Longrightarrow> n < 2 ^ 64"
  by (auto simp: parsePastIndex_def stoul_def split: option.splits prod.splits if_splits)

lemma read_output_layers: "sw_layers (snd (fold read_output kvs (seen, w))) = sw_layers w"
proof (induction kvs arbitrary: seen w)
  case (Cons kv kvs)
  have "sw_layers (snd (read_output kv (seen, w))) = sw_layers w"
    by (simp add: read_output_def note_past_key_def Let_def split: prod.splits)
  then show ?case using Cons.IH [of "fst (read_output kv (seen, w))" "snd (read_output kv (seen, w))"] by simp
qed simp

lemma readShardWiring_bound:
  assumes "readShardWiring e = Inr w" "n \<in> set (sw_layers w)"
  shows "n < 2 ^ 64"
proof -
  from assms(1) obtain seen w1 where 1: "rfor read_input (members_at e ''inputs'') (False, noWiring) = Inr (seen, w1)"
    and w: "w = snd (fold read_output (members_at e ''outputs'') (False, w1))"
    by (auto simp: readShardWiring_def elim!: rbind_InrE)
  have "\<forall>n \<in> set (sw_layers (snd (seen, w1))). n < 2 ^ 64"
  proof (rule rfor_inv [OF 1])
    show "\<forall>n \<in> set (sw_layers (snd (False, noWiring))). n < 2 ^ 64" by (simp add: noWiring_def)
  next
    fix x s s' assume "\<forall>n \<in> set (sw_layers (snd s)). n < 2 ^ 64" "read_input x s = Inr s'"
    then show "\<forall>n \<in> set (sw_layers (snd s')). n < 2 ^ 64"
      by (auto simp: read_input_def note_past_key_def Let_def split: prod.splits option.splits if_splits
          elim!: rbind_InrE dest!: parsePastIndex_bound)
  qed
  then show ?thesis using assms(2) by (simp add: w read_output_layers)
qed

section \<open>Properties\<close>

theorem graph_names_agree:
  "parseGraphName name = Some p \<longleftrightarrow> graphNameParts name = Inr (Some (phase_of name, p))"
  by (rule graph_names_iff)

theorem part_shard_name_roundtrip:
  assumes "pre = [] \<or> (last pre = CHR ''_'' \<and> list_all (\<lambda>c. c \<noteq> CHR 0x0A \<and> c \<noteq> CHR 0x0D) pre)" "s < 2 ^ 64" "t < 2 ^ 64"
  shows "parsePartShardName (pre @ ''part'' @ to_string s @ ''_of_'' @ to_string t @ ''.bin'') = Inr (Some (s, t))"
  by (rule part_name_parsed [OF assms])

lemma part_shard_name_roundtrip_witness:
  "parsePartShardName (''qwen_part'' @ to_string 2 @ ''_of_'' @ to_string 5 @ ''.bin'') = Inr (Some (2, 5))"
  using part_shard_name_roundtrip [of "''qwen_''" 2 5] by simp

text \<open>A layer with a cache tensor in one of the shards.\<close>

definition names_layer :: "shard_scan \<Rightarrow> nat \<Rightarrow> bool" where
  "names_layer sc n \<longleftrightarrow>
     (\<exists>s \<in> {1..sc_total sc}. \<exists>e w. sc_entry sc s = Some e \<and> readShardWiring e = Inr w \<and> n \<in> set (sw_layers w))"

text \<open>C34: when metadata.json is accepted, every shard from 1 to the largest total named has an
  entry whose wiring reads, and every cached layer it names lies below the number of hidden
  layers, with two exceptions: layer 0 when no KV heads were found, and a name with index
  2^64-1, whose successor wraps to 0 layers; a number of layers above one is one more than an
  index named\<close>

theorem metadata_covers_shards:
  assumes "parseQAIRTMetadata fs dir = Inr md" "loadJson fs (path_join dir ''metadata.json'') = Inr j"
    and "object_at j ''model_files'' = Some files"
    and "rfor scan_entry (members files) \<lparr> sc_total = 0, sc_vision = [], sc_entry = (\<lambda>_. None) \<rparr> = Inr sc"
  shows "0 < sc_total sc \<and> length (md_shards md) = sc_total sc
    \<and> (\<forall>s \<in> {1..sc_total sc}. \<exists>e w. sc_entry sc s = Some e \<and> readShardWiring e = Inr w)
    \<and> (\<forall>n. names_layer sc n \<longrightarrow> n < md_num_hidden_layers md \<or> n = 0 \<and> md_num_kv_heads md = 0
         \<or> names_layer sc (2 ^ 64 - 1) \<and> md_num_hidden_layers md = 0)
    \<and> (md_num_hidden_layers md \<le> 1 \<or> names_layer sc (md_num_hidden_layers md - 1))"
proof -
  obtain hi md1 md0 where run: "sc_total sc \<noteq> 0" "rfor (absorb_shard (sc_entry sc)) [1..<Suc (sc_total sc)] (0, md0) = Inr (hi, md1)"
    "length (md_shards md0) = sc_total sc" "md_num_hidden_layers md0 = 0"
    "md = (if 0 < hi \<or> 0 < md_num_kv_heads md1 then md1\<lparr> md_num_hidden_layers := (hi + 1) mod 2 ^ 64 \<rparr> else md1)"
    using assms by (auto simp: parseQAIRTMetadata_def resize_shards_def split: if_splits elim!: rbind_InrE)
  note a = absorb_shards [OF run(2)]
  have r: "set [1..<Suc (sc_total sc)] = {1..sc_total sc}" by auto
  have k: "md_num_hidden_layers md1 = 0" using a run(4) by simp
  have le: "n \<le> hi" if "names_layer sc n" for n
    using that a unfolding names_layer_def r [symmetric] by fastforce
  have at: "hi = 0 \<or> names_layer sc hi" using a unfolding names_layer_def r [symmetric] by blast
  have "hi < 2 ^ 64" using at by (auto simp: names_layer_def dest: readShardWiring_bound)
  then consider "hi = 2 ^ 64 - 1" | "hi + 1 < 2 ^ 64" by linarith
  then have "(\<forall>n. names_layer sc n \<longrightarrow> n < md_num_hidden_layers md \<or> n = 0 \<and> md_num_kv_heads md = 0
         \<or> names_layer sc (2 ^ 64 - 1) \<and> md_num_hidden_layers md = 0)
    \<and> (md_num_hidden_layers md \<le> 1 \<or> names_layer sc (md_num_hidden_layers md - 1))"
  proof cases
    case 1
    with at run(5) show ?thesis by auto
  next
    case 2
    then have "(hi + 1) mod 2 ^ 64 = hi + 1" by simp
    with le at k show ?thesis unfolding run(5) by (fastforce split: if_splits)
  qed
  moreover have "length (md_shards md) = sc_total sc" using a run(3,5) by (simp split: if_splits)
  moreover have "\<forall>s \<in> {1..sc_total sc}. \<exists>e w. sc_entry sc s = Some e \<and> readShardWiring e = Inr w"
    using a unfolding r by blast
  ultimately show ?thesis using run(1) by simp
qed

definition one_file :: "string \<Rightarrow> json \<Rightarrow> bundle_files" where
  "one_file path j = \<lparr> bf_exists = (\<lambda>p. p = path), bf_json = (\<lambda>p. if p = path then Some (Some j) else None), bf_names = (\<lambda>_. []) \<rparr>"

definition demo_shard_graph :: string where
  "demo_shard_graph = ''prompt_ar128_cl4096_1_of_1''"

definition demo_metadata :: json where
  "demo_metadata = JObject [(''model_files'', JObject
     [(demo_shard_graph, JObject
        [(''inputs'', JObject [(''input_ids'', JObject [(''shape'', JArray [JUnsigned 1, JUnsigned 128])]),
                              (''past_key_0_in'', JObject [(''shape'', JArray [JUnsigned 8, JUnsigned 1, JUnsigned 128, JUnsigned 3968])]),
                              (''past_key_1_in'', JObject []), (''past_value_1_in'', JObject [])]),
         (''outputs'', JObject [(''logits'', JObject [(''shape'', JArray [JUnsigned 1, JUnsigned 128, JUnsigned 32000])])])])]),
     (''model_id'', JString ''qwen3_4b'')]"

lemma demo_shard_graph_parts: "graphNameParts demo_shard_graph = Inr (Some (''prompt'', \<lparr> pg_ar = 128, pg_cl = 4096, pg_shard = 1, pg_total = 1 \<rparr>))"
proof -
  let ?p = "\<lparr> pg_ar = 128, pg_cl = 4096, pg_shard = 1, pg_total = 1 \<rparr>"
  have "graph_name ''prompt_'' ?p = demo_shard_graph"
    by (simp add: graph_name_def demo_shard_graph_def to_string.simps digit_char_def) code_simp
  moreover have "parseGraphName (graph_name ''prompt_'' ?p) = Some ?p" by (subst graph_name_parsed) (simp_all add: is_alpha_def exI [of _ "''prompt''"])
  ultimately have "parseGraphName demo_shard_graph = Some ?p" by simp
  moreover have "phase_of demo_shard_graph = ''prompt''" by code_simp
  ultimately show ?thesis using graph_names_iff by simp
qed

lemma demo_special:
  "isSpecialTensor ''input_ids'' = False" "isSpecialTensor ''past_key_0_in''" "isSpecialTensor ''past_key_1_in''"
  "isSpecialTensor ''past_value_1_in''" "isSpecialTensor ''logits'' = False"
  by code_simp+

lemma demo_past_index:
  "parsePastIndex ''past_key_0_in'' = Inr (Some 0)" "parsePastIndex ''past_key_1_in'' = Inr (Some 1)"
  "parsePastIndex ''past_value_1_in'' = Inr (Some 1)"
proof -
  have "lit_digits ''past_key_'' ''past_key_0_in'' = Some (''0'', ''_in'')" "lit_digits ''past_key_'' ''past_key_1_in'' = Some (''1'', ''_in'')"
    "lit_digits ''past_key_'' ''past_value_1_in'' = None" "lit_digits ''past_value_'' ''past_value_1_in'' = Some (''1'', ''_in'')"
    by code_simp+
  then show "parsePastIndex ''past_key_0_in'' = Inr (Some 0)" "parsePastIndex ''past_key_1_in'' = Inr (Some 1)"
    "parsePastIndex ''past_value_1_in'' = Inr (Some 1)"
    by (simp_all add: parsePastIndex_def stoul_def digits_val_def char_digit_def)
qed

lemma demo_metadata_files:
  "\<exists>files e w. object_at demo_metadata ''model_files'' = Some files \<and> members files = [(demo_shard_graph, e)]
     \<and> readShardWiring e = Inr w \<and> sw_layers w = [1, 0] \<and> sw_past_key_shape w = [8, 1, 128, 3968]"
  by (simp add: demo_metadata_def object_at_def members_def is_object_def readShardWiring_def members_at_def noWiring_def read_input_def
      read_output_def demo_special demo_past_index note_past_key_def readShape_def size_of_number_def is_number_integer_def List.insert_def Let_def)

lemma metadata_covers_shards_witness:
  "\<exists>md. parseQAIRTMetadata (one_file ''/b/metadata.json'' demo_metadata) ''/b'' = Inr md
     \<and> length (md_shards md) = 1 \<and> md_num_kv_heads md = 8 \<and> 1 < md_num_hidden_layers md"
proof -
  let ?fs = "one_file ''/b/metadata.json'' demo_metadata" and ?s0 = "\<lparr> sc_total = 0, sc_vision = [], sc_entry = (\<lambda>_. None) \<rparr>"
  obtain files e w where f: "object_at demo_metadata ''model_files'' = Some files" "members files = [(demo_shard_graph, e)]"
    "readShardWiring e = Inr w" "sw_layers w = [1, 0]" "sw_past_key_shape w = [8, 1, 128, 3968]" using demo_metadata_files by blast
  have j: "loadJson ?fs (path_join ''/b'' ''metadata.json'') = Inr demo_metadata" by (simp add: loadJson_def one_file_def path_join_def)
  define sc where "sc = \<lparr> sc_total = 1, sc_vision = [], sc_entry = [1 \<mapsto> e] \<rparr>"
  have scan: "rfor scan_entry (members files) ?s0 = Inr sc" by (simp add: f(2) scan_entry_def demo_shard_graph_parts sc_def)
  have m: "value_or get_string demo_metadata ''model_id'' [] = Inr ''qwen3_4b''" "vision_object demo_metadata = None"
    by (simp_all add: value_or_def demo_metadata_def is_object_def members_def get_string_def vision_object_def object_at_def)
  obtain md where md: "parseQAIRTMetadata ?fs ''/b'' = Inr md" "md_num_kv_heads md = 8"
    using j f scan m by (simp add: parseQAIRTMetadata_def sc_def absorb_shard_def absorb_hyperparams_def resize_shards_def Let_def)
  have n: "names_layer sc n \<longleftrightarrow> n \<in> {0, 1}" for n using f(3,4) by (auto simp: names_layer_def sc_def)
  from metadata_covers_shards [OF md(1) j f(1) scan] have "length (md_shards md) = 1" "1 < md_num_hidden_layers md"
    using md(2) unfolding n by (auto simp: sc_def)
  then show ?thesis using md by simp
qed

end
