(* ===== verification/GenieConfig.thy ===== *)
theory GenieConfig
  imports SpecLoader
begin

text \<open>
  The rest of \<open>core/src/llm/llm_spec_loader.cpp\<close>: \<open>genie_config.json\<close> with its rotary scaling and
  sampler block, the spec and the input providers made of it, and the helpers that find the
  files of a bundle. The two readers of \<open>genie_config.json\<close> catch every exception and return
  what they had filled in so far, so they are state functions whose result is dropped.
\<close>

section \<open>Rotary scaling\<close>

definition f_one :: f32 where "f_one = 0x3F800000"
definition f_four :: f32 where "f_four = 0x40800000"
definition f_ten_thousand :: f32 where "f_ten_thousand = 0x461C4000"

datatype rope_scaling =
    StandardRope
  | Llama3Rope f32 f32 f32 nat        \<comment> \<open>factor, low and high frequency factor, original positions\<close>
  | LongRope "f32 list" "f32 list" nat
  | PartialRope f32 f32
  | MRope "int list" int int          \<comment> \<open>sections, spatial merge size, time step\<close>

definition elements_at :: "json \<Rightarrow> string \<Rightarrow> json list" where
  "elements_at j k = (case map_of (members j) k of Some v \<Rightarrow> elements v | None \<Rightarrow> [])"

definition parseRopeScaling :: "json \<Rightarrow> rope_scaling res" where
  "parseRopeScaling rs =
     (if \<not> is_object rs then Inr StandardRope
      else rbind (value_or get_string rs ''type'' ''default'') (\<lambda>dflt.
           rbind (value_or get_string rs ''rope-type'' dflt) (\<lambda>ty.
      if ty = ''llama3'' then
        rbind (value_or get_float rs ''factor'' f_one) (\<lambda>factor.
        rbind (value_or get_float rs ''low-freq-factor'' f_one) (\<lambda>lo.
        rbind (value_or get_float rs ''high-freq-factor'' f_four) (\<lambda>hi.
        rbind (value_or get_size rs ''original-max-position-embeddings'' 8192) (\<lambda>orig.
          Inr (Llama3Rope factor lo hi orig)))))
      else if ty = ''longrope'' then
        rbind (rmap get_float (elements_at rs ''long-factor'')) (\<lambda>long.
        rbind (rmap get_float (elements_at rs ''short-factor'')) (\<lambda>short.
        rbind (value_or get_size rs ''original-max-position-embeddings'' 4096) (\<lambda>orig.
          Inr (LongRope long short orig))))
      else if ty = ''qwen2vl-mrope'' \<or> ty = ''qwen3vl-mrope'' then
        rbind (value_or get_int rs ''spatial-merge-size'' 2) (\<lambda>merge.
        rbind (value_or get_int rs ''time-step'' 50) (\<lambda>time.
        rbind (case map_of (members rs) ''mrope-section'' of
                 Some (JArray vs) \<Rightarrow> rmap get_int vs | _ \<Rightarrow> Inr [16, 24, 24]) (\<lambda>section.
          Inr (MRope section merge time))))
      else if ty = ''partial'' then
        rbind (value_or get_float rs ''rope-fraction'' f_one) (\<lambda>fraction.
        rbind (value_or get_float rs ''scale'' f_one) (\<lambda>sc.
          Inr (PartialRope fraction sc)))
      else Inr StandardRope)))"

section \<open>genie_config.json\<close>

record genie_config =
  gn_dialog_type :: string
  gn_bos :: int
  gn_eos :: "int list"
  gn_pad :: int
  gn_rope_theta :: f32
  gn_rope_scaling :: rope_scaling
  gn_lut_path :: "string option"

definition defaultGenieConfig :: genie_config where
  "defaultGenieConfig = \<lparr> gn_dialog_type = ''basic'', gn_bos = -1, gn_eos = [], gn_pad = -1,
     gn_rope_theta = f_ten_thousand, gn_rope_scaling = StandardRope, gn_lut_path = None \<rparr>"

definition getOpt :: "(json \<Rightarrow> 'a res) \<Rightarrow> json \<Rightarrow> string \<Rightarrow> 'a option res" where
  "getOpt get j k =
     (case map_of (members j) k of None \<Rightarrow> Inr None
      | Some v \<Rightarrow> if v = JNull then Inr None else rbind (get v) (\<lambda>x. Inr (Some x)))"

text \<open>Assign a field when its key is there and not null.\<close>

definition set_opt :: "(json \<Rightarrow> 'a res) \<Rightarrow> json \<Rightarrow> string \<Rightarrow> ('a \<Rightarrow> 's \<Rightarrow> 's) \<Rightarrow> ('s, unit) sx" where
  "set_opt get j k put =
     sbind (slift (getOpt get j k)) (\<lambda>v. case v of None \<Rightarrow> sret () | Some x \<Rightarrow> smod (put x))"

definition with_object :: "json \<Rightarrow> string \<Rightarrow> (json \<Rightarrow> ('s, unit) sx) \<Rightarrow> ('s, unit) sx" where
  "with_object j k f = (case object_at j k of None \<Rightarrow> sret () | Some v \<Rightarrow> f v)"

definition push_eos :: "json \<Rightarrow> (genie_config, unit) sx" where
  "push_eos e = sbind (slift (get_int e)) (\<lambda>t. smod (\<lambda>gc. gc\<lparr> gn_eos := gn_eos gc @ [t] \<rparr>))"

definition read_context :: "json \<Rightarrow> (genie_config, unit) sx" where
  "read_context ctx =
     sthen (set_opt get_int ctx ''bos-token'' (\<lambda>t gc. gc\<lparr> gn_bos := t \<rparr>))
     (sthen (set_opt get_int ctx ''pad-token'' (\<lambda>t gc. gc\<lparr> gn_pad := t \<rparr>))
     (case map_of (members ctx) ''eos-token'' of None \<Rightarrow> sret ()
      | Some eos \<Rightarrow> if is_number_integer eos then push_eos eos
                    else if is_array eos then sfor push_eos (elements eos) else sret ()))"

definition read_engine :: "json \<Rightarrow> (genie_config, unit) sx" where
  "read_engine engine =
     (case Option.bind (object_at engine ''model'') (\<lambda>m. object_at m ''positional-encoding'') of
        Some pe \<Rightarrow>
          sthen (sbind (slift (value_or get_float pe ''rope-theta'' f_ten_thousand)) (\<lambda>theta.
                   smod (\<lambda>gc. gc\<lparr> gn_rope_theta := theta \<rparr>)))
            (with_object pe ''rope-scaling'' (\<lambda>rs.
               sbind (slift (parseRopeScaling rs)) (\<lambda>s. smod (\<lambda>gc. gc\<lparr> gn_rope_scaling := s \<rparr>))))
      | None \<Rightarrow>
          (case Option.bind (object_at engine ''backend'') (\<lambda>b. object_at b ''QnnHtp'') of
             None \<Rightarrow> sret ()
           | Some htp \<Rightarrow>
               (case map_of (members htp) ''rope-theta'' of None \<Rightarrow> sret ()
                | Some v \<Rightarrow> sbind (slift (get_float v)) (\<lambda>theta. smod (\<lambda>gc. gc\<lparr> gn_rope_theta := theta \<rparr>)))))"

definition read_dialog :: "json \<Rightarrow> (genie_config, unit) sx" where
  "read_dialog dialog =
     sthen (case map_of (members dialog) ''type'' of
              Some (JString t) \<Rightarrow> smod (\<lambda>gc. gc\<lparr> gn_dialog_type := t \<rparr>) | _ \<Rightarrow> sret ())
     (sthen (with_object dialog ''context'' read_context)
     (sthen (with_object dialog ''engine'' read_engine)
     (with_object dialog ''embedding'' (\<lambda>emb.
        set_opt get_string emb ''lut-path'' (\<lambda>p gc. gc\<lparr> gn_lut_path := Some p \<rparr>)))))"

text \<open>The \<open>catch\<close> of every exception; what C++ leaves undefined is not an exception.\<close>

definition filled_in :: "('s, unit) sx \<Rightarrow> 's \<Rightarrow> 's res" where
  "filled_in m s =
     (case m s of (Inl UndefinedBehaviour, _) \<Rightarrow> Inl UndefinedBehaviour | (_, s') \<Rightarrow> Inr s')"

definition from_genie_config :: "bundle_files \<Rightarrow> string \<Rightarrow> (json \<Rightarrow> ('s, unit) sx) \<Rightarrow> 's \<Rightarrow> 's res" where
  "from_genie_config fs dir f s =
     (let path = path_join dir ''genie_config.json''
      in if \<not> bf_exists fs path then Inr s
         else filled_in (sbind (slift (loadJson fs path)) (\<lambda>j. with_object j ''dialog'' f)) s)"

definition parseGenieConfig :: "bundle_files \<Rightarrow> string \<Rightarrow> genie_config res" where
  "parseGenieConfig fs dir = from_genie_config fs dir read_dialog defaultGenieConfig"

record sampler_config =
  sm_seed :: "nat option"
  sm_temperature :: "f32 option"
  sm_top_k :: "int option"
  sm_top_p :: "f32 option"
  sm_repetition_penalty :: "f32 option"
  sm_presence_penalty :: "f32 option"
  sm_frequency_penalty :: "f32 option"
  sm_penalty_last_n :: "int option"

definition emptySamplerConfig :: sampler_config where
  "emptySamplerConfig = \<lparr> sm_seed = None, sm_temperature = None, sm_top_k = None, sm_top_p = None, sm_repetition_penalty = None,
     sm_presence_penalty = None, sm_frequency_penalty = None, sm_penalty_last_n = None \<rparr>"

definition read_sampler :: "json \<Rightarrow> (sampler_config, unit) sx" where
  "read_sampler s =
     sthen (set_opt get_uint32 s ''seed'' (\<lambda>v sm. sm\<lparr> sm_seed := Some v \<rparr>))
     (sthen (set_opt get_float s ''temp'' (\<lambda>v sm. sm\<lparr> sm_temperature := Some v \<rparr>))
     (sthen (set_opt get_int s ''top-k'' (\<lambda>v sm. sm\<lparr> sm_top_k := Some v \<rparr>))
     (sthen (set_opt get_float s ''top-p'' (\<lambda>v sm. sm\<lparr> sm_top_p := Some v \<rparr>))
     (with_object s ''token-penalty'' (\<lambda>tp.
        sthen (set_opt get_float tp ''repetition-penalty'' (\<lambda>v sm. sm\<lparr> sm_repetition_penalty := Some v \<rparr>))
        (sthen (set_opt get_float tp ''presence-penalty'' (\<lambda>v sm. sm\<lparr> sm_presence_penalty := Some v \<rparr>))
        (sthen (set_opt get_float tp ''frequency-penalty'' (\<lambda>v sm. sm\<lparr> sm_frequency_penalty := Some v \<rparr>))
        (set_opt get_int tp ''penalize-last-n'' (\<lambda>v sm. sm\<lparr> sm_penalty_last_n := Some v \<rparr>)))))))))"

definition parseGenieSamplerConfig :: "bundle_files \<Rightarrow> string \<Rightarrow> sampler_config res" where
  "parseGenieSamplerConfig fs dir =
     from_genie_config fs dir (\<lambda>dialog. with_object dialog ''sampler'' read_sampler) emptySamplerConfig"

section \<open>The spec and the providers\<close>

definition defaultSpec :: llm_spec where
  "defaultSpec = \<lparr> sp_shards = [], sp_state_blocks = [], sp_hidden_size = 0, sp_num_kv_heads = 0, sp_head_dim = 0,
     sp_vocab_size = 0, sp_seq_len_prefill = 0, sp_seq_len_decode = 0, sp_context_lengths = [],
     sp_attention_mask_name = ''attention_mask'', sp_eos_token_ids = [], sp_bos_token_id = -1 \<rparr>"

definition buildSpecSkeleton :: "genie_config \<Rightarrow> llm_spec" where
  "buildSpecSkeleton gc = defaultSpec\<lparr> sp_state_blocks := [makeKVStateBlock],
     sp_eos_token_ids := gn_eos gc, sp_bos_token_id := gn_bos gc \<rparr>"

definition makeRoPEProvider :: "nat \<Rightarrow> genie_config \<Rightarrow> provider res" where
  "makeRoPEProvider head_dim gc =
     (let theta = gn_rope_theta gc; c = ''position_ids_cos''; s = ''position_ids_sin'' in
      case gn_rope_scaling gc of
        Llama3Rope factor lo hi orig \<Rightarrow> Inr (Llama3RoPEProvider head_dim theta factor lo hi (to_i32 (int orig)) c s)
      | LongRope long short orig \<Rightarrow>
          Inr (LongRoPEProvider (mkLongRoPE head_dim theta long 131072 (to_i32 (int (if orig = 0 then 4096 else orig)))) c s)
      | PartialRope fraction sc \<Rightarrow>
          rbind (partial_rope_dim head_dim fraction) (\<lambda>d. Inr (PartialRoPEProvider d theta sc c s))
      | MRope _ _ _ \<Rightarrow> Inr (RoPEProvider head_dim theta c s)
      | StandardRope \<Rightarrow> Inr (RoPEProvider head_dim theta c s))"

definition makeEmbeddingProvider :: "string \<Rightarrow> genie_config \<Rightarrow> provider res" where
  "makeEmbeddingProvider first_input gc =
     (if first_input = ''input_ids'' then
        Inr (TokenIdProvider ''input_ids''
          (if gn_pad gc < 0 then (case gn_eos gc of [] \<Rightarrow> 0 | t # _ \<Rightarrow> t) else gn_pad gc))
      else if first_input = ''input_embeds'' \<or> first_input = ''inputs_embeds'' then
        Inr (EmbeddingProvider (mkEmbedding first_input))
      else Inl (RuntimeError ''unrecognised first-shard input''))"

section \<open>The files of a bundle\<close>

record model_config =
  mf_paths :: "string list"
  mf_tokenizer :: string
  mf_htp_config :: string
  mf_embedding :: "string option"
  mf_tokenizer_config :: "string option"
  mf_forecast_prefix :: "string option"

definition emptyModelConfig :: model_config where
  "emptyModelConfig = \<lparr> mf_paths = [], mf_tokenizer = [], mf_htp_config = [], mf_embedding = None,
     mf_tokenizer_config = None, mf_forecast_prefix = None \<rparr>"

definition bundleDirOf :: "model_config \<Rightarrow> string res" where
  "bundleDirOf cfg =
     (case mf_paths cfg of [] \<Rightarrow> Inl (RuntimeError ''model_cfg.model_paths is empty'') | p # _ \<Rightarrow> Inr (parent_path p))"

text \<open>The chain of \<open>contains\<close> and \<open>at\<close>, which fails on the first key that is not there.\<close>

fun descend :: "json \<Rightarrow> string list \<Rightarrow> json option" where
  "descend j [] = Some j"
| "descend j (k # ks) = (case map_of (members j) k of None \<Rightarrow> None | Some v \<Rightarrow> descend v ks)"

definition push_bin :: "string \<Rightarrow> json \<Rightarrow> (string list, unit) sx" where
  "push_bin dir b = sbind (slift (get_string b)) (\<lambda>s. smod (\<lambda>ps. ps @ [path_join dir s]))"

definition ctx_bins :: "bundle_files \<Rightarrow> string \<Rightarrow> (string list, unit) sx" where
  "ctx_bins fs dir =
     sbind (slift (loadJson fs (path_join dir ''genie_config.json''))) (\<lambda>j.
       case descend j [''dialog'', ''engine'', ''model'', ''binary'', ''ctx-bins''] of
         None \<Rightarrow> sret ()
       | Some bins \<Rightarrow> sfor (push_bin dir) (elements bins))"

definition dir_bins :: "bundle_files \<Rightarrow> string \<Rightarrow> string list" where
  "dir_bins fs dir = sort (filter (\<lambda>p. path_extension p = ''.bin'') (map (path_join dir) (bf_names fs dir)))"

definition modelConfigFromDirectory :: "bundle_files \<Rightarrow> string \<Rightarrow> model_config res" where
  "modelConfigFromDirectory fs dir =
     (let tok = path_join dir ''tokenizer.json''; htp = path_join dir ''htp_backend_ext_config.json'';
          genie = path_join dir ''genie_config.json'' in
      if \<not> bf_exists fs tok then Inl (RuntimeError ''tokenizer.json not found'')
      else rbind (if bf_exists fs genie then filled_in (ctx_bins fs dir) [] else Inr []) (\<lambda>listed.
        let paths = (if listed = [] then dir_bins fs dir else listed)
        in if paths = [] then Inl (RuntimeError ''no .bin shards found'')
           else Inr (emptyModelConfig\<lparr> mf_paths := paths, mf_tokenizer := tok,
                       mf_htp_config := (if bf_exists fs htp then htp else []) \<rparr>)))"

section \<open>The documents the bundles carry\<close>

text \<open>
  A configuration written out in the layout the bundles have, keys in order. Floats are printed
  as the doubles they widen to.
\<close>

definition json_float :: "f32 \<Rightarrow> json" where
  "json_float x = JFloat (f64_of_f32 x)"

definition json_int :: "int \<Rightarrow> json" where
  "json_int t = (if t < 0 then JInt t else JUnsigned (nat t))"

fun rope_document :: "rope_scaling \<Rightarrow> json" where
  "rope_document StandardRope = JObject [(''rope-type'', JString ''default'')]"
| "rope_document (Llama3Rope factor lo hi orig) = JObject
     [(''factor'', json_float factor), (''high-freq-factor'', json_float hi), (''low-freq-factor'', json_float lo),
      (''original-max-position-embeddings'', JUnsigned orig), (''rope-type'', JString ''llama3'')]"
| "rope_document (LongRope long short orig) = JObject
     [(''long-factor'', JArray (map json_float long)), (''original-max-position-embeddings'', JUnsigned orig),
      (''rope-type'', JString ''longrope''), (''short-factor'', JArray (map json_float short))]"
| "rope_document (PartialRope fraction sc) = JObject
     [(''rope-fraction'', json_float fraction), (''rope-type'', JString ''partial''), (''scale'', json_float sc)]"
| "rope_document (MRope section merge time) = JObject
     [(''mrope-section'', JArray (map json_int section)), (''rope-type'', JString ''qwen2vl-mrope''),
      (''spatial-merge-size'', json_int merge), (''time-step'', json_int time)]"

definition dialog_document :: "genie_config \<Rightarrow> json" where
  "dialog_document gc = JObject
     [(''context'', JObject [(''bos-token'', json_int (gn_bos gc)), (''eos-token'', JArray (map json_int (gn_eos gc))),
                             (''pad-token'', json_int (gn_pad gc))]),
      (''embedding'', JObject (case gn_lut_path gc of None \<Rightarrow> [] | Some p \<Rightarrow> [(''lut-path'', JString p)])),
      (''engine'', JObject [(''model'', JObject [(''positional-encoding'', JObject
         [(''rope-scaling'', rope_document (gn_rope_scaling gc)), (''rope-theta'', json_float (gn_rope_theta gc))])])]),
      (''type'', JString (gn_dialog_type gc))]"

definition i32_ok :: "int \<Rightarrow> bool" where
  "i32_ok t \<longleftrightarrow> - (2 ^ 31) \<le> t \<and> t < 2 ^ 31"

fun rope_ok :: "rope_scaling \<Rightarrow> bool" where
  "rope_ok StandardRope \<longleftrightarrow> True"
| "rope_ok (Llama3Rope factor lo hi orig) \<longleftrightarrow> \<not> f32_isnan factor \<and> \<not> f32_isnan lo \<and> \<not> f32_isnan hi"
| "rope_ok (LongRope long short orig) \<longleftrightarrow> (\<forall>x \<in> set long. \<not> f32_isnan x) \<and> (\<forall>x \<in> set short. \<not> f32_isnan x)"
| "rope_ok (PartialRope fraction sc) \<longleftrightarrow> \<not> f32_isnan fraction \<and> \<not> f32_isnan sc"
| "rope_ok (MRope section merge time) \<longleftrightarrow> (\<forall>t \<in> set section. i32_ok t) \<and> i32_ok merge \<and> i32_ok time"

definition genie_ok :: "genie_config \<Rightarrow> bool" where
  "genie_ok gc \<longleftrightarrow> i32_ok (gn_bos gc) \<and> i32_ok (gn_pad gc) \<and> (\<forall>t \<in> set (gn_eos gc). i32_ok t)
     \<and> \<not> f32_isnan (gn_rope_theta gc) \<and> rope_ok (gn_rope_scaling gc)"

lemma get_json_float: "\<not> f32_isnan x \<Longrightarrow> get_float (json_float x) = Inr x"
  by (simp add: get_float_def json_float_def f32_there_and_back)

lemma get_json_int: "i32_ok t \<Longrightarrow> get_int (json_int t) = Inr t"
  by (simp add: get_int_def json_int_def i32_ok_def to_i32_id)

lemma rmap_map_Inr: "(\<And>x. x \<in> set xs \<Longrightarrow> f (g x) = Inr x) \<Longrightarrow> rmap f (map g xs) = Inr xs"
  by (induction xs) simp_all

lemma json_int_not_null: "json_int t \<noteq> JNull"
  by (simp add: json_int_def)

lemmas loader_simps = object_at_def members_def is_object_def is_array_def contains_def elements_def elements_at_def
  value_or_def get_string_def getOpt_def set_opt_def with_object_def

lemma parse_rope_document: "rope_ok r \<Longrightarrow> parseRopeScaling (rope_document r) = Inr r"
  by (cases r) (simp_all add: parseRopeScaling_def loader_simps get_json_float get_json_int rmap_map_Inr get_size_def)

lemma push_eos_run:
  assumes "\<forall>t \<in> set ts. i32_ok t"
  shows "sfor push_eos (map json_int ts @ rest) gc = sfor push_eos rest (gc\<lparr> gn_eos := gn_eos gc @ ts \<rparr>)"
  using assms
proof (induction ts arbitrary: gc)
  case Nil
  then show ?case by simp
next
  case (Cons t ts)
  then show ?case by (simp add: push_eos_def sbind_run sthen_run sx_simps get_json_int)
qed

lemma push_eos_all: "\<forall>t \<in> set ts. i32_ok t \<Longrightarrow> sfor push_eos (map json_int ts) gc = (Inr (), gc\<lparr> gn_eos := gn_eos gc @ ts \<rparr>)"
  using push_eos_run [of ts "[]"] by (simp add: sx_simps)

lemma rope_document_object: "is_object (rope_document r)"
  by (cases r) (simp_all add: is_object_def)

lemma read_dialog_document:
  assumes "genie_ok gc"
  shows "read_dialog (dialog_document gc) defaultGenieConfig = (Inr (), gc)"
proof -
  have g: "i32_ok (gn_bos gc)" "i32_ok (gn_pad gc)" "\<forall>t \<in> set (gn_eos gc). i32_ok t" "\<not> f32_isnan (gn_rope_theta gc)" "rope_ok (gn_rope_scaling gc)"
    using assms by (simp_all add: genie_ok_def)
  show ?thesis
    using rope_document_object [of "gn_rope_scaling gc"]
    by (cases gc; cases "gn_lut_path gc")
      (use g in \<open>simp_all add: read_dialog_def dialog_document_def read_context_def read_engine_def loader_simps sthen_run sbind_run sx_simps
        get_json_int get_json_float json_int_not_null push_eos_all parse_rope_document is_number_integer_def defaultGenieConfig_def split: json.splits\<close>)
qed

section \<open>The shards of a directory\<close>

lemma push_bins:
  "sfor (push_bin dir) (map JString ns @ rest) ps = sfor (push_bin dir) rest (ps @ map (path_join dir) ns)"
  by (induction ns arbitrary: ps) (simp_all add: push_bin_def get_string_def sbind_run sthen_run sx_simps)

lemma model_config_paths:
  assumes "modelConfigFromDirectory fs dir = Inr cfg"
  shows "mf_paths cfg \<noteq> [] \<and> (filled_in (ctx_bins fs dir) [] = Inr (mf_paths cfg) \<or> mf_paths cfg = dir_bins fs dir)"
  using assms by (auto simp: modelConfigFromDirectory_def Let_def emptyModelConfig_def split: if_splits)

lemma ctx_bins_run:
  assumes "bf_json fs (path_join dir ''genie_config.json'') = Some (Some j)"
    and "descend j [''dialog'', ''engine'', ''model'', ''binary'', ''ctx-bins''] = Some (JArray (map JString ns @ rest))"
  shows "ctx_bins fs dir [] = sfor (push_bin dir) rest (map (path_join dir) ns)"
  unfolding ctx_bins_def loadJson_def assms(1)
  by (simp add: sbind_run sx_simps assms(2) elements_def push_bins del: descend.simps)

lemma dir_bins_joined: "p \<in> set (dir_bins fs dir) \<Longrightarrow> \<exists>n \<in> set (bf_names fs dir). p = path_join dir n"
  by (auto simp: dir_bins_def)

section \<open>Properties\<close>

text \<open>C24: parsing the genie_config.json that writes a configuration down gives the configuration
  back, for every rope scaling the loader knows\<close>

theorem genie_document_roundtrip:
  assumes "genie_ok gc" "bf_exists fs (path_join dir ''genie_config.json'')"
    and "bf_json fs (path_join dir ''genie_config.json'') = Some (Some (JObject [(''dialog'', dialog_document gc)]))"
  shows "parseGenieConfig fs dir = Inr gc"
  using assms(2,3) read_dialog_document [OF assms(1)]
  by (simp add: parseGenieConfig_def from_genie_config_def Let_def filled_in_def loadJson_def sbind_run sx_simps
      with_object_def object_at_def members_def is_object_def dialog_document_def)

definition demo_genie :: genie_config where
  "demo_genie = \<lparr> gn_dialog_type = ''basic'', gn_bos = -1, gn_eos = [128001, 128009], gn_pad = 0, gn_rope_theta = 0x48F42400,
     gn_rope_scaling = Llama3Rope 0x42000000 f_one f_four 8192, gn_lut_path = None \<rparr>"

lemma demo_genie_ok: "genie_ok demo_genie"
  by (simp add: genie_ok_def demo_genie_def i32_ok_def f32_isnan_def f_one_def f_four_def f32_val_def f_eval)

lemma genie_document_roundtrip_witness:
  "parseGenieConfig (one_file ''/b/genie_config.json'' (JObject [(''dialog'', dialog_document demo_genie)])) ''/b'' = Inr demo_genie"
  by (rule genie_document_roundtrip [OF demo_genie_ok]) (simp_all add: one_file_def path_join_def)

text \<open>C40: one malformed entry in the list of end tokens keeps the entries before it, drops those
  behind it, and silently leaves the rope base and scaling of the bundle at their defaults\<close>

theorem malformed_eos_drops_rope:
  assumes "bf_exists fs (path_join dir ''genie_config.json'')" "bf_json fs (path_join dir ''genie_config.json'') = Some (Some j)"
    and "object_at j ''dialog'' = Some dialog" "object_at dialog ''context'' = Some ctx"
    and "getOpt get_int ctx ''bos-token'' = Inr bos" "getOpt get_int ctx ''pad-token'' = Inr pad"
    and "map_of (members ctx) ''eos-token'' = Some (JArray (map json_int ts @ bad # rest))" "\<forall>t \<in> set ts. i32_ok t"
    and "get_int bad = Inl (RuntimeError w)"
  shows "\<exists>gc. parseGenieConfig fs dir = Inr gc \<and> gn_eos gc = ts
    \<and> gn_rope_theta gc = f_ten_thousand \<and> gn_rope_scaling gc = StandardRope \<and> gn_lut_path gc = None"
proof -
  have e: "sfor push_eos (map json_int ts @ bad # rest) gc = (Inl (RuntimeError w), gc\<lparr> gn_eos := gn_eos gc @ ts \<rparr>)" for gc
    unfolding push_eos_run [OF assms(8)] by (simp add: push_eos_def sthen_run sbind_run sx_simps assms(9))
  define put_type where "put_type = (case map_of (members dialog) ''type'' of Some (JString t) \<Rightarrow> gn_dialog_type_update (\<lambda>_. t) | _ \<Rightarrow> (\<lambda>gc. gc))"
  have ty: "(case map_of (members dialog) ''type'' of Some (JString t) \<Rightarrow> smod (\<lambda>gc. gc\<lparr> gn_dialog_type := t \<rparr>) | _ \<Rightarrow> sret ())
      = smod put_type"
    by (auto simp: put_type_def sx_defs fun_eq_iff split: option.splits json.splits)
  have "\<exists>gc. read_dialog dialog defaultGenieConfig = (Inl (RuntimeError w), gc) \<and> gn_eos gc = ts
      \<and> gn_rope_theta gc = f_ten_thousand \<and> gn_rope_scaling gc = StandardRope \<and> gn_lut_path gc = None"
    unfolding read_dialog_def ty
    by (auto simp: put_type_def sthen_run sbind_run sx_simps with_object_def assms(4-7) read_context_def set_opt_def is_number_integer_def
        is_array_def elements_def e defaultGenieConfig_def split: option.splits json.splits)
  then show ?thesis using assms(1-3)
    by (auto simp: parseGenieConfig_def from_genie_config_def Let_def filled_in_def loadJson_def sbind_run sx_simps with_object_def)
qed

definition broken_genie :: json where
  "broken_genie = JObject [(''dialog'', JObject
     [(''context'', JObject [(''bos-token'', JUnsigned 1), (''eos-token'', JArray [JUnsigned 2, JString ''</s>'']), (''pad-token'', JNull)]),
      (''engine'', JObject [(''model'', JObject [(''positional-encoding'', JObject
         [(''rope-scaling'', rope_document (Llama3Rope 0x42000000 f_one f_four 8192)), (''rope-theta'', json_float 0x48F42400)])])])])]"

lemma malformed_eos_drops_rope_witness:
  "\<exists>gc. parseGenieConfig (one_file ''/b/genie_config.json'' broken_genie) ''/b'' = Inr gc
     \<and> gn_eos gc = [2] \<and> gn_rope_theta gc = f_ten_thousand \<and> gn_rope_scaling gc = StandardRope"
proof -
  let ?fs = "one_file ''/b/genie_config.json'' broken_genie"
  define ctx where "ctx = JObject [(''bos-token'', JUnsigned 1), (''eos-token'', JArray [JUnsigned 2, JString ''</s>'']), (''pad-token'', JNull)]"
  obtain dialog where d: "object_at broken_genie ''dialog'' = Some dialog" "object_at dialog ''context'' = Some ctx"
    by (simp add: broken_genie_def object_at_def members_def is_object_def ctx_def)
  have "bf_exists ?fs (path_join ''/b'' ''genie_config.json'')" "bf_json ?fs (path_join ''/b'' ''genie_config.json'') = Some (Some broken_genie)"
    by (simp_all add: one_file_def path_join_def)
  note f = this
  have c: "getOpt get_int ctx ''bos-token'' = Inr (Some 1)" "getOpt get_int ctx ''pad-token'' = Inr None"
    "map_of (members ctx) ''eos-token'' = Some (JArray (map json_int [2] @ JString ''</s>'' # []))" "\<forall>t \<in> set [2]. i32_ok t"
    "get_int (JString ''</s>'') = Inl (RuntimeError ''type_error.302'')"
    by (simp_all add: ctx_def getOpt_def members_def get_int_def to_i32_id json_int_def i32_ok_def not_a_number_def)
  show ?thesis using malformed_eos_drops_rope [OF f d c] by blast
qed

text \<open>The directory a configuration was made from is the one the loaders look in.\<close>

theorem bundle_dir_roundtrip:
  assumes "modelConfigFromDirectory fs dir = Inr cfg" "dir \<noteq> []" "last dir \<noteq> CHR ''/''"
    and "bf_exists fs (path_join dir ''genie_config.json'') \<Longrightarrow>
      bf_json fs (path_join dir ''genie_config.json'') = Some (Some j)
      \<and> descend j [''dialog'', ''engine'', ''model'', ''binary'', ''ctx-bins''] = Some (JArray (map JString ns))"
    and "\<forall>n \<in> set ns \<union> set (bf_names fs dir). CHR ''/'' \<notin> set n"
  shows "bundleDirOf cfg = Inr dir
    \<and> (bf_exists fs (path_join dir ''genie_config.json'') \<and> ns \<noteq> [] \<longrightarrow> mf_paths cfg = map (path_join dir) ns)"
proof -
  have run: "filled_in (ctx_bins fs dir) [] = Inr (map (path_join dir) ns)" if "bf_exists fs (path_join dir ''genie_config.json'')"
    using ctx_bins_run [of fs dir j ns "[]"] assms(4) [OF that] by (simp add: filled_in_def sx_simps)
  have paths: "mf_paths cfg = (if bf_exists fs (path_join dir ''genie_config.json'') \<and> ns \<noteq> [] then map (path_join dir) ns else dir_bins fs dir)"
    using assms(1) run by (auto simp: modelConfigFromDirectory_def Let_def emptyModelConfig_def split: if_splits)
  obtain p ps where p: "mf_paths cfg = p # ps" using model_config_paths [OF assms(1)] by (cases "mf_paths cfg") auto
  then have "p \<in> set (mf_paths cfg)" by simp
  then have "\<exists>n \<in> set ns \<union> set (bf_names fs dir). p = path_join dir n"
    unfolding paths using dir_bins_joined [of p fs dir] by (auto split: if_splits)
  then obtain n where "p = path_join dir n" "CHR ''/'' \<notin> set n" using assms(5) by blast
  then have "bundleDirOf cfg = Inr dir" using parent_of_join [OF assms(2,3)] p by (simp add: bundleDirOf_def)
  then show ?thesis using paths by simp
qed

definition demo_bundle :: "json list \<Rightarrow> bundle_files" where
  "demo_bundle bins = \<lparr> bf_exists = (\<lambda>p. p = ''/m/genie_config.json'' \<or> p = ''/m/tokenizer.json''),
     bf_json = (\<lambda>p. if p = ''/m/genie_config.json'' then Some (Some (JObject [(''dialog'', JObject [(''engine'', JObject
       [(''model'', JObject [(''binary'', JObject [(''ctx-bins'', JArray bins)])])])])])) else None),
     bf_names = (\<lambda>_. [''2.bin'', ''1.bin'', ''3.bin'']) \<rparr>"

lemma demo_bundle_facts:
  "bf_exists (demo_bundle bins) (path_join ''/m'' ''genie_config.json'')" "bf_exists (demo_bundle bins) (path_join ''/m'' ''tokenizer.json'')"
  "\<exists>j. bf_json (demo_bundle bins) (path_join ''/m'' ''genie_config.json'') = Some (Some j)
     \<and> descend j [''dialog'', ''engine'', ''model'', ''binary'', ''ctx-bins''] = Some (JArray bins)"
  by (simp_all add: demo_bundle_def path_join_def members_def)

lemma bundle_dir_roundtrip_witness:
  "\<exists>cfg. modelConfigFromDirectory (demo_bundle (map JString [''2.bin'', ''1.bin''])) ''/m'' = Inr cfg
     \<and> bundleDirOf cfg = Inr ''/m'' \<and> mf_paths cfg = [''/m/2.bin'', ''/m/1.bin'']"
proof -
  let ?fs = "demo_bundle (map JString [''2.bin'', ''1.bin''])" and ?ns = "[''2.bin'', ''1.bin'']"
  obtain j where j: "bf_json ?fs (path_join ''/m'' ''genie_config.json'') = Some (Some j)"
    "descend j [''dialog'', ''engine'', ''model'', ''binary'', ''ctx-bins''] = Some (JArray (map JString ?ns))"
    using demo_bundle_facts(3) [of "map JString ?ns"] by blast
  have "filled_in (ctx_bins ?fs ''/m'') [] = Inr (map (path_join ''/m'') ?ns)"
    using ctx_bins_run [of ?fs "''/m''" j ?ns "[]"] j by (simp add: filled_in_def sx_simps)
  then obtain cfg where c: "modelConfigFromDirectory ?fs ''/m'' = Inr cfg"
    using demo_bundle_facts(1,2) by (simp add: modelConfigFromDirectory_def Let_def)
  have n: "\<And>bins. bf_names (demo_bundle bins) ''/m'' = [''2.bin'', ''1.bin'', ''3.bin'']" by (simp add: demo_bundle_def)
  have "bundleDirOf cfg = Inr ''/m'' \<and> (bf_exists ?fs (path_join ''/m'' ''genie_config.json'') \<and> ?ns \<noteq> [] \<longrightarrow> mf_paths cfg = map (path_join ''/m'') ?ns)"
    by (rule bundle_dir_roundtrip [OF c _ _ conjI [OF j]]) (simp_all add: n)
  then show ?thesis using c demo_bundle_facts(1) by (simp add: path_join_def)
qed

theorem malformed_bin_truncates:
  assumes "bf_exists fs (path_join dir ''tokenizer.json'')" "bf_exists fs (path_join dir ''genie_config.json'')"
    and "bf_json fs (path_join dir ''genie_config.json'') = Some (Some j)"
    and "descend j [''dialog'', ''engine'', ''model'', ''binary'', ''ctx-bins''] = Some (JArray (map JString ns @ bad # rest))"
    and "\<not> is_string bad" "ns \<noteq> []"
  shows "\<exists>cfg. modelConfigFromDirectory fs dir = Inr cfg \<and> mf_paths cfg = map (path_join dir) ns"
proof -
  have "push_bin dir bad ps = (Inl (RuntimeError ''type_error.302''), ps)" for ps
    using assms(5) by (simp add: push_bin_def get_string_def is_string_def sbind_run sx_simps split: json.splits)
  then have "filled_in (ctx_bins fs dir) [] = Inr (map (path_join dir) ns)"
    using ctx_bins_run [OF assms(3,4)] by (simp add: filled_in_def sthen_run)
  then show ?thesis using assms(1,2,6) by (simp add: modelConfigFromDirectory_def Let_def emptyModelConfig_def)
qed

lemma malformed_bin_truncates_witness:
  "\<exists>cfg. modelConfigFromDirectory (demo_bundle [JString ''1.bin'', JNull, JString ''3.bin'']) ''/m'' = Inr cfg \<and> mf_paths cfg = [''/m/1.bin'']"
proof -
  let ?fs = "demo_bundle [JString ''1.bin'', JNull, JString ''3.bin'']"
  obtain j where j: "bf_json ?fs (path_join ''/m'' ''genie_config.json'') = Some (Some j)"
    "descend j [''dialog'', ''engine'', ''model'', ''binary'', ''ctx-bins''] = Some (JArray (map JString [''1.bin''] @ JNull # [JString ''3.bin'']))"
    using demo_bundle_facts(3) [of "[JString ''1.bin'', JNull, JString ''3.bin'']"] by auto
  show ?thesis using malformed_bin_truncates [OF demo_bundle_facts(2,1) j] by (simp add: is_string_def path_join_def)
qed

end
