(* ===== verification/VitUtils.thy ===== *)
theory VitUtils
  imports LLMUtils Graphs
begin

text \<open>
  The helpers of the vision transformers (\<open>core/src/vlm/vit_utils.cpp\<close>): the order of the
  windows and back, the boundaries of the windows, the block mask, and the rotary tables.

  Grid sizes are counts, far below the range of \<open>int\<close>; a division by zero is undefined.
\<close>

section \<open>Windows\<close>

text \<open>The index triples of three nested loops, in their order.\<close>

definition grid3 :: "nat \<Rightarrow> nat \<Rightarrow> nat \<Rightarrow> (nat \<times> nat \<times> nat) list" where
  "grid3 a b c = List.product [0..<a] (List.product [0..<b] [0..<c])"

definition set_vec :: "nat \<Rightarrow> 'a \<Rightarrow> 'a list \<Rightarrow> 'a list res" where
  "set_vec i x xs = (if i < length xs then Inr (xs[i := x]) else Inl UndefinedBehaviour)"

text \<open>Side of a window in merged patches, the merged grid, and its padding to whole windows.\<close>

record vit_grid =
  vg_ws :: nat
  vg_h :: nat
  vg_w :: nat

definition vit_grid_of :: "nat \<Rightarrow> nat \<Rightarrow> nat \<Rightarrow> nat \<Rightarrow> nat \<Rightarrow> vit_grid res" where
  "vit_grid_of H W sm window_size patch_size =
     (if sm = 0 \<or> patch_size = 0 \<or> window_size div sm div patch_size = 0 then Inl UndefinedBehaviour
      else Inr \<lparr> vg_ws = window_size div sm div patch_size, vg_h = H div sm, vg_w = W div sm \<rparr>)"

definition win_pad :: "nat \<Rightarrow> nat \<Rightarrow> nat" where
  "win_pad ws n = (ws - n mod ws) mod ws"

definition win_count :: "nat \<Rightarrow> nat \<Rightarrow> nat" where
  "win_count ws n = (n + win_pad ws n) div ws"

definition padded_index :: "nat \<Rightarrow> vit_grid \<Rightarrow> int list res" where
  "padded_index T g =
     (let pH = vg_h g + win_pad (vg_ws g) (vg_h g); pW = vg_w g + win_pad (vg_ws g) (vg_w g)
      in rfor (\<lambda>(t, h, w). set_vec (t * pH * pW + h * pW + w) (int (t * vg_h g * vg_w g + h * vg_w g + w)))
           (grid3 T (vg_h g) (vg_w g)) (replicate (T * pH * pW) (- 100)))"

text \<open>One cell of a window: outside the padded grid it is skipped, a padding cell adds nothing.\<close>

definition window_cell :: "vit_grid \<Rightarrow> int list \<Rightarrow> nat \<times> nat \<times> nat \<Rightarrow> nat \<times> nat \<Rightarrow> int list \<Rightarrow> int list res" where
  "window_cell g idx_pad = (\<lambda>(t, wh, ww) (ih, iw) out.
     let pH = vg_h g + win_pad (vg_ws g) (vg_h g); pW = vg_w g + win_pad (vg_ws g) (vg_w g);
         h = wh * vg_ws g + ih; w = ww * vg_ws g + iw
     in if pH \<le> h \<or> pW \<le> w then Inr out
        else rbind (idx_vec idx_pad (t * pH * pW + h * pW + w)) (\<lambda>v.
             Inr (if v \<noteq> - 100 then out @ [v] else out)))"

definition computeWindowIndex :: "nat \<Rightarrow> nat \<Rightarrow> nat \<Rightarrow> nat \<Rightarrow> nat \<Rightarrow> nat \<Rightarrow> int list res" where
  "computeWindowIndex T H W sm window_size patch_size =
     rbind (vit_grid_of H W sm window_size patch_size) (\<lambda>g.
     rbind (padded_index T g) (\<lambda>idx_pad.
       rfor (\<lambda>win. rfor (window_cell g idx_pad win) (List.product [0..<vg_ws g] [0..<vg_ws g]))
         (grid3 T (win_count (vg_ws g) (vg_h g)) (win_count (vg_ws g) (vg_w g))) []))"

definition reverseWindowIndex :: "int list \<Rightarrow> int list res" where
  "reverseWindowIndex wi = rfor (\<lambda>i. set_vec (to_size (wi ! i)) (int i)) [0..<length wi] (replicate (length wi) 0)"

definition reorder_row :: "nat \<Rightarrow> f32 list \<Rightarrow> int list \<Rightarrow> nat \<Rightarrow> f32 list \<Rightarrow> f32 list res" where
  "reorder_row stride hidden wi i out =
     rbind (buf_load (to_size (wi ! i) * stride) stride hidden) (\<lambda>row. buf_store (i * stride) row out)"

definition windowReorder :: "f32 list \<Rightarrow> nat \<Rightarrow> nat \<Rightarrow> nat \<Rightarrow> int list \<Rightarrow> f32 list res" where
  "windowReorder hidden n_groups sm_unit embed_dim wi =
     rfor (reorder_row (sm_unit * embed_dim) hidden wi) [0..<length wi] (replicate (n_groups * (sm_unit * embed_dim)) 0)"

section \<open>Boundaries and mask\<close>

text \<open>The patches of a window, and the boundary after it unless it is empty.\<close>

definition window_valid :: "vit_grid \<Rightarrow> nat \<times> nat \<times> nat \<Rightarrow> nat" where
  "window_valid g = (\<lambda>(t, wh, ww). length (filter (\<lambda>(ih, iw). wh * vg_ws g + ih < vg_h g \<and> ww * vg_ws g + iw < vg_w g)
     (List.product [0..<vg_ws g] [0..<vg_ws g])))"

definition push_boundary :: "nat \<Rightarrow> int list \<Rightarrow> int list" where
  "push_boundary n cu = (let nxt = last cu + int n in if nxt \<noteq> last cu then cu @ [nxt] else cu)"

definition computeCuWindowSeqlens :: "nat \<Rightarrow> nat \<Rightarrow> nat \<Rightarrow> nat \<Rightarrow> nat \<Rightarrow> nat \<Rightarrow> int list res" where
  "computeCuWindowSeqlens T H W sm window_size patch_size =
     rbind (vit_grid_of H W sm window_size patch_size) (\<lambda>g.
       Inr (fold (\<lambda>win. push_boundary (window_valid g win * (sm * sm)))
         (grid3 T (win_count (vg_ws g) (vg_h g)) (win_count (vg_ws g) (vg_w g))) [0]))"

text \<open>A block's rows get its number; a boundary below zero or past the end writes outside.\<close>

definition mark_block :: "int list \<Rightarrow> nat \<Rightarrow> nat list \<Rightarrow> nat list res" where
  "mark_block bs b row_block =
     (if bs ! b < bs ! (b + 1)
      then rfor (\<lambda>i. set_vec (to_size i) b) [bs ! b..bs ! (b + 1) - 1] row_block
      else Inr row_block)"

definition mask_block_row :: "nat \<Rightarrow> int list \<Rightarrow> nat list \<Rightarrow> f32 \<Rightarrow> nat \<Rightarrow> f32 list \<Rightarrow> f32 list res" where
  "mask_block_row N bs row_block allowed i msk =
     rbind (idx_vec row_block i) (\<lambda>b. rbind (idx_vec bs b) (\<lambda>lo. rbind (idx_vec bs (b + 1)) (\<lambda>hi.
       if hi \<le> lo then Inr msk
       else if int (i * N) + lo < 0 then Inl UndefinedBehaviour
       else buf_store (nat (int (i * N) + lo)) (replicate (nat (hi - lo)) allowed) msk)))"

definition buildBlockAttentionMask :: "nat \<Rightarrow> int list \<Rightarrow> f32 \<Rightarrow> f32 \<Rightarrow> f32 list res" where
  "buildBlockAttentionMask N bs allowed blocked =
     (if bs = [] \<or> hd bs \<noteq> 0 \<or> to_size (last bs) \<noteq> N then Inl (RuntimeError ''buildBlockAttentionMask: boundaries must start at 0 and end at N'')
      else rbind (rfor (mark_block bs) [0..<length bs - 1] (replicate N 0)) (\<lambda>row_block.
           rfor (mask_block_row N bs row_block allowed) [0..<N] (replicate (N * N) blocked)))"

section \<open>Rotary tables\<close>

definition makeInvFreq :: "libm \<Rightarrow> nat \<Rightarrow> f32 \<Rightarrow> f32 list" where
  "makeInvFreq lm dim theta =
     map (\<lambda>i. f32_div (f32_of_int 1) (m_powf lm theta (f32_div (f32_of_int (int (i * 2))) (f32_of_int (int dim))))) [0..<dim div 2]"

text \<open>The angles of a patch: its row with every frequency, then its column.\<close>

definition patch_angles :: "f32 list \<Rightarrow> nat \<Rightarrow> nat \<Rightarrow> f32 list" where
  "patch_angles inv_freq h w = map (f32_mul (f32_of_int (int h))) inv_freq @ map (f32_mul (f32_of_int (int w))) inv_freq"

definition spatial_step :: "(f32 \<Rightarrow> f32) \<Rightarrow> nat \<Rightarrow> nat \<Rightarrow> f32 list \<Rightarrow> int list \<Rightarrow> nat \<Rightarrow> f32 list \<Rightarrow> f32 list res" where
  "spatial_step f sm_unit emb_dim rot_emb wi i out =
     rbind (buf_load (to_size (wi ! i) * emb_dim) emb_dim rot_emb) (\<lambda>src.
       buf_store (i * sm_unit * emb_dim) (concat (replicate sm_unit (map f src))) out)"

definition computeSpatialCosSin :: "libm \<Rightarrow> nat \<Rightarrow> nat \<Rightarrow> nat \<Rightarrow> nat \<Rightarrow> f32 list \<Rightarrow> int list \<Rightarrow> (f32 list \<times> f32 list) res" where
  "computeSpatialCosSin lm T H W sm inv_freq wi =
     (if sm = 0 then Inl UndefinedBehaviour
      else let llm_h = H div sm; llm_w = W div sm; sm_unit = sm * sm; emb_dim = 2 * length inv_freq;
               rot_emb = concat (map (\<lambda>(t, h, w). patch_angles inv_freq h w) (grid3 T llm_h llm_w));
               out = replicate (T * llm_h * llm_w * sm_unit * emb_dim) 0
           in rbind (rfor (spatial_step (m_cosf lm) sm_unit emb_dim rot_emb wi) [0..<length wi] out) (\<lambda>c.
              rbind (rfor (spatial_step (m_sinf lm) sm_unit emb_dim rot_emb wi) [0..<length wi] out) (\<lambda>s. Inr (c, s))))"

text \<open>The coordinates of the patches, merged block by merged block.\<close>

definition patch_coords :: "nat \<Rightarrow> nat \<Rightarrow> nat \<Rightarrow> (nat \<times> nat) list" where
  "patch_coords sm llm_h llm_w = concat (map (\<lambda>(br, bc). map (\<lambda>(ir, ic). (br * sm + ir, bc * sm + ic))
     (List.product [0..<sm] [0..<sm])) (List.product [0..<llm_h] [0..<llm_w]))"

text \<open>The table of coordinates has \<open>H * W\<close> entries, zero where the blocks do not reach.\<close>

definition computePatchRoPE :: "libm \<Rightarrow> nat \<Rightarrow> nat \<Rightarrow> nat \<Rightarrow> nat \<Rightarrow> f32 list \<Rightarrow> (f32 list \<times> f32 list) res" where
  "computePatchRoPE lm T H W sm inv_freq =
     (if sm = 0 then Inl UndefinedBehaviour
      else let ids = patch_coords sm (H div sm) (W div sm);
               ids = ids @ replicate (H * W - length ids) (0, 0);
               angles = concat (map (\<lambda>(h, w). patch_angles inv_freq h w) ids);
               table = concat (replicate T angles)
           in Inr (map (m_cosf lm) table, map (m_sinf lm) table))"

section \<open>Loops that fill a table\<close>

lemma rfor_set_vec:
  assumes "\<forall>x \<in> set xs. f x < length ys" "inj_on f (set xs)"
  shows "\<exists>ys'. rfor (\<lambda>x. set_vec (f x) (v x)) xs ys = Inr ys' \<and> length ys' = length ys
     \<and> (\<forall>x \<in> set xs. ys' ! f x = v x) \<and> (\<forall>i. i \<notin> f ` set xs \<longrightarrow> ys' ! i = ys ! i)"
  using assms
proof (induction xs arbitrary: ys)
  case (Cons x xs)
  let ?ys = "ys[f x := v x]"
  have "\<exists>ys'. rfor (\<lambda>x. set_vec (f x) (v x)) xs ?ys = Inr ys' \<and> length ys' = length ?ys
     \<and> (\<forall>x \<in> set xs. ys' ! f x = v x) \<and> (\<forall>i. i \<notin> f ` set xs \<longrightarrow> ys' ! i = ?ys ! i)"
    using Cons.prems by (intro Cons.IH) (auto simp: inj_on_def)
  then obtain ys' where y: "rfor (\<lambda>x. set_vec (f x) (v x)) xs ?ys = Inr ys'" "length ys' = length ys"
    "\<forall>x \<in> set xs. ys' ! f x = v x" "\<forall>i. i \<notin> f ` set xs \<longrightarrow> ys' ! i = ?ys ! i" by auto
  have "ys' ! f x = v x"
  proof (cases "x \<in> set xs")
    case False
    then have "f x \<notin> f ` set xs" using Cons.prems(2) by (auto simp: inj_on_def)
    then show ?thesis using y(4) Cons.prems(1) by simp
  qed (use y(3) in blast)
  moreover have "set_vec (f x) (v x) ys = Inr ?ys" using Cons.prems(1) by (simp add: set_vec_def)
  ultimately show ?case using y by (intro exI [of _ ys']) auto
qed simp

lemma rfor_appends:
  assumes "\<And>x out. x \<in> set xs \<Longrightarrow> f x out = Inr (out @ g x)"
  shows "rfor f xs out = Inr (out @ concat (map g xs))"
  using assms by (induction xs arbitrary: out) simp_all

lemma rfor_rows:
  assumes "\<And>i. i < n \<Longrightarrow> length (g i) = k" "length out = n * k"
    and "\<And>i out. i < n \<Longrightarrow> length out = n * k \<Longrightarrow> f i out = buf_store (i * k) (g i) out"
  shows "rfor f [0..<n] out = Inr (concat (map g [0..<n]))"
proof -
  have "rfor f [0..<m] out = Inr (concat (map g [0..<m]) @ drop (m * k) out)" if "m \<le> n" for m
    using that
  proof (induction m)
    case (Suc m)
    let ?o = "concat (map g [0..<m]) @ drop (m * k) out"
    have c: "length (concat (map g [0..<m])) = m * k"
    proof -
      have "map length (map g [0..<m]) = replicate m k" using Suc.prems assms(1) by (intro nth_equalityI) simp_all
      then show ?thesis by (simp add: length_concat sum_list_replicate)
    qed
    have le: "m * k + k \<le> n * k" using Suc.prems mult_le_mono1 [of "Suc m" n k] by simp
    have "length ?o = n * k" using c le assms(2) by simp
    then have "f m ?o = buf_store (m * k) (g m) ?o" using assms(3) Suc.prems by simp
    also have "\<dots> = Inr (concat (map g [0..<Suc m]) @ drop (Suc m * k) out)"
      using c le assms(1) [of m] assms(2) Suc.prems by (simp add: buf_store_def blit_def add.commute)
    finally have "f m ?o = Inr (concat (map g [0..<Suc m]) @ drop (Suc m * k) out)" .
    then show ?case using Suc by (simp add: rfor_append)
  qed simp
  from this [of n] show ?thesis using assms(2) by simp
qed

section \<open>The windows cover the grid exactly once\<close>

lemma win_count_mult: "0 < ws \<Longrightarrow> win_count ws n * ws = n + win_pad ws n"
proof -
  assume "0 < ws"
  have "n = ws * (n div ws) + n mod ws" by simp
  have "(n + win_pad ws n) mod ws = 0"
  proof (cases "n mod ws = 0")
    case False
    then have "win_pad ws n = ws - n mod ws" using \<open>0 < ws\<close> by (simp add: win_pad_def)
    moreover have "n mod ws < ws" using \<open>0 < ws\<close> by simp
    ultimately have "n + win_pad ws n = ws * (n div ws) + ws" using \<open>n = ws * (n div ws) + n mod ws\<close> by linarith
    then show ?thesis by simp
  qed (simp add: win_pad_def)
  then show ?thesis unfolding win_count_def by (simp add: mod_eq_0_iff_dvd)
qed

lemma enc_mod_div:
  assumes "h < b" "w < c"
  shows "(t * b * c + h * c + w) mod c = (w :: nat)" "(t * b * c + h * c + w) div c = t * b + h"
    "(t * b * c + h * c + w) div c mod b = h" "(t * b * c + h * c + w) div c div b = t"
proof -
  have e: "t * b * c + h * c + w = (t * b + h) * c + w" by (simp add: add_mult_distrib)
  show "(t * b * c + h * c + w) mod c = w" "(t * b * c + h * c + w) div c = t * b + h"
    using assms unfolding e by simp_all
  then show "(t * b * c + h * c + w) div c mod b = h" "(t * b * c + h * c + w) div c div b = t"
    using assms by simp_all
qed

lemma enc_less: "t < a \<Longrightarrow> h < b \<Longrightarrow> w < c \<Longrightarrow> t * b * c + h * c + w < a * b * (c :: nat)"
proof -
  assume a: "t < a" "h < b" "w < c"
  have "t * b * c + h * c + w < (t * b + h + 1) * c" using a by (simp add: add_mult_distrib)
  also have "\<dots> \<le> (t * b + b) * c" using a by (intro mult_le_mono1) simp
  also have "\<dots> \<le> a * b * c" using a mult_le_mono1 [of "Suc t" a b] by (intro mult_le_mono1) simp
  finally show ?thesis .
qed

lemma set_grid3: "set (grid3 a b c) = {(t, h, w). t < a \<and> h < b \<and> w < c}"
  by (auto simp: grid3_def)

lemma distinct_grid3: "distinct (grid3 a b c)"
  by (simp add: grid3_def distinct_product)

lemma padded_index_ok:
  assumes "pH = vg_h g + win_pad (vg_ws g) (vg_h g)" "pW = vg_w g + win_pad (vg_ws g) (vg_w g)"
  shows "\<exists>xs. padded_index T g = Inr xs \<and> length xs = T * pH * pW
     \<and> (\<forall>t < T. \<forall>h < pH. \<forall>w < pW. xs ! (t * pH * pW + h * pW + w)
          = (if h < vg_h g \<and> w < vg_w g then int (t * vg_h g * vg_w g + h * vg_w g + w) else - 100))"
proof -
  let ?f = "\<lambda>(t, h, w). t * pH * pW + h * pW + w" and ?v = "\<lambda>(t, h, w). int (t * vg_h g * vg_w g + h * vg_w g + w)"
  let ?xs = "grid3 T (vg_h g) (vg_w g)"
  have le: "vg_h g \<le> pH" "vg_w g \<le> pW" using assms by simp_all
  have inj: "t = t' \<and> h = h' \<and> w = w'"
    if "h < pH" "w < pW" "h' < pH" "w' < pW" "t * pH * pW + h * pW + w = t' * pH * pW + h' * pW + w'" for t h w t' h' w'
    using enc_mod_div [OF that(1,2), of t] enc_mod_div [OF that(3,4), of t'] that(5) by simp
  have "\<forall>x \<in> set ?xs. ?f x < length (replicate (T * pH * pW) (- 100 :: int))"
    using le by (auto simp: set_grid3 intro!: enc_less)
  moreover have "inj_on ?f (set ?xs)" using le by (auto simp: set_grid3 inj_on_def dest!: inj [rotated -1])
  ultimately obtain xs where x: "rfor (\<lambda>x. set_vec (?f x) (?v x)) ?xs (replicate (T * pH * pW) (- 100)) = Inr xs"
    "length xs = T * pH * pW" "\<forall>x \<in> set ?xs. xs ! ?f x = ?v x"
    "\<forall>i. i \<notin> ?f ` set ?xs \<longrightarrow> xs ! i = replicate (T * pH * pW) (- 100) ! i"
    using rfor_set_vec [of ?xs ?f "replicate (T * pH * pW) (- 100)" ?v] by auto
  have "xs ! (t * pH * pW + h * pW + w) = - 100" if "t < T" "h < pH" "w < pW" "\<not> (h < vg_h g \<and> w < vg_w g)" for t h w
  proof -
    have "t * pH * pW + h * pW + w \<notin> ?f ` set ?xs"
    proof
      assume "t * pH * pW + h * pW + w \<in> ?f ` set ?xs"
      then obtain t' h' w' where e: "t * pH * pW + h * pW + w = t' * pH * pW + h' * pW + w'" "h' < vg_h g" "w' < vg_w g"
        by (auto simp: set_grid3)
      from inj [OF that(2,3) _ _ e(1)] e(2,3) le that(4) show False by simp
    qed
    with x(4) have "xs ! (t * pH * pW + h * pW + w) = replicate (T * pH * pW) (- 100) ! (t * pH * pW + h * pW + w)" by blast
    also have "\<dots> = - 100" by (rule nth_replicate) (rule enc_less [OF that(1-3)])
    finally show ?thesis .
  qed
  moreover have "padded_index T g = Inr xs"
    using x(1) by (simp add: padded_index_def Let_def assms split_def)
  ultimately show ?thesis using x(2,3) by (intro exI [of _ xs]) (auto simp: set_grid3)
qed

text \<open>The groups in the order of the windows.\<close>

definition window_groups :: "vit_grid \<Rightarrow> nat \<times> nat \<times> nat \<Rightarrow> nat list" where
  "window_groups g = (\<lambda>(t, wh, ww). map (\<lambda>(ih, iw). t * vg_h g * vg_w g + (wh * vg_ws g + ih) * vg_w g + (ww * vg_ws g + iw))
     (filter (\<lambda>(ih, iw). wh * vg_ws g + ih < vg_h g \<and> ww * vg_ws g + iw < vg_w g) (List.product [0..<vg_ws g] [0..<vg_ws g])))"

definition window_order :: "nat \<Rightarrow> vit_grid \<Rightarrow> nat list" where
  "window_order T g = concat (map (window_groups g) (grid3 T (win_count (vg_ws g) (vg_h g)) (win_count (vg_ws g) (vg_w g))))"

lemma win_cell_bound:
  assumes "0 < ws" "i < win_count ws n" "j < ws"
  shows "i * ws + j < n + win_pad ws n"
proof -
  have "i * ws + j < Suc i * ws" using assms(3) by simp
  also have "\<dots> \<le> win_count ws n * ws" using assms(2) by (intro mult_le_mono1) simp
  finally show ?thesis using win_count_mult [OF assms(1)] by simp
qed

lemma concat_if: "concat (map (\<lambda>x. if P x then [int (f x)] else []) xs) = map int (map f (filter P xs))"
  by (induction xs) simp_all

lemma window_run:
  assumes ws: "0 < vg_ws g" and idx: "padded_index T g = Inr xs"
    and win: "(t, wh, ww) \<in> set (grid3 T (win_count (vg_ws g) (vg_h g)) (win_count (vg_ws g) (vg_w g)))"
  shows "rfor (window_cell g xs (t, wh, ww)) (List.product [0..<vg_ws g] [0..<vg_ws g]) out
    = Inr (out @ map int (window_groups g (t, wh, ww)))"
proof -
  let ?ws = "vg_ws g"
  let ?val = "\<lambda>(ih, iw). if wh * ?ws + ih < vg_h g \<and> ww * ?ws + iw < vg_w g
    then [int (t * vg_h g * vg_w g + (wh * ?ws + ih) * vg_w g + (ww * ?ws + iw))] else []"
  obtain pH pW where p: "pH = vg_h g + win_pad ?ws (vg_h g)" "pW = vg_w g + win_pad ?ws (vg_w g)" by blast
  from padded_index_ok [OF p, of T] idx have x: "length xs = T * pH * pW"
    "\<forall>t < T. \<forall>h < pH. \<forall>w < pW. xs ! (t * pH * pW + h * pW + w)
          = (if h < vg_h g \<and> w < vg_w g then int (t * vg_h g * vg_w g + h * vg_w g + w) else - 100)" by auto
  have w: "t < T" "wh < win_count ?ws (vg_h g)" "ww < win_count ?ws (vg_w g)" using win by (auto simp: set_grid3)
  have "window_cell g xs (t, wh, ww) (ih, iw) out = Inr (out @ ?val (ih, iw))" if "ih < ?ws" "iw < ?ws" for ih iw out
  proof -
    have b: "wh * ?ws + ih < pH" "ww * ?ws + iw < pW"
      using win_cell_bound [OF ws w(2) that(1)] win_cell_bound [OF ws w(3) that(2)] p by simp_all
    have "idx_vec xs (t * pH * pW + (wh * ?ws + ih) * pW + (ww * ?ws + iw))
        = Inr (if wh * ?ws + ih < vg_h g \<and> ww * ?ws + iw < vg_w g
            then int (t * vg_h g * vg_w g + (wh * ?ws + ih) * vg_w g + (ww * ?ws + iw)) else - 100)"
      using x(2) w(1) b enc_less [OF w(1) b] x(1) by (simp add: idx_vec_def)
    moreover have "int k \<noteq> - 100" for k by simp
    ultimately show ?thesis using b by (simp add: window_cell_def Let_def p [symmetric] del: of_nat_add of_nat_mult)
  qed
  then have "rfor (window_cell g xs (t, wh, ww)) (List.product [0..<?ws] [0..<?ws]) out
      = Inr (out @ concat (map ?val (List.product [0..<?ws] [0..<?ws])))"
    by (intro rfor_appends) auto
  moreover have "?val = (\<lambda>x. if (case x of (ih, iw) \<Rightarrow> wh * ?ws + ih < vg_h g \<and> ww * ?ws + iw < vg_w g)
      then [int (case x of (ih, iw) \<Rightarrow> t * vg_h g * vg_w g + (wh * ?ws + ih) * vg_w g + (ww * ?ws + iw))] else [])"
    by (simp add: fun_eq_iff split_def)
  ultimately show ?thesis by (simp only: concat_if) (simp add: window_groups_def)
qed

lemma computeWindowIndex_order:
  assumes "vit_grid_of H W sm window_size patch_size = Inr g"
  shows "computeWindowIndex T H W sm window_size patch_size = Inr (map int (window_order T g))"
proof -
  have ws: "0 < vg_ws g" using assms by (auto simp: vit_grid_of_def split: if_splits)
  from padded_index_ok [OF refl refl, of T g] obtain xs where idx: "padded_index T g = Inr xs" by blast
  have "rfor (\<lambda>win. rfor (window_cell g xs win) (List.product [0..<vg_ws g] [0..<vg_ws g])) wins []
      = Inr ([] @ concat (map (\<lambda>win. map int (window_groups g win)) wins))"
    if "set wins \<subseteq> set (grid3 T (win_count (vg_ws g) (vg_h g)) (win_count (vg_ws g) (vg_w g)))" for wins
    by (rule rfor_appends) (use that window_run [OF ws idx] in \<open>auto\<close>)
  from this [OF subset_refl] show ?thesis
    by (simp add: computeWindowIndex_def assms idx window_order_def map_concat comp_def)
qed

lemma window_groups_mem:
  "v \<in> set (window_groups g (t, wh, ww)) \<longleftrightarrow> (\<exists>h w. v = t * vg_h g * vg_w g + h * vg_w g + w \<and> h < vg_h g \<and> w < vg_w g
     \<and> wh * vg_ws g \<le> h \<and> h < wh * vg_ws g + vg_ws g \<and> ww * vg_ws g \<le> w \<and> w < ww * vg_ws g + vg_ws g)"
proof
  assume "v \<in> set (window_groups g (t, wh, ww))"
  then obtain ih iw where "v = t * vg_h g * vg_w g + (wh * vg_ws g + ih) * vg_w g + (ww * vg_ws g + iw)"
    "wh * vg_ws g + ih < vg_h g" "ww * vg_ws g + iw < vg_w g" "ih < vg_ws g" "iw < vg_ws g"
    by (auto simp: window_groups_def)
  then show "\<exists>h w. v = t * vg_h g * vg_w g + h * vg_w g + w \<and> h < vg_h g \<and> w < vg_w g
     \<and> wh * vg_ws g \<le> h \<and> h < wh * vg_ws g + vg_ws g \<and> ww * vg_ws g \<le> w \<and> w < ww * vg_ws g + vg_ws g"
    by (intro exI [of _ "wh * vg_ws g + ih"] exI [of _ "ww * vg_ws g + iw"]) simp
next
  assume "\<exists>h w. v = t * vg_h g * vg_w g + h * vg_w g + w \<and> h < vg_h g \<and> w < vg_w g
     \<and> wh * vg_ws g \<le> h \<and> h < wh * vg_ws g + vg_ws g \<and> ww * vg_ws g \<le> w \<and> w < ww * vg_ws g + vg_ws g"
  then obtain h w where "v = t * vg_h g * vg_w g + h * vg_w g + w" "h < vg_h g" "w < vg_w g"
    "wh * vg_ws g \<le> h" "h < wh * vg_ws g + vg_ws g" "ww * vg_ws g \<le> w" "w < ww * vg_ws g + vg_ws g" by blast
  then show "v \<in> set (window_groups g (t, wh, ww))"
    unfolding window_groups_def by (auto intro!: image_eqI [of _ _ "(h - wh * vg_ws g, w - ww * vg_ws g)"])
qed

lemma distinct_window_groups: "distinct (window_groups g win)"
proof (cases win)
  case (fields t wh ww)
  have "inj_on (\<lambda>(ih, iw). t * vg_h g * vg_w g + (wh * vg_ws g + ih) * vg_w g + (ww * vg_ws g + iw))
      {(ih, iw). wh * vg_ws g + ih < vg_h g \<and> ww * vg_ws g + iw < vg_w g}"
  proof (rule inj_onI, clarify)
    fix a b c d
    assume l: "wh * vg_ws g + a < vg_h g" "ww * vg_ws g + b < vg_w g" "wh * vg_ws g + c < vg_h g" "ww * vg_ws g + d < vg_w g"
      and e: "t * vg_h g * vg_w g + (wh * vg_ws g + a) * vg_w g + (ww * vg_ws g + b)
        = t * vg_h g * vg_w g + (wh * vg_ws g + c) * vg_w g + (ww * vg_ws g + d)"
    show "a = c \<and> b = d" using enc_mod_div(1,3) [OF l(1,2), of t] enc_mod_div(1,3) [OF l(3,4), of t] e by simp
  qed
  then show ?thesis
    by (auto simp: fields window_groups_def distinct_map distinct_product intro: inj_on_subset)
qed

lemma window_order_perm:
  assumes ws: "0 < vg_ws g"
  shows "distinct (window_order T g)" "set (window_order T g) = {..<T * vg_h g * vg_w g}"
proof -
  let ?wins = "grid3 T (win_count (vg_ws g) (vg_h g)) (win_count (vg_ws g) (vg_w g))"
  have same: "(t, wh, ww) = (t', wh', ww')"
    if v: "v \<in> set (window_groups g (t, wh, ww))" "v \<in> set (window_groups g (t', wh', ww'))" for v t wh ww t' wh' ww'
  proof -
    from v obtain h w h' w' where e: "v = t * vg_h g * vg_w g + h * vg_w g + w" "h < vg_h g" "w < vg_w g"
      "wh * vg_ws g \<le> h" "h < wh * vg_ws g + vg_ws g" "ww * vg_ws g \<le> w" "w < ww * vg_ws g + vg_ws g"
      "v = t' * vg_h g * vg_w g + h' * vg_w g + w'" "h' < vg_h g" "w' < vg_w g"
      "wh' * vg_ws g \<le> h'" "h' < wh' * vg_ws g + vg_ws g" "ww' * vg_ws g \<le> w'" "w' < ww' * vg_ws g + vg_ws g"
      unfolding window_groups_mem by blast
    have "t = t' \<and> h = h' \<and> w = w'"
      using enc_mod_div [OF e(2,3), of t] enc_mod_div [OF e(9,10), of t'] e(1,8) by simp
    moreover have "wh = h div vg_ws g" "wh' = h' div vg_ws g" "ww = w div vg_ws g" "ww' = w' div vg_ws g"
      using e ws by (auto intro!: div_nat_eqI [symmetric] simp: mult.commute)
    ultimately show ?thesis by simp
  qed
  have "distinct (concat (map (window_groups g) wins))" if "distinct wins" for wins
    using that
  proof (induction wins)
    case (Cons win wins)
    have "set (window_groups g win) \<inter> set (concat (map (window_groups g) wins)) = {}"
      using Cons.prems by (cases win) (auto dest: same)
    then show ?case using Cons by (simp add: distinct_window_groups)
  qed simp
  then show "distinct (window_order T g)" by (simp add: window_order_def distinct_grid3)
  have count: "x div vg_ws g < win_count (vg_ws g) n" if "x < n" for x n
  proof (rule ccontr)
    assume "\<not> x div vg_ws g < win_count (vg_ws g) n"
    then have "win_count (vg_ws g) n * vg_ws g \<le> (x div vg_ws g) * vg_ws g" by (intro mult_le_mono1) simp
    also have "\<dots> \<le> x" by simp
    finally show False using win_count_mult [OF ws, of n] that by simp
  qed
  show "set (window_order T g) = {..<T * vg_h g * vg_w g}"
  proof (intro equalityI subsetI)
    fix v assume "v \<in> set (window_order T g)"
    then obtain t wh ww where "t < T" "v \<in> set (window_groups g (t, wh, ww))" by (auto simp: window_order_def set_grid3)
    then show "v \<in> {..<T * vg_h g * vg_w g}" by (auto simp: window_groups_mem intro: enc_less)
  next
    fix v assume "v \<in> {..<T * vg_h g * vg_w g}"
    then have v: "v < T * vg_h g * vg_w g" by simp
    then have pos: "0 < vg_h g" "0 < vg_w g" by (auto intro: Nat.gr0I)
    define t h w where "t = v div vg_w g div vg_h g" and "h = v div vg_w g mod vg_h g" and "w = v mod vg_w g"
    have h: "h < vg_h g" "w < vg_w g" using pos by (simp_all add: h_def w_def)
    have e: "v = t * vg_h g * vg_w g + h * vg_w g + w"
      unfolding t_def h_def w_def by (metis add_mult_distrib div_mult_mod_eq)
    have "t < T" using v pos by (simp add: t_def div_mult2_eq [symmetric] mult.commute mult.left_commute less_mult_imp_div_less)
    moreover have "v \<in> set (window_groups g (t, h div vg_ws g, w div vg_ws g))"
      unfolding window_groups_mem using e h ws
      by (intro exI [of _ h] exI [of _ w]) (simp add: dividend_less_div_times add.commute)
    ultimately show "v \<in> set (window_order T g)"
      using count [OF h(1)] count [OF h(2)] by (auto simp: window_order_def set_grid3)
  qed
qed

section \<open>The order of the windows and back\<close>

lemma to_size_int: "k < 2 ^ 64 \<Longrightarrow> to_size (int k) = k"
  by (simp add: to_size_def)

definition is_perm :: "nat \<Rightarrow> nat list \<Rightarrow> bool" where
  "is_perm n p \<longleftrightarrow> length p = n \<and> distinct p \<and> set p = {..<n}"

lemma is_perm_nth: "is_perm n p \<Longrightarrow> i < n \<Longrightarrow> p ! i < n"
  unfolding is_perm_def using nth_mem by blast

lemma reverse_perm:
  assumes p: "is_perm n p" and n: "n \<le> 2 ^ 64"
  shows "\<exists>q. reverseWindowIndex (map int p) = Inr (map int q) \<and> is_perm n q \<and> (\<forall>i < n. q ! (p ! i) = i \<and> p ! (q ! i) = i)"
proof -
  have l: "length p = n" "distinct p" "set p = {..<n}" using p by (simp_all add: is_perm_def)
  let ?f = "\<lambda>i. to_size (map int p ! i)"
  have f: "?f i = p ! i" "p ! i < n" if "i < n" for i
    using is_perm_nth [OF p that] that l n by (simp_all add: to_size_int)
  have "\<forall>i \<in> set [0..<n]. ?f i < length (replicate n (0 :: int))" using f by simp
  moreover have "inj_on ?f (set [0..<n])" using f l by (simp add: inj_on_def nth_eq_iff_index_eq)
  ultimately obtain ys where y: "rfor (\<lambda>i. set_vec (?f i) (int i)) [0..<n] (replicate n 0) = Inr ys" "length ys = n"
    "\<forall>i \<in> set [0..<n]. ys ! ?f i = int i"
    using rfor_set_vec [of "[0..<n]" ?f "replicate n 0" int] by auto
  have yp: "ys ! (p ! i) = int i" if "i < n" for i
  proof -
    have "ys ! ?f i = int i" using y(3) that by (simp del: nth_map)
    then show ?thesis unfolding f(1) [OF that] .
  qed
  define q where "q = map nat ys"
  have q: "q ! (p ! i) = i" if "i < n" for i using y(2) yp [OF that] f(2) [OF that] by (simp add: q_def)
  have src: "\<exists>i < n. p ! i = j" if "j < n" for j using that l by (metis in_set_conv_nth lessThan_iff)
  have pq: "p ! (q ! j) = j" "q ! j < n" if "j < n" for j using src [OF that] q by auto
  have lq: "length q = n" using y(2) by (simp add: q_def)
  have "q ! i \<noteq> q ! j" if "i < n" "j < n" "i \<noteq> j" for i j using pq(1) that by metis
  then have "distinct q" unfolding distinct_conv_nth lq by blast
  moreover have "set q \<subseteq> {..<n}" using pq(2) lq by (auto simp: in_set_conv_nth)
  ultimately have "is_perm n q" using lq by (simp add: is_perm_def card_subset_eq distinct_card)
  moreover have "ys = map int q"
  proof (rule nth_equalityI)
    fix j assume "j < length ys"
    then obtain i where "i < n" "p ! i = j" using src y(2) by auto
    then show "ys ! j = map int q ! j" using y(2) yp f(2) by (auto simp: q_def)
  qed (simp add: lq y(2))
  ultimately show ?thesis using y(1) q pq(1) by (intro exI [of _ q]) (simp add: reverseWindowIndex_def l)
qed

lemma slice_concat_rows:
  assumes "\<And>i. i < n \<Longrightarrow> length (g i) = k" "j < n"
  shows "slice (j * k) k (concat (map g [0..<n])) = g j"
proof -
  have "[0..<n] = [0..<j] @ j # [Suc j..<n]" using assms(2) by (metis upt_add_eq_append upt_conv_Cons le_add1 le_add_diff_inverse less_imp_le add_0 plus_nat.add_0)
  moreover have "map length (map g [0..<j]) = replicate j k" using assms by (intro nth_equalityI) simp_all
  then have "length (concat (map g [0..<j])) = j * k" by (simp add: length_concat sum_list_replicate)
  ultimately show ?thesis using assms by (simp add: slice_def)
qed

lemma concat_slices: "length xs = n * k \<Longrightarrow> concat (map (\<lambda>i. slice (i * k) k xs) [0..<n]) = xs"
proof -
  assume l: "length xs = n * k"
  have "concat (map (\<lambda>i. slice (i * k) k xs) [0..<m]) = take (m * k) xs" if "m \<le> n" for m
    using that by (induction m) (simp_all add: slice_def take_add [symmetric] add.commute [of k])
  from this [of n] l show ?thesis by simp
qed

lemma windowReorder_rows:
  assumes p: "is_perm n p" and n: "n \<le> 2 ^ 64" and h: "length hidden = n * (sm_unit * embed_dim)"
  shows "windowReorder hidden n sm_unit embed_dim (map int p)
    = Inr (concat (map (\<lambda>i. slice (p ! i * (sm_unit * embed_dim)) (sm_unit * embed_dim) hidden) [0..<n]))"
proof -
  let ?k = "sm_unit * embed_dim"
  have l: "length p = n" using p by (simp add: is_perm_def)
  have b: "p ! i * ?k + ?k \<le> length hidden" if "i < n" for i
    using mult_le_mono1 [of "Suc (p ! i)" n ?k] is_perm_nth [OF p that] h by simp
  have f: "to_size (map int p ! i) = p ! i" if "i < n" for i
    using is_perm_nth [OF p that] n l that by (simp add: to_size_int)
  have "rfor (reorder_row ?k hidden (map int p)) [0..<n] (replicate (n * ?k) 0)
      = Inr (concat (map (\<lambda>i. slice (p ! i * ?k) ?k hidden) [0..<n]))"
    using b f by (intro rfor_rows [where k = ?k]) (simp_all add: length_slice reorder_row_def buf_load_def)
  then show ?thesis by (simp add: windowReorder_def l)
qed

lemma reorder_there_and_back:
  assumes p: "is_perm n p" "is_perm n q" "\<forall>i < n. p ! (q ! i) = i" and n: "n \<le> 2 ^ 64" and h: "length hidden = n * (sm_unit * embed_dim)"
  shows "\<exists>h'. windowReorder hidden n sm_unit embed_dim (map int p) = Inr h' \<and> windowReorder h' n sm_unit embed_dim (map int q) = Inr hidden"
proof -
  let ?k = "sm_unit * embed_dim"
  let ?g = "\<lambda>i. slice (p ! i * ?k) ?k hidden"
  let ?h = "concat (map ?g [0..<n])"
  have g: "length (?g i) = ?k" if "i < n" for i
    using mult_le_mono1 [of "Suc (p ! i)" n ?k] is_perm_nth [OF p(1) that] h by (simp add: length_slice)
  have "map length (map ?g [0..<n]) = replicate n ?k" using g by (intro nth_equalityI) simp_all
  then have "length ?h = n * ?k" by (simp add: length_concat sum_list_replicate)
  from windowReorder_rows [OF p(2) n this]
  have "windowReorder ?h n sm_unit embed_dim (map int q) = Inr (concat (map (\<lambda>i. slice (q ! i * ?k) ?k ?h) [0..<n]))" .
  moreover have "map (\<lambda>i. slice (q ! i * ?k) ?k ?h) [0..<n] = map (\<lambda>i. slice (i * ?k) ?k hidden) [0..<n]"
    using slice_concat_rows [where g = ?g and k = ?k, OF g] is_perm_nth [OF p(2)] p(3) by (intro map_cong) simp_all
  ultimately show ?thesis using windowReorder_rows [OF p(1) n h] concat_slices [OF h] by simp
qed

section \<open>The boundaries and the block mask\<close>

lemma fold_boundaries:
  assumes "\<forall>n \<in> set ns. 0 < n" "cu \<noteq> []"
  shows "fold push_boundary ns cu = cu @ map (\<lambda>b. last cu + int (sum_list (take (Suc b) ns))) [0..<length ns]"
  using assms
proof (induction ns arbitrary: cu)
  case (Cons n ns)
  let ?cu = "cu @ [last cu + int n]"
  have "fold push_boundary (n # ns) cu = fold push_boundary ns ?cu" using Cons.prems(1) by (simp add: push_boundary_def Let_def)
  also have "\<dots> = ?cu @ map (\<lambda>b. last ?cu + int (sum_list (take (Suc b) ns))) [0..<length ns]"
    using Cons.prems(1) by (intro Cons.IH) simp_all
  also have "\<dots> = cu @ map (\<lambda>b. last cu + int (sum_list (take (Suc b) (n # ns)))) (0 # map Suc [0..<length ns])"
    by (simp add: comp_def add.assoc)
  also have "0 # map Suc [0..<length ns] = [0..<length (n # ns)]" by (simp add: map_Suc_upt upt_conv_Cons del: upt_Suc)
  finally show ?case .
qed simp

lemma window_valid_groups: "window_valid g win = length (window_groups g win)"
  by (cases win) (simp add: window_valid_def window_groups_def)

lemma win_count_start: "0 < ws \<Longrightarrow> i < win_count ws n \<Longrightarrow> i * ws < n"
proof -
  assume ws: "0 < ws" and i: "i < win_count ws n"
  have "win_pad ws n < ws" using ws by (simp add: win_pad_def)
  moreover have "Suc i * ws \<le> n + win_pad ws n" using i win_count_mult [OF ws, of n] mult_le_mono1 [of "Suc i" "win_count ws n" ws] by simp
  ultimately show ?thesis by simp
qed

lemma window_nonempty:
  assumes "0 < vg_ws g" "win \<in> set (grid3 T (win_count (vg_ws g) (vg_h g)) (win_count (vg_ws g) (vg_w g)))"
  shows "0 < length (window_groups g win)"
proof -
  obtain t wh ww where w: "win = (t, wh, ww)" "wh < win_count (vg_ws g) (vg_h g)" "ww < win_count (vg_ws g) (vg_w g)"
    using assms(2) by (auto simp: set_grid3)
  have "t * vg_h g * vg_w g + (wh * vg_ws g) * vg_w g + ww * vg_ws g \<in> set (window_groups g (t, wh, ww))"
    unfolding window_groups_mem using win_count_start [OF assms(1) w(2)] win_count_start [OF assms(1) w(3)] assms(1)
    by (intro exI [of _ "wh * vg_ws g"] exI [of _ "ww * vg_ws g"]) simp
  then show ?thesis using w(1) by (metis length_pos_if_in_set)
qed

definition window_sizes :: "nat \<Rightarrow> vit_grid \<Rightarrow> nat \<Rightarrow> nat list" where
  "window_sizes T g sm = map (\<lambda>win. length (window_groups g win) * (sm * sm))
     (grid3 T (win_count (vg_ws g) (vg_h g)) (win_count (vg_ws g) (vg_w g)))"

lemma cu_boundaries:
  assumes "vit_grid_of H W sm window_size patch_size = Inr g"
  shows "computeCuWindowSeqlens T H W sm window_size patch_size
    = Inr (map (\<lambda>b. int (sum_list (take b (window_sizes T g sm)))) [0..<Suc (length (window_sizes T g sm))])"
    "\<forall>n \<in> set (window_sizes T g sm). 0 < n" "sum_list (window_sizes T g sm) = T * vg_h g * vg_w g * (sm * sm)"
proof -
  let ?wins = "grid3 T (win_count (vg_ws g) (vg_h g)) (win_count (vg_ws g) (vg_w g))" and ?ns = "window_sizes T g sm"
  have g: "0 < vg_ws g" "0 < sm" using assms by (auto simp: vit_grid_of_def split: if_splits)
  show pos: "\<forall>n \<in> set ?ns. 0 < n" using window_nonempty [OF g(1)] g(2) by (auto simp: window_sizes_def)
  have f: "fold (\<lambda>win. push_boundary (window_valid g win * (sm * sm))) wins cu
      = fold push_boundary (map (\<lambda>win. length (window_groups g win) * (sm * sm)) wins) cu" for wins cu
    by (induction wins arbitrary: cu) (simp_all add: window_valid_groups)
  have "fold (\<lambda>win. push_boundary (window_valid g win * (sm * sm))) ?wins [0]
      = [0] @ map (\<lambda>b. last [0] + int (sum_list (take (Suc b) ?ns))) [0..<length ?ns]"
    unfolding f window_sizes_def [symmetric] by (rule fold_boundaries [OF pos]) simp
  also have "\<dots> = map (\<lambda>b. int (sum_list (take b ?ns))) (0 # map Suc [0..<length ?ns])" by (simp add: comp_def)
  also have "0 # map Suc [0..<length ?ns] = [0..<Suc (length ?ns)]" by (simp add: map_Suc_upt upt_conv_Cons del: upt_Suc)
  finally show "computeCuWindowSeqlens T H W sm window_size patch_size
    = Inr (map (\<lambda>b. int (sum_list (take b ?ns))) [0..<Suc (length ?ns)])"
    by (simp add: computeCuWindowSeqlens_def assms del: upt_Suc)
  have "sum_list ?ns = sum_list (map (\<lambda>win. length (window_groups g win)) ?wins) * (sm * sm)"
    by (simp add: window_sizes_def sum_list_mult_const)
  also have "sum_list (map (\<lambda>win. length (window_groups g win)) ?wins) = length (window_order T g)"
    by (simp add: window_order_def length_concat comp_def)
  also have "length (window_order T g) = T * vg_h g * vg_w g"
    using window_order_perm [OF g(1), of T] by (metis card_lessThan distinct_card)
  finally show "sum_list ?ns = T * vg_h g * vg_w g * (sm * sm)" .
qed

definition bounds_ok :: "nat \<Rightarrow> int list \<Rightarrow> bool" where
  "bounds_ok N bs \<longleftrightarrow> bs \<noteq> [] \<and> hd bs = 0 \<and> last bs = int N \<and> N < 2 ^ 64 \<and> sorted_wrt (<) bs"

lemma bounds_nth:
  assumes "bounds_ok N bs" "b + 1 < length bs"
  shows "0 \<le> bs ! b" "bs ! b < bs ! (b + 1)" "bs ! (b + 1) \<le> int N"
proof -
  have s: "sorted_wrt (<) bs" "hd bs = 0" "last bs = int N" "bs \<noteq> []" using assms(1) by (simp_all add: bounds_ok_def)
  show "bs ! b < bs ! (b + 1)" using s(1) assms(2) by (auto intro: sorted_wrt_nth_less)
  show "0 \<le> bs ! b" using s assms(2) sorted_wrt_nth_less [OF s(1), of 0 b] by (cases b) (auto simp: hd_conv_nth)
  have "bs ! (b + 1) \<le> bs ! (length bs - 1)"
  proof (cases "b + 1 = length bs - 1")
    case False
    then have "b + 1 < length bs - 1" "length bs - 1 < length bs" using assms(2) by linarith+
    then show ?thesis using sorted_wrt_nth_less [OF s(1)] less_imp_le by blast
  qed simp
  then show "bs ! (b + 1) \<le> int N" using s by (simp add: last_conv_nth)
qed

lemma block_of:
  assumes "bounds_ok N bs" "i < N"
  shows "\<exists>b. b + 1 < length bs \<and> bs ! b \<le> int i \<and> int i < bs ! (b + 1)"
proof (rule ccontr)
  assume n: "\<not> ?thesis"
  have "bs ! b \<le> int i" if "b < length bs" for b
    using that
  proof (induction b)
    case 0
    then show ?case using assms(1) by (simp add: bounds_ok_def hd_conv_nth)
  next
    case (Suc b)
    then show ?case using n by auto
  qed
  from this [of "length bs - 1"] assms show False by (auto simp: bounds_ok_def last_conv_nth)
qed

text \<open>Two rows are in one block when the same two boundaries enclose both.\<close>

definition in_block :: "int list \<Rightarrow> nat \<Rightarrow> nat \<Rightarrow> bool" where
  "in_block bs b i \<longleftrightarrow> bs ! b \<le> int i \<and> int i < bs ! (b + 1)"

definition same_block :: "int list \<Rightarrow> nat \<Rightarrow> nat \<Rightarrow> bool" where
  "same_block bs i j \<longleftrightarrow> (\<exists>b < length bs - 1. in_block bs b i \<and> in_block bs b j)"

lemma sorted_bounds: "bounds_ok N bs \<Longrightarrow> a \<le> b \<Longrightarrow> b < length bs \<Longrightarrow> bs ! a \<le> bs ! b"
  unfolding bounds_ok_def using sorted_wrt_nth_less [of "(<)" bs a b] by (cases "a = b") auto

lemma in_block_unique:
  assumes "bounds_ok N bs" "b + 1 < length bs" "b' + 1 < length bs" "in_block bs b i" "in_block bs b' i"
  shows "b = b'"
proof (rule ccontr)
  assume "b \<noteq> b'"
  then consider "b + 1 \<le> b'" | "b' + 1 \<le> b" by linarith
  then show False
    using sorted_bounds [OF assms(1), of "b + 1" b'] sorted_bounds [OF assms(1), of "b' + 1" b] assms(2-5)
    by cases (simp_all add: in_block_def)
qed

lemma mark_block_ok:
  assumes "bounds_ok N bs" "b + 1 < length bs" "length rb = N"
  shows "\<exists>rb'. mark_block bs b rb = Inr rb' \<and> length rb' = N
    \<and> (\<forall>i < N. rb' ! i = (if in_block bs b i then b else rb ! i))"
proof -
  note bb = bounds_nth [OF assms(1,2)]
  have N: "N < 2 ^ 64" using assms(1) by (simp add: bounds_ok_def)
  have t: "to_size i = nat i" if "i \<in> set [bs ! b..bs ! (b + 1) - 1]" for i
  proof -
    have i: "0 \<le> i" "i < int N" using that bb by simp_all
    then have "nat i < N" by linarith
    then have "nat i < 2 ^ 64" "int (nat i) = i" using i N by simp_all
    then show ?thesis using to_size_int [of "nat i"] by metis
  qed
  have "\<forall>i \<in> set [bs ! b..bs ! (b + 1) - 1]. to_size i < length rb" using bb t assms(3) by auto
  moreover have "inj_on to_size (set [bs ! b..bs ! (b + 1) - 1])"
    unfolding inj_on_def using t bb(1) by (auto simp: nat_eq_iff)
  ultimately obtain rb' where r: "rfor (\<lambda>i. set_vec (to_size i) b) [bs ! b..bs ! (b + 1) - 1] rb = Inr rb'"
    "length rb' = length rb" "\<forall>i \<in> set [bs ! b..bs ! (b + 1) - 1]. rb' ! to_size i = b"
    "\<forall>k. k \<notin> to_size ` set [bs ! b..bs ! (b + 1) - 1] \<longrightarrow> rb' ! k = rb ! k"
    using rfor_set_vec [where v = "\<lambda>_. b"] by blast
  have "rb' ! i = (if in_block bs b i then b else rb ! i)" for i
  proof (cases "in_block bs b i")
    case True
    then have m: "int i \<in> set [bs ! b..bs ! (b + 1) - 1]" by (simp add: in_block_def)
    then show ?thesis using r(3) t [OF m] True by (metis nat_int)
  next
    case False
    have "i \<notin> to_size ` set [bs ! b..bs ! (b + 1) - 1]"
    proof
      assume "i \<in> to_size ` set [bs ! b..bs ! (b + 1) - 1]"
      then obtain x where x: "x \<in> set [bs ! b..bs ! (b + 1) - 1]" "i = to_size x" by blast
      then have "int i = x" using t [OF x(1)] bb(1) by simp
      then show False using x(1) False by (simp add: in_block_def)
    qed
    then show ?thesis using r(4) False by simp
  qed
  then show ?thesis using r(1,2) bb(2) assms(3) by (auto simp: mark_block_def)
qed

lemma mark_blocks_ok:
  assumes "bounds_ok N bs"
  shows "\<exists>rb. rfor (mark_block bs) [0..<length bs - 1] (replicate N 0) = Inr rb \<and> length rb = N
    \<and> (\<forall>i < N. rb ! i + 1 < length bs \<and> in_block bs (rb ! i) i)"
proof -
  have "\<exists>rb. rfor (mark_block bs) [0..<m] (replicate N 0) = Inr rb \<and> length rb = N
    \<and> (\<forall>i < N. int i < bs ! m \<longrightarrow> rb ! i + 1 < length bs \<and> in_block bs (rb ! i) i)" if "m < length bs" for m
    using that
  proof (induction m)
    case 0
    then show ?case using assms by (simp add: bounds_ok_def hd_conv_nth)
  next
    case (Suc m)
    then obtain rb where r: "rfor (mark_block bs) [0..<m] (replicate N 0) = Inr rb" "length rb = N"
      "\<forall>i < N. int i < bs ! m \<longrightarrow> rb ! i + 1 < length bs \<and> in_block bs (rb ! i) i" by auto
    have m: "m + 1 < length bs" using Suc.prems by simp
    obtain rb' where "mark_block bs m rb = Inr rb'" "length rb' = N"
      "\<forall>i < N. rb' ! i = (if in_block bs m i then m else rb ! i)"
      using mark_block_ok [OF assms m r(2)] by blast
    moreover have "int i < bs ! m" if "int i < bs ! Suc m" "\<not> in_block bs m i" for i
      using that by (simp add: in_block_def)
    ultimately show ?case using r m by (auto simp: rfor_append)
  qed
  moreover have "length bs - 1 < length bs" "bs ! (length bs - 1) = int N"
    using assms by (auto simp: bounds_ok_def last_conv_nth)
  ultimately show ?thesis by fastforce
qed

lemma mask_cell_index: "j < N \<Longrightarrow> i' * N + j < i * N + N \<longleftrightarrow> i' \<le> (i :: nat)"
proof -
  assume j: "j < N"
  have "i' * N + j < Suc i * N \<longleftrightarrow> i' < Suc i"
  proof
    assume "i' * N + j < Suc i * N"
    then have "i' * N < Suc i * N" by linarith
    then show "i' < Suc i" using mult_less_cancel2 by blast
  next
    assume "i' < Suc i"
    then have "Suc i' * N \<le> Suc i * N" by (intro mult_le_mono1) simp
    moreover have "Suc i' * N = i' * N + N" by simp
    ultimately show "i' * N + j < Suc i * N" using j by linarith
  qed
  moreover have "Suc i * N = i * N + N" by simp
  ultimately show ?thesis by (metis less_Suc_eq_le)
qed

lemma mask_block_row_ok:
  assumes b: "bounds_ok N bs" "i < N" "rb ! i + 1 < length bs" "in_block bs (rb ! i) i" and l: "length rb = N" "length m = N * N"
  shows "\<exists>m'. mask_block_row N bs rb x i m = Inr m' \<and> length m' = N * N
    \<and> (\<forall>i' < N. \<forall>j < N. m' ! (i' * N + j) = (if i' = i \<and> in_block bs (rb ! i) j then x else m ! (i' * N + j)))"
proof -
  define lo hi where "lo = nat (bs ! (rb ! i))" and "hi = nat (bs ! (rb ! i + 1))"
  note bb = bounds_nth [OF b(1,3)]
  have e: "bs ! (rb ! i) = int lo" "bs ! (rb ! i + 1) = int hi" "lo < hi" "hi \<le> N"
    using bb by (simp_all add: lo_def hi_def)
  have le: "i * N + hi \<le> N * N" using e(4) mult_le_mono1 [of "Suc i" N N] b(2) by simp
  let ?m = "blit (i * N + lo) (replicate (hi - lo) x) m"
  have n: "nat (int (i * N) + int lo) = i * N + lo" "nat (int hi - int lo) = hi - lo" using e(3) by linarith+
  have "mask_block_row N bs rb x i m = Inr ?m"
    using b e le n l by (simp add: mask_block_row_def idx_vec_def buf_store_def del: of_nat_mult of_nat_add)
  moreover have "?m ! (i' * N + j) = (if i' = i \<and> in_block bs (rb ! i) j then x else m ! (i' * N + j))"
    if "i' < N" "j < N" for i' j
  proof -
    have "i' * N + j < N * N" using mask_cell_index [OF that(2), of i' "N - 1"] that(1) by (simp add: algebra_simps)
    moreover have len: "i * N + lo + length (replicate (hi - lo) x) = i * N + hi" using e(3) by simp
    ultimately have c: "?m ! (i' * N + j) = (if i * N + lo \<le> i' * N + j \<and> i' * N + j < i * N + hi then x else m ! (i' * N + j))"
      using nth_blit [of "i * N + lo" "replicate (hi - lo) x" m "i' * N + j"] le l(2) by (auto simp del: of_nat_add)
    have "i' = i" if "i * N + lo \<le> i' * N + j" "i' * N + j < i * N + hi"
    proof -
      have "i' * N + j < i * N + N" "i * N + lo < i' * N + N" using that e(4) \<open>j < N\<close> by linarith+
      then show ?thesis using mask_cell_index [OF \<open>j < N\<close>, of i' i] mask_cell_index [of lo N i i'] e(3,4) by simp
    qed
    moreover have "in_block bs (rb ! i) j \<longleftrightarrow> lo \<le> j \<and> j < hi" using e by (simp add: in_block_def)
    ultimately show ?thesis unfolding c by auto
  qed
  ultimately show ?thesis using le l e(3) by (auto simp: length_blit)
qed

lemma block_mask_cells:
  assumes b: "bounds_ok N bs"
  shows "\<exists>msk. buildBlockAttentionMask N bs allowed blocked = Inr msk \<and> length msk = N * N
    \<and> (\<forall>i < N. \<forall>j < N. msk ! (i * N + j) = (if same_block bs i j then allowed else blocked))"
proof -
  obtain rb where r: "rfor (mark_block bs) [0..<length bs - 1] (replicate N 0) = Inr rb" "length rb = N"
    "\<forall>i < N. rb ! i + 1 < length bs \<and> in_block bs (rb ! i) i" using mark_blocks_ok [OF b] by blast
  have same: "same_block bs i j \<longleftrightarrow> in_block bs (rb ! i) j" if "i < N" for i j
    using r(3) that in_block_unique [OF b, of _ "rb ! i" i] unfolding same_block_def
    by (metis less_diff_conv)
  have cell: "i * N + j < N * N" if "i < N" "j < N" for i j
    using mult_le_mono1 [of "Suc i" N N] that by simp
  have "\<exists>msk. rfor (mask_block_row N bs rb allowed) [0..<n] (replicate (N * N) blocked) = Inr msk \<and> length msk = N * N
    \<and> (\<forall>i < N. \<forall>j < N. msk ! (i * N + j) = (if i < n \<and> same_block bs i j then allowed else blocked))" if "n \<le> N" for n
    using that
  proof (induction n)
    case 0
    then show ?case using cell by simp
  next
    case (Suc n)
    then obtain m where m: "rfor (mask_block_row N bs rb allowed) [0..<n] (replicate (N * N) blocked) = Inr m" "length m = N * N"
      "\<forall>i < N. \<forall>j < N. m ! (i * N + j) = (if i < n \<and> same_block bs i j then allowed else blocked)" by auto
    have n: "n < N" using Suc.prems by simp
    obtain m' where "mask_block_row N bs rb allowed n m = Inr m'" "length m' = N * N"
      "\<forall>i' < N. \<forall>j < N. m' ! (i' * N + j) = (if i' = n \<and> in_block bs (rb ! n) j then allowed else m ! (i' * N + j))"
      using mask_block_row_ok [OF b n _ _ r(2) m(2)] r(3) n by blast
    then show ?case using m same [OF n] by (auto simp: rfor_append less_Suc_eq)
  qed
  from this [of N] have "\<exists>msk. rfor (mask_block_row N bs rb allowed) [0..<N] (replicate (N * N) blocked) = Inr msk \<and> length msk = N * N
    \<and> (\<forall>i < N. \<forall>j < N. msk ! (i * N + j) = (if same_block bs i j then allowed else blocked))" by auto
  moreover have "bs \<noteq> []" "hd bs = 0" "to_size (last bs) = N" using b to_size_int [of N] by (auto simp: bounds_ok_def)
  ultimately show ?thesis using r(1) by (simp add: buildBlockAttentionMask_def)
qed

lemma same_block_sym: "same_block bs i j = same_block bs j i"
  by (auto simp: same_block_def)

section \<open>Windows, boundaries and mask together\<close>

text \<open>The window a group lies in.\<close>

definition window_of :: "vit_grid \<Rightarrow> nat \<Rightarrow> nat \<times> nat \<times> nat" where
  "window_of g v = (v div vg_w g div vg_h g, v div vg_w g mod vg_h g div vg_ws g, v mod vg_w g div vg_ws g)"

lemma window_groups_window:
  assumes "0 < vg_ws g" "v \<in> set (window_groups g win)"
  shows "window_of g v = win"
proof -
  obtain t wh ww where win: "win = (t, wh, ww)" by (cases win)
  then obtain h w where e: "v = t * vg_h g * vg_w g + h * vg_w g + w" "h < vg_h g" "w < vg_w g"
    "wh * vg_ws g \<le> h" "h < wh * vg_ws g + vg_ws g" "ww * vg_ws g \<le> w" "w < ww * vg_ws g + vg_ws g"
    using assms(2) window_groups_mem [of v g t wh ww] by blast
  have "h div vg_ws g = wh" "w div vg_ws g = ww" using e assms(1) by (auto intro!: div_nat_eqI simp: mult.commute)
  then show ?thesis using enc_mod_div [OF e(2,3), of t] e(1) win by (simp add: window_of_def)
qed

text \<open>Where a position of a concatenation lies.\<close>

lemma concat_block:
  assumes "k < length (concat xss)"
  shows "\<exists>b < length xss. sum_list (take b (map length xss)) \<le> k \<and> k < sum_list (take (Suc b) (map length xss))
    \<and> concat xss ! k \<in> set (xss ! b)"
  using assms
proof (induction xss arbitrary: k)
  case (Cons xs xss)
  show ?case
  proof (cases "k < length xs")
    case True
    then show ?thesis by (intro exI [of _ 0]) (simp add: nth_append)
  next
    case False
    then have "k - length xs < length (concat xss)" using Cons.prems by auto
    then obtain b where "b < length xss" "sum_list (take b (map length xss)) \<le> k - length xs"
      "k - length xs < sum_list (take (Suc b) (map length xss))" "concat xss ! (k - length xs) \<in> set (xss ! b)"
      using Cons.IH by blast
    then show ?thesis using False by (intro exI [of _ "Suc b"]) (auto simp: nth_append)
  qed
qed simp

lemma sum_list_scale: "sum_list (map (\<lambda>n. n * u) ns) = sum_list ns * (u :: nat)"
  by (induction ns) (simp_all add: add_mult_distrib)

lemma sum_take_mono: "a \<le> b \<Longrightarrow> sum_list (take a ns) \<le> sum_list (take b (ns :: nat list))"
  by (metis add_diff_inverse_nat le_add1 not_le sum_list_append take_add)

lemma concat_block_unique:
  fixes ns :: "nat list"
  assumes "sum_list (take b ns) \<le> k" "k < sum_list (take (Suc b) ns)" "sum_list (take b' ns) \<le> k" "k < sum_list (take (Suc b') ns)"
  shows "b = b'"
proof (rule ccontr)
  assume "b \<noteq> b'"
  then consider "Suc b \<le> b'" | "Suc b' \<le> b" by linarith
  then show False using sum_take_mono [of "Suc b" b' ns] sum_take_mono [of "Suc b'" b ns] assms by cases linarith+
qed

lemma cu_bounds_ok:
  assumes g: "vit_grid_of H W sm window_size patch_size = Inr g" and n: "T * vg_h g * vg_w g * (sm * sm) < 2 ^ 64"
    and bs: "bs = map (\<lambda>b. int (sum_list (take b (window_sizes T g sm)))) [0..<Suc (length (window_sizes T g sm))]"
  shows "bounds_ok (T * vg_h g * vg_w g * (sm * sm)) bs"
proof -
  let ?ns = "window_sizes T g sm"
  note cu = cu_boundaries [OF g, of T]
  have "sum_list (take i ?ns) < sum_list (take j ?ns)" if "i < j" "j \<le> length ?ns" for i j
  proof -
    have "sum_list (take (Suc i) ?ns) = sum_list (take i ?ns) + ?ns ! i" using that by (simp add: take_Suc_conv_app_nth)
    moreover have "0 < ?ns ! i" using cu(2) that by simp
    ultimately show ?thesis using sum_take_mono [of "Suc i" j ?ns] that(1) by simp
  qed
  then have "sorted_wrt (<) bs" unfolding bs sorted_wrt_iff_nth_less by (auto simp del: upt_Suc)
  moreover have "hd bs = 0" "bs \<noteq> []" by (simp_all add: bs upt_conv_Cons del: upt_Suc)
  moreover have "last bs = int (T * vg_h g * vg_w g * (sm * sm))" using cu(3) by (simp add: bs)
  ultimately show ?thesis using n by (simp add: bounds_ok_def)
qed

lemma block_window:
  assumes g: "vit_grid_of H W sm window_size patch_size = Inr g"
    and bs: "bs = map (\<lambda>b. int (sum_list (take b (window_sizes T g sm)))) [0..<Suc (length (window_sizes T g sm))]"
    and i: "i < T * vg_h g * vg_w g * (sm * sm)" and b: "b < length bs - 1"
  shows "in_block bs b i \<longleftrightarrow>
    window_of g (window_order T g ! (i div (sm * sm))) = grid3 T (win_count (vg_ws g) (vg_h g)) (win_count (vg_ws g) (vg_w g)) ! b"
proof -
  let ?wins = "grid3 T (win_count (vg_ws g) (vg_h g)) (win_count (vg_ws g) (vg_w g))" and ?u = "sm * sm"
  let ?xss = "map (window_groups g) ?wins"
  let ?ls = "map length ?xss" and ?k = "i div ?u"
  have gp: "0 < vg_ws g" "0 < ?u" using g by (auto simp: vit_grid_of_def split: if_splits)
  have sz: "window_sizes T g sm = map (\<lambda>n. n * ?u) ?ls" by (simp add: window_sizes_def comp_def)
  have su: "sum_list (take c (window_sizes T g sm)) = sum_list (take c ?ls) * ?u" for c
    unfolding sz take_map by (rule sum_list_scale)
  have blk: "in_block bs c i \<longleftrightarrow> sum_list (take c ?ls) \<le> ?k \<and> ?k < sum_list (take (Suc c) ?ls)" if "c < length ?wins" for c
  proof -
    have "bs ! c = int (sum_list (take c ?ls) * ?u)" "bs ! (c + 1) = int (sum_list (take (Suc c) ?ls) * ?u)"
      unfolding bs su using that by (simp_all add: window_sizes_def del: upt_Suc)
    then have "in_block bs c i \<longleftrightarrow> sum_list (take c ?ls) * ?u \<le> i \<and> i < sum_list (take (Suc c) ?ls) * ?u"
      unfolding in_block_def by (simp del: of_nat_mult)
    then show ?thesis using gp(2) by (simp add: less_eq_div_iff_mult_less_eq div_less_iff_less_mult)
  qed
  have ol: "length (window_order T g) = T * vg_h g * vg_w g"
    using window_order_perm [OF gp(1), of T] by (metis card_lessThan distinct_card)
  have "?k < length (concat ?xss)"
    using i gp(2) ol by (simp add: div_less_iff_less_mult window_order_def)
  then obtain c where c: "c < length ?xss" "sum_list (take c ?ls) \<le> ?k" "?k < sum_list (take (Suc c) ?ls)"
    "concat ?xss ! ?k \<in> set (?xss ! c)" using concat_block by blast
  have wc: "window_of g (window_order T g ! ?k) = ?wins ! c"
    using c(1,4) by (intro window_groups_window [OF gp(1)]) (simp add: window_order_def)
  have lb: "b < length ?wins" using b by (simp add: bs sz del: upt_Suc)
  have "in_block bs b i \<longleftrightarrow> b = c" using blk [OF lb] c(2,3) concat_block_unique by blast
  also have "\<dots> \<longleftrightarrow> ?wins ! c = ?wins ! b"
    using nth_eq_iff_index_eq [OF distinct_grid3] c(1) lb by (metis length_map)
  finally show ?thesis using wc by simp
qed

lemma window_rows_attend:
  assumes g: "vit_grid_of H W sm window_size patch_size = Inr g" and n: "T * vg_h g * vg_w g * (sm * sm) < 2 ^ 64"
    and bs: "bs = map (\<lambda>b. int (sum_list (take b (window_sizes T g sm)))) [0..<Suc (length (window_sizes T g sm))]"
    and i: "i < T * vg_h g * vg_w g * (sm * sm)" "j < T * vg_h g * vg_w g * (sm * sm)"
  shows "same_block bs i j \<longleftrightarrow>
    window_of g (window_order T g ! (i div (sm * sm))) = window_of g (window_order T g ! (j div (sm * sm)))"
proof -
  obtain b where b: "b + 1 < length bs" "bs ! b \<le> int i" "int i < bs ! (b + 1)"
    using block_of [OF cu_bounds_ok [OF g n bs] i(1)] by blast
  then have lb: "b < length bs - 1" by simp
  have "in_block bs b i" using b by (simp add: in_block_def)
  then show ?thesis
    using block_window [OF g bs i(1)] block_window [OF g bs i(2)] lb unfolding same_block_def by metis
qed


theorem window_roundtrip:
  assumes "vit_grid_of H W sm window_size patch_size = Inr g" "n = T * vg_h g * vg_w g" "n \<le> 2 ^ 64"
    and "k = sm_unit * embed_dim" "length hidden = n * k"
  shows "\<exists>p q h'. computeWindowIndex T H W sm window_size patch_size = Inr (map int p)
    \<and> reverseWindowIndex (map int p) = Inr (map int q)
    \<and> length p = n \<and> distinct p \<and> set p = {..<n}
    \<and> windowReorder hidden n sm_unit embed_dim (map int p) = Inr h'
    \<and> (\<forall>i < n. slice (i * k) k h' = slice (p ! i * k) k hidden)
    \<and> windowReorder h' n sm_unit embed_dim (map int q) = Inr hidden"
proof -
  let ?p = "window_order T g"
  let ?h = "concat (map (\<lambda>i. slice (?p ! i * k) k hidden) [0..<n])"
  have "0 < vg_ws g" using assms(1) by (auto simp: vit_grid_of_def split: if_splits)
  then have p: "is_perm n ?p" using window_order_perm [of g T] assms(2) by (metis card_lessThan distinct_card is_perm_def)
  obtain q where q: "reverseWindowIndex (map int ?p) = Inr (map int q)" "is_perm n q" "\<forall>i < n. q ! (?p ! i) = i \<and> ?p ! (q ! i) = i"
    using reverse_perm [OF p assms(3)] by blast
  have h: "windowReorder hidden n sm_unit embed_dim (map int ?p) = Inr ?h"
    using windowReorder_rows [OF p assms(3)] assms(4,5) by simp
  have len: "length (slice (?p ! i * k) k hidden) = k" if "i < n" for i
    using mult_le_mono1 [of "Suc (?p ! i)" n k] is_perm_nth [OF p that] assms(5) by (simp add: length_slice)
  have "\<forall>i < n. slice (i * k) k ?h = slice (?p ! i * k) k hidden"
    using slice_concat_rows [where g = "\<lambda>i. slice (?p ! i * k) k hidden" and k = k and n = n, OF len] by blast
  moreover have "windowReorder ?h n sm_unit embed_dim (map int q) = Inr hidden"
    using reorder_there_and_back [OF p q(2) _ assms(3), of hidden sm_unit embed_dim] q(3) assms(4,5) h by auto
  ultimately show ?thesis
    using computeWindowIndex_order [OF assms(1)] q(1) h p unfolding is_perm_def by (intro exI [of _ ?p] exI [of _ q] exI [of _ ?h]) simp
qed

text \<open>Four by six patches, merged two by two, in windows of two by two: the second window is half padding.\<close>

lemma demo_vit_grid: "vit_grid_of 4 6 2 56 14 = Inr \<lparr> vg_ws = 2, vg_h = 2, vg_w = 3 \<rparr>"
  by (simp add: vit_grid_of_def)

lemma demo_window_index: "computeWindowIndex 1 4 6 2 56 14 = Inr [0, 1, 3, 4, 2, 5]"
  unfolding computeWindowIndex_order [OF demo_vit_grid] by code_simp

lemma window_roundtrip_witness:
  "\<exists>q h'. reverseWindowIndex [0, 1, 3, 4, 2, 5] = Inr (map int q)
     \<and> windowReorder (map of_nat [0..<24]) 6 4 1 [0, 1, 3, 4, 2, 5] = Inr h'
     \<and> slice 8 4 h' = slice 12 4 (map of_nat [0..<24])
     \<and> windowReorder h' 6 4 1 (map int q) = Inr (map of_nat [0..<24])"
proof -
  obtain p q h' where r: "computeWindowIndex 1 4 6 2 56 14 = Inr (map int p)" "reverseWindowIndex (map int p) = Inr (map int q)"
    "windowReorder (map of_nat [0..<24]) 6 4 1 (map int p) = Inr h'"
    "\<forall>i < 6. slice (i * 4) 4 h' = slice (p ! i * 4) 4 (map of_nat [0..<24])"
    "windowReorder h' 6 4 1 (map int q) = Inr (map of_nat [0..<24])"
    using window_roundtrip [OF demo_vit_grid, of 6 1 4 4 1 "map of_nat [0..<24]"] by auto
  have "map int p = map int [0, 1, 3, 4, 2, 5]" using r(1) demo_window_index by simp
  then have "p = [0, 1, 3, 4, 2, 5]" by (rule map_injective) (simp add: inj_on_def)
  then show ?thesis using r(2-5) spec [OF r(4), of 2] by (intro exI [of _ q] exI [of _ h']) simp
qed

text \<open>C31: the block mask built from the cumulative window lengths lets two patches of the
  reordered sequence attend to each other exactly when the window index puts them in the same
  window\<close>

theorem window_mask:
  assumes "vit_grid_of H W sm window_size patch_size = Inr g" "N = T * vg_h g * vg_w g * (sm * sm)" "N < 2 ^ 64"
  shows "\<exists>p bs msk. computeWindowIndex T H W sm window_size patch_size = Inr (map int p)
    \<and> computeCuWindowSeqlens T H W sm window_size patch_size = Inr bs \<and> hd bs = 0 \<and> last bs = int N \<and> sorted_wrt (<) bs
    \<and> buildBlockAttentionMask N bs allowed blocked = Inr msk \<and> length msk = N * N
    \<and> (\<forall>i < N. \<forall>j < N. msk ! (i * N + j) =
         (if window_of g (p ! (i div (sm * sm))) = window_of g (p ! (j div (sm * sm))) then allowed else blocked))"
proof -
  define bs where "bs = map (\<lambda>b. int (sum_list (take b (window_sizes T g sm)))) [0..<Suc (length (window_sizes T g sm))]"
  have b: "bounds_ok N bs" using cu_bounds_ok [OF assms(1) _ bs_def] assms(2,3) by simp
  obtain msk where m: "buildBlockAttentionMask N bs allowed blocked = Inr msk" "length msk = N * N"
    "\<forall>i < N. \<forall>j < N. msk ! (i * N + j) = (if same_block bs i j then allowed else blocked)"
    using block_mask_cells [OF b] by blast
  moreover have "\<forall>i < N. \<forall>j < N. same_block bs i j \<longleftrightarrow>
      window_of g (window_order T g ! (i div (sm * sm))) = window_of g (window_order T g ! (j div (sm * sm)))"
    using window_rows_attend [OF assms(1) _ bs_def] assms(2,3) by simp
  moreover have "computeCuWindowSeqlens T H W sm window_size patch_size = Inr bs"
    using cu_boundaries(1) [OF assms(1)] bs_def by simp
  ultimately show ?thesis using computeWindowIndex_order [OF assms(1), of T] b unfolding bounds_ok_def
    by (intro exI [of _ "window_order T g"] exI [of _ bs] exI [of _ msk]) simp
qed

lemma demo_cu: "computeCuWindowSeqlens 1 4 6 2 56 14 = Inr [0, 16, 24]"
  by code_simp

lemma window_mask_witness:
  "\<exists>msk. buildBlockAttentionMask 24 [0, 16, 24] 0 1 = Inr msk \<and> length msk = 576
     \<and> msk ! 15 = 0 \<and> msk ! 16 = 1 \<and> msk ! (16 * 24 + 15) = 1 \<and> msk ! (16 * 24 + 23) = 0"
proof -
  obtain p bs msk where r: "computeWindowIndex 1 4 6 2 56 14 = Inr (map int p)" "computeCuWindowSeqlens 1 4 6 2 56 14 = Inr bs"
    "buildBlockAttentionMask 24 bs 0 1 = Inr msk" "length msk = 576"
    "\<And>i j. i < 24 \<Longrightarrow> j < 24 \<Longrightarrow> msk ! (i * 24 + j) = (if window_of \<lparr> vg_ws = 2, vg_h = 2, vg_w = 3 \<rparr> (p ! (i div 4))
       = window_of \<lparr> vg_ws = 2, vg_h = 2, vg_w = 3 \<rparr> (p ! (j div 4)) then 0 else 1)"
    using window_mask [OF demo_vit_grid, of 24 1 0 1] by auto
  have "map int p = map int [0, 1, 3, 4, 2, 5]" using r(1) demo_window_index by simp
  then have p: "p = [0, 1, 3, 4, 2, 5]" by (rule map_injective) (simp add: inj_on_def)
  have "bs = [0, 16, 24]" using r(2) unfolding demo_cu by (metis sum.inject(2))
  then show ?thesis using r(3-4) r(5) [of 0 15] r(5) [of 0 16] r(5) [of 16 15] r(5) [of 16 23]
    by (simp add: p window_of_def)
qed

end
