(* ===== verification/VlmProviders.thy ===== *)
theory VlmProviders
  imports Providers Names VitUtils
begin

text \<open>
  The input providers of the vision-language models (\<open>core/src/vlm/vlm_input_provider.cpp\<close>):
  embeddings prepared for the prompt, rotary tables over three position axes, and the
  visual features that are injected into the first decoder layers.
\<close>

section \<open>Prepared embeddings\<close>

text \<open>
  The table is loaded by the code of \<open>EmbeddingInputProvider\<close>, repeated in the class;
  the buffer holds the rows of the current prompt from an absolute position on.
\<close>

record prompt_embeds =
  pe_emb :: emb_table
  pe_buffer :: "f32 list"
  pe_offset :: nat

definition mkPromptEmbeds :: "string \<Rightarrow> prompt_embeds" where
  "mkPromptEmbeds n = \<lparr> pe_emb = mkEmbedding n, pe_buffer = [], pe_offset = 0 \<rparr>"

definition pe_loadTable :: "files \<Rightarrow> string \<Rightarrow> nat \<Rightarrow> nat \<Rightarrow> prompt_embeds \<Rightarrow> prompt_embeds res" where
  "pe_loadTable fs path vocab hidden e = rbind (loadTable fs path vocab hidden (pe_emb e)) (\<lambda>t. Inr (e\<lparr> pe_emb := t \<rparr>))"

definition pe_onInitialized :: "files \<Rightarrow> string option \<Rightarrow> llm_spec \<Rightarrow> prompt_embeds \<Rightarrow> prompt_embeds res" where
  "pe_onInitialized fs path spec e =
     rbind (case path of Some p \<Rightarrow> if et_table (pe_emb e) = [] then pe_loadTable fs p (sp_vocab_size spec) (sp_hidden_size spec) e else Inr e
            | None \<Rightarrow> Inr e)
       (\<lambda>e. Inr (e\<lparr> pe_emb := cache_pad (sp_eos_token_ids spec) (pe_emb e) \<rparr>))"

definition lookupBatch :: "prompt_embeds \<Rightarrow> int list \<Rightarrow> f32 list res" where
  "lookupBatch e ids = tokensToEmbedding ids (et_table (pe_emb e)) (et_hidden (pe_emb e))"

definition setBuffer :: "f32 list \<Rightarrow> nat \<Rightarrow> prompt_embeds \<Rightarrow> prompt_embeds" where
  "setBuffer embeds n_past e = e\<lparr> pe_buffer := embeds, pe_offset := n_past \<rparr>"

definition clearBuffer :: "prompt_embeds \<Rightarrow> prompt_embeds" where
  "clearBuffer e = e\<lparr> pe_buffer := [], pe_offset := 0 \<rparr>"

text \<open>
  The rows of a chunk that starts at an absolute position. A chunk that starts before the
  buffer wraps the unsigned difference: the pointer then lies outside the buffer.
\<close>

definition chunk_rows :: "nat \<Rightarrow> nat \<Rightarrow> nat \<Rightarrow> nat \<Rightarrow> 'a list \<Rightarrow> 'a list res" where
  "chunk_rows n_past offset width n buf =
     (if n_past < offset \<and> 0 < width then Inl UndefinedBehaviour else buf_load ((n_past - offset) * width) (n * width) buf)"

definition pe_write :: "prompt_embeds \<Rightarrow> graph \<Rightarrow> run_ctx \<Rightarrow> mem \<Rightarrow> mem res" where
  "pe_write e g ctx m =
     (let name = et_tensor (pe_emb e); hidden = et_hidden (pe_emb e); pad = et_pad (pe_emb e) in
      if \<not> hasInput g name then Inr m
      else rbind (inputSpec g name) (\<lambda>spec.
        let capacity = elementCount spec in
        if pe_buffer e \<noteq> [] \<and> rc_phase ctx = 0 then
          rbind (chunk_rows (rc_n_past ctx) (pe_offset e) hidden (rc_curr_len ctx) (pe_buffer e)) (\<lambda>rows.
          rbind (padded_embeds hidden (rc_curr_len ctx) capacity pad rows) (\<lambda>buf. write_float g name (SrcFloat buf) m))
        else if et_table (pe_emb e) = [] then Inr m
        else rbind (lookupBatch e (rc_token_ids ctx)) (\<lambda>embeds. write_float g name (SrcFloat embeds) m)))"

section \<open>Rotary tables over three axes\<close>

datatype mrope_style = BLOCK | STRIDE

record mrope =
  mr_section :: "int list"
  mr_style :: mrope_style
  mr_cos_name :: string
  mr_sin_name :: string
  mr_half :: nat
  mr_inv_freq :: "f64 list"
  mr_cos :: "f64 list"
  mr_sin :: "f64 list"
  mr_seq_len :: nat
  mr_offset :: nat
  mr_prefill :: bool
  mr_deltas :: "int list"

definition mkMRoPE :: "libm \<Rightarrow> int list \<Rightarrow> f32 \<Rightarrow> mrope_style \<Rightarrow> string \<Rightarrow> string \<Rightarrow> mrope" where
  "mkMRoPE lm sec theta style c s =
     (let half = to_size (sum_list sec); theta_d = f64_of_f32 theta in
      \<lparr> mr_section = sec, mr_style = style, mr_cos_name = c, mr_sin_name = s, mr_half = half,
        mr_inv_freq = map (\<lambda>i. f64_div d_one (m_pow lm theta_d (f64_div (f64_of_int (int i)) (f64_of_int (int half))))) [0..<half],
        mr_cos = [], mr_sin = [], mr_seq_len = 0, mr_offset = 0, mr_prefill = False, mr_deltas = [0, 0, 0] \<rparr>)"

text \<open>The angles of every axis and position; a missing position id is read out of bounds.\<close>

definition mrope_freqs :: "f64 list \<Rightarrow> nat \<Rightarrow> int list \<Rightarrow> f64 list res" where
  "mrope_freqs ws seq_len ids =
     (if length ids < 3 * seq_len then Inl UndefinedBehaviour
      else Inr (concat (map (\<lambda>p. map (f64_mul (f64_of_int p)) ws) (take (3 * seq_len) ids))))"

text \<open>One cell of both tables, taken from one axis.\<close>

definition mrope_cell :: "libm \<Rightarrow> nat \<Rightarrow> nat \<Rightarrow> f64 list \<Rightarrow> nat \<times> nat \<times> nat \<Rightarrow> f64 list \<times> f64 list \<Rightarrow> (f64 list \<times> f64 list) res" where
  "mrope_cell lm half seq_len freqs = (\<lambda>(d, t, i) (c, s).
     rbind (idx_vec freqs ((d * seq_len + t) * half + i)) (\<lambda>f.
     rbind (set_vec (t * half + i) (m_cos lm f) c) (\<lambda>c.
     rbind (set_vec (t * half + i) (m_sin lm f) s) (\<lambda>s. Inr (c, s)))))"

text \<open>The cells in the order of the loops: sections one after another, or strides over the temporal axis.\<close>

fun block_cells :: "nat \<Rightarrow> nat \<Rightarrow> nat \<Rightarrow> nat \<Rightarrow> int list \<Rightarrow> (nat \<times> nat \<times> nat) list" where
  "block_cells half seq_len d off [] = []"
| "block_cells half seq_len d off (n # ns) =
     (if off < half then
        let len = min (to_size n) (half - off)
        in map (\<lambda>(t, i). (d, t, i)) (List.product [0..<seq_len] [off..<off + len]) @ block_cells half seq_len (d + 1) (off + len) ns
      else [])"

definition stride_cells :: "nat \<Rightarrow> nat \<Rightarrow> int list \<Rightarrow> nat \<Rightarrow> (nat \<times> nat \<times> nat) list" where
  "stride_cells half seq_len sec d =
     map (\<lambda>(i, t). (d, t, i))
       (List.product (filter (\<lambda>i. i mod 3 = d \<and> int i < sec ! d * 3) [0..<half]) [0..<seq_len])"

definition mrope_cells :: "mrope \<Rightarrow> nat \<Rightarrow> (nat \<times> nat \<times> nat) list" where
  "mrope_cells r seq_len =
     (case mr_style r of
        BLOCK \<Rightarrow> block_cells (mr_half r) seq_len 0 0 (mr_section r)
      | STRIDE \<Rightarrow> map (\<lambda>(t, i). (0, t, i)) (List.product [0..<seq_len] [0..<mr_half r])
          @ concat (map (stride_cells (mr_half r) seq_len (mr_section r)) (filter (\<lambda>d. d < length (mr_section r)) [1, 2])))"

definition fillCosSin :: "libm \<Rightarrow> mrope \<Rightarrow> int list \<Rightarrow> nat \<Rightarrow> f64 list \<times> f64 list \<Rightarrow> (f64 list \<times> f64 list) res" where
  "fillCosSin lm r ids seq_len = (\<lambda>(c, s).
     rbind (mrope_freqs (mr_inv_freq r) seq_len ids) (\<lambda>freqs.
       rfor (mrope_cell lm (mr_half r) seq_len freqs) (mrope_cells r seq_len)
         (vec_resize (seq_len * mr_half r) 0 c, vec_resize (seq_len * mr_half r) 0 s)))"

definition setPositionIds :: "libm \<Rightarrow> int list \<Rightarrow> nat \<Rightarrow> nat \<Rightarrow> mrope \<Rightarrow> mrope res" where
  "setPositionIds lm ids seq_len n_past r =
     rbind (fillCosSin lm r ids seq_len (mr_cos r, mr_sin r)) (\<lambda>(c, s).
       Inr (r\<lparr> mr_cos := c, mr_sin := s, mr_seq_len := seq_len, mr_offset := n_past, mr_prefill := True \<rparr>))"

definition clearPositionIds :: "mrope \<Rightarrow> mrope" where
  "clearPositionIds r = r\<lparr> mr_prefill := False, mr_seq_len := 0, mr_offset := 0, mr_cos := [], mr_sin := [] \<rparr>"

definition setMropeDeltas :: "int list \<Rightarrow> mrope \<Rightarrow> mrope" where
  "setMropeDeltas ds r = r\<lparr> mr_deltas := ds \<rparr>"

definition resetMropeDeltas :: "mrope \<Rightarrow> mrope" where
  "resetMropeDeltas r = r\<lparr> mr_deltas := [0, 0, 0] \<rparr>"

text \<open>Rows after the chunk rotate by nothing: cosine one, sine zero.\<close>

definition write_padded :: "mrope \<Rightarrow> graph \<Rightarrow> string \<Rightarrow> f64 list \<Rightarrow> mem \<Rightarrow> mem res" where
  "write_padded r g name xs m =
     rbind (inputSpec g name) (\<lambda>spec.
       let capacity = elementCount spec
       in if capacity \<le> length xs then write_float g name (SrcDouble xs) m
          else write_float g name
            (SrcDouble (xs @ replicate (capacity - length xs) (if name = mr_cos_name r then d_one else 0))) m)"

text \<open>Positions while decoding: one after another, moved by what the images of the prompts took.\<close>

definition decode_positions :: "int list \<Rightarrow> nat \<Rightarrow> nat \<Rightarrow> int list" where
  "decode_positions deltas n_past curr_len =
     concat (map (\<lambda>d. map (\<lambda>t. to_i32 (int n_past) + int t + deltas ! d) [0..<curr_len]) [0..<3])"

definition mrope_write :: "libm \<Rightarrow> mrope \<Rightarrow> graph \<Rightarrow> run_ctx \<Rightarrow> mem \<Rightarrow> mem res" where
  "mrope_write lm r g ctx m =
     (let has_cos = hasInput g (mr_cos_name r); has_sin = hasInput g (mr_sin_name r); n = rc_curr_len ctx in
      if \<not> has_cos \<and> \<not> has_sin then Inr m
      else if mr_prefill r \<and> rc_phase ctx = 0 then
        rbind (if has_cos then rbind (chunk_rows (rc_n_past ctx) (mr_offset r) (mr_half r) n (mr_cos r))
                 (\<lambda>xs. write_padded r g (mr_cos_name r) xs m) else Inr m) (\<lambda>m.
        if has_sin then rbind (chunk_rows (rc_n_past ctx) (mr_offset r) (mr_half r) n (mr_sin r))
          (\<lambda>xs. write_padded r g (mr_sin_name r) xs m) else Inr m)
      else rbind (fillCosSin lm r (decode_positions (mr_deltas r) (rc_n_past ctx) n) n ([], [])) (\<lambda>(c, s).
        rbind (if has_cos then write_padded r g (mr_cos_name r) c m else Inr m) (\<lambda>m.
        if has_sin then write_padded r g (mr_sin_name r) s m else Inr m)))"

section \<open>Visual features of the first layers\<close>

record deepstack =
  ds_prefix :: string
  ds_mask_name :: string
  ds_embeds :: "f32 list list"
  ds_hidden :: nat
  ds_mask :: "u8 list"
  ds_offset :: nat

definition mkDeepstack :: "string \<Rightarrow> string \<Rightarrow> deepstack" where
  "mkDeepstack p n = \<lparr> ds_prefix = p, ds_mask_name = n, ds_embeds = [], ds_hidden = 0, ds_mask = [], ds_offset = 0 \<rparr>"

definition setEmbeds :: "f32 list list \<Rightarrow> nat \<Rightarrow> deepstack \<Rightarrow> deepstack" where
  "setEmbeds levels hidden d = d\<lparr> ds_embeds := levels, ds_hidden := hidden \<rparr>"

definition setVisualMask :: "u8 list \<Rightarrow> nat \<Rightarrow> deepstack \<Rightarrow> deepstack" where
  "setVisualMask msk n_past d = d\<lparr> ds_mask := msk, ds_offset := n_past \<rparr>"

definition deepstack_clear :: "deepstack \<Rightarrow> deepstack" where
  "deepstack_clear d = d\<lparr> ds_embeds := [], ds_mask := [], ds_hidden := 0, ds_offset := 0 \<rparr>"

definition visual_prefill :: "deepstack \<Rightarrow> run_ctx \<Rightarrow> bool" where
  "visual_prefill d ctx \<longleftrightarrow> rc_phase ctx = 0 \<and> ds_mask d \<noteq> [] \<and> ds_offset d \<le> rc_n_past ctx"

definition chunk_start :: "deepstack \<Rightarrow> run_ctx \<Rightarrow> nat" where
  "chunk_start d ctx = (if visual_prefill d ctx then rc_n_past ctx - ds_offset d else 0)"

definition chunk_mask :: "deepstack \<Rightarrow> run_ctx \<Rightarrow> nat \<Rightarrow> u8 list" where
  "chunk_mask d ctx cap =
     map (\<lambda>t. if visual_prefill d ctx \<and> t < rc_curr_len ctx
              then let idx = chunk_start d ctx + t in (if idx < length (ds_mask d) \<and> ds_mask d ! idx \<noteq> 0 then 1 else 0)
              else 0) [0..<cap]"

definition visual_offset :: "deepstack \<Rightarrow> run_ctx \<Rightarrow> nat" where
  "visual_offset d ctx = length (filter (\<lambda>v. v \<noteq> 0) (take (chunk_start d ctx) (ds_mask d)))"

definition level_buffer :: "deepstack \<Rightarrow> run_ctx \<Rightarrow> nat \<Rightarrow> f32 list \<Rightarrow> f32 list" where
  "level_buffer d ctx capacity src =
     (let src_start = visual_offset d ctx * ds_hidden d
      in if visual_prefill d ctx \<and> 0 < ds_hidden d \<and> src_start < length src
         then let rows = slice src_start (min capacity (length src - src_start)) src
              in rows @ replicate (capacity - length rows) 0
         else replicate capacity 0)"

definition write_level :: "deepstack \<Rightarrow> graph \<Rightarrow> run_ctx \<Rightarrow> nat \<Rightarrow> mem \<Rightarrow> mem res" where
  "write_level d g ctx k m =
     (let name = ds_prefix d @ to_string k
      in if \<not> hasInput g name then Inr m
         else rbind (inputSpec g name) (\<lambda>spec.
           write_float g name (SrcFloat (level_buffer d ctx (elementCount spec) (ds_embeds d ! k))) m))"

text \<open>The mask is copied as bytes of the tensor: an element wider than one byte reads past the chunk.\<close>

definition deepstack_write :: "deepstack \<Rightarrow> graph \<Rightarrow> run_ctx \<Rightarrow> mem \<Rightarrow> mem res" where
  "deepstack_write d g ctx m =
     (if \<not> hasInput g (ds_mask_name d) then Inr m
      else rbind (inputSpec g (ds_mask_name d)) (\<lambda>spec.
        let cap = elementCount spec
        in rbind (buf_load 0 (cap * elementSize (ts_dtype spec)) (chunk_mask d ctx cap)) (\<lambda>bs.
           rbind (write_bytes g (ds_mask_name d) bs m) (\<lambda>m.
             rfor (write_level d g ctx) [0..<length (ds_embeds d)] m))))"

section \<open>The provider list of a vision-language model\<close>

datatype vlm_provider =
    PromptEmbeds prompt_embeds
  | MRoPEProvider mrope
  | DeepstackProvider deepstack

fun vlm_provider_write :: "libm \<Rightarrow> vlm_provider \<Rightarrow> graph \<Rightarrow> run_ctx \<Rightarrow> mem \<Rightarrow> mem res" where
  "vlm_provider_write lm (PromptEmbeds e) g ctx m = pe_write e g ctx m"
| "vlm_provider_write lm (MRoPEProvider r) g ctx m = mrope_write lm r g ctx m"
| "vlm_provider_write lm (DeepstackProvider d) g ctx m = deepstack_write d g ctx m"

definition vlm_provider_onInitialized :: "files \<Rightarrow> string option \<Rightarrow> llm_spec \<Rightarrow> vlm_provider \<Rightarrow> vlm_provider res" where
  "vlm_provider_onInitialized fs path spec p =
     (case p of PromptEmbeds e \<Rightarrow> rbind (pe_onInitialized fs path spec e) (\<lambda>e. Inr (PromptEmbeds e)) | _ \<Rightarrow> Inr p)"

section \<open>The tables, cell by cell\<close>

definition last_axis :: "nat \<Rightarrow> nat \<Rightarrow> (nat \<times> nat \<times> nat) list \<Rightarrow> nat option \<Rightarrow> nat option" where
  "last_axis t i = fold (\<lambda>(d, t', i') a. if t' = t \<and> i' = i then Some d else a)"

lemma last_axis_simps [simp]:
  "last_axis t i [] a = a"
  "last_axis t i ((d, t', i') # cs) a = last_axis t i cs (if t' = t \<and> i' = i then Some d else a)"
  "last_axis t i (cs @ cs') a = last_axis t i cs' (last_axis t i cs a)"
  by (simp_all add: last_axis_def)

lemma last_axis_rows: "last_axis t i (map (Pair d) xs) a = (if (t, i) \<in> set xs then Some d else a)"
  by (induction xs arbitrary: a) (auto split: if_splits)

lemma last_axis_cols: "last_axis t i (map (\<lambda>(i, t). (d, t, i)) xs) a = (if (i, t) \<in> set xs then Some d else a)"
  by (induction xs arbitrary: a) (auto split: if_splits)

lemma mrope_freqs_ok:
  assumes "3 * seq_len \<le> length ids" "length ws = half"
  shows "\<exists>fs. mrope_freqs ws seq_len ids = Inr fs
    \<and> (\<forall>d < 3. \<forall>t < seq_len. \<forall>i < half. idx_vec fs ((d * seq_len + t) * half + i) = Inr (f64_mul (f64_of_int (ids ! (d * seq_len + t))) (ws ! i)))"
proof -
  let ?row = "\<lambda>k. map (f64_mul (f64_of_int (ids ! k))) ws"
  have e: "map (\<lambda>p. map (f64_mul (f64_of_int p)) ws) (take (3 * seq_len) ids) = map ?row [0..<3 * seq_len]"
    using assms(1) by (intro nth_equalityI) simp_all
  have "idx_vec (concat (map ?row [0..<3 * seq_len])) ((d * seq_len + t) * half + i) = Inr (f64_mul (f64_of_int (ids ! (d * seq_len + t))) (ws ! i))"
    if "d < 3" "t < seq_len" "i < half" for d t i
  proof -
    have k: "d * seq_len + t < 3 * seq_len" using that row_col_less [of d 3 t seq_len] by simp
    then have "(d * seq_len + t) * half + i < 3 * seq_len * half" using row_col_less that(3) by blast
    moreover have "map length (map ?row [0..<3 * seq_len]) = replicate (3 * seq_len) half"
      using assms(2) by (intro nth_equalityI) simp_all
    then have "length (concat (map ?row [0..<3 * seq_len])) = 3 * seq_len * half"
      by (simp add: length_concat sum_list_replicate)
    moreover have "slice ((d * seq_len + t) * half) half (concat (map ?row [0..<3 * seq_len])) = ?row (d * seq_len + t)"
      using assms(2) by (intro slice_concat_rows [OF _ k]) simp
    then have "slice ((d * seq_len + t) * half) half (concat (map ?row [0..<3 * seq_len])) ! i = ?row (d * seq_len + t) ! i" by simp
    moreover have "(d * seq_len + t) * half + half \<le> 3 * seq_len * half"
      using mult_le_mono1 [of "Suc (d * seq_len + t)" "3 * seq_len" half] k by simp
    ultimately show ?thesis using that(3) assms(2) by (simp add: idx_vec_def nth_slice)
  qed
  then show ?thesis using assms(1) unfolding mrope_freqs_def e by auto
qed

lemma mrope_cells_run:
  assumes fs: "\<forall>d < 3. \<forall>t < seq_len. \<forall>i < half. idx_vec fs ((d * seq_len + t) * half + i) = Inr (ang d t i)"
    and cells: "\<forall>(d, t, i) \<in> set cs. d < 3 \<and> t < seq_len \<and> i < half"
    and len: "length c = seq_len * half" "length s = seq_len * half"
  shows "\<exists>c' s'. rfor (mrope_cell lm half seq_len fs) cs (c, s) = Inr (c', s') \<and> length c' = seq_len * half \<and> length s' = seq_len * half
    \<and> (\<forall>t < seq_len. \<forall>i < half. \<forall>a. last_axis t i cs None = a \<longrightarrow>
         c' ! (t * half + i) = (case a of Some d \<Rightarrow> m_cos lm (ang d t i) | None \<Rightarrow> c ! (t * half + i))
       \<and> s' ! (t * half + i) = (case a of Some d \<Rightarrow> m_sin lm (ang d t i) | None \<Rightarrow> s ! (t * half + i)))"
  using cells
proof (induction cs rule: rev_induct)
  case Nil
  then show ?case using len by simp
next
  case (snoc x cs)
  obtain d t i where x: "x = (d, t, i)" by (cases x)
  then have b: "d < 3" "t < seq_len" "i < half" using snoc.prems by auto
  obtain c' s' where r: "rfor (mrope_cell lm half seq_len fs) cs (c, s) = Inr (c', s')" "length c' = seq_len * half" "length s' = seq_len * half"
    "\<forall>t < seq_len. \<forall>i < half. \<forall>a. last_axis t i cs None = a \<longrightarrow>
         c' ! (t * half + i) = (case a of Some d \<Rightarrow> m_cos lm (ang d t i) | None \<Rightarrow> c ! (t * half + i))
       \<and> s' ! (t * half + i) = (case a of Some d \<Rightarrow> m_sin lm (ang d t i) | None \<Rightarrow> s ! (t * half + i))"
    using snoc by auto
  have k: "t * half + i < seq_len * half" using row_col_less b by blast
  have "mrope_cell lm half seq_len fs x (c', s') = Inr (c'[t * half + i := m_cos lm (ang d t i)], s'[t * half + i := m_sin lm (ang d t i)])"
    using fs b r(2,3) k by (simp add: x mrope_cell_def set_vec_def)
  moreover have "t * half + i = t' * half + i' \<longleftrightarrow> t = t' \<and> i = i'" if "i' < half" for t' i'
    using row_col_inj [OF b(3) that, of t t'] by auto
  ultimately show ?case using r k by (auto simp: x rfor_append nth_list_update)
qed

text \<open>The axis of a frequency.\<close>

fun block_axis :: "nat \<Rightarrow> nat \<Rightarrow> int list \<Rightarrow> nat \<Rightarrow> nat" where
  "block_axis d off [] i = d"
| "block_axis d off (n # ns) i = (if i < off + nat n then d else block_axis (d + 1) (off + nat n) ns i)"

definition mrope_axis :: "mrope \<Rightarrow> nat \<Rightarrow> nat" where
  "mrope_axis r i =
     (case mr_style r of
        BLOCK \<Rightarrow> block_axis 0 0 (mr_section r) i
      | STRIDE \<Rightarrow> (let d = i mod 3 in if d < length (mr_section r) \<and> int i < mr_section r ! d * 3 then d else 0))"

definition mrope_ok :: "mrope \<Rightarrow> bool" where
  "mrope_ok r \<longleftrightarrow> length (mr_inv_freq r) = mr_half r \<and> length (mr_section r) \<le> 3 \<and> (\<forall>n \<in> set (mr_section r). 0 \<le> n)
     \<and> sum_list (mr_section r) = int (mr_half r) \<and> mr_half r < 2 ^ 64"

lemma section_step:
  assumes "\<forall>n \<in> set (n # ns). 0 \<le> n" "int off + sum_list (n # ns) = int half" "half < 2 ^ 64"
  shows "int (off + nat n) + sum_list ns = int half" "to_size n = nat n" "off < half \<Longrightarrow> min (nat n) (half - off) = nat n"
    "off + nat n \<le> half"
proof -
  have n: "0 \<le> n" "0 \<le> sum_list ns" using assms(1) by (auto intro: sum_list_nonneg)
  then show "int (off + nat n) + sum_list ns = int half" "off + nat n \<le> half" using assms(2) by auto
  then show "off < half \<Longrightarrow> min (nat n) (half - off) = nat n" by simp
  show "to_size n = nat n" using n \<open>off + nat n \<le> half\<close> assms(3) to_size_int [of "nat n"] by simp
qed

lemma block_cells_range:
  assumes "\<forall>n \<in> set ns. 0 \<le> n" "int off + sum_list ns = int half" "half < 2 ^ 64"
  shows "\<forall>(d', t, i) \<in> set (block_cells half seq_len d off ns). d' < d + length ns \<and> t < seq_len \<and> i < half"
  using assms
proof (induction ns arbitrary: d off)
  case (Cons n ns)
  note st = section_step [OF Cons.prems]
  from Cons.IH [OF _ st(1) Cons.prems(3), of "d + 1"] Cons.prems(1) show ?case
    using st by (auto simp: Let_def)
qed simp

lemma block_cells_before:
  assumes "\<forall>n \<in> set ns. 0 \<le> n" "int off + sum_list ns = int half" "half < 2 ^ 64" "i < off"
  shows "last_axis t i (block_cells half seq_len d off ns) a = a"
  using assms
proof (induction ns arbitrary: d off a)
  case (Cons n ns)
  note st = section_step [OF Cons.prems(1-3)]
  have "\<forall>n \<in> set ns. 0 \<le> n" "i < off + nat n" using Cons.prems by auto
  from Cons.IH [OF this(1) st(1) Cons.prems(3) this(2)] Cons.prems(4) st(2,3) show ?case
    by (simp add: Let_def last_axis_rows)
qed simp

lemma block_cells_axis:
  assumes "\<forall>n \<in> set ns. 0 \<le> n" "int off + sum_list ns = int half" "half < 2 ^ 64" "t < seq_len" "off \<le> i" "i < half"
  shows "last_axis t i (block_cells half seq_len d off ns) a = Some (block_axis d off ns i)"
  using assms
proof (induction ns arbitrary: d off a)
  case (Cons n ns)
  note st = section_step [OF Cons.prems(1-3)]
  have ns: "\<forall>n \<in> set ns. 0 \<le> n" using Cons.prems(1) by simp
  show ?case
  proof (cases "i < off + nat n")
    case True
    then show ?thesis using block_cells_before [OF ns st(1) Cons.prems(3) True] Cons.prems(4-6) st(2,3)
      by (simp add: Let_def last_axis_rows)
  next
    case False
    then show ?thesis using Cons.IH [OF ns st(1) Cons.prems(3,4) _ Cons.prems(6)] Cons.prems(4-6) st(2,3)
      by (simp add: Let_def last_axis_rows)
  qed
qed simp

lemma mrope_cells_ok:
  assumes "mrope_ok r"
  shows "\<forall>(d, t, i) \<in> set (mrope_cells r seq_len). d < 3 \<and> t < seq_len \<and> i < mr_half r"
    "t < seq_len \<Longrightarrow> i < mr_half r \<Longrightarrow> last_axis t i (mrope_cells r seq_len) None = Some (mrope_axis r i)"
proof -
  have b: "\<forall>n \<in> set (mr_section r). 0 \<le> n" "int 0 + sum_list (mr_section r) = int (mr_half r)" "mr_half r < 2 ^ 64" "length (mr_section r) \<le> 3"
    using assms by (auto simp: mrope_ok_def)
  show "\<forall>(d, t, i) \<in> set (mrope_cells r seq_len). d < 3 \<and> t < seq_len \<and> i < mr_half r"
  proof (cases "mr_style r")
    case BLOCK
    then show ?thesis using block_cells_range [OF b(1-3), of seq_len 0] b(4) by (fastforce simp: mrope_cells_def)
  next
    case STRIDE
    then show ?thesis by (auto simp: mrope_cells_def stride_cells_def)
  qed
  assume t: "t < seq_len" "i < mr_half r"
  show "last_axis t i (mrope_cells r seq_len) None = Some (mrope_axis r i)"
  proof (cases "mr_style r")
    case BLOCK
    then show ?thesis using block_cells_axis [OF b(1-3) t(1) _ t(2)] by (simp add: mrope_cells_def mrope_axis_def)
  next
    case STRIDE
    have st: "last_axis t i (stride_cells (mr_half r) seq_len (mr_section r) d) a
        = (if i mod 3 = d \<and> int i < mr_section r ! d * 3 then Some d else a)" for d a
      using t by (simp add: stride_cells_def last_axis_cols)
    consider "i mod 3 = 0" | "i mod 3 = 1" | "i mod 3 = 2" by linarith
    then show ?thesis using STRIDE t
      by cases (simp_all add: mrope_cells_def mrope_axis_def Let_def st last_axis_rows)
  qed
qed

lemma fillCosSin_ok:
  assumes "mrope_ok r" "3 * seq_len \<le> length ids"
  shows "\<exists>c s. fillCosSin lm r ids seq_len cs0 = Inr (c, s) \<and> length c = seq_len * mr_half r \<and> length s = seq_len * mr_half r
    \<and> (\<forall>t < seq_len. \<forall>i < mr_half r.
         (let a = f64_mul (f64_of_int (ids ! (mrope_axis r i * seq_len + t))) (mr_inv_freq r ! i)
          in c ! (t * mr_half r + i) = m_cos lm a \<and> s ! (t * mr_half r + i) = m_sin lm a))"
proof -
  have h: "length (mr_inv_freq r) = mr_half r" using assms(1) by (simp add: mrope_ok_def)
  obtain fs where fs: "mrope_freqs (mr_inv_freq r) seq_len ids = Inr fs"
    "\<forall>d < 3. \<forall>t < seq_len. \<forall>i < mr_half r. idx_vec fs ((d * seq_len + t) * mr_half r + i)
       = Inr (f64_mul (f64_of_int (ids ! (d * seq_len + t))) (mr_inv_freq r ! i))"
    using mrope_freqs_ok [OF assms(2) h] by blast
  obtain c0 s0 where c0: "cs0 = (c0, s0)" by (cases cs0)
  have l: "length (vec_resize n (0 :: f64) xs) = n" for n xs by (simp add: vec_resize_def)
  show ?thesis
    using mrope_cells_run [OF fs(2) mrope_cells_ok(1) [OF assms(1)] l l, of lm c0 s0] fs(1) mrope_cells_ok(2) [OF assms(1)]
    by (fastforce simp: fillCosSin_def c0 Let_def)
qed

section \<open>The features meet their tokens\<close>

definition visual_count :: "u8 list \<Rightarrow> nat" where
  "visual_count m = length (filter (\<lambda>v. v \<noteq> 0) m)"

lemma visual_count_append [simp]: "visual_count (a @ b) = visual_count a + visual_count b"
  by (simp add: visual_count_def)

lemma visual_count_take_less:
  assumes "p < length m" "m ! p \<noteq> 0"
  shows "visual_count (take p m) < visual_count m"
proof -
  have "visual_count m = visual_count (take p m) + visual_count (drop p m)"
    by (metis append_take_drop_id visual_count_append)
  moreover have "0 < visual_count (drop p m)"
    using assms by (simp add: Cons_nth_drop_Suc [symmetric] visual_count_def)
  ultimately show ?thesis by simp
qed

lemma visual_count_map: "visual_count (map (\<lambda>v. if v \<noteq> 0 then 1 else 0) m) = visual_count m"
  by (induction m) (simp_all add: visual_count_def)

lemma chunk_mask_take:
  assumes "visual_prefill d ctx" "t < cap" "t < rc_curr_len ctx" "chunk_start d ctx + t < length (ds_mask d)"
  shows "take t (chunk_mask d ctx cap) = map (\<lambda>v. if v \<noteq> 0 then 1 else 0) (take t (drop (chunk_start d ctx) (ds_mask d)))"
    "chunk_mask d ctx cap ! t = (if ds_mask d ! (chunk_start d ctx + t) \<noteq> 0 then 1 else 0)"
  using assms by (simp_all add: chunk_mask_def Let_def list_eq_iff_nth_eq)

text \<open>
  A visual token of a chunk is the \<open>row\<close>-th marked position of the chunk's mask, and the
  \<open>row\<close>-th row of the chunk's features is the one that belongs to it in the whole prompt.
\<close>

lemma level_row_aligned:
  assumes vp: "visual_prefill d ctx" and t: "t < cap" "t < rc_curr_len ctx" "p = chunk_start d ctx + t"
    and p: "p < length (ds_mask d)" "ds_mask d ! p \<noteq> 0"
    and row: "row = visual_count (take t (chunk_mask d ctx cap))"
    and h: "0 < ds_hidden d" "length src = visual_count (ds_mask d) * ds_hidden d" "(row + 1) * ds_hidden d \<le> capacity"
  shows "chunk_mask d ctx cap ! t = 1"
    "slice (row * ds_hidden d) (ds_hidden d) (level_buffer d ctx capacity src)
       = slice (visual_count (take p (ds_mask d)) * ds_hidden d) (ds_hidden d) src"
proof -
  let ?s = "chunk_start d ctx" and ?m = "ds_mask d" and ?h = "ds_hidden d"
  have pl: "?s + t < length ?m" using t(3) p(1) by simp
  note cm = chunk_mask_take [OF vp t(1,2) pl]
  show "chunk_mask d ctx cap ! t = 1" using cm(2) p(2) t(3) by simp
  have row': "row = visual_count (take t (drop ?s ?m))" unfolding row cm(1) by (rule visual_count_map)
  have vb: "visual_count (take p ?m) = visual_offset d ctx + row"
    unfolding row' t(3) take_add visual_count_append visual_offset_def by (simp add: visual_count_def)
  have less: "visual_offset d ctx + row < visual_count ?m" using visual_count_take_less [OF p] vb by simp
  then have le: "(visual_offset d ctx + row + 1) * ?h \<le> length src" unfolding h(2) by (intro mult_le_mono1) simp
  then have start: "visual_offset d ctx * ?h < length src" using h(1) by (simp add: algebra_simps)
  let ?k = "min capacity (length src - visual_offset d ctx * ?h)"
  have rk: "row * ?h + ?h \<le> ?k" using le h(3) by (simp add: algebra_simps)
  have kl: "visual_offset d ctx * ?h + ?k \<le> length src" using start by simp
  have lb: "level_buffer d ctx capacity src = slice (visual_offset d ctx * ?h) ?k src @ replicate (capacity - ?k) 0"
    using vp h(1) start kl by (simp add: level_buffer_def Let_def length_slice)
  have "slice (row * ?h) ?h (slice (visual_offset d ctx * ?h) ?k src @ replicate (capacity - ?k) 0)
      = slice (row * ?h) ?h (slice (visual_offset d ctx * ?h) ?k src)"
    using rk kl by (simp add: slice_def min_absorb2)
  also have "\<dots> = slice (visual_offset d ctx * ?h + row * ?h) ?h src"
    using rk by (intro slice_slice) simp_all
  finally show "slice (row * ?h) ?h (level_buffer d ctx capacity src) = slice (visual_count (take p ?m) * ?h) ?h src"
    unfolding lb vb by (simp add: add_mult_distrib)
qed

section \<open>Properties\<close>

theorem fillCosSin_axis:
  assumes "mrope_ok r" "3 * seq_len \<le> length ids"
  shows "\<exists>c s. fillCosSin lm r ids seq_len cs0 = Inr (c, s) \<and> length c = seq_len * mr_half r \<and> length s = seq_len * mr_half r
    \<and> (\<forall>t < seq_len. \<forall>i < mr_half r.
         (let a = f64_mul (f64_of_int (ids ! (mrope_axis r i * seq_len + t))) (mr_inv_freq r ! i)
          in c ! (t * mr_half r + i) = m_cos lm a \<and> s ! (t * mr_half r + i) = m_sin lm a))"
  by (rule fillCosSin_ok [OF assms])

definition demo_libm :: libm where
  "demo_libm = \<lparr> m_cos = (\<lambda>x. x), m_sin = (\<lambda>x. x), m_pow = (\<lambda>x y. x), m_sqrt = (\<lambda>x. x), m_log = (\<lambda>x. x),
     m_cosf = (\<lambda>x. x), m_sinf = (\<lambda>x. x), m_powf = (\<lambda>x y. x), m_expf = (\<lambda>x. x) \<rparr>"

definition demo_mrope :: "mrope_style \<Rightarrow> mrope" where
  "demo_mrope style = mkMRoPE demo_libm [1, 2, 1] 0 style ''c'' ''s''"

lemma demo_mrope_fields:
  "mr_half (demo_mrope st) = 4" "mr_section (demo_mrope st) = [1, 2, 1]" "mr_style (demo_mrope st) = st" "mrope_ok (demo_mrope st)"
  by (simp_all add: demo_mrope_def mkMRoPE_def Let_def to_size_def mrope_ok_def)

text \<open>Four frequencies: the two in the middle turn with the height, the strided ones with the axis of their number.\<close>

lemma fillCosSin_axis_witness:
  "(\<exists>c s. fillCosSin demo_libm (demo_mrope BLOCK) [10, 20, 30] 1 ([], []) = Inr (c, s)
      \<and> c ! 2 = f64_mul (f64_of_int 20) (mr_inv_freq (demo_mrope BLOCK) ! 2))
   \<and> (\<exists>c s. fillCosSin demo_libm (demo_mrope STRIDE) [10, 20, 30] 1 ([], []) = Inr (c, s)
      \<and> c ! 2 = f64_mul (f64_of_int 30) (mr_inv_freq (demo_mrope STRIDE) ! 2))"
proof -
  have ax: "mrope_axis (demo_mrope BLOCK) 2 = 1" "mrope_axis (demo_mrope STRIDE) 2 = 2"
    by (simp_all add: mrope_axis_def demo_mrope_fields)
  obtain c s where "fillCosSin demo_libm (demo_mrope BLOCK) [10, 20, 30] 1 ([], []) = Inr (c, s)"
    "\<forall>t < 1. \<forall>i < 4. (let a = f64_mul (f64_of_int ([10, 20, 30] ! (mrope_axis (demo_mrope BLOCK) i * 1 + t))) (mr_inv_freq (demo_mrope BLOCK) ! i)
        in c ! (t * 4 + i) = a \<and> s ! (t * 4 + i) = a)"
    using fillCosSin_axis [OF demo_mrope_fields(4), of 1 "[10, 20, 30]" demo_libm BLOCK "([], [])"]
    by (auto simp: demo_mrope_fields(1) demo_libm_def)
  moreover obtain c' s' where "fillCosSin demo_libm (demo_mrope STRIDE) [10, 20, 30] 1 ([], []) = Inr (c', s')"
    "\<forall>t < 1. \<forall>i < 4. (let a = f64_mul (f64_of_int ([10, 20, 30] ! (mrope_axis (demo_mrope STRIDE) i * 1 + t))) (mr_inv_freq (demo_mrope STRIDE) ! i)
        in c' ! (t * 4 + i) = a \<and> s' ! (t * 4 + i) = a)"
    using fillCosSin_axis [OF demo_mrope_fields(4), of 1 "[10, 20, 30]" demo_libm STRIDE "([], [])"]
    by (auto simp: demo_mrope_fields(1) demo_libm_def)
  ultimately show ?thesis by (auto simp: ax Let_def)
qed

text \<open>C32: in every chunk of a prompt the feature row a visual token selects in the deepstack
  buffer is the row of that token in the whole prompt\<close>

theorem deepstack_aligned:
  assumes "visual_prefill d ctx" "t < cap" "t < rc_curr_len ctx" "p = chunk_start d ctx + t"
    and "p < length (ds_mask d)" "ds_mask d ! p \<noteq> 0"
    and "row = visual_count (take t (chunk_mask d ctx cap))"
    and "0 < ds_hidden d" "length src = visual_count (ds_mask d) * ds_hidden d" "(row + 1) * ds_hidden d \<le> capacity"
  shows "chunk_mask d ctx cap ! t = 1
    \<and> slice (row * ds_hidden d) (ds_hidden d) (level_buffer d ctx capacity src)
       = slice (visual_count (take p (ds_mask d)) * ds_hidden d) (ds_hidden d) src"
  using level_row_aligned [OF assms] by blast

definition demo_deepstack :: deepstack where
  "demo_deepstack = setVisualMask [0, 1, 1, 0, 1] 10 (setEmbeds [[11, 22, 33]] 1 (mkDeepstack ''ds_'' ''vm''))"

definition demo_chunk :: run_ctx where
  "demo_chunk = \<lparr> rc_token_ids = [], rc_n_past = 12, rc_curr_len = 3, rc_phase = 0 \<rparr>"

lemma demo_deepstack_facts:
  "ds_mask demo_deepstack = [0, 1, 1, 0, 1]" "ds_hidden demo_deepstack = 1" "rc_curr_len demo_chunk = 3"
  "visual_prefill demo_deepstack demo_chunk" "chunk_start demo_deepstack demo_chunk = 2"
  by (simp_all add: demo_deepstack_def demo_chunk_def setVisualMask_def setEmbeds_def mkDeepstack_def visual_prefill_def chunk_start_def)

lemma deepstack_aligned_witness:
  "chunk_mask demo_deepstack demo_chunk 4 ! 2 = 1 \<and> slice 1 1 (level_buffer demo_deepstack demo_chunk 4 [11, 22, 33]) = [33]"
proof -
  have u: "[0..<2] = [0, 1]" "[0..<4] = [0, 1, 2, 3]" by (simp_all add: eval_nat_numeral)
  have r: "visual_count (take 2 (chunk_mask demo_deepstack demo_chunk 4)) = 1"
    by (simp add: chunk_mask_def demo_deepstack_facts visual_count_def Let_def u)
  have c: "visual_count [0, 1, 1, 0, 1] = 3" "visual_count (take 4 [0, 1, 1, 0, 1]) = 2" by (simp_all add: visual_count_def)
  have pre: "2 < (4 :: nat)" "2 < rc_curr_len demo_chunk" "4 = chunk_start demo_deepstack demo_chunk + 2" "4 < length (ds_mask demo_deepstack)"
    "ds_mask demo_deepstack ! 4 \<noteq> 0" "1 = visual_count (take 2 (chunk_mask demo_deepstack demo_chunk 4))" "0 < ds_hidden demo_deepstack"
    "length [11, 22, 33 :: f32] = visual_count (ds_mask demo_deepstack) * ds_hidden demo_deepstack" "(1 + 1) * ds_hidden demo_deepstack \<le> 4"
    by (simp_all add: demo_deepstack_facts r c)
  have "slice (visual_count (take 4 (ds_mask demo_deepstack)) * ds_hidden demo_deepstack) (ds_hidden demo_deepstack) [11, 22, 33 :: f32] = [33]"
    by (simp only: demo_deepstack_facts c) (simp add: slice_def)
  with deepstack_aligned [OF demo_deepstack_facts(4) pre] show ?thesis by (simp only: demo_deepstack_facts) simp
qed

end
