(* ===== verification/MRoPE.thy ===== *)
theory MRoPE
  imports VlmProviders
begin

text \<open>
  The three-axis positions of a prompt with images and audio (\<open>core/src/vlm/vlm_utils.cpp\<close>),
  and the reference they are compared with: the positions of a prompt given as segments.

  Positions are counts, far below the range of \<open>int32_t\<close>.
\<close>

section \<open>The scan\<close>

type_synonym image_grid = "int \<times> int \<times> int" \<comment> \<open>\<open>{T, H, W}\<close> in patches\<close>

text \<open>The division of \<open>int\<close>, which truncates.\<close>

definition tdiv :: "int \<Rightarrow> int \<Rightarrow> int" where
  "tdiv a b = sgn a * sgn b * (\<bar>a\<bar> div \<bar>b\<bar>)"

text \<open>The vector of positions: the temporal axis, the heights, the widths.\<close>

definition put3 :: "nat \<Rightarrow> nat \<Rightarrow> int \<Rightarrow> int \<Rightarrow> int \<Rightarrow> int list \<Rightarrow> int list" where
  "put3 n i a b c pos = pos[i := a, n + i := b, 2 * n + i := c]"

fun image_run :: "int list \<Rightarrow> int \<Rightarrow> int \<Rightarrow> (nat \<times> nat \<times> nat) list \<Rightarrow> nat \<Rightarrow> int list \<Rightarrow> nat \<times> int list" where
  "image_run ids image_tok start [] i pos = (i, pos)"
| "image_run ids image_tok start ((t, h, w) # cells) i pos =
     (if i < length ids \<and> ids ! i = image_tok
      then image_run ids image_tok start cells (i + 1)
             (put3 (length ids) i (start + int t) (start + int h) (start + int w) pos)
      else (i, pos))"

fun audio_run :: "int list \<Rightarrow> int \<Rightarrow> int \<Rightarrow> nat list \<Rightarrow> nat \<Rightarrow> int list \<Rightarrow> nat \<times> int list" where
  "audio_run ids audio_tok start [] i pos = (i, pos)"
| "audio_run ids audio_tok start (a # as) i pos =
     (if i < length ids \<and> ids ! i = audio_tok
      then audio_run ids audio_tok start as (i + 1)
             (put3 (length ids) i (start + int a) (start + int a) (start + int a) pos)
      else (i, pos))"

lemma run_advances:
  "i \<le> fst (image_run ids image_tok start cells i pos)"
  "i \<le> fst (audio_run ids audio_tok start as i pos)"
proof -
  show "i \<le> fst (image_run ids image_tok start cells i pos)"
  proof (induction cells arbitrary: i pos)
    case (Cons c cells)
    obtain t h w where "c = (t, h, w)" by (cases c)
    then show ?case using Cons [of "i + 1"] by (auto intro: Suc_leD)
  qed simp
  show "i \<le> fst (audio_run ids audio_tok start as i pos)"
  proof (induction "as" arbitrary: i pos)
    case (Cons a as)
    then show ?case using Cons [of "i + 1"] by (auto intro: Suc_leD)
  qed simp
qed

record mrope_prompt =
  mp_ids :: "int list"
  mp_grids :: "image_grid list"
  mp_audio :: "int list"          \<comment> \<open>\<open>num_llm_tokens\<close> of every segment\<close>
  mp_merge :: int
  mp_vision_start :: int
  mp_image :: int
  mp_audio_start :: int
  mp_audio_token :: int

function mrope_scan :: "mrope_prompt \<Rightarrow> nat \<Rightarrow> int \<Rightarrow> nat \<Rightarrow> nat \<Rightarrow> int list \<Rightarrow> int list res" where
  "mrope_scan p i st im au pos =
     (let n = length (mp_ids p) in
      if n \<le> i then Inr pos
      else let tok = mp_ids p ! i; pos1 = put3 n i st st st pos in
        if tok = mp_vision_start p \<and> im < length (mp_grids p) then
          (let (T, H, W) = mp_grids p ! im; llm_h = tdiv H (mp_merge p); llm_w = tdiv W (mp_merge p);
               (i', pos') = image_run (mp_ids p) (mp_image p) (st + 1) (grid3 (nat T) (nat llm_h) (nat llm_w)) (i + 1) pos1
           in if mp_merge p = 0 then Inl UndefinedBehaviour
              else mrope_scan p i' (st + 1 + max T (max llm_h llm_w)) (im + 1) au pos')
        else if tok = mp_audio_start p \<and> au < length (mp_audio p) then
          (let num = mp_audio p ! au;
               (i', pos') = audio_run (mp_ids p) (mp_audio_token p) (st + 1) [0..<nat num] (i + 1) pos1
           in mrope_scan p i' (st + 1 + num) im (au + 1) pos')
        else mrope_scan p (i + 1) (st + 1) im au pos1)"
  by pat_completeness auto
termination
proof (relation "measure (\<lambda>(p, i, _). length (mp_ids p) - i)", goal_cases)
  case (2 p i st im au pos n tok pos1 x T y H W llm_h llm_w z i' pos')
  then have "i + 1 \<le> i'" using run_advances(1) by (metis fst_conv)
  with 2 show ?case by simp
next
  case (3 p i st im au pos n tok pos1 num x i' pos')
  then have "i + 1 \<le> i'" using run_advances(2) by (metis fst_conv)
  with 3 show ?case by simp
qed auto

declare mrope_scan.simps [simp del]

record mrope_positions =
  mo_ids :: "int list"
  mo_deltas :: "int list"

definition computeMRoPEPositions :: "mrope_prompt \<Rightarrow> mrope_positions res" where
  "computeMRoPEPositions p =
     (let n = length (mp_ids p) in
      rbind (mrope_scan p 0 0 0 0 (replicate (3 * n) 0)) (\<lambda>pos.
        let max_pos = (if 0 < n then Max (set (take n pos)) else 0); delta = max_pos + 1 - int n
        in Inr \<lparr> mo_ids = pos, mo_deltas = [delta, delta, delta] \<rparr>))"

section \<open>The reference: positions of segments\<close>

text \<open>A run of text, or an image of so many merged patches behind its start token.\<close>

datatype segment = TextRun "int list" | ImageRun nat nat nat

fun seg_tokens :: "int \<Rightarrow> int \<Rightarrow> segment \<Rightarrow> int list" where
  "seg_tokens vs img (TextRun ts) = ts"
| "seg_tokens vs img (ImageRun t h w) = vs # replicate (t * h * w) img"

fun seg_positions :: "int \<Rightarrow> segment \<Rightarrow> (int \<times> int \<times> int) list" where
  "seg_positions st (TextRun ts) = map (\<lambda>k. (st + int k, st + int k, st + int k)) [0..<length ts]"
| "seg_positions st (ImageRun T H W) =
     (st, st, st) # map (\<lambda>(t, h, w). (st + 1 + int t, st + 1 + int h, st + 1 + int w)) (grid3 T H W)"

fun seg_next :: "int \<Rightarrow> segment \<Rightarrow> int" where
  "seg_next st (TextRun ts) = st + int (length ts)"
| "seg_next st (ImageRun t h w) = st + 1 + int (max t (max h w))"

fun segs_positions :: "int \<Rightarrow> segment list \<Rightarrow> (int \<times> int \<times> int) list" where
  "segs_positions st [] = []"
| "segs_positions st (s # ss) = seg_positions st s @ segs_positions (seg_next st s) ss"

definition segs_end :: "int \<Rightarrow> segment list \<Rightarrow> int" where
  "segs_end st ss = foldl seg_next st ss"

definition segs_tokens :: "int \<Rightarrow> int \<Rightarrow> segment list \<Rightarrow> int list" where
  "segs_tokens vs img ss = concat (map (seg_tokens vs img) ss)"

text \<open>The grids of the images, in patches.\<close>

fun seg_grids :: "int \<Rightarrow> segment list \<Rightarrow> image_grid list" where
  "seg_grids m [] = []"
| "seg_grids m (TextRun ts # ss) = seg_grids m ss"
| "seg_grids m (ImageRun t h w # ss) = (int t, int h * m, int w * m) # seg_grids m ss"

fun seg_ok :: "int \<Rightarrow> segment \<Rightarrow> bool" where
  "seg_ok vs (TextRun ts) \<longleftrightarrow> vs \<notin> set ts"
| "seg_ok vs (ImageRun t h w) \<longleftrightarrow> True"

definition flat3 :: "(int \<times> int \<times> int) list \<Rightarrow> int list" where
  "flat3 ps = map fst ps @ map (fst \<circ> snd) ps @ map (snd \<circ> snd) ps"

lemma length_flat3 [simp]: "length (flat3 ps) = 3 * length ps"
  by (simp add: flat3_def)

lemma put3_flat3:
  assumes "n = length ps + Suc (length qs)"
  shows "put3 n (length ps) a b c (flat3 (ps @ q # qs)) = flat3 (ps @ (a, b, c) # qs)"
proof -
  have "2 * n + length ps = length (map fst (ps @ q # qs)) + (length (map (fst \<circ> snd) (ps @ q # qs)) + length ps)" using assms by simp
  then show ?thesis using assms by (simp add: put3_def flat3_def list_update_append)
qed

text \<open>The positions known so far, then zeros.\<close>

definition known :: "nat \<Rightarrow> (int \<times> int \<times> int) list \<Rightarrow> int list" where
  "known n ps = flat3 (ps @ replicate (n - length ps) (0, 0, 0))"

lemma known_put:
  assumes "length ps < n"
  shows "put3 n (length ps) a b c (known n ps) = known n (ps @ [(a, b, c)])"
proof -
  have "n - length ps = Suc (n - Suc (length ps))" using assms by simp
  then have "known n ps = flat3 (ps @ (0, 0, 0) # replicate (n - Suc (length ps)) (0, 0, 0))"
    unfolding known_def by (metis replicate_Suc)
  moreover have "n = length ps + Suc (length (replicate (n - Suc (length ps)) (0 :: int, 0 :: int, 0 :: int)))" using assms by simp
  from put3_flat3 [OF this] have "put3 n (length ps) a b c (flat3 (ps @ (0, 0, 0) # replicate (n - Suc (length ps)) (0, 0, 0)))
      = flat3 (ps @ (a, b, c) # replicate (n - Suc (length ps)) (0, 0, 0))" .
  ultimately show ?thesis by (simp add: known_def)
qed

lemma image_run_known:
  assumes "take (length cells) (drop (length ps) ids) = replicate (length cells) image_tok" "length ps + length cells \<le> length ids"
  shows "image_run ids image_tok start cells (length ps) (known (length ids) ps)
    = (length ps + length cells, known (length ids) (ps @ map (\<lambda>(t, h, w). (start + int t, start + int h, start + int w)) cells))"
  using assms
proof (induction cells arbitrary: ps)
  case (Cons c cells)
  obtain t h w where c: "c = (t, h, w)" by (cases c)
  have l: "length ps < length ids" using Cons.prems(2) by simp
  have "drop (length ps) ids = ids ! length ps # drop (Suc (length ps)) ids" using l by (simp add: Cons_nth_drop_Suc)
  then have h: "ids ! length ps = image_tok" "take (length cells) (drop (Suc (length ps)) ids) = replicate (length cells) image_tok"
    using Cons.prems(1) by simp_all
  let ?p = "(start + int t, start + int h, start + int w)"
  have "image_run ids image_tok start cells (length (ps @ [?p])) (known (length ids) (ps @ [?p]))
    = (length (ps @ [?p]) + length cells, known (length ids) ((ps @ [?p]) @ map (\<lambda>(t, h, w). (start + int t, start + int h, start + int w)) cells))"
    using h(2) Cons.prems(2) by (intro Cons.IH) simp_all
  then show ?case using h(1) l known_put [OF l] by (simp add: c)
qed simp

lemma length_grid3: "length (grid3 a b c) = a * b * c"
  by (simp add: grid3_def)

lemma length_segs_positions: "length (segs_positions st ss) = length (segs_tokens vs img ss)"
proof (induction ss arbitrary: st)
  case (Cons s ss)
  then show ?case by (cases s) (simp_all add: segs_tokens_def length_grid3)
qed (simp add: segs_tokens_def)

section \<open>The scan computes the reference\<close>

lemma scan_text:
  assumes "mp_ids p = ids" "mp_audio p = []" "mp_vision_start p \<notin> set ts"
    "take (length ts) (drop (length ps) ids) = ts" "length ps + length ts \<le> length ids"
  shows "mrope_scan p (length ps) st im au (known (length ids) ps)
    = mrope_scan p (length ps + length ts) (st + int (length ts)) im au (known (length ids) (ps @ seg_positions st (TextRun ts)))"
  using assms(3-5)
proof (induction ts arbitrary: ps st)
  case (Cons tok ts)
  have l: "length ps < length ids" using Cons.prems(3) by simp
  have "drop (length ps) ids = ids ! length ps # drop (Suc (length ps)) ids" using l by (simp add: Cons_nth_drop_Suc)
  then have h: "ids ! length ps = tok" "take (length ts) (drop (Suc (length ps)) ids) = ts" using Cons.prems(2) by simp_all
  have step: "mrope_scan p (length ps) st im au (known (length ids) ps)
      = mrope_scan p (length (ps @ [(st, st, st)])) (st + 1) im au (known (length ids) (ps @ [(st, st, st)]))"
    using l h(1) Cons.prems(1) assms(1,2) known_put [OF l] by (subst mrope_scan.simps) (simp add: Let_def)
  have pos: "(st, st, st) # seg_positions (st + 1) (TextRun ts) = seg_positions st (TextRun (tok # ts))"
    by (simp add: upt_conv_Cons map_Suc_upt [symmetric] comp_def add.commute add.left_commute del: upt_Suc)
  have "mrope_scan p (length (ps @ [(st, st, st)])) (st + 1) im au (known (length ids) (ps @ [(st, st, st)]))
      = mrope_scan p (length (ps @ [(st, st, st)]) + length ts) (st + 1 + int (length ts)) im au
          (known (length ids) ((ps @ [(st, st, st)]) @ seg_positions (st + 1) (TextRun ts)))"
    using Cons.prems h(2) by (intro Cons.IH) simp_all
  also have "(ps @ [(st, st, st)]) @ seg_positions (st + 1) (TextRun ts) = ps @ seg_positions st (TextRun (tok # ts))"
    using pos by simp
  finally show ?case using step by (simp add: ac_simps)
qed simp

lemma tdiv_mult: "0 < m \<Longrightarrow> tdiv (int h * m) m = int h"
  by (cases h) (simp_all add: tdiv_def sgn_mult abs_mult)

lemma scan_image:
  assumes p: "mp_ids p = ids" "mp_merge p = m" "0 < m" "mp_vision_start p = vs" "mp_image p = img"
    and ids: "drop (length ps) ids = vs # replicate (T * H * W) img @ rest"
    and im: "im < length (mp_grids p)" "mp_grids p ! im = (int T, int H * m, int W * m)"
  shows "mrope_scan p (length ps) st im au (known (length ids) ps)
    = mrope_scan p (length (ps @ seg_positions st (ImageRun T H W))) (seg_next st (ImageRun T H W)) (im + 1) au
        (known (length ids) (ps @ seg_positions st (ImageRun T H W)))"
proof -
  let ?ps = "ps @ [(st, st, st)]"
  have l: "length ids - length ps = Suc (T * H * W + length rest)" using arg_cong [OF ids, of length] by simp
  then have lt: "length ps < length ids" by simp
  then have c: "drop (length ps) ids = ids ! length ps # drop (Suc (length ps)) ids" by (simp add: Cons_nth_drop_Suc)
  then have h: "ids ! length ps = vs" "drop (length ?ps) ids = replicate (T * H * W) img @ rest" using ids by simp_all
  have run: "image_run ids img (st + 1) (grid3 T H W) (length ?ps) (known (length ids) ?ps)
    = (length ?ps + length (grid3 T H W),
       known (length ids) (?ps @ map (\<lambda>(t, h, w). (st + 1 + int t, st + 1 + int h, st + 1 + int w)) (grid3 T H W)))"
    using h(2) l by (intro image_run_known) (simp_all add: length_grid3)
  then have run': "image_run ids img (st + 1) (grid3 T H W) (Suc (length ps)) (known (length ids) (ps @ [(st, st, st)]))
    = (Suc (length ps) + T * H * W, known (length ids) (ps @ seg_positions st (ImageRun T H W)))"
    by (simp add: length_grid3)
  have "max (int T) (max (int H) (int W)) = int (max T (max H W))" by simp
  then show ?thesis using lt h(1) p im known_put [OF lt] run'
    by (subst mrope_scan.simps) (simp add: Let_def tdiv_mult length_grid3 add.assoc)
qed

lemma scan_segs:
  assumes p: "mp_ids p = ids" "mp_merge p = m" "0 < m" "mp_vision_start p = vs" "mp_image p = img" "mp_audio p = []"
    and "\<forall>s \<in> set ss. seg_ok vs s" "drop (length ps) ids = segs_tokens vs img ss" "length ps \<le> length ids"
    and "drop im (mp_grids p) = seg_grids m ss"
  shows "mrope_scan p (length ps) st im au (known (length ids) ps) = Inr (flat3 (ps @ segs_positions st ss))"
  using assms(7-10)
proof (induction ss arbitrary: ps st im)
  case Nil
  then have "length ps = length ids" by (simp add: segs_tokens_def)
  then show ?case using p(1) by (subst mrope_scan.simps) (simp add: known_def)
next
  case (Cons s ss)
  show ?case
  proof (cases s)
    case (TextRun ts)
    have d: "drop (length ps) ids = ts @ segs_tokens vs img ss" using Cons.prems(2) TextRun by (simp add: segs_tokens_def)
    then have l: "length ps + length ts \<le> length ids" using Cons.prems(3) by (metis add_le_cancel_left le_add_diff_inverse length_append length_drop le_add1)
    have "drop (length ps + length ts) ids = segs_tokens vs img ss"
      using d by (metis add.commute append_eq_conv_conj drop_drop)
    then have rest: "drop (length (ps @ seg_positions st s)) ids = segs_tokens vs img ss" using TextRun by simp
    have "mrope_scan p (length ps) st im au (known (length ids) ps)
      = mrope_scan p (length (ps @ seg_positions st s)) (seg_next st s) im au (known (length ids) (ps @ seg_positions st s))"
      using scan_text [OF p(1,6), of ts ps st im au] d l Cons.prems(1) p(4) TextRun by simp
    also have "\<dots> = Inr (flat3 ((ps @ seg_positions st s) @ segs_positions (seg_next st s) ss))"
      using Cons.prems rest l TextRun by (intro Cons.IH) simp_all
    finally show ?thesis by simp
  next
    case (ImageRun T H W)
    have d: "drop (length ps) ids = vs # replicate (T * H * W) img @ segs_tokens vs img ss"
      using Cons.prems(2) ImageRun by (simp add: segs_tokens_def)
    have g: "drop im (mp_grids p) = (int T, int H * m, int W * m) # seg_grids m ss" using Cons.prems(4) ImageRun by simp
    then have im: "im < length (mp_grids p)" by (metis drop_all list.distinct(1) not_le)
    then have gi: "mp_grids p ! im = (int T, int H * m, int W * m)" "drop (im + 1) (mp_grids p) = seg_grids m ss"
      using g by (simp_all add: Cons_nth_drop_Suc [symmetric])
    have lp: "length (seg_positions st s) = Suc (T * H * W)" using ImageRun by (simp add: length_grid3)
    have l: "length (ps @ seg_positions st s) \<le> length ids" using arg_cong [OF d, of length] lp by simp
    have "drop (length ps + Suc (T * H * W)) ids = drop (Suc (T * H * W)) (drop (length ps) ids)" by (simp add: add.commute)
    also have "\<dots> = segs_tokens vs img ss" unfolding d by simp
    finally have rest: "drop (length (ps @ seg_positions st s)) ids = segs_tokens vs img ss" using lp by simp
    have "mrope_scan p (length ps) st im au (known (length ids) ps)
      = mrope_scan p (length (ps @ seg_positions st s)) (seg_next st s) (im + 1) au (known (length ids) (ps @ seg_positions st s))"
      using scan_image [OF p(1-5) d im gi(1)] ImageRun by simp
    also have "\<dots> = Inr (flat3 ((ps @ seg_positions st s) @ segs_positions (seg_next st s) ss))"
      using Cons.prems rest l gi(2) by (intro Cons.IH) simp_all
    finally show ?thesis by simp
  qed
qed

text \<open>Every position of a segment lies between the counter before it and the counter after it.\<close>

lemma seg_positions_range:
  "q \<in> set (seg_positions st s) \<Longrightarrow> (\<forall>x \<in> {fst q, fst (snd q), snd (snd q)}. st \<le> x \<and> x < seg_next st s)"
  by (cases s) (auto simp: set_grid3 less_max_iff_disj)

lemma seg_next_le: "st \<le> seg_next st s"
  by (cases s) simp_all

lemma segs_end_le: "st \<le> segs_end st ss"
  unfolding segs_end_def
proof (induction ss arbitrary: st)
  case (Cons s ss)
  then show ?case using seg_next_le [of st s] by (metis foldl_Cons order_trans)
qed simp

lemma segs_positions_range:
  "q \<in> set (segs_positions st ss) \<Longrightarrow> (\<forall>x \<in> {fst q, fst (snd q), snd (snd q)}. st \<le> x \<and> x < segs_end st ss)"
proof (induction ss arbitrary: st)
  case (Cons s ss)
  have e: "segs_end st (s # ss) = segs_end (seg_next st s) ss" by (simp add: segs_end_def)
  show ?case
  proof (cases "q \<in> set (seg_positions st s)")
    case True
    then show ?thesis using seg_positions_range [OF True] segs_end_le [of "seg_next st s" ss] unfolding e by fastforce
  next
    case False
    then have "q \<in> set (segs_positions (seg_next st s) ss)" using Cons.prems by simp
    then show ?thesis using Cons.IH seg_next_le [of st s] unfolding e by fastforce
  qed
qed simp

lemma segs_positions_append:
  "segs_positions st (ss @ ss') = segs_positions st ss @ segs_positions (segs_end st ss) ss'"
  by (induction ss arbitrary: st) (simp_all add: segs_end_def)

definition prompt_of :: "int \<Rightarrow> int \<Rightarrow> int \<Rightarrow> segment list \<Rightarrow> mrope_prompt" where
  "prompt_of m vs img ss = \<lparr> mp_ids = segs_tokens vs img ss, mp_grids = seg_grids m ss, mp_audio = [], mp_merge = m,
     mp_vision_start = vs, mp_image = img, mp_audio_start = 0, mp_audio_token = 0 \<rparr>"

lemma mrope_of_segments:
  assumes "0 < m" "\<forall>s \<in> set ss. seg_ok vs s" "segs_tokens vs img ss \<noteq> []"
  shows "computeMRoPEPositions (prompt_of m vs img ss)
    = Inr \<lparr> mo_ids = flat3 (segs_positions 0 ss),
            mo_deltas = replicate 3 (Max (set (map fst (segs_positions 0 ss))) + 1 - int (length (segs_tokens vs img ss))) \<rparr>"
proof -
  let ?p = "prompt_of m vs img ss" and ?n = "length (segs_tokens vs img ss)"
  have "mrope_scan ?p (length ([] :: (int \<times> int \<times> int) list)) 0 0 0 (known ?n []) = Inr (flat3 ([] @ segs_positions 0 ss))"
    using assms by (intro scan_segs [where m = m]) (simp_all add: prompt_of_def)
  moreover have "known ?n [] = replicate (3 * ?n) 0"
    by (simp add: known_def flat3_def replicate_add [symmetric])
  moreover have "take ?n (flat3 (segs_positions 0 ss)) = map fst (segs_positions 0 ss)"
    using length_segs_positions [of 0 ss vs img] by (simp add: flat3_def)
  ultimately show ?thesis using assms(3)
    by (simp add: computeMRoPEPositions_def Let_def prompt_of_def eval_nat_numeral)
qed

lemma text_last_delta:
  assumes "ss = ss' @ [TextRun ts]" "ts \<noteq> []"
  shows "Max (set (map fst (segs_positions 0 ss))) + 1 = segs_end 0 ss"
proof -
  have e: "segs_end 0 ss = segs_end 0 ss' + int (length ts)" by (simp add: assms(1) segs_end_def)
  have "segs_end 0 ss - 1 = segs_end 0 ss' + int (length ts - 1)" using assms(2) e by (cases ts) simp_all
  moreover have "segs_end 0 ss' + int (length ts - 1) \<in> set (map fst (segs_positions 0 ss))"
  proof -
    have "Suc 0 \<le> length ts" using assms(2) by (cases ts) simp_all
    then have "int (length ts - 1) = int (length ts) - 1" "length ts - 1 < length ts" by auto
    then show ?thesis by (auto simp: assms(1) segs_positions_append image_iff intro!: bexI [of _ "length ts - 1"])
  qed
  ultimately have "segs_end 0 ss - 1 \<in> set (map fst (segs_positions 0 ss))" by simp
  moreover have "\<And>x. x \<in> set (map fst (segs_positions 0 ss)) \<Longrightarrow> x \<le> segs_end 0 ss - 1"
    using segs_positions_range [of _ 0 ss] by fastforce
  ultimately have "Max (set (map fst (segs_positions 0 ss))) = segs_end 0 ss - 1" by (intro Max_eqI) auto
  then show ?thesis by simp
qed

section \<open>Properties\<close>

text \<open>C14: for a prompt of text runs and images the scan over the tokens gives the positions
  defined segment by segment, and the deltas are the largest temporal position plus one minus
  the length\<close>

theorem mrope_matches_segments:
  assumes "0 < m" "\<forall>s \<in> set ss. seg_ok vs s" "segs_tokens vs img ss \<noteq> []"
  shows "computeMRoPEPositions (prompt_of m vs img ss)
    = Inr \<lparr> mo_ids = flat3 (segs_positions 0 ss),
            mo_deltas = replicate 3 (Max (set (map fst (segs_positions 0 ss))) + 1 - int (length (segs_tokens vs img ss))) \<rparr>"
  by (rule mrope_of_segments [OF assms])

text \<open>
  A prompt that ends with an image: the deltas place the first decoded token at position
  \<open>5 - 3 = 2\<close>, where the last patch already is.
\<close>

lemma mrope_matches_segments_witness:
  "computeMRoPEPositions (prompt_of 2 7 9 [ImageRun 1 2 2])
   = Inr \<lparr> mo_ids = [0, 1, 1, 1, 1,  0, 1, 1, 2, 2,  0, 1, 2, 1, 2], mo_deltas = [- 3, - 3, - 3] \<rparr>"
proof -
  have p: "segs_positions 0 [ImageRun 1 2 2] = [(0, 0, 0), (1, 1, 1), (1, 1, 2), (1, 2, 1), (1, 2, 2)]" by code_simp
  then show ?thesis
    using mrope_matches_segments [of 2 "[ImageRun 1 2 2]" 7 9] by (simp add: p flat3_def segs_tokens_def eval_nat_numeral)
qed

end
