(* ===== verification/VlmModel.thy ===== *)
theory VlmModel
  imports MRoPE LLMGenerate
begin

text \<open>
  The vision-language models: the base class (\<open>core/src/vlm/vlm_model.cpp\<close>), and the encoders
  and models of Qwen2.5-VL and Qwen3-VL (\<open>models/qwen2_5_vl\<close>, \<open>models/qwen3_vl\<close>). The sizes
  of the preprocessing block are counts.
\<close>

section \<open>Vision encoders\<close>

record pixel_data =
  px_values :: "f32 list"
  px_grids :: "image_grid list"

record vit = model +
  vi_width :: nat
  vi_height :: nat
  vi_patch :: nat
  vi_temporal :: nat
  vi_merge :: nat
  vi_hidden :: nat
  vi_rope_dim :: nat
  vi_prefix :: string
  vi_levels :: nat
  vi_embeds :: "f32 list list"

definition setPreprocessing :: "nat \<Rightarrow> nat \<Rightarrow> nat \<Rightarrow> nat \<Rightarrow> nat \<Rightarrow> 'a vit_scheme \<Rightarrow> 'a vit_scheme" where
  "setPreprocessing w h patch temporal m v =
     v\<lparr> vi_width := w, vi_height := h, vi_patch := patch, vi_temporal := temporal, vi_merge := m \<rparr>"

text \<open>The deepstack outputs of the vision graph are numbered from zero; the first gap ends them.\<close>

definition count_levels :: "graph \<Rightarrow> string \<Rightarrow> nat" where
  "count_levels g prefix =
     length (takeWhile (\<lambda>k. hasOutput g (prefix @ to_string k)) [0..<Suc (length (g_out_specs g))])"

definition vit_inferSpec :: "(vit, unit) sx" where
  "vit_inferSpec = swith (\<lambda>v.
     sbind (slift (graph_at v 0)) (\<lambda>g.
       if \<not> hasInput g ''position_ids_cos'' then sthrow (RuntimeError ''no position_ids_cos input'')
       else sbind (slift (inputSpec g ''position_ids_cos'')) (\<lambda>t.
         if ts_shape t = [] then sthrow (RuntimeError ''position_ids_cos has an empty shape'')
         else smod (\<lambda>v. v\<lparr> vi_rope_dim := last (ts_shape t), vi_levels := count_levels g (vi_prefix v) \<rparr>))))"

text \<open>The sizes of one image.\<close>

record vit_sizes =
  vs_h :: nat
  vs_w :: nat
  vs_patches :: nat
  vs_unit :: nat
  vs_pixels :: nat
  vs_tokens :: nat

definition sizes_of :: "vit \<Rightarrow> vit_sizes res" where
  "sizes_of v =
     (if vi_width v = 0 \<or> vi_height v = 0 \<or> vi_patch v = 0 \<or> vi_hidden v = 0
      then Inl (RuntimeError ''setPreprocessing/setHiddenSize not called before encode'')
      else if vi_merge v = 0 then Inl UndefinedBehaviour
      else let h = vi_height v div vi_patch v; w = vi_width v div vi_patch v; u = vi_merge v * vi_merge v in
        Inr \<lparr> vs_h = h, vs_w = w, vs_patches = h * w, vs_unit = u,
              vs_pixels = h * w * (3 * vi_temporal v * vi_patch v * vi_patch v),
              vs_tokens = h * w div u * vi_hidden v \<rparr>)"

definition check_grids :: "vit_sizes \<Rightarrow> image_grid list \<Rightarrow> unit res" where
  "check_grids z grids =
     rguard (\<forall>g \<in> set grids. g = (1, int (vs_h z), int (vs_w z))) (RuntimeError ''grid_thw differs from the expected grid'')"

definition vmem :: "(mem \<Rightarrow> mem res) \<Rightarrow> (vit, unit) sx" where
  "vmem f = supd (\<lambda>v. rbind (f (m_mem v)) (\<lambda>m. Inr (v\<lparr> m_mem := m \<rparr>)))"

definition vit_execute :: "(graph \<Rightarrow> mem \<Rightarrow> bool \<times> mem) \<Rightarrow> graph \<Rightarrow> (vit, unit) sx" where
  "vit_execute ex g = (\<lambda>v. case ex g (m_mem v) of (ok, m) \<Rightarrow>
     (if ok then Inr () else Inl (RuntimeError ''vision_encoder graph execute failed''), v\<lparr> m_mem := m \<rparr>))"

definition image_pixels :: "vit_sizes \<Rightarrow> pixel_data \<Rightarrow> nat \<Rightarrow> f32 list" where
  "image_pixels z px img = slice (img * vs_pixels z) (vs_pixels z) (px_values px)"

text \<open>Inputs of Qwen2.5-VL: rotary rows in window order, and a mask of the windows.\<close>

record vit_inputs =
  vn_index :: "int list"
  vn_cos :: "f32 list"
  vn_sin :: "f32 list"
  vn_window_mask :: "f32 list"
  vn_full_mask :: "f32 list"

definition qwen25_inputs :: "libm \<Rightarrow> vit \<Rightarrow> vit_sizes \<Rightarrow> vit_inputs res" where
  "qwen25_inputs lm v z =
     rbind (computeWindowIndex 1 (vs_h z) (vs_w z) (vi_merge v) 112 (vi_patch v)) (\<lambda>wi.
     rbind (reverseWindowIndex wi) (\<lambda>back.
     rbind (computeCuWindowSeqlens 1 (vs_h z) (vs_w z) (vi_merge v) 112 (vi_patch v)) (\<lambda>cu.
     rbind (computePatchRoPE lm 1 (vs_h z) (vs_w z) (vi_merge v) (makeInvFreq lm 40 0x461C4000)) (\<lambda>(c, s).
     rbind (windowReorder c (vs_patches z div vs_unit z) (vs_unit z) 40 wi) (\<lambda>c.
     rbind (windowReorder s (vs_patches z div vs_unit z) (vs_unit z) 40 wi) (\<lambda>s.
     rbind (buildBlockAttentionMask (vs_patches z) cu 0 f32_masked) (\<lambda>wm.
     rbind (buildBlockAttentionMask (vs_patches z) [0, int (vs_patches z)] 0 f32_masked) (\<lambda>fm.
       Inr \<lparr> vn_index = back, vn_cos = c, vn_sin = s, vn_window_mask = wm, vn_full_mask = fm \<rparr>))))))))"

text \<open>The rows of an image come back in window order and are put in their places.\<close>

definition unwindow :: "nat \<Rightarrow> int list \<Rightarrow> f32 list \<Rightarrow> nat \<Rightarrow> f32 list \<Rightarrow> f32 list res" where
  "unwindow hidden back tokens slot out =
     rfor (\<lambda>i out. rbind (buf_load (to_size (back ! i) * hidden) hidden tokens) (\<lambda>row. buf_store (slot + i * hidden) row out))
       [0..<length back] out"

definition qwen25_image :: "(graph \<Rightarrow> mem \<Rightarrow> bool \<times> mem) \<Rightarrow> graph \<Rightarrow> vit_sizes \<Rightarrow> vit_inputs \<Rightarrow> pixel_data \<Rightarrow> nat \<Rightarrow> f32 list
    \<Rightarrow> (vit, f32 list) sx" where
  "qwen25_image ex g z n px img out =
     sthen (vmem (write_float g ''pixel_values'' (SrcFloat (image_pixels z px img))))
    (sthen (vmem (write_float g ''position_ids_cos'' (SrcFloat (vn_cos n))))
    (sthen (vmem (write_float g ''position_ids_sin'' (SrcFloat (vn_sin n))))
    (sthen (vmem (write_float g ''window_attention_mask'' (SrcFloat (vn_window_mask n))))
    (sthen (vmem (write_float g ''full_attention_mask'' (SrcFloat (vn_full_mask n))))
    (sthen (vit_execute ex g)
    (swith (\<lambda>v. sbind (slift (read_float g ''image_features'' (vs_tokens z) 0 (m_mem v))) (\<lambda>tokens.
       slift (unwindow (vi_hidden v) (vn_index n) tokens (img * vs_tokens z) out)))))))))"

fun images :: "(nat \<Rightarrow> 'b \<Rightarrow> (vit, 'b) sx) \<Rightarrow> nat list \<Rightarrow> 'b \<Rightarrow> (vit, 'b) sx" where
  "images f [] out = sret out"
| "images f (i # is) out = sbind (f i out) (images f is)"

definition check_pixels :: "vit_sizes \<Rightarrow> pixel_data \<Rightarrow> unit res" where
  "check_pixels z px =
     rguard (length (px_values px) = length (px_grids px) * vs_pixels z) (RuntimeError ''pixel_values has an unexpected size'')"

definition qwen25_encode :: "libm \<Rightarrow> (graph \<Rightarrow> mem \<Rightarrow> bool \<times> mem) \<Rightarrow> pixel_data \<Rightarrow> (vit, f32 list) sx" where
  "qwen25_encode lm ex px = swith (\<lambda>v.
     if px_grids px = [] then sthrow (RuntimeError ''empty image_grid_thw'')
     else sbind (slift (sizes_of v)) (\<lambda>z.
       sthen (slift (check_grids z (px_grids px)))
      (sbind (slift (graph_at v 0)) (\<lambda>g.
       sbind (slift (qwen25_inputs lm v z)) (\<lambda>n.
       sthen (slift (check_pixels z px))
         (images (qwen25_image ex g z n px) [0..<length (px_grids px)]
            (replicate (length (px_grids px) * vs_tokens z) 0)))))))"

text \<open>Qwen3-VL keeps the natural order, and reads the deepstack features of every level as well.\<close>

definition read_level :: "graph \<Rightarrow> vit_sizes \<Rightarrow> nat \<Rightarrow> nat \<Rightarrow> (vit, unit) sx" where
  "read_level g z img k = supd (\<lambda>v.
     rbind (idx_vec (vi_embeds v) k) (\<lambda>lv.
     rbind (read_float g (vi_prefix v @ to_string k) (vs_tokens z) 0 (m_mem v)) (\<lambda>rows.
     rbind (buf_store (img * vs_tokens z) rows lv) (\<lambda>lv. Inr (v\<lparr> vi_embeds := (vi_embeds v)[k := lv] \<rparr>)))))"

definition qwen3_image :: "(graph \<Rightarrow> mem \<Rightarrow> bool \<times> mem) \<Rightarrow> graph \<Rightarrow> vit_sizes \<Rightarrow> f32 list \<Rightarrow> f32 list \<Rightarrow> f32 list \<Rightarrow> pixel_data
    \<Rightarrow> nat \<Rightarrow> f32 list \<Rightarrow> (vit, f32 list) sx" where
  "qwen3_image ex g z c s fm px img out =
     sthen (vmem (write_float g ''pixel_values'' (SrcFloat (image_pixels z px img))))
    (sthen (vmem (write_float g ''position_ids_cos'' (SrcFloat c)))
    (sthen (vmem (write_float g ''position_ids_sin'' (SrcFloat s)))
    (sthen (swhen (hasInput g ''window_attention_mask'') (vmem (write_float g ''window_attention_mask'' (SrcFloat fm))))
    (sthen (swhen (hasInput g ''full_attention_mask'') (vmem (write_float g ''full_attention_mask'' (SrcFloat fm))))
    (sthen (vit_execute ex g)
    (swith (\<lambda>v. sbind (slift (read_float g ''image_features'' (vs_tokens z) 0 (m_mem v))) (\<lambda>rows.
       sbind (slift (buf_store (img * vs_tokens z) rows out)) (\<lambda>out.
       sthen (sfor (read_level g z img) [0..<vi_levels v]) (sret out))))))))))"

definition qwen3_encode :: "libm \<Rightarrow> (graph \<Rightarrow> mem \<Rightarrow> bool \<times> mem) \<Rightarrow> pixel_data \<Rightarrow> (vit, f32 list) sx" where
  "qwen3_encode lm ex px = swith (\<lambda>v.
     if px_grids px = [] then sthrow (RuntimeError ''empty image_grid_thw'')
     else sbind (slift (sizes_of v)) (\<lambda>z.
       sthen (slift (check_grids z (px_grids px)))
      (sbind (slift (graph_at v 0)) (\<lambda>g.
       sbind (slift (computePatchRoPE lm 1 (vs_h z) (vs_w z) (vi_merge v) (makeInvFreq lm (vi_rope_dim v) 0x461C4000))) (\<lambda>(c, s).
       sbind (slift (buildBlockAttentionMask (vs_patches z) [0, int (vs_patches z)] 0 f32_masked)) (\<lambda>fm.
       sthen (slift (check_pixels z px))
      (sthen (smod (\<lambda>v. v\<lparr> vi_embeds := replicate (vi_levels v) (replicate (length (px_grids px) * vs_tokens z) 0) \<rparr>))
         (images (qwen3_image ex g z c s fm px) [0..<length (px_grids px)]
            (replicate (length (px_grids px) * vs_tokens z) 0)))))))))"

section \<open>The model\<close>

datatype vlm_family = Qwen25VL | Qwen3VL

text \<open>The observer pointers are positions in the provider list.\<close>

record vlm = "vlm_provider llm" +
  vm_family :: vlm_family
  vm_emb :: "nat option"
  vm_mrope :: "nat option"
  vm_deepstack :: "nat option"
  vm_vit :: vit
  vm_deltas :: "int list"
  vm_vision_start :: int
  vm_image :: int
  vm_merge :: int

definition setEmbeddingProvider :: "prompt_embeds \<Rightarrow> vlm \<Rightarrow> vlm" where
  "setEmbeddingProvider e st = (push_provider (PromptEmbeds e) st)\<lparr> vm_emb := Some (length (l_providers st)) \<rparr>"

definition setMRoPEProvider :: "mrope \<Rightarrow> vlm \<Rightarrow> vlm" where
  "setMRoPEProvider r st = (push_provider (MRoPEProvider r) st)\<lparr> vm_mrope := Some (length (l_providers st)) \<rparr>"

definition setDeepstackProvider :: "deepstack \<Rightarrow> vlm \<Rightarrow> vlm" where
  "setDeepstackProvider d st = (push_provider (DeepstackProvider d) st)\<lparr> vm_deepstack := Some (length (l_providers st)) \<rparr>"

definition setVisionTokenIds :: "int \<Rightarrow> int \<Rightarrow> vlm \<Rightarrow> vlm" where
  "setVisionTokenIds start pad st = st\<lparr> vm_vision_start := start, vm_image := pad \<rparr>"

definition emb_at :: "vlm \<Rightarrow> nat \<Rightarrow> prompt_embeds res" where
  "emb_at st i = rbind (idx_vec (l_providers st) i) (\<lambda>p. case p of PromptEmbeds e \<Rightarrow> Inr e | _ \<Rightarrow> Inl UndefinedBehaviour)"

definition mrope_at :: "vlm \<Rightarrow> nat \<Rightarrow> mrope res" where
  "mrope_at st i = rbind (idx_vec (l_providers st) i) (\<lambda>p. case p of MRoPEProvider r \<Rightarrow> Inr r | _ \<Rightarrow> Inl UndefinedBehaviour)"

definition deepstack_at :: "vlm \<Rightarrow> nat \<Rightarrow> deepstack res" where
  "deepstack_at st i = rbind (idx_vec (l_providers st) i) (\<lambda>p. case p of DeepstackProvider d \<Rightarrow> Inr d | _ \<Rightarrow> Inl UndefinedBehaviour)"

definition set_provider :: "nat \<Rightarrow> vlm_provider \<Rightarrow> vlm \<Rightarrow> vlm" where
  "set_provider i p st = st\<lparr> l_providers := (l_providers st)[i := p] \<rparr>"

text \<open>The row counter and the embeddings after one token.\<close>

definition scatter_row :: "f32 list \<Rightarrow> int list \<Rightarrow> int \<Rightarrow> nat \<Rightarrow> nat \<Rightarrow> nat \<times> f32 list \<Rightarrow> (nat \<times> f32 list) res" where
  "scatter_row mm ids target hidden i = (\<lambda>(src_row, embeds).
     if ids ! i = target
     then rbind (buf_load (src_row * hidden) hidden mm) (\<lambda>row.
          rbind (buf_store (i * hidden) row embeds) (\<lambda>embeds. Inr (src_row + 1, embeds)))
     else Inr (src_row, embeds))"

definition maskedScatter :: "f32 list \<Rightarrow> int list \<Rightarrow> int \<Rightarrow> nat \<Rightarrow> f32 list \<Rightarrow> f32 list res" where
  "maskedScatter mm ids target hidden embeds =
     rbind (rfor (scatter_row mm ids target hidden) [0..<length ids] (0, embeds)) (\<lambda>(_, embeds). Inr embeds)"

text \<open>A run of the encoder inside the model.\<close>

definition with_vit :: "(vit, 'b) sx \<Rightarrow> (vlm, 'b) sx" where
  "with_vit f = (\<lambda>st. case f (vm_vit st) of (r, v) \<Rightarrow> (r, st\<lparr> vm_vit := v \<rparr>))"

definition encodeVision :: "libm \<Rightarrow> (graph \<Rightarrow> mem \<Rightarrow> bool \<times> mem) \<Rightarrow> pixel_data \<Rightarrow> (vlm, f32 list) sx" where
  "encodeVision lm ex px = swith (\<lambda>st. case vm_family st of
       Qwen25VL \<Rightarrow> with_vit (qwen25_encode lm ex px)
     | Qwen3VL \<Rightarrow> sbind (with_vit (qwen3_encode lm ex px)) (\<lambda>features.
         sthen (case vm_deepstack st of None \<Rightarrow> sret ()
           | Some i \<Rightarrow> supd (\<lambda>st. rbind (deepstack_at st i) (\<lambda>d.
               Inr (set_provider i (DeepstackProvider (setEmbeds (vi_embeds (vm_vit st)) (sp_hidden_size (l_spec st)) d)) st))))
           (sret features)))"

definition visual_mask :: "int \<Rightarrow> int list \<Rightarrow> u8 list" where
  "visual_mask img ids = map (\<lambda>t. if t = img then 1 else 0) ids"

definition prepare_deepstack :: "int list \<Rightarrow> nat \<Rightarrow> vlm \<Rightarrow> vlm res" where
  "prepare_deepstack ids n_past st =
     (case (vm_family st, vm_deepstack st) of
        (Qwen3VL, Some i) \<Rightarrow> rbind (deepstack_at st i) (\<lambda>d.
          Inr (set_provider i (DeepstackProvider (setVisualMask (visual_mask (vm_image st) ids) n_past d)) st))
      | _ \<Rightarrow> Inr st)"

definition shifted_positions :: "nat \<Rightarrow> int list \<Rightarrow> nat \<Rightarrow> int list \<Rightarrow> int list" where
  "shifted_positions n_past deltas seq_len pos =
     concat (map (\<lambda>d. map (\<lambda>t. pos ! (d * seq_len + t) + to_i32 (int n_past) + deltas ! d) [0..<seq_len]) [0..<3])"

definition prepare_mrope :: "libm \<Rightarrow> int list \<Rightarrow> image_grid list \<Rightarrow> nat \<Rightarrow> vlm \<Rightarrow> vlm res" where
  "prepare_mrope lm ids grids n_past st =
     (case vm_mrope st of None \<Rightarrow> Inr st
      | Some i \<Rightarrow>
        rbind (computeMRoPEPositions \<lparr> mp_ids = ids, mp_grids = grids, mp_audio = [], mp_merge = vm_merge st,
                 mp_vision_start = vm_vision_start st, mp_image = vm_image st, mp_audio_start = 0, mp_audio_token = 0 \<rparr>) (\<lambda>mo.
        let pos = shifted_positions n_past (vm_deltas st) (length ids) (mo_ids mo);
            deltas = map2 (+) (vm_deltas st) (mo_deltas mo)
        in rbind (mrope_at st i) (\<lambda>r.
           rbind (setPositionIds lm pos (length ids) n_past r) (\<lambda>r.
             Inr ((set_provider i (MRoPEProvider (setMropeDeltas deltas r)) st)\<lparr> vm_deltas := deltas \<rparr>)))))"

definition preparePositions :: "libm \<Rightarrow> int list \<Rightarrow> image_grid list \<Rightarrow> nat \<Rightarrow> vlm \<Rightarrow> vlm res" where
  "preparePositions lm ids grids n_past st =
     rbind (prepare_deepstack ids n_past st) (prepare_mrope lm ids grids n_past)"

definition clearPositions :: "vlm \<Rightarrow> vlm res" where
  "clearPositions st =
     rbind (case vm_mrope st of None \<Rightarrow> Inr st
            | Some i \<Rightarrow> rbind (mrope_at st i) (\<lambda>r. Inr (set_provider i (MRoPEProvider (clearPositionIds r)) st))) (\<lambda>st.
       case (vm_family st, vm_deepstack st) of
         (Qwen3VL, Some i) \<Rightarrow> rbind (deepstack_at st i) (\<lambda>d. Inr (set_provider i (DeepstackProvider (deepstack_clear d)) st))
       | _ \<Rightarrow> Inr st)"

definition prompt_embeddings :: "libm \<Rightarrow> (graph \<Rightarrow> mem \<Rightarrow> bool \<times> mem) \<Rightarrow> nat \<Rightarrow> int list \<Rightarrow> pixel_data \<Rightarrow> (vlm, f32 list) sx" where
  "prompt_embeddings lm ex i prompt px = swith (\<lambda>st.
     sbind (slift (rbind (emb_at st i) (\<lambda>e. lookupBatch e prompt))) (\<lambda>text.
       if prompt = [] then sthrow UndefinedBehaviour
       else let hidden = length text div length prompt in
         if px_values px = [] then sret text
         else sbind (encodeVision lm ex px) (\<lambda>vision. slift (maskedScatter vision prompt (vm_image st) hidden text))))"

definition vlm_generate :: "libm \<Rightarrow> vlm_provider env \<Rightarrow> gen_config \<Rightarrow> (int list \<Rightarrow> bool) \<Rightarrow> int list \<Rightarrow> pixel_data \<Rightarrow> (vlm, int list) sx" where
  "vlm_generate lm env cfg cb prompt px = swith (\<lambda>st. case vm_emb st of
       None \<Rightarrow> sthrow (RuntimeError ''no embedding provider registered'')
     | Some i \<Rightarrow>
       sbind (prompt_embeddings lm (e_exec env) i prompt px) (\<lambda>embeds.
       sthen (supd (\<lambda>st. rbind (emb_at st i) (\<lambda>e. Inr (set_provider i (PromptEmbeds (setBuffer embeds (l_n_past st) e)) st))))
      (sthen (supd (\<lambda>st. preparePositions lm prompt (px_grids px) (l_n_past st) st))
      (sbind (generate env cfg cb prompt) (\<lambda>out.
       sthen (supd (\<lambda>st. rbind (emb_at st i) (\<lambda>e. Inr (set_provider i (PromptEmbeds (clearBuffer e)) st))))
      (sthen (supd clearPositions) (sret out)))))))"

text \<open>Only the Qwen3 model overrides the reset.\<close>

definition vlm_resetKVCache :: "(vlm, unit) sx" where
  "vlm_resetKVCache = swith (\<lambda>st. case vm_family st of
       Qwen25VL \<Rightarrow> resetKVCache
     | Qwen3VL \<Rightarrow> sthen resetKVCache (sthen (supd clearPositions)
        (supd (\<lambda>st. case vm_mrope st of
             None \<Rightarrow> Inr (st\<lparr> vm_deltas := [0, 0, 0] \<rparr>)
           | Some i \<Rightarrow> rbind (mrope_at st i) (\<lambda>r.
               Inr ((set_provider i (MRoPEProvider (resetMropeDeltas r)) st)\<lparr> vm_deltas := [0, 0, 0] \<rparr>))))))"

section \<open>Image rows in the prompt\<close>

definition count_before :: "'b \<Rightarrow> 'b list \<Rightarrow> nat \<Rightarrow> nat" where
  "count_before x xs i = length (filter (\<lambda>y. y = x) (take i xs))"

lemma count_before_Suc: "i < length xs \<Longrightarrow> count_before x xs (Suc i) = count_before x xs i + (if xs ! i = x then 1 else 0)"
  by (simp add: count_before_def take_Suc_conv_app_nth)

lemma count_before_mono: "i \<le> j \<Longrightarrow> count_before x xs i \<le> count_before x xs j"
  unfolding count_before_def by (metis le_add1 filter_append length_append take_add le_add_diff_inverse)

lemma row_fits: "i < n \<Longrightarrow> i * k + k \<le> n * (k :: nat)"
  using mult_le_mono1 [of "Suc i" n k] by simp

lemma rows_apart: "i \<noteq> j \<Longrightarrow> i * k + k \<le> j * k \<or> j * k + k \<le> i * (k :: nat)"
  using row_fits [of i j k] row_fits [of j i k] by (cases "i < j") auto

lemma scatter_rows:
  assumes "length embeds = length ids * hidden" "count_before target ids (length ids) * hidden \<le> length mm" "k \<le> length ids"
  shows "\<exists>out. rfor (scatter_row mm ids target hidden) [0..<k] (0, embeds) = Inr (count_before target ids k, out)
    \<and> length out = length embeds
    \<and> (\<forall>i < length ids. slice (i * hidden) hidden out =
         (if i < k \<and> ids ! i = target then slice (count_before target ids i * hidden) hidden mm else slice (i * hidden) hidden embeds))"
  using assms(3)
proof (induction k)
  case 0
  then show ?case by (simp add: count_before_def)
next
  case (Suc k)
  then obtain out where o: "rfor (scatter_row mm ids target hidden) [0..<k] (0, embeds) = Inr (count_before target ids k, out)"
    "length out = length embeds"
    "\<forall>i < length ids. slice (i * hidden) hidden out =
         (if i < k \<and> ids ! i = target then slice (count_before target ids i * hidden) hidden mm else slice (i * hidden) hidden embeds)" by auto
  have k: "k < length ids" using Suc.prems by simp
  note cs = count_before_Suc [OF k, of target]
  show ?case
  proof (cases "ids ! k = target")
    case False
    then have "scatter_row mm ids target hidden k (count_before target ids k, out) = Inr (count_before target ids (Suc k), out)"
      using cs by (simp add: scatter_row_def)
    then show ?thesis using o False by (auto simp: rfor_append less_Suc_eq)
  next
    case True
    let ?c = "count_before target ids k" and ?row = "slice (count_before target ids k * hidden) hidden mm"
    have "Suc ?c \<le> count_before target ids (length ids)" using cs True count_before_mono [of "Suc k" "length ids" target ids] k by simp
    then have "?c * hidden + hidden \<le> length mm" using assms(2) row_fits [of ?c "count_before target ids (length ids)" hidden] by simp
    then have row: "buf_load (?c * hidden) hidden mm = Inr ?row" "length ?row = hidden" by (simp_all add: buf_load_def length_slice)
    have fit: "k * hidden + hidden \<le> length out" using row_fits [OF k] o(2) assms(1) by simp
    let ?out = "blit (k * hidden) ?row out"
    have "scatter_row mm ids target hidden k (?c, out) = Inr (Suc ?c, ?out)"
      using True row fit by (simp add: scatter_row_def buf_store_def)
    moreover have "length ?out = length embeds" using fit row(2) o(2) by (simp add: length_blit)
    moreover have "slice (i * hidden) hidden ?out =
        (if i < Suc k \<and> ids ! i = target then slice (count_before target ids i * hidden) hidden mm else slice (i * hidden) hidden embeds)"
      if i: "i < length ids" for i
    proof (cases "i = k")
      case True
      then show ?thesis using slice_blit_same [of "k * hidden" out ?row] fit row(2) \<open>ids ! k = target\<close> by simp
    next
      case False
      have "i * hidden + hidden \<le> length out" using row_fits [OF i] o(2) assms(1) by simp
      then have "slice (i * hidden) hidden ?out = slice (i * hidden) hidden out"
        using rows_apart [OF False, of hidden] fit row(2) by (intro slice_blit_other) auto
      then show ?thesis using o(3) i False by (auto simp: less_Suc_eq)
    qed
    ultimately show ?thesis using o(1) cs True by (auto simp: rfor_append)
  qed
qed

section \<open>Rows of a chunk\<close>

lemma chunk_rows_prompt:
  assumes "length embeds = n * hidden" "k + c \<le> n"
  shows "chunk_rows (off + k) off hidden c embeds = Inr (slice (k * hidden) (c * hidden) embeds)"
  using mult_le_mono1 [OF assms(2), of hidden] assms(1) by (simp add: chunk_rows_def buf_load_def add_mult_distrib)

section \<open>The encoder's rows in natural order\<close>

lemma unwindow_rows:
  assumes q: "length q = n" "\<forall>i < n. q ! i < n" and n: "n \<le> 2 ^ 64"
    and l: "length tokens = n * hidden" "slot + n * hidden \<le> length out"
  shows "\<exists>out'. unwindow hidden (map int q) tokens slot out = Inr out' \<and> length out' = length out
    \<and> (\<forall>i < n. slice (slot + i * hidden) hidden out' = slice (q ! i * hidden) hidden tokens)
    \<and> (\<forall>j < length out. j < slot \<or> slot + n * hidden \<le> j \<longrightarrow> out' ! j = out ! j)"
proof -
  let ?f = "\<lambda>i out. rbind (buf_load (to_size (map int q ! i) * hidden) hidden tokens) (\<lambda>row. buf_store (slot + i * hidden) row out)"
  have "\<exists>out'. rfor ?f [0..<k] out = Inr out' \<and> length out' = length out
      \<and> (\<forall>i < k. slice (slot + i * hidden) hidden out' = slice (q ! i * hidden) hidden tokens)
      \<and> (\<forall>j < length out. j < slot \<or> slot + n * hidden \<le> j \<longrightarrow> out' ! j = out ! j)" if "k \<le> n" for k
    using that
  proof (induction k)
    case (Suc k)
    then obtain o1 where o: "rfor ?f [0..<k] out = Inr o1" "length o1 = length out"
      "\<forall>i < k. slice (slot + i * hidden) hidden o1 = slice (q ! i * hidden) hidden tokens"
      "\<forall>j < length out. j < slot \<or> slot + n * hidden \<le> j \<longrightarrow> o1 ! j = out ! j" by auto
    have k: "k < n" "q ! k < n" using Suc.prems q(2) by simp_all
    let ?row = "slice (q ! k * hidden) hidden tokens"
    have row: "buf_load (to_size (map int q ! k) * hidden) hidden tokens = Inr ?row" "length ?row = hidden"
      using k n q(1) row_fits [OF k(2), of hidden] l(1) by (simp_all add: to_size_int buf_load_def length_slice)
    have fit: "slot + k * hidden + hidden \<le> length o1" "slot + k * hidden + hidden \<le> slot + n * hidden"
      using row_fits [OF k(1), of hidden] l(2) o(2) by simp_all
    let ?o = "blit (slot + k * hidden) ?row o1"
    have "?f k o1 = Inr ?o" using row fit by (simp add: buf_store_def)
    moreover have "slice (slot + i * hidden) hidden ?o = slice (q ! i * hidden) hidden tokens" if "i < Suc k" for i
    proof (cases "i = k")
      case True
      then show ?thesis using slice_blit_same [of "slot + k * hidden" o1 ?row] fit row(2) by simp
    next
      case False
      then have "slot + i * hidden + hidden \<le> length o1" using that row_fits [of i k hidden] fit(1) by simp
      then have "slice (slot + i * hidden) hidden ?o = slice (slot + i * hidden) hidden o1"
        using rows_apart [OF False, of hidden] fit row(2) by (intro slice_blit_other) auto
      then show ?thesis using o(3) that False by simp
    qed
    moreover have "?o ! j = out ! j" if "j < length out" "j < slot \<or> slot + n * hidden \<le> j" for j
      using that fit row(2) o(2,4) by (auto simp: nth_blit)
    ultimately show ?case using o(1,2) fit row(2) by (auto simp: rfor_append length_blit)
  qed simp
  from this [of n] q(1) show ?thesis by (simp add: unwindow_def)
qed

text \<open>
  Whatever row the encoder computes for a group, it ends where the group lies in the image:
  the encoder works on the groups in the order of the windows.
\<close>

lemma unwindow_natural:
  assumes p: "is_perm n p" "reverseWindowIndex (map int p) = Inr rev_idx" and n: "n \<le> 2 ^ 64"
    and l: "length tokens = n * hidden" "slot + n * hidden \<le> length out"
    and g: "\<forall>i < n. slice (i * hidden) hidden tokens = G (p ! i)"
  shows "\<exists>out'. unwindow hidden rev_idx tokens slot out = Inr out' \<and> length out' = length out
    \<and> (\<forall>i < n. slice (slot + i * hidden) hidden out' = G i)
    \<and> (\<forall>j < length out. j < slot \<or> slot + n * hidden \<le> j \<longrightarrow> out' ! j = out ! j)"
proof -
  obtain q where q: "rev_idx = map int q" "is_perm n q" "\<forall>i < n. p ! (q ! i) = i"
    using reverse_perm [OF p(1) n] p(2) by auto
  then have "length q = n" "\<forall>i < n. q ! i < n" using is_perm_nth by (auto simp: is_perm_def)
  from unwindow_rows [OF this n l] show ?thesis using q g \<open>\<forall>i < n. q ! i < n\<close> by auto
qed

section \<open>Positions of a prompt and of the tokens after it\<close>

lemma mrope_at_set [simp]: "i < length (l_providers st) \<Longrightarrow> mrope_at (set_provider i (MRoPEProvider r) st) i = Inr r"
  by (simp add: mrope_at_def set_provider_def idx_vec_def)

lemma mrope_at_InrD: "mrope_at st i = Inr r \<Longrightarrow> i < length (l_providers st) \<and> l_providers st ! i = MRoPEProvider r"
  by (auto simp: mrope_at_def idx_vec_def split: if_splits vlm_provider.splits)

lemma mrope_at_more [simp]: "mrope_at (st\<lparr> vm_deltas := ds \<rparr>) i = mrope_at st i"
  by (simp add: mrope_at_def)

definition axis_of :: "int \<times> int \<times> int \<Rightarrow> nat \<Rightarrow> int" where
  "axis_of q d = (if d = 0 then fst q else if d = 1 then fst (snd q) else snd (snd q))"

lemma flat3_nth: "d < 3 \<Longrightarrow> t < length ps \<Longrightarrow> flat3 ps ! (d * length ps + t) = axis_of (ps ! t) d"
proof -
  assume t: "t < length ps" and "d < 3"
  then consider "d = 0" | "d = 1" | "d = 2" by linarith
  then show ?thesis using t by cases (simp_all add: flat3_def axis_of_def nth_append)
qed

lemma nth_concat_rows:
  assumes "d < n" "t < k"
  shows "concat (map (\<lambda>d. map (f d) [0..<k]) [0..<n]) ! (d * k + t) = f d t"
proof -
  have "slice (d * k) k (concat (map (\<lambda>d. map (f d) [0..<k]) [0..<n])) = map (f d) [0..<k]"
    by (intro slice_concat_rows [where g = "\<lambda>d. map (f d) [0..<k]", OF _ assms(1)]) simp
  then have "slice (d * k) k (concat (map (\<lambda>d. map (f d) [0..<k]) [0..<n])) ! t = f d t" using assms(2) by simp
  moreover have "length (concat (map (\<lambda>d. map (f d) [0..<k]) [0..<n])) = n * k"
    by (simp add: length_concat comp_def sum_list_triv)
  ultimately show ?thesis using row_fits [OF assms(1), of k] assms(2) by (simp add: nth_slice)
qed

lemma to_i32_small: "int k < 2 ^ 31 \<Longrightarrow> to_i32 (int k) = int k"
  by (rule to_i32_id) simp_all

lemma last_axis_mem: "last_axis t f cs a = Some x \<Longrightarrow> a = Some x \<or> (\<exists>t i. (x, t, i) \<in> set cs)"
proof (induction cs arbitrary: a)
  case (Cons c cs)
  obtain d t' i' where c: "c = (d, t', i')" by (cases c)
  show ?case using Cons.IH [of "if t' = t \<and> i' = f then Some d else a"] Cons.prems by (auto simp: c split: if_splits)
qed simp

text \<open>What preparing the positions of a prompt leaves in the provider.\<close>

lemma prepare_mrope_run:
  assumes m: "vm_mrope st = Some i" "mrope_at st i = Inr r" "mrope_ok r"
    and c: "vm_merge st = m" "0 < m" "vm_vision_start st = vs" "vm_image st = img" "vm_deltas st = [d, d, d]"
    and s: "\<forall>s \<in> set ss. seg_ok vs s" "ids = segs_tokens vs img ss" "ids \<noteq> []"
    and n: "int n_past < 2 ^ 31"
  shows "\<exists>st' r'. prepare_mrope lm ids (seg_grids m ss) n_past st = Inr st' \<and> vm_mrope st' = Some i \<and> mrope_at st' i = Inr r'
    \<and> mr_prefill r' \<and> mr_offset r' = n_past \<and> mr_half r' = mr_half r \<and> mr_inv_freq r' = mr_inv_freq r
    \<and> mr_deltas r' = vm_deltas st' \<and> mr_section r' = mr_section r \<and> mr_style r' = mr_style r
    \<and> vm_deltas st' = replicate 3 (d + Max (set (map fst (segs_positions 0 ss))) + 1 - int (length ids))
    \<and> (\<forall>t < length ids. \<forall>f < mr_half r.
         (let a = f64_mul (f64_of_int (axis_of (segs_positions 0 ss ! t) (mrope_axis r f) + int n_past + d)) (mr_inv_freq r ! f)
          in mr_cos r' ! (t * mr_half r + f) = m_cos lm a \<and> mr_sin r' ! (t * mr_half r + f) = m_sin lm a))"
proof -
  let ?ps = "segs_positions 0 ss" and ?n = "length ids"
  have len: "length ?ps = ?n" using length_segs_positions s(2) by simp
  let ?delta = "Max (set (map fst ?ps)) + 1 - int ?n"
  have mo: "computeMRoPEPositions (prompt_of m vs img ss) = Inr \<lparr> mo_ids = flat3 ?ps, mo_deltas = replicate 3 ?delta \<rparr>"
    using mrope_of_segments [OF c(2) s(1)] s(2,3) by simp
  let ?pos = "shifted_positions n_past [d, d, d] ?n (flat3 ?ps)"
  have i32: "to_i32 (int n_past) = int n_past" by (rule to_i32_small [OF n])
  have pos: "?pos ! (a * ?n + t) = axis_of (?ps ! t) a + int n_past + d" if "a < 3" "t < ?n" for a t
  proof -
    consider "a = 0" | "a = 1" | "a = 2" using \<open>a < 3\<close> by linarith
    then have "[d, d, d] ! a = d" by cases simp_all
    then show ?thesis
      unfolding shifted_positions_def nth_concat_rows [OF that] using flat3_nth [of a t ?ps] that len i32 by simp
  qed
  have lp: "length ?pos = 3 * ?n" by (simp add: shifted_positions_def length_concat comp_def sum_list_triv)
  have ax: "mrope_axis r f < 3" if "f < mr_half r" for f
  proof -
    have "last_axis 0 f (mrope_cells r 1) None = Some (mrope_axis r f)" using mrope_cells_ok(2) [OF m(3), of 0 1 f] that by simp
    then obtain t i where "(mrope_axis r f, t, i) \<in> set (mrope_cells r 1)" using last_axis_mem by blast
    then show ?thesis using mrope_cells_ok(1) [OF m(3), of 1] by blast
  qed
  obtain cs sn where t: "fillCosSin lm r ?pos ?n (mr_cos r, mr_sin r) = Inr (cs, sn)"
    "\<forall>t < ?n. \<forall>f < mr_half r. (let a = f64_mul (f64_of_int (?pos ! (mrope_axis r f * ?n + t))) (mr_inv_freq r ! f)
          in cs ! (t * mr_half r + f) = m_cos lm a \<and> sn ! (t * mr_half r + f) = m_sin lm a)"
    using fillCosSin_ok [OF m(3), of ?n ?pos lm "(mr_cos r, mr_sin r)"] lp by auto
  note i = mrope_at_InrD [OF m(2)]
  let ?r = "r\<lparr> mr_cos := cs, mr_sin := sn, mr_seq_len := ?n, mr_offset := n_past, mr_prefill := True \<rparr>"
  have ds: "map2 (+) [d, d, d] (replicate 3 ?delta) = replicate 3 (d + ?delta)" by (simp add: eval_nat_numeral)
  let ?r' = "setMropeDeltas (replicate 3 (d + ?delta)) ?r"
  let ?st = "(set_provider i (MRoPEProvider ?r') st)\<lparr> vm_deltas := replicate 3 (d + ?delta) \<rparr>"
  have "prepare_mrope lm ids (seg_grids m ss) n_past st = Inr ?st"
    using mo t(1) c m ds s(2) by (simp add: prepare_mrope_def prompt_of_def setPositionIds_def Let_def)
  moreover have "mrope_at ?st i = Inr ?r'" using i by simp
  moreover have "vm_mrope ?st = Some i" using m(1) by (simp add: set_provider_def)
  moreover have "\<forall>t < ?n. \<forall>f < mr_half r.
      (let a = f64_mul (f64_of_int (axis_of (?ps ! t) (mrope_axis r f) + int n_past + d)) (mr_inv_freq r ! f)
       in mr_cos ?r' ! (t * mr_half r + f) = m_cos lm a \<and> mr_sin ?r' ! (t * mr_half r + f) = m_sin lm a)"
    using t(2) pos ax by (simp add: Let_def setMropeDeltas_def)
  ultimately show ?thesis by (intro exI [of _ ?st] exI [of _ ?r']) (simp add: setMropeDeltas_def algebra_simps)
qed

lemma decode_positions_run:
  assumes "int (n_past + n) < 2 ^ 31"
  shows "decode_positions (replicate 3 (d + e + 1 - int n)) (n_past + n) k
    = concat (replicate 3 (map (\<lambda>t. int n_past + d + e + 1 + int t) [0..<k]))"
proof -
  have "to_i32 (int n_past + int n) = int n_past + int n" using to_i32_small [of "n_past + n"] assms by simp
  then show ?thesis by (simp add: decode_positions_def eval_nat_numeral algebra_simps)
qed

section \<open>Resetting a conversation\<close>

lemma initKVBuffers_mem_only: "steps_in mem_only initKVBuffers"
  unfolding initKVBuffers_def by (intro steps) (auto simp: mem_only_def forget_mem_def)

lemma resetKVCache_fields:
  assumes "resetKVCache st = (r, st' :: vlm)"
  shows "l_n_past st' = 0" "l_providers st' = l_providers st" "vm_deltas st' = vm_deltas st" "vm_family st' = vm_family st"
    "vm_mrope st' = vm_mrope st" "vm_deepstack st' = vm_deepstack st" "l_history st' = []"
proof -
  let ?st = "st\<lparr> l_n_past := 0, l_active_cl := 0, l_history := [], l_sampler := None, l_sampler_cfg_valid := False \<rparr>"
  have "initKVBuffers ?st = (r, st')" using assms by (simp add: resetKVCache_def sx_simps sthen_run)
  then have f: "forget_mem st' = forget_mem ?st" using steps_inD [OF initKVBuffers_mem_only] by (simp add: mem_only_def)
  from arg_cong [OF f, of l_n_past] arg_cong [OF f, of l_providers] arg_cong [OF f, of vm_deltas] arg_cong [OF f, of vm_family]
    arg_cong [OF f, of vm_mrope] arg_cong [OF f, of vm_deepstack] arg_cong [OF f, of l_history]
  show "l_n_past st' = 0" "l_providers st' = l_providers st" "vm_deltas st' = vm_deltas st" "vm_family st' = vm_family st"
    "vm_mrope st' = vm_mrope st" "vm_deepstack st' = vm_deepstack st" "l_history st' = []"
    by (simp_all add: forget_mem_def)
qed

lemma qwen25_reset:
  assumes "vm_family st = Qwen25VL" "vlm_resetKVCache st = (Inr (), st')"
  shows "l_n_past st' = 0 \<and> l_history st' = [] \<and> vm_deltas st' = vm_deltas st \<and> l_providers st' = l_providers st"
  using assms resetKVCache_fields [of st "Inr ()" st'] by (simp add: vlm_resetKVCache_def sx_simps)

lemma qwen3_reset:
  assumes "vm_family st = Qwen3VL" "vlm_resetKVCache st = (Inr (), st')" "vm_mrope st = Some i"
  shows "l_n_past st' = 0 \<and> l_history st' = [] \<and> vm_deltas st' = [0, 0, 0] \<and> (\<exists>r. mrope_at st' i = Inr r \<and> mr_deltas r = [0, 0, 0])"
proof -
  obtain st1 where 1: "resetKVCache st = (Inr (), st1)" and rest: "sthen (supd clearPositions)
        (supd (\<lambda>st. case vm_mrope st of
             None \<Rightarrow> Inr (st\<lparr> vm_deltas := [0, 0, 0] \<rparr>)
           | Some i \<Rightarrow> rbind (mrope_at st i) (\<lambda>r.
               Inr ((set_provider i (MRoPEProvider (resetMropeDeltas r)) st)\<lparr> vm_deltas := [0, 0, 0] \<rparr>)))) st1 = (Inr (), st')"
    using assms(1,2) unfolding vlm_resetKVCache_def sx_simps by (auto elim: sthen_InrE)
  note f = resetKVCache_fields [OF 1]
  obtain st2 where 2: "clearPositions st1 = Inr st2" and 3: "(case vm_mrope st2 of
             None \<Rightarrow> Inr (st2\<lparr> vm_deltas := [0, 0, 0] \<rparr>)
           | Some i \<Rightarrow> rbind (mrope_at st2 i) (\<lambda>r.
               Inr ((set_provider i (MRoPEProvider (resetMropeDeltas r)) st2)\<lparr> vm_deltas := [0, 0, 0] \<rparr>))) = Inr st'"
    using rest by (auto simp: sthen_run supd_def split: prod.splits sum.splits)
  have c: "l_n_past st2 = l_n_past st1" "l_history st2 = l_history st1" "vm_mrope st2 = vm_mrope st1"
    using 2 by (auto simp: clearPositions_def set_provider_def split: option.splits vlm_family.splits)
  from 3 c f(5) assms(3) obtain r where "mrope_at st2 i = Inr r"
    "st' = (set_provider i (MRoPEProvider (resetMropeDeltas r)) st2)\<lparr> vm_deltas := [0, 0, 0] \<rparr>" by auto
  moreover from this have "i < length (l_providers st2)" using mrope_at_InrD by blast
  ultimately have "mrope_at st' i = Inr (resetMropeDeltas r)" "l_n_past st' = l_n_past st2" "l_history st' = l_history st2" "vm_deltas st' = [0, 0, 0]"
    by (simp_all add: set_provider_def [of i "MRoPEProvider (resetMropeDeltas r)"] mrope_at_def idx_vec_def)
  then show ?thesis using c(1,2) f(1,7) by (simp add: resetMropeDeltas_def)
qed

section \<open>A whole call\<close>

text \<open>What a vision-language model does besides generating leaves the text state alone.\<close>

definition text_kept :: "vlm \<Rightarrow> vlm \<Rightarrow> bool" where
  "text_kept st st' \<longleftrightarrow> l_spec st' = l_spec st \<and> l_history st' = l_history st \<and> l_n_past st' = l_n_past st
     \<and> vm_emb st' = vm_emb st \<and> vm_deltas st' = vm_deltas st \<and> vm_mrope st' = vm_mrope st \<and> vm_family st' = vm_family st
     \<and> vm_deepstack st' = vm_deepstack st"

lemma text_kept_preorder [steps]: "preorder text_kept"
  by (auto simp: preorder_def text_kept_def)

lemma text_kept_set [simp]: "text_kept st (set_provider i p st)"
  by (simp add: text_kept_def set_provider_def)

lemma with_vit_kept: "steps_in text_kept (with_vit f)"
  by (auto simp: steps_in_def with_vit_def text_kept_def split: prod.splits)

lemma encodeVision_kept: "steps_in text_kept (encodeVision lm ex px)"
  unfolding encodeVision_def
  by (intro steps_in_swith) (auto split: vlm_family.split intro!: steps with_vit_kept)

lemma prompt_embeddings_kept: "steps_in text_kept (prompt_embeddings lm ex i prompt px)"
  unfolding prompt_embeddings_def Let_def by (intro steps encodeVision_kept)


text \<open>The encoder leaves even more alone: what it may change is the vision model it runs in and what
  is in a deepstack provider. The memory of the language model, with the cache, is neither.\<close>

definition provider_kept :: "vlm_provider \<Rightarrow> vlm_provider \<Rightarrow> bool" where
  "provider_kept p q \<longleftrightarrow> q = p \<or> (\<exists>d e. p = DeepstackProvider d \<and> q = DeepstackProvider e)"

definition encoder_kept :: "vlm \<Rightarrow> vlm \<Rightarrow> bool" where
  "encoder_kept st st' \<longleftrightarrow>
     (\<exists>v ps. st' = st\<lparr> vm_vit := v, l_providers := ps \<rparr> \<and> list_all2 provider_kept (l_providers st) ps)"

lemma provider_kept_trans: "provider_kept p q \<Longrightarrow> provider_kept q r \<Longrightarrow> provider_kept p r"
  by (auto simp: provider_kept_def)

lemma provider_kept_refl: "list_all2 provider_kept ps ps"
  by (rule list_all2_refl) (simp add: provider_kept_def)

lemma encoder_keptI: "list_all2 provider_kept (l_providers st) ps \<Longrightarrow> encoder_kept st (st\<lparr> vm_vit := v, l_providers := ps \<rparr>)"
  by (auto simp: encoder_kept_def)

lemma encoder_kept_preorder [steps]: "preorder encoder_kept"
  unfolding preorder_def
proof (intro conjI allI impI)
  fix st show "encoder_kept st st"
    using encoder_keptI [of st "l_providers st" "vm_vit st"] provider_kept_refl by simp
next
  fix st st1 st2 assume "encoder_kept st st1" "encoder_kept st1 st2"
  then obtain v1 ps1 v2 ps2 where 1: "st1 = st\<lparr> vm_vit := v1, l_providers := ps1 \<rparr>" "list_all2 provider_kept (l_providers st) ps1"
    and 2: "st2 = st1\<lparr> vm_vit := v2, l_providers := ps2 \<rparr>" "list_all2 provider_kept ps1 ps2" by (auto simp: encoder_kept_def)
  have "list_all2 provider_kept (l_providers st) ps2" by (rule list_all2_trans [OF provider_kept_trans 1(2) 2(2)])
  then show "encoder_kept st st2" using encoder_keptI [of st ps2 v2] 1(1) 2(1) by simp
qed

lemma encoder_kept_vit: "steps_in encoder_kept (with_vit f)"
  using encoder_keptI [OF provider_kept_refl] by (auto simp: steps_in_def with_vit_def split: prod.splits)

lemma encoder_kept_deepstack:
  assumes "deepstack_at st i = Inr d"
  shows "encoder_kept st (set_provider i (DeepstackProvider e) st)"
proof -
  have i: "i < length (l_providers st)" "l_providers st ! i = DeepstackProvider d"
    using assms by (auto simp: deepstack_at_def idx_vec_def split: if_splits vlm_provider.splits)
  then have "provider_kept (l_providers st ! k) ((l_providers st)[i := DeepstackProvider e] ! k)" if "k < length (l_providers st)" for k
    using that by (cases "k = i") (auto simp: provider_kept_def)
  then have "list_all2 provider_kept (l_providers st) ((l_providers st)[i := DeepstackProvider e])"
    by (simp add: list_all2_conv_all_nth)
  from encoder_keptI [OF this, of "vm_vit st"] show ?thesis by (simp add: set_provider_def)
qed

lemma encodeVision_encoder: "steps_in encoder_kept (encodeVision lm ex px)"
  unfolding encodeVision_def
  by (intro steps_in_swith)
    (auto split: vlm_family.split option.split intro!: steps encoder_kept_vit elim!: rbind_InrE intro: encoder_kept_deepstack)

lemma prompt_embeddings_encoder: "steps_in encoder_kept (prompt_embeddings lm ex i prompt px)"
  unfolding prompt_embeddings_def Let_def by (intro steps encodeVision_encoder)

lemma encoder_kept_provider:
  assumes "encoder_kept st st'"
  shows "emb_at st i = Inr e \<Longrightarrow> emb_at st' i = Inr e" "mrope_at st i = Inr r \<Longrightarrow> mrope_at st' i = Inr r"
    "deepstack_at st i = Inr d \<Longrightarrow> \<exists>d'. deepstack_at st' i = Inr d'"
proof -
  have "length (l_providers st') = length (l_providers st)"
    "i < length (l_providers st) \<Longrightarrow> provider_kept (l_providers st ! i) (l_providers st' ! i)"
    using assms by (auto simp: encoder_kept_def list_all2_conv_all_nth)
  then show "emb_at st i = Inr e \<Longrightarrow> emb_at st' i = Inr e" "mrope_at st i = Inr r \<Longrightarrow> mrope_at st' i = Inr r"
    "deepstack_at st i = Inr d \<Longrightarrow> \<exists>d'. deepstack_at st' i = Inr d'"
    by (auto simp: emb_at_def mrope_at_def deepstack_at_def idx_vec_def provider_kept_def split: if_splits vlm_provider.splits)
qed

lemma prompt_embeddings_found:
  "prompt_embeddings lm ex i prompt px st = (Inr embeds, st1) \<Longrightarrow> \<exists>e. emb_at st i = Inr e"
  by (cases "emb_at st i") (auto simp: prompt_embeddings_def sx_simps sbind_run)

lemma emb_at_set [simp]: "i < length (l_providers st) \<Longrightarrow> emb_at (set_provider i (PromptEmbeds e) st) i = Inr e"
  by (simp add: emb_at_def set_provider_def idx_vec_def)

lemma emb_at_InrD: "emb_at st i = Inr e \<Longrightarrow> i < length (l_providers st) \<and> l_providers st ! i = PromptEmbeds e"
  by (auto simp: emb_at_def idx_vec_def split: if_splits vlm_provider.splits)

lemma mrope_at_other: "emb_at st i = Inr e \<Longrightarrow> mrope_at (set_provider i (PromptEmbeds e') st) j = mrope_at st j"
  using emb_at_InrD [of st i e] by (cases "j = i") (simp_all add: mrope_at_def set_provider_def idx_vec_def)

lemma prepareSampler_vlm: "vm_deltas (prepareSampler env cfg p st) = vm_deltas st"
  by (simp add: prepareSampler_def Let_def)

lemma deepstack_at_other: "emb_at st i = Inr e \<Longrightarrow> deepstack_at (set_provider i (PromptEmbeds e') st) k = deepstack_at st k"
  using emb_at_InrD [of st i e] by (cases "k = i") (simp_all add: deepstack_at_def set_provider_def idx_vec_def)

text \<open>Marking the image positions for the deepstack features touches that provider only.\<close>

lemma prepare_deepstack_kept:
  assumes "\<And>k. vm_family st = Qwen3VL \<Longrightarrow> vm_deepstack st = Some k \<Longrightarrow> \<exists>d. deepstack_at st k = Inr d"
  shows "\<exists>st'. prepare_deepstack ids n st = Inr st' \<and> encoder_kept st st'"
proof (cases "vm_family st = Qwen3VL \<and> vm_deepstack st \<noteq> None")
  case True
  then obtain k d where "vm_family st = Qwen3VL" "vm_deepstack st = Some k" "deepstack_at st k = Inr d" using assms by blast
  then show ?thesis using encoder_kept_deepstack [of st k d] by (simp add: prepare_deepstack_def)
next
  case False
  moreover have "encoder_kept st st" using encoder_kept_preorder by (simp add: preorder_def)
  ultimately show ?thesis by (cases "vm_family st"; cases "vm_deepstack st") (simp_all add: prepare_deepstack_def)
qed

lemma vit_update_model [simp]:
  "m_mem (st\<lparr> vm_vit := v \<rparr>) = m_mem st" "m_graphs (st\<lparr> vm_vit := v \<rparr>) = m_graphs st" for st :: vlm
  by (cases st, simp)+

lemma encoder_kept_fields:
  assumes "encoder_kept st st'"
  shows "l_n_past st' = l_n_past st" "l_history st' = l_history st" "l_spec st' = l_spec st" "m_mem st' = m_mem st"
    "m_graphs st' = m_graphs st" "l_active_cl st' = l_active_cl st" "vm_family st' = vm_family st" "vm_merge st' = vm_merge st"
    "vm_vision_start st' = vm_vision_start st" "vm_image st' = vm_image st" "vm_deltas st' = vm_deltas st"
    "vm_mrope st' = vm_mrope st" "vm_emb st' = vm_emb st" "vm_deepstack st' = vm_deepstack st"
  using assms by (auto simp: encoder_kept_def)

lemma vlm_refused:
  assumes f: "\<And>k. vm_family st = Qwen3VL \<Longrightarrow> vm_deepstack st = Some k \<Longrightarrow> \<exists>d. deepstack_at st k = Inr d"
    "vm_emb st = Some i" "vm_mrope st = Some j" "mrope_at st j = Inr r" "mrope_ok r"
    and e: "prompt_embeddings lm (e_exec env) i prompt px st = (Inr embeds, st1)"
    and c: "vm_merge st = m" "0 < m" "vm_vision_start st = vs" "vm_image st = img" "vm_deltas st = [d, d, d]"
    and s: "\<forall>s \<in> set ss. seg_ok vs s" "prompt = segs_tokens vs img ss" "prompt \<noteq> []" "px_grids px = seg_grids m ss"
    and n: "int (l_n_past st) < 2 ^ 31"
    and g: "\<not> gc_sliding_window cfg" "sp_context_lengths (l_spec st) \<noteq> []" "gen_max_cl st < l_n_past st + length prompt"
  shows "\<exists>st'. vlm_generate lm env cfg cb prompt px st = (Inl ContextLengthExceeded, st')
    \<and> m_mem st' = m_mem st \<and> m_graphs st' = m_graphs st \<and> l_active_cl st' = l_active_cl st
    \<and> l_n_past st' = l_n_past st \<and> l_history st' = l_history st
    \<and> vm_deltas st' = replicate 3 (d + Max (set (map fst (segs_positions 0 ss))) + 1 - int (length prompt))"
proof -
  note k1 = steps_inD [OF prompt_embeddings_encoder e]
  obtain em where em: "emb_at st i = Inr em" using prompt_embeddings_found [OF e] by blast
  have e1: "emb_at st1 i = Inr em" by (rule encoder_kept_provider(1) [OF k1 em])
  define st2 where "st2 = set_provider i (PromptEmbeds (setBuffer embeds (l_n_past st1) em)) st1"
  have t2: "l_n_past st2 = l_n_past st1" "l_history st2 = l_history st1" "l_spec st2 = l_spec st1" "m_mem st2 = m_mem st1"
    "m_graphs st2 = m_graphs st1" "l_active_cl st2 = l_active_cl st1" "vm_family st2 = vm_family st1" "vm_merge st2 = vm_merge st1"
    "vm_vision_start st2 = vm_vision_start st1" "vm_image st2 = vm_image st1" "vm_deltas st2 = vm_deltas st1"
    "vm_mrope st2 = vm_mrope st1" "vm_deepstack st2 = vm_deepstack st1"
    by (simp_all add: st2_def set_provider_def)
  note f1 = encoder_kept_fields [OF k1]
  have "\<exists>d. deepstack_at st2 k = Inr d" if "vm_family st2 = Qwen3VL" "vm_deepstack st2 = Some k" for k
  proof -
    have "vm_family st = Qwen3VL" "vm_deepstack st = Some k" using that by (simp_all add: t2 f1)
    from f(1) [OF this] obtain d where "deepstack_at st k = Inr d" by blast
    then show ?thesis using encoder_kept_provider(3) [OF k1] deepstack_at_other [OF e1] by (simp add: st2_def)
  qed
  then obtain st3 where 3: "prepare_deepstack prompt (l_n_past st2) st2 = Inr st3" "encoder_kept st2 st3"
    using prepare_deepstack_kept by blast
  note f3 = encoder_kept_fields [OF 3(2)]
  have "mrope_at st2 j = Inr r"
    using encoder_kept_provider(2) [OF k1 f(4)] mrope_at_other [OF e1] by (simp add: st2_def)
  then have m3: "mrope_at st3 j = Inr r" by (rule encoder_kept_provider(2) [OF 3(2)])
  have k: "vm_merge st3 = m" "vm_vision_start st3 = vs" "vm_image st3 = img" "vm_deltas st3 = [d, d, d]" "vm_mrope st3 = Some j"
    using c f(3) by (simp_all add: f1 t2 f3)
  obtain st4 where 4: "prepare_mrope lm prompt (seg_grids m ss) (l_n_past st) st3 = Inr st4"
    "vm_deltas st4 = replicate 3 (d + Max (set (map fst (segs_positions 0 ss))) + 1 - int (length prompt))"
    using prepare_mrope_run [OF k(5) m3 f(5) k(1) c(2) k(2,3,4) s(1-3) n, of lm] by blast
  have p: "preparePositions lm prompt (px_grids px) (l_n_past st2) st2 = Inr st4"
    using 3(1) 4(1) s(4) by (simp add: preparePositions_def t2(1) f1(1))
  have t4: "l_spec st4 = l_spec st" "l_n_past st4 = l_n_past st" "l_history st4 = l_history st" "m_mem st4 = m_mem st"
    "m_graphs st4 = m_graphs st" "l_active_cl st4 = l_active_cl st"
    using 4(1) k(5) f1 t2 f3 by (auto simp: prepare_mrope_def Let_def set_provider_def)
  have "generate env cfg cb prompt st4 = (Inl ContextLengthExceeded, prepareSampler env cfg prompt st4)"
    using g t4 by (intro generate_refuses) (simp_all add: gen_max_cl_def)
  then have "vlm_generate lm env cfg cb prompt px st = (Inl ContextLengthExceeded, prepareSampler env cfg prompt st4)"
    using f(2) e e1 p by (simp add: vlm_generate_def sx_simps sbind_run sthen_run supd_run flip: st2_def)
  moreover have "m_graphs (prepareSampler env cfg prompt st4) = m_graphs st4" "l_active_cl (prepareSampler env cfg prompt st4) = l_active_cl st4"
    by (simp_all add: prepareSampler_def Let_def)
  ultimately show ?thesis using 4(2) t4 by (simp add: prepareSampler_vlm prepareSampler_same)
qed

section \<open>Properties\<close>

theorem maskedScatter_rows:
  assumes "length embeds = length ids * hidden" "count_before target ids (length ids) * hidden \<le> length mm"
  shows "\<exists>out. maskedScatter mm ids target hidden embeds = Inr out \<and> length out = length embeds
    \<and> (\<forall>i < length ids. slice (i * hidden) hidden out =
         (if ids ! i = target then slice (count_before target ids i * hidden) hidden mm else slice (i * hidden) hidden embeds))"
  using scatter_rows [OF assms le_refl] by (auto simp: maskedScatter_def)

lemma maskedScatter_rows_witness:
  "\<exists>out. maskedScatter [10, 11, 20, 21] [5, 9, 9, 6] 9 2 [1, 1, 2, 2, 3, 3, 4, 4] = Inr out
     \<and> slice 0 2 out = [1, 1] \<and> slice 2 2 out = [10, 11] \<and> slice 4 2 out = [20, 21] \<and> slice 6 2 out = [4, 4]"
proof -
  obtain out where o: "maskedScatter [10, 11, 20, 21] [5, 9, 9, 6] 9 2 [1, 1, 2, 2, 3, 3, 4, 4] = Inr out"
    "\<forall>i < 4. slice (i * 2) 2 out = (if [5, 9, 9, 6 :: int] ! i = 9 then slice (count_before (9 :: int) [5, 9, 9, 6] i * 2) 2 [10, 11, 20, 21]
       else slice (i * 2) 2 [1, 1, 2, 2, 3, 3, 4, 4])"
    using maskedScatter_rows [of "[1, 1, 2, 2, 3, 3, 4, 4]" "[5, 9, 9, 6]" 2 9 "[10, 11, 20, 21]"] by (auto simp: count_before_def)
  show ?thesis using o(1) spec [OF o(2), of 0] spec [OF o(2), of 1] spec [OF o(2), of 2] spec [OF o(2), of 3]
    by (simp add: count_before_def slice_def eval_nat_numeral)
qed

text \<open>C19: the rows the vision graph returns in window order are put into natural order in the
  slot of their image, and nothing outside the slot changes\<close>

theorem qwen25_rows_natural:
  assumes "vit_grid_of H W sm 112 patch = Inr g" "n = vg_h g * vg_w g" "n \<le> 2 ^ 64"
    and "computeWindowIndex 1 H W sm 112 patch = Inr wi" "reverseWindowIndex wi = Inr wb"
    and "length tokens = n * hidden" "slot + n * hidden \<le> length out"
    and "\<forall>i < n. slice (i * hidden) hidden tokens = row (wi ! i)"
  shows "\<exists>out'. unwindow hidden wb tokens slot out = Inr out' \<and> length out' = length out
    \<and> (\<forall>i < n. slice (slot + i * hidden) hidden out' = row (int i))
    \<and> (\<forall>j < length out. j < slot \<or> slot + n * hidden \<le> j \<longrightarrow> out' ! j = out ! j)"
proof -
  let ?p = "window_order 1 g"
  have "0 < vg_ws g" using assms(1) by (auto simp: vit_grid_of_def split: if_splits)
  then have p: "is_perm n ?p" using window_order_perm [of g 1] assms(2)
    by (metis card_lessThan distinct_card is_perm_def mult_1)
  have wi: "wi = map int ?p" using computeWindowIndex_order [OF assms(1), of 1] assms(4) by simp
  then have "\<forall>i < n. slice (i * hidden) hidden tokens = row (int (?p ! i))" using assms(8) p by (simp add: is_perm_def)
  then show ?thesis using unwindow_natural [OF p _ assms(3,6,7), of wb "\<lambda>k. row (int k)"] assms(5) wi by simp
qed

lemma demo_window_index_112: "computeWindowIndex 1 4 6 2 112 28 = Inr [0, 1, 3, 4, 2, 5]"
proof -
  have "vit_grid_of 4 6 2 112 28 = Inr \<lparr> vg_ws = 2, vg_h = 2, vg_w = 3 \<rparr>" by (simp add: vit_grid_of_def)
  from computeWindowIndex_order [OF this, of 1] show ?thesis by (simp add: window_order_def) code_simp
qed

lemma qwen25_rows_natural_witness:
  "\<exists>wb out'. reverseWindowIndex [0, 1, 3, 4, 2, 5] = Inr wb
     \<and> unwindow 1 wb [0, 1, 3, 4, 2, 5] 1 (replicate 8 7) = Inr out' \<and> (\<forall>i < 6. slice (1 + i) 1 out' = [of_nat i]) \<and> out' ! 0 = 7 \<and> out' ! 7 = 7"
proof -
  have g: "vit_grid_of 4 6 2 112 28 = Inr \<lparr> vg_ws = 2, vg_h = 2, vg_w = 3 \<rparr>" by (simp add: vit_grid_of_def)
  have "is_perm 6 [0, 1, 3, 4, 2, 5]" by (auto simp: is_perm_def)
  then obtain q where "reverseWindowIndex (map int [0, 1, 3, 4, 2, 5]) = Inr (map int q)" using reverse_perm [of 6] by force
  then have wb: "reverseWindowIndex [0, 1, 3, 4, 2, 5] = Inr (map int q)" by simp
  have rows: "\<forall>i < 6. slice (i * 1) 1 [0, 1, 3, 4, 2, 5 :: f32] = [of_int ([0, 1, 3, 4, 2, 5] ! i)]"
    by (simp add: slice_def less_Suc_eq numeral_eq_Suc all_simps)
  obtain out' where o: "unwindow 1 (map int q) [0, 1, 3, 4, 2, 5] 1 (replicate 8 7) = Inr out'" "length out' = 8"
    "\<forall>i < 6. slice (1 + i * 1) 1 out' = [of_int (int i)]"
    "\<forall>j < 8. j < 1 \<or> 1 + 6 * 1 \<le> j \<longrightarrow> out' ! j = replicate 8 7 ! j"
    using qwen25_rows_natural [OF g _ _ demo_window_index_112 wb _ _ rows, where slot = 1 and out = "replicate 8 7"] by auto
  show ?thesis using o(1,3) spec [OF o(4), of 0] spec [OF o(4), of 7] wb by (intro exI [of _ "map int q"] exI [of _ out']) simp
qed

text \<open>C13: the positions of a prompt that ends in text are shifted by what came before, and the
  decoded tokens count on from the last segment on all three axes without a gap or an overlap\<close>

theorem prompt_then_decode:
  assumes "vm_mrope st = Some i" "mrope_at st i = Inr r" "mrope_ok r"
    and "vm_merge st = m" "0 < m" "vm_vision_start st = vs" "vm_image st = img" "vm_deltas st = [d, d, d]"
    and "\<forall>s \<in> set ss. seg_ok vs s" "ids = segs_tokens vs img ss" "ss = ss' @ [TextRun ts]" "ts \<noteq> []"
    and "int (n_past + length ids) < 2 ^ 31"
  shows "\<exists>st' r'. prepare_mrope lm ids (seg_grids m ss) n_past st = Inr st' \<and> mrope_at st' i = Inr r' \<and> mr_prefill r' \<and> mr_offset r' = n_past
    \<and> (\<forall>t < length ids. \<forall>f < mr_half r.
         (let a = f64_mul (f64_of_int (axis_of (segs_positions 0 ss ! t) (mrope_axis r f) + int n_past + d)) (mr_inv_freq r ! f)
          in mr_cos r' ! (t * mr_half r + f) = m_cos lm a \<and> mr_sin r' ! (t * mr_half r + f) = m_sin lm a))
    \<and> decode_positions (mr_deltas r') (n_past + length ids) k
        = concat (replicate 3 (map (\<lambda>t. segs_end 0 ss + int n_past + d + int t) [0..<k]))"
proof -
  have "ids \<noteq> []" using assms(10-12) by (simp add: segs_tokens_def)
  moreover have "int n_past < 2 ^ 31" using assms(13) by simp
  ultimately obtain st' r' where p: "prepare_mrope lm ids (seg_grids m ss) n_past st = Inr st'" "mrope_at st' i = Inr r'" "mr_prefill r'"
    "mr_offset r' = n_past" "mr_deltas r' = vm_deltas st'"
    "vm_deltas st' = replicate 3 (d + Max (set (map fst (segs_positions 0 ss))) + 1 - int (length ids))"
    "\<forall>t < length ids. \<forall>f < mr_half r.
         (let a = f64_mul (f64_of_int (axis_of (segs_positions 0 ss ! t) (mrope_axis r f) + int n_past + d)) (mr_inv_freq r ! f)
          in mr_cos r' ! (t * mr_half r + f) = m_cos lm a \<and> mr_sin r' ! (t * mr_half r + f) = m_sin lm a)"
    using prepare_mrope_run [OF assms(1-10)] by blast
  have "decode_positions (mr_deltas r') (n_past + length ids) k
        = concat (replicate 3 (map (\<lambda>t. segs_end 0 ss + int n_past + d + int t) [0..<k]))"
    unfolding p(5,6) decode_positions_run [OF assms(13)] text_last_delta [OF assms(11,12), symmetric] by (simp add: ac_simps)
  then show ?thesis using p by blast
qed


text \<open>A model with a table of ten embeddings of width one, and three frequencies.\<close>

definition demo_embeds :: prompt_embeds where
  "demo_embeds = (mkPromptEmbeds ''inputs_embeds'')\<lparr> pe_emb := \<lparr> et_tensor = ''inputs_embeds'', et_table = replicate 10 0, et_pad = [0], et_hidden = 1 \<rparr> \<rparr>"

definition demo_vit :: vit where
  "demo_vit = \<lparr> m_graphs = [], m_mem = (\<lambda>_. []), m_initialized = True, vi_width = 0, vi_height = 0, vi_patch = 0, vi_temporal = 0,
     vi_merge = 2, vi_hidden = 0, vi_rope_dim = 0, vi_prefix = [], vi_levels = 0, vi_embeds = [] \<rparr>"

definition demo_vlm :: "libm \<Rightarrow> vlm_family \<Rightarrow> int \<Rightarrow> vlm" where
  "demo_vlm lm fam d = setMRoPEProvider ((mkMRoPE lm [1, 1, 1] 0 BLOCK ''c'' ''s'')\<lparr> mr_deltas := [d, d, d] \<rparr>)
     (setEmbeddingProvider demo_embeds
       (llm.extend (mkLLM (demo_spec\<lparr> sp_state_blocks := [makeKVStateBlock], sp_context_lengths := [4] \<rparr>) (demo_cfg 1)\<lparr> l_kv_block := 0 \<rparr>)
         \<lparr> vm_family = fam, vm_emb = None, vm_mrope = None, vm_deepstack = None, vm_vit = demo_vit, vm_deltas = [d, d, d],
           vm_vision_start = 7, vm_image = 9, vm_merge = 2 \<rparr>))"

lemma demo_vlm_fields:
  "vm_family (demo_vlm lm fam d) = fam" "vm_emb (demo_vlm lm fam d) = Some 0" "vm_mrope (demo_vlm lm fam d) = Some 1"
  "vm_merge (demo_vlm lm fam d) = 2" "vm_vision_start (demo_vlm lm fam d) = 7" "vm_image (demo_vlm lm fam d) = 9"
  "vm_deltas (demo_vlm lm fam d) = [d, d, d]" "l_n_past (demo_vlm lm fam d) = 0" "l_history (demo_vlm lm fam d) = []"
  "sp_context_lengths (l_spec (demo_vlm lm fam d)) = [4]" "gen_max_cl (demo_vlm lm fam d) = 4"
  "mrope_at (demo_vlm lm fam d) 1 = Inr ((mkMRoPE lm [1, 1, 1] 0 BLOCK ''c'' ''s'')\<lparr> mr_deltas := [d, d, d] \<rparr>)"
  "emb_at (demo_vlm lm fam d) 0 = Inr demo_embeds"
  by (simp_all add: demo_vlm_def setMRoPEProvider_def setEmbeddingProvider_def push_provider_def llm.defs mkLLM_def gen_max_cl_def
      mrope_at_def emb_at_def idx_vec_def)

lemma demo_mrope_ok: "mrope_ok ((mkMRoPE lm [1, 1, 1] 0 BLOCK ''c'' ''s'')\<lparr> mr_deltas := ds \<rparr>)"
  by (simp add: mrope_ok_def mkMRoPE_def Let_def to_size_def)

lemma demo_half: "mr_half (mkMRoPE lm [1, 1, 1] 0 BLOCK ''c'' ''s'') = 3"
  by (simp add: mkMRoPE_def Let_def to_size_def)

text \<open>Five tokens of an image of two by two, then one of text: the counter stands at four.\<close>

lemma prompt_then_decode_witness:
  "\<exists>st' r'. prepare_mrope demo_libm [7, 9, 9, 9, 9, 5] [(1, 4, 4)] 20 (demo_vlm demo_libm Qwen25VL 0) = Inr st' \<and> mrope_at st' 1 = Inr r'
     \<and> decode_positions (mr_deltas r') 26 2 = [24, 25, 24, 25, 24, 25]"
proof -
  let ?ss = "[ImageRun 1 2 2, TextRun [5]]" and ?ids = "[7, 9, 9, 9, 9, 5 :: int]"
  have ids: "?ids = segs_tokens 7 9 ?ss" by (simp add: segs_tokens_def eval_nat_numeral)
  have ok: "\<forall>s \<in> set ?ss. seg_ok 7 s" "?ss = [ImageRun 1 2 2] @ [TextRun [5]]" "[5 :: int] \<noteq> []" "int (20 + length ?ids) < 2 ^ 31" by simp_all
  have two: "(0 :: int) < 2" by simp
  obtain st' r' where "prepare_mrope demo_libm ?ids (seg_grids 2 ?ss) 20 (demo_vlm demo_libm Qwen25VL 0) = Inr st'" "mrope_at st' 1 = Inr r'"
    "decode_positions (mr_deltas r') (20 + length ?ids) 2 = concat (replicate 3 (map (\<lambda>t. segs_end 0 ?ss + int 20 + 0 + int t) [0..<2]))"
    using prompt_then_decode [where st = "demo_vlm demo_libm Qwen25VL 0" and lm = demo_libm and k = 2, OF demo_vlm_fields(3) demo_vlm_fields(12) demo_mrope_ok demo_vlm_fields(4) two demo_vlm_fields(5,6,7)
      ok(1) ids ok(2-4)] by blast
  moreover have "concat (replicate 3 (map (\<lambda>t. segs_end 0 ?ss + int 20 + 0 + int t) [0..<2])) = [24, 25, 24, 25, 24, 25]"
    by (simp add: segs_end_def eval_nat_numeral)
  ultimately show ?thesis by (intro exI [of _ st'] exI [of _ r']) simp
qed

text \<open>The reset of the two models.\<close>

theorem reset_positions:
  assumes "vlm_resetKVCache st = (Inr (), st')" "vm_mrope st = Some i" "mrope_at st i = Inr r"
  shows "l_n_past st' = 0 \<and> l_history st' = []
    \<and> vm_deltas st' = (case vm_family st of Qwen25VL \<Rightarrow> vm_deltas st | Qwen3VL \<Rightarrow> [0, 0, 0])
    \<and> (\<exists>r'. mrope_at st' i = Inr r' \<and> mr_deltas r' = (case vm_family st of Qwen25VL \<Rightarrow> mr_deltas r | Qwen3VL \<Rightarrow> [0, 0, 0]))"
proof (cases "vm_family st")
  case Qwen25VL
  then show ?thesis using qwen25_reset [OF Qwen25VL assms(1)] assms(3) by (simp add: mrope_at_def)
next
  case Qwen3VL
  then show ?thesis using qwen3_reset [OF Qwen3VL assms(1,2)] by simp
qed

lemma demo_reset: "vlm_resetKVCache (demo_vlm lm Qwen25VL d) = (Inr (), demo_vlm lm Qwen25VL d)"
  by (simp add: vlm_resetKVCache_def resetKVCache_def initKVBuffers_def buildKVInputNames_def sx_simps sbind_run sthen_run
      demo_vlm_def setMRoPEProvider_def setEmbeddingProvider_def push_provider_def llm.defs mkLLM_def requireKVStateBlock_def)

lemma reset_positions_witness:
  "\<exists>st'. vlm_resetKVCache (demo_vlm demo_libm Qwen25VL (- 3)) = (Inr (), st') \<and> l_n_past st' = 0 \<and> vm_deltas st' = [- 3, - 3, - 3]"
  using reset_positions [OF demo_reset demo_vlm_fields(3,12), of demo_libm "- 3"] demo_reset [of demo_libm "- 3"]
  by (simp add: demo_vlm_fields)

text \<open>C39: a well-formed prompt with images that a Qwen2.5-VL or Qwen3-VL model refuses for its
  length, without a sliding window, leaves every buffer, the graphs, the active context
  length, n_past and the history as they were, but has already moved the position offsets of
  the conversation\<close>

theorem vlm_refused_prompt:
  assumes "\<And>k. vm_family st = Qwen3VL \<Longrightarrow> vm_deepstack st = Some k \<Longrightarrow> \<exists>d. deepstack_at st k = Inr d"
    and "vm_emb st = Some i" "vm_mrope st = Some j" "mrope_at st j = Inr r" "mrope_ok r"
    and "prompt_embeddings lm (e_exec env) i prompt px st = (Inr embeds, st1)"
    and "vm_merge st = m" "0 < m" "vm_vision_start st = vs" "vm_image st = img" "vm_deltas st = [d, d, d]"
    and "\<forall>s \<in> set ss. seg_ok vs s" "prompt = segs_tokens vs img ss" "prompt \<noteq> []" "px_grids px = seg_grids m ss"
    and "int (l_n_past st) < 2 ^ 31"
    and "\<not> gc_sliding_window cfg" "sp_context_lengths (l_spec st) \<noteq> []" "gen_max_cl st < l_n_past st + length prompt"
  shows "\<exists>st'. vlm_generate lm env cfg cb prompt px st = (Inl ContextLengthExceeded, st')
    \<and> m_mem st' = m_mem st \<and> m_graphs st' = m_graphs st \<and> l_active_cl st' = l_active_cl st
    \<and> l_n_past st' = l_n_past st \<and> l_history st' = l_history st
    \<and> vm_deltas st' = replicate 3 (d + Max (set (map fst (segs_positions 0 ss))) + 1 - int (length prompt))"
  by (rule vlm_refused [OF assms])

definition demo_vlm_env :: "libm \<Rightarrow> vlm_provider env" where
  "demo_vlm_env lm = \<lparr> e_exec = (\<lambda>_ m. (True, m)), e_write = vlm_provider_write lm, e_init_provider = (\<lambda>_ p. Inr p),
     e_embedding_provider = (\<lambda>n. Inr (PromptEmbeds (mkPromptEmbeds n))), e_rope_provider = (\<lambda>_. Inr (PromptEmbeds (mkPromptEmbeds []))),
     e_sample = (\<lambda>_ _. 0), e_grammar_ok = (\<lambda>_ _. True) \<rparr>"

definition demo_px :: pixel_data where
  "demo_px = \<lparr> px_values = [], px_grids = [(1, 4, 4)] \<rparr>"

text \<open>A prompt of one image that does not fit the four cells of the demo model.\<close>

lemma demo_px_embedded:
  "prompt_embeddings lm (e_exec env) 0 [7, 9, 9, 9, 9] demo_px (demo_vlm lm Qwen25VL 0) = (Inr [0, 0, 0, 0, 0], demo_vlm lm Qwen25VL 0)"
  by (simp add: prompt_embeddings_def sx_simps sbind_run demo_vlm_fields lookupBatch_def demo_embeds_def tokensToEmbedding_def
        buf_load_def to_size_def slice_def demo_px_def)

lemma demo_px_tokens: "[7, 9, 9, 9, 9] = segs_tokens 7 9 [ImageRun 1 2 2]"
  by (simp add: segs_tokens_def eval_nat_numeral)

lemma demo_too_long:
  "(0 :: int) < 2" "\<forall>s \<in> set [ImageRun 1 2 2]. seg_ok 7 s" "[7, 9, 9, 9, 9 :: int] \<noteq> []"
  "px_grids demo_px = seg_grids 2 [ImageRun 1 2 2]"
  "int (l_n_past (demo_vlm lm Qwen25VL 0)) < 2 ^ 31" "sp_context_lengths (l_spec (demo_vlm lm Qwen25VL 0)) \<noteq> []"
  "gen_max_cl (demo_vlm lm Qwen25VL 0) < l_n_past (demo_vlm lm Qwen25VL 0) + length [7, 9, 9, 9, 9 :: int]"
  by (simp_all add: demo_vlm_fields demo_px_def)

lemma demo_px_max: "Max (set (map fst (segs_positions 0 [ImageRun 1 2 2]))) = 1"
  by code_simp

lemma demo_no_deepstack:
  "vm_family (demo_vlm lm Qwen25VL d) = Qwen3VL \<Longrightarrow> vm_deepstack (demo_vlm lm Qwen25VL d) = Some k \<Longrightarrow>
   \<exists>ds. deepstack_at (demo_vlm lm Qwen25VL d) k = Inr ds"
  by (simp add: demo_vlm_fields)

lemma vlm_refused_prompt_witness:
  "\<exists>st'. vlm_generate demo_libm (demo_vlm_env demo_libm) (demo_cfg 1) (\<lambda>_. True) [7, 9, 9, 9, 9] demo_px
       (demo_vlm demo_libm Qwen25VL 0) = (Inl ContextLengthExceeded, st')
     \<and> m_mem st' = m_mem (demo_vlm demo_libm Qwen25VL 0)
     \<and> l_n_past st' = 0 \<and> l_history st' = [] \<and> vm_deltas st' = [- 3, - 3, - 3]"
  using vlm_refused_prompt [OF demo_no_deepstack demo_vlm_fields(2,3) demo_vlm_fields(12) demo_mrope_ok demo_px_embedded
    demo_vlm_fields(4) demo_too_long(1) demo_vlm_fields(5-7) demo_too_long(2) demo_px_tokens demo_too_long(3-5)
    demo_cfg_fields(2) demo_too_long(6,7), of demo_libm "demo_vlm_env demo_libm" 1 "\<lambda>_. True"]
  unfolding demo_px_max by (auto simp: demo_vlm_fields eval_nat_numeral)

end
