(* ===== verification/Pipelines.thy ===== *)
theory Pipelines
  imports LLMStream GenieConfig VlmModel
begin

text \<open>
  \<open>core/src/pipeline/llm_pipeline.cpp\<close> and \<open>vlm_pipeline.cpp\<close>: a model with a tokenizer, which
  turns a prompt into tokens, streams the pieces of text to the caller, and reports why the run
  ended. The tokenizer, the chat template and the image processor of geniex-proc are parameters.
  Times are not modelled. Both pipelines share their streaming part, whose lemmas are proved in
  the locale \<open>streaming_model\<close>.
\<close>

section \<open>Streaming\<close>

record gen_result =
  gr_text :: string
  gr_prompt :: nat
  gr_generated :: nat
  gr_stop :: string

definition emptyResult :: gen_result where
  "emptyResult = \<lparr> gr_text = [], gr_prompt = 0, gr_generated = 0, gr_stop = [] \<rparr>"

text \<open>What the lambda \<open>on_each_token\<close> captures, and the pieces it has handed to the caller.\<close>

record stream =
  sg_text :: string
  sg_count :: nat
  sg_stopped :: bool
  sg_pieces :: "string list"

definition emptyStream :: stream where
  "emptyStream = \<lparr> sg_text = [], sg_count = 0, sg_stopped = False, sg_pieces = [] \<rparr>"

text \<open>The caller sees a piece as a C string.\<close>

definition c_str :: "string \<Rightarrow> string" where
  "c_str s = takeWhile (\<lambda>c. c \<noteq> CHR 0x00) s"

text \<open>\<open>on_token ps\<close> is what the caller answers after the pieces \<open>ps\<close>; \<open>None\<close> is no callback.\<close>

definition on_each_token :: "(int \<Rightarrow> string) \<Rightarrow> (string list \<Rightarrow> bool) option \<Rightarrow> stream callback" where
  "on_each_token decode on_token tok s =
     (let piece = decode tok; s = s\<lparr> sg_text := sg_text s @ piece, sg_count := sg_count s + 1 \<rparr> in
      case on_token of
        Some f \<Rightarrow>
          if piece = [] then (\<not> sg_stopped s, s)
          else let s = s\<lparr> sg_pieces := sg_pieces s @ [c_str piece] \<rparr>
               in if \<not> f (sg_pieces s) then (False, s\<lparr> sg_stopped := True \<rparr>) else (\<not> sg_stopped s, s)
      | None \<Rightarrow> (\<not> sg_stopped s, s))"

text \<open>A run that ended at an end token counts it.\<close>

definition finalize_generate_result :: "string \<Rightarrow> nat \<Rightarrow> string \<Rightarrow> gen_result \<Rightarrow> gen_result" where
  "finalize_generate_result txt generated reason res = res\<lparr> gr_text := txt,
     gr_generated := generated + (if reason = ''eos'' then 1 else 0), gr_stop := reason \<rparr>"

definition finish_generation :: "gen_config \<Rightarrow> gen_result \<Rightarrow> int list res \<Rightarrow> stream \<Rightarrow> gen_result res" where
  "finish_generation cfg res r s =
     (case r of
        Inr out \<Rightarrow> Inr (finalize_generate_result (sg_text s) (length out)
          (if sg_stopped s then ''user'' else if gc_max_tokens cfg \<le> int (length out) then ''length'' else ''eos'') res)
      | Inl e \<Rightarrow> if e = ContextLengthExceeded
                 then Inr (finalize_generate_result (sg_text s) (sg_count s) ''context_length'' res) else Inl e)"

definition stream_generate :: "(int \<Rightarrow> string) \<Rightarrow> (string list \<Rightarrow> bool) option \<Rightarrow> gen_config \<Rightarrow> nat
    \<Rightarrow> (stream callback \<Rightarrow> ('s \<times> stream, int list) sx) \<Rightarrow> ('s, gen_result) sx" where
  "stream_generate decode on_token cfg n_prompt gen_cb = (\<lambda>st.
     case gen_cb (on_each_token decode on_token) (st, emptyStream) of
       (r, (st', s)) \<Rightarrow> (finish_generation cfg (emptyResult\<lparr> gr_prompt := n_prompt \<rparr>) r s, st'))"

section \<open>The text pipeline\<close>

record 'q tokenizer =
  tk_encode :: "string \<Rightarrow> int list"
  tk_decode :: "int \<Rightarrow> string"
  tk_has_template :: bool
  tk_template :: "'q \<Rightarrow> string"

record ('m, 'q) pipeline =
  pl_model :: "'m option"
  pl_tokenizer :: "'q tokenizer option"
  pl_ready :: bool
  pl_bos :: int

definition emptyPipeline :: "('m, 'q) pipeline" where
  "emptyPipeline = \<lparr> pl_model = None, pl_tokenizer = None, pl_ready = False, pl_bos = -1 \<rparr>"

definition resolveTokenizerConfigPath :: "model_config \<Rightarrow> string res" where
  "resolveTokenizerConfigPath cfg =
     (case mf_tokenizer_config cfg of
        Some (c # cs) \<Rightarrow> Inr (c # cs)
      | _ \<Rightarrow> rbind (bundleDirOf cfg) (\<lambda>dir. Inr (path_join dir ''tokenizer_config.json'')))"

text \<open>
  \<open>initialize\<close> is virtual, and \<open>from_file\<close> is the tokenizer library's; what \<open>initialize\<close> throws
  is caught, what the search for the tokenizer's files throws is not.
\<close>

definition createImpl :: "('m, bool) sx \<Rightarrow> (string \<Rightarrow> string \<Rightarrow> 'q tokenizer option) \<Rightarrow> 'm \<Rightarrow> model_config
    \<Rightarrow> (('m, 'q, 'e) pipeline_scheme, bool) sx" where
  "createImpl initialize from_file model cfg =
     (case initialize model of (r, model') \<Rightarrow>
        if r \<noteq> Inr True then
          (if \<forall>e. r = Inl e \<longrightarrow> is_exception e then sthen (smod (\<lambda>pl. pl\<lparr> pl_model := None \<rparr>)) (sret False)
           else sthrow (projl r))
        else sthen (smod (\<lambda>pl. pl\<lparr> pl_model := Some model' \<rparr>))
            (sbind (slift (resolveTokenizerConfigPath cfg)) (\<lambda>path.
             let tok = from_file (mf_tokenizer cfg) path in
             sthen (smod (\<lambda>pl. pl\<lparr> pl_tokenizer := tok \<rparr>))
             (case tok of
                None \<Rightarrow> sthen (smod (\<lambda>pl. pl\<lparr> pl_model := None \<rparr>)) (sret False)
              | Some t \<Rightarrow>
                  if \<not> tk_has_template t
                  then sthen (smod (\<lambda>pl. pl\<lparr> pl_tokenizer := None, pl_model := None \<rparr>)) (sret False)
                  else sthen (smod (\<lambda>pl. pl\<lparr> pl_ready := True \<rparr>)) (sret True)))))"

definition setBosTokenId :: "int \<Rightarrow> ('m, 'q, 'e) pipeline_scheme \<Rightarrow> ('m, 'q, 'e) pipeline_scheme" where
  "setBosTokenId t pl = pl\<lparr> pl_bos := t \<rparr>"

text \<open>An operation of the model, when there is one.\<close>

definition with_model :: "'b \<Rightarrow> ('m, 'b) sx \<Rightarrow> (('m, 'q, 'e) pipeline_scheme, 'b) sx" where
  "with_model dflt op = (\<lambda>pl. case pl_model pl of None \<Rightarrow> (Inr dflt, pl)
     | Some m \<Rightarrow> (case op m of (r, m') \<Rightarrow> (r, pl\<lparr> pl_model := Some m' \<rparr>)))"

definition applyChatTemplate :: "'q \<Rightarrow> ('m, 'q, 'e) pipeline_scheme \<Rightarrow> string res" where
  "applyChatTemplate q pl =
     (case pl_tokenizer pl of None \<Rightarrow> Inl (RuntimeError ''pipeline is not initialized'') | Some t \<Rightarrow> Inr (tk_template t q))"

definition with_bos :: "int \<Rightarrow> nat \<Rightarrow> int list \<Rightarrow> int list" where
  "with_bos bos n_past ids =
     (if 0 \<le> bos \<and> n_past = 0 \<and> (ids = [] \<or> hd ids \<noteq> bos) then bos # ids else ids)"

definition generateTokens :: "'p env \<Rightarrow> gen_config \<Rightarrow> (string list \<Rightarrow> bool) option \<Rightarrow> int list
    \<Rightarrow> ((('p, 'a) llm_scheme, 'q, 'e) pipeline_scheme, gen_result) sx" where
  "generateTokens env cfg on_token ids = swith (\<lambda>pl.
     case pl_tokenizer pl of None \<Rightarrow> sthrow UndefinedBehaviour
     | Some t \<Rightarrow> with_model emptyResult (stream_generate (tk_decode t) on_token cfg (length ids)
         (\<lambda>cb. generate_cb env (cfg\<lparr> gc_has_tokenizer := True \<rparr>) cb ids)))"

definition generate_ids :: "'p env \<Rightarrow> gen_config \<Rightarrow> (string list \<Rightarrow> bool) option \<Rightarrow> int list
    \<Rightarrow> ((('p, 'a) llm_scheme, 'q, 'e) pipeline_scheme, gen_result) sx" where
  "generate_ids env cfg on_token ids = swith (\<lambda>pl.
     if \<not> pl_ready pl \<or> pl_model pl = None then sret (emptyResult\<lparr> gr_stop := ''error'' \<rparr>)
     else generateTokens env cfg on_token ids)"

definition generate_text :: "'p env \<Rightarrow> gen_config \<Rightarrow> (string list \<Rightarrow> bool) option \<Rightarrow> string
    \<Rightarrow> ((('p, 'a) llm_scheme, 'q, 'e) pipeline_scheme, gen_result) sx" where
  "generate_text env cfg on_token prompt = swith (\<lambda>pl.
     case pl_model pl of None \<Rightarrow> sret (emptyResult\<lparr> gr_stop := ''error'' \<rparr>)
     | Some m \<Rightarrow>
         if \<not> pl_ready pl then sret (emptyResult\<lparr> gr_stop := ''error'' \<rparr>)
         else (case pl_tokenizer pl of None \<Rightarrow> sthrow UndefinedBehaviour
               | Some t \<Rightarrow> generateTokens env cfg on_token (with_bos (pl_bos pl) (l_n_past m) (tk_encode t prompt))))"

definition pipeline_reset :: "('m, unit) sx \<Rightarrow> (('m, 'q, 'e) pipeline_scheme, unit) sx" where
  "pipeline_reset reset = with_model () reset"

definition pipeline_nPast :: "((('p, 'a) llm_scheme, 'q, 'e) pipeline_scheme) \<Rightarrow> nat" where
  "pipeline_nPast pl = (case pl_model pl of None \<Rightarrow> 0 | Some m \<Rightarrow> l_n_past m)"

text \<open>Saving and loading the cache; a pipeline without a model does nothing.\<close>

definition pipeline_saveKVCache :: "((('p, 'a) llm_scheme, 'q, 'e) pipeline_scheme) \<Rightarrow> u8 list option res" where
  "pipeline_saveKVCache pl =
     (case pl_model pl of None \<Rightarrow> Inr None | Some m \<Rightarrow> rbind (saveKVCache m) (\<lambda>bytes. Inr (Some bytes)))"

definition pipeline_loadKVCache :: "u8 list \<Rightarrow> ((('p, 'a) llm_scheme, 'q, 'e) pipeline_scheme, unit) sx" where
  "pipeline_loadKVCache file = with_model () (loadKVCache file)"

definition pipeline_vocabSize :: "((('p, 'a) llm_scheme, 'q, 'e) pipeline_scheme) \<Rightarrow> nat" where
  "pipeline_vocabSize pl = (case pl_model pl of None \<Rightarrow> 0 | Some m \<Rightarrow> sp_vocab_size (l_spec m))"

section \<open>The pipeline with images\<close>

text \<open>What the processor makes of a prompt: \<open>bt_grid\<close> is \<open>None\<close> for an array without dimensions.\<close>

record batch_features =
  bt_input_ids :: "int list"
  bt_pixels :: "f32 list"
  bt_grid :: "int list list option"

definition toPixelData :: "batch_features \<Rightarrow> pixel_data res" where
  "toPixelData bf =
     (case bt_grid bf of
        None \<Rightarrow> Inr \<lparr> px_values = [], px_grids = [] \<rparr>
      | Some [] \<Rightarrow> Inr \<lparr> px_values = [], px_grids = [] \<rparr>
      | Some rows \<Rightarrow> rbind (rmap (\<lambda>row.
            rbind (idx_vec row 0) (\<lambda>t. rbind (idx_vec row 1) (\<lambda>h. rbind (idx_vec row 2) (\<lambda>w.
              Inr (to_i32 t, to_i32 h, to_i32 w))))) rows) (\<lambda>grids.
          Inr \<lparr> px_values = bt_pixels bf, px_grids = grids \<rparr>))"

record 'q processor =
  vp_process :: "string \<Rightarrow> string list \<Rightarrow> batch_features res"
  vp_template :: "'q \<Rightarrow> string"

record 'q vlm_pipeline = "(vlm, 'q) pipeline" +
  vq_processor :: "'q processor option"

text \<open>\<open>VLMModel::generate\<close> around a generation with a stateful callback.\<close>

definition vlm_enter :: "libm \<Rightarrow> vlm_provider env \<Rightarrow> nat \<Rightarrow> int list \<Rightarrow> pixel_data \<Rightarrow> (vlm, unit) sx" where
  "vlm_enter lm env i prompt px =
     sbind (prompt_embeddings lm (e_exec env) i prompt px) (\<lambda>embeds.
     sthen (supd (\<lambda>st. rbind (emb_at st i) (\<lambda>e. Inr (set_provider i (PromptEmbeds (setBuffer embeds (l_n_past st) e)) st))))
       (supd (\<lambda>st. preparePositions lm prompt (px_grids px) (l_n_past st) st)))"

definition vlm_leave :: "nat \<Rightarrow> (vlm, unit) sx" where
  "vlm_leave i =
     sthen (supd (\<lambda>st. rbind (emb_at st i) (\<lambda>e. Inr (set_provider i (PromptEmbeds (clearBuffer e)) st))))
       (supd clearPositions)"

definition vlm_generate_cb :: "libm \<Rightarrow> vlm_provider env \<Rightarrow> gen_config \<Rightarrow> 'c callback \<Rightarrow> int list \<Rightarrow> pixel_data
    \<Rightarrow> (vlm \<times> 'c, int list) sx" where
  "vlm_generate_cb lm env cfg cb prompt px = swith (\<lambda>(st, _). case vm_emb st of
       None \<Rightarrow> sthrow (RuntimeError ''no embedding provider registered'')
     | Some i \<Rightarrow> sthen (on_model (vlm_enter lm env i prompt px))
        (sbind (generate_cb env cfg cb prompt) (\<lambda>out. sthen (on_model (vlm_leave i)) (sret out))))"

definition vlm_create :: "vlm option \<Rightarrow> 'q processor option \<Rightarrow> 'q tokenizer \<Rightarrow> ('q vlm_pipeline, bool) sx" where
  "vlm_create model proc tok =
     (if model = None \<or> proc = None then sret False
      else sthen (smod (\<lambda>pl. pl\<lparr> pl_model := model, vq_processor := proc, pl_tokenizer := Some tok, pl_ready := True \<rparr>)) (sret True))"

definition vlm_applyChatTemplate :: "'q \<Rightarrow> 'q vlm_pipeline \<Rightarrow> string res" where
  "vlm_applyChatTemplate q pl =
     (case vq_processor pl of None \<Rightarrow> Inl UndefinedBehaviour | Some p \<Rightarrow> Inr (vp_template p q))"

text \<open>What the processor throws is an error result.\<close>

definition prepare_input :: "'q processor \<Rightarrow> string \<Rightarrow> string list \<Rightarrow> (pixel_data \<times> int list) res" where
  "prepare_input proc prompt paths =
     rbind (vp_process proc prompt paths) (\<lambda>bf. rbind (toPixelData bf) (\<lambda>px. Inr (px, map to_i32 (bt_input_ids bf))))"

definition vlm_pipeline_generate :: "libm \<Rightarrow> vlm_provider env \<Rightarrow> gen_config \<Rightarrow> (string list \<Rightarrow> bool) option
    \<Rightarrow> string \<Rightarrow> string list \<Rightarrow> ('q vlm_pipeline, gen_result) sx" where
  "vlm_pipeline_generate lm env cfg on_token prompt paths = swith (\<lambda>pl.
     case (pl_model pl, vq_processor pl, pl_tokenizer pl) of
       (Some m, Some proc, Some t) \<Rightarrow>
         if \<not> pl_ready pl then sret (emptyResult\<lparr> gr_stop := ''error'' \<rparr>)
         else (case prepare_input proc prompt paths of
             Inl e \<Rightarrow> if is_exception e then sret (emptyResult\<lparr> gr_stop := ''error'' \<rparr>) else sthrow e
           | Inr (px, ids) \<Rightarrow>
               let ids = with_bos (pl_bos pl) (l_n_past m) ids
               in with_model emptyResult (stream_generate (tk_decode t) on_token cfg (length ids)
                    (\<lambda>cb. vlm_generate_cb lm env (cfg\<lparr> gc_has_tokenizer := True \<rparr>) cb ids px)))
     | _ \<Rightarrow> sret (emptyResult\<lparr> gr_stop := ''error'' \<rparr>))"

section \<open>The stream of a run\<close>

lemma stream_step:
  "sg_text (snd (on_each_token d f t s)) = sg_text s @ d t"
  "sg_count (snd (on_each_token d f t s)) = sg_count s + 1"
  "fst (on_each_token d f t s) \<longleftrightarrow> \<not> sg_stopped (snd (on_each_token d f t s))"
  "sg_pieces (snd (on_each_token d f t s)) = sg_pieces s @ (if f = None \<or> d t = [] then [] else [c_str (d t)])"
  by (auto simp: on_each_token_def Let_def split: option.splits)

lemma stream_after:
  "sg_text (after (on_each_token d f) s log) = sg_text s @ concat (map d log)"
  "sg_count (after (on_each_token d f) s log) = sg_count s + length log"
  "sg_pieces (after (on_each_token d f) s log)
     = sg_pieces s @ (if f = None then [] else map (\<lambda>t. c_str (d t)) (filter (\<lambda>t. d t \<noteq> []) log))"
  by (induction log arbitrary: s) (auto simp: stream_step)

lemma stream_answer: "answer (on_each_token d f) emptyStream log \<longleftrightarrow> \<not> sg_stopped (after (on_each_token d f) emptyStream log)"
  by (cases log rule: rev_cases) (simp_all add: answer_def after_append stream_step(3) emptyStream_def)

text \<open>The caller has stopped a run: with its last token, the text of which it refused.\<close>

definition refused :: "(int \<Rightarrow> string) \<Rightarrow> (string list \<Rightarrow> bool) option \<Rightarrow> int list \<Rightarrow> bool" where
  "refused d on_token log \<longleftrightarrow> (\<exists>f. on_token = Some f \<and> log \<noteq> [] \<and> d (last log) \<noteq> []
     \<and> \<not> f (map (\<lambda>t. c_str (d t)) (filter (\<lambda>t. d t \<noteq> []) log)))"

lemma stopped_refused:
  assumes "\<forall>k. 0 < k \<and> k < length log \<longrightarrow> answer (on_each_token d f) emptyStream (take k log)"
  shows "sg_stopped (after (on_each_token d f) emptyStream log) \<longleftrightarrow> refused d f log"
proof (cases log rule: rev_cases)
  case Nil
  then show ?thesis by (simp add: emptyStream_def refused_def)
next
  case (snoc us t)
  let ?s = "after (on_each_token d f) emptyStream us"
  have "answer (on_each_token d f) emptyStream us"
  proof (cases "us = []")
    case True
    then show ?thesis by (simp add: answer_def)
  next
    case False
    then show ?thesis using assms [rule_format, of "length us"] snoc by simp
  qed
  then have "\<not> sg_stopped ?s" by (simp add: stream_answer)
  then show ?thesis unfolding snoc after_append
    by (auto simp: on_each_token_def Let_def refused_def stream_after emptyStream_def split: option.splits)
qed

text \<open>What a pipeline reports of a run whose callback was called with the tokens \<open>log\<close>.\<close>

definition reports :: "(int \<Rightarrow> string) \<Rightarrow> (string list \<Rightarrow> bool) option \<Rightarrow> gen_config \<Rightarrow> nat \<Rightarrow> int list res \<Rightarrow> int list \<Rightarrow> gen_result \<Rightarrow> bool" where
  "reports d on_token cfg n q log res \<longleftrightarrow>
     gr_text res = concat (map d log) \<and> gr_prompt res = n
     \<and> (case q of
          Inr out \<Rightarrow> out = log \<and> gr_stop res = (if refused d on_token log then ''user''
               else if gc_max_tokens cfg \<le> int (length log) then ''length'' else ''eos'')
        | Inl e \<Rightarrow> e = ContextLengthExceeded \<and> gr_stop res = ''context_length'')
     \<and> gr_generated res = length log + (if gr_stop res = ''eos'' then 1 else 0)
     \<and> gr_generated res \<le> nat (gc_max_tokens cfg)"

locale streaming_model =
  fixes gen :: "(int list \<Rightarrow> bool) \<Rightarrow> ('s, int list) sx"
    and gen_cb :: "stream callback \<Rightarrow> ('s \<times> stream, int list) sx"
    and limit :: nat
  assumes replay: "gen_cb cb (st, c) = (r, (st', c')) \<Longrightarrow>
    \<exists>log. gen (answer cb c) st = (r, st') \<and> c' = after cb c log \<and> replays cb c limit [] r log"
begin

lemma streamed:
  assumes "stream_generate d on_token cfg n gen_cb st = (Inr res, st')" "limit = nat (gc_max_tokens cfg)"
  shows "\<exists>q log. gen (answer (on_each_token d on_token) emptyStream) st = (q, st') \<and> reports d on_token cfg n q log res"
proof -
  let ?cb = "on_each_token d on_token"
  obtain q c' where run: "gen_cb ?cb (st, emptyStream) = (q, (st', c'))"
    and fin: "finish_generation cfg (emptyResult\<lparr> gr_prompt := n \<rparr>) q c' = Inr res"
    using assms(1) by (auto simp: stream_generate_def split: prod.splits)
  obtain log where log: "gen (answer ?cb emptyStream) st = (q, st')" "c' = after ?cb emptyStream log" "replays ?cb emptyStream limit [] q log"
    using replay [OF run] by blast
  have st: "sg_stopped c' \<longleftrightarrow> refused d on_token log" using log(2,3) stopped_refused [of log d on_token] by (simp add: replays_def)
  have tx: "sg_text c' = concat (map d log)" "sg_count c' = length log" by (simp_all add: log(2) stream_after emptyStream_def)
  have len: "length log \<le> nat (gc_max_tokens cfg)" using log(3) assms(2) by (simp add: replays_def)
  have "reports d on_token cfg n q log res"
  proof (cases q)
    case (Inl e)
    then show ?thesis using fin tx len
      by (auto simp: reports_def finish_generation_def finalize_generate_result_def emptyResult_def split: if_splits)
  next
    case (Inr out)
    then have "out = log" using log(3) by (simp add: replays_def)
    then show ?thesis using fin tx len st Inr
      by (auto simp: reports_def finish_generation_def finalize_generate_result_def emptyResult_def split: if_splits)
  qed
  then show ?thesis using log(1) by blast
qed

text \<open>What throws, other than the refusal for length, is thrown on with the model's state.\<close>

lemma thrown:
  assumes "stream_generate d on_token cfg n gen_cb st = (Inl e, st')"
  shows "e \<noteq> ContextLengthExceeded \<and> gen (answer (on_each_token d on_token) emptyStream) st = (Inl e, st')"
proof -
  let ?cb = "on_each_token d on_token"
  obtain q c' where run: "gen_cb ?cb (st, emptyStream) = (q, (st', c'))"
    and fin: "finish_generation cfg (emptyResult\<lparr> gr_prompt := n \<rparr>) q c' = Inl e"
    using assms by (auto simp: stream_generate_def split: prod.splits)
  then show ?thesis using replay [OF run] by (auto simp: finish_generation_def split: sum.splits if_splits)
qed

end

interpretation llm_stream: streaming_model "\<lambda>p. generate env cfg p prompt" "\<lambda>cb. generate_cb env cfg cb prompt" "nat (gc_max_tokens cfg)"
  for env :: "'p env" and cfg and prompt
  by unfold_locales (rule generate_cb_replays)

lemma vlm_generate_split:
  "vlm_generate lm env cfg cb prompt px = swith (\<lambda>st. case vm_emb st of
       None \<Rightarrow> sthrow (RuntimeError ''no embedding provider registered'')
     | Some i \<Rightarrow> sthen (vlm_enter lm env i prompt px)
        (sbind (generate env cfg cb prompt) (\<lambda>out. sthen (vlm_leave i) (sret out))))"
  unfolding vlm_generate_def vlm_enter_def vlm_leave_def sthen_def sbind_assoc sbind_laws ..

lemma vlm_generate_cb_replays:
  assumes "vlm_generate_cb lm env cfg cb prompt px (st, c) = (r, (st', c'))"
  shows "\<exists>log. vlm_generate lm env cfg (answer cb c) prompt px st = (r, st') \<and> c' = after cb c log
    \<and> replays cb c (nat (gc_max_tokens cfg)) [] r log"
proof (cases "vm_emb st")
  case None
  then show ?thesis using assms
    by (intro exI [of _ "[]"]) (auto simp: vlm_generate_cb_def vlm_generate_split sx_simps replays_def)
next
  case (Some i)
  obtain r1 st1 where e: "vlm_enter lm env i prompt px st = (r1, st1)" by fastforce
  show ?thesis
  proof (cases r1)
    case (Inl e1)
    then show ?thesis using assms Some e
      by (intro exI [of _ "[]"]) (auto simp: vlm_generate_cb_def vlm_generate_split sx_simps sthen_run on_model_run replays_def)
  next
    case (Inr u)
    obtain r2 st2 c2 where g: "generate_cb env cfg cb prompt (st1, c) = (r2, (st2, c2))" by (metis prod.exhaust)
    obtain r3 st3 where l: "vlm_leave i st2 = (r3, st3)" by fastforce
    from generate_cb_replays [OF g] obtain log where
      log: "generate env cfg (answer cb c) prompt st1 = (r2, st2)" "c2 = after cb c log" "replays cb c (nat (gc_max_tokens cfg)) [] r2 log" by blast
    show ?thesis using assms Some e Inr g l log
      by (intro exI [of _ log], cases r2; cases r3)
        (auto simp: vlm_generate_cb_def vlm_generate_split sx_simps sthen_run sbind_run on_model_run replays_def)
  qed
qed

interpretation vlm_stream: streaming_model "\<lambda>p. vlm_generate lm env cfg p prompt px" "\<lambda>cb. vlm_generate_cb lm env cfg cb prompt px" "nat (gc_max_tokens cfg)"
  for lm env cfg prompt px
  by unfold_locales (rule vlm_generate_cb_replays)

section \<open>The pipelines' operations\<close>

lemma with_model_run: "pl_model pl = Some m \<Longrightarrow> with_model d op pl = (case op m of (r, m') \<Rightarrow> (r, pl\<lparr> pl_model := Some m' \<rparr>))"
  by (simp add: with_model_def)

lemma generate_text_run:
  assumes "pl_model pl = Some m" "pl_ready pl" "pl_tokenizer pl = Some t" "ids = with_bos (pl_bos pl) (l_n_past m) (tk_encode t prompt)"
  shows "generate_text env cfg on_token prompt pl
    = (case stream_generate (tk_decode t) on_token cfg (length ids) (\<lambda>cb. generate_cb env (cfg\<lparr> gc_has_tokenizer := True \<rparr>) cb ids) m of
         (r, m') \<Rightarrow> (r, pl\<lparr> pl_model := Some m' \<rparr>))"
  using assms by (simp add: generate_text_def generateTokens_def sx_simps with_model_def)

lemma text_run_reports:
  assumes "generate_text env cfg on_token prompt pl = (Inr res, pl')"
    and "pl_model pl = Some m" "pl_ready pl" "pl_tokenizer pl = Some t" "ids = with_bos (pl_bos pl) (l_n_past m) (tk_encode t prompt)"
  shows "\<exists>q log m'. generate env (cfg\<lparr> gc_has_tokenizer := True \<rparr>) (answer (on_each_token (tk_decode t) on_token) emptyStream) ids m = (q, m')
    \<and> pl' = pl\<lparr> pl_model := Some m' \<rparr> \<and> reports (tk_decode t) on_token cfg (length ids) q log res"
proof -
  let ?cfg = "cfg\<lparr> gc_has_tokenizer := True \<rparr>"
  obtain m' where s: "stream_generate (tk_decode t) on_token cfg (length ids) (\<lambda>cb. generate_cb env ?cfg cb ids) m = (Inr res, m')"
    and pl': "pl' = pl\<lparr> pl_model := Some m' \<rparr>"
    using assms(1) unfolding generate_text_run [OF assms(2-5)] by (auto split: prod.splits)
  have "nat (gc_max_tokens ?cfg) = nat (gc_max_tokens cfg)" by simp
  from llm_stream.streamed [OF s this] show ?thesis using pl' by blast
qed

text \<open>A prompt that is refused leaves before the first token.\<close>

lemma gen_prologue_refuses:
  assumes "\<not> gc_sliding_window cfg" "sp_context_lengths (l_spec st) \<noteq> []" "gen_max_cl st < l_n_past st + length prompt"
  shows "gen_prologue env cfg prompt st = (Inl ContextLengthExceeded, prepareSampler env cfg prompt st)"
proof -
  let ?st = "prepareSampler env cfg prompt st"
  have sp: "l_spec ?st = l_spec st" using prepareSampler_same(3) static_spec by blast
  have "sp_context_lengths (l_spec ?st) \<noteq> []" "gen_max_cl ?st < l_n_past ?st + length prompt"
    using assms(2,3) by (simp_all add: sp gen_max_cl_def prepareSampler_same)
  then show ?thesis by (simp add: gen_prologue_def Let_def sx_simps sthen_run gen_admit_no_slide [OF assms(1)])
qed

section \<open>Properties\<close>

text \<open>C12: a run of the text pipeline that returns is a run of the model with the streamed answers
  of the caller: the reported text is the decoded tokens in order, the reason is the one the
  run ended for, an end token is counted, and the count stays within max_tokens\<close>

theorem text_pipeline_reports:
  assumes "generate_text env cfg on_token prompt pl = (Inr res, pl')"
    and "pl_model pl = Some m" "pl_ready pl" "pl_tokenizer pl = Some t" "ids = with_bos (pl_bos pl) (l_n_past m) (tk_encode t prompt)"
  shows "\<exists>q log m'. generate env (cfg\<lparr> gc_has_tokenizer := True \<rparr>) (answer (on_each_token (tk_decode t) on_token) emptyStream) ids m = (q, m')
    \<and> pl' = pl\<lparr> pl_model := Some m' \<rparr> \<and> reports (tk_decode t) on_token cfg (length ids) q log res"
  by (rule text_run_reports [OF assms])

text \<open>C25: a run of the image pipeline that returns is a run of the vision-language model on the
  processed prompt, reported in the same way\<close>

theorem image_pipeline_reports:
  assumes "vlm_pipeline_generate lm env cfg on_token prompt paths pl = (Inr res, pl')"
    and "pl_model pl = Some m" "vq_processor pl = Some proc" "pl_tokenizer pl = Some t" "pl_ready pl"
    and "prepare_input proc prompt paths = Inr (px, ids0)" "ids = with_bos (pl_bos pl) (l_n_past m) ids0"
  shows "\<exists>q log m'. vlm_generate lm env (cfg\<lparr> gc_has_tokenizer := True \<rparr>) (answer (on_each_token (tk_decode t) on_token) emptyStream) ids px m = (q, m')
    \<and> pl' = pl\<lparr> pl_model := Some m' \<rparr> \<and> reports (tk_decode t) on_token cfg (length ids) q log res"
proof -
  let ?cfg = "cfg\<lparr> gc_has_tokenizer := True \<rparr>"
  obtain m' where s: "stream_generate (tk_decode t) on_token cfg (length ids) (\<lambda>cb. vlm_generate_cb lm env ?cfg cb ids px) m = (Inr res, m')"
    and pl': "pl' = pl\<lparr> pl_model := Some m' \<rparr>"
    using assms by (auto simp: vlm_pipeline_generate_def sx_simps with_model_def Let_def split: prod.splits)
  have "nat (gc_max_tokens ?cfg) = nat (gc_max_tokens cfg)" by simp
  from vlm_stream.streamed [OF s this] show ?thesis using pl' by blast
qed

text \<open>C26: without a sliding window, a prompt gets the beginning token in front only on the first
  turn: after any run that was not cut off the history has grown by the prompt as it was sent
  and no later prompt gets one\<close>

theorem bos_once:
  assumes "generate_text env cfg on_token prompt pl = (Inr res, pl')"
    and "pl_model pl = Some m" "pl_ready pl" "pl_tokenizer pl = Some t"
    and "gr_stop res \<noteq> ''context_length''" "\<not> gc_sliding_window cfg"
  shows "\<exists>m' fed. pl_model pl' = Some m'
    \<and> l_history m' = l_history m @ with_bos (pl_bos pl) (l_n_past m) (tk_encode t prompt) @ fed
    \<and> (\<forall>ids. with_bos (pl_bos pl') (l_n_past m') ids = ids)"
proof -
  let ?ids = "with_bos (pl_bos pl) (l_n_past m) (tk_encode t prompt)" and ?cfg = "cfg\<lparr> gc_has_tokenizer := True \<rparr>"
  let ?p = "answer (on_each_token (tk_decode t) on_token) emptyStream"
  obtain q log m' where r: "generate env ?cfg ?p ?ids m = (q, m')" "pl' = pl\<lparr> pl_model := Some m' \<rparr>"
    "reports (tk_decode t) on_token cfg (length ?ids) q log res"
    using text_run_reports [OF assms(1-4) refl] by blast
  then obtain out where "q = Inr out" using assms(5) by (cases q) (auto simp: reports_def)
  with r(1) have "generate env ?cfg ?p ?ids m = (Inr out, m')" by simp
  from generate_history [OF this] assms(6) obtain fed where
    h: "l_history m' = l_history m @ ?ids @ fed" "l_n_past m' = l_n_past m + length ?ids + length fed" by auto
  have "with_bos (pl_bos pl') (l_n_past m') ids = ids" for ids
    using h(2) r(2) by (auto simp: with_bos_def split: if_splits)
  then show ?thesis using h(1) r(2) by auto
qed

theorem text_pipeline_refuses:
  assumes "pl_model pl = Some m" "pl_ready pl" "pl_tokenizer pl = Some t" "ids = with_bos (pl_bos pl) (l_n_past m) (tk_encode t prompt)"
    and "\<not> gc_sliding_window cfg" "sp_context_lengths (l_spec m) \<noteq> []" "gen_max_cl m < l_n_past m + length ids"
  shows "generate_text env cfg on_token prompt pl
    = (Inr \<lparr> gr_text = [], gr_prompt = length ids, gr_generated = 0, gr_stop = ''context_length'' \<rparr>,
       pl\<lparr> pl_model := Some (prepareSampler env (cfg\<lparr> gc_has_tokenizer := True \<rparr>) ids m) \<rparr>)"
  using gen_prologue_refuses [of "cfg\<lparr> gc_has_tokenizer := True \<rparr>" m ids env] assms(5-7)
  unfolding generate_text_run [OF assms(1-4)]
  by (simp add: stream_generate_def generate_cb_def sbind_run on_model_run finish_generation_def finalize_generate_result_def
      emptyResult_def emptyStream_def)

theorem create_outcome:
  assumes "createImpl initialize from_file model cfg pl = (Inr ok, pl')"
  shows "if ok then pl_ready pl' \<and> (\<exists>m t. pl_model pl' = Some m \<and> initialize model = (Inr True, m)
                     \<and> pl_tokenizer pl' = Some t \<and> tk_has_template t)
    else generate_text env gcfg on_token prompt pl' = (Inr (emptyResult\<lparr> gr_stop := ''error'' \<rparr>), pl')
       \<and> generate_ids env gcfg on_token ids pl' = (Inr (emptyResult\<lparr> gr_stop := ''error'' \<rparr>), pl')"
  using assms
  by (auto simp: createImpl_def sx_simps sthen_run sbind_run generate_text_def generate_ids_def Let_def
      split: prod.splits if_splits option.splits sum.splits)

section \<open>Concrete runs\<close>

lemma try_slide_tokenizer: "try_slide env (cfg\<lparr> gc_has_tokenizer := b \<rparr>) = try_slide env cfg"
  by (simp add: try_slide_def fun_eq_iff)

lemma decode_step_tokenizer: "decode_step env (cfg\<lparr> gc_has_tokenizer := b \<rparr>) = decode_step env cfg"
  by (simp add: decode_step_def decode_make_room_def try_slide_tokenizer fun_eq_iff)

lemma decode_loop_tokenizer:
  "decode_loop env (cfg\<lparr> gc_has_tokenizer := b \<rparr>) cb max_cl n_keep n tok out = decode_loop env cfg cb max_cl n_keep n tok out"
  by (induction n arbitrary: tok out) (simp_all add: decode_step_tokenizer Let_def cong: if_cong)

lemma prepareSampler_tokenizer:
  assumes "\<not> gc_enable_sampling cfg"
  shows "prepareSampler env (cfg\<lparr> gc_has_tokenizer := b \<rparr>) prompt = prepareSampler env cfg prompt"
  using assms by (intro ext) (simp add: prepareSampler_def)

lemma tokenizer_irrelevant:
  assumes "\<not> gc_enable_sampling cfg"
  shows "generate env (cfg\<lparr> gc_has_tokenizer := b \<rparr>) cb prompt = generate env cfg cb prompt"
  by (simp add: generate_def decode_loop_tokenizer prepareSampler_tokenizer [OF assms] gen_n_keep_def gen_admit_def
      try_slide_tokenizer Let_def cong: if_cong)

definition demo_tokenizer :: "unit tokenizer" where
  "demo_tokenizer = \<lparr> tk_encode = (\<lambda>_. [0, 1]), tk_decode = (\<lambda>_. ''a''), tk_has_template = True, tk_template = (\<lambda>_. []) \<rparr>"

definition demo_pipeline :: "unit llm \<Rightarrow> (unit llm, unit) pipeline" where
  "demo_pipeline m = \<lparr> pl_model = Some m, pl_tokenizer = Some demo_tokenizer, pl_ready = True, pl_bos = 1 \<rparr>"

lemma demo_pipeline_fields:
  "pl_model (demo_pipeline m) = Some m" "pl_ready (demo_pipeline m)" "pl_tokenizer (demo_pipeline m) = Some demo_tokenizer"
  "pl_bos (demo_pipeline m) = 1" "tk_encode demo_tokenizer p = [0, 1]" "tk_decode demo_tokenizer t = ''a''"
  by (simp_all add: demo_pipeline_def demo_tokenizer_def)

lemma demo_decode: "tk_decode demo_tokenizer = (\<lambda>_. ''a'')"
  by (simp add: demo_tokenizer_def)

lemma demo_told_fields: "l_n_past (demo_at p n h) = n" "l_history (demo_at p n h) = h"
  by simp_all

lemma demo_greedy: "\<not> gc_enable_sampling (demo_cfg k)"
  by (simp add: demo_cfg_def)

lemma demo_bos: "with_bos 1 0 [0, 1] = [1, 0, 1]"
  by (simp add: with_bos_def)

text \<open>Two tokens are allowed and the model gives two: the run ends for its length.\<close>

lemma demo_cb_pure:
  assumes "cb [0]" "cb [0, 0]"
  shows "generate demo_env (demo_cfg 2) cb [1, 0, 1] (demo_at None 0 []) = (Inr [0, 0], demo_at None 5 [1, 0, 1, 0, 0])"
  by (simp add: demo_run assms)

lemma demo_text_run:
  "\<exists>res. generate_text demo_env (demo_cfg 2) None ''p'' (demo_pipeline (demo_at None 0 []))
     = (Inr res, demo_pipeline (demo_at None 5 [1, 0, 1, 0, 0])) \<and> gr_stop res = ''length''"
proof -
  let ?cb = "on_each_token (tk_decode demo_tokenizer) None" and ?cfg = "(demo_cfg 2)\<lparr> gc_has_tokenizer := True \<rparr>"
  have never: "\<not> sg_stopped (after ?cb s log)" if "\<not> sg_stopped s" for s log
    using that by (induction log arbitrary: s) (simp_all add: on_each_token_def Let_def)
  have e: "\<not> sg_stopped emptyStream" by (simp add: emptyStream_def)
  have yes: "answer ?cb emptyStream log" for log using never [OF e] by (simp add: stream_answer)
  obtain r m' c' where g: "generate_cb demo_env ?cfg ?cb [1, 0, 1] (demo_at None 0 [], emptyStream) = (r, (m', c'))"
    by (metis prod.exhaust)
  from generate_cb_replays [OF this] have "generate demo_env ?cfg (answer ?cb emptyStream) [1, 0, 1] (demo_at None 0 []) = (r, m')"
    "\<exists>log. c' = after ?cb emptyStream log" by auto
  with demo_cb_pure [of "answer ?cb emptyStream"] yes never [OF e]
  have r: "r = Inr [0, 0]" "m' = demo_at None 5 [1, 0, 1, 0, 0]" "\<not> sg_stopped c'"
    by (auto simp: tokenizer_irrelevant [OF demo_greedy])
  have f: "gc_max_tokens (demo_cfg 2) = 2" by (simp add: demo_cfg_def)
  show ?thesis
    unfolding generate_text_run [OF demo_pipeline_fields(1-3) refl, of demo_env "demo_cfg 2" None "''p''" "demo_at None 0 []"]
    using g by (simp add: demo_pipeline_fields demo_told_fields demo_bos stream_generate_def r finish_generation_def f
        finalize_generate_result_def emptyResult_def demo_pipeline_def)
qed

lemma text_pipeline_reports_witness:
  "\<exists>res pl'. generate_text demo_env (demo_cfg 2) None ''p'' (demo_pipeline (demo_at None 0 [])) = (Inr res, pl')
     \<and> gr_text res = ''aa'' \<and> gr_prompt res = 3 \<and> gr_generated res = 2"
proof -
  let ?pl' = "demo_pipeline (demo_at None 5 [1, 0, 1, 0, 0])"
  obtain res where r: "generate_text demo_env (demo_cfg 2) None ''p'' (demo_pipeline (demo_at None 0 [])) = (Inr res, ?pl')"
    "gr_stop res = ''length''" using demo_text_run by blast
  from text_pipeline_reports [OF r(1) demo_pipeline_fields(1-3) refl] obtain q log where
    rep: "reports (tk_decode demo_tokenizer) None (demo_cfg 2) 3 q log res"
    by (auto simp: demo_pipeline_fields demo_told_fields demo_bos numeral_3_eq_3)
  have f: "gc_max_tokens (demo_cfg 2) = 2" by (simp add: demo_cfg_def)
  from rep r(2) have "2 \<le> length log" "length log \<le> 2" "gr_generated res = length log" "gr_prompt res = 3"
    "gr_text res = concat (map (\<lambda>_. ''a'') log)"
    by (auto simp: reports_def f demo_decode split: sum.splits if_splits)
  moreover from calculation have "length log = 2" by simp
  then obtain x y where "log = [x, y]" by (auto simp: eval_nat_numeral length_Suc_conv)
  ultimately show ?thesis using r(1) by auto
qed

definition demo_processor :: "unit processor" where
  "demo_processor = \<lparr> vp_process = (\<lambda>_ _. Inr \<lparr> bt_input_ids = [7, 9, 9, 9, 9], bt_pixels = [], bt_grid = Some [[1, 4, 4]] \<rparr>), vp_template = (\<lambda>_. []) \<rparr>"

definition demo_vlm_pipeline :: "vlm \<Rightarrow> unit vlm_pipeline" where
  "demo_vlm_pipeline m = \<lparr> pl_model = Some m, pl_tokenizer = Some demo_tokenizer, pl_ready = True, pl_bos = - 1, vq_processor = Some demo_processor \<rparr>"

lemma demo_vlm_pipeline_fields:
  "pl_model (demo_vlm_pipeline m) = Some m" "vq_processor (demo_vlm_pipeline m) = Some demo_processor"
  "pl_tokenizer (demo_vlm_pipeline m) = Some demo_tokenizer" "pl_ready (demo_vlm_pipeline m)" "pl_bos (demo_vlm_pipeline m) = - 1"
  "prepare_input demo_processor p paths = Inr (demo_px, [7, 9, 9, 9, 9])"
  by (simp_all add: demo_vlm_pipeline_def demo_processor_def prepare_input_def toPixelData_def demo_px_def idx_vec_def to_i32_def)

lemma demo_image_run:
  "\<exists>res pl'. vlm_pipeline_generate demo_libm (demo_vlm_env demo_libm) (demo_cfg 1) None ''p'' [''i.png''] (demo_vlm_pipeline (demo_vlm demo_libm Qwen25VL 0))
     = (Inr res, pl')"
proof -
  let ?cb = "on_each_token (tk_decode demo_tokenizer) None" and ?cfg = "(demo_cfg 1)\<lparr> gc_has_tokenizer := True \<rparr>"
  let ?m = "demo_vlm demo_libm Qwen25VL 0"
  have g: "\<not> gc_sliding_window ?cfg" by (simp add: demo_cfg_fields)
  obtain st' where p: "vlm_generate demo_libm (demo_vlm_env demo_libm) ?cfg (answer ?cb emptyStream) [7, 9, 9, 9, 9] demo_px ?m = (Inl ContextLengthExceeded, st')"
    using vlm_refused [OF demo_no_deepstack demo_vlm_fields(2,3) demo_vlm_fields(12) demo_mrope_ok demo_px_embedded demo_vlm_fields(4) demo_too_long(1)
      demo_vlm_fields(5-7) demo_too_long(2) demo_px_tokens demo_too_long(3-5) g demo_too_long(6,7)] by blast
  obtain r m' c' where q: "vlm_generate_cb demo_libm (demo_vlm_env demo_libm) ?cfg ?cb [7, 9, 9, 9, 9] demo_px (?m, emptyStream) = (r, (m', c'))"
    by (metis prod.exhaust)
  with vlm_generate_cb_replays [OF q] p have "r = Inl ContextLengthExceeded" by auto
  with q show ?thesis
    by (simp add: vlm_pipeline_generate_def sx_simps demo_vlm_pipeline_fields with_bos_def with_model_def stream_generate_def finish_generation_def)
qed

lemma image_pipeline_reports_witness:
  "\<exists>res pl'. vlm_pipeline_generate demo_libm (demo_vlm_env demo_libm) (demo_cfg 1) None ''p'' [''i.png''] (demo_vlm_pipeline (demo_vlm demo_libm Qwen25VL 0))
     = (Inr res, pl') \<and> gr_prompt res = 5 \<and> gr_generated res \<le> 1"
proof -
  obtain res pl' where r: "vlm_pipeline_generate demo_libm (demo_vlm_env demo_libm) (demo_cfg 1) None ''p'' [''i.png''] (demo_vlm_pipeline (demo_vlm demo_libm Qwen25VL 0))
     = (Inr res, pl')" using demo_image_run by blast
  have f: "gc_max_tokens (demo_cfg 1) = 1" by (simp add: demo_cfg_def)
  show ?thesis
    using image_pipeline_reports [OF r demo_vlm_pipeline_fields(1-4,6) refl] r
    by (auto simp: reports_def demo_vlm_pipeline_fields with_bos_def f)
qed

lemma bos_once_witness:
  "with_bos 1 0 [0, 1] = [1, 0, 1] \<and> (\<forall>ids. with_bos 1 (l_n_past (demo_at None 5 [1, 0, 1, 0, 0])) ids = ids)"
proof -
  obtain res where r: "generate_text demo_env (demo_cfg 2) None ''p'' (demo_pipeline (demo_at None 0 []))
      = (Inr res, demo_pipeline (demo_at None 5 [1, 0, 1, 0, 0]))" "gr_stop res = ''length''" using demo_text_run by blast
  show ?thesis using bos_once [OF r(1) demo_pipeline_fields(1-3)] r(2) demo_cfg_fields(2) demo_bos
    by (auto simp: demo_pipeline_fields)
qed

lemma text_pipeline_refuses_witness:
  "\<exists>pl'. generate_text demo_env (demo_cfg 2) None ''p'' (demo_pipeline (demo_at None 7 [0, 0, 0, 0, 0, 0, 0]))
     = (Inr \<lparr> gr_text = [], gr_prompt = 2, gr_generated = 0, gr_stop = ''context_length'' \<rparr>, pl')"
  using text_pipeline_refuses [OF demo_pipeline_fields(1-3) refl demo_cfg_fields(2) [of 2], where m = "demo_at None 7 [0, 0, 0, 0, 0, 0, 0]"
    and prompt = "''p''" and env = demo_env and on_token = None]
  by (simp add: demo_pipeline_fields demo_told_fields with_bos_def gen_max_cl_def)

lemma create_outcome_witness:
  "\<exists>pl'. createImpl (\<lambda>m. (Inr True, m)) (\<lambda>_ _. None :: unit tokenizer option) (demo_at None 0 []) (emptyModelConfig\<lparr> mf_paths := [''/m/1.bin''] \<rparr>) emptyPipeline
     = (Inr False, pl') \<and> generate_text demo_env (demo_cfg 2) None ''p'' pl' = (Inr (emptyResult\<lparr> gr_stop := ''error'' \<rparr>), pl')"
proof -
  have "createImpl (\<lambda>m. (Inr True, m)) (\<lambda>_ _. None :: unit tokenizer option) (demo_at None 0 []) (emptyModelConfig\<lparr> mf_paths := [''/m/1.bin''] \<rparr>) emptyPipeline
      = (Inr False, emptyPipeline)"
    by (simp add: createImpl_def sx_simps sthen_run sbind_run resolveTokenizerConfigPath_def emptyModelConfig_def bundleDirOf_def emptyPipeline_def)
  from create_outcome [OF this] this show ?thesis by (intro exI [of _ emptyPipeline]) simp
qed

end
