(* ===== verification/SSDTree.thy ===== *)
theory SSDTree
  imports LLMGenerate
begin

text \<open>
  The draft tree of self-speculative decoding (\<open>models/llama3_2_ssd/ssd_model.cpp\<close>): the
  static parent array of draft nodes and forecast tokens, tree positions, the tree
  attention mask, the choice of the draft tokens from the forecast logits, greedy
  verification, and the runs of accepted positions copied into the cache.

  \<open>std::partial_sort\<close> leaves the order of equivalent elements open, so it is a parameter
  of what calls it; the logits of a position come from a reader, which the stateful part
  instantiates with the output tensor of the last shard.
\<close>

section \<open>The draft tree\<close>

record ssd_config =
  sc_branches :: "nat list"
  sc_forecast_prefix :: nat
  sc_prefix_path :: string
  sc_rope_theta :: f32

record draft_map =
  dm_parents :: "int list"
  dm_nodes :: nat
  dm_samples :: "nat list"
  dm_level_nodes :: "nat list"

definition grow_level :: "nat \<Rightarrow> nat \<times> int list \<times> nat list \<times> nat list \<Rightarrow> nat \<times> int list \<times> nat list \<times> nat list" where
  "grow_level b = (\<lambda>(start, tree, samples, nodes).
     let tree' = tree @ concat (map (\<lambda>n. replicate b (to_i32 (int n))) [start..<length tree])
     in (length tree, tree', samples @ [b + 1], nodes @ [length tree' - length tree]))"

definition forecast_chain :: "nat \<Rightarrow> nat \<Rightarrow> int list \<Rightarrow> int list" where
  "forecast_chain levels node tree =
     fold (\<lambda>_ t. t @ [to_i32 (int (length t - 1))]) [1..<levels] (tree @ [to_i32 (int node)])"

definition genAttentionMap :: "nat list \<Rightarrow> draft_map" where
  "genAttentionMap branches =
     (let (_, tree, samples, nodes) = fold grow_level branches (0, [-1], [], []);
          full = fold (forecast_chain (length branches)) [0..<length tree] tree
      in \<lparr> dm_parents = full, dm_nodes = length tree, dm_samples = samples, dm_level_nodes = nodes \<rparr>)"

definition genForecastTokens :: "nat \<Rightarrow> nat \<Rightarrow> nat \<Rightarrow> int list" where
  "genForecastTokens vocab levels reps =
     concat (replicate reps (map (\<lambda>d. to_i32 (int vocab) + int d) [0..<levels]))"

text \<open>The number of nodes the levels have, and what a parent array of a rooted tree is.\<close>

fun level_sizes :: "nat \<Rightarrow> nat list \<Rightarrow> nat list" where
  "level_sizes w [] = []"
| "level_sizes w (b # bs) = w * b # level_sizes (w * b) bs"

definition tree_nodes :: "nat list \<Rightarrow> nat" where
  "tree_nodes bs = 1 + sum_list (level_sizes 1 bs)"

definition map_size :: "nat list \<Rightarrow> nat" where
  "map_size bs = tree_nodes bs + tree_nodes bs * max 1 (length bs)"

definition wf_parents :: "int list \<Rightarrow> bool" where
  "wf_parents ps \<longleftrightarrow> ps \<noteq> [] \<and> ps ! 0 = -1 \<and> (\<forall>i. 0 < i \<and> i < length ps \<longrightarrow> 0 \<le> ps ! i \<and> ps ! i < int i)"

lemma wf_parents_append:
  assumes "wf_parents ps" "\<And>i. i < length xs \<Longrightarrow> 0 \<le> xs ! i \<and> xs ! i < int (length ps + i)"
  shows "wf_parents (ps @ xs)"
  unfolding wf_parents_def
proof (intro conjI allI impI)
  show "ps @ xs \<noteq> []" "(ps @ xs) ! 0 = -1" using assms(1) by (auto simp: wf_parents_def nth_append)
  fix i assume i: "0 < i \<and> i < length (ps @ xs)"
  show "0 \<le> (ps @ xs) ! i" "(ps @ xs) ! i < int i"
    using i assms(1) assms(2) [of "i - length ps"] by (auto simp: wf_parents_def nth_append)
qed

definition level_parents :: "nat \<Rightarrow> nat \<Rightarrow> nat \<Rightarrow> int list" where
  "level_parents b from_n to_n = concat (map (\<lambda>n. replicate b (int n)) [from_n..<to_n])"

lemma length_level_parents: "length (level_parents b from_n to_n) = (to_n - from_n) * b"
proof -
  have "sum_list (map (\<lambda>n. length (replicate b (int n))) ns) = length ns * b" for ns
    by (induction ns) simp_all
  from this [of "[from_n..<to_n]"] show ?thesis by (simp add: level_parents_def length_concat comp_def)
qed

lemma set_level_parents: "p \<in> set (level_parents b from_n to_n) \<Longrightarrow> \<exists>n. p = int n \<and> from_n \<le> n \<and> n < to_n"
  by (auto simp: level_parents_def)

lemma grow_level_exact:
  assumes "length tree \<le> 2 ^ 31"
  shows "grow_level b (start, tree, samples, nodes) =
    (length tree, tree @ level_parents b start (length tree), samples @ [b + 1], nodes @ [(length tree - start) * b])"
proof -
  have "map (\<lambda>n. replicate b (to_i32 (int n))) [start..<length tree] = map (\<lambda>n. replicate b (int n)) [start..<length tree]"
    using assms by (intro map_cong) (auto simp: to_i32_id)
  then have "concat (map (\<lambda>n. replicate b (to_i32 (int n))) [start..<length tree]) = level_parents b start (length tree)"
    by (simp only: level_parents_def)
  then show ?thesis by (simp add: grow_level_def Let_def length_level_parents)
qed

text \<open>The parents of the levels below the nodes from \<open>start\<close> to \<open>len\<close>.\<close>

fun level_map :: "nat list \<Rightarrow> nat \<Rightarrow> nat \<Rightarrow> int list" where
  "level_map [] start len = []"
| "level_map (b # bs) start len = level_parents b start len @ level_map bs len (len + (len - start) * b)"

lemma grow_levels:
  assumes "wf_parents tree" "start < length tree" "0 \<notin> set bs"
    "length tree + sum_list (level_sizes (length tree - start) bs) \<le> 2 ^ 31"
  shows "\<exists>start' ext. fold grow_level bs (start, tree, samples, nodes) =
      (start', tree @ ext, samples @ map Suc bs, nodes @ level_sizes (length tree - start) bs)
    \<and> wf_parents (tree @ ext) \<and> length ext = sum_list (level_sizes (length tree - start) bs)
    \<and> ext = level_map bs start (length tree)"
  using assms
proof (induction bs arbitrary: start tree samples nodes)
  case Nil
  then show ?case by simp
next
  case (Cons b bs)
  let ?lp = "level_parents b start (length tree)"
  have l: "length ?lp = (length tree - start) * b" by (rule length_level_parents)
  have g: "grow_level b (start, tree, samples, nodes) = (length tree, tree @ ?lp, samples @ [Suc b], nodes @ [(length tree - start) * b])"
    using grow_level_exact [of tree b start samples nodes] Cons.prems(4) by simp
  have wf: "wf_parents (tree @ ?lp)"
  proof (rule wf_parents_append [OF Cons.prems(1)])
    fix i assume "i < length ?lp"
    then have "?lp ! i \<in> set ?lp" by simp
    from set_level_parents [OF this] show "0 \<le> ?lp ! i \<and> ?lp ! i < int (length tree + i)" by auto
  qed
  have "0 < (length tree - start) * b" using Cons.prems by simp
  with Cons.IH [of "tree @ ?lp" "length tree" "samples @ [Suc b]" "nodes @ [(length tree - start) * b]"]
    wf Cons.prems l
  show ?case by (auto simp: g add.assoc)
qed

lemma forecast_chain_exact:
  assumes "length t + max 1 levels \<le> 2 ^ 31" "node < 2 ^ 31"
  shows "forecast_chain levels node t = t @ int node # map (\<lambda>d. int (length t + d)) [0..<levels - 1]"
proof -
  have "fold (\<lambda>_ u. u @ [to_i32 (int (length u - 1))]) xs (t @ int node # map (\<lambda>d. int (length t + d)) [0..<k])
      = t @ int node # map (\<lambda>d. int (length t + d)) [0..<k + length xs]"
    if "length t + Suc (k + length xs) \<le> 2 ^ 31" for k and xs :: "nat list"
    using that
  proof (induction xs arbitrary: k)
    case Nil
    then show ?case by simp
  next
    case (Cons x xs)
    have "to_i32 (int (length t + k)) = int (length t + k)" using Cons.prems by (intro to_i32_id) simp_all
    with Cons.IH [of "Suc k"] Cons.prems show ?case by simp
  qed
  from this [of 0 "[1..<levels]"] assms show ?thesis
    by (cases "levels = 0") (simp_all add: forecast_chain_def to_i32_id)
qed

text \<open>The parents of all forecast nodes: node \<open>k\<close> of the tree starts a chain of \<open>levels\<close>.\<close>

definition forecast_parent :: "nat \<Rightarrow> nat \<Rightarrow> nat \<Rightarrow> int" where
  "forecast_parent nodes levels i =
     (if i mod levels = 0 then int (i div levels) else int (nodes + i - 1))"

lemma forecast_chains:
  assumes "0 < levels" "length tree + k * levels \<le> 2 ^ 31" "k \<le> length tree"
  shows "fold (forecast_chain levels) [0..<k] tree
      = tree @ map (forecast_parent (length tree) levels) [0..<k * levels]"
  using assms(2,3)
proof (induction k)
  case 0
  then show ?case by simp
next
  case (Suc k)
  let ?t = "tree @ map (forecast_parent (length tree) levels) [0..<k * levels]"
  have "int k # map (\<lambda>d. int (length ?t + d)) [0..<levels - 1]
      = map (forecast_parent (length tree) levels) [k * levels..<k * levels + levels]" (is "?l = ?r")
  proof (rule nth_equalityI)
    show "length ?l = length ?r" using assms(1) by simp
    fix i assume i: "i < length ?l"
    show "?l ! i = ?r ! i"
    proof (cases i)
      case 0
      then show ?thesis using assms(1) by (simp add: forecast_parent_def)
    next
      case (Suc j)
      then have "(k * levels + i) mod levels \<noteq> 0" using i by simp
      then show ?thesis using Suc i by (simp add: forecast_parent_def)
    qed
  qed
  moreover have "forecast_chain levels k ?t = ?t @ int k # map (\<lambda>d. int (length ?t + d)) [0..<levels - 1]"
  proof (rule forecast_chain_exact)
    have "length tree + (k * levels + levels) \<le> 2 ^ 31" using Suc.prems(1) by (simp only: mult_Suc add.commute)
    moreover have "max 1 levels = levels" using assms(1) by linarith
    ultimately show "length ?t + max 1 levels \<le> 2 ^ 31" by (simp only: length_append length_map length_upt diff_zero add.assoc)
    show "k < 2 ^ 31" using Suc.prems by linarith
  qed
  moreover have "[0..<Suc k * levels] = [0..<k * levels] @ [k * levels..<k * levels + levels]"
  proof -
    have "[0..<k * levels + levels] = [0..<k * levels] @ [k * levels..<k * levels + levels]"
      by (rule upt_add_eq_append) simp
    moreover have "Suc k * levels = k * levels + levels" by simp
    ultimately show ?thesis by (simp only:)
  qed
  moreover have "fold (forecast_chain levels) [0..<k] tree = ?t" using Suc by simp
  moreover have "[0..<Suc k] = [0..<k] @ [k]" by simp
  ultimately show ?case by (simp only: fold_append fold_simps comp_apply map_append append_assoc id_apply)
qed

lemma genAttentionMap_spec:
  assumes "bs \<noteq> []" "0 \<notin> set bs" "map_size bs \<le> 2 ^ 31"
  shows "\<exists>tree. length tree = tree_nodes bs \<and> wf_parents tree \<and> tree = -1 # level_map bs 0 1
    \<and> genAttentionMap bs = \<lparr> dm_parents = tree @ map (forecast_parent (tree_nodes bs) (length bs)) [0..<tree_nodes bs * length bs],
        dm_nodes = tree_nodes bs, dm_samples = map Suc bs, dm_level_nodes = level_sizes 1 bs \<rparr>"
proof -
  have "wf_parents [-1]" by (auto simp: wf_parents_def)
  from grow_levels [OF this, of 0 bs "[]" "[]"] assms obtain start ext where
    g: "fold grow_level bs (0, [-1], [], []) = (start, [-1] @ ext, map Suc bs, level_sizes 1 bs)"
    and wf: "wf_parents ([-1] @ ext)" and l: "length ext = sum_list (level_sizes 1 bs)"
    and e: "[-1] @ ext = -1 # level_map bs 0 1"
    by (auto simp: map_size_def tree_nodes_def)
  have n: "length ([-1 :: int] @ ext) = tree_nodes bs" using l by (simp add: tree_nodes_def)
  have "0 < length bs" using assms(1) by simp
  have "max 1 (length bs) = length bs" using \<open>0 < length bs\<close> by linarith
  then have "tree_nodes bs + tree_nodes bs * length bs \<le> 2 ^ 31" using assms(3) by (simp add: map_size_def)
  with forecast_chains [OF \<open>0 < length bs\<close>, of "[-1] @ ext" "tree_nodes bs"] n
  have f: "fold (forecast_chain (length bs)) [0..<tree_nodes bs] ([-1] @ ext)
      = ([-1] @ ext) @ map (forecast_parent (tree_nodes bs) (length bs)) [0..<tree_nodes bs * length bs]"
    by (simp only:)
  have "genAttentionMap bs = \<lparr> dm_parents = fold (forecast_chain (length bs)) [0..<length ([-1 :: int] @ ext)] ([-1] @ ext),
      dm_nodes = length ([-1 :: int] @ ext), dm_samples = map Suc bs, dm_level_nodes = level_sizes 1 bs \<rparr>"
    by (simp only: genAttentionMap_def g Let_def prod.case)
  with n f wf e show ?thesis by (intro exI [of _ "[-1] @ ext"]) (simp only: simp_thms)
qed

lemma forecast_parent_bounds:
  assumes "0 < levels" "i < nodes * levels"
  shows "0 \<le> forecast_parent nodes levels i \<and> forecast_parent nodes levels i < int (nodes + i)"
proof -
  have d: "i div levels < nodes" using assms by (simp add: less_mult_imp_div_less)
  show ?thesis
  proof (cases "i mod levels = 0")
    case True
    then have "forecast_parent nodes levels i = int (i div levels)" by (simp only: forecast_parent_def if_True simp_thms)
    with d show ?thesis by linarith
  next
    case False
    then have "0 < i" by (metis mod_0 not_gr0)
    with False show ?thesis by (simp add: forecast_parent_def)
  qed
qed

text \<open>What the rest of the decoder relies on.\<close>

lemma genAttentionMap_facts:
  assumes "bs \<noteq> []" "0 \<notin> set bs" "map_size bs \<le> 2 ^ 31" and dm: "dm = genAttentionMap bs"
  shows "wf_parents (dm_parents dm)" "length (dm_parents dm) = map_size bs" "dm_nodes dm = tree_nodes bs"
    "take (tree_nodes bs) (dm_parents dm) = -1 # level_map bs 0 1"
    "dm_samples dm = map Suc bs" "dm_level_nodes dm = level_sizes 1 bs"
    "\<And>k d. k < dm_nodes dm \<Longrightarrow> d < length bs \<Longrightarrow>
       dm_parents dm ! (dm_nodes dm + k * length bs + d)
         = (if d = 0 then int k else int (dm_nodes dm + k * length bs + d - 1))"
proof -
  let ?n = "tree_nodes bs" and ?L = "length bs"
  have L: "0 < ?L" using assms(1) by simp
  from genAttentionMap_spec [OF assms(1-3)] dm obtain tree where
    t: "length tree = ?n" "wf_parents tree" "tree = -1 # level_map bs 0 1" and
    d: "dm = \<lparr> dm_parents = tree @ map (forecast_parent ?n ?L) [0..<?n * ?L], dm_nodes = ?n,
          dm_samples = map Suc bs, dm_level_nodes = level_sizes 1 bs \<rparr>" by auto
  show "wf_parents (dm_parents dm)"
    using wf_parents_append [OF t(2), of "map (forecast_parent ?n ?L) [0..<?n * ?L]"] forecast_parent_bounds [OF L] t(1)
    by (simp add: d)
  have "max 1 ?L = ?L" using L by linarith
  then show "length (dm_parents dm) = map_size bs" using t(1) by (simp add: d map_size_def)
  show "take ?n (dm_parents dm) = -1 # level_map bs 0 1" using t(1) t(3) [symmetric] by (simp add: d)
  show "dm_nodes dm = ?n" "dm_samples dm = map Suc bs" "dm_level_nodes dm = level_sizes 1 bs" by (simp_all add: d)
  show "dm_parents dm ! (dm_nodes dm + k * ?L + e)
      = (if e = 0 then int k else int (dm_nodes dm + k * ?L + e - 1))" if "k < dm_nodes dm" "e < ?L" for k e
  proof -
    have "k * ?L + e < ?n * ?L" using row_col_less [of k ?n e ?L] that by (simp add: d)
    moreover have "(k * ?L + e) mod ?L = e" using that(2) by simp
    moreover have "(k * ?L + e) div ?L = k" using that(2) by (subst div_mult_self3) auto
    ultimately show ?thesis using t(1) assms(1) by (simp add: d nth_append forecast_parent_def add.assoc)
  qed
qed

section \<open>Ancestors\<close>

text \<open>The nodes above a node, nearest first: what the tree mask and the positions are about.\<close>

function ancestors :: "int list \<Rightarrow> nat \<Rightarrow> nat list" where
  "ancestors ps i =
     (if i < length ps \<and> 0 \<le> ps ! i \<and> ps ! i < int i then nat (ps ! i) # ancestors ps (nat (ps ! i)) else [])"
  by pat_completeness auto
termination by (relation "measure snd") auto

declare ancestors.simps [simp del]

lemma ancestors_0: "wf_parents ps \<Longrightarrow> ancestors ps 0 = []"
  by (subst ancestors.simps) (simp add: wf_parents_def)

lemma ancestors_pos:
  "wf_parents ps \<Longrightarrow> 0 < i \<Longrightarrow> i < length ps \<Longrightarrow> ancestors ps i = nat (ps ! i) # ancestors ps (nat (ps ! i))"
  by (subst ancestors.simps) (auto simp: wf_parents_def)

lemma parent_less: "wf_parents ps \<Longrightarrow> 0 < i \<Longrightarrow> i < length ps \<Longrightarrow> nat (ps ! i) < i \<and> 0 \<le> ps ! i"
  by (auto simp: wf_parents_def)

lemma parent_neg: "wf_parents ps \<Longrightarrow> i < length ps \<Longrightarrow> ps ! i < 0 \<longleftrightarrow> i = 0"
  using parent_less [of ps i] by (cases "i = 0") (auto simp: wf_parents_def)

lemma ancestors_less:
  assumes "wf_parents ps" "i < length ps" "j \<in> set (ancestors ps i)"
  shows "j < i"
  using assms(2,3)
proof (induction i rule: less_induct)
  case (less i)
  show ?case
  proof (cases "i = 0")
    case True
    then show ?thesis using less.prems ancestors_0 [OF assms(1)] by simp
  next
    case False
    with less.prems ancestors_pos [OF assms(1), of i] parent_less [OF assms(1), of i]
    have "j = nat (ps ! i) \<or> j \<in> set (ancestors ps (nat (ps ! i)))" "nat (ps ! i) < i" by auto
    with less.IH [of "nat (ps ! i)"] less.prems(1) show ?thesis by auto
  qed
qed

section \<open>Positions\<close>

definition tree_position :: "int list \<Rightarrow> int \<Rightarrow> nat \<Rightarrow> int list \<Rightarrow> int list res" where
  "tree_position ps root i pos =
     rbind (idx_vec ps i) (\<lambda>p.
       if p < 0 then Inr (pos[i := root])
       else rbind (idx_vec pos (nat p)) (\<lambda>v. Inr (pos[i := v + 1])))"

definition computeTreePositionIds :: "int list \<Rightarrow> nat \<Rightarrow> nat \<Rightarrow> nat \<Rightarrow> int list res" where
  "computeTreePositionIds ps fp n_past num_tokens =
     rfor (tree_position ps (to_i32 (int (szsub n_past fp)))) [0..<num_tokens] (replicate num_tokens 0)"

lemma computeTreePositionIds_depth:
  assumes "wf_parents ps" "num_tokens \<le> length ps"
  shows "computeTreePositionIds ps fp n_past num_tokens
    = Inr (map (\<lambda>i. to_i32 (int (szsub n_past fp)) + int (length (ancestors ps i))) [0..<num_tokens])"
proof -
  let ?v = "\<lambda>i. to_i32 (int (szsub n_past fp)) + int (length (ancestors ps i))"
  have "\<exists>pos. rfor (tree_position ps (to_i32 (int (szsub n_past fp)))) [0..<num_tokens] (replicate num_tokens 0) = Inr pos
     \<and> length pos = num_tokens \<and> (\<forall>i<length [0..<num_tokens]. pos ! i = ?v i)"
  proof (rule rfor_total)
    show "length (replicate num_tokens 0) = num_tokens \<and> (\<forall>i<0. replicate num_tokens 0 ! i = ?v i)" by simp
  next
    fix k and pos :: "int list"
    assume k: "k < length [0..<num_tokens]" and I: "length pos = num_tokens \<and> (\<forall>i<k. pos ! i = ?v i)"
    then have kl: "k < length ps" using assms(2) by simp
    show "\<exists>pos'. tree_position ps (to_i32 (int (szsub n_past fp))) ([0..<num_tokens] ! k) pos = Inr pos'
        \<and> length pos' = num_tokens \<and> (\<forall>i<Suc k. pos' ! i = ?v i)"
    proof (cases "k = 0")
      case True
      then show ?thesis using k I kl assms(1)
        by (simp add: tree_position_def idx_vec_def parent_neg ancestors_0 less_Suc_eq)
    next
      case False
      then have p: "nat (ps ! k) < k" "0 \<le> ps ! k" using parent_less [OF assms(1)] kl by auto
      have "?v k = ?v (nat (ps ! k)) + 1" using ancestors_pos [OF assms(1), of k] False kl by simp
      then show ?thesis using k I kl p by (simp add: tree_position_def idx_vec_def less_Suc_eq not_less [symmetric])
    qed
  qed
  then obtain pos where "computeTreePositionIds ps fp n_past num_tokens = Inr pos" "length pos = num_tokens"
    "\<forall>i<num_tokens. pos ! i = ?v i" by (auto simp: computeTreePositionIds_def)
  then show ?thesis by (auto intro: nth_equalityI)
qed

section \<open>The tree mask\<close>

text \<open>The climb to the root; there are at most as many steps as nodes.\<close>

fun mark_ancestors :: "int list \<Rightarrow> nat \<Rightarrow> nat \<Rightarrow> int \<Rightarrow> f32 list \<Rightarrow> f32 list res" where
  "mark_ancestors ps 0 base a msk = (if a < 0 then Inr msk else Inl Blocked)"
| "mark_ancestors ps (Suc k) base a msk =
     (if a < 0 then Inr msk
      else rbind (buf_store (base + nat a) [0] msk) (\<lambda>msk.
           rbind (idx_vec ps (nat a)) (\<lambda>a. mark_ancestors ps k base a msk)))"

definition tree_mask_row :: "int list \<Rightarrow> nat \<Rightarrow> nat \<Rightarrow> nat \<Rightarrow> nat \<Rightarrow> nat \<Rightarrow> nat \<Rightarrow> f32 list \<Rightarrow> f32 list res" where
  "tree_mask_row ps fp n_past seq_len kv_len prefix_off i msk =
     (let row = i * (kv_len + seq_len); lo = (if i < prefix_off then fp else 0)
      in rbind (if lo < n_past then buf_store (row + lo) (replicate (n_past - lo) 0) msk else Inr msk) (\<lambda>msk.
         rbind (buf_store (row + kv_len + i) [0] msk) (\<lambda>msk.
         rbind (idx_vec ps i) (\<lambda>a. mark_ancestors ps (length ps) (row + kv_len) a msk))))"

definition buildTreeAttentionMask :: "int list \<Rightarrow> nat \<Rightarrow> nat \<Rightarrow> nat \<Rightarrow> nat \<Rightarrow> nat \<Rightarrow> nat \<Rightarrow> f32 list res" where
  "buildTreeAttentionMask ps fp n_past num_tokens seq_len kv_len prefix_off =
     rfor (tree_mask_row ps fp n_past seq_len kv_len prefix_off) [0..<num_tokens]
       (replicate (seq_len * (kv_len + seq_len)) f32_masked)"

lemma mark_ancestors_ok:
  assumes wf: "wf_parents ps" and i: "i < length ps" and "i < k" "kv_len + i \<le> w" "length msk = H * w" "row < H"
  shows "\<exists>msk'. mark_ancestors ps k (row * w + kv_len) (ps ! i) msk = Inr msk' \<and> length msk' = H * w
     \<and> (\<forall>r<H. \<forall>c<w. mask_at w msk' r c
          = (if r = row \<and> kv_len \<le> c \<and> c - kv_len \<in> set (ancestors ps i) then 0 else mask_at w msk r c))"
  using assms(2-5)
proof (induction k arbitrary: i msk)
  case 0
  then show ?case by simp
next
  case (Suc k)
  show ?case
  proof (cases "i = 0")
    case True
    then show ?thesis using Suc.prems parent_neg [OF wf, of i] ancestors_0 [OF wf] by simp
  next
    case False
    let ?p = "nat (ps ! i)"
    have p: "?p < i" "0 \<le> ps ! i" using parent_less [OF wf, of i] False Suc.prems(1) by auto
    from mask_store [of msk H w row "kv_len + ?p" 1 0] Suc.prems p assms(6) obtain m1 where
      m1: "buf_store (row * w + kv_len + ?p) [0] msk = Inr m1" "length m1 = H * w"
        "\<forall>r<H. \<forall>c<w. mask_at w m1 r c = (if r = row \<and> c = kv_len + ?p then 0 else mask_at w msk r c)"
      by (force simp: add.assoc le_less_Suc_eq)
    from Suc.IH [of ?p m1] Suc.prems p m1(2) obtain m2 where
      m2: "mark_ancestors ps k (row * w + kv_len) (ps ! ?p) m1 = Inr m2" "length m2 = H * w"
        "\<forall>r<H. \<forall>c<w. mask_at w m2 r c
          = (if r = row \<and> kv_len \<le> c \<and> c - kv_len \<in> set (ancestors ps ?p) then 0 else mask_at w m1 r c)"
      by auto
    have "mark_ancestors ps (Suc k) (row * w + kv_len) (ps ! i) msk = Inr m2"
      using m1(1) m2(1) p Suc.prems(1) by (simp add: idx_vec_def)
    moreover have "ancestors ps i = ?p # ancestors ps ?p" using ancestors_pos [OF wf] False Suc.prems(1) by simp
    ultimately show ?thesis using m1(3) m2(2,3) by (intro exI [of _ m2]) auto
  qed
qed

text \<open>What a position may attend to: the cache, the draft path above it and itself.\<close>

definition tree_visible :: "int list \<Rightarrow> nat \<Rightarrow> nat \<Rightarrow> nat \<Rightarrow> nat \<Rightarrow> nat \<Rightarrow> nat \<Rightarrow> nat \<Rightarrow> bool" where
  "tree_visible ps fp n_past num_tokens kv_len prefix_off row col \<longleftrightarrow>
     row < num_tokens \<and> ((if row < prefix_off then fp else 0) \<le> col \<and> col < n_past
       \<or> kv_len \<le> col \<and> (col - kv_len = row \<or> col - kv_len \<in> set (ancestors ps row)))"

lemma tree_mask_row_ok:
  assumes wf: "wf_parents ps" and row: "row < length ps" "row < seq_len" and n: "n_past \<le> kv_len"
    and l: "length msk = seq_len * (kv_len + seq_len)"
  shows "\<exists>msk'. tree_mask_row ps fp n_past seq_len kv_len prefix_off row msk = Inr msk'
     \<and> length msk' = seq_len * (kv_len + seq_len)
     \<and> (\<forall>r < seq_len. \<forall>c<kv_len + seq_len. mask_at (kv_len + seq_len) msk' r c
          = (if r = row \<and> tree_visible ps fp n_past (Suc row) kv_len prefix_off row c then 0
             else mask_at (kv_len + seq_len) msk r c))"
proof -
  let ?w = "kv_len + seq_len"
  define lo where "lo = (if row < prefix_off then fp else 0)"
  have "\<exists>m1. (if lo < n_past then buf_store (row * ?w + lo) (replicate (n_past - lo) 0) msk else Inr msk) = Inr m1
      \<and> length m1 = seq_len * ?w \<and> (\<forall>r < seq_len. \<forall>c<?w. mask_at ?w m1 r c
          = (if r = row \<and> lo \<le> c \<and> c < n_past then 0 else mask_at ?w msk r c))"
    using mask_store [OF l row(2), of lo "n_past - lo" 0] n l by auto
  then obtain m1 where
    m1: "(if lo < n_past then buf_store (row * ?w + lo) (replicate (n_past - lo) 0) msk else Inr msk) = Inr m1"
      "length m1 = seq_len * ?w" "\<forall>r < seq_len. \<forall>c<?w. mask_at ?w m1 r c
          = (if r = row \<and> lo \<le> c \<and> c < n_past then 0 else mask_at ?w msk r c)" by blast
  from mask_store [OF m1(2) row(2), of "kv_len + row" 1 0] row(2) obtain m2 where
    m2: "buf_store (row * ?w + kv_len + row) [0] m1 = Inr m2" "length m2 = seq_len * ?w"
      "\<forall>r < seq_len. \<forall>c<?w. mask_at ?w m2 r c = (if r = row \<and> c = kv_len + row then 0 else mask_at ?w m1 r c)"
    by (force simp: add.assoc le_less_Suc_eq)
  from mark_ancestors_ok [OF wf row(1) row(1), of kv_len ?w m2 seq_len row] row(2) m2(2) obtain m3 where
    m3: "mark_ancestors ps (length ps) (row * ?w + kv_len) (ps ! row) m2 = Inr m3" "length m3 = seq_len * ?w"
      "\<forall>r < seq_len. \<forall>c<?w. mask_at ?w m3 r c
          = (if r = row \<and> kv_len \<le> c \<and> c - kv_len \<in> set (ancestors ps row) then 0 else mask_at ?w m2 r c)"
    by auto
  have "tree_mask_row ps fp n_past seq_len kv_len prefix_off row msk = Inr m3"
    using m1(1) m2(1) m3(1) row(1) by (simp add: tree_mask_row_def Let_def lo_def [symmetric] idx_vec_def)
  moreover have "mask_at ?w m3 r c = (if r = row \<and> tree_visible ps fp n_past (Suc row) kv_len prefix_off row c then 0
      else mask_at ?w msk r c)" if "r < seq_len" "c < ?w" for r c
  proof -
    have "c = kv_len + row \<longleftrightarrow> kv_len \<le> c \<and> c - kv_len = row" by auto
    then show ?thesis using m1(3) m2(3) m3(3) that by (auto simp: tree_visible_def lo_def)
  qed
  ultimately show ?thesis using m3(2) by blast
qed


section \<open>Choosing the draft tokens\<close>

text \<open>\<open>std::partial_sort\<close> with a comparator, up to a middle position.\<close>

type_synonym partial_sort = "(int \<Rightarrow> int \<Rightarrow> bool) \<Rightarrow> nat \<Rightarrow> int list \<Rightarrow> int list"

definition topKLogits :: "partial_sort \<Rightarrow> nat \<Rightarrow> f32 list \<Rightarrow> nat \<Rightarrow> int list" where
  "topKLogits psort vocab row k =
     (let k = (if vocab < k then vocab else k)
      in take k (psort (\<lambda>a b. f32_lt (row ! nat b) (row ! nat a)) k (map int [0..<vocab])))"

definition argmaxLogits :: "f32 list \<Rightarrow> int" where
  "argmaxLogits row = to_i32 (int (argmax row))"

record sampling =
  ss_tree :: "int list"
  ss_level :: nat
  ss_node :: nat
  ss_samples :: "int list"
  ss_next :: nat

definition sample_node :: "(nat \<Rightarrow> f32 list res) \<Rightarrow> (f32 list \<Rightarrow> nat \<Rightarrow> int list) \<Rightarrow> draft_map \<Rightarrow> nat \<Rightarrow> nat
    \<Rightarrow> sampling \<Rightarrow> sampling res" where
  "sample_node read topk dm start_offset cur s =
     rbind (idx_vec (dm_parents dm) cur) (\<lambda>parent.
     rbind (idx_vec (dm_parents dm) (cur - 1)) (\<lambda>prev.
       let next_i = (if parent \<noteq> prev then 0 else ss_next s)
       in rbind (if ss_node s = 0
                 then rbind (read (start_offset + ss_level s)) (\<lambda>row.
                      rbind (idx_vec (dm_samples dm) (ss_level s)) (\<lambda>k. Inr (topk row k)))
                 else Inr (ss_samples s)) (\<lambda>samples.
          rbind (idx_vec samples next_i) (\<lambda>cand.
          rbind (idx_vec (ss_tree s) (nat parent)) (\<lambda>ptok.
            let next_i = (if cand = ptok then next_i + 1 else next_i)
            in rbind (idx_vec samples next_i) (\<lambda>tok.
               rbind (idx_vec (dm_level_nodes dm) (ss_level s)) (\<lambda>width.
                 Inr (if width \<le> ss_node s + 1
                      then \<lparr> ss_tree = ss_tree s @ [tok], ss_level = ss_level s + 1, ss_node = 0,
                             ss_samples = samples, ss_next = next_i + 1 \<rparr>
                      else \<lparr> ss_tree = ss_tree s @ [tok], ss_level = ss_level s, ss_node = ss_node s + 1,
                             ss_samples = samples, ss_next = next_i + 1 \<rparr>))))))))"

text \<open>The loop reads \<open>attention_map_[cur_idx]\<close> first, so it cannot pass the end of the map.\<close>

fun sample_loop :: "(nat \<Rightarrow> f32 list res) \<Rightarrow> (f32 list \<Rightarrow> nat \<Rightarrow> int list) \<Rightarrow> draft_map \<Rightarrow> nat \<Rightarrow> nat \<Rightarrow> nat
    \<Rightarrow> nat \<Rightarrow> sampling \<Rightarrow> sampling res" where
  "sample_loop read topk dm levels start_offset 0 cur s =
     (if ss_level s < levels then Inl UndefinedBehaviour else Inr s)"
| "sample_loop read topk dm levels start_offset (Suc fuel) cur s =
     (if ss_level s < levels
      then rbind (sample_node read topk dm start_offset cur s) (sample_loop read topk dm levels start_offset fuel (cur + 1))
      else Inr s)"

definition buildSampleTree :: "(nat \<Rightarrow> f32 list res) \<Rightarrow> (f32 list \<Rightarrow> nat \<Rightarrow> int list) \<Rightarrow> draft_map \<Rightarrow> nat \<Rightarrow> int \<Rightarrow> nat
    \<Rightarrow> int list res" where
  "buildSampleTree read topk dm levels last_token start_offset =
     rbind (sample_loop read topk dm levels start_offset (length (dm_parents dm) - 1) 1
       \<lparr> ss_tree = [last_token], ss_level = 0, ss_node = 0, ss_samples = [], ss_next = 0 \<rparr>) (\<lambda>s. Inr (ss_tree s))"

section \<open>Verification\<close>

primrec verify_nodes :: "(nat \<Rightarrow> f32 list res) \<Rightarrow> int list \<Rightarrow> int list \<Rightarrow> int list \<Rightarrow> nat list
    \<Rightarrow> int list \<times> nat list \<Rightarrow> (int list \<times> nat list) res" where
  "verify_nodes read eos ps draft [] acc = Inr acc"
| "verify_nodes read eos ps draft (i # is) acc =
     rbind (idx_vec ps i) (\<lambda>parent.
     rbind (if parent = int (last (snd acc)) then idx_vec draft i else Inr 0) (\<lambda>tok.
       if parent = int (last (snd acc)) \<and> tok = last (fst acc)
       then rbind (read i) (\<lambda>row.
              let v = argmaxLogits row; acc = (fst acc @ [v], snd acc @ [i])
              in if v \<in> set eos then Inr acc else verify_nodes read eos ps draft is acc)
       else verify_nodes read eos ps draft is acc))"

definition verifyDraftTree :: "(nat \<Rightarrow> f32 list res) \<Rightarrow> int list \<Rightarrow> draft_map \<Rightarrow> int list \<Rightarrow> (int list \<times> nat list) res" where
  "verifyDraftTree read eos dm draft =
     rbind (read 0) (\<lambda>row.
       let v = argmaxLogits row
       in if v \<in> set eos then Inr ([v], [0])
          else verify_nodes read eos (dm_parents dm) draft [1..<dm_nodes dm] ([v], [0]))"

text \<open>
  The invariant of verification: the accepted nodes are a path from the root, each further
  node carries the token accepted before it, and each accepted token is the greedy choice
  at its node.
\<close>

definition on_path :: "(nat \<Rightarrow> f32 list res) \<Rightarrow> int list \<Rightarrow> int list \<Rightarrow> int list \<times> nat list \<Rightarrow> bool" where
  "on_path read ps draft acc \<longleftrightarrow>
     snd acc \<noteq> [] \<and> length (fst acc) = length (snd acc) \<and> hd (snd acc) = 0
     \<and> (\<forall>k<length (snd acc). \<exists>row. read (snd acc ! k) = Inr row \<and> fst acc ! k = argmaxLogits row)
     \<and> (\<forall>k. Suc k < length (snd acc) \<longrightarrow> ps ! (snd acc ! Suc k) = int (snd acc ! k)
          \<and> snd acc ! k < snd acc ! Suc k
          \<and> draft ! (snd acc ! Suc k) = fst acc ! k)"

lemma on_path_step:
  assumes "on_path read ps draft acc" "ps ! i = int (last (snd acc))" "draft ! i = last (fst acc)"
    "last (snd acc) < i" "read i = Inr row"
  shows "on_path read ps draft (fst acc @ [argmaxLogits row], snd acc @ [i])"
proof -
  obtain toks ids where a: "acc = (toks, ids)" by (cases acc)
  from assms(1) have ne: "ids \<noteq> []" "toks \<noteq> []" "length toks = length ids" by (auto simp: on_path_def a)
  have l: "last ids = ids ! (length ids - 1)" "last toks = toks ! (length ids - 1)"
    using ne by (simp_all add: last_conv_nth)
  show ?thesis
    unfolding on_path_def
  proof (intro conjI allI impI)
    fix k assume k: "Suc k < length (snd (fst acc @ [argmaxLogits row], snd acc @ [i]))"
    have "k = length ids - 1 \<or> Suc k < length ids" using k by (auto simp: a)
    then show "ps ! (snd (fst acc @ [argmaxLogits row], snd acc @ [i]) ! Suc k)
          = int (snd (fst acc @ [argmaxLogits row], snd acc @ [i]) ! k)"
      "snd (fst acc @ [argmaxLogits row], snd acc @ [i]) ! k < snd (fst acc @ [argmaxLogits row], snd acc @ [i]) ! Suc k"
      "draft ! (snd (fst acc @ [argmaxLogits row], snd acc @ [i]) ! Suc k)
          = fst (fst acc @ [argmaxLogits row], snd acc @ [i]) ! k"
      using assms ne l by (auto simp: a on_path_def nth_append)
  next
    fix k assume "k < length (snd (fst acc @ [argmaxLogits row], snd acc @ [i]))"
    then show "\<exists>row'. read (snd (fst acc @ [argmaxLogits row], snd acc @ [i]) ! k) = Inr row'
        \<and> fst (fst acc @ [argmaxLogits row], snd acc @ [i]) ! k = argmaxLogits row'"
      using assms(1,5) ne by (auto simp: a on_path_def nth_append less_Suc_eq)
  qed (use assms(1) ne in \<open>auto simp: a on_path_def\<close>)
qed

text \<open>When verification stops without an end token, no child of the last node carries its token.\<close>

definition stuck :: "int list \<Rightarrow> int list \<Rightarrow> nat \<Rightarrow> int list \<times> nat list \<Rightarrow> bool" where
  "stuck ps draft n acc \<longleftrightarrow>
     (\<forall>j. 0 < j \<and> j < n \<and> ps ! j = int (last (snd acc)) \<longrightarrow> draft ! j \<noteq> last (fst acc))"

lemma verify_nodes_path:
  assumes "wf_parents ps" "verify_nodes read eos ps draft is acc = Inr acc'" "is = [a..<n]" "0 < a" "n \<le> length ps"
    "on_path read ps draft acc" "last (snd acc) < a" "set (fst acc) \<inter> set eos = {}" "stuck ps draft a acc"
    "last (snd acc) < n"
  shows "on_path read ps draft acc' \<and> set (butlast (fst acc')) \<inter> set eos = {} \<and> last (snd acc') < n
     \<and> (last (fst acc') \<in> set eos \<or> stuck ps draft n acc')"
  using assms(2-)
proof (induction "is" arbitrary: a acc)
  case Nil
  then have "n \<le> a" by (metis upt_eq_Nil_conv le_zero_eq le0)
  then have "stuck ps draft n acc" using Nil by (auto simp: stuck_def)
  with Nil show ?case by (auto dest: in_set_butlastD)
next
  case (Cons i js)
  have i: "i = a" "js = [Suc a..<n]" "a < n"
    using Cons.prems(2) upt_eq_Cons_conv [of a n i js] by auto
  have il: "i < length ps" using i Cons.prems by simp
  show ?case
  proof (cases "ps ! i = int (last (snd acc)) \<and> draft ! i = last (fst acc)")
    case False
    then have "verify_nodes read eos ps draft js acc = Inr acc'"
      using Cons.prems(1) il by (auto simp: idx_vec_def split: if_splits)
    moreover have "stuck ps draft (Suc a) acc" using Cons.prems(8) False i by (auto simp: stuck_def less_Suc_eq)
    ultimately show ?thesis using Cons.IH [of acc "Suc a"] Cons.prems i by simp
  next
    case True
    then obtain row where r: "read i = Inr row" and il2: "i < length draft"
      using Cons.prems(1) il by (auto simp: idx_vec_def split: if_splits)
    let ?v = "argmaxLogits row"
    let ?acc = "(fst acc @ [?v], snd acc @ [i])"
    have path: "on_path read ps draft ?acc"
      using on_path_step [OF Cons.prems(5) _ _ _ r] True i Cons.prems(6) by simp
    show ?thesis
    proof (cases "?v \<in> set eos")
      case True
      then have "acc' = ?acc" using Cons.prems(1) il il2 r \<open>ps ! i = _ \<and> _\<close> by (simp add: idx_vec_def Let_def)
      then show ?thesis using path True i Cons.prems(7) by simp
    next
      case False
      then have run: "verify_nodes read eos ps draft js ?acc = Inr acc'"
        using Cons.prems(1) il il2 r True by (simp add: idx_vec_def Let_def)
      have "stuck ps draft (Suc a) ?acc"
        unfolding stuck_def
      proof (intro allI impI)
        fix j assume j: "0 < j \<and> j < Suc a \<and> ps ! j = int (last (snd ?acc))"
        then have "nat (ps ! j) < j" using parent_less [OF assms(1), of j] i il by auto
        with j i show "draft ! j \<noteq> last (fst ?acc)" by simp
      qed
      with Cons.IH [of ?acc "Suc a"] run path False Cons.prems i show ?thesis by simp
    qed
  qed
qed

lemma verifyDraftTree_path:
  assumes "wf_parents (dm_parents dm)" "verifyDraftTree read eos dm draft = Inr acc" "0 < dm_nodes dm"
    "dm_nodes dm \<le> length (dm_parents dm)"
  shows "on_path read (dm_parents dm) draft acc \<and> set (butlast (fst acc)) \<inter> set eos = {} \<and> last (snd acc) < dm_nodes dm
     \<and> (last (fst acc) \<in> set eos \<or> stuck (dm_parents dm) draft (dm_nodes dm) acc)"
proof -
  from assms(2) obtain row where r: "read 0 = Inr row" by (auto simp: verifyDraftTree_def)
  let ?acc = "([argmaxLogits row], [0 :: nat])"
  have path: "on_path read (dm_parents dm) draft ?acc" using r by (simp add: on_path_def)
  show ?thesis
  proof (cases "argmaxLogits row \<in> set eos")
    case True
    then have "acc = ?acc" using assms(2) r by (simp add: verifyDraftTree_def Let_def)
    then show ?thesis using path True assms(3) by simp
  next
    case False
    then have "verify_nodes read eos (dm_parents dm) draft [1..<dm_nodes dm] ?acc = Inr acc"
      using assms(2) r by (simp add: verifyDraftTree_def Let_def)
    from verify_nodes_path [OF assms(1) this refl] assms path False show ?thesis by (force simp: stuck_def)
  qed
qed

text \<open>
  Greedy decoding by a language model \<open>lm\<close>, the map from a context to its next logits. The
  tokens on the path to a node are its context behind \<open>ctx\<close>.
\<close>

definition path_tokens :: "int list \<Rightarrow> int list \<Rightarrow> nat \<Rightarrow> int list" where
  "path_tokens draft ps i = map (\<lambda>j. draft ! j) (rev (i # ancestors ps i))"

primrec greedy :: "(int list \<Rightarrow> f32 list) \<Rightarrow> int list \<Rightarrow> nat \<Rightarrow> int list" where
  "greedy lm ctx 0 = []"
| "greedy lm ctx (Suc n) = argmaxLogits (lm ctx) # greedy lm (ctx @ [argmaxLogits (lm ctx)]) n"

lemma greedy_eqI:
  "(\<And>k. k < length toks \<Longrightarrow> toks ! k = argmaxLogits (lm (ctx @ take k toks))) \<Longrightarrow> toks = greedy lm ctx (length toks)"
proof (induction toks arbitrary: ctx)
  case Nil
  then show ?case by simp
next
  case (Cons t ts)
  have t: "t = argmaxLogits (lm ctx)" using Cons.prems [of 0] by simp
  have "ts = greedy lm (ctx @ [t]) (length ts)"
    using Cons.prems [of "Suc _"] by (intro Cons.IH) force
  with t show ?case by simp
qed

lemma on_path_mono:
  assumes "on_path read ps draft acc" "j \<le> k" "k < length (snd acc)"
  shows "snd acc ! j \<le> snd acc ! k"
  using assms(2,3)
proof (induction k)
  case (Suc k)
  have "snd acc ! k < snd acc ! Suc k" using assms(1) Suc.prems(2) by (simp add: on_path_def)
  with Suc show ?case by (cases "j = Suc k") auto
qed simp

lemma path_tokens_on_path:
  assumes wf: "wf_parents ps" and path: "on_path read ps draft acc" and "last (snd acc) < length ps"
    and "k < length (snd acc)"
  shows "snd acc ! k < length ps \<and> path_tokens draft ps (snd acc ! k) = draft ! 0 # take k (fst acc)"
  using assms(4)
proof (induction k)
  case 0
  have "snd acc ! 0 = 0" using path by (metis hd_conv_nth on_path_def)
  then show ?case using wf by (simp add: path_tokens_def ancestors_0) (simp add: wf_parents_def)
next
  case (Suc k)
  from path Suc.prems have s: "ps ! (snd acc ! Suc k) = int (snd acc ! k)" "snd acc ! k < snd acc ! Suc k"
    "draft ! (snd acc ! Suc k) = fst acc ! k" "k < length (fst acc)"
    by (auto simp: on_path_def)
  have "snd acc ! Suc k \<le> last (snd acc)"
    using on_path_mono [OF path, of "Suc k" "length (snd acc) - 1"] Suc.prems path
    by (simp add: on_path_def last_conv_nth)
  then have len: "snd acc ! Suc k < length ps" using assms(3) by simp
  have "ancestors ps (snd acc ! Suc k) = snd acc ! k # ancestors ps (snd acc ! k)"
    using ancestors_pos [OF wf, of "snd acc ! Suc k"] s len by simp
  then show ?case using Suc s len by (simp add: path_tokens_def take_Suc_conv_app_nth)
qed

text \<open>C1: whatever tree was drafted, the tokens verification accepts are the tokens greedy
  decoding of the target model produces one by one\<close>

lemma verify_lossless:
  assumes wf: "wf_parents (dm_parents dm)" and run: "verifyDraftTree read eos dm draft = Inr (toks, ids)"
    and n: "0 < dm_nodes dm" "dm_nodes dm \<le> length (dm_parents dm)"
    and lm: "\<And>i. i < dm_nodes dm \<Longrightarrow> read i = Inr (lm (ctx @ path_tokens draft (dm_parents dm) i))"
  shows "toks = greedy lm (ctx @ [draft ! 0]) (length toks)"
proof (rule greedy_eqI)
  fix k assume k: "k < length toks"
  from verifyDraftTree_path [OF wf run n] have path: "on_path read (dm_parents dm) draft (toks, ids)"
    and l: "last ids < dm_nodes dm" by simp_all
  have kl: "k < length ids" "ids \<noteq> []" using path k by (auto simp: on_path_def)
  from path kl obtain row where r: "read (ids ! k) = Inr row" "toks ! k = argmaxLogits row"
    by (auto simp: on_path_def)
  have "ids ! k \<le> last ids"
    using on_path_mono [OF path, of k "length ids - 1"] kl by (simp add: last_conv_nth)
  with lm [of "ids ! k"] r l have "row = lm (ctx @ path_tokens draft (dm_parents dm) (ids ! k))" by simp
  with path_tokens_on_path [OF wf path, of k] kl l n(2) r(2)
  show "toks ! k = argmaxLogits (lm ((ctx @ [draft ! 0]) @ take k toks))" by simp
qed

section \<open>Runs of accepted positions\<close>

text \<open>A run is the first position and the number of consecutive accepted ones.\<close>

definition add_run :: "bool list \<Rightarrow> nat \<Rightarrow> (nat \<times> nat) list \<Rightarrow> (nat \<times> nat) list" where
  "add_run selected pos rs =
     (if \<not> selected ! pos then rs
      else if rs \<noteq> [] \<and> fst (last rs) + snd (last rs) = pos then butlast rs @ [(fst (last rs), snd (last rs) + 1)]
      else rs @ [(pos, 1)])"

definition copy_runs :: "bool list \<Rightarrow> (nat \<times> nat) list" where
  "copy_runs selected = fold (add_run selected) [0..<length selected] []"

definition run_positions :: "(nat \<times> nat) list \<Rightarrow> nat list" where
  "run_positions rs = concat (map (\<lambda>(a, n). [a..<a + n]) rs)"

lemma add_run_positions:
  "run_positions (add_run selected pos rs) = run_positions rs @ (if selected ! pos then [pos] else [])"
proof (cases "rs \<noteq> [] \<and> fst (last rs) + snd (last rs) = pos")
  case True
  then have "rs = butlast rs @ [(fst (last rs), snd (last rs))]" by simp
  then have "run_positions rs = run_positions (butlast rs) @ [fst (last rs)..<pos]"
    using True by (metis (no_types, lifting) run_positions_def concat.simps concat_append list.simps(8,9) map_append old.prod.case append_Nil2)
  then show ?thesis using True by (auto simp: add_run_def run_positions_def)
next
  case False
  then show ?thesis by (auto simp: add_run_def run_positions_def)
qed

lemma copy_runs_positions: "run_positions (copy_runs selected) = filter (\<lambda>i. selected ! i) [0..<length selected]"
proof -
  have "run_positions (fold (add_run selected) xs rs) = run_positions rs @ filter (\<lambda>i. selected ! i) xs" for xs rs
    by (induction xs arbitrary: rs) (simp_all add: add_run_positions)
  from this [of "[0..<length selected]" "[]"] show ?thesis by (simp add: copy_runs_def run_positions_def)
qed

text \<open>\<open>selected\<close> holds the accepted positions: increasing, as verification accepts them.\<close>

definition mark_selected :: "nat \<Rightarrow> nat list \<Rightarrow> bool list" where
  "mark_selected n ids = fold (\<lambda>i s. s[i := True]) ids (replicate n False)"

lemma mark_selected_nth:
  assumes "i < n" "set ids \<subseteq> {..<n}"
  shows "length (mark_selected n ids) = n \<and> mark_selected n ids ! i = (i \<in> set ids)"
proof -
  have u: "i < length s \<Longrightarrow> s[a := True] ! i = (i = a \<or> s ! i)" for s a by (cases "a = i") auto
  have "length (fold (\<lambda>i s. s[i := True]) is s) = length s
      \<and> (i < length s \<longrightarrow> fold (\<lambda>i s. s[i := True]) is s ! i = (i \<in> set is \<or> s ! i))" for "is" s
    by (induction "is" arbitrary: s) (auto simp: u)
  from this [of ids "replicate n False"] assms(1) show ?thesis by (simp add: mark_selected_def)
qed

lemma copy_runs_accepted:
  assumes "sorted_wrt (<) ids" "set ids \<subseteq> {..<n}"
  shows "run_positions (copy_runs (mark_selected n ids)) = ids"
proof (rule sorted_distinct_set_unique)
  have l: "length (mark_selected n ids) = n"
  proof -
    have "length (fold (\<lambda>i s. s[i := True]) is s) = length s" for "is" and s :: "bool list"
      by (induction "is" arbitrary: s) simp_all
    then show ?thesis by (simp add: mark_selected_def)
  qed
  show "sorted (run_positions (copy_runs (mark_selected n ids)))" "distinct (run_positions (copy_runs (mark_selected n ids)))"
    by (simp_all add: copy_runs_positions sorted_wrt_filter)
  show "sorted ids" "distinct ids" using assms(1) by (simp_all add: strict_sorted_iff)
  show "set (run_positions (copy_runs (mark_selected n ids))) = set ids"
    using assms(2) mark_selected_nth [of _ n ids] l by (auto simp: copy_runs_positions)
qed

section \<open>The draft tree as a whole\<close>

text \<open>
  The reference definition: the children of a node are the best tokens of its level in
  order, without the node's own token. The loop of the code walks one flat array instead.
\<close>

definition children :: "nat \<Rightarrow> int list \<Rightarrow> int \<Rightarrow> int list" where
  "children b samples ptok = take b (filter (\<lambda>x. x \<noteq> ptok) samples)"

fun sample_levels :: "(nat \<Rightarrow> int list) \<Rightarrow> nat list \<Rightarrow> nat \<Rightarrow> nat \<Rightarrow> int list \<Rightarrow> int list" where
  "sample_levels smp [] d start tree = tree"
| "sample_levels smp (b # bs) d start tree =
     sample_levels smp bs (d + 1) (length tree)
       (tree @ concat (map (\<lambda>n. children b (smp d) (tree ! n)) [start..<length tree]))"

lemma nth_concat_uniform:
  assumes "\<And>x. x \<in> set xs \<Longrightarrow> length (f x) = b" "j < length xs * b"
  shows "concat (map f xs) ! j = f (xs ! (j div b)) ! (j mod b)"
  using assms
proof (induction xs arbitrary: j)
  case Nil
  then show ?case by simp
next
  case (Cons x xs)
  have l: "length (f x) = b" using Cons.prems(1) by simp
  have b: "0 < b" using Cons.prems(2) by (cases b) auto
  show ?case
  proof (cases "j < b")
    case True
    then show ?thesis using l by (simp add: nth_append)
  next
    case False
    then have j: "j div b = Suc ((j - b) div b)" "j mod b = (j - b) mod b"
      using b by (simp_all add: le_div_geq le_mod_geq)
    have "concat (map f xs) ! (j - b) = f (xs ! ((j - b) div b)) ! ((j - b) mod b)"
      using False Cons.prems by (intro Cons.IH) auto
    then show ?thesis using False l j by (simp add: nth_append)
  qed
qed

lemma length_concat_uniform:
  "(\<And>x. x \<in> set xs \<Longrightarrow> length (f x) = b) \<Longrightarrow> length (concat (map f xs)) = length xs * b"
  by (induction xs) simp_all

text \<open>Skipping the node's own token in a list without repetitions.\<close>

definition skip_at :: "int list \<Rightarrow> int \<Rightarrow> nat \<Rightarrow> nat" where
  "skip_at xs p q = (if p \<in> set (take q xs) then q + 1 else q)"

lemma length_children:
  assumes "distinct xs" "length xs = Suc b"
  shows "length (children b xs p) = b"
proof -
  have "length (filter (\<lambda>x. x = p) xs) \<le> 1"
    using assms(1) by (induction xs) (auto simp: filter_empty_conv)
  then show ?thesis
    using sum_length_filter_compl [of "\<lambda>x. x = p" xs] assms(2) by (simp add: children_def)
qed

definition take_at :: "int list \<Rightarrow> int \<Rightarrow> nat \<Rightarrow> nat" where
  "take_at xs p q = (if p \<in> set (take (Suc q) xs) then Suc q else q)"

lemma nth_children:
  assumes "distinct xs" "length xs = Suc b" "q < b"
  shows "children b xs p ! q = xs ! take_at xs p q"
proof (cases "p \<in> set xs")
  case False
  then have "filter (\<lambda>x. x \<noteq> p) xs = xs" by (auto simp: filter_id_conv)
  then show ?thesis using False assms by (auto simp: children_def take_at_def dest: in_set_takeD)
next
  case True
  then obtain ys zs where xs: "xs = ys @ p # zs" by (metis split_list)
  have y: "filter (\<lambda>x. x \<noteq> p) ys = ys" "filter (\<lambda>x. x \<noteq> p) zs = zs" "p \<notin> set ys" "p \<notin> set zs"
    using assms(1) by (auto simp: xs filter_id_conv)
  have "p \<in> set (take (Suc q) xs) \<longleftrightarrow> length ys \<le> q"
    using y(3) by (auto simp: xs take_Cons' dest: in_set_takeD split: if_splits)
  then show ?thesis using y assms(2,3) by (auto simp: children_def take_at_def xs nth_append Suc_diff_le)
qed

lemma take_at_step:
  assumes "distinct xs" "length xs = Suc b" "q < b"
  shows "(if xs ! skip_at xs p q = p then skip_at xs p q + 1 else skip_at xs p q) = take_at xs p q"
    "take_at xs p q + 1 = skip_at xs p (Suc q)" "skip_at xs p q < length xs" "take_at xs p q < length xs"
proof -
  have s: "take (Suc q) xs = take q xs @ [xs ! q]" using assms by (simp add: take_Suc_conv_app_nth)
  have "xs ! Suc q \<noteq> p" if p: "p \<in> set (take q xs)"
  proof -
    from p obtain j where j: "j < q" "xs ! j = p" by (auto simp: in_set_conv_nth)
    with assms nth_eq_iff_index_eq [of xs j "Suc q"] show ?thesis by auto
  qed
  then show "(if xs ! skip_at xs p q = p then skip_at xs p q + 1 else skip_at xs p q) = take_at xs p q"
    by (auto simp: skip_at_def take_at_def s)
  show "take_at xs p q + 1 = skip_at xs p (Suc q)" "skip_at xs p q < length xs" "take_at xs p q < length xs"
    using assms by (auto simp: skip_at_def take_at_def)
qed

lemma level_parents_nth:
  assumes "j < (len - start) * b"
  shows "level_parents b start len ! j = int (start + j div b)"
proof -
  have b: "0 < b" using assms by (cases b) auto
  have "level_parents b start len ! j = replicate b (int ([start..<len] ! (j div b))) ! (j mod b)"
    unfolding level_parents_def using assms by (intro nth_concat_uniform) simp_all
  moreover have "j div b < len - start" using assms by (simp add: less_mult_imp_div_less)
  ultimately show ?thesis using b by simp
qed

text \<open>One level of the loop, node by node.\<close>

definition level_ready :: "(nat \<Rightarrow> f32 list res) \<Rightarrow> (f32 list \<Rightarrow> nat \<Rightarrow> int list) \<Rightarrow> draft_map \<Rightarrow> nat \<Rightarrow> nat
    \<Rightarrow> nat \<Rightarrow> nat \<Rightarrow> nat \<Rightarrow> int list \<Rightarrow> int list \<Rightarrow> bool" where
  "level_ready read topk dm levels off d b start tree xs \<longleftrightarrow>
     (d < levels \<and> d < length (dm_samples dm) \<and> d < length (dm_level_nodes dm))
     \<and> (0 < b \<and> dm_level_nodes dm ! d = (length tree - start) * b \<and> start < length tree)
     \<and> length tree + (length tree - start) * b \<le> length (dm_parents dm)
     \<and> (\<forall>j < (length tree - start) * b. dm_parents dm ! (length tree + j) = int (start + j div b))
     \<and> dm_parents dm ! (length tree - 1) = int start - 1
     \<and> distinct xs \<and> length xs = Suc b
     \<and> (\<exists>row. read (off + d) = Inr row \<and> topk row (dm_samples dm ! d) = xs)"

lemma level_readyD:
  assumes "level_ready read topk dm levels off d b start tree xs"
  shows "d < levels" "d < length (dm_samples dm)" "d < length (dm_level_nodes dm)"
    "0 < b" "dm_level_nodes dm ! d = (length tree - start) * b" "start < length tree"
    "length tree + (length tree - start) * b \<le> length (dm_parents dm)"
    "\<And>j. j < (length tree - start) * b \<Longrightarrow> dm_parents dm ! (length tree + j) = int (start + j div b)"
    "dm_parents dm ! (length tree - 1) = int start - 1"
    "distinct xs" "length xs = Suc b" "\<exists>row. read (off + d) = Inr row \<and> topk row (dm_samples dm ! d) = xs"
  using assms by (simp_all add: level_ready_def)

definition kids :: "nat \<Rightarrow> nat \<Rightarrow> int list \<Rightarrow> int list \<Rightarrow> int list" where
  "kids b start tree xs = concat (map (\<lambda>n. children b xs (tree ! n)) [start..<length tree])"

lemma length_kids:
  "distinct xs \<Longrightarrow> length xs = Suc b \<Longrightarrow> length (kids b start tree xs) = (length tree - start) * b"
  unfolding kids_def by (subst length_concat_uniform [where b = b]) (simp_all add: length_children)

lemma kids_nth:
  assumes "distinct xs" "length xs = Suc b" "j < (length tree - start) * b"
  shows "kids b start tree xs ! j = xs ! take_at xs (tree ! (start + j div b)) (j mod b)" "start + j div b < length tree"
proof -
  have b: "0 < b" using assms(3) by (cases b) auto
  have "kids b start tree xs ! j = children b xs (tree ! ([start..<length tree] ! (j div b))) ! (j mod b)"
    unfolding kids_def using assms by (intro nth_concat_uniform) (simp_all add: length_children)
  moreover have d: "j div b < length tree - start" using assms by (simp add: less_mult_imp_div_less)
  moreover have "j mod b < b" using b by simp
  ultimately show "kids b start tree xs ! j = xs ! take_at xs (tree ! (start + j div b)) (j mod b)"
    using assms(1,2) by (simp add: nth_children)
  show "start + j div b < length tree" using d by simp
qed

text \<open>The loop state before node \<open>j\<close> of the level.\<close>

definition before :: "nat \<Rightarrow> nat \<Rightarrow> nat \<Rightarrow> int list \<Rightarrow> int list \<Rightarrow> nat \<Rightarrow> sampling \<Rightarrow> bool" where
  "before d b start tree xs j s \<longleftrightarrow> ss_tree s = tree @ take j (kids b start tree xs) \<and> ss_level s = d \<and> ss_node s = j
     \<and> (0 < j \<longrightarrow> ss_samples s = xs)
     \<and> (j mod b \<noteq> 0 \<longrightarrow> ss_next s = skip_at xs (tree ! (start + j div b)) (j mod b))"

lemma node_step:
  assumes L: "level_ready read topk dm levels off d b start tree xs" and j: "j < (length tree - start) * b" and s: "before d b start tree xs j s"
  shows "\<exists>s'. sample_node read topk dm off (length tree + j) s = Inr s'
     \<and> ss_tree s' = tree @ take (Suc j) (kids b start tree xs)
     \<and> (if Suc j < (length tree - start) * b then before d b start tree xs (Suc j) s' else ss_level s' = d + 1 \<and> ss_node s' = 0)"
proof -
  note R = level_readyD [OF L]
  let ?n = "start + j div b" and ?q = "j mod b"
  let ?p = "tree ! ?n"
  let ?next = "if int ?n \<noteq> dm_parents dm ! (length tree + j - 1) then 0 else ss_next s"
  have q: "?q < b" using R(4) by simp
  have next_i: "?next = skip_at xs ?p ?q"
  proof (cases "?q = 0")
    case True
    have "dm_parents dm ! (length tree + j - 1) = int ?n - 1"
    proof (cases j)
      case 0
      then show ?thesis using R(9) by simp
    next
      case (Suc i)
      then have "j div b = Suc (i div b)" using True R(4) by (auto simp: div_Suc)
      then show ?thesis using R(8) [of i] Suc j by simp
    qed
    then show ?thesis using True by (simp add: skip_at_def)
  next
    case False
    then obtain i where i: "j = Suc i" by (cases j) auto
    with False have "j div b = i div b" by (simp add: div_Suc)
    then have "dm_parents dm ! (length tree + j - 1) = int ?n" using R(8) [of i] i j by simp
    then show ?thesis using False s by (simp add: before_def)
  qed
  note st = take_at_step [OF R(10,11) q, of ?p]
  from R(12) obtain row where row: "read (off + d) = Inr row" "topk row (dm_samples dm ! d) = xs" by blast
  have smp: "(if ss_node s = 0 then rbind (read (off + ss_level s)) (\<lambda>row.
      rbind (idx_vec (dm_samples dm) (ss_level s)) (\<lambda>k. Inr (topk row k))) else Inr (ss_samples s)) = Inr xs"
    using s row R(2) by (simp add: before_def idx_vec_def)
  have par: "idx_vec (dm_parents dm) (length tree + j) = Inr (int ?n)"
    "idx_vec (dm_parents dm) (length tree + j - 1) = Inr (dm_parents dm ! (length tree + j - 1))"
    using R(7,8) j by (simp_all add: idx_vec_def)
  have ptok: "idx_vec (ss_tree s) ?n = Inr ?p"
    using kids_nth(2) [OF R(10,11) j] s by (simp add: before_def idx_vec_def nth_append)
  have c: "idx_vec xs (skip_at xs ?p ?q) = Inr (xs ! skip_at xs ?p ?q)" "idx_vec xs (take_at xs ?p ?q) = Inr ((kids b start tree xs) ! j)"
    using st(3,4) kids_nth(1) [OF R(10,11) j] by (simp_all add: idx_vec_def)
  have w: "idx_vec (dm_level_nodes dm) (ss_level s) = Inr ((length tree - start) * b)"
    using s R(3) R(5) by (simp add: before_def idx_vec_def)
  define s' where "s' = (if (length tree - start) * b \<le> j + 1
      then \<lparr> ss_tree = ss_tree s @ [(kids b start tree xs) ! j], ss_level = ss_level s + 1, ss_node = 0,
             ss_samples = xs, ss_next = take_at xs ?p ?q + 1 \<rparr>
      else \<lparr> ss_tree = ss_tree s @ [(kids b start tree xs) ! j], ss_level = ss_level s, ss_node = j + 1,
             ss_samples = xs, ss_next = take_at xs ?p ?q + 1 \<rparr>)"
  have "sample_node read topk dm off (length tree + j) s = Inr s'"
    using s by (simp only: sample_node_def par rbind_simps Let_def nat_int next_i smp c ptok st(1) w)
      (simp add: s'_def before_def)
  moreover have "tree @ take (Suc j) (kids b start tree xs) = ss_tree s @ [(kids b start tree xs) ! j]"
    using s j length_kids [OF R(10,11)] by (simp add: before_def take_Suc_conv_app_nth)
  moreover have "skip_at xs ?p (Suc ?q) = skip_at xs (tree ! (start + Suc j div b)) (Suc j mod b)" if "Suc j mod b \<noteq> 0"
    using that by (simp add: mod_Suc div_Suc split: if_splits)
  ultimately show ?thesis using s st(2) by (auto simp: s'_def before_def)
qed

lemma level_run:
  assumes L: "level_ready read topk dm levels off d b start tree xs" and "before d b start tree xs 0 s" "(length tree - start) * b \<le> fuel"
  shows "\<exists>s'. sample_loop read topk dm levels off fuel (length tree) s
      = sample_loop read topk dm levels off (fuel - (length tree - start) * b) (length (tree @ (kids b start tree xs))) s'
     \<and> ss_tree s' = tree @ (kids b start tree xs) \<and> ss_level s' = d + 1 \<and> ss_node s' = 0"
proof -
  note R = level_readyD [OF L]
  let ?W = "(length tree - start) * b"
  have steps: "\<exists>s'. sample_loop read topk dm levels off fuel (length tree) s
      = sample_loop read topk dm levels off (fuel - j) (length tree + j) s' \<and> before d b start tree xs j s'" if "j < ?W" for j
    using that
  proof (induction j)
    case 0
    then show ?case using assms(2) by auto
  next
    case (Suc j)
    then obtain s1 where s1: "sample_loop read topk dm levels off fuel (length tree) s
      = sample_loop read topk dm levels off (fuel - j) (length tree + j) s1" "before d b start tree xs j s1" by auto
    from node_step [OF L _ s1(2)] Suc.prems obtain s2 where
      s2: "sample_node read topk dm off (length tree + j) s1 = Inr s2" "before d b start tree xs (Suc j) s2" by auto
    have "fuel - j = Suc (fuel - Suc j)" "ss_level s1 < levels" using Suc.prems assms(3) s1(2) R(1) by (auto simp: before_def)
    then show ?case using s1(1) s2 by (intro exI [of _ s2]) simp
  qed
  have W: "0 < ?W" using R(4,6) by simp
  then obtain j where j: "?W = Suc j" by (cases ?W) auto
  from steps [of j] j obtain s1 where s1: "sample_loop read topk dm levels off fuel (length tree) s
      = sample_loop read topk dm levels off (fuel - j) (length tree + j) s1" "before d b start tree xs j s1" by auto
  from node_step [OF L _ s1(2)] j obtain s2 where s2: "sample_node read topk dm off (length tree + j) s1 = Inr s2"
    "ss_tree s2 = tree @ take (Suc j) (kids b start tree xs)" "ss_level s2 = d + 1" "ss_node s2 = 0" by auto
  have "fuel - j = Suc (fuel - ?W)" "ss_level s1 < levels" using j assms(3) s1(2) R(1) by (auto simp: before_def)
  then show ?thesis using s1(1) s2 j length_kids [OF R(10,11)] by (intro exI [of _ s2]) simp
qed

lemma length_level_map: "length (level_map bs start len) = sum_list (level_sizes (len - start) bs)"
  by (induction bs arbitrary: start len) (simp_all add: length_level_parents)

definition best_tokens :: "(nat \<Rightarrow> f32 list res) \<Rightarrow> (f32 list \<Rightarrow> nat \<Rightarrow> int list) \<Rightarrow> nat \<Rightarrow> nat \<Rightarrow> int list \<Rightarrow> bool" where
  "best_tokens read topk i b xs \<longleftrightarrow>
     distinct xs \<and> length xs = Suc b \<and> (\<exists>row. read i = Inr row \<and> topk row (Suc b) = xs)"

lemma sample_levels_run:
  assumes "\<And>j. j < length (level_map bs start (length tree)) \<Longrightarrow>
      dm_parents dm ! (length tree + j) = level_map bs start (length tree) ! j"
    and "length tree + length (level_map bs start (length tree)) \<le> length (dm_parents dm)"
    and "drop d (dm_samples dm) = map Suc bs" "drop d (dm_level_nodes dm) = level_sizes (length tree - start) bs"
    and "levels = d + length bs" "start < length tree" "dm_parents dm ! (length tree - 1) = int start - 1" "0 \<notin> set bs"
    and "\<And>k. k < length bs \<Longrightarrow> best_tokens read topk (off + (d + k)) (bs ! k) (smp (d + k))"
    and "length (level_map bs start (length tree)) \<le> fuel" "ss_tree s = tree" "ss_level s = d" "ss_node s = 0"
  shows "\<exists>s'. sample_loop read topk dm levels off fuel (length tree) s = Inr s'
     \<and> ss_tree s' = sample_levels smp bs d start tree"
  using assms
proof (induction bs arbitrary: start tree d fuel s)
  case Nil
  then show ?case by (cases fuel) simp_all
next
  case (Cons b bs)
  let ?W = "(length tree - start) * b" and ?xs = "smp d"
  let ?tree = "tree @ kids b start tree ?xs"
  have lp: "length (level_parents b start (length tree)) = ?W" by (rule length_level_parents)
  have lm: "level_map (b # bs) start (length tree) = level_parents b start (length tree) @ level_map bs (length tree) (length tree + ?W)"
    by simp
  have b: "0 < b" "0 < ?W" using Cons.prems(6,8) by auto
  have ne: "d < length (dm_samples dm)" "d < length (dm_level_nodes dm)"
    using Cons.prems(3,4) by (metis drop_all list.simps(3) list.simps(9) not_le level_sizes.simps(2))+
  have at: "dm_samples dm ! d = Suc b" "drop (Suc d) (dm_samples dm) = map Suc bs"
    "dm_level_nodes dm ! d = ?W" "drop (Suc d) (dm_level_nodes dm) = level_sizes ?W bs"
    using Cons.prems(3,4) ne by (simp_all add: Cons_nth_drop_Suc [symmetric])
  have best: "distinct ?xs" "length ?xs = Suc b" "\<exists>row. read (off + d) = Inr row \<and> topk row (dm_samples dm ! d) = ?xs"
    using Cons.prems(9) [of 0] at(1) by (simp_all add: best_tokens_def)
  have par: "dm_parents dm ! (length tree + j) = int (start + j div b)" if "j < ?W" for j
    using Cons.prems(1) [of j] that level_parents_nth [OF that] lm lp by (simp add: nth_append)
  have ready: "level_ready read topk dm levels off d b start tree ?xs"
    using Cons.prems(2,5,6,7) ne at b par best lm lp by (simp add: level_ready_def)
  have lk: "length (kids b start tree ?xs) = ?W" using best by (intro length_kids)
  have "before d b start tree ?xs 0 s" using Cons.prems(11-13) by (simp add: before_def)
  from level_run [OF ready this, of fuel] Cons.prems(10) lm lp obtain s1 where
    s1: "sample_loop read topk dm levels off fuel (length tree) s
        = sample_loop read topk dm levels off (fuel - ?W) (length ?tree) s1"
      "ss_tree s1 = ?tree" "ss_level s1 = d + 1" "ss_node s1 = 0" by auto
  have "\<exists>s'. sample_loop read topk dm levels off (fuel - ?W) (length ?tree) s1 = Inr s'
     \<and> ss_tree s' = sample_levels smp bs (d + 1) (length tree) ?tree"
  proof (rule Cons.IH)
    fix j assume "j < length (level_map bs (length tree) (length ?tree))"
    then show "dm_parents dm ! (length ?tree + j) = level_map bs (length tree) (length ?tree) ! j"
      using Cons.prems(1) [of "?W + j"] lm lp lk by (simp add: nth_append add.assoc)
  next
    show "length ?tree + length (level_map bs (length tree) (length ?tree)) \<le> length (dm_parents dm)"
      "length (level_map bs (length tree) (length ?tree)) \<le> fuel - ?W"
      using Cons.prems(2,10) lm lp lk by simp_all
    show "drop (d + 1) (dm_samples dm) = map Suc bs"
      "drop (d + 1) (dm_level_nodes dm) = level_sizes (length ?tree - length tree) bs"
      using at lk by simp_all
    show "levels = d + 1 + length bs" "length tree < length ?tree" "0 \<notin> set bs" using Cons.prems(5,8) lk b by simp_all
    have "(?W - 1) div b = length tree - start - 1"
    proof -
      obtain m where m: "length tree - start = Suc m" using Cons.prems(6) by (metis Suc_pred' zero_less_diff)
      then have w: "?W - 1 = m * b + (b - 1)" using b(1) by simp
      have "(m * b + (b - 1)) div b = m" using b(1) by (subst div_mult_self3) auto
      then have "(?W - 1) div b = m" by (simp only: w)
      then show ?thesis using m by simp
    qed
    with par [of "?W - 1"] b(2) Cons.prems(6) lk
    show "dm_parents dm ! (length ?tree - 1) = int (length tree) - 1" by simp
    show "best_tokens read topk (off + (d + 1 + k)) (bs ! k) (smp (d + 1 + k))" if "k < length bs" for k
      using Cons.prems(9) [of "Suc k"] that by simp
  qed (use s1 in simp_all)
  then show ?case using s1(1) by (simp add: kids_def)
qed

text \<open>The loop of the code builds the tree of the reference definition, and never reads out of range.\<close>

lemma buildSampleTree_levels:
  assumes bs: "bs \<noteq> []" "0 \<notin> set bs" "map_size bs \<le> 2 ^ 31"
    and best: "\<And>d. d < length bs \<Longrightarrow> best_tokens read topk (off + d) (bs ! d) (smp d)"
  shows "buildSampleTree read topk (genAttentionMap bs) (length bs) tok off = Inr (sample_levels smp bs 0 0 [tok])"
proof -
  let ?dm = "genAttentionMap bs"
  note F = genAttentionMap_facts [OF bs refl]
  let ?lm = "level_map bs 0 1"
  have l: "length ?lm + 1 = tree_nodes bs" by (simp add: length_level_map tree_nodes_def)
  then have le: "tree_nodes bs \<le> length (dm_parents ?dm)" using F(2) by (simp add: map_size_def)
  have nth: "dm_parents ?dm ! i = (-1 # ?lm) ! i" if "i < tree_nodes bs" for i
    using F(4) that by (metis nth_take)
  let ?s = "\<lparr> ss_tree = [tok], ss_level = 0, ss_node = 0, ss_samples = [], ss_next = 0 \<rparr>"
  have "\<exists>s'. sample_loop read topk ?dm (length bs) off (length (dm_parents ?dm) - 1) (length [tok]) ?s = Inr s'
     \<and> ss_tree s' = sample_levels smp bs 0 0 [tok]"
    using bs(2) best l le nth F(5,6) by (intro sample_levels_run) auto
  then show ?thesis by (auto simp: buildSampleTree_def)
qed

lemma length_sample_levels:
  assumes "\<And>k. k < length bs \<Longrightarrow> distinct (smp (d + k)) \<and> length (smp (d + k)) = Suc (bs ! k)"
  shows "length (sample_levels smp bs d start tree) = length tree + sum_list (level_sizes (length tree - start) bs)"
  using assms
proof (induction bs arbitrary: d start tree)
  case Nil
  then show ?case by simp
next
  case (Cons b bs)
  have "length (concat (map (\<lambda>n. children b (smp d) (tree ! n)) [start..<length tree])) = (length tree - start) * b"
    using Cons.prems [of 0] length_kids [of "smp d" b start tree] by (simp add: kids_def)
  moreover have "\<And>k. k < length bs \<Longrightarrow> distinct (smp (d + 1 + k)) \<and> length (smp (d + 1 + k)) = Suc (bs ! k)"
    using Cons.prems [of "Suc _"] by force
  ultimately show ?case using Cons.IH [of "d + 1"] by simp
qed

section \<open>Concrete instances\<close>

lemma demo_parents: "wf_parents [-1, 0, 0, 1]"
  by (auto simp: wf_parents_def less_Suc_eq numeral_nat)

lemma demo_ancestors: "ancestors [-1, 0, 0, 1] 0 = []" "ancestors [-1, 0, 0, 1] 1 = [0]" "ancestors [-1, 0, 0, 1] 2 = [0]"
  "ancestors [-1, 0, 0, 1] 3 = [1, 0]"
  by (simp_all add: ancestors.simps [of "[-1, 0, 0, 1]"])

lemma computeTreePositionIds_depth_witness: "computeTreePositionIds [-1, 0, 0, 1] 2 10 4 = Inr [8, 9, 9, 10]"
  using computeTreePositionIds_depth [OF demo_parents, of 4 2 10]
  by (simp add: upt_rec szsub_def to_i32_def demo_ancestors [unfolded eval_nat_numeral BitM.simps One_nat_def])


lemma verify_lossless_witness:
  "\<exists>toks ids. verifyDraftTree (\<lambda>_. Inr [0, 0]) [] \<lparr> dm_parents = [-1, 0], dm_nodes = 2, dm_samples = [2], dm_level_nodes = [1] \<rparr> [5, 0]
     = Inr (toks, ids) \<and> toks = greedy (\<lambda>_. [0, 0]) [5] (length toks) \<and> length toks = 2"
proof -
  let ?dm = "\<lparr> dm_parents = [-1, 0], dm_nodes = 2, dm_samples = [2], dm_level_nodes = [1] \<rparr>"
  have "argmaxLogits [0, 0] = 0"
    by (simp add: argmaxLogits_def argmax_def f32_lt_def fval_less_irrefl to_i32_def)
  then have run: "verifyDraftTree (\<lambda>_. Inr [0, 0]) [] ?dm [5, 0] = Inr ([0, 0], [0, 1])"
    by (simp add: verifyDraftTree_def idx_vec_def upt_rec)
  have "wf_parents (dm_parents ?dm)" by (auto simp: wf_parents_def less_Suc_eq)
  from verify_lossless [OF this run, of "\<lambda>_. [0, 0]" "[]"] show ?thesis using run by simp
qed

lemma buildSampleTree_levels_witness:
  "buildSampleTree (\<lambda>_. Inr [0, 0]) (\<lambda>row k. take k [0, 1]) (genAttentionMap [1]) 1 7 1 = Inr (sample_levels (\<lambda>_. [0, 1]) [1] 0 0 [7])"
  using buildSampleTree_levels [of "[1]" "\<lambda>_. Inr [0, 0]" "\<lambda>row k. take k [0, 1]" 1 "\<lambda>_. [0, 1]" 7]
  by (simp add: map_size_def tree_nodes_def best_tokens_def)

end
