(* ===== verification/SSDModel.thy ===== *)
theory SSDModel
  imports SSDTree
begin

text \<open>
  \<open>SSDModel\<close>, the decode loop with self-speculative decoding
  (\<open>models/llama3_2_ssd/ssd_model.h\<close>, \<open>ssd_model.cpp\<close>), on top of the state of \<open>LLMModel\<close>.
  It drafts a tree in one pass, verifies it greedily, and copies the cache entries of the
  accepted positions only.

  The math library, \<open>std::partial_sort\<close> and the bytes of the forecast prefix file come
  in as one record.
\<close>

section \<open>State\<close>

record kv_tensor_info =
  ki_key_in :: "nat option"
  ki_key_out :: "nat option"
  ki_key_in_kv_len :: nat
  ki_key_out_seq_len :: nat
  ki_key_elem_size :: nat
  ki_key_n_rows :: nat
  ki_val_in :: "nat option"
  ki_val_out :: "nat option"
  ki_val_in_kv_len :: nat
  ki_val_out_seq_len :: nat
  ki_val_token_size :: nat
  ki_val_n_heads :: nat

record 'p ssd = "'p llm" +
  d_cfg :: ssd_config
  d_rope :: "f64 list option"
  d_map :: draft_map
  d_kv :: "kv_tensor_info list"

record ssd_lib =
  sl_libm :: libm
  sl_sort :: partial_sort
  sl_prefix_file :: "u8 list option"

definition draft_levels :: "'p ssd \<Rightarrow> nat" where
  "draft_levels st = length (sc_branches (d_cfg st))"

definition forecast_prefix :: "'p ssd \<Rightarrow> nat" where
  "forecast_prefix st = sc_forecast_prefix (d_cfg st)"

definition mkSSD :: "llm_spec \<Rightarrow> gen_config \<Rightarrow> ssd_config \<Rightarrow> 'p ssd" where
  "mkSSD spec cfg sc = llm.extend (mkLLM spec cfg)
     \<lparr> d_cfg = sc, d_rope = None, d_map = genAttentionMap (sc_branches sc), d_kv = [] \<rparr>"

section \<open>The forecast prefix\<close>

text \<open>Reading into a buffer, and skipping, on a stream that delivers nothing once it has failed.\<close>

definition load_row :: "nat option \<Rightarrow> nat \<Rightarrow> nat \<Rightarrow> u8 list option \<times> mem \<Rightarrow> (u8 list option \<times> mem) res" where
  "load_row dst off n = (\<lambda>(s, m).
     case s of None \<Rightarrow> Inr (None, m)
     | Some bs \<Rightarrow> rbind (deref dst) (\<lambda>d. rbind (mem_store d off (take n bs) m) (\<lambda>m.
         Inr (if n \<le> length bs then Some (drop n bs) else None, m))))"

definition stream_skip :: "nat \<Rightarrow> u8 list option \<Rightarrow> u8 list option" where
  "stream_skip n s = map_option (drop n) s"

record prefix_header =
  ph_magic :: nat
  ph_dtype :: nat
  ph_n_heads :: nat
  ph_embed_dim :: nat
  ph_update_size :: nat

definition le_nat :: "nat \<Rightarrow> nat \<Rightarrow> u8 list \<Rightarrow> nat" where
  "le_nat off n bs = unat (of_le (slice off n bs) :: 64 word)"

definition parse_prefix_header :: "u8 list \<Rightarrow> prefix_header" where
  "parse_prefix_header bs = \<lparr> ph_magic = le_nat 4 4 bs, ph_dtype = le_nat 8 1 bs,
     ph_n_heads = le_nat 10 2 bs, ph_embed_dim = le_nat 12 2 bs, ph_update_size = le_nat 14 2 bs \<rparr>"

definition prefix_elem_bytes :: "prefix_header \<Rightarrow> nat" where
  "prefix_elem_bytes h = (if ph_dtype h = 1 then 2 else if ph_dtype h = 2 then 4 else 1)"

text \<open>One tensor of the file; the key and the value loop differ in layout only.\<close>

definition load_prefix_tensor :: "bool \<Rightarrow> prefix_header \<Rightarrow> 'p ssd \<Rightarrow> nat \<times> kv_pair
    \<Rightarrow> u8 list option \<times> mem \<Rightarrow> (u8 list option \<times> mem) res" where
  "load_prefix_tensor is_key h st = (\<lambda>(shard, pair) (s, m).
     let name = (if is_key then kp_key_in pair else kp_value_in pair);
         n_valid = ph_update_size h; H = sp_num_kv_heads (l_spec st); hd = sp_head_dim (l_spec st);
         file_bytes = (\<lambda>heads. heads * ph_embed_dim h * n_valid * prefix_elem_bytes h)
     in rbind (graph_at st (graphIndex st 0 shard (l_active_cl st))) (\<lambda>g.
        if \<not> hasInput g name then Inr (stream_skip (file_bytes (ph_n_heads h)) s, m)
        else rbind (inputSpec g name) (\<lambda>sp.
             rbind (idx_vec (ts_shape sp) (if is_key then 3 else 2)) (\<lambda>kv_len.
             rbind (inputPtr g name) (\<lambda>dst.
               let es = elementSize (ts_dtype sp);
                   tok = (if is_key then es else hd * es);
                   n_rows = (if is_key then H * hd else H)
               in rbind (rfor (\<lambda>row. load_row dst (row * kv_len * tok) (n_valid * tok)) [0..<n_rows] (s, m)) (\<lambda>(s, m).
                    Inr (if H < ph_n_heads h then stream_skip (file_bytes (ph_n_heads h - H)) s else s, m)))))))"

definition prefix_slots :: "'p ssd \<Rightarrow> (nat \<times> kv_pair) list res" where
  "prefix_slots st =
     rbind (idx_vec (sp_state_blocks (l_spec st)) (l_kv_block st)) (\<lambda>b.
     rfor (\<lambda>s slots. rbind (idx_vec (sb_shard_pairs b) s) (\<lambda>ps. Inr (slots @ map (Pair s) ps)))
       [0..<length (sp_shards (l_spec st))] [])"

text \<open>All slots in shard order; the stream goes from one to the next.\<close>

primrec load_prefix_slots :: "bool \<Rightarrow> prefix_header \<Rightarrow> (nat \<times> kv_pair) list \<Rightarrow> u8 list option
    \<Rightarrow> ('p ssd, u8 list option) sx" where
  "load_prefix_slots is_key h [] s = sret s"
| "load_prefix_slots is_key h (x # xs) s = (\<lambda>st.
     case load_prefix_tensor is_key h st x (s, m_mem st) of
       Inl e \<Rightarrow> (Inl e, st)
     | Inr (s, m) \<Rightarrow> load_prefix_slots is_key h xs s (st\<lparr> m_mem := m \<rparr>))"

text \<open>The result says whether the file was accepted; the payload reads are not checked.\<close>

definition loadForecastPrefix :: "ssd_lib \<Rightarrow> ('p ssd, bool) sx" where
  "loadForecastPrefix lib = swith (\<lambda>st.
     case sl_prefix_file lib of None \<Rightarrow> sret False
     | Some bs \<Rightarrow>
         let h = parse_prefix_header bs
         in if length bs < 16 \<or> ph_magic h \<noteq> 0xC0DE \<or> ph_update_size h \<noteq> forecast_prefix st then sret False
            else sbind (slift (prefix_slots st)) (\<lambda>slots.
                 sbind (load_prefix_slots True h slots (Some (drop 16 bs))) (\<lambda>s.
                 sbind (load_prefix_slots False h slots s) (\<lambda>_. sret True))))"

section \<open>Bring-up and reset\<close>

definition kv_tensor_of :: "llm_spec \<Rightarrow> graph \<Rightarrow> kv_pair \<Rightarrow> kv_tensor_info res" where
  "kv_tensor_of sp g p =
     rbind (inputSpec g (kp_key_in p)) (\<lambda>ki. rbind (outputSpec g (kp_key_out p)) (\<lambda>ko.
     rbind (inputPtr g (kp_key_in p)) (\<lambda>kip. rbind (outputPtr g (kp_key_out p)) (\<lambda>kop.
     rbind (idx_vec (ts_shape ki) 3) (\<lambda>ki_kv. rbind (idx_vec (ts_shape ko) 3) (\<lambda>ko_seq.
     rbind (inputSpec g (kp_value_in p)) (\<lambda>vi. rbind (outputSpec g (kp_value_out p)) (\<lambda>vo.
     rbind (inputPtr g (kp_value_in p)) (\<lambda>vip. rbind (outputPtr g (kp_value_out p)) (\<lambda>vop.
     rbind (idx_vec (ts_shape vi) 2) (\<lambda>vi_kv. rbind (idx_vec (ts_shape vo) 2) (\<lambda>vo_seq.
       Inr \<lparr> ki_key_in = kip, ki_key_out = kop, ki_key_in_kv_len = ki_kv, ki_key_out_seq_len = ko_seq,
             ki_key_elem_size = elementSize (ts_dtype ki), ki_key_n_rows = sp_num_kv_heads sp * sp_head_dim sp,
             ki_val_in = vip, ki_val_out = vop, ki_val_in_kv_len = vi_kv, ki_val_out_seq_len = vo_seq,
             ki_val_token_size = sp_head_dim sp * elementSize (ts_dtype vi),
             ki_val_n_heads = sp_num_kv_heads sp \<rparr>))))))))))))"

definition kv_tensors_of :: "'p ssd \<Rightarrow> kv_tensor_info list res" where
  "kv_tensors_of st =
     rbind (idx_vec (sp_state_blocks (l_spec st)) (l_kv_block st)) (\<lambda>b.
     rfor (\<lambda>s infos. rbind (idx_vec (sb_shard_pairs b) s) (\<lambda>ps.
         if ps = [] then Inr infos
         else rbind (graph_at st (graphIndex st 1 s (l_active_cl st))) (\<lambda>g.
              rbind (rmap (kv_tensor_of (l_spec st) g) ps) (\<lambda>is. Inr (infos @ is)))))
       [0..<length (sp_shards (l_spec st))] [])"

definition ssd_onInitialized :: "'p env \<Rightarrow> ssd_lib \<Rightarrow> decode_config \<Rightarrow> ('p ssd, bool) sx" where
  "ssd_onInitialized env lib dc =
     sbind (llm_onInitialized env dc) (\<lambda>ok.
     if \<not> ok then sret False
     else sthen (smod (\<lambda>st. st\<lparr> d_rope := Some (rotary_inv_freq (sl_libm lib) (sp_head_dim (l_spec st)) (sc_rope_theta (d_cfg st))) \<rparr>))
         (sthen (supd (\<lambda>st. rbind (kv_tensors_of st) (\<lambda>is. Inr (st\<lparr> d_kv := is \<rparr>))))
         (sthen (swith (\<lambda>st. swhen (sc_prefix_path (d_cfg st) \<noteq> [])
             (sbind (loadForecastPrefix lib) (\<lambda>loaded.
                swhen loaded (smod (\<lambda>st. st\<lparr> l_n_past := forecast_prefix st \<rparr>))))))
         (sthen (smod (\<lambda>st. st\<lparr> l_n_past := forecast_prefix st \<rparr>))
         (sret True)))))"

definition ssd_resetKVCache :: "ssd_lib \<Rightarrow> ('p ssd, unit) sx" where
  "ssd_resetKVCache lib =
     sthen resetKVCache
    (sthen (swith (\<lambda>st. swhen (sc_prefix_path (d_cfg st) \<noteq> []) (sbind (loadForecastPrefix lib) (\<lambda>_. sret ()))))
      (smod (\<lambda>st. st\<lparr> l_n_past := forecast_prefix st \<rparr>)))"

section \<open>Running the graphs\<close>

definition readLogitsAt :: "'p ssd \<Rightarrow> nat \<Rightarrow> nat \<Rightarrow> f32 list res" where
  "readLogitsAt st phase position =
     (let V = sp_vocab_size (l_spec st); n = length (sp_shards (l_spec st))
      in if n = 0 then Inl UndefinedBehaviour
         else rbind (graph_at st (graphIndex st phase (n - 1) (l_active_cl st))) (\<lambda>g.
              read_float g (sh_out_state (last (sp_shards (l_spec st)))) V (position * V) (m_mem st)))"

definition requireRope :: "'p ssd \<Rightarrow> f64 list res" where
  "requireRope st = (case d_rope st of
     None \<Rightarrow> Inl (RuntimeError ''SSDModel: RoPE table accessed before onInitialized() built it'')
   | Some f \<Rightarrow> Inr f)"

definition write_if_input :: "graph \<Rightarrow> string \<Rightarrow> fsrc \<Rightarrow> mem \<Rightarrow> mem res" where
  "write_if_input g name src m = (if hasInput g name then write_float g name src m else Inr m)"

text \<open>One shard: the mask, the providers, then the rotary table over what they wrote.\<close>

definition ssd_shard_inputs :: "'p env \<Rightarrow> graph \<Rightarrow> f32 list \<Rightarrow> f64 list \<times> f64 list \<Rightarrow> run_ctx \<Rightarrow> ('p ssd, unit) sx" where
  "ssd_shard_inputs env g msk tables ctx = swith (\<lambda>st.
     sthen (smem (write_if_input g (sp_attention_mask_name (l_spec st)) (SrcFloat msk)))
    (sthen (sfor (\<lambda>p. smem (e_write env p g ctx)) (l_providers st))
    (sthen (smem (write_if_input g ''position_ids_cos'' (SrcDouble (fst tables))))
           (smem (write_if_input g ''position_ids_sin'' (SrcDouble (snd tables)))))))"

definition tree_shard :: "'p env \<Rightarrow> f32 list \<Rightarrow> f64 list \<times> f64 list \<Rightarrow> run_ctx \<Rightarrow> nat \<Rightarrow> ('p ssd, unit) sx" where
  "tree_shard env msk tables ctx s = swith (\<lambda>st.
     sbind (slift (graph_at st (graphIndex st (rc_phase ctx) s (l_active_cl st)))) (\<lambda>g.
     sthen (ssd_shard_inputs env g msk tables ctx)
    (sthen (execute env g)
           (swhen (s + 1 < length (sp_shards (l_spec st))) (connect (rc_phase ctx \<noteq> 0) (l_active_cl st) s)))))"

definition runShardsWithTreeMask :: "'p env \<Rightarrow> ssd_lib \<Rightarrow> int list \<Rightarrow> nat \<Rightarrow> nat \<Rightarrow> nat \<Rightarrow> ('p ssd, unit) sx" where
  "runShardsWithTreeMask env lib tokens phase n_past prefix_off = swith (\<lambda>st.
     let n = length tokens; seq_len = sp_seq_len_decode (l_spec st); ps = dm_parents (d_map st); fp = forecast_prefix st
     in sbind (slift (idx_vec (sp_context_lengths (l_spec st)) (l_active_cl st))) (\<lambda>cl.
        sbind (slift (buildTreeAttentionMask ps fp n_past n seq_len (szsub cl seq_len) prefix_off)) (\<lambda>msk.
        sbind (slift (computeTreePositionIds ps fp n_past n)) (\<lambda>pos.
        sbind (slift (requireRope st)) (\<lambda>inv_freq.
          sfor (tree_shard env msk (rotary_forward (sl_libm lib) inv_freq pos)
              \<lparr> rc_token_ids = tokens, rc_n_past = n_past, rc_curr_len = n, rc_phase = phase \<rparr>)
            [0..<length (sp_shards (l_spec st))])))))"

section \<open>The cache of accepted positions\<close>

text \<open>The runs of one tensor, one behind the other from column \<open>col\<close> on.\<close>

primrec place_runs :: "nat \<Rightarrow> nat \<Rightarrow> nat \<Rightarrow> nat \<Rightarrow> nat option \<Rightarrow> nat option \<Rightarrow> (nat \<times> nat) list \<Rightarrow> nat \<Rightarrow> mem \<Rightarrow> mem res" where
  "place_runs n_rows tok src_kv dst_kv src dst [] col m = Inr m"
| "place_runs n_rows tok src_kv dst_kv src dst (r # rs) col m =
     rbind (copy_rows n_rows tok src_kv dst_kv (fst r) col (snd r) src dst m)
       (place_runs n_rows tok src_kv dst_kv src dst rs (col + snd r))"

definition update_tensors :: "(nat \<times> nat) list \<Rightarrow> nat \<Rightarrow> kv_tensor_info \<Rightarrow> mem \<Rightarrow> mem res" where
  "update_tensors runs n_past i m =
     rbind (place_runs (ki_key_n_rows i) (ki_key_elem_size i) (ki_key_out_seq_len i) (ki_key_in_kv_len i)
              (ki_key_out i) (ki_key_in i) runs n_past m)
       (place_runs (ki_val_n_heads i) (ki_val_token_size i) (ki_val_out_seq_len i) (ki_val_in_kv_len i)
              (ki_val_out i) (ki_val_in i) runs n_past)"

definition selectiveKVUpdate :: "bool list \<Rightarrow> ('p ssd, unit) sx" where
  "selectiveKVUpdate selected = swith (\<lambda>st.
     smem (rfor (update_tensors (copy_runs selected) (l_n_past st)) (d_kv st)))"

section \<open>Prefill\<close>

definition ssd_mask_row :: "nat \<Rightarrow> nat \<Rightarrow> nat \<Rightarrow> nat \<Rightarrow> nat \<Rightarrow> f32 list \<Rightarrow> f32 list res" where
  "ssd_mask_row fp n_past kv_len row_len row msk =
     rbind (if fp < n_past then buf_store (row * row_len + fp) (replicate (n_past - fp) 0) msk else Inr msk)
       (buf_store (row * row_len + kv_len) (replicate (row + 1) 0))"

definition ssd_prefill_mask :: "nat \<Rightarrow> nat \<Rightarrow> nat \<Rightarrow> nat \<Rightarrow> nat \<Rightarrow> f32 list res" where
  "ssd_prefill_mask fp n_past chunk_size seq_len kv_len =
     rfor (ssd_mask_row fp n_past kv_len (kv_len + seq_len)) [0..<chunk_size]
       (replicate (seq_len * (kv_len + seq_len)) f32_masked)"

definition ssd_prefill_shard :: "'p env \<Rightarrow> f32 list \<Rightarrow> f64 list \<times> f64 list \<Rightarrow> run_ctx \<Rightarrow> nat \<Rightarrow> ('p ssd, unit) sx" where
  "ssd_prefill_shard env msk tables ctx s = swith (\<lambda>st.
     sbind (slift (graph_at st (graphIndex st 0 s (l_active_cl st)))) (\<lambda>g.
     sthen (ssd_shard_inputs env g msk tables ctx)
    (sthen (execute env g)
    (sthen (updateKV s 0 (l_n_past st) (rc_curr_len ctx))
           (swhen (s + 1 < length (sp_shards (l_spec st))) (connect False (l_active_cl st) s))))))"

definition ssd_prefill_chunk :: "'p env \<Rightarrow> ssd_lib \<Rightarrow> int list \<Rightarrow> ('p ssd, unit) sx" where
  "ssd_prefill_chunk env lib chunk = swith (\<lambda>st.
     let fp = forecast_prefix st; n = length chunk; pre = sp_seq_len_prefill (l_spec st); n_past = l_n_past st
     in sbind (slift (idx_vec (sp_context_lengths (l_spec st)) (l_active_cl st))) (\<lambda>cl.
        sbind (slift (ssd_prefill_mask fp n_past n pre (szsub cl pre))) (\<lambda>msk.
        sbind (slift (requireRope st)) (\<lambda>inv_freq.
          let pos = map (\<lambda>i. to_i32 (int (szsub n_past fp + i))) [0..<n]
          in sthen (sfor (ssd_prefill_shard env msk (rotary_forward (sl_libm lib) inv_freq pos)
                 \<lparr> rc_token_ids = chunk, rc_n_past = n_past, rc_curr_len = n, rc_phase = 0 \<rparr>)
               [0..<length (sp_shards (l_spec st))])
             (smod (\<lambda>st. st\<lparr> l_n_past := l_n_past st + n \<rparr>))))))"

text \<open>As in \<open>LLMRun.prefill_loop\<close>, the fuel is the number of tokens.\<close>

fun ssd_prefill_loop :: "'p env \<Rightarrow> ssd_lib \<Rightarrow> nat \<Rightarrow> int list \<Rightarrow> nat \<Rightarrow> ('p ssd, nat) sx" where
  "ssd_prefill_loop env lib fuel [] last_size = sret last_size"
| "ssd_prefill_loop env lib 0 (t # ts) last_size = sthrow Blocked"
| "ssd_prefill_loop env lib (Suc fuel) (t # ts) last_size = swith (\<lambda>st.
     let n = min (length (t # ts)) (sp_seq_len_prefill (l_spec st))
     in sthen (ssd_prefill_chunk env lib (take n (t # ts))) (ssd_prefill_loop env lib fuel (drop n (t # ts)) n))"

section \<open>The decode loop\<close>

definition ssd_restride :: "nat \<Rightarrow> nat \<Rightarrow> ('p ssd, unit) sx" where
  "ssd_restride from_ph to_ph = swith (\<lambda>st.
     sfor (\<lambda>s. reshapeKV s (phase_kv st from_ph) (phase_kv st to_ph) (l_n_past st)) [0..<length (sp_shards (l_spec st))])"

definition draft_from :: "ssd_lib \<Rightarrow> int \<Rightarrow> nat \<Rightarrow> 'p ssd \<Rightarrow> int list res" where
  "draft_from lib last_token start_offset st =
     buildSampleTree (readLogitsAt st 1) (topKLogits (sl_sort lib) (sp_vocab_size (l_spec st))) (d_map st)
       (draft_levels st) last_token start_offset"

text \<open>The accepted tokens go to the caller one by one; an end token or the callback stops.\<close>

fun emit_tokens :: "int list \<Rightarrow> (int list \<Rightarrow> bool) \<Rightarrow> int list \<Rightarrow> int list \<Rightarrow> int list \<times> bool" where
  "emit_tokens eos cb [] out = (out, False)"
| "emit_tokens eos cb (t # ts) out =
     (if t \<in> set eos then (out, True)
      else if \<not> cb (out @ [t]) then (out @ [t], True)
      else emit_tokens eos cb ts (out @ [t]))"

definition ssd_total_tokens :: "'p ssd \<Rightarrow> nat" where
  "ssd_total_tokens st = dm_nodes (d_map st)
     + length (genForecastTokens (sp_vocab_size (l_spec st)) (draft_levels st) (dm_nodes (d_map st)))"

text \<open>One pass of the loop: the output, and the next draft tree unless the loop is left.\<close>

definition ssd_step :: "'p env \<Rightarrow> ssd_lib \<Rightarrow> int \<Rightarrow> (int list \<Rightarrow> bool) \<Rightarrow> int list \<Rightarrow> int list
    \<Rightarrow> ('p ssd, int list \<times> int list option) sx" where
  "ssd_step env lib max_tokens cb draft out = swith (\<lambda>st.
     let nodes = dm_nodes (d_map st); eos = sp_eos_token_ids (l_spec st);
         forecast = genForecastTokens (sp_vocab_size (l_spec st)) (draft_levels st) nodes
     in sthen (runShardsWithTreeMask env lib (draft @ forecast) 1 (l_n_past st) nodes)
       (sbind (swith (\<lambda>st. slift (verifyDraftTree (readLogitsAt st 1) eos (d_map st) draft))) (\<lambda>(toks, ids).
        sthen (selectiveKVUpdate (mark_selected (ssd_total_tokens st) ids))
       (sthen (smod (\<lambda>st. st\<lparr> l_n_past := l_n_past st + length toks \<rparr>))
        (case emit_tokens eos cb toks out of (out, stop) \<Rightarrow>
           if stop \<or> max_tokens \<le> to_i32 (int (length out)) then sret (out, None)
           else swith (\<lambda>st. sbind (slift (draft_from lib (last toks) (nodes + last ids * draft_levels st) st))
                  (\<lambda>draft. sret (out, Some draft))))))))"

fun ssd_loop :: "'p env \<Rightarrow> ssd_lib \<Rightarrow> int \<Rightarrow> (int list \<Rightarrow> bool) \<Rightarrow> nat \<Rightarrow> int list \<Rightarrow> int list \<Rightarrow> ('p ssd, int list) sx" where
  "ssd_loop env lib max_tokens cb 0 draft out = sret out"
| "ssd_loop env lib max_tokens cb (Suc steps) draft out = swith (\<lambda>st.
     sbind (slift (idx_vec (sp_context_lengths (l_spec st)) (l_active_cl st))) (\<lambda>cl.
     if cl < l_n_past st + ssd_total_tokens st then sret out
     else sbind (ssd_step env lib max_tokens cb draft out) (\<lambda>(out, next_draft).
          case next_draft of None \<Rightarrow> sret out | Some d \<Rightarrow> ssd_loop env lib max_tokens cb steps d out)))"

text \<open>The first pass runs the sampled token with one chain of forecast tokens behind it.\<close>

definition ssd_first_pass :: "'p env \<Rightarrow> ssd_lib \<Rightarrow> int \<Rightarrow> ('p ssd, unit) sx" where
  "ssd_first_pass env lib tok = swith (\<lambda>st.
     let n_past = l_n_past st;
         tokens = tok # map (\<lambda>i. to_i32 (int (sp_vocab_size (l_spec st) + i))) [0..<draft_levels st]
     in sthen (runShardsWithTreeMask env lib tokens 1 n_past 1)
       (sthen (sfor (\<lambda>s. updateKV s 1 n_past 1) [0..<length (sp_shards (l_spec st))])
         (smod (\<lambda>st. st\<lparr> l_n_past := l_n_past st + 1 \<rparr>))))"

definition ssd_generate :: "'p env \<Rightarrow> ssd_lib \<Rightarrow> gen_config \<Rightarrow> (int list \<Rightarrow> bool) \<Rightarrow> int list \<Rightarrow> ('p ssd, int list) sx" where
  "ssd_generate env lib cfg cb prompt =
     sbind (ssd_prefill_loop env lib (length prompt) prompt 0) (\<lambda>last_size.
     sthen (ssd_restride 0 1)
    (sbind (sampleNextToken env 0 (szsub last_size 1)) (\<lambda>tok. swith (\<lambda>st.
     if tok \<in> set (sp_eos_token_ids (l_spec st)) then sthen (ssd_restride 1 0) (sret [])
     else sbind (if \<not> cb [tok] then sret [tok]
                 else sthen (ssd_first_pass env lib tok)
                     (sbind (swith (\<lambda>st. slift (draft_from lib tok 1 st))) (\<lambda>draft.
                        ssd_loop env lib (gc_max_tokens cfg) cb (nat (gc_max_tokens cfg)) draft [tok])))
          (\<lambda>out. sthen (ssd_restride 1 0) (sret out))))))"

section \<open>The cache after a pass\<close>

text \<open>The runs land one behind the other; everything else in the tensor stays.\<close>

lemma place_runs_cells:
  assumes "s \<noteq> d" "kv_fits n_rows tok src_kv (m s)" "kv_fits n_rows tok dst_kv (m d)"
    and "\<And>a n. (a, n) \<in> set rs \<Longrightarrow> a + n \<le> src_kv" "col + length (run_positions rs) \<le> dst_kv"
  shows "\<exists>buf. place_runs n_rows tok src_kv dst_kv (Some s) (Some d) rs col m = Inr (m(d := buf))
     \<and> length buf = length (m d)
     \<and> (\<forall>r<n_rows. \<forall>t<dst_kv. kv_cell tok dst_kv buf r t
          = (if col \<le> t \<and> t < col + length (run_positions rs)
             then kv_cell tok src_kv (m s) r (run_positions rs ! (t - col)) else kv_cell tok dst_kv (m d) r t))"
  using assms
proof (induction rs arbitrary: col m)
  case Nil
  have "\<not> (col \<le> t \<and> t < col)" for t by simp
  then show ?case by (intro exI [of _ "m d"]) (auto simp: run_positions_def)
next
  case (Cons x rs)
  obtain a n where x: "x = (a, n)" by (cases x)
  have P: "run_positions (x # rs) = [a..<a + n] @ run_positions rs" by (simp add: run_positions_def x)
  have a: "a + n \<le> src_kv" using Cons.prems(4) x by auto
  have col: "col + n \<le> dst_kv" "col + n + length (run_positions rs) \<le> dst_kv" using Cons.prems(5) P by simp_all
  from copy_rows_cells [where m = m, OF Cons.prems(1,2,3) a col(1)] obtain b1 where
    1: "copy_rows n_rows tok src_kv dst_kv a col n (Some s) (Some d) m = Inr (m(d := b1))" "length b1 = length (m d)"
    and c1: "\<forall>r<n_rows. \<forall>t<dst_kv. kv_cell tok dst_kv b1 r t
          = (if col \<le> t \<and> t < col + n then kv_cell tok src_kv (m s) r (a + (t - col)) else kv_cell tok dst_kv (m d) r t)"
    by blast
  let ?m = "m(d := b1)"
  have "\<exists>buf. place_runs n_rows tok src_kv dst_kv (Some s) (Some d) rs (col + n) ?m = Inr (?m(d := buf))
     \<and> length buf = length (?m d)
     \<and> (\<forall>r<n_rows. \<forall>t<dst_kv. kv_cell tok dst_kv buf r t
          = (if col + n \<le> t \<and> t < col + n + length (run_positions rs)
             then kv_cell tok src_kv (?m s) r (run_positions rs ! (t - (col + n))) else kv_cell tok dst_kv (?m d) r t))"
    by (rule Cons.IH) (use Cons.prems 1(2) col in \<open>auto simp: kv_fits_def\<close>)
  then obtain b2 where
    2: "place_runs n_rows tok src_kv dst_kv (Some s) (Some d) rs (col + n) ?m = Inr (m(d := b2))" "length b2 = length (m d)"
    and c2: "\<forall>r<n_rows. \<forall>t<dst_kv. kv_cell tok dst_kv b2 r t
          = (if col + n \<le> t \<and> t < col + n + length (run_positions rs)
             then kv_cell tok src_kv (m s) r (run_positions rs ! (t - (col + n))) else kv_cell tok dst_kv b1 r t)"
    using Cons.prems(1) 1(2) by auto
  have "kv_cell tok dst_kv b2 r t = (if col \<le> t \<and> t < col + length (run_positions (x # rs))
      then kv_cell tok src_kv (m s) r (run_positions (x # rs) ! (t - col)) else kv_cell tok dst_kv (m d) r t)"
    if "r < n_rows" "t < dst_kv" for r t
    using c1 c2 that by (auto simp: P nth_append)
  then show ?case using 1(1) 2 x by (intro exI [of _ b2]) (simp del: fun_upd_apply)
qed

text \<open>A run never reaches past the positions it covers.\<close>

lemma run_positions_mem: "(a, n) \<in> set rs \<Longrightarrow> {a..<a + n} \<subseteq> set (run_positions rs)"
  by (force simp: run_positions_def)

lemma run_in_bounds:
  assumes "(a, n) \<in> set rs" "0 < n" "set (run_positions rs) \<subseteq> {..<k}"
  shows "a + n \<le> k"
proof -
  have "a + n - 1 \<in> {a..<a + n}" using assms(2) by auto
  with run_positions_mem [OF assms(1)] assms(3) have "a + n - 1 < k" by blast
  then show ?thesis using assms(2) by simp
qed

lemma copy_runs_pos: "(a, n) \<in> set (copy_runs selected) \<Longrightarrow> 0 < n"
proof -
  have "\<forall>(a, n) \<in> set (fold (add_run selected) xs rs). 0 < n" if "\<forall>(a, n) \<in> set rs. 0 < n" for xs rs
    using that
  proof (induction xs arbitrary: rs)
    case (Cons x xs)
    have "\<forall>(a, n) \<in> set (add_run selected x rs). 0 < n"
      using Cons.prems by (auto simp: add_run_def dest: in_set_butlastD)
    then show ?case using Cons.IH by simp
  qed simp
  from this [of "[]" "[0..<length selected]"] show "(a, n) \<in> set (copy_runs selected) \<Longrightarrow> 0 < n"
    by (auto simp: copy_runs_def)
qed

text \<open>
  The accepted positions of one tensor: position \<open>ids ! k\<close> of the pass becomes token
  \<open>n_past + k\<close> of the cache.
\<close>

lemma accepted_tensor:
  assumes "sorted_wrt (<) ids" "set ids \<subseteq> {..<n_all}" "set ids \<subseteq> {..<src_kv}" "n_past + length ids \<le> dst_kv"
    and "s \<noteq> d" "kv_fits n_rows tok src_kv (m s)" "kv_fits n_rows tok dst_kv (m d)"
  shows "\<exists>buf. place_runs n_rows tok src_kv dst_kv (Some s) (Some d) (copy_runs (mark_selected n_all ids)) n_past m
        = Inr (m(d := buf))
     \<and> length buf = length (m d)
     \<and> (\<forall>r<n_rows. (\<forall>k<length ids. kv_cell tok dst_kv buf r (n_past + k) = kv_cell tok src_kv (m s) r (ids ! k))
          \<and> (\<forall>t<dst_kv. t < n_past \<or> n_past + length ids \<le> t \<longrightarrow> kv_cell tok dst_kv buf r t = kv_cell tok dst_kv (m d) r t))"
proof -
  note P = copy_runs_accepted [OF assms(1,2)]
  have b: "a + n \<le> src_kv" if "(a, n) \<in> set (copy_runs (mark_selected n_all ids))" for a n
    using run_in_bounds [OF that copy_runs_pos [OF that]] P assms(3) by simp
  from place_runs_cells [where m = m and col = n_past and rs = "copy_runs (mark_selected n_all ids)", OF assms(5,6,7) b]
    assms(4) obtain buf where
    "place_runs n_rows tok src_kv dst_kv (Some s) (Some d) (copy_runs (mark_selected n_all ids)) n_past m = Inr (m(d := buf))"
    "length buf = length (m d)"
    "\<forall>r<n_rows. \<forall>t<dst_kv. kv_cell tok dst_kv buf r t
          = (if n_past \<le> t \<and> t < n_past + length ids
             then kv_cell tok src_kv (m s) r (ids ! (t - n_past)) else kv_cell tok dst_kv (m d) r t)"
    by (auto simp: P)
  then show ?thesis using assms(4) by (intro exI [of _ buf]) auto
qed

text \<open>The whole update: for every layer the key and the value tensor, each as rows, bytes of a
  token, tokens of a row in the graph's output and in the cache, and the two buffers.\<close>

record kv_copy =
  kc_rows :: nat
  kc_tok :: nat
  kc_src_kv :: nat
  kc_dst_kv :: nat
  kc_src :: "nat option"
  kc_dst :: "nat option"

definition kv_copies :: "kv_tensor_info list \<Rightarrow> kv_copy list" where
  "kv_copies is = concat (map (\<lambda>i.
     [\<lparr> kc_rows = ki_key_n_rows i, kc_tok = ki_key_elem_size i, kc_src_kv = ki_key_out_seq_len i,
        kc_dst_kv = ki_key_in_kv_len i, kc_src = ki_key_out i, kc_dst = ki_key_in i \<rparr>,
      \<lparr> kc_rows = ki_val_n_heads i, kc_tok = ki_val_token_size i, kc_src_kv = ki_val_out_seq_len i,
        kc_dst_kv = ki_val_in_kv_len i, kc_src = ki_val_out i, kc_dst = ki_val_in i \<rparr>]) is)"

text \<open>Both buffers are mapped and hold the tensor, the accepted positions lie in the output, and the
  cache has room for them.\<close>

definition copy_room :: "mem \<Rightarrow> nat \<Rightarrow> nat list \<Rightarrow> kv_copy \<Rightarrow> bool" where
  "copy_room m n_past ids c \<longleftrightarrow> kc_src c \<noteq> None \<and> kc_dst c \<noteq> None
     \<and> kv_fits (kc_rows c) (kc_tok c) (kc_src_kv c) (m (the (kc_src c)))
     \<and> kv_fits (kc_rows c) (kc_tok c) (kc_dst_kv c) (m (the (kc_dst c)))
     \<and> set ids \<subseteq> {..<kc_src_kv c} \<and> n_past + length ids \<le> kc_dst_kv c"

text \<open>Position \<open>ids ! k\<close> of the pass is token \<open>n_past + k\<close> of the cache, the other tokens are as before.\<close>

definition copied :: "mem \<Rightarrow> mem \<Rightarrow> nat \<Rightarrow> nat list \<Rightarrow> kv_copy \<Rightarrow> bool" where
  "copied m m' n_past ids c \<longleftrightarrow>
     (let old = kv_cell (kc_tok c) (kc_dst_kv c) (m (the (kc_dst c)));
          new = kv_cell (kc_tok c) (kc_dst_kv c) (m' (the (kc_dst c)))
      in length (m' (the (kc_dst c))) = length (m (the (kc_dst c)))
       \<and> (\<forall>r < kc_rows c.
            (\<forall>k < length ids. new r (n_past + k) = kv_cell (kc_tok c) (kc_src_kv c) (m (the (kc_src c))) r (ids ! k))
          \<and> (\<forall>t < kc_dst_kv c. t < n_past \<or> n_past + length ids \<le> t \<longrightarrow> new r t = old r t)))"

lemma copied_at:
  "copied m m' n_past ids c \<Longrightarrow> r < kc_rows c \<Longrightarrow> k < length ids \<Longrightarrow>
   kv_cell (kc_tok c) (kc_dst_kv c) (m' (the (kc_dst c))) r (n_past + k)
     = kv_cell (kc_tok c) (kc_src_kv c) (m (the (kc_src c))) r (ids ! k)"
  by (simp add: copied_def Let_def)

lemma copied_kept:
  "copied m m' n_past ids c \<Longrightarrow> r < kc_rows c \<Longrightarrow> t < kc_dst_kv c \<Longrightarrow> t < n_past \<or> n_past + length ids \<le> t \<Longrightarrow>
   kv_cell (kc_tok c) (kc_dst_kv c) (m' (the (kc_dst c))) r t = kv_cell (kc_tok c) (kc_dst_kv c) (m (the (kc_dst c))) r t"
  by (auto simp: copied_def Let_def)

definition copy_one :: "(nat \<times> nat) list \<Rightarrow> nat \<Rightarrow> kv_copy \<Rightarrow> mem \<Rightarrow> mem res" where
  "copy_one runs n_past c = place_runs (kc_rows c) (kc_tok c) (kc_src_kv c) (kc_dst_kv c) (kc_src c) (kc_dst c) runs n_past"

lemma update_tensors_copies: "rfor (update_tensors runs n_past) is m = rfor (copy_one runs n_past) (kv_copies is) m"
proof (induction "is" arbitrary: m)
  case Nil
  then show ?case by (simp add: kv_copies_def)
next
  case (Cons i "is")
  have "kv_copies (i # is) = kv_copies [i] @ kv_copies is" by (simp add: kv_copies_def)
  moreover have "rfor (copy_one runs n_past) (kv_copies [i]) m = update_tensors runs n_past i m"
    by (simp add: kv_copies_def copy_one_def update_tensors_def rbind_def split: sum.splits)
  moreover have "rfor (update_tensors runs n_past) is = rfor (copy_one runs n_past) (kv_copies is)"
    using Cons.IH by (rule ext)
  ultimately show ?case by (simp add: rfor_append)
qed

lemma copy_one_copied:
  assumes "sorted_wrt (<) ids" "set ids \<subseteq> {..<n_all}" "copy_room m n_past ids c" "kc_src c \<noteq> kc_dst c"
  shows "\<exists>buf. copy_one (copy_runs (mark_selected n_all ids)) n_past c m = Inr (m(the (kc_dst c) := buf))
    \<and> copied m (m(the (kc_dst c) := buf)) n_past ids c"
proof -
  obtain s d where sd: "kc_src c = Some s" "kc_dst c = Some d" using assms(3) by (auto simp: copy_room_def)
  have "s \<noteq> d" using assms(4) sd by simp
  have r: "set ids \<subseteq> {..<kc_src_kv c}" "n_past + length ids \<le> kc_dst_kv c"
    "kv_fits (kc_rows c) (kc_tok c) (kc_src_kv c) (m s)" "kv_fits (kc_rows c) (kc_tok c) (kc_dst_kv c) (m d)"
    using assms(3) sd by (simp_all add: copy_room_def)
  from accepted_tensor [OF assms(1,2) r(1,2) \<open>s \<noteq> d\<close> r(3,4)] obtain buf where
    b: "place_runs (kc_rows c) (kc_tok c) (kc_src_kv c) (kc_dst_kv c) (Some s) (Some d) (copy_runs (mark_selected n_all ids)) n_past m
        = Inr (m(d := buf))"
    and "copied m (m(the (kc_dst c) := buf)) n_past ids c"
    using sd by (auto simp: copied_def Let_def simp del: fun_upd_apply) (simp add: copied_def Let_def)
  with sd show ?thesis by (intro exI [of _ buf]) (simp add: copy_one_def)
qed

lemma copies_all:
  assumes "sorted_wrt (<) ids" "set ids \<subseteq> {..<n_all}"
    and "\<And>c. c \<in> set cs \<Longrightarrow> copy_room m n_past ids c" "distinct (map kc_dst cs)"
    and "kc_src ` set cs \<inter> kc_dst ` set cs = {}"
  shows "\<exists>m'. rfor (copy_one (copy_runs (mark_selected n_all ids)) n_past) cs m = Inr m'
    \<and> (\<forall>b. Some b \<notin> kc_dst ` set cs \<longrightarrow> m' b = m b) \<and> (\<forall>c \<in> set cs. copied m m' n_past ids c)"
  using assms(3-5)
proof (induction cs arbitrary: m)
  case Nil
  then show ?case by simp
next
  case (Cons c cs)
  from Cons.prems(3) have "kc_src c \<noteq> kc_dst c" by auto
  from copy_one_copied [OF assms(1,2) Cons.prems(1) this] obtain buf where
    1: "copy_one (copy_runs (mark_selected n_all ids)) n_past c m = Inr (m(the (kc_dst c) := buf))"
    and c: "copied m (m(the (kc_dst c) := buf)) n_past ids c" by auto
  let ?m = "m(the (kc_dst c) := buf)"
  have room: "copy_room m n_past ids x" if "x \<in> set (c # cs)" for x using Cons.prems(1) that .
  have same: "?m (the (kc_src x)) = m (the (kc_src x))" "?m (the (kc_dst x)) = m (the (kc_dst x))" if "x \<in> set cs" for x
  proof -
    have "kc_src x \<in> kc_src ` set cs" "kc_dst x \<in> kc_dst ` set cs" using that by simp_all
    with Cons.prems(2,3) have "kc_src x \<noteq> kc_dst c" "kc_dst x \<noteq> kc_dst c" by auto
    with room [of x] room [of c] that show "?m (the (kc_src x)) = m (the (kc_src x))" "?m (the (kc_dst x)) = m (the (kc_dst x))"
      by (auto simp: copy_room_def)
  qed
  have "\<exists>m'. rfor (copy_one (copy_runs (mark_selected n_all ids)) n_past) cs ?m = Inr m'
    \<and> (\<forall>b. Some b \<notin> kc_dst ` set cs \<longrightarrow> m' b = ?m b) \<and> (\<forall>c \<in> set cs. copied ?m m' n_past ids c)"
    by (rule Cons.IH) (use Cons.prems room same in \<open>auto simp: copy_room_def simp del: fun_upd_apply\<close>)
  then obtain m' where 2: "rfor (copy_one (copy_runs (mark_selected n_all ids)) n_past) cs ?m = Inr m'"
    "\<forall>b. Some b \<notin> kc_dst ` set cs \<longrightarrow> m' b = ?m b" "\<forall>c \<in> set cs. copied ?m m' n_past ids c" by blast
  have "Some (the (kc_dst c)) \<notin> kc_dst ` set cs" using Cons.prems(2) room [of c] by (auto simp: copy_room_def)
  then have "m' (the (kc_dst c)) = ?m (the (kc_dst c))" using 2(2) by blast
  with c have "copied m m' n_past ids c" by (simp add: copied_def Let_def)
  moreover have "copied m m' n_past ids x" if "x \<in> set cs" for x
    using 2(3) same [OF that] that by (simp add: copied_def Let_def)
  moreover have "m' b = m b" if "Some b \<notin> kc_dst ` set (c # cs)" for b
    using 2(2) that room [of c] by (auto simp: copy_room_def)
  ultimately show ?case using 1 2(1) by (intro exI [of _ m']) (simp del: fun_upd_apply)
qed

text \<open>C11: the selective cache update puts the accepted nodes, of every layer's key and value
  tensor, one behind the other at the end of the cache, in order, and keeps all other tokens
  of the cache and all other buffers; every tensor is taken to be mapped and of its geometry,
  the buffers to be distinct, the accepted positions to lie in the output, and the cache to
  have room for n_past and the accepted tokens, which the caller does not check\<close>

lemma accepted_cells:
  assumes "sorted_wrt (<) ids" "set ids \<subseteq> {..<n_all}"
    and "\<And>c. c \<in> set (kv_copies (d_kv st)) \<Longrightarrow> copy_room (m_mem st) (l_n_past st) ids c"
    and "distinct (map kc_dst (kv_copies (d_kv st)))"
    and "kc_src ` set (kv_copies (d_kv st)) \<inter> kc_dst ` set (kv_copies (d_kv st)) = {}"
  shows "\<exists>m'. selectiveKVUpdate (mark_selected n_all ids) st = (Inr (), st\<lparr> m_mem := m' \<rparr>)
    \<and> (\<forall>c \<in> set (kv_copies (d_kv st)). copied (m_mem st) m' (l_n_past st) ids c)
    \<and> (\<forall>b. Some b \<notin> kc_dst ` set (kv_copies (d_kv st)) \<longrightarrow> m' b = m_mem st b)"
proof -
  from copies_all [OF assms] obtain m' where
    "rfor (copy_one (copy_runs (mark_selected n_all ids)) (l_n_past st)) (kv_copies (d_kv st)) (m_mem st) = Inr m'"
    "\<forall>b. Some b \<notin> kc_dst ` set (kv_copies (d_kv st)) \<longrightarrow> m' b = m_mem st b"
    "\<forall>c \<in> set (kv_copies (d_kv st)). copied (m_mem st) m' (l_n_past st) ids c" by blast
  then show ?thesis
    by (intro exI [of _ m']) (simp add: selectiveKVUpdate_def smem_def supd_run sx_simps update_tensors_copies)
qed

text \<open>Verification accepts increasing positions, so the lemma applies to what it returns.\<close>

lemma on_path_increasing:
  assumes "on_path read ps draft acc"
  shows "sorted_wrt (<) (snd acc)"
proof -
  have "snd acc ! i < snd acc ! j" if "i < j" "j < length (snd acc)" for i j
    using that
  proof (induction j)
    case (Suc j)
    have "snd acc ! j < snd acc ! Suc j" using assms Suc.prems(2) by (simp add: on_path_def)
    with Suc show ?case by (cases "i = j") auto
  qed simp
  then show ?thesis by (simp add: sorted_wrt_iff_nth_less)
qed

section \<open>Depth\<close>

lemma level_map_depth:
  assumes wf: "wf_parents ps" and start: "start < len"
    and "\<And>j. j < length (level_map bs start len) \<Longrightarrow> ps ! (len + j) = level_map bs start len ! j"
    and "len + length (level_map bs start len) \<le> length ps"
    and "\<And>i. i < len \<Longrightarrow> length (ancestors ps i) \<le> D" "0 \<notin> set bs"
    and "i < len + length (level_map bs start len)"
  shows "length (ancestors ps i) \<le> D + length bs"
  using assms(2-)
proof (induction bs arbitrary: start len D)
  case Nil
  then show ?case by simp
next
  case (Cons b bs)
  let ?W = "(len - start) * b"
  have lp: "length (level_parents b start len) = ?W" by (rule length_level_parents)
  have lm: "level_map (b # bs) start len = level_parents b start len @ level_map bs len (len + ?W)" by simp
  have d: "length (ancestors ps i) \<le> D + 1" if i: "i < len + ?W" for i
  proof (cases "i < len")
    case True
    then show ?thesis using Cons.prems(4) [of i] by simp
  next
    case False
    let ?j = "i - len"
    have j: "?j < ?W" using i False by simp
    have "ps ! i = level_parents b start len ! ?j"
      using Cons.prems(2) [of ?j] False j lm lp by (simp add: nth_append)
    moreover have "level_parents b start len ! ?j \<in> set (level_parents b start len)" using j lp by simp
    ultimately obtain n where n: "ps ! i = int n" "n < len" using set_level_parents by metis
    have "ancestors ps i = n # ancestors ps n"
      using ancestors_pos [OF wf, of i] False Cons.prems(1,3) i lm lp n by simp
    then show ?thesis using Cons.prems(4) [OF n(2)] by simp
  qed
  have "length (ancestors ps i) \<le> (D + 1) + length bs"
  proof (rule Cons.IH)
    show "len < len + ?W" using Cons.prems(1,5) by simp
    show "ps ! (len + ?W + j) = level_map bs len (len + ?W) ! j" if "j < length (level_map bs len (len + ?W))" for j
      using Cons.prems(2) [of "?W + j"] that lm lp by (simp add: nth_append add.assoc)
    show "len + ?W + length (level_map bs len (len + ?W)) \<le> length ps" using Cons.prems(3) lm lp by simp
    show "0 \<notin> set bs" using Cons.prems(5) by simp
    show "i < len + ?W + length (level_map bs len (len + ?W))" using Cons.prems(6) lm lp by simp
  qed (use d in simp)
  then show ?case by simp
qed

lemma draft_depth:
  assumes bs: "bs \<noteq> []" "0 \<notin> set bs" "map_size bs \<le> 2 ^ 31" and i: "i < tree_nodes bs"
  shows "length (ancestors (dm_parents (genAttentionMap bs)) i) \<le> length bs"
proof -
  note F = genAttentionMap_facts [OF bs refl]
  let ?ps = "dm_parents (genAttentionMap bs)"
  have l: "1 + length (level_map bs 0 1) = tree_nodes bs" by (simp add: length_level_map tree_nodes_def)
  have nth: "?ps ! i = (-1 # level_map bs 0 1) ! i" if "i < tree_nodes bs" for i using F(4) that by (metis nth_take)
  have "length (ancestors ?ps i) \<le> 0 + length bs"
  proof (rule level_map_depth [OF F(1), of 0 1])
    show "1 + length (level_map bs 0 1) \<le> length ?ps" using F(2) l by (simp add: map_size_def)
    show "?ps ! (1 + j) = level_map bs 0 1 ! j" if "j < length (level_map bs 0 1)" for j using nth [of "1 + j"] that l by simp
  qed (use bs(2) i l F(1) ancestors_0 in auto)
  then show ?thesis by simp
qed

section \<open>What a run keeps\<close>

definition ssd_kept :: "'p ssd \<Rightarrow> 'p ssd \<Rightarrow> bool" where
  "ssd_kept st st' \<longleftrightarrow> l_spec st' = l_spec st \<and> d_cfg st' = d_cfg st \<and> d_map st' = d_map st \<and> l_active_cl st' = l_active_cl st"

lemma ssd_kept_preorder [steps]: "preorder ssd_kept"
  by (auto simp: preorder_def ssd_kept_def)

lemma mem_only_ssd_kept:
  fixes m :: "('p ssd, 'b) sx"
  assumes "steps_in mem_only m"
  shows "steps_in ssd_kept m"
  using assms
proof (rule steps_in_mono)
  fix s s' :: "'p ssd" assume "mem_only s s'"
  then show "ssd_kept s s'"
    by (cases s, cases s') (simp add: mem_only_def forget_mem_def ssd_kept_def)
qed

lemmas ssd_mem_steps = mem_only_ssd_kept [OF smem_mem_only] mem_only_ssd_kept [OF execute_mem_only]
  mem_only_ssd_kept [OF updateKV_mem_only] mem_only_ssd_kept [OF reshapeKV_mem_only] mem_only_ssd_kept [OF connect_mem_only]

lemma ssd_shard_inputs_kept: "steps_in ssd_kept (ssd_shard_inputs env g msk tables ctx)"
  unfolding ssd_shard_inputs_def by (intro steps ssd_mem_steps)

lemma runShardsWithTreeMask_kept: "steps_in ssd_kept (runShardsWithTreeMask env lib tokens phase n_past off)"
  unfolding runShardsWithTreeMask_def tree_shard_def Let_def
  by (intro steps ssd_mem_steps ssd_shard_inputs_kept)

lemma selectiveKVUpdate_kept: "steps_in ssd_kept (selectiveKVUpdate selected)"
  unfolding selectiveKVUpdate_def by (intro steps ssd_mem_steps)

lemma ssd_prefill_loop_kept: "steps_in ssd_kept (ssd_prefill_loop env lib fuel ts k)"
proof (induction fuel arbitrary: ts k)
  case 0
  show ?case by (cases ts) (simp_all add: steps)
next
  case (Suc fuel)
  have "steps_in ssd_kept (ssd_prefill_chunk env lib chunk)" for chunk
    unfolding ssd_prefill_chunk_def ssd_prefill_shard_def Let_def
    by (intro steps ssd_mem_steps ssd_shard_inputs_kept) (simp add: ssd_kept_def)
  then show ?case by (cases ts) (simp_all add: steps Suc Let_def)
qed

lemma ssd_restride_kept: "steps_in ssd_kept (ssd_restride a b)"
  unfolding ssd_restride_def by (intro steps ssd_mem_steps)

lemma sampleNextToken_ssd_kept: "steps_in ssd_kept (sampleNextToken env phase off)"
  unfolding sampleNextToken_def Let_def by (intro steps) (simp add: ssd_kept_def)

lemma ssd_first_pass_kept: "steps_in ssd_kept (ssd_first_pass env lib tok)"
  unfolding ssd_first_pass_def Let_def
  by (intro steps ssd_mem_steps runShardsWithTreeMask_kept) (simp add: ssd_kept_def)

lemma ssd_step_kept: "steps_in ssd_kept (ssd_step env lib mt cb draft out)"
  unfolding ssd_step_def Let_def split_def
  by (intro steps ssd_mem_steps runShardsWithTreeMask_kept selectiveKVUpdate_kept) (simp add: ssd_kept_def)

section \<open>What is emitted\<close>

lemma emit_tokens_spec:
  assumes "emit_tokens eos cb ts out = (out', stop)"
  shows "\<exists>n \<le> length ts. out' = out @ take n ts \<and> set (take n ts) \<inter> set eos = {}
     \<and> (\<not> stop \<longrightarrow> n = length ts)"
  using assms
proof (induction ts arbitrary: out)
  case Nil
  then show ?case by simp
next
  case (Cons t ts)
  show ?case
  proof (cases "t \<in> set eos")
    case True
    then show ?thesis using Cons.prems by (intro exI [of _ 0]) auto
  next
    case False
    show ?thesis
    proof (cases "cb (out @ [t])")
      case True
      with False Cons obtain n where "n \<le> length ts" "out' = (out @ [t]) @ take n ts"
        "set (take n ts) \<inter> set eos = {}" "\<not> stop \<longrightarrow> n = length ts" by fastforce
      then show ?thesis using False by (intro exI [of _ "Suc n"]) simp
    next
      case nocb: False
      then show ?thesis using Cons.prems False by (intro exI [of _ 1]) auto
    qed
  qed
qed

lemma ssd_mem_n_past:
  fixes m :: "('p ssd, 'b) sx"
  assumes "steps_in mem_only m"
  shows "steps_in (\<lambda>s s'. l_n_past s' = l_n_past s) m"
  using assms by (rule steps_in_mono) (auto dest: mem_and_cl_fields(9) [OF mem_only_and_cl])

lemma runShardsWithTreeMask_mem_only: "steps_in mem_only (runShardsWithTreeMask env lib tokens phase n_past off)"
  unfolding runShardsWithTreeMask_def tree_shard_def ssd_shard_inputs_def Let_def
  by (intro steps mem_steps connect_mem_only)

lemma on_path_depth:
  assumes wf: "wf_parents ps" and path: "on_path read ps draft acc" and "last (snd acc) < length ps"
    and "k < length (snd acc)"
  shows "length (ancestors ps (snd acc ! k)) = k"
  using assms(4)
proof (induction k)
  case 0
  have "snd acc ! 0 = 0" using path by (metis hd_conv_nth on_path_def)
  then show ?case using wf by (simp add: ancestors_0)
next
  case (Suc k)
  from path Suc.prems have s: "ps ! (snd acc ! Suc k) = int (snd acc ! k)" "snd acc ! k < snd acc ! Suc k"
    by (auto simp: on_path_def)
  have "snd acc ! Suc k \<le> last (snd acc)"
    using on_path_mono [OF path, of "Suc k" "length (snd acc) - 1"] Suc.prems path
    by (simp add: on_path_def last_conv_nth)
  then have "ancestors ps (snd acc ! Suc k) = snd acc ! k # ancestors ps (snd acc ! k)"
    using ancestors_pos [OF wf, of "snd acc ! Suc k"] s assms(3) by simp
  then show ?case using Suc by simp
qed

text \<open>A pass accepts at least one token and at most one per level besides.\<close>

lemma accepted_count:
  assumes bs: "bs \<noteq> []" "0 \<notin> set bs" "map_size bs \<le> 2 ^ 31"
    and run: "verifyDraftTree read eos (genAttentionMap bs) draft = Inr (toks, ids)"
  shows "length toks = length ids" "0 < length toks" "length toks \<le> length bs + 1"
    "sorted_wrt (<) ids" "set ids \<subseteq> {..<tree_nodes bs}"
proof -
  note F = genAttentionMap_facts [OF bs refl]
  let ?ps = "dm_parents (genAttentionMap bs)"
  have n: "0 < dm_nodes (genAttentionMap bs)" "dm_nodes (genAttentionMap bs) \<le> length ?ps"
    using F(2,3) by (simp_all add: tree_nodes_def map_size_def)
  from verifyDraftTree_path [OF F(1) run n] have path: "on_path read ?ps draft (toks, ids)"
    and l: "last ids < tree_nodes bs" using F(3) by simp_all
  then show len: "length toks = length ids" "0 < length toks" by (auto simp: on_path_def)
  show inc: "sorted_wrt (<) ids" using on_path_increasing [OF path] by simp
  have last: "last ids = ids ! (length ids - 1)" using len by (simp add: last_conv_nth)
  have "length (ancestors ?ps (last ids)) = length ids - 1"
    using on_path_depth [OF F(1) path, of "length ids - 1"] l n F(3) len last by simp
  with draft_depth [OF bs l] len show "length toks \<le> length bs + 1" by simp
  show "set ids \<subseteq> {..<tree_nodes bs}"
  proof
    fix i assume "i \<in> set ids"
    then obtain k where k: "k < length ids" "ids ! k = i" by (auto simp: in_set_conv_nth)
    then have "k \<le> length ids - 1" by simp
    with on_path_mono [OF path, of k "length ids - 1"] k last l len show "i \<in> {..<tree_nodes bs}" by simp
  qed
qed

lemma selectiveKVUpdate_mem_only: "steps_in mem_only (selectiveKVUpdate selected)"
  unfolding selectiveKVUpdate_def by (intro steps mem_steps)

lemma ssd_step_Inr:
  assumes run: "ssd_step env lib mt cb draft out st = (Inr (out', next_draft), st')"
  shows "\<exists>s1 toks ids n. mem_only st s1
     \<and> verifyDraftTree (readLogitsAt s1 1) (sp_eos_token_ids (l_spec st)) (d_map st) draft = Inr (toks, ids)
     \<and> l_n_past st' = l_n_past st + length toks
     \<and> n \<le> length toks \<and> out' = out @ take n toks \<and> set (take n toks) \<inter> set (sp_eos_token_ids (l_spec st)) = {}
     \<and> (next_draft \<noteq> None \<longrightarrow> n = length toks \<and> to_i32 (int (length out')) < mt)"
proof -
  let ?forecast = "genForecastTokens (sp_vocab_size (l_spec st)) (draft_levels st) (dm_nodes (d_map st))"
  let ?eos = "sp_eos_token_ids (l_spec st)"
  from run obtain s1 where s1: "runShardsWithTreeMask env lib (draft @ ?forecast) 1 (l_n_past st) (dm_nodes (d_map st)) st = (Inr (), s1)"
    unfolding ssd_step_def Let_def by (auto simp: sx_simps elim!: sthen_InrE)
  have m1: "mem_only st s1" using steps_inD [OF runShardsWithTreeMask_mem_only s1] .
  then have k1: "l_spec s1 = l_spec st" "d_map s1 = d_map st" "l_n_past s1 = l_n_past st"
    using steps_inD [OF runShardsWithTreeMask_kept s1] steps_inD [OF ssd_mem_n_past [OF runShardsWithTreeMask_mem_only] s1]
    by (simp_all add: ssd_kept_def)
  from run s1 obtain toks ids where
    v: "verifyDraftTree (readLogitsAt s1 1) ?eos (d_map st) draft = Inr (toks, ids)"
    unfolding ssd_step_def Let_def
    by (auto simp: sx_simps sthen_run sbind_run k1 split: sum.splits prod.splits)
  obtain s2 where s2: "selectiveKVUpdate (mark_selected (ssd_total_tokens st) ids) s1 = (Inr (), s2)"
    using run s1 v unfolding ssd_step_def Let_def
    by (auto simp: sx_simps sthen_run sbind_run k1 split: sum.splits prod.splits)
  have "draft_levels s2 = draft_levels st"
    using steps_inD [OF runShardsWithTreeMask_kept s1] steps_inD [OF selectiveKVUpdate_kept s2]
    by (simp add: ssd_kept_def draft_levels_def)
  then have lv: "draft_levels (s2\<lparr> l_n_past := x \<rparr>) = draft_levels st" for x by (simp add: draft_levels_def)
  have n2: "l_n_past s2 = l_n_past st"
    using steps_inD [OF ssd_mem_n_past [OF selectiveKVUpdate_mem_only] s2] k1(3) by simp
  obtain out2 stop where e: "emit_tokens ?eos cb toks out = (out2, stop)" by fastforce
  let ?s3 = "s2\<lparr> l_n_past := l_n_past s2 + length toks \<rparr>"
  have r: "ssd_step env lib mt cb draft out st =
     (if stop \<or> mt \<le> to_i32 (int (length out2)) then (Inr (out2, None), ?s3)
      else sbind (slift (draft_from lib (last toks) (dm_nodes (d_map st) + last ids * draft_levels st) ?s3))
             (\<lambda>draft. sret (out2, Some draft)) ?s3)"
    unfolding ssd_step_def Let_def
    by (simp add: sx_simps sthen_run sbind_run s1 v s2 e k1 lv del: One_nat_def)
  then have "out' = out2" "st' = ?s3" "next_draft \<noteq> None \<longrightarrow> \<not> (stop \<or> mt \<le> to_i32 (int (length out2)))"
    using run by (auto simp: sx_simps sbind_run split: sum.splits if_splits)
  moreover from emit_tokens_spec [OF e] obtain n where
    "n \<le> length toks" "out2 = out @ take n toks" "set (take n toks) \<inter> set ?eos = {}" "\<not> stop \<longrightarrow> n = length toks"
    by blast
  ultimately show ?thesis
    using m1 v n2 by (intro exI [of _ s1] exI [of _ toks] exI [of _ ids] exI [of _ n]) auto
qed

section \<open>The loop as a whole\<close>

definition tree_ready :: "'p ssd \<Rightarrow> bool" where
  "tree_ready st \<longleftrightarrow> (let bs = sc_branches (d_cfg st) in
     bs \<noteq> [] \<and> 0 \<notin> set bs \<and> map_size bs \<le> 2 ^ 31 \<and> d_map st = genAttentionMap bs)"

lemma tree_ready_kept: "ssd_kept st st' \<Longrightarrow> tree_ready st' = tree_ready st"
  by (simp add: ssd_kept_def tree_ready_def)

text \<open>
  What the loop adds to the output: no end token, at most one pass beyond \<open>max_tokens\<close>; and
  the cache is ahead of the output by what the last pass accepted and did not emit.
\<close>

lemma ssd_loop_Inr:
  assumes "ssd_loop env lib mt cb steps draft out st = (Inr out', st')" "tree_ready st"
    and "set out \<inter> set (sp_eos_token_ids (l_spec st)) = {}"
    and "length out + steps * (draft_levels st + 1) < 2 ^ 31"
  shows "set out' \<inter> set (sp_eos_token_ids (l_spec st)) = {}
     \<and> length out \<le> length out' \<and> take (length out) out' = out
     \<and> l_n_past st + (length out' - length out) \<le> l_n_past st'
     \<and> l_n_past st' \<le> l_n_past st + (length out' - length out) + (draft_levels st + 1)
     \<and> length out' \<le> max (length out) (nat mt - 1) + draft_levels st + 1"
  using assms
proof (induction steps arbitrary: draft out st)
  case 0
  then show ?case by (auto simp: sx_simps)
next
  case (Suc steps)
  let ?eos = "sp_eos_token_ids (l_spec st)" and ?L = "draft_levels st + 1"
  show ?case
  proof (cases "out' = out \<and> st' = st")
    case True
    then show ?thesis using Suc.prems(3) by auto
  next
    case False
    with Suc.prems(1) obtain out1 nd st1 where
      s: "ssd_step env lib mt cb draft out st = (Inr (out1, nd), st1)"
      and rest: "(case nd of None \<Rightarrow> sret out1 | Some d \<Rightarrow> ssd_loop env lib mt cb steps d out1) st1 = (Inr out', st')"
      by (auto simp: sx_simps sbind_run idx_vec_def split: if_splits prod.splits sum.splits)
    from ssd_step_Inr [OF s] obtain s1 toks ids n where
      "mem_only st s1" and v: "verifyDraftTree (readLogitsAt s1 1) ?eos (d_map st) draft = Inr (toks, ids)"
      and p: "l_n_past st1 = l_n_past st + length toks" "n \<le> length toks" "out1 = out @ take n toks"
        "set (take n toks) \<inter> set ?eos = {}" "nd \<noteq> None \<longrightarrow> n = length toks \<and> to_i32 (int (length out1)) < mt"
      by (elim exE conjE) (rule that)
    have R: "sc_branches (d_cfg st) \<noteq> []" "0 \<notin> set (sc_branches (d_cfg st))" "map_size (sc_branches (d_cfg st)) \<le> 2 ^ 31"
      "d_map st = genAttentionMap (sc_branches (d_cfg st))"
      using Suc.prems(2) by (simp_all add: tree_ready_def Let_def)
    have t: "length toks \<le> ?L"
      using accepted_count(3) [OF R(1-3)] v R(4) by (simp add: draft_levels_def)
    have k: "ssd_kept st st1" using steps_inD [OF ssd_step_kept s] .
    then have lv: "draft_levels st1 = draft_levels st" "l_spec st1 = l_spec st"
      by (simp_all add: ssd_kept_def draft_levels_def)
    have o1: "set out1 \<inter> set ?eos = {}" "length out1 = length out + n" "take (length out) out1 = out"
      using Suc.prems(3) p by auto
    show ?thesis
    proof (cases nd)
      case None
      then have "out' = out1" "st' = st1" using rest by (simp_all add: sx_simps)
      then show ?thesis using o1 p t by auto
    next
      case (Some d)
      have n: "n = length toks" "to_i32 (int (length out1)) < mt" using p(5) Some by simp_all
      have b: "length out1 + steps * ?L < 2 ^ 31" using Suc.prems(4) o1(2) n(1) t by simp
      then have "to_i32 (int (length out1)) = int (length out1)" by (intro to_i32_id) auto
      then have lt: "length out1 \<le> nat mt - 1" using n(2) by linarith
      have loop: "ssd_loop env lib mt cb steps d out1 st1 = (Inr out', st')" using rest Some by simp
      have "set out' \<inter> set ?eos = {} \<and> length out1 \<le> length out' \<and> take (length out1) out' = out1
         \<and> l_n_past st1 + (length out' - length out1) \<le> l_n_past st'
         \<and> l_n_past st' \<le> l_n_past st1 + (length out' - length out1) + (draft_levels st + 1)
         \<and> length out' \<le> max (length out1) (nat mt - 1) + draft_levels st + 1"
        by (rule Suc.IH [OF loop, unfolded lv]) (use Suc.prems(2) tree_ready_kept [OF k] o1(1) b in simp_all)
      moreover from this have "take (length out) out' = out"
        using o1(2,3) by (metis le_add1 min.absorb1 take_take)
      ultimately show ?thesis using o1 p(1) n(1) lt by auto
    qed
  qed
qed

text \<open>C33: self-speculative generation never emits an end token, and emits at most one draft path
  more than max_tokens allows\<close>

lemma ssd_generate_Inr:
  assumes run: "ssd_generate env lib cfg cb prompt st = (Inr out, st')" and ready: "tree_ready st"
    and mt: "nat (gc_max_tokens cfg) * (draft_levels st + 1) + 1 < 2 ^ 31"
  shows "set out \<inter> set (sp_eos_token_ids (l_spec st)) = {}
     \<and> length out \<le> max 1 (nat (gc_max_tokens cfg) - 1) + draft_levels st + 1"
proof -
  let ?eos = "sp_eos_token_ids (l_spec st)"
  from run obtain n s1 where s1: "ssd_prefill_loop env lib (length prompt) prompt 0 st = (Inr n, s1)"
    unfolding ssd_generate_def by (auto elim!: sbind_InrE)
  from run s1 obtain s2 where s2: "ssd_restride 0 1 s1 = (Inr (), s2)"
    unfolding ssd_generate_def by (auto simp: sbind_run elim!: sthen_InrE)
  from run s1 s2 obtain tok s3 where s3: "sampleNextToken env 0 (szsub n 1) s2 = (Inr tok, s3)"
    unfolding ssd_generate_def by (auto simp: sbind_run sthen_run split: prod.splits sum.splits)
  have "ssd_kept st s3"
    using steps_inD [OF ssd_prefill_loop_kept s1] steps_inD [OF ssd_restride_kept s2]
      steps_inD [OF sampleNextToken_ssd_kept s3]
    by (simp add: ssd_kept_def)
  then have k3: "sp_eos_token_ids (l_spec s3) = ?eos" "draft_levels s3 = draft_levels st" "tree_ready s3"
    using tree_ready_kept [of st s3] ready by (simp_all add: ssd_kept_def draft_levels_def)
  show ?thesis
  proof (cases "tok \<in> set ?eos")
    case True
    then have "out = []"
      using run s1 s2 s3 k3(1) unfolding ssd_generate_def
      by (auto simp: sbind_run sthen_run sx_simps split: prod.splits sum.splits)
    then show ?thesis by simp
  next
    case no_eos: False
    show ?thesis
    proof (cases "cb [tok]")
      case False
      then have "out = [tok]"
        using run s1 s2 s3 k3(1) no_eos unfolding ssd_generate_def
        by (auto simp: sbind_run sthen_run sx_simps split: prod.splits sum.splits)
      then show ?thesis using no_eos by simp
    next
      case True
      with run s1 s2 s3 k3(1) no_eos obtain s4 where s4: "ssd_first_pass env lib tok s3 = (Inr (), s4)"
        unfolding ssd_generate_def by (auto simp: sbind_run sthen_run sx_simps split: prod.splits sum.splits)
      have "ssd_kept s3 s4" using steps_inD [OF ssd_first_pass_kept s4] .
      then have k4: "sp_eos_token_ids (l_spec s4) = ?eos" "draft_levels s4 = draft_levels st" "tree_ready s4"
        using tree_ready_kept [of s3 s4] k3 by (simp_all add: ssd_kept_def draft_levels_def)
      from True run s1 s2 s3 s4 k3(1) no_eos obtain draft s5 where
        "ssd_loop env lib (gc_max_tokens cfg) cb (nat (gc_max_tokens cfg)) draft [tok] s4 = (Inr out, s5)"
        unfolding ssd_generate_def by (auto simp: sbind_run sthen_run sx_simps split: prod.splits sum.splits)
      from ssd_loop_Inr [OF this k4(3)] no_eos mt k4 show ?thesis by simp
    qed
  qed
qed

text \<open>After a reset the cache counts the forecast prefix and nothing else.\<close>

lemma load_prefix_slots_kept:
  "load_prefix_slots is_key h xs s st = (r, st') \<Longrightarrow> \<exists>m. st' = st\<lparr> m_mem := m \<rparr>"
proof (induction xs arbitrary: s st)
  case Nil
  then show ?case by (intro exI [of _ "m_mem st"]) (simp add: sx_simps)
next
  case (Cons x xs)
  show ?case
  proof (cases "load_prefix_tensor is_key h st x (s, m_mem st)")
    case (Inl e)
    then have "st' = st\<lparr> m_mem := m_mem st \<rparr>" using Cons.prems by simp
    then show ?thesis by (intro exI [of _ "m_mem st"])
  next
    case (Inr sm)
    obtain s1 m1 where sm: "sm = (s1, m1)" by (cases sm)
    with Inr Cons.prems have "load_prefix_slots is_key h xs s1 (st\<lparr> m_mem := m1 \<rparr>) = (r, st')" by simp
    from Cons.IH [OF this] obtain m where "st' = (st\<lparr> m_mem := m1 \<rparr>)\<lparr> m_mem := m \<rparr>" by blast
    then show ?thesis by auto
  qed
qed

lemma loadForecastPrefix_kept:
  assumes "loadForecastPrefix lib st = (r, st')"
  shows "\<exists>m. st' = st\<lparr> m_mem := m \<rparr>"
proof -
  have id: "\<exists>m. st = st\<lparr> m_mem := m \<rparr>" by (rule exI [of _ "m_mem st"]) simp
  show ?thesis
  proof (cases "sl_prefix_file lib")
    case None
    then show ?thesis using assms id by (auto simp: loadForecastPrefix_def sx_simps)
  next
    case (Some bs)
    show ?thesis
    proof (cases "prefix_slots st")
      case (Inl e)
      then show ?thesis using assms id Some
        by (auto simp: loadForecastPrefix_def sx_simps sbind_run Let_def split: if_splits)
    next
      case (Inr slots)
      obtain r1 s1 where 1: "load_prefix_slots True (parse_prefix_header bs) slots (Some (drop 16 bs)) st = (r1, s1)"
        by fastforce
      from load_prefix_slots_kept [OF 1] obtain m1 where m1: "s1 = st\<lparr> m_mem := m1 \<rparr>" by blast
      obtain r2 s2 where 2: "\<And>s. r1 = Inr s \<Longrightarrow> load_prefix_slots False (parse_prefix_header bs) slots s s1 = (r2, s2)"
        by (cases r1) fastforce+
      have "st' = st \<or> st' = s1 \<or> (st' = s2 \<and> (\<exists>s. r1 = Inr s))"
        using assms Some Inr 1 2
        by (auto simp: loadForecastPrefix_def sx_simps sbind_run Let_def split: if_splits sum.splits)
      then show ?thesis using id m1 load_prefix_slots_kept [OF 2] by fastforce
    qed
  qed
qed

lemma ssd_reset_n_past:
  assumes "ssd_resetKVCache lib st = (Inr (), st')"
  shows "l_n_past st' = sc_forecast_prefix (d_cfg st')"
  using assms by (auto simp: ssd_resetKVCache_def forecast_prefix_def sx_simps elim!: sthen_InrE)

text \<open>A file that stops after its header is accepted, and nothing is loaded.\<close>

lemma truncated_tensor:
  assumes "load_prefix_tensor is_key h st x (s, m) = Inr (s', m')" "s = None \<or> s = Some []"
  shows "m' = m \<and> (s' = None \<or> s' = Some [])"
proof -
  have row: "m2 = m1 \<and> (s2 = None \<or> s2 = Some [])"
    if "load_row dst off n (s1, m1) = Inr (s2, m2)" "s1 = None \<or> s1 = Some []" for dst off n s1 m1 s2 m2
    using that by (auto simp: load_row_def mem_store_def buf_store_def split: option.splits if_splits)
  have rows: "m2 = m1 \<and> (s2 = None \<or> s2 = Some [])"
    if "rfor (\<lambda>row. load_row dst (f row) n) xs (s1, m1) = Inr (s2, m2)" "s1 = None \<or> s1 = Some []"
    for dst f n and xs :: "nat list" and s1 m1 s2 m2
    using that
  proof (induction xs arbitrary: s1 m1)
    case (Cons x xs)
    from Cons.prems(1) obtain s3 m3 where "load_row dst (f x) n (s1, m1) = Inr (s3, m3)"
      "rfor (\<lambda>row. load_row dst (f row) n) xs (s3, m3) = Inr (s2, m2)" by auto
    with row Cons show ?case by metis
  qed simp
  show ?thesis
    using assms by (auto simp: load_prefix_tensor_def Let_def stream_skip_def split: prod.splits if_splits dest!: rows)
qed

lemma truncated_slots:
  assumes "load_prefix_slots is_key h xs s st = (Inr s', st')" "s = None \<or> s = Some []"
  shows "st' = st \<and> (s' = None \<or> s' = Some [])"
  using assms
proof (induction xs arbitrary: s st)
  case Nil
  then show ?case by (auto simp: sx_simps)
next
  case (Cons x xs)
  then obtain s1 m1 where 1: "load_prefix_tensor is_key h st x (s, m_mem st) = Inr (s1, m1)"
    "load_prefix_slots is_key h xs s1 (st\<lparr> m_mem := m1 \<rparr>) = (Inr s', st')"
    by (auto split: sum.splits)
  from truncated_tensor [OF 1(1) Cons.prems(2)] Cons.IH [OF 1(2)] show ?case by simp
qed

lemma truncated_prefix_accepted:
  assumes "loadForecastPrefix lib st = (Inr ok, st')" "sl_prefix_file lib = Some bs" "length bs = 16"
    "ph_magic (parse_prefix_header bs) = 0xC0DE" "ph_update_size (parse_prefix_header bs) = forecast_prefix st"
  shows "ok \<and> st' = st"
proof -
  from assms have run: "sbind (slift (prefix_slots st)) (\<lambda>slots.
       sbind (load_prefix_slots True (parse_prefix_header bs) slots (Some [])) (\<lambda>s.
       sbind (load_prefix_slots False (parse_prefix_header bs) slots s) (\<lambda>_. sret True))) st = (Inr ok, st')"
    by (simp add: loadForecastPrefix_def sx_simps Let_def)
  then obtain slots s1 st1 s2 st2 where
    1: "load_prefix_slots True (parse_prefix_header bs) slots (Some []) st = (Inr s1, st1)"
    "load_prefix_slots False (parse_prefix_header bs) slots s1 st1 = (Inr s2, st2)" "ok" "st' = st2"
    by (auto simp: sx_simps elim!: sbind_InrE)
  from truncated_slots [OF 1(1)] truncated_slots [OF 1(2)] 1(3,4) show ?thesis by simp
qed

section \<open>Concrete instances\<close>

definition demo_ssd :: "nat \<Rightarrow> unit ssd" where
  "demo_ssd n = llm.extend (demo_at None n []) \<lparr> d_cfg = \<lparr> sc_branches = [1], sc_forecast_prefix = 0,
     sc_prefix_path = ''prefix.bin'', sc_rope_theta = 0 \<rparr>, d_rope = Some [], d_map = genAttentionMap [1], d_kv = [] \<rparr>"

lemma demo_ssd_fields [simp]:
  "l_spec (demo_ssd n) = demo_spec" "l_n_past (demo_ssd n) = n" "l_shard_count (demo_ssd n) = 1" "l_num_cl (demo_ssd n) = 1"
  "l_active_cl (demo_ssd n) = 0" "l_providers (demo_ssd n) = []" "l_sampler (demo_ssd n) = None" "l_kv_block (demo_ssd n) = 0"
  "m_graphs (demo_ssd n) = [demo_graph, demo_graph]" "m_mem (demo_ssd n) = (\<lambda>_. replicate 16 0)"
  "d_rope (demo_ssd n) = Some []" "forecast_prefix (demo_ssd n) = 0" "draft_levels (demo_ssd n) = 1"
  "demo_ssd n\<lparr> m_mem := (\<lambda>_. replicate 16 0) \<rparr> = demo_ssd n" "demo_ssd n\<lparr> l_n_past := n' \<rparr> = demo_ssd n'"
  "d_cfg (demo_ssd n) = \<lparr> sc_branches = [1], sc_forecast_prefix = 0, sc_prefix_path = ''prefix.bin'', sc_rope_theta = 0 \<rparr>"
  "d_map (demo_ssd n) = genAttentionMap [1]"
  by (simp_all add: demo_ssd_def demo_at_def demo_llm_def mkLLM_def llm.defs forecast_prefix_def draft_levels_def)

text \<open>One layer: keys of one byte in buffers 0 and 1, values of two bytes in buffers 2 and 3.\<close>

definition demo_layer :: "kv_tensor_info" where
  "demo_layer = \<lparr> ki_key_in = Some 1, ki_key_out = Some 0, ki_key_in_kv_len = 4, ki_key_out_seq_len = 3,
     ki_key_elem_size = 1, ki_key_n_rows = 1, ki_val_in = Some 3, ki_val_out = Some 2, ki_val_in_kv_len = 4,
     ki_val_out_seq_len = 3, ki_val_token_size = 2, ki_val_n_heads = 1 \<rparr>"

definition demo_layer_mem :: mem where
  "demo_layer_mem b = (if b = 0 then [10, 11, 12] else if b = 1 then [1, 0, 0, 0]
     else if b = 2 then [20, 21, 22, 23, 24, 25] else [7, 8, 0, 0, 0, 0, 0, 0])"

lemma accepted_cells_witness:
  "\<exists>m'. selectiveKVUpdate (mark_selected 3 [0, 2]) ((demo_ssd 1)\<lparr> m_mem := demo_layer_mem, d_kv := [demo_layer] \<rparr>)
      = (Inr (), (demo_ssd 1)\<lparr> m_mem := m', d_kv := [demo_layer] \<rparr>)
    \<and> kv_cell 1 4 (m' 1) 0 0 = [1] \<and> kv_cell 1 4 (m' 1) 0 2 = [12] \<and> kv_cell 2 4 (m' 3) 0 2 = [24, 25] \<and> m' 0 = [10, 11, 12]"
proof -
  let ?st = "(demo_ssd 1)\<lparr> m_mem := demo_layer_mem, d_kv := [demo_layer] \<rparr>"
  let ?k = "\<lparr> kc_rows = 1, kc_tok = 1, kc_src_kv = 3, kc_dst_kv = 4, kc_src = Some 0, kc_dst = Some 1 \<rparr>"
  let ?v = "\<lparr> kc_rows = 1, kc_tok = 2, kc_src_kv = 3, kc_dst_kv = 4, kc_src = Some 2, kc_dst = Some 3 \<rparr>"
  have k: "kv_copies (d_kv ?st) = [?k, ?v]" by (simp add: kv_copies_def demo_layer_def)
  have n: "l_n_past ?st = 1" "m_mem ?st = demo_layer_mem" by simp_all
  have room: "copy_room demo_layer_mem 1 [0, 2] c" if "c \<in> set [?k, ?v]" for c
    using that by (auto simp: copy_room_def kv_fits_def demo_layer_mem_def)
  have "\<exists>m'. selectiveKVUpdate (mark_selected 3 [0, 2]) ?st = (Inr (), ?st\<lparr> m_mem := m' \<rparr>)
    \<and> (\<forall>c \<in> set [?k, ?v]. copied demo_layer_mem m' 1 [0, 2] c) \<and> (\<forall>b. Some b \<notin> kc_dst ` set [?k, ?v] \<longrightarrow> m' b = demo_layer_mem b)"
    using accepted_cells [of "[0, 2]" 3 ?st] room unfolding k n by auto
  then obtain m' where m: "selectiveKVUpdate (mark_selected 3 [0, 2]) ?st = (Inr (), ?st\<lparr> m_mem := m' \<rparr>)"
    and c: "copied demo_layer_mem m' 1 [0, 2] ?k" "copied demo_layer_mem m' 1 [0, 2] ?v" and f: "m' 0 = demo_layer_mem 0"
    by auto
  have "kv_cell 1 4 (m' 1) 0 (1 + 1) = kv_cell 1 3 (demo_layer_mem 0) 0 ([0, 2] ! 1)"
    "kv_cell 1 4 (m' 1) 0 0 = kv_cell 1 4 (demo_layer_mem 1) 0 0"
    "kv_cell 2 4 (m' 3) 0 (1 + 1) = kv_cell 2 3 (demo_layer_mem 2) 0 ([0, 2] ! 1)"
    using copied_at [OF c(1), of 0 1] copied_kept [OF c(1), of 0 0] copied_at [OF c(2), of 0 1] by simp_all
  then show ?thesis using m f
    by (intro exI [of _ m']) (simp add: kv_cell_def slice_def demo_layer_mem_def eval_nat_numeral)
qed

lemma demo_ssd_graph [simp]: "phase < 2 \<Longrightarrow> graph_at (demo_ssd n) (graphIndex (demo_ssd n) phase 0 0) = Inr demo_graph"
  by (auto simp: graph_at_def at_vec_def graphIndex_def less_2_cases_iff)

lemma demo_ssd_block [simp]: "requireKVStateBlock (demo_ssd n) = Inr (makeKVStateBlock\<lparr> sb_shard_pairs := [[]] \<rparr>)"
  by (simp add: requireKVStateBlock_def)

lemma demo_no_input [simp]: "hasInput demo_graph name = False"
  by (simp add: hasInput_def demo_graph_def mkGraph_def)

lemma demo_ssd_prefill_shard:
  "ssd_prefill_shard demo_env msk tables ctx 0 (demo_ssd n) = (Inr (), demo_ssd n)"
  by (simp add: ssd_prefill_shard_def sx_simps sbind_run sthen_run ssd_shard_inputs_def smem_def supd_run write_if_input_def
      execute_def demo_env_def updateKV_def idx_vec_def swhen_run)

lemma demo_ssd_mask: "ssd_prefill_mask 0 0 1 2 6 = Inr (replicate 6 f32_masked @ [0] @ replicate 9 f32_masked)"
  by (simp add: ssd_prefill_mask_def ssd_mask_row_def buf_store_def blit_def numeral_eq_Suc)

lemma demo_ssd_prefill:
  "ssd_prefill_loop demo_env lib 1 [1] 0 (demo_ssd 0) = (Inr 1, demo_ssd 1)"
  by (simp add: ssd_prefill_chunk_def Let_def sx_simps sbind_run sthen_run demo_ssd_prefill_shard idx_vec_def szsub_def
      demo_ssd_mask [unfolded One_nat_def] requireRope_def)


lemma demo_ssd_restride: "ssd_restride a b (demo_ssd n) = (Inr (), demo_ssd n)"
  by (simp add: ssd_restride_def reshapeKV_def sx_simps sbind_run sthen_run idx_vec_def)

lemma demo_ssd_sample: "sampleNextToken demo_env 0 0 (demo_ssd n) = (Inr 0, demo_ssd n)"
  using demo_logits_read [of 0] by (simp add: sampleNextToken_def readLastLogits_def sx_simps sbind_run argmax_def
      demo_zero_lt to_i32_def)

lemma demo_ssd_generate:
  "ssd_generate demo_env lib (demo_cfg 2) (\<lambda>_. False) [1] (demo_ssd 0) = (Inr [0], demo_ssd 1)"
  using demo_ssd_prefill [of lib]
  by (simp add: ssd_generate_def sx_simps sbind_run sthen_run demo_ssd_restride demo_ssd_sample szsub_def)

lemma ssd_generate_Inr_witness:
  "\<forall>lib. \<exists>out. fst (ssd_generate demo_env lib (demo_cfg 2) (\<lambda>_. False) [1] (demo_ssd 0)) = Inr out \<and> length out \<le> 3"
proof -
  have "tree_ready (demo_ssd 0)" by (simp add: tree_ready_def Let_def map_size_def tree_nodes_def)
  from ssd_generate_Inr [OF demo_ssd_generate this] show ?thesis by (simp add: demo_ssd_generate demo_cfg_fields)
qed

definition demo_lib :: "u8 list option \<Rightarrow> ssd_lib" where
  "demo_lib file = \<lparr> sl_libm = \<lparr> m_cos = (\<lambda>x. x), m_sin = (\<lambda>x. x), m_pow = (\<lambda>x y. x), m_sqrt = (\<lambda>x. x), m_log = (\<lambda>x. x),
       m_cosf = (\<lambda>x. x), m_sinf = (\<lambda>x. x), m_powf = (\<lambda>x y. x), m_expf = (\<lambda>x. x) \<rparr>, sl_sort = (\<lambda>_ _ xs. xs), sl_prefix_file = file \<rparr>"

lemma demo_ssd_reset: "ssd_resetKVCache (demo_lib None) (demo_ssd 5) = (Inr (), demo_ssd 0)"
proof -
  have r: "demo_ssd 0\<lparr> l_active_cl := 0, l_history := [], l_sampler := None, l_sampler_cfg_valid := False \<rparr> = demo_ssd 0"
    by (simp add: demo_ssd_def demo_at_def demo_llm_def mkLLM_def llm.defs)
  have "initKVBuffers (demo_ssd 0) = (Inr (), demo_ssd 0)"
    by (simp add: initKVBuffers_def buildKVInputNames_def sx_simps sbind_run sthen_run idx_vec_def graph_at_def at_vec_def
        numeral_2_eq_2) (simp add: demo_graph_def mkGraph_def sx_simps sbind_run sthen_run)
  then show ?thesis
    by (simp add: ssd_resetKVCache_def resetKVCache_def sx_simps sbind_run sthen_run r swhen_run loadForecastPrefix_def demo_lib_def)
qed

lemma ssd_reset_n_past_witness:
  "\<exists>st. ssd_resetKVCache (demo_lib None) (demo_ssd 5) = (Inr (), st) \<and> l_n_past st = 0"
proof -
  have "l_n_past (demo_ssd 0) = 0" using ssd_reset_n_past [OF demo_ssd_reset] by (simp only: demo_ssd_fields ssd_config.simps)
  with demo_ssd_reset show ?thesis by (intro exI conjI) assumption+
qed

text \<open>A prefix file that ends behind its header, for a model with one pair of cache tensors.\<close>

definition demo_prefix :: "u8 list" where
  "demo_prefix = [0, 0, 0, 0, 0xDE, 0xC0, 0, 0, 0, 0, 1, 0, 1, 0, 2, 0]"

definition demo_ssd_kv :: "unit ssd" where
  "demo_ssd_kv = (demo_ssd 0)\<lparr> l_spec := l_spec demo_kv, m_graphs := [demo_kv_graph], m_mem := (\<lambda>_. [1, 2, 3]),
     d_cfg := \<lparr> sc_branches = [1], sc_forecast_prefix = 2, sc_prefix_path = ''prefix.bin'', sc_rope_theta = 0 \<rparr> \<rparr>"

lemma demo_header: "parse_prefix_header demo_prefix
    = \<lparr> ph_magic = 0xC0DE, ph_dtype = 0, ph_n_heads = 1, ph_embed_dim = 1, ph_update_size = 2 \<rparr>"
  by (simp add: parse_prefix_header_def le_nat_def demo_prefix_def slice_def)

lemma demo_load: "loadForecastPrefix (demo_lib (Some demo_prefix)) demo_ssd_kv = (Inr True, demo_ssd_kv)"
proof -
  have g: "graph_at demo_ssd_kv (graphIndex demo_ssd_kv 0 0 (l_active_cl demo_ssd_kv)) = Inr demo_kv_graph"
    by (simp add: graph_at_def at_vec_def graphIndex_def demo_ssd_kv_def)
  have f: "l_spec demo_ssd_kv = l_spec demo_kv" "m_mem demo_ssd_kv = (\<lambda>_. [1, 2, 3])" "forecast_prefix demo_ssd_kv = 2"
    "l_kv_block demo_ssd_kv = 0" "demo_ssd_kv\<lparr> m_mem := (\<lambda>_. [1, 2, 3]) \<rparr> = demo_ssd_kv"
    by (simp_all add: demo_ssd_kv_def forecast_prefix_def)
  have sp: "sp_state_blocks (l_spec demo_kv) = [makeKVStateBlock\<lparr> sb_shard_pairs := [[demo_pair]] \<rparr>]"
    "length (sp_shards (l_spec demo_kv)) = 1" "sp_num_kv_heads (l_spec demo_kv) = 1" "sp_head_dim (l_spec demo_kv) = 1"
    by (simp_all add: demo_kv_def demo_spec_def)
  have slots: "prefix_slots demo_ssd_kv = Inr [(0, demo_pair)]"
    by (simp add: prefix_slots_def f sp idx_vec_def)
  have t: "load_prefix_tensor k (parse_prefix_header demo_prefix) demo_ssd_kv (0, demo_pair) (s, (\<lambda>_. [1, 2, 3]))
      = Inr (None, (\<lambda>_. [1, 2, 3]))" if "s = Some [] \<or> s = None" for k s
    using that
    by (auto simp: load_prefix_tensor_def Let_def g demo_pair_def hasInput_def inputSpec_def inputPtr_def at_map_def at_vec_def
        demo_kv_graph_def mkGraph_def demo_kv_spec_def idx_vec_def f sp elementSize_def demo_header load_row_def deref_def
        mem_store_def buf_store_def)
  have "length demo_prefix = 16" "drop 16 demo_prefix = []" by (simp_all add: demo_prefix_def)
  then show ?thesis
    using t by (simp add: loadForecastPrefix_def Let_def sx_simps sbind_run slots demo_lib_def f demo_header)
qed

lemma truncated_prefix_accepted_witness:
  "\<exists>ok st. loadForecastPrefix (demo_lib (Some demo_prefix)) demo_ssd_kv = (Inr ok, st) \<and> ok \<and> st = demo_ssd_kv"
proof -
  have "True \<and> demo_ssd_kv = demo_ssd_kv"
    by (rule truncated_prefix_accepted [OF demo_load, of demo_prefix])
      (simp_all add: demo_lib_def demo_header forecast_prefix_def demo_ssd_kv_def, simp add: demo_prefix_def)
  from conjunct1 [OF this] conjunct2 [OF this] demo_load show ?thesis by (intro exI conjI) assumption+
qed

end
