(* ===== verification/Dispatch.thy ===== *)
theory Dispatch
  imports Pipelines SSDModel
begin

text \<open>
  From a model bundle to a running pipeline: where the device's libraries are
  (\<open>core/include/runtime.h\<close>, Linux), the start of a model (\<open>core/src/model_init.cpp\<close>), the
  factories of the model families (\<open>models/*/*.h\<close>) and the choice among them by the bundle's
  \<open>model_id\<close> (\<open>models/dispatch.h\<close>). Loading the context binaries on the device, the sampler, the
  tokenizer and the image processor are parameters.
\<close>

section \<open>The device's libraries\<close>

record runtime_config =
  rt_backend :: "string option"
  rt_system :: "string option"
  rt_extensions :: "string option"

text \<open>The low byte of the capability is the architecture in hexadecimal digits.\<close>

definition arch_of_capability :: "nat \<Rightarrow> nat" where
  "arch_of_capability cap =
     (let c = cap mod 256 in
      if c = 0x68 then 68 else if c = 0x69 then 69 else if c = 0x73 then 73 else if c = 0x75 then 75
      else if c = 0x79 then 79 else if c = 0x81 then 81 else if c = 0x85 then 85 else 0)"

text \<open>
  \<open>None\<close>: the FastRPC library or its symbol is missing; otherwise what the call returned and
  wrote. The first answer is kept.
\<close>

definition detect_htp_arch :: "(int \<times> nat) option \<Rightarrow> nat option \<Rightarrow> nat \<times> nat option" where
  "detect_htp_arch query s_arch =
     (case s_arch of Some a \<Rightarrow> (a, s_arch)
      | None \<Rightarrow>
          let a = (case query of None \<Rightarrow> 0 | Some (error, cap) \<Rightarrow> if error \<noteq> 0 then 0 else arch_of_capability cap)
          in (a, Some a))"

text \<open>The detected architecture is only logged.\<close>

definition resolveHtpPaths :: "string \<Rightarrow> (string \<Rightarrow> bool) \<Rightarrow> runtime_config \<Rightarrow> runtime_config res" where
  "resolveHtpPaths core_dir exists rc =
     (if rt_backend rc \<noteq> None \<and> rt_system rc \<noteq> None \<and> rt_extensions rc \<noteq> None then Inr rc
      else let dir = path_join core_dir ''htp-files'' in
        if \<not> exists dir then Inl (RuntimeError ''HTP runtime folder not found'')
        else Inr \<lparr> rt_backend = Some (opt_or (rt_backend rc) (path_join dir ''libQnnHtp.so'')),
                   rt_system = Some (opt_or (rt_system rc) (path_join dir ''libQnnSystem.so'')),
                   rt_extensions = Some (opt_or (rt_extensions rc) (path_join dir ''libQnnHtpNetRunExtensions.so'')) \<rparr>)"

section \<open>Starting a model\<close>

text \<open>
  What the model is built on. \<open>dv_load\<close> is \<open>initializeHtp\<close>: the graphs of the context binaries
  with the buffers of their tensors, or \<open>None\<close> when it fails.
\<close>

record device =
  dv_core_dir :: string
  dv_load :: "runtime_config \<Rightarrow> string list \<Rightarrow> string \<Rightarrow> (loaded_graph list \<times> mem) option"
  dv_exec :: "graph \<Rightarrow> mem \<Rightarrow> bool \<times> mem"
  dv_sample :: "sampler \<Rightarrow> f32 list \<Rightarrow> int"
  dv_grammar_ok :: "string \<Rightarrow> string \<Rightarrow> bool"
  dv_libm :: libm
  dv_sort :: partial_sort
  dv_tables :: files                          \<comment> \<open>embedding tables\<close>
  dv_prefix :: "string \<Rightarrow> u8 list option"     \<comment> \<open>forecast prefix files\<close>
  dv_decode :: decode_config
  dv_seed :: u32

definition initialize_model :: "device \<Rightarrow> bundle_files \<Rightarrow> runtime_config \<Rightarrow> model_config \<Rightarrow> ('a model_scheme, bool) sx
    \<Rightarrow> ('a model_scheme, bool) sx" where
  "initialize_model dev fs rc mc on_init = swith (\<lambda>md.
     if m_initialized md then sret True
     else sbind (slift (resolveHtpPaths (dv_core_dir dev) (bf_exists fs) rc)) (\<lambda>rc.
       case dv_load dev rc (mf_paths mc) (mf_htp_config mc) of
         None \<Rightarrow> model_initialize False [] on_init
       | Some (infos, buffers) \<Rightarrow>
           sthen (smod (\<lambda>md. md\<lparr> m_mem := buffers \<rparr>)) (model_initialize True infos on_init)))"

definition defaultGenConfig :: "u32 \<Rightarrow> gen_config" where
  "defaultGenConfig seed = \<lparr> gc_max_tokens = 512, gc_sliding_window = False, gc_sliding_n_keep = 4, gc_enable_sampling = False,
     gc_temperature = f_one, gc_top_p = f_one, gc_min_p = 0, gc_top_k = 0, gc_repetition_penalty = f_one,
     gc_presence_penalty = 0, gc_frequency_penalty = 0, gc_penalty_last_n = 64, gc_seed = seed,
     gc_grammar_str = [], gc_grammar_root = ''root'', gc_has_tokenizer = False \<rparr>"

text \<open>The parsed configuration \<open>gc_\<close> a model keeps decides the providers it makes for itself.\<close>

definition llm_env :: "device \<Rightarrow> model_config \<Rightarrow> genie_config \<Rightarrow> provider env" where
  "llm_env dev mc gc = \<lparr> e_exec = dv_exec dev, e_write = provider_write (dv_libm dev),
     e_init_provider = provider_onInitialized (dv_tables dev) (mf_embedding mc),
     e_embedding_provider = (\<lambda>name. makeEmbeddingProvider name gc), e_rope_provider = (\<lambda>dim. makeRoPEProvider dim gc),
     e_sample = dv_sample dev, e_grammar_ok = dv_grammar_ok dev \<rparr>"

section \<open>The language model factories\<close>

definition llm_makeModel :: "device \<Rightarrow> bundle_files \<Rightarrow> model_config \<Rightarrow> (genie_config \<times> provider llm) res" where
  "llm_makeModel dev fs mc =
     rbind (bundleDirOf mc) (\<lambda>dir. rbind (parseGenieConfig fs dir) (\<lambda>gc.
       Inr (gc, mkLLM (buildSpecSkeleton gc) (defaultGenConfig (dv_seed dev)))))"

text \<open>The factories' \<open>catch\<close>.\<close>

definition caught :: "'a option res \<Rightarrow> 'a option res" where
  "caught r = (case r of Inl e \<Rightarrow> if is_exception e then Inr None else Inl e | Inr x \<Rightarrow> Inr x)"

definition created :: "('s, bool) sx \<Rightarrow> 's \<Rightarrow> 's option res" where
  "created create pl = (case create pl of (Inl e, _) \<Rightarrow> Inl e | (Inr ok, pl') \<Rightarrow> Inr (if ok then Some pl' else None))"

datatype llm_family = Llama3 | Llama3SSD | Qwen3 | Qwen25 | Falcon3 | Phi35

text \<open>The five plain families differ in the token put in front: only Qwen3 sets one.\<close>

definition llm_makePipeline :: "llm_family \<Rightarrow> device \<Rightarrow> bundle_files \<Rightarrow> (string \<Rightarrow> string \<Rightarrow> 'q tokenizer option)
    \<Rightarrow> runtime_config \<Rightarrow> model_config \<Rightarrow> (provider env \<times> (provider llm, 'q) pipeline) option res" where
  "llm_makePipeline fam dev fs from_file rc mc =
     caught (rbind (llm_makeModel dev fs mc) (\<lambda>(gc, model).
       let env = llm_env dev mc gc in
       rbind (created (createImpl (initialize_model dev fs rc mc (llm_onInitialized env (dv_decode dev))) from_file model mc)
                emptyPipeline) (\<lambda>made.
         Inr (map_option (\<lambda>pl. (env, if fam = Qwen3 then setBosTokenId (gn_bos gc) pl else pl)) made))))"

definition makeSSDConfig :: "string \<Rightarrow> f32 \<Rightarrow> ssd_config" where
  "makeSSDConfig path theta = \<lparr> sc_branches = [3, 2], sc_forecast_prefix = 16, sc_prefix_path = path, sc_rope_theta = theta \<rparr>"

text \<open>The base class is given no parsed configuration, so it has the default one.\<close>

definition ssd_makeModel :: "device \<Rightarrow> bundle_files \<Rightarrow> model_config \<Rightarrow> provider ssd res" where
  "ssd_makeModel dev fs mc =
     rbind (bundleDirOf mc) (\<lambda>dir. rbind (parseGenieConfig fs dir) (\<lambda>gc.
       Inr (mkSSD (buildSpecSkeleton gc) (defaultGenConfig (dv_seed dev))
              (makeSSDConfig (opt_or (mf_forecast_prefix mc) []) (gn_rope_theta gc)))))"

definition ssd_makePipeline :: "device \<Rightarrow> bundle_files \<Rightarrow> (string \<Rightarrow> string \<Rightarrow> 'q tokenizer option)
    \<Rightarrow> runtime_config \<Rightarrow> model_config \<Rightarrow> (provider ssd, 'q) pipeline option res" where
  "ssd_makePipeline dev fs from_file rc mc =
     caught (rbind (ssd_makeModel dev fs mc) (\<lambda>model.
       let lib = \<lparr> sl_libm = dv_libm dev, sl_sort = dv_sort dev, sl_prefix_file = dv_prefix dev (sc_prefix_path (d_cfg model)) \<rparr>;
           on_init = ssd_onInitialized (llm_env dev mc defaultGenieConfig) lib (dv_decode dev)
       in created (createImpl (initialize_model dev fs rc mc on_init) from_file model mc) emptyPipeline))"

section \<open>Dispatch\<close>

definition startsWith :: "string \<Rightarrow> string \<Rightarrow> bool" where
  "startsWith s prefix \<longleftrightarrow> length prefix \<le> length s \<and> take (length prefix) s = prefix"

definition endsWith :: "string \<Rightarrow> string \<Rightarrow> bool" where
  "endsWith s suffix \<longleftrightarrow> length suffix \<le> length s \<and> drop (length s - length suffix) s = suffix"

definition modelIdOf :: "bundle_files \<Rightarrow> model_config \<Rightarrow> string res" where
  "modelIdOf fs mc =
     (case rbind (bundleDirOf mc) (parseQAIRTMetadata fs) of
        Inr md \<Rightarrow> Inr (md_model_id md)
      | Inl e \<Rightarrow> if is_exception e then Inr [] else Inl e)"

definition autoDiscoverForecastPrefix :: "bundle_files \<Rightarrow> model_config \<Rightarrow> model_config" where
  "autoDiscoverForecastPrefix fs mc =
     (if mf_forecast_prefix mc \<noteq> None then mc
      else case bundleDirOf mc of Inl _ \<Rightarrow> mc
        | Inr dir \<Rightarrow>
            let candidate = path_join (path_join dir ''forecast-prefix'') ''kv-cache.primary.qnn-htp''
            in if bf_exists fs candidate then mc\<lparr> mf_forecast_prefix := Some candidate \<rparr> else mc)"

definition llm_route :: "string \<Rightarrow> llm_family option" where
  "llm_route model_id =
     (if endsWith model_id ''_ssd'' then Some Llama3SSD
      else if startsWith model_id ''qwen3_'' \<and> \<not> startsWith model_id ''qwen3_vl_'' then Some Qwen3
      else if startsWith model_id ''qwen2_5_'' then Some Qwen25
      else if startsWith model_id ''falcon_v3_'' then Some Falcon3
      else if startsWith model_id ''llama_v3_'' then Some Llama3
      else if startsWith model_id ''phi_3_5_'' then Some Phi35
      else None)"

definition vlm_route :: "string \<Rightarrow> vlm_family option" where
  "vlm_route model_id =
     (if startsWith model_id ''qwen2_5_vl_'' then Some Qwen25VL
      else if startsWith model_id ''qwen3_vl_'' then Some Qwen3VL
      else None)"

datatype 'q made_pipeline =
    MadeLLM llm_family "provider env" "(provider llm, 'q) pipeline"
  | MadeSSD "(provider ssd, 'q) pipeline"

definition makeLLMPipeline :: "device \<Rightarrow> bundle_files \<Rightarrow> (string \<Rightarrow> string \<Rightarrow> 'q tokenizer option)
    \<Rightarrow> runtime_config \<Rightarrow> model_config \<Rightarrow> 'q made_pipeline option res" where
  "makeLLMPipeline dev fs from_file rc mc =
     rbind (modelIdOf fs mc) (\<lambda>model_id.
       if model_id = [] then Inr None
       else case llm_route model_id of
           None \<Rightarrow> Inr None
         | Some fam \<Rightarrow>
             if fam = Llama3SSD
             then rbind (ssd_makePipeline dev fs from_file rc (autoDiscoverForecastPrefix fs mc)) (\<lambda>made.
                    Inr (map_option MadeSSD made))
             else rbind (llm_makePipeline fam dev fs from_file rc mc) (\<lambda>made.
                    Inr (map_option (\<lambda>(env, pl). MadeLLM fam env pl) made)))"

section \<open>The vision-language factories\<close>

definition mkVit :: "string \<Rightarrow> vit" where
  "mkVit prefix = \<lparr> m_graphs = [], m_mem = (\<lambda>_. []), m_initialized = False, vi_width = 0, vi_height = 0, vi_patch = 0,
     vi_temporal = 0, vi_merge = 0, vi_hidden = 0, vi_rope_dim = 0, vi_prefix = prefix, vi_levels = 0, vi_embeds = [] \<rparr>"

definition vit_initialize :: "vlm_family \<Rightarrow> device \<Rightarrow> bundle_files \<Rightarrow> runtime_config \<Rightarrow> model_config \<Rightarrow> (vit, bool) sx" where
  "vit_initialize fam dev fs rc mc =
     sbind (initialize_model dev fs rc mc (sret True)) (\<lambda>ok.
       if \<not> ok then sret False
       else case fam of Qwen25VL \<Rightarrow> sret True | Qwen3VL \<Rightarrow> sthen vit_inferSpec (sret True))"

definition mkVlm :: "vlm_family \<Rightarrow> llm_spec \<Rightarrow> gen_config \<Rightarrow> vlm" where
  "mkVlm fam spec cfg = setEmbeddingProvider (mkPromptEmbeds ''inputs_embeds'')
     (llm.extend (mkLLM spec cfg) \<lparr> vm_family = fam, vm_emb = None, vm_mrope = None, vm_deepstack = None, vm_vit = mkVit [],
        vm_deltas = [0, 0, 0], vm_vision_start = 0, vm_image = 0, vm_merge = 2 \<rparr>)"

text \<open>The sections of the rotary axes: the bundle's, or the family's when the bundle gives none.\<close>

definition family_section :: "vlm_family \<Rightarrow> int list" where
  "family_section fam = (case fam of Qwen25VL \<Rightarrow> [16, 24, 24] | Qwen3VL \<Rightarrow> [24, 20, 20])"

definition section_of :: "vlm_family \<Rightarrow> rope_scaling \<Rightarrow> int list" where
  "section_of fam rs =
     (let given = (case rs of MRope sec _ _ \<Rightarrow> sec | _ \<Rightarrow> [])
      in if given = [] then family_section fam else given)"

text \<open>The encoder works with the sizes as counts; a negative one is outside its model.\<close>

definition count_of :: "int \<Rightarrow> nat res" where
  "count_of i = (if 0 \<le> i then Inr (nat i) else Inl UndefinedBehaviour)"

definition apply_preprocessing :: "vision_preprocessing \<Rightarrow> nat \<Rightarrow> vit \<Rightarrow> vit res" where
  "apply_preprocessing vp hidden v =
     rbind (count_of (vp_width vp)) (\<lambda>w. rbind (count_of (vp_height vp)) (\<lambda>h. rbind (count_of (vp_patch vp)) (\<lambda>p.
     rbind (count_of (vp_temporal vp)) (\<lambda>t. rbind (count_of (vp_merge vp)) (\<lambda>m.
       Inr ((setPreprocessing w h p t m v)\<lparr> vi_hidden := hidden \<rparr>))))))"

text \<open>The providers and constants of a model; the token ids are the family's.\<close>

definition wire_vlm :: "libm \<Rightarrow> vlm_family \<Rightarrow> vit \<Rightarrow> int list \<Rightarrow> f32 \<Rightarrow> int \<Rightarrow> vlm \<Rightarrow> vlm" where
  "wire_vlm lm fam v sec theta sms st =
     (let st = st\<lparr> vm_vit := v \<rparr>;
          st = setMRoPEProvider (mkMRoPE lm sec theta (if fam = Qwen25VL then BLOCK else STRIDE)
                 ''position_ids_cos'' ''position_ids_sin'') st;
          st = (if fam = Qwen3VL then setDeepstackProvider (mkDeepstack ''deepstack_visual_embeds_'' ''visual_pos_masks'') st else st)
      in (setVisionTokenIds 151652 151655 st)\<lparr> vm_merge := sms \<rparr>)"

text \<open>The list of providers is not empty, so the model makes none of its own.\<close>

definition vlm_env :: "device \<Rightarrow> model_config \<Rightarrow> vlm_provider env" where
  "vlm_env dev mc = \<lparr> e_exec = dv_exec dev, e_write = vlm_provider_write (dv_libm dev),
     e_init_provider = vlm_provider_onInitialized (dv_tables dev) (mf_embedding mc),
     e_embedding_provider = (\<lambda>_. Inl UndefinedBehaviour), e_rope_provider = (\<lambda>_. Inl UndefinedBehaviour),
     e_sample = dv_sample dev, e_grammar_ok = dv_grammar_ok dev \<rparr>"

record vlm_config =
  vc_llm :: model_config
  vc_vision :: model_config

definition vlm_makeModel :: "vlm_family \<Rightarrow> device \<Rightarrow> bundle_files \<Rightarrow> runtime_config \<Rightarrow> vlm_config \<Rightarrow> vlm option res" where
  "vlm_makeModel fam dev fs rc vc =
     caught (rbind (bundleDirOf (vc_llm vc)) (\<lambda>dir.
       rbind (parseQAIRTMetadata fs dir) (\<lambda>md.
       rbind (parseGenieConfig fs dir) (\<lambda>gc.
       case md_vision md of None \<Rightarrow> Inr None
       | Some vp \<Rightarrow>
         rbind (apply_preprocessing vp (md_hidden_size md)
                  (mkVit (if fam = Qwen3VL then ''deepstack_visual_embeds_'' else []))) (\<lambda>v.
         case vit_initialize fam dev fs rc (vc_vision vc) v of
           (Inl e, _) \<Rightarrow> Inl e
         | (Inr False, _) \<Rightarrow> Inr None
         | (Inr True, v) \<Rightarrow>
             let st = wire_vlm (dv_libm dev) fam v (section_of fam (gn_rope_scaling gc)) (gn_rope_theta gc) (vp_merge vp)
                        (mkVlm fam (buildSpecSkeleton gc) (defaultGenConfig (dv_seed dev)))
             in created (initialize_model dev fs rc (vc_llm vc) (llm_onInitialized (vlm_env dev (vc_llm vc)) (dv_decode dev))) st)))))"

text \<open>What the factories set of the processor's configuration; \<open>None\<close> leaves its default.\<close>

record processor_config =
  pc_height :: int
  pc_width :: int
  pc_patch :: "int option"
  pc_temporal :: "int option"
  pc_merge :: "int option"
  pc_mean :: "f32 list option"
  pc_std :: "f32 list option"

definition processor_config_of :: "vlm_family \<Rightarrow> vision_preprocessing \<Rightarrow> processor_config" where
  "processor_config_of fam vp =
     (let full = (fam = Qwen3VL); some = (\<lambda>x. if full then Some x else None);
          listed = (\<lambda>xs. if full \<and> xs \<noteq> [] then Some xs else None) in
      \<lparr> pc_height = vp_height vp, pc_width = vp_width vp, pc_patch = some (vp_patch vp), pc_temporal = some (vp_temporal vp),
        pc_merge = some (vp_merge vp), pc_mean = listed (vp_mean vp), pc_std = listed (vp_std vp) \<rparr>)"

definition vlm_makePipeline :: "vlm_family \<Rightarrow> device \<Rightarrow> bundle_files
    \<Rightarrow> (string \<Rightarrow> processor_config \<Rightarrow> ('q processor \<times> 'q tokenizer) option)
    \<Rightarrow> runtime_config \<Rightarrow> vlm_config \<Rightarrow> (vlm_provider env \<times> 'q vlm_pipeline) option res" where
  "vlm_makePipeline fam dev fs make_processor rc vc =
     rbind (vlm_makeModel fam dev fs rc vc) (\<lambda>made. case made of None \<Rightarrow> Inr None
     | Some model \<Rightarrow>
       rbind (bundleDirOf (vc_llm vc)) (\<lambda>dir.
       rbind (parseQAIRTMetadata fs dir) (\<lambda>md.
       rbind (if fam = Qwen25VL then parseGenieConfig fs dir else Inr defaultGenieConfig) (\<lambda>gc.
       case md_vision md of None \<Rightarrow> Inr None
       | Some vp \<Rightarrow>
         (case make_processor (mf_tokenizer (vc_llm vc)) (processor_config_of fam vp) of None \<Rightarrow> Inr None
          | Some (proc, tok) \<Rightarrow>
              rbind (created (vlm_create (Some model) (Some proc) tok) (pipeline.extend emptyPipeline \<lparr> vq_processor = None \<rparr>)) (\<lambda>pl.
                Inr (map_option (\<lambda>pl. (vlm_env dev (vc_llm vc), if fam = Qwen25VL then setBosTokenId (gn_bos gc) pl else pl)) pl)))))))"

definition makeVLMPipeline :: "device \<Rightarrow> bundle_files \<Rightarrow> (string \<Rightarrow> processor_config \<Rightarrow> ('q processor \<times> 'q tokenizer) option)
    \<Rightarrow> runtime_config \<Rightarrow> vlm_config \<Rightarrow> (vlm_provider env \<times> 'q vlm_pipeline) option res" where
  "makeVLMPipeline dev fs make_processor rc vc =
     rbind (modelIdOf fs (vc_llm vc)) (\<lambda>model_id.
       if model_id = [] then Inr None
       else case vlm_route model_id of None \<Rightarrow> Inr None | Some fam \<Rightarrow> vlm_makePipeline fam dev fs make_processor rc vc)"

end
