(* ===== verification/DispatchFacts.thy ===== *)
theory DispatchFacts
  imports Dispatch
begin

text \<open>
  What the dispatch promises: which factory a \<open>model_id\<close> goes to, and what the pipelines are that
  come out of the factories, proved through the start of the model they contain. The witnesses
  start a concrete bundle of one shard on a device that loads two graphs.
\<close>


section \<open>Routes\<close>

lemma startsWith_iff: "startsWith s p \<longleftrightarrow> (\<exists>r. s = p @ r)"
  unfolding startsWith_def by (metis append_eq_conv_conj append_take_drop_id length_append le_add1)

lemma endsWith_iff: "endsWith s p \<longleftrightarrow> (\<exists>r. s = r @ p)"
proof
  assume "endsWith s p"
  then have "s = take (length s - length p) s @ p" unfolding endsWith_def by (metis append_take_drop_id)
  then show "\<exists>r. s = r @ p" by blast
qed (auto simp: endsWith_def)

text \<open>The prefixes of the families exclude one another.\<close>

lemma prefixes_apart:
  assumes "startsWith s p" "startsWith s q" "length p \<le> length q"
  shows "take (length p) q = p"
  using assms by (auto simp: startsWith_def min_def) (metis take_take min.absorb1)

lemma families_apart:
  "startsWith s ''qwen2_5_'' \<Longrightarrow> \<not> startsWith s ''qwen3_''"
  "startsWith s ''falcon_v3_'' \<Longrightarrow> \<not> startsWith s ''qwen3_'' \<and> \<not> startsWith s ''qwen2_5_''"
  "startsWith s ''llama_v3_'' \<Longrightarrow> \<not> startsWith s ''qwen3_'' \<and> \<not> startsWith s ''qwen2_5_'' \<and> \<not> startsWith s ''falcon_v3_''"
  "startsWith s ''phi_3_5_'' \<Longrightarrow> \<not> startsWith s ''qwen3_'' \<and> \<not> startsWith s ''qwen2_5_'' \<and> \<not> startsWith s ''falcon_v3_'' \<and> \<not> startsWith s ''llama_v3_''"
  "startsWith s ''qwen2_5_vl_'' \<Longrightarrow> startsWith s ''qwen2_5_''" "startsWith s ''qwen3_vl_'' \<Longrightarrow> startsWith s ''qwen3_''"
  "startsWith s ''qwen3_vl_'' \<Longrightarrow> \<not> startsWith s ''qwen2_5_''"
  by (auto simp: startsWith_iff)

theorem llm_routing:
  "(llm_route s = Some Llama3SSD \<longleftrightarrow> (\<exists>r. s = r @ ''_ssd''))
   \<and> (llm_route s = Some Qwen3 \<longleftrightarrow> (\<exists>r. s = ''qwen3_'' @ r) \<and> \<not> (\<exists>r. s = ''qwen3_vl_'' @ r) \<and> \<not> (\<exists>r. s = r @ ''_ssd''))
   \<and> (llm_route s = Some Qwen25 \<longleftrightarrow> (\<exists>r. s = ''qwen2_5_'' @ r) \<and> \<not> (\<exists>r. s = r @ ''_ssd''))
   \<and> (llm_route s = Some Falcon3 \<longleftrightarrow> (\<exists>r. s = ''falcon_v3_'' @ r) \<and> \<not> (\<exists>r. s = r @ ''_ssd''))
   \<and> (llm_route s = Some Llama3 \<longleftrightarrow> (\<exists>r. s = ''llama_v3_'' @ r) \<and> \<not> (\<exists>r. s = r @ ''_ssd''))
   \<and> (llm_route s = Some Phi35 \<longleftrightarrow> (\<exists>r. s = ''phi_3_5_'' @ r) \<and> \<not> (\<exists>r. s = r @ ''_ssd''))
   \<and> (vlm_route s = Some Qwen25VL \<longleftrightarrow> (\<exists>r. s = ''qwen2_5_vl_'' @ r))
   \<and> (vlm_route s = Some Qwen3VL \<longleftrightarrow> (\<exists>r. s = ''qwen3_vl_'' @ r))"
proof -
  define ssd q3 q3v q25 q25v f3 l3 p35 where d: "ssd = endsWith s ''_ssd''" "q3 = startsWith s ''qwen3_''" "q3v = startsWith s ''qwen3_vl_''"
    "q25 = startsWith s ''qwen2_5_''" "q25v = startsWith s ''qwen2_5_vl_''" "f3 = startsWith s ''falcon_v3_''"
    "l3 = startsWith s ''llama_v3_''" "p35 = startsWith s ''phi_3_5_''"
  note apart = families_apart [of s, folded d]
  show ?thesis unfolding startsWith_iff [symmetric] endsWith_iff [symmetric] llm_route_def vlm_route_def d [symmetric]
    using apart by (cases ssd; cases q3; cases q25; simp) blast+
qed

text \<open>The table at the top of \<open>dispatch.h\<close>: what the \<open>model_id\<close> of a family begins with.\<close>

definition llm_prefix :: "llm_family \<Rightarrow> string" where
  "llm_prefix fam = (case fam of Qwen3 \<Rightarrow> ''qwen3_'' | Qwen25 \<Rightarrow> ''qwen2_5_'' | Falcon3 \<Rightarrow> ''falcon_v3_''
     | Llama3SSD \<Rightarrow> ''llama_v3_'' | Llama3 \<Rightarrow> ''llama_v3_'' | Phi35 \<Rightarrow> ''phi_3_5_'')"

definition vlm_prefix :: "vlm_family \<Rightarrow> string" where
  "vlm_prefix fam = (case fam of Qwen25VL \<Rightarrow> ''qwen2_5_vl_'' | Qwen3VL \<Rightarrow> ''qwen3_vl_'')"

lemma route_table:
  assumes "llm_route s = Some fam" "fam \<noteq> Llama3SSD"
  shows "(\<exists>r. s = llm_prefix fam @ r) \<and> \<not> (\<exists>r. s = r @ ''_ssd'') \<and> \<not> (\<exists>r. s = ''qwen3_vl_'' @ r)
    \<and> ((\<exists>r. s = ''qwen2_5_vl_'' @ r) \<longrightarrow> fam = Qwen25)"
proof -
  define ssd q3 q3v q25 q25v f3 l3 p35 where d: "ssd = endsWith s ''_ssd''" "q3 = startsWith s ''qwen3_''" "q3v = startsWith s ''qwen3_vl_''"
    "q25 = startsWith s ''qwen2_5_''" "q25v = startsWith s ''qwen2_5_vl_''" "f3 = startsWith s ''falcon_v3_''"
    "l3 = startsWith s ''llama_v3_''" "p35 = startsWith s ''phi_3_5_''"
  note apart = families_apart [of s, folded d]
  have r: "(if ssd then Some Llama3SSD else if q3 \<and> \<not> q3v then Some Qwen3 else if q25 then Some Qwen25 else if f3 then Some Falcon3
      else if l3 then Some Llama3 else if p35 then Some Phi35 else None) = Some fam"
    using assms(1) unfolding llm_route_def d .
  have p: "startsWith s (llm_prefix fam) \<longleftrightarrow> (case fam of Qwen3 \<Rightarrow> q3 | Qwen25 \<Rightarrow> q25 | Falcon3 \<Rightarrow> f3 | Phi35 \<Rightarrow> p35 | _ \<Rightarrow> l3)"
    by (simp add: llm_prefix_def d split: llm_family.splits)
  show ?thesis
    unfolding startsWith_iff [symmetric] endsWith_iff [symmetric] p d [symmetric]
    using r assms(2) apart by (cases ssd; cases q3; cases q25; cases f3; cases l3; cases q3v; simp split: if_splits) auto
qed

lemma vlm_route_table: "vlm_route s = Some fam \<Longrightarrow> \<exists>r. s = vlm_prefix fam @ r"
  unfolding startsWith_iff [symmetric] vlm_route_def vlm_prefix_def by (auto split: if_splits)

text \<open>A bundle of a vision-language model given to the text entry.\<close>

theorem vision_bundle_as_text:
  "vlm_route (''qwen3_vl_'' @ r) = Some Qwen3VL \<and> vlm_route (''qwen2_5_vl_'' @ r) = Some Qwen25VL
   \<and> (llm_route (''qwen3_vl_'' @ r) = None \<longleftrightarrow> \<not> (\<exists>q. ''qwen3_vl_'' @ r = q @ ''_ssd''))
   \<and> llm_route (''qwen2_5_vl_'' @ r) \<noteq> None"
proof -
  have a: "startsWith (''qwen3_vl_'' @ r) ''qwen3_vl_''" "startsWith (''qwen2_5_vl_'' @ r) ''qwen2_5_vl_''"
    by (simp_all add: startsWith_def)
  then show ?thesis
    unfolding endsWith_iff [symmetric] llm_route_def vlm_route_def
    using families_apart [of "''qwen3_vl_'' @ r"] families_apart [of "''qwen2_5_vl_'' @ r"]
    by (simp del: append.simps) blast
qed

section \<open>What bring-up keeps\<close>

definition conversation :: "('p, 'a) llm_scheme \<Rightarrow> _" where
  "conversation st = (l_n_past st, l_history st, l_active_cl st, sp_eos_token_ids (l_spec st), sp_bos_token_id (l_spec st),
     llm.more st)"

lemma mem_only_more: "mem_only st st' \<Longrightarrow> llm.more st' = llm.more st"
  by (cases st, cases st', simp add: mem_only_def forget_mem_def)

lemma infer_hidden_same: "sp_eos_token_ids (infer_hidden t sp) = sp_eos_token_ids sp" "sp_bos_token_id (infer_hidden t sp) = sp_bos_token_id sp"
    "sp_context_lengths (infer_hidden t sp) = sp_context_lengths sp"
  by (simp_all add: infer_hidden_def)

definition tokens_of :: "llm_spec \<Rightarrow> _" where
  "tokens_of sp = (sp_eos_token_ids sp, sp_bos_token_id sp, sp_context_lengths sp)"

lemma infer_input_tokens: "tokens_of (snd (fold infer_input ts (n, sp))) = tokens_of sp"
proof (induction ts arbitrary: n sp)
  case (Cons t ts)
  obtain n' sp' where e: "infer_input t (n, sp) = (n', sp')" by fastforce
  then have "tokens_of sp' = tokens_of sp"
    by (auto simp: infer_input_def tokens_of_def infer_hidden_same Let_def split: if_splits)
  then show ?case using Cons by (simp add: e)
qed simp

lemma infer_output_tokens:
  assumes "rfor infer_output ts (n, b, sp) = Inr (n', b', sp')"
  shows "tokens_of sp' = tokens_of sp"
proof -
  have "tokens_of (snd (snd (n', b', sp'))) = tokens_of sp"
    by (rule rfor_inv [OF assms, where P = "\<lambda>x. tokens_of (snd (snd x)) = tokens_of sp"])
      (auto simp: infer_output_def tokens_of_def infer_hidden_same Let_def split: if_splits)
  then show ?thesis by simp
qed

lemma infer_inputs_tokens: "fold infer_input ts (n, sp) = (n', sp') \<Longrightarrow> tokens_of sp' = tokens_of sp"
  by (metis infer_input_tokens snd_conv)

lemma tokens_of_wiring: "tokens_of (sp\<lparr> sp_shards := x, sp_state_blocks := y \<rparr>) = tokens_of sp"
  by (simp add: tokens_of_def)

lemma infer_shard_tokens:
  assumes "infer_shard st s sp = Inr sp'" shows "tokens_of sp' = tokens_of sp"
  using assms
  by (auto simp: infer_shard_def Let_def tokens_of_wiring split: prod.splits if_splits elim!: rbind_InrE
      dest!: infer_output_tokens infer_inputs_tokens)

lemma inferSpec_tokens: "inferSpecFromGraphs st = Inr sp \<Longrightarrow> tokens_of sp = tokens_of (l_spec st)"
proof -
  assume "inferSpecFromGraphs st = Inr sp"
  then obtain sp0 where r: "rfor (infer_shard st) [0..<l_shard_count st] sp0 = Inr sp" "tokens_of sp0 = tokens_of (l_spec st)"
    by (auto simp: inferSpecFromGraphs_def Let_def tokens_of_def split: if_splits elim!: rbind_InrE)
  have "tokens_of sp = tokens_of (l_spec st)"
    by (rule rfor_inv [OF r(1), where P = "\<lambda>sp. tokens_of sp = tokens_of (l_spec st)", OF r(2)]) (simp add: infer_shard_tokens)
  then show ?thesis .
qed

lemma createInputProviders_same: "steps_in (\<lambda>st st'. (conversation st', l_spec st') = (conversation st, l_spec st)) (createInputProviders env)"
  unfolding createInputProviders_def add_provider_def
  by (intro steps) (auto simp: conversation_def push_provider_def)

lemma steps_in_list: "steps_in R m \<Longrightarrow> (\<And>y ys. steps_in R (k y ys)) \<Longrightarrow> steps_in R (case xs of [] \<Rightarrow> m | y # ys \<Rightarrow> k y ys)"
  by (cases xs) simp_all

lemma bring_up_conversation:
  assumes "steps_in (\<lambda>st st'. (conversation st', l_spec st') = (conversation st, l_spec st)) create"
  shows "steps_in (\<lambda>st st'. conversation st' = conversation st) (llm_bring_up create env dc)"
proof -
  have mo: "steps_in (\<lambda>st st'. conversation st' = conversation st) initKVBuffers"
    by (rule steps_in_mono [OF initKVBuffers_mem_only])
      (simp add: conversation_def mem_only_fields mem_only_more mem_and_cl_fields [OF mem_only_and_cl])
  have cr: "steps_in (\<lambda>st st'. conversation st' = conversation st) create"
    by (rule steps_in_mono [OF assms]) simp
  have ip: "steps_in (\<lambda>st st'. conversation st' = conversation st) (init_providers env)"
    unfolding init_providers_def by (intro steps) (auto simp: conversation_def)
  show ?thesis unfolding llm_bring_up_def
    by (intro steps mo cr ip steps_in_list)
      (auto simp: conversation_def discover_variants_def sort_graphs_def resolve_kv_block_def buildConnections_def start_decode_pool_def
        Let_def tokens_of_def dest: inferSpec_tokens)
qed

lemma bring_up_context_lengths:
  assumes "llm_bring_up create env dc st = (Inr True, st')"
    and "steps_in (\<lambda>st st'. (conversation st', l_spec st') = (conversation st, l_spec st)) create"
  shows "sp_context_lengths (l_spec st') \<noteq> []"
proof -
  let ?R = "\<lambda>st st' :: ('a, 'b) llm_scheme. tokens_of (l_spec st') = tokens_of (l_spec st)"
  have mo: "steps_in ?R initKVBuffers"
    by (rule steps_in_mono [OF initKVBuffers_mem_only]) (simp add: mem_and_cl_fields [OF mem_only_and_cl])
  have cr: "steps_in ?R create" by (rule steps_in_mono [OF assms(2)]) simp
  have ip: "steps_in ?R (init_providers env)" unfolding init_providers_def by (intro steps) auto
  let ?tail = "sthen (smod sort_graphs)
        (sthen (supd (\<lambda>st. rbind (inferSpecFromGraphs st) (\<lambda>sp. Inr (st\<lparr> l_spec := sp \<rparr>))))
        (sthen (smod resolve_kv_block) (sthen create (sthen (smod buildConnections) (sthen (init_providers env)
        (sthen initKVBuffers (sthen (smod (start_decode_pool dc)) (sret True))))))))"
  have tail: "steps_in ?R ?tail"
    by (intro steps mo cr ip)
      (auto simp: sort_graphs_def resolve_kv_block_def buildConnections_def start_decode_pool_def Let_def dest: inferSpec_tokens)
  obtain p ps where "?tail (discover_variants (p # ps) st) = (Inr True, st')"
    using assms(1) by (auto simp: llm_bring_up_def sx_simps sthen_run [of "smod (discover_variants _)"] split: option.splits list.splits)
  with tail have "?R (discover_variants (p # ps) st) st'" unfolding steps_in_def by blast
  then have "sp_context_lengths (l_spec st') = sp_context_lengths (l_spec (discover_variants (p # ps) st))"
    by (simp add: tokens_of_def)
  then have "pg_cl p \<in> set (sp_context_lengths (l_spec st'))" by (simp add: discover_variants_def Let_def)
  then show ?thesis by force
qed

text \<open>A start touches the graphs, the buffers and what \<open>onInitialized\<close> sets up.\<close>

lemma add_graphs_same:
  assumes "\<And>md gs. f (md\<lparr> m_graphs := gs \<rparr>) = f md"
  shows "steps_in (\<lambda>md md'. f md' = f md) (add_graphs infos)"
proof (induction infos)
  case Nil
  show ?case by (simp add: steps)
next
  case (Cons lg lgs)
  have "steps_in (\<lambda>md md'. f md' = f md) (add_graph lg)"
    using assms by (auto simp: steps_in_def add_graph_def split: prod.splits)
  then show ?case using Cons by (simp add: steps)
qed

lemma initialize_run:
  assumes "initialize_model dev fs rc mc on_init md = (Inr True, md')" "\<not> m_initialized md"
    and "\<And>md gs. f (md\<lparr> m_graphs := gs \<rparr>) = f md" "\<And>md b. f (md\<lparr> m_mem := b \<rparr>) = f md"
  shows "\<exists>md1 md2. f md1 = f md \<and> on_init md1 = (Inr True, md2) \<and> md' = md2\<lparr> m_initialized := True \<rparr>"
proof -
  obtain rc' infos buffers where l: "dv_load dev rc' (mf_paths mc) (mf_htp_config mc) = Some (infos, buffers)"
    "model_initialize True infos on_init (md\<lparr> m_mem := buffers \<rparr>) = (Inr True, md')"
    using assms(1,2) by (auto simp: initialize_model_def model_initialize_def [of False] sx_simps sbind_run sthen_run split: sum.splits option.splits)
  then obtain md1 md2 where a: "add_graphs infos (md\<lparr> m_mem := buffers \<rparr>) = (Inr True, md1)" "on_init md1 = (Inr True, md2)"
    "md' = md2\<lparr> m_initialized := True \<rparr>"
    using assms(2) by (auto simp: model_initialize_def sx_simps sbind_run sthen_run split: prod.splits sum.splits if_splits)
  have "f md1 = f md" using steps_inD [OF add_graphs_same [of f, OF assms(3)] a(1)] assms(4) by simp
  then show ?thesis using a by blast
qed

lemma created_pipeline:
  assumes "created (createImpl init from_file model mc) emptyPipeline = Inr (Some pl)"
  shows "\<exists>m t. init model = (Inr True, m) \<and> pl_model pl = Some m \<and> pl_tokenizer pl = Some t \<and> tk_has_template t
    \<and> pl_ready pl \<and> pl_bos pl = - 1"
proof -
  have "createImpl init from_file model mc emptyPipeline = (Inr True, pl)"
    using assms by (auto simp: created_def split: prod.splits sum.splits if_splits)
  then show ?thesis
    by (auto simp: createImpl_def emptyPipeline_def sx_simps sthen_run sbind_run Let_def split: prod.splits if_splits option.splits sum.splits)
qed

lemma caught_Some: "caught r = Inr (Some x) \<longleftrightarrow> r = Inr (Some x)"
  by (auto simp: caught_def split: sum.splits)

text \<open>What a pipeline of one of the plain families is when its factory has made it.\<close>

definition fresh_llm :: "genie_config \<Rightarrow> provider llm \<Rightarrow> bool" where
  "fresh_llm gc m \<longleftrightarrow> m_initialized m \<and> l_n_past m = 0 \<and> l_history m = [] \<and> l_active_cl m = 0
     \<and> sp_eos_token_ids (l_spec m) = gn_eos gc \<and> sp_bos_token_id (l_spec m) = gn_bos gc \<and> sp_context_lengths (l_spec m) \<noteq> []"

lemma llm_made:
  assumes "llm_makePipeline fam dev fs from_file rc mc = Inr (Some (env, pl))"
  shows "\<exists>dir gc m t. bundleDirOf mc = Inr dir \<and> parseGenieConfig fs dir = Inr gc \<and> env = llm_env dev mc gc
    \<and> pl_ready pl \<and> pl_model pl = Some m \<and> fresh_llm gc m \<and> pl_tokenizer pl = Some t \<and> tk_has_template t
    \<and> pl_bos pl = (if fam = Qwen3 then gn_bos gc else - 1)"
proof -
  obtain dir gc pl0 where g: "bundleDirOf mc = Inr dir" "parseGenieConfig fs dir = Inr gc" "env = llm_env dev mc gc"
    "created (createImpl (initialize_model dev fs rc mc (llm_onInitialized env (dv_decode dev))) from_file
       (mkLLM (buildSpecSkeleton gc) (defaultGenConfig (dv_seed dev))) mc) emptyPipeline = Inr (Some pl0)"
    "pl = (if fam = Qwen3 then setBosTokenId (gn_bos gc) pl0 else pl0)"
    using assms by (auto simp: llm_makePipeline_def caught_Some llm_makeModel_def Let_def elim!: rbind_InrE)
  let ?m0 = "mkLLM (buildSpecSkeleton gc) (defaultGenConfig (dv_seed dev)) :: provider llm"
  obtain m t where c: "initialize_model dev fs rc mc (llm_onInitialized env (dv_decode dev)) ?m0 = (Inr True, m)"
    "pl_model pl0 = Some m" "pl_tokenizer pl0 = Some t" "tk_has_template t" "pl_ready pl0" "pl_bos pl0 = - 1"
    using created_pipeline [OF g(4)] by blast
  have "\<not> m_initialized ?m0" by (simp add: mkLLM_def)
  from initialize_run [OF c(1) this, of conversation] obtain m1 m2 where
    i: "conversation m1 = conversation ?m0" "llm_onInitialized env (dv_decode dev) m1 = (Inr True, m2)" "m = m2\<lparr> m_initialized := True \<rparr>"
    by (auto simp: conversation_def)
  have "conversation m2 = conversation ?m0" "sp_context_lengths (l_spec m2) \<noteq> []"
    using steps_inD [OF bring_up_conversation [OF createInputProviders_same] i(2) [unfolded llm_onInitialized_def]]
      bring_up_context_lengths [OF i(2) [unfolded llm_onInitialized_def] createInputProviders_same] i(1) by simp_all
  then have "fresh_llm gc m" by (simp add: fresh_llm_def i(3) conversation_def mkLLM_def buildSpecSkeleton_def)
  then show ?thesis using c g by (auto simp: setBosTokenId_def)
qed

text \<open>C22: a plain text pipeline that dispatch returns is of the family whose prefix its model id
  has (qwen3_, qwen2_5_, falcon_v3_, llama_v3_, phi_3_5_; never an id that ends in _ssd or
  starts with qwen3_vl_, but a qwen2_5_vl_ id gets the plain Qwen2.5 pipeline, against the
  comment of dispatch.h), and is well-formed: it is ready, its model is initialized with the
  bundle's tokens and an empty conversation, and only Qwen3 puts a beginning token in front\<close>

theorem dispatched_pipeline:
  assumes "makeLLMPipeline dev fs from_file rc mc = Inr (Some (MadeLLM fam env pl))"
  shows "\<exists>model_id dir gc m t. modelIdOf fs mc = Inr model_id \<and> (\<exists>r. model_id = llm_prefix fam @ r)
    \<and> fam \<noteq> Llama3SSD \<and> \<not> (\<exists>r. model_id = r @ ''_ssd'') \<and> \<not> (\<exists>r. model_id = ''qwen3_vl_'' @ r)
    \<and> ((\<exists>r. model_id = ''qwen2_5_vl_'' @ r) \<longrightarrow> fam = Qwen25)
    \<and> bundleDirOf mc = Inr dir \<and> parseGenieConfig fs dir = Inr gc \<and> env = llm_env dev mc gc
    \<and> pl_ready pl \<and> pl_model pl = Some m \<and> fresh_llm gc m \<and> pl_tokenizer pl = Some t \<and> tk_has_template t
    \<and> pl_bos pl = (if fam = Qwen3 then gn_bos gc else - 1)"
proof -
  obtain model_id where id: "modelIdOf fs mc = Inr model_id" and r: "llm_route model_id = Some fam" "fam \<noteq> Llama3SSD"
    and made: "llm_makePipeline fam dev fs from_file rc mc = Inr (Some (env, pl))"
    using assms by (auto simp: makeLLMPipeline_def split: if_splits option.splits elim!: rbind_InrE)
  from llm_made [OF made] obtain dir gc m t where
    "bundleDirOf mc = Inr dir \<and> parseGenieConfig fs dir = Inr gc \<and> env = llm_env dev mc gc
     \<and> pl_ready pl \<and> pl_model pl = Some m \<and> fresh_llm gc m \<and> pl_tokenizer pl = Some t \<and> tk_has_template t
     \<and> pl_bos pl = (if fam = Qwen3 then gn_bos gc else - 1)" by blast
  with id route_table [OF r] r(2) show ?thesis
    by (intro exI [of _ model_id] exI [of _ dir] exI [of _ gc] exI [of _ m] exI [of _ t]) simp
qed

section \<open>Vision-language models\<close>

lemma section_given:
  assumes "parseRopeScaling (JObject kvs) = Inr rs" "map_of kvs ''rope-type'' = Some (JString ''qwen3vl-mrope'')"
    and "map_of kvs ''mrope-section'' = None"
  shows "section_of Qwen3VL rs = [16, 24, 24]"
proof -
  obtain m t where "rs = MRope [16, 24, 24] m t"
    using assms by (auto simp: parseRopeScaling_def is_object_def value_or_def members_def get_string_def elim!: rbind_InrE)
  then show ?thesis by (simp add: section_of_def)
qed

theorem qwen3_section_missing:
  assumes "parseRopeScaling (JObject kvs) = Inr rs" "map_of kvs ''rope-type'' = Some (JString ''qwen3vl-mrope'')"
    and "map_of kvs ''mrope-section'' = None"
  shows "section_of Qwen3VL rs = family_section Qwen25VL \<and> section_of Qwen3VL rs \<noteq> family_section Qwen3VL"
  using section_given [OF assms] by (simp add: family_section_def)

lemma qwen3_section_missing_witness:
  "\<exists>rs. parseRopeScaling (JObject [(''rope-type'', JString ''qwen3vl-mrope'')]) = Inr rs \<and> section_of Qwen3VL rs = [16, 24, 24]"
proof -
  have "parseRopeScaling (JObject [(''rope-type'', JString ''qwen3vl-mrope'')]) = Inr (MRope [16, 24, 24] 2 50)"
    by (simp add: parseRopeScaling_def is_object_def value_or_def members_def get_string_def)
  with qwen3_section_missing [OF this] show ?thesis by (simp add: family_section_def)
qed

section \<open>The self-speculative factory\<close>

text \<open>
  Whatever scaling the bundle asks for, the table is the plain one. A plain model of the same
  bundle makes its provider from the scaling (\<open>makeRoPEProvider\<close>).
\<close>

definition fresh_ssd :: "device \<Rightarrow> genie_config \<Rightarrow> provider ssd \<Rightarrow> bool" where
  "fresh_ssd dev gc m \<longleftrightarrow> m_initialized m \<and> l_n_past m = 16 \<and> l_history m = []
     \<and> sc_branches (d_cfg m) = [3, 2] \<and> d_map m = genAttentionMap [3, 2]
     \<and> sp_eos_token_ids (l_spec m) = gn_eos gc \<and> sp_context_lengths (l_spec m) \<noteq> []
     \<and> requireRope m = Inr (rotary_inv_freq (dv_libm dev) (sp_head_dim (l_spec m)) (gn_rope_theta gc))"

lemma ssd_started:
  fixes st :: "'p ssd"
  assumes "ssd_onInitialized env lib dc st = (Inr True, st')"
  shows "l_n_past st' = forecast_prefix st \<and> l_history st' = l_history st \<and> d_cfg st' = d_cfg st \<and> d_map st' = d_map st
    \<and> sp_eos_token_ids (l_spec st') = sp_eos_token_ids (l_spec st) \<and> sp_context_lengths (l_spec st') \<noteq> []
    \<and> requireRope st' = Inr (rotary_inv_freq (sl_libm lib) (sp_head_dim (l_spec st')) (sc_rope_theta (d_cfg st)))"
proof -
  obtain st1 where 1: "llm_onInitialized env dc st = (Inr True, st1)"
    using assms by (auto simp: ssd_onInitialized_def sx_simps sbind_run split: prod.splits sum.splits if_splits)
  let ?f = "rotary_inv_freq (sl_libm lib) (sp_head_dim (l_spec st1)) (sc_rope_theta (d_cfg st1))"
  obtain ts st3 r where 3: "kv_tensors_of (st1\<lparr> d_rope := Some ?f \<rparr>) = Inr ts" "st' = st3\<lparr> l_n_past := forecast_prefix st3 \<rparr>"
    "swhen (sc_prefix_path (d_cfg st1) \<noteq> []) (sbind (loadForecastPrefix lib) (\<lambda>loaded.
        swhen loaded (smod (\<lambda>st. st\<lparr> l_n_past := forecast_prefix st \<rparr>)))) (st1\<lparr> d_rope := Some ?f, d_kv := ts \<rparr>) = (r, st3)"
    using assms 1 by (auto simp: ssd_onInitialized_def sx_simps sbind_run sthen_run supd_run split: prod.splits sum.splits)
  let ?st2 = "st1\<lparr> d_rope := Some ?f, d_kv := ts \<rparr>"
  have "(l_history st3, l_spec st3, d_cfg st3, d_map st3, d_rope st3) = (l_history st1, l_spec st1, d_cfg st1, d_map st1, Some ?f)"
  proof (cases "sc_prefix_path (d_cfg st1) = []")
    case True
    then show ?thesis using 3(3) by (auto simp: swhen_run)
  next
    case False
    obtain r1 st2 where l: "loadForecastPrefix lib ?st2 = (r1, st2)" by fastforce
    obtain m where "st2 = ?st2\<lparr> m_mem := m \<rparr>" using loadForecastPrefix_kept [OF l] by blast
    then show ?thesis using 3(3) False l by (auto simp: swhen_run sbind_run sx_simps split: sum.splits if_splits)
  qed
  moreover have "conversation st1 = conversation st" "sp_context_lengths (l_spec st1) \<noteq> []"
    using steps_inD [OF bring_up_conversation [OF createInputProviders_same] 1 [unfolded llm_onInitialized_def]]
      bring_up_context_lengths [OF 1 [unfolded llm_onInitialized_def] createInputProviders_same] by simp_all
  moreover from calculation have "d_cfg st1 = d_cfg st" "d_map st1 = d_map st"
    by (cases st, cases st1, simp add: conversation_def)+
  ultimately show ?thesis by (auto simp: 3(2) conversation_def requireRope_def forecast_prefix_def)
qed

text \<open>C37: whatever dispatch returns for a bundle whose id ends in _ssd, with any prefix, although
  the table of dispatch.h has llama_v3_*_ssd only, is a self-speculative pipeline; its model
  starts behind its forecast prefix and its rotary table is the unscaled one of the bundle's
  base, whatever rope scaling the bundle declares\<close>

theorem dispatched_ssd:
  assumes "makeLLMPipeline dev fs from_file rc mc = Inr (Some made)" "modelIdOf fs mc = Inr (model_id @ ''_ssd'')"
  shows "\<exists>pl dir gc m t. made = MadeSSD pl \<and> bundleDirOf mc = Inr dir \<and> parseGenieConfig fs dir = Inr gc
    \<and> pl_ready pl \<and> pl_model pl = Some m \<and> fresh_ssd dev gc m \<and> pl_tokenizer pl = Some t \<and> tk_has_template t \<and> pl_bos pl = - 1"
proof -
  let ?mc = "autoDiscoverForecastPrefix fs mc"
  have "llm_route (model_id @ ''_ssd'') = Some Llama3SSD" by (auto simp: llm_route_def endsWith_iff)
  then obtain pl where s: "made = MadeSSD pl" "ssd_makePipeline dev fs from_file rc ?mc = Inr (Some pl)"
    using assms by (auto simp: makeLLMPipeline_def split: if_splits option.splits elim!: rbind_InrE)
  have b: "bundleDirOf ?mc = bundleDirOf mc" by (auto simp: autoDiscoverForecastPrefix_def bundleDirOf_def Let_def split: sum.splits list.splits)
  let ?cfg = "defaultGenConfig (dv_seed dev)"
  obtain m0 where made: "ssd_makeModel dev fs ?mc = Inr m0"
    "created (createImpl (initialize_model dev fs rc ?mc (ssd_onInitialized (llm_env dev ?mc defaultGenieConfig)
       \<lparr> sl_libm = dv_libm dev, sl_sort = dv_sort dev, sl_prefix_file = dv_prefix dev (sc_prefix_path (d_cfg m0)) \<rparr> (dv_decode dev))) from_file m0 ?mc)
       emptyPipeline = Inr (Some pl)"
    using s(2) by (auto simp: ssd_makePipeline_def caught_Some Let_def elim!: rbind_InrE)
  define lib where "lib = \<lparr> sl_libm = dv_libm dev, sl_sort = dv_sort dev, sl_prefix_file = dv_prefix dev (sc_prefix_path (d_cfg m0)) \<rparr>"
  obtain dir gc sc where g: "bundleDirOf mc = Inr dir" "parseGenieConfig fs dir = Inr gc"
    "sc = makeSSDConfig (opt_or (mf_forecast_prefix ?mc) []) (gn_rope_theta gc)" "m0 = mkSSD (buildSpecSkeleton gc) ?cfg sc"
    using made(1) by (auto simp: ssd_makeModel_def b elim!: rbind_InrE)
  have l: "sl_libm lib = dv_libm dev" by (simp add: lib_def)
  let ?m0 = "mkSSD (buildSpecSkeleton gc) ?cfg sc :: provider ssd"
  obtain m t where c: "initialize_model dev fs rc ?mc (ssd_onInitialized (llm_env dev ?mc defaultGenieConfig) lib (dv_decode dev)) ?m0 = (Inr True, m)"
    "pl_model pl = Some m" "pl_tokenizer pl = Some t" "tk_has_template t" "pl_ready pl" "pl_bos pl = - 1"
    using created_pipeline [OF made(2)] by (auto simp: lib_def g(4))
  have "\<not> m_initialized ?m0" by (simp add: mkSSD_def mkLLM_def llm.defs)
  from initialize_run [OF c(1) this, of "\<lambda>st. (conversation st, d_cfg st, d_map st)"] obtain m1 m2 where
    i: "conversation m1 = conversation ?m0" "d_cfg m1 = sc" "d_map m1 = genAttentionMap (sc_branches sc)"
      "ssd_onInitialized (llm_env dev ?mc defaultGenieConfig) lib (dv_decode dev) m1 = (Inr True, m2)" "m = m2\<lparr> m_initialized := True \<rparr>"
    by (auto simp: conversation_def mkSSD_def mkLLM_def llm.defs)
  have "fresh_ssd dev gc m" using ssd_started [OF i(4)] i(1,2,3) g(3) l
    by (simp add: fresh_ssd_def i(5) requireRope_def forecast_prefix_def makeSSDConfig_def conversation_def mkSSD_def mkLLM_def llm.defs
        buildSpecSkeleton_def split: option.splits)
  then show ?thesis using c g s(1) by auto
qed

section \<open>The providers of a vision-language model\<close>

definition init_provider_at :: "'p env \<Rightarrow> nat \<Rightarrow> (('p, 'a) llm_scheme, unit) sx" where
  "init_provider_at env i = supd (\<lambda>st. rbind (e_init_provider env (l_spec st) (l_providers st ! i)) (\<lambda>p.
      Inr (st\<lparr> l_providers := (l_providers st)[i := p] \<rparr>)))"

lemma init_providers_prefix:
  assumes "sfor (init_provider_at env) [0..<n] st = (Inr (), st')" "n \<le> length (l_providers st)"
  shows "\<exists>ps. st' = st\<lparr> l_providers := ps \<rparr> \<and> length ps = length (l_providers st)
    \<and> (\<forall>i < n. e_init_provider env (l_spec st) (l_providers st ! i) = Inr (ps ! i)) \<and> (\<forall>i. n \<le> i \<longrightarrow> ps ! i = l_providers st ! i)"
  using assms
proof (induction n arbitrary: st')
  case 0
  then show ?case by (intro exI [of _ "l_providers st"]) (simp add: sx_simps)
next
  case (Suc n)
  obtain st1 where 1: "sfor (init_provider_at env) [0..<n] st = (Inr (), st1)" and 2: "init_provider_at env n st1 = (Inr (), st')"
    using Suc.prems(1) by (auto simp: sfor_append sthen_run sx_simps split: prod.splits sum.splits)
  from Suc.IH [OF 1] Suc.prems(2) obtain ps where ps: "st1 = st\<lparr> l_providers := ps \<rparr>" "length ps = length (l_providers st)"
    "\<forall>i < n. e_init_provider env (l_spec st) (l_providers st ! i) = Inr (ps ! i)" "\<forall>i. n \<le> i \<longrightarrow> ps ! i = l_providers st ! i" by auto
  obtain p where p: "e_init_provider env (l_spec st) (l_providers st ! n) = Inr p" "st' = st\<lparr> l_providers := ps[n := p] \<rparr>"
    using 2 ps by (auto simp: init_provider_at_def supd_run split: sum.splits elim!: rbind_InrE)
  then show ?case using ps Suc.prems(2)
    by (intro exI [of _ "ps[n := p]"]) (auto simp: less_Suc_eq nth_list_update)
qed

lemma init_providers_run:
  assumes "init_providers env st = (Inr (), st')"
  shows "\<exists>ps. st' = st\<lparr> l_providers := ps \<rparr> \<and> list_all2 (\<lambda>p q. e_init_provider env (l_spec st) p = Inr q) (l_providers st) ps"
proof -
  have "sfor (init_provider_at env) [0..<length (l_providers st)] st = (Inr (), st')"
    using assms by (simp add: init_providers_def init_provider_at_def [abs_def] sx_simps)
  from init_providers_prefix [OF this] show ?thesis by (auto simp: list_all2_conv_all_nth)
qed

text \<open>With providers of its own a model makes no others, and the rest of bring-up leaves them alone.\<close>

lemma bring_up_providers:
  assumes "llm_onInitialized env dc st = (Inr True, st')" "l_providers st \<noteq> []"
  shows "\<exists>sp. list_all2 (\<lambda>p q. e_init_provider env sp p = Inr q) (l_providers st) (l_providers st')"
proof -
  obtain p ps where
    r: "sthen (smod (discover_variants (p # ps))) (sthen (smod sort_graphs)
        (sthen (supd (\<lambda>st. rbind (inferSpecFromGraphs st) (\<lambda>sp. Inr (st\<lparr> l_spec := sp \<rparr>))))
        (sthen (smod resolve_kv_block) (sthen (createInputProviders env) (sthen (smod buildConnections) (sthen (init_providers env)
        (sthen initKVBuffers (sthen (smod (start_decode_pool dc)) (sret True))))))))) st = (Inr True, st')"
    using assms(1) by (auto simp: llm_onInitialized_def llm_bring_up_def sx_simps split: option.splits list.splits)
  define st0 where "st0 = sort_graphs (discover_variants (p # ps) st)"
  have 0: "l_providers st0 = l_providers st" by (simp add: st0_def sort_graphs_def discover_variants_def Let_def)
  obtain sp where r1: "sthen (createInputProviders env) (sthen (smod buildConnections) (sthen (init_providers env)
        (sthen initKVBuffers (sthen (smod (start_decode_pool dc)) (sret True))))) (resolve_kv_block (st0\<lparr> l_spec := sp \<rparr>)) = (Inr True, st')"
    using r by (auto simp: sthen_run [of "smod _"] sthen_run [of "supd _"] sx_simps supd_run st0_def [symmetric] split: sum.splits elim!: rbind_InrE)
  define st1 where "st1 = buildConnections (resolve_kv_block (st0\<lparr> l_spec := sp \<rparr>))"
  have 1: "l_providers st1 = l_providers st" using 0 by (simp add: st1_def buildConnections_def resolve_kv_block_def)
  have "createInputProviders env (resolve_kv_block (st0\<lparr> l_spec := sp \<rparr>)) = (Inr (), resolve_kv_block (st0\<lparr> l_spec := sp \<rparr>))"
    using 0 assms(2) by (simp add: createInputProviders_def sx_simps swhen_run resolve_kv_block_def)
  with r1 have "sthen (init_providers env) (sthen initKVBuffers (sthen (smod (start_decode_pool dc)) (sret True))) st1 = (Inr True, st')"
    by (simp add: sthen_run [of "createInputProviders env"] sthen_run [of "smod _"] sx_simps st1_def)
  then obtain st2 st3 where 2: "init_providers env st1 = (Inr (), st2)" "initKVBuffers st2 = (Inr (), st3)" "st' = start_decode_pool dc st3"
    by (auto simp: sthen_run sx_simps split: prod.splits sum.splits)
  have "l_providers st' = l_providers st2"
    using steps_inD [OF initKVBuffers_mem_only 2(2)] by (simp add: 2(3) start_decode_pool_def Let_def mem_and_cl_fields [OF mem_only_and_cl])
  then show ?thesis using init_providers_run [OF 2(1)] 1 by auto
qed

text \<open>A vision-language model that has just been made.\<close>

definition fresh_vlm :: "device \<Rightarrow> string option \<Rightarrow> vlm_family \<Rightarrow> genie_config \<Rightarrow> vision_preprocessing \<Rightarrow> vlm \<Rightarrow> bool" where
  "fresh_vlm dev path fam gc vp m \<longleftrightarrow> m_initialized m \<and> l_n_past m = 0 \<and> l_history m = []
     \<and> sp_eos_token_ids (l_spec m) = gn_eos gc \<and> sp_context_lengths (l_spec m) \<noteq> []
     \<and> vm_family m = fam \<and> vm_deltas m = [0, 0, 0] \<and> vm_vision_start m = 151652 \<and> vm_image m = 151655 \<and> vm_merge m = vp_merge vp
     \<and> vm_emb m = Some 0 \<and> vm_mrope m = Some 1 \<and> vm_deepstack m = (if fam = Qwen3VL then Some 2 else None)
     \<and> (\<exists>sp e. pe_onInitialized (dv_tables dev) path sp (mkPromptEmbeds ''inputs_embeds'') = Inr e
        \<and> l_providers m =
            [PromptEmbeds e,
             MRoPEProvider (mkMRoPE (dv_libm dev) (section_of fam (gn_rope_scaling gc)) (gn_rope_theta gc)
               (if fam = Qwen25VL then BLOCK else STRIDE) ''position_ids_cos'' ''position_ids_sin'')]
            @ (if fam = Qwen3VL then [DeepstackProvider (mkDeepstack ''deepstack_visual_embeds_'' ''visual_pos_masks'')] else []))"

lemma wired_conversation:
  "conversation (wire_vlm lm fam v sec theta sms (mkVlm fam (buildSpecSkeleton gc) cfg)) =
     (0, [], 0, gn_eos gc, gn_bos gc, llm.more (wire_vlm lm fam v sec theta sms (mkVlm fam (buildSpecSkeleton gc) cfg)))"
  "\<not> m_initialized (wire_vlm lm fam v sec theta sms (mkVlm fam (buildSpecSkeleton gc) cfg))"
  "l_providers (wire_vlm lm fam v sec theta sms (mkVlm fam (buildSpecSkeleton gc) cfg))
     = [PromptEmbeds (mkPromptEmbeds ''inputs_embeds''), MRoPEProvider (mkMRoPE lm sec theta (if fam = Qwen25VL then BLOCK else STRIDE)
          ''position_ids_cos'' ''position_ids_sin'')]
       @ (if fam = Qwen3VL then [DeepstackProvider (mkDeepstack ''deepstack_visual_embeds_'' ''visual_pos_masks'')] else [])"
  "llm.more (wire_vlm lm fam v sec theta sms (mkVlm fam (buildSpecSkeleton gc) cfg)) =
     \<lparr> vm_family = fam, vm_emb = Some 0, vm_mrope = Some 1, vm_deepstack = (if fam = Qwen3VL then Some 2 else None), vm_vit = v,
       vm_deltas = [0, 0, 0], vm_vision_start = 151652, vm_image = 151655, vm_merge = sms \<rparr>"
  by (simp_all add: conversation_def wire_vlm_def mkVlm_def setVisionTokenIds_def setDeepstackProvider_def setMRoPEProvider_def
      setEmbeddingProvider_def push_provider_def mkLLM_def buildSpecSkeleton_def llm.defs Let_def)

lemma more_vlm_fields:
  assumes "llm.more m = \<lparr> vm_family = fam, vm_emb = e, vm_mrope = r, vm_deepstack = d, vm_vit = v, vm_deltas = ds,
       vm_vision_start = vs, vm_image = im, vm_merge = sms \<rparr>"
  shows "vm_family m = fam" "vm_emb m = e" "vm_mrope m = r" "vm_deepstack m = d" "vm_deltas m = ds" "vm_vision_start m = vs"
    "vm_image m = im" "vm_merge m = sms"
  using assms by (cases m, simp)+

lemma vlm_made:
  assumes "vlm_makeModel fam dev fs rc vc = Inr (Some m)"
  shows "\<exists>dir md gc vp. bundleDirOf (vc_llm vc) = Inr dir \<and> parseQAIRTMetadata fs dir = Inr md \<and> parseGenieConfig fs dir = Inr gc
    \<and> md_vision md = Some vp \<and> fresh_vlm dev (mf_embedding (vc_llm vc)) fam gc vp m"
proof -
  obtain dir md gc vp v where g: "bundleDirOf (vc_llm vc) = Inr dir" "parseQAIRTMetadata fs dir = Inr md" "parseGenieConfig fs dir = Inr gc"
    "md_vision md = Some vp" and made: "created (initialize_model dev fs rc (vc_llm vc) (llm_onInitialized (vlm_env dev (vc_llm vc)) (dv_decode dev)))
        (wire_vlm (dv_libm dev) fam v (section_of fam (gn_rope_scaling gc)) (gn_rope_theta gc) (vp_merge vp)
          (mkVlm fam (buildSpecSkeleton gc) (defaultGenConfig (dv_seed dev)))) = Inr (Some m)"
    using assms by (auto simp: vlm_makeModel_def caught_Some Let_def split: option.splits prod.splits sum.splits bool.splits elim!: rbind_InrE)
  let ?m0 = "wire_vlm (dv_libm dev) fam v (section_of fam (gn_rope_scaling gc)) (gn_rope_theta gc) (vp_merge vp)
      (mkVlm fam (buildSpecSkeleton gc) (defaultGenConfig (dv_seed dev)))"
  have run: "initialize_model dev fs rc (vc_llm vc) (llm_onInitialized (vlm_env dev (vc_llm vc)) (dv_decode dev)) ?m0 = (Inr True, m)"
    using made by (auto simp: created_def split: prod.splits sum.splits if_splits)
  from initialize_run [OF run wired_conversation(2), of "\<lambda>st. (conversation st, l_providers st)"] obtain m1 m2 where
    i: "conversation m1 = conversation ?m0" "l_providers m1 = l_providers ?m0"
      "llm_onInitialized (vlm_env dev (vc_llm vc)) (dv_decode dev) m1 = (Inr True, m2)" "m = m2\<lparr> m_initialized := True \<rparr>"
    by (auto simp: conversation_def)
  have c: "conversation m2 = conversation ?m0" "sp_context_lengths (l_spec m2) \<noteq> []"
    using steps_inD [OF bring_up_conversation [OF createInputProviders_same] i(3) [unfolded llm_onInitialized_def]]
      bring_up_context_lengths [OF i(3) [unfolded llm_onInitialized_def] createInputProviders_same] i(1) by simp_all
  have "l_providers m1 \<noteq> []" by (simp add: i(2) wired_conversation(3))
  from bring_up_providers [OF i(3) this] obtain sp where
    "list_all2 (\<lambda>p q. e_init_provider (vlm_env dev (vc_llm vc)) sp p = Inr q) (l_providers ?m0) (l_providers m2)" using i(2) by auto
  then obtain e where "pe_onInitialized (dv_tables dev) (mf_embedding (vc_llm vc)) sp (mkPromptEmbeds ''inputs_embeds'') = Inr e"
      "l_providers m2 = [PromptEmbeds e, MRoPEProvider (mkMRoPE (dv_libm dev) (section_of fam (gn_rope_scaling gc))
      (gn_rope_theta gc) (if fam = Qwen25VL then BLOCK else STRIDE) ''position_ids_cos'' ''position_ids_sin'')]
      @ (if fam = Qwen3VL then [DeepstackProvider (mkDeepstack ''deepstack_visual_embeds_'' ''visual_pos_masks'')] else [])"
    by (auto simp: wired_conversation(3) list_all2_Cons1 vlm_env_def vlm_provider_onInitialized_def split: if_splits elim!: rbind_InrE)
  moreover have "llm.more m2 = llm.more ?m0" "l_n_past m2 = 0" "l_history m2 = []" "sp_eos_token_ids (l_spec m2) = gn_eos gc"
    using c(1) unfolding wired_conversation(1) by (simp_all add: conversation_def)
  ultimately have "fresh_vlm dev (mf_embedding (vc_llm vc)) fam gc vp m"
    using c(2) more_vlm_fields [of m2, OF trans [OF _ wired_conversation(4)]]
    by (auto simp: fresh_vlm_def i(4))
  then show ?thesis using g by blast
qed

text \<open>C23: a vision-language pipeline that dispatch returns is of the family whose prefix its
  model id has, and is well-formed: the list of providers is the embedding, the rotary and for
  Qwen3-VL the deepstack provider, each at the index the model looks for it, with the sections
  and interleaving of the family, and the conversation is empty\<close>

theorem dispatched_vlm:
  assumes "makeVLMPipeline dev fs make_processor rc vc = Inr (Some (env, pl))"
  shows "\<exists>model_id fam dir md gc vp m proc tok. modelIdOf fs (vc_llm vc) = Inr model_id \<and> (\<exists>r. model_id = vlm_prefix fam @ r)
    \<and> bundleDirOf (vc_llm vc) = Inr dir \<and> parseQAIRTMetadata fs dir = Inr md \<and> parseGenieConfig fs dir = Inr gc \<and> md_vision md = Some vp
    \<and> make_processor (mf_tokenizer (vc_llm vc)) (processor_config_of fam vp) = Some (proc, tok)
    \<and> pl_ready pl \<and> pl_model pl = Some m \<and> fresh_vlm dev (mf_embedding (vc_llm vc)) fam gc vp m \<and> vq_processor pl = Some proc \<and> pl_tokenizer pl = Some tok
    \<and> pl_bos pl = (if fam = Qwen25VL then gn_bos gc else - 1)"
proof -
  obtain model_id fam where r: "modelIdOf fs (vc_llm vc) = Inr model_id" "vlm_route model_id = Some fam"
    "vlm_makePipeline fam dev fs make_processor rc vc = Inr (Some (env, pl))"
    using assms by (auto simp: makeVLMPipeline_def split: if_splits option.splits elim!: rbind_InrE)
  then obtain m where m: "vlm_makeModel fam dev fs rc vc = Inr (Some m)" by (auto simp: vlm_makePipeline_def split: option.splits elim!: rbind_InrE)
  from vlm_made [OF m] obtain dir md gc vp where g: "bundleDirOf (vc_llm vc) = Inr dir" "parseQAIRTMetadata fs dir = Inr md"
    "parseGenieConfig fs dir = Inr gc" "md_vision md = Some vp" "fresh_vlm dev (mf_embedding (vc_llm vc)) fam gc vp m" by blast
  show ?thesis using r m g vlm_route_table [OF r(2)]
    by (auto simp: vlm_makePipeline_def created_def vlm_create_def sx_simps sthen_run setBosTokenId_def emptyPipeline_def pipeline.defs
        split: option.splits if_splits prod.splits elim!: rbind_InrE)
qed


section \<open>A concrete bundle\<close>

text \<open>One shard of two graphs without cache tensors, which takes embeddings and gives two logits.\<close>

definition tiny_name :: "nat \<Rightarrow> string" where
  "tiny_name ar = graph_name [] \<lparr> pg_ar = ar, pg_cl = 4, pg_shard = 1, pg_total = 1 \<rparr>"

definition tiny_tensor :: "string \<Rightarrow> qnn_tensor" where
  "tiny_tensor n = \<lparr> qt_name = n, qt_dtype = FLOAT_32, qt_type = 0, qt_dims = [1, 2, 2], qt_quant = OtherEncoding, qt_dynamic = None \<rparr>"

definition tiny_info :: "nat \<Rightarrow> graph_info" where
  "tiny_info ar = \<lparr> gi_name = tiny_name ar, gi_inputs = [tiny_tensor ''inputs_embeds''], gi_outputs = [tiny_tensor ''logits''] \<rparr>"

definition tiny_loaded :: "loaded_graph list" where
  "tiny_loaded = [(tiny_info 3, (\<lambda>_. Some 0), (\<lambda>_. Some 0)), (tiny_info 2, (\<lambda>_. Some 0), (\<lambda>_. Some 0))]"

definition tiny_graph :: "nat \<Rightarrow> graph" where
  "tiny_graph ar = snd (graph_setup (\<lambda>_. Some 0) (\<lambda>_. Some 0) (mkGraph (Some (tiny_info ar))))"

definition tiny_spec :: tensor_spec where "tiny_spec = makeSpec (tiny_tensor ''inputs_embeds'')"
definition tiny_out :: tensor_spec where "tiny_out = makeSpec (tiny_tensor ''logits'')"

lemma tiny_setup: "graph_setup (\<lambda>_. Some 0) (\<lambda>_. Some 0) (mkGraph (Some (tiny_info ar))) = (Inr True, tiny_graph ar)"
proof -
  have "fst (graph_setup (\<lambda>_. Some 0) (\<lambda>_. Some 0) (mkGraph (Some (tiny_info ar)))) = Inr True"
    by (simp add: graph_setup_def sx_simps sthen_run supd_run mkGraph_def tiny_info_def setup_input_def setup_output_def tensorByteSize_def
        dtypeBytes_def tiny_tensor_def Let_def)
  then show ?thesis by (simp add: tiny_graph_def prod_eq_iff)
qed

lemma tiny_graph_fields:
  "g_name (tiny_graph ar) = tiny_name ar" "g_in_specs (tiny_graph ar) = [tiny_spec]" "g_out_specs (tiny_graph ar) = [tiny_out]"
  "hasInput (tiny_graph ar) ''position_ids_cos'' = False"
  by (simp_all add: tiny_graph_def graph_setup_def sx_simps sthen_run supd_run mkGraph_def tiny_info_def setup_input_def setup_output_def
      tensorByteSize_def dtypeBytes_def tiny_tensor_def buildSpecs_def tiny_spec_def tiny_out_def Let_def hasInput_def makeSpec_def)

lemma tiny_parsed:
  "parseGraphName (tiny_name 3) = Some \<lparr> pg_ar = 3, pg_cl = 4, pg_shard = 1, pg_total = 1 \<rparr>"
  "parseGraphName (tiny_name 2) = Some \<lparr> pg_ar = 2, pg_cl = 4, pg_shard = 1, pg_total = 1 \<rparr>"
  unfolding tiny_name_def by (subst graph_name_parsed; simp)+

lemma tiny_special: "isSpecialTensor ''inputs_embeds'' = False" "isSpecialTensor ''logits'' = False" "isKVTensor ''logits'' = False"
  "match_pattern ''past_key_{}_out'' ''logits'' = None"
  by code_simp+

lemma tiny_spec_fields: "ts_name tiny_spec = ''inputs_embeds''" "ts_shape tiny_spec = [1, 2, 2]" "ts_dtype tiny_spec = FLOAT_32"
  "ts_name tiny_out = ''logits''" "ts_shape tiny_out = [1, 2, 2]"
  by (simp_all add: tiny_spec_def tiny_out_def makeSpec_def tiny_tensor_def)

lemma tiny_scan: "scan_names [tiny_name 3, tiny_name 2]
   = Some [\<lparr> pg_ar = 3, pg_cl = 4, pg_shard = 1, pg_total = 1 \<rparr>, \<lparr> pg_ar = 2, pg_cl = 4, pg_shard = 1, pg_total = 1 \<rparr>]"
  by (simp add: scan_names_def tiny_parsed)

text \<open>The spec after bring-up.\<close>

definition tiny_done :: "llm_spec \<Rightarrow> llm_spec" where
  "tiny_done sp = sp\<lparr> sp_shards := [\<lparr> sh_in_state = ''inputs_embeds'', sh_out_state = ''logits'', sh_lm_head_only = False \<rparr>],
     sp_state_blocks := [makeKVStateBlock\<lparr> sb_shard_pairs := [[]] \<rparr>], sp_hidden_size := 2, sp_vocab_size := 2,
     sp_seq_len_prefill := 3, sp_seq_len_decode := 2, sp_context_lengths := [4] \<rparr>"

lemma init_providers_total:
  assumes "\<forall>p \<in> set (l_providers st). \<exists>q. e_init_provider env (l_spec st) p = Inr q"
  shows "\<exists>ps. init_providers env st = (Inr (), st\<lparr> l_providers := ps \<rparr>)"
proof -
  let ?I = "\<lambda>k s. \<exists>ps. s = st\<lparr> l_providers := ps \<rparr> \<and> length ps = length (l_providers st) \<and> (\<forall>i. k \<le> i \<longrightarrow> ps ! i = l_providers st ! i)"
  have "\<exists>s'. sfor (init_provider_at env) [0..<length (l_providers st)] st = (Inr (), s') \<and> ?I (length [0..<length (l_providers st)]) s'"
  proof (rule sfor_total)
    show "?I 0 st" by (intro exI [of _ "l_providers st"]) simp
    fix k s assume k: "k < length [0..<length (l_providers st)]" and "?I k s"
    then obtain ps where ps: "s = st\<lparr> l_providers := ps \<rparr>" "length ps = length (l_providers st)" "\<forall>i. k \<le> i \<longrightarrow> ps ! i = l_providers st ! i" by blast
    obtain q where "e_init_provider env (l_spec st) (l_providers st ! k) = Inr q" using assms k by (metis diff_zero length_upt nth_mem)
    then show "\<exists>s'. init_provider_at env ([0..<length (l_providers st)] ! k) s = (Inr (), s') \<and> ?I (Suc k) s'"
      using ps k by (intro exI [of _ "s\<lparr> l_providers := ps[k := q] \<rparr>"]) (auto simp: init_provider_at_def supd_run)
  qed
  then show ?thesis by (auto simp: init_providers_def init_provider_at_def [abs_def] sx_simps)
qed

lemma tiny_bring_up:
  fixes st :: "('p, 'a) llm_scheme"
  assumes "m_graphs st = [tiny_graph 3, tiny_graph 2]" "l_spec st = buildSpecSkeleton gc" "l_active_cl st = 0"
    and "e_embedding_provider env ''inputs_embeds'' = Inr dflt \<or> l_providers st \<noteq> []"
    and "\<And>sp p. p = dflt \<or> p \<in> set (l_providers st) \<Longrightarrow> \<exists>q. e_init_provider env sp p = Inr q"
  shows "\<exists>st'. llm_onInitialized env dc st = (Inr True, st') \<and> l_spec st' = tiny_done (buildSpecSkeleton gc)
     \<and> l_kv_block st' = 0 \<and> l_active_cl st' = 0"
proof -
  define st1 where "st1 = sort_graphs (discover_variants [\<lparr> pg_ar = 3, pg_cl = 4, pg_shard = 1, pg_total = 1 \<rparr>, \<lparr> pg_ar = 2, pg_cl = 4, pg_shard = 1, pg_total = 1 \<rparr>] st)"
  have 1: "l_spec st1 = (buildSpecSkeleton gc)\<lparr> sp_context_lengths := [4], sp_seq_len_prefill := 3, sp_seq_len_decode := 2 \<rparr>"
    "l_num_cl st1 = 1" "l_shard_count st1 = 1" "m_graphs st1 = [tiny_graph 3, tiny_graph 2]" "l_active_cl st1 = 0" "l_providers st1 = l_providers st"
    by (simp_all add: st1_def sort_graphs_def discover_variants_def Let_def assms sort_key_def sortKey_def tiny_graph_fields tiny_parsed
        less_eq_prod_def to_i32_id)
  obtain p ps where ps: "[\<lparr> pg_ar = 3, pg_cl = 4, pg_shard = 1, pg_total = 1 \<rparr>, \<lparr> pg_ar = 2, pg_cl = 4, pg_shard = 1, pg_total = 1 \<rparr>] = p # ps" by blast
  have st1: "sort_graphs (discover_variants (p # ps) st) = st1" by (simp only: st1_def ps)
  have scan: "scan_names [tiny_name 3, tiny_name 2] = Some (p # ps)" using tiny_scan unfolding ps .
  define st2 where "st2 = resolve_kv_block (st1\<lparr> l_spec := tiny_done (buildSpecSkeleton gc) \<rparr>)"
  have infer: "inferSpecFromGraphs st1 = Inr (tiny_done (buildSpecSkeleton gc))"
    by (simp add: inferSpecFromGraphs_def Let_def 1 infer_shard_def graph_at_def at_vec_def graphIndex_def tiny_graph_fields infer_input_def
        infer_output_def infer_hidden_def hiddenDimOf_def tiny_spec_fields tiny_special isIntegerDtype_def infer_blocks_def discoverKVPairs_def
        buildSpecSkeleton_def defaultSpec_def tiny_done_def makeKVStateBlock_def)
  define qs where "qs = (if l_providers st = [] then [dflt] else l_providers st)"
  have 2: "createInputProviders env st2 = (Inr (), st2\<lparr> l_providers := qs \<rparr>)"
    using assms(4)
    by (auto simp: createInputProviders_def sx_simps swhen_run sbind_run sthen_run st2_def resolve_kv_block_def 1 tiny_done_def idx_vec_def
        add_provider_def find_rope_def graph_at_def at_vec_def graphIndex_def tiny_graph_fields push_provider_def qs_def)
  define st3 where "st3 = buildConnections (st2\<lparr> l_providers := qs \<rparr>)"
  have 3: "l_spec st3 = tiny_done (buildSpecSkeleton gc)" "l_providers st3 = qs" "l_kv_block st3 = 0"
    "l_shard_count st3 = 1" "l_num_cl st3 = 1" "m_graphs st3 = [tiny_graph 3, tiny_graph 2]" "l_active_cl st3 = 0"
    by (simp_all add: st3_def buildConnections_def resolve_kv_block_def st2_def 1 tiny_done_def makeKVStateBlock_def)
  have "\<forall>p \<in> set (l_providers st3). \<exists>q. e_init_provider env (l_spec st3) p = Inr q"
    using assms(5) by (auto simp: 3 qs_def)
  then obtain qs' where prov: "init_providers env st3 = (Inr (), st3\<lparr> l_providers := qs' \<rparr>)" using init_providers_total by blast
  define st4 where "st4 = st3\<lparr> l_providers := qs' \<rparr>"
  have 4: "l_spec st4 = tiny_done (buildSpecSkeleton gc)" "l_kv_block st4 = 0"
    "l_shard_count st4 = 1" "l_num_cl st4 = 1" "m_graphs st4 = [tiny_graph 3, tiny_graph 2]" "l_active_cl st4 = 0"
    by (simp_all add: st4_def 3)
  have names: "buildKVInputNames st4 = Inr {}"
    by (simp add: buildKVInputNames_def requireKVStateBlock_def 4 tiny_done_def idx_vec_def)
  have kv: "initKVBuffers st4 = (Inr (), st4)"
    by (simp add: initKVBuffers_def sx_simps sbind_run sthen_run names 4 upt_rec graph_at_def at_vec_def tiny_graph_fields supd_run init_kv_tensor_def)
  have "llm_onInitialized env dc st = (Inr True, start_decode_pool dc st4)"
    by (simp add: llm_onInitialized_def llm_bring_up_def sx_simps assms(1) tiny_graph_fields scan sthen_run st1 supd_run
        infer st2_def [symmetric] 2 st3_def [symmetric] prov st4_def [symmetric] kv)
  then show ?thesis using 4 by (simp add: start_decode_pool_def Let_def)
qed

text \<open>The bundle: its metadata names the graph, and it has no \<open>genie_config.json\<close>.\<close>

definition tiny_metadata :: "string \<Rightarrow> json" where
  "tiny_metadata model_id = JObject [(''model_files'', JObject [(tiny_name 3, JObject [])]), (''model_id'', JString model_id),
     (''vision_preprocessing'', JObject [])]"

definition tiny_files :: "string \<Rightarrow> bundle_files" where
  "tiny_files model_id = \<lparr> bf_exists = (\<lambda>p. p = ''/g/htp-files''),
     bf_json = (\<lambda>p. if p = ''/b/metadata.json'' then Some (Some (tiny_metadata model_id)) else None), bf_names = (\<lambda>_. []) \<rparr>"

definition tiny_device :: device where
  "tiny_device = \<lparr> dv_core_dir = ''/g'', dv_load = (\<lambda>_ _ _. Some (tiny_loaded, (\<lambda>_. replicate 16 0))), dv_exec = (\<lambda>_ m. (True, m)),
     dv_sample = (\<lambda>_ _. 0), dv_grammar_ok = (\<lambda>_ _. True), dv_libm = demo_libm, dv_sort = (\<lambda>_ _ xs. xs), dv_tables = \<lparr> fs_raw = (\<lambda>_. None), fs_npy = (\<lambda>_. Inl OutOfRange) \<rparr>,
     dv_prefix = (\<lambda>_. None), dv_decode = \<lparr> dc_workers = 0, dc_cpu_mask = 0, dc_poll = False, dc_env_workers = None, dc_env_cpu_mask = None,
       dc_env_poll = None, dc_env_clock = None \<rparr>, dv_seed = 0 \<rparr>"

definition tiny_config :: model_config where
  "tiny_config = emptyModelConfig\<lparr> mf_paths := [''/b/1.bin''] \<rparr>"

definition tiny_runtime :: runtime_config where
  "tiny_runtime = \<lparr> rt_backend = None, rt_system = None, rt_extensions = None \<rparr>"

lemma tiny_dir: "bundleDirOf tiny_config = Inr ''/b''"
  by (simp add: bundleDirOf_def tiny_config_def emptyModelConfig_def parent_path_def Let_def)

lemma tiny_genie: "parseGenieConfig (tiny_files model_id) ''/b'' = Inr defaultGenieConfig"
  by (simp add: parseGenieConfig_def from_genie_config_def tiny_files_def path_join_def)

lemma tiny_scanned:
  "scan_entry (tiny_name 3, e) \<lparr> sc_total = 0, sc_vision = [], sc_entry = (\<lambda>_. None) \<rparr>
     = Inr \<lparr> sc_total = 1, sc_vision = [], sc_entry = [1 \<mapsto> e] \<rparr>"
  using graph_names_iff [of "tiny_name 3" "\<lparr> pg_ar = 3, pg_cl = 4, pg_shard = 1, pg_total = 1 \<rparr>"] tiny_parsed(1)
  by (simp add: scan_entry_def)

lemma tiny_meta:
  "\<exists>md. parseQAIRTMetadata (tiny_files model_id) ''/b'' = Inr md \<and> md_model_id md = model_id \<and> md_hidden_size md = 0
     \<and> md_vision md = Some \<lparr> vp_width = 0, vp_height = 0, vp_patch = 0, vp_temporal = 0, vp_merge = 0, vp_mean = [], vp_std = [] \<rparr>"
proof -
  have j: "loadJson (tiny_files model_id) (path_join ''/b'' ''metadata.json'') = Inr (tiny_metadata model_id)"
    by (simp add: loadJson_def tiny_files_def path_join_def)
  have w: "readShardWiring (JObject []) = Inr noWiring" by (simp add: readShardWiring_def members_at_def object_at_def members_def)
  have o: "object_at (tiny_metadata model_id) ''model_files'' = Some (JObject [(tiny_name 3, JObject [])])"
    "members (JObject [(tiny_name 3, JObject [])]) = [(tiny_name 3, JObject [])]"
    "value_or get_string (tiny_metadata model_id) ''model_id'' [] = Inr model_id"
    "vision_object (tiny_metadata model_id) = Some (JObject [])"
    by (simp_all add: object_at_def members_def is_object_def tiny_metadata_def value_or_def get_string_def vision_object_def)
  have v: "parseVisionPreprocessing (JObject []) = Inr \<lparr> vp_width = 0, vp_height = 0, vp_patch = 0, vp_temporal = 0, vp_merge = 0, vp_mean = [], vp_std = [] \<rparr>"
    by (simp add: parseVisionPreprocessing_def value_or_def is_object_def members_def floats_at_def)
  show ?thesis
    by (simp add: parseQAIRTMetadata_def j o v tiny_scanned resize_shards_def absorb_shard_def w absorb_hyperparams_def noWiring_def Let_def)
qed

lemma tiny_model_id: "modelIdOf (tiny_files model_id) tiny_config = Inr model_id"
  using tiny_meta [of model_id] by (auto simp: modelIdOf_def tiny_dir)

lemma tiny_initialized:
  fixes md :: "'a model_scheme"
  assumes "\<not> m_initialized md" "m_graphs md = []"
    and "on_init (md\<lparr> m_mem := (\<lambda>_. replicate 16 0), m_graphs := [tiny_graph 3, tiny_graph 2] \<rparr>) = (Inr True, md')"
  shows "initialize_model tiny_device (tiny_files model_id) tiny_runtime mc on_init md = (Inr True, md'\<lparr> m_initialized := True \<rparr>)"
proof -
  have "resolveHtpPaths (dv_core_dir tiny_device) (bf_exists (tiny_files model_id)) tiny_runtime
      = Inr \<lparr> rt_backend = Some ''/g/htp-files/libQnnHtp.so'', rt_system = Some ''/g/htp-files/libQnnSystem.so'',
          rt_extensions = Some ''/g/htp-files/libQnnHtpNetRunExtensions.so'' \<rparr>"
    by (simp add: resolveHtpPaths_def tiny_device_def tiny_files_def tiny_runtime_def path_join_def opt_or_def)
  moreover have "add_graphs tiny_loaded (md\<lparr> m_mem := (\<lambda>_. replicate 16 0) \<rparr>)
      = (Inr True, md\<lparr> m_mem := (\<lambda>_. replicate 16 0), m_graphs := [tiny_graph 3, tiny_graph 2] \<rparr>)"
    by (simp add: tiny_loaded_def sbind_run add_graph_def tiny_setup sx_simps assms(2))
  moreover have "dv_load tiny_device rc ps h = Some (tiny_loaded, (\<lambda>_. replicate 16 0))" for rc ps h by (simp add: tiny_device_def)
  ultimately show ?thesis
    by (simp add: initialize_model_def sx_simps assms(1) sbind_run sthen_run model_initialize_def assms(3))
qed

lemma tiny_created:
  assumes "init model = (Inr True, m)"
  shows "\<exists>pl. created (createImpl init (\<lambda>_ _. Some demo_tokenizer) model tiny_config) emptyPipeline = Inr (Some pl) \<and> pl_model pl = Some m"
proof -
  have "resolveTokenizerConfigPath tiny_config = Inr ''/b/tokenizer_config.json''"
    by (simp add: resolveTokenizerConfigPath_def tiny_dir path_join_def tiny_config_def emptyModelConfig_def bundleDirOf_def parent_path_def)
  then show ?thesis by (simp add: created_def createImpl_def assms sx_simps sbind_run sthen_run demo_tokenizer_def)
qed

text \<open>The providers a plain model of this bundle makes and starts.\<close>

lemma tiny_providers:
  "e_embedding_provider (llm_env tiny_device tiny_config gc) ''inputs_embeds'' = Inr (EmbeddingProvider (mkEmbedding ''inputs_embeds''))"
  "\<exists>q. e_init_provider (llm_env tiny_device tiny_config gc) sp (EmbeddingProvider e) = Inr q"
  by (simp_all add: llm_env_def makeEmbeddingProvider_def provider_onInitialized_def emb_onInitialized_def tiny_config_def emptyModelConfig_def)

lemma tiny_llm_bring_up:
  fixes st :: "(provider, 'a) llm_scheme"
  assumes "m_graphs st = [tiny_graph 3, tiny_graph 2]" "l_spec st = buildSpecSkeleton gc" "l_active_cl st = 0" "l_providers st = []"
  shows "\<exists>st'. llm_onInitialized (llm_env tiny_device tiny_config gc) dc st = (Inr True, st') \<and> l_spec st' = tiny_done (buildSpecSkeleton gc)
     \<and> l_kv_block st' = 0 \<and> l_active_cl st' = 0"
  by (rule tiny_bring_up [OF assms(1-3), where dflt = "EmbeddingProvider (mkEmbedding ''inputs_embeds'')"])
    (use tiny_providers assms(4) in auto)

lemma tiny_seed: "dv_seed tiny_device = 0"
  by (simp add: tiny_device_def)

lemma tiny_llm_made:
  "\<exists>env pl. llm_makePipeline Llama3 tiny_device (tiny_files model_id) (\<lambda>_ _. Some demo_tokenizer) tiny_runtime tiny_config = Inr (Some (env, pl))"
proof -
  let ?m = "mkLLM (buildSpecSkeleton defaultGenieConfig) (defaultGenConfig 0) :: provider llm"
  let ?m1 = "?m\<lparr> m_mem := (\<lambda>_. replicate 16 0), m_graphs := [tiny_graph 3, tiny_graph 2] \<rparr>"
  let ?on = "llm_onInitialized (llm_env tiny_device tiny_config defaultGenieConfig) (dv_decode tiny_device) :: (provider llm, bool) sx"
  let ?init = "initialize_model tiny_device (tiny_files model_id) tiny_runtime tiny_config ?on"
  have m1: "m_graphs ?m1 = [tiny_graph 3, tiny_graph 2]" "l_spec ?m1 = buildSpecSkeleton defaultGenieConfig" "l_active_cl ?m1 = 0" "l_providers ?m1 = []"
    by (simp_all add: mkLLM_def)
  obtain m2 where "?on ?m1 = (Inr True, m2)"
    using tiny_llm_bring_up [OF m1] by blast
  from tiny_initialized [where md = ?m and on_init = ?on, OF _ _ this]
  have "?init ?m = (Inr True, m2\<lparr> m_initialized := True \<rparr>)" by (simp add: mkLLM_def)
  from tiny_created [where init = ?init and model = ?m, OF this] obtain pl where
    "created (createImpl ?init (\<lambda>_ _. Some demo_tokenizer) ?m tiny_config) emptyPipeline = Inr (Some pl)" by blast
  then show ?thesis by (simp add: llm_makePipeline_def llm_makeModel_def tiny_dir tiny_genie tiny_seed Let_def caught_def)
qed

lemma dispatched_pipeline_witness:
  "\<exists>env pl m. makeLLMPipeline tiny_device (tiny_files ''llama_v3_8b'') (\<lambda>_ _. Some demo_tokenizer) tiny_runtime tiny_config
      = Inr (Some (MadeLLM Llama3 env pl)) \<and> pl_model pl = Some m \<and> l_n_past m = 0 \<and> sp_context_lengths (l_spec m) \<noteq> []"
proof -
  have "llm_route ''llama_v3_8b'' = Some Llama3" by code_simp
  then obtain env pl where r: "makeLLMPipeline tiny_device (tiny_files ''llama_v3_8b'') (\<lambda>_ _. Some demo_tokenizer) tiny_runtime tiny_config
      = Inr (Some (MadeLLM Llama3 env pl))"
    using tiny_llm_made [of "''llama_v3_8b''"] by (auto simp: makeLLMPipeline_def tiny_model_id)
  from dispatched_pipeline [OF r] r show ?thesis by (auto simp: fresh_llm_def)
qed

lemma tiny_ssd_started:
  fixes st :: "provider ssd"
  assumes "m_graphs st = [tiny_graph 3, tiny_graph 2]" "l_spec st = buildSpecSkeleton gc" "l_active_cl st = 0" "l_providers st = []"
    and "sc_prefix_path (d_cfg st) = []"
  shows "\<exists>st'. ssd_onInitialized (llm_env tiny_device tiny_config gc) lib dc st = (Inr True, st')"
proof -
  obtain st1 where 1: "llm_onInitialized (llm_env tiny_device tiny_config gc) dc st = (Inr True, st1)"
    "l_spec st1 = tiny_done (buildSpecSkeleton gc)" "l_kv_block st1 = 0" "l_active_cl st1 = 0"
    using tiny_llm_bring_up [OF assms(1-4)] by blast
  have "conversation st1 = conversation st"
    using steps_inD [OF bring_up_conversation [OF createInputProviders_same] 1(1) [unfolded llm_onInitialized_def]] .
  then have "d_cfg st1 = d_cfg st" by (cases st, cases st1, simp add: conversation_def)
  moreover have "kv_tensors_of (st1\<lparr> d_rope := f \<rparr>) = Inr []" for f
    by (simp add: kv_tensors_of_def 1 tiny_done_def idx_vec_def)
  ultimately show ?thesis
    using assms(5) by (simp add: ssd_onInitialized_def sbind_run sthen_run sx_simps 1(1) supd_run swhen_run)
qed

lemma dispatched_ssd_witness:
  "\<exists>pl m. makeLLMPipeline tiny_device (tiny_files ''llama_v3_2_3b_ssd'') (\<lambda>_ _. Some demo_tokenizer) tiny_runtime tiny_config
      = Inr (Some (MadeSSD pl)) \<and> pl_model pl = Some m \<and> l_n_past m = 16 \<and> l_history m = []"
proof -
  let ?id = "''llama_v3_2_3b_ssd''"
  let ?m = "mkSSD (buildSpecSkeleton defaultGenieConfig) (defaultGenConfig 0) (makeSSDConfig [] (gn_rope_theta defaultGenieConfig)) :: provider ssd"
  let ?lib = "\<lparr> sl_libm = dv_libm tiny_device, sl_sort = dv_sort tiny_device, sl_prefix_file = dv_prefix tiny_device [] \<rparr>"
  let ?m1 = "?m\<lparr> m_mem := (\<lambda>_. replicate 16 0), m_graphs := [tiny_graph 3, tiny_graph 2] \<rparr>"
  let ?on = "ssd_onInitialized (llm_env tiny_device tiny_config defaultGenieConfig) ?lib (dv_decode tiny_device)"
  let ?init = "initialize_model tiny_device (tiny_files ?id) tiny_runtime tiny_config ?on"
  have m1: "m_graphs ?m1 = [tiny_graph 3, tiny_graph 2]" "l_spec ?m1 = buildSpecSkeleton defaultGenieConfig" "l_active_cl ?m1 = 0" "l_providers ?m1 = []"
    "sc_prefix_path (d_cfg ?m1) = []" "d_cfg ?m = makeSSDConfig [] (gn_rope_theta defaultGenieConfig)"
    "sc_prefix_path (makeSSDConfig [] (gn_rope_theta defaultGenieConfig)) = []"
    by (simp_all add: mkSSD_def mkLLM_def llm.defs makeSSDConfig_def)
  obtain m2 where "?on ?m1 = (Inr True, m2)" using tiny_ssd_started [OF m1(1-5)] by blast
  from tiny_initialized [where md = ?m and on_init = ?on, OF _ _ this]
  have "?init ?m = (Inr True, m2\<lparr> m_initialized := True \<rparr>)" by (simp add: mkSSD_def mkLLM_def llm.defs)
  from tiny_created [where init = ?init and model = ?m, OF this] obtain pl where
    made: "created (createImpl ?init (\<lambda>_ _. Some demo_tokenizer) ?m tiny_config) emptyPipeline = Inr (Some pl)" by blast
  have auto: "autoDiscoverForecastPrefix (tiny_files ?id) tiny_config = tiny_config" "opt_or (mf_forecast_prefix tiny_config) [] = []"
    by (simp_all add: autoDiscoverForecastPrefix_def tiny_dir tiny_files_def path_join_def Let_def tiny_config_def emptyModelConfig_def
        bundleDirOf_def parent_path_def opt_or_def)
  have "llm_route ?id = Some Llama3SSD" by code_simp
  then have r: "makeLLMPipeline tiny_device (tiny_files ?id) (\<lambda>_ _. Some demo_tokenizer) tiny_runtime tiny_config = Inr (Some (MadeSSD pl))"
    using made by (simp add: makeLLMPipeline_def tiny_model_id auto ssd_makePipeline_def ssd_makeModel_def tiny_dir tiny_genie tiny_seed m1 Let_def caught_def)
  have "modelIdOf (tiny_files ?id) tiny_config = Inr (''llama_v3_2_3b'' @ ''_ssd'')" by (simp add: tiny_model_id)
  from dispatched_ssd [OF r this] r show ?thesis by (auto simp: fresh_ssd_def)
qed

definition tiny_vlm_config :: vlm_config where
  "tiny_vlm_config = \<lparr> vc_llm = tiny_config, vc_vision = tiny_config \<rparr>"

lemma dispatched_vlm_witness:
  "\<exists>env pl m. makeVLMPipeline tiny_device (tiny_files ''qwen2_5_vl_7b'') (\<lambda>_ _. Some (demo_processor, demo_tokenizer)) tiny_runtime tiny_vlm_config
      = Inr (Some (env, pl)) \<and> pl_model pl = Some m \<and> vm_emb m = Some 0 \<and> vm_mrope m = Some 1 \<and> vm_deltas m = [0, 0, 0]"
proof -
  let ?id = "''qwen2_5_vl_7b''" and ?vc = tiny_vlm_config
  let ?vp = "\<lparr> vp_width = 0, vp_height = 0, vp_patch = 0, vp_temporal = 0, vp_merge = 0, vp_mean = [], vp_std = [] \<rparr> :: vision_preprocessing"
  obtain md where md: "parseQAIRTMetadata (tiny_files ?id) ''/b'' = Inr md" "md_model_id md = ?id" "md_hidden_size md = 0" "md_vision md = Some ?vp"
    using tiny_meta by blast
  have v: "apply_preprocessing ?vp 0 (mkVit []) = Inr (mkVit [])" by (simp add: apply_preprocessing_def count_of_def setPreprocessing_def mkVit_def)
  have "initialize_model tiny_device (tiny_files ?id) tiny_runtime tiny_config (sret True) (mkVit [])
      = (Inr True, (mkVit [] \<lparr> m_mem := (\<lambda>_. replicate 16 0), m_graphs := [tiny_graph 3, tiny_graph 2] \<rparr>)\<lparr> m_initialized := True \<rparr>)"
    by (rule tiny_initialized) (simp_all add: mkVit_def sx_simps)
  then obtain v1 where v1: "vit_initialize Qwen25VL tiny_device (tiny_files ?id) tiny_runtime tiny_config (mkVit []) = (Inr True, v1)"
    by (simp add: vit_initialize_def sbind_run sx_simps)
  let ?m = "wire_vlm demo_libm Qwen25VL v1 [16, 24, 24] f_ten_thousand 0 (mkVlm Qwen25VL (buildSpecSkeleton defaultGenieConfig) (defaultGenConfig 0))"
  let ?m1 = "?m\<lparr> m_mem := (\<lambda>_. replicate 16 0), m_graphs := [tiny_graph 3, tiny_graph 2] \<rparr>"
  let ?on = "llm_onInitialized (vlm_env tiny_device tiny_config) (dv_decode tiny_device)"
  have "l_spec ?m = buildSpecSkeleton defaultGenieConfig" "m_graphs ?m = []"
    by (simp_all add: wire_vlm_def mkVlm_def setVisionTokenIds_def setMRoPEProvider_def setEmbeddingProvider_def push_provider_def mkLLM_def llm.defs Let_def)
  moreover have "l_active_cl ?m = 0" using wired_conversation(1) by (simp add: conversation_def)
  ultimately have m1: "m_graphs ?m1 = [tiny_graph 3, tiny_graph 2]" "l_spec ?m1 = buildSpecSkeleton defaultGenieConfig" "l_active_cl ?m1 = 0" "m_graphs ?m = []"
    by simp_all
  have "\<exists>q. e_init_provider (vlm_env tiny_device tiny_config) sp p = Inr q" for sp p
    by (cases p) (simp_all add: vlm_env_def vlm_provider_onInitialized_def pe_onInitialized_def tiny_config_def emptyModelConfig_def)
  then obtain m2 where "?on ?m1 = (Inr True, m2)"
    using tiny_bring_up [OF m1(1-3), of "vlm_env tiny_device tiny_config" undefined "dv_decode tiny_device"] by (auto simp: wired_conversation(3))
  from tiny_initialized [where md = ?m and on_init = ?on, OF wired_conversation(2) m1(4) this]
  have made: "initialize_model tiny_device (tiny_files ?id) tiny_runtime tiny_config ?on ?m = (Inr True, m2\<lparr> m_initialized := True \<rparr>)" .
  have lm: "dv_libm tiny_device = demo_libm" by (simp add: tiny_device_def)
  have sec: "section_of Qwen25VL (gn_rope_scaling defaultGenieConfig) = [16, 24, 24]" "gn_rope_theta defaultGenieConfig = f_ten_thousand"
    by (simp_all add: section_of_def family_section_def defaultGenieConfig_def)
  have "vlm_makeModel Qwen25VL tiny_device (tiny_files ?id) tiny_runtime ?vc = Inr (Some (m2\<lparr> m_initialized := True \<rparr>))"
    by (simp add: vlm_makeModel_def tiny_vlm_config_def tiny_dir tiny_genie md v v1 lm sec tiny_seed Let_def created_def made caught_def)
  moreover have "vlm_route ?id = Some Qwen25VL" by code_simp
  ultimately obtain env pl where r: "makeVLMPipeline tiny_device (tiny_files ?id) (\<lambda>_ _. Some (demo_processor, demo_tokenizer)) tiny_runtime ?vc = Inr (Some (env, pl))"
    by (simp add: makeVLMPipeline_def vlm_makePipeline_def tiny_vlm_config_def tiny_model_id tiny_dir tiny_genie md created_def vlm_create_def sx_simps sthen_run)
  from dispatched_vlm [OF r] r show ?thesis by (auto simp: fresh_vlm_def)
qed

end
