(* ===== verification/AutoLLM.thy ===== *)
theory AutoLLM
  imports DispatchFacts
begin

text \<open>
  The pipeline without families of \<open>examples/auto_llm/auto_llm.h\<close>: it is told nothing about the
  model but its bundle. The class repeats the streaming of \<open>LLMPipeline\<close> with a tokenizer
  that adds no special tokens, and its factory repeats those of the families; both are here as
  they are written there and proved equivalent.
\<close>

section \<open>The pipeline\<close>

text \<open>\<open>encode\<close> with \<open>add_special_tokens = false\<close>, and a chat template that may throw.\<close>

record 'q auto_tokenizer = "'q tokenizer" +
  tk_encode_plain :: "string \<Rightarrow> int list"
  tk_render :: "'q \<Rightarrow> string res"

record ('m, 'q) auto_pipeline =
  ap_model :: "'m option"
  ap_tokenizer :: "'q auto_tokenizer option"
  ap_ready :: bool

definition emptyAuto :: "('m, 'q) auto_pipeline" where
  "emptyAuto = \<lparr> ap_model = None, ap_tokenizer = None, ap_ready = False \<rparr>"

text \<open>\<open>create\<close> catches whatever any of its steps throws.\<close>

definition auto_create :: "('m, bool) sx \<Rightarrow> (string \<Rightarrow> string \<Rightarrow> 'q auto_tokenizer option) \<Rightarrow> 'm \<Rightarrow> model_config
    \<Rightarrow> string \<Rightarrow> (('m, 'q) auto_pipeline, bool) sx" where
  "auto_create initialize from_file model cfg tcp =
     (case initialize model of
        (Inl e, _) \<Rightarrow> if is_exception e then sthen (smod (\<lambda>_. emptyAuto)) (sret False) else sthrow e
      | (Inr False, _) \<Rightarrow> sthen (smod (\<lambda>ap. ap\<lparr> ap_model := None \<rparr>)) (sret False)
      | (Inr True, model') \<Rightarrow>
          let tok = from_file (mf_tokenizer cfg) tcp in
          sthen (smod (\<lambda>ap. ap\<lparr> ap_model := Some model', ap_tokenizer := tok \<rparr>))
            (case tok of
               None \<Rightarrow> sthen (smod (\<lambda>ap. ap\<lparr> ap_model := None \<rparr>)) (sret False)
             | Some t \<Rightarrow>
                 if \<not> tk_has_template t
                 then sthen (smod (\<lambda>ap. ap\<lparr> ap_tokenizer := None, ap_model := None \<rparr>)) (sret False)
                 else sthen (smod (\<lambda>ap. ap\<lparr> ap_ready := True \<rparr>)) (sret True)))"

definition auto_isReady :: "('m, 'q) auto_pipeline \<Rightarrow> bool" where
  "auto_isReady ap \<longleftrightarrow> ap_ready ap \<and> ap_model ap \<noteq> None \<and> ap_tokenizer ap \<noteq> None"

definition auto_reset :: "('m, unit) sx \<Rightarrow> (('m, 'q) auto_pipeline, unit) sx" where
  "auto_reset reset = (\<lambda>ap. case ap_model ap of None \<Rightarrow> (Inr (), ap)
     | Some m \<Rightarrow> (case reset m of (r, m') \<Rightarrow> (r, ap\<lparr> ap_model := Some m' \<rparr>)))"

definition auto_nPast :: "(('p, 'a) llm_scheme, 'q) auto_pipeline \<Rightarrow> nat" where
  "auto_nPast ap = (case ap_model ap of None \<Rightarrow> 0 | Some m \<Rightarrow> l_n_past m)"

definition auto_applyChatTemplate :: "'q \<Rightarrow> ('m, 'q) auto_pipeline \<Rightarrow> string res" where
  "auto_applyChatTemplate q ap =
     (case ap_tokenizer ap of None \<Rightarrow> Inl UndefinedBehaviour | Some t \<Rightarrow> tk_render t q)"

definition auto_on_each_token :: "(int \<Rightarrow> string) \<Rightarrow> (string list \<Rightarrow> bool) option \<Rightarrow> stream callback" where
  "auto_on_each_token decode on_token tok s =
     (let piece = decode tok;
          s = s\<lparr> sg_text := sg_text s @ piece, sg_count := Suc (sg_count s) \<rparr>
      in if on_token \<noteq> None \<and> piece \<noteq> []
         then let s = s\<lparr> sg_pieces := sg_pieces s @ [c_str piece] \<rparr>
              in if the on_token (sg_pieces s) then (\<not> sg_stopped s, s) else (False, s\<lparr> sg_stopped := True \<rparr>)
         else (\<not> sg_stopped s, s))"

definition auto_finalize :: "string \<Rightarrow> nat \<Rightarrow> string \<Rightarrow> gen_result \<Rightarrow> gen_result" where
  "auto_finalize txt generated reason res =
     (let ended_on_eos = (reason = ''eos'')
      in res\<lparr> gr_text := txt, gr_generated := (if ended_on_eos then Suc generated else generated), gr_stop := reason \<rparr>)"

definition auto_generate :: "'p env \<Rightarrow> gen_config \<Rightarrow> (string list \<Rightarrow> bool) option \<Rightarrow> string
    \<Rightarrow> ((('p, 'a) llm_scheme, 'q) auto_pipeline, gen_result) sx" where
  "auto_generate env cfg on_token prompt = (\<lambda>ap.
     if \<not> auto_isReady ap then (Inr (emptyResult\<lparr> gr_stop := ''error'' \<rparr>), ap)
     else
       let t = the (ap_tokenizer ap); ids = tk_encode_plain t prompt; res = emptyResult\<lparr> gr_prompt := length ids \<rparr>
       in case generate_cb env (cfg\<lparr> gc_has_tokenizer := True \<rparr>) (auto_on_each_token (tk_decode t) on_token) ids
                 (the (ap_model ap), emptyStream) of
            (r, (m', s)) \<Rightarrow>
              ((case r of
                  Inr out \<Rightarrow> Inr (auto_finalize (sg_text s) (length out)
                    (if sg_stopped s then ''user''
                     else if gc_max_tokens cfg \<le> int (length out) then ''length'' else ''eos'') res)
                | Inl ContextLengthExceeded \<Rightarrow> Inr (auto_finalize (sg_text s) (sg_count s) ''context_length'' res)
                | Inl e \<Rightarrow> Inl e),
               ap\<lparr> ap_model := Some m' \<rparr>))"

definition auto_generateChat :: "'p env \<Rightarrow> gen_config \<Rightarrow> (string list \<Rightarrow> bool) option \<Rightarrow> 'q
    \<Rightarrow> ((('p, 'a) llm_scheme, 'q) auto_pipeline, gen_result) sx" where
  "auto_generateChat env cfg on_token q = (\<lambda>ap.
     if \<not> auto_isReady ap then (Inr (emptyResult\<lparr> gr_stop := ''error'' \<rparr>), ap)
     else case auto_applyChatTemplate q ap of
         Inl e \<Rightarrow> if is_exception e then (Inr (emptyResult\<lparr> gr_stop := ''error'' \<rparr>), ap) else (Inl e, ap)
       | Inr prompt \<Rightarrow> auto_generate env cfg on_token prompt ap)"

section \<open>The factory\<close>

text \<open>
  \<open>LLMModel(buildSpecSkeleton(gc), std::move(gc))\<close>: both parameters are values, and C++ does not
  say which is initialised first. When the second is, the first reads what the move left: the
  list of end tokens is empty, the other field it reads is a number and keeps its value.
\<close>

definition moved_from :: "genie_config \<Rightarrow> genie_config" where
  "moved_from gc = gc\<lparr> gn_eos := [] \<rparr>"

definition auto_makeModel :: "bool \<Rightarrow> device \<Rightarrow> bundle_files \<Rightarrow> model_config \<Rightarrow> (genie_config \<times> provider llm) res" where
  "auto_makeModel spec_first dev fs mc =
     rbind (rbind (bundleDirOf mc) (parseGenieConfig fs)) (\<lambda>gc.
       Inr (gc, mkLLM (buildSpecSkeleton (if spec_first then gc else moved_from gc)) (defaultGenConfig (dv_seed dev))))"

text \<open>The path \<open>makePipeline\<close> takes for the tokenizer's configuration.\<close>

definition auto_path :: "model_config \<Rightarrow> string \<Rightarrow> string res" where
  "auto_path mc tcp = (if tcp = [] then rbind (bundleDirOf mc) (\<lambda>dir. Inr (path_join dir ''tokenizer_config.json'')) else Inr tcp)"

definition auto_makePipeline :: "bool \<Rightarrow> device \<Rightarrow> bundle_files \<Rightarrow> (string \<Rightarrow> string \<Rightarrow> 'q auto_tokenizer option)
    \<Rightarrow> runtime_config \<Rightarrow> model_config \<Rightarrow> string \<Rightarrow> (provider env \<times> (provider llm, 'q) auto_pipeline) option res" where
  "auto_makePipeline spec_first dev fs from_file rc mc tcp =
     caught (rbind (auto_path mc tcp) (\<lambda>path.
       rbind (auto_makeModel spec_first dev fs mc) (\<lambda>(gc, model).
         let env = llm_env dev mc gc in
         case auto_create (initialize_model dev fs rc mc (llm_onInitialized env (dv_decode dev))) from_file model mc path emptyAuto of
           (Inl e, _) \<Rightarrow> Inl e
         | (Inr ok, ap) \<Rightarrow> Inr (if ok then Some (env, ap) else None))))"

section \<open>The same pipeline\<close>

text \<open>A text pipeline whose tokenizer adds no special tokens and that has no beginning token.\<close>

definition as_tokenizer :: "'q auto_tokenizer \<Rightarrow> 'q tokenizer" where
  "as_tokenizer t = (tokenizer.truncate t)\<lparr> tk_encode := tk_encode_plain t \<rparr>"

definition as_pipeline :: "('m, 'q) auto_pipeline \<Rightarrow> ('m, 'q) pipeline" where
  "as_pipeline ap = \<lparr> pl_model = ap_model ap, pl_tokenizer = map_option as_tokenizer (ap_tokenizer ap),
     pl_ready = ap_ready ap, pl_bos = -1 \<rparr>"

lemma as_tokenizer_simps [simp]:
  "tk_encode (as_tokenizer t) = tk_encode_plain t" "tk_decode (as_tokenizer t) = tk_decode t"
  "tk_has_template (as_tokenizer t) = tk_has_template t" "tk_template (as_tokenizer t) = tk_template t"
  by (simp_all add: as_tokenizer_def tokenizer.truncate_def)

lemma as_pipeline_simps [simp]:
  "pl_model (as_pipeline ap) = ap_model ap" "pl_tokenizer (as_pipeline ap) = map_option as_tokenizer (ap_tokenizer ap)"
  "pl_ready (as_pipeline ap) = ap_ready ap" "pl_bos (as_pipeline ap) = -1"
  "as_pipeline emptyAuto = emptyPipeline"
  "as_pipeline (ap\<lparr> ap_model := m \<rparr>) = (as_pipeline ap)\<lparr> pl_model := m \<rparr>"
  by (simp_all add: as_pipeline_def emptyAuto_def emptyPipeline_def)

text \<open>What \<open>create\<close> leaves: a pipeline that is ready has a tokenizer.\<close>

definition auto_wf :: "('m, 'q) auto_pipeline \<Rightarrow> bool" where
  "auto_wf ap \<longleftrightarrow> (ap_ready ap \<longrightarrow> ap_model ap \<noteq> None \<and> ap_tokenizer ap \<noteq> None)"

lemma auto_token: "auto_on_each_token d f = on_each_token d f"
  by (rule ext)+ (auto simp: auto_on_each_token_def on_each_token_def Let_def split: option.splits)

lemma auto_finalize_eq: "auto_finalize t n r res = finalize_generate_result t n r res"
  by (simp add: auto_finalize_def finalize_generate_result_def)

lemma auto_create_wf:
  assumes "auto_wf ap" "\<not> ap_ready ap"
  shows "auto_wf (snd (auto_create ini from_file model cfg tcp ap))"
  using assms by (auto simp: auto_create_def auto_wf_def emptyAuto_def Let_def sx_simps sthen_run split: prod.splits sum.splits bool.splits option.splits)

lemma auto_generate_pipe:
  assumes "auto_wf ap"
  shows "map_prod id as_pipeline (auto_generate env cfg on_token prompt ap) = generate_text env cfg on_token prompt (as_pipeline ap)"
proof (cases "auto_isReady ap")
  case False
  then show ?thesis using assms
    by (auto simp: auto_generate_def generate_text_def swith_def sx_simps auto_isReady_def auto_wf_def split: option.splits)
next
  case True
  then obtain m t where mt: "ap_model ap = Some m" "ap_tokenizer ap = Some t" "ap_ready ap"
    by (auto simp: auto_isReady_def)
  obtain r m' s where run: "generate_cb env (cfg\<lparr> gc_has_tokenizer := True \<rparr>) (on_each_token (tk_decode t) on_token)
     (tk_encode_plain t prompt) (m, emptyStream) = (r, (m', s))"
    by (metis prod.collapse)
  show ?thesis using True mt run
    by (simp add: auto_generate_def generate_text_def generateTokens_def swith_def with_model_def with_bos_def stream_generate_def
        finish_generation_def auto_token auto_finalize_eq Let_def split: sum.splits err.splits)
qed

definition plain_files :: "(string \<Rightarrow> string \<Rightarrow> 'q auto_tokenizer option) \<Rightarrow> string \<Rightarrow> string \<Rightarrow> 'q tokenizer option" where
  "plain_files from_file = (\<lambda>path cfg. map_option as_tokenizer (from_file path cfg))"

lemma auto_path_resolved: "auto_path mc (opt_or (mf_tokenizer_config mc) []) = resolveTokenizerConfigPath mc"
  by (auto simp: auto_path_def resolveTokenizerConfigPath_def opt_or_def split: option.splits list.splits)

lemma bundleDir_exception: "bundleDirOf mc = Inl e \<Longrightarrow> is_exception e"
  by (auto simp: bundleDirOf_def is_exception_def split: list.splits)

lemma path_dir: "auto_path mc tcp = Inl e \<Longrightarrow> bundleDirOf mc = Inl e"
  by (auto simp: auto_path_def rbind_def split: if_splits sum.splits)

lemma auto_create_created:
  assumes "resolveTokenizerConfigPath mc = Inr path"
  shows "caught (rbind (created (createImpl ini (plain_files from_file) model mc) emptyPipeline) (\<lambda>made. Inr (map_option (\<lambda>pl. (env, pl)) made)))
    = rbind (caught (case auto_create ini from_file model mc path emptyAuto of (Inl e, _) \<Rightarrow> Inl e
         | (Inr ok, ap) \<Rightarrow> Inr (if ok then Some (env, ap) else None)))
       (\<lambda>made. Inr (map_option (\<lambda>(env, ap). (env, as_pipeline ap)) made))"
proof -
  obtain r m' where r: "ini model = (r, m')" by (cases "ini model")
  consider (err) e where "r = Inl e" | (no) "r = Inr False" | (yes) "r = Inr True" by (cases r) auto
  then show ?thesis
  proof cases
    case (err e)
    then show ?thesis using r
      by (auto simp: createImpl_def auto_create_def created_def caught_def sx_simps sthen_run)
  next
    case no
    then show ?thesis using r
      by (auto simp: createImpl_def auto_create_def created_def caught_def sx_simps sthen_run)
  next
    case yes
    then show ?thesis using r assms
      by (auto simp: createImpl_def auto_create_def created_def caught_def plain_files_def sx_simps sthen_run sbind_run Let_def
          emptyPipeline_def as_pipeline_def emptyAuto_def split: option.splits)
  qed
qed

lemma auto_factory_pipe:
  "llm_makePipeline Llama3 dev fs (plain_files from_file) rc mc
    = rbind (auto_makePipeline True dev fs from_file rc mc (opt_or (mf_tokenizer_config mc) []))
       (\<lambda>made. Inr (map_option (\<lambda>(env, ap). (env, as_pipeline ap)) made))"
proof (cases "resolveTokenizerConfigPath mc")
  case (Inl e)
  then have "bundleDirOf mc = Inl e" using path_dir auto_path_resolved by metis
  then show ?thesis using bundleDir_exception [of mc e]
    by (simp add: llm_makePipeline_def llm_makeModel_def auto_makePipeline_def auto_makeModel_def caught_def
        Inl auto_path_resolved)
next
  case (Inr path)
  show ?thesis
  proof (cases "llm_makeModel dev fs mc")
    case (Inl e)
    moreover have "auto_makeModel True dev fs mc = Inl e"
      using Inl by (simp add: auto_makeModel_def llm_makeModel_def rbind_def split: sum.splits)
    ultimately show ?thesis using Inr
      by (auto simp: llm_makePipeline_def auto_makePipeline_def caught_def auto_path_resolved)
  next
    case m: (Inr gm)
    obtain gc model where gm: "gm = (gc, model)" by (cases gm)
    moreover have "auto_makeModel True dev fs mc = Inr gm"
      using m by (auto simp: auto_makeModel_def llm_makeModel_def rbind_def split: sum.splits)
    ultimately show ?thesis using Inr m auto_create_created [OF Inr]
      by (simp add: llm_makePipeline_def auto_makePipeline_def auto_path_resolved Let_def cong: option.map_cong)
  qed
qed

section \<open>The model that is made\<close>

lemma auto_made:
  assumes "auto_makePipeline spec_first dev fs from_file rc mc tcp = Inr (Some (env, ap))"
  shows "\<exists>dir gc m. bundleDirOf mc = Inr dir \<and> parseGenieConfig fs dir = Inr gc \<and> env = llm_env dev mc gc
    \<and> auto_isReady ap \<and> ap_model ap = Some m \<and> m_initialized m \<and> l_n_past m = 0 \<and> l_history m = []
    \<and> sp_eos_token_ids (l_spec m) = (if spec_first then gn_eos gc else []) \<and> sp_bos_token_id (l_spec m) = gn_bos gc"
proof -
  obtain path dir gc where g: "bundleDirOf mc = Inr dir" "parseGenieConfig fs dir = Inr gc" "env = llm_env dev mc gc"
    "auto_create (initialize_model dev fs rc mc (llm_onInitialized env (dv_decode dev))) from_file
       (mkLLM (buildSpecSkeleton (if spec_first then gc else moved_from gc)) (defaultGenConfig (dv_seed dev))) mc path emptyAuto = (Inr True, ap)"
    using assms by (auto simp: auto_makePipeline_def caught_Some auto_makeModel_def Let_def split: prod.splits sum.splits if_splits elim!: rbind_InrE)
  let ?m0 = "mkLLM (buildSpecSkeleton (if spec_first then gc else moved_from gc)) (defaultGenConfig (dv_seed dev)) :: provider llm"
  obtain m where c: "initialize_model dev fs rc mc (llm_onInitialized env (dv_decode dev)) ?m0 = (Inr True, m)"
    "ap_model ap = Some m" "auto_isReady ap"
    using g(4) by (auto simp: auto_create_def emptyAuto_def auto_isReady_def sx_simps sthen_run Let_def
        split: prod.splits sum.splits bool.splits option.splits if_splits)
  have "\<not> m_initialized ?m0" by (simp add: mkLLM_def)
  from initialize_run [OF c(1) this, of conversation] obtain m1 m2 where
    i: "conversation m1 = conversation ?m0" "llm_onInitialized env (dv_decode dev) m1 = (Inr True, m2)" "m = m2\<lparr> m_initialized := True \<rparr>"
    by (auto simp: conversation_def)
  have "conversation m2 = conversation ?m0"
    using steps_inD [OF bring_up_conversation [OF createInputProviders_same] i(2) [unfolded llm_onInitialized_def]] i(1) by simp
  then have "m_initialized m \<and> l_n_past m = 0 \<and> l_history m = []
    \<and> sp_eos_token_ids (l_spec m) = (if spec_first then gn_eos gc else []) \<and> sp_bos_token_id (l_spec m) = gn_bos gc"
    by (simp add: i(3) conversation_def mkLLM_def buildSpecSkeleton_def moved_from_def)
  then show ?thesis using c g by blast
qed

section \<open>A bundle with end tokens\<close>

definition eos_files :: bundle_files where
  "eos_files = one_file ''/b/genie_config.json'' (JObject [(''dialog'', dialog_document demo_genie)])"

definition given_runtime :: runtime_config where
  "given_runtime = \<lparr> rt_backend = Some ''libQnnHtp.so'', rt_system = Some ''libQnnSystem.so'', rt_extensions = Some ''libQnnHtpNetRunExtensions.so'' \<rparr>"

definition demo_auto_tokenizer :: "unit auto_tokenizer" where
  "demo_auto_tokenizer = \<lparr> tk_encode = (\<lambda>_. [0, 1]), tk_decode = (\<lambda>_. ''a''), tk_has_template = True, tk_template = (\<lambda>_. []),
     tk_encode_plain = (\<lambda>_. [1, 0, 1]), tk_render = (\<lambda>_. Inr ''p'') \<rparr>"

lemma eos_genie: "parseGenieConfig eos_files ''/b'' = Inr demo_genie"
  using read_dialog_document [OF demo_genie_ok]
  by (simp add: parseGenieConfig_def from_genie_config_def Let_def filled_in_def loadJson_def sbind_run sx_simps eos_files_def one_file_def
      path_join_def with_object_def object_at_def members_def is_object_def dialog_document_def)

lemma given_initialized:
  fixes md :: "'a model_scheme"
  assumes "\<not> m_initialized md" "m_graphs md = []"
    and "on_init (md\<lparr> m_mem := (\<lambda>_. replicate 16 0), m_graphs := [tiny_graph 3, tiny_graph 2] \<rparr>) = (Inr True, md')"
  shows "initialize_model tiny_device fs given_runtime mc on_init md = (Inr True, md'\<lparr> m_initialized := True \<rparr>)"
proof -
  have "resolveHtpPaths (dv_core_dir tiny_device) (bf_exists fs) given_runtime = Inr given_runtime"
    by (simp add: resolveHtpPaths_def given_runtime_def)
  moreover have "add_graphs tiny_loaded (md\<lparr> m_mem := (\<lambda>_. replicate 16 0) \<rparr>)
      = (Inr True, md\<lparr> m_mem := (\<lambda>_. replicate 16 0), m_graphs := [tiny_graph 3, tiny_graph 2] \<rparr>)"
    by (simp add: tiny_loaded_def sbind_run add_graph_def tiny_setup sx_simps assms(2))
  moreover have "dv_load tiny_device rc ps h = Some (tiny_loaded, (\<lambda>_. replicate 16 0))" for rc ps h by (simp add: tiny_device_def)
  ultimately show ?thesis
    by (simp add: initialize_model_def sx_simps assms(1) sbind_run sthen_run model_initialize_def assms(3))
qed

lemma eos_auto_made:
  "\<exists>env ap. auto_makePipeline spec_first tiny_device eos_files (\<lambda>_ _. Some demo_auto_tokenizer) given_runtime tiny_config [] = Inr (Some (env, ap))"
proof -
  let ?gc = "if spec_first then demo_genie else moved_from demo_genie"
  let ?m = "mkLLM (buildSpecSkeleton ?gc) (defaultGenConfig 0) :: provider llm"
  let ?m1 = "?m\<lparr> m_mem := (\<lambda>_. replicate 16 0), m_graphs := [tiny_graph 3, tiny_graph 2] \<rparr>"
  let ?on = "llm_onInitialized (llm_env tiny_device tiny_config demo_genie) (dv_decode tiny_device) :: (provider llm, bool) sx"
  have m1: "m_graphs ?m1 = [tiny_graph 3, tiny_graph 2]" "l_spec ?m1 = buildSpecSkeleton ?gc" "l_active_cl ?m1 = 0" "l_providers ?m1 = []"
    by (simp_all add: mkLLM_def)
  have "\<exists>st'. ?on ?m1 = (Inr True, st') \<and> l_spec st' = tiny_done (buildSpecSkeleton ?gc) \<and> l_kv_block st' = 0 \<and> l_active_cl st' = 0"
    by (rule tiny_bring_up [OF m1(1-3), where dflt = "EmbeddingProvider (mkEmbedding ''inputs_embeds'')"])
      (use tiny_providers m1(4) in auto)
  then obtain m2 where "?on ?m1 = (Inr True, m2)" by blast
  from given_initialized [where md = ?m and on_init = ?on, OF _ _ this]
  have i: "initialize_model tiny_device eos_files given_runtime tiny_config ?on ?m = (Inr True, m2\<lparr> m_initialized := True \<rparr>)"
    by (simp add: mkLLM_def)
  have "tk_has_template demo_auto_tokenizer" by (simp add: demo_auto_tokenizer_def demo_tokenizer_def)
  then show ?thesis
    by (simp add: auto_makePipeline_def auto_makeModel_def auto_path_def tiny_dir eos_genie tiny_seed Let_def caught_def auto_create_def i sx_simps sthen_run)
qed

definition demo_auto :: "(unit llm, unit) auto_pipeline" where
  "demo_auto = \<lparr> ap_model = Some (demo_at None 0 []), ap_tokenizer = Some demo_auto_tokenizer, ap_ready = True \<rparr>"

lemma demo_auto_text:
  "fst (generate_text demo_env (demo_cfg 2) None ''p'' (as_pipeline demo_auto))
     = fst (generate_text demo_env (demo_cfg 2) None ''p'' (demo_pipeline (demo_at None 0 [])))"
proof -
  have a: "pl_model (as_pipeline demo_auto) = Some (demo_at None 0 [])" "pl_ready (as_pipeline demo_auto)"
    "pl_tokenizer (as_pipeline demo_auto) = Some (as_tokenizer demo_auto_tokenizer)"
    by (simp_all add: demo_auto_def)
  have i: "[1, 0, 1] = with_bos (pl_bos (as_pipeline demo_auto)) (l_n_past (demo_at None 0 [])) (tk_encode (as_tokenizer demo_auto_tokenizer) ''p'')"
    by (simp add: with_bos_def demo_auto_tokenizer_def)
  have d: "[1, 0, 1] = with_bos (pl_bos (demo_pipeline (demo_at None 0 []))) (l_n_past (demo_at None 0 [])) (tk_encode demo_tokenizer ''p'')"
    by (simp add: demo_pipeline_fields demo_bos)
  have "tk_decode (as_tokenizer demo_auto_tokenizer) = tk_decode demo_tokenizer"
    by (simp add: demo_auto_tokenizer_def demo_tokenizer_def)
  then show ?thesis
    unfolding generate_text_run [OF a i] generate_text_run [OF demo_pipeline_fields(1-3) d] by (simp add: split_beta)
qed

section \<open>The properties\<close>

theorem auto_factory:
  "llm_makePipeline Llama3 dev fs (plain_files from_file) rc mc
    = rbind (auto_makePipeline True dev fs from_file rc mc (opt_or (mf_tokenizer_config mc) []))
       (\<lambda>made. Inr (map_option (\<lambda>(env, ap). (env, as_pipeline ap)) made))"
  by (rule auto_factory_pipe)

text \<open>C35: a run of the pipeline without families is a run of the text pipeline whose tokenizer
  adds no special tokens and which puts no beginning token in front: the same result, reason
  and counts, and the same model afterwards\<close>

theorem auto_generate_same:
  assumes "auto_wf ap"
  shows "map_prod id as_pipeline (auto_generate env cfg on_token prompt ap) = generate_text env cfg on_token prompt (as_pipeline ap)"
  by (rule auto_generate_pipe [OF assms])

theorem auto_generate_same_witness:
  "\<exists>res. fst (auto_generate demo_env (demo_cfg 2) None ''p'' demo_auto) = Inr res \<and> gr_stop res = ''length''"
proof -
  have "auto_wf demo_auto" by (simp add: auto_wf_def demo_auto_def)
  from auto_generate_same [OF this, of demo_env "demo_cfg 2" None "''p''"]
  have "fst (auto_generate demo_env (demo_cfg 2) None ''p'' demo_auto) = fst (generate_text demo_env (demo_cfg 2) None ''p'' (as_pipeline demo_auto))"
    by (metis eq_id_iff fst_map_prod)
  then show ?thesis using demo_auto_text demo_text_run by (metis fst_conv)
qed

text \<open>C36: what the factory without families returns is ready and has an empty conversation; its
  model has the end tokens of the bundle if the specification is built before the
  configuration is moved, and none if C++ initialises the arguments in the other order\<close>

theorem auto_end_tokens:
  assumes "auto_makePipeline spec_first dev fs from_file rc mc tcp = Inr (Some (env, ap))"
  shows "\<exists>dir gc m. bundleDirOf mc = Inr dir \<and> parseGenieConfig fs dir = Inr gc \<and> env = llm_env dev mc gc
    \<and> auto_isReady ap \<and> ap_model ap = Some m \<and> m_initialized m \<and> l_n_past m = 0 \<and> l_history m = []
    \<and> sp_eos_token_ids (l_spec m) = (if spec_first then gn_eos gc else []) \<and> sp_bos_token_id (l_spec m) = gn_bos gc"
  by (rule auto_made [OF assms])

theorem auto_end_tokens_witness:
  "\<exists>env ap m. auto_makePipeline False tiny_device eos_files (\<lambda>_ _. Some demo_auto_tokenizer) given_runtime tiny_config [] = Inr (Some (env, ap))
     \<and> parseGenieConfig eos_files ''/b'' = Inr demo_genie \<and> gn_eos demo_genie = [128001, 128009]
     \<and> ap_model ap = Some m \<and> sp_eos_token_ids (l_spec m) = []"
proof -
  obtain env ap where r: "auto_makePipeline False tiny_device eos_files (\<lambda>_ _. Some demo_auto_tokenizer) given_runtime tiny_config [] = Inr (Some (env, ap))"
    using eos_auto_made by blast
  from auto_end_tokens [OF r] r show ?thesis by (auto simp: eos_genie demo_genie_def)
qed

end
