(* ===== verification/PoolWakeups.thy ===== *)
theory PoolWakeups
  imports ThreadPools
begin

text \<open>
  The condition variables of \<open>core/src/threadpool.cpp\<close>. To the pool of \<open>ThreadPools\<close> the state
  adds who is asleep on \<open>job_cv_\<close> and \<open>done_cv_\<close> and how far the client is inside a call, so that
  a notification sent too early, to nobody or not at all is a run of the model. Both \<open>enqueue\<close> and
  \<open>stop\<close> notify after their critical section, where the workers may already have moved. Waking
  without a notification is a step as well. The client is one thread, as the decode loop is.
\<close>

section \<open>State\<close>

text \<open>Where the client stands: in no call, before the notification of \<open>enqueue\<close> or \<open>stop\<close>, at the
  joins of \<open>stop\<close>, about to test the predicate of \<open>wait\<close>, or asleep in it.\<close>

datatype client_at = Ready | EnqueueNotify | StopNotify | Joining | WaitTest | WaitAsleep

record 's cv_pool =
  v_pool :: "'s pool"
  v_poll :: bool
  v_asleep :: "nat set"
  v_client :: client_at

definition new_cv_pool :: "'s \<Rightarrow> 's cv_pool" where
  "new_cv_pool s = \<lparr> v_pool = new_pool s, v_poll = False, v_asleep = {}, v_client = Ready \<rparr>"

section \<open>Notifications\<close>

text \<open>\<open>notify_one\<close> wakes one of the sleeping workers, any of them, and is lost when none sleeps.\<close>

inductive job_notify_one :: "nat set \<Rightarrow> nat set \<Rightarrow> bool" where
  wake: "i \<in> asleep \<Longrightarrow> job_notify_one asleep (asleep - {i})"
| lost: "job_notify_one {} {}"

definition job_notify_all :: "nat set \<Rightarrow> nat set" where
  "job_notify_all asleep = {}"

definition done_notify_all :: "client_at \<Rightarrow> client_at" where
  "done_notify_all c = (case c of WaitAsleep \<Rightarrow> WaitTest | _ \<Rightarrow> c)"

section \<open>Steps\<close>

text \<open>An idle worker sleeps when the predicate of its wait is false, unless the pool polls.\<close>

inductive worker_cv :: "'s cv_pool \<Rightarrow> 's cv_pool \<Rightarrow> bool" where
  take: "i < length (p_threads (v_pool v)) \<Longrightarrow> p_threads (v_pool v) ! i = AtQueue \<Longrightarrow> i \<notin> v_asleep v \<Longrightarrow>
    p_jobs (v_pool v) \<noteq> [] \<Longrightarrow> worker_cv v (v\<lparr> v_pool := worker_take i (v_pool v) \<rparr>)"
| return: "i < length (p_threads (v_pool v)) \<Longrightarrow> p_threads (v_pool v) ! i = AtQueue \<Longrightarrow> i \<notin> v_asleep v \<Longrightarrow>
    p_terminate (v_pool v) \<Longrightarrow> p_jobs (v_pool v) = [] \<Longrightarrow>
    worker_cv v (v\<lparr> v_pool := worker_return i (v_pool v) \<rparr>)"
| sleep: "i < length (p_threads (v_pool v)) \<Longrightarrow> p_threads (v_pool v) ! i = AtQueue \<Longrightarrow> i \<notin> v_asleep v \<Longrightarrow>
    \<not> v_poll v \<Longrightarrow> \<not> p_terminate (v_pool v) \<Longrightarrow> p_jobs (v_pool v) = [] \<Longrightarrow>
    worker_cv v (v\<lparr> v_asleep := insert i (v_asleep v) \<rparr>)"
| run: "i < length (p_threads (v_pool v)) \<Longrightarrow> p_threads (v_pool v) ! i = Holding j \<Longrightarrow>
    worker_cv v (v\<lparr> v_pool := worker_run i j (v_pool v) \<rparr>)"
| finish: "i < length (p_threads (v_pool v)) \<Longrightarrow> p_threads (v_pool v) ! i = Finished \<Longrightarrow>
    worker_cv v (v\<lparr> v_pool := worker_finish i (v_pool v),
      v_client := (if p_outstanding (worker_finish i (v_pool v)) = 0 then done_notify_all (v_client v)
                   else v_client v) \<rparr>)"

text \<open>The client inside a call.\<close>

inductive client_cv :: "'s cv_pool \<Rightarrow> 's cv_pool \<Rightarrow> bool" where
  enqueue_notify: "v_client v = EnqueueNotify \<Longrightarrow> job_notify_one (v_asleep v) awake \<Longrightarrow>
    client_cv v (v\<lparr> v_asleep := awake, v_client := Ready \<rparr>)"
| stop_notify: "v_client v = StopNotify \<Longrightarrow>
    client_cv v (v\<lparr> v_asleep := job_notify_all (v_asleep v), v_client := Joining \<rparr>)"
| stop_end: "v_client v = Joining \<Longrightarrow> \<forall>w \<in> set (p_threads (v_pool v)). w = Returned \<Longrightarrow>
    client_cv v (v\<lparr> v_pool := pool_stop_end (v_pool v), v_client := Ready \<rparr>)"
| wait_return: "v_client v = WaitTest \<Longrightarrow> pool_can_return (v_pool v) \<Longrightarrow>
    client_cv v (v\<lparr> v_pool := snd (pool_wait (v_pool v)), v_client := Ready \<rparr>)"
| wait_sleep: "v_client v = WaitTest \<Longrightarrow> \<not> pool_can_return (v_pool v) \<Longrightarrow>
    client_cv v (v\<lparr> v_client := WaitAsleep \<rparr>)"

inductive call_step :: "'s cv_pool \<Rightarrow> 's cv_pool \<Rightarrow> bool" where
  worker: "worker_cv v v' \<Longrightarrow> call_step v v'"
| client: "client_cv v v' \<Longrightarrow> call_step v v'"

text \<open>Everything that can happen: the client also enters calls, and a sleeper may wake on its own.\<close>

inductive cv_step :: "'s cv_pool \<Rightarrow> 's cv_pool \<Rightarrow> bool" where
  call: "call_step v v' \<Longrightarrow> cv_step v v'"
| start: "v_client v = Ready \<Longrightarrow>
    cv_step v (v\<lparr> v_pool := pool_start n (v_pool v),
      v_poll := (if p_threads (v_pool v) \<noteq> [] \<or> n = 0 then v_poll v else poll) \<rparr>)"
| enqueue: "v_client v = Ready \<Longrightarrow>
    cv_step v (v\<lparr> v_pool := pool_enqueue j (v_pool v), v_client := EnqueueNotify \<rparr>)"
| stop: "v_client v = Ready \<Longrightarrow>
    cv_step v (v\<lparr> v_pool := pool_stop_begin (v_pool v),
      v_client := (if p_threads (v_pool v) = [] then Ready else StopNotify) \<rparr>)"
| wait: "v_client v = Ready \<Longrightarrow> cv_step v (v\<lparr> v_client := WaitTest \<rparr>)"
| keeper_start: "v_client v = Ready \<Longrightarrow> cv_step v (v\<lparr> v_pool := startClockKeeper n (v_pool v) \<rparr>)"
| keeper_stop: "v_client v = Ready \<Longrightarrow> cv_step v (v\<lparr> v_pool := stopClockKeeper (v_pool v) \<rparr>)"
| spurious_worker: "cv_step v (v\<lparr> v_asleep := v_asleep v - {i} \<rparr>)"
| spurious_client: "v_client v = WaitAsleep \<Longrightarrow> cv_step v (v\<lparr> v_client := WaitTest \<rparr>)"

definition cv_reachable :: "'s \<Rightarrow> 's cv_pool \<Rightarrow> bool" where
  "cv_reachable s v \<longleftrightarrow> cv_step\<^sup>*\<^sup>* (new_cv_pool s) v"

inductive_cases worker_cvE: "worker_cv v v'"
inductive_cases client_cvE: "client_cv v v'"

section \<open>The pool underneath\<close>

text \<open>Forgetting who sleeps, every step is one of the pool or leaves it alone.\<close>

lemma worker_cv_pool: "worker_cv v v' \<Longrightarrow> v_pool v' = v_pool v \<or> worker_step (v_pool v) (v_pool v')"
  by (induction rule: worker_cv.induct) (auto intro: worker_step.intros)

lemma client_cv_pool:
  assumes "client_cv v v'" "v_client v = Joining \<longrightarrow> p_terminate (v_pool v)"
  shows "v_pool v' = v_pool v \<or> pool_step (v_pool v) (v_pool v')"
  using assms by (induction rule: client_cv.induct) (auto intro: pool_step.stop_end pool_step.wait)

definition asleep_ok :: "'s cv_pool \<Rightarrow> bool" where
  "asleep_ok v \<longleftrightarrow> (\<forall>i \<in> v_asleep v. i < length (p_threads (v_pool v)) \<and> p_threads (v_pool v) ! i = AtQueue)"

definition somebody_awake :: "'s cv_pool \<Rightarrow> bool" where
  "somebody_awake v \<longleftrightarrow> (\<exists>i < length (p_threads (v_pool v)). i \<notin> v_asleep v)"

text \<open>A queued job has an awake worker or a notification still to come, a sleeping client has
  something to wait for, and nobody sleeps through the shutdown.\<close>

definition cv_inv :: "'s cv_pool \<Rightarrow> bool" where
  "cv_inv v \<longleftrightarrow> pool_inv (v_pool v) \<and> asleep_ok v
     \<and> (p_jobs (v_pool v) = [] \<or> p_threads (v_pool v) = [] \<or> somebody_awake v \<or> v_client v = EnqueueNotify
        \<or> v_client v = StopNotify)
     \<and> (v_client v = WaitAsleep \<longrightarrow> p_outstanding (v_pool v) \<noteq> 0)
     \<and> (p_terminate (v_pool v) \<longleftrightarrow> v_client v \<in> {StopNotify, Joining})
     \<and> (v_client v = Joining \<longrightarrow> v_asleep v = {})"

lemma worker_moved:
  assumes "asleep_ok v" "i < length (p_threads (v_pool v))" "i \<notin> v_asleep v \<or> p_threads (v_pool v) ! i \<noteq> AtQueue"
    "p_threads (v_pool v') = (p_threads (v_pool v))[i := w]" "v_asleep v' = v_asleep v"
  shows "asleep_ok v' \<and> somebody_awake v'"
proof -
  have "i \<notin> v_asleep v" using assms(1,3) by (auto simp: asleep_ok_def)
  moreover from this have "i \<noteq> k" if "k \<in> v_asleep v" for k using that by auto
  ultimately show ?thesis using assms(1,2,4,5) by (auto simp: asleep_ok_def somebody_awake_def)
qed

lemma worker_threads [simp]:
  "p_threads (worker_take i p) = (p_threads p)[i := Holding (hd (p_jobs p))]"
  "p_threads (worker_return i p) = (p_threads p)[i := Returned]"
  "p_threads (worker_run i j p) = (p_threads p)[i := Finished]"
  "p_threads (worker_finish i p) = (p_threads p)[i := AtQueue]"
  by (simp_all add: worker_take_def worker_return_def worker_run_def worker_finish_def split: prod.splits)

lemma worker_fields [simp]:
  "p_terminate (worker_take i p) = p_terminate p" "p_terminate (worker_return i p) = p_terminate p"
  "p_terminate (worker_run i j p) = p_terminate p" "p_terminate (worker_finish i p) = p_terminate p"
  "p_outstanding (worker_take i p) = p_outstanding p" "p_outstanding (worker_return i p) = p_outstanding p"
  "p_outstanding (worker_run i j p) = p_outstanding p"
  "p_outstanding (worker_finish i p) = p_outstanding p - 1"
  "p_jobs (worker_take i p) = tl (p_jobs p)" "p_jobs (worker_return i p) = p_jobs p"
  "p_jobs (worker_run i j p) = p_jobs p" "p_jobs (worker_finish i p) = p_jobs p"
  by (simp_all add: worker_take_def worker_return_def worker_run_def worker_finish_def split: prod.splits)

lemma done_notify_all_simps [simp]:
  "done_notify_all c \<noteq> WaitAsleep" "done_notify_all c = Ready \<longleftrightarrow> c = Ready"
  "done_notify_all c = EnqueueNotify \<longleftrightarrow> c = EnqueueNotify" "done_notify_all c = StopNotify \<longleftrightarrow> c = StopNotify"
  "done_notify_all c = Joining \<longleftrightarrow> c = Joining"
  by (cases c; simp add: done_notify_all_def)+

lemma worker_cv_inv: "worker_cv v v' \<Longrightarrow> cv_inv v \<Longrightarrow> cv_inv v'"
proof (induction rule: worker_cv.induct)
  case (take i v)
  let ?v = "v\<lparr> v_pool := worker_take i (v_pool v) \<rparr>"
  have "asleep_ok ?v \<and> somebody_awake ?v"
    by (rule worker_moved [of v i]) (use take in \<open>simp_all add: cv_inv_def\<close>)
  moreover have "pool_inv (worker_take i (v_pool v))"
    using take by (meson cv_inv_def worker_step.take worker_step_inv)
  ultimately show ?case using take by (simp add: cv_inv_def)
next
  case (return i v)
  let ?v = "v\<lparr> v_pool := worker_return i (v_pool v) \<rparr>"
  have "asleep_ok ?v \<and> somebody_awake ?v"
    by (rule worker_moved [of v i]) (use return in \<open>simp_all add: cv_inv_def\<close>)
  moreover have "pool_inv (worker_return i (v_pool v))"
    using return by (meson cv_inv_def worker_step.return worker_step_inv)
  ultimately show ?case using return by (simp add: cv_inv_def)
next
  case (sleep i v)
  then show ?case by (auto simp: cv_inv_def asleep_ok_def)
next
  case (run i v j)
  let ?v = "v\<lparr> v_pool := worker_run i j (v_pool v) \<rparr>"
  have "asleep_ok ?v \<and> somebody_awake ?v"
    by (rule worker_moved [of v i]) (use run in \<open>simp_all add: cv_inv_def\<close>)
  moreover have "pool_inv (worker_run i j (v_pool v))"
    using run by (meson cv_inv_def worker_step.run worker_step_inv)
  ultimately show ?case using run by (simp add: cv_inv_def)
next
  case (finish i v)
  let ?v = "\<lambda>c. v\<lparr> v_pool := worker_finish i (v_pool v), v_client := c \<rparr>"
  have "asleep_ok (?v c) \<and> somebody_awake (?v c)" for c
    by (rule worker_moved [of v i]) (use finish in \<open>simp_all add: cv_inv_def\<close>)
  moreover have "pool_inv (worker_finish i (v_pool v))"
    using finish by (meson cv_inv_def worker_step.finish worker_step_inv)
  ultimately show ?case using finish by (simp add: cv_inv_def)
qed

lemma job_notify_one_wakes: "job_notify_one a b \<Longrightarrow> a \<noteq> {} \<Longrightarrow> \<exists>i \<in> a. b = a - {i}"
  by (auto elim: job_notify_one.cases)

lemma client_cv_inv: "client_cv v v' \<Longrightarrow> cv_inv v \<Longrightarrow> cv_inv v'"
proof (induction rule: client_cv.induct)
  case (enqueue_notify v awake)
  then show ?case
    by (cases "p_threads (v_pool v) = []")
      (auto simp: cv_inv_def asleep_ok_def somebody_awake_def elim!: job_notify_one.cases)
next
  case (stop_notify v)
  then show ?case by (auto simp: cv_inv_def asleep_ok_def somebody_awake_def job_notify_all_def)
next
  case (stop_end v)
  then have "pool_inv (pool_stop_end (v_pool v))" by (auto simp: cv_inv_def intro: pool_step_inv pool_step.stop_end)
  with stop_end show ?case by (auto simp: cv_inv_def asleep_ok_def pool_stop_end_def)
next
  case (wait_return v)
  then have "pool_inv (snd (pool_wait (v_pool v)))" by (auto simp: cv_inv_def intro: pool_step_inv pool_step.wait)
  with wait_return show ?case
    by (auto simp: cv_inv_def asleep_ok_def somebody_awake_def pool_wait_def split: option.splits)
next
  case (wait_sleep v)
  then show ?case by (auto simp: cv_inv_def asleep_ok_def somebody_awake_def pool_can_return_def)
qed

lemma call_step_inv: "call_step v v' \<Longrightarrow> cv_inv v \<Longrightarrow> cv_inv v'"
  by (auto elim!: call_step.cases intro: worker_cv_inv client_cv_inv)

lemma cv_step_inv: "cv_step v v' \<Longrightarrow> cv_inv v \<Longrightarrow> cv_inv v'"
proof (induction rule: cv_step.induct)
  case (call v v')
  then show ?case by (rule call_step_inv)
next
  case (start v n poll)
  then have "pool_inv (pool_start n (v_pool v))" by (auto simp: cv_inv_def intro: pool_step_inv pool_step.start)
  with start show ?case
    by (cases "p_threads (v_pool v) \<noteq> [] \<or> n = 0")
      (auto simp: cv_inv_def asleep_ok_def somebody_awake_def pool_start_def)
next
  case (enqueue v j)
  then have "pool_inv (pool_enqueue j (v_pool v))" by (auto simp: cv_inv_def intro: pool_step_inv pool_step.enqueue)
  with enqueue show ?case by (auto simp: cv_inv_def asleep_ok_def pool_enqueue_def)
next
  case (stop v)
  then have "pool_inv (pool_stop_begin (v_pool v))" by (auto simp: cv_inv_def intro: pool_step_inv pool_step.stop_begin)
  with stop show ?case
    by (auto simp: cv_inv_def asleep_ok_def somebody_awake_def pool_stop_begin_def stopClockKeeper_def Let_def)
next
  case (keeper_start v n)
  then have "pool_inv (startClockKeeper n (v_pool v))"
    by (auto simp: cv_inv_def intro: pool_step_inv pool_step.keeper_start)
  with keeper_start show ?case
    by (auto simp: cv_inv_def asleep_ok_def somebody_awake_def startClockKeeper_def)
next
  case (keeper_stop v)
  then have "pool_inv (stopClockKeeper (v_pool v))"
    by (auto simp: cv_inv_def intro: pool_step_inv pool_step.keeper_stop)
  with keeper_stop show ?case
    by (auto simp: cv_inv_def asleep_ok_def somebody_awake_def stopClockKeeper_def)
qed (auto simp: cv_inv_def asleep_ok_def somebody_awake_def)

lemma cv_reachable_inv: "cv_reachable s v \<Longrightarrow> cv_inv v"
  unfolding cv_reachable_def
proof (induction rule: rtranclp_induct)
  case base
  then show ?case by (simp add: cv_inv_def asleep_ok_def new_cv_pool_def new_pool_def pool_inv_def)
next
  case (step v v')
  then show ?case by (blast intro: cv_step_inv)
qed

lemma cv_step_pool:
  assumes "cv_step v v'" "cv_inv v"
  shows "v_pool v' = v_pool v \<or> pool_step (v_pool v) (v_pool v')"
  using assms
proof (induction rule: cv_step.induct)
  case (call v v')
  then show ?case
    by (auto simp: cv_inv_def elim!: call_step.cases dest!: worker_cv_pool client_cv_pool intro: pool_step.worker)
next
  case (enqueue v j)
  then show ?case by (auto simp: cv_inv_def intro: pool_step.enqueue)
qed (auto intro: pool_step.intros)

text \<open>So what holds of every interleaving of the critical sections holds here.\<close>

lemma cv_reachable_pool: "cv_reachable s v \<Longrightarrow> reachable s (v_pool v)"
  unfolding cv_reachable_def
proof (induction rule: rtranclp_induct)
  case base
  then show ?case by (simp add: reachable_def new_cv_pool_def)
next
  case (step v v')
  from step.hyps(1) have "cv_inv v" by (rule cv_reachable_inv [unfolded cv_reachable_def])
  with step show ?case using cv_step_pool [of v v'] unfolding reachable_def by (auto intro: rtranclp.rtrancl_into_rtrancl)
qed

section \<open>No call hangs\<close>

text \<open>Inside a call, short of its end, somebody can always move without a spurious wake-up.\<close>

lemma awake_worker_moves:
  assumes "cv_inv v" "i < length (p_threads (v_pool v))" "i \<notin> v_asleep v" "p_threads (v_pool v) ! i \<noteq> Returned"
    "p_threads (v_pool v) ! i = AtQueue \<longrightarrow> p_jobs (v_pool v) \<noteq> [] \<or> p_terminate (v_pool v)"
  shows "\<exists>v'. worker_cv v v'"
proof (cases "p_threads (v_pool v) ! i")
  case AtQueue
  with assms show ?thesis by (cases "p_jobs (v_pool v) = []") (blast intro: worker_cv.take worker_cv.return)+
qed (use assms in \<open>auto intro: worker_cv.intros\<close>)

lemma in_flight_worker: "in_flight ws \<noteq> 0 \<Longrightarrow> \<exists>i < length ws. ws ! i \<noteq> AtQueue \<and> ws ! i \<noteq> Returned"
proof -
  assume "in_flight ws \<noteq> 0"
  then obtain w where "w \<in> set ws" "w \<noteq> AtQueue" "w \<noteq> Returned"
    by (auto simp: in_flight_def filter_empty_conv split: worker.splits)
  then show ?thesis by (metis in_set_conv_nth)
qed

lemma asleep_wait_progress:
  assumes "cv_inv v" "v_client v = WaitAsleep" "p_threads (v_pool v) \<noteq> []"
  shows "\<exists>v'. worker_cv v v'"
proof (cases "in_flight (p_threads (v_pool v)) = 0")
  case True
  with assms have j: "p_jobs (v_pool v) \<noteq> []" by (auto simp: cv_inv_def pool_inv_def)
  with assms obtain i where i: "i < length (p_threads (v_pool v))" "i \<notin> v_asleep v"
    by (auto simp: cv_inv_def somebody_awake_def)
  from assms(1,2) j i have "p_threads (v_pool v) ! i \<noteq> Returned"
    by (metis cv_inv_def nth_mem pool_inv_def)
  with assms(1) i j show ?thesis by (blast intro: awake_worker_moves)
next
  case False
  then obtain i where i: "i < length (p_threads (v_pool v))" "p_threads (v_pool v) ! i \<noteq> AtQueue"
    "p_threads (v_pool v) ! i \<noteq> Returned" using in_flight_worker by blast
  then have "i \<notin> v_asleep v" using assms(1) by (auto simp: cv_inv_def asleep_ok_def)
  with assms(1) i show ?thesis by (blast intro: awake_worker_moves)
qed

lemma joining_progress:
  assumes "cv_inv v" "v_client v = Joining"
  shows "\<exists>v'. call_step v v'"
proof (cases "\<forall>w \<in> set (p_threads (v_pool v)). w = Returned")
  case True
  with assms(2) show ?thesis by (blast intro: call_step.client client_cv.stop_end)
next
  case False
  then obtain i where "i < length (p_threads (v_pool v))" "p_threads (v_pool v) ! i \<noteq> Returned"
    by (metis in_set_conv_nth)
  moreover have "i \<notin> v_asleep v" "p_terminate (v_pool v)" using assms by (auto simp: cv_inv_def)
  ultimately show ?thesis using awake_worker_moves [OF assms(1)] by (blast intro: call_step.worker)
qed

lemma job_notify_one_total: "\<exists>b. job_notify_one a b"
  by (cases "a = {}") (auto intro: job_notify_one.intros)

lemma call_progress:
  assumes "cv_inv v" "v_client v \<noteq> Ready" "v_client v = WaitAsleep \<longrightarrow> p_threads (v_pool v) \<noteq> []"
  shows "\<exists>v'. call_step v v'"
proof (cases "v_client v")
  case EnqueueNotify
  then show ?thesis using job_notify_one_total by (blast intro: call_step.client client_cv.enqueue_notify)
next
  case StopNotify
  then show ?thesis by (blast intro: call_step.client client_cv.stop_notify)
next
  case WaitTest
  then show ?thesis by (blast intro: call_step.client client_cv.wait_return client_cv.wait_sleep)
next
  case Joining
  with assms show ?thesis by (blast intro: joining_progress)
next
  case WaitAsleep
  with assms show ?thesis using asleep_wait_progress [OF assms(1)] by (blast intro: call_step.worker)
qed (use assms in simp)

text \<open>And every such step lowers a measure.\<close>

definition place_weight :: "nat set \<Rightarrow> 's worker list \<Rightarrow> nat \<Rightarrow> nat" where
  "place_weight asleep ws i =
     (case ws ! i of AtQueue \<Rightarrow> (if i \<in> asleep then 0 else 1) | Holding j \<Rightarrow> 4 | Finished \<Rightarrow> 3 | Returned \<Rightarrow> 0)"

definition client_weight :: "nat \<Rightarrow> client_at \<Rightarrow> nat" where
  "client_weight n c =
     (case c of Ready \<Rightarrow> 0 | EnqueueNotify \<Rightarrow> 2 | StopNotify \<Rightarrow> n + 2 | Joining \<Rightarrow> 1 | WaitTest \<Rightarrow> 1 | WaitAsleep \<Rightarrow> 0)"

definition cv_work :: "'s cv_pool \<Rightarrow> nat" where
  "cv_work v = 4 * length (p_jobs (v_pool v))
     + (\<Sum>i < length (p_threads (v_pool v)). place_weight (v_asleep v) (p_threads (v_pool v)) i)
     + client_weight (length (p_threads (v_pool v))) (v_client v)"

lemma sum_change_one:
  fixes f g :: "nat \<Rightarrow> nat"
  assumes "i < n" "\<And>k. k < n \<Longrightarrow> k \<noteq> i \<Longrightarrow> g k = f k"
  shows "(\<Sum>k < n. g k) + f i = (\<Sum>k < n. f k) + g i"
proof -
  have "(\<Sum>k < n. h k) = h i + (\<Sum>k \<in> {..<n} - {i}. h k)" for h :: "nat \<Rightarrow> nat"
    using assms(1) by (simp add: sum.remove)
  moreover have "(\<Sum>k \<in> {..<n} - {i}. g k) = (\<Sum>k \<in> {..<n} - {i}. f k)" using assms(2) by (auto intro: sum.cong)
  ultimately show ?thesis by simp
qed

lemma place_weight_update:
  "i < length ws \<Longrightarrow> (\<Sum>k < length ws. place_weight a (ws[i := w]) k) + place_weight a ws i
     = (\<Sum>k < length ws. place_weight a ws k) + place_weight a (ws[i := w]) i"
  by (rule sum_change_one) (auto simp: place_weight_def)

lemma place_weight_wake:
  "(\<Sum>k < n. place_weight (a - {i}) ws k) \<le> (\<Sum>k < n. place_weight a ws k) + 1"
proof (cases "i < n")
  case True
  then have "(\<Sum>k < n. place_weight (a - {i}) ws k) + place_weight a ws i
      = (\<Sum>k < n. place_weight a ws k) + place_weight (a - {i}) ws i"
    by (rule sum_change_one) (auto simp: place_weight_def split: worker.splits)
  then show ?thesis by (auto simp: place_weight_def split: worker.splits if_splits)
next
  case False
  then have "(\<Sum>k < n. place_weight (a - {i}) ws k) = (\<Sum>k < n. place_weight a ws k)"
    by (intro sum.cong) (auto simp: place_weight_def split: worker.splits)
  then show ?thesis by simp
qed

lemma place_weight_wake_all: "(\<Sum>k < n. place_weight {} ws k) \<le> (\<Sum>k < n. place_weight a ws k) + n"
proof -
  have "(\<Sum>k < n. place_weight {} ws k) \<le> (\<Sum>k < n. place_weight a ws k + 1)"
    by (rule sum_mono) (auto simp: place_weight_def split: worker.splits)
  then show ?thesis by (simp only: sum.distrib) simp
qed

lemma worker_cv_work: "worker_cv v v' \<Longrightarrow> cv_work v' < cv_work v"
proof (induction rule: worker_cv.induct)
  case (take i v)
  then obtain j js where "p_jobs (v_pool v) = j # js" by (cases "p_jobs (v_pool v)") auto
  with take place_weight_update [of i "p_threads (v_pool v)" "v_asleep v" "Holding j"] show ?case
    by (simp add: cv_work_def place_weight_def)
next
  case (return i v)
  with place_weight_update [of i "p_threads (v_pool v)" "v_asleep v" Returned] show ?case
    by (simp add: cv_work_def place_weight_def)
next
  case (sleep i v)
  have "(\<Sum>k < length (p_threads (v_pool v)). place_weight (insert i (v_asleep v)) (p_threads (v_pool v)) k)
      + place_weight (v_asleep v) (p_threads (v_pool v)) i
    = (\<Sum>k < length (p_threads (v_pool v)). place_weight (v_asleep v) (p_threads (v_pool v)) k)
      + place_weight (insert i (v_asleep v)) (p_threads (v_pool v)) i"
    using sleep.hyps(1) by (rule sum_change_one) (auto simp: place_weight_def split: worker.splits)
  with sleep show ?case by (simp add: cv_work_def place_weight_def)
next
  case (run i v j)
  with place_weight_update [of i "p_threads (v_pool v)" "v_asleep v" Finished] show ?case
    by (simp add: cv_work_def place_weight_def)
next
  case (finish i v)
  have c: "client_weight n (if b then done_notify_all c else c) \<le> client_weight n c + 1" for n c b
    by (cases c) (simp_all add: client_weight_def done_notify_all_def)
  have "place_weight (v_asleep v) ((p_threads (v_pool v))[i := AtQueue]) i \<le> 1"
    "place_weight (v_asleep v) (p_threads (v_pool v)) i = 3"
    using finish by (simp_all add: place_weight_def)
  with place_weight_update [OF finish.hyps(1), of "v_asleep v" AtQueue]
  have "(\<Sum>k < length (p_threads (v_pool v)). place_weight (v_asleep v) ((p_threads (v_pool v))[i := AtQueue]) k) + 2
      \<le> (\<Sum>k < length (p_threads (v_pool v)). place_weight (v_asleep v) (p_threads (v_pool v)) k)" by linarith
  with c [of "length (p_threads (v_pool v))" "p_outstanding (worker_finish i (v_pool v)) = 0" "v_client v"]
  show ?case by (simp add: cv_work_def split del: if_split)
qed

lemma client_cv_work: "client_cv v v' \<Longrightarrow> cv_work v' < cv_work v"
proof (induction rule: client_cv.induct)
  case (enqueue_notify v awake)
  then have "(\<Sum>k < n. place_weight awake ws k) \<le> (\<Sum>k < n. place_weight (v_asleep v) ws k) + 1"
    for n and ws :: "'a worker list" by (auto elim!: job_notify_one.cases intro: place_weight_wake [unfolded Suc_eq_plus1 [symmetric]])
  from this [of "p_threads (v_pool v)" "length (p_threads (v_pool v))"] enqueue_notify show ?case
    by (simp add: cv_work_def client_weight_def)
next
  case (stop_notify v)
  with place_weight_wake_all [where a = "v_asleep v" and ws = "p_threads (v_pool v)"
      and n = "length (p_threads (v_pool v))"] show ?case
    by (simp add: cv_work_def client_weight_def job_notify_all_def)
next
  case (stop_end v)
  then show ?case by (simp add: cv_work_def client_weight_def pool_stop_end_def)
next
  case (wait_return v)
  moreover have "p_threads (snd (pool_wait p)) = p_threads p" "p_jobs (snd (pool_wait p)) = p_jobs p" for p :: "'a pool"
    by (simp_all add: pool_wait_def split: option.splits)
  ultimately show ?case by (simp add: cv_work_def client_weight_def)
next
  case (wait_sleep v)
  then show ?case by (simp add: cv_work_def client_weight_def)
qed

lemma call_step_work: "call_step v v' \<Longrightarrow> cv_work v' < cv_work v"
  by (auto elim!: call_step.cases intro: worker_cv_work client_cv_work)

definition in_wait :: "'s cv_pool \<Rightarrow> bool" where
  "in_wait v \<longleftrightarrow> v_client v = WaitTest \<or> v_client v = WaitAsleep"

lemma call_step_in_wait:
  assumes "call_step v v'" "in_wait v'"
  shows "in_wait v \<and> length (p_threads (v_pool v')) = length (p_threads (v_pool v))"
  using assms
proof cases
  case worker
  then show ?thesis using assms(2)
    by (cases rule: worker_cv.cases) (auto simp: in_wait_def done_notify_all_def split: client_at.splits if_splits)
next
  case client
  then show ?thesis using assms(2) by (cases rule: client_cv.cases) (auto simp: in_wait_def)
qed

text \<open>Once \<open>wait\<close> has returned nothing is outstanding, and it stays so until the next call.\<close>

lemma call_step_waited:
  assumes "call_step v v'" "cv_inv v" "in_wait v \<or> v_client v = Ready \<and> p_outstanding (v_pool v) = 0"
  shows "in_wait v' \<or> v_client v' = Ready \<and> p_outstanding (v_pool v') = 0"
  using assms(1)
proof cases
  case worker
  then show ?thesis using assms(3)
    by (cases rule: worker_cv.cases) (auto simp: in_wait_def done_notify_all_def)
next
  case client
  then show ?thesis using assms(3)
    by (cases rule: client_cv.cases) (auto simp: in_wait_def pool_wait_def pool_can_return_def split: option.splits)
qed

lemma call_steps_spec:
  assumes "(call_step ^^ n) v v'" "cv_inv v" "in_wait v \<longrightarrow> p_threads (v_pool v) \<noteq> []"
  shows "n + cv_work v' \<le> cv_work v \<and> cv_inv v' \<and> (in_wait v' \<longrightarrow> p_threads (v_pool v') \<noteq> [])
    \<and> (in_wait v \<longrightarrow> in_wait v' \<or> v_client v' = Ready \<and> p_outstanding (v_pool v') = 0)"
  using assms(1)
proof (induction n arbitrary: v')
  case 0
  with assms show ?case by simp
next
  case (Suc n)
  then obtain u where u: "(call_step ^^ n) v u" "call_step u v'" by auto
  note ih = Suc.IH [OF u(1)]
  have "n + cv_work u \<le> cv_work v" "cv_work v' < cv_work u" "cv_inv u" using ih u call_step_work by blast+
  moreover have "cv_inv v'" using ih u call_step_inv by blast
  moreover have "in_wait v' \<longrightarrow> p_threads (v_pool v') \<noteq> []" using ih call_step_in_wait [OF u(2)] by auto
  moreover have "in_wait v \<longrightarrow> in_wait v' \<or> v_client v' = Ready \<and> p_outstanding (v_pool v') = 0"
    using ih call_step_waited [OF u(2)] by blast
  ultimately show ?case by linarith
qed

text \<open>C29: no wake-up is lost: with one client thread, from every reachable state of the pool and
  its condition variables the client is inside enqueue, stop or wait for at most as many
  further steps as the work left counts, and until the call returns some thread can always
  take a step, however the threads interleave and whichever sleeper a notification wakes; a
  wait needs a worker, and when it returns the queue is empty and every job enqueued was
  executed (steps are critical sections and notifications, wake-ups without a notification and
  the spinning of polling workers not counted)\<close>

lemma calls_return:
  assumes "cv_reachable s v" "in_wait v \<longrightarrow> p_threads (v_pool v) \<noteq> []" "(call_step ^^ n) v v'"
  shows "n \<le> cv_work v \<and> (v_client v' \<noteq> Ready \<longrightarrow> (\<exists>v''. call_step v' v''))
    \<and> (in_wait v \<and> v_client v' = Ready \<longrightarrow>
         p_jobs (v_pool v') = [] \<and> mset (p_executed (v_pool v')) = mset (p_enqueued (v_pool v')))"
proof -
  note s = call_steps_spec [OF assms(3) cv_reachable_inv [OF assms(1)] assms(2)]
  have "v_client v' \<noteq> Ready \<longrightarrow> (\<exists>v''. call_step v' v'')" using s call_progress [of v'] by (auto simp: in_wait_def)
  moreover have "p_jobs (v_pool v') = [] \<and> mset (p_executed (v_pool v')) = mset (p_enqueued (v_pool v'))"
    if "p_outstanding (v_pool v') = 0"
    using s that in_flight_0_held [of "p_threads (v_pool v')"] by (auto simp: cv_inv_def pool_inv_def)
  ultimately show ?thesis using s by (auto simp: in_wait_def)
qed

section \<open>A concrete run\<close>

text \<open>One worker goes to sleep, a job wakes it, and the client sleeps in \<open>wait\<close> before it runs.\<close>

definition demo_cv :: "nat pool \<Rightarrow> nat set \<Rightarrow> client_at \<Rightarrow> nat cv_pool" where
  "demo_cv p a c = \<lparr> v_pool = p, v_poll = False, v_asleep = a, v_client = c \<rparr>"

abbreviation "demo_started \<equiv> pool_start 1 (new_pool (0::nat))"
abbreviation "demo_queued \<equiv> pool_enqueue tick demo_started"

lemma demo_cv_simps [simp]:
  "v_pool (demo_cv p a c) = p" "v_asleep (demo_cv p a c) = a" "v_client (demo_cv p a c) = c" "v_poll (demo_cv p a c) = False"
  "(demo_cv p a c)\<lparr> v_pool := q \<rparr> = demo_cv q a c" "(demo_cv p a c)\<lparr> v_asleep := b \<rparr> = demo_cv p b c"
  "(demo_cv p a c)\<lparr> v_client := d \<rparr> = demo_cv p a d" "(demo_cv p a c)\<lparr> v_poll := False \<rparr> = demo_cv p a c"
  by (simp_all add: demo_cv_def)

lemma demo_pool_fields:
  "p_threads demo_started = [AtQueue]" "p_jobs demo_started = []" "p_terminate demo_started = False"
  "p_threads demo_queued = [AtQueue]" "p_jobs demo_queued = [tick]" "p_outstanding demo_queued = 1"
  by (simp_all add: pool_enqueue_def pool_start_def new_pool_def)

lemma demo_waits: "cv_reachable 0 (demo_cv demo_queued {} WaitAsleep)"
proof -
  note f = demo_pool_fields
  have "cv_step (demo_cv (new_pool 0) {} Ready) (demo_cv demo_started {} Ready)"
    using cv_step.start [of "demo_cv (new_pool 0) {} Ready" 1 False] by (simp add: new_pool_def)
  moreover have "cv_step (demo_cv demo_started {} Ready) (demo_cv demo_started {0} Ready)"
    using worker_cv.sleep [of 0 "demo_cv demo_started {} Ready"] f by (auto intro!: cv_step.call call_step.worker)
  moreover have "cv_step (demo_cv demo_started {0} Ready) (demo_cv demo_queued {0} EnqueueNotify)"
    using cv_step.enqueue [of "demo_cv demo_started {0} Ready" tick] by simp
  moreover have "cv_step (demo_cv demo_queued {0} EnqueueNotify) (demo_cv demo_queued {} Ready)"
    using client_cv.enqueue_notify [of "demo_cv demo_queued {0} EnqueueNotify" "{}"] job_notify_one.wake [of 0 "{0}"]
    by (auto intro!: cv_step.call call_step.client)
  moreover have "cv_step (demo_cv demo_queued {} Ready) (demo_cv demo_queued {} WaitTest)"
    using cv_step.wait [of "demo_cv demo_queued {} Ready"] by simp
  moreover have "cv_step (demo_cv demo_queued {} WaitTest) (demo_cv demo_queued {} WaitAsleep)"
    using client_cv.wait_sleep [of "demo_cv demo_queued {} WaitTest"] f
    by (auto intro!: cv_step.call call_step.client simp: pool_can_return_def)
  moreover have "new_cv_pool 0 = demo_cv (new_pool 0) {} Ready" by (simp add: new_cv_pool_def demo_cv_def)
  ultimately show ?thesis unfolding cv_reachable_def by (metis (no_types) converse_rtranclp_into_rtranclp rtranclp.rtrancl_refl)
qed

lemma demo_served_steps: "(call_step ^^ 4) (demo_cv demo_queued {} WaitAsleep) (demo_cv (one_job tick demo_queued) {} Ready)"
proof -
  let ?t = "worker_take 0 demo_queued" let ?r = "worker_run 0 tick ?t"
  have o: "p_outstanding (one_job tick demo_queued) = 0" "p_first_error (one_job tick demo_queued) = None"
    by (simp_all add: one_job_def worker_finish_def worker_run_def worker_take_def pool_enqueue_def pool_start_def
        new_pool_def tick_def)
  have 1: "call_step (demo_cv demo_queued {} WaitAsleep) (demo_cv ?t {} WaitAsleep)"
    using worker_cv.take [of 0 "demo_cv demo_queued {} WaitAsleep"] demo_pool_fields by (auto intro!: call_step.worker)
  have 2: "call_step (demo_cv ?t {} WaitAsleep) (demo_cv ?r {} WaitAsleep)"
    using worker_cv.run [of 0 "demo_cv ?t {} WaitAsleep" tick] demo_pool_fields by (auto intro!: call_step.worker)
  have 3: "call_step (demo_cv ?r {} WaitAsleep) (demo_cv (one_job tick demo_queued) {} WaitTest)"
    using worker_cv.finish [of 0 "demo_cv ?r {} WaitAsleep"] demo_pool_fields o
    by (auto intro!: call_step.worker simp: done_notify_all_def one_job_def)
  have "snd (pool_wait (one_job tick demo_queued)) = one_job tick demo_queued"
    using o by (simp add: pool_wait_def pool_can_return_def)
  then have 4: "call_step (demo_cv (one_job tick demo_queued) {} WaitTest) (demo_cv (one_job tick demo_queued) {} Ready)"
    using client_cv.wait_return [of "demo_cv (one_job tick demo_queued) {} WaitTest"] o
    by (auto intro!: call_step.client simp: pool_can_return_def)
  from 1 2 3 4 have "(call_step ^^ Suc (Suc (Suc (Suc 0)))) (demo_cv demo_queued {} WaitAsleep)
      (demo_cv (one_job tick demo_queued) {} Ready)"
    by (blast intro: relpowp_Suc_I relpowp_0_I)
  then show ?thesis by (simp add: numeral_eq_Suc)
qed

lemma calls_return_witness:
  "let v = demo_cv demo_queued {} WaitAsleep; p = one_job tick demo_queued
   in 4 \<le> cv_work v \<and> p_jobs p = [] \<and> mset (p_executed p) = mset (p_enqueued p)"
  using calls_return [OF demo_waits _ demo_served_steps] demo_pool_fields by (simp add: in_wait_def Let_def)

end
